(* ===== verification/Prelude.thy ===== *)
theory Prelude
  imports Main "HOL-Library.AList" "HOL-Library.Char_ord" "HOL-Library.List_Lexorder"
begin

section \<open>Shared vocabulary of the development\<close>

text \<open>
  The repository is a Python program. This theory fixes how its basic values are read in HOL:
  exceptions as values of a sum type, dictionaries as association lists with distinct keys,
  JSON values, the string operations \<open>str.split\<close> and \<open>str.join\<close>, the conversion \<open>int(x)\<close> and
  the decimal printer \<open>str(n)\<close>. It also holds the generic lemmas the component theories share
  and the collections \<open>py_simps\<close> (equations) and \<open>py_dict\<close> (facts on dictionaries).
\<close>

named_theorems py_simps \<open>equations that evaluate the shared operations\<close>
named_theorems py_dict \<open>facts on dictionaries kept as association lists\<close>

subsection \<open>Exceptions as values\<close>

datatype py_error =
    KeyError string
  | IndexError
  | ValueError string
  | TypeError string
  | AssertionError
  | AttributeError string
  | NotFound
  | UnboundLocalError string
  | RatelimitError
  | TimeoutExpired
  | CacheError
  | ZeroDivisionError
  | DataExists
  | NameError string
  | PyException string

type_synonym 'a result = "py_error + 'a"

definition bindr :: "'a result \<Rightarrow> ('a \<Rightarrow> 'b result) \<Rightarrow> 'b result" where
  "bindr m f = (case m of Inl e \<Rightarrow> Inl e | Inr x \<Rightarrow> f x)"

lemma bindr_Inr [simp, py_simps]: "bindr (Inr x) f = f x"
  by (simp add: bindr_def)

lemma bindr_Inl [simp, py_simps]: "bindr (Inl e) f = Inl e"
  by (simp add: bindr_def)

lemma bindr_eq_Inr_iff: "bindr m f = Inr y \<longleftrightarrow> (\<exists>x. m = Inr x \<and> f x = Inr y)"
  by (cases m) auto

lemma bindr_cong [fundef_cong]:
  "m = m' \<Longrightarrow> (\<And>x. m' = Inr x \<Longrightarrow> f x = g x) \<Longrightarrow> bindr m f = bindr m' g"
  by (cases m') auto

text \<open>A \<open>for\<close> loop whose body may raise: it stops at the first exception.\<close>

fun mapr :: "('a \<Rightarrow> 'b result) \<Rightarrow> 'a list \<Rightarrow> 'b list result" where
  "mapr f [] = Inr []"
| "mapr f (x # xs) = bindr (f x) (\<lambda>y. bindr (mapr f xs) (\<lambda>ys. Inr (y # ys)))"

lemma mapr_total: "(\<And>x. x \<in> set xs \<Longrightarrow> f x = Inr (g x)) \<Longrightarrow> mapr f xs = Inr (map g xs)"
  by (induction xs) auto

fun foldm :: "('a \<Rightarrow> 's \<Rightarrow> 's result) \<Rightarrow> 'a list \<Rightarrow> 's \<Rightarrow> 's result" where
  "foldm f [] s = Inr s"
| "foldm f (x # xs) s = bindr (f x s) (foldm f xs)"

lemma foldm_total: "(\<And>x s. x \<in> set xs \<Longrightarrow> f x s = Inr (g x s)) \<Longrightarrow> foldm f xs s = Inr (fold g xs s)"
  by (induction xs arbitrary: s) auto

lemma foldm_invariant:
  assumes "\<And>x s. x \<in> set xs \<Longrightarrow> P s \<Longrightarrow> \<exists>s'. f x s = Inr s' \<and> P s'" "P s"
  shows "\<exists>s'. foldm f xs s = Inr s' \<and> P s'"
  using assms
proof (induction xs arbitrary: s)
  case (Cons x xs)
  then obtain s1 where "f x s = Inr s1" "P s1" by (metis list.set_intros(1))
  then show ?case using Cons.IH [of s1] Cons.prems(1) by simp
qed simp

lemma foldm_preserves:
  assumes "\<And>x s s'. x \<in> set xs \<Longrightarrow> P s \<Longrightarrow> f x s = Inr s' \<Longrightarrow> P s'" "P s" "foldm f xs s = Inr s'"
  shows "P s'"
  using assms
proof (induction xs arbitrary: s)
  case (Cons x xs)
  then obtain s1 where "f x s = Inr s1" "foldm f xs s1 = Inr s'" by (auto simp: bindr_eq_Inr_iff)
  moreover from this have "P s1" using Cons.prems(1) [of x s s1] Cons.prems(2) by simp
  moreover have "\<And>y u u'. y \<in> set xs \<Longrightarrow> P u \<Longrightarrow> f y u = Inr u' \<Longrightarrow> P u'" using Cons.prems(1) by (meson list.set_intros(2))
  ultimately show ?case using Cons.IH [of s1] by blast
qed simp

text \<open>
  A frame condition: a relation between the states before and after a step that composes, and an invariant that
  every such step keeps. It carries over to loops.
\<close>

locale frame_relation =
  fixes inv :: "'s \<Rightarrow> bool" and frame :: "'s \<Rightarrow> 's \<Rightarrow> bool"
  assumes frame_refl: "frame w w"
    and frame_trans: "frame w w' \<Longrightarrow> frame w' w'' \<Longrightarrow> frame w w''"
    and frame_inv: "inv w \<Longrightarrow> frame w w' \<Longrightarrow> inv w'"
begin

lemma foldm_frame:
  assumes "\<And>x w w'. x \<in> set xs \<Longrightarrow> inv w \<Longrightarrow> f x w = Inr w' \<Longrightarrow> frame w w'" "inv w" "foldm f xs w = Inr w'"
  shows "frame w w'"
proof -
  have "inv w' \<and> frame w w'"
  proof (rule foldm_preserves [where P = "\<lambda>u. inv u \<and> frame w u", OF _ _ assms(3)])
    fix x u u' assume "x \<in> set xs" "inv u \<and> frame w u" "f x u = Inr u'"
    then show "inv u' \<and> frame w u'" using assms(1) frame_inv frame_trans by blast
  qed (simp add: assms(2) frame_refl)
  then show ?thesis by simp
qed

end

fun foldr_state :: "('a \<Rightarrow> 's \<Rightarrow> 's) \<Rightarrow> 'a list \<Rightarrow> 's \<Rightarrow> 's" where
  "foldr_state f [] s = s"
| "foldr_state f (x # xs) s = foldr_state f xs (f x s)"

lemma foldr_state_fold [simp]: "foldr_state f xs s = fold f xs s"
  by (induction xs arbitrary: s) auto

subsection \<open>Sets\<close>

lemma ball_subset: "A \<subseteq> B \<Longrightarrow> \<forall>x \<in> B. P x \<Longrightarrow> \<forall>x \<in> A. P x"
  by blast

lemma disjoint_mono: "A \<subseteq> B \<Longrightarrow> C \<subseteq> D \<Longrightarrow> B \<inter> D = {} \<Longrightarrow> A \<inter> C = {}"
  by blast

subsection \<open>Dictionaries\<close>

text \<open>
  A \<open>dict\<close> is an association list. The invariant \<open>dict_ok\<close> says that no key occurs twice;
  \<open>AList.update\<close> is \<open>d[k] = v\<close>, \<open>AList.delete\<close> is \<open>del d[k]\<close> and \<open>map_of\<close> is \<open>d.get(k)\<close>.
\<close>

type_synonym ('k, 'v) dict = "('k \<times> 'v) list"

definition dict_ok :: "('k, 'v) dict \<Rightarrow> bool" where
  "dict_ok d \<longleftrightarrow> distinct (map fst d)"

definition dict_pop :: "string \<Rightarrow> (string, 'v) dict \<Rightarrow> ('v \<times> (string, 'v) dict) result" where
  "dict_pop k d = (case map_of d k of None \<Rightarrow> Inl (KeyError k) | Some v \<Rightarrow> Inr (v, AList.delete k d))"

definition dict_pop_default :: "string \<Rightarrow> 'v \<Rightarrow> (string, 'v) dict \<Rightarrow> 'v \<times> (string, 'v) dict" where
  "dict_pop_default k v d = (case map_of d k of None \<Rightarrow> (v, d) | Some v' \<Rightarrow> (v', AList.delete k d))"

definition dict_update :: "('k, 'v) dict \<Rightarrow> ('k, 'v) dict \<Rightarrow> ('k, 'v) dict" where
  "dict_update d e = fold (\<lambda>(k, v). AList.update k v) e d"

lemma dict_ok_Nil [simp, py_dict]: "dict_ok []"
  by (simp add: dict_ok_def)

lemma dict_ok_update [simp, py_dict]: "dict_ok d \<Longrightarrow> dict_ok (AList.update k v d)"
  by (simp add: dict_ok_def distinct_update)

lemma dict_ok_delete [simp, py_dict]: "dict_ok d \<Longrightarrow> dict_ok (AList.delete k d)"
  unfolding dict_ok_def by (rule distinct_delete)

lemma map_of_update [simp, py_dict]: "map_of (AList.update k v d) = (map_of d)(k \<mapsto> v)"
  by (simp add: update_conv')

lemma map_of_delete [simp, py_dict]: "map_of (AList.delete k d) = (map_of d)(k := None)"
  by (simp add: delete_conv')

lemma dict_ok_dict_update [py_dict]: "dict_ok d \<Longrightarrow> dict_ok (dict_update d e)"
  unfolding dict_update_def by (induction e arbitrary: d) auto

lemma map_of_dict_update [py_dict]:
  "dict_ok e \<Longrightarrow> map_of (dict_update d e) = map_of d ++ map_of e"
proof (induction e arbitrary: d)
  case Nil
  then show ?case by (simp add: dict_update_def)
next
  case (Cons kv e)
  obtain k v where kv: "kv = (k, v)" by (cases kv)
  from Cons.prems have e: "dict_ok e" and k: "k \<notin> set (map fst e)"
    by (auto simp: dict_ok_def kv)
  from k have ke: "map_of e k = None"
    by (simp add: map_of_eq_None_iff)
  have "map_of (dict_update d (kv # e)) = map_of (AList.update k v d) ++ map_of e"
    using Cons.IH [OF e, of "AList.update k v d"] by (simp add: dict_update_def kv fun_upd_def)
  also have "\<dots> = map_of d ++ map_of (kv # e)"
    using ke by (auto simp: kv fun_eq_iff map_add_def split: option.splits)
  finally show ?case .
qed

lemma sum_list_update_Some:
  fixes d :: "('k, int) dict"
  assumes "dict_ok d" "map_of d k = Some v"
  shows "(\<Sum>(k', x)\<leftarrow>AList.update k w d. if P k' then x else 0)
       = (\<Sum>(k', x)\<leftarrow>d. if P k' then x else 0) + (if P k then w - v else 0)"
  using assms
proof (induction d)
  case Nil
  then show ?case by simp
next
  case (Cons kv d)
  then show ?case
    by (cases kv) (auto simp: dict_ok_def)
qed

lemma sum_list_update_None:
  fixes d :: "('k, int) dict"
  assumes "map_of d k = None"
  shows "(\<Sum>(k', x)\<leftarrow>AList.update k w d. if P k' then x else 0)
       = (\<Sum>(k', x)\<leftarrow>d. if P k' then x else 0) + (if P k then w else 0)"
  using assms by (induction d) auto

lemma sum_snd_update:
  fixes f :: "'v \<Rightarrow> int"
  assumes "dict_ok d"
  shows "(\<Sum>(k', x)\<leftarrow>AList.update k v d. f x)
       = (\<Sum>(k', x)\<leftarrow>d. f x) + f v - (case map_of d k of None \<Rightarrow> 0 | Some x \<Rightarrow> f x)"
  using assms
proof (induction d)
  case Nil
  then show ?case by simp
next
  case (Cons kv d)
  then show ?case
    by (cases kv) (auto simp: dict_ok_def split: option.splits)
qed

subsection \<open>JSON values\<close>

datatype json =
    JNull
  | JBool bool
  | JNum int
  | JStr string
  | JObj "(string \<times> json) list"
  | JList "json list"

text \<open>Python truth of a JSON value.\<close>

fun json_true :: "json \<Rightarrow> bool" where
  "json_true JNull = False"
| "json_true (JBool b) = b"
| "json_true (JNum n) = (n \<noteq> 0)"
| "json_true (JStr s) = (s \<noteq> [])"
| "json_true (JObj d) = (d \<noteq> [])"
| "json_true (JList xs) = (xs \<noteq> [])"

definition json_dict :: "json \<Rightarrow> (string, json) dict result" where
  "json_dict j = (case j of JObj d \<Rightarrow> Inr d | _ \<Rightarrow> Inl (TypeError ''dict''))"

text \<open>A dictionary that may be absent or null, as \<open>d.get(key)\<close> gives it.\<close>

definition json_get :: "string \<Rightarrow> (string, json) dict \<Rightarrow> json" where
  "json_get k d = (case map_of d k of None \<Rightarrow> JNull | Some j \<Rightarrow> j)"

subsection \<open>Strings: \<open>split\<close> and \<open>join\<close>\<close>

text \<open>Python's \<open>s.split(c)\<close> for a one-character separator: never the empty list.\<close>

fun split_on :: "char \<Rightarrow> string \<Rightarrow> string list" where
  "split_on c [] = [[]]"
| "split_on c (x # xs) =
     (if x = c then [] # split_on c xs
      else (case split_on c xs of [] \<Rightarrow> [[x]] | y # ys \<Rightarrow> (x # y) # ys))"

fun join_with :: "string \<Rightarrow> string list \<Rightarrow> string" where
  "join_with sep [] = []"
| "join_with sep [x] = x"
| "join_with sep (x # y # ys) = x @ sep @ join_with sep (y # ys)"

lemma split_on_not_Nil [simp]: "split_on c s \<noteq> []"
  by (induction s) (auto split: list.splits)

lemma split_on_no_sep: "c \<notin> set s \<Longrightarrow> split_on c s = [s]"
  by (induction s) auto

lemma split_on_append: "c \<notin> set s \<Longrightarrow> split_on c (s @ c # t) = s # split_on c t"
  by (induction s) auto

lemma split_join: "xs \<noteq> [] \<Longrightarrow> \<forall>x \<in> set xs. c \<notin> set x \<Longrightarrow> split_on c (join_with [c] xs) = xs"
proof (induction "[c]" xs rule: join_with.induct)
  case (3 x y ys)
  then show ?case by (simp add: split_on_append)
qed (auto simp: split_on_no_sep)

lemma join_split: "join_with [c] (split_on c s) = s"
proof (induction s)
  case Nil
  then show ?case by simp
next
  case (Cons x s)
  obtain y ys where ys: "split_on c s = y # ys"
    by (cases "split_on c s") auto
  with Cons show ?case
    by (cases ys) auto
qed

lemma join_with_eq_Nil: "join_with [c] xs = [] \<longleftrightarrow> xs = [] \<or> xs = [[]]"
  by (induction "[c]" xs rule: join_with.induct) auto

lemma split_on_parts: "x \<in> set (split_on c s) \<Longrightarrow> c \<notin> set x \<and> set x \<subseteq> set s"
proof (induction s arbitrary: x)
  case (Cons y s)
  obtain z zs where z: "split_on c s = z # zs" by (cases "split_on c s") auto
  show ?case
  proof (cases "y = c")
    case True
    then show ?thesis using Cons by auto
  next
    case False
    then have "x = y # z \<or> x \<in> set zs" using Cons.prems z by auto
    then show ?thesis using Cons.IH [of z] Cons.IH [of x] z False by auto
  qed
qed simp

text \<open>\<open>str.lower\<close> on ASCII and \<open>str.startswith\<close>.\<close>

definition lower_char :: "char \<Rightarrow> char" where
  "lower_char c = (let n = of_char c :: nat in if 65 \<le> n \<and> n \<le> 90 then char_of (n + 32) else c)"

definition py_lower :: "string \<Rightarrow> string" where
  "py_lower s = map lower_char s"

definition startswith :: "string \<Rightarrow> string \<Rightarrow> bool" where
  "startswith s pre \<longleftrightarrow> take (length pre) s = pre"

lemma lower_char_idem [simp]: "lower_char (lower_char c) = lower_char c"
proof -
  have "of_char (char_of (n + 32) :: char) = n + 32" if "65 \<le> n" "n \<le> 90" for n :: nat using that by simp
  then show ?thesis by (simp add: lower_char_def Let_def)
qed

lemma py_lower_idem [simp]: "py_lower (py_lower s) = py_lower s"
  by (simp add: py_lower_def)

lemma py_lower_append [simp]: "py_lower (s @ t) = py_lower s @ py_lower t"
  by (simp add: py_lower_def)

subsection \<open>Numbers and their decimal spelling\<close>

definition digit_char :: "nat \<Rightarrow> char" where
  "digit_char d = char_of (48 + d)"

definition char_digit :: "char \<Rightarrow> nat option" where
  "char_digit c = (let n = of_char c :: nat in if 48 \<le> n \<and> n \<le> 57 then Some (n - 48) else None)"

fun digits_of :: "nat \<Rightarrow> string" where
  "digits_of n = (if n < 10 then [digit_char n] else digits_of (n div 10) @ [digit_char (n mod 10)])"

declare digits_of.simps [simp del]

fun parse_digits :: "nat \<Rightarrow> string \<Rightarrow> nat option" where
  "parse_digits acc [] = Some acc"
| "parse_digits acc (c # cs) =
     (case char_digit c of None \<Rightarrow> None | Some d \<Rightarrow> parse_digits (10 * acc + d) cs)"

definition py_str_int :: "int \<Rightarrow> string" where
  "py_str_int n = (if n < 0 then CHR ''-'' # digits_of (nat (- n)) else digits_of (nat n))"

text \<open>\<open>int(s)\<close> on a string: an optional sign and decimal digits, anything else raises.\<close>

definition py_int_str :: "string \<Rightarrow> int result" where
  "py_int_str s =
     (let parse = (\<lambda>t. if t = [] then None else parse_digits 0 t) in
      case (case s of
              [] \<Rightarrow> None
            | c # cs \<Rightarrow>
                if c = CHR ''-'' then map_option (\<lambda>n. - int n) (parse cs)
                else if c = CHR ''+'' then map_option int (parse cs)
                else map_option int (parse s))
      of None \<Rightarrow> Inl (ValueError s) | Some n \<Rightarrow> Inr n)"

definition py_int :: "json \<Rightarrow> int result" where
  "py_int j =
     (case j of
        JNum n \<Rightarrow> Inr n
      | JBool b \<Rightarrow> Inr (if b then 1 else 0)
      | JStr s \<Rightarrow> py_int_str s
      | JNull \<Rightarrow> Inl (TypeError ''int'')
      | JObj _ \<Rightarrow> Inl (TypeError ''int'')
      | JList _ \<Rightarrow> Inl (TypeError ''int''))"

text \<open>White space is stripped before \<open>int(s)\<close> reads the number.\<close>

definition space_char :: "char \<Rightarrow> bool" where
  "space_char c \<longleftrightarrow> c \<in> {CHR '' '', CHR 0x09, CHR 0x0A, CHR 0x0B, CHR 0x0C, CHR 0x0D}"

definition py_strip :: "string \<Rightarrow> string" where
  "py_strip s = rev (dropWhile space_char (rev (dropWhile space_char s)))"

definition py_int_stripped :: "string \<Rightarrow> int result" where
  "py_int_stripped s = py_int_str (py_strip s)"

lemma char_digit_digit_char [simp]: "d < 10 \<Longrightarrow> char_digit (digit_char d) = Some d"
  by (simp add: char_digit_def digit_char_def Let_def)

lemma parse_digits_append:
  "parse_digits acc (xs @ ys) =
     (case parse_digits acc xs of None \<Rightarrow> None | Some a \<Rightarrow> parse_digits a ys)"
  by (induction xs arbitrary: acc) (auto split: option.splits)

lemma parse_digits_of: "parse_digits 0 (digits_of n) = Some n"
proof (induction n rule: digits_of.induct)
  case (1 n)
  then show ?case
    by (subst digits_of.simps) (auto simp: parse_digits_append)
qed

lemma digits_of_not_Nil [simp]: "digits_of n \<noteq> []"
  by (subst digits_of.simps) simp

lemma char_digit_set_digits_of: "c \<in> set (digits_of n) \<Longrightarrow> char_digit c \<noteq> None"
proof (induction n rule: digits_of.induct)
  case (1 n)
  then show ?case
    by (subst (asm) digits_of.simps) (auto split: if_splits)
qed

lemma char_digit_sign: "char_digit CHR ''-'' = None" "char_digit CHR ''+'' = None"
  by (simp_all add: char_digit_def)

lemma digits_of_hd: "digits_of n = c # cs \<Longrightarrow> c \<noteq> CHR ''-'' \<and> c \<noteq> CHR ''+''"
  using char_digit_set_digits_of [of c n] char_digit_sign by auto

lemma py_int_str_py_str_int [simp]: "py_int_str (py_str_int n) = Inr n"
proof (cases "n < 0")
  case True
  then show ?thesis
    by (simp add: py_int_str_def py_str_int_def Let_def parse_digits_of)
next
  case False
  obtain c cs where c: "digits_of (nat n) = c # cs"
    by (cases "digits_of (nat n)") auto
  with False show ?thesis
    using digits_of_hd [OF c] parse_digits_of [of "nat n"]
    by (simp add: py_int_str_def py_str_int_def Let_def)
qed

subsection \<open>Sorting in descending order\<close>

text \<open>\<open>sort(key=f, reverse=True)\<close>: equal elements keep their order.\<close>

definition sort_reverse :: "('a \<Rightarrow> 'k::linorder) \<Rightarrow> 'a list \<Rightarrow> 'a list" where
  "sort_reverse f xs = rev (sort_key f (rev xs))"

lemma set_sort_reverse [simp]: "set (sort_reverse f xs) = set xs"
  by (simp add: sort_reverse_def)

lemma distinct_sort_reverse [simp]: "distinct (sort_reverse f xs) = distinct xs"
  by (simp add: sort_reverse_def)

lemma length_sort_reverse [simp]: "length (sort_reverse f xs) = length xs"
  by (simp add: sort_reverse_def)

lemma sorted_sort_reverse: "sorted_wrt (\<lambda>a b. f b \<le> f a) (sort_reverse f xs)"
  using sorted_sort_key [of f "rev xs"] by (simp add: sort_reverse_def sorted_wrt_rev sorted_map)

lemma distinct_map_sort_reverse: "distinct (map g (sort_reverse f xs)) = distinct (map g xs)"
  unfolding distinct_map by simp

end
