(* ===== verification/Hooks.thy ===== *)
theory Hooks
  imports Prelude
begin

section \<open>Hooks: the registry of named event handlers\<close>

text \<open>
  Models \<open>r2/lib/hooks.py\<close>. A \<open>Hook\<close> is the list of its handlers; the module dictionary
  \<open>_HOOKS\<close> maps names to hooks; a \<open>HookRegistrar\<close> collects registrations until
  \<open>register_all\<close>. A handler is a function of the keyword arguments and of the state of the
  program it may change; its result is \<open>None\<close> or a value.
\<close>

type_synonym ('kw, 's, 'r) handler = "'kw \<Rightarrow> 's \<Rightarrow> 'r option \<times> 's"

type_synonym ('kw, 's, 'r) registry = "(string, ('kw, 's, 'r) handler list) dict"

record ('kw, 's, 'r) registrar =
  registered :: bool
  connections :: "(string \<times> ('kw, 's, 'r) handler) list"

text \<open>\<open>Hook.register_handler\<close>, \<open>Hook.call\<close> and \<open>Hook.call_until_return\<close>.\<close>

definition register_handler :: "'h list \<Rightarrow> 'h \<Rightarrow> 'h list" where
  "register_handler handlers h = handlers @ [h]"

fun call :: "('kw, 's, 'r) handler list \<Rightarrow> 'kw \<Rightarrow> 's \<Rightarrow> 'r option list \<times> 's" where
  "call [] kw s = ([], s)"
| "call (h # hs) kw s =
     (let (r, s') = h kw s; (rs, s'') = call hs kw s' in (r # rs, s''))"

fun call_until_return :: "('kw, 's, 'r) handler list \<Rightarrow> 'kw \<Rightarrow> 's \<Rightarrow> 'r option \<times> 's" where
  "call_until_return [] kw s = (None, s)"
| "call_until_return (h # hs) kw s =
     (let (r, s') = h kw s in
      case r of Some v \<Rightarrow> (Some v, s') | None \<Rightarrow> call_until_return hs kw s')"

text \<open>\<open>get_hook\<close> is \<open>_HOOKS.setdefault(name, Hook())\<close>.\<close>

definition get_hook :: "string \<Rightarrow> ('kw, 's, 'r) registry \<Rightarrow> ('kw, 's, 'r) registry" where
  "get_hook name reg = (case map_of reg name of None \<Rightarrow> AList.update name [] reg | Some _ \<Rightarrow> reg)"

definition handlers_of :: "('kw, 's, 'r) registry \<Rightarrow> string \<Rightarrow> ('kw, 's, 'r) handler list" where
  "handlers_of reg name = (case map_of reg name of None \<Rightarrow> [] | Some hs \<Rightarrow> hs)"

definition register_on ::
    "string \<Rightarrow> ('kw, 's, 'r) handler \<Rightarrow> ('kw, 's, 'r) registry \<Rightarrow> ('kw, 's, 'r) registry" where
  "register_on name h reg = AList.update name (register_handler (handlers_of reg name) h) reg"

text \<open>\<open>HookRegistrar.on(name)(fn)\<close>: deferred before \<open>register_all\<close>, direct after it.\<close>

definition registrar_init :: "('kw, 's, 'r) registrar" where
  "registrar_init = \<lparr>registered = False, connections = []\<rparr>"

definition on ::
    "('kw, 's, 'r) registrar \<Rightarrow> string \<Rightarrow> ('kw, 's, 'r) handler \<Rightarrow> ('kw, 's, 'r) registry
     \<Rightarrow> ('kw, 's, 'r) registrar \<times> ('kw, 's, 'r) registry" where
  "on r name fn reg =
     (let reg' = get_hook name reg in
      if registered r then (r, register_on name fn reg')
      else (r\<lparr>connections := connections r @ [(name, fn)]\<rparr>, reg'))"

definition register_all ::
    "('kw, 's, 'r) registrar \<Rightarrow> ('kw, 's, 'r) registry
     \<Rightarrow> ('kw, 's, 'r) registrar \<times> ('kw, 's, 'r) registry" where
  "register_all r reg =
     (r\<lparr>registered := True\<rparr>, fold (\<lambda>(name, h). register_on name h) (connections r) reg)"

fun on_all ::
    "(string \<times> ('kw, 's, 'r) handler) list \<Rightarrow> ('kw, 's, 'r) registrar \<times> ('kw, 's, 'r) registry
     \<Rightarrow> ('kw, 's, 'r) registrar \<times> ('kw, 's, 'r) registry" where
  "on_all [] st = st"
| "on_all ((name, fn) # ds) (r, reg) = on_all ds (on r name fn reg)"

subsection \<open>Lemmas\<close>

lemma handlers_of_get_hook [simp]: "handlers_of (get_hook n reg) m = handlers_of reg m"
  by (auto simp: handlers_of_def get_hook_def split: option.splits)

lemma handlers_of_register_on [simp]:
  "handlers_of (register_on n h reg) m
     = (if m = n then handlers_of reg n @ [h] else handlers_of reg m)"
  by (simp add: handlers_of_def register_on_def register_handler_def)

lemma handlers_of_fold_register:
  "handlers_of (fold (\<lambda>(n, h). register_on n h) ds reg) m
     = handlers_of reg m @ map snd (filter (\<lambda>d. fst d = m) ds)"
  by (induction ds arbitrary: reg) auto

lemma on_all_registered:
  assumes "registered r"
  shows "fst (on_all ds (r, reg)) = r"
    and "handlers_of (snd (on_all ds (r, reg))) m
           = handlers_of reg m @ map snd (filter (\<lambda>d. fst d = m) ds)"
  using assms
  by (induction ds arbitrary: reg rule: list.induct) (auto simp: on_def Let_def split: prod.splits)

lemma on_all_deferred:
  assumes "\<not> registered r"
  shows "fst (on_all ds (r, reg)) = r\<lparr>connections := connections r @ ds\<rparr>"
    and "handlers_of (snd (on_all ds (r, reg))) m = handlers_of reg m"
  using assms
  by (induction ds arbitrary: r reg rule: list.induct) (auto simp: on_def Let_def split: prod.splits)

lemma call_length: "length (fst (call hs kw s)) = length hs"
  by (induction hs arbitrary: s) (auto simp: Let_def case_prod_beta)

lemma call_append:
  "call (hs @ gs) kw s =
     (let (rs, s') = call hs kw s; (qs, s'') = call gs kw s' in (rs @ qs, s''))"
  by (induction hs arbitrary: s) (auto simp: Let_def split: prod.splits)

text \<open>The handler whose value \<open>call_until_return\<close> returns is the first one that answers.\<close>

lemma call_until_return_skip:
  assumes "\<And>h. h \<in> set hs \<Longrightarrow> \<forall>s. fst (h kw s) = None"
  shows "call_until_return (hs @ gs) kw s = call_until_return gs kw (snd (call hs kw s))"
  using assms
  by (induction hs arbitrary: s) (auto simp: Let_def case_prod_beta)

end
