(* ===== verification/Permissions.thy ===== *)
theory Permissions
  imports Prelude
begin

section \<open>Permission sets\<close>

text \<open>
  Models \<open>r2/lib/permissions.py\<close>: the dictionary class \<open>PermissionSet\<close>, its textual form
  (\<open>loads\<close>, \<open>dumps\<close>) and its subclass \<open>ModeratorPermissionSet\<close>. The class attribute \<open>info\<close> is
  the list of permission names the class knows (empty where the class has \<open>info = None\<close>); the
  titles and descriptions in \<open>info\<close> are display text and are left out.
\<close>

type_synonym perms = "(string, bool) dict"

definition PERM_ALL :: string where
  "PERM_ALL = ''all''"

definition moderator_info :: "string list" where
  "moderator_info = [''access'', ''config'', ''flair'', ''mail'', ''posts'', ''wiki'']"

text \<open>\<open>is_superuser\<close> reads the dictionary itself, not the overridden \<open>get\<close>.\<close>

definition is_superuser :: "perms \<Rightarrow> bool" where
  "is_superuser p = (map_of p PERM_ALL = Some True)"

definition is_valid :: "string list \<Rightarrow> perms \<Rightarrow> bool" where
  "is_valid info p =
     (if info = [] then False else list_all (\<lambda>k. k = PERM_ALL \<or> k \<in> set info) (map fst p))"

definition perm_get :: "string list \<Rightarrow> perms \<Rightarrow> string \<Rightarrow> bool option" where
  "perm_get info p key =
     (if info \<noteq> [] \<and> is_superuser p then (if key \<in> set info then Some True else None)
      else map_of p key)"

definition getitem :: "string list \<Rightarrow> perms \<Rightarrow> string \<Rightarrow> bool" where
  "getitem info p key =
     (if info \<noteq> [] \<and> is_superuser p then key = PERM_ALL \<or> key \<in> set info
      else (case map_of p key of None \<Rightarrow> False | Some b \<Rightarrow> b))"

text \<open>One term of the textual form: \<open>(term[1:], term[0] == '+')\<close>.\<close>

definition load_term :: "string \<Rightarrow> (string \<times> bool) result" where
  "load_term t = (case t of [] \<Rightarrow> Inl IndexError | c # k \<Rightarrow> Inr (k, c = CHR ''+''))"

definition loads :: "string list \<Rightarrow> string \<Rightarrow> bool \<Rightarrow> perms result" where
  "loads info encoded validate =
     (if encoded = [] then Inr []
      else bindr (mapr load_term (split_on CHR '','' encoded)) (\<lambda>terms.
        let result = dict_update [] terms;
            result = (if perm_get info result PERM_ALL = Some False
                      then AList.delete PERM_ALL result else result)
        in if validate \<and> \<not> is_valid info result then Inl (ValueError [])
           else Inr result))"

definition moderator_loads :: "string option \<Rightarrow> bool \<Rightarrow> perms result" where
  "moderator_loads encoded validate =
     (case encoded of
        None \<Rightarrow> Inr [(PERM_ALL, True)]
      | Some e \<Rightarrow> loads moderator_info e validate)"

definition dump_term :: "string \<times> bool \<Rightarrow> string" where
  "dump_term kv = (if snd kv then CHR ''+'' else CHR ''-'') # fst kv"

definition dumps :: "perms \<Rightarrow> string" where
  "dumps p =
     (if is_superuser p then ''+all''
      else join_with '','' (map dump_term (sort_key fst p)))"

subsection \<open>Lemmas\<close>

lemma load_dump_term [simp]: "load_term (dump_term kv) = Inr kv"
  by (cases kv) (simp add: load_term_def dump_term_def)

lemma mapr_load_dump: "mapr load_term (map dump_term kvs) = Inr kvs"
  by (induction kvs) auto

lemma dump_term_not_Nil [simp]: "dump_term kv \<noteq> []"
  by (simp add: dump_term_def)

lemma dump_term_no_comma:
  "CHR '','' \<notin> set (fst kv) \<Longrightarrow> CHR '','' \<notin> set (dump_term kv)"
  by (simp add: dump_term_def)

lemma map_of_sort_key: "dict_ok p \<Longrightarrow> map_of (sort_key fst p) = map_of p"
  for p :: "(string, bool) dict"
  unfolding dict_ok_def
  by (rule map_of_eqI) (auto simp: map_of_eq_Some_iff distinct_map inj_on_def intro!: map_of_inject_set [THEN iffD2])

lemma dict_ok_sort_key: "dict_ok p \<Longrightarrow> dict_ok (sort_key fst p)"
  for p :: "(string, bool) dict"
  by (auto simp: dict_ok_def distinct_map)

lemma sort_key_eq_Nil [simp]: "sort_key f xs = [] \<longleftrightarrow> xs = []"
  by (metis length_0_conv length_sort)

lemma dumps_eq_Nil: "dumps p = [] \<longleftrightarrow> p = []"
proof (cases "is_superuser p")
  case True
  then show ?thesis by (auto simp: dumps_def is_superuser_def)
next
  case False
  then show ?thesis
    using join_with_eq_Nil [of "CHR '',''" "map dump_term (sort_key fst p)"]
    by (cases p) (auto simp: dumps_def dump_term_def)
qed

text \<open>What \<open>loads\<close> makes of the terms \<open>dumps\<close> wrote: the same dictionary less a false \<open>all\<close>.\<close>

lemma loads_dumps_plain:
  assumes ok: "dict_ok p" and nc: "\<forall>kv \<in> set p. CHR '','' \<notin> set (fst kv)"
    and su: "\<not> is_superuser p"
  shows "\<exists>q. loads info (dumps p) False = Inr q \<and> dict_ok q \<and> map_of q =
           (if map_of p PERM_ALL = Some False then (map_of p)(PERM_ALL := None) else map_of p)"
proof (cases "p = []")
  case True
  then show ?thesis by (simp add: loads_def dumps_def is_superuser_def)
next
  case False
  let ?s = "sort_key fst p"
  let ?d = "dict_update [] ?s"
  have m: "map_of ?d = map_of p" and dok: "dict_ok ?d"
    using ok by (simp_all add: map_of_dict_update dict_ok_sort_key map_of_sort_key dict_ok_dict_update)
  have ne: "?s \<noteq> []" using False by simp
  have "split_on CHR '','' (dumps p) = map dump_term ?s"
    unfolding dumps_def using su ne nc by (fastforce intro!: split_join simp: dump_term_def split: if_splits)
  then have "loads info (dumps p) False = Inr (if perm_get info ?d PERM_ALL = Some False
                      then AList.delete PERM_ALL ?d else ?d)"
    using dumps_eq_Nil [of p] False by (simp add: loads_def mapr_load_dump Let_def)
  moreover have "perm_get info ?d PERM_ALL = map_of p PERM_ALL"
    using su by (simp add: perm_get_def is_superuser_def m)
  ultimately show ?thesis using m dok by auto
qed

lemma loads_plus_all: "loads info ''+all'' False = Inr [(PERM_ALL, True)]"
  by (simp add: loads_def load_term_def dict_update_def perm_get_def is_superuser_def PERM_ALL_def Let_def)

lemma getitem_plus_all: "info \<noteq> [] \<Longrightarrow> is_superuser p \<Longrightarrow> getitem info [(PERM_ALL, True)] = getitem info p"
  by (auto simp: getitem_def is_superuser_def fun_eq_iff)

lemma getitem_cong:
  assumes "\<not> is_superuser p"
    and "map_of q = (if map_of p PERM_ALL = Some False then (map_of p)(PERM_ALL := None) else map_of p)"
  shows "getitem info q = getitem info p"
  using assms by (auto simp: getitem_def is_superuser_def fun_eq_iff)

subsection \<open>Properties\<close>

text \<open>
  Writing a moderator's permissions with \<open>dumps\<close> and reading them back with \<open>loads\<close>
  never raises and grants exactly the same permissions, for every permission name: \<open>p[k]\<close> is
  unchanged. This covers superusers (stored as \<open>+all\<close>) and dictionaries with a false \<open>all\<close>.
\<close>

lemma permissions_roundtrip:
  assumes ok: "dict_ok p" and nc: "\<forall>kv \<in> set p. CHR '','' \<notin> set (fst kv)"
  shows "\<exists>q. moderator_loads (Some (dumps p)) False = Inr q \<and>
             (\<forall>k. getitem moderator_info q k = getitem moderator_info p k)"
proof (cases "is_superuser p")
  case True
  then have "dumps p = ''+all''" by (simp add: dumps_def)
  with True show ?thesis
    using getitem_plus_all [of moderator_info p]
    by (auto simp: moderator_loads_def loads_plus_all moderator_info_def fun_eq_iff)
next
  case False
  with loads_dumps_plain [OF ok nc False, of moderator_info] getitem_cong [OF False]
  show ?thesis by (auto simp: moderator_loads_def)
qed

text \<open>
  A validated moderator permission string grants nothing outside the permissions the class
  names: whatever \<open>loads(encoded, validate=True)\<close> accepts, a key that is neither \<open>all\<close> nor in
  \<open>info\<close> reads as not granted; and a superuser holds every named permission.
\<close>

lemma permissions_validated:
  assumes "moderator_loads (Some encoded) True = Inr p" and "encoded \<noteq> []"
  shows "(\<forall>k. getitem moderator_info p k \<longrightarrow> k = PERM_ALL \<or> k \<in> set moderator_info) \<and>
         (is_superuser p \<longrightarrow> (\<forall>k \<in> set moderator_info. getitem moderator_info p k))"
proof -
  have "is_valid moderator_info p"
    using assms by (auto simp: moderator_loads_def loads_def bindr_eq_Inr_iff Let_def split: if_splits)
  then have "\<forall>k \<in> set (map fst p). k = PERM_ALL \<or> k \<in> set moderator_info"
    by (simp add: is_valid_def moderator_info_def list_all_iff)
  then have named: "k = PERM_ALL \<or> k \<in> set moderator_info" if "map_of p k = Some b" for k b
    using map_of_SomeD [OF that] by force
  have ne: "moderator_info \<noteq> []" by (simp add: moderator_info_def)
  show ?thesis
    using ne by (auto simp: getitem_def split: option.splits if_splits dest: named)
qed

end
