(* ===== verification/Base36.thy ===== *)
theory Base36
  imports Prelude
begin

section \<open>Base-36 identifiers\<close>

text \<open>
  Models \<open>to_base\<close> and \<open>to36\<close> of \<open>r2/lib/utils/_utils.pyx\<close>: things are named by the base-36
  spelling of their numeric id. The reader's side is Python's \<open>int(s, 36)\<close>.
\<close>

definition alphabet36 :: string where
  "alphabet36 = ''0123456789abcdefghijklmnopqrstuvwxyz''"

text \<open>
  The loop \<open>while q != 0: q, r = divmod(q, l); converted.insert(0, alphabet[r])\<close>. The program
  calls it with the 36 digits only; on fewer than two letters, where the source divides by zero
  or runs forever, the model stops.
\<close>

function to_base_loop :: "nat \<Rightarrow> string \<Rightarrow> string \<Rightarrow> string" where
  "to_base_loop q alphabet converted =
     (if q = 0 \<or> length alphabet < 2 then converted
      else to_base_loop (q div length alphabet) alphabet
             (alphabet ! (q mod length alphabet) # converted))"
  by pat_completeness auto
termination
  by (relation "measure (\<lambda>(q, a, c). q)") auto

declare to_base_loop.simps [simp del]

definition to_base :: "int \<Rightarrow> string \<Rightarrow> string result" where
  "to_base q alphabet =
     (if q < 0 then Inl (ValueError ''must supply a positive integer'')
      else let converted = to_base_loop (nat q) alphabet [] in
           Inr (if converted = [] then ''0'' else converted))"

definition to36 :: "int \<Rightarrow> string result" where
  "to36 q = to_base q alphabet36"

text \<open>\<open>int(s, 36)\<close> on lower-case spellings, digit by digit.\<close>

fun index_of :: "'a \<Rightarrow> 'a list \<Rightarrow> nat option" where
  "index_of x [] = None"
| "index_of x (y # ys) = (if x = y then Some 0 else map_option Suc (index_of x ys))"

fun from36_loop :: "nat \<Rightarrow> string \<Rightarrow> nat option" where
  "from36_loop acc [] = Some acc"
| "from36_loop acc (c # cs) =
     (case index_of c alphabet36 of None \<Rightarrow> None | Some d \<Rightarrow> from36_loop (36 * acc + d) cs)"

definition from36 :: "string \<Rightarrow> int result" where
  "from36 s =
     (if s = [] then Inl (ValueError s)
      else case from36_loop 0 s of None \<Rightarrow> Inl (ValueError s) | Some n \<Rightarrow> Inr (int n))"

subsection \<open>Lemmas\<close>

lemma index_of_nth: "distinct xs \<Longrightarrow> i < length xs \<Longrightarrow> index_of (xs ! i) xs = Some i"
proof (induction xs arbitrary: i)
  case Nil
  then show ?case by simp
next
  case (Cons x xs)
  then show ?case by (cases i) auto
qed

lemma length_alphabet36 [simp]: "length alphabet36 = 36"
  by (simp add: alphabet36_def)

lemma distinct_alphabet36: "distinct alphabet36"
  by (simp add: alphabet36_def)

lemma index_of_alphabet36: "d < 36 \<Longrightarrow> index_of (alphabet36 ! d) alphabet36 = Some d"
  by (rule index_of_nth) (simp_all add: distinct_alphabet36)

lemma from36_loop_append:
  "from36_loop acc (xs @ ys) =
     (case from36_loop acc xs of None \<Rightarrow> None | Some a \<Rightarrow> from36_loop a ys)"
  by (induction xs arbitrary: acc) (auto split: option.splits)

text \<open>The digits the loop puts in front of \<open>c\<close> spell \<open>q\<close>.\<close>

lemma to_base_loop36:
  "\<exists>ds. to_base_loop q alphabet36 c = ds @ c \<and> from36_loop 0 ds = Some q \<and>
        (ds = [] \<longleftrightarrow> q = 0) \<and> set ds \<subseteq> set alphabet36"
proof (induction q arbitrary: c rule: less_induct)
  case (less q)
  show ?case
  proof (cases "q = 0")
    case True
    then show ?thesis by (subst to_base_loop.simps) simp
  next
    case False
    let ?r = "alphabet36 ! (q mod 36)"
    have r: "index_of ?r alphabet36 = Some (q mod 36)" "?r \<in> set alphabet36"
      by (simp_all add: index_of_alphabet36)
    obtain ds where ds: "to_base_loop (q div 36) alphabet36 (?r # c) = ds @ ?r # c"
      "from36_loop 0 ds = Some (q div 36)" "set ds \<subseteq> set alphabet36"
      using less [of "q div 36" "?r # c"] False by auto
    have "to_base_loop q alphabet36 c = (ds @ [?r]) @ c"
      using False ds(1) by (subst to_base_loop.simps) simp
    moreover have "from36_loop 0 (ds @ [?r]) = Some q"
      using ds(2) r by (simp add: from36_loop_append)
    ultimately show ?thesis using False ds(3) r(2)
      by (intro exI [of _ "ds @ [?r]"]) auto
  qed
qed

lemma to36_nonneg:
  assumes "0 \<le> q"
  shows "\<exists>s. to36 q = Inr s \<and> s \<noteq> [] \<and> from36 s = Inr q \<and> set s \<subseteq> set alphabet36"
proof -
  obtain ds where ds: "to_base_loop (nat q) alphabet36 [] = ds" "from36_loop 0 ds = Some (nat q)"
    "ds = [] \<longleftrightarrow> nat q = 0" "set ds \<subseteq> set alphabet36"
    using to_base_loop36 [of "nat q" "[]"] by auto
  show ?thesis
  proof (cases "ds = []")
    case True
    with ds assms have "q = 0" by simp
    with ds(1) True show ?thesis
      by (simp add: to36_def to_base_def from36_def alphabet36_def)
  next
    case False
    with ds assms show ?thesis
      by (simp add: to36_def to_base_def from36_def Let_def)
  qed
qed

lemma to36_inject:
  assumes "to36 a = Inr s" "to36 b = Inr s"
  shows "a = b"
proof -
  have "0 \<le> a" "0 \<le> b"
    using assms by (auto simp: to36_def to_base_def split: if_splits)
  then show ?thesis using to36_nonneg [of a] to36_nonneg [of b] assms by auto
qed

lemma alphabet36_no_dot: "CHR ''.'' \<notin> set alphabet36" "CHR ''_'' \<notin> set alphabet36"
  by (simp_all add: alphabet36_def)

subsection \<open>Properties\<close>

text \<open>
  \<open>to36\<close> and \<open>int(_, 36)\<close> are inverse: a negative number raises \<open>ValueError\<close>, and every
  non-negative id has a non-empty spelling over the 36 digits that reads back as the same id.
\<close>

lemma to36_roundtrip:
  "(q < 0 \<longrightarrow> to36 q = Inl (ValueError ''must supply a positive integer'')) \<and>
   (0 \<le> q \<longrightarrow> (\<exists>s. to36 q = Inr s \<and> s \<noteq> [] \<and> set s \<subseteq> set alphabet36 \<and> from36 s = Inr q))"
  using to36_nonneg [of q] by (auto simp: to36_def to_base_def)

end
