(* ===== verification/Karma.thy ===== *)
theory Karma
  imports Prelude
begin

section \<open>Accounts and their karma\<close>

text \<open>
  Models the karma bookkeeping of \<open>r2/models/account.py\<close>. An account keeps one attribute
  \<open><subreddit>_<kind>_karma\<close> per subreddit and kind of content (\<open>link\<close>, \<open>self\<close> or \<open>comment\<close>);
  \<open>acc_t\<close> is the part of the attribute dictionary \<open>self._t\<close> that holds these integers.
\<close>

record account =
  acc_id :: int
  acc_spam :: bool
  disable_karma :: bool
  acc_t :: "(string, int) dict"

definition endswith :: "string \<Rightarrow> string \<Rightarrow> bool" where
  "endswith s suf = (length suf \<le> length s \<and> drop (length s - length suf) s = suf)"

definition karma_suffix :: "string \<Rightarrow> string" where
  "karma_suffix kind = ''_'' @ kind @ ''_karma''"

definition karma_sum :: "string \<Rightarrow> (string, int) dict \<Rightarrow> int" where
  "karma_sum suf t = (\<Sum>(k, v)\<leftarrow>t. if endswith k suf then v else 0)"

text \<open>\<open>karma(kind)\<close> without a subreddit: link karma includes self karma.\<close>

definition karma_total :: "string \<Rightarrow> account \<Rightarrow> int" where
  "karma_total kind a =
     karma_sum (karma_suffix kind) (acc_t a) +
     (if kind = ''link'' then karma_sum (karma_suffix ''self'') (acc_t a) else 0)"

text \<open>\<open>karma(kind, sr)\<close>; \<open>min_up\<close> is the setting \<open>g.MIN_UP_KARMA\<close>.\<close>

definition karma_in :: "int \<Rightarrow> string \<Rightarrow> string \<Rightarrow> account \<Rightarrow> int" where
  "karma_in min_up kind sr a =
     (let default_karma = (if karma_total kind a > 0 then min_up else 0) in
      if kind = ''link'' then
        (case (map_of (acc_t a) (sr @ karma_suffix kind), map_of (acc_t a) (sr @ ''_self_karma'')) of
           (None, None) \<Rightarrow> default_karma
         | (Some l, None) \<Rightarrow> l
         | (None, Some s) \<Rightarrow> s
         | (Some l, Some s) \<Rightarrow> l + s)
      else (case map_of (acc_t a) (sr @ karma_suffix kind) of None \<Rightarrow> default_karma | Some v \<Rightarrow> v))"

definition karma_prop :: "string \<Rightarrow> string \<Rightarrow> string" where
  "karma_prop sr kind = sr @ ''_'' @ kind @ ''_karma''"

definition incr_karma :: "int \<Rightarrow> string \<Rightarrow> string \<Rightarrow> int \<Rightarrow> account \<Rightarrow> account" where
  "incr_karma min_up kind sr amt a =
     (if disable_karma a then a
      else if take 1 sr = ''_'' then a
      else let prop = karma_prop sr kind in
        case map_of (acc_t a) prop of
          Some v \<Rightarrow> a\<lparr>acc_t := AList.update prop (v + amt) (acc_t a)\<rparr>
        | None \<Rightarrow> a\<lparr>acc_t := AList.update prop (karma_in min_up kind sr a + amt) (acc_t a)\<rparr>)"

subsection \<open>Lemmas\<close>

lemma karma_prop_suffix: "karma_prop sr kind = sr @ karma_suffix kind"
  by (simp add: karma_prop_def karma_suffix_def)

lemma endswith_append [simp]: "endswith (s @ t) t"
  by (simp add: endswith_def)

lemma endswith_iff: "endswith s suf \<longleftrightarrow> (\<exists>p. s = p @ suf)"
proof
  assume "endswith s suf"
  then have "take (length s - length suf) s @ suf = s"
    unfolding endswith_def by (metis append_take_drop_id)
  then show "\<exists>p. s = p @ suf" by metis
qed auto

lemma karma_suffix_distinct:
  "endswith (sr @ karma_suffix ''link'') (karma_suffix ''self'') = False"
  "endswith (sr @ karma_suffix ''self'') (karma_suffix ''link'') = False"
  by (simp_all add: endswith_def karma_suffix_def)

lemma karma_sum_update_Some:
  "dict_ok t \<Longrightarrow> map_of t k = Some v \<Longrightarrow>
   karma_sum suf (AList.update k w t) = karma_sum suf t + (if endswith k suf then w - v else 0)"
  unfolding karma_sum_def by (rule sum_list_update_Some)

lemma karma_sum_update_None:
  "map_of t k = None \<Longrightarrow>
   karma_sum suf (AList.update k w t) = karma_sum suf t + (if endswith k suf then w else 0)"
  unfolding karma_sum_def by (rule sum_list_update_None)

lemma incr_karma_frame:
  "acc_id (incr_karma m kind sr amt a) = acc_id a"
  "acc_spam (incr_karma m kind sr amt a) = acc_spam a"
  "disable_karma (incr_karma m kind sr amt a) = disable_karma a"
  by (simp_all add: incr_karma_def Let_def split: option.splits)

lemma incr_karma_dict_ok: "dict_ok (acc_t a) \<Longrightarrow> dict_ok (acc_t (incr_karma m kind sr amt a))"
  by (simp add: incr_karma_def Let_def split: option.splits)

lemma incr_karma_other:
  "k \<noteq> karma_prop sr kind \<Longrightarrow> map_of (acc_t (incr_karma m kind sr amt a)) k = map_of (acc_t a) k"
  by (simp add: incr_karma_def Let_def split: option.splits)

text \<open>The change of a total, by whether the subreddit's attribute was there before.\<close>

lemma incr_karma_total:
  assumes "dict_ok (acc_t a)" "\<not> disable_karma a" "take 1 sr \<noteq> ''_''" "kind \<in> {''link'', ''self'', ''comment''}"
  shows "karma_total kind (incr_karma m kind sr amt a) = karma_total kind a +
    (case map_of (acc_t a) (karma_prop sr kind) of Some _ \<Rightarrow> amt | None \<Rightarrow> karma_in m kind sr a + amt)"
  using assms karma_suffix_distinct(1) [of sr]
  by (auto simp: karma_total_def incr_karma_def Let_def karma_sum_update_Some karma_sum_update_None
      karma_prop_suffix split: option.splits)

subsection \<open>Properties\<close>

text \<open>
  Karma is booked exactly once the subreddit's attribute exists: \<open>incr_karma\<close> then changes the
  total of that kind by the amount and no other attribute; accounts with karma disabled and
  subreddits whose name starts with an underscore are left alone.
\<close>

lemma incr_karma_exact:
  assumes "dict_ok (acc_t a)" "kind \<in> {''link'', ''self'', ''comment''}"
    and "map_of (acc_t a) (karma_prop sr kind) = Some v"
  shows "(if disable_karma a \<or> take 1 sr = ''_'' then incr_karma m kind sr amt a = a
          else karma_total kind (incr_karma m kind sr amt a) = karma_total kind a + amt \<and>
               map_of (acc_t (incr_karma m kind sr amt a)) (karma_prop sr kind) = Some (v + amt)) \<and>
         (\<forall>k. k \<noteq> karma_prop sr kind \<longrightarrow>
              map_of (acc_t (incr_karma m kind sr amt a)) k = map_of (acc_t a) k)"
  using incr_karma_total [OF assms(1) _ _ assms(2), of sr m amt] assms(3)
    incr_karma_other [of _ sr kind m amt a]
  by (auto simp: incr_karma_def Let_def)

text \<open>
  Self karma is counted twice when a subreddit's link karma is first booked. If an account has
  self karma \<open>s\<close> but no link karma in a subreddit, \<open>incr_karma\<close> starts the link attribute from
  \<open>karma('link', sr)\<close>, which already includes \<open>s\<close>, so the link total grows by \<open>s\<close> more than the
  amount booked.
\<close>

lemma incr_karma_double_count:
  assumes "dict_ok (acc_t a)" "\<not> disable_karma a" "take 1 sr \<noteq> ''_''"
    and "map_of (acc_t a) (karma_prop sr ''link'') = None"
    and "map_of (acc_t a) (karma_prop sr ''self'') = Some s"
  shows "karma_total ''link'' (incr_karma m ''link'' sr amt a) = karma_total ''link'' a + amt + s"
  using incr_karma_total [OF assms(1-3), of "''link''" m amt] assms(4,5)
  by (simp add: karma_in_def karma_prop_def karma_suffix_def Let_def)

end
