(* ===== verification/QueryCache.thy ===== *)
theory QueryCache
  imports Base36 "HOL-Library.Multiset"
begin

section \<open>The query cache\<close>

text \<open>
  Models \<open>r2/models/query_cache.py\<close>: cached queries, their comparator, fetching, iteration,
  pruning, the batching mutator and the row keys made by the \<open>cached_query\<close> decorator.

  Cassandra and pycassa are not part of the repository. What the code sends to the database is
  a list of \<open>mutation\<close> values, in the order of the calls on the pycassa \<open>Mutator\<close>; what it reads
  is a parameter of type \<open>snapshot\<close> (the answers of the two \<open>multiget\<close> calls). The effect of a
  removal with a timestamp, which pruning relies on, is spelled out in \<open>mut_removes\<close>.
\<close>

subsection \<open>Sorts and their comparator\<close>

text \<open>
  An element of the list given to \<open>ThingTupleComparator\<close>: an \<open>asc\<close> or a \<open>desc\<close> object of
  \<open>r2/lib/db/operators.py\<close>, or a bare column name.
\<close>

datatype sort_item = Asc string | Desc string | ColName string

fun sort_col :: "sort_item \<Rightarrow> string" where
  "sort_col (Asc c) = c"
| "sort_col (Desc c) = c"
| "sort_col (ColName c) = c"

definition py_cmp :: "'v::linorder \<Rightarrow> 'v \<Rightarrow> int" where
  "py_cmp a b = (if a < b then - 1 else if a = b then 0 else 1)"

text \<open>\<open>ThingTupleComparator.__call__\<close> on the sort values of two tuples.\<close>

fun tuple_cmp :: "sort_item list \<Rightarrow> 'v::linorder list \<Rightarrow> 'v list \<Rightarrow> int result" where
  "tuple_cmp [] t1 t2 = Inr 0"
| "tuple_cmp (s # ss) (v1 # t1) (v2 # t2) =
     (if v1 \<noteq> v2 then Inr (case s of Asc _ \<Rightarrow> py_cmp v1 v2 | _ \<Rightarrow> py_cmp v2 v1)
      else tuple_cmp ss t1 t2)"
| "tuple_cmp (s # ss) t1 t2 = Inl IndexError"

text \<open>\<open>list.sort(cmp=...)\<close>: a stable sort; an exception of the comparator propagates.\<close>

fun cmp_insert :: "('a \<Rightarrow> 'a \<Rightarrow> int result) \<Rightarrow> 'a \<Rightarrow> 'a list \<Rightarrow> 'a list result" where
  "cmp_insert cmp x [] = Inr [x]"
| "cmp_insert cmp x (y # ys) =
     bindr (cmp x y) (\<lambda>c. if c \<le> 0 then Inr (x # y # ys)
                          else bindr (cmp_insert cmp x ys) (\<lambda>zs. Inr (y # zs)))"

fun cmp_sort :: "('a \<Rightarrow> 'a \<Rightarrow> int result) \<Rightarrow> 'a list \<Rightarrow> 'a list result" where
  "cmp_sort cmp [] = Inr []"
| "cmp_sort cmp (x # xs) = bindr (cmp_sort cmp xs) (cmp_insert cmp x)"

subsection \<open>Cached queries\<close>

type_synonym 'v item_tuple = "string \<times> 'v list"

record ('a, 'v) cached_query =
  q_model :: string
  q_key :: string
  q_sort :: "sort_item list"
  q_filter :: "'a \<Rightarrow> string"
  is_precomputed :: bool
  q_data :: "'v item_tuple list"
  q_timestamps :: "(string, int) dict"
  q_fetched :: bool

definition new_query ::
    "string \<Rightarrow> string \<Rightarrow> sort_item list \<Rightarrow> ('a \<Rightarrow> string) \<Rightarrow> bool \<Rightarrow> ('a, 'v) cached_query" where
  "new_query model key srt filter_fn precomputed =
     \<lparr>q_model = model, q_key = key, q_sort = srt, q_filter = filter_fn,
      is_precomputed = precomputed, q_data = [], q_timestamps = [], q_fetched = False\<rparr>"

definition MAX_CACHED_ITEMS :: nat where
  "MAX_CACHED_ITEMS = 1000"

definition sort_cols :: "sort_item list \<Rightarrow> string list" where
  "sort_cols srt = map sort_col srt"

text \<open>
  \<open>_sort_data\<close> hands the comparator \<open>self.sort_cols\<close>, the column names, not \<open>self.sort\<close>.
\<close>

definition sort_data ::
    "('a, 'v::linorder) cached_query \<Rightarrow> ('a, 'v) cached_query result" where
  "sort_data q =
     bindr (cmp_sort (\<lambda>t1 t2. tuple_cmp (map ColName (sort_cols (q_sort q))) (snd t1) (snd t2)) (q_data q))
           (\<lambda>d. Inr (q\<lparr>q_data := d\<rparr>))"

text \<open>
  \<open>_make_item_tuple\<close>: the fullname of the filtered item, then the attributes of the original.
  \<open>attr\<close> is \<open>getattr\<close>, with dates already converted by \<open>epoch_seconds\<close>.
\<close>

definition make_item_tuple ::
    "('a \<Rightarrow> string \<Rightarrow> 'v option) \<Rightarrow> ('a, 'v) cached_query \<Rightarrow> 'a \<Rightarrow> 'v item_tuple result" where
  "make_item_tuple attr q item =
     bindr (mapr (\<lambda>col. case attr item col of None \<Rightarrow> Inl (AttributeError col) | Some v \<Rightarrow> Inr v)
                 (sort_cols (q_sort q)))
           (\<lambda>lst. Inr (q_filter q item, lst))"

definition cols_from_things ::
    "('a \<Rightarrow> string \<Rightarrow> 'v option) \<Rightarrow> ('a, 'v) cached_query \<Rightarrow> 'a list
     \<Rightarrow> (string, 'v list) dict result" where
  "cols_from_things attr q things =
     bindr (mapr (make_item_tuple attr q) things) (\<lambda>ts. Inr (dict_update [] ts))"

subsection \<open>What is sent to Cassandra\<close>

datatype 'v mutation =
    Insert string string "(string \<times> 'v list) list" "int option"
  | InsertIndex string string string "int option"
  | Remove string string "string list"
  | RemoveIfUnchanged string string string "int option"
  | RemoveRow string string int

type_synonym 'v mutations = "'v mutation list"

definition qc_insert :: "string \<Rightarrow> string \<Rightarrow> (string \<times> 'v list) list \<Rightarrow> 'v mutations" where
  "qc_insert model key columns = [Insert model key columns None]"

definition qc_replace ::
    "string \<Rightarrow> string \<Rightarrow> string \<Rightarrow> (string \<times> 'v list) list \<Rightarrow> int option \<Rightarrow> 'v mutations" where
  "qc_replace job_key model key columns ttl =
     [Insert model (key @ ''/'' @ job_key) columns ttl,
      InsertIndex model (key @ ''/index'') job_key ttl]"

definition qc_remove :: "string \<Rightarrow> string \<Rightarrow> string list \<Rightarrow> 'v mutations" where
  "qc_remove model key columns = [Remove model key columns]"

definition remove_if_unchanged ::
    "string \<Rightarrow> string \<Rightarrow> string list \<Rightarrow> (string, int) dict \<Rightarrow> 'v mutations" where
  "remove_if_unchanged model key columns timestamps =
     map (\<lambda>col. RemoveIfUnchanged model key col (map_of timestamps col)) columns"

definition remove_older_than :: "string \<Rightarrow> string \<Rightarrow> int \<Rightarrow> 'v mutations" where
  "remove_older_than model key removal_timestamp = [RemoveRow model key removal_timestamp]"

text \<open>
  The documented effect of a removal on a column \<open>col\<close> of the row \<open>key\<close> last written at \<open>ts\<close>:
  a removal with a timestamp takes away only what was written no later.
\<close>

fun mut_removes :: "'v mutation \<Rightarrow> string \<Rightarrow> string \<Rightarrow> string \<Rightarrow> int \<Rightarrow> bool" where
  "mut_removes (Remove m k cs) model key col ts = (m = model \<and> k = key \<and> col \<in> set cs)"
| "mut_removes (RemoveIfUnchanged m k c t) model key col ts =
     (m = model \<and> k = key \<and> c = col \<and> (case t of None \<Rightarrow> True | Some t' \<Rightarrow> ts \<le> t'))"
| "mut_removes (RemoveRow m k t) model key col ts = (m = model \<and> k = key \<and> ts \<le> t)"
| "mut_removes (Insert _ _ _ _) model key col ts = False"
| "mut_removes (InsertIndex _ _ _ _) model key col ts = False"

subsection \<open>Operations of a cached query\<close>

definition query_insert ::
    "('a \<Rightarrow> string \<Rightarrow> 'v option) \<Rightarrow> ('a, 'v) cached_query \<Rightarrow> 'a list \<Rightarrow> 'v mutations result" where
  "query_insert attr q things =
     (if things = [] then Inr []
      else bindr (cols_from_things attr q things) (\<lambda>cols. Inr (qc_insert (q_model q) (q_key q) cols)))"

definition query_replace ::
    "('a \<Rightarrow> string \<Rightarrow> 'v option) \<Rightarrow> string \<Rightarrow> ('a, 'v) cached_query \<Rightarrow> 'a list \<Rightarrow> int option
     \<Rightarrow> 'v mutations result" where
  "query_replace attr job_key q things ttl =
     bindr (cols_from_things attr q things)
           (\<lambda>cols. Inr (qc_replace job_key (q_model q) (q_key q) cols ttl))"

definition query_delete :: "('a, 'v) cached_query \<Rightarrow> 'a list \<Rightarrow> 'v mutations" where
  "query_delete q things =
     (if things = [] then [] else qc_remove (q_model q) (q_key q) (map (q_filter q) things))"

text \<open>\<open>xs[-n:]\<close>; for \<open>n = 0\<close> Python returns the whole list.\<close>

definition slice_last :: "nat \<Rightarrow> 'a list \<Rightarrow> 'a list" where
  "slice_last n xs = (if n = 0 then xs else drop (length xs - n) xs)"

definition timestamp_of :: "(string, int) dict \<Rightarrow> string \<Rightarrow> int result" where
  "timestamp_of ts i = (case map_of ts i of None \<Rightarrow> Inl (KeyError i) | Some t \<Rightarrow> Inr t)"

text \<open>
  \<open>_prune\<close>, with \<open>prune_size = int(1.5 * 1 / PRUNE_CHANCE)\<close> as a parameter. The comparisons with
  \<open>0.5\<close> are exact on the integers involved and are written without division.
\<close>

definition prune :: "nat \<Rightarrow> ('a, 'v) cached_query \<Rightarrow> 'v mutations result" where
  "prune prune_size q =
     (let to_keep = map fst (take MAX_CACHED_ITEMS (q_data q));
          to_prune = map fst (drop MAX_CACHED_ITEMS (q_data q)) in
      if to_prune = [] then Inr []
      else bindr (mapr (timestamp_of (q_timestamps q)) to_keep) (\<lambda>keep_ts.
        let oldest_keep = Min (set keep_ts) in
        bindr (mapr (timestamp_of (q_timestamps q)) to_prune) (\<lambda>prune_ts.
        let fast_ts = filter (\<lambda>t. t < oldest_keep) prune_ts;
            num_to_prune = length to_prune;
            num_fast_prunable = length fast_ts;
            num_unpruned_if_fast = num_to_prune - num_fast_prunable in
        if num_to_prune < 2 * num_fast_prunable \<and> 2 * num_unpruned_if_fast < MAX_CACHED_ITEMS
        then Inr (remove_older_than (q_model q) (q_key q) (Max (set fast_ts)))
        else Inr (remove_if_unchanged (q_model q) (q_key q)
                    (slice_last prune_size to_prune) (q_timestamps q)))))"

subsection \<open>Fetching\<close>

text \<open>
  The answers of Cassandra for one column family: \<open>rows\<close> is \<open>multiget(keys,
  include_timestamp=True)\<close> for one key, \<open>newest_index\<close> the greatest column name of an index row.
\<close>

record 'v snapshot =
  rows :: "string \<Rightarrow> (string \<times> 'v list \<times> int) list option"
  newest_index :: "string \<Rightarrow> string option"

text \<open>\<open>_BaseQueryCache.get\<close> and \<open>index_mangle_keys\<close>: only the rows that exist are returned.\<close>

definition qc_get ::
    "'v snapshot \<Rightarrow> string list \<Rightarrow> (string, 'v item_tuple list \<times> (string, int) dict) dict" where
  "qc_get cf keys =
     List.map_filter (\<lambda>k. case rows cf k of
         None \<Rightarrow> None
       | Some cols \<Rightarrow> Some (k, (map (\<lambda>(c, v, t). (c, v)) cols, map (\<lambda>(c, v, t). (c, t)) cols))) keys"

definition index_mangle_keys :: "'v snapshot \<Rightarrow> string list \<Rightarrow> (string, string) dict" where
  "index_mangle_keys cf keys =
     List.map_filter (\<lambda>key.
       let index_key = key @ ''/index'' in
       case newest_index cf index_key of
         None \<Rightarrow> None
       | Some index_component \<Rightarrow>
           let root_key = hd (split_on CHR ''/'' index_key) in
           Some (root_key @ ''/'' @ index_component, root_key)) keys"

definition fetch_model ::
    "'v snapshot \<Rightarrow> ('a, 'v) cached_query list
     \<Rightarrow> (string, 'v item_tuple list \<times> (string, int) dict) dict" where
  "fetch_model cf qs =
     (let pure = map q_key (filter (\<lambda>q. \<not> is_precomputed q) qs);
          need_mangling = map q_key (filter is_precomputed qs);
          mangled = index_mangle_keys cf need_mangling;
          fetched = qc_get cf (pure @ map fst mangled) in
      map (\<lambda>(key, values). (case map_of mangled key of None \<Rightarrow> key | Some k \<Rightarrow> k, values)) fetched)"

definition fill_query ::
    "(string, 'v item_tuple list \<times> (string, int) dict) dict \<Rightarrow> ('a, 'v) cached_query
     \<Rightarrow> ('a, 'v) cached_query" where
  "fill_query cached_queries q =
     (case map_of cached_queries (q_key q) of
        None \<Rightarrow> q
      | Some (d, ts) \<Rightarrow> q\<lparr>q_data := d, q_timestamps := ts\<rparr>)"

text \<open>
  \<open>_fetch_multi\<close>. \<open>models\<close> is the order in which \<open>by_model.iteritems()\<close> visits the column
  families. The loop variable of that loop is named \<open>queries\<close> and hides the parameter, so the
  final loop runs over the queries of the last column family visited, \<open>last models\<close>, only.
\<close>

definition by_model :: "('a, 'v) cached_query list \<Rightarrow> string \<Rightarrow> ('a, 'v) cached_query list" where
  "by_model qs m = filter (\<lambda>q. q_model q = m) qs"

definition fetch_multi ::
    "(string \<Rightarrow> 'v snapshot) \<Rightarrow> string list \<Rightarrow> ('a, 'v) cached_query list
     \<Rightarrow> ('a, 'v) cached_query list" where
  "fetch_multi cf models queries =
     (let cached_queries =
            fold (\<lambda>m d. dict_update d (fetch_model (cf m) (by_model queries m))) models [] in
      map (\<lambda>q. if models \<noteq> [] \<and> q_model q = last models
               then fill_query cached_queries q else q) queries)"

definition fetch ::
    "(string \<Rightarrow> 'v::linorder snapshot) \<Rightarrow> bool \<Rightarrow> ('a, 'v) cached_query
     \<Rightarrow> ('a, 'v) cached_query result" where
  "fetch cf force q =
     (if \<not> force \<and> q_fetched q then Inr q
      else bindr (sort_data (hd (fetch_multi cf [q_model q] [q])))
                 (\<lambda>q'. Inr (q'\<lparr>q_fetched := True\<rparr>)))"

definition iter_query ::
    "(string \<Rightarrow> 'v::linorder snapshot) \<Rightarrow> ('a, 'v) cached_query \<Rightarrow> string list result" where
  "iter_query cf q =
     bindr (fetch cf False q) (\<lambda>q'. Inr (map fst (take MAX_CACHED_ITEMS (q_data q'))))"

text \<open>\<open>MergedCachedQuery\<close>: the sub-queries must agree on the sort.\<close>

definition merged_sort :: "('a, 'v) cached_query list \<Rightarrow> sort_item list result" where
  "merged_sort queries =
     (case queries of
        [] \<Rightarrow> Inr []
      | q # _ \<Rightarrow> if list_all (\<lambda>p. q_sort p = q_sort q) queries then Inr (q_sort q)
                else Inl AssertionError)"

definition merged_iter ::
    "(string \<Rightarrow> 'v::linorder snapshot) \<Rightarrow> string list \<Rightarrow> ('a, 'v) cached_query list
     \<Rightarrow> string list result" where
  "merged_iter cf models queries =
     bindr (merged_sort queries) (\<lambda>srt.
       let d = concat (map q_data (fetch_multi cf models queries)) in
       bindr (cmp_sort (\<lambda>t1 t2. tuple_cmp (map ColName (sort_cols srt)) (snd t1) (snd t2)) d)
             (\<lambda>d'. Inr (map fst (take MAX_CACHED_ITEMS d'))))"

subsection \<open>The mutator\<close>

text \<open>
  \<open>CachedQueryMutator\<close>. \<open>to_prune\<close> is a Python set of queries, which are equal when their keys
  are. \<open>draw\<close> stands for the outcome of \<open>random.random() / len(things) < PRUNE_CHANCE\<close>.
\<close>

record ('a, 'v) mutator =
  mutator_batch :: "'v mutations"
  mutator_to_prune :: "('a, 'v) cached_query list"

definition mutator_init :: "('a, 'v) mutator" where
  "mutator_init = \<lparr>mutator_batch = [], mutator_to_prune = []\<rparr>"

definition add_to_prune ::
    "('a, 'v) cached_query \<Rightarrow> ('a, 'v) cached_query list \<Rightarrow> ('a, 'v) cached_query list" where
  "add_to_prune q qs = (if q_key q \<in> q_key ` set qs then qs else qs @ [q])"

definition mutator_insert ::
    "('a \<Rightarrow> string \<Rightarrow> 'v option) \<Rightarrow> bool \<Rightarrow> ('a, 'v) cached_query \<Rightarrow> 'a list
     \<Rightarrow> ('a, 'v) mutator \<Rightarrow> ('a, 'v) mutator result" where
  "mutator_insert attr draw q things m =
     (if things = [] then Inr m
      else if is_precomputed q then Inl AssertionError
      else bindr (query_insert attr q things) (\<lambda>muts.
        Inr (m\<lparr>mutator_batch := mutator_batch m @ muts,
               mutator_to_prune := (if draw then add_to_prune q (mutator_to_prune m)
                                    else mutator_to_prune m)\<rparr>)))"

definition mutator_replace ::
    "('a \<Rightarrow> string \<Rightarrow> 'v option) \<Rightarrow> string \<Rightarrow> ('a, 'v) cached_query \<Rightarrow> 'a list \<Rightarrow> int option
     \<Rightarrow> ('a, 'v) mutator \<Rightarrow> ('a, 'v) mutator result" where
  "mutator_replace attr job_key q things ttl m =
     (if \<not> is_precomputed q then Inl AssertionError
      else bindr (query_replace attr job_key q things ttl) (\<lambda>muts.
        Inr (m\<lparr>mutator_batch := mutator_batch m @ muts\<rparr>)))"

definition mutator_delete ::
    "('a, 'v) cached_query \<Rightarrow> 'a list \<Rightarrow> ('a, 'v) mutator \<Rightarrow> ('a, 'v) mutator" where
  "mutator_delete q things m =
     (if things = [] then m else m\<lparr>mutator_batch := mutator_batch m @ query_delete q things\<rparr>)"

text \<open>
  \<open>_prune_multi\<close> and \<open>send\<close>: the batch is sent first; the pruning removals, read off a fresh
  fetch \<open>cf\<close>, follow as a second batch.
\<close>

fun prune_all :: "nat \<Rightarrow> ('a, 'v::linorder) cached_query list \<Rightarrow> 'v mutations result" where
  "prune_all n [] = Inr []"
| "prune_all n (q # qs) =
     bindr (sort_data q) (\<lambda>q'. bindr (prune n q') (\<lambda>ms. bindr (prune_all n qs) (\<lambda>ns. Inr (ms @ ns))))"

definition prune_multi ::
    "(string \<Rightarrow> 'v::linorder snapshot) \<Rightarrow> string list \<Rightarrow> nat \<Rightarrow> ('a, 'v) cached_query list
     \<Rightarrow> 'v mutations result" where
  "prune_multi cf models n queries = prune_all n (fetch_multi cf models queries)"

definition mutator_send ::
    "(string \<Rightarrow> 'v::linorder snapshot) \<Rightarrow> string list \<Rightarrow> nat \<Rightarrow> ('a, 'v) mutator
     \<Rightarrow> ('v mutations \<times> 'v mutations) result" where
  "mutator_send cf models n m =
     (if mutator_to_prune m = [] then Inr (mutator_batch m, [])
      else bindr (prune_multi cf models n (mutator_to_prune m)) (\<lambda>ms. Inr (mutator_batch m, ms)))"

subsection \<open>Which queries are precomputed\<close>

datatype rule = Op string | BooleanOp "rule list"

fun rule_size :: "rule \<Rightarrow> nat" where
  "rule_size (Op _) = 1"
| "rule_size (BooleanOp ops) = Suc (sum_list (map rule_size ops))"

lemma sum_list_map_butlast:
  fixes f :: "'a \<Rightarrow> nat"
  shows "xs \<noteq> [] \<Longrightarrow> sum_list (map f xs) = sum_list (map f (butlast xs)) + f (last xs)"
  by (induction xs) auto

text \<open>The loop of \<open>_is_query_precomputed\<close>: \<open>rules.pop()\<close> takes the last element.\<close>

function precomputed_loop :: "rule list \<Rightarrow> bool" where
  "precomputed_loop rules =
     (if rules = [] then False
      else case last rules of
             BooleanOp ops \<Rightarrow> precomputed_loop (butlast rules @ ops)
           | Op lval \<Rightarrow> if lval = ''_date'' then True else precomputed_loop (butlast rules))"
  by pat_completeness auto
termination
  by (relation "measure (\<lambda>rs. sum_list (map rule_size rs))") (simp_all add: sum_list_map_butlast)

declare precomputed_loop.simps [simp del]

fun mentions_date :: "rule \<Rightarrow> bool" where
  "mentions_date (Op lval) = (lval = ''_date'')"
| "mentions_date (BooleanOp ops) = list_ex mentions_date ops"

subsection \<open>Row keys\<close>

text \<open>
  The key \<open>cached_query_wrapper\<close> builds from the function's name and its arguments: an id in
  base 36 (for a \<open>Thing\<close> or an integer), any other argument as its \<open>str\<close>.
\<close>

datatype key_arg = IdArg int | StrArg string

definition serialize_arg :: "key_arg \<Rightarrow> string result" where
  "serialize_arg a = (case a of IdArg i \<Rightarrow> to36 i | StrArg s \<Rightarrow> Inr s)"

definition row_key :: "string \<Rightarrow> key_arg list \<Rightarrow> string result" where
  "row_key fn_name args =
     (if take 4 fn_name \<noteq> ''get_'' then Inl AssertionError
      else let name = drop 4 fn_name in
        case args of
          [] \<Rightarrow> Inr name
        | a # rest \<Rightarrow> bindr (serialize_arg a) (\<lambda>s.
            Inr (join_with ''.'' (name # s # map (\<lambda>x. case x of IdArg i \<Rightarrow> py_str_int i | StrArg t \<Rightarrow> t) rest))))"

subsection \<open>The comparator contract and sorting\<close>

text \<open>
  What \<open>list.sort\<close> relies on: on the tuples it is given, the comparator answers and its answers
  form a total preorder.
\<close>

locale py_comparator =
  fixes cmp :: "'a \<Rightarrow> 'a \<Rightarrow> int result"
    and D :: "'a set"
  assumes answers: "x \<in> D \<Longrightarrow> y \<in> D \<Longrightarrow> \<exists>c. cmp x y = Inr c"
    and total: "x \<in> D \<Longrightarrow> y \<in> D \<Longrightarrow> cmp x y = Inr c \<Longrightarrow> 0 < c \<Longrightarrow> cmp y x = Inr d \<Longrightarrow> d \<le> 0"
    and transitive: "x \<in> D \<Longrightarrow> y \<in> D \<Longrightarrow> z \<in> D \<Longrightarrow> cmp x y = Inr c \<Longrightarrow> c \<le> 0 \<Longrightarrow>
       cmp y z = Inr d \<Longrightarrow> d \<le> 0 \<Longrightarrow> cmp x z = Inr e \<Longrightarrow> e \<le> 0"
begin

definition before :: "'a \<Rightarrow> 'a \<Rightarrow> bool" where
  "before x y = (\<exists>c. cmp x y = Inr c \<and> c \<le> 0)"

lemma before_trans:
  assumes "x \<in> D" "y \<in> D" "z \<in> D" "before x y" "before y z"
  shows "before x z"
proof -
  obtain c d where "cmp x y = Inr c" "c \<le> 0" "cmp y z = Inr d" "d \<le> 0"
    using assms(4,5) by (auto simp: before_def)
  moreover obtain e where "cmp x z = Inr e" using answers [OF assms(1,3)] by blast
  ultimately show ?thesis
    using transitive [OF assms(1-3)] by (auto simp: before_def)
qed

lemma not_before:
  assumes "x \<in> D" "y \<in> D" "cmp x y = Inr c" "0 < c"
  shows "before y x"
proof -
  obtain d where "cmp y x = Inr d" using answers [OF assms(2,1)] by blast
  then show ?thesis using total [OF assms] by (auto simp: before_def)
qed

lemma cmp_insert_ok:
  assumes "x \<in> D" "set ys \<subseteq> D" "sorted_wrt before ys"
  shows "\<exists>zs. cmp_insert cmp x ys = Inr zs \<and> mset zs = add_mset x (mset ys) \<and> sorted_wrt before zs"
  using assms
proof (induction ys)
  case Nil
  then show ?case by simp
next
  case (Cons y ys)
  obtain c where c: "cmp x y = Inr c"
    using answers [of x y] Cons.prems by auto
  show ?case
  proof (cases "c \<le> 0")
    case True
    then have xy: "before x y" using c by (auto simp: before_def)
    then have "\<forall>z \<in> set ys. before x z"
      using Cons.prems by (auto intro: before_trans)
    then show ?thesis using True c xy Cons.prems by simp
  next
    case False
    then have yx: "before y x" using not_before c Cons.prems by auto
    obtain zs where zs: "cmp_insert cmp x ys = Inr zs" "mset zs = add_mset x (mset ys)"
      "sorted_wrt before zs"
      using Cons by auto
    then have "set zs = insert x (set ys)" by (metis set_mset_add_mset_insert set_mset_mset)
    then show ?thesis using False c zs yx Cons.prems by auto
  qed
qed

lemma cmp_sort_ok:
  assumes "set xs \<subseteq> D"
  shows "\<exists>ys. cmp_sort cmp xs = Inr ys \<and> mset ys = mset xs \<and> sorted_wrt before ys"
  using assms
proof (induction xs)
  case Nil
  then show ?case by simp
next
  case (Cons x xs)
  then obtain ys where ys: "cmp_sort cmp xs = Inr ys" "mset ys = mset xs" "sorted_wrt before ys"
    by auto
  then have "set ys \<subseteq> D" using Cons.prems by (metis set_mset_mset set_subset_Cons subset_trans)
  with cmp_insert_ok [of x ys] ys Cons.prems show ?case by auto
qed

end

text \<open>On bare column names the comparator orders the values lexicographically, greatest first.\<close>

lemma tuple_cmp_ColName:
  assumes "length cols \<le> length t1" "length cols \<le> length t2"
  shows "\<exists>c. tuple_cmp (map ColName cols) t1 t2 = Inr c \<and>
             (c \<le> 0 \<longleftrightarrow> take (length cols) t2 \<le> take (length cols) t1)"
  using assms
proof (induction cols arbitrary: t1 t2)
  case Nil
  then show ?case by simp
next
  case (Cons a cols)
  then obtain v1 r1 v2 r2 where t: "t1 = v1 # r1" "t2 = v2 # r2"
    by (cases t1; cases t2) auto
  with Cons show ?case by (auto simp: py_cmp_def)
qed

interpretation tc: py_comparator
    "\<lambda>t1 t2. tuple_cmp (map ColName cols) (snd t1) (snd t2)"
    "{t :: 'v::linorder item_tuple. length cols \<le> length (snd t)}"
  for cols :: "string list"
proof (unfold_locales, goal_cases)
  case (1 x y)
  then show ?case using tuple_cmp_ColName [of cols "snd x" "snd y"] by auto
next
  case (2 x y c d)
  then show ?case
    using tuple_cmp_ColName [of cols "snd x" "snd y"] tuple_cmp_ColName [of cols "snd y" "snd x"]
    by auto
next
  case (3 x y z c d e)
  then show ?case
    using tuple_cmp_ColName [of cols "snd x" "snd y"] tuple_cmp_ColName [of cols "snd y" "snd z"]
      tuple_cmp_ColName [of cols "snd x" "snd z"]
    by auto
qed

lemma tc_before:
  assumes "length cols \<le> length (snd x)" "length cols \<le> length (snd y)"
  shows "tc.before cols x y \<longleftrightarrow> take (length cols) (snd y) \<le> take (length cols) (snd x)"
  using tuple_cmp_ColName [OF assms] by (auto simp: tc.before_def)

subsection \<open>Fetching: lemmas\<close>

lemma map_of_map_filter_key:
  "map_of (List.map_filter (\<lambda>k. map_option (Pair k) (f k)) ks) k = (if k \<in> set ks then f k else None)"
  by (induction ks) (auto simp: map_filter_simps split: option.splits)

lemma qc_get_alt:
  "qc_get cf ks = List.map_filter (\<lambda>k. map_option (Pair k)
     (map_option (\<lambda>cols. (map (\<lambda>(c, v, t). (c, v)) cols, map (\<lambda>(c, v, t). (c, t)) cols)) (rows cf k))) ks"
  unfolding qc_get_def by (rule arg_cong [where f = "\<lambda>g. List.map_filter g ks"])
    (auto simp: fun_eq_iff split: option.splits)

lemma index_mangle_keys_Nil [simp]: "index_mangle_keys cf [] = []"
  by (simp add: index_mangle_keys_def map_filter_simps)

lemma fetch_one:
  assumes "\<not> is_precomputed q" and "rows (cf (q_model q)) (q_key q) = Some cols"
  shows "fetch_multi cf [q_model q] [q]
       = [q\<lparr>q_data := map (\<lambda>(c, v, t). (c, v)) cols, q_timestamps := map (\<lambda>(c, v, t). (c, t)) cols\<rparr>]"
  using assms
  by (simp add: fetch_multi_def by_model_def fetch_model_def qc_get_def map_filter_simps
      fill_query_def dict_update_def Let_def)

lemma fetch_multi_other_model:
  assumes "q \<in> set queries" "q_model q \<noteq> last models"
  shows "q \<in> set (fetch_multi cf models queries)"
  using assms by (force simp: fetch_multi_def Let_def)

lemma sort_data_ok:
  fixes q :: "('a, 'v::linorder) cached_query"
  assumes "\<forall>t \<in> set (q_data q). length (q_sort q) \<le> length (snd t)"
  shows "\<exists>d. sort_data q = Inr (q\<lparr>q_data := d\<rparr>) \<and> mset d = mset (q_data q) \<and>
    sorted_wrt (\<lambda>a b. take (length (q_sort q)) (snd b) \<le> take (length (q_sort q)) (snd a)) d"
proof -
  let ?cols = "sort_cols (q_sort q)"
  have len: "length ?cols = length (q_sort q)" by (simp add: sort_cols_def)
  then have D: "set (q_data q) \<subseteq> {t. length ?cols \<le> length (snd t)}" using assms by auto
  obtain d where d: "cmp_sort (\<lambda>t1 t2. tuple_cmp (map ColName ?cols) (snd t1) (snd t2)) (q_data q) = Inr d"
      "mset d = mset (q_data q)" "sorted_wrt (tc.before ?cols) d"
    using tc.cmp_sort_ok [OF D] by blast
  have sd: "set d = set (q_data q)" using d(2) by (rule mset_eq_setD)
  have "sorted_wrt (\<lambda>a b. take (length ?cols) (snd b) \<le> take (length ?cols) (snd a)) d"
  proof (rule sorted_wrt_mono_rel [OF _ d(3)])
    fix a b assume "a \<in> set d" "b \<in> set d" and ab: "tc.before ?cols a b"
    then have "length ?cols \<le> length (snd a)" "length ?cols \<le> length (snd b)"
      using D sd by auto
    then show "take (length ?cols) (snd b) \<le> take (length ?cols) (snd a)"
      using ab by (simp add: tc_before)
  qed
  with d show ?thesis by (auto simp: sort_data_def len)
qed

lemma sort_data_Asc_Desc:
  "sort_data (q\<lparr>q_sort := map Asc cols\<rparr>) = Inr r \<Longrightarrow>
   sort_data (q\<lparr>q_sort := map Desc cols\<rparr>) = Inr (r\<lparr>q_sort := map Desc cols\<rparr>)"
  by (auto simp: sort_data_def sort_cols_def comp_def bindr_eq_Inr_iff)

subsection \<open>Pruning: lemmas\<close>

lemma mapr_timestamp_of:
  "mapr (timestamp_of ts) ids = Inr xs \<longleftrightarrow> map (map_of ts) ids = map Some xs"
proof (induction ids arbitrary: xs)
  case Nil
  then show ?case by auto
next
  case (Cons i ids)
  then show ?case
    by (cases xs) (auto simp: timestamp_of_def bindr_eq_Inr_iff split: option.splits)
qed

lemma timestamps_cover:
  assumes "mapr (timestamp_of ts) ids = Inr xs" "i \<in> set ids"
  shows "\<exists>t \<in> set xs. map_of ts i = Some t"
proof -
  have "map_of ts ` set ids = Some ` set xs"
    using assms(1) by (metis list.set_map mapr_timestamp_of)
  with assms(2) show ?thesis by (metis imageE image_eqI)
qed

lemma set_slice_last: "set (slice_last n xs) \<subseteq> set xs"
  by (auto simp: slice_last_def dest: in_set_dropD)

text \<open>The two kinds of removals pruning issues, and why neither touches an item to keep.\<close>

lemma prune_cases:
  assumes "prune n q = Inr muts" "mu \<in> set muts"
  obtains (fast) keep_ts t where
      "mapr (timestamp_of (q_timestamps q)) (map fst (take MAX_CACHED_ITEMS (q_data q))) = Inr keep_ts"
      "t < Min (set keep_ts)" "mu = RemoveRow (q_model q) (q_key q) t"
  | (slow) i where "i \<in> fst ` set (drop MAX_CACHED_ITEMS (q_data q))"
      "mu = RemoveIfUnchanged (q_model q) (q_key q) i (map_of (q_timestamps q) i)"
proof -
  let ?keep = "map fst (take MAX_CACHED_ITEMS (q_data q))"
  let ?prune = "map fst (drop MAX_CACHED_ITEMS (q_data q))"
  have "?prune \<noteq> []" using assms by (auto simp: prune_def)
  then obtain keep_ts prune_ts where k: "mapr (timestamp_of (q_timestamps q)) ?keep = Inr keep_ts"
    and p: "mapr (timestamp_of (q_timestamps q)) ?prune = Inr prune_ts"
    using assms(1) by (auto simp: prune_def Let_def bindr_eq_Inr_iff split: if_splits)
  let ?fast = "filter (\<lambda>t. t < Min (set keep_ts)) prune_ts"
  consider (f) "?fast \<noteq> []" "muts = remove_older_than (q_model q) (q_key q) (Max (set ?fast))"
    | (s) "muts = remove_if_unchanged (q_model q) (q_key q) (slice_last n ?prune) (q_timestamps q)"
    using assms(1) k p \<open>?prune \<noteq> []\<close> unfolding prune_def
    by (cases "?fast = []") (auto simp: Let_def split: if_splits)
  then show thesis
  proof cases
    case f
    have "Max (set ?fast) \<in> set ?fast" using f(1) by (intro Max_in) (simp_all only: finite_set set_empty not_False_eq_True)
    then have "Max (set ?fast) < Min (set keep_ts)" by simp
    with k f(2) assms(2) show ?thesis by (intro fast) (auto simp: remove_older_than_def)
  next
    case s
    then show ?thesis using assms(2) set_slice_last [of n ?prune]
      by (auto simp: remove_if_unchanged_def intro: slow)
  qed
qed

subsection \<open>Precomputed queries: lemma\<close>

lemma precomputed_loop_eq: "precomputed_loop rules = list_ex mentions_date rules"
proof (induction rules rule: precomputed_loop.induct)
  case (1 rules)
  show ?case
  proof (cases "rules = []")
    case True
    then show ?thesis by (simp add: precomputed_loop.simps)
  next
    case False
    then have r: "list_ex mentions_date rules
        = (list_ex mentions_date (butlast rules) \<or> mentions_date (last rules))"
      by (cases rules rule: rev_cases) auto
    show ?thesis
    proof (cases "last rules")
      case (Op lval)
      with False "1.IH" r show ?thesis by (subst precomputed_loop.simps) auto
    next
      case (BooleanOp ops)
      with False "1.IH" r show ?thesis by (subst precomputed_loop.simps) auto
    qed
  qed
qed

subsection \<open>Properties\<close>

text \<open>
  Iterating a cached query lists, without raising, the first thousand names of its row in
  Cassandra, ordered by the sort values, greatest first: for a query that is not precomputed,
  whose row exists and holds a value for every sort column.
\<close>

lemma query_cache_iter:
  fixes q :: "('a, 'v::linorder) cached_query"
  assumes "\<not> is_precomputed q" "\<not> q_fetched q"
    and "rows (cf (q_model q)) (q_key q) = Some cols"
    and "\<forall>(c, v, t) \<in> set cols. length (q_sort q) \<le> length v"
  shows "\<exists>d. mset d = mset (map (\<lambda>(c, v, t). (c, v)) cols) \<and>
    sorted_wrt (\<lambda>a b. take (length (q_sort q)) (snd b) \<le> take (length (q_sort q)) (snd a)) d \<and>
    iter_query cf q = Inr (map fst (take MAX_CACHED_ITEMS d))"
proof -
  let ?q = "q\<lparr>q_data := map (\<lambda>(c, v, t). (c, v)) cols, q_timestamps := map (\<lambda>(c, v, t). (c, t)) cols\<rparr>"
  have "\<forall>t \<in> set (q_data ?q). length (q_sort ?q) \<le> length (snd t)" using assms(4) by auto
  from sort_data_ok [OF this] obtain d where "sort_data ?q = Inr (?q\<lparr>q_data := d\<rparr>)"
    "mset d = mset (map (\<lambda>(c, v, t). (c, v)) cols)"
    "sorted_wrt (\<lambda>a b. take (length (q_sort q)) (snd b) \<le> take (length (q_sort q)) (snd a)) d"
    by auto
  with assms(2) fetch_one [of q cf cols] assms(1,3) show ?thesis
    by (intro exI [of _ d]) (simp add: iter_query_def fetch_def)
qed

text \<open>
  An ascending sort is not honoured: \<open>_sort_data\<close> passes column names to the comparator, which
  tells ascending from descending by the class of the sort object, so a query declared with
  \<open>asc\<close> columns is ordered exactly as the same query declared with \<open>desc\<close> columns.
\<close>

lemma query_cache_asc_ignored:
  assumes "sort_data (q\<lparr>q_sort := map Asc cols\<rparr>) = Inr r"
  shows "sort_data (q\<lparr>q_sort := map Desc cols\<rparr>) = Inr (r\<lparr>q_sort := map Desc cols\<rparr>)"
  using assms by (rule sort_data_Asc_Desc)

lemma MAX_CACHED_ITEMS_pos [simp]: "MAX_CACHED_ITEMS \<noteq> 0"
  by (simp add: MAX_CACHED_ITEMS_def)

lemma prune_total:
  assumes "\<forall>i \<in> fst ` set (q_data q). map_of (q_timestamps q) i \<noteq> None"
  shows "\<exists>muts. prune n q = Inr muts \<and> (muts \<noteq> [] \<longleftrightarrow> MAX_CACHED_ITEMS < length (q_data q))"
proof -
  have m: "mapr (timestamp_of (q_timestamps q)) ids = Inr (map (\<lambda>i. the (map_of (q_timestamps q) i)) ids)"
    if "set ids \<subseteq> fst ` set (q_data q)" for ids
    using that assms by (intro mapr_total) (auto simp: timestamp_of_def split: option.splits)
  have "set (map fst (take MAX_CACHED_ITEMS (q_data q))) \<subseteq> fst ` set (q_data q)"
    "set (map fst (drop MAX_CACHED_ITEMS (q_data q))) \<subseteq> fst ` set (q_data q)"
    by (auto dest: in_set_takeD in_set_dropD)
  note ms = m [OF this(1)] m [OF this(2)]
  show ?thesis
    by (auto simp: prune_def ms Let_def remove_older_than_def remove_if_unchanged_def slice_last_def)
qed

lemma prune_keeps:
  assumes "prune n q = Inr muts" "mu \<in> set muts"
    and "distinct (map fst (q_data q))"
    and "i \<in> fst ` set (take MAX_CACHED_ITEMS (q_data q))"
    and "map_of (q_timestamps q) i = Some t" "t \<le> ts"
  shows "\<not> mut_removes mu (q_model q) (q_key q) i ts"
  using assms(1,2)
proof (cases rule: prune_cases)
  case (fast keep_ts t')
  have "t \<in> set keep_ts"
    using timestamps_cover [OF fast(1), of i] assms(4,5) by auto
  then have "Min (set keep_ts) \<le> t" by simp
  with fast(2,3) assms(6) show ?thesis by simp
next
  case (slow j)
  have "map fst (q_data q) = map fst (take MAX_CACHED_ITEMS (q_data q)) @ map fst (drop MAX_CACHED_ITEMS (q_data q))"
    by (metis append_take_drop_id map_append)
  with assms(3,4) slow(1) have "i \<noteq> j"
    by (metis disjoint_iff distinct_append image_set)
  with slow(2) show ?thesis by simp
qed

text \<open>
  (C11) Pruning never takes away an item that is to be kept. When every item has its timestamp,
  \<open>_prune\<close> does not raise and issues removals exactly when the listing is longer than a thousand
  items; none of them removes one of the first thousand items of the sorted listing, not even one
  written again after the fetch (\<open>ts\<close> is the time of its last write), under Cassandra's rule that
  a removal with a timestamp affects only older columns (\<open>mut_removes\<close>).
\<close>

theorem query_cache_prune_safe:
  fixes q :: "('a, 'v) cached_query"
  assumes "distinct (map fst (q_data q))"
    and "\<forall>i \<in> fst ` set (q_data q). map_of (q_timestamps q) i \<noteq> None"
  shows "\<exists>muts. prune n q = Inr muts \<and> (muts \<noteq> [] \<longleftrightarrow> MAX_CACHED_ITEMS < length (q_data q)) \<and>
    (\<forall>mu \<in> set muts. \<forall>i \<in> fst ` set (take MAX_CACHED_ITEMS (q_data q)).
       \<forall>t ts. map_of (q_timestamps q) i = Some t \<longrightarrow> t \<le> ts \<longrightarrow>
         \<not> mut_removes mu (q_model q) (q_key q) i ts)"
proof -
  obtain muts where m: "prune n q = Inr muts" "muts \<noteq> [] \<longleftrightarrow> MAX_CACHED_ITEMS < length (q_data q)"
    using prune_total [OF assms(2)] by blast
  show ?thesis
    by (rule exI [of _ muts], intro conjI ballI allI impI)
       (rule m(1), rule m(2), rule prune_keeps [OF m(1) _ assms(1)])
qed

definition long_query :: "nat \<Rightarrow> (string, int) cached_query" where
  "long_query n = (new_query ''UserQueryCache'' ''liked.1'' [Desc ''date''] (\<lambda>x. x) False)
     \<lparr>q_data := map (\<lambda>i. (replicate i CHR ''x'', [- int i])) [0..<n],
      q_timestamps := map (\<lambda>i. (replicate i CHR ''x'', 5000 - int i)) [0..<n]\<rparr>"

lemma long_query_distinct: "distinct (map fst (q_data (long_query n)))"
  by (simp add: long_query_def comp_def distinct_map inj_on_def)

lemma long_query_timestamps:
  "\<forall>i \<in> fst ` set (q_data (long_query n)). map_of (q_timestamps (long_query n)) i \<noteq> None"
proof -
  have "fst ` set (q_timestamps (long_query n)) = fst ` set (q_data (long_query n))"
    by (simp add: long_query_def image_image)
  then show ?thesis by (metis map_of_eq_None_iff)
qed

theorem query_cache_prune_safe_witness:
  "\<exists>muts. prune 30 (long_query 1200) = Inr muts \<and> (muts \<noteq> [] \<longleftrightarrow> MAX_CACHED_ITEMS < length (q_data (long_query 1200))) \<and>
    (\<forall>mu \<in> set muts. \<forall>i \<in> fst ` set (take MAX_CACHED_ITEMS (q_data (long_query 1200))).
       \<forall>t ts. map_of (q_timestamps (long_query 1200)) i = Some t \<longrightarrow> t \<le> ts \<longrightarrow>
         \<not> mut_removes mu (q_model (long_query 1200)) (q_key (long_query 1200)) i ts)"
proof (rule query_cache_prune_safe)
  show "distinct (map fst (q_data (long_query 1200)))" by (rule long_query_distinct)
  show "\<forall>i \<in> fst ` set (q_data (long_query 1200)). map_of (q_timestamps (long_query 1200)) i \<noteq> None"
    by (rule long_query_timestamps)
qed

text \<open>
  \<open>_fetch_multi\<close> fills a query only if its column family is the last one visited: over two
  column families, the queries of the other one keep the data they had, whatever is stored in
  Cassandra (the inner loop rebinds the name \<open>queries\<close>). With a single column family every query
  gets the items and timestamps of its row.
\<close>

lemma query_cache_fetch_multi:
  "(q \<in> set queries \<longrightarrow> q_model q \<noteq> last models \<longrightarrow> q \<in> set (fetch_multi cf models queries)) \<and>
   (\<not> is_precomputed q \<longrightarrow> rows (cf (q_model q)) (q_key q) = Some cols \<longrightarrow>
      fetch_multi cf [q_model q] [q] =
        [q\<lparr>q_data := map (\<lambda>(c, v, t). (c, v)) cols, q_timestamps := map (\<lambda>(c, v, t). (c, t)) cols\<rparr>])"
  using fetch_multi_other_model [of q queries models cf] fetch_one [of q cf cols] by blast

text \<open>
  The walk over a query's rule tree (\<open>_is_query_precomputed\<close>) terminates and answers
  whether some leaf, at any depth below \<open>and_\<close>, \<open>or_\<close> or \<open>not_\<close>, constrains the column \<open>_date\<close>.
\<close>

lemma query_cache_precomputed: "precomputed_loop rules \<longleftrightarrow> list_ex mentions_date rules"
  by (rule precomputed_loop_eq)

lemma row_key_components:
  assumes "row_key f (IdArg a # map StrArg xs) = Inr k"
    and "CHR ''.'' \<notin> set f" "\<forall>x \<in> set xs. CHR ''.'' \<notin> set x"
  obtains s where "to36 a = Inr s" "take 4 f = ''get_''" "split_on CHR ''.'' k = drop 4 f # s # xs"
proof -
  obtain s where s: "to36 a = Inr s" "take 4 f = ''get_''"
      "k = join_with ''.'' (drop 4 f # s # xs)"
    using assms(1)
    by (auto simp: row_key_def serialize_arg_def comp_def bindr_eq_Inr_iff Let_def split: if_splits)
  have "0 \<le> a" using s(1) by (auto simp: to36_def to_base_def split: if_splits)
  then have "CHR ''.'' \<notin> set s"
    using to36_nonneg [of a] s(1) alphabet36_no_dot(1) by auto
  moreover have "CHR ''.'' \<notin> set (drop 4 f)"
    using assms(2) by (auto dest: in_set_dropD)
  ultimately have "split_on CHR ''.'' k = drop 4 f # s # xs"
    using assms(3) unfolding s(3) by (intro split_join) auto
  with s that show thesis by blast
qed

text \<open>
  Distinct cached queries never share a row: the row key built from the decorated function's
  name, the id of its first argument and further string arguments determines all of them, as long
  as the strings hold no dot (the separator of the key).
\<close>

lemma query_cache_row_key_inject:
  assumes "row_key f (IdArg a # map StrArg xs) = Inr k" "row_key g (IdArg b # map StrArg ys) = Inr k"
    and "CHR ''.'' \<notin> set f" "CHR ''.'' \<notin> set g"
    and "\<forall>x \<in> set xs. CHR ''.'' \<notin> set x" "\<forall>y \<in> set ys. CHR ''.'' \<notin> set y"
  shows "f = g \<and> a = b \<and> xs = ys"
proof -
  obtain s where s: "to36 a = Inr s" "take 4 f = ''get_''" "split_on CHR ''.'' k = drop 4 f # s # xs"
    using row_key_components [OF assms(1,3,5)] .
  obtain t where t: "to36 b = Inr t" "take 4 g = ''get_''" "split_on CHR ''.'' k = drop 4 g # t # ys"
    using row_key_components [OF assms(2,4,6)] .
  from s t have "take 4 f @ drop 4 f = take 4 g @ drop 4 g" "s = t" "xs = ys" by simp_all
  with s(1) t(1) to36_inject show ?thesis by (simp del: append_take_drop_id) (metis append_take_drop_id)
qed

end
