(* ===== verification/Vote.thy ===== *)
theory Vote
  imports Karma Hooks
begin

section \<open>Votes and their effects\<close>

text \<open>
  Models \<open>r2/models/vote.py\<close>: the directions and their stored form, a \<open>Vote\<close> with its
  \<open>VoteEffects\<close>, applying the effects to the thing voted on and to its author's karma, and the
  column families a vote is written to and read back from. The world the vote handler works on is
  the record \<open>world\<close>; calls to plugins, statistics, the search index and the event collector are
  recorded in order in \<open>w_log\<close>. Accounts and things are referred to by their ids (the code uses
  the base-36 spelling of the same ids, see \<open>Base36\<close>). Expiry of columns by TTL is left out.
\<close>

subsection \<open>Directions\<close>

datatype direction =
    DUp | DDown | DUnup | DUndown | DOnon | DOnoff | DOffon | DOffoff | DUnvote

text \<open>The values of the \<open>Enum\<close>: the position of the name in \<open>Vote.DIRECTIONS\<close>.\<close>

definition DIRECTIONS :: "direction list" where
  "DIRECTIONS = [DUp, DDown, DUnup, DUndown, DOnon, DOnoff, DOffon, DOffoff, DUnvote]"

definition direction_of_value :: "int \<Rightarrow> direction result" where
  "direction_of_value n =
     (if 0 \<le> n \<and> n < 9 then Inr (DIRECTIONS ! nat n) else Inl (ValueError ''Invalid vote direction''))"

fun value_of_direction :: "direction \<Rightarrow> int" where
  "value_of_direction DUp = 0"
| "value_of_direction DDown = 1"
| "value_of_direction DUnup = 2"
| "value_of_direction DUndown = 3"
| "value_of_direction DOnon = 4"
| "value_of_direction DOnoff = 5"
| "value_of_direction DOffon = 6"
| "value_of_direction DOffoff = 7"
| "value_of_direction DUnvote = 8"

fun serialize_direction :: "direction \<Rightarrow> int" where
  "serialize_direction DUp = 1"
| "serialize_direction DDown = - 1"
| "serialize_direction DUnvote = 0"
| "serialize_direction DUnup = 11"
| "serialize_direction DUndown = - 11"
| "serialize_direction DOnon = 3"
| "serialize_direction DOnoff = 4"
| "serialize_direction DOffon = 5"
| "serialize_direction DOffoff = 6"

definition SERIALIZED_DIRECTIONS :: "(direction, int) dict" where
  "SERIALIZED_DIRECTIONS = map (\<lambda>d. (d, serialize_direction d)) DIRECTIONS"

text \<open>\<open>DESERIALIZED_DIRECTIONS\<close> is the inverted dictionary.\<close>

definition deserialize_direction :: "int \<Rightarrow> direction result" where
  "deserialize_direction n =
     (case map_of (map (\<lambda>(d, v). (v, d)) SERIALIZED_DIRECTIONS) n of
        None \<Rightarrow> Inl (ValueError ''Invalid vote direction'')
      | Some d \<Rightarrow> Inr d)"

subsection \<open>Things, effects, votes\<close>

datatype thing_class = Link | Comment | OtherThing

type_synonym tkey = "thing_class \<times> int"

record thing =
  th_class :: thing_class
  th_id :: int
  th_author :: int
  th_sr :: string
  th_is_self :: bool
  th_ups :: int
  th_downs :: int
  th_date :: int
  th_spam :: bool
  th_deleted :: bool
  th_distinguished :: bool
  th_link_sticky :: "int option"

definition tkey_of :: "thing \<Rightarrow> tkey" where
  "tkey_of t = (th_class t, th_id t)"

definition is_votable :: "thing \<Rightarrow> bool" where
  "is_votable t = (case th_class t of Link \<Rightarrow> True | Comment \<Rightarrow> True | OtherThing \<Rightarrow> False)"

definition affects_karma_type :: "thing \<Rightarrow> string" where
  "affects_karma_type t =
     (case th_class t of
        Link \<Rightarrow> if th_is_self t then ''self'' else ''link''
      | Comment \<Rightarrow> ''comment''
      | OtherThing \<Rightarrow> [])"

definition num_votes :: "thing \<Rightarrow> int" where
  "num_votes t = th_ups t + th_downs t"

record vote_effects =
  note_codes :: "(string, string option) dict"
  affects_score :: bool
  affects_karma :: bool
  other_effects :: "(string, json) dict"
  karma_change :: int

text \<open>
  A vote read back from the database has no previous vote (\<open>get_previous_vote=False\<close>); a vote made
  from a queue message may have one.
\<close>

record vote_core =
  v_user :: account
  v_thing :: thing
  v_direction :: direction
  v_vote_direction :: "direction option"
  v_date :: int
  v_data :: "(string, json) dict"
  v_event_data :: "json option"

record stored_vote = vote_core +
  v_effects :: vote_effects

record vote = stored_vote +
  v_previous :: "stored_vote option"

definition stored_of :: "vote_core \<Rightarrow> vote_effects \<Rightarrow> stored_vote" where
  "stored_of c e =
     \<lparr>v_user = v_user c, v_thing = v_thing c, v_direction = v_direction c,
      v_vote_direction = v_vote_direction c, v_date = v_date c, v_data = v_data c,
      v_event_data = v_event_data c, v_effects = e\<rparr>"

definition vote_of :: "vote_core \<Rightarrow> vote_effects \<Rightarrow> stored_vote option \<Rightarrow> vote" where
  "vote_of c e prev =
     \<lparr>v_user = v_user c, v_thing = v_thing c, v_direction = v_direction c,
      v_vote_direction = v_vote_direction c, v_date = v_date c, v_data = v_data c,
      v_event_data = v_event_data c, v_effects = e, v_previous = prev\<rparr>"

definition is_upvote :: "'a vote_core_scheme \<Rightarrow> bool" where
  "is_upvote v = (v_vote_direction v = Some DUp \<or> v_direction v = DUp)"

definition is_downvote :: "'a vote_core_scheme \<Rightarrow> bool" where
  "is_downvote v = (v_vote_direction v = Some DDown \<or> v_direction v = DDown)"

definition is_unupvote :: "'a vote_core_scheme \<Rightarrow> bool" where
  "is_unupvote v = (v_vote_direction v = Some DUnup)"

definition is_undownvote :: "'a vote_core_scheme \<Rightarrow> bool" where
  "is_undownvote v = (v_vote_direction v = Some DUndown)"

definition is_ononvote :: "'a vote_core_scheme \<Rightarrow> bool" where
  "is_ononvote v = (v_direction v = DOnon)"

definition is_onoffvote :: "'a vote_core_scheme \<Rightarrow> bool" where
  "is_onoffvote v = (v_direction v = DOnoff)"

definition is_offonvote :: "'a vote_core_scheme \<Rightarrow> bool" where
  "is_offonvote v = (v_direction v = DOffon)"

definition is_offoffvote :: "'a vote_core_scheme \<Rightarrow> bool" where
  "is_offoffvote v = (v_direction v = DOffoff)"

definition is_self_vote :: "'a vote_core_scheme \<Rightarrow> bool" where
  "is_self_vote v = (acc_id (v_user v) = th_author (v_thing v))"

text \<open>\<open>is_automatic_initial_vote\<close> and \<open>delay\<close>, for a vote and its previous vote.\<close>

definition is_automatic_initial_vote :: "'a vote_core_scheme \<Rightarrow> stored_vote option \<Rightarrow> bool" where
  "is_automatic_initial_vote v prev = (is_self_vote v \<and> prev = None)"

definition vote_delay :: "'a vote_core_scheme \<Rightarrow> stored_vote option \<Rightarrow> int" where
  "vote_delay v prev =
     (if is_automatic_initial_vote v prev then 0 else v_date v - th_date (v_thing v))"

subsection \<open>Determining the effects\<close>

text \<open>
  The settings and the validator a plugin may supply through the hook \<open>vote.get_validator\<close>; the
  handlers of that hook are a parameter.
\<close>

record config =
  allow_selfvote :: string
  min_up_karma :: int

record validator =
  val_score :: "bool option"
  val_karma :: "bool option"
  val_other :: "(string, json) dict"

type_synonym validator_hook = "(vote_core \<times> stored_vote option, unit, validator) handler list"

definition add_note ::
    "string \<Rightarrow> string option \<Rightarrow> (string, string option) dict \<Rightarrow> (string, string option) dict" where
  "add_note code message notes = AList.update code message notes"

definition determine_affects_score ::
    "config \<Rightarrow> validator option \<Rightarrow> vote_core \<Rightarrow> stored_vote option
     \<Rightarrow> (string, string option) dict \<Rightarrow> bool \<times> (string, string option) dict" where
  "determine_affects_score cfg val v prev notes =
     (if is_automatic_initial_vote v prev then (False, add_note ''AUTOMATIC_INITIAL_VOTE'' None notes)
      else if (case prev of None \<Rightarrow> False
               | Some p \<Rightarrow> \<not> affects_score (v_effects p) \<and> allow_selfvote cfg = ''false'')
      then (False, add_note ''PREVIOUS_VOTE_NO_EFFECT'' None notes)
      else if acc_spam (v_user v) then (False, notes)
      else (case val of
              None \<Rightarrow> (True, notes)
            | Some w \<Rightarrow> (case val_score w of None \<Rightarrow> (True, notes) | Some b \<Rightarrow> (b, notes))))"

definition determine_affects_karma ::
    "validator option \<Rightarrow> bool \<Rightarrow> vote_core \<Rightarrow> stored_vote option
     \<Rightarrow> (string, string option) dict \<Rightarrow> bool \<times> (string, string option) dict" where
  "determine_affects_karma val score v prev notes =
     (if \<not> score then (False, notes)
      else if (case prev of None \<Rightarrow> False | Some p \<Rightarrow> \<not> affects_karma (v_effects p))
      then (False, add_note ''PREVIOUS_VOTE_NO_KARMA'' None notes)
      else if affects_karma_type (v_thing v) = []
      then (False, add_note ''KARMALESS_THING'' None notes)
      else if th_class (v_thing v) = Comment \<and> th_distinguished (v_thing v) \<and>
              th_link_sticky (v_thing v) = Some (th_id (v_thing v))
      then (False, add_note ''COMMENT_STICKIED'' None notes)
      else if acc_spam (v_user v) then (False, notes)
      else (case val of
              None \<Rightarrow> (True, notes)
            | Some w \<Rightarrow> (case val_karma w of None \<Rightarrow> (True, notes) | Some b \<Rightarrow> (b, notes))))"

definition determine_other_effects :: "validator option \<Rightarrow> (string, json) dict" where
  "determine_other_effects val =
     (case val of None \<Rightarrow> [] | Some w \<Rightarrow> dict_update [] (val_other w))"

definition karma_change_of :: "bool \<Rightarrow> 'a vote_core_scheme \<Rightarrow> int" where
  "karma_change_of karma v =
     (if \<not> karma then 0
      else if is_upvote v then 2
      else if is_downvote v then 1
      else if is_unupvote v then - 2
      else if is_undownvote v then - 1
      else 0)"

text \<open>\<open>VoteEffects.__init__\<close>: stored effects are taken over, otherwise they are determined.\<close>

definition vote_effects_init ::
    "config \<Rightarrow> validator_hook \<Rightarrow> vote_core \<Rightarrow> stored_vote option \<Rightarrow> (string, json) dict option
     \<Rightarrow> vote_effects result" where
  "vote_effects_init cfg hook v prev effects =
     (case effects of
        Some (e # es) \<Rightarrow>
          bindr (dict_pop ''affects_score'' (e # es)) (\<lambda>(s, rest).
          bindr (dict_pop ''affects_karma'' rest) (\<lambda>(k, rest').
            Inr \<lparr>note_codes = [], affects_score = json_true s, affects_karma = json_true k,
                 other_effects = rest', karma_change = karma_change_of (json_true k) v\<rparr>))
      | _ \<Rightarrow>
          let val = fst (call_until_return hook (v, prev) ());
              (score, notes) = determine_affects_score cfg val v prev [];
              (karma, notes') = determine_affects_karma val score v prev notes
          in Inr \<lparr>note_codes = notes', affects_score = score, affects_karma = karma,
                  other_effects = determine_other_effects val,
                  karma_change = karma_change_of karma v\<rparr>)"

definition notes_of :: "vote_effects \<Rightarrow> string list" where
  "notes_of e =
     map (\<lambda>(code, message). case message of
            None \<Rightarrow> code
          | Some m \<Rightarrow> if m = [] then code else code @ '' ('' @ m @ '')'') (note_codes e)"

definition serializable_data :: "vote_effects \<Rightarrow> (string, json) dict" where
  "serializable_data e =
     (let d = dict_update [(''affects_score'', JBool (affects_score e)),
                           (''affects_karma'', JBool (affects_karma e))] (other_effects e)
      in if notes_of e = [] then d
         else AList.update ''notes'' (JStr (join_with '', '' (notes_of e))) d)"

subsection \<open>The world\<close>

datatype effect =
    ApplyEffectsHook tkey
  | SearchUpdate tkey
  | VoteEvent int tkey
  | StatEvent string

record world =
  w_accounts :: "int \<Rightarrow> account option"
  w_things :: "tkey \<Rightarrow> thing option"
  w_votes :: "int \<times> tkey \<Rightarrow> string option"
  w_details :: "tkey \<Rightarrow> (int, json) dict"
  w_ips :: "tkey \<Rightarrow> (int, json) dict"
  w_notes :: "int \<times> tkey \<Rightarrow> string list"
  w_log :: "effect list"

text \<open>\<open>thing._incr(prop, amt)\<close> on the stored thing.\<close>

definition incr_ups :: "tkey \<Rightarrow> int \<Rightarrow> 'a world_scheme \<Rightarrow> 'a world_scheme" where
  "incr_ups k amt w =
     w\<lparr>w_things := (w_things w)(k := map_option (\<lambda>t. t\<lparr>th_ups := th_ups t + amt\<rparr>) (w_things w k))\<rparr>"

definition incr_downs :: "tkey \<Rightarrow> int \<Rightarrow> 'a world_scheme \<Rightarrow> 'a world_scheme" where
  "incr_downs k amt w =
     w\<lparr>w_things := (w_things w)(k := map_option (\<lambda>t. t\<lparr>th_downs := th_downs t + amt\<rparr>) (w_things w k))\<rparr>"

definition log_effect :: "effect \<Rightarrow> 'a world_scheme \<Rightarrow> 'a world_scheme" where
  "log_effect e w = w\<lparr>w_log := w_log w @ [e]\<rparr>"

subsection \<open>Reading votes back\<close>

definition convert_old_details :: "(string, json) dict \<Rightarrow> (string, json) dict result" where
  "convert_old_details old_data =
     (if map_of old_data ''valid_thing'' = None then Inr old_data
      else
        bindr (dict_pop ''direction'' old_data) (\<lambda>(dir, d1).
        bindr (py_int dir) (\<lambda>dir'.
        bindr (dict_pop ''date'' d1) (\<lambda>(date, d2).
        bindr (py_int date) (\<lambda>date'.
          let (valid_thing, d3) = dict_pop_default ''valid_thing'' (JBool True) d2;
              (valid_user, d4) = dict_pop_default ''valid_user'' (JBool True) d3;
              converted = [(''direction'', JNum dir'), (''date'', JNum date'),
                           (''effects'', JObj [(''affects_score'', valid_thing),
                                               (''affects_karma'', valid_user)])]
          in Inr (if d4 = [] then converted else converted @ [(''data'', JObj d4)]))))))"

text \<open>One row of \<open>get_details\<close>: the vote a stored column stands for.\<close>

definition detail_to_vote ::
    "config \<Rightarrow> validator_hook \<Rightarrow> 'a world_scheme \<Rightarrow> thing \<Rightarrow> int \<times> json \<Rightarrow> stored_vote result" where
  "detail_to_vote cfg hook w thing col =
     (let (voter, json_data) = col in
      bindr (json_dict json_data) (\<lambda>data0.
      bindr (convert_old_details data0) (\<lambda>data.
      bindr (case w_accounts w voter of None \<Rightarrow> Inl NotFound | Some a \<Rightarrow> Inr a) (\<lambda>user.
      bindr (dict_pop ''direction'' data) (\<lambda>(dir, d1).
      bindr (py_int dir) (\<lambda>n.
      bindr (deserialize_direction n) (\<lambda>direction.
      bindr (dict_pop ''date'' d1) (\<lambda>(date, d2).
      bindr (py_int date) (\<lambda>date'.
      bindr (dict_pop ''effects'' d2) (\<lambda>(effects, d3).
      bindr (json_dict effects) (\<lambda>eff.
        let ip = (case map_of (w_ips w (tkey_of thing)) voter of None \<Rightarrow> JNull | Some j \<Rightarrow> j);
            core = \<lparr>v_user = user, v_thing = thing, v_direction = direction,
                    v_vote_direction = None, v_date = date',
                    v_data = AList.update ''ip'' ip d3, v_event_data = None\<rparr> in
        if \<not> is_votable thing then Inl (TypeError ''Can't create vote on unvotable thing'')
        else bindr (vote_effects_init cfg hook core None (Some eff)) (\<lambda>e.
          Inr (stored_of core e)))))))))))))"

definition get_details ::
    "config \<Rightarrow> validator_hook \<Rightarrow> 'a world_scheme \<Rightarrow> thing \<Rightarrow> int list option \<Rightarrow> stored_vote list result" where
  "get_details cfg hook w thing voters =
     (if th_class thing = OtherThing then Inl (ValueError [])
      else let raw_details = (case voters of
                  None \<Rightarrow> w_details w (tkey_of thing)
                | Some [] \<Rightarrow> w_details w (tkey_of thing)
                | Some us \<Rightarrow> filter (\<lambda>c. fst c \<in> set us) (w_details w (tkey_of thing))) in
        bindr (mapr (detail_to_vote cfg hook w thing) raw_details) (\<lambda>details.
          Inr (sort_key v_date details)))"

definition get_vote ::
    "config \<Rightarrow> validator_hook \<Rightarrow> 'a world_scheme \<Rightarrow> int \<Rightarrow> thing \<Rightarrow> stored_vote option result" where
  "get_vote cfg hook w user_id thing =
     bindr (get_details cfg hook w thing (Some [user_id])) (\<lambda>details.
       Inr (case details of [] \<Rightarrow> None | v # _ \<Rightarrow> Some v))"

subsection \<open>Making a vote\<close>

text \<open>\<open>Vote.__init__\<close> with \<open>get_previous_vote=True\<close>: the old date is kept on a changed vote.\<close>

definition vote_init ::
    "config \<Rightarrow> validator_hook \<Rightarrow> 'a world_scheme \<Rightarrow> account \<Rightarrow> thing \<Rightarrow> int \<Rightarrow> int \<Rightarrow> (string, json) dict
     \<Rightarrow> json option \<Rightarrow> direction option \<Rightarrow> vote result" where
  "vote_init cfg hook w user thing direction date data event_data vote_direction =
     (if \<not> is_votable thing then Inl (TypeError ''Can't create vote on unvotable thing'')
      else bindr (direction_of_value direction) (\<lambda>d.
        bindr (get_vote cfg hook w (acc_id user) thing) (\<lambda>prev.
          let date' = (case prev of None \<Rightarrow> date | Some p \<Rightarrow> v_date p);
              core = \<lparr>v_user = user, v_thing = thing, v_direction = d,
                      v_vote_direction = vote_direction, v_date = date', v_data = data,
                      v_event_data = event_data\<rparr> in
          bindr (vote_effects_init cfg hook core prev None) (\<lambda>e.
            Inr (vote_of core e prev)))))"

definition vote_eq :: "'a vote_core_scheme \<Rightarrow> 'b vote_core_scheme \<Rightarrow> bool" where
  "vote_eq v u = (acc_id (v_user v) = acc_id (v_user u) \<and> tkey_of (v_thing v) = tkey_of (v_thing u) \<and>
                  v_direction v = v_direction u)"

subsection \<open>Applying and persisting a vote\<close>

definition affected_ups :: "vote \<Rightarrow> bool" where
  "affected_ups v = (affects_score (v_effects v) \<and> is_upvote v)"

definition affected_downs :: "vote \<Rightarrow> bool" where
  "affected_downs v = (affects_score (v_effects v) \<and> \<not> is_upvote v \<and> is_downvote v)"

text \<open>The first two statements of \<open>apply_effects\<close>: the counters of the thing.\<close>

definition remove_old_vote :: "vote \<Rightarrow> 'a world_scheme \<Rightarrow> 'a world_scheme" where
  "remove_old_vote v w =
     (let k = tkey_of (v_thing v) in
      if v_previous v \<noteq> None \<and> is_unupvote v \<and> affects_score (v_effects v) then incr_ups k (- 1) w
      else if v_previous v \<noteq> None \<and> is_undownvote v \<and> affects_score (v_effects v)
      then incr_downs k (- 1) w
      else w)"

definition add_new_vote :: "vote \<Rightarrow> 'a world_scheme \<Rightarrow> 'a world_scheme" where
  "add_new_vote v w =
     (let k = tkey_of (v_thing v) in
      if affected_ups v then incr_ups k 1 w
      else if affected_downs v then incr_downs k 1 w
      else w)"

definition apply_karma :: "config \<Rightarrow> vote \<Rightarrow> 'a world_scheme \<Rightarrow> 'a world_scheme result" where
  "apply_karma cfg v w =
     (if affects_karma (v_effects v) \<and> karma_change (v_effects v) \<noteq> 0 then
        (let author = th_author (v_thing v) in
         case w_accounts w author of
           None \<Rightarrow> Inl NotFound
         | Some a \<Rightarrow> Inr (w\<lparr>w_accounts := (w_accounts w)(author \<mapsto>
               incr_karma (min_up_karma cfg) (affects_karma_type (v_thing v)) (th_sr (v_thing v))
                 (karma_change (v_effects v)) a)\<rparr>))
      else Inr w)"

definition apply_effects :: "config \<Rightarrow> vote \<Rightarrow> 'a world_scheme \<Rightarrow> 'a world_scheme result" where
  "apply_effects cfg v w =
     bindr (apply_karma cfg v (add_new_vote v (remove_old_vote v w))) (\<lambda>w'.
       Inr (log_effect (ApplyEffectsHook (tkey_of (v_thing v))) w'))"

text \<open>
  \<open>VoteDetailsByThing.create\<close>: the JSON column, the address and the notes, each in its own column
  family. \<open>data.pop("ip")\<close> raises when the vote data holds no address.
\<close>

definition vote_json :: "vote \<Rightarrow> (string, json) dict \<Rightarrow> (string, json) dict \<Rightarrow> json" where
  "vote_json v vote_data effects_data =
     JObj [(''direction'', JNum (serialize_direction (v_direction v))),
           (''date'', JNum (v_date v)),
           (''data'', JObj vote_data),
           (''effects'', JObj effects_data)]"

definition create_details :: "vote \<Rightarrow> 'a world_scheme \<Rightarrow> 'a world_scheme result" where
  "create_details v w =
     (let k = tkey_of (v_thing v); u = acc_id (v_user v) in
      bindr (dict_pop ''ip'' (v_data v)) (\<lambda>(ip, vote_data).
        let (notes, effects_data) = dict_pop_default ''notes'' JNull (serializable_data (v_effects v));
            w1 = w\<lparr>w_details := (w_details w)(k := AList.update u (vote_json v vote_data effects_data) (w_details w k))\<rparr>;
            w2 = (if json_true ip then w1\<lparr>w_ips := (w_ips w1)(k := AList.update u ip (w_ips w1 k))\<rparr> else w1);
            w3 = (case notes of
                    JStr n \<Rightarrow> if n = [] then w2
                              else w2\<lparr>w_notes := (w_notes w2)((u, k) := w_notes w2 (u, k) @ [n])\<rparr>
                  | _ \<Rightarrow> w2)
        in Inr w3))"

text \<open>\<open>VotesByAccount.write_vote\<close>: the relation's row, then its view.\<close>

definition write_vote :: "vote \<Rightarrow> 'a world_scheme \<Rightarrow> 'a world_scheme result" where
  "write_vote v w =
     (let k = tkey_of (v_thing v); u = acc_id (v_user v) in
      if fst k = OtherThing then Inl (TypeError ''Can't find class'')
      else create_details v (w\<lparr>w_votes := (w_votes w)((u, k) \<mapsto> py_str_int (serialize_direction (v_direction v)))\<rparr>))"

definition commit :: "config \<Rightarrow> vote \<Rightarrow> 'a world_scheme \<Rightarrow> 'a world_scheme result" where
  "commit cfg v w =
     (if (case v_previous v of None \<Rightarrow> False | Some p \<Rightarrow> vote_eq v p) then Inr w
      else
        bindr (apply_effects cfg v w) (\<lambda>w1.
        bindr (write_vote v w1) (\<lambda>w2.
          let k = tkey_of (v_thing v);
              n = (case w_things w2 k of None \<Rightarrow> num_votes (v_thing v) | Some t \<Rightarrow> num_votes t);
              w3 = (if n < 20 \<or> n mod 10 = 0 then log_effect (SearchUpdate k) w2 else w2);
              w4 = (if (case v_event_data v of None \<Rightarrow> False | Some j \<Rightarrow> json_true j)
                    then log_effect (VoteEvent (acc_id (v_user v)) k) w3 else w3)
          in Inr (log_effect (StatEvent ''vote.total'') w4))))"

subsection \<open>Directions: lemmas\<close>

lemma deserialize_serialize [simp]: "deserialize_direction (serialize_direction d) = Inr d"
  by (cases d) (simp_all add: deserialize_direction_def SERIALIZED_DIRECTIONS_def DIRECTIONS_def)

lemma direction_of_value_of [simp]: "direction_of_value (value_of_direction d) = Inr d"
  by (cases d) (simp_all add: direction_of_value_def DIRECTIONS_def)

lemma deserialize_direction_range:
  "deserialize_direction n = Inr d \<Longrightarrow> n = serialize_direction d"
  by (auto simp: deserialize_direction_def SERIALIZED_DIRECTIONS_def DIRECTIONS_def split: if_splits)

subsection \<open>Stored votes: lemmas\<close>

text \<open>
  What a column of \<open>VoteDetailsByThing\<close> in the current format says. \<open>col_dir\<close>, \<open>col_score\<close> and
  \<open>col_karma\<close> read the direction and the two stored effects; \<open>wf_detail\<close> is the format
  \<open>create_details\<close> writes.
\<close>

definition col_field :: "string \<Rightarrow> json \<Rightarrow> json option" where
  "col_field f j = (case j of JObj d \<Rightarrow> map_of d f | _ \<Rightarrow> None)"

definition col_dir :: "json \<Rightarrow> direction option" where
  "col_dir j = (case col_field ''direction'' j of
       Some (JNum n) \<Rightarrow> (case deserialize_direction n of Inr d \<Rightarrow> Some d | Inl _ \<Rightarrow> None)
     | _ \<Rightarrow> None)"

definition col_effect :: "string \<Rightarrow> json \<Rightarrow> bool" where
  "col_effect f j = (case col_field ''effects'' j of
       Some e \<Rightarrow> (case col_field f e of Some v \<Rightarrow> json_true v | None \<Rightarrow> False)
     | None \<Rightarrow> False)"

abbreviation col_score :: "json \<Rightarrow> bool" where
  "col_score \<equiv> col_effect ''affects_score''"

abbreviation col_karma :: "json \<Rightarrow> bool" where
  "col_karma \<equiv> col_effect ''affects_karma''"

definition wf_detail :: "json \<Rightarrow> bool" where
  "wf_detail j \<longleftrightarrow> (\<exists>d date data eff s k.
     j = JObj [(''direction'', JNum (serialize_direction d)), (''date'', JNum date),
               (''data'', JObj data), (''effects'', JObj eff)] \<and>
     map_of eff ''affects_score'' = Some s \<and> map_of eff ''affects_karma'' = Some k)"

lemma map_of_serializable:
  assumes "map_of (other_effects e) ''affects_score'' = None"
    and "map_of (other_effects e) ''affects_karma'' = None" and "dict_ok (other_effects e)"
    and "dict_pop_default ''notes'' JNull (serializable_data e) = (notes, eff)"
  shows "map_of eff ''affects_score'' = Some (JBool (affects_score e))"
    and "map_of eff ''affects_karma'' = Some (JBool (affects_karma e))"
  using assms
  by (auto simp: serializable_data_def dict_pop_default_def Let_def map_of_dict_update map_add_def
      split: if_splits option.splits)

lemma vote_effects_init_stored:
  assumes "map_of eff ''affects_score'' = Some s" "map_of eff ''affects_karma'' = Some k"
  shows "vote_effects_init cfg hook c prev (Some eff) = Inr
    \<lparr>note_codes = [], affects_score = json_true s, affects_karma = json_true k,
     other_effects = AList.delete ''affects_karma'' (AList.delete ''affects_score'' eff),
     karma_change = karma_change_of (json_true k) c\<rparr>"
proof -
  obtain x xs where x: "eff = x # xs" using assms(1) by (cases eff) auto
  have p: "dict_pop ''affects_score'' eff = Inr (s, AList.delete ''affects_score'' eff)"
    "dict_pop ''affects_karma'' (AList.delete ''affects_score'' eff)
       = Inr (k, AList.delete ''affects_karma'' (AList.delete ''affects_score'' eff))"
    using assms by (simp_all add: dict_pop_def)
  have "vote_effects_init cfg hook c prev (Some eff) =
    bindr (dict_pop ''affects_score'' eff) (\<lambda>(s, rest).
      bindr (dict_pop ''affects_karma'' rest) (\<lambda>(k, rest').
        Inr \<lparr>note_codes = [], affects_score = json_true s, affects_karma = json_true k,
             other_effects = rest', karma_change = karma_change_of (json_true k) c\<rparr>))"
    unfolding vote_effects_init_def x by simp
  then show ?thesis by (simp add: p)
qed

lemma detail_to_vote_wf:
  assumes "wf_detail j" "w_accounts w u = Some a" "is_votable t"
  shows "\<exists>s. detail_to_vote cfg hook w t (u, j) = Inr s \<and> v_user s = a \<and> v_thing s = t \<and>
    v_vote_direction s = None \<and> col_dir j = Some (v_direction s) \<and>
    affects_score (v_effects s) = col_score j \<and> affects_karma (v_effects s) = col_karma j \<and>
    map_option JNum (Some (v_date s)) = col_field ''date'' j"
proof -
  from assms(1) obtain d date data eff sc ka where
    j: "j = JObj [(''direction'', JNum (serialize_direction d)), (''date'', JNum date),
               (''data'', JObj data), (''effects'', JObj eff)]"
    and eff: "map_of eff ''affects_score'' = Some sc" "map_of eff ''affects_karma'' = Some ka"
    unfolding wf_detail_def by blast
  with assms(2,3) show ?thesis
    by (simp add: detail_to_vote_def json_dict_def convert_old_details_def dict_pop_def py_int_def
        vote_effects_init_stored stored_of_def col_dir_def col_field_def col_effect_def Let_def)
qed

lemma filter_single_key:
  assumes "dict_ok d"
  shows "filter (\<lambda>c. fst c \<in> set [u]) d = (case map_of d u of None \<Rightarrow> [] | Some j \<Rightarrow> [(u, j)])"
  using assms
proof (induction d)
  case Nil
  then show ?case by simp
next
  case (Cons c d)
  then show ?case
    by (cases c) (force simp: dict_ok_def filter_empty_conv split: option.splits dest: map_of_SomeD)
qed

text \<open>\<open>get_vote\<close> in terms of the stored column.\<close>

lemma get_vote_None:
  assumes "dict_ok (w_details w (tkey_of t))" "is_votable t" "map_of (w_details w (tkey_of t)) u = None"
  shows "get_vote cfg hook w u t = Inr None"
  using assms filter_single_key [OF assms(1), of u]
  by (auto simp: get_vote_def get_details_def is_votable_def split: thing_class.splits)

lemma get_vote_Some:
  assumes "dict_ok (w_details w (tkey_of t))" "is_votable t"
    and "map_of (w_details w (tkey_of t)) u = Some j" "wf_detail j" "w_accounts w u = Some a"
  obtains s where "get_vote cfg hook w u t = Inr (Some s)" "v_user s = a" "v_thing s = t"
    "v_vote_direction s = None" "col_dir j = Some (v_direction s)"
    "affects_score (v_effects s) = col_score j" "affects_karma (v_effects s) = col_karma j"
proof -
  obtain s where "detail_to_vote cfg hook w t (u, j) = Inr s \<and> v_user s = a \<and> v_thing s = t \<and>
      v_vote_direction s = None \<and> col_dir j = Some (v_direction s) \<and>
      affects_score (v_effects s) = col_score j \<and> affects_karma (v_effects s) = col_karma j"
    using detail_to_vote_wf [OF assms(4,5,2)] by blast
  then show thesis
    using assms(2,3) filter_single_key [OF assms(1), of u]
    by (intro that [of s]) (auto simp: get_vote_def get_details_def is_votable_def split: thing_class.splits)
qed

lemma wf_detail_dir: "wf_detail j \<Longrightarrow> \<exists>d. col_dir j = Some d"
  by (auto simp: wf_detail_def col_dir_def col_field_def)

subsection \<open>Committing: lemmas\<close>

lemmas vote_write_defs = incr_ups_def incr_downs_def log_effect_def remove_old_vote_def add_new_vote_def

lemma counters_frame [simp]:
  "w_details (add_new_vote v (remove_old_vote v w)) = w_details w"
  "w_accounts (add_new_vote v (remove_old_vote v w)) = w_accounts w"
  "w_votes (add_new_vote v (remove_old_vote v w)) = w_votes w"
  "world.more (add_new_vote v (remove_old_vote v w)) = world.more w"
  by (simp_all add: vote_write_defs Let_def)

lemma log_effect_frame [simp]:
  "w_details (log_effect x w) = w_details w" "w_accounts (log_effect x w) = w_accounts w"
  "w_things (log_effect x w) = w_things w" "w_votes (log_effect x w) = w_votes w"
  "world.more (log_effect x w) = world.more w"
  by (simp_all add: log_effect_def)

lemma apply_karma_frame:
  assumes "apply_karma cfg v w = Inr w'"
  shows "w_details w' = w_details w" "w_things w' = w_things w" "w_votes w' = w_votes w"
    "world.more w' = world.more w"
    "(w_accounts w' u = None) = (w_accounts w u = None)"
    "map_option acc_id (w_accounts w' u) = map_option acc_id (w_accounts w u)"
    "map_option acc_spam (w_accounts w' u) = map_option acc_spam (w_accounts w u)"
  using assms by (auto simp: apply_karma_def Let_def incr_karma_frame split: if_splits option.splits)

lemma create_details_Inr:
  assumes "create_details v w = Inr w'"
  obtains vote_data eff where
    "w_details w' = (w_details w)(tkey_of (v_thing v) :=
       AList.update (acc_id (v_user v)) (vote_json v vote_data eff) (w_details w (tkey_of (v_thing v))))"
    "\<exists>notes. dict_pop_default ''notes'' JNull (serializable_data (v_effects v)) = (notes, eff)"
    "w_things w' = w_things w" "w_accounts w' = w_accounts w" "w_votes w' = w_votes w"
    "world.more w' = world.more w"
proof -
  obtain nt eff where ne: "dict_pop_default ''notes'' JNull (serializable_data (v_effects v)) = (nt, eff)"
    by (cases "dict_pop_default ''notes'' JNull (serializable_data (v_effects v))")
  obtain ip vote_data where ip: "dict_pop ''ip'' (v_data v) = Inr (ip, vote_data)"
    using assms by (auto simp: create_details_def Let_def bindr_eq_Inr_iff)
  show thesis
    by (rule that [of vote_data eff])
       (use assms in \<open>auto simp: create_details_def ip ne Let_def split: json.splits if_splits\<close>)
qed

definition committed_things :: "vote \<Rightarrow> 'a world_scheme \<Rightarrow> tkey \<Rightarrow> thing option" where
  "committed_things v w = w_things (add_new_vote v (remove_old_vote v w))"

text \<open>What a commit that is not a repetition changes.\<close>

lemma commit_Inr:
  assumes "commit cfg v w = Inr w'"
    and "\<not> (case v_previous v of None \<Rightarrow> False | Some p \<Rightarrow> vote_eq v p)"
  obtains vote_data eff where
    "w_details w' = (w_details w)(tkey_of (v_thing v) :=
       AList.update (acc_id (v_user v)) (vote_json v vote_data eff) (w_details w (tkey_of (v_thing v))))"
    "\<exists>notes. dict_pop_default ''notes'' JNull (serializable_data (v_effects v)) = (notes, eff)"
    "w_things w' = committed_things v w"
    "\<And>u. map_option acc_id (w_accounts w' u) = map_option acc_id (w_accounts w u)"
    "\<And>u. map_option acc_spam (w_accounts w' u) = map_option acc_spam (w_accounts w u)"
    "world.more w' = world.more w"
proof -
  obtain w1 where w1: "apply_effects cfg v w = Inr w1"
    and "(case write_vote v w1 of Inl e \<Rightarrow> Inl e | Inr w2 \<Rightarrow>
      (let k = tkey_of (v_thing v);
              n = (case w_things w2 k of None \<Rightarrow> num_votes (v_thing v) | Some t \<Rightarrow> num_votes t);
              w3 = (if n < 20 \<or> n mod 10 = 0 then log_effect (SearchUpdate k) w2 else w2);
              w4 = (if (case v_event_data v of None \<Rightarrow> False | Some j \<Rightarrow> json_true j)
                    then log_effect (VoteEvent (acc_id (v_user v)) k) w3 else w3)
          in Inr (log_effect (StatEvent ''vote.total'') w4))) = Inr w'"
    using assms by (auto simp: commit_def bindr_def split: sum.splits)
  then obtain w2 where w2: "write_vote v w1 = Inr w2"
    and w': "w_details w' = w_details w2" "w_things w' = w_things w2" "w_accounts w' = w_accounts w2"
      "world.more w' = world.more w2"
    by (auto simp: Let_def split: sum.splits)
  obtain wk where wk: "apply_karma cfg v (add_new_vote v (remove_old_vote v w)) = Inr wk"
    and w1k: "w1 = log_effect (ApplyEffectsHook (tkey_of (v_thing v))) wk"
    using w1 by (auto simp: apply_effects_def bindr_eq_Inr_iff)
  obtain vote_data eff where c: "w_details w2 = (w_details w1)(tkey_of (v_thing v) :=
       AList.update (acc_id (v_user v)) (vote_json v vote_data eff) (w_details w1 (tkey_of (v_thing v))))"
    "\<exists>notes. dict_pop_default ''notes'' JNull (serializable_data (v_effects v)) = (notes, eff)"
    "w_things w2 = w_things w1" "w_accounts w2 = w_accounts w1" "world.more w2 = world.more w1"
    using w2 by (auto simp: write_vote_def Let_def split: if_splits elim!: create_details_Inr)
  show thesis
    by (rule that [of vote_data eff])
       (simp_all add: w' c w1k apply_karma_frame [OF wk] committed_things_def)
qed

end
