(* ===== verification/Voting.thy ===== *)
theory Voting
  imports Vote QueryCache
begin

section \<open>Casting and processing votes\<close>

text \<open>
  Models \<open>r2/lib/voting.py\<close>: \<open>cast_vote\<close> turns a click into a queue message, the two queue
  consumers turn a message into a committed vote, updated listings and follow-up messages. The
  state extends the \<open>world\<close> of \<open>Vote\<close> with the vote lookups in memcached, the \<open>LastModified\<close>
  marks, the AMQP queues and the mutations sent to the query cache. What comes from outside the
  repository or from plugins (the clock, the request's address and organisation, hook handlers,
  Python's \<open>hash\<close>, Cassandra's answers while pruning) is a field of \<open>env\<close>.
\<close>

record vote_msg =
  m_user_id :: int
  m_thing :: tkey
  m_direction :: int
  m_date :: int
  m_vote_direction :: int
  m_data :: "(string, json) dict"
  m_event_data :: "json option"

datatype amqp_item = VoteItem vote_msg | ThingItem tkey

text \<open>Calls into the listing and comment-tree code, in order.\<close>

datatype listing_call =
    AddCommentQueries int tkey
  | AddToCommentsTree tkey
  | WriteCommentScores tkey

record vworld = world +
  w_lookups :: "int \<times> tkey \<Rightarrow> (int \<times> int) option"
  w_last_modified :: "int \<times> string \<Rightarrow> int option"
  w_queue :: "(string \<times> amqp_item) list"
  w_mutations :: "int mutations"
  w_listing :: "listing_call list"

record env =
  e_cfg :: config
  e_validators :: validator_hook
  e_now :: int
  e_ip :: "string option"
  e_org :: "string \<Rightarrow> json"
  e_data_hook :: "(string, json) dict \<Rightarrow> (string, json) dict"
  e_event :: "json option"
  e_dump_ok :: "vote_msg \<Rightarrow> bool"
  e_valid_msg :: "vote_msg \<Rightarrow> bool"
  e_grace_period :: int
  e_type_id :: "thing_class \<Rightarrow> int"
  e_draw :: bool
  e_cf :: "string \<Rightarrow> int snapshot"
  e_prune_size :: nat
  e_shard :: "string \<Rightarrow> bool"
  e_domain :: "tkey \<Rightarrow> string option"
  e_hash :: "string \<Rightarrow> int"
  e_update_threshold :: int
  e_update_period :: int
  e_precomputed_sorts :: "tkey \<Rightarrow> bool"

subsection \<open>The transition table of \<open>cast_vote\<close>\<close>

text \<open>
  The new direction for a click, given the previous vote: \<open>None\<close> is the early \<open>return\<close> that
  discards the click. The branches are in the order of the source, its duplicated
  \<open>is_offoffvote\<close> branch included.
\<close>

definition next_direction :: "direction \<Rightarrow> 'a vote_core_scheme option \<Rightarrow> direction option" where
  "next_direction direction prev =
     (case prev of
        Some p \<Rightarrow>
          (if direction = DUp then
             if is_offonvote p then Some DOnon
             else if is_offoffvote p then Some DOnoff
             else if is_downvote p then Some DOnon
             else None
           else if direction = DDown then
             if is_onoffvote p then Some DOnon
             else if is_offoffvote p then Some DOffon
             else if is_offoffvote p then Some DOffon
             else if is_upvote p then Some DOnon
             else None
           else if direction = DUnup then
             if is_ononvote p then Some DOffon
             else if is_onoffvote p then Some DOffoff
             else if is_upvote p then Some DOffoff
             else None
           else if direction = DUndown then
             if is_ononvote p then Some DOnoff
             else if is_offonvote p then Some DOffoff
             else if is_downvote p then Some DOffoff
             else None
           else None)
      | None \<Rightarrow>
          (if direction = DUp then Some DOnoff
           else if direction = DDown then Some DOffon
           else None))"

definition rel_name :: "thing_class \<Rightarrow> string" where
  "rel_name c = (case c of Link \<Rightarrow> ''LinkVote'' | Comment \<Rightarrow> ''CommentVote'' | OtherThing \<Rightarrow> [])"

definition update_vote_lookups :: "env \<Rightarrow> int \<Rightarrow> tkey \<Rightarrow> direction \<Rightarrow> vworld \<Rightarrow> vworld" where
  "update_vote_lookups e user_id k direction w =
     w\<lparr>w_lookups := (w_lookups w)((user_id, k) \<mapsto> (serialize_direction direction, e_grace_period e + 1)),
       w_last_modified := (w_last_modified w)((user_id, rel_name (fst k)) \<mapsto> e_now e)\<rparr>"

definition queue_item :: "string \<Rightarrow> amqp_item \<Rightarrow> vworld \<Rightarrow> vworld" where
  "queue_item q item w = w\<lparr>w_queue := w_queue w @ [(q, item)]\<rparr>"

definition vote_queue :: "thing_class \<Rightarrow> string" where
  "vote_queue c = (if c = Link then ''vote_link_q'' else ''vote_comment_q'')"

definition cast_vote ::
    "env \<Rightarrow> account \<Rightarrow> thing \<Rightarrow> direction \<Rightarrow> (string, json) dict \<Rightarrow> vworld \<Rightarrow> vworld result" where
  "cast_vote e user thing direction data w =
     (if th_class thing = OtherThing then Inr w
      else if direction \<notin> {DUp, DDown, DUnup, DUndown} then Inr w
      else bindr (get_vote (e_cfg e) (e_validators e) w (acc_id user) thing) (\<lambda>prev.
        case next_direction direction prev of
          None \<Rightarrow> Inr w
        | Some new_direction \<Rightarrow>
            let k = tkey_of thing;
                w1 = update_vote_lookups e (acc_id user) k new_direction w;
                data1 = (case e_ip e of
                    None \<Rightarrow> AList.update ''ip'' JNull data
                  | Some ip \<Rightarrow> AList.update ''org'' (e_org e ip) (AList.update ''ip'' (JStr ip) data));
                msg = \<lparr>m_user_id = acc_id user, m_thing = k,
                       m_direction = value_of_direction new_direction, m_date = e_now e,
                       m_vote_direction = value_of_direction direction,
                       m_data = e_data_hook e data1, m_event_data = e_event e\<rparr> in
            if \<not> e_dump_ok e msg then Inr w1
            else Inr (queue_item (vote_queue (th_class thing)) (VoteItem msg) w1)))"

subsection \<open>The liked and disliked listings\<close>

text \<open>\<open>thing._fullname\<close>.\<close>

definition fullname :: "env \<Rightarrow> tkey \<Rightarrow> string result" where
  "fullname e k =
     bindr (to36 (e_type_id e (fst k))) (\<lambda>t. bindr (to36 (snd k)) (\<lambda>i. Inr (''t'' @ t @ ''_'' @ i)))"

text \<open>
  \<open>get_liked\<close> and \<open>get_disliked\<close> of \<open>r2/lib/db/queries.py\<close>: cached queries over votes, sorted by
  date, that list the voted things (\<open>filter_thing\<close>).
\<close>

definition liked_query ::
    "string \<Rightarrow> env \<Rightarrow> int \<Rightarrow> (vote_core, int) cached_query result" where
  "liked_query fn_name e user_id =
     bindr (row_key fn_name [IdArg user_id]) (\<lambda>key.
       Inr (new_query ''UserQueryCache'' key [Desc ''date'']
              (\<lambda>v. case fullname e (tkey_of (v_thing v)) of Inl _ \<Rightarrow> [] | Inr n \<Rightarrow> n) False))"

definition vote_attr :: "vote_core \<Rightarrow> string \<Rightarrow> int option" where
  "vote_attr v col = (if col = ''date'' then Some (v_date v) else None)"

definition core_of :: "'a vote_core_scheme \<Rightarrow> vote_core" where
  "core_of v = vote_core.truncate v"

definition update_user_liked :: "env \<Rightarrow> vote \<Rightarrow> vworld \<Rightarrow> vworld result" where
  "update_user_liked e v w =
     bindr (liked_query ''get_liked'' e (acc_id (v_user v))) (\<lambda>liked.
     bindr (liked_query ''get_disliked'' e (acc_id (v_user v))) (\<lambda>disliked.
     bindr (fullname e (tkey_of (v_thing v))) (\<lambda>_.
       let m0 = mutator_init;
           m1 = (case v_previous v of
                   None \<Rightarrow> m0
                 | Some p \<Rightarrow>
                     if is_unupvote v then mutator_delete liked [core_of p] m0
                     else if is_undownvote v then mutator_delete disliked [core_of p] m0
                     else m0) in
       bindr (if is_upvote v then mutator_insert vote_attr (e_draw e) liked [core_of v] m1
              else if is_downvote v then mutator_insert vote_attr (e_draw e) disliked [core_of v] m1
              else Inr m1) (\<lambda>m2.
       bindr (mutator_send (e_cf e) [''UserQueryCache''] (e_prune_size e) m2) (\<lambda>(batch, pruning).
         Inr (w\<lparr>w_mutations := w_mutations w @ batch @ pruning\<rparr>))))))"

subsection \<open>Follow-up queues\<close>

definition add_to_author_query_q :: "env \<Rightarrow> thing \<Rightarrow> vworld \<Rightarrow> vworld" where
  "add_to_author_query_q e link w =
     queue_item (if e_shard e ''author'' then ''author_query_'' @ py_str_int (th_author link mod 10) @ ''_q''
                 else ''author_query_q'') (ThingItem (tkey_of link)) w"

definition add_to_subreddit_query_q :: "env \<Rightarrow> int \<Rightarrow> thing \<Rightarrow> vworld \<Rightarrow> vworld" where
  "add_to_subreddit_query_q e sr_id link w =
     queue_item (if e_shard e ''subreddit'' then ''subreddit_query_'' @ py_str_int (sr_id mod 10) @ ''_q''
                 else ''subreddit_query_q'') (ThingItem (tkey_of link)) w"

text \<open>
  \<open>e_domain\<close> is the host name of \<open>UrlParser(link.url)\<close>, or \<open>None\<close> when the link has no domain.
\<close>

definition add_to_domain_query_q :: "env \<Rightarrow> thing \<Rightarrow> vworld \<Rightarrow> vworld" where
  "add_to_domain_query_q e link w =
     (case e_domain e (tkey_of link) of
        None \<Rightarrow> w
      | Some host \<Rightarrow>
          queue_item (if e_shard e ''domain'' then ''domain_query_'' @ py_str_int (e_hash e host mod 10) @ ''_q''
                      else ''domain_query_q'') (ThingItem (tkey_of link)) w)"

subsection \<open>The queue consumers\<close>

text \<open>
  What both consumers do with a message up to and including \<open>vote.commit()\<close>: \<open>None\<close> when the
  message is skipped (a \<open>TypeError\<close> for a thing that cannot be voted on). The enum value in
  \<open>vote_direction\<close> is not checked by the source; a value outside the enum matches no direction.
\<close>

definition commit_message ::
    "env \<Rightarrow> account \<Rightarrow> thing \<Rightarrow> vote_msg \<Rightarrow> vworld \<Rightarrow> (vote \<times> vworld) option result" where
  "commit_message e user thing msg w =
     (let vd = (case direction_of_value (m_vote_direction msg) of Inl _ \<Rightarrow> None | Inr d \<Rightarrow> Some d) in
      case vote_init (e_cfg e) (e_validators e) w user thing (m_direction msg) (m_date msg)
             (m_data msg) (m_event_data msg) vd of
        Inl (TypeError _) \<Rightarrow> Inr None
      | Inl err \<Rightarrow> Inl err
      | Inr v \<Rightarrow> bindr (commit (e_cfg e) v w) (\<lambda>w'. Inr (Some (v, w'))))"

definition lookup_account :: "vworld \<Rightarrow> int \<Rightarrow> account result" where
  "lookup_account w i = (case w_accounts w i of None \<Rightarrow> Inl NotFound | Some a \<Rightarrow> Inr a)"

definition lookup_thing :: "vworld \<Rightarrow> tkey \<Rightarrow> thing result" where
  "lookup_thing w k = (case w_things w k of None \<Rightarrow> Inl NotFound | Some t \<Rightarrow> Inr t)"

definition process_link_vote :: "env \<Rightarrow> int \<Rightarrow> vote_msg \<Rightarrow> vworld \<Rightarrow> vworld result" where
  "process_link_vote e sr_id msg w =
     (if \<not> e_valid_msg e msg then Inr w
      else
        bindr (lookup_account w (m_user_id msg)) (\<lambda>user.
        bindr (lookup_thing w (m_thing msg)) (\<lambda>link.
        bindr (commit_message e user link msg w) (\<lambda>outcome.
        case outcome of
          None \<Rightarrow> Inr w
        | Some (v, w1) \<Rightarrow>
            bindr (update_user_liked e v w1) (\<lambda>w2.
              let vote_valid = (is_automatic_initial_vote v (v_previous v) \<or> affects_score (v_effects v));
                  link_valid = (\<not> (th_spam link \<or> th_deleted link)) in
              Inr (if vote_valid \<and> link_valid
                   then add_to_domain_query_q e link
                          (add_to_subreddit_query_q e sr_id link (add_to_author_query_q e link w2))
                   else w2))))))"

definition process_comment_vote :: "env \<Rightarrow> tkey \<Rightarrow> vote_msg \<Rightarrow> vworld \<Rightarrow> vworld result" where
  "process_comment_vote e link_key msg w =
     (if \<not> e_valid_msg e msg then Inr w
      else
        bindr (lookup_account w (m_user_id msg)) (\<lambda>user.
        bindr (lookup_thing w (m_thing msg)) (\<lambda>comment.
        bindr (commit_message e user comment msg w) (\<lambda>outcome.
        case outcome of
          None \<Rightarrow> Inr w
        | Some (v, w1) \<Rightarrow>
            let auto = is_automatic_initial_vote v (v_previous v);
                vote_invalid = (\<not> affects_score (v_effects v) \<and> \<not> auto);
                comment_invalid = (th_spam comment \<or> th_deleted comment) in
            if vote_invalid \<or> comment_invalid then Inr w1
            else
              bindr (lookup_account w1 (th_author comment)) (\<lambda>author.
                let w2 = w1\<lparr>w_listing := w_listing w1 @ [AddCommentQueries (acc_id author) (tkey_of comment)]\<rparr>;
                    n = (case w_things w1 (tkey_of comment) of None \<Rightarrow> num_votes comment | Some c \<Rightarrow> num_votes c);
                    skip_score_update = (n > e_update_threshold e \<and> n mod e_update_period e \<noteq> 0) in
                if n > e_update_threshold e \<and> e_update_period e = 0 then Inl ZeroDivisionError
                else if \<not> auto \<and> \<not> skip_score_update then
                  bindr (lookup_thing w2 link_key) (\<lambda>_.
                    Inr (w2\<lparr>w_listing := w_listing w2 @
                          [if e_precomputed_sorts e link_key then AddToCommentsTree (tkey_of comment)
                           else WriteCommentScores (tkey_of comment)]\<rparr>))
                else Inr w2)))))"

subsection \<open>What a vote state means\<close>

text \<open>
  The specification: a user's vote on a thing is two independent switches, insightful and funny.
  A click turns one switch on or off and is refused when the switch already is that way.
\<close>

definition up_bit :: "direction \<Rightarrow> bool" where
  "up_bit d = (d \<in> {DUp, DOnon, DOnoff})"

definition down_bit :: "direction \<Rightarrow> bool" where
  "down_bit d = (d \<in> {DDown, DOnon, DOffon})"

definition vote_state :: "direction \<Rightarrow> bool" where
  "vote_state d = (d \<in> {DUp, DDown, DOnon, DOnoff, DOffon, DOffoff})"

fun click :: "direction \<Rightarrow> bool \<times> bool \<Rightarrow> (bool \<times> bool) option" where
  "click DUp (u, d) = (if u then None else Some (True, d))"
| "click DDown (u, d) = (if d then None else Some (u, True))"
| "click DUnup (u, d) = (if u then Some (False, d) else None)"
| "click DUndown (u, d) = (if d then Some (u, False) else None)"
| "click _ _ = None"

definition switches :: "direction option \<Rightarrow> bool \<times> bool" where
  "switches p = (case p of None \<Rightarrow> (False, False) | Some d \<Rightarrow> (up_bit d, down_bit d))"

lemmas next_direction_defs = next_direction_def is_offonvote_def is_offoffvote_def is_onoffvote_def
  is_ononvote_def is_upvote_def is_downvote_def

lemma next_direction_refines:
  assumes "\<And>p. prev = Some p \<Longrightarrow> v_vote_direction p = None \<and> vote_state (v_direction p)"
  shows "map_option (\<lambda>d. (up_bit d, down_bit d)) (next_direction act prev)
       = click act (switches (map_option v_direction prev))"
proof (cases prev)
  case None
  then show ?thesis
    by (cases act) (auto simp: next_direction_defs switches_def up_bit_def down_bit_def)
next
  case (Some p)
  with assms [OF Some] show ?thesis
    by (cases act; cases "v_direction p")
       (auto simp: next_direction_defs switches_def up_bit_def down_bit_def vote_state_def)
qed

lemma next_direction_stuck:
  "v_vote_direction p = None \<Longrightarrow> v_direction p \<in> {DUnvote, DUnup, DUndown} \<Longrightarrow>
   next_direction act (Some p) = None"
  by (auto simp: next_direction_defs)

lemma next_direction_changes:
  assumes "next_direction act (Some p) = Some d" "v_vote_direction p = None"
  shows "d \<noteq> v_direction p"
  using assms by (auto simp: next_direction_defs split: if_splits)

lemma next_direction_state: "next_direction act prev = Some d \<Longrightarrow> d \<in> {DOnon, DOnoff, DOffon, DOffoff}"
  by (auto simp: next_direction_defs split: option.splits if_splits)

lemma next_direction_act: "next_direction act prev = Some d \<Longrightarrow> act \<in> {DUp, DDown, DUnup, DUndown}"
  by (auto simp: next_direction_def split: option.splits if_splits)

text \<open>The change of the two counters is the change of the two switches, when the vote counts.\<close>

lemma counters_follow_click:
  assumes cl: "click act (switches (map_option v_direction (v_previous v)))
      = Some (up_bit (v_direction v), down_bit (v_direction v))"
    and d: "v_direction v \<in> {DOnon, DOnoff, DOffon, DOffoff}"
    and vd: "v_vote_direction v = Some act"
    and t: "w_things w (tkey_of (v_thing v)) = Some t"
  shows "committed_things v w = (w_things w)(tkey_of (v_thing v) \<mapsto>
    t\<lparr>th_ups := th_ups t + of_bool (affects_score (v_effects v)) *
         (of_bool (up_bit (v_direction v)) - of_bool (fst (switches (map_option v_direction (v_previous v))))),
      th_downs := th_downs t + of_bool (affects_score (v_effects v)) *
         (of_bool (down_bit (v_direction v)) - of_bool (snd (switches (map_option v_direction (v_previous v)))))\<rparr>)"
proof -
  obtain u' d' where sw: "switches (map_option v_direction (v_previous v)) = (u', d')" by fastforce
  have none: "u' = False \<and> d' = False" if "v_previous v = None"
    using sw that by (simp add: switches_def)
  have nud: "v_direction v \<noteq> DUp" "v_direction v \<noteq> DDown" using d by auto
  show ?thesis
  proof (cases "v_previous v")
    case None
    with cl none vd t nud show ?thesis unfolding sw
      by (cases act) (auto simp: committed_things_def vote_write_defs Let_def is_unupvote_def
          is_undownvote_def affected_ups_def affected_downs_def is_upvote_def is_downvote_def fun_upd_idem)
  next
    case (Some p)
    with cl vd t nud show ?thesis unfolding sw
      by (cases act) (auto simp: committed_things_def vote_write_defs Let_def is_unupvote_def
          is_undownvote_def affected_ups_def affected_downs_def is_upvote_def is_downvote_def
          fun_upd_idem split: if_splits)
  qed
qed

end
