(* ===== verification/VoteMachine.thy ===== *)
theory VoteMachine
  imports Voting
begin

section \<open>The voting system as a state machine\<close>

text \<open>
  Clicks and queue consumers interleave. This theory puts \<open>cast_vote\<close>, \<open>process_link_vote\<close> and
  \<open>process_comment_vote\<close> of \<open>Voting\<close> together as a step relation and shows what holds in every
  reachable state: the stored votes are well formed, every queued click still fits the stored vote,
  and the counters of each thing are what it was created with plus what its stored votes add up to.
  It also shows where the code leaves that invariant: when a user clicks again before an earlier
  click has been processed.
\<close>

text \<open>
  The stored votes of a thing, what they add up to, and the messages still in the vote queues.
\<close>

definition stored_dir :: "'a world_scheme \<Rightarrow> int \<Rightarrow> tkey \<Rightarrow> direction option" where
  "stored_dir w u k = Option.bind (map_of (w_details w k) u) col_dir"

definition counted :: "(direction \<Rightarrow> bool) \<Rightarrow> json \<Rightarrow> int" where
  "counted b j = of_bool (col_score j \<and> (case col_dir j of None \<Rightarrow> False | Some d \<Rightarrow> b d))"

definition tally :: "(direction \<Rightarrow> bool) \<Rightarrow> 'a world_scheme \<Rightarrow> tkey \<Rightarrow> int" where
  "tally b w k = (\<Sum>(u, j)\<leftarrow>w_details w k. counted b j)"

definition pending :: "vworld \<Rightarrow> vote_msg list" where
  "pending w = concat (map (\<lambda>(q, i). case i of VoteItem m \<Rightarrow> [m] | ThingItem _ \<Rightarrow> []) (w_queue w))"

definition msg_key :: "vote_msg \<Rightarrow> int \<times> tkey" where
  "msg_key m = (m_user_id m, m_thing m)"

definition stored_ok :: "'a world_scheme \<Rightarrow> int \<Rightarrow> json \<Rightarrow> bool" where
  "stored_ok w u j \<longleftrightarrow> wf_detail j \<and> (\<exists>d. col_dir j = Some d \<and> vote_state d) \<and>
     (\<exists>a. w_accounts w u = Some a \<and> (col_score j \<longrightarrow> \<not> acc_spam a))"

definition store_ok :: "'a world_scheme \<Rightarrow> bool" where
  "store_ok w \<longleftrightarrow> (\<forall>k. dict_ok (w_details w k)) \<and>
     (\<forall>k u j. map_of (w_details w k) u = Some j \<longrightarrow> stored_ok w u j) \<and>
     (\<forall>u a. w_accounts w u = Some a \<longrightarrow> acc_id a = u) \<and>
     (\<forall>k t. w_things w k = Some t \<longrightarrow> tkey_of t = k)"

text \<open>A queued click still fits the vote that is stored.\<close>

definition msg_ok :: "'a world_scheme \<Rightarrow> vote_msg \<Rightarrow> bool" where
  "msg_ok w m \<longleftrightarrow> (\<exists>act d. direction_of_value (m_vote_direction m) = Inr act \<and>
     direction_of_value (m_direction m) = Inr d \<and> d \<in> {DOnon, DOnoff, DOffon, DOffoff} \<and>
     click act (switches (stored_dir w (m_user_id m) (m_thing m))) = Some (up_bit d, down_bit d))"

definition pending_ok :: "vworld \<Rightarrow> bool" where
  "pending_ok w \<longleftrightarrow> distinct (map msg_key (pending w)) \<and> (\<forall>m \<in> set (pending w). msg_ok w m)"

text \<open>
  One step: a user clicks on a thing while none of the user's clicks on that thing is waiting, or a
  consumer takes any message out of a vote queue and processes it. The environment (clock, address,
  hooks) may differ from step to step; validators of plugins are absent.
\<close>

inductive vote_step :: "config \<Rightarrow> vworld \<Rightarrow> vworld \<Rightarrow> bool" for cfg where
  Cast: "e_cfg e = cfg \<Longrightarrow> e_validators e = [] \<Longrightarrow>
     w_accounts w u = Some a \<Longrightarrow> w_things w k = Some t \<Longrightarrow> (u, k) \<notin> msg_key ` set (pending w) \<Longrightarrow>
     cast_vote e a t act data w = Inr w' \<Longrightarrow> vote_step cfg w w'"
| Link_vote: "e_cfg e = cfg \<Longrightarrow> e_validators e = [] \<Longrightarrow>
     w_queue w = pre @ (''vote_link_q'', VoteItem m) # post \<Longrightarrow>
     process_link_vote e sr_id m (w\<lparr>w_queue := pre @ post\<rparr>) = Inr w' \<Longrightarrow> vote_step cfg w w'"
| Comment_vote: "e_cfg e = cfg \<Longrightarrow> e_validators e = [] \<Longrightarrow>
     w_queue w = pre @ (''vote_comment_q'', VoteItem m) # post \<Longrightarrow>
     process_comment_vote e link_key m (w\<lparr>w_queue := pre @ post\<rparr>) = Inr w' \<Longrightarrow> vote_step cfg w w'"

inductive_cases vote_stepE: "vote_step cfg w w'"

text \<open>The counters of a thing beyond what its stored votes account for: what it was created with.\<close>

definition base_ups :: "'a world_scheme \<Rightarrow> tkey \<Rightarrow> int option" where
  "base_ups w k = map_option (\<lambda>t. th_ups t - tally up_bit w k) (w_things w k)"

definition base_downs :: "'a world_scheme \<Rightarrow> tkey \<Rightarrow> int option" where
  "base_downs w k = map_option (\<lambda>t. th_downs t - tally down_bit w k) (w_things w k)"

definition same_base :: "'a world_scheme \<Rightarrow> 'a world_scheme \<Rightarrow> bool" where
  "same_base w w' \<longleftrightarrow> (\<forall>k. base_ups w' k = base_ups w k \<and> base_downs w' k = base_downs w k)"

text \<open>
  Committing one message, in terms of the stored votes: the facts every step of the machine rests
  on.
\<close>

lemma effects_without_validators:
  assumes "vote_effects_init cfg [] c prev None = Inr e"
  shows "other_effects e = []" "affects_score e =
    (\<not> is_automatic_initial_vote c prev \<and> \<not> acc_spam (v_user c) \<and>
     \<not> (case prev of None \<Rightarrow> False | Some p \<Rightarrow> \<not> affects_score (v_effects p) \<and> allow_selfvote cfg = ''false''))"
  using assms
  by (auto simp: vote_effects_init_def determine_affects_score_def determine_other_effects_def
      split: if_splits prod.splits option.splits)

lemma vote_init_Inr:
  assumes "vote_init cfg hook w user thing n date data ev vd = Inr v"
  obtains d prev where "direction_of_value n = Inr d" "get_vote cfg hook w (acc_id user) thing = Inr prev"
    "is_votable thing" "v_user v = user" "v_thing v = thing" "v_direction v = d" "v_vote_direction v = vd"
    "v_previous v = prev" "v_data v = data"
    "\<exists>c. vote_effects_init cfg hook c prev None = Inr (v_effects v) \<and> v_user c = user \<and> v_thing c = thing"
  using assms
  by (fastforce simp: vote_init_def bindr_eq_Inr_iff Let_def vote_of_def split: if_splits)

lemma vote_json_stored:
  assumes "other_effects (v_effects v) = []"
    and "\<exists>notes. dict_pop_default ''notes'' JNull (serializable_data (v_effects v)) = (notes, eff)"
  shows "wf_detail (vote_json v data eff)" "col_dir (vote_json v data eff) = Some (v_direction v)"
    "col_score (vote_json v data eff) = affects_score (v_effects v)"
proof -
  have eff: "map_of eff ''affects_score'' = Some (JBool (affects_score (v_effects v)))"
    "map_of eff ''affects_karma'' = Some (JBool (affects_karma (v_effects v)))"
    using assms map_of_serializable [of "v_effects v"] by auto
  then show "wf_detail (vote_json v data eff)" unfolding wf_detail_def vote_json_def by blast
  show "col_dir (vote_json v data eff) = Some (v_direction v)"
    "col_score (vote_json v data eff) = affects_score (v_effects v)"
    using eff by (simp_all add: col_dir_def col_effect_def col_field_def vote_json_def)
qed

lemma store_okD:
  assumes "store_ok w"
  shows "dict_ok (w_details w k)" "map_of (w_details w k) u = Some j \<Longrightarrow> stored_ok w u j"
    "w_accounts w u = Some a \<Longrightarrow> acc_id a = u" "w_things w k = Some t \<Longrightarrow> tkey_of t = k"
  using assms unfolding store_ok_def by blast+

lemma store_okI:
  assumes "\<And>k. dict_ok (w_details w k)" "\<And>k u j. map_of (w_details w k) u = Some j \<Longrightarrow> stored_ok w u j"
    "\<And>u a. w_accounts w u = Some a \<Longrightarrow> acc_id a = u" "\<And>k t. w_things w k = Some t \<Longrightarrow> tkey_of t = k"
  shows "store_ok w"
  using assms unfolding store_ok_def by blast

lemma get_vote_store_ok:
  assumes "store_ok w" "w_things w k = Some t" "is_votable t" "get_vote cfg hook w u t = Inr prev"
  shows "map_option v_direction prev = stored_dir w u k"
    and "\<And>p. prev = Some p \<Longrightarrow> v_vote_direction p = None \<and> vote_state (v_direction p) \<and>
          tkey_of (v_thing p) = k \<and> acc_id (v_user p) = u \<and>
          (\<exists>j. map_of (w_details w k) u = Some j \<and> affects_score (v_effects p) = col_score j)"
proof -
  have k: "tkey_of t = k" and ok: "dict_ok (w_details w k)"
    using store_okD [OF assms(1)] assms(2) by blast+
  have *: "map_option v_direction prev = stored_dir w u k \<and>
     (\<forall>p. prev = Some p \<longrightarrow> v_vote_direction p = None \<and> vote_state (v_direction p) \<and>
          tkey_of (v_thing p) = k \<and> acc_id (v_user p) = u \<and>
          (\<exists>j. map_of (w_details w k) u = Some j \<and> affects_score (v_effects p) = col_score j))"
  proof (cases "map_of (w_details w k) u")
    case None
    then show ?thesis using get_vote_None [of w t u cfg hook] assms(3,4) ok k
      by (simp add: stored_dir_def)
  next
    case (Some j)
    then obtain a where so: "wf_detail j" "w_accounts w u = Some a" "stored_ok w u j"
      using store_okD(2) [OF assms(1)] unfolding stored_ok_def by blast
    have "acc_id a = u" using store_okD(3) [OF assms(1) so(2)] .
    obtain s where "get_vote cfg hook w u t = Inr (Some s)" "v_user s = a" "v_thing s = t"
      "v_vote_direction s = None" "col_dir j = Some (v_direction s)"
      "affects_score (v_effects s) = col_score j"
      using get_vote_Some [of w t u j a cfg hook] ok assms(3) Some so(1,2) k by metis
    moreover have "vote_state d" if "col_dir j = Some d" for d
      using so(3) that by (simp add: stored_ok_def)
    ultimately show ?thesis using assms(4) Some k \<open>acc_id a = u\<close> by (simp add: stored_dir_def)
  qed
  show "map_option v_direction prev = stored_dir w u k" by (rule conjunct1 [OF *])
  fix p assume "prev = Some p"
  then show "v_vote_direction p = None \<and> vote_state (v_direction p) \<and>
          tkey_of (v_thing p) = k \<and> acc_id (v_user p) = u \<and>
          (\<exists>j. map_of (w_details w k) u = Some j \<and> affects_score (v_effects p) = col_score j)"
    by (rule conjunct2 [OF *, THEN spec, THEN mp])
qed

lemma tally_update:
  assumes "store_ok w" "w_details w' = (w_details w)(k := AList.update u j (w_details w k))"
  shows "tally b w' k' = tally b w k' + (if k' = k then counted b j -
     (case map_of (w_details w k) u of None \<Rightarrow> 0 | Some i \<Rightarrow> counted b i) else 0)"
  using sum_snd_update [OF store_okD(1) [OF assms(1)], of "counted b" u j k]
  by (simp add: tally_def assms(2))

lemma store_ok_update:
  assumes "store_ok w" and det: "w_details w' = (w_details w)(k := AList.update u j (w_details w k))"
    and j: "wf_detail j" "col_dir j = Some d" "vote_state d"
    and acc: "\<And>u. map_option acc_id (w_accounts w' u) = map_option acc_id (w_accounts w u)"
      "\<And>u. map_option acc_spam (w_accounts w' u) = map_option acc_spam (w_accounts w u)"
    and u: "w_accounts w u = Some a" "col_score j \<longrightarrow> \<not> acc_spam a"
    and th: "\<And>k t. w_things w' k = Some t \<Longrightarrow> tkey_of t = k"
  shows "store_ok w'"
proof -
  have accs: "\<exists>a'. w_accounts w' u = Some a' \<and> acc_spam a' = acc_spam a \<and> acc_id a' = acc_id a"
    if "w_accounts w u = Some a" for u a
    using acc [of u] that by (auto simp: map_option_eq_Some)
  have so: "stored_ok w' u j" if "stored_ok w u j" for u j
    using that accs unfolding stored_ok_def by metis
  have new: "stored_ok w' u j" using accs [OF u(1)] u(2) j by (auto simp: stored_ok_def)
  have ids: "acc_id a' = u" if "w_accounts w' u = Some a'" for u a'
    using acc(1) [of u] that store_okD(3) [OF assms(1), of u] by (cases "w_accounts w u") simp_all
  show ?thesis
  proof (rule store_okI)
    show "dict_ok (w_details w' k)" for k using store_okD(1) [OF assms(1)] by (simp add: det)
    show "stored_ok w' u' j'" if "map_of (w_details w' k') u' = Some j'" for k' u' j'
      using that new so store_okD(2) [OF assms(1)] by (auto simp: det split: if_splits)
  qed (use ids th in auto)
qed

lemma stored_dir_update:
  assumes "w_details w' = (w_details w)(k := AList.update u j (w_details w k))" "col_dir j = Some d"
  shows "stored_dir w' u' k' = (if u' = u \<and> k' = k then Some d else stored_dir w u' k')"
  using assms by (simp add: stored_dir_def)


lemma commit_message_Inr:
  assumes "commit_message e user thing m w = Inr (Some (v, w'))"
  shows "\<exists>vd. vote_init (e_cfg e) (e_validators e) w user thing (m_direction m) (m_date m)
        (m_data m) (m_event_data m) vd = Inr v \<and>
      (\<forall>act. direction_of_value (m_vote_direction m) = Inr act \<longrightarrow> vd = Some act)"
    and "commit (e_cfg e) v w = Inr w'"
  using assms
  by (auto simp: commit_message_def Let_def bindr_eq_Inr_iff split: sum.splits py_error.splits)

lemma same_base_update:
  assumes "store_ok w" and det: "w_details w' = (w_details w)(k := AList.update u j (w_details w k))"
    and th: "w_things w k = Some t"
      "w_things w' = (w_things w)(k \<mapsto> t\<lparr>th_ups := th_ups t + x, th_downs := th_downs t + y\<rparr>)"
    and x: "x = counted up_bit j - (case map_of (w_details w k) u of None \<Rightarrow> 0 | Some i \<Rightarrow> counted up_bit i)"
    and y: "y = counted down_bit j - (case map_of (w_details w k) u of None \<Rightarrow> 0 | Some i \<Rightarrow> counted down_bit i)"
  shows "same_base w w'"
  unfolding same_base_def base_ups_def base_downs_def
  using th x y by (simp add: tally_update [OF assms(1) det])

lemma counted_change:
  assumes ok: "store_ok w" and dir: "map_option v_direction prev = stored_dir w u k"
    and prev: "\<And>p. prev = Some p \<Longrightarrow> v_vote_direction p = None \<and> vote_state (v_direction p) \<and>
          tkey_of (v_thing p) = k \<and> acc_id (v_user p) = u \<and>
          (\<exists>j. map_of (w_details w k) u = Some j \<and> affects_score (v_effects p) = col_score j)"
    and j: "col_dir j = Some d" "col_score j = s"
    and s: "\<And>p. prev = Some p \<Longrightarrow> s = (affects_score (v_effects p) \<and> \<not> acc_spam user)"
    and u: "w_accounts w u = Some user"
  shows "of_bool s * (of_bool (up_bit d) - of_bool (fst (switches (stored_dir w u k))))
      = counted up_bit j - (case map_of (w_details w k) u of None \<Rightarrow> 0 | Some i \<Rightarrow> counted up_bit i)"
    "of_bool s * (of_bool (down_bit d) - of_bool (snd (switches (stored_dir w u k))))
      = counted down_bit j - (case map_of (w_details w k) u of None \<Rightarrow> 0 | Some i \<Rightarrow> counted down_bit i)"
proof -
  have "\<exists>i p. map_of (w_details w k) u = Some i \<and> prev = Some p \<and> s = col_score i \<and>
      col_dir i = Some (v_direction p)" if i: "map_of (w_details w k) u = Some i" for i
  proof -
    have so: "stored_ok w u i" using store_okD(2) [OF ok i] .
    then obtain d' where "col_dir i = Some d'" by (auto simp: stored_ok_def)
    then have "map_option v_direction prev = Some d'" using dir i by (simp add: stored_dir_def)
    then obtain p where p: "prev = Some p" "v_direction p = d'" by (auto simp: map_option_eq_Some)
    have "affects_score (v_effects p) = col_score i" using prev [OF p(1)] i by auto
    then have "s = col_score i" using s [OF p(1)] so u by (auto simp: stored_ok_def)
    then show ?thesis using i p \<open>col_dir i = Some d'\<close> by simp
  qed
  then show "of_bool s * (of_bool (up_bit d) - of_bool (fst (switches (stored_dir w u k))))
      = counted up_bit j - (case map_of (w_details w k) u of None \<Rightarrow> 0 | Some i \<Rightarrow> counted up_bit i)"
    "of_bool s * (of_bool (down_bit d) - of_bool (snd (switches (stored_dir w u k))))
      = counted down_bit j - (case map_of (w_details w k) u of None \<Rightarrow> 0 | Some i \<Rightarrow> counted down_bit i)"
    using j by (cases "map_of (w_details w k) u";
        force simp: counted_def stored_dir_def switches_def)+
qed

text \<open>Processing a click that fits the stored vote keeps the invariant and stores the new state.\<close>

lemma commit_message_step:
  assumes ok: "store_ok w" and m: "msg_ok w m"
    and e: "e_validators e = []" "allow_selfvote (e_cfg e) = ''false''"
    and u: "w_accounts w (m_user_id m) = Some user" and t: "w_things w (m_thing m) = Some thing"
    and c: "commit_message e user thing m w = Inr (Some (v, w'))"
  obtains d where "store_ok w'" "same_base w w'" "world.more w' = world.more w"
    "direction_of_value (m_direction m) = Inr d"
    "\<And>u' k'. stored_dir w' u' k' = (if u' = m_user_id m \<and> k' = m_thing m then Some d else stored_dir w u' k')"
proof -
  obtain act d where md: "direction_of_value (m_vote_direction m) = Inr act"
    "direction_of_value (m_direction m) = Inr d" "d \<in> {DOnon, DOnoff, DOffon, DOffoff}"
    "click act (switches (stored_dir w (m_user_id m) (m_thing m))) = Some (up_bit d, down_bit d)"
    using m unfolding msg_ok_def by blast
  note ids = store_okD(3) [OF ok u] store_okD(4) [OF ok t]
  obtain prev where v: "get_vote (e_cfg e) [] w (m_user_id m) thing = Inr prev" "is_votable thing"
    "v_user v = user" "v_thing v = thing" "v_direction v = d" "v_vote_direction v = Some act" "v_previous v = prev"
    "\<exists>co. vote_effects_init (e_cfg e) [] co prev None = Inr (v_effects v) \<and> v_user co = user \<and> v_thing co = thing"
    using commit_message_Inr(1) [OF c] md(1,2) e(1) ids(1) by (auto elim!: vote_init_Inr) blast
  note gv = get_vote_store_ok [OF ok t v(2,1)]
  have eff: "other_effects (v_effects v) = []"
    "affects_score (v_effects v) \<Longrightarrow> \<not> acc_spam user"
    and prev_eff: "\<And>p. prev = Some p \<Longrightarrow> affects_score (v_effects v) = (affects_score (v_effects p) \<and> \<not> acc_spam user)"
    using v(8) effects_without_validators e(2) by (fastforce simp: is_automatic_initial_vote_def)+
  have cl: "click act (switches (map_option v_direction (v_previous v)))
      = Some (up_bit (v_direction v), down_bit (v_direction v))"
    using md(4) gv(1) v by simp
  then have "\<not> (case v_previous v of None \<Rightarrow> False | Some p \<Rightarrow> vote_eq v p)"
    by (cases act) (auto simp: vote_eq_def switches_def split: option.splits if_splits)
  from commit_Inr [OF commit_message_Inr(2) [OF c] this] obtain data ef where
    w': "w_details w' = (w_details w)(m_thing m := AList.update (m_user_id m) (vote_json v data ef) (w_details w (m_thing m)))"
    "\<exists>notes. dict_pop_default ''notes'' JNull (serializable_data (v_effects v)) = (notes, ef)"
    "w_things w' = committed_things v w"
    "\<And>u. map_option acc_id (w_accounts w' u) = map_option acc_id (w_accounts w u)"
    "\<And>u. map_option acc_spam (w_accounts w' u) = map_option acc_spam (w_accounts w u)"
    "world.more w' = world.more w"
    using v(3,4) ids by (metis (no_types, lifting))
  note js = vote_json_stored [OF eff(1) w'(2), of data]
  have th': "w_things w' = (w_things w)(m_thing m \<mapsto>
    thing\<lparr>th_ups := th_ups thing + of_bool (affects_score (v_effects v)) *
         (of_bool (up_bit d) - of_bool (fst (switches (stored_dir w (m_user_id m) (m_thing m))))),
      th_downs := th_downs thing + of_bool (affects_score (v_effects v)) *
         (of_bool (down_bit d) - of_bool (snd (switches (stored_dir w (m_user_id m) (m_thing m)))))\<rparr>)"
    using counters_follow_click [OF cl, where w = w] md(3) v t ids(2) gv(1) w'(3) by simp
  have "store_ok w'"
    by (rule store_ok_update [OF ok w'(1) js(1,2) _ w'(4,5) u])
       (use js(3) eff(2) v(5) md(3) th' store_okD(4) [OF ok] ids(2) in
        \<open>auto simp: vote_state_def tkey_of_def split: if_splits\<close>)
  moreover have "same_base w w'"
    by (rule same_base_update [OF ok w'(1) t th'])
       (use counted_change [OF ok gv js(2,3) prev_eff u] v(5) in simp_all)
  moreover have "\<And>u' k'. stored_dir w' u' k' =
      (if u' = m_user_id m \<and> k' = m_thing m then Some d else stored_dir w u' k')"
    using stored_dir_update [OF w'(1) js(2)] v(5) by simp
  ultimately show thesis using that w'(6) md(2) by blast
qed

subsection \<open>What the operations leave alone\<close>

definition same_core :: "'a world_scheme \<Rightarrow> 'a world_scheme \<Rightarrow> bool" where
  "same_core w w' \<longleftrightarrow> w_accounts w' = w_accounts w \<and> w_things w' = w_things w \<and> w_details w' = w_details w"

lemma same_coreD:
  assumes "same_core w w'"
  shows "store_ok w' = store_ok w" "msg_ok w' = msg_ok w" "stored_dir w' = stored_dir w"
    "base_ups w' = base_ups w" "base_downs w' = base_downs w"
  using assms
  by (simp_all add: same_core_def store_ok_def stored_ok_def msg_ok_def [abs_def]
      stored_dir_def [abs_def] base_ups_def [abs_def] base_downs_def [abs_def] tally_def)

lemma queue_of_more: "world.more w' = world.more w \<Longrightarrow> w_queue w' = w_queue w"
  by (cases w, cases w') simp

lemma pending_append: "w_queue w = xs @ ys \<Longrightarrow> pending w = pending (w\<lparr>w_queue := xs\<rparr>) @ pending (w\<lparr>w_queue := ys\<rparr>)"
  by (simp add: pending_def)

lemma queue_item_frame [simp]:
  "same_core w (queue_item q i w)" "pending (queue_item q (ThingItem k) w) = pending w"
  "pending (queue_item q (VoteItem m) w) = pending w @ [m]"
  by (simp_all add: queue_item_def same_core_def pending_def)

lemma same_core_refl [simp]: "same_core w w"
  by (simp add: same_core_def)

lemma same_core_trans: "same_core w w1 \<Longrightarrow> same_core w1 w2 \<Longrightarrow> same_core w w2"
  by (simp add: same_core_def)

lemma update_user_liked_frame:
  "update_user_liked e v w = Inr w' \<Longrightarrow> same_core w w' \<and> pending w' = pending w"
  by (auto simp: update_user_liked_def bindr_eq_Inr_iff Let_def same_core_def pending_def)

lemma followup_frame [simp]:
  "same_core w (add_to_author_query_q e link w)" "pending (add_to_author_query_q e link w) = pending w"
  "same_core w (add_to_subreddit_query_q e sr_id link w)"
  "pending (add_to_subreddit_query_q e sr_id link w) = pending w"
  "same_core w (add_to_domain_query_q e link w)" "pending (add_to_domain_query_q e link w) = pending w"
  by (simp_all add: add_to_author_query_q_def add_to_subreddit_query_q_def add_to_domain_query_q_def
      split: option.splits)

lemma process_link_vote_Inr:
  assumes "process_link_vote e sr_id m w = Inr w'"
  shows "same_core w w' \<and> pending w' = pending w \<or>
    (\<exists>user link v w1. w_accounts w (m_user_id m) = Some user \<and> w_things w (m_thing m) = Some link \<and>
       commit_message e user link m w = Inr (Some (v, w1)) \<and> same_core w1 w' \<and> pending w' = pending w1)"
proof (cases "e_valid_msg e m")
  case False
  then show ?thesis using assms by (simp add: process_link_vote_def)
next
  case True
  with assms obtain user link outcome where
    l: "w_accounts w (m_user_id m) = Some user" "w_things w (m_thing m) = Some link"
    "commit_message e user link m w = Inr outcome"
    by (auto simp: process_link_vote_def lookup_account_def lookup_thing_def bindr_eq_Inr_iff
        split: option.splits)
  show ?thesis
  proof (cases outcome)
    case None
    then show ?thesis using assms True l
      by (simp add: process_link_vote_def lookup_account_def lookup_thing_def)
  next
    case (Some vw)
    obtain v w1 where vw: "vw = (v, w1)" by (cases vw)
    with assms True l Some obtain w2 where w2: "update_user_liked e v w1 = Inr w2"
      and "w' = w2 \<or> w' = add_to_domain_query_q e link
                          (add_to_subreddit_query_q e sr_id link (add_to_author_query_q e link w2))"
      by (auto simp: process_link_vote_def lookup_account_def lookup_thing_def bindr_eq_Inr_iff Let_def
          split: if_splits)
    then have "same_core w1 w' \<and> pending w' = pending w1"
      using update_user_liked_frame [OF w2] followup_frame by (metis same_core_trans)
    then show ?thesis using l Some vw by blast
  qed
qed

lemma process_comment_vote_Inr:
  assumes "process_comment_vote e link_key m w = Inr w'"
  shows "same_core w w' \<and> pending w' = pending w \<or>
    (\<exists>user comment v w1. w_accounts w (m_user_id m) = Some user \<and> w_things w (m_thing m) = Some comment \<and>
       commit_message e user comment m w = Inr (Some (v, w1)) \<and> same_core w1 w' \<and> pending w' = pending w1)"
proof (cases "e_valid_msg e m")
  case False
  then show ?thesis using assms by (simp add: process_comment_vote_def)
next
  case True
  with assms obtain user comment outcome where
    "lookup_account w (m_user_id m) = Inr user" "lookup_thing w (m_thing m) = Inr comment"
    and lc: "commit_message e user comment m w = Inr outcome"
    by (auto simp: process_comment_vote_def bindr_eq_Inr_iff)
  then have l: "w_accounts w (m_user_id m) = Some user" "w_things w (m_thing m) = Some comment"
    "commit_message e user comment m w = Inr outcome"
    by (auto simp: lookup_account_def lookup_thing_def split: option.splits)
  show ?thesis
  proof (cases outcome)
    case None
    then show ?thesis using assms True l
      by (simp add: process_comment_vote_def lookup_account_def lookup_thing_def)
  next
    case (Some vw)
    obtain v w1 where vw: "vw = (v, w1)" by (cases vw)
    have "w' = w1 \<or> (\<exists>x. w' = w1\<lparr>w_listing := x\<rparr>)"
      using assms True l Some vw
      by (auto simp: process_comment_vote_def lookup_account_def lookup_thing_def bindr_eq_Inr_iff Let_def
          split: if_splits option.splits)
    then have "same_core w1 w' \<and> pending w' = pending w1"
      by (auto simp: same_core_def pending_def)
    then show ?thesis using l Some vw by blast
  qed
qed

lemma cast_vote_Inr:
  assumes ok: "store_ok w" and a: "w_accounts w u = Some a" and t: "w_things w k = Some t"
    and c: "cast_vote e a t act data w = Inr w'"
  shows "same_core w w' \<and> (pending w' = pending w \<or>
     (\<exists>m. pending w' = pending w @ [m] \<and> msg_key m = (u, k) \<and> msg_ok w m))"
proof (cases "th_class t \<noteq> OtherThing \<and> act \<in> {DUp, DDown, DUnup, DUndown}")
  case False
  then show ?thesis using c by (auto simp: cast_vote_def split: if_splits)
next
  case True
  note ids = store_okD(3) [OF ok a] store_okD(4) [OF ok t]
  obtain prev where prev: "get_vote (e_cfg e) (e_validators e) w u t = Inr prev"
    using True c ids by (auto simp: cast_vote_def bindr_eq_Inr_iff split: if_splits)
  have vt: "is_votable t" using True by (auto simp: is_votable_def split: thing_class.splits)
  note gv = get_vote_store_ok [OF ok t vt prev]
  show ?thesis
  proof (cases "next_direction act prev")
    case None
    then show ?thesis using True c ids prev by (auto simp: cast_vote_def split: if_splits)
  next
    case (Some d)
    have cl: "click act (switches (stored_dir w u k)) = Some (up_bit d, down_bit d)"
      using next_direction_refines [of prev act] gv(2) Some by (simp add: gv(1) [symmetric])
    have d: "d \<in> {DOnon, DOnoff, DOffon, DOffoff}" using next_direction_state [OF Some] .
    have "w' = update_vote_lookups e u k d w \<or> (\<exists>q m. w' = queue_item q (VoteItem m) (update_vote_lookups e u k d w) \<and>
        m_user_id m = u \<and> m_thing m = k \<and> m_direction m = value_of_direction d \<and>
        m_vote_direction m = value_of_direction act)"
      using True c ids prev Some by (force simp: cast_vote_def Let_def split: if_splits)
    moreover have "same_core w (update_vote_lookups e u k d w)"
      "pending (update_vote_lookups e u k d w) = pending w"
      by (simp_all add: update_vote_lookups_def same_core_def pending_def)
    moreover have "msg_ok w m" if "m_user_id m = u" "m_thing m = k"
        "m_direction m = value_of_direction d" "m_vote_direction m = value_of_direction act" for m
      unfolding msg_ok_def using that cl d by auto
    ultimately show ?thesis
      by (metis queue_item_frame(1,3) same_core_trans msg_key_def)
  qed
qed

subsection \<open>The invariant\<close>

definition voting_inv :: "vworld \<Rightarrow> bool" where
  "voting_inv w \<longleftrightarrow> store_ok w \<and> pending_ok w"

lemma same_base_refl [simp]: "same_base w w"
  by (simp add: same_base_def)

lemma same_base_core: "same_base w w1 \<Longrightarrow> same_core w1 w2 \<Longrightarrow> same_base w w2"
  by (simp add: same_base_def same_coreD)

text \<open>Taking a message out of the queue and processing it.\<close>

lemma deliver_keeps:
  assumes inv: "voting_inv w" and q: "w_queue w = pre @ (q, VoteItem m) # post"
    and e: "e_validators e = []" "allow_selfvote (e_cfg e) = ''false''"
    and w0: "w0 = w\<lparr>w_queue := pre @ post\<rparr>"
    and p: "same_core w0 w' \<and> pending w' = pending w0 \<or>
    (\<exists>user t v w1. w_accounts w0 (m_user_id m) = Some user \<and> w_things w0 (m_thing m) = Some t \<and>
       commit_message e user t m w0 = Inr (Some (v, w1)) \<and> same_core w1 w' \<and> pending w' = pending w1)"
  shows "voting_inv w'" "same_base w w'"
proof -
  have c0: "same_core w w0" by (simp add: w0 same_core_def)
  have pw: "pending w = pending (w\<lparr>w_queue := pre\<rparr>) @ m # pending (w\<lparr>w_queue := post\<rparr>)"
    "pending w0 = pending (w\<lparr>w_queue := pre\<rparr>) @ pending (w\<lparr>w_queue := post\<rparr>)"
    by (simp_all add: pending_def q w0)
  have ok0: "store_ok w0" "msg_ok w0 m" "pending_ok w0"
    and other: "msg_key m \<notin> msg_key ` set (pending w0)"
    using inv same_coreD [OF c0] pw by (auto simp: voting_inv_def pending_ok_def)
  have "voting_inv w' \<and> same_base w0 w'"
    using p
  proof (elim disjE exE conjE)
    assume "same_core w0 w'" "pending w' = pending w0"
    then show ?thesis using ok0 same_coreD [of w0 w']
      by (simp add: voting_inv_def pending_ok_def same_base_def)
  next
    fix user t v w1
    assume u: "w_accounts w0 (m_user_id m) = Some user" and t: "w_things w0 (m_thing m) = Some t"
      and c: "commit_message e user t m w0 = Inr (Some (v, w1))"
      and w': "same_core w1 w'" "pending w' = pending w1"
    obtain d where d: "store_ok w1" "same_base w0 w1" "world.more w1 = world.more w0"
      "\<And>u' k'. stored_dir w1 u' k' = (if u' = m_user_id m \<and> k' = m_thing m then Some d else stored_dir w0 u' k')"
      using commit_message_step [OF ok0(1,2) e u t c] by metis
    have p1: "pending w1 = pending w0" using queue_of_more [OF d(3)] by (simp add: pending_def)
    have "msg_ok w1 n" if n: "n \<in> set (pending w0)" for n
    proof -
      have "msg_key n \<noteq> msg_key m" using other n by (metis imageI)
      then have "stored_dir w1 (m_user_id n) (m_thing n) = stored_dir w0 (m_user_id n) (m_thing n)"
        using d(4) by (auto simp: msg_key_def)
      then show ?thesis using ok0(3) n by (simp add: pending_ok_def msg_ok_def)
    qed
    then have "pending_ok w1" using ok0(3) p1 by (simp add: pending_ok_def)
    then show ?thesis using d(1,2) w' same_coreD [OF w'(1)] same_base_core [OF d(2) w'(1)]
      by (simp add: voting_inv_def pending_ok_def)
  qed
  then show "voting_inv w'" "same_base w w'" using same_coreD [OF c0] by (simp_all add: same_base_def)
qed

lemma vote_step_keeps:
  assumes "vote_step cfg w w'" "voting_inv w" "allow_selfvote cfg = ''false''"
  shows "voting_inv w' \<and> same_base w w'"
  using assms(1)
proof cases
  case (Cast e u a k t act data)
  have ok: "store_ok w" using assms(2) by (simp add: voting_inv_def)
  have *: "same_core w w'" "pending w' = pending w \<or>
     (\<exists>m. pending w' = pending w @ [m] \<and> msg_key m = (u, k) \<and> msg_ok w m)"
    using cast_vote_Inr [OF ok Cast(3,4,6)] by blast+
  then have "pending_ok w'"
    using assms(2) Cast(5) same_coreD(2) [OF *(1)] by (auto simp: voting_inv_def pending_ok_def)
  then show ?thesis using ok same_coreD [OF *(1)] by (simp add: voting_inv_def same_base_def)
next
  case (Link_vote e pre m post sr_id)
  then show ?thesis
    using deliver_keeps [OF assms(2) Link_vote(3,2) _ refl process_link_vote_Inr [OF Link_vote(4)]]
      assms(3) by blast
next
  case (Comment_vote e pre m post link_key)
  then show ?thesis
    using deliver_keeps [OF assms(2) Comment_vote(3,2) _ refl process_comment_vote_Inr [OF Comment_vote(4)]]
      assms(3) by blast
qed

lemma vote_run_keeps:
  assumes "(vote_step cfg)\<^sup>*\<^sup>* w w'" "voting_inv w" "allow_selfvote cfg = ''false''"
  shows "voting_inv w' \<and> same_base w w'"
  using assms
proof (induction rule: rtranclp_induct)
  case base
  then show ?case by simp
next
  case (step w1 w2)
  then show ?case using vote_step_keeps [OF step(2)] by (simp add: same_base_def)
qed

subsection \<open>Redelivery\<close>

lemma get_vote_stored:
  assumes ok: "store_ok w" and sd: "stored_dir w u k = Some d" and t: "w_things w k = Some t" "is_votable t"
  shows "\<exists>p. get_vote cfg hook w u t = Inr (Some p) \<and> v_direction p = d \<and> acc_id (v_user p) = u \<and>
    tkey_of (v_thing p) = k"
proof -
  obtain j where j: "map_of (w_details w k) u = Some j" "col_dir j = Some d"
    using sd unfolding stored_dir_def by (cases "map_of (w_details w k) u") auto
  obtain a where a: "wf_detail j" "w_accounts w u = Some a"
    using store_okD(2) [OF ok j(1)] unfolding stored_ok_def by blast
  note kt = store_okD(4) [OF ok t(1)]
  obtain p where "get_vote cfg hook w u t = Inr (Some p)" "v_user p = a" "v_thing p = t"
      "col_dir j = Some (v_direction p)"
    using get_vote_Some [of w t u j a cfg hook] store_okD(1) [OF ok] t(2) j(1) a kt by metis
  then show ?thesis using j(2) kt store_okD(3) [OF ok a(2)] by simp
qed

lemma commit_message_again:
  assumes ok: "store_ok w" and sd: "stored_dir w (m_user_id m) (m_thing m) = Some d"
    and d: "direction_of_value (m_direction m) = Inr d"
    and u: "w_accounts w (m_user_id m) = Some user" and t: "w_things w (m_thing m) = Some t" "is_votable t"
  shows "\<exists>v. commit_message e user t m w = Inr (Some (v, w))"
proof -
  obtain p where p: "get_vote (e_cfg e) (e_validators e) w (m_user_id m) t = Inr (Some p)" "v_direction p = d"
    "acc_id (v_user p) = m_user_id m" "tkey_of (v_thing p) = m_thing m"
    using get_vote_stored [OF ok sd t] by blast
  have "\<exists>v. vote_init (e_cfg e) (e_validators e) w user t (m_direction m) (m_date m) (m_data m)
      (m_event_data m) vd = Inr v \<and> v_previous v = Some p \<and> vote_eq v p" for vd
    using p d t(2) store_okD(3) [OF ok u] store_okD(4) [OF ok t(1)]
    by (simp add: vote_init_def vote_effects_init_def vote_of_def vote_eq_def Let_def split: prod.splits)
  then obtain v where "vote_init (e_cfg e) (e_validators e) w user t (m_direction m) (m_date m) (m_data m)
      (m_event_data m) (case direction_of_value (m_vote_direction m) of Inl _ \<Rightarrow> None | Inr d \<Rightarrow> Some d) = Inr v"
    "v_previous v = Some p" "vote_eq v p" by blast
  then show ?thesis by (simp add: commit_message_def commit_def Let_def)
qed

subsection \<open>A small site\<close>

text \<open>
  A concrete state for the witnesses: account 1 has submitted link 10 (created with one point),
  account 2 votes on it.
\<close>

definition site_cfg :: config where
  "site_cfg = \<lparr>allow_selfvote = ''false'', min_up_karma = 1\<rparr>"

definition site_env :: env where
  "site_env = \<lparr>e_cfg = site_cfg, e_validators = [], e_now = 100, e_ip = Some ''10.0.0.1'',
     e_org = (\<lambda>_. JNull), e_data_hook = (\<lambda>d. d), e_event = None, e_dump_ok = (\<lambda>_. True),
     e_valid_msg = (\<lambda>_. True), e_grace_period = 60,
     e_type_id = (\<lambda>c. case c of Link \<Rightarrow> 3 | Comment \<Rightarrow> 1 | OtherThing \<Rightarrow> 5), e_draw = False,
     e_cf = (\<lambda>_. \<lparr>rows = (\<lambda>_. None), newest_index = (\<lambda>_. None)\<rparr>), e_prune_size = 10,
     e_shard = (\<lambda>_. False), e_domain = (\<lambda>_. None), e_hash = (\<lambda>_. 0), e_update_threshold = 100,
     e_update_period = 10, e_precomputed_sorts = (\<lambda>_. True)\<rparr>"

definition site_account :: "int \<Rightarrow> account" where
  "site_account i = \<lparr>acc_id = i, acc_spam = False, disable_karma = False, acc_t = []\<rparr>"

definition site_link :: thing where
  "site_link = \<lparr>th_class = Link, th_id = 10, th_author = 1, th_sr = ''pics'', th_is_self = False,
     th_ups = 1, th_downs = 0, th_date = 50, th_spam = False, th_deleted = False,
     th_distinguished = False, th_link_sticky = None\<rparr>"

definition site :: vworld where
  "site = \<lparr>w_accounts = (\<lambda>i. if i = 1 \<or> i = 2 then Some (site_account i) else None),
     w_things = (\<lambda>k. if k = (Link, 10) then Some site_link else None),
     w_votes = (\<lambda>_. None), w_details = (\<lambda>_. []), w_ips = (\<lambda>_. []), w_notes = (\<lambda>_. []), w_log = [],
     w_lookups = (\<lambda>_. None), w_last_modified = (\<lambda>_. None), w_queue = [], w_mutations = [], w_listing = []\<rparr>"

text \<open>Account 2 clicks on the link; the oldest queued vote is processed.\<close>

definition site_click :: "direction \<Rightarrow> vworld \<Rightarrow> vworld result" where
  "site_click act w = cast_vote site_env (site_account 2) site_link act [] w"

definition site_process :: "vworld \<Rightarrow> vworld result" where
  "site_process w =
     (let other = (\<lambda>(q, i). q \<noteq> ''vote_link_q'') in
      case dropWhile other (w_queue w) of
        (q, VoteItem m) # post \<Rightarrow>
          process_link_vote site_env 7 m (w\<lparr>w_queue := takeWhile other (w_queue w) @ post\<rparr>)
      | _ \<Rightarrow> Inl IndexError)"

fun site_run :: "direction option list \<Rightarrow> vworld \<Rightarrow> vworld result" where
  "site_run [] w = Inr w"
| "site_run (None # xs) w = bindr (site_process w) (site_run xs)"
| "site_run (Some act # xs) w = bindr (site_click act w) (site_run xs)"

definition site_view :: "vworld \<Rightarrow> (int \<times> int) option \<times> direction option" where
  "site_view w = (map_option (\<lambda>t. (th_ups t, th_downs t)) (w_things w (Link, 10)), stored_dir w 2 (Link, 10))"

lemma site_inv: "voting_inv site"
  by (simp add: voting_inv_def site_def pending_ok_def pending_def store_ok_def site_account_def
      site_link_def tkey_of_def)

lemma site_click_step:
  assumes "site_click act w = Inr w'" "w_accounts w 2 = Some (site_account 2)"
    "w_things w (Link, 10) = Some site_link" "pending w = []"
  shows "vote_step site_cfg w w'"
  by (rule vote_step.Cast [of site_env _ _ 2 "site_account 2" "(Link, 10)" site_link act "[]"])
     (use assms in \<open>simp_all add: site_click_def site_env_def\<close>)

lemma site_process_step:
  assumes "site_process w = Inr w'"
  shows "vote_step site_cfg w w'"
proof -
  define other where "other = (\<lambda>(q, i :: amqp_item). q \<noteq> ''vote_link_q'')"
  obtain q m post where q: "dropWhile other (w_queue w) = (q, VoteItem m) # post"
    using assms(1) by (auto simp: site_process_def other_def Let_def split: list.splits prod.splits amqp_item.splits)
  then have "q = ''vote_link_q''" by (auto simp: other_def dropWhile_eq_Cons_conv)
  moreover have "w_queue w = takeWhile other (w_queue w) @ (q, VoteItem m) # post"
    using takeWhile_dropWhile_id [of other "w_queue w"] q by simp
  ultimately show ?thesis
    using assms(1) q vote_step.Link_vote [of site_env site_cfg w "takeWhile other (w_queue w)" m post 7 w']
    by (simp add: site_process_def site_env_def other_def Let_def)
qed

text \<open>A click that is processed, as a run of the machine.\<close>

lemma site_vote_once:
  "\<exists>w'. (vote_step site_cfg)\<^sup>*\<^sup>* site w' \<and> site_view w' = (Some (2, 0), Some DOnoff)"
proof -
  have *: "case site_click DUp site of Inl _ \<Rightarrow> False | Inr w1 \<Rightarrow>
     (case site_process w1 of Inl _ \<Rightarrow> False | Inr w2 \<Rightarrow> site_view w2 = (Some (2, 0), Some DOnoff))"
    by code_simp
  obtain w1 where w1: "site_click DUp site = Inr w1" using * by (cases "site_click DUp site") auto
  obtain w2 where w2: "site_process w1 = Inr w2" using * w1 by (cases "site_process w1") auto
  have "vote_step site_cfg site w1"
    by (rule site_click_step [OF w1]) (simp_all add: site_def pending_def)
  moreover have "vote_step site_cfg w1 w2" by (rule site_process_step [OF w2])
  ultimately show ?thesis using * w1 w2 by (auto intro: rtranclp.rtrancl_into_rtrancl)
qed

subsection \<open>Properties\<close>



text \<open>
  (C15) Casting a vote implements two independent switches. For a user whose previous vote (if any)
  is a stored vote state, the new direction \<open>cast_vote\<close> computes encodes exactly the switches the
  click produces, and a click is discarded exactly when its switch already is in that position.
\<close>

theorem cast_vote_refines_switches:
  assumes "\<And>p. prev = Some p \<Longrightarrow> v_vote_direction p = None \<and> vote_state (v_direction p)"
  shows "map_option (\<lambda>d. (up_bit d, down_bit d)) (next_direction act prev)
       = click act (switches (map_option v_direction prev))"
  using assms by (rule next_direction_refines)

definition site_stored :: "direction \<Rightarrow> stored_vote" where
  "site_stored d = stored_of \<lparr>v_user = site_account 2, v_thing = site_link, v_direction = d,
     v_vote_direction = None, v_date = 60, v_data = [], v_event_data = None\<rparr>
     \<lparr>note_codes = [], affects_score = True, affects_karma = True, other_effects = [], karma_change = 0\<rparr>"

theorem cast_vote_refines_switches_witness:
  "next_direction DDown (Some (site_stored DOnoff)) = Some DOnon \<and>
   map_option (\<lambda>d. (up_bit d, down_bit d)) (next_direction DDown (Some (site_stored DOnoff)))
     = click DDown (True, False)"
  using cast_vote_refines_switches [of "Some (site_stored DOnoff)" DDown]
  by (simp add: site_stored_def stored_of_def vote_state_def next_direction_def is_onoffvote_def
      switches_def up_bit_def down_bit_def)

text \<open>
  Processing a vote message twice is the same as processing it once: when the queue delivers
  a message again after it has been committed, the second commit finds the vote already stored and
  changes nothing, so counters and karma are not applied twice.
\<close>

lemma vote_redelivery_harmless:
  assumes "store_ok w" "msg_ok w m" "e_validators e = []" "allow_selfvote (e_cfg e) = ''false''"
    and "w_accounts w (m_user_id m) = Some user" "w_things w (m_thing m) = Some t"
    and "commit_message e user t m w = Inr (Some (v, w'))"
    and "w_accounts w' (m_user_id m) = Some user'" "w_things w' (m_thing m) = Some t'"
  shows "\<exists>v'. commit_message e' user' t' m w' = Inr (Some (v', w'))"
proof -
  obtain d where d: "store_ok w'" "direction_of_value (m_direction m) = Inr d"
    "stored_dir w' (m_user_id m) (m_thing m) = Some d"
    using commit_message_step [OF assms(1-7)] by metis
  have "is_votable t" using commit_message_Inr(1) [OF assms(7)] by (auto elim: vote_init_Inr)
  moreover have "tkey_of t' = tkey_of t"
    using store_okD(4) [OF d(1) assms(9)] store_okD(4) [OF assms(1,6)] by simp
  ultimately have "is_votable t'" by (simp add: is_votable_def tkey_of_def)
  then show ?thesis by (rule commit_message_again [OF d(1,3,2) assms(8,9)])
qed

definition site_msg :: vote_msg where
  "site_msg = \<lparr>m_user_id = 2, m_thing = (Link, 10), m_direction = 5, m_date = 100, m_vote_direction = 0,
     m_data = [(''ip'', JNull)], m_event_data = None\<rparr>"

text \<open>
  Clicking again before an earlier click has been processed breaks the counters. A user who
  clicks insightful and then funny while both clicks are queued ends up with the stored state
  off/on although both counters went up; the insightful point can no longer be withdrawn (the
  click is discarded), and clicking insightful again counts the same user a second time.
\<close>

lemma voting_race_double_counts:
  "(case site_run [Some DUp, Some DDown, None, None] site of
      Inl _ \<Rightarrow> False
    | Inr w \<Rightarrow> site_view w = (Some (2, 1), Some DOffon) \<and>
        (case site_run [Some DUnup] w of Inl _ \<Rightarrow> False | Inr w' \<Rightarrow> length (pending w') = 0) \<and>
        (case site_run [Some DUp, None] w of Inl _ \<Rightarrow> False | Inr w' \<Rightarrow> site_view w' = (Some (3, 1), Some DOnon)))"
  by code_simp

text \<open>
  Votes stored by the earlier voting model as withdrawn are stuck: with a previous vote whose
  stored direction is \<open>unvote\<close>, \<open>unup\<close> or \<open>undown\<close>, every click of the user on that thing is
  discarded, so the user can never vote on it again.
\<close>

lemma legacy_unvote_stuck:
  assumes "v_vote_direction p = None" "v_direction p \<in> {DUnvote, DUnup, DUndown}"
    and "get_vote (e_cfg e) (e_validators e) w (acc_id user) thing = Inr (Some p)"
  shows "cast_vote e user thing act data w = Inr w"
  using assms next_direction_stuck [OF assms(1,2), of act] by (simp add: cast_vote_def)

definition site_legacy :: vworld where
  "site_legacy = site\<lparr>w_details := (\<lambda>_. [(2, JObj [(''direction'', JNum 0), (''date'', JNum 60),
     (''data'', JObj []), (''effects'', JObj [(''affects_score'', JBool True), (''affects_karma'', JBool True)])])])\<rparr>"

end
