(* ===== verification/Listings.thy ===== *)
theory Listings
  imports Voting
begin

section \<open>Precomputed listings\<close>

text \<open>
  Models \<open>CachedResults\<close> and \<open>MergedCachedResults\<close> of \<open>r2/lib/db/queries.py\<close>, the listings by author,
  subreddit and domain, \<open>add_queries\<close>, and the queue consumers of \<open>r2/lib/voting.py\<close> that put voted
  links into these listings. A listing is a list of item tuples (fullname and sort values) in the
  permacache; \<open>Permacache\<close> shows that the permacache behaves like its column family, which is the map
  \<open>ls_perma\<close> here. SHA-1 and the database are parameters.
\<close>

subsection \<open>Queries\<close>

text \<open>
  A rule is an operator of \<open>r2/lib/db/operators.py\<close>: its class, the class and the name of its left
  side, and \<open>str\<close> of its right side.
\<close>

record op_rule =
  r_class :: string
  r_slot :: string
  r_name :: string
  r_rval :: string

record rquery =
  rq_kind :: string
  rq_rules :: "op_rule list"
  rq_sort :: "sort_item list"
  rq_limit :: int
  rq_offset :: "int option"

definition repr_rule :: "op_rule \<Rightarrow> string" where
  "repr_rule r = ''<'' @ r_class r @ '': <'' @ r_slot r @ '': '' @ r_name r @ ''>, '' @ r_rval r @ ''>''"

fun repr_sort :: "sort_item \<Rightarrow> string" where
  "repr_sort (Asc c) = ''<sort:asc '' @ c @ ''>''"
| "repr_sort (Desc c) = ''<sort:desc '' @ c @ ''>''"
| "repr_sort (ColName c) = ''<sort:asc '' @ c @ ''>''"

definition ends_with :: "string \<Rightarrow> string \<Rightarrow> bool" where
  "ends_with suf s \<longleftrightarrow> length suf \<le> length s \<and> drop (length s - length suf) s = suf"

text \<open>The setter \<open>Query._setsort\<close>: names become ascending sorts, and the date breaks ties.\<close>

definition setsort :: "sort_item list \<Rightarrow> sort_item list" where
  "setsort sorts =
     (let op_sorts = map (\<lambda>s. case s of ColName c \<Rightarrow> Asc c | _ \<Rightarrow> s) sorts;
          have_date = list_ex (\<lambda>s. ends_with ''_date'' (sort_col s)) op_sorts in
      if op_sorts \<noteq> [] \<and> \<not> have_date then op_sorts @ [Desc ''_date''] else op_sorts)"

definition get_query_string :: "rquery \<Rightarrow> string" where
  "get_query_string q =
     ''['' @ join_with '', '' (map repr_sort (rq_sort q)) @ '']'' @ rq_kind q @ py_str_int (rq_limit q) @
     (case rq_offset q of None \<Rightarrow> [] | Some n \<Rightarrow> if n = 0 then [] else py_str_int n) @
     concat (sort (map repr_rule (rq_rules q)))"

definition get_query_iden :: "(string \<Rightarrow> string) \<Rightarrow> rquery \<Rightarrow> string" where
  "get_query_iden sha1 q = sha1 (get_query_string q)"

subsection \<open>\<open>CachedResults\<close>\<close>

record ('a, 'v) cresults =
  cr_query :: rquery
  cr_filter :: "'a \<Rightarrow> string"
  cr_iden :: string
  cr_data :: "'v item_tuple list"
  cr_fetched :: bool
  cr_new_query :: "('a, 'v) cached_query option"

definition make_results :: "(string \<Rightarrow> string) \<Rightarrow> nat \<Rightarrow> rquery \<Rightarrow> ('a \<Rightarrow> string) \<Rightarrow> ('a, 'v) cresults" where
  "make_results sha1 limit query filt =
     (let q = query\<lparr>rq_limit := int limit\<rparr> in
      \<lparr>cr_query = q, cr_filter = filt, cr_iden = get_query_iden sha1 q, cr_data = [], cr_fetched = False,
       cr_new_query = None\<rparr>)"

type_synonym 'v perma_store = "string \<Rightarrow> 'v item_tuple list option"

definition stored_listing :: "'v perma_store \<Rightarrow> string \<Rightarrow> 'v item_tuple list" where
  "stored_listing perma key = (case perma key of None \<Rightarrow> [] | Some d \<Rightarrow> d)"

definition results_fetch_multi ::
    "'v perma_store \<Rightarrow> bool \<Rightarrow> ('a, 'v) cresults list \<Rightarrow> ('a, 'v) cresults list" where
  "results_fetch_multi perma force crs =
     map (\<lambda>cr. if force \<or> \<not> cr_fetched cr
              then cr\<lparr>cr_data := stored_listing perma (cr_iden cr), cr_fetched := True\<rparr> else cr) crs"

definition results_fetch :: "'v perma_store \<Rightarrow> bool \<Rightarrow> ('a, 'v) cresults \<Rightarrow> ('a, 'v) cresults" where
  "results_fetch perma force cr = hd (results_fetch_multi perma force [cr])"

text \<open>\<open>make_item_tuple\<close>; \<open>attr\<close> is \<open>getattr\<close> with dates already converted.\<close>

definition result_tuple ::
    "('a \<Rightarrow> string \<Rightarrow> 'v option) \<Rightarrow> ('a, 'v) cresults \<Rightarrow> 'a \<Rightarrow> 'v item_tuple result" where
  "result_tuple attr cr item =
     bindr (mapr (\<lambda>col. case attr item col of None \<Rightarrow> Inl (AttributeError col) | Some v \<Rightarrow> Inr v)
                 (map sort_col (rq_sort (cr_query cr))))
           (\<lambda>lst. Inr (cr_filter cr item, lst))"

definition can_insert :: "('a, 'v) cresults \<Rightarrow> bool" where
  "can_insert cr \<longleftrightarrow>
     rq_sort (cr_query cr) \<in>
       {[Desc ''_date''], [Desc ''_hot'', Desc ''_date''], [Desc ''_score'', Desc ''_date''],
        [Desc ''_upvotes'', Desc ''_date''], [Desc ''_controversy'', Desc ''_date'']} \<and>
     \<not> list_ex (\<lambda>r. r_name r = ''_date'') (rq_rules (cr_query cr))"

definition can_delete :: "('a, 'v) cresults \<Rightarrow> bool" where
  "can_delete cr = True"

text \<open>\<open>_mutate\<close>: \<open>Permacache.mutate\<close> on the row of the listing.\<close>

definition results_mutate ::
    "('v item_tuple list option \<Rightarrow> 'v item_tuple list) \<Rightarrow> ('a, 'v) cresults \<Rightarrow> bool \<Rightarrow> 'v perma_store
     \<Rightarrow> ('a, 'v) cresults \<times> 'v perma_store" where
  "results_mutate fn cr willread perma =
     (let new_value = fn (if willread then perma (cr_iden cr) else None) in
      (cr\<lparr>cr_data := new_value, cr_fetched := True\<rparr>, perma(cr_iden cr \<mapsto> new_value)))"

text \<open>The inner function of \<open>_insert_tuples\<close>, on the stored data.\<close>

definition insert_tuples ::
    "nat \<Rightarrow> 'v::linorder item_tuple list \<Rightarrow> 'v item_tuple list \<Rightarrow> 'v item_tuple list" where
  "insert_tuples limit tuples data =
     (let existing_fnames = set (map fst data);
          new_fnames = set (map fst tuples);
          would_truncate = (length (remdups (map fst data @ map fst tuples)) \<ge> limit);
          item_tuples = (if would_truncate \<and> data \<noteq> []
            then filter (\<lambda>item. fst item \<in> existing_fnames \<or> snd item \<ge> snd (last data)) tuples
            else tuples) in
      if item_tuples = [] then data
      else take limit (sort_reverse snd (filter (\<lambda>x. fst x \<notin> new_fnames) data @ item_tuples)))"

definition results_insert ::
    "nat \<Rightarrow> ('a \<Rightarrow> string \<Rightarrow> 'v::linorder option) \<Rightarrow> 'a list \<Rightarrow> ('a, 'v) cresults \<Rightarrow> 'v perma_store
     \<Rightarrow> (('a, 'v) cresults \<times> 'v perma_store) result" where
  "results_insert limit attr items cr perma =
     bindr (mapr (result_tuple attr cr) items) (\<lambda>tuples.
       Inr (results_mutate (\<lambda>data. insert_tuples limit tuples (case data of None \<Rightarrow> [] | Some d \<Rightarrow> d)) cr True perma))"

definition results_delete ::
    "'a list \<Rightarrow> ('a, 'v) cresults \<Rightarrow> 'v perma_store \<Rightarrow> ('a, 'v) cresults \<times> 'v perma_store" where
  "results_delete items cr perma =
     (let fnames = set (map (cr_filter cr) items) in
      results_mutate (\<lambda>data. filter (\<lambda>x. fst x \<notin> fnames) (case data of None \<Rightarrow> [] | Some d \<Rightarrow> d)) cr True perma)"

definition results_replace ::
    "'v item_tuple list \<Rightarrow> bool \<Rightarrow> ('a, 'v) cresults \<Rightarrow> 'v perma_store \<Rightarrow> ('a, 'v) cresults \<times> 'v perma_store" where
  "results_replace tuples lock cr perma =
     (if lock then results_mutate (\<lambda>_. tuples) cr False perma
      else (cr\<lparr>cr_fetched := True, cr_data := tuples\<rparr>, perma(cr_iden cr \<mapsto> tuples)))"

text \<open>\<open>update\<close>: \<open>found\<close> is what the query returns from the database.\<close>

definition results_update ::
    "('a \<Rightarrow> string \<Rightarrow> 'v option) \<Rightarrow> 'a list \<Rightarrow> ('a, 'v) cresults \<Rightarrow> 'v perma_store
     \<Rightarrow> (('a, 'v) cresults \<times> 'v perma_store) result" where
  "results_update attr found cr perma =
     bindr (mapr (result_tuple attr cr) found) (\<lambda>data.
       Inr (cr\<lparr>cr_data := data, cr_fetched := True\<rparr>, perma(cr_iden cr \<mapsto> data)))"

definition results_iter :: "'v perma_store \<Rightarrow> ('a, 'v) cresults \<Rightarrow> string list" where
  "results_iter perma cr = map fst (cr_data (results_fetch perma False cr))"

text \<open>\<open>MergedCachedResults\<close> over \<open>CachedResults\<close>: one merged list, sorted by the common sort.\<close>

definition merged_results ::
    "'v::linorder perma_store \<Rightarrow> ('a, 'v) cresults list \<Rightarrow> 'v item_tuple list result" where
  "merged_results perma results =
     (let crs = results_fetch_multi perma False results in
      case crs of
        [] \<Rightarrow> Inl IndexError
      | r # rs \<Rightarrow>
          if list_all (\<lambda>x. rq_sort (cr_query x) = rq_sort (cr_query r)) rs
          then cmp_sort (\<lambda>a b. tuple_cmp (rq_sort (cr_query r)) (snd a) (snd b)) (concat (map cr_data crs))
          else Inl AssertionError)"

subsection \<open>The listings\<close>

text \<open>
  Configuration: the two voting paths, the length of a listing, and Cassandra's answers while the
  query cache is pruned. \<open>link_row\<close> is what the listings read of a link.
\<close>

record 'v lconfig =
  lc_upvote_path :: string
  lc_controversial_path :: string
  lc_limit :: nat
  lc_sha1 :: "string \<Rightarrow> string"
  lc_draw :: bool
  lc_cf :: "string \<Rightarrow> 'v snapshot"
  lc_models :: "string list"
  lc_prune_size :: nat

record 'v lstate =
  ls_perma :: "'v perma_store"
  ls_mutations :: "'v mutations"

record 'v link_row =
  l_fullname :: string
  l_author :: int
  l_sr :: int
  l_domains :: "string list"
  l_attr :: "string \<Rightarrow> 'v option"

definition db_sorts :: "(string, string) dict" where
  "db_sorts = [(''hot'', ''_hot''), (''new'', ''_date''), (''top'', ''_score'')]"

definition db_sort :: "'v lconfig \<Rightarrow> string \<Rightarrow> sort_item result" where
  "db_sort cfg srt =
     (case map_of (AList.update (lc_controversial_path cfg) ''_controversy''
                    (AList.update (lc_upvote_path cfg) ''_upvotes'' db_sorts)) srt of
        None \<Rightarrow> Inl (KeyError srt)
      | Some col \<Rightarrow> Inr (Desc col))"

definition db_times :: "(string, string) dict" where
  "db_times = map (\<lambda>t. (t, ''<interval: 1 '' @ t @ ''>'')) [''hour'', ''day'', ''week'', ''month'', ''year'']"

definition time_rules :: "string \<Rightarrow> op_rule list result" where
  "time_rules time =
     (if time = ''all'' then Inr []
      else case map_of db_times time of
        None \<Rightarrow> Inl (KeyError time)
      | Some i \<Rightarrow> Inr [\<lparr>r_class = ''gte'', r_slot = ''Slot'', r_name = ''_date'', r_rval = i\<rparr>])"

definition eq_rule :: "string \<Rightarrow> string \<Rightarrow> op_rule" where
  "eq_rule name rval = \<lparr>r_class = ''eq'', r_slot = ''Slot'', r_name = name, r_rval = rval\<rparr>"

text \<open>\<open>Thing._query\<close>: deleted and spam things are left out unless a rule names the column.\<close>

definition thing_query :: "string \<Rightarrow> op_rule list \<Rightarrow> sort_item list \<Rightarrow> rquery" where
  "thing_query kind rules sorts =
     \<lparr>rq_kind = kind,
      rq_rules = rules @
        (if list_ex (\<lambda>r. r_name r = ''_deleted'') rules then [] else [eq_rule ''_deleted'' ''False'']) @
        (if list_ex (\<lambda>r. r_name r = ''_spam'') rules then [] else [eq_rule ''_spam'' ''False'']),
      rq_sort = setsort sorts, rq_limit = 0, rq_offset = None\<rparr>"

definition filter_query :: "op_rule list \<Rightarrow> rquery \<Rightarrow> rquery" where
  "filter_query rules q = q\<lparr>rq_rules := rq_rules q @ rules\<rparr>"

text \<open>The common shape of \<open>_get_links\<close>, \<open>get_domain_links\<close> and \<open>user_query\<close>.\<close>

definition link_listing ::
    "'v lconfig \<Rightarrow> op_rule list \<Rightarrow> string \<Rightarrow> string \<Rightarrow> ('v link_row, 'v) cresults result" where
  "link_listing cfg rules srt time =
     bindr (db_sort cfg srt) (\<lambda>s.
     bindr (time_rules time) (\<lambda>ts.
       Inr (make_results (lc_sha1 cfg) (lc_limit cfg)
              (filter_query ts (thing_query ''<thing: link>'' rules [s])) l_fullname)))"

definition get_links :: "'v lconfig \<Rightarrow> int \<Rightarrow> string \<Rightarrow> string \<Rightarrow> ('v link_row, 'v) cresults result" where
  "get_links cfg sr_id srt time = link_listing cfg [eq_rule ''sr_id'' (py_str_int sr_id)] srt time"

definition get_domain_links :: "'v lconfig \<Rightarrow> string \<Rightarrow> string \<Rightarrow> string \<Rightarrow> ('v link_row, 'v) cresults result" where
  "get_domain_links cfg domain srt time =
     link_listing cfg [\<lparr>r_class = ''eq'', r_slot = ''domain'', r_name = ''url'', r_rval = domain\<rparr>] srt time"

definition get_submitted :: "'v lconfig \<Rightarrow> int \<Rightarrow> string \<Rightarrow> string \<Rightarrow> ('v link_row, 'v) cresults result" where
  "get_submitted cfg user_id srt time =
     link_listing cfg [eq_rule ''author_id'' (py_str_int user_id), eq_rule ''_spam'' ''(True, False)''] srt time"

subsection \<open>Updating several listings\<close>

definition add_query ::
    "'v::linorder lconfig \<Rightarrow> 'v link_row list \<Rightarrow> 'v link_row list \<Rightarrow> ('v link_row, 'v) cresults \<Rightarrow> 'v lstate
     \<Rightarrow> 'v lstate result" where
  "add_query cfg insert_items delete_items q st =
     (if insert_items \<noteq> [] \<and> can_insert q then
        bindr (results_insert (lc_limit cfg) l_attr insert_items q (ls_perma st)) (\<lambda>(_, perma).
          Inr (st\<lparr>ls_perma := perma\<rparr>))
      else if delete_items \<noteq> [] \<and> can_delete q then
        Inr (st\<lparr>ls_perma := snd (results_delete delete_items q (ls_perma st))\<rparr>)
      else Inl (PyException ''Cannot update query''))"

definition add_queries ::
    "'v::linorder lconfig \<Rightarrow> ('v link_row, 'v) cresults list \<Rightarrow> 'v link_row list \<Rightarrow> 'v link_row list \<Rightarrow> 'v lstate
     \<Rightarrow> 'v lstate result" where
  "add_queries cfg queries insert_items delete_items st =
     bindr (foldm (add_query cfg insert_items delete_items) queries st) (\<lambda>st1.
       let new_queries = List.map_filter cr_new_query queries in
       bindr (foldm (\<lambda>q. mutator_insert l_attr (lc_draw cfg) q insert_items) new_queries mutator_init) (\<lambda>m1.
       let m2 = fold (\<lambda>q. mutator_delete q delete_items) new_queries m1 in
       bindr (mutator_send (lc_cf cfg) (lc_models cfg) (lc_prune_size cfg) m2) (\<lambda>(batch, pruning).
         Inr (st1\<lparr>ls_mutations := ls_mutations st1 @ batch @ pruning\<rparr>))))"

subsection \<open>The listing consumers of \<open>r2/lib/voting.py\<close>\<close>

definition SORTS :: "'v lconfig \<Rightarrow> string list" where
  "SORTS cfg = [''hot'', ''top'', lc_upvote_path cfg, lc_controversial_path cfg]"

text \<open>A \<open>defaultdict(list)\<close>, filled in order.\<close>

definition group_add :: "'k \<Rightarrow> 'a \<Rightarrow> ('k, 'a list) dict \<Rightarrow> ('k, 'a list) dict" where
  "group_add k x d = AList.update k ((case map_of d k of None \<Rightarrow> [] | Some xs \<Rightarrow> xs) @ [x]) d"

definition group_by :: "('a \<Rightarrow> 'k list) \<Rightarrow> 'a list \<Rightarrow> ('k, 'a list) dict" where
  "group_by keys xs = fold (\<lambda>x d. fold (\<lambda>k. group_add k x) (keys x) d) xs []"

text \<open>
  The three consumers differ in how links are grouped, in what is loaded for a group and in the
  listing. \<open>by_fullname\<close> is the database; it raises for a link that does not exist.
\<close>

definition update_groups ::
    "'v::linorder lconfig \<Rightarrow> ('k \<Rightarrow> string \<Rightarrow> ('v link_row, 'v) cresults result) \<Rightarrow> ('k, 'v link_row list) dict \<Rightarrow> 'v lstate
     \<Rightarrow> 'v lstate result" where
  "update_groups cfg listing groups st =
     foldm (\<lambda>(k, links) st. bindr (mapr (listing k) (SORTS cfg)) (\<lambda>queries. add_queries cfg queries links [] st))
       groups st"

definition process_author_queries ::
    "'v::linorder lconfig \<Rightarrow> (string \<Rightarrow> 'v link_row result) \<Rightarrow> (int \<Rightarrow> bool) \<Rightarrow> string list \<Rightarrow> 'v lstate \<Rightarrow> 'v lstate result" where
  "process_author_queries cfg by_fullname account_exists msgs st =
     bindr (mapr by_fullname (remdups msgs)) (\<lambda>links.
       let groups = group_by (\<lambda>l. [l_author l]) links in
       if list_all account_exists (map fst groups)
       then update_groups cfg (\<lambda>a srt. get_submitted cfg a srt ''all'') groups st
       else Inl NotFound)"

definition process_subreddit_queries ::
    "'v::linorder lconfig \<Rightarrow> (string \<Rightarrow> 'v link_row result) \<Rightarrow> (int \<Rightarrow> bool) \<Rightarrow> string list \<Rightarrow> 'v lstate \<Rightarrow> 'v lstate result" where
  "process_subreddit_queries cfg by_fullname sr_exists msgs st =
     bindr (mapr by_fullname (remdups msgs)) (\<lambda>links.
       let groups = group_by (\<lambda>l. [l_sr l]) links in
       if list_all sr_exists (map fst groups)
       then update_groups cfg (\<lambda>sr srt. get_links cfg sr srt ''all'') groups st
       else Inl NotFound)"

definition process_domain_queries ::
    "'v::linorder lconfig \<Rightarrow> (string \<Rightarrow> 'v link_row result) \<Rightarrow> string list \<Rightarrow> 'v lstate \<Rightarrow> 'v lstate result" where
  "process_domain_queries cfg by_fullname msgs st =
     bindr (mapr by_fullname (remdups msgs)) (\<lambda>links.
       update_groups cfg (\<lambda>d srt. get_domain_links cfg d srt ''all'') (group_by l_domains links) st)"

subsection \<open>What a listing should hold\<close>

text \<open>
  \<open>T\<close> gives the sort values of all eligible items. A listing holds items with their current values,
  each once, in descending order; no item that is left out is above one that is stored; and items are
  left out only when the listing is full but for one place.
\<close>

definition top_listing :: "nat \<Rightarrow> (string \<rightharpoonup> 'v::linorder list) \<Rightarrow> 'v item_tuple list \<Rightarrow> bool" where
  "top_listing limit T data \<longleftrightarrow>
     finite (dom T) \<and> distinct (map fst data) \<and> sorted_wrt (\<lambda>a b. snd b \<le> snd a) data \<and> length data \<le> limit \<and>
     (\<forall>x \<in> set data. T (fst x) = Some (snd x)) \<and>
     (\<forall>n v. T n = Some v \<longrightarrow> n \<notin> fst ` set data \<longrightarrow> (\<forall>x \<in> set data. v \<le> snd x)) \<and>
     (card (dom T) \<le> length data \<or> limit \<le> Suc (length data))"

lemma top_listing_last:
  assumes "top_listing limit T data" "x \<in> set data"
  shows "snd (last data) \<le> snd x"
proof -
  have "data = butlast data @ [last data]" using assms(2) by (cases data rule: rev_cases) auto
  then have "sorted_wrt (\<lambda>a b. snd b \<le> snd a) (butlast data @ [last data])" "x \<in> set (butlast data) \<or> x = last data"
    using assms unfolding top_listing_def by (metis, metis in_set_butlast_appendI Un_iff set_append set_ConsD empty_iff empty_set)
  then show ?thesis unfolding sorted_wrt_append by auto
qed

lemma top_listing_take:
  assumes "finite (dom T)" "distinct (map fst D)" "\<And>x. x \<in> set D \<Longrightarrow> T (fst x) = Some (snd x)"
    and absent: "\<And>n v x. T n = Some v \<Longrightarrow> n \<notin> fst ` set D \<Longrightarrow> x \<in> set D \<Longrightarrow> v \<le> snd x"
    and fill: "card (dom T) \<le> length D \<or> limit \<le> Suc (length D)"
  shows "top_listing limit T (take limit (sort_reverse snd D))"
proof -
  let ?L = "sort_reverse snd D"
  have s: "sorted_wrt (\<lambda>a b. snd b \<le> snd a) (take limit ?L @ drop limit ?L)"
    using sorted_sort_reverse [of snd D] by simp
  have sub: "x \<in> set D" if "x \<in> set (take limit ?L)" for x
    using in_set_takeD [OF that] by simp
  have cut: "v \<le> snd x" if n: "T n = Some v" "n \<notin> fst ` set (take limit ?L)" and x: "x \<in> set (take limit ?L)" for n v x
  proof (cases "n \<in> fst ` set D")
    case True
    then obtain y where y: "y \<in> set D" "fst y = n" by auto
    then have "y \<in> set (take limit ?L @ drop limit ?L)" by simp
    then have "y \<in> set (drop limit ?L)" using n(2) y(2) by (auto simp del: append_take_drop_id)
    then have "snd y \<le> snd x" using s x unfolding sorted_wrt_append by blast
    then show ?thesis using assms(3) [OF y(1)] y(2) n(1) by simp
  qed (use absent n(1) sub [OF x] in blast)
  have d: "distinct (map fst ?L)" using assms(2) by (simp add: distinct_map_sort_reverse)
  show ?thesis unfolding top_listing_def
  proof (intro conjI ballI allI impI)
    show "distinct (map fst (take limit ?L))" using d by (simp add: take_map [symmetric])
    show "sorted_wrt (\<lambda>a b. snd b \<le> snd a) (take limit ?L)" using s unfolding sorted_wrt_append by blast
    show "card (dom T) \<le> length (take limit ?L) \<or> limit \<le> Suc (length (take limit ?L))" using fill by auto
  qed (use assms(1,3) sub cut in auto)
qed

lemma insert_tuples_single:
  assumes "distinct (map fst data)"
  shows "insert_tuples limit [(n, v)] data =
    (if n \<notin> fst ` set data \<and> data \<noteq> [] \<and> limit \<le> Suc (length data) \<and> v < snd (last data) then data
     else take limit (sort_reverse snd (filter (\<lambda>x. fst x \<noteq> n) data @ [(n, v)])))"
proof -
  have l: "length (remdups (map fst data @ [n])) = (if n \<in> fst ` set data then length data else Suc (length data))"
    using assms card_insert_if [of "fst ` set data" n] distinct_card [OF assms]
    by (simp add: length_remdups_card_conv insert_absorb)
  show ?thesis
    unfolding insert_tuples_def Let_def using l by (auto simp: not_le)
qed

lemma top_listing_insert:
  assumes top: "top_listing limit T data" and lim: "2 \<le> limit"
    and up: "n \<in> fst ` set data \<Longrightarrow> snd (last data) \<le> v"
  shows "top_listing limit (T(n \<mapsto> v)) (insert_tuples limit [(n, v)] data)"
proof -
  have d: "distinct (map fst data)" and fin: "finite (dom T)"
    and ent: "\<And>x. x \<in> set data \<Longrightarrow> T (fst x) = Some (snd x)"
    and abs: "\<And>m w x. T m = Some w \<Longrightarrow> m \<notin> fst ` set data \<Longrightarrow> x \<in> set data \<Longrightarrow> w \<le> snd x"
    and fill: "card (dom T) \<le> length data \<or> limit \<le> Suc (length data)" and len: "length data \<le> limit"
    and srt: "sorted_wrt (\<lambda>a b. snd b \<le> snd a) data"
    using top unfolding top_listing_def by blast+
  have sub: "fst ` set data \<subseteq> dom T" using ent by auto
  show ?thesis
  proof (cases "n \<notin> fst ` set data \<and> data \<noteq> [] \<and> limit \<le> Suc (length data) \<and> v < snd (last data)")
    case True
    have "w \<le> snd x" if "(T(n \<mapsto> v)) m = Some w" "m \<notin> fst ` set data" "x \<in> set data" for m w x
      using that abs [of m w x] top_listing_last [OF top that(3)] True by (cases "m = n") auto
    moreover have "(T(n \<mapsto> v)) (fst x) = Some (snd x)" if "x \<in> set data" for x
      using ent [OF that] True that by (metis fun_upd_apply imageI)
    ultimately have "top_listing limit (T(n \<mapsto> v)) data"
      unfolding top_listing_def using fin d srt len True by auto
    then show ?thesis using insert_tuples_single [OF d] True by simp
  next
    case False
    let ?D = "filter (\<lambda>x. fst x \<noteq> n) data @ [(n, v)]"
    have names: "fst ` set ?D = insert n (fst ` set data)" by auto
    have dD: "distinct (map fst ?D)" using d by (auto simp: distinct_map_filter)
    have lenD: "length ?D = card (insert n (fst ` set data))"
      using distinct_card [OF dD] names by (metis image_set length_map)
    have fD: "card (dom (T(n \<mapsto> v))) \<le> length ?D \<or> limit \<le> Suc (length ?D)"
    proof (cases "limit \<le> Suc (length data)")
      case True
      have "length data \<le> length ?D"
        unfolding lenD using distinct_card [OF d] card_insert_le [of "fst ` set data" n] by simp
      then show ?thesis using True by linarith
    next
      case no: False
      then have "dom T = fst ` set data"
        using fill sub fin distinct_card [OF d] card_seteq [OF fin sub] by simp
      then show ?thesis using lenD by simp
    qed
    have aD: "w \<le> snd x" if m: "(T(n \<mapsto> v)) m = Some w" "m \<notin> fst ` set ?D" and x: "x \<in> set ?D" for m w x
    proof -
      have m': "T m = Some w" "m \<notin> fst ` set data" using m names by auto
      then have "fst ` set data \<subset> dom T" using sub by auto
      then have "length data < card (dom T)" using psubset_card_mono [OF fin, of "fst ` set data"] distinct_card [OF d] by simp
      then have full: "limit \<le> Suc (length data)" using fill by simp
      then have ne: "data \<noteq> []" using lim by auto
      have "w \<le> snd (last data)" using abs [OF m'] ne by simp
      moreover have "snd (last data) \<le> v" using up False full ne by (cases "n \<in> fst ` set data") auto
      ultimately show ?thesis using x abs [OF m', of x] by auto
    qed
    from fD have "top_listing limit (T(n \<mapsto> v)) (take limit (sort_reverse snd ?D))"
      using fin ent aD by (intro top_listing_take [OF _ dD]) auto
    then show ?thesis using insert_tuples_single [OF d] False by auto
  qed
qed

subsection \<open>Updating a family of listings\<close>

lemma map_of_group_add: "map_of (group_add k x d) = (map_of d)(k \<mapsto> (case map_of d k of None \<Rightarrow> [] | Some xs \<Rightarrow> xs) @ [x])"
  by (simp add: group_add_def)

lemma dict_ok_group_add: "dict_ok d \<Longrightarrow> dict_ok (group_add k x d)"
  by (simp add: group_add_def)

lemma group_adds:
  "distinct ks \<Longrightarrow> map_of (fold (\<lambda>k. group_add k x) ks d) j =
     (if j \<in> set ks then Some ((case map_of d j of None \<Rightarrow> [] | Some xs \<Rightarrow> xs) @ [x]) else map_of d j)"
  "dict_ok d \<Longrightarrow> dict_ok (fold (\<lambda>k. group_add k x) ks d)"
  by (induction ks arbitrary: d) (auto simp: map_of_group_add dict_ok_group_add)

lemma group_by_snoc: "group_by keys (xs @ [x]) = fold (\<lambda>k. group_add k x) (keys x) (group_by keys xs)"
  by (simp add: group_by_def)

lemma group_by_correct:
  assumes "\<And>x. x \<in> set xs \<Longrightarrow> distinct (keys x)"
  shows "dict_ok (group_by keys xs)"
    "map_of (group_by keys xs) k =
       (if filter (\<lambda>x. k \<in> set (keys x)) xs = [] then None else Some (filter (\<lambda>x. k \<in> set (keys x)) xs))"
proof -
  show "dict_ok (group_by keys xs)"
    by (induction xs rule: rev_induct) (auto simp: group_by_snoc group_adds(2) group_by_def [of _ "[]"])
  show "map_of (group_by keys xs) k =
       (if filter (\<lambda>x. k \<in> set (keys x)) xs = [] then None else Some (filter (\<lambda>x. k \<in> set (keys x)) xs))"
    using assms
  proof (induction xs rule: rev_induct)
    case (snoc x xs)
    then have "distinct (keys x)" by simp
    then show ?case unfolding group_by_snoc group_adds(1) [OF \<open>distinct (keys x)\<close>] using snoc by auto
  qed (simp add: group_by_def)
qed

lemma group_by_in:
  assumes "\<And>x. x \<in> set xs \<Longrightarrow> distinct (keys x)"
  shows "(k, ls) \<in> set (group_by keys xs) \<longleftrightarrow> ls \<noteq> [] \<and> ls = filter (\<lambda>x. k \<in> set (keys x)) xs"
proof -
  have g: "dict_ok (group_by keys xs)" "map_of (group_by keys xs) k =
       (if filter (\<lambda>x. k \<in> set (keys x)) xs = [] then None else Some (filter (\<lambda>x. k \<in> set (keys x)) xs))"
    using group_by_correct [of xs keys] assms by blast+
  have "(k, ls) \<in> set (group_by keys xs) \<longleftrightarrow> map_of (group_by keys xs) k = Some ls"
    using g(1) by (simp add: dict_ok_def)
  then show ?thesis using g(2) by auto
qed

text \<open>One insertion into the store, and many into listings with different keys.\<close>

definition insert_row :: "nat \<Rightarrow> string \<times> 'v::linorder item_tuple list \<Rightarrow> 'v perma_store \<Rightarrow> 'v perma_store" where
  "insert_row limit r perma = perma(fst r \<mapsto> insert_tuples limit (snd r) (stored_listing perma (fst r)))"

lemma insert_rows:
  "distinct (map fst rs) \<Longrightarrow> fold (insert_row limit) rs perma k =
     (case map_of rs k of None \<Rightarrow> perma k | Some ts \<Rightarrow> Some (insert_tuples limit ts (stored_listing perma k)))"
proof (induction rs arbitrary: perma)
  case (Cons r rs)
  have "map_of rs (fst r) = None" using Cons.prems by (simp add: map_of_eq_None_iff)
  then show ?case using Cons
    by (cases r; cases "k = fst r") (auto simp: insert_row_def stored_listing_def split: option.splits)
qed simp

definition col_of :: "'v lconfig \<Rightarrow> string \<Rightarrow> string" where
  "col_of cfg s = (if s = lc_controversial_path cfg then ''_controversy'' else if s = lc_upvote_path cfg then ''_upvotes''
     else if s = ''top'' then ''_score'' else ''_hot'')"

definition listing_cols :: "string list" where
  "listing_cols = [''_hot'', ''_score'', ''_upvotes'', ''_controversy'', ''_date'']"

definition listing_tuples :: "string \<Rightarrow> 'v link_row list \<Rightarrow> 'v item_tuple list" where
  "listing_tuples col links = map (\<lambda>l. (l_fullname l, [the (l_attr l col), the (l_attr l ''_date'')])) links"

lemma db_sort_SORTS:
  "distinct (SORTS cfg) \<Longrightarrow> s \<in> set (SORTS cfg) \<Longrightarrow> db_sort cfg s = Inr (Desc (col_of cfg s))"
  by (auto simp: SORTS_def db_sort_def col_of_def db_sorts_def update_conv')

lemma col_of_cols: "col_of cfg s \<in> {''_hot'', ''_score'', ''_upvotes'', ''_controversy''}"
  by (simp add: col_of_def)

lemma col_of_inj: "distinct (SORTS cfg) \<Longrightarrow> inj_on (col_of cfg) (set (SORTS cfg))"
  by (auto simp: SORTS_def col_of_def inj_on_def)

lemma setsort_col: "c \<in> {''_hot'', ''_score'', ''_upvotes'', ''_controversy''} \<Longrightarrow> setsort [Desc c] = [Desc c, Desc ''_date'']"
  by (auto simp: setsort_def ends_with_def)

definition sort_listing :: "'v lconfig \<Rightarrow> op_rule list \<Rightarrow> string \<Rightarrow> ('v link_row, 'v) cresults" where
  "sort_listing cfg rules s =
     make_results (lc_sha1 cfg) (lc_limit cfg) (thing_query ''<thing: link>'' rules [Desc (col_of cfg s)]) l_fullname"

lemma link_listing_all:
  assumes "distinct (SORTS cfg)" "s \<in> set (SORTS cfg)"
  shows "link_listing cfg rules s ''all'' = Inr (sort_listing cfg rules s)"
  using db_sort_SORTS [OF assms] by (simp add: link_listing_def time_rules_def filter_query_def sort_listing_def)

lemma add_query_insert:
  assumes "links \<noteq> []" "\<And>r. r \<in> set rules \<Longrightarrow> r_name r \<noteq> ''_date''"
    and "\<And>l c. l \<in> set links \<Longrightarrow> c \<in> set listing_cols \<Longrightarrow> l_attr l c \<noteq> None"
  shows "add_query cfg links [] (sort_listing cfg rules s) st =
    Inr (st\<lparr>ls_perma := insert_row (lc_limit cfg) (cr_iden (sort_listing cfg rules s), listing_tuples (col_of cfg s) links) (ls_perma st)\<rparr>)"
proof -
  let ?cr = "sort_listing cfg rules s"
  have c: "col_of cfg s \<in> set listing_cols" "''_date'' \<in> set listing_cols"
    using col_of_cols [of cfg s] by (auto simp: listing_cols_def)
  have q: "rq_sort (cr_query ?cr) = [Desc (col_of cfg s), Desc ''_date'']" "cr_filter ?cr = l_fullname"
    "rq_rules (cr_query ?cr) = rq_rules (thing_query ''<thing: link>'' rules [Desc (col_of cfg s)])"
    using setsort_col [OF col_of_cols] by (simp_all add: sort_listing_def make_results_def Let_def thing_query_def)
  have "can_insert ?cr"
    using col_of_cols [of cfg s] assms(2) unfolding can_insert_def q
    by (auto simp: thing_query_def eq_rule_def list_ex_iff)
  moreover have "result_tuple l_attr ?cr l = Inr (l_fullname l, [the (l_attr l (col_of cfg s)), the (l_attr l ''_date'')])"
    if "l \<in> set links" for l
    using assms(3) [OF that c(1)] assms(3) [OF that c(2)] by (auto simp: result_tuple_def q)
  then have "mapr (result_tuple l_attr ?cr) links = Inr (listing_tuples (col_of cfg s) links)"
    unfolding listing_tuples_def by (rule mapr_total)
  ultimately show ?thesis
    using assms(1) by (simp add: add_query_def results_insert_def results_mutate_def insert_row_def stored_listing_def Let_def)
qed

lemma add_queries_insert:
  assumes "links \<noteq> []" "\<And>r. r \<in> set rules \<Longrightarrow> r_name r \<noteq> ''_date''"
    and "\<And>l c. l \<in> set links \<Longrightarrow> c \<in> set listing_cols \<Longrightarrow> l_attr l c \<noteq> None"
  shows "add_queries cfg (map (sort_listing cfg rules) ss) links [] st =
    Inr (st\<lparr>ls_perma := fold (insert_row (lc_limit cfg))
       (map (\<lambda>s. (cr_iden (sort_listing cfg rules s), listing_tuples (col_of cfg s) links)) ss) (ls_perma st)\<rparr>)"
proof -
  have "foldm (add_query cfg links []) (map (sort_listing cfg rules) ss) st =
    Inr (st\<lparr>ls_perma := fold (insert_row (lc_limit cfg))
       (map (\<lambda>s. (cr_iden (sort_listing cfg rules s), listing_tuples (col_of cfg s) links)) ss) (ls_perma st)\<rparr>)"
    using add_query_insert [OF assms] by (induction ss arbitrary: st) auto
  moreover have "List.map_filter cr_new_query (map (sort_listing cfg rules) ss) = []"
    by (induction ss) (simp_all add: List.map_filter_simps sort_listing_def make_results_def Let_def)
  ultimately show ?thesis
    by (simp add: add_queries_def mutator_send_def mutator_init_def)
qed

definition group_rows ::
    "'v lconfig \<Rightarrow> ('k \<Rightarrow> op_rule list) \<Rightarrow> ('k, 'v link_row list) dict \<Rightarrow> (string \<times> 'v item_tuple list) list" where
  "group_rows cfg rules groups = concat (map (\<lambda>(k, links).
     map (\<lambda>s. (cr_iden (sort_listing cfg (rules k) s), listing_tuples (col_of cfg s) links)) (SORTS cfg)) groups)"

lemma update_groups_rows:
  assumes "distinct (SORTS cfg)" "\<And>k s. s \<in> set (SORTS cfg) \<Longrightarrow> listing k s = link_listing cfg (rules k) s ''all''"
    and "\<And>k links. (k, links) \<in> set groups \<Longrightarrow> links \<noteq> []" "\<And>k r. r \<in> set (rules k) \<Longrightarrow> r_name r \<noteq> ''_date''"
    and "\<And>k links l c. (k, links) \<in> set groups \<Longrightarrow> l \<in> set links \<Longrightarrow> c \<in> set listing_cols \<Longrightarrow> l_attr l c \<noteq> None"
  shows "update_groups cfg listing groups st =
    Inr (st\<lparr>ls_perma := fold (insert_row (lc_limit cfg)) (group_rows cfg rules groups) (ls_perma st)\<rparr>)"
proof -
  have l: "mapr (listing k) (SORTS cfg) = Inr (map (sort_listing cfg (rules k)) (SORTS cfg))" for k
    using link_listing_all [OF assms(1)] assms(2) by (intro mapr_total) simp
  show ?thesis unfolding update_groups_def using assms(3,5)
  proof (induction groups arbitrary: st)
    case (Cons g groups)
    obtain k links where g: "g = (k, links)" by (cases g)
    have "add_queries cfg (map (sort_listing cfg (rules k)) (SORTS cfg)) links [] st =
      Inr (st\<lparr>ls_perma := fold (insert_row (lc_limit cfg))
         (map (\<lambda>s. (cr_iden (sort_listing cfg (rules k) s), listing_tuples (col_of cfg s) links)) (SORTS cfg)) (ls_perma st)\<rparr>)"
      using Cons.prems(1) [of k links] Cons.prems(2) [of k links] assms(4) g
      by (intro add_queries_insert) auto
    moreover have "foldm (\<lambda>(k, links) st. bindr (mapr (listing k) (SORTS cfg)) (\<lambda>queries. add_queries cfg queries links [] st)) groups st'
      = Inr (st'\<lparr>ls_perma := fold (insert_row (lc_limit cfg)) (group_rows cfg rules groups) (ls_perma st')\<rparr>)" for st'
      by (rule Cons.IH) (use Cons.prems in \<open>blast intro: list.set_intros(2)\<close>)+
    ultimately show ?case using g l by (simp add: group_rows_def)
  qed (simp add: group_rows_def)
qed

text \<open>
  The keys of a family of listings: with different groups and sorts, the strings that are hashed
  differ.
\<close>

definition listing_string :: "'v lconfig \<Rightarrow> op_rule list \<Rightarrow> string \<Rightarrow> string" where
  "listing_string cfg rules s =
     get_query_string ((thing_query ''<thing: link>'' rules [Desc (col_of cfg s)])\<lparr>rq_limit := int (lc_limit cfg)\<rparr>)"

lemma cr_iden_sort_listing: "cr_iden (sort_listing cfg rules s) = lc_sha1 cfg (listing_string cfg rules s)"
  by (simp add: sort_listing_def make_results_def get_query_iden_def listing_string_def Let_def)

definition rules_string :: "op_rule list \<Rightarrow> string" where
  "rules_string rules = concat (sort (map repr_rule (rq_rules (thing_query ''<thing: link>'' rules []))))"

lemma listing_string_eq:
  "listing_string cfg rules s = ''[<sort:desc '' @ col_of cfg s @ ''>, <sort:desc _date>]<thing: link>'' @
     py_str_int (int (lc_limit cfg)) @ rules_string rules"
  using setsort_col [OF col_of_cols, of cfg s]
  by (simp add: listing_string_def get_query_string_def thing_query_def rules_string_def)

lemma listing_string_inj:
  assumes "distinct (SORTS cfg)" "s \<in> set (SORTS cfg)" "s' \<in> set (SORTS cfg)"
    and "listing_string cfg rules s = listing_string cfg rules' s'"
  shows "s = s' \<and> rules_string rules = rules_string rules'"
proof -
  have "col_of cfg s = col_of cfg s' \<and> rules_string rules = rules_string rules'"
    using assms(4) col_of_cols [of cfg s] col_of_cols [of cfg s'] unfolding listing_string_eq by auto
  then show ?thesis using col_of_inj [OF assms(1)] assms(2,3) by (auto dest: inj_onD)
qed

definition author_rules :: "int \<Rightarrow> op_rule list" where
  "author_rules a = [eq_rule ''author_id'' (py_str_int a), eq_rule ''_spam'' ''(True, False)'']"

definition sr_rules :: "int \<Rightarrow> op_rule list" where
  "sr_rules sr = [eq_rule ''sr_id'' (py_str_int sr)]"

definition domain_rules :: "string \<Rightarrow> op_rule list" where
  "domain_rules d = [\<lparr>r_class = ''eq'', r_slot = ''domain'', r_name = ''url'', r_rval = d\<rparr>]"

lemma py_str_int_inj: "py_str_int a = py_str_int b \<Longrightarrow> a = b"
  by (metis py_int_str_py_str_int sum.inject(2))

lemmas rules_string_defs = rules_string_def thing_query_def eq_rule_def repr_rule_def less_char_def

lemma author_rules_inj: "rules_string (author_rules a) = rules_string (author_rules b) \<Longrightarrow> a = b"
  by (simp add: rules_string_defs author_rules_def py_str_int_inj)

lemma sr_rules_inj: "rules_string (sr_rules a) = rules_string (sr_rules b) \<Longrightarrow> a = b"
  by (simp add: rules_string_defs sr_rules_def py_str_int_inj)

lemma domain_rules_inj: "rules_string (domain_rules a) = rules_string (domain_rules b) \<Longrightarrow> a = b"
  by (simp add: rules_string_defs domain_rules_def)

definition listing_key :: "'v lconfig \<Rightarrow> ('k \<Rightarrow> op_rule list) \<Rightarrow> 'k \<times> string \<Rightarrow> string" where
  "listing_key cfg rules ks = lc_sha1 cfg (listing_string cfg (rules (fst ks)) (snd ks))"

definition listing_keys :: "'v lconfig \<Rightarrow> ('v link_row \<Rightarrow> 'k list) \<Rightarrow> 'v link_row list \<Rightarrow> ('k \<times> string) set" where
  "listing_keys cfg keys links = (\<Union>l \<in> set links. set (keys l)) \<times> set (SORTS cfg)"

definition no_collision :: "'v lconfig \<Rightarrow> ('k \<Rightarrow> op_rule list) \<Rightarrow> ('v link_row \<Rightarrow> 'k list) \<Rightarrow> 'v link_row list \<Rightarrow> bool" where
  "no_collision cfg rules keys links \<longleftrightarrow>
     inj_on (lc_sha1 cfg) ((\<lambda>ks. listing_string cfg (rules (fst ks)) (snd ks)) ` listing_keys cfg keys links)"

text \<open>
  The effect of a batch: every listing of every group has the links of the group inserted, with their
  current values; nothing else changes.
\<close>

definition listings_updated ::
    "'v::linorder lconfig \<Rightarrow> ('k \<Rightarrow> op_rule list) \<Rightarrow> ('v link_row \<Rightarrow> 'k list) \<Rightarrow> 'v link_row list \<Rightarrow> 'v lstate \<Rightarrow> 'v lstate \<Rightarrow> bool" where
  "listings_updated cfg rules keys links st st' \<longleftrightarrow>
     ls_mutations st' = ls_mutations st \<and>
     (\<forall>k s. (k, s) \<in> listing_keys cfg keys links \<longrightarrow>
        ls_perma st' (listing_key cfg rules (k, s)) =
          Some (insert_tuples (lc_limit cfg) (listing_tuples (col_of cfg s) (filter (\<lambda>l. k \<in> set (keys l)) links))
                 (stored_listing (ls_perma st) (listing_key cfg rules (k, s))))) \<and>
     (\<forall>key. key \<notin> listing_key cfg rules ` listing_keys cfg keys links \<longrightarrow> ls_perma st' key = ls_perma st key)"

lemma listing_key_inj:
  assumes "distinct (SORTS cfg)" "\<And>a b. rules_string (rules a) = rules_string (rules b) \<Longrightarrow> a = b"
    and "no_collision cfg rules keys links"
  shows "inj_on (listing_key cfg rules) (listing_keys cfg keys links)"
proof -
  have "inj_on (\<lambda>ks. listing_string cfg (rules (fst ks)) (snd ks)) (listing_keys cfg keys links)"
  proof (rule inj_onI)
    fix x y assume "x \<in> listing_keys cfg keys links" "y \<in> listing_keys cfg keys links"
      and "listing_string cfg (rules (fst x)) (snd x) = listing_string cfg (rules (fst y)) (snd y)"
    then have "snd x = snd y \<and> rules_string (rules (fst x)) = rules_string (rules (fst y))"
      using listing_string_inj [OF assms(1), of "snd x" "snd y"] by (simp add: listing_keys_def mem_Times_iff)
    then show "x = y" using assms(2) by (simp add: prod_eq_iff)
  qed
  then have "inj_on (lc_sha1 cfg \<circ> (\<lambda>ks. listing_string cfg (rules (fst ks)) (snd ks))) (listing_keys cfg keys links)"
    using assms(3) unfolding no_collision_def by (rule comp_inj_on)
  then show ?thesis by (simp add: listing_key_def [abs_def] comp_def)
qed

lemma group_rows_keys:
  "map fst (group_rows cfg rules groups) = map (listing_key cfg rules) (List.product (map fst groups) (SORTS cfg))"
  by (induction groups)
     (auto simp: group_rows_def cr_iden_sort_listing listing_key_def comp_def)

lemma group_rows_in:
  "(k, links) \<in> set groups \<Longrightarrow> s \<in> set (SORTS cfg) \<Longrightarrow>
   (listing_key cfg rules (k, s), listing_tuples (col_of cfg s) links) \<in> set (group_rows cfg rules groups)"
  unfolding group_rows_def set_concat set_map
  by (rule UN_I [where a = "map (\<lambda>s. (cr_iden (sort_listing cfg (rules k) s), listing_tuples (col_of cfg s) links)) (SORTS cfg)"])
     (auto simp: cr_iden_sort_listing listing_key_def intro: rev_image_eqI)

lemma update_groups_by:
  assumes d: "distinct (SORTS cfg)" and inj: "\<And>a b. rules_string (rules a) = rules_string (rules b) \<Longrightarrow> a = b"
    and r: "\<And>k r. r \<in> set (rules k) \<Longrightarrow> r_name r \<noteq> ''_date''"
    and at: "\<And>l c. l \<in> set links \<Longrightarrow> c \<in> set listing_cols \<Longrightarrow> l_attr l c \<noteq> None"
    and dk: "\<And>l. l \<in> set links \<Longrightarrow> distinct (keys l)" and nc: "no_collision cfg rules keys links"
  shows "\<exists>st'. update_groups cfg (\<lambda>k s. link_listing cfg (rules k) s ''all'') (group_by keys links) st = Inr st' \<and>
    listings_updated cfg rules keys links st st'"
proof -
  let ?g = "group_by keys links" and ?rs = "group_rows cfg rules (group_by keys links)"
  have gi: "(k, ls) \<in> set ?g \<longleftrightarrow> ls \<noteq> [] \<and> ls = filter (\<lambda>x. k \<in> set (keys x)) links" for k ls
    by (rule group_by_in) (rule dk)
  have g: "fst ` set ?g = (\<Union>l \<in> set links. set (keys l))"
  proof -
    have "k \<in> fst ` set ?g \<longleftrightarrow> k \<in> (\<Union>l \<in> set links. set (keys l))" for k
      using gi [of k] by (force simp: filter_empty_conv)
    then show ?thesis by blast
  qed
  have ok: "dict_ok ?g" using group_by_correct(1) [of links keys] dk by blast
  have kk: "set (List.product (map fst ?g) (SORTS cfg)) = listing_keys cfg keys links"
    using g by (simp add: listing_keys_def)
  have dr: "distinct (map fst ?rs)"
    unfolding group_rows_keys distinct_map kk using listing_key_inj [OF d inj nc] ok d
    by (simp add: distinct_product dict_ok_def)
  let ?st = "st\<lparr>ls_perma := fold (insert_row (lc_limit cfg)) ?rs (ls_perma st)\<rparr>"
  have u: "update_groups cfg (\<lambda>k s. link_listing cfg (rules k) s ''all'') ?g st = Inr ?st"
    by (rule update_groups_rows [OF d]) (use r at gi in auto)
  have here: "ls_perma ?st (listing_key cfg rules (k, s)) =
      Some (insert_tuples (lc_limit cfg) (listing_tuples (col_of cfg s) (filter (\<lambda>l. k \<in> set (keys l)) links))
                 (stored_listing (ls_perma st) (listing_key cfg rules (k, s))))"
    if ks: "(k, s) \<in> listing_keys cfg keys links" for k s
  proof -
    have "(k, filter (\<lambda>l. k \<in> set (keys l)) links) \<in> set ?g"
      using ks gi [of k] by (auto simp: listing_keys_def filter_empty_conv)
    then have "map_of ?rs (listing_key cfg rules (k, s)) =
        Some (listing_tuples (col_of cfg s) (filter (\<lambda>l. k \<in> set (keys l)) links))"
      using group_rows_in ks dr by (auto simp: listing_keys_def)
    then show ?thesis using insert_rows [OF dr] by simp
  qed
  have "ls_perma ?st key = ls_perma st key" if "key \<notin> listing_key cfg rules ` listing_keys cfg keys links" for key
  proof -
    have "key \<notin> set (map fst ?rs)" using that unfolding group_rows_keys set_map kk .
    then have "map_of ?rs key = None" by (simp add: map_of_eq_None_iff)
    then show ?thesis using insert_rows [OF dr] by simp
  qed
  with here have "listings_updated cfg rules keys links st ?st" unfolding listings_updated_def by simp
  then show ?thesis using u by blast
qed

subsection \<open>Updates by the three consumers\<close>

lemma author_listings_updated:
  assumes "distinct (SORTS cfg)" "mapr by_fullname (remdups msgs) = Inr links"
    and "\<And>l c. l \<in> set links \<Longrightarrow> c \<in> set listing_cols \<Longrightarrow> l_attr l c \<noteq> None"
    and "\<And>l. l \<in> set links \<Longrightarrow> account_exists (l_author l)"
    and "no_collision cfg author_rules (\<lambda>l. [l_author l]) links"
  shows "\<exists>st'. process_author_queries cfg by_fullname account_exists msgs st = Inr st' \<and>
      listings_updated cfg author_rules (\<lambda>l. [l_author l]) links st st'"
proof -
  have up: "\<exists>st'. update_groups cfg (\<lambda>k s. link_listing cfg (author_rules k) s ''all'') (group_by (\<lambda>l. [l_author l]) links) st = Inr st' \<and>
      listings_updated cfg author_rules (\<lambda>l. [l_author l]) links st st'"
    by (rule update_groups_by [OF assms(1) author_rules_inj _ assms(3) _ assms(5)])
       (use assms(4) in \<open>auto simp: author_rules_def eq_rule_def\<close>)
  have "list_all account_exists (map fst (group_by (\<lambda>l. [l_author l]) links))"
    using group_by_in [of links "\<lambda>l. [l_author l]"] assms(4) by (fastforce simp: list_all_iff filter_empty_conv)
  then show ?thesis
    using up assms(2) by (simp add: process_author_queries_def get_submitted_def author_rules_def [symmetric] Let_def)
qed

lemma subreddit_listings_updated:
  assumes "distinct (SORTS cfg)" "mapr by_fullname (remdups msgs) = Inr links"
    and "\<And>l c. l \<in> set links \<Longrightarrow> c \<in> set listing_cols \<Longrightarrow> l_attr l c \<noteq> None"
    and "\<And>l. l \<in> set links \<Longrightarrow> sr_exists (l_sr l)"
    and "no_collision cfg sr_rules (\<lambda>l. [l_sr l]) links"
  shows "\<exists>st'. process_subreddit_queries cfg by_fullname sr_exists msgs st = Inr st' \<and>
      listings_updated cfg sr_rules (\<lambda>l. [l_sr l]) links st st'"
proof -
  have up: "\<exists>st'. update_groups cfg (\<lambda>k s. link_listing cfg (sr_rules k) s ''all'') (group_by (\<lambda>l. [l_sr l]) links) st = Inr st' \<and>
      listings_updated cfg sr_rules (\<lambda>l. [l_sr l]) links st st'"
    by (rule update_groups_by [OF assms(1) sr_rules_inj _ assms(3) _ assms(5)])
       (use assms(4) in \<open>auto simp: sr_rules_def eq_rule_def\<close>)
  have "list_all sr_exists (map fst (group_by (\<lambda>l. [l_sr l]) links))"
    using group_by_in [of links "\<lambda>l. [l_sr l]"] assms(4) by (fastforce simp: list_all_iff filter_empty_conv)
  then show ?thesis
    using up assms(2) by (simp add: process_subreddit_queries_def get_links_def sr_rules_def [symmetric] Let_def)
qed

lemma domain_listings_updated:
  assumes "distinct (SORTS cfg)" "mapr by_fullname (remdups msgs) = Inr links"
    and "\<And>l c. l \<in> set links \<Longrightarrow> c \<in> set listing_cols \<Longrightarrow> l_attr l c \<noteq> None"
    and "\<And>l. l \<in> set links \<Longrightarrow> distinct (l_domains l)"
    and "no_collision cfg domain_rules l_domains links"
  shows "\<exists>st'. process_domain_queries cfg by_fullname msgs st = Inr st' \<and>
      listings_updated cfg domain_rules l_domains links st st'"
proof -
  have up: "\<exists>st'. update_groups cfg (\<lambda>k s. link_listing cfg (domain_rules k) s ''all'') (group_by l_domains links) st = Inr st' \<and>
      listings_updated cfg domain_rules l_domains links st st'"
    by (rule update_groups_by [OF assms(1) domain_rules_inj _ assms(3) _ assms(5)])
       (use assms(4) in \<open>auto simp: domain_rules_def eq_rule_def\<close>)
  then show ?thesis
    using assms(2) by (simp add: process_domain_queries_def get_domain_links_def domain_rules_def [symmetric] Let_def)
qed

lemma listings_updatedD:
  "listings_updated cfg rules keys links st st' \<Longrightarrow> (k, s) \<in> listing_keys cfg keys links \<Longrightarrow>
   ls_perma st' (listing_key cfg rules (k, s)) =
     Some (insert_tuples (lc_limit cfg) (listing_tuples (col_of cfg s) (filter (\<lambda>l. k \<in> set (keys l)) links))
            (stored_listing (ls_perma st) (listing_key cfg rules (k, s))))"
  by (simp add: listings_updated_def)

subsection \<open>Properties\<close>


definition sample_link :: "string \<Rightarrow> int \<Rightarrow> int \<Rightarrow> int link_row" where
  "sample_link name author v =
     \<lparr>l_fullname = name, l_author = author, l_sr = 7, l_domains = [''example.com''], l_attr = (\<lambda>_. Some v)\<rparr>"

definition sample_lconfig :: "int lconfig" where
  "sample_lconfig = \<lparr>lc_upvote_path = ''insightful'', lc_controversial_path = ''controversial'', lc_limit = 3,
     lc_sha1 = (\<lambda>s. s), lc_draw = False, lc_cf = (\<lambda>_. \<lparr>rows = (\<lambda>_. None), newest_index = (\<lambda>_. None)\<rparr>),
     lc_models = [], lc_prune_size = 10\<rparr>"

definition sample_listing :: "(int link_row, int) cresults" where
  "sample_listing = sort_listing sample_lconfig (sr_rules 7) ''hot''"


text \<open>
  A batch can lose items although there is room. When the stored and the new items together
  would reach the limit, every new item below the last stored one is dropped, even if the listing is
  almost empty; the check compares with the limit instead of with what would really be cut off.
\<close>

lemma listing_batch_drops:
  assumes "data \<noteq> []" "limit \<le> length (remdups (map fst data @ map fst tuples))"
    and "\<And>x. x \<in> set tuples \<Longrightarrow> fst x \<notin> fst ` set data \<and> snd x < snd (last data)"
  shows "insert_tuples limit tuples data = data"
  using assms by (auto simp: insert_tuples_def Let_def filter_empty_conv not_le)

text \<open>
  The consumers of the author, subreddit and domain queues bring the listings up to date: for a
  batch of links, each of the four listings of every author (subreddit, domain) in the batch has the
  links of that author (subreddit, domain) inserted with their current sort values, and no other
  listing changes. The SHA-1 of the queries concerned must not collide.
\<close>

lemma vote_listings_updated:
  fixes cfg :: "'v::linorder lconfig"
  assumes "distinct (SORTS cfg)" "mapr by_fullname (remdups msgs) = Inr links"
    and "\<And>l c. l \<in> set links \<Longrightarrow> c \<in> set listing_cols \<Longrightarrow> l_attr l c \<noteq> None"
    and "\<And>l. l \<in> set links \<Longrightarrow> account_exists (l_author l) \<and> sr_exists (l_sr l) \<and> distinct (l_domains l)"
    and "no_collision cfg author_rules (\<lambda>l. [l_author l]) links" "no_collision cfg sr_rules (\<lambda>l. [l_sr l]) links"
    and "no_collision cfg domain_rules l_domains links"
  shows "(\<exists>st'. process_author_queries cfg by_fullname account_exists msgs st = Inr st' \<and>
      listings_updated cfg author_rules (\<lambda>l. [l_author l]) links st st') \<and>
    (\<exists>st'. process_subreddit_queries cfg by_fullname sr_exists msgs st = Inr st' \<and>
      listings_updated cfg sr_rules (\<lambda>l. [l_sr l]) links st st') \<and>
    (\<exists>st'. process_domain_queries cfg by_fullname msgs st = Inr st' \<and>
      listings_updated cfg domain_rules l_domains links st st')"
  using author_listings_updated [OF assms(1-3) _ assms(5)] subreddit_listings_updated [OF assms(1-3) _ assms(6)]
    domain_listings_updated [OF assms(1-3) _ assms(7)] assms(4) by blast

definition sample_batch :: "string \<Rightarrow> int link_row result" where
  "sample_batch name = Inr (sample_link name (if name = ''t3_a'' then 1 else 2) 4)"

end
