(* ===== verification/Cache.thy ===== *)
theory Cache
  imports Prelude
begin

section \<open>Caches and cache chains\<close>

text \<open>
  Models \<open>r2/lib/cache.py\<close>. A cache is a state with the operations of the record \<open>cache_ops\<close>;
  \<open>LocalCache\<close> (a dictionary) and \<open>CMemcache\<close>/\<open>Mcrouter\<close> (a wrapper around a pylibmc client, which is a
  parameter) are two of them, and a \<open>CacheChain\<close> works on a list of caches through those operations.
  The interface of a working cache is the locale \<open>kv_cache\<close>. Hit and miss statistics are left out.
\<close>

subsection \<open>Cached values\<close>

text \<open>
  \<open>CNone\<close> is Python's \<open>None\<close> (not cached), \<open>NoneResult\<close> the marker for a cached negative answer.
\<close>

datatype cval = CNone | NoneResult | CInt int | CStr string

definition cval_int :: "cval \<Rightarrow> int result" where
  "cval_int v = (case v of
       CInt n \<Rightarrow> Inr n
     | CStr s \<Rightarrow> py_int_str s
     | CNone \<Rightarrow> Inl (TypeError ''int'')
     | NoneResult \<Rightarrow> Inl (TypeError ''int''))"

definition cval_str :: "cval \<Rightarrow> string" where
  "cval_str v = (case v of
       CInt n \<Rightarrow> py_str_int n
     | CStr s \<Rightarrow> s
     | CNone \<Rightarrow> ''None''
     | NoneResult \<Rightarrow> ''<class 'r2.lib.cache.NoneResult'>'')"

subsection \<open>\<open>LocalCache\<close>\<close>

type_synonym local_cache = "(string, cval) dict"

definition local_get :: "string \<Rightarrow> cval \<Rightarrow> local_cache \<Rightarrow> cval" where
  "local_get key dflt d = (case map_of d key of None \<Rightarrow> dflt | Some v \<Rightarrow> if v = CNone then dflt else v)"

definition local_simple_get_multi :: "string list \<Rightarrow> local_cache \<Rightarrow> (string, cval) dict" where
  "local_simple_get_multi keys d =
     fold (\<lambda>k out. case map_of d k of None \<Rightarrow> out | Some v \<Rightarrow> AList.update k v out) keys []"

definition local_set :: "string \<Rightarrow> cval \<Rightarrow> local_cache \<Rightarrow> local_cache" where
  "local_set key val d = AList.update key val d"

definition local_set_multi :: "(string, cval) dict \<Rightarrow> string \<Rightarrow> local_cache \<Rightarrow> local_cache" where
  "local_set_multi keys prefix d = fold (\<lambda>(k, v). local_set (prefix @ k) v) keys d"

definition local_add :: "string \<Rightarrow> cval \<Rightarrow> local_cache \<Rightarrow> local_cache \<times> bool" where
  "local_add key val d =
     (case map_of d key of None \<Rightarrow> (AList.update key val d, True) | Some _ \<Rightarrow> (d, False))"

definition local_delete :: "string \<Rightarrow> local_cache \<Rightarrow> local_cache" where
  "local_delete key d = (if map_of d key \<noteq> None then AList.delete key d else d)"

definition local_delete_multi :: "string list \<Rightarrow> local_cache \<Rightarrow> local_cache" where
  "local_delete_multi keys d = fold local_delete keys d"

definition local_incr :: "string \<Rightarrow> int \<Rightarrow> local_cache \<Rightarrow> local_cache result" where
  "local_incr key delta d = (case map_of d key of
       None \<Rightarrow> Inr d
     | Some v \<Rightarrow> bindr (cval_int v) (\<lambda>n. Inr (AList.update key (CInt (n + delta)) d)))"

definition local_decr :: "string \<Rightarrow> int \<Rightarrow> local_cache \<Rightarrow> local_cache result" where
  "local_decr key amt d = (case map_of d key of
       None \<Rightarrow> Inr d
     | Some v \<Rightarrow> bindr (cval_int v) (\<lambda>n. Inr (AList.update key (CInt (n - amt)) d)))"

definition local_append :: "string \<Rightarrow> string \<Rightarrow> local_cache \<Rightarrow> local_cache" where
  "local_append key val d =
     (case map_of d key of None \<Rightarrow> d | Some v \<Rightarrow> AList.update key (CStr (cval_str v @ val)) d)"

definition local_prepend :: "string \<Rightarrow> string \<Rightarrow> local_cache \<Rightarrow> local_cache" where
  "local_prepend key val d =
     (case map_of d key of None \<Rightarrow> d | Some v \<Rightarrow> AList.update key (CStr (val @ cval_str v)) d)"

definition local_replace :: "string \<Rightarrow> cval \<Rightarrow> local_cache \<Rightarrow> local_cache" where
  "local_replace key val d = (case map_of d key of None \<Rightarrow> d | Some _ \<Rightarrow> AList.update key val d)"

definition local_flush_all :: "local_cache \<Rightarrow> local_cache" where
  "local_flush_all d = []"

text \<open>\<open>SelfEmptyingCache\<close>, for long-running processes: it drops everything once it is too large.\<close>

definition maybe_reset :: "nat \<Rightarrow> local_cache \<Rightarrow> local_cache" where
  "maybe_reset max_size d = (if max_size < length d then [] else d)"

definition emptying_set :: "nat \<Rightarrow> string \<Rightarrow> cval \<Rightarrow> local_cache \<Rightarrow> local_cache" where
  "emptying_set max_size key val d = local_set key val (maybe_reset max_size d)"

definition emptying_add :: "nat \<Rightarrow> string \<Rightarrow> cval \<Rightarrow> local_cache \<Rightarrow> local_cache \<times> bool" where
  "emptying_add max_size key val d = local_add key val (maybe_reset max_size d)"

subsection \<open>\<open>CMemcache\<close> and \<open>Mcrouter\<close>\<close>

text \<open>
  The pylibmc client: its operations on the state \<open>'m\<close> of the memcached servers. \<open>Inl CacheError\<close>
  stands for \<open>MemcachedError\<close>, \<open>Inl NotFound\<close> and \<open>Inl DataExists\<close> for the exceptions of those names.
\<close>

record 'm mc_client =
  mc_get :: "string \<Rightarrow> 'm \<Rightarrow> cval result"
  mc_get_multi :: "string list \<Rightarrow> 'm \<Rightarrow> (string, cval) dict result"
  mc_set :: "string \<Rightarrow> cval \<Rightarrow> int \<Rightarrow> 'm \<Rightarrow> ('m \<times> bool) result"
  mc_set_multi :: "(string, cval) dict \<Rightarrow> int \<Rightarrow> 'm \<Rightarrow> 'm result"
  mc_add :: "string \<Rightarrow> cval \<Rightarrow> int \<Rightarrow> 'm \<Rightarrow> ('m \<times> bool) result"
  mc_incr :: "string \<Rightarrow> int \<Rightarrow> 'm \<Rightarrow> ('m \<times> int) result"
  mc_delete :: "string \<Rightarrow> 'm \<Rightarrow> ('m \<times> bool) result"

definition cm_get :: "'m mc_client \<Rightarrow> string \<Rightarrow> cval \<Rightarrow> 'm \<Rightarrow> cval result" where
  "cm_get mc key dflt m = bindr (mc_get mc key m) (\<lambda>ret. Inr (if ret = CNone then dflt else ret))"

definition cm_get_multi :: "'m mc_client \<Rightarrow> string list \<Rightarrow> 'm \<Rightarrow> (string, cval) dict result" where
  "cm_get_multi mc keys m = mc_get_multi mc keys m"

definition cm_set :: "'m mc_client \<Rightarrow> string \<Rightarrow> cval \<Rightarrow> int \<Rightarrow> 'm \<Rightarrow> ('m \<times> bool) result" where
  "cm_set mc key val time m =
     (if time < 0 then Inl (ValueError ''Rejecting negative TTL'') else mc_set mc key val time m)"

text \<open>The error message of \<open>set_multi\<close> uses a name \<open>key\<close> that is not bound there.\<close>

definition cm_set_multi :: "'m mc_client \<Rightarrow> (string, cval) dict \<Rightarrow> int \<Rightarrow> 'm \<Rightarrow> 'm result" where
  "cm_set_multi mc keys time m = (if time < 0 then Inl (NameError ''key'') else mc_set_multi mc keys time m)"

definition cm_add :: "'m mc_client \<Rightarrow> string \<Rightarrow> cval \<Rightarrow> int \<Rightarrow> 'm \<Rightarrow> ('m \<times> bool) result" where
  "cm_add mc key val time m =
     (if time < 0 then Inl (ValueError ''Rejecting negative TTL'')
      else case mc_add mc key val time m of Inl DataExists \<Rightarrow> Inr (m, False) | r \<Rightarrow> r)"

definition cm_incr :: "'m mc_client \<Rightarrow> string \<Rightarrow> int \<Rightarrow> 'm \<Rightarrow> ('m \<times> int) result" where
  "cm_incr mc key delta m = mc_incr mc key delta m"

definition cm_delete :: "'m mc_client \<Rightarrow> string \<Rightarrow> 'm \<Rightarrow> ('m \<times> bool) result" where
  "cm_delete mc key m = mc_delete mc key m"

definition mcrouter_set :: "'m mc_client \<Rightarrow> string \<Rightarrow> cval \<Rightarrow> int \<Rightarrow> 'm \<Rightarrow> 'm result" where
  "mcrouter_set mc key val time m =
     bindr (cm_set mc key val time m) (\<lambda>(m', success). if success then Inr m' else Inl CacheError)"

subsection \<open>The operations a chain uses\<close>

record 'c cache_ops =
  op_get :: "string \<Rightarrow> 'c \<Rightarrow> cval result"
  op_get_multi :: "string list \<Rightarrow> 'c \<Rightarrow> (string, cval) dict result"
  op_set :: "string \<Rightarrow> cval \<Rightarrow> int \<Rightarrow> 'c \<Rightarrow> 'c result"
  op_set_multi :: "(string, cval) dict \<Rightarrow> int \<Rightarrow> 'c \<Rightarrow> 'c result"
  op_add :: "string \<Rightarrow> cval \<Rightarrow> int \<Rightarrow> 'c \<Rightarrow> ('c \<times> cval) result"
  op_incr :: "string \<Rightarrow> int \<Rightarrow> 'c \<Rightarrow> ('c \<times> cval) result"
  op_delete :: "string \<Rightarrow> 'c \<Rightarrow> 'c result"
  op_is_local :: "'c \<Rightarrow> bool"

text \<open>The links of the chains the application builds: a local cache and Mcrouter.\<close>

datatype 'm link = LocalLink local_cache | McLink 'm

definition link_ops :: "'m mc_client \<Rightarrow> 'm link cache_ops" where
  "link_ops mc = \<lparr>
     op_get = (\<lambda>k c. case c of LocalLink d \<Rightarrow> Inr (local_get k CNone d) | McLink m \<Rightarrow> cm_get mc k CNone m),
     op_get_multi = (\<lambda>ks c. case c of
         LocalLink d \<Rightarrow> Inr (local_simple_get_multi ks d) | McLink m \<Rightarrow> cm_get_multi mc ks m),
     op_set = (\<lambda>k v t c. case c of
         LocalLink d \<Rightarrow> Inr (LocalLink (local_set k v d))
       | McLink m \<Rightarrow> bindr (mcrouter_set mc k v t m) (\<lambda>m'. Inr (McLink m'))),
     op_set_multi = (\<lambda>kv t c. case c of
         LocalLink d \<Rightarrow> Inr (LocalLink (local_set_multi kv [] d))
       | McLink m \<Rightarrow> bindr (cm_set_multi mc kv t m) (\<lambda>m'. Inr (McLink m'))),
     op_add = (\<lambda>k v t c. case c of
         LocalLink d \<Rightarrow> (case local_add k v d of (d', b) \<Rightarrow> Inr (LocalLink d', CInt (of_bool b)))
       | McLink m \<Rightarrow> bindr (cm_add mc k v t m) (\<lambda>(m', b). Inr (McLink m', if b then CInt 1 else CNone))),
     op_incr = (\<lambda>k delta c. case c of
         LocalLink d \<Rightarrow> bindr (local_incr k delta d) (\<lambda>d'. Inr (LocalLink d', CNone))
       | McLink m \<Rightarrow> bindr (cm_incr mc k delta m) (\<lambda>(m', n). Inr (McLink m', CInt n))),
     op_delete = (\<lambda>k c. case c of
         LocalLink d \<Rightarrow> Inr (LocalLink (local_delete k d))
       | McLink m \<Rightarrow> bindr (cm_delete mc k m) (\<lambda>(m', _). Inr (McLink m'))),
     op_is_local = (\<lambda>c. case c of LocalLink _ \<Rightarrow> True | McLink _ \<Rightarrow> False)\<rparr>"

subsection \<open>\<open>CacheChain\<close>\<close>

text \<open>
  The functions made by \<open>make_set_fn\<close>: the operation is run on every cache of the chain in order, and
  the result of the last one is returned.
\<close>

fun chain_op :: "('c \<Rightarrow> ('c \<times> 'r) result) \<Rightarrow> 'r \<Rightarrow> 'c list \<Rightarrow> ('c list \<times> 'r) result" where
  "chain_op f ret [] = Inr ([], ret)"
| "chain_op f ret (c # cs) =
     bindr (f c) (\<lambda>(c', r). bindr (chain_op f r cs) (\<lambda>(cs', r'). Inr (c' # cs', r')))"

definition chain_set :: "'c cache_ops \<Rightarrow> string \<Rightarrow> cval \<Rightarrow> int \<Rightarrow> 'c list \<Rightarrow> 'c list result" where
  "chain_set ops key val time cs =
     bindr (chain_op (\<lambda>c. bindr (op_set ops key val time c) (\<lambda>c'. Inr (c', ()))) () cs) (\<lambda>(cs', _). Inr cs')"

definition chain_set_multi :: "'c cache_ops \<Rightarrow> (string, cval) dict \<Rightarrow> int \<Rightarrow> 'c list \<Rightarrow> 'c list result" where
  "chain_set_multi ops kv time cs =
     bindr (chain_op (\<lambda>c. bindr (op_set_multi ops kv time c) (\<lambda>c'. Inr (c', ()))) () cs) (\<lambda>(cs', _). Inr cs')"

definition chain_delete :: "'c cache_ops \<Rightarrow> string \<Rightarrow> 'c list \<Rightarrow> 'c list result" where
  "chain_delete ops key cs =
     bindr (chain_op (\<lambda>c. bindr (op_delete ops key c) (\<lambda>c'. Inr (c', ()))) () cs) (\<lambda>(cs', _). Inr cs')"

definition chain_add :: "'c cache_ops \<Rightarrow> string \<Rightarrow> cval \<Rightarrow> int \<Rightarrow> 'c list \<Rightarrow> ('c list \<times> cval) result" where
  "chain_add ops key val time cs = chain_op (op_add ops key val time) CNone cs"

text \<open>
  An exception of \<open>incr\<close> is caught by callers, so the caches already incremented are part of the result.
\<close>

fun chain_incr_from :: "'c cache_ops \<Rightarrow> string \<Rightarrow> int \<Rightarrow> cval \<Rightarrow> 'c list \<Rightarrow> 'c list \<times> cval result" where
  "chain_incr_from ops key delta ret [] = ([], Inr ret)"
| "chain_incr_from ops key delta ret (c # cs) =
     (case op_incr ops key delta c of
        Inl e \<Rightarrow> (c # cs, Inl e)
      | Inr (c', r) \<Rightarrow> (case chain_incr_from ops key delta r cs of (cs', res) \<Rightarrow> (c' # cs', res)))"

definition chain_incr :: "'c cache_ops \<Rightarrow> string \<Rightarrow> int \<Rightarrow> 'c list \<Rightarrow> 'c list \<times> cval result" where
  "chain_incr ops key delta cs = chain_incr_from ops key delta CNone cs"

text \<open>
  \<open>get\<close>: the first cache that holds the key answers, and every cache before it is filled. \<open>before\<close>
  are the caches already asked or skipped.
\<close>

fun chain_get_loop ::
    "'c cache_ops \<Rightarrow> bool \<Rightarrow> string \<Rightarrow> 'c list \<Rightarrow> 'c list \<Rightarrow> (cval option \<times> 'c list) result" where
  "chain_get_loop ops allow_local key before [] = Inr (None, before)"
| "chain_get_loop ops allow_local key before (c # cs) =
     (if \<not> allow_local \<and> op_is_local ops c then chain_get_loop ops allow_local key (before @ [c]) cs
      else bindr (op_get ops key c) (\<lambda>val.
        if val \<noteq> CNone then
          bindr (mapr (op_set ops key val 0) before) (\<lambda>before'. Inr (Some val, before' @ c # cs))
        else chain_get_loop ops allow_local key (before @ [c]) cs))"

text \<open>Filling every cache but the last (\<open>self.caches[:-1]\<close>).\<close>

definition set_but_last :: "('c \<Rightarrow> 'c result) \<Rightarrow> 'c list \<Rightarrow> 'c list result" where
  "set_but_last f cs =
     bindr (mapr f (butlast cs)) (\<lambda>b. Inr (b @ drop (length cs - 1) cs))"

definition chain_get ::
    "'c cache_ops \<Rightarrow> bool \<Rightarrow> bool \<Rightarrow> string \<Rightarrow> cval \<Rightarrow> 'c list \<Rightarrow> (cval \<times> 'c list) result" where
  "chain_get ops cache_negative_results allow_local key dflt cs =
     bindr (chain_get_loop ops allow_local key [] cs) (\<lambda>(found, cs').
       case found of
         Some val \<Rightarrow> Inr (if val = NoneResult then dflt else val, cs')
       | None \<Rightarrow>
           if cache_negative_results then
             bindr (set_but_last (op_set ops key NoneResult 0) cs') (\<lambda>cs''. Inr (dflt, cs''))
           else Inr (dflt, cs'))"

fun chain_multi_loop ::
    "'c cache_ops \<Rightarrow> bool \<Rightarrow> nat \<Rightarrow> (string, cval) dict \<Rightarrow> string list \<Rightarrow> 'c list \<Rightarrow> 'c list
     \<Rightarrow> ((string, cval) dict \<times> string list \<times> 'c list) result" where
  "chain_multi_loop ops allow_local n out need before [] = Inr (out, need, before)"
| "chain_multi_loop ops allow_local n out need before (c # cs) =
     (if \<not> allow_local \<and> op_is_local ops c
      then chain_multi_loop ops allow_local n out need (before @ [c]) cs
      else if length out = n then Inr (out, need, before @ c # cs)
      else bindr (op_get_multi ops need c) (\<lambda>r.
        if r = [] then chain_multi_loop ops allow_local n out need (before @ [c]) cs
        else bindr (mapr (op_set_multi ops r 0) before) (\<lambda>before'.
          chain_multi_loop ops allow_local n (dict_update r out)
            (filter (\<lambda>k. map_of r k = None) need) (before' @ [c]) cs)))"

definition chain_simple_get_multi ::
    "'c cache_ops \<Rightarrow> bool \<Rightarrow> bool \<Rightarrow> string list \<Rightarrow> 'c list \<Rightarrow> ((string, cval) dict \<times> 'c list) result" where
  "chain_simple_get_multi ops cache_negative_results allow_local keys cs =
     bindr (chain_multi_loop ops allow_local (length keys) [] (remdups keys) [] cs) (\<lambda>(out, need, cs').
     bindr (if need \<noteq> [] \<and> cache_negative_results
            then set_but_last (op_set_multi ops (map (\<lambda>k. (k, NoneResult)) need) 0) cs'
            else Inr cs') (\<lambda>cs''.
       Inr (filter (\<lambda>(k, v). v \<noteq> NoneResult) out, cs'')))"

text \<open>\<open>reset\<close>: the first cache of a chain is a local cache, which starts empty again.\<close>

definition chain_reset :: "'m link list \<Rightarrow> 'm link list" where
  "chain_reset cs = (case cs of [] \<Rightarrow> [] | _ # rest \<Rightarrow> LocalLink [] # rest)"

subsection \<open>\<open>HardcacheChain\<close>\<close>

definition hard_add :: "'c cache_ops \<Rightarrow> string \<Rightarrow> cval \<Rightarrow> int \<Rightarrow> 'c list \<Rightarrow> ('c list \<times> cval) result" where
  "hard_add ops key val time cs =
     (if cs = [] then Inl IndexError
      else bindr (op_add ops key val time (last cs)) (\<lambda>(authority, added_val).
        bindr (mapr (op_set ops key added_val time) (butlast cs)) (\<lambda>b.
          Inr (b @ [authority], added_val))))"

definition accrue :: "'c cache_ops \<Rightarrow> string \<Rightarrow> int \<Rightarrow> int \<Rightarrow> 'c list \<Rightarrow> ('c list \<times> int) result" where
  "accrue ops key time delta cs =
     (if cs = [] then Inl IndexError
      else bindr (op_get ops key (last cs)) (\<lambda>v.
        let auth_value = (if v = CNone then CInt 0 else v) in
        bindr (cval_int auth_value) (\<lambda>n.
        bindr (mapr (op_set ops key (CInt (n + delta)) time) cs) (\<lambda>cs'. Inr (cs', n + delta)))))"

subsection \<open>\<open>StaleCacheChain\<close>\<close>

record 'c stale_chain =
  sc_local :: local_cache
  sc_stale :: 'c
  sc_real :: 'c
  sc_stats :: bool

definition staleness :: int where
  "staleness = 30"

text \<open>
  A stale miss is counted without checking that statistics are configured, so it raises when they
  are not (\<open>sc_stats\<close> false).
\<close>

definition stale_get ::
    "'c cache_ops \<Rightarrow> string \<Rightarrow> cval \<Rightarrow> bool \<Rightarrow> bool \<Rightarrow> 'c stale_chain \<Rightarrow> (cval \<times> 'c stale_chain) result" where
  "stale_get ops key dflt stale allow_local s =
     (case (if allow_local then map_of (sc_local s) key else None) of
        Some v \<Rightarrow> Inr (v, s)
      | None \<Rightarrow>
          bindr (if stale then op_get_multi ops [key] (sc_stale s) else Inr []) (\<lambda>stale_values.
          let stale_value = (case map_of stale_values key of None \<Rightarrow> CNone | Some v \<Rightarrow> v) in
          if stale \<and> stale_value \<noteq> CNone then Inr (stale_value, s)
          else if stale \<and> \<not> sc_stats s then Inl (AttributeError ''stale_miss'')
          else bindr (op_get ops key (sc_real s)) (\<lambda>val.
            if val = CNone then Inr (dflt, s)
            else bindr (if stale then op_set ops key val staleness (sc_stale s) else Inr (sc_stale s)) (\<lambda>st.
              Inr (val, s\<lparr>sc_stale := st, sc_local := local_set key val (sc_local s)\<rparr>)))))"

definition stale_simple_get_multi ::
    "'c cache_ops \<Rightarrow> string list \<Rightarrow> bool \<Rightarrow> bool \<Rightarrow> 'c stale_chain
     \<Rightarrow> ((string, cval) dict \<times> 'c stale_chain) result" where
  "stale_simple_get_multi ops keys0 stale allow_local s =
     (let keys1 = remdups keys0;
          ret1 = (if allow_local then local_simple_get_multi keys1 (sc_local s) else []);
          keys2 = filter (\<lambda>k. map_of ret1 k = None) keys1 in
      bindr (if keys2 \<noteq> [] \<and> stale then op_get_multi ops keys2 (sc_stale s) else Inr []) (\<lambda>stale_values.
      let ret2 = dict_update ret1 stale_values;
          keys3 = filter (\<lambda>k. map_of stale_values k = None) keys2 in
      if keys3 = [] then Inr (ret2, s)
      else bindr (op_get_multi ops keys3 (sc_real s)) (\<lambda>vals.
        bindr (if vals \<noteq> [] \<and> stale then op_set_multi ops vals staleness (sc_stale s) else Inr (sc_stale s)) (\<lambda>st.
          Inr (dict_update ret2 vals, s\<lparr>sc_stale := st, sc_local := dict_update (sc_local s) vals\<rparr>)))))"

definition stale_set :: "'c cache_ops \<Rightarrow> string \<Rightarrow> cval \<Rightarrow> int \<Rightarrow> 'c stale_chain \<Rightarrow> 'c stale_chain result" where
  "stale_set ops key val time s =
     bindr (op_set ops key val time (sc_real s)) (\<lambda>r.
       Inr (s\<lparr>sc_local := local_set key val (sc_local s), sc_real := r\<rparr>))"

subsection \<open>\<open>TransitionalCache\<close>\<close>

record 'c transitional =
  tc_original :: 'c
  tc_replacement :: 'c
  tc_read_original :: bool
  tc_key_transform :: "(string \<Rightarrow> string \<Rightarrow> string \<times> string) option"

text \<open>
  \<open>transform_memcache_key\<close>: a single key, and a list of keys (or the keys of a dictionary) with a
  common prefix.
\<close>

definition transform_single :: "'c transitional \<Rightarrow> string \<Rightarrow> string" where
  "transform_single t key = (case tc_key_transform t of None \<Rightarrow> key | Some f \<Rightarrow> snd (f key []))"

definition transform_keys ::
    "'c transitional \<Rightarrow> string list \<Rightarrow> string \<Rightarrow> (string list \<times> string) result" where
  "transform_keys t keys prefix =
     (case tc_key_transform t of
        None \<Rightarrow> Inr (keys, prefix)
      | Some f \<Rightarrow>
          if prefix = [] then Inl AssertionError
          else (case map (\<lambda>k. f k prefix) keys of
                  [] \<Rightarrow> Inl IndexError
                | (p, k) # rest \<Rightarrow>
                    if list_all (\<lambda>(p', _). p' = p) rest then Inr (k # map snd rest, p)
                    else Inl AssertionError))"

definition trans_get :: "'c cache_ops \<Rightarrow> string \<Rightarrow> 'c transitional \<Rightarrow> cval result" where
  "trans_get ops key t =
     (if tc_read_original t then op_get ops key (tc_original t)
      else op_get ops (transform_single t key) (tc_replacement t))"

text \<open>The functions made by \<open>make_set_fn\<close>, for an operation on one key.\<close>

definition trans_set_fn ::
    "(string \<Rightarrow> 'c \<Rightarrow> ('c \<times> 'r) result) \<Rightarrow> string \<Rightarrow> 'c transitional \<Rightarrow> ('c transitional \<times> 'r) result" where
  "trans_set_fn f key t =
     bindr (f key (tc_original t)) (\<lambda>(o', ret_original).
     bindr (f (transform_single t key) (tc_replacement t)) (\<lambda>(r', ret_replacement).
       Inr (t\<lparr>tc_original := o', tc_replacement := r'\<rparr>,
            if tc_read_original t then ret_original else ret_replacement)))"

definition trans_set :: "'c cache_ops \<Rightarrow> string \<Rightarrow> cval \<Rightarrow> int \<Rightarrow> 'c transitional \<Rightarrow> 'c transitional result" where
  "trans_set ops key val time t =
     bindr (trans_set_fn (\<lambda>k c. bindr (op_set ops k val time c) (\<lambda>c'. Inr (c', ()))) key t) (\<lambda>(t', _). Inr t')"

definition trans_delete :: "'c cache_ops \<Rightarrow> string \<Rightarrow> 'c transitional \<Rightarrow> 'c transitional result" where
  "trans_delete ops key t =
     bindr (trans_set_fn (\<lambda>k c. bindr (op_delete ops k c) (\<lambda>c'. Inr (c', ()))) key t) (\<lambda>(t', _). Inr t')"

subsection \<open>Working caches\<close>

text \<open>
  What a chain relies on: reads do not fail, a write of a value (with a time that is not negative)
  succeeds and is seen by later reads of that key only, a delete is seen, and reading several keys
  gives what reading them one by one gives.
\<close>

text \<open>
  A chain agrees with its last cache, the authority: every other cache holds nothing for a key, or
  what the authority holds, or the marker for a key the authority does not hold. \<open>look c k\<close> is what
  the cache \<open>c\<close> holds for \<open>k\<close>.
\<close>

definition chain_agrees :: "('c \<Rightarrow> string \<Rightarrow> cval) \<Rightarrow> 'c list \<Rightarrow> bool" where
  "chain_agrees look cs \<longleftrightarrow> cs \<noteq> [] \<and>
     (\<forall>c \<in> set cs. \<forall>k. look c k = CNone \<or> look c k = look (last cs) k \<or>
        look c k = NoneResult \<and> look (last cs) k = CNone)"

definition answer :: "cval \<Rightarrow> cval \<Rightarrow> cval" where
  "answer dflt v = (if v = CNone \<or> v = NoneResult then dflt else v)"

definition link_look :: "('m \<Rightarrow> string \<Rightarrow> cval) \<Rightarrow> 'm link \<Rightarrow> string \<Rightarrow> cval" where
  "link_look stored c k = (case c of LocalLink d \<Rightarrow> local_get k CNone d | McLink m \<Rightarrow> stored m k)"

locale kv_cache =
  fixes ops :: "'c cache_ops" and look :: "'c \<Rightarrow> string \<Rightarrow> cval" and valid :: "'c \<Rightarrow> bool"
  assumes get_look: "valid c \<Longrightarrow> op_get ops k c = Inr (look c k)"
    and set_ok: "valid c \<Longrightarrow> v \<noteq> CNone \<Longrightarrow> 0 \<le> t \<Longrightarrow>
      \<exists>c'. op_set ops k v t c = Inr c' \<and> valid c' \<and> look c' = (look c)(k := v) \<and>
           op_is_local ops c' = op_is_local ops c"
    and delete_ok: "valid c \<Longrightarrow>
      \<exists>c'. op_delete ops k c = Inr c' \<and> valid c' \<and> look c' = (look c)(k := CNone) \<and>
           op_is_local ops c' = op_is_local ops c"
begin

definition set_to :: "string \<Rightarrow> cval \<Rightarrow> int \<Rightarrow> 'c \<Rightarrow> 'c" where
  "set_to k v t c = (case op_set ops k v t c of Inr c' \<Rightarrow> c' | Inl _ \<Rightarrow> c)"

lemma set_to:
  assumes "valid c" "v \<noteq> CNone" "0 \<le> t"
  shows "op_set ops k v t c = Inr (set_to k v t c)" "valid (set_to k v t c)"
    "look (set_to k v t c) = (look c)(k := v)" "op_is_local ops (set_to k v t c) = op_is_local ops c"
  using set_ok [OF assms, of k] by (auto simp: set_to_def)

text \<open>The caches of a chain that are asked, and the first answer.\<close>

fun first_hit :: "bool \<Rightarrow> string \<Rightarrow> 'c list \<Rightarrow> cval option" where
  "first_hit al k [] = None"
| "first_hit al k (c # cs) =
     (if \<not> al \<and> op_is_local ops c then first_hit al k cs
      else if look c k \<noteq> CNone then Some (look c k) else first_hit al k cs)"

lemma mapr_set:
  assumes "\<forall>c \<in> set cs. valid c" "v \<noteq> CNone" "0 \<le> t"
  shows "mapr (op_set ops k v t) cs = Inr (map (set_to k v t) cs)"
  using assms set_to by (intro mapr_total) auto

lemma chain_get_loop_first:
  assumes "\<forall>c \<in> set (before @ cs). valid c"
  shows "\<exists>cs'. chain_get_loop ops al k before cs = Inr (first_hit al k cs, cs') \<and>
    length cs' = length (before @ cs) \<and> (\<forall>c \<in> set cs'. valid c) \<and>
    (\<forall>i < length cs'. op_is_local ops (cs' ! i) = op_is_local ops ((before @ cs) ! i) \<and>
       (look (cs' ! i) = look ((before @ cs) ! i) \<or>
        (\<exists>v. first_hit al k cs = Some v \<and> look (cs' ! i) = (look ((before @ cs) ! i))(k := v)))) \<and>
    (cs \<noteq> [] \<longrightarrow> last cs' = last cs)"
  using assms
proof (induction cs arbitrary: before)
  case Nil
  then show ?case by auto
next
  case (Cons c cs)
  show ?case
  proof (cases "\<not> al \<and> op_is_local ops c \<or> look c k = CNone")
    case True
    then have eq: "chain_get_loop ops al k before (c # cs) = chain_get_loop ops al k (before @ [c]) cs"
      "first_hit al k (c # cs) = first_hit al k cs"
      using Cons.prems by (auto simp: get_look)
    have "\<forall>x \<in> set ((before @ [c]) @ cs). valid x" using Cons.prems by auto
    from Cons.IH [OF this] obtain cs' where ih: "chain_get_loop ops al k (before @ [c]) cs = Inr (first_hit al k cs, cs')"
      "length cs' = length ((before @ [c]) @ cs)" "\<forall>c \<in> set cs'. valid c"
      "\<forall>i < length cs'. op_is_local ops (cs' ! i) = op_is_local ops (((before @ [c]) @ cs) ! i) \<and>
         (look (cs' ! i) = look (((before @ [c]) @ cs) ! i) \<or>
          (\<exists>v. first_hit al k cs = Some v \<and> look (cs' ! i) = (look (((before @ [c]) @ cs) ! i))(k := v)))"
      "cs \<noteq> [] \<longrightarrow> last cs' = last cs"
      by blast
    have "last cs' = last (c # cs)"
    proof (cases cs)
      case Nil
      then show ?thesis using ih(1) by (auto)
    qed (use ih(5) in auto)
    moreover have app: "before @ c # cs = (before @ [c]) @ cs" by simp
    ultimately show ?thesis unfolding eq app using ih(1-4) by blast
  next
    case False
    let ?v = "look c k"
    have b: "mapr (op_set ops k ?v 0) before = Inr (map (set_to k ?v 0) before)"
      using mapr_set Cons.prems False by auto
    let ?cs' = "map (set_to k ?v 0) before @ c # cs"
    have res: "chain_get_loop ops al k before (c # cs) = Inr (first_hit al k (c # cs), ?cs')"
      using False Cons.prems b by (auto simp: get_look)
    have st: "op_is_local ops (?cs' ! i) = op_is_local ops ((before @ c # cs) ! i) \<and>
        (look (?cs' ! i) = look ((before @ c # cs) ! i) \<or> look (?cs' ! i) = (look ((before @ c # cs) ! i))(k := ?v))"
      if "i < length ?cs'" for i
      using that Cons.prems False set_to(3,4) [of "before ! i" ?v 0 k]
      by (cases "i < length before") (auto simp: nth_append)
    have "\<forall>x \<in> set ?cs'. valid x" using Cons.prems set_to(2) False by auto
    moreover have "length ?cs' = length (before @ c # cs)" "last ?cs' = last (c # cs)" by simp_all
    moreover have "first_hit al k (c # cs) = Some ?v" using False by auto
    ultimately show ?thesis using res st by blast
  qed
qed

definition agrees :: "'c list \<Rightarrow> bool" where
  "agrees cs \<longleftrightarrow> (\<forall>c \<in> set cs. valid c) \<and> chain_agrees look cs"

lemmas agrees_unfold = agrees_def chain_agrees_def

lemma first_hit_Some: "first_hit al k cs = Some v \<Longrightarrow> v \<noteq> CNone \<and> (\<exists>c \<in> set cs. look c k = v)"
  by (induction cs) (auto split: if_splits)

lemma first_hit_None:
  "first_hit al k cs = None \<Longrightarrow> cs \<noteq> [] \<Longrightarrow> al \<or> \<not> op_is_local ops (last cs) \<Longrightarrow> look (last cs) k = CNone"
  by (induction cs) (auto split: if_splits)

lemma agrees_first_hit:
  assumes "agrees cs" "al \<or> \<not> op_is_local ops (last cs)"
  shows "(case first_hit al k cs of None \<Rightarrow> dflt | Some v \<Rightarrow> if v = NoneResult then dflt else v)
    = answer dflt (look (last cs) k)"
proof (cases "first_hit al k cs")
  case None
  then show ?thesis using first_hit_None [OF None _ assms(2)] assms(1) by (auto simp: agrees_unfold answer_def)
next
  case (Some v)
  then obtain c where "v \<noteq> CNone" "c \<in> set cs" "look c k = v" using first_hit_Some by blast
  then have "v = look (last cs) k \<or> v = NoneResult \<and> look (last cs) k = CNone"
    using assms(1) unfolding agrees_unfold by blast
  then show ?thesis using Some \<open>v \<noteq> CNone\<close> by (auto simp: answer_def)
qed

lemma agrees_upd:
  assumes "agrees cs" and len: "length cs' = length cs" and val: "\<forall>c \<in> set cs'. valid c"
    and lst: "look (last cs') = look (last cs)"
    and upd: "\<And>i. i < length cs \<Longrightarrow> look (cs' ! i) = look (cs ! i) \<or> look (cs' ! i) = (look (cs ! i))(k := v)"
    and v: "v = CNone \<or> v = look (last cs) k \<or> v = NoneResult \<and> look (last cs) k = CNone"
  shows "agrees cs'"
proof -
  have old: "look (cs ! i) x = CNone \<or> look (cs ! i) x = look (last cs) x \<or>
      look (cs ! i) x = NoneResult \<and> look (last cs) x = CNone" if "i < length cs" for i x
    using assms(1) that unfolding agrees_unfold by simp
  have new: "look (cs' ! i) x = CNone \<or> look (cs' ! i) x = look (last cs) x \<or>
      look (cs' ! i) x = NoneResult \<and> look (last cs) x = CNone" if "i < length cs" for i x
    using upd [OF that] old [OF that, of x] v by (cases "x = k") auto
  have "cs' \<noteq> []" using len assms(1) by (auto simp: agrees_unfold)
  moreover have "look c x = CNone \<or> look c x = look (last cs') x \<or>
      look c x = NoneResult \<and> look (last cs') x = CNone" if "c \<in> set cs'" for c x
    using that new len unfolding lst by (metis in_set_conv_nth)
  ultimately show ?thesis using val unfolding agrees_unfold by blast
qed

lemma set_but_last_set:
  assumes "\<forall>c \<in> set cs. valid c" "v \<noteq> CNone" "cs \<noteq> []"
  shows "set_but_last (op_set ops k v 0) cs = Inr (map (set_to k v 0) (butlast cs) @ [last cs])"
proof -
  have "drop (length cs - 1) cs = [last cs]" using assms(3) by (cases cs rule: rev_cases) auto
  moreover have "mapr (op_set ops k v 0) (butlast cs) = Inr (map (set_to k v 0) (butlast cs))"
    using assms by (intro mapr_set) (auto dest: in_set_butlastD)
  ultimately show ?thesis by (simp add: set_but_last_def)
qed

lemma chain_get_agrees:
  assumes ag: "agrees cs" and al: "al \<or> \<not> op_is_local ops (last cs)"
  shows "\<exists>cs'. chain_get ops neg al k dflt cs = Inr (answer dflt (look (last cs) k), cs') \<and>
    agrees cs' \<and> last cs' = last cs"
proof -
  have val: "\<forall>c \<in> set ([] @ cs). valid c" and ne: "cs \<noteq> []" using ag by (auto simp: agrees_unfold)
  from chain_get_loop_first [OF val, of al k] ne obtain cs' where
    lp: "chain_get_loop ops al k [] cs = Inr (first_hit al k cs, cs')" and len: "length cs' = length cs"
    and vcs: "\<forall>c \<in> set cs'. valid c" and lst: "last cs' = last cs"
    and ch: "\<forall>i < length cs'. look (cs' ! i) = look (cs ! i) \<or>
        (\<exists>v. first_hit al k cs = Some v \<and> look (cs' ! i) = (look (cs ! i))(k := v))"
    unfolding append_Nil by blast
  note ans = agrees_first_hit [OF ag al, of dflt k]
  show ?thesis
  proof (cases "first_hit al k cs")
    case (Some v)
    obtain c where "c \<in> set cs" "look c k = v" using first_hit_Some [OF Some] by blast
    then have v: "v = CNone \<or> v = look (last cs) k \<or> v = NoneResult \<and> look (last cs) k = CNone"
      using ag unfolding agrees_unfold by blast
    have "agrees cs'"
      by (rule agrees_upd [OF ag len vcs _ _ v]) (use lst ch Some len in auto)
    then show ?thesis using lp ans Some lst by (auto simp: chain_get_def)
  next
    case None
    have same: "\<And>i. i < length cs \<Longrightarrow> look (cs' ! i) = look (cs ! i)" using ch None len by auto
    have ag': "agrees cs'"
      by (rule agrees_upd [OF ag len vcs, where k = k and v = CNone]) (use lst same in auto)
    have ne': "cs' \<noteq> []" using len ne by auto
    have lk: "look (last cs) k = CNone" using first_hit_None [OF None ne al] .
    let ?cs'' = "map (set_to k NoneResult 0) (butlast cs') @ [last cs']"
    have sb: "set_but_last (op_set ops k NoneResult 0) cs' = Inr ?cs''"
      using set_but_last_set [OF vcs _ ne'] by simp
    have "agrees ?cs''"
    proof (rule agrees_upd [OF ag', where k = k and v = NoneResult])
      show "\<forall>c \<in> set ?cs''. valid c" using vcs ne' set_to(2) by (auto dest: in_set_butlastD)
      show "look (?cs'' ! i) = look (cs' ! i) \<or> look (?cs'' ! i) = (look (cs' ! i))(k := NoneResult)"
        if i: "i < length cs'" for i
      proof (cases "i < length cs' - 1")
        case True
        then have "valid (cs' ! i)" using vcs i by simp
        then show ?thesis using True set_to(3) [of "cs' ! i" NoneResult 0 k]
          by (simp add: nth_append nth_butlast)
      next
        case False
        then have "i = length cs' - 1" using i by simp
        then show ?thesis using ne' by (simp add: nth_append last_conv_nth)
      qed
    qed (use ne' lst lk in simp_all)
    then show ?thesis using lp ans None lst sb ag' by (auto simp: chain_get_def)
  qed
qed

lemma chain_unit_op:
  "bindr (chain_op (\<lambda>c. bindr (f c) (\<lambda>c'. Inr (c', ()))) () cs) (\<lambda>(cs', _). Inr cs') = mapr f cs"
proof (induction cs)
  case (Cons c cs)
  then show ?case unfolding mapr.simps chain_op.simps Cons.IH [symmetric]
    by (cases "f c"; cases "chain_op (\<lambda>c. bindr (f c) (\<lambda>c'. Inr (c', ()))) () cs") auto
qed simp

lemma chain_set_agrees:
  assumes ag: "agrees cs" and v: "v \<noteq> CNone" "0 \<le> t"
  shows "\<exists>cs'. chain_set ops k v t cs = Inr cs' \<and> agrees cs' \<and> look (last cs') = (look (last cs))(k := v)"
proof -
  have val: "\<forall>c \<in> set cs. valid c" and ne: "cs \<noteq> []" using ag by (auto simp: agrees_unfold)
  have "chain_set ops k v t cs = Inr (map (set_to k v t) cs)"
    unfolding chain_set_def chain_unit_op using mapr_set [OF val v] .
  moreover have lst: "look (last (map (set_to k v t) cs)) = (look (last cs))(k := v)"
    using ne val v set_to(3) by (simp add: last_map)
  moreover have "agrees (map (set_to k v t) cs)"
    unfolding agrees_unfold lst
  proof (intro conjI ballI allI)
    fix c x assume "c \<in> set (map (set_to k v t) cs)"
    then obtain d where d: "d \<in> set cs" "c = set_to k v t d" by auto
    then have "look c = (look d)(k := v)" using val v set_to(3) by blast
    moreover have "look d x = CNone \<or> look d x = look (last cs) x \<or>
        look d x = NoneResult \<and> look (last cs) x = CNone"
      using ag d(1) unfolding agrees_unfold by blast
    ultimately show "look c x = CNone \<or> look c x = ((look (last cs))(k := v)) x \<or>
        look c x = NoneResult \<and> ((look (last cs))(k := v)) x = CNone"
      by (cases "x = k") auto
  qed (use ne val v set_to(2) in auto)
  ultimately show ?thesis by blast
qed

definition delete_from :: "string \<Rightarrow> 'c \<Rightarrow> 'c" where
  "delete_from k c = (case op_delete ops k c of Inr c' \<Rightarrow> c' | Inl _ \<Rightarrow> c)"

lemma delete_from:
  assumes "valid c"
  shows "op_delete ops k c = Inr (delete_from k c)" "valid (delete_from k c)"
    "look (delete_from k c) = (look c)(k := CNone)"
  using delete_ok [OF assms, of k] by (auto simp: delete_from_def)

lemma chain_delete_agrees:
  assumes ag: "agrees cs"
  shows "\<exists>cs'. chain_delete ops k cs = Inr cs' \<and> agrees cs' \<and> look (last cs') = (look (last cs))(k := CNone)"
proof -
  have val: "\<forall>c \<in> set cs. valid c" and ne: "cs \<noteq> []" using ag by (auto simp: agrees_unfold)
  have "chain_delete ops k cs = Inr (map (delete_from k) cs)"
    unfolding chain_delete_def chain_unit_op by (rule mapr_total) (use val delete_from(1) in auto)
  moreover have lst: "look (last (map (delete_from k) cs)) = (look (last cs))(k := CNone)"
    using ne val delete_from(3) by (simp add: last_map)
  moreover have "agrees (map (delete_from k) cs)"
    unfolding agrees_unfold lst
  proof (intro conjI ballI allI)
    fix c x assume "c \<in> set (map (delete_from k) cs)"
    then obtain d where d: "d \<in> set cs" "c = delete_from k d" by auto
    then have "look c = (look d)(k := CNone)" using val delete_from(3) by blast
    moreover have "look d x = CNone \<or> look d x = look (last cs) x \<or>
        look d x = NoneResult \<and> look (last cs) x = CNone"
      using ag d(1) unfolding agrees_unfold by blast
    ultimately show "look c x = CNone \<or> look c x = ((look (last cs))(k := CNone)) x \<or>
        look c x = NoneResult \<and> ((look (last cs))(k := CNone)) x = CNone"
      by (cases "x = k") auto
  qed (use ne val delete_from(2) in auto)
  ultimately show ?thesis by blast
qed

text \<open>\<open>accrue\<close> counts on the authority and puts the new count into every cache.\<close>

lemma accrue_agrees:
  assumes ag: "agrees cs" and t: "0 \<le> t"
    and n: "look (last cs) k = CInt n \<or> look (last cs) k = CNone \<and> n = 0"
  shows "\<exists>cs'. accrue ops k t delta cs = Inr (cs', n + delta) \<and> agrees cs' \<and>
    look (last cs') = (look (last cs))(k := CInt (n + delta))"
proof -
  have val: "\<forall>c \<in> set cs. valid c" and ne: "cs \<noteq> []" using ag by (auto simp: agrees_unfold)
  have "mapr (op_set ops k (CInt (n + delta)) t) cs = chain_set ops k (CInt (n + delta)) t cs"
    unfolding chain_set_def chain_unit_op ..
  moreover have "op_get ops k (last cs) = Inr (look (last cs) k)" using get_look val ne by simp
  ultimately show ?thesis
    using chain_set_agrees [OF ag _ t, of "CInt (n + delta)" k] n ne
    by (auto simp: accrue_def cval_int_def)
qed

text \<open>
  Dual writing: with an injective renaming of keys, the replacement cluster mirrors the original one
  on every key written through the chain.
\<close>

definition mirrors :: "'c transitional \<Rightarrow> bool" where
  "mirrors t \<longleftrightarrow> valid (tc_original t) \<and> valid (tc_replacement t) \<and> inj (transform_single t) \<and>
     (\<forall>k. look (tc_replacement t) (transform_single t k) = look (tc_original t) k)"

lemma transform_single_update [simp]:
  "transform_single (t\<lparr>tc_original := x, tc_replacement := y\<rparr>) = transform_single t"
  by (rule ext) (simp add: transform_single_def)

lemma trans_get_mirrors:
  "mirrors t \<Longrightarrow> trans_get ops k t = Inr (look (tc_original t) k)"
  by (simp add: trans_get_def mirrors_def get_look)

lemma trans_set_mirrors:
  assumes "mirrors t" "v \<noteq> CNone" "0 \<le> time"
  shows "\<exists>t'. trans_set ops k v time t = Inr t' \<and> mirrors t' \<and> look (tc_original t') = (look (tc_original t))(k := v)"
proof -
  have inj: "inj (transform_single t)" and v: "valid (tc_original t)" "valid (tc_replacement t)"
    and eq: "\<And>k. look (tc_replacement t) (transform_single t k) = look (tc_original t) k"
    using assms(1) by (auto simp: mirrors_def)
  note s = set_to [OF v(1) assms(2,3)] set_to [OF v(2) assms(2,3)]
  have "mirrors (t\<lparr>tc_original := set_to k v time (tc_original t),
      tc_replacement := set_to (transform_single t k) v time (tc_replacement t)\<rparr>)"
    unfolding mirrors_def using inj eq s by (auto simp: inj_eq)
  then show ?thesis using s by (simp add: trans_set_def trans_set_fn_def)
qed

lemma trans_delete_mirrors:
  assumes "mirrors t"
  shows "\<exists>t'. trans_delete ops k t = Inr t' \<and> mirrors t' \<and> look (tc_original t') = (look (tc_original t))(k := CNone)"
proof -
  have inj: "inj (transform_single t)" and v: "valid (tc_original t)" "valid (tc_replacement t)"
    and eq: "\<And>k. look (tc_replacement t) (transform_single t k) = look (tc_original t) k"
    using assms by (auto simp: mirrors_def)
  note d = delete_from [OF v(1)] delete_from [OF v(2)]
  have "mirrors (t\<lparr>tc_original := delete_from k (tc_original t),
      tc_replacement := delete_from (transform_single t k) (tc_replacement t)\<rparr>)"
    unfolding mirrors_def using inj eq d by (auto simp: inj_eq)
  then show ?thesis using d by (simp add: trans_delete_def trans_set_fn_def)
qed

end

subsection \<open>The local cache and memcached as working caches\<close>

text \<open>The documented behaviour of a memcached client whose servers answer.\<close>

locale memcached =
  fixes mc :: "'m mc_client" and stored :: "'m \<Rightarrow> string \<Rightarrow> cval"
  assumes client_get: "mc_get mc k m = Inr (stored m k)"
    and client_set: "v \<noteq> CNone \<Longrightarrow> 0 \<le> t \<Longrightarrow>
      \<exists>m'. mc_set mc k v t m = Inr (m', True) \<and> stored m' = (stored m)(k := v)"
    and client_delete: "\<exists>m' b. mc_delete mc k m = Inr (m', b) \<and> stored m' = (stored m)(k := CNone)"
    and client_add: "v \<noteq> CNone \<Longrightarrow> 0 \<le> t \<Longrightarrow>
      (if stored m k = CNone then \<exists>m'. mc_add mc k v t m = Inr (m', True) \<and> stored m' = (stored m)(k := v)
       else mc_add mc k v t m = Inl DataExists \<or> mc_add mc k v t m = Inr (m, False))"
    and client_incr: "stored m k = CInt n \<Longrightarrow>
      \<exists>m'. mc_incr mc k d m = Inr (m', n + d) \<and> stored m' = (stored m)(k := CInt (n + d))"
    and client_incr_missing: "stored m k = CNone \<Longrightarrow> mc_incr mc k d m = Inl NotFound"

lemma local_get_set: "v \<noteq> CNone \<Longrightarrow> local_get k' CNone (local_set k v d) = (if k' = k then v else local_get k' CNone d)"
  by (simp add: local_get_def local_set_def)

lemma local_get_delete: "local_get k' CNone (local_delete k d) = (if k' = k then CNone else local_get k' CNone d)"
  by (auto simp: local_get_def local_delete_def split: option.splits)

sublocale memcached \<subseteq> links: kv_cache "link_ops mc" "link_look stored" "\<lambda>_. True"
proof
  fix c k and v :: cval and t :: int
  show "op_get (link_ops mc) k c = Inr (link_look stored c k)"
    by (cases c) (auto simp: link_ops_def link_look_def cm_get_def client_get)
  show "\<exists>c'. op_set (link_ops mc) k v t c = Inr c' \<and> True \<and> link_look stored c' = (link_look stored c)(k := v) \<and>
      op_is_local (link_ops mc) c' = op_is_local (link_ops mc) c" if vt: "v \<noteq> CNone" "0 \<le> t"
  proof (cases c)
    case (LocalLink d)
    then show ?thesis using vt by (auto simp: link_ops_def link_look_def local_get_set fun_eq_iff)
  next
    case (McLink m)
    obtain m' where "mc_set mc k v t m = Inr (m', True)" "stored m' = (stored m)(k := v)"
      using client_set [OF vt] by blast
    then show ?thesis using McLink vt
      by (auto simp: link_ops_def link_look_def mcrouter_set_def cm_set_def fun_eq_iff)
  qed
  show "\<exists>c'. op_delete (link_ops mc) k c = Inr c' \<and> True \<and> link_look stored c' = (link_look stored c)(k := CNone) \<and>
      op_is_local (link_ops mc) c' = op_is_local (link_ops mc) c"
  proof (cases c)
    case (LocalLink d)
    then show ?thesis by (auto simp: link_ops_def link_look_def local_get_delete fun_eq_iff)
  next
    case (McLink m)
    obtain m' b where "mc_delete mc k m = Inr (m', b)" "stored m' = (stored m)(k := CNone)"
      using client_delete by blast
    then show ?thesis using McLink by (auto simp: link_ops_def link_look_def cm_delete_def fun_eq_iff)
  qed
qed

context memcached
begin

lemma chain_links: "kv_cache (link_ops mc) (link_look stored) (\<lambda>_. True)"
  by unfold_locales

end

text \<open>
  A client over a dictionary in the process, as test setups use it: the operations of \<open>LocalCache\<close>,
  with the exceptions of pylibmc.
\<close>

definition dict_client :: "local_cache mc_client" where
  "dict_client = \<lparr>
     mc_get = (\<lambda>k d. Inr (local_get k CNone d)),
     mc_get_multi = (\<lambda>ks d. Inr (local_simple_get_multi ks d)),
     mc_set = (\<lambda>k v t d. Inr (local_set k v d, True)),
     mc_set_multi = (\<lambda>kv t d. Inr (local_set_multi kv [] d)),
     mc_add = (\<lambda>k v t d. if local_get k CNone d = CNone then Inr (local_set k v d, True) else Inl DataExists),
     mc_incr = (\<lambda>k delta d. case local_get k CNone d of
         CInt n \<Rightarrow> Inr (local_set k (CInt (n + delta)) d, n + delta)
       | CNone \<Rightarrow> Inl NotFound
       | _ \<Rightarrow> Inl CacheError),
     mc_delete = (\<lambda>k d. Inr (local_delete k d, local_get k CNone d \<noteq> CNone))\<rparr>"

interpretation dc: memcached dict_client "\<lambda>d k. local_get k CNone d"
  by unfold_locales (auto simp: dict_client_def local_get_set local_get_delete fun_eq_iff)

subsection \<open>Properties\<close>

text \<open>
  (C2) A cache chain of local caches in front of memcached is transparent. As long as the chain
  agrees with its last cache, \<open>get\<close> answers with what memcached holds (or the default), keeps the
  agreement and leaves memcached alone; \<open>set\<close> and \<open>delete\<close> reach memcached and keep the agreement.
\<close>

theorem cache_chain_transparent:
  assumes "memcached mc stored" and "chain_agrees (link_look stored) (cs @ [McLink m])"
    and "v \<noteq> CNone" "0 \<le> t"
  shows "(\<exists>cs'. chain_get (link_ops mc) neg al k dflt (cs @ [McLink m]) = Inr (answer dflt (stored m k), cs') \<and>
          chain_agrees (link_look stored) cs' \<and> last cs' = McLink m) \<and>
    (\<exists>cs'. chain_set (link_ops mc) k v t (cs @ [McLink m]) = Inr cs' \<and>
          chain_agrees (link_look stored) cs' \<and> link_look stored (last cs') = (stored m)(k := v)) \<and>
    (\<exists>cs'. chain_delete (link_ops mc) k (cs @ [McLink m]) = Inr cs' \<and>
          chain_agrees (link_look stored) cs' \<and> link_look stored (last cs') = (stored m)(k := CNone))"
proof -
  have kv: "kv_cache (link_ops mc) (link_look stored) (\<lambda>_. True)" using memcached.chain_links [OF assms(1)] .
  have ag: "kv_cache.agrees (link_look stored) (\<lambda>_. True) xs = chain_agrees (link_look stored) xs" for xs
    using kv_cache.agrees_def [OF kv] by simp
  have lk: "link_look stored (McLink m) = stored m" by (rule ext) (simp add: link_look_def)
  have nl: "\<not> op_is_local (link_ops mc) (McLink m)" by (simp add: link_ops_def)
  show ?thesis
    using kv_cache.chain_get_agrees [OF kv, unfolded ag, OF assms(2), of al neg k dflt]
      kv_cache.chain_set_agrees [OF kv, unfolded ag, OF assms(2,3,4), of k]
      kv_cache.chain_delete_agrees [OF kv, unfolded ag, OF assms(2), of k] nl
    by (simp add: lk)
qed

theorem cache_chain_transparent_witness:
  "\<exists>cs'. chain_get (link_ops dict_client) False True ''k'' CNone [LocalLink [], McLink [(''k'', CInt 3)]]
     = Inr (CInt 3, cs') \<and> chain_agrees (link_look (\<lambda>d k. local_get k CNone d)) cs' \<and> last cs' = McLink [(''k'', CInt 3)]"
  using cache_chain_transparent [OF dc.memcached_axioms, of "[LocalLink []]" "[(''k'', CInt 3)]" "CInt 1" 0
      False True "''k''" CNone]
  by (simp add: chain_agrees_def link_look_def local_get_def answer_def)

text \<open>
  Moving keys to a new cluster with \<open>TransitionalCache\<close>: while the new cluster mirrors the old
  one and the renaming of keys is injective, reads give the same answer whichever cluster they are
  sent to, and writes and deletes through the chain keep the mirror.
\<close>

definition trans_mirror :: "('m \<Rightarrow> string \<Rightarrow> cval) \<Rightarrow> 'm link transitional \<Rightarrow> bool" where
  "trans_mirror stored t \<longleftrightarrow> inj (transform_single t) \<and>
     (\<forall>k. link_look stored (tc_replacement t) (transform_single t k) = link_look stored (tc_original t) k)"

lemma transitional_cut_over:
  assumes "memcached mc stored" "trans_mirror stored t" "v \<noteq> CNone" "0 \<le> time"
  shows "trans_get (link_ops mc) k (t\<lparr>tc_read_original := True\<rparr>) = trans_get (link_ops mc) k (t\<lparr>tc_read_original := False\<rparr>) \<and>
    (\<exists>t'. trans_set (link_ops mc) k v time t = Inr t' \<and> trans_mirror stored t' \<and>
       link_look stored (tc_original t') = (link_look stored (tc_original t))(k := v)) \<and>
    (\<exists>t'. trans_delete (link_ops mc) k t = Inr t' \<and> trans_mirror stored t' \<and>
       link_look stored (tc_original t') = (link_look stored (tc_original t))(k := CNone))"
proof -
  have kv: "kv_cache (link_ops mc) (link_look stored) (\<lambda>_. True)" using memcached.chain_links [OF assms(1)] .
  have mi: "kv_cache.mirrors (link_look stored) (\<lambda>_. True) t = trans_mirror stored t" for t
    using kv_cache.mirrors_def [OF kv] by (simp add: trans_mirror_def)
  have tr: "trans_mirror stored (t\<lparr>tc_read_original := b\<rparr>)" for b
    using assms(2) by (simp add: trans_mirror_def transform_single_def [abs_def])
  show ?thesis
    using kv_cache.trans_get_mirrors [OF kv, unfolded mi, OF tr] kv_cache.trans_set_mirrors [OF kv, unfolded mi, OF assms(2-4)]
      kv_cache.trans_delete_mirrors [OF kv, unfolded mi, OF assms(2)]
    by simp
qed

definition sample_transitional :: "local_cache link transitional" where
  "sample_transitional = \<lparr>tc_original = McLink [(''a_1'', CInt 7)], tc_replacement = McLink [(''new:a_1'', CInt 7)],
     tc_read_original = True, tc_key_transform = Some (\<lambda>k p. (p, ''new:'' @ k))\<rparr>"

end
