(* ===== verification/RateLimit.thy ===== *)
theory RateLimit
  imports Cache
begin

section \<open>Rate limits\<close>

text \<open>
  Models \<open>r2/lib/ratelimit.py\<close>: usage counters per time slice, kept in the chain
  \<open>g.ratelimitcache\<close> (a local cache in front of Mcrouter, \<open>app_globals.py\<close>). Each reading of the
  clock is an argument. \<open>epoch_str\<close> is the platform's \<open>strftime('%s', gmtime(t))\<close>.
\<close>

record time_slice =
  beginning :: int
  ending :: int

definition remaining :: "int \<Rightarrow> time_slice \<Rightarrow> int" where
  "remaining now ts = ending ts - now"

definition two_digits :: "int \<Rightarrow> string" where
  "two_digits n = (if n < 10 then ''0'' else []) @ py_str_int n"

text \<open>\<open>strftime('%H%M%S', gmtime(t))\<close>.\<close>

definition hms :: "int \<Rightarrow> string" where
  "hms t = two_digits (t mod 86400 div 3600) @ two_digits (t mod 3600 div 60) @ two_digits (t mod 60)"

definition make_ratelimit_cache_key :: "(int \<Rightarrow> string) \<Rightarrow> string \<Rightarrow> time_slice \<Rightarrow> string" where
  "make_ratelimit_cache_key epoch_str key_prefix ts =
     ''rl:'' @ key_prefix @
     (if 86400 \<le> ending ts - beginning ts then ''-@'' @ epoch_str (beginning ts) else ''-'' @ hms (beginning ts))"

definition get_timeslice :: "int \<Rightarrow> int \<Rightarrow> time_slice result" where
  "get_timeslice now slice_seconds =
     (if slice_seconds = 0 then Inl ZeroDivisionError
      else let slice_start = now div slice_seconds * slice_seconds in
        Inr \<lparr>beginning = slice_start, ending = slice_start + slice_seconds\<rparr>)"

text \<open>\<open>except pylibmc.Error as e: raise RatelimitError(e)\<close>.\<close>

definition wrap_error :: "py_error \<Rightarrow> py_error" where
  "wrap_error e = (if e \<in> {NotFound, DataExists, CacheError} then RatelimitError else e)"

definition wrapped :: "'a result \<Rightarrow> 'a result" where
  "wrapped r = (case r of Inl e \<Rightarrow> Inl (wrap_error e) | Inr x \<Rightarrow> Inr x)"

text \<open>
  \<open>now\<close> is the time when the remaining time is computed, \<open>now2\<close> the time after an eviction. The
  state is returned with the count.
\<close>

definition record_usage ::
    "'m mc_client \<Rightarrow> (int \<Rightarrow> string) \<Rightarrow> string \<Rightarrow> time_slice \<Rightarrow> int \<Rightarrow> int \<Rightarrow> 'm link list
     \<Rightarrow> (cval \<times> 'm link list) result" where
  "record_usage mc epoch_str key_prefix ts now now2 cs =
     (let key = make_ratelimit_cache_key epoch_str key_prefix ts; ops = link_ops mc in
      wrapped (
        bindr (chain_add ops key (CInt 0) (remaining now ts) cs) (\<lambda>(cs1, _).
        case chain_incr ops key 1 cs1 of
          (cs2, Inr n) \<Rightarrow> Inr (n, cs2)
        | (cs2, Inl NotFound) \<Rightarrow>
            if now2 < ending ts then
              bindr (chain_add ops key (CInt 1) (ending ts - now2 + 1) cs2) (\<lambda>(cs3, _). Inr (CInt 1, cs3))
            else Inr (CInt 1, cs2)
        | (cs2, Inl e) \<Rightarrow> Inl e)))"

text \<open>
  \<open>record_usage_multi\<close>. \<open>incr_multi\<close> is the chain's operation on all the keys. After an eviction the
  loop variable \<open>time_slice\<close> of the first loop is still bound to the last slice; when that slice is
  over, \<open>recent_usage\<close> has no value.
\<close>

fun add_all :: "'m mc_client \<Rightarrow> (string \<times> time_slice) list \<Rightarrow> int \<Rightarrow> 'm link list \<Rightarrow> 'm link list result" where
  "add_all mc [] now cs = Inr cs"
| "add_all mc ((key, ts) # rest) now cs =
     bindr (chain_add (link_ops mc) key (CInt 0) (ending ts - now + 1) cs) (\<lambda>(cs', _). add_all mc rest now cs')"

fun readd_all ::
    "'m mc_client \<Rightarrow> (string \<times> time_slice) list \<Rightarrow> int \<Rightarrow> cval list \<Rightarrow> 'm link list \<Rightarrow> (cval list \<times> 'm link list) result" where
  "readd_all mc [] now usage cs = Inr (usage, cs)"
| "readd_all mc ((key, ts) # rest) now usage cs =
     bindr (chain_add (link_ops mc) key (CInt 1) (ending ts - now + 1) cs) (\<lambda>(cs1, added).
       if added = CInt 1 then readd_all mc rest now (usage @ [CInt 1]) cs1
       else bindr (chain_get (link_ops mc) False True key CNone cs1) (\<lambda>(v, cs2).
         readd_all mc rest now (usage @ [v]) cs2))"

definition record_usage_multi ::
    "'m mc_client \<Rightarrow> (string list \<Rightarrow> 'm link list \<Rightarrow> 'm link list \<times> cval list result) \<Rightarrow> (int \<Rightarrow> string)
     \<Rightarrow> (string \<times> time_slice) list \<Rightarrow> int \<Rightarrow> int \<Rightarrow> 'm link list \<Rightarrow> (cval list \<times> 'm link list) result" where
  "record_usage_multi mc incr_multi epoch_str prefix_slices now now2 cs =
     (let keyed = map (\<lambda>(p, ts). (make_ratelimit_cache_key epoch_str p ts, ts)) prefix_slices in
      wrapped (
        bindr (add_all mc keyed now cs) (\<lambda>cs1.
        case incr_multi (map fst keyed) cs1 of
          (cs2, Inr recent_usage) \<Rightarrow> Inr (recent_usage, cs2)
        | (cs2, Inl NotFound) \<Rightarrow>
            if keyed = [] then Inl (UnboundLocalError ''time_slice'')
            else if now2 < ending (snd (last keyed)) then readd_all mc keyed now2 [] cs2
            else Inl (UnboundLocalError ''recent_usage'')
        | (cs2, Inl e) \<Rightarrow> Inl e)))"

definition get_usage ::
    "'m mc_client \<Rightarrow> (int \<Rightarrow> string) \<Rightarrow> string \<Rightarrow> time_slice \<Rightarrow> 'm link list \<Rightarrow> (cval \<times> 'm link list) result" where
  "get_usage mc epoch_str key_prefix ts cs =
     (case chain_get (link_ops mc) False True (make_ratelimit_cache_key epoch_str key_prefix ts) CNone cs of
        Inr r \<Rightarrow> Inr r
      | Inl NotFound \<Rightarrow> Inr (CInt 0, cs)
      | Inl e \<Rightarrow> Inl (wrap_error e))"

definition get_usage_multi ::
    "'m mc_client \<Rightarrow> (int \<Rightarrow> string) \<Rightarrow> (string \<times> time_slice) list \<Rightarrow> 'm link list \<Rightarrow> (cval list \<times> 'm link list) result" where
  "get_usage_multi mc epoch_str prefix_slices cs =
     (let keys = map (\<lambda>(p, ts). make_ratelimit_cache_key epoch_str p ts) prefix_slices in
      wrapped (bindr (chain_simple_get_multi (link_ops mc) False True keys cs) (\<lambda>(vals, cs').
        Inr (map (\<lambda>k. case map_of vals k of None \<Rightarrow> CInt 0 | Some v \<Rightarrow> v) keys, cs'))))"

subsection \<open>\<open>RateLimit\<close>\<close>

text \<open>
  \<open>rl_event\<close> is the event type that is sent to the statistics, or \<open>None\<close> for \<open>SimpleRateLimit\<close>, which
  sends none. Events are returned in order.
\<close>

record rate_limit =
  rl_key :: string
  rl_limit :: int
  rl_seconds :: int
  rl_event :: "string option"

definition record_event :: "rate_limit \<Rightarrow> string \<Rightarrow> string \<Rightarrow> string list" where
  "record_event rl before after = (case rl_event rl of None \<Rightarrow> [] | Some t \<Rightarrow> [before @ t @ after])"

definition simple_rate_limit :: "string \<Rightarrow> int \<Rightarrow> int \<Rightarrow> rate_limit" where
  "simple_rate_limit name seconds limit = \<lparr>rl_key = name, rl_limit = limit, rl_seconds = seconds, rl_event = None\<rparr>"

text \<open>\<open>usage is None or usage < self.limit\<close>; in Python 2 a string is greater than every number.\<close>

definition below_limit :: "rate_limit \<Rightarrow> cval \<Rightarrow> bool" where
  "below_limit rl usage = (case usage of CNone \<Rightarrow> True | CInt n \<Rightarrow> n < rl_limit rl | _ \<Rightarrow> False)"

definition check_usage :: "rate_limit \<Rightarrow> cval \<Rightarrow> bool \<times> string list" where
  "check_usage rl usage =
     (below_limit rl usage,
      record_event rl ''check_'' [] @ (if below_limit rl usage then [] else record_event rl [] ''_limit_hit''))"

definition rl_check ::
    "'m mc_client \<Rightarrow> (int \<Rightarrow> string) \<Rightarrow> rate_limit \<Rightarrow> int \<Rightarrow> 'm link list \<Rightarrow> (bool \<times> 'm link list) result" where
  "rl_check mc epoch_str rl now cs =
     bindr (get_timeslice now (rl_seconds rl)) (\<lambda>ts.
     bindr (get_usage mc epoch_str (rl_key rl) ts cs) (\<lambda>(usage, cs').
       Inr (fst (check_usage rl usage), cs')))"

definition rl_check_multi ::
    "'m mc_client \<Rightarrow> (int \<Rightarrow> string) \<Rightarrow> rate_limit list \<Rightarrow> int \<Rightarrow> 'm link list \<Rightarrow> (bool \<times> 'm link list) result" where
  "rl_check_multi mc epoch_str rls now cs =
     bindr (mapr (\<lambda>rl. bindr (get_timeslice now (rl_seconds rl)) (\<lambda>ts. Inr (rl_key rl, ts))) rls) (\<lambda>prefix_slices.
     bindr (get_usage_multi mc epoch_str prefix_slices cs) (\<lambda>(usage, cs').
       Inr (list_all (\<lambda>(u, rl). fst (check_usage rl u)) (zip usage rls), cs')))"

definition rl_record_usage ::
    "'m mc_client \<Rightarrow> (int \<Rightarrow> string) \<Rightarrow> rate_limit \<Rightarrow> int \<Rightarrow> int \<Rightarrow> int \<Rightarrow> 'm link list \<Rightarrow> (cval \<times> 'm link list) result" where
  "rl_record_usage mc epoch_str rl now now1 now2 cs =
     bindr (get_timeslice now (rl_seconds rl)) (\<lambda>ts. record_usage mc epoch_str (rl_key rl) ts now1 now2 cs)"

definition record_and_check ::
    "'m mc_client \<Rightarrow> (int \<Rightarrow> string) \<Rightarrow> rate_limit \<Rightarrow> int \<Rightarrow> int \<Rightarrow> int \<Rightarrow> int \<Rightarrow> 'm link list \<Rightarrow> (bool \<times> 'm link list) result" where
  "record_and_check mc epoch_str rl now now1 now2 now3 cs =
     bindr (rl_record_usage mc epoch_str rl now now1 now2 cs) (\<lambda>(_, cs').
       rl_check mc epoch_str rl now3 cs')"

subsection \<open>Lemmas\<close>

text \<open>The count a cache holds for a key, when it holds one.\<close>

definition holds_count :: "cval \<Rightarrow> int \<Rightarrow> bool" where
  "holds_count v n \<longleftrightarrow> v = CInt n \<or> v = CNone \<and> n = 0"

lemma mc_add_count:
  assumes "memcached mc stored" "holds_count (stored m k) n" "0 \<le> t"
  shows "\<exists>m1 r. op_add (link_ops mc) k (CInt 0) t (McLink m) = Inr (McLink m1, r) \<and>
    stored m1 = (stored m)(k := CInt n)"
proof (cases "stored m k")
  case CNone
  then obtain m1 where "mc_add mc k (CInt 0) t m = Inr (m1, True)" "stored m1 = (stored m)(k := CInt 0)"
    using memcached.client_add [OF assms(1), of "CInt 0" t m k] assms(3) by auto
  then show ?thesis using assms(2,3) CNone by (simp add: link_ops_def cm_add_def holds_count_def)
next
  case (CInt x)
  then have n: "x = n" using assms(2) by (simp add: holds_count_def)
  have "mc_add mc k (CInt 0) t m = Inl DataExists \<or> mc_add mc k (CInt 0) t m = Inr (m, False)"
    using memcached.client_add [OF assms(1), of "CInt 0" t m k] assms(3) CInt by auto
  then show ?thesis using assms(3) CInt n by (auto simp: link_ops_def cm_add_def fun_upd_idem)
qed (use assms(2) in \<open>simp_all add: holds_count_def\<close>)

lemma local_add_incr:
  assumes "map_of d k = None \<and> l = 0 \<or> map_of d k = Some (CInt l)"
  shows "\<exists>d1 r d2. op_add (link_ops mc) k (CInt 0) t (LocalLink d) = Inr (LocalLink d1, r) \<and>
    op_incr (link_ops mc) k 1 (LocalLink d1) = Inr (LocalLink d2, CNone) \<and> map_of d2 k = Some (CInt (l + 1))"
  using assms by (auto simp: link_ops_def local_add_def local_incr_def cval_int_def)

text \<open>Recording a usage, with memcached up and the slice not over when the time left is computed.\<close>

lemma record_usage_counts:
  assumes mc: "memcached mc stored" and key: "k = make_ratelimit_cache_key ep p ts"
    and n: "holds_count (stored m k) n" and t: "0 \<le> remaining now ts"
    and l: "map_of d k = None \<and> l = 0 \<or> map_of d k = Some (CInt l)"
  shows "\<exists>d2 m2. record_usage mc ep p ts now now2 [LocalLink d, McLink m]
      = Inr (CInt (n + 1), [LocalLink d2, McLink m2]) \<and>
    map_of d2 k = Some (CInt (l + 1)) \<and> stored m2 = (stored m)(k := CInt (n + 1))"
proof -
  obtain m1 r1 where m1: "op_add (link_ops mc) k (CInt 0) (remaining now ts) (McLink m) = Inr (McLink m1, r1)"
    "stored m1 = (stored m)(k := CInt n)"
    using mc_add_count [OF mc n t] by blast
  obtain m2 where m2: "mc_incr mc k 1 m1 = Inr (m2, n + 1)" "stored m2 = (stored m)(k := CInt (n + 1))"
    using memcached.client_incr [OF mc, of m1 k n 1] m1(2) by auto
  obtain d1 r d2 where d: "op_add (link_ops mc) k (CInt 0) (remaining now ts) (LocalLink d) = Inr (LocalLink d1, r)"
    "op_incr (link_ops mc) k 1 (LocalLink d1) = Inr (LocalLink d2, CNone)" "map_of d2 k = Some (CInt (l + 1))"
    using local_add_incr [OF l] by blast
  have "op_incr (link_ops mc) k 1 (McLink m1) = Inr (McLink m2, CInt (n + 1))"
    using m2(1) by (simp add: link_ops_def cm_incr_def)
  then show ?thesis
    using m1 m2 d by (simp add: record_usage_def key [symmetric] chain_add_def chain_incr_def wrapped_def Let_def)
qed

lemma get_usage_local:
  assumes "map_of d (make_ratelimit_cache_key ep p ts) = Some (CInt l)"
  shows "get_usage mc ep p ts [LocalLink d, McLink m] = Inr (CInt l, [LocalLink d, McLink m])"
  using assms by (simp add: get_usage_def chain_get_def link_ops_def local_get_def)

lemma get_usage_remote:
  assumes "memcached mc stored" "map_of d (make_ratelimit_cache_key ep p ts) = None"
    and "holds_count (stored m (make_ratelimit_cache_key ep p ts)) n"
  shows "\<exists>u cs'. get_usage mc ep p ts [LocalLink d, McLink m] = Inr (u, cs') \<and> holds_count u n"
  using assms memcached.client_get [OF assms(1)]
  by (auto simp: get_usage_def chain_get_def link_ops_def local_get_def cm_get_def holds_count_def)

lemma get_timeslice_bounds:
  assumes "0 < s" "get_timeslice now s = Inr ts"
  shows "beginning ts \<le> now" "now < ending ts" "ending ts = beginning ts + s" "beginning ts mod s = 0"
proof -
  have ts: "beginning ts = now div s * s" "ending ts = now div s * s + s"
    using assms by (auto simp: get_timeslice_def Let_def)
  have "now div s * s + now mod s = now" "0 \<le> now mod s" "now mod s < s" using assms(1) by simp_all
  then show "beginning ts \<le> now" "now < ending ts" using ts by linarith+
  show "ending ts = beginning ts + s" "beginning ts mod s = 0" using ts by simp_all
qed

lemma get_timeslice_same:
  assumes "0 < s" "get_timeslice now s = Inr ts" "beginning ts \<le> now'" "now' < ending ts"
  shows "get_timeslice now' s = Inr ts"
proof -
  have ts: "beginning ts = now div s * s" "ending ts = now div s * s + s"
    using assms(1,2) by (auto simp: get_timeslice_def Let_def)
  have "now' div s = now div s"
    using assms(3,4) ts by (intro int_div_pos_eq [of _ _ _ "now' - now div s * s"]) (auto simp: algebra_simps)
  then show ?thesis using assms(1,2) by (simp add: get_timeslice_def)
qed

lemma two_digits_chars:
  assumes "0 \<le> n" "n < 100"
  shows "\<exists>x y. two_digits n = [x, y] \<and> char_digit x = Some (nat n div 10) \<and> char_digit y = Some (nat n mod 10)"
proof (cases "n < 10")
  case True
  then have "nat n < 10" "nat n div 10 = 0" "nat n mod 10 = nat n" using assms by auto
  moreover have "char_digit CHR ''0'' = Some 0" by (simp add: char_digit_def)
  ultimately show ?thesis using True assms by (simp add: two_digits_def py_str_int_def digits_of.simps)
next
  case False
  then have "nat n div 10 < 10" "\<not> nat n < 10" using assms by auto
  then show ?thesis using False assms
    by (simp add: two_digits_def py_str_int_def digits_of.simps [of "nat n"] digits_of.simps [of "nat n div 10"])
qed

lemma two_digits_inj:
  assumes "two_digits a @ x = two_digits b @ y" "0 \<le> a" "a < 100" "0 \<le> b" "b < 100"
  shows "a = b \<and> x = y"
proof -
  obtain c d where c: "two_digits a = [c, d]" "char_digit c = Some (nat a div 10)" "char_digit d = Some (nat a mod 10)"
    using two_digits_chars [OF assms(2,3)] by blast
  obtain e f where e: "two_digits b = [e, f]" "char_digit e = Some (nat b div 10)" "char_digit f = Some (nat b mod 10)"
    using two_digits_chars [OF assms(4,5)] by blast
  have "nat a div 10 = nat b div 10" "nat a mod 10 = nat b mod 10" "x = y"
    using assms(1) c e by auto
  then have "nat a = nat b" by (metis div_mult_mod_eq)
  then show ?thesis using assms \<open>x = y\<close> by simp
qed

lemma hms_inj:
  assumes "hms a = hms b" "a div 86400 = b div 86400"
  shows "a = b"
proof -
  let ?h = "\<lambda>t :: int. t mod 86400 div 3600" and ?m = "\<lambda>t :: int. t mod 3600 div 60" and ?s = "\<lambda>t :: int. t mod 60"
  have bnd: "0 \<le> ?h t" "?h t < 100" "0 \<le> ?m t" "?m t < 100" "0 \<le> ?s t" "?s t < 100" for t by simp_all
  have h: "?h a = ?h b \<and> two_digits (?m a) @ two_digits (?s a) = two_digits (?m b) @ two_digits (?s b)"
    using assms(1) bnd(1,2) unfolding hms_def by (intro two_digits_inj)
  then have m: "?m a = ?m b \<and> two_digits (?s a) = two_digits (?s b)"
    using bnd(3,4) by (intro two_digits_inj) auto
  then have "?s a = ?s b \<and> ([] :: string) = []"
    using bnd(5,6) by (intro two_digits_inj) auto
  with h m have "?h a = ?h b" "?m a = ?m b" "?s a = ?s b" by blast+
  moreover have "t = 86400 * (t div 86400) + (3600 * ?h t + (60 * ?m t + ?s t))" for t
  proof -
    have "t mod 86400 mod 3600 = t mod 3600" "t mod 3600 mod 60 = t mod 60"
      by (simp_all add: mod_mod_cancel)
    moreover have "86400 * (t div 86400) + t mod 86400 = t"
      "3600 * (t mod 86400 div 3600) + t mod 86400 mod 3600 = t mod 86400"
      "60 * (t mod 3600 div 60) + t mod 3600 mod 60 = t mod 3600" by (simp_all only: mult_div_mod_eq)
    ultimately show ?thesis by linarith
  qed
  ultimately show ?thesis using assms(2) by metis
qed

subsection \<open>Properties\<close>

text \<open>
  Time slices tile the time line: a positive slice width gives a slice that holds the current
  time, starts at a multiple of the width, and is the same for every moment inside it; and within a
  day the cache keys of two slices of the same limit differ unless the slices start together.
\<close>

lemma ratelimit_slices:
  assumes "0 < s" "get_timeslice now s = Inr ts" "get_timeslice now' s = Inr ts'"
  shows "beginning ts \<le> now \<and> now < ending ts \<and> ending ts = beginning ts + s \<and> beginning ts mod s = 0 \<and>
    (beginning ts \<le> now' \<and> now' < ending ts \<longrightarrow> ts' = ts) \<and>
    (s < 86400 \<and> beginning ts div 86400 = beginning ts' div 86400 \<and>
     make_ratelimit_cache_key ep p ts = make_ratelimit_cache_key ep p ts' \<longrightarrow> beginning ts = beginning ts')"
proof -
  note b = get_timeslice_bounds [OF assms(1,2)] get_timeslice_bounds [OF assms(1,3)]
  have "ts' = ts" if "beginning ts \<le> now'" "now' < ending ts"
    using get_timeslice_same [OF assms(1,2) that] assms(3) by simp
  moreover have "beginning ts = beginning ts'" if "s < 86400" "beginning ts div 86400 = beginning ts' div 86400"
      "make_ratelimit_cache_key ep p ts = make_ratelimit_cache_key ep p ts'"
    using that b hms_inj by (auto simp: make_ratelimit_cache_key_def)
  ultimately show ?thesis using b by blast
qed

text \<open>
  Recording a usage counts it in memcached: when memcached is up, the limit's key holds a count
  or nothing and the slice is not over, \<open>record_usage\<close> returns the stored count plus one and stores it;
  and a check by a process whose local cache does not hold the key answers whether the stored count
  is below the limit.
\<close>

lemma ratelimit_record_counts:
  assumes "memcached mc stored" "k = make_ratelimit_cache_key ep p ts" "holds_count (stored m k) n"
    and "0 \<le> remaining now ts" "map_of d k = None"
    and "get_timeslice now' (rl_seconds rl) = Inr ts" "rl_key rl = p"
  shows "\<exists>d2 m2. record_usage mc ep p ts now now2 [LocalLink d, McLink m] = Inr (CInt (n + 1), [LocalLink d2, McLink m2]) \<and>
    stored m2 = (stored m)(k := CInt (n + 1)) \<and>
    (\<exists>cs'. rl_check mc ep rl now' [LocalLink [], McLink m2] = Inr (n + 1 < rl_limit rl, cs'))"
proof -
  obtain d2 m2 where r: "record_usage mc ep p ts now now2 [LocalLink d, McLink m] = Inr (CInt (n + 1), [LocalLink d2, McLink m2])"
    "stored m2 = (stored m)(k := CInt (n + 1))"
    using record_usage_counts [OF assms(1-4), of d 0 now2] assms(5) by auto
  have st: "stored m2 k = CInt (n + 1)" using r(2) by simp
  have "op_get (link_ops mc) k (McLink m2) = Inr (CInt (n + 1))" "op_get (link_ops mc) k (LocalLink []) = Inr CNone"
    using memcached.client_get [OF assms(1), of k m2] st
    by (simp_all add: link_ops_def cm_get_def local_get_def)
  then have "\<exists>cs'. get_usage mc ep p ts [LocalLink [], McLink m2] = Inr (CInt (n + 1), cs')"
    by (auto simp: get_usage_def assms(2) [symmetric] chain_get_def) (simp add: link_ops_def)
  then obtain cs' where "get_usage mc ep p ts [LocalLink [], McLink m2] = Inr (CInt (n + 1), cs')" by blast
  then have "rl_check mc ep rl now' [LocalLink [], McLink m2] = Inr (n + 1 < rl_limit rl, cs')"
    using assms(6,7) by (simp add: rl_check_def check_usage_def below_limit_def)
  then show ?thesis using r by blast
qed

definition sample_limit :: rate_limit where
  "sample_limit = simple_rate_limit ''login'' 300 3"

text \<open>
  \<open>record_and_check\<close> does not enforce the limit. Recording puts a fresh counter into the local
  cache in front of memcached, and the check that follows in the same request reads that one: with
  a local cache that does not hold the key, the answer is whether one is below the limit, whatever
  number of usages memcached has counted.
\<close>

lemma record_and_check_ignores_count:
  assumes "memcached mc stored" "0 < rl_seconds rl" "get_timeslice now (rl_seconds rl) = Inr ts"
    and "k = make_ratelimit_cache_key ep (rl_key rl) ts" "holds_count (stored m k) n"
    and "0 \<le> remaining now1 ts" "map_of d k = None" "beginning ts \<le> now3" "now3 < ending ts"
  shows "\<exists>d2 m2. record_and_check mc ep rl now now1 now2 now3 [LocalLink d, McLink m]
      = Inr (1 < rl_limit rl, [LocalLink d2, McLink m2]) \<and> stored m2 k = CInt (n + 1)"
proof -
  obtain d2 m2 where r: "record_usage mc ep (rl_key rl) ts now1 now2 [LocalLink d, McLink m]
      = Inr (CInt (n + 1), [LocalLink d2, McLink m2])"
    "map_of d2 k = Some (CInt 1)" "stored m2 = (stored m)(k := CInt (n + 1))"
    using record_usage_counts [OF assms(1,4,5,6), of d 0 now2] assms(7) by auto
  have "get_timeslice now3 (rl_seconds rl) = Inr ts"
    using get_timeslice_same [OF assms(2,3,8,9)] .
  then have "rl_check mc ep rl now3 [LocalLink d2, McLink m2] = Inr (1 < rl_limit rl, [LocalLink d2, McLink m2])"
    using get_usage_local [of d2 ep "rl_key rl" ts 1 mc m2] r(2) assms(4)
    by (simp add: rl_check_def check_usage_def below_limit_def)
  then show ?thesis using r assms(3) by (simp add: record_and_check_def rl_record_usage_def)
qed

text \<open>
  \<open>record_usage_multi\<close> fails on the rare path it means to handle: when a counter is evicted
  between \<open>add\<close> and \<open>incr\<close> and the last slice has ended meanwhile, it raises
  \<open>UnboundLocalError\<close>, which is not the \<open>RatelimitError\<close> its documentation promises.
\<close>

lemma record_usage_multi_unbound:
  assumes "prefix_slices \<noteq> []" "ending (snd (last prefix_slices)) \<le> now2"
    and "add_all mc (map (\<lambda>(p, ts). (make_ratelimit_cache_key ep p ts, ts)) prefix_slices) now cs = Inr cs1"
    and "incr_multi (map (\<lambda>(p, ts). make_ratelimit_cache_key ep p ts) prefix_slices) cs1 = (cs2, Inl NotFound)"
  shows "record_usage_multi mc incr_multi ep prefix_slices now now2 cs = Inl (UnboundLocalError ''recent_usage'')"
proof -
  define keyed where "keyed = map (\<lambda>(p, ts). (make_ratelimit_cache_key ep p ts, ts)) prefix_slices"
  have k: "map fst keyed = map (\<lambda>(p, ts). make_ratelimit_cache_key ep p ts) prefix_slices"
    "snd (last keyed) = snd (last prefix_slices)" "keyed \<noteq> []"
    using assms(1) by (auto simp: keyed_def last_map split: prod.splits)
  have "add_all mc keyed now cs = Inr cs1" using assms(3) by (simp add: keyed_def)
  then show ?thesis
    unfolding record_usage_multi_def Let_def keyed_def [symmetric]
    using assms(2,4) k by (simp add: wrapped_def wrap_error_def)
qed

end
