(* ===== verification/Lock.thy ===== *)
theory Lock
  imports Prelude
begin

section \<open>Distributed locks\<close>

text \<open>
  Models \<open>r2/lib/lock.py\<close>: \<open>MemcacheLock\<close>, a lock that is a key in memcached with an expiry time. The
  cache is a parameter (\<open>lc_ops\<close>); the locale \<open>lease_cache\<close> states what the lock relies on. Threads of any
  number of processes and the passing of time form the step relation \<open>lock_step\<close>.
\<close>

subsection \<open>The lock object\<close>

text \<open>\<open>(reddit_host, reddit_pid, simple_traceback(limit=7))\<close>.\<close>

type_synonym nonce = "string \<times> int \<times> string"

text \<open>
  The cache as the lock uses it; the time of the call is an argument, since entries expire. \<open>lc_add\<close> may
  raise \<open>MemcachedError\<close> (\<open>CacheError\<close>) and may or may not have stored the entry then.
\<close>

record 's lc_ops =
  lc_add :: "string \<Rightarrow> nonce \<Rightarrow> int \<Rightarrow> int \<Rightarrow> 's \<Rightarrow> 's \<times> bool result"
  lc_get :: "string \<Rightarrow> int \<Rightarrow> 's \<Rightarrow> nonce option"
  lc_delete :: "string \<Rightarrow> int \<Rightarrow> 's \<Rightarrow> 's"

record lock =
  lk_key :: string
  lk_time :: int
  lk_timeout :: int
  have_lock :: bool
  owns_lock :: bool
  lk_nonce :: "nonce option"

definition lock_init :: "string \<Rightarrow> int \<Rightarrow> int \<Rightarrow> lock" where
  "lock_init key time timeout =
     \<lparr>lk_key = key, lk_time = time, lk_timeout = timeout, have_lock = False, owns_lock = False, lk_nonce = None\<rparr>"

text \<open>
  \<open>acquire\<close> up to its loop: \<open>locks\<close> are the keys this thread owns. The Boolean says whether the loop
  is entered.
\<close>

definition acquire_begin :: "nonce \<Rightarrow> string set \<Rightarrow> lock \<Rightarrow> lock \<times> bool" where
  "acquire_begin nonce locks lk =
     (let lk' = lk\<lparr>lk_nonce := Some nonce\<rparr> in
      if lk_key lk \<in> locks then (lk'\<lparr>have_lock := True\<rparr>, False) else (lk', True))"

datatype attempt = Acquired | Retry

text \<open>
  One round of the loop, started at \<open>start\<close>, at time \<open>now\<close>. \<open>timedelta.seconds\<close> is the time difference
  without its days.
\<close>

definition acquire_try ::
    "'s lc_ops \<Rightarrow> lock \<Rightarrow> string set \<Rightarrow> int \<Rightarrow> int \<Rightarrow> 's \<Rightarrow> 's \<times> (attempt \<times> lock \<times> string set) result" where
  "acquire_try ops lk locks start now s =
     (case lk_nonce lk of
        None \<Rightarrow> (s, Inl (AttributeError ''nonce''))
      | Some nonce \<Rightarrow>
          (case lc_add ops (lk_key lk) nonce (lk_time lk) now s of
             (s', r) \<Rightarrow>
               let got = (case r of Inr b \<Rightarrow> b | Inl _ \<Rightarrow> lc_get ops (lk_key lk) now s' = Some nonce) in
               if (case r of Inl e \<Rightarrow> e \<noteq> CacheError | Inr _ \<Rightarrow> False) then (s', map_sum id (\<lambda>_. (Retry, lk, locks)) r)
               else if got
               then (s', Inr (Acquired, lk\<lparr>owns_lock := True, have_lock := True\<rparr>, insert (lk_key lk) locks))
               else if (now - start) mod 86400 > lk_timeout lk then (s', Inl TimeoutExpired)
               else (s', Inr (Retry, lk, locks))))"

definition release :: "'s lc_ops \<Rightarrow> lock \<Rightarrow> string set \<Rightarrow> int \<Rightarrow> 's \<Rightarrow> 's \<times> (lock \<times> string set) result" where
  "release ops lk locks now s =
     (if owns_lock lk then
        let s' = (if lc_get ops (lk_key lk) now s = lk_nonce lk then lc_delete ops (lk_key lk) now s else s) in
        if lk_key lk \<in> locks
        then (s', Inr (lk\<lparr>have_lock := False, owns_lock := False, lk_nonce := None\<rparr>, locks - {lk_key lk}))
        else (s', Inl (KeyError (lk_key lk)))
      else (s, Inr (lk, locks)))"

subsection \<open>Threads\<close>

text \<open>
  Each thread works on one lock object at a time per key; \<open>g_expires\<close> is the end of the lease the
  thread got, which the program does not store. \<open>identity t\<close> is the host and process of thread \<open>t\<close>.
\<close>

type_synonym thread = nat

record 's lock_state =
  g_cache :: 's
  g_now :: int
  g_owner :: "thread \<Rightarrow> string \<Rightarrow> lock option"
  g_locks :: "thread \<Rightarrow> string set"
  g_expires :: "thread \<Rightarrow> string \<Rightarrow> int"

inductive lock_step ::
    "'s lc_ops \<Rightarrow> (thread \<Rightarrow> string \<times> int) \<Rightarrow> 's lock_state \<Rightarrow> 's lock_state \<Rightarrow> bool"
  for ops and identity where
  Tick: "g_now g \<le> now \<Longrightarrow> lock_step ops identity g (g\<lparr>g_now := now\<rparr>)"
| Acquire: "acquire_begin (fst (identity t), snd (identity t), tb) (g_locks g t) (lock_init key time timeout) = (lk, True) \<Longrightarrow>
     0 < time \<Longrightarrow>
     acquire_try ops lk (g_locks g t) start (g_now g) (g_cache g) = (s', Inr (Acquired, lk', locks')) \<Longrightarrow>
     lock_step ops identity g
       (g\<lparr>g_cache := s', g_owner := (g_owner g)(t := (g_owner g t)(key \<mapsto> lk')),
         g_locks := (g_locks g)(t := locks'),
         g_expires := (g_expires g)(t := (g_expires g t)(key := g_now g + time))\<rparr>)"
| Wait: "acquire_begin (fst (identity t), snd (identity t), tb) (g_locks g t) (lock_init key time timeout) = (lk, True) \<Longrightarrow>
     acquire_try ops lk (g_locks g t) start (g_now g) (g_cache g) = (s', Inr (Retry, lk', locks')) \<Longrightarrow>
     lock_step ops identity g (g\<lparr>g_cache := s'\<rparr>)"
| Release: "g_owner g t key = Some lk \<Longrightarrow>
     release ops lk (g_locks g t) (g_now g) (g_cache g) = (s', Inr (lk', locks')) \<Longrightarrow>
     lock_step ops identity g
       (g\<lparr>g_cache := s', g_owner := (g_owner g)(t := (g_owner g t)(key := None)),
         g_locks := (g_locks g)(t := locks')\<rparr>)"

inductive_cases lock_stepE: "lock_step ops identity g g'"

text \<open>A thread holds a lock: it owns the lock object and its lease has not run out.\<close>

definition holds :: "'s lock_state \<Rightarrow> thread \<Rightarrow> string \<Rightarrow> bool" where
  "holds g t key \<longleftrightarrow> g_owner g t key \<noteq> None \<and> g_now g < g_expires g t key"

subsection \<open>What the lock relies on\<close>

locale lease_cache =
  fixes ops :: "'s lc_ops" and lease :: "'s \<Rightarrow> string \<Rightarrow> (nonce \<times> int) option"
  assumes get_lease: "lc_get ops k now s =
      (case lease s k of None \<Rightarrow> None | Some (n, e) \<Rightarrow> if now < e then Some n else None)"
    and add_free: "lc_get ops k now s = None \<Longrightarrow>
      \<exists>s'. lc_add ops k n t now s = (s', Inr True) \<and> lease s' = (lease s)(k \<mapsto> (n, now + t))"
    and add_taken: "lc_get ops k now s \<noteq> None \<Longrightarrow> lc_add ops k n t now s = (s, Inr False)"
    and delete_lease: "lease (lc_delete ops k now s) = (lease s)(k := None)"
begin

definition owner_ok :: "(thread \<Rightarrow> string \<times> int) \<Rightarrow> 's \<Rightarrow> int \<Rightarrow> thread \<Rightarrow> string \<Rightarrow> lock \<Rightarrow> string set \<Rightarrow> int \<Rightarrow> bool" where
  "owner_ok identity cch now t key lk locks e \<longleftrightarrow>
     lk_key lk = key \<and> owns_lock lk \<and> key \<in> locks \<and>
     (\<exists>tb. lk_nonce lk = Some (fst (identity t), snd (identity t), tb)) \<and>
     (now < e \<longrightarrow> lease cch key = Some (the (lk_nonce lk), e))"

definition lock_inv :: "(thread \<Rightarrow> string \<times> int) \<Rightarrow> 's lock_state \<Rightarrow> bool" where
  "lock_inv identity g \<longleftrightarrow> (\<forall>t key lk. g_owner g t key = Some lk \<longrightarrow>
     owner_ok identity (g_cache g) (g_now g) t key lk (g_locks g t) (g_expires g t key))"

lemma lock_invD:
  assumes "lock_inv identity g" "g_owner g t key = Some lk"
  shows "lk_key lk = key" "owns_lock lk" "key \<in> g_locks g t"
    "\<exists>tb. lk_nonce lk = Some (fst (identity t), snd (identity t), tb)"
    "g_now g < g_expires g t key \<Longrightarrow> lease (g_cache g) key = Some (the (lk_nonce lk), g_expires g t key)"
  using assms unfolding lock_inv_def owner_ok_def by blast+

lemma lock_invI:
  assumes "\<And>t key lk. ow t key = Some lk \<Longrightarrow> owner_ok identity c n t key lk (l t) (e t key)"
    and "g_owner g = ow" "g_cache g = c" "g_now g = n" "g_locks g = l" "g_expires g = e"
  shows "lock_inv identity g"
  using assms unfolding lock_inv_def by simp

lemma acquire_try_Acquired:
  assumes "acquire_try ops lk locks start now s = (s', Inr (Acquired, lk', locks'))"
  shows "\<exists>n. lk_nonce lk = Some n \<and> lc_get ops (lk_key lk) now s = None \<and>
    lease s' = (lease s)(lk_key lk \<mapsto> (n, now + lk_time lk)) \<and>
    lk' = lk\<lparr>owns_lock := True, have_lock := True\<rparr> \<and> locks' = insert (lk_key lk) locks"
proof -
  obtain n where n: "lk_nonce lk = Some n"
    using assms by (auto simp: acquire_try_def split: option.splits)
  show ?thesis
  proof (cases "lc_get ops (lk_key lk) now s = None")
    case True
    from add_free [OF this, of n "lk_time lk"] obtain s1 where
      "lc_add ops (lk_key lk) n (lk_time lk) now s = (s1, Inr True)" "lease s1 = (lease s)(lk_key lk \<mapsto> (n, now + lk_time lk))"
      by blast
    then show ?thesis using assms n True by (auto simp: acquire_try_def)
  next
    case False
    then show ?thesis using assms n add_taken [OF False, of n "lk_time lk"]
      by (auto simp: acquire_try_def split: if_splits)
  qed
qed

lemma acquire_try_Retry:
  assumes "acquire_try ops lk locks start now s = (s', Inr (Retry, lk', locks'))" "lk_nonce lk = Some n"
  shows "s' = s"
proof (cases "lc_get ops (lk_key lk) now s = None")
  case True
  then show ?thesis using assms add_free [OF True, of n "lk_time lk"] by (auto simp: acquire_try_def)
next
  case False
  then show ?thesis using assms add_taken [OF False, of n "lk_time lk"]
    by (auto simp: acquire_try_def split: if_splits)
qed

lemma unexpired_taken:
  assumes "lock_inv identity g" "g_owner g t key = Some lk" "g_now g < g_expires g t key"
  shows "lc_get ops key (g_now g) (g_cache g) = lk_nonce lk" "lk_nonce lk \<noteq> None"
  using lock_invD(4,5) [OF assms(1,2)] assms(3) by (auto simp: get_lease)

lemma lock_inv_Acquire:
  assumes inv: "lock_inv identity g"
    and b: "acquire_begin (fst (identity t), snd (identity t), tb) (g_locks g t) (lock_init key time timeout) = (lk, True)"
    and a: "acquire_try ops lk (g_locks g t) start (g_now g) (g_cache g) = (s', Inr (Acquired, lk', locks'))"
  shows "lock_inv identity (g\<lparr>g_cache := s', g_owner := (g_owner g)(t := (g_owner g t)(key \<mapsto> lk')),
         g_locks := (g_locks g)(t := locks'),
         g_expires := (g_expires g)(t := (g_expires g t)(key := g_now g + time))\<rparr>)"
proof -
  have lk: "lk_key lk = key" "lk_time lk = time" "lk_nonce lk = Some (fst (identity t), snd (identity t), tb)"
    using b by (auto simp: acquire_begin_def lock_init_def Let_def split: if_splits)
  from acquire_try_Acquired [OF a] lk have free: "lc_get ops key (g_now g) (g_cache g) = None"
    and l': "lease s' = (lease (g_cache g))(key \<mapsto> ((fst (identity t), snd (identity t), tb), g_now g + time))"
    and lk': "lk' = lk\<lparr>owns_lock := True, have_lock := True\<rparr>" "locks' = insert key (g_locks g t)"
    by auto
  have other: "key' \<noteq> key" if "g_owner g t' key' = Some x" "g_now g < g_expires g t' key'" for t' key' x
    using unexpired_taken [OF inv that] free by auto
  have old: "owner_ok identity s' (g_now g) t' key' x (((g_locks g)(t := locks')) t') (g_expires g t' key')"
    if o': "g_owner g t' key' = Some x" for t' key' x
    using lock_invD [OF inv o'] other [OF o'] l' lk'(2) by (auto simp: owner_ok_def)
  have new: "owner_ok identity s' (g_now g) t key lk' locks' (g_now g + time)"
    using lk lk' l' by (simp add: owner_ok_def)
  show ?thesis
  proof (rule lock_invI)
    fix t' key' x
    assume "((g_owner g)(t := (g_owner g t)(key \<mapsto> lk'))) t' key' = Some x"
    then consider "t' = t" "key' = key" "x = lk'" | "t' \<noteq> t \<or> key' \<noteq> key" "g_owner g t' key' = Some x"
      by (auto split: if_splits)
    then show "owner_ok identity s' (g_now g) t' key' x (((g_locks g)(t := locks')) t')
        (((g_expires g)(t := (g_expires g t)(key := g_now g + time))) t' key')"
      by cases (use new old [of t' key' x] in \<open>auto split: if_splits\<close>)
  qed (simp_all add: fun_upd_def)
qed

lemma lock_inv_Release:
  assumes inv: "lock_inv identity g" and inj: "\<And>t t'. identity t = identity t' \<Longrightarrow> t = t'"
    and o: "g_owner g t key = Some lk"
    and r: "release ops lk (g_locks g t) (g_now g) (g_cache g) = (s', Inr (lk', locks'))"
  shows "lock_inv identity (g\<lparr>g_cache := s', g_owner := (g_owner g)(t := (g_owner g t)(key := None)),
         g_locks := (g_locks g)(t := locks')\<rparr>)"
proof -
  note d = lock_invD [OF inv o]
  have l': "locks' = g_locks g t - {key}"
    and s': "s' = (if lc_get ops key (g_now g) (g_cache g) = lk_nonce lk then lc_delete ops key (g_now g) (g_cache g) else g_cache g)"
    using r d by (auto simp: release_def Let_def split: if_splits)
  have keep: "lease s' key' = lease (g_cache g) key'"
    if o': "g_owner g t' key' = Some x" and e: "g_now g < g_expires g t' key'" and ne: "t' \<noteq> t \<or> key' \<noteq> key" for t' key' x
  proof (cases "key' = key")
    case True
    then have "t' \<noteq> t" using ne by simp
    have "lc_get ops key (g_now g) (g_cache g) = lk_nonce x" using unexpired_taken [OF inv o' e] True by simp
    moreover have "lk_nonce x \<noteq> lk_nonce lk"
      using lock_invD(4) [OF inv o'] d(4) inj \<open>t' \<noteq> t\<close> by (metis option.inject prod.collapse prod.inject)
    ultimately show ?thesis using s' by simp
  next
    case False
    then show ?thesis using s' delete_lease by simp
  qed
  have rest: "owner_ok identity s' (g_now g) t' key' x (((g_locks g)(t := locks')) t') (g_expires g t' key')"
    if o': "g_owner g t' key' = Some x" and ne: "t' \<noteq> t \<or> key' \<noteq> key" for t' key' x
    using lock_invD [OF inv o'] keep [OF o' _ ne] ne l' by (auto simp: owner_ok_def)
  show ?thesis
  proof (rule lock_invI)
    fix t' key' x
    assume "((g_owner g)(t := (g_owner g t)(key := None))) t' key' = Some x"
    then have "g_owner g t' key' = Some x" "t' \<noteq> t \<or> key' \<noteq> key" by (auto split: if_splits)
    then show "owner_ok identity s' (g_now g) t' key' x (((g_locks g)(t := locks')) t') (g_expires g t' key')"
      by (rule rest)
  qed (simp_all add: fun_upd_def)
qed

lemma lock_step_inv:
  assumes "lock_step ops identity g g'" "lock_inv identity g" "\<And>t t'. identity t = identity t' \<Longrightarrow> t = t'"
  shows "lock_inv identity g'"
  using assms(1)
proof cases
  case (Tick now)
  have "lock_inv identity (g\<lparr>g_now := now\<rparr>)"
    using assms(2) Tick(2) by (force simp: lock_inv_def owner_ok_def)
  then show ?thesis using Tick(1) by simp
next
  case (Acquire t tb key time timeout lk start s' lk' locks')
  then show ?thesis using lock_inv_Acquire [OF assms(2)] by blast
next
  case (Wait t tb key time timeout lk start s' lk' locks')
  have "lk_nonce lk \<noteq> None" using Wait(2) by (auto simp: acquire_begin_def Let_def split: if_splits)
  then have "s' = g_cache g" using acquire_try_Retry [OF Wait(3)] by auto
  then show ?thesis using Wait(1) assms(2) by (simp add: lock_inv_def)
next
  case (Release t key lk s' lk' locks')
  then show ?thesis using lock_inv_Release [OF assms(2,3)] by blast
qed

lemma lock_run_inv:
  assumes "(lock_step ops identity)\<^sup>*\<^sup>* g g'" "lock_inv identity g" "\<And>t t'. identity t = identity t' \<Longrightarrow> t = t'"
  shows "lock_inv identity g'"
  using assms(1,2) by (induction rule: rtranclp_induct) (auto intro: lock_step_inv assms(3))

lemma lock_inv_exclusive:
  assumes "lock_inv identity g" "\<And>t t'. identity t = identity t' \<Longrightarrow> t = t'" "holds g t key" "holds g t' key"
  shows "t = t'"
proof -
  obtain x y where x: "g_owner g t key = Some x" "g_now g < g_expires g t key"
    and y: "g_owner g t' key = Some y" "g_now g < g_expires g t' key"
    using assms(3,4) by (auto simp: holds_def)
  have "lk_nonce x = lk_nonce y"
    using unexpired_taken(1) [OF assms(1) x] unexpired_taken(1) [OF assms(1) y] by simp
  then have "identity t = identity t'"
    using lock_invD(4) [OF assms(1) x(1)] lock_invD(4) [OF assms(1) y(1)] by (auto simp: prod_eq_iff)
  then show ?thesis by (rule assms(2))
qed

end

subsection \<open>A lease store\<close>

text \<open>An expiring key-value store in the process: each key with its value and the end of its lease.\<close>

type_synonym lease_store = "(string, nonce \<times> int) dict"

definition lease_get :: "string \<Rightarrow> int \<Rightarrow> lease_store \<Rightarrow> nonce option" where
  "lease_get k now s = (case map_of s k of None \<Rightarrow> None | Some (n, e) \<Rightarrow> if now < e then Some n else None)"

definition lease_ops :: "lease_store lc_ops" where
  "lease_ops = \<lparr>
     lc_add = (\<lambda>k n t now s. if lease_get k now s = None then (AList.update k (n, now + t) s, Inr True) else (s, Inr False)),
     lc_get = lease_get,
     lc_delete = (\<lambda>k now s. AList.delete k s)\<rparr>"

interpretation ls: lease_cache lease_ops map_of
  by unfold_locales (auto simp: lease_ops_def lease_get_def fun_eq_iff split: option.splits)

definition fresh_locks :: "lease_store lock_state" where
  "fresh_locks = \<lparr>g_cache = [], g_now = 0, g_owner = (\<lambda>_ _. None), g_locks = (\<lambda>_. {}), g_expires = (\<lambda>_ _. 0)\<rparr>"

lemma fresh_locks_inv: "ls.lock_inv identity fresh_locks"
  by (simp add: ls.lock_inv_def fresh_locks_def)

text \<open>Acquiring a free lock and releasing one, as functions, to follow concrete runs.\<close>

definition do_acquire :: "(thread \<Rightarrow> string \<times> int) \<Rightarrow> thread \<Rightarrow> string \<Rightarrow> string \<Rightarrow> int \<Rightarrow> lease_store lock_state \<Rightarrow> lease_store lock_state option" where
  "do_acquire identity t tb key time g =
     (case acquire_begin (fst (identity t), snd (identity t), tb) (g_locks g t) (lock_init key time 30) of
        (lk, True) \<Rightarrow> (case acquire_try lease_ops lk (g_locks g t) (g_now g) (g_now g) (g_cache g) of
           (s', Inr (Acquired, lk', locks')) \<Rightarrow> Some
             (g\<lparr>g_cache := s', g_owner := (g_owner g)(t := (g_owner g t)(key \<mapsto> lk')),
               g_locks := (g_locks g)(t := locks'),
               g_expires := (g_expires g)(t := (g_expires g t)(key := g_now g + time))\<rparr>)
         | _ \<Rightarrow> None)
      | _ \<Rightarrow> None)"

definition do_release :: "thread \<Rightarrow> string \<Rightarrow> lease_store lock_state \<Rightarrow> lease_store lock_state option" where
  "do_release t key g =
     (case g_owner g t key of
        None \<Rightarrow> None
      | Some lk \<Rightarrow> (case release lease_ops lk (g_locks g t) (g_now g) (g_cache g) of
           (s', Inr (lk', locks')) \<Rightarrow> Some
             (g\<lparr>g_cache := s', g_owner := (g_owner g)(t := (g_owner g t)(key := None)),
               g_locks := (g_locks g)(t := locks')\<rparr>)
         | _ \<Rightarrow> None))"

lemma do_acquire_step: "do_acquire identity t tb key time g = Some g' \<Longrightarrow> 0 < time \<Longrightarrow> lock_step lease_ops identity g g'"
  unfolding do_acquire_def
  by (auto split: prod.splits bool.splits sum.splits attempt.splits intro!: lock_step.Acquire)

lemma do_release_step: "do_release t key g = Some g' \<Longrightarrow> lock_step lease_ops identity g g'"
  unfolding do_release_def
  by (auto split: option.splits prod.splits sum.splits intro!: lock_step.Release)

subsection \<open>Properties\<close>


definition sample_identity :: "thread \<Rightarrow> string \<times> int" where
  "sample_identity t = (''app-01'', 1000 + int t)"


text \<open>
  Between threads of one process the lock is not exclusive: the nonce names the host, the
  process and the call site but not the thread. When a lease runs out and a second thread of the
  same process takes the lock from the same call site, the first thread's release finds its own
  nonce, deletes the second thread's lock, and a third thread can take it while the second still
  holds it.
\<close>

definition shared_identity :: "thread \<Rightarrow> string \<times> int" where
  "shared_identity t = (if t = 2 then (''app-02'', 7) else (''app-01'', 1000))"

definition stolen_run :: "lease_store lock_state option" where
  "stolen_run =
     Option.bind (do_acquire shared_identity 0 ''tb'' ''vote'' 30 fresh_locks) (\<lambda>g1.
     Option.bind (do_acquire shared_identity 1 ''tb'' ''vote'' 30 (g1\<lparr>g_now := 40\<rparr>)) (\<lambda>g2.
     Option.bind (do_release 0 ''vote'' g2) (\<lambda>g3.
     do_acquire shared_identity 2 ''tb'' ''vote'' 30 g3)))"

lemma lock_stolen_within_process:
  "\<exists>g. (lock_step lease_ops shared_identity)\<^sup>*\<^sup>* fresh_locks g \<and> holds g 1 ''vote'' \<and> holds g 2 ''vote''"
proof -
  have *: "case stolen_run of Some g \<Rightarrow> g_now g < g_expires g 1 ''vote'' \<and> g_owner g 1 ''vote'' \<noteq> None \<and>
      g_now g < g_expires g 2 ''vote'' \<and> g_owner g 2 ''vote'' \<noteq> None \<and> True | None \<Rightarrow> False"
    by code_simp
  then obtain g where g: "stolen_run = Some g" "holds g 1 ''vote''" "holds g 2 ''vote''"
    by (auto simp: holds_def split: option.splits)
  then obtain g1 g2 g3 where r: "do_acquire shared_identity 0 ''tb'' ''vote'' 30 fresh_locks = Some g1"
    "do_acquire shared_identity 1 ''tb'' ''vote'' 30 (g1\<lparr>g_now := 40\<rparr>) = Some g2"
    "do_release 0 ''vote'' g2 = Some g3" "do_acquire shared_identity 2 ''tb'' ''vote'' 30 g3 = Some g"
    by (auto simp: stolen_run_def Option.bind_eq_Some_conv)
  have "g_now g1 = 0"
    using r(1) by (auto simp: do_acquire_def fresh_locks_def split: prod.splits bool.splits sum.splits attempt.splits)
  then have "lock_step lease_ops shared_identity g1 (g1\<lparr>g_now := 40\<rparr>)" by (intro lock_step.Tick) simp
  moreover note do_acquire_step [OF r(1)] do_acquire_step [OF r(2)] do_release_step [OF r(3), of shared_identity]
    do_acquire_step [OF r(4)]
  ultimately have "(lock_step lease_ops shared_identity)\<^sup>*\<^sup>* fresh_locks g"
    by (meson converse_rtranclp_into_rtranclp rtranclp.rtrancl_refl zero_less_numeral)
  then show ?thesis using g(2,3) by blast
qed

end
