(* ===== verification/Permacache.thy ===== *)
theory Permacache
  imports Cache
begin

section \<open>The permacache\<close>

text \<open>
  Models \<open>Permacache\<close> of \<open>r2/lib/cache.py\<close>: a column family in Cassandra with a cache chain in
  front of it. The column family is the finite map \<open>p_cf\<close> from row keys to the unpickled values of the
  column \<open>value\<close>. The lock around \<open>mutate\<close> (\<open>Lock\<close>) makes its read and write one step here.
\<close>

record 'm perma =
  p_caches :: "'m link list"
  p_cf :: "string \<Rightarrow> cval option"

definition backend_get :: "string \<Rightarrow> 'm perma \<Rightarrow> cval" where
  "backend_get key p = (case p_cf p key of None \<Rightarrow> CNone | Some v \<Rightarrow> v)"

definition backend_get_multi :: "string list \<Rightarrow> 'm perma \<Rightarrow> (string, cval) dict" where
  "backend_get_multi keys p =
     fold (\<lambda>k out. case p_cf p k of None \<Rightarrow> out | Some v \<Rightarrow> AList.update k v out) keys []"

definition backend_set :: "string \<Rightarrow> cval \<Rightarrow> 'm perma \<Rightarrow> 'm perma" where
  "backend_set key val p = p\<lparr>p_cf := (p_cf p)(key \<mapsto> val)\<rparr>"

definition backend_set_multi :: "(string, cval) dict \<Rightarrow> string \<Rightarrow> 'm perma \<Rightarrow> 'm perma" where
  "backend_set_multi keys prefix p = fold (\<lambda>(k, v). backend_set (prefix @ k) v) keys p"

definition backend_delete :: "string \<Rightarrow> 'm perma \<Rightarrow> 'm perma" where
  "backend_delete key p = p\<lparr>p_cf := (p_cf p)(key := None)\<rparr>"

text \<open>Python truth of a cached value.\<close>

definition cval_true :: "cval \<Rightarrow> bool" where
  "cval_true v = (case v of CNone \<Rightarrow> False | NoneResult \<Rightarrow> True | CInt n \<Rightarrow> n \<noteq> 0 | CStr s \<Rightarrow> s \<noteq> [])"

text \<open>The argument \<open>default\<close> of \<open>get\<close> is not used by the code.\<close>

definition perma_get :: "'m mc_client \<Rightarrow> string \<Rightarrow> cval \<Rightarrow> bool \<Rightarrow> 'm perma \<Rightarrow> (cval \<times> 'm perma) result" where
  "perma_get mc key dflt allow_local p =
     bindr (chain_get (link_ops mc) False allow_local key CNone (p_caches p)) (\<lambda>(val, cs).
       if val = CNone then
         let val' = backend_get key p in
         if cval_true val' then bindr (chain_set (link_ops mc) key val' 0 cs) (\<lambda>cs'. Inr (val', p\<lparr>p_caches := cs'\<rparr>))
         else Inr (val', p\<lparr>p_caches := cs\<rparr>)
       else Inr (val, p\<lparr>p_caches := cs\<rparr>))"

definition perma_set :: "'m mc_client \<Rightarrow> string \<Rightarrow> cval \<Rightarrow> 'm perma \<Rightarrow> 'm perma result" where
  "perma_set mc key val p =
     bindr (chain_set (link_ops mc) key val 0 (p_caches p)) (\<lambda>cs. Inr ((backend_set key val p)\<lparr>p_caches := cs\<rparr>))"

definition perma_set_multi :: "'m mc_client \<Rightarrow> (string, cval) dict \<Rightarrow> string \<Rightarrow> 'm perma \<Rightarrow> 'm perma result" where
  "perma_set_multi mc keys prefix p =
     bindr (chain_set_multi (link_ops mc) (map (\<lambda>(k, v). (prefix @ k, v)) keys) 0 (p_caches p)) (\<lambda>cs.
       Inr ((backend_set_multi keys prefix p)\<lparr>p_caches := cs\<rparr>))"

definition pessimistically_set :: "'m mc_client \<Rightarrow> string \<Rightarrow> cval \<Rightarrow> 'm perma \<Rightarrow> 'm perma result" where
  "pessimistically_set mc key val p =
     bindr (chain_delete (link_ops mc) key (p_caches p)) (\<lambda>cs. Inr ((backend_set key val p)\<lparr>p_caches := cs\<rparr>))"

text \<open>Once one key is missing from the chain, all the keys are read from Cassandra.\<close>

definition perma_simple_get_multi ::
    "'m mc_client \<Rightarrow> string list \<Rightarrow> bool \<Rightarrow> 'm perma \<Rightarrow> ((string, cval) dict \<times> 'm perma) result" where
  "perma_simple_get_multi mc keys allow_local p =
     bindr (chain_simple_get_multi (link_ops mc) False allow_local keys (p_caches p)) (\<lambda>(ret, cs).
       if list_ex (\<lambda>k. map_of ret k = None) keys then
         let from_cass = backend_get_multi keys p in
         bindr (chain_set_multi (link_ops mc) from_cass 0 cs) (\<lambda>cs'.
           Inr (dict_update ret from_cass, p\<lparr>p_caches := cs'\<rparr>))
       else Inr (ret, p\<lparr>p_caches := cs\<rparr>))"

definition perma_delete :: "'m mc_client \<Rightarrow> string \<Rightarrow> 'm perma \<Rightarrow> 'm perma result" where
  "perma_delete mc key p =
     bindr (chain_delete (link_ops mc) key (p_caches p)) (\<lambda>cs. Inr ((backend_delete key p)\<lparr>p_caches := cs\<rparr>))"

definition perma_mutate ::
    "'m mc_client \<Rightarrow> string \<Rightarrow> (cval \<Rightarrow> cval) \<Rightarrow> bool \<Rightarrow> 'm perma \<Rightarrow> (cval \<times> 'm perma) result" where
  "perma_mutate mc key mutation_fn willread p =
     bindr (if willread then chain_get (link_ops mc) False False key CNone (p_caches p)
            else Inr (CNone, p_caches p)) (\<lambda>(cached, cs).
       let val = (if willread \<and> cached = CNone then backend_get key p else cached);
           new_value = mutation_fn val;
           p' = (if \<not> willread \<or> val \<noteq> new_value then backend_set key new_value p else p) in
       bindr (chain_set (link_ops mc) key new_value 0 cs) (\<lambda>cs'. Inr (new_value, p'\<lparr>p_caches := cs'\<rparr>)))"

subsection \<open>The cache never contradicts Cassandra\<close>

text \<open>
  The invariant: the chain ends in memcached, agrees with it, and memcached holds nothing for a key
  or the value in Cassandra.
\<close>

definition perma_ok :: "('m \<Rightarrow> string \<Rightarrow> cval) \<Rightarrow> 'm perma \<Rightarrow> bool" where
  "perma_ok stored p \<longleftrightarrow> chain_agrees (link_look stored) (p_caches p) \<and>
     (\<exists>m. last (p_caches p) = McLink m) \<and>
     (\<forall>k. link_look stored (last (p_caches p)) k \<in> {CNone, backend_get k p}) \<and>
     (\<forall>k. p_cf p k \<noteq> Some NoneResult)"

lemma is_local_link: "op_is_local (link_ops mc) c = (case c of LocalLink _ \<Rightarrow> True | McLink _ \<Rightarrow> False)"
  by (simp add: link_ops_def)

text \<open>A chain operation keeps the kind of every cache.\<close>

lemma chain_set_kind:
  assumes "chain_set (link_ops mc) k v t cs = Inr cs'" "cs \<noteq> []" "last cs = McLink m"
  shows "\<exists>m'. last cs' = McLink m'"
  using assms
proof (induction cs arbitrary: cs')
  case (Cons c cs)
  from Cons.prems(1) obtain c1 cs1 where c1: "op_set (link_ops mc) k v t c = Inr c1"
    "chain_set (link_ops mc) k v t cs = Inr cs1" "cs' = c1 # cs1"
    by (auto simp: chain_set_def bindr_eq_Inr_iff)
  show ?case
  proof (cases "cs = []")
    case True
    then show ?thesis using Cons.prems c1 by (auto simp: chain_set_def link_ops_def bindr_eq_Inr_iff)
  next
    case False
    then have "cs1 \<noteq> []" using c1(2) by (cases cs) (auto simp: chain_set_def bindr_eq_Inr_iff)
    then show ?thesis using Cons.IH [OF c1(2) False] Cons.prems(3) False c1(3) by simp
  qed
qed simp

lemma chain_delete_kind:
  assumes "chain_delete (link_ops mc) k cs = Inr cs'" "cs \<noteq> []" "last cs = McLink m"
  shows "\<exists>m'. last cs' = McLink m'"
  using assms
proof (induction cs arbitrary: cs')
  case (Cons c cs)
  from Cons.prems(1) obtain c1 cs1 where c1: "op_delete (link_ops mc) k c = Inr c1"
    "chain_delete (link_ops mc) k cs = Inr cs1" "cs' = c1 # cs1"
    by (auto simp: chain_delete_def bindr_eq_Inr_iff)
  show ?case
  proof (cases "cs = []")
    case True
    then show ?thesis using Cons.prems c1 by (auto simp: chain_delete_def link_ops_def bindr_eq_Inr_iff)
  next
    case False
    then have "cs1 \<noteq> []" using c1(2) by (cases cs) (auto simp: chain_delete_def bindr_eq_Inr_iff)
    then show ?thesis using Cons.IH [OF c1(2) False] Cons.prems(3) False c1(3) by simp
  qed
qed simp

context memcached
begin

lemma link_agrees: "links.agrees cs = chain_agrees (link_look stored) cs"
  by (simp add: links.agrees_def)

lemma perma_chain_set:
  assumes "chain_agrees (link_look stored) cs" "last cs = McLink m" "v \<noteq> CNone"
  obtains cs' where "chain_set (link_ops mc) k v 0 cs = Inr cs'" "chain_agrees (link_look stored) cs'"
    "link_look stored (last cs') = (link_look stored (last cs))(k := v)" "\<exists>m'. last cs' = McLink m'"
proof -
  have "cs \<noteq> []" using assms(1) by (simp add: chain_agrees_def)
  from links.chain_set_agrees [unfolded link_agrees, OF assms(1,3), of 0 k] obtain cs' where
    "chain_set (link_ops mc) k v 0 cs = Inr cs'" "chain_agrees (link_look stored) cs'"
    "link_look stored (last cs') = (link_look stored (last cs))(k := v)"
    by auto
  then show thesis using that chain_set_kind [OF _ \<open>cs \<noteq> []\<close> assms(2)] by blast
qed

lemma perma_chain_get:
  assumes "chain_agrees (link_look stored) cs" "last cs = McLink m"
  obtains cs' where "chain_get (link_ops mc) False al k CNone cs = Inr (answer CNone (link_look stored (last cs) k), cs')"
    "chain_agrees (link_look stored) cs'" "last cs' = last cs"
  using links.chain_get_agrees [unfolded link_agrees, OF assms(1), of al False k CNone] assms(2)
  by (auto simp: is_local_link)

lemma perma_get_ok:
  assumes "perma_ok stored p"
  shows "\<exists>p'. perma_get mc k dflt al p = Inr (backend_get k p, p') \<and> perma_ok stored p' \<and> p_cf p' = p_cf p"
proof -
  obtain m where ag: "chain_agrees (link_look stored) (p_caches p)" and m: "last (p_caches p) = McLink m"
    and st: "\<And>k. link_look stored (last (p_caches p)) k \<in> {CNone, backend_get k p}"
    and nn: "\<And>k. p_cf p k \<noteq> Some NoneResult"
    using assms unfolding perma_ok_def by blast
  have nb: "backend_get k p \<noteq> NoneResult" using nn [of k] by (auto simp: backend_get_def split: option.splits)
  obtain cs where cs: "chain_get (link_ops mc) False al k CNone (p_caches p)
      = Inr (answer CNone (link_look stored (last (p_caches p)) k), cs)"
    "chain_agrees (link_look stored) cs" "last cs = last (p_caches p)"
    using perma_chain_get [OF ag m] by blast
  have bg: "backend_get x (p\<lparr>p_caches := c\<rparr>) = backend_get x p" for x c by (simp add: backend_get_def)
  have ok1: "perma_ok stored (p\<lparr>p_caches := cs\<rparr>)"
    unfolding perma_ok_def bg using cs(2,3) m st nn by simp
  have ans: "answer CNone (link_look stored (last (p_caches p)) k) \<in> {CNone, backend_get k p}"
    using st [of k] by (auto simp: answer_def)
  show ?thesis
  proof (cases "answer CNone (link_look stored (last (p_caches p)) k) = CNone \<and> cval_true (backend_get k p)")
    case True
    then have "backend_get k p \<noteq> CNone" by (auto simp: cval_true_def)
    from perma_chain_set [OF cs(2) _ this] m cs(3) obtain cs' where
      s: "chain_set (link_ops mc) k (backend_get k p) 0 cs = Inr cs'" "chain_agrees (link_look stored) cs'"
      "link_look stored (last cs') = (link_look stored (last cs))(k := backend_get k p)" "\<exists>m'. last cs' = McLink m'"
      by metis
    have "perma_ok stored (p\<lparr>p_caches := cs'\<rparr>)"
      unfolding perma_ok_def bg using s st cs(3) nn by simp
    then show ?thesis using cs(1) s(1) True by (simp add: perma_get_def Let_def)
  next
    case False
    then show ?thesis using cs(1) ok1 ans by (auto simp: perma_get_def Let_def)
  qed
qed

lemma perma_mutate_ok:
  assumes "perma_ok stored p" "f (backend_get k p) \<noteq> CNone" "f (backend_get k p) \<noteq> NoneResult"
  shows "\<exists>p'. perma_mutate mc k f True p = Inr (f (backend_get k p), p') \<and> perma_ok stored p' \<and>
    (\<forall>x. backend_get x p' = (if x = k then f (backend_get k p) else backend_get x p))"
proof -
  obtain m where ag: "chain_agrees (link_look stored) (p_caches p)" and m: "last (p_caches p) = McLink m"
    and st: "\<And>k. link_look stored (last (p_caches p)) k \<in> {CNone, backend_get k p}"
    and nn: "\<And>k. p_cf p k \<noteq> Some NoneResult"
    using assms(1) unfolding perma_ok_def by blast
  obtain cs where cs: "chain_get (link_ops mc) False False k CNone (p_caches p)
      = Inr (answer CNone (link_look stored (last (p_caches p)) k), cs)"
    "chain_agrees (link_look stored) cs" "last cs = last (p_caches p)"
    using perma_chain_get [OF ag m] by blast
  let ?a = "answer CNone (link_look stored (last (p_caches p)) k)"
  have nb: "backend_get k p \<noteq> NoneResult" using nn [of k] by (auto simp: backend_get_def split: option.splits)
  have val: "(if ?a = CNone then backend_get k p else ?a) = backend_get k p"
    using st [of k] by (auto simp: answer_def)
  from perma_chain_set [OF cs(2) _ assms(2)] m cs(3) obtain cs' where
    s: "chain_set (link_ops mc) k (f (backend_get k p)) 0 cs = Inr cs'" "chain_agrees (link_look stored) cs'"
    "link_look stored (last cs') = (link_look stored (last cs))(k := f (backend_get k p))" "\<exists>m'. last cs' = McLink m'"
    by metis
  let ?p = "if backend_get k p \<noteq> f (backend_get k p) then backend_set k (f (backend_get k p)) p else p"
  have bg: "backend_get x (?p\<lparr>p_caches := cs'\<rparr>) = (if x = k then f (backend_get k p) else backend_get x p)" for x
    by (simp add: backend_get_def backend_set_def)
  have cf: "p_cf (?p\<lparr>p_caches := cs'\<rparr>) x \<noteq> Some NoneResult" for x
    using nn [of x] assms(3) by (auto simp: backend_set_def)
  have "perma_ok stored (?p\<lparr>p_caches := cs'\<rparr>)"
    unfolding perma_ok_def bg using s st cs(3) cf by simp
  moreover have "perma_mutate mc k f True p = Inr (f (backend_get k p), ?p\<lparr>p_caches := cs'\<rparr>)"
    using cs(1) val s(1) by (simp add: perma_mutate_def Let_def)
  ultimately show ?thesis using bg by blast
qed

lemma perma_write_ok:
  assumes "perma_ok stored p" "v \<noteq> CNone" "v \<noteq> NoneResult"
  shows "\<exists>p'. perma_set mc k v p = Inr p' \<and> perma_ok stored p' \<and> p_cf p' = (p_cf p)(k \<mapsto> v)"
    "\<exists>p'. pessimistically_set mc k v p = Inr p' \<and> perma_ok stored p' \<and> p_cf p' = (p_cf p)(k \<mapsto> v)"
    "\<exists>p'. perma_delete mc k p = Inr p' \<and> perma_ok stored p' \<and> p_cf p' = (p_cf p)(k := None)"
proof -
  obtain m where ag: "chain_agrees (link_look stored) (p_caches p)" and m: "last (p_caches p) = McLink m"
    and st: "\<And>k. link_look stored (last (p_caches p)) k \<in> {CNone, backend_get k p}"
    and nn: "\<And>k. p_cf p k \<noteq> Some NoneResult"
    using assms(1) unfolding perma_ok_def by blast
  have ne: "p_caches p \<noteq> []" using ag by (simp add: chain_agrees_def)
  from links.chain_delete_agrees [unfolded link_agrees, OF ag, of k] obtain ds where
    d: "chain_delete (link_ops mc) k (p_caches p) = Inr ds" "chain_agrees (link_look stored) ds"
    "link_look stored (last ds) = (link_look stored (last (p_caches p)))(k := CNone)"
    by blast
  note dk = chain_delete_kind [OF d(1) ne m]
  obtain cs where s: "chain_set (link_ops mc) k v 0 (p_caches p) = Inr cs" "chain_agrees (link_look stored) cs"
    "link_look stored (last cs) = (link_look stored (last (p_caches p)))(k := v)" "\<exists>m'. last cs = McLink m'"
    using perma_chain_set [OF ag m assms(2)] by blast
  have b1: "backend_get x ((backend_set k v p)\<lparr>p_caches := c\<rparr>) = (if x = k then v else backend_get x p)" for x c
    by (simp add: backend_get_def backend_set_def)
  have b2: "backend_get x ((backend_delete k p)\<lparr>p_caches := c\<rparr>) = (if x = k then CNone else backend_get x p)" for x c
    by (simp add: backend_get_def backend_delete_def)
  have "perma_ok stored ((backend_set k v p)\<lparr>p_caches := cs\<rparr>)"
    "perma_ok stored ((backend_set k v p)\<lparr>p_caches := ds\<rparr>)"
    "perma_ok stored ((backend_delete k p)\<lparr>p_caches := ds\<rparr>)"
    unfolding perma_ok_def b1 b2 using s d dk st nn assms(3)
    by (auto simp: backend_set_def backend_delete_def)
  then show "\<exists>p'. perma_set mc k v p = Inr p' \<and> perma_ok stored p' \<and> p_cf p' = (p_cf p)(k \<mapsto> v)"
    "\<exists>p'. pessimistically_set mc k v p = Inr p' \<and> perma_ok stored p' \<and> p_cf p' = (p_cf p)(k \<mapsto> v)"
    "\<exists>p'. perma_delete mc k p = Inr p' \<and> perma_ok stored p' \<and> p_cf p' = (p_cf p)(k := None)"
    using s(1) d(1)
    by (auto simp: perma_set_def pessimistically_set_def perma_delete_def)
       (auto simp: backend_set_def backend_delete_def)
qed

end

subsection \<open>Properties\<close>

text \<open>
  (C9) The permacache behaves like the column family. While the caches hold nothing that contradicts
  Cassandra, \<open>get\<close> returns the stored value (not the default, when there is none), \<open>set\<close>,
  \<open>pessimistically_set\<close> and \<open>delete\<close> change exactly their row, \<open>mutate\<close> replaces the stored value
  by the function's result, and every one of them keeps the caches free of contradictions.
\<close>

theorem permacache_refines_store:
  assumes "memcached mc stored" "perma_ok stored p" "v \<notin> {CNone, NoneResult}"
    and "f (backend_get k p) \<notin> {CNone, NoneResult}"
  shows "(\<exists>p'. perma_get mc k dflt al p = Inr (backend_get k p, p') \<and> perma_ok stored p' \<and> p_cf p' = p_cf p) \<and>
    (\<exists>p'. perma_set mc k v p = Inr p' \<and> perma_ok stored p' \<and> p_cf p' = (p_cf p)(k \<mapsto> v)) \<and>
    (\<exists>p'. pessimistically_set mc k v p = Inr p' \<and> perma_ok stored p' \<and> p_cf p' = (p_cf p)(k \<mapsto> v)) \<and>
    (\<exists>p'. perma_delete mc k p = Inr p' \<and> perma_ok stored p' \<and> p_cf p' = (p_cf p)(k := None)) \<and>
    (\<exists>p'. perma_mutate mc k f True p = Inr (f (backend_get k p), p') \<and> perma_ok stored p' \<and>
       (\<forall>x. backend_get x p' = (if x = k then f (backend_get k p) else backend_get x p)))"
  using memcached.perma_get_ok [OF assms(1,2), of k dflt al] memcached.perma_write_ok [OF assms(1,2), of v k]
    memcached.perma_mutate_ok [OF assms(1,2), of f k] assms(3,4)
  by simp

definition sample_perma :: "local_cache perma" where
  "sample_perma = \<lparr>p_caches = [LocalLink [], McLink []], p_cf = (\<lambda>k. if k = ''a'' then Some (CInt 5) else None)\<rparr>"

definition double :: "cval \<Rightarrow> cval" where
  "double v = (case v of CInt n \<Rightarrow> CInt (2 * n) | _ \<Rightarrow> CInt 0)"

theorem permacache_refines_store_witness:
  "(\<exists>p'. perma_get dict_client ''a'' CNone True sample_perma = Inr (CInt 5, p')) \<and>
   (\<exists>p'. perma_mutate dict_client ''a'' double True sample_perma = Inr (CInt 10, p') \<and> backend_get ''a'' p' = CInt 10)"
proof -
  have b: "backend_get ''a'' sample_perma = CInt 5" by (simp add: backend_get_def sample_perma_def)
  have "perma_ok (\<lambda>d k. local_get k CNone d) sample_perma"
    by (simp add: perma_ok_def sample_perma_def chain_agrees_def link_look_def local_get_def)
  from permacache_refines_store [OF dc.memcached_axioms this, of "CInt 1" double "''a''" CNone True]
  show ?thesis by (auto simp: b double_def)
qed

end
