(* ===== verification/Feature.thy ===== *)
theory Feature
  imports Base36
begin

section \<open>Feature flags and experiments\<close>

text \<open>
  Models \<open>r2/config/feature/state.py\<close>, \<open>world.py\<close> and \<open>feature.py\<close>: how a feature's configuration in the
  live config decides whether it is on for a request, and how users are put into the variants of an
  experiment. Parameters are SHA-1 (\<open>sha1\<close>, the digest as a number), the JSON parser (\<open>loads\<close>) and
  the request (the record \<open>fworld\<close>). Percentages are whole numbers.
\<close>

subsection \<open>The world\<close>

record fuser =
  u_name :: string
  u_fullname :: string
  u_id :: int
  u_employee :: bool
  u_beta :: bool
  u_gold :: bool

record fworld =
  current_user :: "fuser option"
  admins :: "string list"
  current_loid :: "string option"
  url_features :: "string list"
  live_config :: "(string, string) dict"
  enable_loggedout_experiments :: bool
  running_as_script :: bool

definition is_admin :: "fworld \<Rightarrow> fuser option \<Rightarrow> bool" where
  "is_admin w user = (case user of None \<Rightarrow> False | Some u \<Rightarrow> u_name u \<in> set (admins w))"

definition is_employee :: "fuser option \<Rightarrow> bool" where
  "is_employee user = (case user of None \<Rightarrow> False | Some u \<Rightarrow> u_employee u)"

definition user_has_beta_enabled :: "fuser option \<Rightarrow> bool" where
  "user_has_beta_enabled user = (case user of None \<Rightarrow> False | Some u \<Rightarrow> u_beta u)"

definition has_gold :: "fuser option \<Rightarrow> bool" where
  "has_gold user = (case user of None \<Rightarrow> False | Some u \<Rightarrow> u_gold u)"

definition is_user_loggedin :: "fworld \<Rightarrow> fuser option \<Rightarrow> bool" where
  "is_user_loggedin w user = (user \<noteq> None \<or> current_user w \<noteq> None)"

text \<open>
  \<open>_is_experiment_enabled\<close> calls a method that \<open>World\<close> does not define, and \<open>get_content_id\<close> uses the
  name \<open>request\<close>, which \<open>state.py\<close> does not import.
\<close>

definition valid_experiment_request :: "fworld \<Rightarrow> bool result" where
  "valid_experiment_request w = Inl (AttributeError ''valid_experiment_request'')"

definition get_content_id :: "fworld \<Rightarrow> (string option \<times> string option) result" where
  "get_content_id w = Inl (NameError ''request'')"

subsection \<open>Configuration\<close>

definition DISABLED_CFG :: "(string, json) dict" where
  "DISABLED_CFG = [(''enabled'', JStr ''off'')]"

definition ENABLED_CFG :: "(string, json) dict" where
  "ENABLED_CFG = [(''enabled'', JStr ''on'')]"

definition parse_config ::
    "(string \<Rightarrow> json result) \<Rightarrow> fworld \<Rightarrow> string \<Rightarrow> string option \<Rightarrow> string option \<Rightarrow> (string, json) dict result" where
  "parse_config loads w name config_name config_str =
     (let config_name' = (case config_name of None \<Rightarrow> ''feature_'' @ name | Some n \<Rightarrow> if n = [] then ''feature_'' @ name else n);
          config_str' = (case config_str of
              Some s \<Rightarrow> if s = [] then map_of (live_config w) config_name' else Some s
            | None \<Rightarrow> map_of (live_config w) config_name') in
      case config_str' of
        None \<Rightarrow> Inr DISABLED_CFG
      | Some s \<Rightarrow>
          if s = [] \<or> s = ''off'' then Inr DISABLED_CFG
          else if s = ''on'' then Inr ENABLED_CFG
          else (case loads s of
                  Inr (JObj d) \<Rightarrow> Inr d
                | Inr _ \<Rightarrow> Inr DISABLED_CFG
                | Inl (ValueError _) \<Rightarrow> Inr DISABLED_CFG
                | Inl (TypeError _) \<Rightarrow> Inr DISABLED_CFG
                | Inl e \<Rightarrow> Inl e))"

text \<open>\<open>get_all\<close>: the states of every entry of the live config with the prefix \<open>feature_\<close>.\<close>

definition get_all :: "(string \<Rightarrow> json result) \<Rightarrow> fworld \<Rightarrow> (string \<times> (string, json) dict) list result" where
  "get_all loads w =
     mapr (\<lambda>(key, config_str).
         bindr (parse_config loads w (drop 8 key) (Some key) (Some config_str)) (\<lambda>cfg. Inr (drop 8 key, cfg)))
       (filter (\<lambda>(key, _). take 8 key = ''feature_'') (live_config w))"

subsection \<open>Buckets and variants\<close>

definition NUM_BUCKETS :: int where
  "NUM_BUCKETS = 1000"

definition calculate_bucket :: "(string \<Rightarrow> int) \<Rightarrow> string \<Rightarrow> string \<Rightarrow> int" where
  "calculate_bucket sha1 name seed = sha1 (name @ seed) mod NUM_BUCKETS"

definition DEFAULT_CONTROL_GROUPS :: "(string, int) dict" where
  "DEFAULT_CONTROL_GROUPS = [(''control_1'', 10), (''control_2'', 10)]"

definition choose_variant :: "int \<Rightarrow> (string, int) dict \<Rightarrow> string option" where
  "choose_variant bucket variants =
     (let all_variants = dict_update DEFAULT_CONTROL_GROUPS variants;
          num_variants = length all_variants;
          variant_names = sort (map fst all_variants);
          candidate = variant_names ! nat (bucket mod int num_variants);
          percent = (case map_of all_variants candidate of None \<Rightarrow> 0 | Some p \<Rightarrow> p) in
      if bucket < percent * int num_variants * (NUM_BUCKETS div 100) then Some candidate else None)"

definition is_variant_enabled :: "string option \<Rightarrow> bool" where
  "is_variant_enabled variant =
     (case variant of None \<Rightarrow> False | Some v \<Rightarrow> map_of DEFAULT_CONTROL_GROUPS v = None)"

subsection \<open>Is a feature enabled\<close>

text \<open>
  The strings a loop over a configuration value visits: the elements of a list, the keys of an object,
  the characters of a string. Elements that are no strings have no \<open>lower\<close>.
\<close>

definition cfg_items :: "string \<Rightarrow> (string, json) dict \<Rightarrow> json list result" where
  "cfg_items k cfg = (case map_of cfg k of
       None \<Rightarrow> Inr []
     | Some (JList xs) \<Rightarrow> Inr xs
     | Some (JObj d) \<Rightarrow> Inr (map (\<lambda>(x, _). JStr x) d)
     | Some (JStr s) \<Rightarrow> Inr (map (\<lambda>c. JStr [c]) s)
     | Some _ \<Rightarrow> Inl (TypeError ''not iterable''))"

definition cfg_strings :: "string \<Rightarrow> (string, json) dict \<Rightarrow> string list result" where
  "cfg_strings k cfg =
     bindr (cfg_items k cfg) (mapr (\<lambda>j. case j of JStr s \<Rightarrow> Inr (py_lower s) | _ \<Rightarrow> Inl (AttributeError ''lower'')))"

text \<open>The entry \<open>experiment\<close> of a configuration, when there is one that is not empty.\<close>

definition experiment_of :: "(string, json) dict \<Rightarrow> (string, json) dict option result" where
  "experiment_of cfg = (case json_get ''experiment'' cfg of
       JObj d \<Rightarrow> Inr (if d = [] then None else Some d)
     | j \<Rightarrow> if json_true j then Inl (AttributeError ''get'') else Inr None)"

definition variant_of_json :: "json \<Rightarrow> string option" where
  "variant_of_json j = (case j of JStr s \<Rightarrow> Some s | _ \<Rightarrow> None)"

definition is_config_enabled ::
    "fworld \<Rightarrow> (string, json) dict option \<Rightarrow> fuser option \<Rightarrow> string \<Rightarrow> string option \<Rightarrow> string option \<Rightarrow> bool result" where
  "is_config_enabled w cfg0 user subreddit subdomain oauth_client =
     (case cfg0 of
        None \<Rightarrow> Inr False
      | Some [] \<Rightarrow> Inr False
      | Some cfg \<Rightarrow>
          if json_get ''enabled'' cfg = JStr ''on'' then Inr True
          else if json_get ''enabled'' cfg = JStr ''off'' then Inr False
          else
            let url_flag = json_get ''url'' cfg;
                url_answer = (case url_flag of
                    JObj d \<Rightarrow> (case filter (\<lambda>f. map_of d f \<noteq> None) (url_features w) of
                        [] \<Rightarrow> None
                      | f # _ \<Rightarrow> Some (is_variant_enabled (variant_of_json (json_get f d))))
                  | JStr s \<Rightarrow> if s \<noteq> [] \<and> s \<in> set (url_features w) then Some True else None
                  | _ \<Rightarrow> None);
                loggedin = is_user_loggedin w user in
            case url_answer of
              Some b \<Rightarrow> Inr b
            | None \<Rightarrow>
                if json_true (json_get ''admin'' cfg) \<and> is_admin w user then Inr True
                else if json_true (json_get ''employee'' cfg) \<and> is_employee user then Inr True
                else if json_true (json_get ''beta'' cfg) \<and> user_has_beta_enabled user then Inr True
                else if json_true (json_get ''gold'' cfg) \<and> has_gold user then Inr True
                else if json_true (json_get ''loggedin'' cfg) \<and> loggedin then Inr True
                else if json_true (json_get ''loggedout'' cfg) \<and> \<not> loggedin then Inr True
                else
                  bindr (cfg_strings ''users'' cfg) (\<lambda>users.
                  if (case user of None \<Rightarrow> False | Some u \<Rightarrow> py_lower (u_name u) \<in> set users) then Inr True
                  else bindr (cfg_strings ''subreddits'' cfg) (\<lambda>subreddits.
                  if subreddit \<noteq> [] \<and> py_lower subreddit \<in> set subreddits then Inr True
                  else bindr (cfg_strings ''subdomains'' cfg) (\<lambda>subdomains.
                  if (case subdomain of None \<Rightarrow> False | Some s \<Rightarrow> s \<noteq> [] \<and> py_lower s \<in> set subdomains) then Inr True
                  else bindr (cfg_items ''oauth_clients'' cfg) (\<lambda>clients.
                  Inr (case oauth_client of None \<Rightarrow> False | Some c \<Rightarrow> c \<noteq> [] \<and> JStr c \<in> set clients))))))"

text \<open>\<open>cfg.get(k, 0)\<close> where a number is expected.\<close>

definition cfg_number :: "string \<Rightarrow> (string, json) dict \<Rightarrow> int" where
  "cfg_number k cfg = (case map_of cfg k of Some (JNum n) \<Rightarrow> n | Some (JBool b) \<Rightarrow> of_bool b | _ \<Rightarrow> 0)"

definition is_percent_enabled ::
    "(string \<Rightarrow> int) \<Rightarrow> fworld \<Rightarrow> string \<Rightarrow> (string, json) dict \<Rightarrow> fuser option \<Rightarrow> bool result" where
  "is_percent_enabled sha1 w name cfg user =
     (let loggedin = is_user_loggedin w user;
          percent_loggedin = cfg_number ''percent_loggedin'' cfg;
          percent_loggedout = cfg_number ''percent_loggedout'' cfg in
      bindr (if percent_loggedin \<noteq> 0 \<and> loggedin then
               (case user of
                  None \<Rightarrow> Inl (AttributeError ''_fullname'')
                | Some u \<Rightarrow> Inr (calculate_bucket sha1 name (u_fullname u) div (NUM_BUCKETS div 100) < percent_loggedin))
             else Inr False) (\<lambda>b.
        Inr (b \<or>
          percent_loggedout \<noteq> 0 \<and> \<not> loggedin \<and>
          (case current_loid w of
             None \<Rightarrow> False
           | Some loid \<Rightarrow> loid \<noteq> [] \<and>
               (case from36 (drop (length loid - 4) loid) of
                  Inl _ \<Rightarrow> False
                | Inr n \<Rightarrow> n mod 100 < percent_loggedout)))))"

subsection \<open>Experiments\<close>

definition is_page_experiment :: "(string, json) dict \<Rightarrow> bool" where
  "is_page_experiment experiment = json_true (json_get ''page'' experiment)"

definition is_user_experiment :: "(string, json) dict \<Rightarrow> bool" where
  "is_user_experiment experiment = (\<not> is_page_experiment experiment)"

definition experiment_variants :: "(string, json) dict \<Rightarrow> (string, int) dict result" where
  "experiment_variants experiment = (case map_of experiment ''variants'' of
       None \<Rightarrow> Inr []
     | Some (JObj d) \<Rightarrow> mapr (\<lambda>(k, j). case j of JNum n \<Rightarrow> Inr (k, n) | _ \<Rightarrow> Inl (TypeError ''percentage'')) d
     | Some _ \<Rightarrow> Inl (TypeError ''variants''))"

definition get_user_experiment_variant ::
    "(string \<Rightarrow> int) \<Rightarrow> fworld \<Rightarrow> string \<Rightarrow> (string, json) dict \<Rightarrow> fuser option \<Rightarrow> string option result" where
  "get_user_experiment_variant sha1 w name experiment user =
     (if is_user_loggedin w user then
        (case user of
           None \<Rightarrow> Inl (AttributeError ''_fullname'')
         | Some u \<Rightarrow> bindr (experiment_variants experiment) (\<lambda>vs.
             Inr (choose_variant (calculate_bucket sha1 name (u_fullname u)) vs)))
      else if enable_loggedout_experiments w then
        (case current_loid w of
           None \<Rightarrow> Inr None
         | Some loid \<Rightarrow>
             if loid = [] then Inr None
             else bindr (experiment_variants experiment) (\<lambda>vs.
               Inr (choose_variant (calculate_bucket sha1 name loid) vs)))
      else Inr None)"

definition get_page_experiment_variant ::
    "(string \<Rightarrow> int) \<Rightarrow> fworld \<Rightarrow> string \<Rightarrow> (string, json) dict \<Rightarrow> string option result" where
  "get_page_experiment_variant sha1 w name experiment =
     bindr (get_content_id w) (\<lambda>(content_id, type_name).
       case content_id of
         None \<Rightarrow> Inr None
       | Some cid \<Rightarrow>
           if json_true (json_get ''subreddit_only'' experiment) \<and> type_name \<noteq> Some ''subreddit'' then Inr None
           else if json_true (json_get ''link_only'' experiment) \<and> type_name \<noteq> Some ''link'' \<and> type_name \<noteq> Some ''comment''
           then Inr None
           else bindr (experiment_variants experiment) (\<lambda>vs.
             Inr (choose_variant (calculate_bucket sha1 name cid) vs)))"

text \<open>Bucketing events already sent in this request, by key.\<close>

datatype bucket_key = UserKey string int | LoidKey string "string option" | PageKey string string

definition is_experiment_enabled ::
    "(string \<Rightarrow> int) \<Rightarrow> fworld \<Rightarrow> string \<Rightarrow> (string, json) dict \<Rightarrow> fuser option \<Rightarrow> bucket_key set
     \<Rightarrow> (bool \<times> bucket_key set) result" where
  "is_experiment_enabled sha1 w name experiment user sent =
     (if (case map_of experiment ''enabled'' of None \<Rightarrow> False | Some j \<Rightarrow> \<not> json_true j) then Inr (False, sent)
      else
        bindr (if is_user_experiment experiment
               then bindr (get_user_experiment_variant sha1 w name experiment user) (\<lambda>v. Inr (v, []))
               else bindr (get_content_id w) (\<lambda>(cid, _).
                 bindr (get_page_experiment_variant sha1 w name experiment) (\<lambda>v.
                   Inr (v, case cid of None \<Rightarrow> [] | Some c \<Rightarrow> c)))) (\<lambda>(variant, content_id).
          if variant = None then Inr (False, sent)
          else bindr (valid_experiment_request w) (\<lambda>ok.
            let key = (if is_user_experiment experiment
                       then if is_user_loggedin w user
                            then UserKey name (case user of None \<Rightarrow> 0 | Some u \<Rightarrow> u_id u)
                            else LoidKey name (current_loid w)
                       else PageKey name content_id) in
            Inr (is_variant_enabled variant, if ok then insert key sent else sent))))"

definition feature_is_enabled ::
    "(string \<Rightarrow> int) \<Rightarrow> fworld \<Rightarrow> string \<Rightarrow> (string, json) dict \<Rightarrow> fuser option \<Rightarrow> string \<Rightarrow> string option
     \<Rightarrow> string option \<Rightarrow> bucket_key set \<Rightarrow> (bool \<times> bucket_key set) result" where
  "feature_is_enabled sha1 w name cfg user subreddit subdomain oauth_client sent =
     bindr (is_config_enabled w (Some cfg) user subreddit subdomain oauth_client) (\<lambda>b.
     if b then Inr (True, sent)
     else bindr (is_percent_enabled sha1 w name cfg user) (\<lambda>p.
       if p then Inr (True, sent)
       else
         bindr (experiment_of cfg) (\<lambda>experiment.
         bindr (is_config_enabled w experiment user subreddit subdomain oauth_client) (\<lambda>x.
           case experiment of
             Some ex \<Rightarrow> if x then is_experiment_enabled sha1 w name ex user sent else Inr (False, sent)
           | None \<Rightarrow> Inr (False, sent)))))"

definition feature_variant ::
    "(string \<Rightarrow> int) \<Rightarrow> fworld \<Rightarrow> string \<Rightarrow> (string, json) dict \<Rightarrow> fuser option \<Rightarrow> string option result" where
  "feature_variant sha1 w name cfg user =
     (case (case json_get ''url'' cfg of
              JObj d \<Rightarrow> (case filter (\<lambda>f. map_of d f \<noteq> None) (url_features w) of [] \<Rightarrow> None | f # _ \<Rightarrow> map_of d f)
            | _ \<Rightarrow> None) of
        Some j \<Rightarrow> Inr (variant_of_json j)
      | None \<Rightarrow>
          bindr (experiment_of cfg) (\<lambda>experiment.
            case experiment of
              None \<Rightarrow> Inr None
            | Some ex \<Rightarrow>
                if is_user_experiment ex then get_user_experiment_variant sha1 w name ex user
                else get_page_experiment_variant sha1 w name ex))"

subsection \<open>The module interface\<close>

text \<open>
  \<open>feature.is_enabled\<close>, with the cache of parsed configurations \<open>_featurestate_cache\<close>;
  \<open>clear_featurestate_cache\<close> is the handler of the hook \<open>worker.live_config.update\<close>.
\<close>

type_synonym state_cache = "(string, (string, json) dict) dict"

definition get_featurestate ::
    "(string \<Rightarrow> json result) \<Rightarrow> fworld \<Rightarrow> string \<Rightarrow> state_cache \<Rightarrow> ((string, json) dict \<times> state_cache) result" where
  "get_featurestate loads w name cache =
     (case map_of cache name of
        Some cfg \<Rightarrow> Inr (cfg, cache)
      | None \<Rightarrow> bindr (parse_config loads w name None None) (\<lambda>cfg. Inr (cfg, AList.update name cfg cache)))"

definition clear_featurestate_cache :: "state_cache \<Rightarrow> state_cache" where
  "clear_featurestate_cache cache = []"

definition module_is_enabled ::
    "(string \<Rightarrow> json result) \<Rightarrow> (string \<Rightarrow> int) \<Rightarrow> fworld \<Rightarrow> string \<Rightarrow> fuser option \<Rightarrow> string \<Rightarrow> string option \<Rightarrow> string option
     \<Rightarrow> state_cache \<Rightarrow> bucket_key set \<Rightarrow> (bool \<times> state_cache \<times> bucket_key set) result" where
  "module_is_enabled loads sha1 w name user subreddit subdomain oauth_client cache sent =
     (let user' = (if user = None then current_user w else user) in
      bindr (get_featurestate loads w name cache) (\<lambda>(cfg, cache').
      bindr (feature_is_enabled sha1 w name cfg user' subreddit subdomain oauth_client sent) (\<lambda>(b, sent').
        Inr (b, cache', sent'))))"

definition all_enabled ::
    "(string \<Rightarrow> json result) \<Rightarrow> (string \<Rightarrow> int) \<Rightarrow> fworld \<Rightarrow> fuser option \<Rightarrow> (string, string option) dict result" where
  "all_enabled loads sha1 w user =
     bindr (get_all loads w) (\<lambda>features.
     bindr (mapr (\<lambda>(name, cfg).
         bindr (experiment_of cfg) (\<lambda>experiment.
           if (case experiment of None \<Rightarrow> False | Some ex \<Rightarrow> is_user_experiment ex)
           then bindr (feature_variant sha1 w name cfg user) (\<lambda>v.
             Inr (case v of None \<Rightarrow> [] | Some s \<Rightarrow> if s = [] then [] else [(name, Some s)]))
           else bindr (feature_is_enabled sha1 w name cfg user [] None None {}) (\<lambda>(b, _).
             Inr (if b then [(name, None)] else [])))) features) (\<lambda>active.
       Inr (dict_update [] (concat active))))"

subsection \<open>Lemmas\<close>

definition all_variants_of :: "(string, int) dict \<Rightarrow> (string, int) dict" where
  "all_variants_of variants = dict_update DEFAULT_CONTROL_GROUPS variants"

lemma dict_ok_all_variants: "dict_ok (all_variants_of vs)"
  unfolding all_variants_of_def by (rule dict_ok_dict_update) (simp add: DEFAULT_CONTROL_GROUPS_def dict_ok_def)

lemma choose_variant_alt:
  "choose_variant bucket vs =
     (let av = all_variants_of vs; n = length av; v = sort (map fst av) ! nat (bucket mod int n) in
      if bucket < the (map_of av v) * int n * 10 then Some v else None)"
proof -
  let ?av = "all_variants_of vs"
  have ne: "?av \<noteq> []"
  proof
    assume "?av = []"
    then have "map_of ?av ''control_1'' = None \<and> map_of ?av ''control_2'' = None" by simp
    then show False
      unfolding all_variants_of_def dict_update_def DEFAULT_CONTROL_GROUPS_def
      by (induction vs rule: rev_induct) (auto split: prod.splits if_splits)
  qed
  then have "nat (bucket mod int (length ?av)) < length ?av" by (simp add: nat_less_iff)
  then have "sort (map fst ?av) ! nat (bucket mod int (length ?av)) \<in> set (map fst ?av)"
    by (metis length_map length_sort nth_mem set_sort)
  then have "map_of ?av (sort (map fst ?av) ! nat (bucket mod int (length ?av))) \<noteq> None"
    by (auto simp: map_of_eq_None_iff)
  then show ?thesis
    by (auto simp: choose_variant_def Let_def NUM_BUCKETS_def all_variants_of_def)
qed

lemma map_of_all_variants: "dict_ok vs \<Longrightarrow> map_of (all_variants_of vs) = map_of DEFAULT_CONTROL_GROUPS ++ map_of vs"
  unfolding all_variants_of_def by (rule map_of_dict_update)

lemma set_all_variants:
  assumes "dict_ok vs"
  shows "set (map fst (all_variants_of vs)) = {''control_1'', ''control_2''} \<union> set (map fst vs)"
proof -
  have "dom (map_of (all_variants_of vs)) = dom (map_of DEFAULT_CONTROL_GROUPS) \<union> dom (map_of vs)"
    unfolding map_of_all_variants [OF assms] by (simp add: Un_commute)
  then show ?thesis by (simp add: dom_map_of_conv_image_fst DEFAULT_CONTROL_GROUPS_def)
qed

lemma same_names:
  assumes "dict_ok vs" "dict_ok vs'" "set (map fst vs) = set (map fst vs')"
  shows "sort (map fst (all_variants_of vs)) = sort (map fst (all_variants_of vs'))"
    "length (all_variants_of vs) = length (all_variants_of vs')"
proof -
  have d: "distinct (map fst (all_variants_of vs))" "distinct (map fst (all_variants_of vs'))"
    using dict_ok_all_variants by (simp_all add: dict_ok_def)
  have e: "set (map fst (all_variants_of vs)) = set (map fst (all_variants_of vs'))"
    using assms by (simp add: set_all_variants del: set_map)
  show "sort (map fst (all_variants_of vs)) = sort (map fst (all_variants_of vs'))"
    using d e by (intro sorted_distinct_set_unique) simp_all
  then show "length (all_variants_of vs) = length (all_variants_of vs')"
    by (metis length_map length_sort)
qed

text \<open>Raising percentages keeps every bucket that had a variant in that variant.\<close>

lemma choose_variant_mono:
  assumes "dict_ok vs" "dict_ok vs'" "set (map fst vs) = set (map fst vs')"
    and le: "\<And>k p p'. map_of vs k = Some p \<Longrightarrow> map_of vs' k = Some p' \<Longrightarrow> p \<le> p'"
    and v: "choose_variant b vs = Some v"
  shows "choose_variant b vs' = Some v"
proof -
  let ?n = "length (all_variants_of vs)"
  have n: "sort (map fst (all_variants_of vs')) ! nat (b mod int ?n) = v" "length (all_variants_of vs') = ?n"
    and b: "b < the (map_of (all_variants_of vs) v) * int ?n * 10"
    using v same_names [OF assms(1-3)] by (auto simp: choose_variant_alt Let_def split: if_splits)
  have "the (map_of (all_variants_of vs) v) \<le> the (map_of (all_variants_of vs') v)"
  proof (cases "map_of vs v")
    case None
    then have "map_of vs' v = None"
      using assms(3) by (metis map_of_eq_None_iff set_map)
    then show ?thesis using None assms(1,2) by (simp add: map_of_all_variants map_add_def)
  next
    case (Some p)
    then have "v \<in> set (map fst vs')" using assms(3) by (metis map_of_eq_None_iff option.distinct(1) set_map)
    then obtain p' where "map_of vs' v = Some p'" by (metis map_of_eq_None_iff not_None_eq set_map)
    then show ?thesis using Some le [OF Some] assms(1,2) by (simp add: map_of_all_variants map_add_def)
  qed
  then have "the (map_of (all_variants_of vs) v) * int ?n * 10 \<le> the (map_of (all_variants_of vs') v) * int ?n * 10"
    by (simp add: mult_right_mono)
  then show ?thesis using n b by (simp add: choose_variant_alt Let_def)
qed

text \<open>The buckets of a variant: every \<open>n\<close>-th one, from its place in the sorted names.\<close>

lemma choose_variant_iff:
  assumes i: "i < length (all_variants_of vs)" and v: "sort (map fst (all_variants_of vs)) ! i = v" and b: "0 \<le> b"
  shows "choose_variant b vs = Some v \<longleftrightarrow>
    b mod int (length (all_variants_of vs)) = int i \<and>
    b < the (map_of (all_variants_of vs) v) * int (length (all_variants_of vs)) * 10"
proof -
  let ?n = "length (all_variants_of vs)" and ?names = "sort (map fst (all_variants_of vs))"
  have d: "distinct ?names" using dict_ok_all_variants by (simp add: dict_ok_def)
  have "all_variants_of vs \<noteq> []" using i by auto
  then have lt: "nat (b mod int ?n) < length ?names" by (simp add: nat_less_iff)
  have "?names ! nat (b mod int ?n) = v \<longleftrightarrow> nat (b mod int ?n) = i"
    using nth_eq_iff_index_eq [OF d lt, of i] v i by simp
  moreover have "0 \<le> b mod int ?n" using i by (intro pos_mod_sign) auto
  then have "nat (b mod int ?n) = i \<longleftrightarrow> b mod int ?n = int i" by auto
  ultimately show ?thesis by (auto simp: choose_variant_alt Let_def split: if_splits)
qed

lemma variant_share:
  assumes "map_of (all_variants_of vs) v = Some p" "0 \<le> p" "p * int (length (all_variants_of vs)) \<le> 100"
  shows "card {b. 0 \<le> b \<and> b < NUM_BUCKETS \<and> choose_variant b vs = Some v} = nat (10 * p)"
proof -
  let ?n = "length (all_variants_of vs)"
  have "v \<in> set (sort (map fst (all_variants_of vs)))"
    using map_of_SomeD [OF assms(1)] by force
  then obtain i where i: "i < ?n" "sort (map fst (all_variants_of vs)) ! i = v"
    by (metis in_set_conv_nth length_map length_sort)
  have "{b. 0 \<le> b \<and> b < NUM_BUCKETS \<and> choose_variant b vs = Some v} = (\<lambda>j. int i + int ?n * j) ` {0..<10 * p}"
  proof (intro set_eqI iffI)
    fix b assume "b \<in> {b. 0 \<le> b \<and> b < NUM_BUCKETS \<and> choose_variant b vs = Some v}"
    then have b: "0 \<le> b" "b mod int ?n = int i" "b < p * int ?n * 10"
      using choose_variant_iff [OF i] assms(1) by auto
    have eq: "b = int i + int ?n * (b div int ?n)" using b(2) by (metis add.commute mult_div_mod_eq)
    have "int ?n * (b div int ?n) < int ?n * (10 * p)" using b(3) eq by (simp add: algebra_simps)
    then have "b div int ?n < 10 * p" using i(1) by (simp add: mult_less_cancel_left)
    moreover have "0 \<le> b div int ?n" using b(1) by (simp add: div_int_pos_iff)
    ultimately show "b \<in> (\<lambda>j. int i + int ?n * j) ` {0..<10 * p}" using eq by (intro image_eqI) auto
  next
    fix b assume "b \<in> (\<lambda>j. int i + int ?n * j) ` {0..<10 * p}"
    then obtain j where "j \<in> {0..<10 * p}" and jb: "b = int i + int ?n * j" by blast
    then have j: "b = int i + int ?n * j" "0 \<le> j" "j < 10 * p" by simp_all
    have "int ?n * (j + 1) \<le> int ?n * (10 * p)" using j(3) by (intro mult_left_mono) auto
    then have lt: "b < p * int ?n * 10" using i(1) j(1) by (simp add: algebra_simps)
    have "b mod int ?n = int i" using i(1) j(1) by simp
    moreover have "0 \<le> b" using j by simp
    moreover have "b < NUM_BUCKETS" using lt assms(3) by (simp add: NUM_BUCKETS_def)
    ultimately show "b \<in> {b. 0 \<le> b \<and> b < NUM_BUCKETS \<and> choose_variant b vs = Some v}"
      using choose_variant_iff [OF i] lt assms(1) by auto
  qed
  moreover have "inj_on (\<lambda>j. int i + int ?n * j) {0..<10 * p}" using i(1) by (auto simp: inj_on_def)
  ultimately show ?thesis by (simp add: card_image)
qed

subsection \<open>Properties\<close>

text \<open>
  Experiments assign buckets as documented: a variant of \<open>p\<close> percent gets exactly \<open>p\<close> percent of
  the thousand buckets (as long as \<open>p\<close> does not exceed its share of the whole), and raising
  percentages keeps every bucket that had a variant in that variant.
\<close>

lemma choose_variant_correct:
  assumes "dict_ok vs" "dict_ok vs'" "set (map fst vs) = set (map fst vs')"
    and "\<And>k p p'. map_of vs k = Some p \<Longrightarrow> map_of vs' k = Some p' \<Longrightarrow> p \<le> p'"
    and "map_of (all_variants_of vs) v = Some p" "0 \<le> p" "p * int (length (all_variants_of vs)) \<le> 100"
  shows "card {b. 0 \<le> b \<and> b < NUM_BUCKETS \<and> choose_variant b vs = Some v} = nat (10 * p) \<and>
    (\<forall>b x. choose_variant b vs = Some x \<longrightarrow> choose_variant b vs' = Some x)"
  using variant_share [OF assms(5-7)] choose_variant_mono [OF assms(1-3)] assms(4) by blast

text \<open>
  A feature without a usable configuration is off for everyone: when the live config has no
  entry for it, or one that is not \<open>on\<close> and is not a JSON object, \<open>is_enabled\<close> answers false for
  every user and request, and does not raise.
\<close>

lemma unusable_config_is_off:
  assumes "map_of cache name = None"
    and "\<And>s e. loads s = Inl e \<Longrightarrow> \<exists>x. e = ValueError x \<or> e = TypeError x"
    and "\<And>s. map_of (live_config w) (''feature_'' @ name) = Some s \<Longrightarrow>
      s = [] \<or> s = ''off'' \<or> s \<noteq> ''on'' \<and> (\<forall>d. loads s \<noteq> Inr (JObj d))"
  shows "module_is_enabled loads sha1 w name user subreddit subdomain oauth_client cache sent
    = Inr (False, AList.update name DISABLED_CFG cache, sent)"
proof -
  have "parse_config loads w name None None = Inr DISABLED_CFG"
  proof (cases "map_of (live_config w) (''feature_'' @ name)")
    case None
    then show ?thesis by (simp add: parse_config_def)
  next
    case (Some s)
    show ?thesis
    proof (cases "loads s")
      case (Inl e)
      then show ?thesis using Some assms(2) [OF Inl] assms(3) [OF Some] by (auto simp: parse_config_def)
    next
      case (Inr j)
      then show ?thesis using Some assms(3) [OF Some]
        by (auto simp: parse_config_def split: json.splits)
    qed
  qed
  moreover have "feature_is_enabled sha1 w name DISABLED_CFG u subreddit subdomain oauth_client sent = Inr (False, sent)" for u
    by (simp add: feature_is_enabled_def is_config_enabled_def DISABLED_CFG_def json_get_def is_percent_enabled_def
        cfg_number_def experiment_of_def Let_def)
  ultimately show ?thesis using assms(1) by (simp add: module_is_enabled_def get_featurestate_def Let_def)
qed

definition sample_fworld :: fworld where
  "sample_fworld = \<lparr>current_user = None, admins = [''spez''], current_loid = Some ''00000abc'', url_features = [],
     live_config = [(''feature_broken'', ''[1,''), (''feature_exp'', ''{...}'')], enable_loggedout_experiments = True,
     running_as_script = False\<rparr>"

definition sample_user :: fuser where
  "sample_user = \<lparr>u_name = ''alice'', u_fullname = ''t2_1'', u_id = 1, u_employee = False, u_beta = False, u_gold = False\<rparr>"

text \<open>
  No experiment can be on. \<open>_is_experiment_enabled\<close> never answers true: for a user who has been
  put into a variant it raises, because \<open>World\<close> has no method \<open>valid_experiment_request\<close>, and for an
  experiment on pages it raises because \<open>request\<close> is not imported.
\<close>

lemma experiments_raise:
  assumes "(case map_of experiment ''enabled'' of None \<Rightarrow> True | Some j \<Rightarrow> json_true j)"
  shows "(is_user_experiment experiment \<and> get_user_experiment_variant sha1 w name experiment user = Inr (Some v) \<longrightarrow>
      is_experiment_enabled sha1 w name experiment user sent = Inl (AttributeError ''valid_experiment_request'')) \<and>
    (is_page_experiment experiment \<longrightarrow>
      is_experiment_enabled sha1 w name experiment user sent = Inl (NameError ''request'')) \<and>
    (\<forall>sent'. is_experiment_enabled sha1 w name experiment user sent \<noteq> Inr (True, sent'))"
  using assms
  by (auto simp: is_experiment_enabled_def valid_experiment_request_def get_content_id_def is_user_experiment_def
      bindr_eq_Inr_iff split: option.splits if_splits)

end
