(* ===== verification/MessageTree.thy ===== *)
theory MessageTree
  imports Prelude
begin

section \<open>Message conversations\<close>

text \<open>
  Models the message conversations of \<open>r2/lib/comment_tree.py\<close>: the list of conversations (root message
  and its replies) kept per user in the permacache, computed from all messages
  (\<open>compute_message_trees\<close>) or kept up to date message by message (\<open>_add_message_nolock\<close>). The database
  is a parameter: which messages exist, and the query for a conversation.
\<close>

record message =
  msg_id :: int
  msg_first :: "int option"
  msg_date :: int
  msg_author :: int
  msg_to :: "int option"
  msg_sr :: "int option"

type_synonym convo = "int \<times> int list"

definition tree_sort_fn :: "convo \<Rightarrow> int" where
  "tree_sort_fn t = (case t of (root, threads) \<Rightarrow> if threads = [] then root else last threads)"

text \<open>\<open>if m.first_message\<close>: an id of 0 counts as none.\<close>

definition first_true :: "message \<Rightarrow> int option" where
  "first_true m = (case msg_first m of None \<Rightarrow> None | Some f \<Rightarrow> if f = 0 then None else Some f)"

definition root_of :: "message \<Rightarrow> int" where
  "root_of m = (case first_true m of None \<Rightarrow> msg_id m | Some f \<Rightarrow> f)"

definition thread_of :: "message list \<Rightarrow> int \<Rightarrow> int list" where
  "thread_of ms r = sort (remdups (map msg_id (filter (\<lambda>m. first_true m = Some r) ms)))"

text \<open>Roots that are not among the messages are loaded; that raises when one does not exist.\<close>

definition compute_message_trees :: "(int \<Rightarrow> bool) \<Rightarrow> message list \<Rightarrow> convo list result" where
  "compute_message_trees exists messages =
     (let ms = sort_reverse msg_date messages;
          roots = remdups (map root_of ms);
          missing = filter (\<lambda>r. r \<notin> set (map msg_id ms)) roots in
      if list_all exists missing
      then Inr (sort_reverse tree_sort_fn (map (\<lambda>r. (r, thread_of ms r)) roots))
      else Inl NotFound)"

definition MESSAGE_TREE_SIZE_LIMIT :: nat where
  "MESSAGE_TREE_SIZE_LIMIT = 15000"

definition tree_size :: "convo list \<Rightarrow> nat" where
  "tree_size trees = length trees + (\<Sum>t\<leftarrow>trees. length (snd t))"

text \<open>
  The reply is put into the list of its conversation, which \<open>dict(trees)\<close> shares with the list of
  conversations; of several conversations with one root the dictionary has the last.
\<close>

fun add_reply :: "int \<Rightarrow> int \<Rightarrow> convo list \<Rightarrow> convo list" where
  "add_reply root i [] = []"
| "add_reply root i ((r, th) # trees) =
     (if r = root \<and> root \<notin> fst ` set trees
      then (r, if i \<in> set th then th else sort (th @ [i])) # trees
      else (r, th) # add_reply root i trees)"

text \<open>
  \<open>_add_message_nolock\<close> on the entry of the permacache (\<open>None\<close>: no entry). \<open>conversation_of f\<close> is the query
  for the messages of a conversation.
\<close>

definition add_message_nolock ::
    "(int \<Rightarrow> bool) \<Rightarrow> (int \<Rightarrow> message list) \<Rightarrow> message \<Rightarrow> convo list option \<Rightarrow> convo list option result" where
  "add_message_nolock exists conversation_of m entry =
     (case entry of
        None \<Rightarrow> Inr None
      | Some [] \<Rightarrow> Inr None
      | Some trees \<Rightarrow>
          bindr (case msg_first m of
                   None \<Rightarrow> Inr ((msg_id m, []) # trees)
                 | Some f \<Rightarrow>
                     if f \<in> set (map fst trees) then Inr (sort_reverse tree_sort_fn (add_reply f (msg_id m) trees))
                     else bindr (compute_message_trees exists (conversation_of f)) (\<lambda>new_tree.
                       Inr (sort_reverse tree_sort_fn (trees @ take 1 new_tree)))) (\<lambda>trees'.
            Inr (Some (if MESSAGE_TREE_SIZE_LIMIT < tree_size trees' then butlast trees' else trees'))))"

text \<open>
  \<open>add_message\<close>: which entries of the permacache are updated, in order. \<open>UserTree\<close> and \<open>SrTree\<close> are the
  keys \<open>message_conversations_\<close> and \<open>sr_messages_conversation_\<close>.
\<close>

datatype tree_key = UserTree int | SrTree int

definition add_message_keys :: "message \<Rightarrow> bool \<Rightarrow> bool \<Rightarrow> int option \<Rightarrow> tree_key list" where
  "add_message_keys m update_recipient update_modmail add_to_user =
     [UserTree (msg_author m)] @
     (case msg_to m of
        Some t \<Rightarrow> if update_recipient \<and> t \<noteq> 0 \<and> t \<noteq> msg_author m then [UserTree t] else []
      | None \<Rightarrow> []) @
     (case msg_sr m of Some s \<Rightarrow> if update_modmail \<and> s \<noteq> 0 then [SrTree s] else [] | None \<Rightarrow> []) @
     (case add_to_user of Some u \<Rightarrow> if msg_to m \<noteq> Some u then [UserTree u] else [] | None \<Rightarrow> [])"

fun add_to_keys ::
    "(int \<Rightarrow> bool) \<Rightarrow> (int \<Rightarrow> message list) \<Rightarrow> message \<Rightarrow> tree_key list \<Rightarrow> (tree_key \<Rightarrow> convo list option)
     \<Rightarrow> (tree_key \<Rightarrow> convo list option) result" where
  "add_to_keys exists conversation_of m [] perma = Inr perma"
| "add_to_keys exists conversation_of m (k # ks) perma =
     bindr (add_message_nolock exists conversation_of m (perma k)) (\<lambda>e.
       add_to_keys exists conversation_of m ks (perma(k := e)))"

definition add_message ::
    "(int \<Rightarrow> bool) \<Rightarrow> (int \<Rightarrow> message list) \<Rightarrow> message \<Rightarrow> bool \<Rightarrow> bool \<Rightarrow> int option
     \<Rightarrow> (tree_key \<Rightarrow> convo list option) \<Rightarrow> (tree_key \<Rightarrow> convo list option) result" where
  "add_message exists conversation_of m update_recipient update_modmail add_to_user perma =
     add_to_keys exists conversation_of m (add_message_keys m update_recipient update_modmail add_to_user) perma"

text \<open>\<open>user_messages\<close> and \<open>subreddit_messages\<close>: the entry, or the conversations of all messages.\<close>

definition messages_entry ::
    "(int \<Rightarrow> bool) \<Rightarrow> message list \<Rightarrow> bool \<Rightarrow> convo list option \<Rightarrow> (convo list \<times> convo list option) result" where
  "messages_entry exists messages update entry =
     (case entry of
        Some (t # ts) \<Rightarrow>
          if update then bindr (compute_message_trees exists messages) (\<lambda>trees. Inr (trees, Some trees))
          else Inr (t # ts, entry)
      | _ \<Rightarrow> bindr (compute_message_trees exists messages) (\<lambda>trees. Inr (trees, Some trees)))"

text \<open>
  \<open>_conversation\<close>: \<open>parent_of i\<close> and \<open>first_of i\<close> are the fields of the message \<open>i\<close> in the database.
\<close>

definition conversation ::
    "(int \<Rightarrow> bool) \<Rightarrow> (int \<Rightarrow> message list) \<Rightarrow> (int \<Rightarrow> int option) \<Rightarrow> (int \<Rightarrow> int option) \<Rightarrow> convo list \<Rightarrow> message
     \<Rightarrow> convo list result" where
  "conversation exists conversation_of first_of parent_of trees parent =
     (case map_of (rev trees) (msg_id parent) of
        Some [] \<Rightarrow> Inr [(msg_id parent, [])]
      | Some (i # is) \<Rightarrow>
          if first_of i = parent_of i then Inr [(msg_id parent, i # is)]
          else compute_message_trees exists (parent # conversation_of (msg_id parent))
      | None \<Rightarrow> compute_message_trees exists (parent # conversation_of (msg_id parent)))"

subsection \<open>Lemmas\<close>

text \<open>Ids identify messages; a box may list a message twice (sent to oneself).\<close>

definition wf_messages :: "message list \<Rightarrow> bool" where
  "wf_messages ms \<longleftrightarrow> inj_on msg_id (set ms)"

abbreviation descending :: "convo list \<Rightarrow> bool" where
  "descending \<equiv> sorted_wrt (\<lambda>a b. tree_sort_fn b < tree_sort_fn a)"

lemma descending_sort_reverse:
  assumes "distinct ts" "inj_on tree_sort_fn (set ts)"
  shows "descending (sort_reverse tree_sort_fn ts)"
proof -
  have "distinct (map tree_sort_fn (sort_key tree_sort_fn (rev ts)))"
    using assms by (simp add: distinct_map)
  moreover have "sorted (map tree_sort_fn (sort_key tree_sort_fn (rev ts)))" by simp
  ultimately have "sorted_wrt (<) (map tree_sort_fn (sort_key tree_sort_fn (rev ts)))"
    by (simp add: strict_sorted_iff)
  then show ?thesis by (simp add: sort_reverse_def sorted_wrt_rev sorted_wrt_map)
qed

lemma descending_unique:
  assumes "descending xs" "descending ys" "set xs = set ys"
  shows "xs = ys"
proof -
  have "sorted_wrt (<) (map tree_sort_fn (rev zs))" if "descending zs" for zs
    using that by (simp add: sorted_wrt_map sorted_wrt_rev)
  then have s: "sorted_wrt (<) (map tree_sort_fn (rev xs))" "sorted_wrt (<) (map tree_sort_fn (rev ys))"
    using assms by blast+
  then have "map tree_sort_fn (rev xs) = map tree_sort_fn (rev ys)"
    using assms(3) by (intro sorted_distinct_set_unique) (auto simp: strict_sorted_iff)
  moreover have "inj_on tree_sort_fn (set (rev xs) \<union> set (rev ys))"
    using s(1) assms(3) by (simp add: strict_sorted_iff distinct_map)
  ultimately show ?thesis using map_inj_on by (metis rev_rev_ident)
qed

text \<open>The conversations as a set, and their order, do not depend on the order of the messages.\<close>

definition convos :: "message list \<Rightarrow> convo set" where
  "convos ms = (\<lambda>r. (r, thread_of ms r)) ` root_of ` set ms"

lemma set_thread_of: "i \<in> set (thread_of ms r) \<longleftrightarrow> (\<exists>m \<in> set ms. msg_id m = i \<and> first_true m = Some r)"
  by (auto simp: thread_of_def)

lemma thread_of_cong: "set ms = set ms' \<Longrightarrow> thread_of ms r = thread_of ms' r"
  unfolding thread_of_def by (intro sorted_distinct_set_unique) auto

lemma last_thread_of: "thread_of ms r \<noteq> [] \<Longrightarrow> last (thread_of ms r) \<in> set (thread_of ms r)"
  by simp

lemma convos_inj:
  assumes "wf_messages ms"
  shows "inj_on tree_sort_fn (convos ms)"
proof (rule inj_onI)
  fix x y assume x: "x \<in> convos ms" and y: "y \<in> convos ms" and eq: "tree_sort_fn x = tree_sort_fn y"
  obtain r m where r: "x = (r, thread_of ms r)" "m \<in> set ms" "r = root_of m" using x by (auto simp: convos_def)
  obtain s n where s: "y = (s, thread_of ms s)" "n \<in> set ms" "s = root_of n" using y by (auto simp: convos_def)
  have uniq: "a = b" if "a \<in> set ms" "b \<in> set ms" "msg_id a = msg_id b" for a b
    using that assms by (meson inj_onD wf_messages_def)
  have mixed: False
    if th: "thread_of ms u \<noteq> []" "thread_of ms v = []" and k: "last (thread_of ms u) = v"
      and q: "q \<in> set ms" "v = root_of q" for u v q
  proof -
    obtain a where a: "a \<in> set ms" "msg_id a = v" "first_true a = Some u"
      using last_thread_of [OF th(1)] k set_thread_of by metis
    show False
    proof (cases "first_true q")
      case None
      then have "msg_id q = v" using q(2) by (simp add: root_of_def)
      then show False using uniq [OF a(1) q(1)] a None by simp
    next
      case (Some f)
      then have "msg_id q \<in> set (thread_of ms v)" using q by (auto simp: set_thread_of root_of_def)
      then show False using th(2) by simp
    qed
  qed
  have "r = s"
  proof (cases "thread_of ms r = []"; cases "thread_of ms s = []")
    assume "thread_of ms r \<noteq> []" "thread_of ms s \<noteq> []"
    then have "last (thread_of ms r) = last (thread_of ms s)" using eq r(1) s(1) by (simp add: tree_sort_fn_def)
    then obtain a b where "a \<in> set ms" "b \<in> set ms" "msg_id a = msg_id b" "first_true a = Some r" "first_true b = Some s"
      using last_thread_of [OF \<open>thread_of ms r \<noteq> []\<close>] last_thread_of [OF \<open>thread_of ms s \<noteq> []\<close>] by (metis set_thread_of)
    then show "r = s" using uniq by fastforce
  next
    assume "thread_of ms r = []" "thread_of ms s \<noteq> []"
    then show "r = s" using mixed [of s r m] eq r s by (simp add: tree_sort_fn_def)
  next
    assume "thread_of ms r \<noteq> []" "thread_of ms s = []"
    then show "r = s" using mixed [of r s n] eq r s by (simp add: tree_sort_fn_def)
  qed (use eq r(1) s(1) in \<open>simp add: tree_sort_fn_def\<close>)
  then show "x = y" using r(1) s(1) by simp
qed

lemma compute_message_trees_Inr:
  assumes "compute_message_trees exists ms = Inr ts" "wf_messages ms"
  shows "set ts = convos ms" "descending ts" "distinct (map fst ts)"
proof -
  let ?ms = "sort_reverse msg_date ms"
  let ?l = "map (\<lambda>r. (r, thread_of ?ms r)) (remdups (map root_of ?ms))"
  have ts: "ts = sort_reverse tree_sort_fn ?l"
    using assms(1) by (auto simp: compute_message_trees_def Let_def split: if_splits)
  have l: "set ?l = convos ms"
    using thread_of_cong [of ?ms ms] by (auto simp: convos_def)
  then show "set ts = convos ms" by (simp add: ts)
  have f: "distinct (map fst ?l)" by (simp add: comp_def)
  then have d: "distinct ?l" unfolding distinct_map by blast
  show "descending ts" unfolding ts
    using descending_sort_reverse [OF d] convos_inj [OF assms(2)] l by simp
  have "inj_on fst (set ts)" using f unfolding distinct_map by (simp add: ts)
  then show "distinct (map fst ts)" unfolding distinct_map using d ts by simp
qed

lemma thread_of_Cons:
  "first_true m \<noteq> Some r \<Longrightarrow> thread_of (m # ms) r = thread_of ms r"
  by (simp add: thread_of_def)

lemma thread_of_reply:
  "first_true m = Some r \<Longrightarrow> msg_id m \<notin> set (thread_of ms r) \<Longrightarrow> thread_of (m # ms) r = sort (thread_of ms r @ [msg_id m])"
proof (rule sorted_distinct_set_unique)
  assume m: "first_true m = Some r" "msg_id m \<notin> set (thread_of ms r)"
  have "distinct (thread_of ms r @ [msg_id m])" using m(2) by (simp add: thread_of_def)
  then show "distinct (sort (thread_of ms r @ [msg_id m]))" by (simp only: distinct_sort)
  show "sorted (thread_of (m # ms) r)" "distinct (thread_of (m # ms) r)" by (simp_all add: thread_of_def)
  show "sorted (sort (thread_of ms r @ [msg_id m]))" by (rule sorted_sort)
  have "i \<in> set (thread_of (m # ms) r) \<longleftrightarrow> i \<in> set (thread_of ms r @ [msg_id m])" for i
    using m(1) set_thread_of [of i "m # ms"] set_thread_of [of i ms] by auto
  then show "set (thread_of (m # ms) r) = set (sort (thread_of ms r @ [msg_id m]))" unfolding set_sort by blast
qed

lemma convo_key_less:
  assumes "t \<in> convos ms" "\<And>x. x \<in> set ms \<Longrightarrow> msg_id x < i \<and> root_of x < i"
  shows "tree_sort_fn t < i"
proof -
  obtain x where x: "t = (root_of x, thread_of ms (root_of x))" "x \<in> set ms" using assms(1) by (auto simp: convos_def)
  show ?thesis
  proof (cases "thread_of ms (root_of x) = []")
    case True
    then show ?thesis using x assms(2) by (simp add: tree_sort_fn_def)
  next
    case False
    then obtain y where "y \<in> set ms" "msg_id y = last (thread_of ms (root_of x))"
      using last_thread_of set_thread_of by metis
    then show ?thesis using x(1) False assms(2) [of y] by (simp add: tree_sort_fn_def)
  qed
qed

lemma new_root_tree:
  assumes wf: "wf_messages ms" and c: "compute_message_trees exists ms = Inr ts"
    and new: "\<And>x. x \<in> set ms \<Longrightarrow> msg_id x < msg_id m \<and> root_of x < msg_id m" and root: "first_true m = None"
  shows "set ((msg_id m, []) # ts) = convos (m # ms)" "descending ((msg_id m, []) # ts)"
proof -
  note t = compute_message_trees_Inr [OF c wf]
  have "thread_of ms (msg_id m) = []"
  proof -
    have "i \<notin> set (thread_of ms (msg_id m))" for i
      using new by (fastforce simp: set_thread_of root_of_def)
    then show ?thesis by (meson last_in_set)
  qed
  then have "thread_of (m # ms) r = thread_of ms r" "thread_of (m # ms) (msg_id m) = []" for r
    using thread_of_Cons [of m] root by simp_all
  then show "set ((msg_id m, []) # ts) = convos (m # ms)"
    using root by (simp add: t(1) convos_def root_of_def)
  show "descending ((msg_id m, []) # ts)"
    using t(1,2) convo_key_less [of _ ms "msg_id m"] new by (simp add: tree_sort_fn_def)
qed

text \<open>With distinct roots, adding a reply changes the one conversation.\<close>

definition reply_in :: "int \<Rightarrow> int \<Rightarrow> convo \<Rightarrow> convo" where
  "reply_in root i t = (fst t, if fst t = root then if i \<in> set (snd t) then snd t else sort (snd t @ [i]) else snd t)"

lemma add_reply_map: "distinct (map fst ts) \<Longrightarrow> add_reply root i ts = map (reply_in root i) ts"
proof (induction root i ts rule: add_reply.induct)
  case (2 root i r th trees)
  have "map (reply_in root i) trees = trees" if "root \<notin> fst ` set trees"
    using that by (intro map_idI) (auto simp: reply_in_def image_iff)
  moreover have "reply_in root i (r, th) = (if r = root then (r, if i \<in> set th then th else sort (th @ [i])) else (r, th))"
    by (simp add: reply_in_def)
  ultimately show ?case using 2 by auto
qed simp

lemma reply_tree:
  assumes wf: "wf_messages (m # ms)" "wf_messages ms" and c: "compute_message_trees exists ms = Inr ts"
    and less: "\<And>x. x \<in> set ms \<Longrightarrow> msg_id x < msg_id m \<and> root_of x < msg_id m"
    and f: "first_true m = Some f" "f \<in> root_of ` set ms"
  shows "set (add_reply f (msg_id m) ts) = convos (m # ms)" "distinct (map fst (add_reply f (msg_id m) ts))"
proof -
  note t = compute_message_trees_Inr [OF c wf(2)]
  have new: "msg_id m \<notin> set (thread_of ms r)" for r
    using less by (metis less_irrefl set_thread_of)
  have upd: "reply_in f (msg_id m) (r, thread_of ms r) = (r, thread_of (m # ms) r)" for r
  proof (cases "r = f")
    case True
    then show ?thesis using new [of f] thread_of_reply [OF f(1) new] by (simp only: reply_in_def fst_conv snd_conv if_True if_False simp_thms)
  next
    case False
    then show ?thesis using thread_of_Cons [of m r ms] f(1) by (simp add: reply_in_def)
  qed
  note a = add_reply_map [OF t(3), of f "msg_id m"]
  have "set (add_reply f (msg_id m) ts) = (\<lambda>r. (r, thread_of (m # ms) r)) ` root_of ` set ms"
    unfolding a set_map t(1) convos_def image_image upd by (rule refl)
  also have "root_of ` set ms = root_of ` set (m # ms)" using f by (auto simp: root_of_def)
  finally show "set (add_reply f (msg_id m) ts) = convos (m # ms)" by (simp add: convos_def)
  have "map fst (add_reply f (msg_id m) ts) = map fst ts" unfolding a by (simp add: reply_in_def)
  then show "distinct (map fst (add_reply f (msg_id m) ts))" using t(3) by simp
qed

lemma wf_messages_tail: "wf_messages (m # ms) \<Longrightarrow> wf_messages ms"
  unfolding wf_messages_def by (metis inj_on_subset set_subset_Cons)

subsection \<open>Properties\<close>


definition sample_message :: "int \<Rightarrow> int option \<Rightarrow> message" where
  "sample_message i f = \<lparr>msg_id = i, msg_first = f, msg_date = i, msg_author = 1, msg_to = Some 2, msg_sr = None\<rparr>"


end
