(* ===== verification/CommentTree.thy ===== *)
theory CommentTree
  imports Prelude "HOL-Library.Option_ord" "HOL-Library.Multiset"
begin

section \<open>Comment trees\<close>

text \<open>
  Models \<open>r2/models/comment_tree.py\<close> and \<open>r2/lib/utils/comment_tree_utils.pyx\<close>. The stored tree maps
  the id of a parent comment (\<open>None\<close> for the top level) to the ids of its replies in order; depth,
  parents and the number of descendants are computed from it. In Python 2 \<open>None\<close> sorts before
  every number, as in the order of \<open>Option_ord\<close>.
\<close>

type_synonym ctree = "(int option, int list) dict"

record comment =
  c_id :: int
  c_parent :: "int option"

definition children :: "ctree \<Rightarrow> int option \<Rightarrow> int list" where
  "children tree p = (case map_of tree p of None \<Rightarrow> [] | Some cs \<Rightarrow> cs)"

subsection \<open>What is computed from a tree\<close>

record tree_details =
  td_cids :: "int list"
  td_depth :: "(int, int) dict"
  td_parents :: "(int, int option) dict"

definition details_step :: "ctree \<Rightarrow> int option \<Rightarrow> tree_details \<Rightarrow> tree_details" where
  "details_step tree parent_id td =
     (let child_ids = children tree parent_id;
          child_depth = (case parent_id of
              None \<Rightarrow> - 1
            | Some p \<Rightarrow> (case map_of (td_depth td) p of None \<Rightarrow> - 1 | Some d \<Rightarrow> d)) + 1 in
      \<lparr>td_cids = td_cids td @ child_ids,
       td_depth = dict_update (td_depth td) (map (\<lambda>c. (c, child_depth)) child_ids),
       td_parents = dict_update (td_parents td) (map (\<lambda>c. (c, parent_id)) child_ids)\<rparr>)"

definition get_tree_details :: "ctree \<Rightarrow> tree_details" where
  "get_tree_details tree =
     fold (details_step tree) (sort (map fst tree)) \<lparr>td_cids = [], td_depth = [], td_parents = []\<rparr>"

definition num_step :: "ctree \<Rightarrow> int option \<Rightarrow> (int, int) dict \<Rightarrow> (int, int) dict" where
  "num_step tree parent_id num =
     (case parent_id of
        None \<Rightarrow> num
      | Some p \<Rightarrow> AList.update p
          (\<Sum>c\<leftarrow>children tree parent_id. 1 + (case map_of num c of None \<Rightarrow> 0 | Some n \<Rightarrow> n)) num)"

definition calc_num_children :: "ctree \<Rightarrow> (int, int) dict" where
  "calc_num_children tree = fold (num_step tree) (rev (sort (map fst tree))) []"

subsection \<open>Storage\<close>

text \<open>
  The permacache entry of a link's tree; the lock taken around each operation makes it one step.
\<close>

definition load_tree :: "ctree option \<Rightarrow> ctree" where
  "load_tree stored = (case stored of None \<Rightarrow> [] | Some t \<Rightarrow> t)"

definition prepare_new_storage :: "ctree option \<Rightarrow> ctree option" where
  "prepare_new_storage stored = (if load_tree stored = [] then Some [] else stored)"

text \<open>\<open>tree.setdefault(comment.parent_id, []).append(comment._id)\<close>.\<close>

definition append_child :: "comment \<Rightarrow> ctree \<Rightarrow> ctree" where
  "append_child c tree = AList.update (c_parent c) (children tree (c_parent c) @ [c_id c]) tree"

definition possible_orphans :: "int list \<Rightarrow> comment list \<Rightarrow> comment list" where
  "possible_orphans cids comments =
     filter (\<lambda>c. case c_parent c of None \<Rightarrow> False | Some p \<Rightarrow> p \<noteq> 0 \<and> p \<notin> set cids \<and> p \<notin> set (map c_id comments)) comments"

text \<open>
  The new comments are collected in a set; the order in which it is traversed is the order of first
  occurrence here. Comments are equal when their ids are.
\<close>

fun unique_comments :: "comment list \<Rightarrow> comment list" where
  "unique_comments [] = []"
| "unique_comments (c # cs) = c # filter (\<lambda>d. c_id d \<noteq> c_id c) (unique_comments cs)"

definition tree_add_comments :: "comment list \<Rightarrow> ctree option \<Rightarrow> ctree option" where
  "tree_add_comments comments stored =
     (let tree = load_tree stored;
          cids = td_cids (get_tree_details tree);
          new = unique_comments (filter (\<lambda>c. c_id c \<notin> set cids) comments) in
      if new = [] then stored else Some (fold append_child new tree))"

definition tree_rebuild :: "comment list \<Rightarrow> ctree option \<Rightarrow> ctree option" where
  "tree_rebuild comments stored = Some (fold append_child comments [])"

text \<open>
  \<open>CommentTree.rebuild\<close>: comments with missing parents are dropped; the Boolean of each comment says
  whether it is deleted. The new number of comments of the link is returned too.
\<close>

definition link_rebuild :: "(comment \<times> bool) list \<Rightarrow> ctree option \<Rightarrow> ctree option \<times> nat" where
  "link_rebuild comments stored =
     (let comment_ids = map (c_id \<circ> fst) comments;
          kept = filter (\<lambda>(c, _). case c_parent c of None \<Rightarrow> True | Some p \<Rightarrow> p = 0 \<or> p \<in> set comment_ids) comments in
      (tree_rebuild (map fst kept) stored, length (filter (\<lambda>(_, deleted). \<not> deleted) kept)))"

subsection \<open>Well-formed trees\<close>

text \<open>
  Every comment occurs once, and a reply has a greater id than its parent (ids are handed out in the
  order of creation).
\<close>

definition all_children :: "ctree \<Rightarrow> int list" where
  "all_children tree = concat (map snd tree)"

definition wf_tree :: "ctree \<Rightarrow> bool" where
  "wf_tree tree \<longleftrightarrow> dict_ok tree \<and> distinct (all_children tree) \<and>
     (\<forall>p. \<forall>c \<in> set (children tree (Some p)). p < c)"

inductive at_depth :: "ctree \<Rightarrow> int \<Rightarrow> int \<Rightarrow> bool" for tree where
  top: "c \<in> set (children tree None) \<Longrightarrow> at_depth tree c 0"
| reply: "at_depth tree p d \<Longrightarrow> c \<in> set (children tree (Some p)) \<Longrightarrow> at_depth tree c (d + 1)"

inductive_cases at_depthE: "at_depth tree c d"

text \<open>Descendants.\<close>

inductive desc :: "ctree \<Rightarrow> int \<Rightarrow> int \<Rightarrow> bool" for tree where
  child: "c \<in> set (children tree (Some p)) \<Longrightarrow> desc tree p c"
| below: "desc tree p c \<Longrightarrow> d \<in> set (children tree (Some c)) \<Longrightarrow> desc tree p d"

inductive_cases descE: "desc tree p c"

text \<open>No orphans: every comment that has replies is itself in the tree.\<close>

definition rooted :: "ctree \<Rightarrow> bool" where
  "rooted tree \<longleftrightarrow> (\<forall>p. Some p \<in> set (map fst tree) \<longrightarrow> p \<in> set (all_children tree))"

lemma in_children: "c \<in> set (children tree p) \<longleftrightarrow> (\<exists>cs. map_of tree p = Some cs \<and> c \<in> set cs)"
  by (cases "map_of tree p") (simp_all add: children_def)

lemma children_in_all:
  assumes "c \<in> set (children tree p)"
  shows "c \<in> set (all_children tree)" "p \<in> set (map fst tree)"
proof -
  obtain cs where cs: "(p, cs) \<in> set tree" "c \<in> set cs"
    using assms in_children [of c tree p] map_of_SomeD by metis
  then show "c \<in> set (all_children tree)" "p \<in> set (map fst tree)"
    by (force simp: all_children_def)+
qed

lemma all_children_children:
  assumes "dict_ok tree" "c \<in> set (all_children tree)"
  obtains p where "c \<in> set (children tree p)"
proof -
  obtain p cs where "(p, cs) \<in> set tree" "c \<in> set cs" using assms(2) by (auto simp: all_children_def)
  moreover from this have "map_of tree p = Some cs" using assms(1) by (simp add: dict_ok_def)
  ultimately show thesis using that in_children [of c tree p] by metis
qed

lemma distinct_concat_same:
  "distinct (concat (map snd tree)) \<Longrightarrow> (p, cs) \<in> set tree \<Longrightarrow> (q, ds) \<in> set tree \<Longrightarrow>
   c \<in> set cs \<Longrightarrow> c \<in> set ds \<Longrightarrow> (p, cs) = (q, ds)"
proof (induction tree)
  case (Cons x tree)
  have sub: "set ys \<subseteq> set (concat (map snd tree))" if "(z, ys) \<in> set tree" for z ys
    using that by force
  have dis: "set (snd x) \<inter> set (concat (map snd tree)) = {}" and d: "distinct (concat (map snd tree))"
    using Cons.prems(1) by simp_all
  show ?case
  proof (cases "(p, cs) \<in> set tree \<and> (q, ds) \<in> set tree")
    case True
    then show ?thesis using Cons.IH [OF d] Cons.prems(4,5) by blast
  next
    case False
    then consider "x = (p, cs)" "x = (q, ds)" | "x = (p, cs)" "(q, ds) \<in> set tree" | "x = (q, ds)" "(p, cs) \<in> set tree"
      using Cons.prems(2,3) by auto
    moreover have "c \<notin> set (concat (map snd tree))" if "c \<in> set (snd x)" using dis that by blast
    ultimately show ?thesis
      using Cons.prems(4,5) sub [of q ds] sub [of p cs] by cases (auto simp del: set_concat)
  qed
qed simp

lemma unique_parent:
  assumes "wf_tree tree" "c \<in> set (children tree p)" "c \<in> set (children tree q)"
  shows "p = q"
proof -
  obtain cs ds where "map_of tree p = Some cs" "c \<in> set cs" "map_of tree q = Some ds" "c \<in> set ds"
    using assms(2,3) unfolding in_children by blast
  then have "(p, cs) = (q, ds)"
    using assms(1) by (intro distinct_concat_same) (auto simp: wf_tree_def all_children_def dest: map_of_SomeD)
  then show ?thesis by simp
qed

lemma wf_tree_less: "wf_tree tree \<Longrightarrow> c \<in> set (children tree (Some p)) \<Longrightarrow> p < c"
  by (auto simp: wf_tree_def)

lemma desc_less: "desc tree p c \<Longrightarrow> wf_tree tree \<Longrightarrow> p < c"
  by (induction rule: desc.induct) (auto dest: wf_tree_less)

subsection \<open>Depths\<close>

text \<open>
  The loop over the sorted parents, after the parents in \<open>pre\<close>: the replies of exactly those have a
  depth, and it is right.
\<close>

definition depths_right :: "ctree \<Rightarrow> int option list \<Rightarrow> (int, int) dict \<Rightarrow> bool" where
  "depths_right tree pre depth \<longleftrightarrow> (\<forall>c. case map_of depth c of
       None \<Rightarrow> \<forall>p \<in> set pre. c \<notin> set (children tree p)
     | Some d \<Rightarrow> at_depth tree c d)"

lemma map_of_const: "map_of (map (\<lambda>c. (c, d)) cs) c = (if c \<in> set cs then Some d else None)"
  by (induction cs) auto

lemma map_of_dict_update_const:
  "map_of (dict_update m (map (\<lambda>c. (c, d)) cs)) c = (if c \<in> set cs then Some d else map_of m c)"
  unfolding dict_update_def by (induction cs arbitrary: m) auto

lemma depths_right_step:
  assumes wf: "wf_tree tree" and rooted: "rooted tree" and ok: "depths_right tree pre (td_depth td)"
    and k: "k \<in> set (map fst tree)" and earlier: "\<And>q. q \<in> set (map fst tree) \<Longrightarrow> q < k \<Longrightarrow> q \<in> set pre"
  shows "depths_right tree (pre @ [k]) (td_depth (details_step tree k td))"
proof -
  have new: "\<exists>d. td_depth (details_step tree k td) = dict_update (td_depth td) (map (\<lambda>c. (c, d)) (children tree k)) \<and>
    (\<forall>c \<in> set (children tree k). at_depth tree c d)"
  proof (cases k)
    case None
    then show ?thesis by (intro exI [of _ 0]) (auto simp: details_step_def Let_def intro: at_depth.top)
  next
    case (Some p)
    have "p \<in> set (all_children tree)" using rooted k Some by (simp add: rooted_def)
    then obtain q where q: "p \<in> set (children tree q)"
      using all_children_children wf unfolding wf_tree_def by blast
    have "q < k"
    proof (cases q)
      case None
      then show ?thesis using Some by simp
    next
      case (Some q')
      then show ?thesis using wf_tree_less [OF wf, of p q'] q \<open>k = Some p\<close> by simp
    qed
    then have "q \<in> set pre" using earlier children_in_all(2) [OF q] by blast
    then obtain d where d: "map_of (td_depth td) p = Some d" "at_depth tree p d"
      using ok q unfolding depths_right_def by (metis (no_types, lifting) option.case_eq_if option.collapse)
    then show ?thesis using Some
      by (intro exI [of _ "d + 1"]) (auto simp: details_step_def Let_def intro: at_depth.reply)
  qed
  then obtain d where d: "td_depth (details_step tree k td) = dict_update (td_depth td) (map (\<lambda>c. (c, d)) (children tree k))"
    "\<forall>c \<in> set (children tree k). at_depth tree c d" by blast
  show ?thesis
    unfolding depths_right_def
  proof
    fix c
    show "case map_of (td_depth (details_step tree k td)) c of
       None \<Rightarrow> \<forall>p \<in> set (pre @ [k]). c \<notin> set (children tree p) | Some d \<Rightarrow> at_depth tree c d"
      using ok [unfolded depths_right_def, THEN spec, of c] d
      by (cases "c \<in> set (children tree k)") (auto simp: map_of_dict_update_const split: option.splits)
  qed
qed

lemma depths_right_fold:
  assumes wf: "wf_tree tree" and rooted: "rooted tree"
    and "sorted (pre @ post)" "distinct (pre @ post)" "set (pre @ post) = set (map fst tree)"
    and "depths_right tree pre (td_depth td)"
  shows "depths_right tree (pre @ post) (td_depth (fold (details_step tree) post td))"
  using assms(3-6)
proof (induction post arbitrary: pre td)
  case Nil
  then show ?case by simp
next
  case (Cons k post)
  have "q \<in> set pre" if "q \<in> set (map fst tree)" "q < k" for q
  proof -
    have "q \<in> set pre \<union> insert k (set post)" using that(1) Cons.prems(3) by (metis list.simps(15) set_append)
    moreover have "q \<notin> insert k (set post)" using Cons.prems(1) that(2) by (auto simp: sorted_append)
    ultimately show ?thesis by blast
  qed
  moreover have "k \<in> set (map fst tree)" using Cons.prems(3) by (metis in_set_conv_decomp)
  ultimately have "depths_right tree (pre @ [k]) (td_depth (details_step tree k td))"
    by (intro depths_right_step [OF wf rooted Cons.prems(4)])
  then show ?case using Cons.IH [of "pre @ [k]" "details_step tree k td"] Cons.prems by simp
qed

lemma tree_depths:
  assumes "wf_tree tree" "rooted tree"
  shows "\<forall>c. case map_of (td_depth (get_tree_details tree)) c of
      None \<Rightarrow> c \<notin> set (all_children tree) | Some d \<Rightarrow> at_depth tree c d"
proof -
  have d: "dict_ok tree" using assms(1) by (simp add: wf_tree_def)
  then have "distinct (sort (map fst tree))" by (simp add: dict_ok_def)
  then have r: "depths_right tree ([] @ sort (map fst tree)) (td_depth (get_tree_details tree))"
    unfolding get_tree_details_def
    by (intro depths_right_fold [OF assms]) (simp_all add: depths_right_def)
  show ?thesis
  proof
    fix c
    show "case map_of (td_depth (get_tree_details tree)) c of None \<Rightarrow> c \<notin> set (all_children tree) | Some d \<Rightarrow> at_depth tree c d"
      using r [unfolded depths_right_def, THEN spec, of c] all_children_children [OF d, of c] children_in_all(2) [of c tree]
      by (cases "map_of (td_depth (get_tree_details tree)) c") auto
  qed
qed

subsection \<open>Numbers of descendants\<close>

lemma desc_of_child: "desc tree c x \<Longrightarrow> c \<in> set (children tree (Some p)) \<Longrightarrow> desc tree p x"
  by (induction rule: desc.induct) (auto intro: desc.intros)

lemma desc_unfold: "{x. desc tree p x} = (\<Union>c \<in> set (children tree (Some p)). insert c {x. desc tree c x})"
proof (intro set_eqI iffI)
  fix x assume "x \<in> {x. desc tree p x}"
  then have "desc tree p x" by simp
  then show "x \<in> (\<Union>c \<in> set (children tree (Some p)). insert c {x. desc tree c x})"
    by (induction rule: desc.induct) (auto intro: desc.intros)
qed (auto intro: desc.child desc_of_child)

lemma desc_parent:
  assumes "wf_tree tree" "desc tree a x" "x \<in> set (children tree (Some y))"
  shows "y = a \<or> desc tree a y"
  using assms(2) by cases (use unique_parent [OF assms(1) _ assms(3)] in auto)

lemma desc_chain:
  assumes "wf_tree tree" "desc tree a x" "desc tree b x"
  shows "a = b \<or> desc tree a b \<or> desc tree b a"
  using assms(2,3)
proof (induction rule: desc.induct)
  case (child x a)
  then show ?case using desc_parent [OF assms(1)] by blast
next
  case (below a c x)
  then have "c = b \<or> desc tree b c" using desc_parent [OF assms(1)] by blast
  then show ?case using below by blast
qed

lemma siblings_disjoint:
  assumes wf: "wf_tree tree" and c: "c \<in> set (children tree (Some p))" "d \<in> set (children tree (Some p))" "c \<noteq> d"
  shows "insert c {x. desc tree c x} \<inter> insert d {x. desc tree d x} = {}"
proof -
  have no: "\<not> desc tree a b" if "a \<in> set (children tree (Some p))" "b \<in> set (children tree (Some p))" for a b
  proof
    assume "desc tree a b"
    then have "p = a \<or> desc tree a p" using desc_parent [OF wf _ that(2)] by blast
    then have "a \<le> p" using desc_less [OF _ wf] by (auto simp: less_imp_le)
    then show False using wf_tree_less [OF wf that(1)] by simp
  qed
  show ?thesis using no [OF c(1,2)] no [OF c(2,1)] c(3) desc_chain [OF wf] by blast
qed

lemma finite_desc: "finite {x. desc tree p x}"
proof (rule finite_subset)
  show "{x. desc tree p x} \<subseteq> set (all_children tree)"
    using children_in_all(1) by (blast elim: descE)
qed simp

lemma distinct_children: "wf_tree tree \<Longrightarrow> distinct (children tree p)"
proof -
  assume wf: "wf_tree tree"
  have "distinct cs" if "map_of tree p = Some cs" for cs
  proof -
    have "cs \<in> set (map snd tree)" using map_of_SomeD [OF that] by force
    moreover have "distinct (concat (map snd tree))" using wf by (simp add: wf_tree_def all_children_def)
    ultimately show ?thesis unfolding distinct_concat_iff by blast
  qed
  then show ?thesis by (cases "map_of tree p") (auto simp: children_def)
qed

lemma card_desc:
  assumes wf: "wf_tree tree"
  shows "int (card {x. desc tree p x}) = (\<Sum>c\<leftarrow>children tree (Some p). 1 + int (card {x. desc tree c x}))"
proof -
  have "card {x. desc tree p x} = (\<Sum>c \<in> set (children tree (Some p)). card (insert c {x. desc tree c x}))"
    unfolding desc_unfold [of tree p]
    using siblings_disjoint [OF wf] finite_desc by (intro card_UN_disjoint) auto
  also have "\<dots> = (\<Sum>c \<in> set (children tree (Some p)). 1 + card {x. desc tree c x})"
    using desc_less [OF _ wf] finite_desc by (intro sum.cong) (auto simp: card_insert_if)
  finally show ?thesis using distinct_children [OF wf] by (simp add: sum_list_distinct_conv_sum_set)
qed

definition nums_right :: "ctree \<Rightarrow> int option set \<Rightarrow> (int, int) dict \<Rightarrow> bool" where
  "nums_right tree pre num \<longleftrightarrow> (\<forall>p. map_of num p = (if Some p \<in> pre then Some (int (card {x. desc tree p x})) else None))"

lemma nums_right_step:
  assumes wf: "wf_tree tree" and ok: "nums_right tree pre num" and pre: "pre \<subseteq> set (map fst tree)"
    and later: "\<And>q. q \<in> set (map fst tree) \<Longrightarrow> k < q \<Longrightarrow> q \<in> pre"
  shows "nums_right tree (insert k pre) (num_step tree k num)"
proof (cases k)
  case None
  then show ?thesis using ok by (simp add: nums_right_def num_step_def)
next
  case (Some p)
  have "(case map_of num c of None \<Rightarrow> 0 | Some n \<Rightarrow> n) = int (card {x. desc tree c x})"
    if c: "c \<in> set (children tree (Some p))" for c
  proof (cases "Some c \<in> set (map fst tree)")
    case True
    then have "Some c \<in> pre" using later Some wf_tree_less [OF wf c] by simp
    then show ?thesis using ok by (simp add: nums_right_def)
  next
    case False
    then have "set (children tree (Some c)) = {}" using children_in_all(2) [of _ tree "Some c"] by (meson equals0I)
    then have "{x. desc tree c x} = {}" using desc_unfold [of tree c] by simp
    moreover have "Some c \<notin> pre" using False pre by blast
    ultimately show ?thesis using ok by (simp add: nums_right_def)
  qed
  then have "(\<Sum>c\<leftarrow>children tree k. 1 + (case map_of num c of None \<Rightarrow> 0 | Some n \<Rightarrow> n)) = int (card {x. desc tree p x})"
    using card_desc [OF wf, of p] Some by (simp cong: map_cong)
  then show ?thesis using ok Some by (simp add: nums_right_def num_step_def)
qed

lemma nums_right_fold:
  assumes wf: "wf_tree tree" and "sorted (rev ks)" "distinct ks" "set ks \<union> pre = set (map fst tree)"
    and "\<And>q k. q \<in> pre \<Longrightarrow> k \<in> set ks \<Longrightarrow> k < q" "nums_right tree pre num"
  shows "nums_right tree (set ks \<union> pre) (fold (num_step tree) ks num)"
  using assms(2-6)
proof (induction ks arbitrary: pre num)
  case Nil
  then show ?case by simp
next
  case (Cons k ks)
  have le: "\<forall>x \<in> set ks. x \<le> k" using Cons.prems(1) by (simp add: sorted_append)
  have "nums_right tree (insert k pre) (num_step tree k num)"
  proof (rule nums_right_step [OF wf Cons.prems(5)])
    show "pre \<subseteq> set (map fst tree)" using Cons.prems(3) by blast
    show "q \<in> pre" if "q \<in> set (map fst tree)" "k < q" for q
    proof -
      have "q \<in> set (k # ks) \<union> pre" using that(1) Cons.prems(3) by blast
      moreover have "q \<notin> set (k # ks)" using le that(2) by auto
      ultimately show ?thesis by blast
    qed
  qed
  moreover have "x < q" if "q \<in> insert k pre" "x \<in> set ks" for q x
    using that le Cons.prems(2,4) by (metis distinct.simps(2) insertE list.set_intros(2) order_le_neq_trans)
  ultimately have "nums_right tree (set ks \<union> insert k pre) (fold (num_step tree) ks (num_step tree k num))"
    using Cons.prems by (intro Cons.IH) (auto simp: sorted_append)
  then show ?case by simp
qed

lemma tree_num_children:
  assumes "wf_tree tree"
  shows "map_of (calc_num_children tree) p
    = (if Some p \<in> set (map fst tree) then Some (int (card {x. desc tree p x})) else None)"
proof -
  have "distinct (map fst tree)" using assms by (simp add: wf_tree_def dict_ok_def)
  then have "nums_right tree (set (rev (sort (map fst tree))) \<union> {}) (calc_num_children tree)"
    unfolding calc_num_children_def
    by (intro nums_right_fold [OF assms]) (simp_all add: nums_right_def)
  then show ?thesis by (simp add: nums_right_def)
qed

subsection \<open>Adding comments\<close>

lemma td_cids_fold: "td_cids (fold (details_step tree) ks td) = td_cids td @ concat (map (children tree) ks)"
  by (induction ks arbitrary: td) (auto simp: details_step_def Let_def)

lemma set_td_cids:
  assumes "dict_ok tree"
  shows "set (td_cids (get_tree_details tree)) = set (all_children tree)"
proof (intro set_eqI iffI)
  fix c assume "c \<in> set (all_children tree)"
  then obtain p where p: "c \<in> set (children tree p)" using all_children_children [OF assms] by blast
  then show "c \<in> set (td_cids (get_tree_details tree))"
    using children_in_all(2) [OF p] by (auto simp: get_tree_details_def td_cids_fold)
next
  fix c assume "c \<in> set (td_cids (get_tree_details tree))"
  then obtain p where "c \<in> set (children tree p)" by (auto simp: get_tree_details_def td_cids_fold)
  then show "c \<in> set (all_children tree)" by (rule children_in_all(1))
qed

lemma children_append_child:
  "children (append_child c tree) p = (if p = c_parent c then children tree p @ [c_id c] else children tree p)"
  by (simp add: append_child_def children_def)

lemma mset_append_child:
  assumes "dict_ok tree"
  shows "mset (all_children (append_child c tree)) = add_mset (c_id c) (mset (all_children tree))"
  using assms
proof (induction tree)
  case Nil
  then show ?case by (simp add: append_child_def all_children_def children_def)
next
  case (Cons kv tree)
  obtain k cs where kv: "kv = (k, cs)" by (cases kv)
  show ?case
  proof (cases "k = c_parent c")
    case True
    then show ?thesis by (simp add: kv append_child_def all_children_def children_def)
  next
    case False
    then have "append_child c (kv # tree) = kv # append_child c tree"
      by (simp add: kv append_child_def children_def)
    then show ?thesis using Cons by (simp add: dict_ok_def all_children_def)
  qed
qed

lemma append_child_wf:
  assumes "wf_tree tree" "c_id c \<notin> set (all_children tree)" "\<And>p. c_parent c = Some p \<Longrightarrow> p < c_id c"
  shows "wf_tree (append_child c tree)" "set (all_children (append_child c tree)) = insert (c_id c) (set (all_children tree))"
proof -
  have d: "dict_ok tree" using assms(1) by (simp add: wf_tree_def)
  note m = mset_append_child [OF d, of c]
  show s: "set (all_children (append_child c tree)) = insert (c_id c) (set (all_children tree))"
    using arg_cong [OF m, of set_mset] by simp
  have "distinct (c_id c # all_children tree)" using assms(1,2) by (simp add: wf_tree_def)
  then have "distinct (all_children (append_child c tree))"
    using m by (metis mset.simps(2) mset_eq_imp_distinct_iff)
  then show "wf_tree (append_child c tree)"
    using assms(1,3) unfolding wf_tree_def
    by (auto simp: children_append_child) (simp add: append_child_def)
qed

lemma fold_append_child_wf:
  assumes "wf_tree tree" "distinct (map c_id cs)" "\<And>c. c \<in> set cs \<Longrightarrow> c_id c \<notin> set (all_children tree)"
    and "\<And>c p. c \<in> set cs \<Longrightarrow> c_parent c = Some p \<Longrightarrow> p < c_id c"
  shows "wf_tree (fold append_child cs tree) \<and>
    set (all_children (fold append_child cs tree)) = c_id ` set cs \<union> set (all_children tree) \<and>
    set (map fst (fold append_child cs tree)) = c_parent ` set cs \<union> set (map fst tree)"
  using assms
proof (induction cs arbitrary: tree)
  case Nil
  then show ?case by simp
next
  case (Cons c cs)
  have w: "wf_tree (append_child c tree)" "set (all_children (append_child c tree)) = insert (c_id c) (set (all_children tree))"
    using append_child_wf [of tree c] Cons.prems by auto
  have k: "set (map fst (append_child c tree)) = insert (c_parent c) (set (map fst tree))"
    by (simp add: append_child_def dom_update)
  have "wf_tree (fold append_child cs (append_child c tree)) \<and>
    set (all_children (fold append_child cs (append_child c tree))) = c_id ` set cs \<union> set (all_children (append_child c tree)) \<and>
    set (map fst (fold append_child cs (append_child c tree))) = c_parent ` set cs \<union> set (map fst (append_child c tree))"
  proof (rule Cons.IH [OF w(1)])
    show "distinct (map c_id cs)" using Cons.prems(2) by simp
    show "c_id d \<notin> set (all_children (append_child c tree))" if "d \<in> set cs" for d
    proof -
      have "c_id d \<noteq> c_id c" using Cons.prems(2) that by (metis distinct.simps(2) image_eqI list.map(2) set_map)
      then show ?thesis using Cons.prems(3) [of d] that unfolding w(2) by simp
    qed
    show "p < c_id d" if "d \<in> set cs" "c_parent d = Some p" for d p using Cons.prems(4) that by simp
  qed
  then show ?case unfolding w(2) k by auto
qed

lemma unique_comments:
  "distinct (map c_id (unique_comments cs))" "set (unique_comments cs) \<subseteq> set cs"
  "c_id ` set (unique_comments cs) = c_id ` set cs"
proof (induction cs)
  case (Cons c cs)
  {
    case 1
    show ?case using Cons(1) by (auto simp: distinct_map inj_on_def)
  next
    case 2
    show ?case using Cons(2) by auto
  next
    case 3
    have "c_id ` set (filter (\<lambda>d. c_id d \<noteq> c_id c) (unique_comments cs)) = c_id ` set cs - {c_id c}"
      unfolding Cons(3) [symmetric] by auto
    then show ?case by auto
  }
qed simp_all

text \<open>
  Comments handed to \<open>add_comments\<close>: replies come after their parents in the numbering, and parents
  are in the tree or among the comments.
\<close>

definition addable :: "comment list \<Rightarrow> ctree \<Rightarrow> bool" where
  "addable cs tree \<longleftrightarrow> (\<forall>c \<in> set cs. \<forall>p. c_parent c = Some p \<longrightarrow>
     p < c_id c \<and> (p \<in> set (all_children tree) \<or> p \<in> c_id ` set cs))"

lemma tree_add_comments_wf:
  assumes wf: "wf_tree (load_tree s)" and r: "rooted (load_tree s)" and a: "addable cs (load_tree s)"
  shows "wf_tree (load_tree (tree_add_comments cs s))" "rooted (load_tree (tree_add_comments cs s))"
    "set (all_children (load_tree (tree_add_comments cs s))) = set (all_children (load_tree s)) \<union> c_id ` set cs"
proof -
  let ?t = "load_tree s"
  let ?new = "unique_comments (filter (\<lambda>c. c_id c \<notin> set (all_children ?t)) cs)"
  have d: "dict_ok ?t" using wf by (simp add: wf_tree_def)
  have sub: "set ?new \<subseteq> set cs" "\<And>c. c \<in> set ?new \<Longrightarrow> c_id c \<notin> set (all_children ?t)"
    using unique_comments(2) [of "filter (\<lambda>c. c_id c \<notin> set (all_children ?t)) cs"] by auto
  have ids: "c_id ` set ?new \<union> set (all_children ?t) = set (all_children ?t) \<union> c_id ` set cs"
    unfolding unique_comments(3) by auto
  have "wf_tree (fold append_child ?new ?t) \<and>
    set (all_children (fold append_child ?new ?t)) = c_id ` set ?new \<union> set (all_children ?t) \<and>
    set (map fst (fold append_child ?new ?t)) = c_parent ` set ?new \<union> set (map fst ?t)"
    by (rule fold_append_child_wf [OF wf unique_comments(1) sub(2)])
       (use a sub(1) in \<open>auto simp: addable_def\<close>)
  then have f: "wf_tree (fold append_child ?new ?t)"
    "set (all_children (fold append_child ?new ?t)) = set (all_children ?t) \<union> c_id ` set cs"
    "set (map fst (fold append_child ?new ?t)) = c_parent ` set ?new \<union> set (map fst ?t)"
    unfolding ids by blast+
  have res: "load_tree (tree_add_comments cs s) = fold append_child ?new ?t"
    using set_td_cids [OF d] by (auto simp: tree_add_comments_def Let_def load_tree_def)
  have "p \<in> set (all_children (fold append_child ?new ?t))" if "Some p \<in> set (map fst (fold append_child ?new ?t))" for p
  proof -
    have "Some p \<in> c_parent ` set ?new \<or> Some p \<in> set (map fst ?t)" using that f(3) by blast
    then show ?thesis
    proof
      assume "Some p \<in> c_parent ` set ?new"
      then obtain c where "c \<in> set cs" "c_parent c = Some p" using sub(1) by force
      then show ?thesis using a f(2) unfolding addable_def by blast
    next
      assume "Some p \<in> set (map fst ?t)"
      then show ?thesis using r f(2) unfolding rooted_def by blast
    qed
  qed
  then show "rooted (load_tree (tree_add_comments cs s))" unfolding res rooted_def by blast
  show "wf_tree (load_tree (tree_add_comments cs s))"
    "set (all_children (load_tree (tree_add_comments cs s))) = set (all_children ?t) \<union> c_id ` set cs"
    unfolding res by (rule f)+
qed

lemma tree_add_comments_again:
  assumes "dict_ok (load_tree s)" "c_id ` set cs \<subseteq> set (all_children (load_tree s))"
  shows "tree_add_comments cs s = s"
proof -
  have "filter (\<lambda>c. c_id c \<notin> set (td_cids (get_tree_details (load_tree s)))) cs = []"
    using assms by (auto simp: set_td_cids filter_empty_conv)
  then show ?thesis by (simp add: tree_add_comments_def Let_def)
qed

subsection \<open>Properties\<close>


definition sample_tree :: ctree where
  "sample_tree = [(None, [1, 4]), (Some 1, [2, 3]), (Some 3, [5])]"


text \<open>
  Adding comments keeps a tree in good shape and loses nothing: if parents are in the tree or
  are added along, \<open>add_comments\<close> keeps the tree well formed and free of orphans, the tree then
  holds exactly the old comments and the new ones, and adding the same comments again (the queue
  may deliver them twice) changes nothing.
\<close>

lemma comment_tree_add:
  assumes "wf_tree (load_tree s)" "rooted (load_tree s)" "addable cs (load_tree s)"
  shows "wf_tree (load_tree (tree_add_comments cs s)) \<and> rooted (load_tree (tree_add_comments cs s)) \<and>
    set (all_children (load_tree (tree_add_comments cs s))) = set (all_children (load_tree s)) \<union> c_id ` set cs \<and>
    tree_add_comments cs (tree_add_comments cs s) = tree_add_comments cs s"
proof -
  note w = tree_add_comments_wf [OF assms]
  have "tree_add_comments cs (tree_add_comments cs s) = tree_add_comments cs s"
    by (rule tree_add_comments_again) (use w in \<open>auto simp: wf_tree_def\<close>)
  then show ?thesis using w by blast
qed

end
