(* ===== verification/Sorts.thy ===== *)
theory Sorts
  imports Complex_Main "HOL-Library.Word"
begin

section \<open>Sort functions\<close>

text \<open>
  Models \<open>r2/lib/db/_sorts.pyx\<close>. The file is Cython: \<open>long\<close> and \<open>int\<close> arguments are C integers of 64 and
  32 bits, and \<open>/\<close> between them is an integer division. Results of type \<open>double\<close> are real numbers
  here; the functions \<open>log10\<close> and \<open>sqrt\<close> of the C library are the fields of \<open>libm\<close>.
\<close>

record libm =
  m_log10 :: "real \<Rightarrow> real"
  m_sqrt :: "real \<Rightarrow> real"

text \<open>A value stored in a C \<open>long\<close> or \<open>int\<close>.\<close>

definition clong :: "int \<Rightarrow> int" where
  "clong n = sint (word_of_int n :: 64 word)"

definition cint :: "int \<Rightarrow> int" where
  "cint n = sint (word_of_int n :: 32 word)"

definition score :: "int \<Rightarrow> int \<Rightarrow> int" where
  "score ups downs = clong (clong (ups * 2) + downs)"

text \<open>\<open>round(x, 7)\<close> rounds half away from zero.\<close>

definition round7 :: "real \<Rightarrow> real" where
  "round7 x = (if x < 0 then - (of_int \<lfloor>- x * 10 ^ 7 + 1 / 2\<rfloor> / 10 ^ 7) else of_int \<lfloor>x * 10 ^ 7 + 1 / 2\<rfloor> / 10 ^ 7)"

definition hot :: "libm \<Rightarrow> real \<Rightarrow> int \<Rightarrow> int \<Rightarrow> real \<Rightarrow> real" where
  "hot lib hot_period_seconds ups downs date =
     (let s = score ups downs;
          order = m_log10 lib (of_int (max \<bar>s\<bar> 1));
          sign = (if s > 0 then 1 else if s < 0 then - 1 else 0 :: real);
          seconds = date - 1134028003 in
      round7 (sign * order + seconds / hot_period_seconds))"

definition upvotes :: "int \<Rightarrow> int" where
  "upvotes ups = ups"

definition controversy :: "int \<Rightarrow> int \<Rightarrow> int" where
  "controversy ups downs =
     (if downs \<le> 0 \<or> ups < 0 then 0 else clong (downs + ups div clong (ups + downs)))"

text \<open>\<open>_confidence\<close>, the lower bound of an 80\% confidence interval.\<close>

definition confidence_formula :: "libm \<Rightarrow> int \<Rightarrow> int \<Rightarrow> real" where
  "confidence_formula lib ups downs =
     (let n = of_int (cint (ups + downs)) :: real in
      if n = 0 then 0
      else
        let z = 1281551565545 / 10 ^ 12;
            p = of_int ups / n;
            left = p + 1 / (2 * n) * z * z;
            right = z * m_sqrt lib (p * (1 - p) / n + z * z / (4 * n * n));
            under = 1 + 1 / n * z * z in
        (left - right) / under)"

definition up_range :: int where
  "up_range = 400"

definition down_range :: int where
  "down_range = 100"

definition confidences :: "libm \<Rightarrow> real list" where
  "confidences lib =
     concat (map (\<lambda>ups. map (\<lambda>downs. confidence_formula lib (int ups) (int downs)) [0..<nat down_range]) [0..<nat up_range])"

text \<open>A Python list index: negative positions count from the end.\<close>

definition list_index :: "'a list \<Rightarrow> int \<Rightarrow> 'a option" where
  "list_index xs i =
     (let j = (if i < 0 then i + int (length xs) else i) in
      if 0 \<le> j \<and> j < int (length xs) then Some (xs ! nat j) else None)"

definition confidence :: "libm \<Rightarrow> int \<Rightarrow> int \<Rightarrow> real option" where
  "confidence lib ups downs =
     (if cint (ups + downs) = 0 then Some 0
      else if ups < up_range \<and> downs < down_range then list_index (confidences lib) (cint (downs + ups * down_range))
      else Some (confidence_formula lib ups downs))"

text \<open>
  The sort for questions and answers. An answer is given by its votes and its length; \<open>None\<close> is the
  \<open>IndexError\<close> of the table.
\<close>

record qa_answer =
  a_ups :: int
  a_downs :: int
  a_length :: int

definition qa_score :: "libm \<Rightarrow> real \<Rightarrow> int \<Rightarrow> real \<Rightarrow> int \<Rightarrow> real" where
  "qa_score lib question_score question_length answer_score answer_length =
     question_score + answer_score + m_log10 lib (of_int (cint (question_length + answer_length))) / 5"

fun best_answer :: "libm \<Rightarrow> qa_answer list \<Rightarrow> (real \<times> int) option \<Rightarrow> (real \<times> int) option option" where
  "best_answer lib [] best = Some best"
| "best_answer lib (a # as) best =
     (case confidence lib (a_ups a) (a_downs a) of
        None \<Rightarrow> None
      | Some s \<Rightarrow> best_answer lib as
          (case best of None \<Rightarrow> Some (s, a_length a) | Some (b, l) \<Rightarrow> if s > b then Some (s, a_length a) else best))"

definition qa :: "libm \<Rightarrow> int \<Rightarrow> int \<Rightarrow> int \<Rightarrow> qa_answer list \<Rightarrow> real option" where
  "qa lib question_ups question_downs question_length op_children =
     (case confidence lib question_ups question_downs of
        None \<Rightarrow> None
      | Some q \<Rightarrow>
          (case best_answer lib op_children None of
             None \<Rightarrow> None
           | Some None \<Rightarrow> Some (qa_score lib q question_length 0 1)
           | Some (Some (s, l)) \<Rightarrow> Some (qa_score lib q question_length s l)))"

subsection \<open>Lemmas\<close>

lemma clong_id: "- (2 ^ 63) \<le> n \<Longrightarrow> n < 2 ^ 63 \<Longrightarrow> clong n = n"
  by (simp add: clong_def sint_sbintrunc' signed_take_bit_int_eq_self)

lemma cint_id: "- (2 ^ 31) \<le> n \<Longrightarrow> n < 2 ^ 31 \<Longrightarrow> cint n = n"
  by (simp add: cint_def sint_sbintrunc' signed_take_bit_int_eq_self)

lemma clong_range: "- (2 ^ 63) \<le> clong n" "clong n < 2 ^ 63"
  using sint_range_size [of "word_of_int n :: 64 word"] by (simp_all add: clong_def word_size)

lemma nth_concat_rows:
  assumes "\<And>r. r \<in> set rs \<Longrightarrow> length r = n" "i < length rs" "j < n"
  shows "concat rs ! (j + i * n) = rs ! i ! j \<and> j + i * n < length (concat rs)"
  using assms
proof (induction rs arbitrary: i)
  case (Cons r rs)
  have r: "length r = n" using Cons.prems(1) by simp
  show ?case
  proof (cases i)
    case 0
    then show ?thesis using r Cons.prems(3) by (simp add: nth_append)
  next
    case (Suc k)
    then have "concat rs ! (j + k * n) = rs ! k ! j \<and> j + k * n < length (concat rs)"
      using Cons.IH [of k] Cons.prems by simp
    moreover have "j + i * n = length r + (j + k * n)" using r Suc by simp
    ultimately show ?thesis using Suc by (simp add: nth_append)
  qed
qed simp

lemma confidences_nth:
  assumes "u < 400" "d < 100"
  shows "confidences lib ! (d + u * 100) = confidence_formula lib (int u) (int d)" "d + u * 100 < length (confidences lib)"
proof -
  let ?rs = "map (\<lambda>ups. map (\<lambda>downs. confidence_formula lib (int ups) (int downs)) [0..<100]) [0..<400]"
  have "length r = 100" if "r \<in> set ?rs" for r using that by auto
  then have "concat ?rs ! (d + u * 100) = ?rs ! u ! d \<and> d + u * 100 < length (concat ?rs)"
    using assms by (intro nth_concat_rows) simp_all
  then show "confidences lib ! (d + u * 100) = confidence_formula lib (int u) (int d)" "d + u * 100 < length (confidences lib)"
    using assms by (simp_all add: confidences_def up_range_def down_range_def del: upt_Suc)
qed

lemma round7_mono: "x \<le> y \<Longrightarrow> round7 x \<le> round7 y"
proof -
  assume xy: "x \<le> y"
  have nn: "0 \<le> \<lfloor>z * 10 ^ 7 + 1 / 2\<rfloor>" if "0 \<le> z" for z :: real using that by (simp add: zero_le_floor)
  consider "0 \<le> x" | "x < 0" "0 \<le> y" | "y < 0" using xy by linarith
  then show ?thesis
  proof cases
    case 1
    then have "\<lfloor>x * 10 ^ 7 + 1 / 2\<rfloor> \<le> \<lfloor>y * 10 ^ 7 + 1 / 2\<rfloor>" using xy by (intro floor_mono) simp
    then show ?thesis using 1 xy by (simp add: round7_def divide_right_mono)
  next
    case 2
    have "round7 x \<le> 0" using 2(1) nn [of "- x"] by (simp add: round7_def)
    moreover have "0 \<le> round7 y" using 2(2) nn [of y] by (simp add: round7_def)
    ultimately show ?thesis by linarith
  next
    case 3
    then have "\<lfloor>- y * 10 ^ 7 + 1 / 2\<rfloor> \<le> \<lfloor>- x * 10 ^ 7 + 1 / 2\<rfloor>" using xy by (intro floor_mono) simp
    then show ?thesis using 3 xy by (simp add: round7_def divide_right_mono)
  qed
qed

subsection \<open>Properties\<close>

text \<open>
  The hot order is monotone: more insightful or funny votes, or a later date, never lower the hot
  value, as long as the score fits a C \<open>long\<close>. The logarithm must be monotone and not negative from 1 on.
\<close>

lemma hot_monotone:
  assumes "0 \<le> ups" "ups \<le> ups'" "0 \<le> downs" "downs \<le> downs'" "2 * ups' + downs' < 2 ^ 63"
    and "date \<le> date'" "0 < hot_period_seconds"
    and "\<And>x y. 1 \<le> x \<Longrightarrow> x \<le> y \<Longrightarrow> 0 \<le> m_log10 lib x \<and> m_log10 lib x \<le> m_log10 lib y"
  shows "hot lib hot_period_seconds ups downs date \<le> hot lib hot_period_seconds ups' downs' date'"
proof -
  have s: "score u d = 2 * u + d" if "0 \<le> u" "u \<le> ups'" "0 \<le> d" "d \<le> downs'" for u d
  proof -
    have "clong (u * 2) = u * 2" using that assms(5) by (intro clong_id) linarith+
    moreover have "clong (u * 2 + d) = u * 2 + d" using that assms(5) by (intro clong_id) linarith+
    ultimately show ?thesis by (simp add: score_def)
  qed
  have s1: "score ups downs = 2 * ups + downs" and s2: "score ups' downs' = 2 * ups' + downs'"
    using s [of ups downs] s [of ups' downs'] assms(1-4) by simp_all
  let ?l = "\<lambda>n :: int. (if n > 0 then 1 else if n < 0 then - 1 else 0) * m_log10 lib (of_int (max \<bar>n\<bar> 1))"
  have "?l (2 * ups + downs) \<le> ?l (2 * ups' + downs')"
    using assms(1-4) assms(8) [of "of_int (max \<bar>2 * ups + downs\<bar> 1)" "of_int (max \<bar>2 * ups' + downs'\<bar> 1)"]
      assms(8) [of "of_int (max \<bar>2 * ups' + downs'\<bar> 1)" "of_int (max \<bar>2 * ups' + downs'\<bar> 1)"]
    by auto
  moreover have "(date - 1134028003) / hot_period_seconds \<le> (date' - 1134028003) / hot_period_seconds"
    using assms(6,7) by (simp add: divide_right_mono)
  ultimately show ?thesis
    unfolding hot_def Let_def s1 s2 by (intro round7_mono add_mono) simp_all
qed

text \<open>
  The table of confidences is only an optimisation: for any numbers of votes that are not negative
  and whose sum fits a C \<open>int\<close>, the value taken from the table, or computed when the votes are outside
  of it, is the value of the formula.
\<close>

lemma confidence_table_exact:
  assumes "0 \<le> ups" "0 \<le> downs" "ups + downs < 2 ^ 31"
  shows "confidence lib ups downs = Some (confidence_formula lib ups downs)"
proof (cases "ups < up_range \<and> downs < down_range")
  case True
  then have r: "nat ups < 400" "nat downs < 100" using assms by (auto simp: up_range_def down_range_def nat_less_iff)
  have c: "cint (downs + ups * down_range) = downs + ups * 100" "cint (ups + downs) = ups + downs"
    using assms True by (simp_all add: cint_id up_range_def down_range_def)
  have n: "nat (downs + ups * 100) = nat downs + nat ups * 100"
    using assms(1,2) by (simp add: nat_add_distrib nat_mult_distrib)
  have "downs + ups * 100 < int (length (confidences lib))"
    using confidences_nth(2) [OF r, of lib] n assms(1,2) by linarith
  then show ?thesis
    using True c n confidences_nth(1) [OF r, of lib] assms(1,2)
    by (cases "ups + downs = 0") (simp_all add: confidence_def list_index_def confidence_formula_def)
next
  case False
  have "cint (ups + downs) = ups + downs" using assms by (simp add: cint_id)
  then show ?thesis using False assms by (auto simp: confidence_def up_range_def down_range_def)
qed

text \<open>
  The funny sort ignores insightful votes. The fraction that is meant to break ties is an integer
  division of C \<open>long\<close> values and always 0, so the value is the number of funny votes.
\<close>

lemma controversy_ignores_ups:
  assumes "0 \<le> ups" "0 < downs" "ups + downs < 2 ^ 63"
  shows "controversy ups downs = downs"
proof -
  have "clong (ups + downs) = ups + downs" using assms by (intro clong_id) linarith+
  moreover have "ups div (ups + downs) = 0" using assms by (simp add: div_pos_pos_trivial)
  moreover have "clong downs = downs" using assms by (intro clong_id) linarith+
  ultimately show ?thesis using assms by (simp add: controversy_def)
qed

end
