(* ===== verification/CommentScores.thy ===== *)
theory CommentScores
  imports CommentTree Base36 Sorts
begin

section \<open>Comment scores\<close>

text \<open>
  Models the first half of \<open>r2/lib/comment_tree.py\<close> and \<open>CommentScoresByLink\<close> of \<open>r2/models/link.py\<close>: the sort
  value of every comment of a link is stored in Cassandra, one row per link and sort, and computed when
  it is missing. \<open>by_id\<close> is the comment with an id (\<open>Comment._byID\<close>, which raises when there is none).
\<close>

record rcomment = comment +
  rc_author :: int
  rc_ups :: int
  rc_downs :: int
  rc_length :: int

type_synonym score_rows = "string \<Rightarrow> (string, real) dict option"

definition of_option :: "py_error \<Rightarrow> 'a option \<Rightarrow> 'a result" where
  "of_option err x = (case x of None \<Rightarrow> Inl err | Some y \<Rightarrow> Inr y)"

lemma of_option_simps [simp]: "of_option err (Some y) = Inr y" "of_option err None = Inl err"
  by (simp_all add: of_option_def)

definition byIDs :: "(int \<Rightarrow> rcomment option) \<Rightarrow> int list \<Rightarrow> rcomment list result" where
  "byIDs by_id ids = mapr (\<lambda>i. of_option NotFound (by_id i)) ids"

subsection \<open>Computing scores\<close>

text \<open>\<open>getattr(comment, sort)\<close> for the four plain sorts, properties of \<open>Thing\<close>.\<close>

definition comment_attr :: "libm \<Rightarrow> string \<Rightarrow> rcomment \<Rightarrow> real result" where
  "comment_attr lib srt c =
     (if srt = ''_upvotes'' then Inr (of_int (upvotes (rc_ups c)))
      else if srt = ''_controversy'' then Inr (of_int (controversy (rc_ups c) (rc_downs c)))
      else if srt = ''_confidence'' then of_option IndexError (confidence lib (rc_ups c) (rc_downs c))
      else if srt = ''_score'' then Inr (of_int (score (rc_ups c) (rc_downs c)))
      else Inl (AttributeError srt))"

text \<open>\<open>Comment._qa\<close>.\<close>

definition comment_qa :: "libm \<Rightarrow> int list \<Rightarrow> rcomment list \<Rightarrow> rcomment \<Rightarrow> real result" where
  "comment_qa lib responder_ids replies c =
     (let op_children = filter (\<lambda>d. rc_author d \<in> set responder_ids) replies in
      bindr (of_option IndexError (qa lib (rc_ups c) (rc_downs c) (rc_length c)
        (map (\<lambda>d. \<lparr>a_ups = rc_ups d, a_downs = rc_downs d, a_length = rc_length d\<rparr>) op_children))) (\<lambda>s.
        Inr (if rc_author c \<in> set responder_ids \<and> op_children = [] then s * 2 else s)))"

definition with_parents :: "(int \<Rightarrow> rcomment option) \<Rightarrow> int list \<Rightarrow> rcomment list \<Rightarrow> rcomment list result" where
  "with_parents by_id responder_ids comments =
     (let parent_cids = List.map_filter (\<lambda>c. case c_parent c of
            None \<Rightarrow> None
          | Some p \<Rightarrow> if rc_author c \<in> set responder_ids \<and> p \<noteq> 0 then Some p else None) comments in
      bindr (byIDs by_id parent_cids) (\<lambda>parents. Inr (comments @ parents)))"

definition calculate_qa_comment_scores ::
    "libm \<Rightarrow> (int \<Rightarrow> rcomment option) \<Rightarrow> int list \<Rightarrow> ctree \<Rightarrow> rcomment list \<Rightarrow> (string, real) dict result" where
  "calculate_qa_comment_scores lib by_id responder_ids cid_tree comments =
     bindr (with_parents by_id responder_ids comments) (\<lambda>comments'.
     bindr (byIDs by_id (concat (map (\<lambda>c. children cid_tree (Some (c_id c))) comments'))) (\<lambda>_.
     bindr (mapr (\<lambda>c.
         bindr (byIDs by_id (children cid_tree (Some (c_id c)))) (\<lambda>child_comments.
         bindr (comment_qa lib responder_ids child_comments c) (\<lambda>s.
         bindr (to36 (c_id c)) (\<lambda>i. Inr (i, s))))) comments') (\<lambda>scores.
       Inr (dict_update [] scores))))"

definition plain_sorts :: "string list" where
  "plain_sorts = [''_upvotes'', ''_controversy'', ''_confidence'', ''_score'']"

definition calculate_comment_scores ::
    "libm \<Rightarrow> (int \<Rightarrow> rcomment option) \<Rightarrow> int list \<Rightarrow> ctree option \<Rightarrow> string \<Rightarrow> rcomment list \<Rightarrow> (string, real) dict result" where
  "calculate_comment_scores lib by_id responder_ids stored srt comments =
     (if srt \<in> set plain_sorts then
        bindr (mapr (\<lambda>c. bindr (comment_attr lib srt c) (\<lambda>s. bindr (to36 (c_id c)) (\<lambda>i. Inr (i, s)))) comments) (\<lambda>scores.
          Inr (dict_update [] scores))
      else if srt = ''_qa'' then calculate_qa_comment_scores lib by_id responder_ids (load_tree stored) comments
      else Inl (ValueError ''unsupported comment sort''))"

subsection \<open>Storing scores\<close>

definition scores_rowkey :: "int \<Rightarrow> string \<Rightarrow> string result" where
  "scores_rowkey link_id srt =
     (if take 1 srt = ''_'' then bindr (to36 link_id) (\<lambda>i. Inr (i @ srt)) else Inl AssertionError)"

definition set_scores :: "int \<Rightarrow> string \<Rightarrow> (string, real) dict \<Rightarrow> score_rows \<Rightarrow> score_rows result" where
  "set_scores link_id srt scores store =
     bindr (scores_rowkey link_id srt) (\<lambda>key.
       Inr (if scores = [] then store
            else store(key \<mapsto> dict_update (case store key of None \<Rightarrow> [] | Some d \<Rightarrow> d) scores)))"

definition get_scores :: "int \<Rightarrow> string \<Rightarrow> score_rows \<Rightarrow> (string, real) dict result" where
  "get_scores link_id srt store =
     bindr (scores_rowkey link_id srt) (\<lambda>key. Inr (case store key of None \<Rightarrow> [] | Some d \<Rightarrow> d))"

text \<open>
  \<open>write_comment_scores\<close>. The sort \<open>_qa\<close>, the last one, adds parents to the caller's list of comments;
  the list is returned.
\<close>

definition written_sorts :: "string list" where
  "written_sorts = [''_upvotes'', ''_controversy'', ''_confidence'', ''_score'', ''_qa'']"

definition write_comment_scores ::
    "libm \<Rightarrow> (int \<Rightarrow> rcomment option) \<Rightarrow> int list \<Rightarrow> ctree option \<Rightarrow> int \<Rightarrow> rcomment list \<Rightarrow> score_rows
     \<Rightarrow> (rcomment list \<times> score_rows) result" where
  "write_comment_scores lib by_id responder_ids stored link_id comments store =
     bindr (foldm (\<lambda>srt store. bindr (calculate_comment_scores lib by_id responder_ids stored srt comments) (\<lambda>scores.
              set_scores link_id srt scores store)) written_sorts store) (\<lambda>store'.
     bindr (with_parents by_id responder_ids comments) (\<lambda>comments'. Inr (comments', store')))"

subsection \<open>Reading scores\<close>

definition by_number :: "(string, real) dict \<Rightarrow> (int, real) dict result" where
  "by_number scores = bindr (mapr (\<lambda>(i, s). bindr (from36 i) (\<lambda>n. Inr (n, s))) scores) (\<lambda>ns. Inr (dict_update [] ns))"

text \<open>
  \<open>get_comment_scores\<close>. \<open>should_write\<close> stands for \<open>not g.disallow_db_writes\<close> and the answer of
  \<open>g.lock_cache.add\<close>, which lets one request per minute write the missing scores.
\<close>

definition get_comment_scores ::
    "libm \<Rightarrow> (int \<Rightarrow> rcomment option) \<Rightarrow> int list \<Rightarrow> ctree option \<Rightarrow> bool \<Rightarrow> int \<Rightarrow> string \<Rightarrow> int list \<Rightarrow> score_rows
     \<Rightarrow> ((int, real) dict \<times> score_rows) result" where
  "get_comment_scores lib by_id responder_ids stored should_write link_id srt comment_ids store =
     (if comment_ids = [] then Inr ([], store)
      else if srt = ''_date'' then Inr (dict_update [] (map (\<lambda>i. (i, of_int i)) comment_ids), store)
      else
        bindr (get_scores link_id srt store) (\<lambda>scores_by_id36.
        bindr (by_number scores_by_id36) (\<lambda>scores_by_id.
          let scores_needed = remdups (filter (\<lambda>i. map_of scores_by_id i = None) comment_ids) in
          if scores_needed = [] then Inr (scores_by_id, store)
          else
            bindr (byIDs by_id scores_needed) (\<lambda>missing.
            bindr (calculate_comment_scores lib by_id responder_ids stored srt missing) (\<lambda>scores_by_missing_id36.
            bindr (by_number scores_by_missing_id36) (\<lambda>scores_by_missing.
            bindr (if should_write then set_scores link_id srt scores_by_missing_id36 store else Inr store) (\<lambda>store'.
              Inr (dict_update scores_by_id scores_by_missing, store'))))))))"

subsection \<open>Lemmas\<close>

definition id36 :: "int \<Rightarrow> string" where
  "id36 i = (case to36 i of Inl _ \<Rightarrow> [] | Inr s \<Rightarrow> s)"

lemma to36_id36: "0 \<le> i \<Longrightarrow> to36 i = Inr (id36 i)"
  using to36_nonneg [of i] by (auto simp: id36_def)

lemma from36_id36: "0 \<le> i \<Longrightarrow> from36 (id36 i) = Inr i"
  using to36_nonneg [of i] by (auto simp: id36_def)

lemma id36_inj: "0 \<le> i \<Longrightarrow> 0 \<le> j \<Longrightarrow> id36 i = id36 j \<Longrightarrow> i = j"
  using to36_inject [of i "id36 i" j] to36_id36 by simp

text \<open>Rows as the code writes them: every column is the spelling of an id.\<close>

definition row_ok :: "(string, real) dict \<Rightarrow> bool" where
  "row_ok d \<longleftrightarrow> dict_ok d \<and> (\<forall>k \<in> fst ` set d. \<exists>i \<ge> 0. k = id36 i)"

lemma map_of_eq_SomeI: "dict_ok d \<Longrightarrow> (k, v) \<in> set d \<Longrightarrow> map_of d k = Some v"
  by (simp add: dict_ok_def)

lemma by_number_Inr:
  assumes "row_ok d"
  obtains d' where "by_number d = Inr d'" "dict_ok d'" "\<And>i. map_of d' i = (if 0 \<le> i then map_of d (id36 i) else None)"
proof -
  let ?num = "\<lambda>k. case from36 k of Inl _ \<Rightarrow> 0 | Inr n \<Rightarrow> n"
  let ?e = "map (\<lambda>(k, s). (?num k, s)) d"
  have key: "\<exists>i \<ge> 0. k = id36 i \<and> from36 k = Inr i" if "(k, s) \<in> set d" for k s
  proof -
    have "k \<in> fst ` set d" using that by force
    then obtain i where "0 \<le> i" "k = id36 i" using assms unfolding row_ok_def by auto
    then show ?thesis using from36_id36 [of i] by auto
  qed
  have "mapr (\<lambda>(i, s). bindr (from36 i) (\<lambda>n. Inr (n, s))) d = Inr ?e"
  proof (rule mapr_total)
    fix x assume "x \<in> set d"
    then show "(case x of (i, s) \<Rightarrow> bindr (from36 i) (\<lambda>n. Inr (n, s))) = Inr (case x of (k, s) \<Rightarrow> (?num k, s))"
      using key [of "fst x" "snd x"] by (auto simp: case_prod_beta)
  qed
  then have b: "by_number d = Inr (dict_update [] ?e)" by (simp add: by_number_def)
  have "inj_on ?num (fst ` set d)"
  proof (rule inj_onI)
    fix k l assume "k \<in> fst ` set d" "l \<in> fst ` set d" "?num k = ?num l"
    moreover from this obtain s t where "(k, s) \<in> set d" "(l, t) \<in> set d" by auto
    ultimately show "k = l" using key [of k s] key [of l t] by auto
  qed
  moreover have "distinct (map fst d)" using assms by (simp add: row_ok_def dict_ok_def)
  ultimately have "distinct (map ?num (map fst d))" unfolding distinct_map [of ?num] by simp
  moreover have "map fst ?e = map ?num (map fst d)" by (simp add: case_prod_beta)
  ultimately have e: "dict_ok ?e" unfolding dict_ok_def by (simp only:)
  have "map_of ?e i = (if 0 \<le> i then map_of d (id36 i) else None)" for i
  proof (cases "\<exists>s. (id36 i, s) \<in> set d \<and> 0 \<le> i")
    case True
    then obtain s where s: "(id36 i, s) \<in> set d" "0 \<le> i" by blast
    then have "(i, s) \<in> set ?e" using from36_id36 [OF s(2)] by force
    then show ?thesis using s e assms map_of_eq_SomeI by (metis row_ok_def)
  next
    case False
    have n: "i \<notin> fst ` set ?e"
    proof
      assume "i \<in> fst ` set ?e"
      then obtain k s where "(k, s) \<in> set d" "i = ?num k" by auto
      then show False using key [of k s] False by auto
    qed
    have "map_of d (id36 i) = None" if "0 \<le> i" using False that by (auto simp: map_of_eq_None_iff)
    moreover have "map_of ?e i = None" using n by (simp add: map_of_eq_None_iff)
    ultimately show ?thesis by simp
  qed
  then show thesis using that b dict_ok_dict_update [of "[]" ?e] map_of_dict_update [OF e, of "[]"] by simp
qed

lemma byIDs_Inr:
  "(\<And>i. i \<in> set ids \<Longrightarrow> by_id i = Some (f i)) \<Longrightarrow> byIDs by_id ids = Inr (map f ids)"
  unfolding byIDs_def by (rule mapr_total) simp

text \<open>The plain sorts are total on votes that are not negative.\<close>

definition attr_of :: "libm \<Rightarrow> string \<Rightarrow> rcomment \<Rightarrow> real" where
  "attr_of lib srt c = (case comment_attr lib srt c of Inl _ \<Rightarrow> 0 | Inr v \<Rightarrow> v)"

definition votes_ok :: "rcomment \<Rightarrow> bool" where
  "votes_ok c \<longleftrightarrow> 0 \<le> c_id c \<and> 0 \<le> rc_ups c \<and> 0 \<le> rc_downs c \<and> rc_ups c + rc_downs c < 2 ^ 31"

lemma confidence_total:
  assumes "0 \<le> ups" "0 \<le> downs" "ups + downs < 2 ^ 31"
  shows "\<exists>v. confidence lib ups downs = Some v"
proof (cases "ups < up_range \<and> downs < down_range")
  case True
  then have r: "nat ups < 400" "nat downs < 100"
    using assms by (auto simp: up_range_def down_range_def nat_less_iff)
  have "cint (downs + ups * down_range) = downs + ups * 100"
    using True assms by (simp add: cint_id up_range_def down_range_def)
  moreover have "downs + ups * 100 < int (length (confidences lib))"
    using confidences_nth(2) [OF r, of lib] assms by simp
  ultimately show ?thesis using True assms by (simp add: confidence_def list_index_def)
qed (auto simp: confidence_def)

lemma comment_attr_total:
  assumes "srt \<in> set plain_sorts" "votes_ok c"
  shows "comment_attr lib srt c = Inr (attr_of lib srt c)"
proof -
  have "\<exists>v. confidence lib (rc_ups c) (rc_downs c) = Some v"
    using assms(2) by (intro confidence_total) (simp_all add: votes_ok_def)
  then show ?thesis using assms(1) by (auto simp: attr_of_def comment_attr_def plain_sorts_def)
qed

lemma best_answer_total:
  "\<forall>a \<in> set as. \<exists>v. confidence lib (a_ups a) (a_downs a) = Some v \<Longrightarrow> \<exists>b. best_answer lib as best = Some b"
  by (induction as arbitrary: best) auto

lemma comment_qa_total:
  assumes "votes_ok c" "\<forall>d \<in> set replies. votes_ok d"
  shows "\<exists>s. comment_qa lib rs replies c = Inr s"
proof -
  have v: "\<exists>v. confidence lib (rc_ups d) (rc_downs d) = Some v" if "votes_ok d" for d
    using that by (intro confidence_total) (simp_all add: votes_ok_def)
  let ?as = "map (\<lambda>d. \<lparr>a_ups = rc_ups d, a_downs = rc_downs d, a_length = rc_length d\<rparr>)
    (filter (\<lambda>d. rc_author d \<in> set rs) replies)"
  obtain q where q: "confidence lib (rc_ups c) (rc_downs c) = Some q" using v [OF assms(1)] by blast
  have "\<forall>a \<in> set ?as. \<exists>v. confidence lib (a_ups a) (a_downs a) = Some v" using v assms(2) by auto
  then obtain b where "best_answer lib ?as None = Some b" using best_answer_total by blast
  then have "\<exists>s. qa lib (rc_ups c) (rc_downs c) (rc_length c) ?as = Some s"
    using q by (cases b) (auto simp: qa_def)
  then show ?thesis by (auto simp: comment_qa_def Let_def)
qed

lemma calculate_plain:
  assumes "srt \<in> set plain_sorts" "\<And>c. c \<in> set cs \<Longrightarrow> votes_ok c" "distinct (map c_id cs)"
  obtains d where "calculate_comment_scores lib by_id rs stored srt cs = Inr d" "row_ok d"
    "\<And>c. c \<in> set cs \<Longrightarrow> map_of d (id36 (c_id c)) = Some (attr_of lib srt c)"
    "fst ` set d = (\<lambda>c. id36 (c_id c)) ` set cs"
proof -
  let ?e = "map (\<lambda>c. (id36 (c_id c), attr_of lib srt c)) cs"
  have nn: "0 \<le> c_id c" if "c \<in> set cs" for c using assms(2) [OF that] by (simp add: votes_ok_def)
  have "mapr (\<lambda>c. bindr (comment_attr lib srt c) (\<lambda>s. bindr (to36 (c_id c)) (\<lambda>i. Inr (i, s)))) cs = Inr ?e"
    using comment_attr_total [OF assms(1)] assms(2) to36_id36 nn by (intro mapr_total) simp
  then have c: "calculate_comment_scores lib by_id rs stored srt cs = Inr (dict_update [] ?e)"
    using assms(1) by (simp add: calculate_comment_scores_def)
  have "inj_on (\<lambda>c. id36 (c_id c)) (set cs)"
  proof (rule inj_onI)
    fix a b assume "a \<in> set cs" "b \<in> set cs" "id36 (c_id a) = id36 (c_id b)"
    then show "a = b" using id36_inj nn assms(3) by (meson distinct_map inj_onD)
  qed
  then have e: "dict_ok ?e" using assms(3) by (auto simp: dict_ok_def distinct_map comp_def)
  have m: "map_of (dict_update [] ?e) = map_of ?e" using map_of_dict_update [OF e, of "[]"] by simp
  have dm: "fst ` set (dict_update [] ?e) = (\<lambda>c. id36 (c_id c)) ` set cs"
    using arg_cong [OF m, of dom] by (simp add: dom_map_of_conv_image_fst image_image)
  have "map_of (dict_update [] ?e) (id36 (c_id c)) = Some (attr_of lib srt c)" if "c \<in> set cs" for c
    unfolding m by (rule map_of_eq_SomeI [OF e]) (use that in simp)
  moreover have "row_ok (dict_update [] ?e)"
    using dict_ok_dict_update [of "[]" ?e] dm nn by (auto simp: row_ok_def)
  ultimately show thesis using that [OF c] dm by blast
qed

text \<open>The scores of comments that have none stored.\<close>

lemma calculate_missing:
  assumes "srt \<in> set plain_sorts" "distinct ids" "ids \<noteq> []"
    and ok: "\<And>i. i \<in> set ids \<Longrightarrow> by_id i = Some (f i) \<and> c_id (f i) = i \<and> votes_ok (f i)"
  obtains m36 m where "byIDs by_id ids = Inr (map f ids)" "row_ok m36" "m36 \<noteq> []"
    "calculate_comment_scores lib by_id rs stored srt (map f ids) = Inr m36" "by_number m36 = Inr m" "dict_ok m"
    "\<And>i. 0 \<le> i \<Longrightarrow> map_of m36 (id36 i) = (if i \<in> set ids then Some (attr_of lib srt (f i)) else None)"
    "\<And>i. 0 \<le> i \<Longrightarrow> map_of m i = map_of m36 (id36 i)"
proof -
  have b: "byIDs by_id ids = Inr (map f ids)" using ok by (intro byIDs_Inr) blast
  have vo: "votes_ok c" if "c \<in> set (map f ids)" for c using that ok by auto
  have "map c_id (map f ids) = ids" using ok by (simp add: map_idI)
  then have di: "distinct (map c_id (map f ids))" using assms(2) by simp
  obtain m36 where m36: "calculate_comment_scores lib by_id rs stored srt (map f ids) = Inr m36" "row_ok m36"
    "\<And>c. c \<in> set (map f ids) \<Longrightarrow> map_of m36 (id36 (c_id c)) = Some (attr_of lib srt c)"
    "fst ` set m36 = (\<lambda>c. id36 (c_id c)) ` set (map f ids)"
    using calculate_plain [OF assms(1) vo di] by blast
  obtain m where m: "by_number m36 = Inr m" "dict_ok m" "\<And>i. map_of m i = (if 0 \<le> i then map_of m36 (id36 i) else None)"
    using by_number_Inr [OF m36(2)] by blast
  have "map_of m36 (id36 i) = (if i \<in> set ids then Some (attr_of lib srt (f i)) else None)" if nn: "0 \<le> i" for i
  proof (cases "i \<in> set ids")
    case True
    then show ?thesis using m36(3) [of "f i"] ok by auto
  next
    case False
    have "id36 i \<notin> fst ` set m36"
    proof
      assume "id36 i \<in> fst ` set m36"
      then obtain j where j: "j \<in> set ids" "id36 i = id36 (c_id (f j))" unfolding m36(4) by auto
      then show False using id36_inj [OF nn, of j] ok [OF j(1)] False by (auto simp: votes_ok_def)
    qed
    then show ?thesis using False by (simp add: map_of_eq_None_iff)
  qed
  moreover have "m36 \<noteq> []" using m36(4) assms(3) by auto
  ultimately show thesis using that [OF b m36(2) _ m36(1) m(1,2)] m(3) by simp
qed

lemma row_ok_update:
  assumes "row_ok d" "row_ok e"
  shows "row_ok (dict_update d e)"
proof -
  have e: "dict_ok e" using assms(2) by (simp add: row_ok_def)
  have "fst ` set (dict_update d e) = fst ` set d \<union> fst ` set e"
    using arg_cong [OF map_of_dict_update [OF e, of d], of dom] by (auto simp: dom_map_of_conv_image_fst)
  moreover have "dict_ok (dict_update d e)" using assms(1) by (simp add: row_ok_def dict_ok_dict_update)
  moreover have "\<exists>i \<ge> 0. k = id36 i" if "k \<in> fst ` set d \<union> fst ` set e" for k
    using that assms unfolding row_ok_def by (elim UnE conjE) (rule bspec; assumption)+
  ultimately show ?thesis unfolding row_ok_def by (intro conjI ballI) simp_all
qed

definition rows_ok :: "score_rows \<Rightarrow> bool" where
  "rows_ok store \<longleftrightarrow> (\<forall>key row. store key = Some row \<longrightarrow> row_ok row)"

lemma rows_okD: "rows_ok store \<Longrightarrow> row_ok (case store key of None \<Rightarrow> [] | Some d \<Rightarrow> d)"
  by (auto simp: rows_ok_def row_ok_def [of "[]"] split: option.splits)

lemma rows_ok_update: "rows_ok store \<Longrightarrow> row_ok row \<Longrightarrow> rows_ok (store(key \<mapsto> row))"
  by (simp add: rows_ok_def)

text \<open>
  Reading scores always yields one for every comment: for a plain sort the result has the stored score
  of each comment, or the score computed from its votes when none is stored; once the missing scores
  are written, they are the stored ones.
\<close>

lemma get_comment_scores_plain:
  assumes "srt \<in> set plain_sorts" "to36 link_id = Inr link36"
    and "rows_ok store"
    and "\<And>i. i \<in> set comment_ids \<Longrightarrow> by_id i = Some (f i) \<and> c_id (f i) = i \<and> votes_ok (f i)" "comment_ids \<noteq> []"
  shows "\<exists>scores store'. get_comment_scores lib by_id rs stored should_write link_id srt comment_ids store = Inr (scores, store') \<and>
    (\<forall>i \<in> set comment_ids. map_of scores i =
       (case store (link36 @ srt) of None \<Rightarrow> Some (attr_of lib srt (f i))
        | Some row \<Rightarrow> (case map_of row (id36 i) of None \<Rightarrow> Some (attr_of lib srt (f i)) | Some s \<Rightarrow> Some s))) \<and>
    (should_write \<longrightarrow> (\<forall>i \<in> set comment_ids. \<exists>row. store' (link36 @ srt) = Some row \<and> map_of row (id36 i) = map_of scores i)) \<and>
    rows_ok store'"
proof -
  define row where "row = (case store (link36 @ srt) of None \<Rightarrow> [] | Some d \<Rightarrow> d)"
  have key: "scores_rowkey link_id srt = Inr (link36 @ srt)"
    using assms(1,2) by (auto simp: scores_rowkey_def plain_sorts_def)
  have nd: "srt \<noteq> ''_date''" using assms(1) by (auto simp: plain_sorts_def)
  have rok: "row_ok row" using rows_okD [OF assms(3)] by (simp add: row_def)
  obtain num where num: "by_number row = Inr num" "dict_ok num" "\<And>i. map_of num i = (if 0 \<le> i then map_of row (id36 i) else None)"
    using by_number_Inr [OF rok] by blast
  have nn: "0 \<le> i" if "i \<in> set comment_ids" for i using assms(4) [OF that] by (auto simp: votes_ok_def)
  define needed where "needed = remdups (filter (\<lambda>i. map_of num i = None) comment_ids)"
  have get: "get_comment_scores lib by_id rs stored should_write link_id srt comment_ids store =
    (if needed = [] then Inr (num, store)
     else bindr (byIDs by_id needed) (\<lambda>missing.
       bindr (calculate_comment_scores lib by_id rs stored srt missing) (\<lambda>m36.
       bindr (by_number m36) (\<lambda>m.
       bindr (if should_write then set_scores link_id srt m36 store else Inr store) (\<lambda>store'.
         Inr (dict_update num m, store'))))))"
    using assms(5) nd key num(1) by (simp add: get_comment_scores_def get_scores_def row_def needed_def Let_def)
  have want: "(case store (link36 @ srt) of None \<Rightarrow> Some v
        | Some r \<Rightarrow> (case map_of r (id36 i) of None \<Rightarrow> Some v | Some s \<Rightarrow> Some s))
      = (case map_of row (id36 i) of None \<Rightarrow> Some v | Some s \<Rightarrow> Some s)" for v i
    by (simp add: row_def split: option.splits)
  show ?thesis
  proof (cases "needed = []")
    case True
    then have all: "map_of num i \<noteq> None" if "i \<in> set comment_ids" for i
      using that by (auto simp: needed_def filter_empty_conv)
    have "store (link36 @ srt) = Some row"
      using all [of "hd comment_ids"] assms(5) num(3) by (auto simp: row_def split: option.splits if_splits)
    then show ?thesis using get True all num(3) nn assms(3) unfolding want by fastforce
  next
    case False
    have ids: "set needed \<subseteq> set comment_ids" by (auto simp: needed_def)
    obtain m36 m where m36: "byIDs by_id needed = Inr (map f needed)" "row_ok m36" "m36 \<noteq> []"
      "calculate_comment_scores lib by_id rs stored srt (map f needed) = Inr m36" "by_number m36 = Inr m" "dict_ok m"
      "\<And>i. 0 \<le> i \<Longrightarrow> map_of m36 (id36 i) = (if i \<in> set needed then Some (attr_of lib srt (f i)) else None)"
      "\<And>i. 0 \<le> i \<Longrightarrow> map_of m i = map_of m36 (id36 i)"
      by (rule calculate_missing [OF assms(1), of needed by_id f lib rs stored])
         (use assms(4) ids False in \<open>auto simp: needed_def\<close>)
    define store' where "store' = (if should_write then store(link36 @ srt \<mapsto> dict_update row m36) else store)"
    have st: "(if should_write then set_scores link_id srt m36 store else Inr store) = Inr store'"
      using key m36(3) by (simp add: set_scores_def store'_def row_def)
    have res: "get_comment_scores lib by_id rs stored should_write link_id srt comment_ids store = Inr (dict_update num m, store')"
      using get False m36(1,4,5) st by simp
    have val: "map_of (dict_update num m) i = (case map_of row (id36 i) of None \<Rightarrow> Some (attr_of lib srt (f i)) | Some s \<Rightarrow> Some s)"
      "map_of (dict_update row m36) (id36 i) = map_of (dict_update num m) i"
      if "i \<in> set comment_ids" for i
    proof -
      have "i \<in> set needed \<longleftrightarrow> map_of row (id36 i) = None"
        using that num(3) [of i] nn [OF that] by (simp add: needed_def)
      moreover have "map_of (dict_update num m) i = (map_of num ++ map_of m) i"
        "map_of (dict_update row m36) (id36 i) = (map_of row ++ map_of m36) (id36 i)"
        using map_of_dict_update m36(2,6) by (metis row_ok_def)+
      ultimately show "map_of (dict_update num m) i = (case map_of row (id36 i) of None \<Rightarrow> Some (attr_of lib srt (f i)) | Some s \<Rightarrow> Some s)"
        "map_of (dict_update row m36) (id36 i) = map_of (dict_update num m) i"
        using m36(7,8) [of i] num(3) [of i] nn [OF that] by (auto simp: map_add_def split: option.splits)
    qed
    have "rows_ok store'" using rows_ok_update [OF assms(3) row_ok_update [OF rok m36(2)]] assms(3) by (simp add: store'_def)
    then show ?thesis unfolding want using res val by (auto simp: store'_def)
  qed
qed

subsection \<open>Writing scores\<close>

definition known_votes :: "(int \<Rightarrow> rcomment option) \<Rightarrow> int \<Rightarrow> bool" where
  "known_votes by_id i \<longleftrightarrow> (\<exists>c. by_id i = Some c \<and> c_id c = i \<and> votes_ok c)"

text \<open>Comments whose scores can be computed: their parents and all comments of the tree can be loaded.\<close>

definition scorable :: "(int \<Rightarrow> rcomment option) \<Rightarrow> ctree \<Rightarrow> rcomment list \<Rightarrow> bool" where
  "scorable by_id tree cs \<longleftrightarrow> (\<forall>c \<in> set cs. votes_ok c \<and> (\<forall>p. c_parent c = Some p \<longrightarrow> known_votes by_id p)) \<and>
     (\<forall>i \<in> set (all_children tree). known_votes by_id i)"

lemma byIDs_known:
  assumes "\<forall>i \<in> set ids. known_votes by_id i"
  shows "byIDs by_id ids = Inr (map (\<lambda>i. the (by_id i)) ids)" "\<forall>c \<in> set (map (\<lambda>i. the (by_id i)) ids). votes_ok c"
  using assms by (auto simp: known_votes_def intro!: byIDs_Inr)

lemma row_ok_pairs:
  assumes "\<forall>k \<in> fst ` set e. \<exists>i \<ge> 0. k = id36 i"
  shows "row_ok (dict_update [] e)"
proof -
  have "fst ` set (dict_update d e) \<subseteq> fst ` set d \<union> fst ` set e" for d :: "(string, real) dict"
  proof (induction e arbitrary: d)
    case (Cons kv e)
    have "fst ` set (dict_update d (kv # e)) = fst ` set (dict_update (AList.update (fst kv) (snd kv) d) e)"
      by (simp add: dict_update_def case_prod_beta)
    also have "\<dots> \<subseteq> fst ` set (AList.update (fst kv) (snd kv) d) \<union> fst ` set e" by (rule Cons.IH)
    also have "\<dots> \<subseteq> fst ` set d \<union> fst ` set (kv # e)" by (auto simp: dom_update)
    finally show ?case .
  qed (simp add: dict_update_def)
  from this [of "[]"] have "fst ` set (dict_update [] e) \<subseteq> fst ` set e" by simp
  then have "\<forall>k \<in> fst ` set (dict_update [] e). \<exists>i \<ge> 0. k = id36 i" by (rule ball_subset) (rule assms)
  then show ?thesis unfolding row_ok_def using dict_ok_dict_update [OF dict_ok_Nil] by (intro conjI)
qed

lemma with_parents_total:
  assumes "scorable by_id tree cs"
  obtains ps where "with_parents by_id rs cs = Inr (cs @ ps)" "\<forall>c \<in> set ps. votes_ok c"
    "c_id ` set ps \<subseteq> (\<lambda>c. the (c_parent c)) ` {c \<in> set cs. c_parent c \<noteq> None}" "\<forall>c \<in> set ps. by_id (c_id c) = Some c"
proof -
  let ?ids = "List.map_filter (\<lambda>c. case c_parent c of
            None \<Rightarrow> None
          | Some p \<Rightarrow> if rc_author c \<in> set rs \<and> p \<noteq> 0 then Some p else None) cs"
  have sub: "\<exists>c \<in> set cs. c_parent c = Some i" if "i \<in> set ?ids" for i
    using that by (auto simp: map_filter_def split: option.splits if_splits)
  then have k: "\<forall>i \<in> set ?ids. known_votes by_id i" using assms unfolding scorable_def by blast
  let ?ps = "map (\<lambda>i. the (by_id i)) ?ids"
  have "with_parents by_id rs cs = Inr (cs @ ?ps)"
    using byIDs_known(1) [OF k] by (simp add: with_parents_def Let_def)
  moreover have "\<forall>c \<in> set ?ps. by_id (c_id c) = Some c \<and> c_id c \<in> set ?ids" using k by (auto simp: known_votes_def)
  ultimately show thesis using that byIDs_known(2) [OF k] sub by force
qed

text \<open>The score of the parent of a new reply is computed from the replies that are in the tree.\<close>

lemma qa_parent_score:
  assumes "calculate_comment_scores lib by_id rs stored ''_qa'' [r] = Inr scores" "rc_author r \<in> set rs"
    and "c_parent r = Some p" "p \<noteq> 0" "by_id p = Some pc" "c_id pc = p" "to36 p = Inr p36"
  shows "\<exists>replies s. byIDs by_id (children (load_tree stored) (Some p)) = Inr replies \<and>
    comment_qa lib rs replies pc = Inr s \<and> map_of scores p36 = Some s"
proof -
  have w: "with_parents by_id rs [r] = Inr [r, pc]"
    using assms(2-5) by (simp add: with_parents_def byIDs_def map_filter_simps)
  obtain x y where xy: "scores = dict_update [] [x, (p36, y)]"
    "bindr (byIDs by_id (children (load_tree stored) (Some p))) (\<lambda>ch. comment_qa lib rs ch pc) = Inr y"
    using assms(1,6,7) w
    by (auto simp: calculate_comment_scores_def plain_sorts_def calculate_qa_comment_scores_def bindr_eq_Inr_iff)
  then have "map_of scores p36 = Some y" by (cases x) (simp add: dict_update_def)
  then show ?thesis using xy(2) by (auto simp: bindr_eq_Inr_iff)
qed

lemma calculate_qa_total:
  assumes "scorable by_id tree cs"
  shows "\<exists>d. calculate_qa_comment_scores lib by_id rs tree cs = Inr d \<and> row_ok d"
proof -
  obtain ps where ps: "with_parents by_id rs cs = Inr (cs @ ps)" "\<forall>c \<in> set ps. votes_ok c"
    by (rule with_parents_total [OF assms])
  have vo: "votes_ok c" if "c \<in> set (cs @ ps)" for c using that ps(2) assms by (auto simp: scorable_def)
  have known: "known_votes by_id i" if "i \<in> set (children tree p)" for i p
    using that children_in_all(1) assms unfolding scorable_def by blast
  let ?reply = "\<lambda>c. map (\<lambda>i. the (by_id i)) (children tree (Some (c_id c)))"
  have b: "byIDs by_id (children tree (Some (c_id c))) = Inr (?reply c)" "\<forall>d \<in> set (?reply c). votes_ok d" for c :: rcomment
    using byIDs_known [of "children tree (Some (c_id c))" by_id] known by blast+
  have "\<exists>s. comment_qa lib rs (?reply c) c = Inr s" if "c \<in> set (cs @ ps)" for c
    by (rule comment_qa_total [OF vo [OF that] b(2)])
  then obtain v where v: "\<And>c. c \<in> set (cs @ ps) \<Longrightarrow> comment_qa lib rs (?reply c) c = Inr (v c)" by metis
  let ?e = "map (\<lambda>c. (id36 (c_id c), v c)) (cs @ ps)"
  have "mapr (\<lambda>c. bindr (byIDs by_id (children tree (Some (c_id c)))) (\<lambda>child_comments.
         bindr (comment_qa lib rs child_comments c) (\<lambda>s.
         bindr (to36 (c_id c)) (\<lambda>i. Inr (i, s))))) (cs @ ps) = Inr ?e"
    using b(1) v to36_id36 vo by (intro mapr_total) (simp add: votes_ok_def)
  moreover have "\<exists>x. byIDs by_id (concat (map (\<lambda>c. children tree (Some (c_id c))) (cs @ ps))) = Inr x"
    using byIDs_known(1) [of "concat (map (\<lambda>c. children tree (Some (c_id c))) (cs @ ps))" by_id] known by auto
  moreover have "row_ok (dict_update [] ?e)"
  proof (rule row_ok_pairs, rule ballI)
    fix k assume "k \<in> fst ` set ?e"
    then obtain c where "c \<in> set (cs @ ps)" "k = id36 (c_id c)" unfolding set_map image_image by (elim imageE) simp
    then show "\<exists>i \<ge> 0. k = id36 i" using vo [of c] by (auto simp: votes_ok_def)
  qed
  ultimately show ?thesis using ps(1) by (auto simp: calculate_qa_comment_scores_def)
qed

lemma calculate_total:
  assumes "scorable by_id (load_tree stored) cs" "srt \<in> set written_sorts"
  shows "\<exists>d. calculate_comment_scores lib by_id rs stored srt cs = Inr d \<and> row_ok d"
proof (cases "srt \<in> set plain_sorts")
  case True
  let ?e = "map (\<lambda>c. (id36 (c_id c), attr_of lib srt c)) cs"
  have vo: "votes_ok c" if "c \<in> set cs" for c using that assms(1) by (simp add: scorable_def)
  have "mapr (\<lambda>c. bindr (comment_attr lib srt c) (\<lambda>s. bindr (to36 (c_id c)) (\<lambda>i. Inr (i, s)))) cs = Inr ?e"
    using comment_attr_total [OF True] vo to36_id36 by (intro mapr_total) (simp add: votes_ok_def)
  moreover have "row_ok (dict_update [] ?e)"
  proof (rule row_ok_pairs, rule ballI)
    fix k assume "k \<in> fst ` set ?e"
    then obtain c where "c \<in> set cs" "k = id36 (c_id c)" by auto
    then show "\<exists>i \<ge> 0. k = id36 i" using vo [of c] by (auto simp: votes_ok_def)
  qed
  ultimately show ?thesis using True by (simp add: calculate_comment_scores_def)
next
  case False
  then have "srt = ''_qa''" using assms(2) by (auto simp: written_sorts_def plain_sorts_def)
  then show ?thesis using calculate_qa_total [OF assms(1)] False by (simp add: calculate_comment_scores_def)
qed

lemma set_scores_total:
  assumes "0 \<le> link_id" "srt \<in> set written_sorts" "row_ok d" "rows_ok store"
  shows "\<exists>store'. set_scores link_id srt d store = Inr store' \<and> rows_ok store'"
proof -
  have "take 1 srt = ''_''" using assms(2) by (auto simp: written_sorts_def)
  then have "scores_rowkey link_id srt = Inr (id36 link_id @ srt)" using to36_id36 [OF assms(1)] by (simp add: scores_rowkey_def)
  then show ?thesis
    using assms(4) rows_ok_update [OF assms(4) row_ok_update [OF rows_okD [OF assms(4)] assms(3)]]
    by (auto simp: set_scores_def)
qed

lemma write_comment_scores_total:
  assumes "scorable by_id (load_tree stored) cs" "0 \<le> link_id" "rows_ok store"
  obtains ps store' where "write_comment_scores lib by_id rs stored link_id cs store = Inr (cs @ ps, store')" "rows_ok store'"
    "c_id ` set ps \<subseteq> (\<lambda>c. the (c_parent c)) ` {c \<in> set cs. c_parent c \<noteq> None}" "\<forall>c \<in> set ps. by_id (c_id c) = Some c"
proof -
  obtain ps where ps: "with_parents by_id rs cs = Inr (cs @ ps)"
    "c_id ` set ps \<subseteq> (\<lambda>c. the (c_parent c)) ` {c \<in> set cs. c_parent c \<noteq> None}" "\<forall>c \<in> set ps. by_id (c_id c) = Some c"
    by (rule with_parents_total [OF assms(1)])
  have "\<exists>store'. foldm (\<lambda>srt store. bindr (calculate_comment_scores lib by_id rs stored srt cs) (\<lambda>scores.
              set_scores link_id srt scores store)) written_sorts store = Inr store' \<and> rows_ok store'"
  proof (rule foldm_invariant [where P = rows_ok])
    show "rows_ok store" by (rule assms(3))
    fix srt s assume srt: "srt \<in> set written_sorts" "rows_ok s"
    obtain d where "calculate_comment_scores lib by_id rs stored srt cs = Inr d" "row_ok d"
      using calculate_total [OF assms(1) srt(1)] by blast
    then show "\<exists>s'. bindr (calculate_comment_scores lib by_id rs stored srt cs) (\<lambda>scores. set_scores link_id srt scores s) = Inr s' \<and> rows_ok s'"
      using set_scores_total [OF assms(2) srt(1) _ srt(2)] by simp
  qed
  then show thesis using that ps by (auto simp: write_comment_scores_def)
qed

end
