(* ===== verification/CommentOrder.thy ===== *)
theory CommentOrder
  imports CommentScores "HOL-Library.Product_Lexorder"
begin

section \<open>The order of comments on a page\<close>

text \<open>
  Models the comment orderers of \<open>r2/models/builder.py\<close>: which comments of a link are shown and in which
  order, the precomputed orders in the permacache, and \<open>add_comments\<close> of \<open>r2/lib/comment_tree.py\<close>. The heap
  of \<open>heapq\<close> is a sorted list: pushing inserts, popping takes the least element. Sort values are real
  numbers; of two equal ones the comment with the smaller id comes first, as in the tuples of the code.
\<close>

record comment_tree =
  ct_cids :: "int list"
  ct_tree :: ctree
  ct_depth :: "(int, int) dict"
  ct_parents :: "(int, int option) dict"
  ct_num :: "(int, int) dict"

text \<open>\<open>CommentTree.by_link\<close> and \<open>get_tree_pieces\<close>; \<open>num_children\<close> is a \<open>defaultdict(int)\<close>.\<close>

definition by_link :: "ctree option \<Rightarrow> comment_tree" where
  "by_link stored =
     (let tree = load_tree stored; td = get_tree_details tree in
      \<lparr>ct_cids = td_cids td, ct_tree = tree, ct_depth = td_depth td, ct_parents = td_parents td,
       ct_num = calc_num_children tree\<rparr>)"

definition num_children :: "comment_tree \<Rightarrow> int \<Rightarrow> int" where
  "num_children ct c = (case map_of (ct_num ct) c of None \<Rightarrow> 0 | Some n \<Rightarrow> n)"

record ctuple =
  t_id :: int
  t_depth :: int
  t_parent :: "int option"
  t_num :: int
  t_children :: "int list"

datatype entry = CommentTuple ctuple | MissingChildrenTuple int "int set"

datatype sort_op = SortAsc string | SortDesc string | SortShuffled string

definition sort_op_col :: "sort_op \<Rightarrow> string" where
  "sort_op_col s = (case s of SortAsc c \<Rightarrow> c | SortDesc c \<Rightarrow> c | SortShuffled c \<Rightarrow> c)"

definition rev_sort :: "sort_op \<Rightarrow> bool" where
  "rev_sort s = (case s of SortAsc _ \<Rightarrow> False | _ \<Rightarrow> True)"

subsection \<open>Choosing comments\<close>

type_synonym candidates = "(real \<times> int) list"

definition update_candidates :: "sort_op \<Rightarrow> (int, real) dict \<Rightarrow> int list \<Rightarrow> candidates \<Rightarrow> candidates" where
  "update_candidates srt sorter to_add candidates =
     fold (\<lambda>c cands. case map_of sorter c of
             None \<Rightarrow> cands
           | Some v \<Rightarrow> insort (if rev_sort srt then - v else v, c) cands) to_add candidates"

record orderer =
  o_sort :: sort_op
  o_max_comments :: int
  o_max_depth :: int

text \<open>The loop that pops candidates, adds them to the list and pushes their replies.\<close>

function pick ::
    "orderer \<Rightarrow> comment_tree \<Rightarrow> (int, real) dict \<Rightarrow> int \<Rightarrow> candidates \<Rightarrow> ctuple list
     \<Rightarrow> (ctuple list \<times> candidates) result" where
  "pick od ct sorter offset_depth candidates tuples =
     (if candidates = [] \<or> int (length tuples) \<ge> o_max_comments od then Inr (tuples, candidates)
      else
        let c = snd (hd candidates); rest = tl candidates in
        if c \<notin> set (ct_cids ct) then pick od ct sorter offset_depth rest tuples
        else (case map_of (ct_depth ct) c of
            None \<Rightarrow> Inl (KeyError (py_str_int c))
          | Some d \<Rightarrow>
              if d - offset_depth \<ge> o_max_depth od then pick od ct sorter offset_depth rest tuples
              else (case map_of (ct_parents ct) c of
                  None \<Rightarrow> Inl (KeyError (py_str_int c))
                | Some p \<Rightarrow>
                    let child_ids = children (ct_tree ct) (Some c);
                        t = \<lparr>t_id = c, t_depth = d - offset_depth, t_parent = p, t_num = num_children ct c,
                             t_children = child_ids\<rparr> in
                    pick od ct sorter offset_depth
                      (if d - offset_depth + 1 < o_max_depth od
                       then update_candidates (o_sort od) sorter child_ids rest else rest)
                      (tuples @ [t]))))"
  by pat_completeness auto
termination
  by (relation "measures [\<lambda>(od, ct, sorter, off, cands, tuples). nat (o_max_comments od - int (length tuples)),
      \<lambda>(od, ct, sorter, off, cands, tuples). length cands]")
     (auto simp: neq_Nil_conv)

declare pick.simps [simp del]

text \<open>
  \<open>CommentOrdererBase.get_comment_order\<close> after the tree and the scores are loaded. The parameters are
  what the subclasses decide: the starting candidates with the offset of depths, and the comments that
  are put first.
\<close>

definition missing_roots :: "comment_tree \<Rightarrow> int \<Rightarrow> candidates \<Rightarrow> int set" where
  "missing_roots ct offset_depth candidates =
     set (filter (\<lambda>c. (case map_of (ct_depth ct) c of None \<Rightarrow> 0 | Some d \<Rightarrow> d) - offset_depth = 0) (map snd candidates))"

definition order_entries :: "comment_tree \<Rightarrow> int \<Rightarrow> ctuple list \<Rightarrow> candidates \<Rightarrow> entry list" where
  "order_entries ct offset_depth tuples candidates =
     (let roots = missing_roots ct offset_depth candidates in
      map CommentTuple tuples @
      (if roots = {} then [] else [MissingChildrenTuple (\<Sum>c \<in> roots. 1 + num_children ct c) roots]))"

definition base_comment_order ::
    "orderer \<Rightarrow> comment_tree \<Rightarrow> (int, real) dict \<Rightarrow> int list \<Rightarrow> int \<Rightarrow> ctuple list \<Rightarrow> entry list result" where
  "base_comment_order od ct sorter initial_candidates offset_depth first =
     (let initial = (if first = [] then initial_candidates
                     else filter (\<lambda>c. c \<notin> t_id ` set first) initial_candidates) in
      bindr (pick od ct sorter offset_depth (update_candidates (o_sort od) sorter initial []) first) (\<lambda>(tuples, candidates).
        Inr (order_entries ct offset_depth tuples candidates)))"

text \<open>
  The sort \<open>random\<close>: the scores of the top-level comments are permuted; \<open>shuffle\<close> is the outcome of
  \<open>random.shuffle\<close>.
\<close>

definition shuffle_top_level ::
    "(real list \<Rightarrow> real list) \<Rightarrow> comment_tree \<Rightarrow> (int, real) dict \<Rightarrow> (int, real) dict result" where
  "shuffle_top_level shuffle ct sorter =
     (let top_level_ids = children (ct_tree ct) None in
      bindr (mapr (\<lambda>c. of_option (KeyError (py_str_int c)) (map_of sorter c)) top_level_ids) (\<lambda>scores.
        Inr (dict_update sorter (zip top_level_ids (shuffle scores)))))"

subsection \<open>The orderers\<close>

definition min_depth :: "comment_tree \<Rightarrow> int list \<Rightarrow> int result" where
  "min_depth ct ids =
     bindr (mapr (\<lambda>c. of_option (KeyError (py_str_int c)) (map_of (ct_depth ct) c)) ids) (\<lambda>ds.
       Inr (Min (set ds)))"

text \<open>\<open>CommentOrderer\<close>: all top-level comments, the sticky one first.\<close>

definition top_level_candidates :: "comment_tree \<Rightarrow> (int list \<times> int) result" where
  "top_level_candidates ct =
     (let ids = children (ct_tree ct) None in
      if ids = [] then Inr (ids, 0) else bindr (min_depth ct ids) (\<lambda>d. Inr (ids, d)))"

definition initial_comment_list :: "int option \<Rightarrow> comment_tree \<Rightarrow> ctuple list" where
  "initial_comment_list sticky ct =
     (case sticky of
        None \<Rightarrow> []
      | Some s \<Rightarrow>
          if s \<noteq> 0 \<and> s \<in> set (children (ct_tree ct) None)
          then [\<lparr>t_id = s, t_depth = 0, t_parent = None, t_num = num_children ct s,
                 t_children = children (ct_tree ct) (Some s)\<rparr>]
          else [])"

definition comment_order ::
    "orderer \<Rightarrow> comment_tree \<Rightarrow> (int, real) dict \<Rightarrow> int option \<Rightarrow> entry list result" where
  "comment_order od ct sorter sticky =
     bindr (top_level_candidates ct) (\<lambda>(initial, offset).
       base_comment_order od ct sorter initial offset (initial_comment_list sticky ct))"

text \<open>\<open>PermalinkCommentOrderer\<close>: the path to one comment; \<open>None\<close> is \<open>InconsistentCommentTreeError\<close>.\<close>

fun path_loop :: "comment_tree \<Rightarrow> nat \<Rightarrow> int option \<Rightarrow> int list \<Rightarrow> int list option" where
  "path_loop ct n None path = Some path"
| "path_loop ct 0 (Some c) path = Some path"
| "path_loop ct (Suc n) (Some c) path =
     (if c = 0 then Some path
      else (case map_of (ct_parents ct) c of
          None \<Rightarrow> None
        | Some p \<Rightarrow> path_loop ct n p (path @ [c])))"

definition get_path_to_comment :: "comment_tree \<Rightarrow> int \<Rightarrow> int \<Rightarrow> int list option" where
  "get_path_to_comment ct c context =
     (if c \<notin> set (ct_cids ct) then None
      else map_option rev (path_loop ct (nat (context + 1)) (Some c) []))"

definition focus_step :: "int \<Rightarrow> comment_tree \<Rightarrow> comment_tree" where
  "focus_step c ct =
     (case map_of (ct_parents ct) c of
        None \<Rightarrow> ct
      | Some p \<Rightarrow>
          let ct' = ct\<lparr>ct_tree := AList.update p [c] (ct_tree ct)\<rparr> in
          (case p of None \<Rightarrow> ct' | Some q \<Rightarrow> ct'\<lparr>ct_num := AList.update q (num_children ct c + 1) (ct_num ct)\<rparr>))"

definition permalink_order ::
    "orderer \<Rightarrow> comment_tree \<Rightarrow> (int, real) dict \<Rightarrow> int \<Rightarrow> int \<Rightarrow> entry list result option" where
  "permalink_order od ct sorter c context =
     (case get_path_to_comment ct c context of
        None \<Rightarrow> None
      | Some path \<Rightarrow>
          let ct' = fold focus_step (rev path) ct in
          (case path of
             [] \<Rightarrow> Some (Inl IndexError)
           | start # _ \<Rightarrow>
               Some (bindr (of_option (KeyError (py_str_int start)) (map_of (ct_depth ct') start)) (\<lambda>d.
                 base_comment_order od ct' sorter [start] d []))))"

text \<open>\<open>ChildrenCommentOrderer\<close>: the requested comments of the least depth; depths are not shifted.\<close>

definition children_order ::
    "orderer \<Rightarrow> comment_tree \<Rightarrow> (int, real) dict \<Rightarrow> int list \<Rightarrow> entry list result" where
  "children_order od ct sorter ids =
     (let known = filter (\<lambda>c. map_of (ct_depth ct) c \<noteq> None) ids;
          d = Min (set (map (\<lambda>c. the (map_of (ct_depth ct) c)) known));
          initial = filter (\<lambda>c. map_of (ct_depth ct) c = Some d) known in
      base_comment_order od ct sorter initial 0 [])"

subsection \<open>Precomputed orders\<close>

definition MAX_RECURSION :: int where
  "MAX_RECURSION = 10"

text \<open>
  \<open>write_cache\<close> and \<open>read_cache\<close>; the permacache maps the key of a link and a sort to a list of entries.
\<close>

definition write_cache :: "string \<Rightarrow> entry list \<Rightarrow> (string \<Rightarrow> entry list option) \<Rightarrow> string \<Rightarrow> entry list option" where
  "write_cache key entries perma =
     (if entries \<noteq> (case perma key of None \<Rightarrow> [] | Some e \<Rightarrow> e) then perma(key \<mapsto> entries) else perma)"

definition split_missing :: "entry list \<Rightarrow> entry list \<times> (int \<times> int set)" where
  "split_missing entries =
     (case rev entries of
        MissingChildrenTuple n ids # es \<Rightarrow> (rev es, (n, ids))
      | _ \<Rightarrow> (entries, (0, {})))"

definition ctuples :: "entry list \<Rightarrow> ctuple list" where
  "ctuples entries = List.map_filter (\<lambda>e. case e of CommentTuple t \<Rightarrow> Some t | _ \<Rightarrow> None) entries"

text \<open>Slices \<open>xs[:n]\<close> and \<open>xs[n:]\<close>, where a negative \<open>n\<close> counts from the end.\<close>

definition slice_at :: "int \<Rightarrow> 'a list \<Rightarrow> nat" where
  "slice_at n xs = (if n < 0 then length xs - nat (- n) else nat n)"

definition read_cache :: "orderer \<Rightarrow> entry list option \<Rightarrow> entry list" where
  "read_cache od cached =
     (let (entries, num, roots) = split_missing (case cached of None \<Rightarrow> [] | Some e \<Rightarrow> e);
          tuples = (if o_max_depth od < MAX_RECURSION
                    then filter (\<lambda>t. t_depth t < o_max_depth od) (ctuples entries) else ctuples entries);
          m = slice_at (o_max_comments od) tuples;
          dropped = filter (\<lambda>t. t_depth t = 0) (drop m tuples);
          roots' = (if o_max_comments od < int (length tuples) then roots \<union> t_id ` set dropped else roots);
          num' = (if o_max_comments od < int (length tuples) then num + (\<Sum>t\<leftarrow>dropped. 1 + t_num t) else num) in
      map CommentTuple (if o_max_comments od < int (length tuples) then take m tuples else tuples) @ (if roots' = {} then [] else [MissingChildrenTuple num' roots']))"

subsection \<open>Facts on the tree\<close>

lemma map_of_dict_update_pair:
  "map_of (dict_update m (map (\<lambda>c. (c, p)) cs)) c = (if c \<in> set cs then Some p else map_of m c)"
  by (rule map_of_dict_update_const)

lemma td_parents_fold:
  assumes "\<And>p q. c \<in> set (children tree p) \<Longrightarrow> c \<in> set (children tree q) \<Longrightarrow> p = q"
  shows "map_of (td_parents (fold (details_step tree) ks td)) c =
    (if \<exists>p \<in> set ks. c \<in> set (children tree p) then Some (THE p. c \<in> set (children tree p)) else map_of (td_parents td) c)"
proof (induction ks arbitrary: td)
  case (Cons k ks)
  have "td_parents (details_step tree k td) = dict_update (td_parents td) (map (\<lambda>c. (c, k)) (children tree k))"
    by (simp add: details_step_def Let_def)
  moreover have "(THE p. c \<in> set (children tree p)) = k" if "c \<in> set (children tree k)"
    using that assms by blast
  ultimately show ?case using Cons.IH by (auto simp: map_of_dict_update_pair)
qed simp

lemma tree_parents:
  assumes "wf_tree tree" "c \<in> set (children tree p)"
  shows "map_of (td_parents (get_tree_details tree)) c = Some p"
proof -
  have u: "q = p" if "c \<in> set (children tree q)" for q using unique_parent [OF assms(1)] assms(2) that by blast
  have "p \<in> set (sort (map fst tree))" using children_in_all(2) [OF assms(2)] by simp
  moreover have "(THE q. c \<in> set (children tree q)) = p" using assms(2) u by blast
  ultimately show ?thesis
    unfolding get_tree_details_def
    using td_parents_fold [of c tree "sort (map fst tree)" "\<lparr>td_cids = [], td_depth = [], td_parents = []\<rparr>"]
      unique_parent [OF assms(1)] assms(2) by (metis (no_types))
qed

lemma at_depth_nonneg: "at_depth tree c d \<Longrightarrow> 0 \<le> d"
  by (induction rule: at_depth.induct) auto

lemma at_depth_in_all: "at_depth tree c d \<Longrightarrow> c \<in> set (all_children tree)"
  by (erule at_depthE) (auto dest: children_in_all(1))

lemma at_depth_unique:
  assumes "wf_tree tree"
  shows "at_depth tree c d \<Longrightarrow> at_depth tree c e \<Longrightarrow> d = e"
proof (induction arbitrary: e rule: at_depth.induct)
  case (top c)
  from top.prems show ?case
    by (rule at_depthE) (use unique_parent [OF assms top.hyps] in auto)
next
  case (reply p d c)
  from reply.prems show ?case
  proof (rule at_depthE)
    assume "c \<in> set (children tree None)"
    then show ?thesis using unique_parent [OF assms reply.hyps(2)] by auto
  next
    fix q d' assume q: "e = d' + 1" "at_depth tree q d'" "c \<in> set (children tree (Some q))"
    then have "q = p" using unique_parent [OF assms reply.hyps(2) q(3)] by simp
    then show ?thesis using reply.IH q by simp
  qed
qed

lemma at_depth_iff:
  assumes "wf_tree tree" "rooted tree"
  shows "map_of (td_depth (get_tree_details tree)) c = Some d \<longleftrightarrow> at_depth tree c d"
proof -
  have "case map_of (td_depth (get_tree_details tree)) c of
      None \<Rightarrow> c \<notin> set (all_children tree) | Some d \<Rightarrow> at_depth tree c d"
    using tree_depths [OF assms] by blast
  then show ?thesis
    using at_depth_in_all at_depth_unique [OF assms(1)] by (auto split: option.splits)
qed

text \<open>A loaded comment tree in good shape.\<close>

definition good_tree :: "comment_tree \<Rightarrow> bool" where
  "good_tree ct \<longleftrightarrow> wf_tree (ct_tree ct) \<and> set (ct_cids ct) = set (all_children (ct_tree ct)) \<and>
     (\<forall>c d. map_of (ct_depth ct) c = Some d \<longleftrightarrow> at_depth (ct_tree ct) c d) \<and>
     (\<forall>c \<in> set (ct_cids ct). \<exists>d. at_depth (ct_tree ct) c d) \<and>
     (\<forall>c p. c \<in> set (children (ct_tree ct) p) \<longrightarrow> map_of (ct_parents ct) c = Some p)"

lemma by_link_good:
  assumes "wf_tree (load_tree stored)" "rooted (load_tree stored)"
  shows "good_tree (by_link stored)"
proof -
  have d: "dict_ok (load_tree stored)" using assms(1) by (simp add: wf_tree_def)
  have "\<exists>d. at_depth (load_tree stored) c d" if "c \<in> set (all_children (load_tree stored))" for c
    using tree_depths [OF assms, THEN spec, of c] that by (auto split: option.splits)
  then show ?thesis
    using assms(1) set_td_cids [OF d] at_depth_iff [OF assms] tree_parents [OF assms(1)]
    by (simp add: good_tree_def by_link_def Let_def)
qed

lemma good_treeD:
  assumes "good_tree ct"
  shows "wf_tree (ct_tree ct)" "set (ct_cids ct) = set (all_children (ct_tree ct))"
    "\<And>c d. map_of (ct_depth ct) c = Some d \<longleftrightarrow> at_depth (ct_tree ct) c d"
    "\<And>c. c \<in> set (ct_cids ct) \<Longrightarrow> \<exists>d. at_depth (ct_tree ct) c d"
    "\<And>c p. c \<in> set (children (ct_tree ct) p) \<Longrightarrow> map_of (ct_parents ct) c = Some p"
  using assms unfolding good_tree_def by blast+

subsection \<open>The loop\<close>

definition depth_of :: "comment_tree \<Rightarrow> int \<Rightarrow> int" where
  "depth_of ct c = the (map_of (ct_depth ct) c)"

definition ctuple_of :: "comment_tree \<Rightarrow> int \<Rightarrow> ctuple" where
  "ctuple_of ct c = \<lparr>t_id = c, t_depth = depth_of ct c, t_parent = the (map_of (ct_parents ct) c),
     t_num = num_children ct c, t_children = children (ct_tree ct) (Some c)\<rparr>"

lemma ctuple_of_sel [simp]:
  "t_id (ctuple_of ct c) = c" "t_depth (ctuple_of ct c) = depth_of ct c" "t_num (ctuple_of ct c) = num_children ct c"
  by (simp_all add: ctuple_of_def)

lemma mset_update_candidates:
  "mset (map snd (update_candidates srt sorter ids cands)) =
     mset (filter (\<lambda>c. map_of sorter c \<noteq> None) ids) + mset (map snd cands)"
  unfolding update_candidates_def
proof (induction ids arbitrary: cands)
  case (Cons c ids)
  have "mset (map snd (insort x cands)) = add_mset (snd x) (mset (map snd cands))" for x :: "real \<times> int"
    by simp
  then show ?case using Cons.IH by (auto split: option.splits)
qed simp

lemma update_candidates_props:
  "snd ` set (update_candidates srt sorter ids cands) = {c \<in> set ids. map_of sorter c \<noteq> None} \<union> snd ` set cands"
  "distinct ids \<Longrightarrow> distinct (map snd cands) \<Longrightarrow> set ids \<inter> snd ` set cands = {} \<Longrightarrow>
   distinct (map snd (update_candidates srt sorter ids cands))"
proof -
  show "snd ` set (update_candidates srt sorter ids cands) = {c \<in> set ids. map_of sorter c \<noteq> None} \<union> snd ` set cands"
    using arg_cong [OF mset_update_candidates, of set_mset] by auto
  show "distinct (map snd (update_candidates srt sorter ids cands))"
    if "distinct ids" "distinct (map snd cands)" "set ids \<inter> snd ` set cands = {}"
  proof -
    have "mset (map snd (update_candidates srt sorter ids cands))
        = mset (filter (\<lambda>c. map_of sorter c \<noteq> None) ids @ map snd cands)"
      using mset_update_candidates by simp
    moreover have "distinct (filter (\<lambda>c. map_of sorter c \<noteq> None) ids @ map snd cands)" using that by auto
    ultimately show ?thesis by (metis mset_eq_imp_distinct_iff)
  qed
qed

text \<open>
  The invariant of the loop: no comment occurs twice; every chosen comment and every candidate is a
  top-level comment or a reply to one that was chosen before; and the tuples are those of the tree.
\<close>

definition below :: "comment_tree \<Rightarrow> ctuple list \<Rightarrow> int \<Rightarrow> bool" where
  "below ct tuples x \<longleftrightarrow> x \<in> set (children (ct_tree ct) None) \<or>
     (\<exists>p \<in> t_id ` set tuples. x \<in> set (children (ct_tree ct) (Some p)))"

fun parents_first :: "comment_tree \<Rightarrow> ctuple list \<Rightarrow> ctuple list \<Rightarrow> bool" where
  "parents_first ct before [] \<longleftrightarrow> True"
| "parents_first ct before (t # ts) \<longleftrightarrow> below ct before (t_id t) \<and> parents_first ct (before @ [t]) ts"

definition of_tree :: "comment_tree \<Rightarrow> ctuple \<Rightarrow> bool" where
  "of_tree ct t \<longleftrightarrow> t = ctuple_of ct (t_id t)"

lemma of_tree_ctuple [simp]: "of_tree ct (ctuple_of ct c)"
  by (simp add: of_tree_def)

definition pick_inv :: "comment_tree \<Rightarrow> candidates \<Rightarrow> ctuple list \<Rightarrow> bool" where
  "pick_inv ct cands tuples \<longleftrightarrow>
     distinct (map t_id tuples @ map snd cands) \<and> parents_first ct [] tuples \<and>
     (\<forall>x \<in> snd ` set cands. below ct tuples x) \<and> (\<forall>t \<in> set tuples. of_tree ct t)"

lemma below_mono: "below ct tuples x \<Longrightarrow> below ct (tuples @ ts) x"
  by (auto simp: below_def)

lemma below_cids: "good_tree ct \<Longrightarrow> below ct tuples x \<Longrightarrow> x \<in> set (ct_cids ct)"
  using good_treeD(2) children_in_all(1) by (fastforce simp: below_def)

lemma parents_first_snoc:
  "parents_first ct before (ts @ [t]) \<longleftrightarrow> parents_first ct before ts \<and> below ct (before @ ts) (t_id t)"
  by (induction ts arbitrary: before) auto

lemma parents_first_below: "parents_first ct before ts \<Longrightarrow> t \<in> set ts \<Longrightarrow> below ct (before @ ts) (t_id t)"
proof (induction ts arbitrary: before)
  case (Cons u ts)
  then show ?case using below_mono [of ct before "t_id u" "u # ts"] Cons.IH [of "before @ [u]"] by auto
qed simp

lemma pick_inv_skip: "pick_inv ct ((v, c) # rest) tuples \<Longrightarrow> pick_inv ct rest tuples"
  by (auto simp: pick_inv_def)

lemma pick_inv_take:
  assumes good: "good_tree ct" and inv: "pick_inv ct ((v, c) # rest) tuples"
  shows "pick_inv ct (update_candidates srt sorter (children (ct_tree ct) (Some c)) rest) (tuples @ [ctuple_of ct c])"
    "pick_inv ct rest (tuples @ [ctuple_of ct c])"
proof -
  note wf = good_treeD(1) [OF good]
  let ?cs = "children (ct_tree ct) (Some c)"
  have dis: "distinct (map t_id tuples @ map snd rest)" "c \<notin> t_id ` set tuples" "c \<notin> snd ` set rest"
    using inv by (auto simp: pick_inv_def)
  have bel: "below ct tuples x" if "x \<in> t_id ` set tuples \<union> snd ` set rest" for x
    using that inv parents_first_below [of ct "[]" tuples] by (auto simp: pick_inv_def)
  have bc: "below ct tuples c" using inv by (auto simp: pick_inv_def)
  have new: "x \<notin> t_id ` set tuples \<union> snd ` set rest" if "x \<in> set ?cs" for x
  proof
    assume "x \<in> t_id ` set tuples \<union> snd ` set rest"
    from bel [OF this] show False using unique_parent [OF wf that] dis(2) by (auto simp: below_def)
  qed
  have "c \<notin> set ?cs" using wf_tree_less [OF wf] by fastforce
  then have d: "set (c # ?cs) \<inter> (t_id ` set tuples \<union> snd ` set rest) = {}" "distinct (c # ?cs)"
    using new dis distinct_children [OF wf] by auto
  let ?up = "update_candidates srt sorter ?cs rest"
  have ds: "set ?cs \<inter> snd ` set rest = {}" "distinct (map snd rest)" "distinct ?cs" using d dis(1) by auto
  have up: "snd ` set ?up \<subseteq> set ?cs \<union> snd ` set rest" "distinct (map snd ?up)"
    using update_candidates_props(1) [of srt sorter ?cs rest]
      update_candidates_props(2) [OF ds(3,2,1)] by auto
  have pf: "parents_first ct [] (tuples @ [ctuple_of ct c])" and eq: "\<forall>t \<in> set (tuples @ [ctuple_of ct c]). of_tree ct t"
    using inv bc by (auto simp: pick_inv_def parents_first_snoc)
  have br: "below ct (tuples @ [ctuple_of ct c]) x" if "x \<in> set ?cs \<union> snd ` set rest" for x
    using that bel below_mono by (auto simp: below_def)
  have ids: "set (map t_id (tuples @ [ctuple_of ct c])) = insert c (t_id ` set tuples)" by auto
  have dt: "distinct (map t_id (tuples @ [ctuple_of ct c]))" using dis by auto
  have disj: "insert c (t_id ` set tuples) \<inter> (set ?cs \<union> snd ` set rest) = {}" using d dis by auto
  have add: "pick_inv ct cands (tuples @ [ctuple_of ct c])"
    if "snd ` set cands \<subseteq> set ?cs \<union> snd ` set rest" "distinct (map snd cands)" for cands
  proof -
    have "set (map t_id (tuples @ [ctuple_of ct c])) \<inter> set (map snd cands) = {}"
      unfolding ids set_map [of snd] by (rule disjoint_mono [OF subset_refl that(1) disj])
    then have "distinct (map t_id (tuples @ [ctuple_of ct c]) @ map snd cands)"
      using dt that(2) unfolding distinct_append by blast
    moreover have "\<forall>x \<in> snd ` set cands. below ct (tuples @ [ctuple_of ct c]) x"
      using that(1) by (intro ballI br) (rule subsetD)
    ultimately show ?thesis unfolding pick_inv_def by (intro conjI pf eq)
  qed
  show "pick_inv ct ?up (tuples @ [ctuple_of ct c])" by (rule add [OF up])
  show "pick_inv ct rest (tuples @ [ctuple_of ct c])" by (rule add) (use dis(1) in auto)
qed

text \<open>One round of the loop, in a tree in good shape.\<close>

lemma pick_round:
  assumes good: "good_tree ct" and inv: "pick_inv ct ((v, c) # rest) tuples" and len: "int (length tuples) < o_max_comments od"
  shows "pick od ct sorter 0 ((v, c) # rest) tuples =
    (if depth_of ct c \<ge> o_max_depth od then pick od ct sorter 0 rest tuples
     else pick od ct sorter 0
       (if depth_of ct c + 1 < o_max_depth od
        then update_candidates (o_sort od) sorter (children (ct_tree ct) (Some c)) rest else rest)
       (tuples @ [ctuple_of ct c]))"
proof -
  have "below ct tuples c" using inv by (auto simp: pick_inv_def)
  then have c: "c \<in> set (ct_cids ct)" "\<exists>p. map_of (ct_parents ct) c = Some p"
    using below_cids [OF good] good_treeD(5) [OF good] by (auto simp: below_def)
  obtain d where "map_of (ct_depth ct) c = Some d" using good_treeD(3,4) [OF good] c(1) by blast
  with c len show ?thesis
    by (subst pick.simps) (auto simp: depth_of_def ctuple_of_def Let_def)
qed

lemma pick_rule [consumes 2, case_names stop skip take]:
  assumes good: "good_tree ct" and inv: "pick_inv ct cands tuples"
    and "\<And>cands tuples. pick_inv ct cands tuples \<Longrightarrow> cands = [] \<or> o_max_comments od \<le> int (length tuples) \<Longrightarrow> P cands tuples tuples cands"
    and "\<And>v c rest tuples L C. pick_inv ct ((v, c) # rest) tuples \<Longrightarrow> int (length tuples) < o_max_comments od \<Longrightarrow>
       o_max_depth od \<le> depth_of ct c \<Longrightarrow> P rest tuples L C \<Longrightarrow> P ((v, c) # rest) tuples L C"
    and "\<And>v c rest tuples L C nxt. pick_inv ct ((v, c) # rest) tuples \<Longrightarrow> int (length tuples) < o_max_comments od \<Longrightarrow>
       depth_of ct c < o_max_depth od \<Longrightarrow>
       nxt = (if depth_of ct c + 1 < o_max_depth od
        then update_candidates (o_sort od) sorter (children (ct_tree ct) (Some c)) rest else rest) \<Longrightarrow>
       pick_inv ct nxt (tuples @ [ctuple_of ct c]) \<Longrightarrow>
       P nxt (tuples @ [ctuple_of ct c]) L C \<Longrightarrow> P ((v, c) # rest) tuples L C"
  shows "\<exists>L C. pick od ct sorter 0 cands tuples = Inr (L, C) \<and> P cands tuples L C"
  using inv
proof (induction "(nat (o_max_comments od - int (length tuples)), length cands)" arbitrary: cands tuples rule: wf_induct_rule [OF wf_lex_prod [OF wf_less_than wf_less_than]])
  case 1
  show ?case
  proof (cases "cands = [] \<or> o_max_comments od \<le> int (length tuples)")
    case True
    then show ?thesis using assms(3) [OF 1(2) True] by (subst pick.simps) auto
  next
    case False
    then obtain v c rest where cands: "cands = (v, c) # rest" by (cases cands) auto
    note inv = 1(2) [unfolded cands]
    have len: "int (length tuples) < o_max_comments od" using False by simp
    note round = pick_round [OF good inv len, of sorter]
    show ?thesis
    proof (cases "o_max_depth od \<le> depth_of ct c")
      case True
      then show ?thesis using 1(1) [of tuples rest] pick_inv_skip [OF inv] assms(4) [OF inv len True] round cands by auto
    next
      case no: False
      let ?nxt = "if depth_of ct c + 1 < o_max_depth od
        then update_candidates (o_sort od) sorter (children (ct_tree ct) (Some c)) rest else rest"
      have ni: "pick_inv ct ?nxt (tuples @ [ctuple_of ct c])" using pick_inv_take [OF good inv] by simp
      have "\<exists>L C. pick od ct sorter 0 ?nxt (tuples @ [ctuple_of ct c]) = Inr (L, C) \<and> P ?nxt (tuples @ [ctuple_of ct c]) L C"
        using 1(1) [of "tuples @ [ctuple_of ct c]" ?nxt] ni len by simp
      then show ?thesis using assms(5) [OF inv len _ refl ni] no round cands by auto
    qed
  qed
qed


lemma depth_top: "good_tree ct \<Longrightarrow> c \<in> set (children (ct_tree ct) None) \<Longrightarrow> map_of (ct_depth ct) c = Some 0"
  using good_treeD(3) at_depth.top by blast

lemma depth_of_top: "good_tree ct \<Longrightarrow> c \<in> set (children (ct_tree ct) None) \<Longrightarrow> depth_of ct c = 0"
  using depth_top by (simp add: depth_of_def)

lemma depth_of_reply:
  assumes good: "good_tree ct" and x: "x \<in> set (children (ct_tree ct) (Some c))" and c: "c \<in> set (ct_cids ct)"
  shows "depth_of ct x = depth_of ct c + 1" "0 \<le> depth_of ct c"
proof -
  obtain d where d: "at_depth (ct_tree ct) c d" using good_treeD(4) [OF good c] by blast
  then have "at_depth (ct_tree ct) x (d + 1)" using x by (rule at_depth.reply)
  then have "map_of (ct_depth ct) c = Some d" "map_of (ct_depth ct) x = Some (d + 1)"
    using d good_treeD(3) [OF good] by blast+
  then show "depth_of ct x = depth_of ct c + 1" "0 \<le> depth_of ct c"
    using at_depth_nonneg [OF d] by (simp_all add: depth_of_def)
qed

lemma min_depth_tops:
  assumes "good_tree ct"
  shows "set xs \<subseteq> set (children (ct_tree ct) None) \<Longrightarrow>
    mapr (\<lambda>c. of_option (KeyError (py_str_int c)) (map_of (ct_depth ct) c)) xs = Inr (map (\<lambda>_. 0) xs)"
  by (induction xs) (simp_all add: depth_top [OF assms] of_option_def)

lemma top_level_candidates_good:
  assumes "good_tree ct"
  shows "top_level_candidates ct = Inr (children (ct_tree ct) None, 0)"
proof (cases "children (ct_tree ct) None")
  case (Cons x xs)
  have "Min (set (map (\<lambda>_. 0 :: int) (children (ct_tree ct) None))) = 0"
    unfolding Cons by (simp add: image_constant_conv)
  then show ?thesis
    using min_depth_tops [OF assms, of "children (ct_tree ct) None"] Cons
    by (simp add: top_level_candidates_def min_depth_def Let_def)
qed (simp add: top_level_candidates_def)

subsection \<open>The front page order\<close>

definition start_candidates :: "orderer \<Rightarrow> comment_tree \<Rightarrow> (int, real) dict \<Rightarrow> int option \<Rightarrow> candidates" where
  "start_candidates od ct sorter sticky =
     update_candidates (o_sort od) sorter
       (filter (\<lambda>c. c \<notin> t_id ` set (initial_comment_list sticky ct)) (children (ct_tree ct) None)) []"

lemma comment_order_good:
  assumes "good_tree ct"
  shows "comment_order od ct sorter sticky =
    bindr (pick od ct sorter 0 (start_candidates od ct sorter sticky) (initial_comment_list sticky ct))
      (\<lambda>(tuples, candidates). Inr (order_entries ct 0 tuples candidates))"
  by (simp add: comment_order_def top_level_candidates_good [OF assms] base_comment_order_def
      start_candidates_def Let_def)

lemma initial_comment_list_good:
  assumes "good_tree ct"
  shows "initial_comment_list sticky ct = [] \<or>
    (\<exists>s \<in> set (children (ct_tree ct) None). initial_comment_list sticky ct = [ctuple_of ct s])"
proof -
  have "depth_of ct s = 0" "the (map_of (ct_parents ct) s) = None" if "s \<in> set (children (ct_tree ct) None)" for s
    using that depth_of_top [OF assms] good_treeD(5) [OF assms] by simp_all
  then show ?thesis by (auto simp: initial_comment_list_def ctuple_of_def split: option.splits)
qed

lemma start_inv:
  assumes good: "good_tree ct"
  shows "pick_inv ct (start_candidates od ct sorter sticky) (initial_comment_list sticky ct)"
proof -
  let ?init = "initial_comment_list sticky ct"
  let ?tops = "filter (\<lambda>c. c \<notin> t_id ` set ?init) (children (ct_tree ct) None)"
  have dt: "distinct ?tops" using distinct_children [OF good_treeD(1) [OF good]] by simp
  have c: "distinct (map snd (start_candidates od ct sorter sticky))"
    "snd ` set (start_candidates od ct sorter sticky) \<subseteq> set ?tops"
    unfolding start_candidates_def using update_candidates_props(2) [OF dt, of "[]"]
      update_candidates_props(1) [of "o_sort od" sorter ?tops "[]"] by auto
  have "distinct (map t_id ?init @ map snd (start_candidates od ct sorter sticky))"
    using c initial_comment_list_good [OF good, of sticky] by auto
  moreover have "parents_first ct [] ?init" "\<forall>t \<in> set ?init. of_tree ct t"
    using initial_comment_list_good [OF good, of sticky] by (auto simp: below_def)
  moreover have "\<forall>x \<in> snd ` set (start_candidates od ct sorter sticky). below ct ?init x"
    using c(2) by (auto simp: below_def)
  ultimately show ?thesis unfolding pick_inv_def by (intro conjI)
qed

lemmas pick_start = pick_rule [OF _ start_inv]

text \<open>What the loop leaves: the invariant, the bounds, and no more than it was given of depth 0.\<close>

definition at_top :: "comment_tree \<Rightarrow> int set \<Rightarrow> int set" where
  "at_top ct X = {x \<in> X. depth_of ct x = 0}"

lemma at_top_simps [simp]:
  "at_top ct (X \<union> Y) = at_top ct X \<union> at_top ct Y" "at_top ct {} = {}"
  "at_top ct (insert x X) = (if depth_of ct x = 0 then insert x (at_top ct X) else at_top ct X)"
  by (auto simp: at_top_def)

lemma pick_result:
  assumes good: "good_tree ct" and inv: "pick_inv ct cands tuples" and pos: "0 < o_max_depth od"
  shows "\<exists>L C. pick od ct sorter 0 cands tuples = Inr (L, C) \<and> pick_inv ct C L \<and>
    (C = [] \<or> o_max_comments od \<le> int (length L)) \<and>
    int (length L) \<le> max (int (length tuples)) (o_max_comments od) \<and>
    (\<exists>L'. L = tuples @ L' \<and> (\<forall>t \<in> set L'. t_depth t < o_max_depth od) \<and>
       at_top ct (snd ` set cands) = at_top ct (t_id ` set L') \<union> at_top ct (snd ` set C))"
  using good inv
proof (induction rule: pick_rule)
  case (stop cands tuples)
  then show ?case by auto
next
  case (skip v c rest tuples L C)
  then show ?case using pos by auto
next
  case (take v c rest tuples L C nxt)
  have c: "c \<in> set (ct_cids ct)" using take(1) below_cids [OF good, of tuples c] by (auto simp: pick_inv_def)
  have "at_top ct {x \<in> set (children (ct_tree ct) (Some c)). map_of sorter x \<noteq> None} = {}"
    using depth_of_reply [OF good _ c] by (fastforce simp: at_top_def)
  then have "at_top ct (snd ` set nxt) = at_top ct (snd ` set rest)"
    unfolding take(4) by (simp add: update_candidates_props(1))
  moreover obtain L' where L': "L = tuples @ ctuple_of ct c # L'" "\<forall>t \<in> set L'. t_depth t < o_max_depth od"
      "at_top ct (snd ` set nxt) = at_top ct (t_id ` set L') \<union> at_top ct (snd ` set C)"
    using take by auto
  ultimately have "at_top ct (snd ` set ((v, c) # rest)) = at_top ct (t_id ` set (ctuple_of ct c # L')) \<union> at_top ct (snd ` set C)"
    by auto
  moreover have "\<forall>t \<in> set (ctuple_of ct c # L'). t_depth t < o_max_depth od" using take(3) L'(2) by simp
  ultimately show ?case using take(2,6) L'(1) by auto
qed

lemma missing_roots_at_top:
  assumes "good_tree ct" "pick_inv ct C L"
  shows "missing_roots ct 0 C = at_top ct (snd ` set C)"
proof -
  have "\<exists>d. map_of (ct_depth ct) x = Some d" if "x \<in> snd ` set C" for x
    using that assms(2) below_cids [OF assms(1), of L x] good_treeD(3,4) [OF assms(1)]
    unfolding pick_inv_def by blast
  then show ?thesis by (fastforce simp: missing_roots_def at_top_def depth_of_def)
qed

lemma ctuples_map [simp]: "ctuples (map CommentTuple ts @ es) = ts @ ctuples es"
  by (induction ts) (simp_all add: ctuples_def)

lemma ctuples_nil [simp]: "ctuples [] = []" "ctuples [MissingChildrenTuple n ids] = []"
  by (simp_all add: ctuples_def)

definition missing_ids :: "entry list \<Rightarrow> int set" where
  "missing_ids entries = snd (snd (split_missing entries))"

lemma split_missing_simps [simp]:
  "split_missing (es @ [MissingChildrenTuple n ids]) = (es, n, ids)"
  "split_missing (map CommentTuple ts) = (map CommentTuple ts, 0, {})"
  by (simp_all add: split_missing_def rev_map split: list.splits entry.splits) auto

lemma split_order_entries:
  "split_missing (order_entries ct off tuples cands) =
     (map CommentTuple tuples, (\<Sum>c \<in> missing_roots ct off cands. 1 + num_children ct c), missing_roots ct off cands)"
  by (cases "missing_roots ct off cands = {}") (simp_all add: order_entries_def Let_def)

lemma order_entries_props [simp]:
  "ctuples (order_entries ct off tuples cands) = tuples"
  "missing_ids (order_entries ct off tuples cands) = missing_roots ct off cands"
  by (simp_all add: split_order_entries missing_ids_def) (simp add: order_entries_def Let_def)

text \<open>The result of the orderer in terms of its last state.\<close>

lemma comment_order_result:
  assumes good: "good_tree ct" and pos: "0 < o_max_depth od"
  obtains L C L' where "comment_order od ct sorter sticky = Inr (order_entries ct 0 L C)"
    "pick od ct sorter 0 (start_candidates od ct sorter sticky) (initial_comment_list sticky ct) = Inr (L, C)"
    "pick_inv ct C L" "C = [] \<or> o_max_comments od \<le> int (length L)"
    "int (length L) \<le> max (int (length (initial_comment_list sticky ct))) (o_max_comments od)"
    "L = initial_comment_list sticky ct @ L'" "\<forall>t \<in> set L'. t_depth t < o_max_depth od"
    "at_top ct (snd ` set (start_candidates od ct sorter sticky)) = at_top ct (t_id ` set L') \<union> missing_roots ct 0 C"
proof -
  obtain L C L' where r: "pick od ct sorter 0 (start_candidates od ct sorter sticky) (initial_comment_list sticky ct) = Inr (L, C)"
      and "pick_inv ct C L"
    and "C = [] \<or> o_max_comments od \<le> int (length L)"
    and "int (length L) \<le> max (int (length (initial_comment_list sticky ct))) (o_max_comments od)"
    and "L = initial_comment_list sticky ct @ L'" and "\<forall>t \<in> set L'. t_depth t < o_max_depth od"
    and "at_top ct (snd ` set (start_candidates od ct sorter sticky)) = at_top ct (t_id ` set L') \<union> at_top ct (snd ` set C)"
    using pick_result [OF good start_inv [OF good] pos] by meson
  moreover from r have "comment_order od ct sorter sticky = Inr (order_entries ct 0 L C)"
    by (simp add: comment_order_good [OF good])
  ultimately show ?thesis using that missing_roots_at_top [OF good] by metis
qed

text \<open>
  (C7) The comments chosen for a page: the orderer returns; no comment is shown twice; a comment is
  shown after the comment it replies to; every tuple has the depth, parent, number of replies and
  replies of the comment in the stored tree; depths stay below the limit; and there are no more
  than the limit of comments (a sticky comment is shown even when the limit is 0).
\<close>

theorem comment_order_sound:
  assumes "wf_tree (load_tree stored)" "rooted (load_tree stored)" "0 < o_max_depth od"
  shows "\<exists>E. comment_order od (by_link stored) sorter sticky = Inr E \<and>
    distinct (map t_id (ctuples E)) \<and> parents_first (by_link stored) [] (ctuples E) \<and>
    (\<forall>t \<in> set (ctuples E). of_tree (by_link stored) t \<and> t_depth t < o_max_depth od) \<and>
    int (length (ctuples E)) \<le> max 1 (o_max_comments od)"
proof -
  note good = by_link_good [OF assms(1,2)]
  obtain L C L' where r: "comment_order od (by_link stored) sorter sticky = Inr (order_entries (by_link stored) 0 L C)"
    "pick_inv (by_link stored) C L" "L = initial_comment_list sticky (by_link stored) @ L'"
    "int (length L) \<le> max (int (length (initial_comment_list sticky (by_link stored)))) (o_max_comments od)"
    "\<forall>t \<in> set L'. t_depth t < o_max_depth od"
    by (rule comment_order_result [OF good assms(3)])
  have i: "\<forall>t \<in> set (initial_comment_list sticky (by_link stored)). t_depth t < o_max_depth od"
    "length (initial_comment_list sticky (by_link stored)) \<le> 1"
    using initial_comment_list_good [OF good, of sticky] depth_of_top [OF good] assms(3) by auto
  have "distinct (map t_id L)" "parents_first (by_link stored) [] L" "\<forall>t \<in> set L. of_tree (by_link stored) t"
    using r(2) by (simp_all add: pick_inv_def)
  moreover have "\<forall>t \<in> set L. t_depth t < o_max_depth od" using r(3,5) i(1) by auto
  moreover have "int (length L) \<le> max 1 (o_max_comments od)" using r(4) i(2) by simp
  ultimately show ?thesis using r(1) by simp
qed

definition sample_orderer :: orderer where
  "sample_orderer = \<lparr>o_sort = SortDesc ''_score'', o_max_comments = 4, o_max_depth = 10\<rparr>"

definition sample_scores :: "(int, real) dict" where
  "sample_scores = [(1, 4), (2, 3), (3, 5), (4, 1), (5, 2)]"

lemma sample_tree_ok:
  "wf_tree (load_tree (Some sample_tree))" "rooted (load_tree (Some sample_tree))" "0 < o_max_depth sample_orderer"
  by (auto simp: load_tree_def wf_tree_def rooted_def sample_tree_def dict_ok_def all_children_def children_def
      sample_orderer_def split: if_splits)

theorem comment_order_sound_witness:
  "\<exists>E. comment_order sample_orderer (by_link (Some sample_tree)) sample_scores (Some 1) = Inr E \<and>
     distinct (map t_id (ctuples E)) \<and> parents_first (by_link (Some sample_tree)) [] (ctuples E) \<and> length (ctuples E) \<le> 4"
  using comment_order_sound [OF sample_tree_ok, of sample_scores "Some 1"] by (auto simp: sample_orderer_def)

text \<open>Nothing is lost by the loop: a reply to a comment that it chose is chosen or still a candidate.\<close>

definition none_lost :: "orderer \<Rightarrow> comment_tree \<Rightarrow> int set \<Rightarrow> candidates \<Rightarrow> ctuple list \<Rightarrow> bool" where
  "none_lost od ct given cands tuples \<longleftrightarrow>
     (\<forall>p \<in> t_id ` set tuples - given. \<forall>x \<in> set (children (ct_tree ct) (Some p)).
        depth_of ct x < o_max_depth od \<longrightarrow> x \<in> t_id ` set tuples \<union> snd ` set cands)"

lemma pick_none_lost:
  assumes good: "good_tree ct" and inv: "pick_inv ct cands tuples" and total: "\<forall>c \<in> set (ct_cids ct). map_of sorter c \<noteq> None"
  shows "\<exists>L C. pick od ct sorter 0 cands tuples = Inr (L, C) \<and> (none_lost od ct given cands tuples \<longrightarrow> none_lost od ct given C L)"
  using good inv
proof (induction rule: pick_rule)
  case (stop cands tuples)
  then show ?case by simp
next
  case (skip v c rest tuples L C)
  have "none_lost od ct given rest tuples" if "none_lost od ct given ((v, c) # rest) tuples"
    unfolding none_lost_def
  proof (intro ballI impI)
    fix p x assume x: "p \<in> t_id ` set tuples - given" "x \<in> set (children (ct_tree ct) (Some p))" "depth_of ct x < o_max_depth od"
    then have "x \<in> t_id ` set tuples \<union> snd ` set ((v, c) # rest)" using that unfolding none_lost_def by blast
    moreover have "x \<noteq> c" using x(3) skip(3) by auto
    ultimately show "x \<in> t_id ` set tuples \<union> snd ` set rest" by simp
  qed
  then show ?case using skip(4) by blast
next
  case (take v c rest tuples L C nxt)
  have c: "c \<in> set (ct_cids ct)" using take(1) below_cids [OF good, of tuples c] by (auto simp: pick_inv_def)
  have new: "x \<in> snd ` set nxt" if "x \<in> set (children (ct_tree ct) (Some c))" "depth_of ct x < o_max_depth od" for x
  proof -
    have "x \<in> set (ct_cids ct)" using that(1) children_in_all(1) good_treeD(2) [OF good] by blast
    then show ?thesis
      unfolding take(4) using that depth_of_reply [OF good that(1) c] total by (auto simp: update_candidates_props(1))
  qed
  have old: "snd ` set rest \<subseteq> snd ` set nxt" unfolding take(4) by (simp add: update_candidates_props(1))
  have "none_lost od ct given nxt (tuples @ [ctuple_of ct c])" if "none_lost od ct given ((v, c) # rest) tuples"
    unfolding none_lost_def
  proof (intro ballI impI)
    fix p x assume x: "p \<in> t_id ` set (tuples @ [ctuple_of ct c]) - given" "x \<in> set (children (ct_tree ct) (Some p))"
      "depth_of ct x < o_max_depth od"
    show "x \<in> t_id ` set (tuples @ [ctuple_of ct c]) \<union> snd ` set nxt"
    proof (cases "p = c")
      case True
      then show ?thesis using new x by blast
    next
      case False
      then have "x \<in> t_id ` set tuples \<union> snd ` set ((v, c) # rest)" using that x unfolding none_lost_def by auto
      then show ?thesis using old by auto
    qed
  qed
  then show ?case using take(6) by blast
qed

text \<open>Every top-level comment is shown or counted as missing.\<close>

lemma comment_order_covers:
  assumes good: "good_tree ct" and pos: "0 < o_max_depth od" and total: "\<forall>c \<in> set (ct_cids ct). map_of sorter c \<noteq> None"
    and E: "comment_order od ct sorter sticky = Inr E"
  shows "set (children (ct_tree ct) None) \<subseteq> t_id ` set (ctuples E) \<union> missing_ids E"
proof
  let ?init = "initial_comment_list sticky ct"
  obtain L C L' where r: "E = order_entries ct 0 L C" "L = ?init @ L'"
    "at_top ct (snd ` set (start_candidates od ct sorter sticky)) = at_top ct (t_id ` set L') \<union> missing_roots ct 0 C"
    by (rule comment_order_result [OF good pos, of sorter sticky]) (use E in simp)
  fix x assume x: "x \<in> set (children (ct_tree ct) None)"
  then have "x \<in> set (ct_cids ct)" using children_in_all(1) good_treeD(2) [OF good] by blast
  then have "x \<in> t_id ` set ?init \<or> x \<in> snd ` set (start_candidates od ct sorter sticky)"
    using x total by (auto simp: start_candidates_def update_candidates_props(1))
  moreover have "x \<in> at_top ct (t_id ` set L') \<union> missing_roots ct 0 C"
    if "x \<in> snd ` set (start_candidates od ct sorter sticky)"
    using that r(3) depth_of_top [OF good x] by (auto simp: at_top_def)
  ultimately show "x \<in> t_id ` set (ctuples E) \<union> missing_ids E" using r(1,2) by (auto simp: at_top_def)
qed



subsection \<open>Precomputed orders are exact\<close>

text \<open>A longer page starts with the shorter one: the loop with a higher limit runs through its last state.\<close>

lemma pick_resume:
  assumes good: "good_tree ct" and inv: "pick_inv ct cands tuples" and le: "o_max_comments od \<le> M"
  shows "\<exists>L C. pick od ct sorter 0 cands tuples = Inr (L, C) \<and>
    pick (od\<lparr>o_max_comments := M\<rparr>) ct sorter 0 cands tuples = pick (od\<lparr>o_max_comments := M\<rparr>) ct sorter 0 C L"
  using good inv
proof (induction rule: pick_rule)
  case (stop cands tuples)
  then show ?case by simp
next
  case (skip v c rest tuples L C)
  then show ?case using pick_round [OF good skip(1), of "od\<lparr>o_max_comments := M\<rparr>"] le by simp
next
  case (take v c rest tuples L C nxt)
  then show ?case using pick_round [OF good take(1), of "od\<lparr>o_max_comments := M\<rparr>" sorter] le
    by (cases "depth_of ct c + 1 < o_max_depth od") simp_all
qed

lemma sum_dropped:
  assumes "distinct (map t_id ts)" "\<forall>t \<in> set ts. of_tree ct t"
  shows "(\<Sum>t\<leftarrow>filter (\<lambda>t. t_depth t = 0) ts. 1 + t_num t) = (\<Sum>c \<in> at_top ct (t_id ` set ts). 1 + num_children ct c)"
    "t_id ` set (filter (\<lambda>t. t_depth t = 0) ts) = at_top ct (t_id ` set ts)"
proof -
  have s: "t_num t = num_children ct (t_id t)" "t_depth t = depth_of ct (t_id t)" if "t \<in> set ts" for t
    using assms(2) that ctuple_of_sel unfolding of_tree_def by metis+
  then show eq: "t_id ` set (filter (\<lambda>t. t_depth t = 0) ts) = at_top ct (t_id ` set ts)"
    by (auto simp: at_top_def)
  let ?ts = "filter (\<lambda>t. t_depth t = 0) ts"
  have d: "distinct (map t_id ?ts)" using assms(1) by (simp add: distinct_map inj_on_def)
  have "map (\<lambda>t. 1 + t_num t) ?ts = map (\<lambda>c. 1 + num_children ct c) (map t_id ?ts)" using s by simp
  then have "(\<Sum>t\<leftarrow>?ts. 1 + t_num t) = (\<Sum>c\<leftarrow>map t_id ?ts. 1 + num_children ct c)" by (rule arg_cong)
  also have "\<dots> = (\<Sum>c \<in> set (map t_id ?ts). 1 + num_children ct c)" by (rule sum_list_distinct_conv_sum_set [OF d])
  finally show "(\<Sum>t\<leftarrow>?ts. 1 + t_num t) = (\<Sum>c \<in> at_top ct (t_id ` set ts). 1 + num_children ct c)"
    using eq by simp
qed

lemma read_cache_order:
  assumes inv: "pick_inv ct C (L @ L')" and good: "good_tree ct" and depth: "o_max_depth od = MAX_RECURSION"
    and len: "L' = [] \<or> int (length L) = o_max_comments od" "int (length L) \<le> o_max_comments od" "0 \<le> o_max_comments od"
    and roots: "missing_roots ct 0 C0 = at_top ct (t_id ` set L') \<union> missing_roots ct 0 C"
  shows "read_cache od (Some (order_entries ct 0 (L @ L') C)) = order_entries ct 0 L C0"
proof -
  let ?R = "missing_roots ct 0 C" and ?num = "\<lambda>X. \<Sum>c \<in> X. 1 + num_children ct c"
  have sp: "split_missing (order_entries ct 0 (L @ L') C) = (map CommentTuple (L @ L'), ?num ?R, ?R)"
    by (rule split_order_entries)
  have fin: "finite ?R" "finite (at_top ct (t_id ` set L'))" by (simp_all add: missing_roots_def at_top_def)
  have "?R = at_top ct (snd ` set C)" by (rule missing_roots_at_top [OF good inv])
  then have "at_top ct (t_id ` set L') \<inter> ?R = {}" using inv by (auto simp: pick_inv_def at_top_def)
  then have num: "?num (at_top ct (t_id ` set L') \<union> ?R) = ?num (at_top ct (t_id ` set L')) + ?num ?R"
    using fin by (simp add: sum.union_disjoint)
  have L': "distinct (map t_id L')" "\<forall>t \<in> set L'. of_tree ct t" using inv by (auto simp: pick_inv_def)
  have ct: "ctuples (map CommentTuple (L @ L')) = L @ L'" using ctuples_map [of "L @ L'" "[]"] by simp
  show ?thesis
  proof (cases "L' = []")
    case True
    then show ?thesis using sp ct roots len by (simp add: read_cache_def Let_def depth order_entries_def)
  next
    case False
    then have "int (length L) = o_max_comments od" using len by simp
    then have m: "slice_at (o_max_comments od) (L @ L') = length L" "o_max_comments od < int (length (L @ L'))"
      using False by (auto simp: slice_at_def)
    show ?thesis
      using sp ct roots num sum_dropped [OF L'] m
      by (simp add: read_cache_def Let_def depth order_entries_def Un_commute add.commute)
  qed
qed

lemma precomputed_order:
  assumes good: "good_tree ct" and depth: "o_max_depth od = MAX_RECURSION"
    and m: "1 \<le> m" "m \<le> o_max_comments od"
    and E: "comment_order od ct sorter sticky = Inr E"
  shows "comment_order (od\<lparr>o_max_comments := m\<rparr>) ct sorter sticky =
    Inr (read_cache (od\<lparr>o_max_comments := m\<rparr>) (Some E))"
proof -
  let ?od = "od\<lparr>o_max_comments := m\<rparr>"
  have pos: "0 < o_max_depth ?od" "0 < o_max_depth od" using depth by (simp_all add: MAX_RECURSION_def)
  have sc: "start_candidates ?od = start_candidates od" by (intro ext) (simp add: start_candidates_def)
  obtain L C where r: "comment_order ?od ct sorter sticky = Inr (order_entries ct 0 L C)"
    "pick ?od ct sorter 0 (start_candidates od ct sorter sticky) (initial_comment_list sticky ct) = Inr (L, C)"
    "pick_inv ct C L" "C = [] \<or> m \<le> int (length L)"
    "int (length L) \<le> max (int (length (initial_comment_list sticky ct))) m"
    by (rule comment_order_result [OF good pos(1), of sorter sticky]) (auto simp: sc)
  have len: "int (length L) \<le> m" using r(5) initial_comment_list_good [OF good, of sticky] m by auto
  have "pick od ct sorter 0 (start_candidates od ct sorter sticky) (initial_comment_list sticky ct) = pick od ct sorter 0 C L"
    using pick_resume [OF good start_inv [OF good, of od sorter sticky], of ?od "o_max_comments od" sorter] m r(2) by auto
  moreover obtain L2 C2 L' where r2: "pick od ct sorter 0 C L = Inr (L2, C2)" "pick_inv ct C2 L2" "L2 = L @ L'"
    "at_top ct (snd ` set C) = at_top ct (t_id ` set L') \<union> at_top ct (snd ` set C2)"
    using pick_result [OF good r(3) pos(2), of sorter] by auto
  ultimately have E2: "E = order_entries ct 0 (L @ L') C2" using E by (simp add: comment_order_good [OF good])
  have "L' = [] \<or> int (length L) = o_max_comments ?od"
  proof (cases "C = []")
    case True
    then show ?thesis using r2(1,3) by (subst (asm) pick.simps) simp
  qed (use r(4) len in simp)
  then have "read_cache ?od (Some (order_entries ct 0 (L @ L') C2)) = order_entries ct 0 L C"
    using r2(2-4) len m depth missing_roots_at_top [OF good] r(3)
    by (intro read_cache_order [OF _ good]) simp_all
  then show ?thesis using r(1) E2 by simp
qed



end
