(* ===== verification/CommentPage.thy ===== *)
theory CommentPage
  imports CommentOrder
begin

section \<open>New comments and the orders of a page\<close>

text \<open>
  Puts the pieces of the comment system together: \<open>CommentOrderer.get_comment_order\<close>,
  \<open>QACommentOrderer\<close> and \<open>write_comment_orders\<close> of \<open>r2/models/builder.py\<close>, and \<open>add_comments\<close> of
  \<open>r2/lib/comment_tree.py\<close>, which writes scores, tree and precomputed orders of new comments.
\<close>

text \<open>Settings of the site and what it knows of comments.\<close>

record comment_site =
  s_lib :: libm
  s_by_id :: "int \<Rightarrow> rcomment option"
  s_distinguished :: "int \<Rightarrow> bool"
  s_min_comments :: int
  s_precomputed_sorts :: "string list"
  s_precompute_suggested :: bool
  s_max_comments_gold :: int
  s_max_parent_walk :: nat
  s_upvote_path :: string
  s_controversial_path :: string
  s_should_write :: bool
  s_shuffle :: "real list \<Rightarrow> real list"

record plink =
  pl_id :: int
  pl_author :: int
  pl_num_comments :: int
  pl_sticky :: "int option"
  pl_suggested :: "string option"
  pl_sr_suggested :: "string option"
  pl_precomputed :: "string list option"

text \<open>What is stored for a link: its tree, its scores and its precomputed orders.\<close>

record cstate =
  cs_tree :: "ctree option"
  cs_scores :: score_rows
  cs_orders :: "string \<Rightarrow> entry list option"

definition sort_operator_by_name :: "comment_site \<Rightarrow> string \<Rightarrow> sort_op option" where
  "sort_operator_by_name site name =
     map_of (AList.update (s_controversial_path site) (SortDesc ''_controversy'')
       (AList.update (s_upvote_path site) (SortDesc ''_upvotes'')
         [(''new'', SortDesc ''_date''), (''old'', SortAsc ''_date''), (''confidence'', SortDesc ''_confidence''),
          (''qa'', SortDesc ''_qa''), (''hot'', SortDesc ''_hot''), (''top'', SortDesc ''_score''),
          (''random'', SortShuffled ''_confidence'')])) name"

definition responder_ids :: "plink \<Rightarrow> int list" where
  "responder_ids link = [pl_author link]"

definition link_num_comments :: "plink \<Rightarrow> int" where
  "link_num_comments link = max (pl_num_comments link) 0"

definition py_some :: "string option \<Rightarrow> string option" where
  "py_some x = (case x of None \<Rightarrow> None | Some s \<Rightarrow> if s = [] then None else Some s)"

definition sort_if_suggested :: "plink \<Rightarrow> string option" where
  "sort_if_suggested link =
     (if pl_suggested link = Some ''blank'' then None
      else (case py_some (pl_suggested link) of Some s \<Rightarrow> Some s | None \<Rightarrow> py_some (pl_sr_suggested link)))"

subsection \<open>Ordering with stored scores\<close>

definition base_get_comment_order ::
    "comment_site \<Rightarrow> plink \<Rightarrow> orderer \<Rightarrow> cstate \<Rightarrow> (entry list \<times> cstate) result" where
  "base_get_comment_order site link od st =
     (let ct = by_link (cs_tree st) in
      bindr (get_comment_scores (s_lib site) (s_by_id site) (responder_ids link) (cs_tree st) (s_should_write site)
               (pl_id link) (sort_op_col (o_sort od)) (ct_cids ct) (cs_scores st)) (\<lambda>(sorter, scores').
      bindr (case o_sort od of SortShuffled _ \<Rightarrow> shuffle_top_level (s_shuffle site) ct sorter | _ \<Rightarrow> Inr sorter) (\<lambda>sorter'.
      bindr (comment_order od ct sorter' (pl_sticky link)) (\<lambda>entries.
        Inr (entries, st\<lparr>cs_scores := scores'\<rparr>)))))"

text \<open>\<open>QACommentOrderer\<close>: the comments that are shown in the order for questions and answers.\<close>

definition lookup_shown :: "(int \<Rightarrow> rcomment option) \<Rightarrow> int list \<Rightarrow> int \<Rightarrow> rcomment result" where
  "lookup_shown by_id shown i = of_option (KeyError (py_str_int i)) (if i \<in> set shown then by_id i else None)"

definition parent_of :: "rcomment \<Rightarrow> int option" where
  "parent_of c = (case c_parent c of None \<Rightarrow> None | Some p \<Rightarrow> if p = 0 then None else Some p)"

definition qa_keeps :: "(int \<Rightarrow> rcomment result) \<Rightarrow> (int \<Rightarrow> bool) \<Rightarrow> int list \<Rightarrow> ctuple \<Rightarrow> bool result" where
  "qa_keeps look distinguished rs t =
     (if t_depth t = 0 then Inr True
      else
        bindr (look (t_id t)) (\<lambda>c.
        bindr (case parent_of c of None \<Rightarrow> Inr None | Some p \<Rightarrow> bindr (look p) (\<lambda>pc. Inr (Some pc))) (\<lambda>parent.
          Inr (rc_author c \<in> set rs \<or> (case parent of None \<Rightarrow> False | Some pc \<Rightarrow> rc_author pc \<in> set rs) \<or>
               distinguished (t_id t)))))"

fun walk_parents :: "(int \<Rightarrow> rcomment result) \<Rightarrow> nat \<Rightarrow> int option \<Rightarrow> int list \<Rightarrow> int list result" where
  "walk_parents look n None keep = Inr keep"
| "walk_parents look 0 (Some p) keep = Inr keep"
| "walk_parents look (Suc n) (Some p) keep =
     (if p \<in> set keep then Inr keep
      else bindr (look p) (\<lambda>c. walk_parents look n (parent_of c) (p # keep)))"

definition qa_filter :: "comment_site \<Rightarrow> int list \<Rightarrow> ctuple list \<Rightarrow> ctuple list result" where
  "qa_filter site rs tuples =
     (let look = lookup_shown (s_by_id site) (map t_id tuples) in
      bindr (byIDs (s_by_id site) (map t_id tuples)) (\<lambda>_.
      bindr (mapr (\<lambda>t. bindr (qa_keeps look (s_distinguished site) rs t) (\<lambda>b. Inr (t_id t, b))) tuples) (\<lambda>flags.
      let keep = map fst (filter snd flags) in
      bindr (foldm (\<lambda>i keep. bindr (look i) (\<lambda>c. walk_parents look (s_max_parent_walk site) (parent_of c) keep))
               (sort (remdups keep)) keep) (\<lambda>keep'.
        Inr (filter (\<lambda>t. t_id t \<in> set keep') tuples)))))"

definition qa_comment_order :: "comment_site \<Rightarrow> plink \<Rightarrow> orderer \<Rightarrow> cstate \<Rightarrow> (entry list \<times> cstate) result" where
  "qa_comment_order site link od st =
     bindr (base_get_comment_order site link od st) (\<lambda>(entries, st').
       if entries = [] then Inr ([], st')
       else
         let (shown, num, roots) = split_missing entries in
         bindr (qa_filter site (responder_ids link) (ctuples shown)) (\<lambda>tuples.
           Inr (map CommentTuple tuples @ (if roots = {} then [] else [MissingChildrenTuple num roots]), st')))"

definition own_comment_order :: "bool \<Rightarrow> comment_site \<Rightarrow> plink \<Rightarrow> orderer \<Rightarrow> cstate \<Rightarrow> (entry list \<times> cstate) result" where
  "own_comment_order is_qa = (if is_qa then qa_comment_order else base_get_comment_order)"

subsection \<open>Precomputed orders of a link\<close>

definition order_key :: "int \<Rightarrow> sort_op \<Rightarrow> string result" where
  "order_key link_id srt =
     bindr (to36 link_id) (\<lambda>i.
       Inr (''order:'' @ i @ ''_'' @ (case srt of SortAsc _ \<Rightarrow> ''asc'' | SortDesc _ \<Rightarrow> ''desc'' | SortShuffled _ \<Rightarrow> ''shuffled'')
            @ sort_op_col srt))"

definition should_read_cache :: "comment_site \<Rightarrow> plink \<Rightarrow> sort_op \<Rightarrow> bool" where
  "should_read_cache site link srt =
     (case pl_precomputed link of
        None \<Rightarrow> False
      | Some names \<Rightarrow> srt \<in> set (List.map_filter (sort_operator_by_name site) names))"

definition get_comment_order :: "bool \<Rightarrow> comment_site \<Rightarrow> plink \<Rightarrow> orderer \<Rightarrow> cstate \<Rightarrow> (entry list \<times> cstate) result" where
  "get_comment_order is_qa site link od st =
     (if link_num_comments link \<le> 0 then Inr ([], st)
      else if should_read_cache site link (o_sort od)
      then bindr (order_key (pl_id link) (o_sort od)) (\<lambda>key. Inr (read_cache od (cs_orders st key), st))
      else own_comment_order is_qa site link od st)"

definition get_active_sort_orders_for_link :: "comment_site \<Rightarrow> plink \<Rightarrow> string list" where
  "get_active_sort_orders_for_link site link =
     (if s_min_comments site \<le> 0 \<or> link_num_comments link < s_min_comments site then []
      else remdups (s_precomputed_sorts site @
        (if s_precompute_suggested site then (case sort_if_suggested link of None \<Rightarrow> [] | Some s \<Rightarrow> [s]) else [])))"

definition write_link_order :: "comment_site \<Rightarrow> plink \<Rightarrow> string \<Rightarrow> sort_op \<Rightarrow> cstate \<Rightarrow> cstate result" where
  "write_link_order site link name srt st =
     bindr (own_comment_order (name = ''qa'') site link
              \<lparr>o_sort = srt, o_max_comments = s_max_comments_gold site, o_max_depth = MAX_RECURSION\<rparr> st) (\<lambda>(entries, st').
     bindr (order_key (pl_id link) srt) (\<lambda>key.
       Inr (st'\<lparr>cs_orders := write_cache key entries (cs_orders st')\<rparr>)))"

definition write_comment_orders :: "comment_site \<Rightarrow> plink \<Rightarrow> cstate \<Rightarrow> (plink \<times> cstate) result" where
  "write_comment_orders site link st =
     bindr (foldm (\<lambda>name (names, st).
              case sort_operator_by_name site name of
                None \<Rightarrow> Inr (names, st)
              | Some srt \<Rightarrow> bindr (write_link_order site link name srt st) (\<lambda>st'. Inr (names @ [name], st')))
            (get_active_sort_orders_for_link site link) ([], st)) (\<lambda>(names, st').
       Inr (link\<lparr>pl_precomputed := if names = [] then None else Some names\<rparr>, st'))"

subsection \<open>Adding comments\<close>

definition add_link_comments :: "comment_site \<Rightarrow> rcomment list \<Rightarrow> plink \<times> cstate \<Rightarrow> (plink \<times> cstate) result" where
  "add_link_comments site comments ls =
     (let (link, st) = ls in
      bindr (write_comment_scores (s_lib site) (s_by_id site) (responder_ids link) (cs_tree st) (pl_id link) comments
               (cs_scores st)) (\<lambda>(comments', scores').
        write_comment_orders site link
          (st\<lparr>cs_scores := scores', cs_tree := tree_add_comments (map comment.truncate comments') (cs_tree st)\<rparr>)))"

text \<open>\<open>add_comments\<close>: comments, each with the id of its link, are grouped by link.\<close>

definition add_comments ::
    "comment_site \<Rightarrow> (int \<times> rcomment) list \<Rightarrow> (int \<Rightarrow> (plink \<times> cstate) option) \<Rightarrow> (int \<Rightarrow> (plink \<times> cstate) option) result" where
  "add_comments site comments world =
     (if \<exists>l \<in> set (map fst comments). world l = None then Inl NotFound
      else foldm (\<lambda>l world. case world l of
               None \<Rightarrow> Inl (KeyError (py_str_int l))
             | Some ls \<Rightarrow> bindr (add_link_comments site (map snd (filter (\<lambda>(l', _). l' = l) comments)) ls) (\<lambda>ls'.
                 Inr (world(l \<mapsto> ls'))))
             (remdups (map fst comments)) world)"

subsection \<open>Questions and answers\<close>

text \<open>
  The walk to the ancestors, in a set \<open>I\<close> of comments that holds the parents of its members; \<open>dep\<close> is
  the number of ancestors.
\<close>

definition closes :: "(int \<Rightarrow> rcomment) \<Rightarrow> int set \<Rightarrow> int list \<Rightarrow> int list \<Rightarrow> bool" where
  "closes f I keep keep' \<longleftrightarrow> set keep \<subseteq> set keep' \<and> set keep' \<subseteq> set keep \<union> I \<and>
     (\<forall>x \<in> set keep' - set keep. \<forall>p. parent_of (f x) = Some p \<longrightarrow> p \<in> set keep')"

lemma closes_refl: "closes f I keep keep"
  by (simp add: closes_def)

lemma closesI:
  "set keep \<subseteq> set keep' \<Longrightarrow> set keep' \<subseteq> set keep \<union> I \<Longrightarrow>
   (\<And>x p. x \<in> set keep' \<Longrightarrow> x \<notin> set keep \<Longrightarrow> parent_of (f x) = Some p \<Longrightarrow> p \<in> set keep') \<Longrightarrow> closes f I keep keep'"
  unfolding closes_def by (intro conjI ballI allI impI) (assumption | erule DiffE)+

lemma closesD:
  assumes "closes f I keep keep'"
  shows "set keep \<subseteq> set keep'" "set keep' \<subseteq> set keep \<union> I"
    "\<And>x p. x \<in> set keep' \<Longrightarrow> x \<notin> set keep \<Longrightarrow> parent_of (f x) = Some p \<Longrightarrow> p \<in> set keep'"
  using assms by (simp_all add: closes_def)

lemma closes_trans:
  assumes "closes f I k k1" "closes f I k1 k2"
  shows "closes f I k k2"
proof (rule closesI)
  show "set k \<subseteq> set k2" "set k2 \<subseteq> set k \<union> I" using closesD(1,2) [OF assms(1)] closesD(1,2) [OF assms(2)] by auto
  show "p \<in> set k2" if "x \<in> set k2" "x \<notin> set k" "parent_of (f x) = Some p" for x p
  proof (cases "x \<in> set k1")
    case True
    then have "p \<in> set k1" using closesD(3) [OF assms(1) _ that(2,3)] by simp
    then show ?thesis using closesD(1) [OF assms(2)] by (rule rev_subsetD)
  next
    case False
    then show ?thesis using closesD(3) [OF assms(2) that(1) _ that(3)] by simp
  qed
qed

lemma closes_Cons:
  assumes "closes f I (p # keep) keep'" "p \<in> I" "\<forall>q. parent_of (f p) = Some q \<longrightarrow> q \<in> set keep'"
  shows "closes f I keep keep'" "p \<in> set keep'"
proof -
  show "p \<in> set keep'" using closesD(1) [OF assms(1)] by simp
  show "closes f I keep keep'"
  proof (rule closesI)
    show "set keep \<subseteq> set keep'" "set keep' \<subseteq> set keep \<union> I" using closesD(1,2) [OF assms(1)] assms(2) by auto
    show "q \<in> set keep'" if "x \<in> set keep'" "x \<notin> set keep" "parent_of (f x) = Some q" for x q
    proof (cases "x = p")
      case True
      then show ?thesis using assms(3) that(3) by simp
    next
      case False
      then show ?thesis using closesD(3) [OF assms(1) that(1) _ that(3)] that(2) by simp
    qed
  qed
qed

definition upward :: "(int \<Rightarrow> rcomment result) \<Rightarrow> (int \<Rightarrow> rcomment) \<Rightarrow> (int \<Rightarrow> nat) \<Rightarrow> int set \<Rightarrow> bool" where
  "upward look f dep I \<longleftrightarrow> (\<forall>i \<in> I. look i = Inr (f i) \<and>
     (\<forall>p. parent_of (f i) = Some p \<longrightarrow> p \<in> I \<and> dep i = Suc (dep p)))"

lemma walk_parents_closed:
  assumes "upward look f dep I"
  shows "\<forall>p. po = Some p \<longrightarrow> p \<in> I \<and> dep p < n \<Longrightarrow>
    \<exists>keep'. walk_parents look n po keep = Inr keep' \<and> closes f I keep keep' \<and> (\<forall>p. po = Some p \<longrightarrow> p \<in> set keep')"
proof (induction n arbitrary: po keep)
  case 0
  then show ?case by (cases po) (auto simp: closes_refl)
next
  case (Suc n)
  show ?case
  proof (cases po)
    case None
    then show ?thesis by (auto simp: closes_refl)
  next
    case (Some p)
    have p: "p \<in> I" "dep p < Suc n" using Suc.prems Some by auto
    have look: "look p = Inr (f p)" and up: "\<forall>q. parent_of (f p) = Some q \<longrightarrow> q \<in> I \<and> dep q < n"
      using assms p unfolding upward_def by auto
    obtain keep' where k: "walk_parents look n (parent_of (f p)) (p # keep) = Inr keep'"
      "closes f I (p # keep) keep'" "\<forall>q. parent_of (f p) = Some q \<longrightarrow> q \<in> set keep'"
      using Suc.IH [OF up, of "p # keep"] by blast
    show ?thesis
    proof (cases "p \<in> set keep")
      case True
      then show ?thesis using Some closes_refl by auto
    next
      case False
      then show ?thesis using Some look k(1) closes_Cons [OF k(2) p(1) k(3)] by auto
    qed
  qed
qed

lemma walk_all_closed:
  assumes up: "upward look f dep I" and deep: "\<And>i. i \<in> I \<Longrightarrow> dep i \<le> n"
  shows "set xs \<subseteq> I \<Longrightarrow> \<exists>keep'. foldm (\<lambda>i keep. bindr (look i) (\<lambda>c. walk_parents look n (parent_of c) keep)) xs keep = Inr keep' \<and>
    closes f I keep keep' \<and> (\<forall>x \<in> set xs. \<forall>p. parent_of (f x) = Some p \<longrightarrow> p \<in> set keep')"
proof (induction xs arbitrary: keep)
  case (Cons x xs)
  have x: "look x = Inr (f x)" "\<forall>p. parent_of (f x) = Some p \<longrightarrow> p \<in> I \<and> dep p < n"
    using up deep [of x] Cons.prems by (fastforce simp: upward_def)+
  obtain k1 where k1: "walk_parents look n (parent_of (f x)) keep = Inr k1" "closes f I keep k1"
      "\<forall>p. parent_of (f x) = Some p \<longrightarrow> p \<in> set k1"
    using walk_parents_closed [OF up x(2)] by blast
  obtain k2 where k2: "foldm (\<lambda>i keep. bindr (look i) (\<lambda>c. walk_parents look n (parent_of c) keep)) xs k1 = Inr k2"
      "closes f I k1 k2" "\<forall>y \<in> set xs. \<forall>p. parent_of (f y) = Some p \<longrightarrow> p \<in> set k2"
    using Cons.IH [of k1] Cons.prems by auto
  have "set k1 \<subseteq> set k2" using k2(2) by (simp add: closes_def)
  then have "\<forall>y \<in> set (x # xs). \<forall>p. parent_of (f y) = Some p \<longrightarrow> p \<in> set k2" using k1(3) k2(3) by auto
  then show ?case using x(1) k1(1) k2(1) closes_trans [OF k1(2) k2(2)] by simp
qed (simp add: closes_refl)

lemma parents_first_filter:
  assumes "good_tree ct" "\<And>x p. x \<in> K \<Longrightarrow> x \<in> set (children (ct_tree ct) (Some p)) \<Longrightarrow> p \<in> K"
  shows "parents_first ct before ts \<Longrightarrow>
    parents_first ct (filter (\<lambda>t. t_id t \<in> K) before) (filter (\<lambda>t. t_id t \<in> K) ts)"
proof (induction ts arbitrary: before)
  case (Cons t ts)
  have "below ct (filter (\<lambda>t. t_id t \<in> K) before) (t_id t)" if "t_id t \<in> K"
    using Cons.prems assms(2) [OF that] by (auto simp: below_def)
  moreover have "parents_first ct (filter (\<lambda>t. t_id t \<in> K) (before @ [t])) (filter (\<lambda>t. t_id t \<in> K) ts)"
    using Cons.IH [of "before @ [t]"] Cons.prems by simp
  ultimately show ?case by (cases "t_id t \<in> K") simp_all
qed simp

text \<open>Which comments the order for questions and answers wants.\<close>

definition qa_wanted :: "comment_site \<Rightarrow> int list \<Rightarrow> ctuple \<Rightarrow> bool" where
  "qa_wanted site rs t \<longleftrightarrow> t_depth t = 0 \<or> s_distinguished site (t_id t) \<or>
     (\<exists>c. s_by_id site (t_id t) = Some c \<and> (rc_author c \<in> set rs \<or>
        (\<exists>p pc. parent_of c = Some p \<and> s_by_id site p = Some pc \<and> rc_author pc \<in> set rs)))"

definition known_tuple :: "comment_site \<Rightarrow> ctuple \<Rightarrow> bool" where
  "known_tuple site t \<longleftrightarrow> (\<exists>c. s_by_id site (t_id t) = Some c \<and> parent_of c = t_parent t)"

lemma shown_parent:
  assumes good: "good_tree ct" and pf: "parents_first ct [] L" and t: "t \<in> set L" "of_tree ct t"
  shows "t_id t \<in> set (children (ct_tree ct) p) \<longleftrightarrow> t_parent t = p"
    "t_parent t = Some p' \<Longrightarrow> p' \<in> t_id ` set L \<and> depth_of ct (t_id t) = depth_of ct p' + 1 \<and> 0 \<le> depth_of ct p'"
proof -
  have tp: "t_parent t = the (map_of (ct_parents ct) (t_id t))"
    using t(2) ctuple_of_def [of ct "t_id t"] unfolding of_tree_def by (metis ctuple.select_convs(3))
  have b: "below ct L (t_id t)" using parents_first_below [OF pf t(1)] by simp
  then obtain q where q: "t_id t \<in> set (children (ct_tree ct) q)" "\<And>p. q = Some p \<Longrightarrow> p \<in> t_id ` set L"
    unfolding below_def by blast
  have eq: "t_parent t = q" using tp good_treeD(5) [OF good q(1)] by simp
  show "t_id t \<in> set (children (ct_tree ct) p) \<longleftrightarrow> t_parent t = p"
  proof
    assume "t_id t \<in> set (children (ct_tree ct) p)"
    then have "q = p" by (rule unique_parent [OF good_treeD(1) [OF good] q(1)])
    then show "t_parent t = p" using eq by simp
  qed (use q(1) eq in simp)
  assume "t_parent t = Some p'"
  then have c: "t_id t \<in> set (children (ct_tree ct) (Some p'))" "p' \<in> t_id ` set L" using eq q by auto
  then have "p' \<in> set (ct_cids ct)"
  proof -
    obtain u where "u \<in> set L" "p' = t_id u" using c(2) by blast
    then show ?thesis using parents_first_below [OF pf, of u] below_cids [OF good, of "[] @ L" p'] by simp
  qed
  then show "p' \<in> t_id ` set L \<and> depth_of ct (t_id t) = depth_of ct p' + 1 \<and> 0 \<le> depth_of ct p'"
    using c depth_of_reply [OF good c(1)] by simp
qed

lemma upward_shown:
  assumes good: "good_tree ct" and pf: "parents_first ct [] L" and L: "\<forall>t \<in> set L. of_tree ct t \<and> known_tuple site t"
  shows "upward (lookup_shown (s_by_id site) (map t_id L)) (\<lambda>i. the (s_by_id site i)) (\<lambda>i. nat (depth_of ct i)) (t_id ` set L)"
  unfolding upward_def
proof (intro ballI conjI allI impI)
  fix i assume "i \<in> t_id ` set L"
  then obtain t where t: "t \<in> set L" "i = t_id t" by blast
  then obtain c where c: "s_by_id site i = Some c" "parent_of c = t_parent t" using L by (auto simp: known_tuple_def)
  show "lookup_shown (s_by_id site) (map t_id L) i = Inr (the (s_by_id site i))"
    using t c by (simp add: lookup_shown_def)
  fix p assume "parent_of (the (s_by_id site i)) = Some p"
  then have "t_parent t = Some p" using c by simp
  then have "p \<in> t_id ` set L" "depth_of ct i = depth_of ct p + 1" "0 \<le> depth_of ct p"
    using shown_parent(2) [OF good pf t(1)] L t by auto
  then show "p \<in> t_id ` set L" "nat (depth_of ct i) = Suc (nat (depth_of ct p))" by (simp_all add: nat_add_distrib)
qed

lemma qa_keeps_wanted:
  assumes up: "upward look (\<lambda>i. the (s_by_id site i)) dep I" and t: "t_id t \<in> I"
    and I: "\<And>i. i \<in> I \<Longrightarrow> \<exists>c. s_by_id site i = Some c"
  shows "qa_keeps look (s_distinguished site) rs t = Inr (qa_wanted site rs t)"
proof -
  obtain c where c: "s_by_id site (t_id t) = Some c" using I [OF t] by blast
  have l: "look (t_id t) = Inr c" using up t c by (auto simp: upward_def)
  show ?thesis
  proof (cases "parent_of c")
    case None
    then show ?thesis using l c by (auto simp: qa_keeps_def qa_wanted_def)
  next
    case (Some p)
    then have p: "p \<in> I" using up t c by (fastforce simp: upward_def)
    then obtain pc where "s_by_id site p = Some pc" using I by blast
    then show ?thesis using l c Some up p by (auto simp: qa_keeps_def qa_wanted_def upward_def)
  qed
qed

lemma qa_filter_sound:
  assumes good: "good_tree ct" and pf: "parents_first ct [] L" and L: "\<forall>t \<in> set L. of_tree ct t \<and> known_tuple site t"
    and deep: "\<forall>t \<in> set L. t_depth t \<le> int (s_max_parent_walk site)"
  obtains K where "qa_filter site rs L = Inr (filter (\<lambda>t. t_id t \<in> K) L)"
    "parents_first ct [] (filter (\<lambda>t. t_id t \<in> K) L)" "\<forall>t \<in> set L. qa_wanted site rs t \<longrightarrow> t_id t \<in> K"
proof -
  let ?I = "t_id ` set L" and ?look = "lookup_shown (s_by_id site) (map t_id L)" and ?f = "\<lambda>i. the (s_by_id site i)"
  note up = upward_shown [OF good pf L]
  have some: "\<exists>c. s_by_id site i = Some c" if "i \<in> ?I" for i using that L by (auto simp: known_tuple_def)
  have b: "byIDs (s_by_id site) (map t_id L) = Inr (map ?f (map t_id L))"
    by (rule byIDs_Inr) (use some in auto)
  have "mapr (\<lambda>t. bindr (qa_keeps ?look (s_distinguished site) rs t) (\<lambda>b. Inr (t_id t, b))) L
      = Inr (map (\<lambda>t. (t_id t, qa_wanted site rs t)) L)"
    by (rule mapr_total) (simp add: qa_keeps_wanted [OF up _ some])
  moreover define keep where "keep = map fst (filter snd (map (\<lambda>t. (t_id t, qa_wanted site rs t)) L))"
  moreover have ks: "set keep = t_id ` {t \<in> set L. qa_wanted site rs t}" by (force simp: keep_def)
  moreover have "nat (depth_of ct i) \<le> s_max_parent_walk site" if "i \<in> ?I" for i
    using that deep L by (auto simp: of_tree_def) (metis ctuple_of_sel(2) nat_le_iff)
  then obtain K where K: "foldm (\<lambda>i keep. bindr (?look i) (\<lambda>c. walk_parents ?look (s_max_parent_walk site) (parent_of c) keep))
       (sort (remdups keep)) keep = Inr K" "closes ?f ?I keep K"
      "\<forall>x \<in> set (sort (remdups keep)). \<forall>p. parent_of (?f x) = Some p \<longrightarrow> p \<in> set K"
    using walk_all_closed [OF up, of "s_max_parent_walk site" "sort (remdups keep)" keep] ks by auto
  ultimately have "qa_filter site rs L = Inr (filter (\<lambda>t. t_id t \<in> set K) L)"
    using b by (simp add: qa_filter_def Let_def)
  moreover have KI: "set K \<subseteq> ?I" "set keep \<subseteq> set K" using closesD(1,2) [OF K(2)] ks by auto
  moreover have "p \<in> set K" if x: "x \<in> set K" "x \<in> set (children (ct_tree ct) (Some p))" for x p
  proof -
    obtain t where t: "t \<in> set L" "x = t_id t" using x(1) KI(1) by auto
    then have "t_parent t = Some p" using shown_parent(1) [OF good pf t(1)] L x(2) by auto
    then have "parent_of (?f x) = Some p" using t L by (auto simp: known_tuple_def)
    then show ?thesis using K(3) closesD(3) [OF K(2) x(1)] by (cases "x \<in> set keep") auto
  qed
  then have "parents_first ct [] (filter (\<lambda>t. t_id t \<in> set K) L)"
    using parents_first_filter [OF good, of "set K" "[]" L] pf by simp
  moreover have "\<forall>t \<in> set L. qa_wanted site rs t \<longrightarrow> t_id t \<in> set K" using ks KI(2) by auto
  ultimately show thesis using that [of "set K"] by blast
qed

text \<open>The comments of the tree can be loaded, and agree with the tree on who replies to whom.\<close>

definition comments_known :: "(int \<Rightarrow> rcomment option) \<Rightarrow> ctree \<Rightarrow> bool" where
  "comments_known by_id tree \<longleftrightarrow>
     (\<forall>i \<in> set (all_children tree). i \<noteq> 0 \<and> (\<exists>c. by_id i = Some c \<and> i \<in> set (children tree (c_parent c))))"

lemma known_tuples:
  assumes good: "good_tree ct" and pf: "parents_first ct [] L" and L: "\<forall>t \<in> set L. of_tree ct t"
    and known: "comments_known (s_by_id site) (ct_tree ct)"
  shows "\<forall>t \<in> set L. of_tree ct t \<and> known_tuple site t"
proof
  have mem: "x \<in> set (all_children (ct_tree ct))" if x: "x \<in> t_id ` set L" for x
  proof -
    obtain u where u: "u \<in> set L" "x = t_id u" using x by blast
    then have "x \<in> set (ct_cids ct)" using parents_first_below [OF pf u(1)] below_cids [OF good, of "[] @ L" x] by simp
    then show ?thesis using good_treeD(2) [OF good] by simp
  qed
  fix t assume t: "t \<in> set L"
  then obtain c where c: "s_by_id site (t_id t) = Some c" "t_id t \<in> set (children (ct_tree ct) (c_parent c))"
    using known mem [of "t_id t"] unfolding comments_known_def by blast
  have "of_tree ct t" using L t by blast
  note sp = shown_parent [OF good pf t this]
  have p: "t_parent t = c_parent c" using sp(1) c(2) by blast
  have "p \<noteq> 0" if "c_parent c = Some p" for p
    using sp(2) [of p] p that mem [of p] known unfolding comments_known_def by auto
  then have "parent_of c = t_parent t" using p by (auto simp: parent_of_def split: option.splits)
  then show "of_tree ct t \<and> known_tuple site t" using c(1) L t by (auto simp: known_tuple_def)
qed

text \<open>
  (C12) The order for questions and answers shows what it promises: it returns whenever the plain order
  does; it drops comments of that order but none that is at the top level, by the author of the link, a
  reply to the author or distinguished; and every comment that is left still follows the comment it
  replies to. The number of ancestors that are walked must not be smaller than the depth limit.
\<close>

theorem qa_order_sound:
  assumes "wf_tree (load_tree (cs_tree st))" "rooted (load_tree (cs_tree st))" "0 < o_max_depth od"
    and walk: "o_max_depth od \<le> int (s_max_parent_walk site)"
    and known: "comments_known (s_by_id site) (load_tree (cs_tree st))"
    and E: "base_get_comment_order site link od st = Inr (E, st')"
  shows "\<exists>E' K. qa_comment_order site link od st = Inr (E', st') \<and> missing_ids E' = missing_ids E \<and>
    ctuples E' = filter (\<lambda>t. t_id t \<in> K) (ctuples E) \<and> parents_first (by_link (cs_tree st)) [] (ctuples E') \<and>
    (\<forall>t \<in> set (ctuples E). qa_wanted site (responder_ids link) t \<longrightarrow> t \<in> set (ctuples E'))"
proof -
  let ?ct = "by_link (cs_tree st)"
  note good = by_link_good [OF assms(1,2)]
  obtain sorter where s: "comment_order od ?ct sorter (pl_sticky link) = Inr E"
    using E by (auto simp: base_get_comment_order_def Let_def bindr_eq_Inr_iff)
  obtain L C L' where r: "E = order_entries ?ct 0 L C" "pick_inv ?ct C L"
    "L = initial_comment_list (pl_sticky link) ?ct @ L'" "\<forall>t \<in> set L'. t_depth t < o_max_depth od"
    by (rule comment_order_result [OF good assms(3), of sorter "pl_sticky link"]) (use s in auto)
  have "\<forall>t \<in> set (initial_comment_list (pl_sticky link) ?ct). t_depth t < o_max_depth od"
    using initial_comment_list_good [OF good, of "pl_sticky link"] depth_of_top [OF good] assms(3) by auto
  then have deep: "\<forall>t \<in> set L. t_depth t \<le> int (s_max_parent_walk site)"
    using r(3,4) walk by fastforce
  have pf: "parents_first ?ct [] L" and ot: "\<forall>t \<in> set L. of_tree ?ct t" using r(2) by (auto simp: pick_inv_def)
  have "ct_tree ?ct = load_tree (cs_tree st)" by (simp add: by_link_def Let_def)
  then have kt: "\<forall>t \<in> set L. of_tree ?ct t \<and> known_tuple site t" using known_tuples [OF good pf ot] known by simp
  obtain K where K: "qa_filter site (responder_ids link) L = Inr (filter (\<lambda>t. t_id t \<in> K) L)"
    "parents_first ?ct [] (filter (\<lambda>t. t_id t \<in> K) L)"
    "\<forall>t \<in> set L. qa_wanted site (responder_ids link) t \<longrightarrow> t_id t \<in> K"
    using qa_filter_sound [OF good pf kt deep] by blast
  let ?E' = "map CommentTuple (filter (\<lambda>t. t_id t \<in> K) L) @ (if missing_roots ?ct 0 C = {} then []
    else [MissingChildrenTuple (\<Sum>c \<in> missing_roots ?ct 0 C. 1 + num_children ?ct c) (missing_roots ?ct 0 C)])"
  have E': "qa_comment_order site link od st = Inr (?E', st')"
  proof (cases "E = []")
    case True
    then have "L = []" "missing_roots ?ct 0 C = {}" using r(1) by (auto simp: order_entries_def Let_def split: if_splits)
    then show ?thesis using E True by (simp add: qa_comment_order_def)
  next
    case False
    have "ctuples (map CommentTuple L) = L" using ctuples_map [of L "[]"] by simp
    then show ?thesis using E False K(1) by (simp add: qa_comment_order_def r(1) split_order_entries)
  qed
  have "?E' = order_entries ?ct 0 (filter (\<lambda>t. t_id t \<in> K) L) C" by (simp add: order_entries_def Let_def)
  then show ?thesis using E' K(2,3) r(1) by auto
qed

subsection \<open>New comments reach the page\<close>

definition plain_op :: "sort_op \<Rightarrow> bool" where
  "plain_op srt \<longleftrightarrow> (case srt of SortShuffled _ \<Rightarrow> False | _ \<Rightarrow> True) \<and> sort_op_col srt \<in> set (''_date'' # plain_sorts)"

text \<open>What a link needs for its comments to be ordered by votes or date.\<close>

definition orderable :: "comment_site \<Rightarrow> plink \<Rightarrow> cstate \<Rightarrow> bool" where
  "orderable site link st \<longleftrightarrow> wf_tree (load_tree (cs_tree st)) \<and> rooted (load_tree (cs_tree st)) \<and> 0 \<le> pl_id link \<and>
     rows_ok (cs_scores st) \<and> (\<forall>i \<in> set (all_children (load_tree (cs_tree st))). known_votes (s_by_id site) i)"

lemma sorter_total:
  assumes ok: "orderable site link st" and col: "col \<in> set (''_date'' # plain_sorts)"
    and ids: "set ids \<subseteq> set (all_children (load_tree (cs_tree st)))"
  shows "\<exists>sorter scores'. get_comment_scores (s_lib site) (s_by_id site) rs (cs_tree st) w (pl_id link) col ids (cs_scores st)
      = Inr (sorter, scores') \<and> rows_ok scores' \<and> (\<forall>c \<in> set ids. map_of sorter c \<noteq> None)"
proof -
  have rows: "rows_ok (cs_scores st)" using ok by (simp add: orderable_def)
  consider "ids = []" | "ids \<noteq> []" "col = ''_date''" | "ids \<noteq> []" "col \<in> set plain_sorts" "col \<noteq> ''_date''" using col by auto
  then show ?thesis
  proof cases
    case 1
    then show ?thesis using rows by (simp add: get_comment_scores_def)
  next
    case 2
    have "c \<in> fst ` set (dict_update d (map (\<lambda>i. (i, real_of_int i)) xs)) \<longleftrightarrow> c \<in> fst ` set d \<or> c \<in> set xs" for c xs d
      by (induction xs arbitrary: d) (auto simp: dict_update_def dom_update)
    then have "\<forall>c \<in> set ids. map_of (dict_update [] (map (\<lambda>i. (i, real_of_int i)) ids)) c \<noteq> None"
      by (simp add: map_of_eq_None_iff)
    then show ?thesis using 2 rows by (simp add: get_comment_scores_def)
  next
    case 3
    have "to36 (pl_id link) = Inr (id36 (pl_id link))" using ok by (simp add: orderable_def to36_id36)
    moreover have "s_by_id site i = Some (the (s_by_id site i)) \<and> c_id (the (s_by_id site i)) = i \<and> votes_ok (the (s_by_id site i))"
      if "i \<in> set ids" for i
      using that ids ok unfolding orderable_def known_votes_def by fastforce
    ultimately show ?thesis
      using get_comment_scores_plain [OF 3(2) _ rows, of "pl_id link" "id36 (pl_id link)" ids "s_by_id site"
          "\<lambda>i. the (s_by_id site i)" "s_lib site" rs "cs_tree st" w] 3(1)
      by (fastforce split: option.splits)
  qed
qed

lemma base_order_plain:
  assumes ok: "orderable site link st" and srt: "plain_op (o_sort od)" and pos: "0 < o_max_depth od"
  obtains E sorter scores' where "base_get_comment_order site link od st = Inr (E, st\<lparr>cs_scores := scores'\<rparr>)" "rows_ok scores'"
    "comment_order od (by_link (cs_tree st)) sorter (pl_sticky link) = Inr E"
    "\<forall>c \<in> set (ct_cids (by_link (cs_tree st))). map_of sorter c \<noteq> None"
proof -
  let ?ct = "by_link (cs_tree st)"
  have good: "good_tree ?ct" using ok by (intro by_link_good) (simp_all add: orderable_def)
  have "ct_tree ?ct = load_tree (cs_tree st)" by (simp add: by_link_def Let_def)
  then have ids: "set (ct_cids ?ct) \<subseteq> set (all_children (load_tree (cs_tree st)))" using good_treeD(2) [OF good] by simp
  have col: "sort_op_col (o_sort od) \<in> set (''_date'' # plain_sorts)" using srt by (simp add: plain_op_def)
  obtain sorter scores' where s: "get_comment_scores (s_lib site) (s_by_id site) (responder_ids link) (cs_tree st)
        (s_should_write site) (pl_id link) (sort_op_col (o_sort od)) (ct_cids ?ct) (cs_scores st) = Inr (sorter, scores')"
      "rows_ok scores'" "\<forall>c \<in> set (ct_cids ?ct). map_of sorter c \<noteq> None"
    using sorter_total [OF ok col ids] by blast
  obtain L C where "comment_order od ?ct sorter (pl_sticky link) = Inr (order_entries ?ct 0 L C)"
    by (rule comment_order_result [OF good pos])
  moreover have "(case o_sort od of SortShuffled _ \<Rightarrow> shuffle_top_level (s_shuffle site) ?ct sorter | _ \<Rightarrow> Inr sorter) = Inr sorter"
    using srt by (cases "o_sort od") (simp_all add: plain_op_def)
  ultimately show thesis using that s by (simp add: base_get_comment_order_def Let_def)
qed

lemma order_key_inj:
  assumes "order_key l srt = Inr k" "order_key l srt' = Inr k"
  shows "srt = srt'"
  using assms by (cases srt; cases srt') (auto simp: order_key_def bindr_eq_Inr_iff sort_op_col_def)

text \<open>The order stored for a sort is the one that the tree gives.\<close>

definition gold_orderer :: "comment_site \<Rightarrow> sort_op \<Rightarrow> orderer" where
  "gold_orderer site srt = \<lparr>o_sort = srt, o_max_comments = s_max_comments_gold site, o_max_depth = MAX_RECURSION\<rparr>"

definition fresh_order :: "comment_site \<Rightarrow> plink \<Rightarrow> cstate \<Rightarrow> sort_op \<Rightarrow> bool" where
  "fresh_order site link st srt \<longleftrightarrow> (\<exists>key sorter. order_key (pl_id link) srt = Inr key \<and>
     comment_order (gold_orderer site srt) (by_link (cs_tree st)) sorter (pl_sticky link)
       = Inr (case cs_orders st key of None \<Rightarrow> [] | Some e \<Rightarrow> e) \<and>
     (\<forall>c \<in> set (ct_cids (by_link (cs_tree st))). map_of sorter c \<noteq> None))"

lemma write_link_order_fresh:
  assumes ok: "orderable site link st" and srt: "plain_op srt" and name: "name \<noteq> ''qa''"
  obtains st' where "write_link_order site link name srt st = Inr st'" "orderable site link st'" "cs_tree st' = cs_tree st"
    "fresh_order site link st' srt" "\<And>srt'. fresh_order site link st srt' \<Longrightarrow> fresh_order site link st' srt'"
proof -
  have g: "plain_op (o_sort (gold_orderer site srt))" "0 < o_max_depth (gold_orderer site srt)"
    using srt by (simp_all add: gold_orderer_def MAX_RECURSION_def)
  obtain E sorter scores' where r: "base_get_comment_order site link (gold_orderer site srt) st = Inr (E, st\<lparr>cs_scores := scores'\<rparr>)"
    "rows_ok scores'" "comment_order (gold_orderer site srt) (by_link (cs_tree st)) sorter (pl_sticky link) = Inr E"
    "\<forall>c \<in> set (ct_cids (by_link (cs_tree st))). map_of sorter c \<noteq> None"
    by (rule base_order_plain [OF ok g])
  obtain key where key: "order_key (pl_id link) srt = Inr key"
    using ok to36_id36 [of "pl_id link"] by (simp add: order_key_def orderable_def)
  let ?st = "st\<lparr>cs_scores := scores', cs_orders := write_cache key E (cs_orders st)\<rparr>"
  have stored: "(case cs_orders ?st key of None \<Rightarrow> [] | Some e \<Rightarrow> e) = E" by (simp add: write_cache_def)
  have "write_link_order site link name srt st = Inr ?st"
    using r(1) key name by (simp add: write_link_order_def own_comment_order_def gold_orderer_def)
  moreover have "orderable site link ?st" using ok r(2) by (simp add: orderable_def)
  moreover have new: "fresh_order site link ?st srt"
    unfolding fresh_order_def using key r(3,4) stored by (intro exI [of _ key] exI [of _ sorter]) simp
  moreover have "fresh_order site link ?st srt'" if f: "fresh_order site link st srt'" for srt'
  proof (cases "srt' = srt")
    case False
    obtain k' s' where k': "order_key (pl_id link) srt' = Inr k'"
      "comment_order (gold_orderer site srt') (by_link (cs_tree st)) s' (pl_sticky link)
         = Inr (case cs_orders st k' of None \<Rightarrow> [] | Some e \<Rightarrow> e)"
      "\<forall>c \<in> set (ct_cids (by_link (cs_tree st))). map_of s' c \<noteq> None"
      using f unfolding fresh_order_def by blast
    have "k' \<noteq> key" using order_key_inj [of "pl_id link" srt' key srt] k'(1) key False by auto
    then show ?thesis unfolding fresh_order_def using k'
      by (intro exI [of _ k'] exI [of _ s']) (simp add: write_cache_def)
  qed (use new in simp)
  ultimately show thesis using that [of ?st] by simp
qed

lemma write_orders_fold:
  assumes ops: "\<forall>n \<in> set names. n \<noteq> ''qa'' \<and> (\<forall>srt. sort_operator_by_name site n = Some srt \<longrightarrow> plain_op srt)"
  shows "orderable site link st \<Longrightarrow> \<exists>st'. foldm (\<lambda>name (names, st).
              case sort_operator_by_name site name of
                None \<Rightarrow> Inr (names, st)
              | Some srt \<Rightarrow> bindr (write_link_order site link name srt st) (\<lambda>st'. Inr (names @ [name], st')))
            names (prev, st) = Inr (prev @ filter (\<lambda>n. sort_operator_by_name site n \<noteq> None) names, st') \<and>
     orderable site link st' \<and> cs_tree st' = cs_tree st \<and>
     (\<forall>srt. fresh_order site link st srt \<or> (\<exists>n \<in> set names. sort_operator_by_name site n = Some srt) \<longrightarrow>
        fresh_order site link st' srt)"
  using ops
proof (induction names arbitrary: prev st)
  case (Cons n ns)
  show ?case
  proof (cases "sort_operator_by_name site n")
    case None
    then show ?thesis using Cons.IH [OF Cons.prems(1), of prev] Cons.prems(2) by simp
  next
    case (Some srt)
    then have n: "plain_op srt" "n \<noteq> ''qa''" using Cons.prems(2) by auto
    obtain st1 where st1: "write_link_order site link n srt st = Inr st1" "orderable site link st1" "cs_tree st1 = cs_tree st"
      "fresh_order site link st1 srt" "\<And>srt'. fresh_order site link st srt' \<Longrightarrow> fresh_order site link st1 srt'"
      by (rule write_link_order_fresh [OF Cons.prems(1) n]) blast
    obtain st' where st': "foldm (\<lambda>name (names, st).
              case sort_operator_by_name site name of
                None \<Rightarrow> Inr (names, st)
              | Some srt \<Rightarrow> bindr (write_link_order site link name srt st) (\<lambda>st'. Inr (names @ [name], st')))
            ns (prev @ [n], st1) = Inr ((prev @ [n]) @ filter (\<lambda>n. sort_operator_by_name site n \<noteq> None) ns, st')"
       "orderable site link st'" "cs_tree st' = cs_tree st1"
       "\<forall>srt. fresh_order site link st1 srt \<or> (\<exists>n \<in> set ns. sort_operator_by_name site n = Some srt) \<longrightarrow> fresh_order site link st' srt"
      using Cons.IH [OF st1(2), of "prev @ [n]"] Cons.prems(2) by auto
    have "fresh_order site link st' srt'"
      if "fresh_order site link st srt' \<or> (\<exists>m \<in> set (n # ns). sort_operator_by_name site m = Some srt')" for srt'
      using that st1(4,5) st'(4) Some by auto
    then show ?thesis using st1(1,3) st'(1-3) Some by auto
  qed
qed simp

lemma write_comment_orders_fresh:
  assumes ok: "orderable site link st"
    and ops: "\<forall>n \<in> set (get_active_sort_orders_for_link site link). n \<noteq> ''qa'' \<and>
      (\<forall>srt. sort_operator_by_name site n = Some srt \<longrightarrow> plain_op srt)"
    and name: "name \<in> set (get_active_sort_orders_for_link site link)" "sort_operator_by_name site name = Some srt"
  obtains st' where "write_comment_orders site link st = Inr (link\<lparr>pl_precomputed := Some
      (filter (\<lambda>n. sort_operator_by_name site n \<noteq> None) (get_active_sort_orders_for_link site link))\<rparr>, st')"
    "orderable site link st'" "cs_tree st' = cs_tree st" "fresh_order site link st' srt"
proof -
  let ?names = "filter (\<lambda>n. sort_operator_by_name site n \<noteq> None) (get_active_sort_orders_for_link site link)"
  from write_orders_fold [OF ops ok, of "[]"] obtain st' where r: "foldm (\<lambda>name (names, st).
              case sort_operator_by_name site name of
                None \<Rightarrow> Inr (names, st)
              | Some srt \<Rightarrow> bindr (write_link_order site link name srt st) (\<lambda>st'. Inr (names @ [name], st')))
            (get_active_sort_orders_for_link site link) ([], st) = Inr ([] @ ?names, st')"
     "orderable site link st'" "cs_tree st' = cs_tree st"
     "\<forall>srt. fresh_order site link st srt \<or> (\<exists>n \<in> set (get_active_sort_orders_for_link site link). sort_operator_by_name site n = Some srt) \<longrightarrow>
        fresh_order site link st' srt"
    by (elim exE conjE)
  have "name \<in> set ?names" using name by simp
  then have "?names \<noteq> []" by (metis empty_iff list.set(1))
  then have "write_comment_orders site link st = Inr (link\<lparr>pl_precomputed := Some ?names\<rparr>, st')"
    unfolding write_comment_orders_def r(1) by simp
  moreover have "fresh_order site link st' srt" using r(4) name by blast
  ultimately show thesis by (rule that [OF _ r(2,3)])
qed

text \<open>The page that is read from a fresh precomputed order.\<close>

lemma fresh_order_page:
  assumes ok: "orderable site link st" and f: "fresh_order site link st srt" and "pl_precomputed link = Some names"
    and name: "name \<in> set names" "sort_operator_by_name site name = Some srt" and num: "0 < pl_num_comments link"
    and m: "1 \<le> m" "m \<le> s_max_comments_gold site"
  shows "\<exists>E. get_comment_order is_qa site link \<lparr>o_sort = srt, o_max_comments = m, o_max_depth = MAX_RECURSION\<rparr> st = Inr (E, st) \<and>
    set (children (load_tree (cs_tree st)) None) \<subseteq> t_id ` set (ctuples E) \<union> missing_ids E"
proof -
  let ?ct = "by_link (cs_tree st)" and ?od = "\<lparr>o_sort = srt, o_max_comments = m, o_max_depth = MAX_RECURSION\<rparr>"
  have good: "good_tree ?ct" using ok by (intro by_link_good) (simp_all add: orderable_def)
  have od: "(gold_orderer site srt)\<lparr>o_max_comments := m\<rparr> = ?od" by (simp add: gold_orderer_def)
  obtain key sorter where k: "order_key (pl_id link) srt = Inr key"
     "comment_order (gold_orderer site srt) ?ct sorter (pl_sticky link) = Inr (case cs_orders st key of None \<Rightarrow> [] | Some e \<Rightarrow> e)"
     "\<forall>c \<in> set (ct_cids ?ct). map_of sorter c \<noteq> None"
    using f unfolding fresh_order_def by blast
  let ?E = "read_cache ?od (cs_orders st key)"
  have "read_cache ?od (Some (case cs_orders st key of None \<Rightarrow> [] | Some e \<Rightarrow> e)) = ?E"
    by (cases "cs_orders st key") (simp_all add: read_cache_def)
  then have E: "comment_order ?od ?ct sorter (pl_sticky link) = Inr ?E"
    using precomputed_order [OF good _ m(1) _ k(2)] m(2) od by (simp add: gold_orderer_def)
  have "srt \<in> set (List.map_filter (sort_operator_by_name site) names)"
    using name by (force simp: map_filter_def)
  then have "get_comment_order is_qa site link ?od st = Inr (?E, st)"
    using assms(3) k(1) num by (simp add: get_comment_order_def should_read_cache_def link_num_comments_def)
  moreover have "set (children (load_tree (cs_tree st)) None) \<subseteq> t_id ` set (ctuples ?E) \<union> missing_ids ?E"
    using comment_order_covers [OF good _ k(3) E] by (simp add: by_link_def Let_def MAX_RECURSION_def)
  ultimately show ?thesis by blast
qed

lemma fold_append_child_children:
  "x \<in> set (children (fold append_child cs tree) p) \<longleftrightarrow>
     x \<in> set (children tree p) \<or> (\<exists>c \<in> set cs. c_id c = x \<and> c_parent c = p)"
  by (induction cs arbitrary: tree) (auto simp: children_append_child)

lemma tree_add_comments_child:
  assumes wf: "wf_tree (load_tree s)" and c: "c \<in> set cs" "c_id c \<notin> set (all_children (load_tree s))"
    and same: "\<And>d. d \<in> set cs \<Longrightarrow> c_id d = c_id c \<Longrightarrow> c_parent d = c_parent c"
  shows "c_id c \<in> set (children (load_tree (tree_add_comments cs s)) (c_parent c))"
proof -
  let ?new = "unique_comments (filter (\<lambda>c. c_id c \<notin> set (td_cids (get_tree_details (load_tree s)))) cs)"
  have d: "dict_ok (load_tree s)" using wf by (simp add: wf_tree_def)
  have "c_id c \<in> c_id ` set (filter (\<lambda>c. c_id c \<notin> set (td_cids (get_tree_details (load_tree s)))) cs)"
    using c set_td_cids [OF d] by simp
  then have "c_id c \<in> c_id ` set ?new" by (simp only: unique_comments(3))
  then obtain e where e: "e \<in> set ?new" "c_id e = c_id c" by auto
  then have "e \<in> set cs" using unique_comments(2) by fastforce
  then have "c_parent e = c_parent c" using same e(2) by blast
  moreover have "?new \<noteq> []" using e(1) by auto
  ultimately show ?thesis using e by (auto simp: tree_add_comments_def Let_def load_tree_def [of "Some _"] fold_append_child_children)
qed

text \<open>A batch of new comments, as the queue delivers it: they can be loaded, and so can their parents.\<close>

definition new_comments_ok :: "comment_site \<Rightarrow> cstate \<Rightarrow> rcomment list \<Rightarrow> bool" where
  "new_comments_ok site st cs \<longleftrightarrow> (\<forall>c \<in> set cs. s_by_id site (c_id c) = Some c) \<and>
     scorable (s_by_id site) (load_tree (cs_tree st)) cs \<and>
     addable (map comment.truncate cs) (load_tree (cs_tree st)) \<and>
     comments_known (s_by_id site) (load_tree (cs_tree st))"

lemma truncate_sel [simp]: "c_id (comment.truncate c) = c_id c" "c_parent (comment.truncate c) = c_parent c"
  by (simp_all add: comment.truncate_def)

lemma addable_with_parents:
  assumes ok: "orderable site link st" and new: "new_comments_ok site st cs"
    and ps: "c_id ` set ps \<subseteq> (\<lambda>c. the (c_parent c)) ` {c \<in> set cs. c_parent c \<noteq> None}" "\<forall>c \<in> set ps. s_by_id site (c_id c) = Some c"
  shows "addable (map comment.truncate (cs @ ps)) (load_tree (cs_tree st))"
    "c_id ` set ps \<subseteq> set (all_children (load_tree (cs_tree st))) \<union> c_id ` set cs"
proof -
  let ?t = "load_tree (cs_tree st)"
  have wf: "wf_tree ?t" and rt: "rooted ?t" using ok by (simp_all add: orderable_def)
  have add: "p < c_id c \<and> (p \<in> set (all_children ?t) \<or> p \<in> c_id ` set cs)" if "c \<in> set cs" "c_parent c = Some p" for c p
    using that new unfolding new_comments_ok_def addable_def by (auto simp: image_image)
  have where_is: "c_id d \<in> set (all_children ?t) \<or> d \<in> set cs" if d: "d \<in> set ps" for d
  proof -
    obtain c p where c: "c \<in> set cs" "c_parent c = Some p" "c_id d = p" using ps(1) d by fastforce
    from add [OF c(1,2)] show ?thesis
    proof (elim conjE disjE imageE)
      fix e assume "p = c_id e" "e \<in> set cs"
      then have "s_by_id site (c_id d) = Some e" using new c(3) by (simp add: new_comments_ok_def)
      then show ?thesis using ps(2) d \<open>e \<in> set cs\<close> by simp
    qed (use c(3) in simp)
  qed
  then show "c_id ` set ps \<subseteq> set (all_children ?t) \<union> c_id ` set cs" by blast
  have old: "p < c_id d \<and> p \<in> set (all_children ?t)"
    if d: "d \<in> set ps" "c_id d \<in> set (all_children ?t)" "c_parent d = Some p" for d p
  proof -
    have "c_id d \<in> set (children ?t (Some p))"
      using new d ps(2) unfolding new_comments_ok_def comments_known_def by force
    then show ?thesis using wf_tree_less [OF wf] children_in_all(2) rt unfolding rooted_def by blast
  qed
  show "addable (map comment.truncate (cs @ ps)) ?t"
    unfolding addable_def
  proof (intro ballI allI impI)
    fix c p assume cp: "c \<in> set (map comment.truncate (cs @ ps))" "c_parent c = Some p"
    then obtain e where e: "e \<in> set (cs @ ps)" "c = comment.truncate e" unfolding set_map by blast
    then have d: "e \<in> set cs \<or> e \<in> set ps" "c_id c = c_id e" "c_parent e = Some p" using cp(2) by auto
    then consider "e \<in> set cs" | "e \<in> set ps" "c_id e \<in> set (all_children ?t)" using where_is by blast
    moreover have "c_id ` set (map comment.truncate (cs @ ps)) = c_id ` set cs \<union> c_id ` set ps"
      by (simp add: image_Un image_image)
    ultimately show "p < c_id c \<and> (p \<in> set (all_children ?t) \<or> p \<in> c_id ` set (map comment.truncate (cs @ ps)))"
      using d by cases (use add [of e p] old [of e p] in \<open>simp; blast\<close>)+
  qed
qed

text \<open>
  (C4) A new comment reaches the page. When the queue delivers a batch of comments, \<open>add_comments\<close>
  succeeds, the tree then holds the old comments and the new ones, and the orders that are precomputed
  are up to date: a page of up to \<open>max_comments_gold\<close> comments that is served from them shows every new
  top-level comment or counts it under \<open>load more comments\<close>. The precomputed sorts must be by votes or date.
\<close>

theorem new_comments_reach_page:
  assumes ok: "orderable site link st" and new: "new_comments_ok site st cs"
    and ops: "\<forall>n \<in> set (get_active_sort_orders_for_link site link). n \<noteq> ''qa'' \<and>
      (\<forall>srt. sort_operator_by_name site n = Some srt \<longrightarrow> plain_op srt)"
    and name: "name \<in> set (get_active_sort_orders_for_link site link)" "sort_operator_by_name site name = Some srt"
    and m: "1 \<le> m" "m \<le> s_max_comments_gold site"
  shows "\<exists>link' st' E. add_link_comments site cs (link, st) = Inr (link', st') \<and>
    set (all_children (load_tree (cs_tree st'))) = set (all_children (load_tree (cs_tree st))) \<union> c_id ` set cs \<and>
    get_comment_order is_qa site link' \<lparr>o_sort = srt, o_max_comments = m, o_max_depth = MAX_RECURSION\<rparr> st' = Inr (E, st') \<and>
    (\<forall>c \<in> set cs. c_parent c = None \<and> c_id c \<notin> set (all_children (load_tree (cs_tree st))) \<longrightarrow>
       c_id c \<in> t_id ` set (ctuples E) \<union> missing_ids E)"
proof -
  let ?t = "load_tree (cs_tree st)"
  have wf: "wf_tree ?t" "rooted ?t" and rows: "rows_ok (cs_scores st)" "0 \<le> pl_id link" using ok by (simp_all add: orderable_def)
  have sc: "scorable (s_by_id site) ?t cs" using new by (simp add: new_comments_ok_def)
  obtain ps scores' where w: "write_comment_scores (s_lib site) (s_by_id site) (responder_ids link) (cs_tree st) (pl_id link) cs
      (cs_scores st) = Inr (cs @ ps, scores')" "rows_ok scores'"
    "c_id ` set ps \<subseteq> (\<lambda>c. the (c_parent c)) ` {c \<in> set cs. c_parent c \<noteq> None}" "\<forall>c \<in> set ps. s_by_id site (c_id c) = Some c"
    by (rule write_comment_scores_total [OF sc rows(2,1)])
  define st1 where "st1 = st\<lparr>cs_scores := scores', cs_tree := tree_add_comments (map comment.truncate (cs @ ps)) (cs_tree st)\<rparr>"
  note add = addable_with_parents [OF ok new w(3,4)]
  note t1 = tree_add_comments_wf [OF wf add(1)]
  have all: "set (all_children (load_tree (cs_tree st1))) = set (all_children ?t) \<union> c_id ` set cs"
    using t1(3) add(2) by (auto simp: st1_def image_Un image_image)
  have "known_votes (s_by_id site) (c_id c)" if "c \<in> set cs" for c
    using that new sc by (auto simp: new_comments_ok_def known_votes_def scorable_def)
  then have ok1: "orderable site link st1"
    using ok t1(1,2) w(2) all by (auto simp: orderable_def st1_def)
  let ?names = "filter (\<lambda>n. sort_operator_by_name site n \<noteq> None) (get_active_sort_orders_for_link site link)"
  let ?link = "link\<lparr>pl_precomputed := Some ?names\<rparr>"
  obtain st' where st': "write_comment_orders site link st1 = Inr (?link, st')" "orderable site link st'"
      "cs_tree st' = cs_tree st1" "fresh_order site link st' srt"
    by (rule write_comment_orders_fresh [OF ok1 ops name])
  have "0 < pl_num_comments link"
  proof (rule ccontr)
    assume "\<not> 0 < pl_num_comments link"
    then have "s_min_comments site \<le> 0 \<or> link_num_comments link < s_min_comments site" by (auto simp: link_num_comments_def)
    then have "get_active_sort_orders_for_link site link = []" unfolding get_active_sort_orders_for_link_def by (rule if_P)
    then show False using name(1) by simp
  qed
  moreover have "orderable site ?link st'" "fresh_order site ?link st' srt"
    using st'(2,4) by (simp_all add: orderable_def fresh_order_def)
  ultimately obtain E where E: "get_comment_order is_qa site ?link \<lparr>o_sort = srt, o_max_comments = m, o_max_depth = MAX_RECURSION\<rparr> st' = Inr (E, st')"
    "set (children (load_tree (cs_tree st')) None) \<subseteq> t_id ` set (ctuples E) \<union> missing_ids E"
    using fresh_order_page [of site ?link st' srt ?names name m is_qa] name m by auto
  have top: "c_id c \<in> set (children (load_tree (cs_tree st')) None)"
    if c: "c \<in> set cs" "c_parent c = None" "c_id c \<notin> set (all_children ?t)" for c
  proof -
    have "c_parent d = c_parent c" if "d \<in> set (cs @ ps)" "c_id d = c_id c" for d
    proof -
      have "\<forall>c \<in> set cs. s_by_id site (c_id c) = Some c" using new by (simp add: new_comments_ok_def)
      then have "\<forall>c \<in> set (cs @ ps). s_by_id site (c_id c) = Some c" using w(4) by auto
      then have "s_by_id site (c_id d) = Some d" "s_by_id site (c_id c) = Some c" using that(1) c(1) by simp_all
      then have "d = c" unfolding that(2) by simp
      then show ?thesis by (rule arg_cong)
    qed
    then have "c_id (comment.truncate c) \<in> set (children (load_tree (tree_add_comments (map comment.truncate (cs @ ps)) (cs_tree st)))
        (c_parent (comment.truncate c)))"
      using c by (intro tree_add_comments_child [OF wf(1)]) auto
    then show ?thesis using c(2) st'(3) by (simp add: st1_def)
  qed
  have "add_link_comments site cs (link, st) = Inr (?link, st')"
    using w(1) st'(1) by (simp add: add_link_comments_def st1_def)
  moreover have "\<forall>c \<in> set cs. c_parent c = None \<and> c_id c \<notin> set (all_children ?t) \<longrightarrow> c_id c \<in> t_id ` set (ctuples E) \<union> missing_ids E"
    by (intro ballI impI subsetD [OF E(2)] top) simp_all
  ultimately show ?thesis using all st'(3) E(1) by (intro exI [of _ ?link] exI [of _ st'] exI [of _ E] conjI) simp_all
qed

subsection \<open>Stale scores of questions\<close>

lemma write_comment_scores_qa:
  assumes "write_comment_scores lib by_id rs stored link_id cs store = Inr (cs', store')"
  obtains scores key row where "calculate_comment_scores lib by_id rs stored ''_qa'' cs = Inr scores" "scores_rowkey link_id ''_qa'' = Inr key"
    "scores \<noteq> [] \<longrightarrow> store' key = Some (dict_update row scores)"
proof -
  obtain store4 scores where s: "calculate_comment_scores lib by_id rs stored ''_qa'' cs = Inr scores"
    "set_scores link_id ''_qa'' scores store4 = Inr store'"
    using assms by (auto simp: write_comment_scores_def written_sorts_def bindr_eq_Inr_iff)
  then obtain key where k: "scores_rowkey link_id ''_qa'' = Inr key" by (auto simp: set_scores_def bindr_eq_Inr_iff)
  then have "scores \<noteq> [] \<longrightarrow> store' key = Some (dict_update (case store4 key of None \<Rightarrow> [] | Some d \<Rightarrow> d) scores)"
    using s(2) by (auto simp: set_scores_def)
  with s(1) k show thesis by (rule that)
qed

text \<open>
  An answer does not move its question. When the author of a link replies to a comment,
  \<open>add_comments\<close> stores a new score for the question, too; but scores are written before the reply is
  added to the tree, so the stored score is the one that the earlier replies give.
\<close>

lemma question_score_stale:
  assumes add: "add_link_comments site [r] (link, st) = Inr (link', st')"
    and r: "rc_author r = pl_author link" "c_parent r = Some p" "p \<noteq> 0" "0 \<le> p"
    and pc: "s_by_id site p = Some pc" "c_id pc = p"
    and "get_active_sort_orders_for_link site link = []"
  shows "\<exists>replies s key row. byIDs (s_by_id site) (children (load_tree (cs_tree st)) (Some p)) = Inr replies \<and>
    comment_qa (s_lib site) (responder_ids link) replies pc = Inr s \<and>
    scores_rowkey (pl_id link) ''_qa'' = Inr key \<and> cs_scores st' key = Some row \<and> map_of row (id36 p) = Some s"
proof -
  obtain cs' store' where w: "write_comment_scores (s_lib site) (s_by_id site) (responder_ids link) (cs_tree st) (pl_id link) [r]
      (cs_scores st) = Inr (cs', store')" "cs_scores st' = store'"
    using add assms(8) by (auto simp: add_link_comments_def bindr_eq_Inr_iff write_comment_orders_def)
  obtain scores key row where sc: "calculate_comment_scores (s_lib site) (s_by_id site) (responder_ids link) (cs_tree st) ''_qa'' [r] = Inr scores"
      "scores_rowkey (pl_id link) ''_qa'' = Inr key" "scores \<noteq> [] \<longrightarrow> store' key = Some (dict_update row scores)"
    by (rule write_comment_scores_qa [OF w(1)])
  obtain replies s where rs: "byIDs (s_by_id site) (children (load_tree (cs_tree st)) (Some p)) = Inr replies"
    "comment_qa (s_lib site) (responder_ids link) replies pc = Inr s" "map_of scores (id36 p) = Some s"
    using qa_parent_score [OF sc(1) _ r(2,3) pc to36_id36 [OF r(4)]] r(1) by (auto simp: responder_ids_def)
  have "dict_ok scores"
    using sc(1) by (auto simp: calculate_comment_scores_def plain_sorts_def calculate_qa_comment_scores_def
        bindr_eq_Inr_iff intro: dict_ok_dict_update)
  then have "map_of (dict_update row scores) (id36 p) = Some s" using rs(3) by (simp add: map_of_dict_update)
  moreover have "scores \<noteq> []" using rs(3) by auto
  ultimately show ?thesis using rs sc w(2) by auto
qed

subsection \<open>Examples\<close>

definition sample_libm :: libm where
  "sample_libm = \<lparr>m_log10 = (\<lambda>x. x - 1), m_sqrt = (\<lambda>x. x)\<rparr>"

definition sample_rcomment :: "int \<Rightarrow> int option \<Rightarrow> rcomment" where
  "sample_rcomment i p = \<lparr>c_id = i, c_parent = p, rc_author = i, rc_ups = 0, rc_downs = 0, rc_length = 10\<rparr>"

definition sample_comments :: "rcomment list" where
  "sample_comments = [sample_rcomment 1 None, sample_rcomment 2 (Some 1), sample_rcomment 3 (Some 1), sample_rcomment 4 None,
     sample_rcomment 5 (Some 3), sample_rcomment 6 None, sample_rcomment 7 (Some 6)]"

definition sample_psite :: comment_site where
  "sample_psite = \<lparr>s_lib = sample_libm, s_by_id = map_of (map (\<lambda>c. (c_id c, c)) sample_comments), s_distinguished = (\<lambda>_. False),
     s_min_comments = 1, s_precomputed_sorts = [''new'', ''top''], s_precompute_suggested = False, s_max_comments_gold = 100,
     s_max_parent_walk = 20, s_upvote_path = ''insightful'', s_controversial_path = ''fun'', s_should_write = True,
     s_shuffle = (\<lambda>xs. xs)\<rparr>"

definition sample_plink :: plink where
  "sample_plink = \<lparr>pl_id = 9, pl_author = 7, pl_num_comments = 5, pl_sticky = None, pl_suggested = None,
     pl_sr_suggested = None, pl_precomputed = None\<rparr>"

definition sample_cstate :: cstate where
  "sample_cstate = \<lparr>cs_tree = Some sample_tree, cs_scores = (\<lambda>_. None), cs_orders = (\<lambda>_. None)\<rparr>"

lemma sample_by_id:
  "s_by_id sample_psite 1 = Some (sample_rcomment 1 None)" "s_by_id sample_psite 2 = Some (sample_rcomment 2 (Some 1))"
  "s_by_id sample_psite 3 = Some (sample_rcomment 3 (Some 1))" "s_by_id sample_psite 4 = Some (sample_rcomment 4 None)"
  "s_by_id sample_psite 5 = Some (sample_rcomment 5 (Some 3))" "s_by_id sample_psite 6 = Some (sample_rcomment 6 None)"
  "s_by_id sample_psite 7 = Some (sample_rcomment 7 (Some 6))"
  by (simp_all add: sample_psite_def sample_comments_def sample_rcomment_def)

lemma sample_gold: "s_max_comments_gold sample_psite = 100"
  by (simp add: sample_psite_def)

lemma sample_votes: "c \<in> set sample_comments \<Longrightarrow> votes_ok c" "votes_ok (sample_rcomment i p) \<longleftrightarrow> 0 \<le> i"
  by (auto simp: sample_comments_def votes_ok_def sample_rcomment_def)

lemma sample_orderable: "orderable sample_psite sample_plink sample_cstate"
proof -
  have "known_votes (s_by_id sample_psite) i" if "i \<in> {1, 2, 3, 4, 5}" for i
    using that sample_by_id sample_votes by (auto simp: known_votes_def) (simp_all add: sample_rcomment_def)
  then show ?thesis using sample_tree_ok(1,2)
    by (simp add: orderable_def sample_cstate_def rows_ok_def sample_plink_def load_tree_def sample_tree_def all_children_def)
qed

theorem new_comments_reach_page_witness:
  "\<exists>link' st' E. add_link_comments sample_psite [sample_rcomment 6 None, sample_rcomment 7 (Some 6)] (sample_plink, sample_cstate) = Inr (link', st') \<and>
     set (all_children (load_tree (cs_tree st'))) = {1, 2, 3, 4, 5, 6, 7} \<and>
     get_comment_order False sample_psite link' \<lparr>o_sort = SortDesc ''_score'', o_max_comments = 3, o_max_depth = MAX_RECURSION\<rparr> st' = Inr (E, st') \<and>
     6 \<in> t_id ` set (ctuples E) \<union> missing_ids E"
proof -
  have kv: "known_votes (s_by_id sample_psite) i" if "i \<in> {1, 2, 3, 4, 5, 6, 7}" for i
    using that sample_by_id sample_votes by (auto simp: known_votes_def) (simp_all add: sample_rcomment_def)
  have t: "load_tree (cs_tree sample_cstate) = sample_tree" by (simp add: sample_cstate_def load_tree_def)
  have "scorable (s_by_id sample_psite) sample_tree [sample_rcomment 6 None, sample_rcomment 7 (Some 6)]"
    using kv sample_votes by (simp add: scorable_def sample_tree_def all_children_def) (simp add: sample_rcomment_def)
  moreover have "addable (map comment.truncate [sample_rcomment 6 None, sample_rcomment 7 (Some 6)]) sample_tree"
    by (simp add: addable_def) (simp add: sample_rcomment_def)
  moreover have "comments_known (s_by_id sample_psite) sample_tree"
    using sample_by_id by (simp add: comments_known_def sample_tree_def all_children_def children_def) (simp add: sample_rcomment_def)
  ultimately have new: "new_comments_ok sample_psite sample_cstate [sample_rcomment 6 None, sample_rcomment 7 (Some 6)]"
    using sample_by_id unfolding new_comments_ok_def t by (simp add: sample_rcomment_def)
  have act: "get_active_sort_orders_for_link sample_psite sample_plink = [''new'', ''top'']"
    by (simp add: get_active_sort_orders_for_link_def sample_psite_def sample_plink_def link_num_comments_def)
  have op: "sort_operator_by_name sample_psite ''new'' = Some (SortDesc ''_date'')"
    "sort_operator_by_name sample_psite ''top'' = Some (SortDesc ''_score'')"
    by (simp_all add: sort_operator_by_name_def sample_psite_def)
  have "\<forall>n \<in> set (get_active_sort_orders_for_link sample_psite sample_plink). n \<noteq> ''qa'' \<and>
      (\<forall>srt. sort_operator_by_name sample_psite n = Some srt \<longrightarrow> plain_op srt)"
    unfolding act using op by (simp add: plain_op_def sort_op_col_def plain_sorts_def)
  from new_comments_reach_page [OF sample_orderable new this, of "''top''" "SortDesc ''_score''" 3 False]
  obtain link' st' E where r: "add_link_comments sample_psite [sample_rcomment 6 None, sample_rcomment 7 (Some 6)] (sample_plink, sample_cstate) = Inr (link', st')"
    "set (all_children (load_tree (cs_tree st'))) = set (all_children sample_tree) \<union> c_id ` set [sample_rcomment 6 None, sample_rcomment 7 (Some 6)]"
    "get_comment_order False sample_psite link' \<lparr>o_sort = SortDesc ''_score'', o_max_comments = 3, o_max_depth = MAX_RECURSION\<rparr> st' = Inr (E, st')"
    "\<forall>c \<in> set [sample_rcomment 6 None, sample_rcomment 7 (Some 6)]. c_parent c = None \<and> c_id c \<notin> set (all_children sample_tree) \<longrightarrow>
       c_id c \<in> t_id ` set (ctuples E) \<union> missing_ids E"
    unfolding t using act op by (fastforce simp: sample_gold)
  have "6 \<in> t_id ` set (ctuples E) \<union> missing_ids E"
    using r(4) by (simp add: sample_rcomment_def sample_tree_def all_children_def)
  moreover have "set (all_children (load_tree (cs_tree st'))) = {1, 2, 3, 4, 5, 6, 7}"
    using r(2) by (auto simp: sample_rcomment_def sample_tree_def all_children_def)
  ultimately show ?thesis using r(1,3) by blast
qed

theorem qa_order_sound_witness:
  "\<exists>E E'. base_get_comment_order sample_psite sample_plink \<lparr>o_sort = SortDesc ''_date'', o_max_comments = 4, o_max_depth = 3\<rparr> sample_cstate
       = Inr (E, sample_cstate) \<and>
     qa_comment_order sample_psite sample_plink \<lparr>o_sort = SortDesc ''_date'', o_max_comments = 4, o_max_depth = 3\<rparr> sample_cstate
       = Inr (E', sample_cstate) \<and>
     missing_ids E' = missing_ids E \<and> parents_first (by_link (Some sample_tree)) [] (ctuples E')"
proof -
  let ?od = "\<lparr>o_sort = SortDesc ''_date'', o_max_comments = 4, o_max_depth = 3\<rparr>"
  have st: "cs_tree sample_cstate = Some sample_tree" by (simp add: sample_cstate_def)
  have known: "comments_known (s_by_id sample_psite) (load_tree (cs_tree sample_cstate))"
    using sample_by_id by (simp add: st load_tree_def comments_known_def sample_tree_def all_children_def children_def)
      (simp add: sample_rcomment_def)
  have pl: "plain_op (o_sort ?od)" "0 < o_max_depth ?od" by (simp_all add: plain_op_def sort_op_col_def)
  obtain E scores' where E: "base_get_comment_order sample_psite sample_plink ?od sample_cstate = Inr (E, sample_cstate\<lparr>cs_scores := scores'\<rparr>)"
    by (rule base_order_plain [OF sample_orderable pl])
  then have "sample_cstate\<lparr>cs_scores := scores'\<rparr> = sample_cstate"
    by (auto simp: base_get_comment_order_def get_comment_scores_def sort_op_col_def Let_def bindr_eq_Inr_iff split: if_splits)
  then have E: "base_get_comment_order sample_psite sample_plink ?od sample_cstate = Inr (E, sample_cstate)" using E by simp
  have "o_max_depth ?od \<le> int (s_max_parent_walk sample_psite)" by (simp add: sample_psite_def)
  from qa_order_sound [OF sample_tree_ok(1,2) [folded st] pl(2) this known E] show ?thesis
    using E by (auto simp: st)
qed

end
