(* ===== verification/Pagination.thy ===== *)
theory Pagination
  imports Prelude
begin

section \<open>Pages of listings\<close>

text \<open>
  Models the builders of \<open>r2/models/builder.py\<close> that turn a query or a list of names into a page:
  \<open>QueryBuilder.get_items\<close>, \<open>IDBuilder\<close>, \<open>SimpleBuilder\<close> and what decides whether an item is skipped. Wrapping an
  item for display is the function \<open>b_wrap\<close>; \<open>num\<close> is the size of a page, where \<open>None\<close> and 0 mean no limit.
\<close>

record ('i, 'w) builder =
  b_num :: "int option"
  b_skip :: bool
  b_start_count :: int
  b_reverse :: bool
  b_wrap :: "'i \<Rightarrow> 'w"
  b_wrapped :: bool
  b_must_skip :: "'w \<Rightarrow> bool"
  b_keep_item :: "'w \<Rightarrow> bool"

text \<open>What \<open>get_items\<close> returns; a false value for the previous or next item is \<open>None\<close>.\<close>

record 'w page =
  pg_items :: "('w \<times> int option) list"
  pg_first :: "'w option"
  pg_last :: "'w option"
  pg_before_count :: int
  pg_after_count :: int

definition limit :: "('i, 'w, 'b) builder_scheme \<Rightarrow> int option" where
  "limit b = (case b_num b of None \<Rightarrow> None | Some n \<Rightarrow> if n = 0 then None else Some n)"

definition shown :: "('i, 'w, 'b) builder_scheme \<Rightarrow> 'w \<Rightarrow> bool" where
  "shown b i \<longleftrightarrow> \<not> (b_must_skip b i \<or> b_skip b \<and> \<not> b_keep_item b i)"

definition valid_after :: "('i, 'w, 'b) builder_scheme \<Rightarrow> 'i \<Rightarrow> bool" where
  "valid_after b after \<longleftrightarrow> \<not> b_must_skip b (b_wrap b after)"

subsection \<open>The loop\<close>

text \<open>Taking over fetched items until the page is full.\<close>

fun take_items ::
    "('i, 'w, 'b) builder_scheme \<Rightarrow> 'w list \<Rightarrow> ('w \<times> int option) list \<times> int \<times> int
     \<Rightarrow> ('w \<times> int option) list \<times> int \<times> int" where
  "take_items b [] st = st"
| "take_items b (i # is) (items, num_have, count) =
     (if (case limit b of None \<Rightarrow> False | Some n \<Rightarrow> n \<le> num_have) then (items, num_have, count)
      else if shown b i then
        let count' = (if b_reverse b then count - 1 else count + 1) in
        take_items b is (items @ [(i, if b_wrapped b then Some count' else None)], num_have + 1, count')
      else take_items b is (items, num_have, count))"

text \<open>
  The outer loop, which runs 20 times at most. \<open>fetch\<close> is \<open>fetch_more\<close>: given the limit, the last item
  fetched and the number of items on the page it answers whether this was the last round and with new
  items (the empty list stands for \<open>None\<close>, too).
\<close>

type_synonym ('i, 's) fetcher = "int option \<Rightarrow> 'i option \<Rightarrow> int \<Rightarrow> 's \<Rightarrow> (bool \<times> 'i list \<times> 's) result"

fun fetch_loop ::
    "('i, 'w, 'b) builder_scheme \<Rightarrow> ('i, 's) fetcher \<Rightarrow> nat \<Rightarrow> 'i option \<Rightarrow> 's \<Rightarrow> ('w \<times> int option) list \<times> int \<times> int
     \<Rightarrow> (('w \<times> int option) list \<times> int \<times> int \<times> bool) result" where
  "fetch_loop b fetch 0 fetch_after s (items, num_have, count) = Inr (items, num_have, count, True)"
| "fetch_loop b fetch (Suc left) fetch_after s (items, num_have, count) =
     bindr (fetch (limit b) fetch_after num_have s) (\<lambda>(is_done, fetched, s').
       if fetched = [] then Inr (items, num_have, count, left = 0)
       else
         let short = (case limit b of None \<Rightarrow> False | Some n \<Rightarrow> int (length fetched) < n - num_have);
             (items', num_have', count') = take_items b (map (b_wrap b) fetched) (items, num_have, count) in
         if is_done \<or> left = 0 \<or> short then Inr (items', num_have', count', left = 0)
         else fetch_loop b fetch left (Some (last fetched)) s' (items', num_have', count'))"

definition MAX_LOOPS :: nat where
  "MAX_LOOPS = 20"

definition get_items :: "('i, 'w, 'b) builder_scheme \<Rightarrow> ('i, 's) fetcher \<Rightarrow> 's \<Rightarrow> 'w page result" where
  "get_items b fetch s =
     bindr (fetch_loop b fetch MAX_LOOPS None s ([], 0, b_start_count b)) (\<lambda>(items, num_have, count, stopped_early).
       let have_next = \<not> ((case limit b of None \<Rightarrow> False | Some n \<Rightarrow> num_have < n) \<and> \<not> stopped_early);
           first_item = (if items \<noteq> [] \<and> 0 < b_start_count b then Some (fst (hd items)) else None);
           last_item = (if items \<noteq> [] then Some (fst (last items)) else None) in
       Inr (if b_reverse b
            then \<lparr>pg_items = rev items, pg_first = (if have_next then last_item else None), pg_last = first_item,
                  pg_before_count = count, pg_after_count = b_start_count b - 1\<rparr>
            else \<lparr>pg_items = items, pg_first = first_item, pg_last = (if have_next then last_item else None),
                  pg_before_count = b_start_count b + 1, pg_after_count = count\<rparr>))"

subsection \<open>Where items come from\<close>

text \<open>\<open>max(int(num_need * EXTRA_FACTOR), num // 2, 1)\<close> with \<open>EXTRA_FACTOR\<close> 1.5.\<close>

definition slice_size :: "int \<Rightarrow> int \<Rightarrow> nat" where
  "slice_size n num_need = nat (max (max (num_need * 3 div 2) (n div 2)) 1)"

text \<open>\<open>IDBuilder\<close>: names are looked up slice by slice.\<close>

definition get_after :: "'n list \<Rightarrow> 'n option \<Rightarrow> bool \<Rightarrow> 'n list" where
  "get_after l after reverse =
     (let names = (if reverse then rev l else l) in
      case after of
        None \<Rightarrow> names
      | Some a \<Rightarrow> drop 1 (dropWhile (\<lambda>x. x \<noteq> a) names))"

definition id_fetch_more :: "('n list \<Rightarrow> 'i list result) \<Rightarrow> ('i, 'n list) fetcher" where
  "id_fetch_more thing_lookup num last_item num_have names =
     (case num of
        None \<Rightarrow> bindr (thing_lookup names) (\<lambda>new_items. Inr (True, new_items, []))
      | Some n \<Rightarrow>
          let num_need = n - num_have in
          if num_need \<le> 0 then Inr (True, [], names)
          else
            let k = slice_size n num_need in
            bindr (thing_lookup (take k names)) (\<lambda>new_items. Inr (False, new_items, drop k names)))"

definition id_builder_items ::
    "('i, 'w, 'b) builder_scheme \<Rightarrow> ('n list \<Rightarrow> 'i list result) \<Rightarrow> 'n list \<Rightarrow> 'n option \<Rightarrow> 'w page result" where
  "id_builder_items b thing_lookup query after =
     get_items b (id_fetch_more thing_lookup) (get_after query after (b_reverse b))"

text \<open>\<open>SimpleBuilder\<close>: the query is the list of items.\<close>

definition simple_lookup :: "'i list \<Rightarrow> 'i list result" where
  "simple_lookup names = Inr names"

definition simple_after :: "('i \<Rightarrow> 'k) \<Rightarrow> 'i list \<Rightarrow> 'k option \<Rightarrow> bool \<Rightarrow> 'i list" where
  "simple_after item_id query after reverse =
     (let items = (if reverse then rev query else query) in
      case after of
        None \<Rightarrow> items
      | Some a \<Rightarrow> drop 1 (dropWhile (\<lambda>x. item_id x \<noteq> a) items))"

definition simple_builder_items ::
    "('i, 'w, 'b) builder_scheme \<Rightarrow> ('i \<Rightarrow> 'k) \<Rightarrow> 'i list \<Rightarrow> 'k option \<Rightarrow> 'w page result" where
  "simple_builder_items b item_id query after =
     get_items b (id_fetch_more simple_lookup) (simple_after item_id query after (b_reverse b))"

text \<open>
  \<open>QueryBuilder\<close>: the query is run again after the last item. \<open>run reverse after limit\<close> is the answer of the
  database; the state is the item that the rules of the query start after.
\<close>

definition query_fetch_more :: "('i option \<Rightarrow> nat option \<Rightarrow> 'i list) \<Rightarrow> ('i, 'i option) fetcher" where
  "query_fetch_more run num last_item num_have after =
     (case num of
        None \<Rightarrow> Inr (True, run after None, after)
      | Some n \<Rightarrow>
          let num_need = n - num_have in
          if num_need \<le> 0 then Inr (True, [], after)
          else
            let after' = (case last_item of None \<Rightarrow> after | Some x \<Rightarrow> Some x) in
            Inr (False, run after' (Some (slice_size n num_need)), after'))"

definition query_builder_items ::
    "('i, 'w, 'b) builder_scheme \<Rightarrow> (bool \<Rightarrow> 'i option \<Rightarrow> nat option \<Rightarrow> 'i list) \<Rightarrow> 'i option \<Rightarrow> 'w page result" where
  "query_builder_items b run after = get_items b (query_fetch_more (run (b_reverse b))) after"

subsection \<open>Which items are skipped\<close>

text \<open>
  \<open>Builder.must_skip\<close> on what it asks of an item: is it promoted; for a message (not a comment shown
  in the inbox) may the user see it; may the user see its subreddit, if it has one.
\<close>

record listed =
  li_promoted :: bool
  li_message_view :: "bool option"
  li_subreddit_view :: "bool option"

definition must_skip :: "'a listed_scheme \<Rightarrow> bool" where
  "must_skip item =
     (if li_promoted item then False
      else (case li_message_view item of
          Some may_view \<Rightarrow> \<not> may_view
        | None \<Rightarrow> (case li_subreddit_view item of Some may_view \<Rightarrow> \<not> may_view | None \<Rightarrow> False)))"

text \<open>\<open>SearchBuilder.keep_item\<close>; the fields of subreddits are \<open>None\<close> for items without one.\<close>

record searched =
  se_spam :: bool
  se_deleted :: bool
  se_sr_spammy :: "bool option"
  se_sr_exposed :: "bool option"
  se_author_deleted :: bool
  se_is_sr_exposed :: "bool option"
  se_over_18 :: bool
  se_sr_over_18 :: bool

record search_request =
  sq_skip_deleted_authors :: bool
  sq_user_is_admin :: bool
  sq_api_or_rss :: bool
  sq_obey_over18 :: bool
  sq_over18 :: bool
  sq_safe_search :: bool

definition include_over18 :: "search_request \<Rightarrow> bool" where
  "include_over18 r = (if sq_api_or_rss r then \<not> sq_obey_over18 r \<or> sq_over18 r
                       else if sq_safe_search r then sq_over18 r else True)"

definition search_keep_item :: "search_request \<Rightarrow> searched \<Rightarrow> bool" where
  "search_keep_item r item =
     (if se_spam item \<or> se_deleted item then False
      else if se_sr_spammy item = Some True then False
      else if \<not> sq_user_is_admin r \<and> se_sr_exposed item = Some False then False
      else if sq_skip_deleted_authors r \<and> se_author_deleted item then False
      else if se_is_sr_exposed item = Some False then False
      else if (se_over_18 item \<or> se_sr_over_18 item) \<and> \<not> include_over18 r then False
      else True)"

text \<open>The builders of wiki revisions; the age of a revision is in days.\<close>

record listed_revision =
  lr_admin_deleted :: bool
  lr_hidden :: bool
  lr_may_view :: bool
  lr_age_days :: int

definition wiki_must_skip :: "bool \<Rightarrow> listed_revision \<Rightarrow> bool" where
  "wiki_must_skip user_is_admin item \<longleftrightarrow> lr_admin_deleted item \<and> \<not> user_is_admin"

definition wiki_keep_item :: "listed_revision \<Rightarrow> bool" where
  "wiki_keep_item item \<longleftrightarrow> \<not> lr_hidden item \<and> lr_may_view item"

definition wiki_recent_must_skip :: "int \<Rightarrow> bool \<Rightarrow> listed_revision \<Rightarrow> bool" where
  "wiki_recent_must_skip WIKI_RECENT_DAYS user_is_admin item \<longleftrightarrow>
     wiki_must_skip user_is_admin item \<or> WIKI_RECENT_DAYS \<le> lr_age_days item"

subsection \<open>What a page should be\<close>

text \<open>The shown items in order, with their numbers, cut at the limit.\<close>

fun numbered :: "('i, 'w, 'b) builder_scheme \<Rightarrow> int \<Rightarrow> 'w list \<Rightarrow> ('w \<times> int option) list" where
  "numbered b count [] = []"
| "numbered b count (w # ws) =
     (let count' = (if b_reverse b then count - 1 else count + 1) in
      (w, if b_wrapped b then Some count' else None) # numbered b count' ws)"

definition moved :: "('i, 'w, 'b) builder_scheme \<Rightarrow> int \<Rightarrow> nat \<Rightarrow> int" where
  "moved b count n = (if b_reverse b then count - int n else count + int n)"

definition cut :: "('i, 'w, 'b) builder_scheme \<Rightarrow> int \<Rightarrow> 'w list \<Rightarrow> 'w list" where
  "cut b num_have ws = (case limit b of None \<Rightarrow> ws | Some n \<Rightarrow> take (nat (n - num_have)) ws)"

definition page_of :: "('i, 'w, 'b) builder_scheme \<Rightarrow> 'w list \<Rightarrow> 'w page" where
  "page_of b ws =
     (let new = cut b 0 (filter (shown b) ws);
          items = numbered b (b_start_count b) new;
          count = moved b (b_start_count b) (length new);
          more = (case limit b of None \<Rightarrow> True | Some n \<Rightarrow> n \<le> int (length new));
          first_item = (if new \<noteq> [] \<and> 0 < b_start_count b then Some (hd new) else None);
          last_item = (if new \<noteq> [] \<and> more then Some (last new) else None) in
      if b_reverse b
      then \<lparr>pg_items = rev items, pg_first = last_item, pg_last = first_item, pg_before_count = count,
            pg_after_count = b_start_count b - 1\<rparr>
      else \<lparr>pg_items = items, pg_first = first_item, pg_last = last_item,
            pg_before_count = b_start_count b + 1, pg_after_count = count\<rparr>)"

lemma numbered_simps:
  "numbered b count (xs @ ys) = numbered b count xs @ numbered b (moved b count (length xs)) ys"
  "map fst (numbered b count ws) = ws" "length (numbered b count ws) = length ws"
proof -
  show "numbered b count (xs @ ys) = numbered b count xs @ numbered b (moved b count (length xs)) ys"
    by (induction xs arbitrary: count) (auto simp: Let_def moved_def algebra_simps)
  show "map fst (numbered b count ws) = ws"
    by (induction ws arbitrary: count) (auto simp: Let_def)
  then show "length (numbered b count ws) = length ws" by (metis length_map)
qed

lemma moved_add: "moved b (moved b count m) n = moved b count (m + n)"
  by (simp add: moved_def)

lemma numbered_hd_last:
  "ws \<noteq> [] \<Longrightarrow> fst (hd (numbered b count ws)) = hd ws" "ws \<noteq> [] \<Longrightarrow> fst (last (numbered b count ws)) = last ws"
  "numbered b count ws = [] \<longleftrightarrow> ws = []"
proof -
  show e: "numbered b count ws = [] \<longleftrightarrow> ws = []" using numbered_simps(3) [of b count ws] by (metis length_0_conv)
  show "fst (hd (numbered b count ws)) = hd ws" if "ws \<noteq> []"
    using hd_map [of "numbered b count ws" fst] numbered_simps(2) [of b count ws] e that by simp
  show "fst (last (numbered b count ws)) = last ws" if "ws \<noteq> []"
    using last_map [of "numbered b count ws" fst] numbered_simps(2) [of b count ws] e that by simp
qed

lemma take_items_cut:
  "take_items b ws (items, num_have, count) =
     (let new = cut b num_have (filter (shown b) ws) in
      (items @ numbered b count new, num_have + int (length new), moved b count (length new)))"
proof (induction ws arbitrary: items num_have count)
  case (Cons w ws)
  show ?case
  proof (cases "case limit b of None \<Rightarrow> False | Some n \<Rightarrow> n \<le> num_have")
    case True
    then have "cut b num_have xs = []" for xs by (cases "limit b") (simp_all add: cut_def)
    then show ?thesis using True by (simp add: moved_def Let_def)
  next
    case False
    have "cut b num_have (w # xs) = w # cut b (num_have + 1) xs" for xs
    proof (cases "limit b")
      case (Some n)
      then have "nat (n - num_have) = Suc (nat (n - (num_have + 1)))" using False by simp
      then show ?thesis using Some by (simp add: cut_def)
    qed (simp add: cut_def)
    then show ?thesis using False by (simp add: Cons.IH Let_def moved_def)
  qed
qed (simp add: cut_def Let_def moved_def split: option.splits)

lemma cut_append:
  "cut b num_have (xs @ ys) = cut b num_have xs @ cut b (num_have + int (length (cut b num_have xs))) ys"
proof (cases "limit b")
  case (Some n)
  have "nat (n - num_have) - length xs = nat (n - (num_have + int (min (length xs) (nat (n - num_have)))))" by linarith
  then show ?thesis using Some by (simp add: cut_def)
qed (simp add: cut_def)

subsection \<open>Sources of items\<close>

text \<open>
  What \<open>get_items\<close> relies on: \<open>rest\<close> is what is still to come, and a call of \<open>fetch_more\<close> answers with the next
  slice of it.
\<close>

locale page_source =
  fixes fetch :: "('i, 's) fetcher" and rest :: "'i option \<Rightarrow> 's \<Rightarrow> 'i list"
  assumes fetch_all: "\<exists>s'. fetch None None num_have s = Inr (True, rest None s, s')"
    and fetch_full: "n \<le> num_have \<Longrightarrow> \<exists>s'. fetch (Some n) x num_have s = Inr (True, [], s')"
    and fetch_slice: "num_have < n \<Longrightarrow> k = slice_size n (n - num_have) \<Longrightarrow>
      \<exists>s'. fetch (Some n) x num_have s = Inr (False, take k (rest x s), s') \<and>
        (rest x s \<noteq> [] \<longrightarrow> rest (Some (last (take k (rest x s)))) s' = drop k (rest x s))"
begin

lemma slice_size_ge: "slice_size n need \<ge> nat (max (n div 2) 1)" "0 < need \<Longrightarrow> int (slice_size n need) \<ge> need"
  by (auto simp: slice_size_def)

lemma fetch_loop_complete:
  assumes "limit b = Some n" "2 \<le> left" "length (rest x s) \<le> (left - 2) * nat (max (n div 2) 1)"
  shows "fetch_loop b fetch left x s (items, num_have, count) =
    (let new = cut b num_have (filter (shown b) (map (b_wrap b) (rest x s))) in
     Inr (items @ numbered b count new, num_have + int (length new), moved b count (length new), False))"
  using assms(2,3)
proof (induction left arbitrary: x s items num_have count)
  case (Suc left)
  let ?k0 = "nat (max (n div 2) 1)"
  have left: "left \<noteq> 0" using Suc.prems(1) by simp
  show ?case
  proof (cases "n \<le> num_have")
    case True
    then have "cut b num_have ws = []" for ws by (simp add: cut_def assms(1))
    moreover obtain s' where "fetch (Some n) x num_have s = Inr (True, [], s')" using fetch_full [OF True] by blast
    ultimately show ?thesis using left by (simp add: assms(1) moved_def)
  next
    case False
    define k where "k = slice_size n (n - num_have)"
    obtain s' where s': "fetch (Some n) x num_have s = Inr (False, take k (rest x s), s')"
        "rest x s \<noteq> [] \<longrightarrow> rest (Some (last (take k (rest x s)))) s' = drop k (rest x s)"
      using fetch_slice [OF _ k_def] False by force
    have k: "?k0 \<le> k" "n - num_have \<le> int k" using slice_size_ge(1) [of n "n - num_have"] slice_size_ge(2) [of "n - num_have" n] False by (simp_all add: k_def)
    have k1: "0 < k" using k(2) False by simp
    show ?thesis
    proof (cases "rest x s = []")
      case True
      then show ?thesis using s'(1) left by (simp add: assms(1) cut_def moved_def)
    next
      case ne: False
      let ?f = "take k (rest x s)"
      let ?new = "cut b num_have (filter (shown b) (map (b_wrap b) ?f))"
      have fne: "?f \<noteq> []" using ne k1 by simp
      show ?thesis
      proof (cases "int (length ?f) < n - num_have")
        case True
        then have "?f = rest x s" using k(2) by (simp add: min_def split: if_splits)
        then show ?thesis using s'(1) True left ne by (simp add: assms(1) take_items_cut Let_def)
      next
        case long: False
        have nz: "0 < length (rest x s)" using ne by simp
        have pr: "length (rest x s) \<le> (left - 1) * ?k0" using Suc.prems(2) by simp
        have l2: "2 \<le> left"
        proof (rule ccontr)
          assume "\<not> 2 \<le> left"
          then have "left - 1 = 0" by simp
          then show False using pr nz by simp
        qed
        have "(left - 1) * ?k0 = (left - 2) * ?k0 + ?k0"
          using l2 by (metis Suc_1 Suc_diff_le add.commute diff_Suc_Suc mult_Suc numeral_2_eq_2 One_nat_def)
        then have "length (drop k (rest x s)) \<le> (left - 2) * ?k0" using pr k(1) unfolding length_drop by linarith
        then have "fetch_loop b fetch left (Some (last ?f)) s' (items', h, c) =
          (let new = cut b h (filter (shown b) (map (b_wrap b) (drop k (rest x s)))) in
           Inr (items' @ numbered b c new, h + int (length new), moved b c (length new), False))" for items' h c
          using Suc.IH [OF l2, of "Some (last ?f)" s'] s'(2) ne by simp
        moreover have "filter (shown b) (map (b_wrap b) (rest x s)) =
            filter (shown b) (map (b_wrap b) ?f) @ filter (shown b) (map (b_wrap b) (drop k (rest x s)))"
          by (metis append_take_drop_id filter_append map_append)
        ultimately show ?thesis
          using s'(1) long left fne
          by (simp add: assms(1) take_items_cut Let_def cut_append numbered_simps(1) moved_add)
      qed
    qed
  qed
qed simp

text \<open>The page is the one that the whole rest gives, unless too many items are hidden.\<close>

lemma get_items_page:
  assumes "case limit b of None \<Rightarrow> True | Some n \<Rightarrow> 0 < n \<and> length (rest None s) \<le> 18 * nat (max (n div 2) 1)"
  shows "get_items b fetch s = Inr (page_of b (map (b_wrap b) (rest None s)))"
proof -
  let ?new = "cut b 0 (filter (shown b) (map (b_wrap b) (rest None s)))"
  have "fetch_loop b fetch MAX_LOOPS None s ([], 0, b_start_count b) =
    Inr (numbered b (b_start_count b) ?new, int (length ?new), moved b (b_start_count b) (length ?new), False)"
  proof (cases "limit b")
    case None
    obtain s' where "fetch None None 0 s = Inr (True, rest None s, s')" using fetch_all by blast
    then show ?thesis using None
      by (cases "rest None s = []") (simp_all add: MAX_LOOPS_def eval_nat_numeral take_items_cut Let_def cut_def moved_def)
  next
    case (Some n)
    then show ?thesis
      using fetch_loop_complete [OF Some, of MAX_LOOPS None s "[]" 0 "b_start_count b"] assms
      by (simp add: MAX_LOOPS_def Let_def)
  qed
  then show ?thesis
    using numbered_hd_last [where b = b and count = "b_start_count b" and ws = ?new]
    by (cases "limit b") (simp_all add: get_items_def page_of_def Let_def not_less)
qed

text \<open>When every round fetches hidden items only, the loop gives up.\<close>

lemma fetch_loop_hidden:
  assumes "limit b = Some n" "0 < n" "0 < left"
    and "left * slice_size n n \<le> length (rest x s)" "\<forall>i \<in> set (take (left * slice_size n n) (rest x s)). \<not> shown b (b_wrap b i)"
  shows "fetch_loop b fetch left x s ([], 0, count) = Inr ([], 0, count, True)"
  using assms(3-5)
proof (induction left arbitrary: x s)
  case (Suc left)
  define k where "k = slice_size n n"
  have k: "n \<le> int k" using slice_size_ge(2) [OF assms(2), of n] by (simp add: k_def)
  obtain s' where s': "fetch (Some n) x 0 s = Inr (False, take k (rest x s), s')"
      "rest x s \<noteq> [] \<longrightarrow> rest (Some (last (take k (rest x s)))) s' = drop k (rest x s)"
    using fetch_slice [of 0 n k x s] assms(2) by (auto simp: k_def)
  have len: "k + left * k \<le> length (rest x s)" using Suc.prems(2) by (simp add: k_def)
  have hid: "\<forall>i \<in> set (take (k + left * k) (rest x s)). \<not> shown b (b_wrap b i)" using Suc.prems(3) by (simp add: k_def)
  have "filter (shown b) (map (b_wrap b) (take k (rest x s))) = []"
    using hid set_take_subset_set_take [of k "k + left * k" "rest x s"] by (auto simp: filter_empty_conv)
  then have t: "take_items b (map (b_wrap b) (take k (rest x s))) ([], 0, count) = ([], 0, count)"
    by (simp add: take_items_cut cut_def moved_def split: option.splits)
  have ne: "take k (rest x s) \<noteq> []" "\<not> int (length (take k (rest x s))) < n" using k len assms(2) by auto
  show ?case
  proof (cases "left = 0")
    case True
    then show ?thesis using s'(1) t ne by (simp add: assms(1))
  next
    case False
    have "take (left * k) (drop k (rest x s)) = drop k (take (k + left * k) (rest x s))" by (simp add: take_drop add.commute)
    then have "\<forall>i \<in> set (take (left * k) (drop k (rest x s))). \<not> shown b (b_wrap b i)"
      using hid by (auto dest: in_set_dropD)
    then have "fetch_loop b fetch left (Some (last (take k (rest x s)))) s' ([], 0, count) = Inr ([], 0, count, True)"
      using Suc.IH [of "Some (last (take k (rest x s)))" s'] False s'(2) ne len by (simp add: k_def)
    then show ?thesis using s'(1) t ne False by (simp add: assms(1))
  qed
qed simp

end

text \<open>Names are looked up: everything that can be loaded is a source of items.\<close>

lemma id_page_source:
  assumes "\<And>names. thing_lookup names = Inr (map thing names)"
  shows "page_source (id_fetch_more thing_lookup) (\<lambda>_ names. map thing names)"
  by unfold_locales (auto simp: id_fetch_more_def assms Let_def take_map drop_map)

interpretation simple: page_source "id_fetch_more simple_lookup" "\<lambda>_ names. names"
  using id_page_source [of simple_lookup "\<lambda>x. x"] by (simp add: simple_lookup_def)

text \<open>The database answers with the items of the listing after a given one.\<close>

definition runs_listing :: "('i option \<Rightarrow> nat option \<Rightarrow> 'i list) \<Rightarrow> 'i list \<Rightarrow> bool" where
  "runs_listing run listing \<longleftrightarrow> distinct listing \<and>
     (\<forall>after. run after None = get_after listing after False \<and> (\<forall>k. run after (Some k) = take k (get_after listing after False)))"

lemma get_after_suffix: "\<exists>pre. listing = pre @ get_after listing after False"
proof (cases after)
  case (Some a)
  have "listing = (takeWhile (\<lambda>x. x \<noteq> a) listing @ take 1 (dropWhile (\<lambda>x. x \<noteq> a) listing)) @ drop 1 (dropWhile (\<lambda>x. x \<noteq> a) listing)"
    by simp
  then show ?thesis unfolding get_after_def Let_def using Some by (metis option.simps(5))
qed (simp add: get_after_def)

lemma get_after_mid: "distinct (us @ y # vs) \<Longrightarrow> get_after (us @ y # vs) (Some y) False = vs"
  by (induction us) (auto simp: get_after_def)

lemma get_after_slice:
  assumes "distinct listing" "get_after listing a False \<noteq> []" "0 < k"
  shows "get_after listing (Some (last (take k (get_after listing a False)))) False = drop k (get_after listing a False)"
proof -
  let ?r = "get_after listing a False"
  obtain pre where pre: "listing = pre @ ?r" using get_after_suffix by blast
  have ne: "take k ?r \<noteq> []" using assms(2,3) by simp
  have "listing = (pre @ butlast (take k ?r)) @ last (take k ?r) # drop k ?r"
    using pre append_butlast_last_id [OF ne] append_take_drop_id [of k ?r] by (metis append.assoc append_Cons append_Nil)
  then show ?thesis using get_after_mid [of "pre @ butlast (take k ?r)" "last (take k ?r)" "drop k ?r"] assms(1) by metis
qed

lemma query_page_source:
  assumes "runs_listing run listing"
  shows "page_source (query_fetch_more run)
    (\<lambda>x s. get_after listing (case x of None \<Rightarrow> s | Some y \<Rightarrow> Some y) False)"
proof unfold_locales
  fix num_have n x s k assume "num_have < (n :: int)" "k = slice_size n (n - num_have)"
  moreover have "0 < slice_size n (n - num_have)" by (simp add: slice_size_def)
  ultimately show "\<exists>s'. query_fetch_more run (Some n) x num_have s =
         Inr (False, take k (get_after listing (case x of None \<Rightarrow> s | Some y \<Rightarrow> Some y) False), s') \<and>
       (get_after listing (case x of None \<Rightarrow> s | Some y \<Rightarrow> Some y) False \<noteq> [] \<longrightarrow>
        get_after listing (case Some (last (take k (get_after listing (case x of None \<Rightarrow> s | Some y \<Rightarrow> Some y) False)))
          of None \<Rightarrow> s' | Some y \<Rightarrow> Some y) False
        = drop k (get_after listing (case x of None \<Rightarrow> s | Some y \<Rightarrow> Some y) False))"
    using assms by (simp add: query_fetch_more_def runs_listing_def get_after_slice Let_def)
qed (use assms in \<open>simp_all add: query_fetch_more_def runs_listing_def\<close>)

subsection \<open>Properties\<close>

text \<open>A limit that is positive and a listing short enough for 20 rounds.\<close>

definition page_fits :: "('i, 'w, 'b) builder_scheme \<Rightarrow> 'n list \<Rightarrow> bool" where
  "page_fits b names \<longleftrightarrow> (case limit b of None \<Rightarrow> True | Some n \<Rightarrow> 0 < n \<and> length names \<le> 18 * nat (max (n div 2) 1))"

lemma id_builder_page:
  assumes "\<And>names. thing_lookup names = Inr (map thing names)" "page_fits b (get_after query after (b_reverse b))"
  shows "id_builder_items b thing_lookup query after =
    Inr (page_of b (map (b_wrap b) (map thing (get_after query after (b_reverse b)))))"
  using page_source.get_items_page [OF id_page_source [of thing_lookup thing], where b = b and s = "get_after query after (b_reverse b)"] assms
  by (cases "limit b") (simp_all add: id_builder_items_def page_fits_def)

lemma query_builder_page:
  assumes "runs_listing (run (b_reverse b)) listing" "page_fits b (get_after listing after False)"
  shows "query_builder_items b run after = Inr (page_of b (map (b_wrap b) (get_after listing after False)))"
  using page_source.get_items_page [OF query_page_source [OF assms(1)], where b = b and s = after] assms(2)
  by (cases "limit b") (simp_all add: query_builder_items_def page_fits_def)

text \<open>
  It does not matter where a listing comes from: a page built from a database query that is run
  again for every slice is the page built from the precomputed list of names of the same listing.
\<close>

lemma builders_agree:
  assumes "\<And>names. thing_lookup names = Inr (map thing names)" "inj thing"
    and "runs_listing (run (b_reverse b)) (map thing (if b_reverse b then rev names else names))"
    and "page_fits b names"
  shows "query_builder_items b run (map_option thing after) = id_builder_items b thing_lookup names after"
proof -
  let ?names = "if b_reverse b then rev names else names"
  have dw: "dropWhile (\<lambda>x. x \<noteq> thing a) (map thing xs) = map thing (dropWhile (\<lambda>x. x \<noteq> a) xs)" for a xs
    using assms(2) by (induction xs) (auto dest: injD)
  have ga: "get_after (map thing ?names) (map_option thing after) False = map thing (get_after names after (b_reverse b))"
    by (cases after) (simp_all add: get_after_def dw drop_map rev_map)
  have "length (get_after names after (b_reverse b)) \<le> length names"
    using get_after_suffix [of ?names after] by (cases after) (auto simp: get_after_def dest!: arg_cong [of _ _ length])
  then have fits: "page_fits b (get_after names after (b_reverse b))"
    "page_fits b (get_after (map thing ?names) (map_option thing after) False)"
    using assms(4) unfolding ga by (auto simp: page_fits_def split: option.splits)
  show ?thesis
    using query_builder_page [of run b "map thing ?names" "map_option thing after", OF assms(3) fits(2)]
      id_builder_page [of thing_lookup thing b names after, OF assms(1) fits(1)]
    by (simp only: ga)
qed

definition sample_builder :: "(int, int) builder" where
  "sample_builder = \<lparr>b_num = Some 1, b_skip = True, b_start_count = 0, b_reverse = False, b_wrap = (\<lambda>i. i), b_wrapped = True,
     b_must_skip = (\<lambda>i. i = 3), b_keep_item = (\<lambda>i. i < 20)\<rparr>"

lemma sample_builder_limit: "limit sample_builder = Some 1" "\<not> b_reverse sample_builder"
  by (simp_all add: sample_builder_def limit_def)

text \<open>Following the links to the next page, as a reader does; the number of the last item is passed along.\<close>

fun walk_pages ::
    "nat \<Rightarrow> ('i, 'w) builder \<Rightarrow> ('n list \<Rightarrow> 'i list result) \<Rightarrow> ('w \<Rightarrow> 'n) \<Rightarrow> 'n list \<Rightarrow> 'n option \<Rightarrow> ('w \<times> int option) list" where
  "walk_pages 0 b thing_lookup name_of query after = []"
| "walk_pages (Suc n) b thing_lookup name_of query after =
     (case id_builder_items b thing_lookup query after of
        Inl _ \<Rightarrow> []
      | Inr pg \<Rightarrow> pg_items pg @
          (case pg_last pg of
             None \<Rightarrow> []
           | Some w \<Rightarrow> walk_pages n (b\<lparr>b_start_count := pg_after_count pg\<rparr>) thing_lookup name_of query (Some (name_of w))))"

lemma take_filter_split:
  "0 < n \<Longrightarrow> n \<le> length (filter P xs) \<Longrightarrow>
   \<exists>us y vs. xs = us @ y # vs \<and> take n (filter P xs) = filter P us @ [y] \<and> drop n (filter P xs) = filter P vs"
proof (induction xs arbitrary: n)
  case (Cons x xs)
  show ?case
  proof (cases "P x \<and> n = 1")
    case True
    then show ?thesis by (intro exI [of _ "[]"] exI [of _ x] exI [of _ xs]) simp
  next
    case False
    define m where "m = (if P x then n - 1 else n)"
    have m: "0 < m" "m \<le> length (filter P xs)" using Cons.prems False by (auto simp: m_def)
    obtain us y vs where r: "xs = us @ y # vs" "take m (filter P xs) = filter P us @ [y]" "drop m (filter P xs) = filter P vs"
      using Cons.IH [OF m] by blast
    have "take n (filter P (x # xs)) = filter P (x # us) @ [y]" "drop n (filter P (x # xs)) = filter P vs"
      using r(2,3) False Cons.prems(1) by (cases n; auto simp: m_def)+
    then show ?thesis using r(1) by (intro exI [of _ "x # us"] exI [of _ y] exI [of _ vs]) simp
  qed
qed simp

lemma builder_update [simp]:
  "limit (b\<lparr>b_start_count := c\<rparr>) = limit b" "shown (b\<lparr>b_start_count := c\<rparr>) = shown b"
  "page_fits (b\<lparr>b_start_count := c\<rparr>) = page_fits b" "cut (b\<lparr>b_start_count := c\<rparr>) = cut b"
  by (auto simp: limit_def shown_def page_fits_def cut_def fun_eq_iff)

lemma numbered_update [simp]: "numbered (b\<lparr>b_start_count := c\<rparr>) count ws = numbered b count ws"
  by (induction ws arbitrary: count) (simp_all add: Let_def)

lemma page_fits_suffix: "page_fits b names \<Longrightarrow> length xs \<le> length names \<Longrightarrow> page_fits b xs"
  by (auto simp: page_fits_def split: option.splits)

lemma walk_pages_all:
  assumes lookup: "\<And>names. thing_lookup names = Inr (map thing names)" and dist: "distinct query"
    and name: "\<And>n. name_of (b_wrap b (thing n)) = n"
    and lim: "limit b = Some n" "0 < n" and fwd: "\<not> b_reverse b" and fits: "page_fits b query"
  shows "length (get_after query after False) < fuel \<Longrightarrow>
    walk_pages fuel (b\<lparr>b_start_count := c\<rparr>) thing_lookup name_of query after =
      numbered b c (filter (shown b) (map (\<lambda>n. b_wrap b (thing n)) (get_after query after False)))"
proof (induction fuel arbitrary: c after)
  case (Suc fuel)
  let ?b = "b\<lparr>b_start_count := c\<rparr>" and ?r = "get_after query after False" and ?f = "\<lambda>n. b_wrap b (thing n)"
  let ?P = "\<lambda>n. shown b (?f n)"
  obtain pre where pre: "query = pre @ ?r" using get_after_suffix by blast
  have "length ?r \<le> length query" using arg_cong [OF pre, of length] by simp
  then have "page_fits b ?r" by (rule page_fits_suffix [OF fits])
  then have pg: "id_builder_items ?b thing_lookup query after = Inr (page_of ?b (map ?f ?r))"
    using id_builder_page [of thing_lookup thing ?b query after] lookup fwd by (simp add: comp_def)
  have vis: "filter (shown b) (map ?f ?r) = map ?f (filter ?P ?r)" by (simp add: filter_map comp_def)
  show ?case
  proof (cases "nat n \<le> length (filter ?P ?r)")
    case False
    then have "cut b 0 (map ?f (filter ?P ?r)) = map ?f (filter ?P ?r)" "\<not> n \<le> int (length (filter ?P ?r))"
      by (auto simp: cut_def lim)
    then show ?thesis using pg fwd by (simp add: page_of_def Let_def vis lim)
  next
    case True
    obtain us y vs where r: "?r = us @ y # vs" "take (nat n) (filter ?P ?r) = filter ?P us @ [y]"
        "drop (nat n) (filter ?P ?r) = filter ?P vs"
      using take_filter_split [of "nat n" ?P ?r] True lim(2) by auto
    let ?new = "map ?f (filter ?P us @ [y])"
    have cut: "cut b 0 (map ?f (filter ?P ?r)) = ?new" using r(2) by (simp add: cut_def lim take_map)
    have len: "int (length ?new) = n" using arg_cong [OF r(2), of length] True lim(2) by simp
    have split: "map ?f (filter ?P ?r) = ?new @ map ?f (filter ?P vs)"
      using append_take_drop_id [of "nat n" "filter ?P ?r"] r(2,3) by (metis map_append)
    have "query = (pre @ us) @ y # vs" using pre r(1) by simp
    then have ga: "get_after query (Some y) False = vs" using get_after_mid [of "pre @ us" y vs] dist by simp
    have "walk_pages fuel (b\<lparr>b_start_count := moved b c (length ?new)\<rparr>) thing_lookup name_of query (Some y) =
        numbered b (moved b c (length ?new)) (filter (shown b) (map ?f vs))"
      using Suc.IH [of "Some y" "moved b c (length ?new)"] ga Suc.prems r(1) by simp
    moreover have "page_of ?b (map ?f ?r) = \<lparr>pg_items = numbered b c ?new, pg_first = (if 0 < c then Some (hd ?new) else None),
        pg_last = Some (?f y), pg_before_count = c + 1, pg_after_count = moved b c (length ?new)\<rparr>"
      using fwd len by (simp add: page_of_def Let_def vis lim cut moved_def)
    ultimately have "walk_pages (Suc fuel) ?b thing_lookup name_of query after =
        numbered b c ?new @ numbered b (moved b c (length ?new)) (map ?f (filter ?P vs))"
      using pg name by (simp add: filter_map comp_def del: map_append numbered.simps)
    also have "\<dots> = numbered b c (filter (shown b) (map ?f ?r))" unfolding vis split by (rule numbered_simps(1) [symmetric])
    finally show ?thesis .
  qed
qed simp



text \<open>
  A listing can end too early. When the first 20 slices hold no item that the user may see,
  \<open>get_items\<close> gives up with an empty page; as there is no last item, there is no link to a next page
  either, although the flag for early stops is there to keep it and visible items may follow.
\<close>

lemma hidden_items_end_listing:
  assumes "\<And>names. thing_lookup names = Inr (map thing names)" "limit b = Some n" "0 < n" "\<not> b_reverse b"
    and "20 * slice_size n n \<le> length names" "\<forall>i \<in> set (take (20 * slice_size n n) names). \<not> shown b (b_wrap b (thing i))"
  shows "\<exists>pg. id_builder_items b thing_lookup names None = Inr pg \<and> pg_items pg = [] \<and> pg_first pg = None \<and> pg_last pg = None"
proof -
  have "fetch_loop b (id_fetch_more thing_lookup) MAX_LOOPS None names ([], 0, b_start_count b) = Inr ([], 0, b_start_count b, True)"
    using page_source.fetch_loop_hidden [OF id_page_source [of thing_lookup thing], where b = b and left = MAX_LOOPS and x = None and s = names
        and count = "b_start_count b" and n = n] assms
    by (simp add: MAX_LOOPS_def take_map)
  then show ?thesis using assms(4) by (simp add: id_builder_items_def get_items_def get_after_def Let_def)
qed

end
