(* ===== verification/WikiNames.thy ===== *)
theory WikiNames
  imports Prelude
begin

section \<open>Names of wiki pages\<close>

text \<open>
  Models what \<open>r2/models/wiki.py\<close> and \<open>r2/lib/validator/wiki.py\<close> do with the names of wiki pages: special
  and restricted names, normalisation (with \<open>os.path.normpath\<close> of the standard library), the validator of
  names and the tree of pages that the list of pages shows. Names are ASCII strings.
\<close>

subsection \<open>Special names\<close>

definition impossible_namespaces :: "string list" where
  "impossible_namespaces =
     [''edit/'', ''revisions/'', ''settings/'', ''discussions/'', ''revisions/'', ''pages/'', ''create/'']"

definition restricted_namespaces :: "string list" where
  "restricted_namespaces = [''reddit/'', ''config/'', ''special/'']"

definition special_pages :: "string set" where
  "special_pages =
     {''config/automoderator'', ''config/description'', ''config/sidebar'', ''config/stylesheet'', ''config/submit_text''}"

definition special_page_view_permlevels :: "(string, int) dict" where
  "special_page_view_permlevels = [(''config/automoderator'', 2)]"

definition automatically_created_pages :: "string set" where
  "automatically_created_pages =
     {''config/description'', ''config/sidebar'', ''config/stylesheet'', ''config/submit_text''}"

definition in_namespaces :: "string list \<Rightarrow> string \<Rightarrow> bool" where
  "in_namespaces namespaces page \<longleftrightarrow> page @ ''/'' \<in> set namespaces \<or> (\<exists>n \<in> set namespaces. startswith page n)"

definition is_impossible :: "string \<Rightarrow> bool" where
  "is_impossible page \<longleftrightarrow> in_namespaces impossible_namespaces page"

definition is_restricted :: "string \<Rightarrow> bool" where
  "is_restricted page \<longleftrightarrow> in_namespaces restricted_namespaces page"

definition is_special_page :: "string \<Rightarrow> bool" where
  "is_special_page page \<longleftrightarrow> page \<in> special_pages"

definition get_special_view_permlevel :: "string \<Rightarrow> int" where
  "get_special_view_permlevel page = (case map_of special_page_view_permlevels page of None \<Rightarrow> 0 | Some l \<Rightarrow> l)"

definition is_automatically_created :: "string \<Rightarrow> bool" where
  "is_automatically_created page \<longleftrightarrow> page \<in> automatically_created_pages"

subsection \<open>Normalisation\<close>

text \<open>
  \<open>posixpath.normpath\<close>: empty components and \<open>.\<close> disappear, \<open>..\<close> removes the component before it; up to
  two leading slashes are kept, three or more become one.
\<close>

definition initial_slashes :: "string \<Rightarrow> nat" where
  "initial_slashes path =
     (if \<not> startswith path ''/'' then 0 else if startswith path ''//'' \<and> \<not> startswith path ''///'' then 2 else 1)"

definition norm_comp :: "bool \<Rightarrow> string \<Rightarrow> string list \<Rightarrow> string list" where
  "norm_comp absolute part new_comps =
     (if part = '''' \<or> part = ''.'' then new_comps
      else if part \<noteq> ''..'' \<or> (\<not> absolute \<and> new_comps = []) \<or> (new_comps \<noteq> [] \<and> last new_comps = ''..'')
      then new_comps @ [part]
      else if new_comps \<noteq> [] then butlast new_comps
      else new_comps)"

definition normpath :: "string \<Rightarrow> string" where
  "normpath path =
     (if path = '''' then ''.''
      else
        let slashes = initial_slashes path;
            comps = fold (norm_comp (slashes \<noteq> 0)) (split_on CHR ''/'' path) [];
            res = replicate slashes CHR ''/'' @ join_with ''/'' comps in
        if res = '''' then ''.'' else res)"

definition normalize_page :: "string \<Rightarrow> string" where
  "normalize_page page =
     (let page1 = py_lower (map (\<lambda>c. if c = CHR '' '' then CHR ''_'' else c) page);
          page2 = (if page1 = '''' then page1 else normpath page1) in
      dropWhile (\<lambda>c. c = CHR ''/'') page2)"

text \<open>The characters of \<open>page_match_regex\<close>.\<close>

definition name_char :: "char \<Rightarrow> bool" where
  "name_char c \<longleftrightarrow> (let n = of_char c :: nat in
     (48 \<le> n \<and> n \<le> 57) \<or> (65 \<le> n \<and> n \<le> 90) \<or> (97 \<le> n \<and> n \<le> 122)) \<or> c = CHR ''_'' \<or> c = CHR ''-'' \<or> c = CHR ''/''"

definition page_match_regex :: "string \<Rightarrow> bool" where
  "page_match_regex page \<longleftrightarrow> page \<noteq> '''' \<and> list_all name_char page"

text \<open>
  The validator of names: the name or \<open>None\<close>, and the errors with their HTTP status. A name that is not
  ASCII cannot be encoded; a missing or empty name is the index page.
\<close>

type_synonym verror = "string \<times> nat option"

definition non_ascii :: "string \<Rightarrow> bool" where
  "non_ascii s \<longleftrightarrow> list_ex (\<lambda>c. of_char c \<ge> (128::nat)) s"

definition VWikiPageName :: "bool \<Rightarrow> string option \<Rightarrow> string option \<times> verror list" where
  "VWikiPageName error_on_name_normalized original_page =
     (let page = (case original_page of None \<Rightarrow> '''' | Some s \<Rightarrow> s) in
      if non_ascii page then (None, [(''INVALID_PAGE_NAME'', Some 400)])
      else
        let page1 = normalize_page page in
        if page1 \<noteq> '''' \<and> \<not> page_match_regex page1 then (None, [(''INVALID_PAGE_NAME'', Some 400)])
        else
          let page2 = (if page1 = '''' then ''index'' else page1) in
          if is_impossible page2 then (None, [(''INVALID_PAGE_NAME'', Some 400)])
          else (Some page2,
            if error_on_name_normalized \<and> Some page2 \<noteq> original_page then [(''PAGE_NAME_NORMALIZED'', None)] else []))"

subsection \<open>Names are normalised once\<close>

definition plain_comps :: "string list \<Rightarrow> bool" where
  "plain_comps comps \<longleftrightarrow> (\<forall>c \<in> set comps. c \<noteq> '''' \<and> c \<noteq> ''.'' \<and> CHR ''/'' \<notin> set c)"

lemma norm_comp_plain: "plain_comps acc \<Longrightarrow> CHR ''/'' \<notin> set c \<Longrightarrow> plain_comps (norm_comp b c acc)"
  by (auto simp: norm_comp_def plain_comps_def dest: in_set_butlastD)

lemma fold_norm_comp_plain:
  "\<forall>c \<in> set cs. CHR ''/'' \<notin> set c \<Longrightarrow> plain_comps acc \<Longrightarrow> plain_comps (fold (norm_comp b) cs acc)"
  by (induction cs arbitrary: acc) (simp_all add: norm_comp_plain)

lemma fold_norm_comp_id:
  "plain_comps cs \<Longrightarrow> ''..'' \<notin> set cs \<Longrightarrow> fold (norm_comp b) cs acc = acc @ cs"
  by (induction cs arbitrary: acc) (auto simp: norm_comp_def plain_comps_def)

lemma join_plain_hd:
  assumes "plain_comps comps" "comps \<noteq> []"
  shows "\<exists>c t. join_with ''/'' comps = c # t \<and> c \<noteq> CHR ''/''"
proof -
  obtain x xs where x: "comps = x # xs" using assms(2) by (cases comps) auto
  obtain c t where c: "x = c # t" "c \<noteq> CHR ''/''" using assms(1) x by (cases x) (auto simp: plain_comps_def)
  show ?thesis using x c by (cases xs) auto
qed

lemma set_join: "x \<in> set comps \<Longrightarrow> set x \<subseteq> set (join_with sep comps)"
  by (induction sep comps rule: join_with.induct) auto

lemma normpath_strip:
  assumes "path \<noteq> ''''"
  obtains comps where "plain_comps comps"
    "dropWhile (\<lambda>c. c = CHR ''/'') (normpath path) = join_with ''/'' comps \<or> normpath path = ''.''"
    "set (join_with ''/'' comps) \<subseteq> set (normpath path)"
proof -
  let ?b = "initial_slashes path \<noteq> 0"
  define comps where "comps = fold (norm_comp ?b) (split_on CHR ''/'' path) []"
  have plain: "plain_comps comps"
    unfolding comps_def using split_on_parts by (intro fold_norm_comp_plain) (auto simp: plain_comps_def)
  let ?res = "replicate (initial_slashes path) CHR ''/'' @ join_with ''/'' comps"
  have n: "normpath path = (if ?res = '''' then ''.'' else ?res)"
    using assms unfolding normpath_def comps_def Let_def by (simp only: if_False)
  have "dropWhile (\<lambda>c. c = CHR ''/'') (replicate k CHR ''/'' @ t) = dropWhile (\<lambda>c. c = CHR ''/'') t" for k t
    by (induction k) auto
  moreover have "dropWhile (\<lambda>c. c = CHR ''/'') (join_with ''/'' comps) = join_with ''/'' comps"
    using join_plain_hd [OF plain] by (cases "comps = []") auto
  ultimately have "dropWhile (\<lambda>c. c = CHR ''/'') (normpath path) = join_with ''/'' comps \<or> normpath path = ''.''"
    using n by (auto split: if_splits)
  moreover have "set (join_with ''/'' comps) \<subseteq> set (normpath path)" using n by auto
  ultimately show thesis using that plain by blast
qed

lemma normalize_plain:
  assumes "plain_comps comps" "comps \<noteq> []" "''..'' \<notin> set comps" "CHR '' '' \<notin> set (join_with ''/'' comps)"
    and "py_lower (join_with ''/'' comps) = join_with ''/'' comps"
  shows "normalize_page (join_with ''/'' comps) = join_with ''/'' comps"
proof -
  let ?n = "join_with ''/'' comps"
  obtain c t where c: "?n = c # t" "c \<noteq> CHR ''/''" using join_plain_hd [OF assms(1,2)] by blast
  have s: "split_on CHR ''/'' ?n = comps"
    using split_join [OF assms(2)] assms(1) by (simp add: plain_comps_def)
  have i: "initial_slashes ?n = 0" using c by (simp add: initial_slashes_def startswith_def)
  have "normpath ?n = ?n"
    using c i s fold_norm_comp_id [OF assms(1,3)] by (simp add: normpath_def Let_def)
  moreover have "map (\<lambda>c. if c = CHR '' '' then CHR ''_'' else c) ?n = ?n"
    using assms(4) by (auto intro: map_idI)
  ultimately show ?thesis using assms(5) c by (simp add: normalize_page_def Let_def)
qed

lemma name_char_facts: "name_char c \<Longrightarrow> c \<noteq> CHR ''.'' \<and> c \<noteq> CHR '' '' \<and> of_char c < (128::nat)"
  by (auto simp: name_char_def Let_def)

text \<open>Characters of a normalised name come from the lower-case name.\<close>

lemma set_norm_comps:
  "x \<in> set (fold (norm_comp b) cs acc) \<Longrightarrow> x \<in> set acc \<or> x \<in> set cs"
proof (induction cs arbitrary: acc)
  case (Cons c cs)
  from Cons.IH [of "norm_comp b c acc"] Cons.prems show ?case
    by (auto simp: norm_comp_def dest: in_set_butlastD split: if_splits)
qed simp

lemma join_chars: "c \<in> set (join_with ''/'' comps) \<Longrightarrow> c = CHR ''/'' \<or> (\<exists>x \<in> set comps. c \<in> set x)"
  by (induction "''/''" comps rule: join_with.induct) auto

lemma normpath_chars: "c \<in> set (normpath path) \<Longrightarrow> c \<in> set path \<or> c = CHR ''/'' \<or> c = CHR ''.''"
  using split_on_parts
  by (fastforce simp: normpath_def Let_def dest!: join_chars set_norm_comps split: if_splits)

lemma normalize_lower: "py_lower (normalize_page page) = normalize_page page"
proof -
  let ?p = "py_lower (map (\<lambda>c. if c = CHR '' '' then CHR ''_'' else c) page)"
  have "lower_char c = c" if "c \<in> set ?p" for c using that by (auto simp: py_lower_def)
  moreover have "lower_char CHR ''/'' = CHR ''/''" "lower_char CHR ''.'' = CHR ''.''" by code_simp+
  ultimately have "lower_char c = c" if "c \<in> set (normpath ?p) \<or> c \<in> set ?p" for c
    using that normpath_chars [of c ?p] by auto
  moreover have "c \<in> set (normpath ?p) \<or> c \<in> set ?p" if "c \<in> set (normalize_page page)" for c
    using that by (auto simp: normalize_page_def Let_def dest!: set_dropWhileD split: if_splits)
  ultimately have "lower_char c = c" if "c \<in> set (normalize_page page)" for c using that by blast
  then show ?thesis by (auto simp: py_lower_def intro: map_idI)
qed

lemma index_page_plain: "VWikiPageName b (Some ''index'') = (Some ''index'', [])"
proof -
  have "\<not> non_ascii ''index''" "normalize_page ''index'' = ''index''" "page_match_regex ''index''" "\<not> is_impossible ''index''"
    by code_simp+
  then show ?thesis by (simp add: VWikiPageName_def)
qed

text \<open>
  Names of wiki pages have one spelling. A name that the validator lets through is a path of non-empty
  components without dots, in lower case; normalising it again changes nothing, and the validator lets it
  through unchanged, so that the redirect to the normalised name is followed at most once.
\<close>

lemma wiki_names_normalised:
  assumes "VWikiPageName b original = (Some page, errors)"
  shows "normalize_page page = page \<and> VWikiPageName True (Some page) = (Some page, []) \<and>
    page \<noteq> '''' \<and> '''' \<notin> set (split_on CHR ''/'' page) \<and> list_all name_char page \<and> py_lower page = page"
proof (cases "page = ''index''")
  case True
  then show ?thesis using index_page_plain [of True] by (simp only:) code_simp
next
  case False
  define s where "s = normalize_page (case original of None \<Rightarrow> '''' | Some s \<Rightarrow> s)"
  have page: "page = s" "page_match_regex s" "\<not> is_impossible s"
    using assms False by (auto simp: VWikiPageName_def Let_def s_def split: if_splits)
  then have chars: "list_all name_char page" "page \<noteq> ''''" by (simp_all add: page_match_regex_def)
  have low: "py_lower page = page" using page(1) normalize_lower by (simp add: s_def)
  obtain p where p: "page = dropWhile (\<lambda>c. c = CHR ''/'') (normpath p)" "p \<noteq> ''''"
    using page(1) chars(2) by (auto simp: s_def normalize_page_def Let_def split: if_splits)
  obtain comps where comps: "plain_comps comps"
      "dropWhile (\<lambda>c. c = CHR ''/'') (normpath p) = join_with ''/'' comps \<or> normpath p = ''.''"
    using normpath_strip [OF p(2)] by blast
  have dots: "CHR ''.'' \<notin> set page" "CHR '' '' \<notin> set page"
    using chars(1) name_char_facts by (auto simp: list_all_iff)
  then have "normpath p \<noteq> ''.''" using p(1) by auto
  then have join: "page = join_with ''/'' comps" using comps(2) p(1) by simp
  then have ne: "comps \<noteq> []" using chars(2) by auto
  have "''..'' \<notin> set comps" using set_join [of "''..''" comps "''/''"] join dots(1) by auto
  then have norm: "normalize_page page = page" using normalize_plain comps(1) ne low dots(2) join by simp
  have split: "split_on CHR ''/'' page = comps"
    using split_join [OF ne] comps(1) join by (simp add: plain_comps_def)
  have "\<not> non_ascii page" using chars(1) name_char_facts by (fastforce simp: non_ascii_def list_all_iff list_ex_iff)
  then have "VWikiPageName True (Some page) = (Some page, [])"
    using norm page chars(2) by (simp add: VWikiPageName_def Let_def)
  then show ?thesis using norm chars low split comps(1) by (auto simp: plain_comps_def)
qed

end
