(* ===== verification/ColumnQuery.thy ===== *)
theory ColumnQuery
  imports Prelude
begin

section \<open>Views of a column family and queries across a row\<close>

text \<open>
  Models the class \<open>View\<close> and the iteration of \<open>ColumnQuery\<close> in \<open>r2/lib/db/tdb_cassandra.py\<close>. A view maps
  row keys to rows; a row is a dictionary from column names to values. The request for a slice of a row is
  answered by Cassandra and is a parameter of the query: \<open>None\<close> stands for a row that does not exist.
\<close>

type_synonym ('k, 'v) view = "string \<Rightarrow> ('k, 'v) dict"

definition view_set_values :: "string \<Rightarrow> ('k, 'v) dict \<Rightarrow> ('k, 'v) view \<Rightarrow> ('k, 'v) view" where
  "view_set_values row_key col_values v = v(row_key := dict_update (v row_key) col_values)"

definition view_remove :: "string \<Rightarrow> 'k list \<Rightarrow> ('k, 'v) view \<Rightarrow> ('k, 'v) view" where
  "view_remove key columns v = v(key := filter (\<lambda>(k, _). k \<notin> set columns) (v key))"

text \<open>\<open>_byID(row)._values()\<close>: a row without columns does not exist.\<close>

definition view_values :: "string \<Rightarrow> ('k, 'v) view \<Rightarrow> ('k, 'v) dict result" where
  "view_values row_key v = (if v row_key = [] then Inl NotFound else Inr (v row_key))"

subsection \<open>\<open>LastModified\<close>\<close>

text \<open>\<open>touch\<close> and \<open>get\<close> of \<open>r2/models/last_modified.py\<close>.\<close>

definition touch :: "int \<Rightarrow> string \<Rightarrow> string list \<Rightarrow> (string, int) view \<Rightarrow> (string, int) view" where
  "touch now fullname names v = view_set_values fullname (map (\<lambda>n. (n, now)) names) v"

definition last_modified ::
    "int \<Rightarrow> string \<Rightarrow> string \<Rightarrow> bool \<Rightarrow> (string, int) view \<Rightarrow> int option \<times> (string, int) view" where
  "last_modified now fullname name touch_if_not_set v =
     (case view_values fullname v of
        Inl _ \<Rightarrow> if touch_if_not_set then (Some now, touch now fullname [name] v) else (None, v)
      | Inr cols \<Rightarrow> (map_of cols name, v))"

subsection \<open>Iterating over a row\<close>

type_synonym ('k, 'v) slicer = "'k option \<Rightarrow> nat \<Rightarrow> ('k, 'v) dict option"

definition chunk_size :: nat where
  "chunk_size = 100"

text \<open>
  The column the slice starts with is part of the slice and removed. When it is not there, a query in
  reversed order drops the first column instead; \<open>popitem\<close> raises on an empty dictionary.
\<close>

definition drop_start :: "bool \<Rightarrow> 'k option \<Rightarrow> ('k, 'v) dict \<Rightarrow> ('k, 'v) dict result" where
  "drop_start reversed start columns =
     (case start of
        None \<Rightarrow> Inr columns
      | Some s \<Rightarrow>
          if s \<in> fst ` set columns then Inr (AList.delete s columns)
          else if \<not> reversed then Inr columns
          else if columns = [] then Inl (KeyError ''dictionary is empty'') else Inr (tl columns))"

function column_query_loop ::
    "('k, 'v) slicer \<Rightarrow> bool \<Rightarrow> nat \<Rightarrow> nat \<Rightarrow> 'k option \<Rightarrow> ('k, 'v) dict result" where
  "column_query_loop multiget reversed limit retrieved start =
     (if retrieved < limit then
        (let column_count = min chunk_size (limit - retrieved) + (if start = None then 0 else 1) in
         case multiget start column_count of
           None \<Rightarrow> Inr []
         | Some r \<Rightarrow>
             bindr (drop_start reversed start r) (\<lambda>columns.
               if columns = [] then Inr []
               else bindr (column_query_loop multiget reversed limit (retrieved + chunk_size) (Some (fst (last columns))))
                      (\<lambda>rest. Inr (columns @ rest))))
      else Inr [])"
  by pat_completeness auto
termination
  by (relation "measure (\<lambda>(multiget, reversed, limit, retrieved, start). limit - retrieved)") (auto simp: chunk_size_def)

declare column_query_loop.simps [simp del]

definition column_query :: "('k, 'v) slicer \<Rightarrow> bool \<Rightarrow> 'k option \<Rightarrow> nat \<Rightarrow> ('k, 'v) dict result" where
  "column_query multiget reversed after count = column_query_loop multiget reversed count 0 after"

text \<open>
  What Cassandra documents about slices of a row in reversed order: the columns of the row with the largest
  names first, from the given one on, as many as asked for.
\<close>

definition from_column :: "'k::linorder option \<Rightarrow> ('k, 'v) dict \<Rightarrow> ('k, 'v) dict" where
  "from_column start row = filter (\<lambda>(k, _). case start of None \<Rightarrow> True | Some s \<Rightarrow> k \<le> s) row"

definition after_column :: "'k::linorder option \<Rightarrow> ('k, 'v) dict \<Rightarrow> ('k, 'v) dict" where
  "after_column start row = filter (\<lambda>(k, _). case start of None \<Rightarrow> True | Some s \<Rightarrow> k < s) row"

definition descending_row :: "('k::linorder, 'v) dict \<Rightarrow> bool" where
  "descending_row row \<longleftrightarrow> sorted_wrt (\<lambda>x y. fst x > fst y) row"

definition slices_row :: "('k::linorder, 'v) slicer \<Rightarrow> ('k, 'v) dict \<Rightarrow> bool" where
  "slices_row multiget row \<longleftrightarrow> descending_row row \<and>
     (\<forall>start count. multiget start count = (if row = [] then None else Some (take count (from_column start row))))"

definition row_slicer :: "('k::linorder, 'v) dict \<Rightarrow> ('k, 'v) slicer" where
  "row_slicer row start count =
     (if row = [] then None else Some (take count (from_column start (rev (sort_key fst row)))))"

subsection \<open>Lemmas\<close>

lemma descending_row_simps:
  "descending_row []"
  "descending_row (c # row) \<longleftrightarrow> (\<forall>d \<in> set row. fst d < fst c) \<and> descending_row row"
  "descending_row (row @ row') \<longleftrightarrow> descending_row row \<and> descending_row row' \<and> (\<forall>c \<in> set row. \<forall>d \<in> set row'. fst d < fst c)"
  by (auto simp: descending_row_def sorted_wrt_append)

lemma after_column_split:
  assumes "descending_row (row @ row')" "row \<noteq> []"
  shows "after_column (Some (fst (last row))) (row @ row') = row'"
proof -
  have "\<forall>c \<in> set row. \<not> fst c < fst (last row)"
    using assms by (induction row) (auto simp: descending_row_simps not_less split: if_splits dest: less_imp_le)
  moreover have "\<forall>d \<in> set row'. fst d < fst (last row)" using assms by (auto simp: descending_row_simps)
  ultimately show ?thesis by (auto simp: after_column_def filter_empty_conv case_prod_beta filter_id_conv)
qed

lemma from_column_start:
  assumes "descending_row row" "s \<in> fst ` set row"
  shows "\<exists>v. from_column (Some s) row = (s, v) # after_column (Some s) row"
  using assms
proof (induction row)
  case (Cons c row)
  show ?case
  proof (cases "fst c = s")
    case True
    then have "\<forall>d \<in> set row. fst d < s" using Cons.prems(1) by (simp add: descending_row_simps)
    then have "from_column (Some s) row = row" "after_column (Some s) row = row"
      by (auto simp: from_column_def after_column_def filter_id_conv)
    then show ?thesis using True by (cases c) (auto simp: from_column_def after_column_def)
  next
    case False
    then have "s \<in> fst ` set row" using Cons.prems(2) by auto
    moreover from this have "s < fst c" using Cons.prems(1) by (auto simp: descending_row_simps)
    ultimately show ?thesis using Cons by (auto simp: from_column_def after_column_def descending_row_simps)
  qed
qed simp

lemma descending_after: "descending_row row \<Longrightarrow> descending_row (after_column start row)"
  unfolding descending_row_def after_column_def by (rule sorted_wrt_filter)

lemma after_column_start: "s \<notin> fst ` set (after_column (Some s) row)"
  by (auto simp: after_column_def)

lemma delete_fresh: "k \<notin> fst ` set d \<Longrightarrow> AList.delete k d = d"
  by (induction d) auto

text \<open>One chunk: the columns that follow the start.\<close>

lemma column_chunk:
  assumes "slices_row multiget row" "start = None \<or> (\<exists>s. start = Some s \<and> s \<in> fst ` set row)" "row \<noteq> []"
  shows "\<exists>r. multiget start (n + (if start = None then 0 else 1)) = Some r \<and>
    drop_start True start r = Inr (take n (after_column start row))"
proof (cases start)
  case None
  then show ?thesis using assms by (auto simp: slices_row_def drop_start_def from_column_def after_column_def)
next
  case (Some s)
  then obtain v where v: "from_column (Some s) row = (s, v) # after_column (Some s) row"
    using from_column_start [of row s] assms by (auto simp: slices_row_def)
  have fresh: "s \<notin> fst ` set (take n (after_column (Some s) row))"
    using after_column_start [of s row] by (auto dest: in_set_takeD)
  have "multiget start (Suc n) = Some ((s, v) # take n (after_column (Some s) row))"
    using assms(1,3) v Some by (simp add: slices_row_def)
  then show ?thesis using Some delete_fresh [OF fresh] by (simp add: drop_start_def)
qed

lemma column_query_loop_exact:
  assumes "slices_row multiget row" "start = None \<or> (\<exists>s. start = Some s \<and> s \<in> fst ` set row)"
  shows "column_query_loop multiget True limit retrieved start =
    Inr (take (limit - retrieved) (after_column start row))"
  using assms
proof (induction multiget True limit retrieved start rule: column_query_loop.induct)
  case (1 multiget limit retrieved start)
  show ?case
  proof (cases "retrieved < limit \<and> row \<noteq> []")
    case False
    then show ?thesis
      using 1(2) by (auto simp: column_query_loop.simps [of multiget True limit retrieved start] slices_row_def after_column_def Let_def)
  next
    case True
    let ?n = "min chunk_size (limit - retrieved)" and ?rest = "after_column start row"
    obtain r where r: "multiget start (?n + (if start = None then 0 else 1)) = Some r"
      "drop_start True start r = Inr (take ?n ?rest)"
      using column_chunk [OF 1(2,3)] True by blast
    have eq: "column_query_loop multiget True limit retrieved start =
        (if ?rest = [] then Inr []
         else bindr (column_query_loop multiget True limit (retrieved + chunk_size) (Some (fst (last (take ?n ?rest)))))
                (\<lambda>rest. Inr (take ?n ?rest @ rest)))"
      using True r by (subst column_query_loop.simps) (auto simp: Let_def chunk_size_def)
    show ?thesis
    proof (cases "?rest = []")
      case False
      have chunk: "take ?n ?rest \<noteq> []" using False True by (auto simp: chunk_size_def)
      have desc: "descending_row row" using 1(2) by (simp add: slices_row_def)
      let ?s = "fst (last (take ?n ?rest))"
      have in_rest: "last (take ?n ?rest) \<in> set ?rest" using chunk by (meson in_set_takeD last_in_set)
      then have s: "?s \<in> fst ` set row" by (auto simp: after_column_def)
      have "after_column (Some ?s) row = after_column (Some ?s) ?rest"
        using in_rest by (cases start) (auto simp: after_column_def intro!: filter_cong)
      also have "\<dots> = drop ?n ?rest"
        using after_column_split [of "take ?n ?rest" "drop ?n ?rest"] chunk descending_after [OF desc, of start] by simp
      finally have after: "after_column (Some ?s) row = drop ?n ?rest" .
      have "column_query_loop multiget True limit (retrieved + chunk_size) (Some ?s) =
          Inr (take (limit - (retrieved + chunk_size)) (drop ?n ?rest))"
        using 1(1) [OF _ refl r(1) r(2)] 1(2) True chunk s after by auto
      moreover have "take ?n ?rest @ take (limit - (retrieved + chunk_size)) (drop ?n ?rest) = take (limit - retrieved) ?rest"
      proof (cases "chunk_size \<le> limit - retrieved")
        case True
        then have "limit - retrieved = chunk_size + (limit - (retrieved + chunk_size))" by simp
        then show ?thesis using True by (metis min.absorb1 take_add)
      qed (simp add: min_def)
      ultimately show ?thesis using eq False by simp
    qed (simp add: eq)
  qed
qed

text \<open>
  A query in the usual order yields what it is asked for: the columns after the given one with the largest
  names first, as many as asked for or all there are, although Cassandra is asked for chunks of 100.
\<close>

lemma column_query_exact:
  "slices_row multiget row \<Longrightarrow> after = None \<or> (\<exists>s. after = Some s \<and> s \<in> fst ` set row) \<Longrightarrow>
   column_query multiget True after count = Inr (take count (after_column after row))"
  by (simp add: column_query_def column_query_loop_exact)

lemma row_slicer_slices:
  assumes "dict_ok row"
  shows "slices_row (row_slicer row) (rev (sort_key fst row))"
proof -
  have "distinct (map fst (sort_key fst row))" using assms unfolding dict_ok_def
    by (metis distinct_map set_sort distinct_sort)
  then have "sorted_wrt (<) (map fst (sort_key fst row))" by (simp add: strict_sorted_iff)
  then have "descending_row (rev (sort_key fst row))"
    by (simp add: descending_row_def sorted_wrt_rev sorted_wrt_map)
  moreover have "sort_key fst row = [] \<longleftrightarrow> row = []" by (metis length_0_conv length_sort)
  ultimately show ?thesis by (simp add: slices_row_def row_slicer_def)
qed

end
