(* ===== verification/Wiki.thy ===== *)
theory Wiki
  imports WikiNames ColumnQuery
begin

section \<open>Wiki pages and their revisions\<close>

text \<open>
  Models \<open>r2/models/wiki.py\<close>: pages, revisions, editors and images of a wiki, and the views by which
  they are found. The merge of \<open>diff3\<close> and the settings are a parameter, as are the id of a new revision (a
  UUID) and the clock.
\<close>

record wpage =
  wp_sr :: string
  wp_name :: string
  wp_permlevel :: int
  wp_content :: string
  wp_revision :: "string option"
  wp_listed :: bool
  wp_last_edit_by :: "string option"
  wp_last_edit_date :: "int option"

record wrev =
  wr_id :: string
  wr_pageid :: string
  wr_content :: string
  wr_author :: "string option"
  wr_reason :: "string option"
  wr_date :: int
  wr_hidden :: bool
  wr_admin_deleted :: bool

record wstore =
  wk_pages :: "string \<Rightarrow> wpage option"
  wk_revs :: "string \<Rightarrow> wrev option"
  wk_history :: "(string, string) view"
  wk_recent :: "(string, wrev) view"
  wk_listing :: "(string, wpage) view"
  wk_editors :: "(string, string) view"
  wk_images :: "(string, string) view"
  wk_modified :: "(string, int) view"

record wiki_cfg =
  wc_max_page :: int
  wc_max_css :: int
  wc_max_separators :: nat
  wc_max_name :: nat
  wc_merge :: "string \<Rightarrow> string \<Rightarrow> string \<Rightarrow> string option"

datatype werror =
    ContentLengthError int
  | WikiPageExists
  | WikiBadRevision
  | WikiNotFound
  | ConflictException string string string string
  | BadPermlevel
  | Raised py_error
  | Abort nat string

subsection \<open>Identifiers\<close>

definition PAGE_ID_SEP :: char where
  "PAGE_ID_SEP = CHR 0x09"

definition wiki_id :: "string \<Rightarrow> string \<Rightarrow> string" where
  "wiki_id sr page = py_lower (sr @ PAGE_ID_SEP # page)"

definition page_id :: "wpage \<Rightarrow> string" where
  "page_id p = wiki_id (wp_sr p) (wp_name p)"

text \<open>\<open>info\<close> of a revision: the subreddit and the page its page id names.\<close>

definition rev_info :: "wrev \<Rightarrow> string \<times> string" where
  "rev_info wr = (case split_on PAGE_ID_SEP (wr_pageid wr) of
       sr # page # rest \<Rightarrow> (sr, join_with [PAGE_ID_SEP] (page # rest))
     | _ \<Rightarrow> (''broken'', ''broken''))"

subsection \<open>Revisions\<close>

definition rev_get :: "string \<Rightarrow> string \<Rightarrow> wstore \<Rightarrow> werror + wrev" where
  "rev_get revid pageid w = (case wk_revs w revid of
       None \<Rightarrow> Inl WikiNotFound
     | Some wr \<Rightarrow> if wr_pageid wr \<noteq> pageid then Inl WikiBadRevision else Inr wr)"

text \<open>A commit of a revision also writes it to the history of its page and the recent changes of its wiki.\<close>

definition rev_commit :: "wrev \<Rightarrow> wstore \<Rightarrow> wstore" where
  "rev_commit wr w = w\<lparr>wk_revs := (wk_revs w)(wr_id wr \<mapsto> wr),
     wk_history := view_set_values (wr_pageid wr) [(wr_id wr, '''')] (wk_history w),
     wk_recent := view_set_values (fst (rev_info wr)) [(wr_id wr, wr)] (wk_recent w)\<rparr>"

definition rev_create ::
    "string \<Rightarrow> string \<Rightarrow> string option \<Rightarrow> string option \<Rightarrow> string \<Rightarrow> int \<Rightarrow> wstore \<Rightarrow> wrev \<times> wstore" where
  "rev_create pageid content author reason rid now w =
     (let wr = \<lparr>wr_id = rid, wr_pageid = pageid, wr_content = content,
          wr_author = (if author = Some '''' then None else author), wr_reason = (if reason = Some '''' then None else reason),
          wr_date = now, wr_hidden = False, wr_admin_deleted = False\<rparr>
      in (wr, rev_commit wr w))"

definition toggle_hide :: "wrev \<Rightarrow> wstore \<Rightarrow> bool \<times> wstore" where
  "toggle_hide wr w = (let hidden = \<not> wr_hidden wr in (hidden, rev_commit (wr\<lparr>wr_hidden := hidden\<rparr>) w))"

subsection \<open>Pages\<close>

definition page_get :: "string \<Rightarrow> string \<Rightarrow> wstore \<Rightarrow> werror + wpage" where
  "page_get sr name w = (case wk_pages w (wiki_id sr name) of None \<Rightarrow> Inl WikiNotFound | Some p \<Rightarrow> Inr p)"

text \<open>A commit of a page also writes the copy in the list of pages of its subreddit.\<close>

definition page_commit :: "wpage \<Rightarrow> wstore \<Rightarrow> wstore" where
  "page_commit p w = w\<lparr>wk_pages := (wk_pages w)(page_id p \<mapsto> p),
     wk_listing := view_set_values (wp_sr p) [(page_id p, p)] (wk_listing w)\<rparr>"

definition page_create :: "string \<Rightarrow> string \<Rightarrow> wstore \<Rightarrow> werror + (wpage \<times> wstore)" where
  "page_create sr name w =
     (if name = '''' then Inl (Raised (ValueError ''''))
      else
        let name' = py_lower name in
        if wk_pages w (wiki_id sr name') \<noteq> None then Inl WikiPageExists
        else
          let p = \<lparr>wp_sr = sr, wp_name = name', wp_permlevel = 0, wp_content = '''', wp_revision = None, wp_listed = True,
                wp_last_edit_by = None, wp_last_edit_date = None\<rparr>
          in Inr (p, page_commit p w))"

definition restricted :: "wpage \<Rightarrow> bool" where
  "restricted p \<longleftrightarrow> is_restricted (wp_name p)"

definition special :: "wpage \<Rightarrow> bool" where
  "special p \<longleftrightarrow> is_special_page (wp_name p)"

definition add_editor :: "wpage \<Rightarrow> string \<Rightarrow> wstore \<Rightarrow> wstore" where
  "add_editor p user w = w\<lparr>wk_editors := view_set_values (page_id p) [(user, '''')] (wk_editors w)\<rparr>"

definition remove_editor :: "wpage \<Rightarrow> string \<Rightarrow> wstore \<Rightarrow> wstore" where
  "remove_editor p user w = w\<lparr>wk_editors := view_remove (page_id p) [user] (wk_editors w)\<rparr>"

definition get_editors :: "wpage \<Rightarrow> wstore \<Rightarrow> string list" where
  "get_editors p w = (case view_values (page_id p) (wk_editors w) of Inl _ \<Rightarrow> [] | Inr cols \<Rightarrow> map fst cols)"

definition has_editor :: "wpage \<Rightarrow> string \<Rightarrow> wstore \<Rightarrow> bool" where
  "has_editor p editor w \<longleftrightarrow> filter (\<lambda>e. e = editor) (get_editors p w) \<noteq> []"

definition special_length_restrictions :: "wiki_cfg \<Rightarrow> (string, int) dict" where
  "special_length_restrictions cfg = [(''config/stylesheet'', wc_max_css cfg), (''config/submit_text'', 1024),
     (''config/sidebar'', 5120), (''config/description'', 500), (''usernotes'', 1024 * 1024)]"

definition max_length :: "wiki_cfg \<Rightarrow> string \<Rightarrow> int" where
  "max_length cfg name =
     (case map_of (special_length_restrictions cfg) name of None \<Rightarrow> wc_max_page cfg | Some n \<Rightarrow> n)"

text \<open>
  \<open>previous\<close> of an edit: missing, the id of a revision (a UUID) or a string. A page keeps the id of its
  revision as a string, which a UUID never equals.
\<close>

datatype previous = NoPrevious | PrevUuid string | PrevStr string

definition prev_matches :: "previous \<Rightarrow> string \<Rightarrow> bool" where
  "prev_matches previous revision = (case previous of PrevStr s \<Rightarrow> s = revision | _ \<Rightarrow> False)"

definition origcontent :: "previous \<Rightarrow> string \<Rightarrow> wstore \<Rightarrow> werror + string" where
  "origcontent previous pageid w =
     (case previous of
        NoPrevious \<Rightarrow> Inr ''''
      | PrevUuid r \<Rightarrow> map_sum id wr_content (rev_get r pageid w)
      | PrevStr r \<Rightarrow> if r = '''' then Inr '''' else map_sum id wr_content (rev_get r pageid w))"

text \<open>The content to store: the one given, or its merge with what others have stored since.\<close>

definition merged_content :: "wiki_cfg \<Rightarrow> wpage \<Rightarrow> string \<Rightarrow> previous \<Rightarrow> bool \<Rightarrow> wstore \<Rightarrow> werror + string" where
  "merged_content cfg p content previous force w =
     (case wp_revision p of
        None \<Rightarrow> Inr content
      | Some revision \<Rightarrow>
          if \<not> force \<and> revision \<noteq> '''' \<and> \<not> prev_matches previous revision then
            (case origcontent previous (page_id p) w of
               Inl e \<Rightarrow> Inl e
             | Inr orig \<Rightarrow> (case wc_merge cfg orig content (wp_content p) of
                   None \<Rightarrow> Inl (ConflictException (wp_content p) content orig revision)
                 | Some final \<Rightarrow> Inr final))
          else Inr content)"

definition revise ::
    "wiki_cfg \<Rightarrow> wpage \<Rightarrow> string option \<Rightarrow> previous \<Rightarrow> string option \<Rightarrow> bool \<Rightarrow> string option \<Rightarrow> string \<Rightarrow> int \<Rightarrow> wstore \<Rightarrow>
     werror + (wrev option \<times> wstore)" where
  "revise cfg p content previous author force reason rid now w =
     (let content = (case content of None \<Rightarrow> '''' | Some t \<Rightarrow> t) in
      if wp_content p = content then Inr (None, w)
      else
        let force = (previous = NoPrevious \<or> force); max_len = max_length cfg (wp_name p) in
        if int (length content) > max_len then Inl (ContentLengthError max_len)
        else (case merged_content cfg p content previous force w of
            Inl e \<Rightarrow> Inl e
          | Inr content' \<Rightarrow>
              let (wr, w1) = rev_create (page_id p) content' author reason rid now w;
                  p' = p\<lparr>wp_content := content', wp_last_edit_by := author, wp_last_edit_date := Some (wr_date wr),
                         wp_revision := Some (wr_id wr)\<rparr>;
                  w2 = page_commit p' w1
              in Inr (Some wr, w2\<lparr>wk_modified := touch now (''WikiPage_'' @ page_id p) [''Edit''] (wk_modified w2)\<rparr>)))"

definition NUM_PERMLEVELS :: int where
  "NUM_PERMLEVELS = 3"

definition change_permlevel :: "wpage \<Rightarrow> int \<Rightarrow> bool \<Rightarrow> wstore \<Rightarrow> werror + wstore" where
  "change_permlevel p permlevel force w =
     (if permlevel = wp_permlevel p then Inr w
      else if \<not> force \<and> \<not> (0 \<le> permlevel \<and> permlevel < NUM_PERMLEVELS) then Inl BadPermlevel
      else Inr (page_commit (p\<lparr>wp_permlevel := permlevel\<rparr>) w))"

subsection \<open>Images\<close>

definition add_image :: "string \<Rightarrow> string \<Rightarrow> string \<Rightarrow> string \<Rightarrow> wstore \<Rightarrow> wstore" where
  "add_image sr page_name image_name url w =
     w\<lparr>wk_images := view_set_values (wiki_id sr page_name) [(image_name, url)] (wk_images w)\<rparr>"

definition get_images :: "string \<Rightarrow> string \<Rightarrow> wstore \<Rightarrow> (string, string) dict" where
  "get_images sr page_name w =
     (case view_values (wiki_id sr page_name) (wk_images w) of Inl _ \<Rightarrow> [] | Inr cols \<Rightarrow> cols)"

definition get_image_count :: "string \<Rightarrow> string \<Rightarrow> wstore \<Rightarrow> nat" where
  "get_image_count sr page_name w = length (wk_images w (wiki_id sr page_name))"

definition delete_image :: "string \<Rightarrow> string \<Rightarrow> string \<Rightarrow> wstore \<Rightarrow> wstore" where
  "delete_image sr page_name image_name w =
     w\<lparr>wk_images := view_remove (wiki_id sr page_name) [image_name] (wk_images w)\<rparr>"

subsection \<open>The list of pages\<close>

definition NUM_AT_A_TIME :: nat where
  "NUM_AT_A_TIME = 1000"

text \<open>\<open>get_pages\<close> asks for 1000 pages after another until it gets less; \<open>None\<close>: the loop does not end.\<close>

partial_function (option) get_pages_loop ::
    "(string, wpage) slicer \<Rightarrow> string option \<Rightarrow> wpage list \<Rightarrow> wpage list result option" where
  "get_pages_loop multiget after pages =
     (case column_query multiget True after NUM_AT_A_TIME of
        Inl e \<Rightarrow> Some (Inl e)
      | Inr wikipages \<Rightarrow>
          if length wikipages \<ge> NUM_AT_A_TIME
          then get_pages_loop multiget (Some (fst (last wikipages))) (pages @ map snd wikipages)
          else Some (Inr (pages @ map snd wikipages)))"

definition get_pages :: "(string, wpage) slicer \<Rightarrow> (wpage \<Rightarrow> bool) \<Rightarrow> wpage list result option" where
  "get_pages multiget filter_check =
     map_option (map_sum id (filter filter_check)) (get_pages_loop multiget None [])"

text \<open>A node of the tree of pages: the page of that name, if there is one, and what is below it.\<close>

datatype wnode = WNode "wpage option" "(string \<times> wnode) list"

fun tree_add :: "string list \<Rightarrow> wpage \<Rightarrow> (string \<times> wnode) list \<Rightarrow> (string \<times> wnode) list" where
  "tree_add [] page cur_node = cur_node"
| "tree_add [pagename] page cur_node =
     (case map_of cur_node pagename of
        Some (WNode _ below) \<Rightarrow> AList.update pagename (WNode (Some page) below) cur_node
      | None \<Rightarrow> AList.update pagename (WNode (Some page) []) cur_node)"
| "tree_add (name # next # path) page cur_node =
     (case map_of cur_node name of
        Some (WNode p below) \<Rightarrow> AList.update name (WNode p (tree_add (next # path) page below)) cur_node
      | None \<Rightarrow> AList.update name (WNode None (tree_add (next # path) page [])) cur_node)"

definition page_tree :: "wpage list \<Rightarrow> (string \<times> wnode) list" where
  "page_tree pages = fold (\<lambda>p. tree_add (split_on CHR ''/'' (wp_name p)) p) pages []"

definition get_listing ::
    "(string, wpage) slicer \<Rightarrow> (wpage \<Rightarrow> bool) \<Rightarrow> ((string \<times> wnode) list \<times> wpage list) result option" where
  "get_listing multiget filter_check =
     map_option (map_sum id (\<lambda>pages. let pages = sort_key wp_name pages in (page_tree pages, pages)))
       (get_pages multiget filter_check)"

subsection \<open>Invariant of the store\<close>

text \<open>
  Every page is stored under its id, the list of pages of its subreddit has an exact copy of it, and its
  content is that of the revision it names; every revision is in the history of its page.
\<close>

definition page_ok :: "wstore \<Rightarrow> string \<Rightarrow> wpage \<Rightarrow> bool" where
  "page_ok w pid p \<longleftrightarrow> page_id p = pid \<and> map_of (wk_listing w (wp_sr p)) pid = Some p \<and>
     (case wp_revision p of
        None \<Rightarrow> wp_content p = ''''
      | Some r \<Rightarrow> (\<exists>wr. wk_revs w r = Some wr \<and> wr_pageid wr = pid \<and> wr_content wr = wp_content p))"

definition wiki_ok :: "wstore \<Rightarrow> bool" where
  "wiki_ok w \<longleftrightarrow> (\<forall>pid p. wk_pages w pid = Some p \<longrightarrow> page_ok w pid p) \<and>
     (\<forall>sr pid p. map_of (wk_listing w sr) pid = Some p \<longrightarrow> wk_pages w pid = Some p \<and> wp_sr p = sr) \<and>
     (\<forall>sr. dict_ok (wk_listing w sr)) \<and>
     (\<forall>r wr. wk_revs w r = Some wr \<longrightarrow> wr_id wr = r \<and> map_of (wk_history w (wr_pageid wr)) r = Some '''')"

text \<open>No revision is lost and none is rewritten, only hidden or deleted by an administrator.\<close>

definition revs_kept :: "wstore \<Rightarrow> wstore \<Rightarrow> bool" where
  "revs_kept w w' \<longleftrightarrow> (\<forall>r wr. wk_revs w r = Some wr \<longrightarrow>
     (\<exists>h d. wk_revs w' r = Some (wr\<lparr>wr_hidden := h, wr_admin_deleted := d\<rparr>)))"

lemma wiki_okD:
  assumes "wiki_ok w"
  shows "wk_pages w pid = Some p \<Longrightarrow> page_ok w pid p"
    "map_of (wk_listing w sr) pid = Some p \<Longrightarrow> wk_pages w pid = Some p \<and> wp_sr p = sr"
    "dict_ok (wk_listing w sr)"
    "wk_revs w r = Some wr \<Longrightarrow> wr_id wr = r \<and> map_of (wk_history w (wr_pageid wr)) r = Some ''''"
  using assms unfolding wiki_ok_def by blast+

lemma wiki_okI:
  assumes "\<And>pid p. wk_pages w pid = Some p \<Longrightarrow> page_ok w pid p"
    "\<And>sr pid p. map_of (wk_listing w sr) pid = Some p \<Longrightarrow> wk_pages w pid = Some p \<and> wp_sr p = sr"
    "\<And>sr. dict_ok (wk_listing w sr)"
    "\<And>r wr. wk_revs w r = Some wr \<Longrightarrow> wr_id wr = r \<and> map_of (wk_history w (wr_pageid wr)) r = Some ''''"
  shows "wiki_ok w"
  using assms unfolding wiki_ok_def by blast

lemma view_set_one: "map_of (view_set_values k [(c, x)] v k') =
    (if k' = k then (map_of (v k))(c \<mapsto> x) else map_of (v k'))"
  by (simp add: view_set_values_def dict_update_def)

lemma view_set_ok: "dict_ok (v k') \<Longrightarrow> dict_ok (view_set_values k [(c, x)] v k')"
  by (auto simp: view_set_values_def dict_update_def)

lemma page_commit_sel [simp]:
  "wk_revs (page_commit p w) = wk_revs w" "wk_history (page_commit p w) = wk_history w"
  "wk_editors (page_commit p w) = wk_editors w"
  "wk_pages (page_commit p w) = (wk_pages w)(page_id p \<mapsto> p)"
  "wk_listing (page_commit p w) = view_set_values (wp_sr p) [(page_id p, p)] (wk_listing w)"
  by (simp_all add: page_commit_def)

lemma rev_commit_sel [simp]:
  "wk_pages (rev_commit wr w) = wk_pages w" "wk_listing (rev_commit wr w) = wk_listing w"
  "wk_editors (rev_commit wr w) = wk_editors w"
  "wk_revs (rev_commit wr w) = (wk_revs w)(wr_id wr \<mapsto> wr)"
  "wk_history (rev_commit wr w) = view_set_values (wr_pageid wr) [(wr_id wr, '''')] (wk_history w)"
  by (simp_all add: rev_commit_def)

lemma page_commit_ok:
  assumes ok: "wiki_ok w"
    and content: "case wp_revision p of None \<Rightarrow> wp_content p = ''''
      | Some r \<Rightarrow> (\<exists>wr. wk_revs w r = Some wr \<and> wr_pageid wr = page_id p \<and> wr_content wr = wp_content p)"
    and same: "\<And>q. wk_pages w (page_id p) = Some q \<Longrightarrow> wp_sr q = wp_sr p"
  shows "wiki_ok (page_commit p w)"
proof (rule wiki_okI)
  fix pid q assume q: "wk_pages (page_commit p w) pid = Some q"
  show "page_ok (page_commit p w) pid q"
  proof (cases "pid = page_id p")
    case True
    then show ?thesis using q content by (cases "wp_revision p") (auto simp: page_ok_def view_set_one)
  next
    case False
    then have "page_ok w pid q" using q wiki_okD(1) [OF ok] by simp
    then show ?thesis using False by (cases "wp_revision q") (auto simp: page_ok_def view_set_one)
  qed
next
  fix sr pid q assume q: "map_of (wk_listing (page_commit p w) sr) pid = Some q"
  show "wk_pages (page_commit p w) pid = Some q \<and> wp_sr q = sr"
  proof (cases "pid = page_id p \<and> sr = wp_sr p")
    case True
    then show ?thesis using q by (simp add: view_set_one)
  next
    case False
    then have "map_of (wk_listing w sr) pid = Some q" using q by (simp add: view_set_one split: if_splits)
    then have "wk_pages w pid = Some q \<and> wp_sr q = sr" using wiki_okD(2) [OF ok] by blast
    then show ?thesis using same False by auto
  qed
qed (use wiki_okD(3,4) [OF ok] in \<open>simp_all add: view_set_ok\<close>)

text \<open>A new revision, and a change of the flags of an old one.\<close>

lemma rev_commit_ok:
  assumes ok: "wiki_ok w"
    and "\<And>old. wk_revs w (wr_id wr) = Some old \<Longrightarrow> wr_pageid old = wr_pageid wr \<and> wr_content old = wr_content wr"
  shows "wiki_ok (rev_commit wr w)"
proof (rule wiki_okI)
  fix pid p assume "wk_pages (rev_commit wr w) pid = Some p"
  then have "page_ok w pid p" using wiki_okD(1) [OF ok] by simp
  then show "page_ok (rev_commit wr w) pid p"
    using assms(2) by (auto simp: page_ok_def split: option.splits)
next
  fix r wr' assume "wk_revs (rev_commit wr w) r = Some wr'"
  then have "r = wr_id wr \<and> wr' = wr \<or> r \<noteq> wr_id wr \<and> wk_revs w r = Some wr'" by (auto split: if_splits)
  then show "wr_id wr' = r \<and> map_of (wk_history (rev_commit wr w) (wr_pageid wr')) r = Some ''''"
    using wiki_okD(4) [OF ok, of r wr'] by (auto simp: view_set_one)
qed (use wiki_okD(2,3) [OF ok] in simp_all)

lemma wiki_ok_cong:
  "wk_pages w' = wk_pages w \<Longrightarrow> wk_revs w' = wk_revs w \<Longrightarrow> wk_listing w' = wk_listing w \<Longrightarrow> wk_history w' = wk_history w \<Longrightarrow>
   wiki_ok w' = wiki_ok w"
  unfolding wiki_ok_def page_ok_def by (simp only:)

lemma revs_kept_same: "wk_revs w' = wk_revs w \<Longrightarrow> revs_kept w w'"
  unfolding revs_kept_def by (metis wrev.surjective wrev.update_convs(7,8) old.unit.exhaust)

lemma revs_kept_trans:
  assumes "revs_kept w w'" "revs_kept w' w''"
  shows "revs_kept w w''"
  unfolding revs_kept_def
proof (intro allI impI)
  fix r wr assume "wk_revs w r = Some wr"
  then obtain h d where "wk_revs w' r = Some (wr\<lparr>wr_hidden := h, wr_admin_deleted := d\<rparr>)"
    using assms(1) unfolding revs_kept_def by blast
  then obtain h' d' where "wk_revs w'' r = Some (wr\<lparr>wr_hidden := h, wr_admin_deleted := d\<rparr>\<lparr>wr_hidden := h', wr_admin_deleted := d'\<rparr>)"
    using assms(2) unfolding revs_kept_def by blast
  then show "\<exists>h d. wk_revs w'' r = Some (wr\<lparr>wr_hidden := h, wr_admin_deleted := d\<rparr>)" by auto
qed

lemma page_create_ok:
  assumes "wiki_ok w" "page_create sr name w = Inr (p, w')"
  shows "wiki_ok w' \<and> wk_pages w' (page_id p) = Some p \<and> revs_kept w w' \<and> wp_sr p = sr \<and> wp_name p = py_lower name \<and>
    wp_content p = '''' \<and> wp_revision p = None \<and> wk_pages w (page_id p) = None \<and> wk_revs w' = wk_revs w"
proof -
  have p: "wk_pages w (page_id p) = None" "wp_revision p = None" "wp_content p = ''''" "w' = page_commit p w"
      "wp_sr p = sr" "wp_name p = py_lower name"
    using assms(2) by (auto simp: page_create_def Let_def page_id_def split: if_splits)
  have "wiki_ok (page_commit p w)" by (rule page_commit_ok [OF assms(1)]) (simp_all add: p)
  then show ?thesis using p by (simp add: revs_kept_same)
qed

lemma revise_ok:
  assumes ok: "wiki_ok w" and p: "wk_pages w (page_id p) = Some p" and fresh: "wk_revs w rid = None"
    and r: "revise cfg p content previous author force reason rid now w = Inr (wr, w')"
  shows "wiki_ok w' \<and> revs_kept w w'"
proof (cases "wp_content p = (case content of None \<Rightarrow> '''' | Some t \<Rightarrow> t)")
  case True
  then show ?thesis using r ok by (simp add: revise_def revs_kept_same)
next
  case False
  then obtain c where c: "merged_content cfg p (case content of None \<Rightarrow> '''' | Some t \<Rightarrow> t) previous (previous = NoPrevious \<or> force) w = Inr c"
    using r by (auto simp: revise_def Let_def split: if_splits sum.splits)
  define rev where "rev = fst (rev_create (page_id p) c author reason rid now w)"
  define p' where "p' = p\<lparr>wp_content := c, wp_last_edit_by := author, wp_last_edit_date := Some now, wp_revision := Some rid\<rparr>"
  have rev: "wr_id rev = rid" "wr_pageid rev = page_id p" "wr_content rev = c" by (simp_all add: rev_def rev_create_def Let_def)
  have id: "page_id p' = page_id p" "wp_sr p' = wp_sr p" by (simp_all add: p'_def page_id_def)
  let ?w1 = "rev_commit rev w" and ?w2 = "page_commit p' (rev_commit rev w)"
  have w': "w' = ?w2\<lparr>wk_modified := touch now (''WikiPage_'' @ page_id p) [''Edit''] (wk_modified ?w2)\<rparr>"
    using r c False by (simp add: revise_def Let_def rev_create_def rev_def p'_def split: if_splits)
  have "wiki_ok ?w1" using fresh rev by (intro rev_commit_ok [OF ok]) simp
  then have "wiki_ok ?w2" using rev id p by (intro page_commit_ok) (auto simp: p'_def)
  moreover have "revs_kept w ?w2" using fresh rev revs_kept_same [of w w] by (auto simp: revs_kept_def)
  ultimately show ?thesis using w' wiki_ok_cong [of w' ?w2] by (simp add: revs_kept_def)
qed

lemma page_settings_ok:
  assumes ok: "wiki_ok w" and p: "wk_pages w (page_id p) = Some p"
    and "wp_sr q = wp_sr p" "wp_name q = wp_name p" "wp_content q = wp_content p" "wp_revision q = wp_revision p"
  shows "wiki_ok (page_commit q w)"
proof (rule page_commit_ok [OF ok])
  have id: "page_id q = page_id p" using assms(3,4) by (simp add: page_id_def)
  show "case wp_revision q of None \<Rightarrow> wp_content q = ''''
      | Some r \<Rightarrow> \<exists>wr. wk_revs w r = Some wr \<and> wr_pageid wr = page_id q \<and> wr_content wr = wp_content q"
    using wiki_okD(1) [OF ok p] unfolding page_ok_def id assms(5,6) by simp
  show "wp_sr x = wp_sr q" if "wk_pages w (page_id q) = Some x" for x
    using that p assms(3) id by simp
qed

lemma change_permlevel_ok:
  assumes "wiki_ok w" "wk_pages w (page_id p) = Some p" "change_permlevel p l force w = Inr w'"
  shows "wiki_ok w' \<and> revs_kept w w'"
  using assms page_settings_ok [OF assms(1,2), of "p\<lparr>wp_permlevel := l\<rparr>"]
  by (auto simp: change_permlevel_def revs_kept_same split: if_splits)

subsection \<open>The list of pages is complete\<close>

lemma get_pages_loop_exact:
  assumes "slices_row multiget row" "after = None \<or> (\<exists>s. after = Some s \<and> s \<in> fst ` set row)"
  shows "get_pages_loop multiget after pages = Some (Inr (pages @ map snd (after_column after row)))"
  using assms(2)
proof (induction "length (after_column after row)" arbitrary: after pages rule: less_induct)
  case less
  let ?rest = "after_column after row"
  have q: "column_query multiget True after NUM_AT_A_TIME = Inr (take NUM_AT_A_TIME ?rest)"
    by (rule column_query_exact [OF assms(1) less.prems])
  show ?case
  proof (cases "length ?rest \<ge> NUM_AT_A_TIME")
    case False
    then show ?thesis using q by (subst get_pages_loop.simps) simp
  next
    case True
    let ?now = "take NUM_AT_A_TIME ?rest"
    have ne: "?now \<noteq> []" using True by (auto simp: NUM_AT_A_TIME_def)
    then have last: "last ?now \<in> set ?rest" by (meson in_set_takeD last_in_set)
    then have s: "fst (last ?now) \<in> fst ` set row" by (auto simp: after_column_def)
    have "descending_row ?rest" using assms(1) by (simp add: slices_row_def descending_after)
    then have "after_column (Some (fst (last ?now))) ?rest = drop NUM_AT_A_TIME ?rest"
      using after_column_split [of ?now "drop NUM_AT_A_TIME ?rest"] ne by simp
    moreover have "after_column (Some (fst (last ?now))) row = after_column (Some (fst (last ?now))) ?rest"
      using last by (cases after) (auto simp: after_column_def intro!: filter_cong)
    ultimately have rest: "after_column (Some (fst (last ?now))) row = drop NUM_AT_A_TIME ?rest" by simp
    have "get_pages_loop multiget (Some (fst (last ?now))) (pages @ map snd ?now) =
        Some (Inr ((pages @ map snd ?now) @ map snd (drop NUM_AT_A_TIME ?rest)))"
      using less.hyps [of "Some (fst (last ?now))" "pages @ map snd ?now"] rest s True
      by (auto simp: NUM_AT_A_TIME_def)
    moreover have "map snd ?now @ map snd (drop NUM_AT_A_TIME ?rest) = map snd ?rest"
      by (metis append_take_drop_id map_append)
    ultimately show ?thesis using q True by (subst get_pages_loop.simps) simp
  qed
qed

lemma get_pages_exact:
  "slices_row multiget row \<Longrightarrow> get_pages multiget check = Some (Inr (filter check (map snd row)))"
  using get_pages_loop_exact [of multiget row None "[]"] by (simp add: get_pages_def after_column_def)

subsection \<open>The tree of pages\<close>

fun tree_find :: "string list \<Rightarrow> (string \<times> wnode) list \<Rightarrow> wpage option" where
  "tree_find [] t = None"
| "tree_find [name] t = (case map_of t name of Some (WNode p _) \<Rightarrow> p | None \<Rightarrow> None)"
| "tree_find (name # next # path) t = (case map_of t name of Some (WNode _ below) \<Rightarrow> tree_find (next # path) below | None \<Rightarrow> None)"

lemma tree_find_Nil [simp]: "tree_find path [] = None"
  by (cases path rule: remdups_adj.cases) auto

lemma tree_find_add:
  assumes "path \<noteq> []"
  shows "tree_find path' (tree_add path p t) = (if path' = path then Some p else tree_find path' t)"
  using assms
proof (induction path p t arbitrary: path' rule: tree_add.induct)
  case (2 name p t)
  show ?case by (cases path' rule: remdups_adj.cases) (auto split: option.splits wnode.splits)
next
  case (3 name nxt path p t)
  show ?case
  proof (cases "\<exists>y ys. path' = name # y # ys")
    case True
    then obtain y ys where "path' = name # y # ys" by blast
    then show ?thesis using 3 by (cases "map_of t name") (auto split: wnode.splits)
  next
    case False
    then show ?thesis
      by (cases path' rule: remdups_adj.cases) (auto split: option.splits wnode.splits)
  qed
qed simp

lemma page_tree_find:
  assumes "distinct (map wp_name pages)"
  shows "tree_find (split_on CHR ''/'' name) (page_tree pages) = Some p \<longleftrightarrow> p \<in> set pages \<and> wp_name p = name"
proof -
  have inj: "split_on CHR ''/'' a = split_on CHR ''/'' b \<longleftrightarrow> a = b" for a b by (metis join_split)
  have "tree_find (split_on CHR ''/'' name) (fold (\<lambda>p. tree_add (split_on CHR ''/'' (wp_name p)) p) pages t) = Some p \<longleftrightarrow>
      p \<in> set pages \<and> wp_name p = name \<or> name \<notin> wp_name ` set pages \<and> tree_find (split_on CHR ''/'' name) t = Some p" for t
    using assms
  proof (induction pages arbitrary: t)
    case (Cons q pages)
    show ?case using Cons by (auto simp: tree_find_add inj)
  qed simp
  then show ?thesis by (simp add: page_tree_def)
qed

end
