(* ===== verification/UserRel.thy ===== *)
theory UserRel
  imports Permissions
begin

section \<open>Relations between things and users\<close>

text \<open>
  Models \<open>r2/lib/db/userrel.py\<close> with the relation \<open>SRMember\<close> of \<open>r2/models/subreddit.py\<close>: moderators, contributors
  and banned users of a subreddit are rows of one relation, told apart by a name, and the lists of ids are
  memoized (\<open>r2/lib/memoize.py\<close>). The relation in PostgreSQL is a list of rows.
\<close>

record srel =
  r_thing :: int
  r_user :: int
  r_name :: string
  r_date :: int
  r_encoded :: "string option"
  r_attrs :: "(string, string) dict"

record manager =
  m_name :: string
  m_disable_ids :: bool
  m_disable_reverse :: bool

record rel_state =
  rs_rows :: "srel list"
  rs_memo :: "string \<times> int \<Rightarrow> int list option"

subsection \<open>Permissions of a member\<close>

definition get_permissions :: "srel \<Rightarrow> perms result" where
  "get_permissions r = moderator_loads (r_encoded r) False"

definition has_permission :: "srel \<Rightarrow> string \<Rightarrow> bool result" where
  "has_permission r perm =
     bindr (get_permissions r) (\<lambda>p. Inr (case perm_get moderator_info p perm of None \<Rightarrow> False | Some b \<Rightarrow> b))"

definition rel_is_superuser :: "srel \<Rightarrow> bool result" where
  "rel_is_superuser r = bindr (get_permissions r) (\<lambda>p. Inr (is_superuser p))"

definition set_permissions :: "perms \<Rightarrow> srel \<Rightarrow> srel" where
  "set_permissions p r = r\<lparr>r_encoded := Some (dumps p)\<rparr>"

definition update_permission :: "string \<times> bool option \<Rightarrow> perms \<Rightarrow> perms" where
  "update_permission kv p = (case snd kv of None \<Rightarrow> AList.delete (fst kv) p | Some v \<Rightarrow> AList.update (fst kv) v p)"

definition update_permissions :: "(string \<times> bool option) list \<Rightarrow> srel \<Rightarrow> srel result" where
  "update_permissions kwargs r =
     bindr (get_permissions r) (\<lambda>p. Inr (r\<lparr>r_encoded := Some (dumps (fold update_permission kwargs p))\<rparr>))"

subsection \<open>The manager\<close>

definition is_rel :: "string \<Rightarrow> int \<Rightarrow> int \<Rightarrow> srel \<Rightarrow> bool" where
  "is_rel name thing user r \<longleftrightarrow> r_thing r = thing \<and> r_user r = user \<and> r_name r = name"

text \<open>\<open>get\<close>: there is no relation with a user who is not logged in.\<close>

definition rel_get :: "manager \<Rightarrow> int \<Rightarrow> int option \<Rightarrow> rel_state \<Rightarrow> srel option" where
  "rel_get m thing user st =
     (case user of None \<Rightarrow> None | Some u \<Rightarrow> find (is_rel (m_name m) thing u) (rs_rows st))"

definition rel_ids :: "string \<Rightarrow> int \<Rightarrow> srel list \<Rightarrow> int list" where
  "rel_ids name thing rows' =
     map r_user (sort_key r_date (filter (\<lambda>r. r_thing r = thing \<and> r_name r = name) rows'))"

definition rel_reverse_ids :: "string \<Rightarrow> int \<Rightarrow> srel list \<Rightarrow> int list" where
  "rel_reverse_ids name user rows' = map r_thing (filter (\<lambda>r. r_user r = user \<and> r_name r = name) rows')"

text \<open>\<open>by_thing\<close>: the members of a thing with their data, by date.\<close>

definition by_thing :: "manager \<Rightarrow> int \<Rightarrow> rel_state \<Rightarrow> srel list" where
  "by_thing m thing st = sort_key r_date (filter (\<lambda>r. r_thing r = thing \<and> r_name r = m_name m) (rs_rows st))"

definition ids_fn :: "manager \<Rightarrow> string" where
  "ids_fn m = m_name m @ ''_ids''"

definition reverse_ids_fn :: "manager \<Rightarrow> string" where
  "reverse_ids_fn m = ''reverse_'' @ m_name m @ ''_ids''"

text \<open>\<open>memoize\<close>: the stored list, or the list computed now and stored; \<open>update\<close> forces the latter.\<close>

definition memoized :: "string \<times> int \<Rightarrow> (srel list \<Rightarrow> int list) \<Rightarrow> bool \<Rightarrow> rel_state \<Rightarrow> int list \<times> rel_state" where
  "memoized key f update st =
     (case if update then None else rs_memo st key of
        Some res \<Rightarrow> (res, st)
      | None \<Rightarrow> let res = f (rs_rows st) in (res, st\<lparr>rs_memo := (rs_memo st)(key \<mapsto> res)\<rparr>))"

definition memo_ids :: "manager \<Rightarrow> int \<Rightarrow> rel_state \<Rightarrow> (int list \<times> rel_state) result" where
  "memo_ids m thing st =
     (if m_disable_ids m then Inl (AttributeError (ids_fn m))
      else Inr (memoized (ids_fn m, thing) (rel_ids (m_name m) thing) False st))"

definition memo_reverse_ids :: "manager \<Rightarrow> int \<Rightarrow> rel_state \<Rightarrow> (int list \<times> rel_state) result" where
  "memo_reverse_ids m user st =
     (if m_disable_reverse m then Inl (AttributeError (reverse_ids_fn m))
      else Inr (memoized (reverse_ids_fn m, user) (rel_reverse_ids (m_name m) user) False st))"

definition update_caches :: "manager \<Rightarrow> int \<Rightarrow> int \<Rightarrow> rel_state \<Rightarrow> rel_state" where
  "update_caches m thing user st =
     (let st1 = (if m_disable_ids m then st else snd (memoized (ids_fn m, thing) (rel_ids (m_name m) thing) True st)) in
      if m_disable_reverse m then st1
      else snd (memoized (reverse_ids_fn m, user) (rel_reverse_ids (m_name m) user) True st1))"

text \<open>
  \<open>add\<close>: nothing happens when the relation is there already; \<open>conflict\<close> is the \<open>CreationError\<close> of a commit
  that collides with another one. The caches are refreshed in every case.
\<close>

definition rel_add ::
    "manager \<Rightarrow> int \<Rightarrow> int \<Rightarrow> perms option \<Rightarrow> (string, string) dict \<Rightarrow> int \<Rightarrow> bool \<Rightarrow> rel_state \<Rightarrow> srel option \<times> rel_state" where
  "rel_add m thing user permissions attrs now conflict st =
     (if rel_get m thing (Some user) st \<noteq> None \<or> conflict then (None, update_caches m thing user st)
      else
        let r = \<lparr>r_thing = thing, r_user = user, r_name = m_name m, r_date = now, r_encoded = None, r_attrs = attrs\<rparr>;
            r' = (case permissions of None \<Rightarrow> r | Some p \<Rightarrow> set_permissions p r) in
        (Some r', update_caches m thing user (st\<lparr>rs_rows := rs_rows st @ [r']\<rparr>)))"

definition rel_remove :: "manager \<Rightarrow> int \<Rightarrow> int \<Rightarrow> rel_state \<Rightarrow> bool \<times> rel_state" where
  "rel_remove m thing user st =
     (case rel_get m thing (Some user) st of
        None \<Rightarrow> (False, update_caches m thing user st)
      | Some _ \<Rightarrow> (True, update_caches m thing user
          (st\<lparr>rs_rows := filter (\<lambda>r. \<not> is_rel (m_name m) thing user r) (rs_rows st)\<rparr>)))"

definition rel_mutate ::
    "manager \<Rightarrow> int \<Rightarrow> int \<Rightarrow> (string, string) dict \<Rightarrow> int \<Rightarrow> bool \<Rightarrow> rel_state \<Rightarrow> srel option \<times> rel_state" where
  "rel_mutate m thing user attrs now conflict st =
     (case rel_get m thing (Some user) st of
        Some r \<Rightarrow>
          let r' = r\<lparr>r_attrs := dict_update (r_attrs r) attrs\<rparr> in
          (Some r', st\<lparr>rs_rows := map (\<lambda>x. if is_rel (m_name m) thing user x then r' else x) (rs_rows st)\<rparr>)
      | None \<Rightarrow> rel_add m thing user None attrs now conflict st)"

text \<open>The relations of subreddits.\<close>

definition moderator :: manager where "moderator = \<lparr>m_name = ''moderator'', m_disable_ids = False, m_disable_reverse = False\<rparr>"
definition moderator_invite :: manager where "moderator_invite = \<lparr>m_name = ''moderator_invite'', m_disable_ids = False, m_disable_reverse = False\<rparr>"
definition contributor :: manager where "contributor = \<lparr>m_name = ''contributor'', m_disable_ids = True, m_disable_reverse = False\<rparr>"
definition banned :: manager where "banned = \<lparr>m_name = ''banned'', m_disable_ids = True, m_disable_reverse = False\<rparr>"
definition muted :: manager where "muted = \<lparr>m_name = ''muted'', m_disable_ids = True, m_disable_reverse = False\<rparr>"
definition wikibanned :: manager where "wikibanned = \<lparr>m_name = ''wikibanned'', m_disable_ids = False, m_disable_reverse = False\<rparr>"
definition wikicontributor :: manager where "wikicontributor = \<lparr>m_name = ''wikicontributor'', m_disable_ids = False, m_disable_reverse = False\<rparr>"

definition sr_managers :: "manager list" where
  "sr_managers = [moderator, moderator_invite, contributor, banned, muted, wikibanned, wikicontributor]"

subsection \<open>Runs\<close>

datatype rel_op =
    Add manager int int "perms option" "(string, string) dict" int bool
  | Remove manager int int
  | Mutate manager int int "(string, string) dict" int bool
  | ReadIds manager int
  | ReadReverse manager int

definition rel_step :: "rel_op \<Rightarrow> rel_state \<Rightarrow> rel_state" where
  "rel_step x st =
     (case x of
        Add m thing user p attrs now conflict \<Rightarrow> snd (rel_add m thing user p attrs now conflict st)
      | Remove m thing user \<Rightarrow> snd (rel_remove m thing user st)
      | Mutate m thing user attrs now conflict \<Rightarrow> snd (rel_mutate m thing user attrs now conflict st)
      | ReadIds m thing \<Rightarrow> (case memo_ids m thing st of Inl _ \<Rightarrow> st | Inr (_, st') \<Rightarrow> st')
      | ReadReverse m user \<Rightarrow> (case memo_reverse_ids m user st of Inl _ \<Rightarrow> st | Inr (_, st') \<Rightarrow> st'))"

definition op_manager :: "rel_op \<Rightarrow> manager" where
  "op_manager x = (case x of Add m _ _ _ _ _ _ \<Rightarrow> m | Remove m _ _ \<Rightarrow> m | Mutate m _ _ _ _ _ \<Rightarrow> m
     | ReadIds m _ \<Rightarrow> m | ReadReverse m _ \<Rightarrow> m)"

text \<open>What is memoized is what the relation says now, and no relation is stored twice.\<close>

definition memo_exact :: "rel_state \<Rightarrow> bool" where
  "memo_exact st \<longleftrightarrow> (\<forall>m \<in> set sr_managers. \<forall>i l.
     (\<not> m_disable_ids m \<and> rs_memo st (ids_fn m, i) = Some l \<longrightarrow> l = rel_ids (m_name m) i (rs_rows st)) \<and>
     (\<not> m_disable_reverse m \<and> rs_memo st (reverse_ids_fn m, i) = Some l \<longrightarrow> l = rel_reverse_ids (m_name m) i (rs_rows st)))"

definition rows_unique :: "rel_state \<Rightarrow> bool" where
  "rows_unique st \<longleftrightarrow> distinct (map (\<lambda>r. (r_thing r, r_user r, r_name r)) (rs_rows st))"

subsection \<open>Lemmas\<close>

lemma fn_names:
  assumes "m \<in> set sr_managers" "m' \<in> set sr_managers"
  shows "ids_fn m \<noteq> reverse_ids_fn m'" "ids_fn m = ids_fn m' \<longleftrightarrow> m_name m = m_name m'"
    "reverse_ids_fn m = reverse_ids_fn m' \<longleftrightarrow> m_name m = m_name m'" "m_name m = m_name m' \<longleftrightarrow> m = m'"
proof -
  have "\<forall>m \<in> set sr_managers. \<forall>m' \<in> set sr_managers. ids_fn m \<noteq> reverse_ids_fn m' \<and> (m_name m = m_name m' \<longrightarrow> m = m')"
    by code_simp
  then show "ids_fn m \<noteq> reverse_ids_fn m'" "m_name m = m_name m' \<longleftrightarrow> m = m'" using assms by auto
qed (simp_all add: ids_fn_def reverse_ids_fn_def)

lemma update_caches_sel [simp]:
  "rs_rows (update_caches m thing user st) = rs_rows st"
  "rs_memo (update_caches m thing user st) =
     (let memo = (if m_disable_ids m then rs_memo st
                  else (rs_memo st)((ids_fn m, thing) \<mapsto> rel_ids (m_name m) thing (rs_rows st))) in
      if m_disable_reverse m then memo
      else memo((reverse_ids_fn m, user) \<mapsto> rel_reverse_ids (m_name m) user (rs_rows st)))"
  by (simp_all add: update_caches_def memoized_def Let_def)

lemma update_caches_exact:
  assumes m: "m \<in> set sr_managers" and ex: "memo_exact st"
    and same: "\<And>n i. n \<noteq> m_name m \<or> i \<noteq> thing \<Longrightarrow> rel_ids n i rows' = rel_ids n i (rs_rows st)"
    "\<And>n i. n \<noteq> m_name m \<or> i \<noteq> user \<Longrightarrow> rel_reverse_ids n i rows' = rel_reverse_ids n i (rs_rows st)"
  shows "memo_exact (update_caches m thing user (st\<lparr>rs_rows := rows'\<rparr>))"
  unfolding memo_exact_def
proof (intro ballI allI conjI impI; elim conjE)
  fix m' i l assume m': "m' \<in> set sr_managers"
  note fn = fn_names [OF m' m] fn_names [OF m m']
  let ?st = "update_caches m thing user (st\<lparr>rs_rows := rows'\<rparr>)"
  assume d: "\<not> m_disable_ids m'" and l: "rs_memo ?st (ids_fn m', i) = Some l"
  show "l = rel_ids (m_name m') i (rs_rows ?st)"
  proof (cases "m' = m \<and> i = thing")
    case True
    then show ?thesis using l d fn(1) by (auto simp: Let_def split: if_splits)
  next
    case False
    then have "rs_memo st (ids_fn m', i) = Some l" using l fn by (auto simp: Let_def split: if_splits)
    then have "l = rel_ids (m_name m') i (rs_rows st)" using ex m' d unfolding memo_exact_def by blast
    then show ?thesis using same(1) [of "m_name m'" i] False fn(4) by auto
  qed
next
  fix m' i l assume m': "m' \<in> set sr_managers"
  note fn = fn_names [OF m' m] fn_names [OF m m']
  let ?st = "update_caches m thing user (st\<lparr>rs_rows := rows'\<rparr>)"
  assume d: "\<not> m_disable_reverse m'" and l: "rs_memo ?st (reverse_ids_fn m', i) = Some l"
  show "l = rel_reverse_ids (m_name m') i (rs_rows ?st)"
  proof (cases "m' = m \<and> i = user")
    case True
    then show ?thesis using l d fn by (auto simp: Let_def split: if_splits)
  next
    case False
    then have "rs_memo st (reverse_ids_fn m', i) = Some l" using l fn by (auto simp: Let_def split: if_splits)
    then have "l = rel_reverse_ids (m_name m') i (rs_rows st)" using ex m' d unfolding memo_exact_def by blast
    then show ?thesis using same(2) [of "m_name m'" i] False fn(4) by auto
  qed
qed

lemma find_is_rel:
  "rel_get m thing (Some user) st = None \<longleftrightarrow> (\<forall>r \<in> set (rs_rows st). \<not> is_rel (m_name m) thing user r)"
  "rel_get m thing (Some user) st = Some r \<Longrightarrow> r \<in> set (rs_rows st) \<and> is_rel (m_name m) thing user r"
  by (auto simp: rel_get_def find_None_iff find_Some_iff)

text \<open>Adding and removing rows of one relation leaves the lists of all others alone.\<close>

lemma ids_append_row:
  "r_name r = n \<Longrightarrow> r_thing r = t \<Longrightarrow> n' \<noteq> n \<or> i \<noteq> t \<Longrightarrow> rel_ids n' i (rows' @ [r]) = rel_ids n' i rows'"
  "r_name r = n \<Longrightarrow> r_user r = u \<Longrightarrow> n' \<noteq> n \<or> i \<noteq> u \<Longrightarrow> rel_reverse_ids n' i (rows' @ [r]) = rel_reverse_ids n' i rows'"
  by (auto simp: rel_ids_def rel_reverse_ids_def)

lemma ids_remove_rows:
  "n' \<noteq> n \<or> i \<noteq> t \<Longrightarrow> rel_ids n' i (filter (\<lambda>r. \<not> is_rel n t u r) rows') = rel_ids n' i rows'"
  "n' \<noteq> n \<or> i \<noteq> u \<Longrightarrow> rel_reverse_ids n' i (filter (\<lambda>r. \<not> is_rel n t u r) rows') = rel_reverse_ids n' i rows'"
  unfolding rel_ids_def rel_reverse_ids_def filter_filter is_rel_def
  by (rule arg_cong [where f = "\<lambda>xs. map r_user (sort_key r_date xs)"], rule filter_cong, auto)
     (rule arg_cong [where f = "map r_thing"], rule filter_cong, auto)+

lemma memo_exact_same_rows: "memo_exact st \<Longrightarrow> m \<in> set sr_managers \<Longrightarrow> memo_exact (update_caches m thing user st)"
  using update_caches_exact [of m st thing "rs_rows st" user] by simp

lemma sort_key_cong: "(\<And>x. x \<in> set xs \<Longrightarrow> f x = g x) \<Longrightarrow> sort_key f xs = sort_key g xs"
proof (induction xs)
  case (Cons x xs)
  have "f x = g x \<Longrightarrow> \<forall>y \<in> set ys. f y = g y \<Longrightarrow> insort_key f x ys = insort_key g x ys" for ys
    by (induction ys) auto
  from this [of "sort_key f xs"] show ?case using Cons by simp
qed simp

lemma sort_key_map: "sort_key f (map g xs) = map g (sort_key (\<lambda>x. f (g x)) xs)"
proof (induction xs)
  case (Cons x xs)
  have "insort_key f (g x) (map g ys) = map g (insort_key (\<lambda>x. f (g x)) x ys)" for ys by (induction ys) auto
  then show ?case using Cons.IH by simp
qed simp

lemma ids_map_rows:
  assumes "\<And>r. r \<in> set rows' \<Longrightarrow> r_thing (g r) = r_thing r \<and> r_user (g r) = r_user r \<and> r_name (g r) = r_name r \<and> r_date (g r) = r_date r"
  shows "rel_ids n i (map g rows') = rel_ids n i rows'" "rel_reverse_ids n i (map g rows') = rel_reverse_ids n i rows'"
    "map (\<lambda>r. (r_thing r, r_user r, r_name r)) (map g rows') = map (\<lambda>r. (r_thing r, r_user r, r_name r)) rows'"
proof -
  have f: "filter (\<lambda>r. P (r_thing r) (r_user r) (r_name r)) (map g rows') = map g (filter (\<lambda>r. P (r_thing r) (r_user r) (r_name r)) rows')" for P
    using assms by (induction rows') auto
  let ?f = "filter (\<lambda>r. r_thing r = i \<and> r_name r = n) rows'"
  have "sort_key (\<lambda>x. r_date (g x)) ?f = sort_key r_date ?f" using assms by (intro sort_key_cong) auto
  then show "rel_ids n i (map g rows') = rel_ids n i rows'"
    using f [of "\<lambda>t u m. t = i \<and> m = n"] assms by (simp add: rel_ids_def sort_key_map)
  show "rel_reverse_ids n i (map g rows') = rel_reverse_ids n i rows'"
    using f [of "\<lambda>t u m. u = i \<and> m = n"] assms by (simp add: rel_reverse_ids_def)
  show "map (\<lambda>r. (r_thing r, r_user r, r_name r)) (map g rows') = map (\<lambda>r. (r_thing r, r_user r, r_name r)) rows'"
    using assms by simp
qed

lemma unique_row:
  assumes "rows_unique st" "x \<in> set (rs_rows st)" "y \<in> set (rs_rows st)" "is_rel n t u x" "is_rel n t u y"
  shows "x = y"
  using assms unfolding rows_unique_def distinct_map by (auto simp: is_rel_def dest: inj_onD)

lemma rel_add_inv:
  assumes "memo_exact st" "rows_unique st" "m \<in> set sr_managers"
  shows "memo_exact (snd (rel_add m thing user p attrs now conflict st)) \<and> rows_unique (snd (rel_add m thing user p attrs now conflict st))"
proof (cases "rel_get m thing (Some user) st \<noteq> None \<or> conflict")
  case True
  then show ?thesis using memo_exact_same_rows [OF assms(1,3)] assms(2) by (simp add: rel_add_def rows_unique_def)
next
  case False
  let ?r = "\<lparr>r_thing = thing, r_user = user, r_name = m_name m, r_date = now, r_encoded = None, r_attrs = attrs\<rparr>"
  define r where "r = (case p of None \<Rightarrow> ?r | Some p \<Rightarrow> set_permissions p ?r)"
  have r: "r_thing r = thing" "r_user r = user" "r_name r = m_name m" by (simp_all add: r_def set_permissions_def split: option.splits)
  have "memo_exact (update_caches m thing user (st\<lparr>rs_rows := rs_rows st @ [r]\<rparr>))"
    using ids_append_row(1) [OF r(3,1)] ids_append_row(2) [OF r(3,2)] by (intro update_caches_exact [OF assms(3,1)]) auto
  moreover have "\<forall>x \<in> set (rs_rows st). \<not> is_rel (m_name m) thing user x" using False find_is_rel(1) [of m thing user st] by auto
  then have "rows_unique (st\<lparr>rs_rows := rs_rows st @ [r]\<rparr>)" using assms(2) r by (auto simp: rows_unique_def is_rel_def)
  moreover have "snd (rel_add m thing user p attrs now conflict st) = update_caches m thing user (st\<lparr>rs_rows := rs_rows st @ [r]\<rparr>)"
    using False by (simp add: rel_add_def r_def Let_def)
  ultimately show ?thesis by (simp add: rows_unique_def)
qed

lemma rel_remove_inv:
  assumes "memo_exact st" "rows_unique st" "m \<in> set sr_managers"
  shows "memo_exact (snd (rel_remove m thing user st)) \<and> rows_unique (snd (rel_remove m thing user st))"
proof (cases "rel_get m thing (Some user) st")
  case None
  then show ?thesis using memo_exact_same_rows [OF assms(1,3)] assms(2) by (simp add: rel_remove_def rows_unique_def)
next
  case (Some r)
  have "memo_exact (update_caches m thing user (st\<lparr>rs_rows := filter (\<lambda>r. \<not> is_rel (m_name m) thing user r) (rs_rows st)\<rparr>))"
    by (rule update_caches_exact [OF assms(3,1)]) (simp_all add: ids_remove_rows)
  then show ?thesis using Some assms(2) by (simp add: rel_remove_def rows_unique_def distinct_map_filter)
qed

lemma rel_mutate_inv:
  assumes "memo_exact st" "rows_unique st" "m \<in> set sr_managers"
  shows "memo_exact (snd (rel_mutate m thing user attrs now conflict st)) \<and> rows_unique (snd (rel_mutate m thing user attrs now conflict st))"
proof (cases "rel_get m thing (Some user) st")
  case None
  then show ?thesis using rel_add_inv [OF assms] by (simp add: rel_mutate_def)
next
  case (Some r)
  let ?g = "\<lambda>x. if is_rel (m_name m) thing user x then r\<lparr>r_attrs := dict_update (r_attrs r) attrs\<rparr> else x"
  note r = find_is_rel(2) [OF Some]
  have "x = r" if "x \<in> set (rs_rows st)" "is_rel (m_name m) thing user x" for x
    using unique_row [OF assms(2) that(1) _ that(2)] r by blast
  then have g: "r_thing (?g x) = r_thing x \<and> r_user (?g x) = r_user x \<and> r_name (?g x) = r_name x \<and> r_date (?g x) = r_date x"
    if "x \<in> set (rs_rows st)" for x
    using that by simp
  note same = ids_map_rows [of "rs_rows st" ?g, OF g]
  have "rows_unique (st\<lparr>rs_rows := map ?g (rs_rows st)\<rparr>)"
  proof -
    have "map (\<lambda>r. (r_thing r, r_user r, r_name r)) (map ?g (rs_rows st)) = map (\<lambda>r. (r_thing r, r_user r, r_name r)) (rs_rows st)"
      by (rule same(3))
    then have "distinct (map (\<lambda>r. (r_thing r, r_user r, r_name r)) (map ?g (rs_rows st)))"
      using assms(2) unfolding rows_unique_def by metis
    then show ?thesis by (simp add: rows_unique_def del: map_map)
  qed
  moreover have "memo_exact (st\<lparr>rs_rows := map ?g (rs_rows st)\<rparr>)"
    using assms(1) by (simp add: memo_exact_def same(1,2))
  ultimately show ?thesis using Some by (simp add: rel_mutate_def Let_def)
qed

lemma memo_exactD:
  assumes "memo_exact st" "m \<in> set sr_managers"
  shows "\<not> m_disable_ids m \<Longrightarrow> rs_memo st (ids_fn m, i) = Some l \<Longrightarrow> l = rel_ids (m_name m) i (rs_rows st)"
    "\<not> m_disable_reverse m \<Longrightarrow> rs_memo st (reverse_ids_fn m, i) = Some l \<Longrightarrow> l = rel_reverse_ids (m_name m) i (rs_rows st)"
  using assms unfolding memo_exact_def by blast+

lemma memo_exact_store:
  assumes ex: "memo_exact st" and m: "m \<in> set sr_managers"
  shows "memo_exact (st\<lparr>rs_memo := (rs_memo st)((ids_fn m, i) \<mapsto> rel_ids (m_name m) i (rs_rows st))\<rparr>)"
    "memo_exact (st\<lparr>rs_memo := (rs_memo st)((reverse_ids_fn m, i) \<mapsto> rel_reverse_ids (m_name m) i (rs_rows st))\<rparr>)"
proof -
  let ?s1 = "st\<lparr>rs_memo := (rs_memo st)((ids_fn m, i) \<mapsto> rel_ids (m_name m) i (rs_rows st))\<rparr>"
  let ?s2 = "st\<lparr>rs_memo := (rs_memo st)((reverse_ids_fn m, i) \<mapsto> rel_reverse_ids (m_name m) i (rs_rows st))\<rparr>"
  have *: "(\<not> m_disable_ids m' \<and> rs_memo s (ids_fn m', j) = Some l \<longrightarrow> l = rel_ids (m_name m') j (rs_rows s)) \<and>
     (\<not> m_disable_reverse m' \<and> rs_memo s (reverse_ids_fn m', j) = Some l \<longrightarrow> l = rel_reverse_ids (m_name m') j (rs_rows s))"
    if m': "m' \<in> set sr_managers" and "s = ?s1 \<or> s = ?s2" for m' j l s
    using that(2) fn_names [OF m' m] fn_names [OF m m'] memo_exactD [OF ex m', of j l] by (auto split: if_splits)
  show "memo_exact ?s1" unfolding memo_exact_def by (intro ballI allI *) simp_all
  show "memo_exact ?s2" unfolding memo_exact_def by (intro ballI allI *) simp_all
qed

lemma rel_step_inv:
  assumes "memo_exact st" "rows_unique st" "op_manager x \<in> set sr_managers"
  shows "memo_exact (rel_step x st) \<and> rows_unique (rel_step x st)"
proof (cases x)
  case (Add m thing user p attrs now conflict)
  then show ?thesis using rel_add_inv [OF assms(1,2)] assms(3) by (simp add: rel_step_def op_manager_def)
next
  case (Remove m thing user)
  then show ?thesis using rel_remove_inv [OF assms(1,2)] assms(3) by (simp add: rel_step_def op_manager_def)
next
  case (Mutate m thing user attrs now conflict)
  then show ?thesis using rel_mutate_inv [OF assms(1,2)] assms(3) by (simp add: rel_step_def op_manager_def)
next
  case (ReadIds m i)
  then have "m \<in> set sr_managers" using assms(3) by (simp add: op_manager_def)
  then show ?thesis using memo_exact_store(1) [OF assms(1)] assms(1,2) ReadIds
    by (auto simp: rel_step_def memo_ids_def memoized_def Let_def rows_unique_def split: option.splits)
next
  case (ReadReverse m i)
  then have "m \<in> set sr_managers" using assms(3) by (simp add: op_manager_def)
  then show ?thesis using memo_exact_store(2) [OF assms(1)] assms(1,2) ReadReverse
    by (auto simp: rel_step_def memo_reverse_ids_def memoized_def Let_def rows_unique_def split: option.splits)
qed

lemma rel_run_inv:
  "memo_exact st \<Longrightarrow> rows_unique st \<Longrightarrow> \<forall>x \<in> set xs. op_manager x \<in> set sr_managers \<Longrightarrow>
   memo_exact (fold rel_step xs st) \<and> rows_unique (fold rel_step xs st)"
  by (induction xs arbitrary: st) (simp_all add: rel_step_inv)

subsection \<open>Properties\<close>

definition empty_rels :: rel_state where
  "empty_rels = \<lparr>rs_rows = [], rs_memo = (\<lambda>_. None)\<rparr>"

text \<open>
  (C17) Memoized lists of members are never stale: after any sequence of additions, removals, changes and
  reads through the relations of a subreddit, the list of user ids of a thing that a read returns has
  exactly the users related to it now, each once and in the order of the dates, whether it comes from the
  cache or not.
\<close>

theorem memoized_members_exact:
  assumes "\<forall>x \<in> set xs. op_manager x \<in> set sr_managers" "m \<in> set sr_managers" "\<not> m_disable_ids m"
  shows "\<exists>l st'. memo_ids m thing (fold rel_step xs empty_rels) = Inr (l, st') \<and> distinct l \<and>
    (\<forall>u. u \<in> set l \<longleftrightarrow> rel_get m thing (Some u) (fold rel_step xs empty_rels) \<noteq> None) \<and>
    l = rel_ids (m_name m) thing (rs_rows (fold rel_step xs empty_rels))"
proof -
  let ?st = "fold rel_step xs empty_rels"
  have "memo_exact empty_rels" "rows_unique empty_rels" by (simp_all add: memo_exact_def rows_unique_def empty_rels_def)
  then have inv: "memo_exact ?st" "rows_unique ?st" using rel_run_inv assms(1) by blast+
  have "fst (memoized (ids_fn m, thing) (rel_ids (m_name m) thing) False ?st) = rel_ids (m_name m) thing (rs_rows ?st)"
    using memo_exactD(1) [OF inv(1) assms(2,3)] by (auto simp: memoized_def Let_def split: option.splits)
  then obtain st' where "memo_ids m thing ?st = Inr (rel_ids (m_name m) thing (rs_rows ?st), st')"
    using assms(3) by (cases "memoized (ids_fn m, thing) (rel_ids (m_name m) thing) False ?st") (simp add: memo_ids_def)
  moreover have "distinct (rel_ids (m_name m) thing (rs_rows ?st))"
    using inv(2) unfolding rel_ids_def rows_unique_def distinct_map
    by (auto simp: inj_on_def)
  moreover have "u \<in> set (rel_ids (m_name m) thing (rs_rows ?st)) \<longleftrightarrow> rel_get m thing (Some u) ?st \<noteq> None" for u
    using find_is_rel(1) [of m thing u ?st] by (auto simp: rel_ids_def is_rel_def)
  ultimately show ?thesis by blast
qed

theorem memoized_members_exact_witness:
  "\<exists>l st'. memo_ids moderator 1 (fold rel_step [Add moderator 1 7 None [] 5 False, ReadIds moderator 1,
       Add moderator 1 8 None [] 4 False, Remove moderator 1 7] empty_rels) = Inr (l, st') \<and> l = [8]"
proof -
  let ?xs = "[Add moderator 1 7 None [] 5 False, ReadIds moderator 1, Add moderator 1 8 None [] 4 False, Remove moderator 1 7]"
  have "\<forall>x \<in> set ?xs. op_manager x \<in> set sr_managers" "moderator \<in> set sr_managers" "\<not> m_disable_ids moderator"
    by (simp_all add: op_manager_def sr_managers_def moderator_def)
  from memoized_members_exact [OF this, of 1]
  obtain l st' where r: "memo_ids moderator 1 (fold rel_step ?xs empty_rels) = Inr (l, st')"
    "l = rel_ids (m_name moderator) 1 (rs_rows (fold rel_step ?xs empty_rels))" by blast
  have "rel_ids (m_name moderator) 1 (rs_rows (fold rel_step ?xs empty_rels)) = [8]" by code_simp
  then show ?thesis using r by simp
qed

subsection \<open>Membership over time\<close>

text \<open>What a client of a relation relies on: only the steps that add or remove a pair change its membership.\<close>

locale membership =
  fixes mem :: "'k \<Rightarrow> 's \<Rightarrow> bool" and step :: "'x \<Rightarrow> 's \<Rightarrow> 's" and adds :: "'x \<Rightarrow> 'k \<Rightarrow> bool" and removes :: "'x \<Rightarrow> 'k \<Rightarrow> bool"
  assumes mem_step: "mem k (step x s) \<longleftrightarrow> adds x k \<or> mem k s \<and> \<not> removes x k"
begin

lemma member_stays: "mem k s \<Longrightarrow> \<forall>x \<in> set xs. \<not> removes x k \<Longrightarrow> mem k (fold step xs s)"
  by (induction xs arbitrary: s) (simp_all add: mem_step)

lemma outsider_stays: "\<not> mem k s \<Longrightarrow> \<forall>x \<in> set xs. \<not> adds x k \<Longrightarrow> \<not> mem k (fold step xs s)"
  by (induction xs arbitrary: s) (simp_all add: mem_step)

lemma member_since: "adds x k \<Longrightarrow> \<forall>y \<in> set ys. \<not> removes y k \<Longrightarrow> mem k (fold step (xs @ x # ys) s)"
  using member_stays [of k "step x (fold step xs s)" ys] by (simp add: mem_step)

lemma outsider_since: "\<not> adds x k \<Longrightarrow> removes x k \<Longrightarrow> \<forall>y \<in> set ys. \<not> adds y k \<Longrightarrow> \<not> mem k (fold step (xs @ x # ys) s)"
  using outsider_stays [of k "step x (fold step xs s)" ys] by (simp add: mem_step)

end

definition member :: "manager \<Rightarrow> int \<times> int \<Rightarrow> rel_state \<Rightarrow> bool" where
  "member m k st \<longleftrightarrow> rel_get m (fst k) (Some (snd k)) st \<noteq> None"

definition op_adds :: "manager \<Rightarrow> rel_op \<Rightarrow> int \<times> int \<Rightarrow> bool" where
  "op_adds m x k \<longleftrightarrow>
     (case x of
        Add m' t u _ _ _ conflict \<Rightarrow> m_name m' = m_name m \<and> (t, u) = k \<and> \<not> conflict
      | Mutate m' t u _ _ conflict \<Rightarrow> m_name m' = m_name m \<and> (t, u) = k \<and> \<not> conflict
      | _ \<Rightarrow> False)"

definition op_removes :: "manager \<Rightarrow> rel_op \<Rightarrow> int \<times> int \<Rightarrow> bool" where
  "op_removes m x k \<longleftrightarrow> (case x of Remove m' t u \<Rightarrow> m_name m' = m_name m \<and> (t, u) = k | _ \<Rightarrow> False)"

lemma member_rows: "member m k st \<longleftrightarrow> (\<exists>r \<in> set (rs_rows st). is_rel (m_name m) (fst k) (snd k) r)"
  using find_is_rel(1) [of m "fst k" "snd k" st] by (auto simp: member_def)

lemma rel_add_rows:
  "rs_rows (snd (rel_add m t u p attrs now conflict st)) =
     (if rel_get m t (Some u) st \<noteq> None \<or> conflict then rs_rows st
      else rs_rows st @ [(case p of None \<Rightarrow> \<lparr>r_thing = t, r_user = u, r_name = m_name m, r_date = now, r_encoded = None, r_attrs = attrs\<rparr>
        | Some p \<Rightarrow> set_permissions p \<lparr>r_thing = t, r_user = u, r_name = m_name m, r_date = now, r_encoded = None, r_attrs = attrs\<rparr>)])"
  by (simp add: rel_add_def Let_def)

lemma member_add:
  "member m k (snd (rel_add m' t u p attrs now conflict st)) \<longleftrightarrow> m_name m' = m_name m \<and> (t, u) = k \<and> \<not> conflict \<or> member m k st"
  by (cases k) (auto simp: member_rows rel_add_rows find_is_rel(1) is_rel_def set_permissions_def split: option.splits)

lemma member_mutate:
  "member m k (snd (rel_mutate m' t u attrs now conflict st)) \<longleftrightarrow> m_name m' = m_name m \<and> (t, u) = k \<and> \<not> conflict \<or> member m k st"
proof (cases "rel_get m' t (Some u) st")
  case None
  then show ?thesis by (simp add: rel_mutate_def member_add)
next
  case (Some r)
  define g where "g = (\<lambda>x. if is_rel (m_name m') t u x then r\<lparr>r_attrs := dict_update (r_attrs r) attrs\<rparr> else x)"
  have "is_rel n a b (g x) = is_rel n a b x" for n a b x
    using find_is_rel(2) [OF Some] by (simp add: is_rel_def g_def)
  moreover have "rs_rows (snd (rel_mutate m' t u attrs now conflict st)) = map g (rs_rows st)"
    using Some by (simp add: rel_mutate_def Let_def g_def)
  ultimately have "member m k (snd (rel_mutate m' t u attrs now conflict st)) = member m k st"
    by (simp add: member_rows)
  moreover have "member m k st" if "m_name m' = m_name m" "(t, u) = k"
    using that find_is_rel(2) [OF Some] by (auto simp: member_rows)
  ultimately show ?thesis by blast
qed

lemma member_remove:
  "member m k (snd (rel_remove m' t u st)) \<longleftrightarrow> member m k st \<and> \<not> (m_name m' = m_name m \<and> (t, u) = k)"
proof (cases "rel_get m' t (Some u) st")
  case None
  then show ?thesis using find_is_rel(1) [of m' t u st] by (cases k) (auto simp: rel_remove_def member_rows is_rel_def)
next
  case (Some r)
  then show ?thesis by (cases k) (auto simp: rel_remove_def member_rows is_rel_def)
qed

interpretation rels: membership "member m" rel_step "op_adds m" "op_removes m" for m
proof
  fix k x st
  have "rs_rows (rel_step x st) = rs_rows st" if "x = ReadIds m' i \<or> x = ReadReverse m' i" for m' i
    using that by (auto simp: rel_step_def memo_ids_def memo_reverse_ids_def memoized_def Let_def split: option.splits)
  then have read: "member m k (rel_step x st) = member m k st" if "x = ReadIds m' i \<or> x = ReadReverse m' i" for m' i
    unfolding member_rows using that by metis
  show "member m k (rel_step x st) \<longleftrightarrow> op_adds m x k \<or> member m k st \<and> \<not> op_removes m x k"
  proof (cases x)
    case (Add m' t u p attrs now conflict)
    then show ?thesis by (simp add: rel_step_def op_adds_def op_removes_def member_add)
  next
    case (Remove m' t u)
    then show ?thesis by (simp add: rel_step_def op_adds_def op_removes_def member_remove)
  next
    case (Mutate m' t u attrs now conflict)
    then show ?thesis by (simp add: rel_step_def op_adds_def op_removes_def member_mutate)
  qed (use read in \<open>simp_all add: op_adds_def op_removes_def\<close>)
qed

end
