(* ===== verification/Subreddit.thy ===== *)
theory Subreddit
  imports UserRel
begin

section \<open>Access to subreddits\<close>

text \<open>
  Models the access decisions of \<open>r2/models/subreddit.py\<close>: who may view, comment, submit, moderate and
  remove moderators, and the sticky links of a subreddit. A request knows whether the user is an
  administrator and logged in, what a plugin's hook answers and which quarantined subreddits the user
  opted in to.
\<close>

record suser =
  u_id :: int
  u_global_banned :: bool
  u_gold :: bool
  u_gold_charter :: bool
  u_employee :: bool
  u_email_verified :: bool
  u_special :: bool

record subreddit =
  sr_id :: int
  sr_type :: string
  sr_spam :: bool
  sr_quarantine :: bool
  sr_over_18 :: bool
  sr_link_type :: string

record request =
  rq_admin :: bool
  rq_loggedin :: bool
  rq_can_comment_hook :: "bool option"
  rq_opted_in :: "int \<Rightarrow> int \<Rightarrow> bool"
  rq_ratelimit_exempt :: bool

definition valid_types :: "string set" where
  "valid_types = {''archived'', ''employees_only'', ''gold_only'', ''gold_restricted'', ''private'', ''public'', ''restricted''}"

definition private_types :: "string set" where
  "private_types = {''employees_only'', ''gold_only'', ''private''}"

definition allowed_types :: "subreddit \<Rightarrow> string set" where
  "allowed_types sr = (if sr_link_type sr = ''any'' then {''link'', ''self''} else {sr_link_type sr})"

definition allows_referrers :: "subreddit \<Rightarrow> bool" where
  "allows_referrers sr \<longleftrightarrow> sr_type sr \<in> {''public'', ''restricted'', ''gold_restricted'', ''archived''}"

subsection \<open>Members\<close>

definition is_member :: "manager \<Rightarrow> subreddit \<Rightarrow> suser \<Rightarrow> rel_state \<Rightarrow> bool" where
  "is_member m sr user st \<longleftrightarrow> rel_get m (sr_id sr) (Some (u_id user)) st \<noteq> None"

definition is_contributor :: "subreddit \<Rightarrow> suser \<Rightarrow> rel_state \<Rightarrow> bool" where
  "is_contributor sr user st \<longleftrightarrow>
     (if sr_type sr = ''employees_only'' then u_employee user else is_member contributor sr user st)"

fun all_permissions :: "srel \<Rightarrow> string list \<Rightarrow> bool result" where
  "all_permissions r [] = Inr True"
| "all_permissions r (p # ps) = bindr (has_permission r p) (\<lambda>b. if b then all_permissions r ps else Inr False)"

definition is_moderator_with_perms :: "subreddit \<Rightarrow> suser \<Rightarrow> string list \<Rightarrow> rel_state \<Rightarrow> bool result" where
  "is_moderator_with_perms sr user ps st =
     (if u_global_banned user then Inr False
      else (case rel_get moderator (sr_id sr) (Some (u_id user)) st of
          None \<Rightarrow> Inr False
        | Some r \<Rightarrow> all_permissions r ps))"

definition is_limited_moderator :: "subreddit \<Rightarrow> suser \<Rightarrow> rel_state \<Rightarrow> bool result" where
  "is_limited_moderator sr user st =
     (if u_global_banned user then Inr False
      else (case rel_get moderator (sr_id sr) (Some (u_id user)) st of
          None \<Rightarrow> Inr False
        | Some r \<Rightarrow> bindr (rel_is_superuser r) (\<lambda>b. Inr (\<not> b))))"

definition is_unlimited_moderator :: "subreddit \<Rightarrow> suser \<Rightarrow> rel_state \<Rightarrow> bool result" where
  "is_unlimited_moderator sr user st =
     (if u_global_banned user then Inr False
      else (case rel_get moderator (sr_id sr) (Some (u_id user)) st of
          None \<Rightarrow> Inr False
        | Some r \<Rightarrow> rel_is_superuser r))"

definition update_moderator_permissions ::
    "subreddit \<Rightarrow> suser \<Rightarrow> (string \<times> bool option) list \<Rightarrow> rel_state \<Rightarrow> rel_state result" where
  "update_moderator_permissions sr user kwargs st =
     (case rel_get moderator (sr_id sr) (Some (u_id user)) st of
        None \<Rightarrow> Inr st
      | Some r \<Rightarrow> bindr (update_permissions kwargs r) (\<lambda>r'.
          Inr (st\<lparr>rs_rows := map (\<lambda>x. if is_rel ''moderator'' (sr_id sr) (u_id user) x then r' else x) (rs_rows st)\<rparr>)))"

subsection \<open>Viewing\<close>

definition is_exposed :: "request \<Rightarrow> subreddit \<Rightarrow> suser option \<Rightarrow> bool" where
  "is_exposed rq sr user \<longleftrightarrow>
     (if \<not> sr_quarantine sr then True
      else (case user of None \<Rightarrow> False | Some u \<Rightarrow> u_email_verified u \<and> rq_opted_in rq (u_id u) (sr_id sr)))"

definition is_allowed_to_view :: "request \<Rightarrow> subreddit \<Rightarrow> suser option \<Rightarrow> rel_state \<Rightarrow> bool" where
  "is_allowed_to_view rq sr user st \<longleftrightarrow>
     (if sr_type sr \<in> {''public'', ''restricted'', ''gold_restricted'', ''archived''} then True
      else (case (rq_loggedin rq, user) of
          (True, Some u) \<Rightarrow>
            if sr_type sr = ''gold_only''
            then u_gold u \<or> u_gold_charter u \<or> is_member moderator sr u st \<or> is_member moderator_invite sr u st
            else is_contributor sr u st \<or> is_member moderator sr u st \<or> is_member moderator_invite sr u st
        | _ \<Rightarrow> False))"

definition can_view :: "request \<Rightarrow> subreddit \<Rightarrow> suser option \<Rightarrow> rel_state \<Rightarrow> bool" where
  "can_view rq sr user st \<longleftrightarrow>
     (if rq_admin rq then True
      else if sr_spam sr \<or> \<not> is_exposed rq sr user then False
      else is_allowed_to_view rq sr user st)"

definition can_view_in_modlist :: "request \<Rightarrow> subreddit \<Rightarrow> suser option \<Rightarrow> rel_state \<Rightarrow> bool" where
  "can_view_in_modlist rq sr user st \<longleftrightarrow>
     (if rq_admin rq then True else if sr_spam sr then False else is_allowed_to_view rq sr user st)"

definition is_embeddable :: "subreddit \<Rightarrow> bool" where
  "is_embeddable sr \<longleftrightarrow> sr_type sr \<notin> private_types \<and> \<not> sr_over_18 sr \<and> \<not> sr_spam sr \<and> \<not> sr_quarantine sr"

text \<open>\<open>Subreddit.keep_item\<close>.\<close>

definition sr_keep_item :: "request \<Rightarrow> subreddit \<Rightarrow> suser option \<Rightarrow> rel_state \<Rightarrow> bool" where
  "sr_keep_item rq sr c_user st \<longleftrightarrow> (if rq_admin rq then True else can_view rq sr (if rq_loggedin rq then c_user else None) st)"

subsection \<open>Writing\<close>

definition can_comment :: "request \<Rightarrow> subreddit \<Rightarrow> suser \<Rightarrow> rel_state \<Rightarrow> bool" where
  "can_comment rq sr user st \<longleftrightarrow>
     (if rq_admin rq then True
      else (case rq_can_comment_hook rq of
          Some override \<Rightarrow> override
        | None \<Rightarrow>
            if is_member banned sr user st \<or> u_global_banned user then False
            else if sr_type sr = ''gold_restricted'' \<and> u_gold user then True
            else if sr_type sr \<in> {''public'', ''restricted''} then True
            else if is_member moderator sr user st \<or> is_contributor sr user st then True
            else if sr_type sr = ''gold_only'' then u_gold user \<or> u_gold_charter user
            else False))"

definition can_submit :: "request \<Rightarrow> subreddit \<Rightarrow> suser \<Rightarrow> bool \<Rightarrow> rel_state \<Rightarrow> bool" where
  "can_submit rq sr user promotion st \<longleftrightarrow>
     (if rq_admin rq then True
      else if is_member banned sr user st \<and> \<not> promotion then False
      else if u_global_banned user then False
      else if sr_spam sr then False
      else if sr_type sr = ''public'' then True
      else if is_member moderator sr user st \<or> is_contributor sr user st then True
      else if sr_type sr = ''gold_only'' then u_gold user \<or> u_gold_charter user
      else if sr_type sr = ''gold_restricted'' \<and> u_gold user then True
      else if sr_type sr = ''restricted'' \<and> promotion then True
      else False)"

definition or_moderator :: "request \<Rightarrow> subreddit \<Rightarrow> suser \<Rightarrow> string list \<Rightarrow> rel_state \<Rightarrow> bool result" where
  "or_moderator rq sr user ps st = (if rq_admin rq then Inr True else is_moderator_with_perms sr user ps st)"

definition can_submit_link :: "request \<Rightarrow> subreddit \<Rightarrow> suser \<Rightarrow> rel_state \<Rightarrow> bool result" where
  "can_submit_link rq sr user st =
     bindr (or_moderator rq sr user [''posts''] st) (\<lambda>b. Inr (b \<or> ''link'' \<in> allowed_types sr))"

definition can_submit_text :: "request \<Rightarrow> subreddit \<Rightarrow> suser \<Rightarrow> rel_state \<Rightarrow> bool result" where
  "can_submit_text rq sr user st =
     bindr (or_moderator rq sr user [''posts''] st) (\<lambda>b. Inr (b \<or> ''self'' \<in> allowed_types sr))"

definition can_ban :: "request \<Rightarrow> subreddit \<Rightarrow> suser option \<Rightarrow> rel_state \<Rightarrow> bool result" where
  "can_ban rq sr user st = (case user of None \<Rightarrow> Inr False | Some u \<Rightarrow> or_moderator rq sr u [''posts''] st)"

definition can_distinguish :: "request \<Rightarrow> subreddit \<Rightarrow> suser option \<Rightarrow> rel_state \<Rightarrow> bool result" where
  "can_distinguish rq sr user st = (case user of None \<Rightarrow> Inr False | Some u \<Rightarrow> or_moderator rq sr u [''posts''] st)"

text \<open>\<open>u_special\<close>: the system user and the automoderator cannot be muted (\<open>Account.is_mutable\<close>).\<close>

definition is_mutable :: "subreddit \<Rightarrow> suser \<Rightarrow> rel_state \<Rightarrow> bool" where
  "is_mutable sr user st \<longleftrightarrow> (if is_member moderator sr user st then False else \<not> u_special user)"

definition can_mute :: "request \<Rightarrow> subreddit \<Rightarrow> suser \<Rightarrow> suser \<Rightarrow> rel_state \<Rightarrow> bool result" where
  "can_mute rq sr muter user st =
     (if is_mutable sr user st then or_moderator rq sr muter [''access'', ''mail''] st else Inr False)"

definition can_change_stylesheet :: "request \<Rightarrow> subreddit \<Rightarrow> suser \<Rightarrow> rel_state \<Rightarrow> bool result" where
  "can_change_stylesheet rq sr user st = (if rq_loggedin rq then or_moderator rq sr user [''config''] st else Inr False)"

definition is_special :: "request \<Rightarrow> subreddit \<Rightarrow> suser option \<Rightarrow> rel_state \<Rightarrow> bool" where
  "is_special rq sr user st \<longleftrightarrow>
     (case user of None \<Rightarrow> False
      | Some u \<Rightarrow> rq_admin rq \<or> is_member moderator sr u st \<or> is_contributor sr u st)"

text \<open>\<open>karma\<close> is \<open>user.karma(kind, self)\<close> and \<open>min_karma\<close> the threshold of the settings for the kind.\<close>

definition should_ratelimit :: "request \<Rightarrow> subreddit \<Rightarrow> suser option \<Rightarrow> int \<Rightarrow> int \<Rightarrow> rel_state \<Rightarrow> bool" where
  "should_ratelimit rq sr user karma min_karma st \<longleftrightarrow>
     (if is_special rq sr user st then False else if rq_ratelimit_exempt rq then False else karma < min_karma)"

text \<open>\<open>can_demod\<close>.\<close>

definition can_demod :: "subreddit \<Rightarrow> suser \<Rightarrow> suser \<Rightarrow> rel_state \<Rightarrow> bool result" where
  "can_demod sr bully victim st =
     (let bully_rel = rel_get moderator (sr_id sr) (Some (u_id bully)) st;
          victim_rel = rel_get moderator (sr_id sr) (Some (u_id victim)) st in
      if bully_rel \<noteq> None \<and> u_id bully = u_id victim then Inr True
      else (case (bully_rel, victim_rel) of
          (Some b, Some v) \<Rightarrow> bindr (rel_is_superuser b) (\<lambda>super. Inr (super \<and> r_date b \<le> r_date v))
        | _ \<Rightarrow> Inr False))"

subsection \<open>Sticky links\<close>

definition MAX_STICKIES :: nat where
  "MAX_STICKIES = 2"

text \<open>
  \<open>set_sticky\<close> and \<open>remove_sticky\<close> on the list of stickied names (\<open>None\<close>: never set), with the entries they
  add to the moderation log as action, target and details. \<open>num\<close> is the slot, which the controllers
  validate to be at least 1; \<open>None\<close> and 0 leave it open. \<open>log_user\<close> says whether a user is given.
\<close>

type_synonym mod_action = "string \<times> string \<times> string option"

definition sticky_log :: "bool \<Rightarrow> string \<Rightarrow> string list \<Rightarrow> mod_action list" where
  "sticky_log log_user link unstickied =
     (if log_user then map (\<lambda>name. (''unsticky'', name, Some ''replaced'')) unstickied @ [(''sticky'', link, None)] else [])"

definition has_max_stickies :: "string list \<Rightarrow> bool" where
  "has_max_stickies xs \<longleftrightarrow> (if xs = [] then False else length xs \<ge> MAX_STICKIES)"

definition append_sticky :: "string \<Rightarrow> string list \<Rightarrow> string list \<times> string list" where
  "append_sticky link xs =
     (if has_max_stickies xs then (take (MAX_STICKIES - 1) xs @ [link], drop (MAX_STICKIES - 1) xs)
      else (xs @ [link], []))"

definition set_sticky :: "string \<Rightarrow> bool \<Rightarrow> nat option \<Rightarrow> string list option \<Rightarrow> string list option \<times> mod_action list" where
  "set_sticky link log_user num stickies =
     (case stickies of
        None \<Rightarrow> (Some [link], sticky_log log_user link [])
      | Some xs \<Rightarrow>
          if xs = [] then (Some [link], sticky_log log_user link [])
          else if link \<in> set xs then (stickies, [])
          else (let (new, unstickied) = (case num of
                  Some n \<Rightarrow> if n \<noteq> 0 \<and> n \<le> length xs then (xs[n - 1 := link], [xs ! (n - 1)]) else append_sticky link xs
                | None \<Rightarrow> append_sticky link xs)
              in (Some new, sticky_log log_user link unstickied)))"

definition remove_sticky :: "string \<Rightarrow> bool \<Rightarrow> string list option \<Rightarrow> string list option \<times> mod_action list" where
  "remove_sticky link log_user stickies =
     (case stickies of
        None \<Rightarrow> (None, [])
      | Some xs \<Rightarrow>
          if link \<notin> set xs then (stickies, [])
          else (Some (remove1 link xs), if log_user then [(''unsticky'', link, None)] else []))"

subsection \<open>Properties\<close>

lemma is_member_member: "is_member m sr user st \<longleftrightarrow> member m (sr_id sr, u_id user) st"
  by (simp add: is_member_def member_def)

text \<open>
  (C18) A private subreddit stays closed. As long as no step of any run makes a user moderator,
  contributor or invited moderator of a subreddit of a private type, the user can neither view it nor
  comment nor submit there, whatever else happens to its relations (employees, gold members and site
  administrators apart); visitors who are not logged in cannot view it either.
\<close>

theorem private_subreddit_closed:
  assumes "sr_type sr \<in> private_types" "\<not> rq_admin rq" "rq_can_comment_hook rq = None"
    and "\<not> u_gold user" "\<not> u_gold_charter user" "\<not> u_employee user"
    and "\<forall>m \<in> {moderator, contributor, moderator_invite}. \<not> is_member m sr user st \<and>
      (\<forall>x \<in> set xs. \<not> op_adds m x (sr_id sr, u_id user))"
  shows "\<not> can_view rq sr (Some user) (fold rel_step xs st) \<and> \<not> can_view rq sr None (fold rel_step xs st) \<and>
    \<not> can_comment rq sr user (fold rel_step xs st) \<and> \<not> can_submit rq sr user promotion (fold rel_step xs st)"
proof -
  let ?st = "fold rel_step xs st"
  have out: "\<not> is_member m sr user ?st" if "m \<in> {moderator, contributor, moderator_invite}" for m
    using bspec [OF assms(7) that] rels.outsider_stays [of m "(sr_id sr, u_id user)" st xs]
    unfolding is_member_member by blast
  have no: "\<not> is_member moderator sr user ?st" "\<not> is_member moderator_invite sr user ?st" "\<not> is_contributor sr user ?st"
    using out [of moderator] out [of moderator_invite] out [of contributor] assms(6) by (simp_all add: is_contributor_def)
  have type: "sr_type sr = ''employees_only'' \<or> sr_type sr = ''gold_only'' \<or> sr_type sr = ''private''"
    using assms(1) by (simp add: private_types_def)
  have "\<not> can_view rq sr (Some user) ?st" "\<not> can_view rq sr None ?st"
    using type no assms(2,4,5) by (elim disjE; simp add: can_view_def is_allowed_to_view_def split: bool.split)+
  moreover have "\<not> can_comment rq sr user ?st" "\<not> can_submit rq sr user promotion ?st"
    using type no assms(2-5) by (elim disjE; simp add: can_comment_def can_submit_def)+
  ultimately show ?thesis by simp
qed

definition sample_suser :: suser where
  "sample_suser = \<lparr>u_id = 7, u_global_banned = False, u_gold = False, u_gold_charter = False, u_employee = False,
     u_email_verified = True, u_special = False\<rparr>"

definition sample_subreddit :: "string \<Rightarrow> subreddit" where
  "sample_subreddit kind = \<lparr>sr_id = 1, sr_type = kind, sr_spam = False, sr_quarantine = False, sr_over_18 = False, sr_link_type = ''any''\<rparr>"

definition sample_request :: request where
  "sample_request = \<lparr>rq_admin = False, rq_loggedin = True, rq_can_comment_hook = None, rq_opted_in = (\<lambda>_ _. False),
     rq_ratelimit_exempt = False\<rparr>"

theorem private_subreddit_closed_witness:
  "\<not> can_view sample_request (sample_subreddit ''private'') (Some sample_suser)
      (fold rel_step [Add contributor 1 8 None [] 3 False, Add banned 1 7 None [] 4 False] empty_rels) \<and>
   \<not> can_submit sample_request (sample_subreddit ''private'') sample_suser False
      (fold rel_step [Add contributor 1 8 None [] 3 False, Add banned 1 7 None [] 4 False] empty_rels)"
proof -
  let ?xs = "[Add contributor 1 8 None [] 3 False, Add banned 1 7 None [] 4 False]"
  have "\<forall>m \<in> {moderator, contributor, moderator_invite}. \<not> is_member m (sample_subreddit ''private'') sample_suser empty_rels \<and>
      (\<forall>x \<in> set ?xs. \<not> op_adds m x (sr_id (sample_subreddit ''private''), u_id sample_suser))"
    by (simp add: is_member_def rel_get_def empty_rels_def op_adds_def moderator_def contributor_def moderator_invite_def
        banned_def sample_subreddit_def sample_suser_def)
  from private_subreddit_closed [OF _ _ _ _ _ _ this, of sample_request False] show ?thesis
    by (simp add: private_types_def sample_request_def) (simp add: sample_subreddit_def sample_suser_def)
qed

text \<open>
  (C19) A ban takes effect at once and lasts: from the step that bans a user from a subreddit until a step
  that lifts the ban, whatever happens in between (adding the user as moderator or contributor included),
  the user can neither comment nor submit; only site administrators and the hook of a plugin override it.
\<close>

theorem ban_locks_out:
  assumes "\<not> rq_admin rq" "rq_can_comment_hook rq = None"
    and "\<forall>y \<in> set ys. \<not> op_removes banned y (sr_id sr, u_id user)"
    and "ban = Add banned (sr_id sr) (u_id user) p attrs now False"
  shows "\<not> can_comment rq sr user (fold rel_step (xs @ ban # ys) st) \<and>
    \<not> can_submit rq sr user False (fold rel_step (xs @ ban # ys) st)"
proof -
  have "op_adds banned ban (sr_id sr, u_id user)" using assms(4) by (simp add: op_adds_def)
  then have "is_member banned sr user (fold rel_step (xs @ ban # ys) st)"
    unfolding is_member_member by (rule rels.member_since [OF _ assms(3)])
  then show ?thesis using assms(1,2) by (simp add: can_comment_def can_submit_def)
qed

theorem ban_locks_out_witness:
  "\<not> can_comment sample_request (sample_subreddit ''public'') sample_suser
     (fold rel_step ([] @ Add banned 1 7 None [] 4 False # [Add moderator 1 7 None [] 5 False, Remove banned 1 8]) empty_rels)"
proof -
  have "\<forall>y \<in> set [Add moderator 1 7 None [] 5 False, Remove banned 1 8].
      \<not> op_removes banned y (sr_id (sample_subreddit ''public''), u_id sample_suser)"
    by (simp add: op_removes_def sample_suser_def)
  from ban_locks_out [OF _ _ this, of sample_request "Add banned 1 7 None [] 4 False" None "[]" 4 "[]" empty_rels] show ?thesis
    by (simp add: sample_request_def) (simp add: sample_subreddit_def sample_suser_def)
qed

text \<open>
  Contributors of a subreddit for gold members cannot read what they write: somebody who was made a
  contributor but has no gold may comment and submit, but not view the subreddit. The comment at
  \<open>private_types\<close> says that contributors and moderators have access to the content of these types.
\<close>

lemma gold_contributor_cannot_view:
  assumes "sr_type sr = ''gold_only''" "\<not> rq_admin rq" "rq_can_comment_hook rq = None" "\<not> sr_spam sr"
    and "is_member contributor sr user st" "\<not> is_member banned sr user st" "\<not> u_global_banned user"
    and "\<not> u_gold user" "\<not> u_gold_charter user" "\<not> is_member moderator sr user st" "\<not> is_member moderator_invite sr user st"
  shows "can_comment rq sr user st \<and> can_submit rq sr user promotion st \<and> \<not> can_view rq sr (Some user) st"
  using assms by (simp add: can_comment_def can_submit_def can_view_def is_allowed_to_view_def is_contributor_def split: bool.splits)

text \<open>
  Moderators are removed in order of seniority: one moderator can remove another only with all
  permissions and when not appointed later; so two moderators can remove each other only if they were
  appointed at the same time, and nobody else can remove a moderator who was appointed before all others.
\<close>

lemma demod_seniority:
  assumes "can_demod sr a b st = Inr True" "u_id a \<noteq> u_id b"
  shows "\<exists>ra rb. rel_get moderator (sr_id sr) (Some (u_id a)) st = Some ra \<and> rel_get moderator (sr_id sr) (Some (u_id b)) st = Some rb \<and>
    rel_is_superuser ra = Inr True \<and> r_date ra \<le> r_date rb \<and> (can_demod sr b a st = Inr True \<longrightarrow> r_date ra = r_date rb)"
proof -
  have d: "\<exists>rx ry. rel_get moderator (sr_id sr) (Some (u_id x)) st = Some rx \<and> rel_get moderator (sr_id sr) (Some (u_id y)) st = Some ry \<and>
      rel_is_superuser rx = Inr True \<and> r_date rx \<le> r_date ry"
    if "can_demod sr x y st = Inr True" "u_id x \<noteq> u_id y" for x y
    using that by (auto simp: can_demod_def Let_def bindr_eq_Inr_iff split: option.splits)
  obtain ra rb where r: "rel_get moderator (sr_id sr) (Some (u_id a)) st = Some ra" "rel_get moderator (sr_id sr) (Some (u_id b)) st = Some rb"
      "rel_is_superuser ra = Inr True" "r_date ra \<le> r_date rb"
    using d [OF assms] by blast
  have "r_date ra = r_date rb" if "can_demod sr b a st = Inr True"
    using d [OF that] assms(2) r by auto
  then show ?thesis using r by blast
qed

text \<open>
  (C20) The sticky links of a subreddit: there are never more than \<open>MAX_STICKIES\<close> and never one twice; a
  link that is made sticky is there afterwards and one that is removed is not; and the moderation log
  names exactly the links that lost their place, whichever slot was asked for.
\<close>

definition stickies_ok :: "string list option \<Rightarrow> bool" where
  "stickies_ok st \<longleftrightarrow> (case st of None \<Rightarrow> True | Some xs \<Rightarrow> distinct xs \<and> length xs \<le> MAX_STICKIES)"

definition sticky_set :: "string list option \<Rightarrow> string set" where
  "sticky_set st = (case st of None \<Rightarrow> {} | Some xs \<Rightarrow> set xs)"

definition unstickied_names :: "mod_action list \<Rightarrow> string set" where
  "unstickied_names log = (fst \<circ> snd) ` {e \<in> set log. fst e = ''unsticky''}"

lemmas sticky_defs = stickies_ok_def sticky_set_def set_sticky_def remove_sticky_def MAX_STICKIES_def
  append_sticky_def has_max_stickies_def

lemma unstickied_sticky_log: "unstickied_names (sticky_log True link names) = set names"
  "unstickied_names [] = {}"
  by (auto simp: unstickied_names_def sticky_log_def image_iff)

lemma remove_sticky_ok:
  assumes "stickies_ok st"
  shows "stickies_ok (fst (remove_sticky other True st)) \<and> other \<notin> sticky_set (fst (remove_sticky other True st)) \<and>
    unstickied_names (snd (remove_sticky other True st)) = sticky_set st - sticky_set (fst (remove_sticky other True st))"
proof (cases st)
  case (Some xs)
  have "length (remove1 other xs) \<le> length xs" by (simp add: length_remove1)
  then show ?thesis
    using Some assms by (auto simp: sticky_defs unstickied_names_def set_remove1_eq)
qed (simp add: sticky_defs unstickied_names_def)



end
