(* ===== verification/WikiAccess.thy ===== *)
theory WikiAccess
  imports Wiki Subreddit Karma
begin

section \<open>Access to wiki pages\<close>

text \<open>
  Models \<open>r2/lib/validator/wiki.py\<close>: who may view and revise a page, and the validators that look up
  the page and the revision a request names. A validator yields its value, or \<open>None\<close>, and the errors it sets
  with their HTTP status. The context of a request holds the user (\<open>None\<close>: not logged in), the subreddit, its
  relations to users and \<open>c.is_wiki_mod\<close>, which the controllers compute first.
\<close>

record wuser =
  wu_user :: suser
  wu_account :: account
  wu_id36 :: string
  wu_override :: "bool option"
  wu_age :: int
  wu_spam :: bool
  wu_in_timeout :: bool

record wsite =
  ws_sr :: subreddit
  ws_id36 :: string
  ws_name :: string
  ws_wikimode :: string
  ws_edit_karma :: "int option"
  ws_edit_age :: "int option"
  ws_use_subreddit_karma :: bool

record wctx =
  wx_rq :: request
  wx_user :: "wuser option"
  wx_site :: wsite
  wx_rels :: rel_state
  wx_min_up :: int
  wx_is_wiki_mod :: bool

definition admin :: "wctx \<Rightarrow> bool" where
  "admin x = rq_admin (wx_rq x)"

definition mod_with_perms :: "wctx \<Rightarrow> wuser \<Rightarrow> string list \<Rightarrow> bool result" where
  "mod_with_perms x u perms = is_moderator_with_perms (ws_sr (wx_site x)) (wu_user u) perms (wx_rels x)"

subsection \<open>Viewing and revising\<close>

definition view_level :: "wpage \<Rightarrow> int" where
  "view_level p = (if special p then get_special_view_permlevel (wp_name p) else wp_permlevel p)"

definition may_view :: "wctx \<Rightarrow> wuser option \<Rightarrow> wpage \<Rightarrow> bool result" where
  "may_view x user p =
     bindr (case user of None \<Rightarrow> Inr False | Some u \<Rightarrow> mod_with_perms x u [''wiki'']) (\<lambda>md.
       if md then Inr True
       else let level = view_level p in
         if level < 2 then Inr True else if level = 2 then Inr md else Inr False)"

definition this_may_view :: "wctx \<Rightarrow> wpage \<Rightarrow> bool result" where
  "this_may_view x p = (if wx_user x \<noteq> None \<and> admin x then Inr True else may_view x (wx_user x) p)"

definition wiki_karma :: "wctx \<Rightarrow> wuser \<Rightarrow> int" where
  "wiki_karma x u =
     (let karma = (\<lambda>kind. if ws_use_subreddit_karma (wx_site x)
                          then karma_in (wx_min_up x) kind (ws_name (wx_site x)) (wu_account u)
                          else karma_total kind (wu_account u)) in
      max (karma ''link'') (karma ''comment''))"

text \<open>The rules for users who have no special right to the page.\<close>

definition may_contribute :: "wctx \<Rightarrow> wuser \<Rightarrow> bool" where
  "may_contribute x u =
     (let site = wx_site x in
      if is_member wikicontributor (ws_sr site) (wu_user u) (wx_rels x) then True
      else if ws_wikimode site \<noteq> ''anyone'' then False
      else if \<not> can_submit (wx_rq x) (ws_sr site) (wu_user u) False (wx_rels x) then False
      else if wiki_karma x u < (case ws_edit_karma site of None \<Rightarrow> 0 | Some k \<Rightarrow> k) then False
      else if wu_age u < (case ws_edit_age site of None \<Rightarrow> 0 | Some a \<Rightarrow> a) then False
      else True)"

definition may_revise :: "wctx \<Rightarrow> wuser \<Rightarrow> wpage option \<Rightarrow> wstore \<Rightarrow> bool result" where
  "may_revise x u page w =
     bindr (mod_with_perms x u [''wiki'']) (\<lambda>md.
       if md \<and> (case page of None \<Rightarrow> True | Some p \<Rightarrow> \<not> special p) then Inr True
       else if (case page of None \<Rightarrow> False | Some p \<Rightarrow> restricted p \<and> \<not> special p) then Inr False
       else if is_member wikibanned (ws_sr (wx_site x)) (wu_user u) (wx_rels x) then Inr False
       else if is_member banned (ws_sr (wx_site x)) (wu_user u) (wx_rels x) \<or> u_global_banned (wu_user u) then Inr False
       else bindr (case page of None \<Rightarrow> Inr True | Some p \<Rightarrow> may_view x (Some u) p) (\<lambda>view.
         if \<not> view then Inr False
         else if wu_override u = Some False then Inr False
         else (case page of
             None \<Rightarrow> Inr (may_contribute x u)
           | Some p \<Rightarrow>
               if has_editor p (wu_id36 u) w then Inr True
               else if special p then mod_with_perms x u [''config'']
               else if wp_permlevel p > 0 then Inr False
               else Inr (may_contribute x u))))"

definition this_may_revise :: "wctx \<Rightarrow> wpage option \<Rightarrow> wstore \<Rightarrow> bool result" where
  "this_may_revise x page w =
     (case wx_user x of None \<Rightarrow> Inr False | Some u \<Rightarrow> if admin x then Inr True else may_revise x u page w)"

subsection \<open>Validators\<close>

text \<open>\<open>VWikiModerator\<close>: asks for the permission \<open>config\<close>, too, when the name as it was sent is that of a special page.\<close>

definition VWikiModerator :: "wctx \<Rightarrow> string option \<Rightarrow> verror list result" where
  "VWikiModerator x page =
     (let perms = ''wiki'' # (case page of Some n \<Rightarrow> if n \<noteq> '''' \<and> is_special_page n then [''config''] else [] | None \<Rightarrow> []) in
      bindr (case wx_user x of None \<Rightarrow> Inr False | Some u \<Rightarrow> mod_with_perms x u perms) (\<lambda>md.
        Inr (if md \<or> admin x then [] else [(''MOD_REQUIRED'', Some 403)])))"

definition validpage :: "wctx \<Rightarrow> bool \<Rightarrow> bool \<Rightarrow> string \<Rightarrow> wstore \<Rightarrow> (wpage option \<times> verror list) result" where
  "validpage x required restr name w =
     (case page_get (ws_id36 (wx_site x)) name w of
        Inl _ \<Rightarrow> Inr (None, if required then [(''PAGE_NOT_FOUND'', Some 404)] else [])
      | Inr wp \<Rightarrow>
          if restr \<and> restricted wp \<and> \<not> (wx_is_wiki_mod x \<or> special wp) then Inr (None, [(''RESTRICTED_PAGE'', Some 403)])
          else bindr (this_may_view x wp) (\<lambda>view.
            Inr (if view then (Some wp, []) else (None, [(''MAY_NOT_VIEW'', Some 403)]))))"

definition VWikiPage ::
    "wctx \<Rightarrow> bool \<Rightarrow> bool \<Rightarrow> bool \<Rightarrow> string option \<Rightarrow> wstore \<Rightarrow> (wpage option \<times> verror list) result" where
  "VWikiPage x required restr modonly page w =
     (case VWikiPageName False page of
        (None, errs) \<Rightarrow> Inr (None, errs)
      | (Some name, errs) \<Rightarrow>
          if errs \<noteq> [] then Inr (None, errs)
          else if \<not> wx_is_wiki_mod x \<and> modonly then Inr (None, [(''MOD_REQUIRED'', Some 403)])
          else validpage x required restr name w)"

definition validversion :: "wctx \<Rightarrow> bool \<Rightarrow> string option \<Rightarrow> string \<Rightarrow> wstore \<Rightarrow> wrev option \<times> verror list" where
  "validversion x allow_hidden version pageid w =
     (case version of
        None \<Rightarrow> (None, [])
      | Some v \<Rightarrow>
          if v = '''' then (None, [])
          else (case rev_get v pageid w of
              Inl _ \<Rightarrow> (None, [(''INVALID_REVISION'', Some 404)])
            | Inr r \<Rightarrow>
                if wr_admin_deleted r \<and> \<not> admin x then (None, [(''INVALID_REVISION'', Some 404)])
                else if \<not> allow_hidden \<and> wr_hidden r \<and> \<not> wx_is_wiki_mod x then (None, [(''HIDDEN_REVISION'', Some 403)])
                else (Some r, [])))"

fun validversions :: "wctx \<Rightarrow> bool \<Rightarrow> wpage option \<Rightarrow> string option list \<Rightarrow> wstore \<Rightarrow> wrev option list option \<times> verror list" where
  "validversions x allow_hidden wp [] w = (Some [], [])"
| "validversions x allow_hidden wp (v # vs) w =
     (case (case wp of None \<Rightarrow> (None, []) | Some p \<Rightarrow> validversion x allow_hidden v (page_id p) w) of
        (r, []) \<Rightarrow> (case validversions x allow_hidden wp vs w of (rs, errs) \<Rightarrow> (map_option ((#) r) rs, errs))
      | (_, errs) \<Rightarrow> (None, errs))"

definition VWikiPageAndVersion ::
    "wctx \<Rightarrow> bool \<Rightarrow> bool \<Rightarrow> bool \<Rightarrow> string option \<Rightarrow> string option list \<Rightarrow> wstore \<Rightarrow>
     ((wpage option \<times> wrev option list) option \<times> verror list) result" where
  "VWikiPageAndVersion x required restr allow_hidden page versions w =
     bindr (VWikiPage x required restr False page w) (\<lambda>(wp, errs).
       if errs \<noteq> [] then Inr (None, errs)
       else (case validversions x allow_hidden wp versions w of
           (rs, errs) \<Rightarrow> Inr (map_option (Pair wp) rs, errs)))"

text \<open>
  \<open>may_not_create\<close>: the errors it sets and the reason it returns. The status of \<open>EMPTY_PAGE_NAME\<close> is passed
  in the place of the message parameters, so this error has none.
\<close>

definition may_not_create :: "wiki_cfg \<Rightarrow> wctx \<Rightarrow> string option \<Rightarrow> (verror list \<times> string option) result" where
  "may_not_create cfg x page =
     (case page of
        None \<Rightarrow> Inr ([(''EMPTY_PAGE_NAME'', None)], None)
      | Some raw \<Rightarrow>
          if raw = '''' then Inr ([(''EMPTY_PAGE_NAME'', None)], None)
          else
            let name = normalize_page raw in
            if is_automatically_created name then Inr ([], Some ''PAGE_CREATED_ELSEWHERE'')
            else if is_special_page name then
              bindr (if admin x then Inr True else case wx_user x of None \<Rightarrow> Inr False | Some u \<Rightarrow> mod_with_perms x u [''config''])
                (\<lambda>ok. Inr (if ok then [] else [(''RESTRICTED_PAGE'', Some 403)], None))
            else if \<not> admin x \<and> is_restricted name then Inr ([(''RESTRICTED_PAGE'', Some 403)], None)
            else if length (filter (\<lambda>c. c = CHR ''/'') name) > wc_max_separators cfg then Inr ([], Some ''PAGE_NAME_MAX_SEPARATORS'')
            else if length name > wc_max_name cfg then Inr ([], Some ''PAGE_NAME_LENGTH'')
            else Inr ([], None))"

text \<open>\<open>VWikiPageRevise\<close>: the page and the revision the edit starts from, the errors, and why the page cannot be created.\<close>

type_synonym revise_check = "(wpage option \<times> wrev option) option \<times> verror list \<times> string option"

definition VWikiPageRevise ::
    "wiki_cfg \<Rightarrow> wctx \<Rightarrow> bool \<Rightarrow> bool \<Rightarrow> string option \<Rightarrow> string option \<Rightarrow> wstore \<Rightarrow> revise_check result" where
  "VWikiPageRevise cfg x required restr page previous w =
     bindr (VWikiPage x required restr False page w) (\<lambda>(wp, errs).
       if errs \<noteq> [] then Inr (None, errs, None)
       else bindr (this_may_revise x wp w) (\<lambda>ok.
         if \<not> ok then
           (case wp of
              None \<Rightarrow> Inr (None, [(''PAGE_NOT_FOUND'', Some 404)], None)
            | Some _ \<Rightarrow> Inr (Some (None, None), [(''MAY_NOT_REVISE'', None)], None))
         else (case wp of
             None \<Rightarrow> bindr (may_not_create cfg x page) (\<lambda>(errs, reason). Inr (Some (None, None), errs, reason))
           | Some p \<Rightarrow>
               if previous = None \<or> previous = Some '''' then Inr (Some (Some p, None), [], None)
               else (case validversion x True previous (page_id p) w of
                   (r, []) \<Rightarrow> Inr (Some (Some p, r), [], None)
                 | (_, errs) \<Rightarrow> Inr (None, errs, None)))))"

subsection \<open>What the validators guarantee\<close>

lemma page_get_Inr: "page_get sr name w = Inr p \<longleftrightarrow> wk_pages w (wiki_id sr name) = Some p"
  by (auto simp: page_get_def split: option.splits)

lemma validpage_Some:
  assumes "validpage x required restr name w = Inr (Some p, errs)"
  shows "wk_pages w (wiki_id (ws_id36 (wx_site x)) name) = Some p \<and> this_may_view x p = Inr True \<and> errs = []"
  using assms by (auto simp: validpage_def page_get_Inr bindr_eq_Inr_iff split: sum.splits if_splits)

lemma VWikiPage_Some:
  assumes "VWikiPage x required restr modonly page w = Inr (Some p, errs)"
  shows "\<exists>name. VWikiPageName False page = (Some name, []) \<and> wk_pages w (wiki_id (ws_id36 (wx_site x)) name) = Some p \<and>
    this_may_view x p = Inr True \<and> errs = []"
  using assms by (auto simp: VWikiPage_def dest!: validpage_Some split: prod.splits option.splits if_splits)

lemma VWikiPageRevise_Some:
  assumes "VWikiPageRevise cfg x required restr page previous w = Inr (Some (Some p, r), errs, reason)"
  shows "this_may_revise x (Some p) w = Inr True \<and> errs = [] \<and>
    (\<exists>name. VWikiPageName False page = (Some name, []) \<and> wk_pages w (wiki_id (ws_id36 (wx_site x)) name) = Some p)"
proof -
  obtain wp where wp: "VWikiPage x required restr False page w = Inr (wp, [])"
    using assms by (auto simp: VWikiPageRevise_def bindr_eq_Inr_iff split: prod.splits if_splits)
  then have ok: "this_may_revise x wp w = Inr True \<and> wp = Some p \<and> errs = []"
    using assms
    by (auto simp: VWikiPageRevise_def bindr_eq_Inr_iff split: prod.splits if_splits option.splits list.splits)
  then show ?thesis using VWikiPage_Some [of x required restr False page w p "[]"] wp by blast
qed

text \<open>Whoever may revise a special page is trusted with it; the permission \<open>wiki\<close> alone is not enough.\<close>

definition trusted_with :: "wctx \<Rightarrow> wuser \<Rightarrow> wpage \<Rightarrow> wstore \<Rightarrow> bool" where
  "trusted_with x u p w \<longleftrightarrow> (has_editor p (wu_id36 u) w \<or> mod_with_perms x u [''config''] = Inr True) \<and>
     \<not> is_member banned (ws_sr (wx_site x)) (wu_user u) (wx_rels x) \<and>
     \<not> is_member wikibanned (ws_sr (wx_site x)) (wu_user u) (wx_rels x) \<and>
     \<not> u_global_banned (wu_user u) \<and> may_view x (Some u) p = Inr True"

lemma special_pages_protected:
  assumes "special p" "this_may_revise x (Some p) w = Inr True" "\<not> admin x"
  shows "\<exists>u. wx_user x = Some u \<and> trusted_with x u p w"
  using assms
  by (auto simp: trusted_with_def this_may_revise_def may_revise_def bindr_eq_Inr_iff split: option.splits if_splits)

end
