(* ===== verification/WikiApi.thy ===== *)
theory WikiApi
  imports WikiAccess
begin

section \<open>Requests to the wiki\<close>

text \<open>
  Models the controllers of \<open>r2/controllers/wiki.py\<close> that change a wiki, with \<open>parse_css\<close> and \<open>change_css\<close> of
  \<open>r2/models/subreddit.py\<close>: editing a page, changing its settings and editors, and hiding, deleting and
  reverting to revisions. A request ends with an answer or an error; what was stored before an error stays.
  Rendering, the checks of Markdown, style sheets and automoderator rules, uploads, the clock and the id of a
  new revision are parameters.
\<close>

record wenv =
  we_modhash :: bool
  we_markdown :: "string \<Rightarrow> string \<Rightarrow> werror option"
  we_validate_css :: "string \<Rightarrow> (string, string) dict \<Rightarrow> string list \<times> string"
  we_blank_url :: string
  we_relative_url :: "string \<Rightarrow> string"
  we_css_killswitch :: bool
  we_upload :: "string \<Rightarrow> string"
  we_ruleset :: "string option \<Rightarrow> string option"
  we_wiki_disabled :: bool
  we_since :: "int \<Rightarrow> string"
  we_rid :: string
  we_now :: int

record wsys =
  sy_store :: wstore
  sy_attrs :: "(string, string option) dict"
  sy_css_url :: string
  sy_log :: "(string \<times> string option \<times> string option) list"

type_synonym 'a reply = "(werror + 'a) \<times> wsys"

definition ATTRIBUTE_BY_PAGE :: "(string, string) dict" where
  "ATTRIBUTE_BY_PAGE = [(''config/sidebar'', ''description''), (''config/submit_text'', ''submit_text''),
     (''config/description'', ''public_description'')]"

definition RENDERERS_BY_PAGE :: "(string, string) dict" where
  "RENDERERS_BY_PAGE = [(''config/automoderator'', ''automoderator''), (''config/description'', ''reddit''),
     (''config/sidebar'', ''reddit''), (''config/stylesheet'', ''stylesheet''), (''config/submit_text'', ''reddit''),
     (''toolbox'', ''rawcode''), (''usernotes'', ''rawcode'')]"

definition modactions :: "(string, string) dict" where
  "modactions = [(''config/automoderator'', ''Updated AutoModerator configuration''),
     (''config/description'', ''Updated sub description''), (''config/sidebar'', ''Updated sub sidebar''),
     (''config/submit_text'', ''Updated submission text'')]"

subsection \<open>Before a request\<close>

definition wiki_pre :: "wenv \<Rightarrow> wctx \<Rightarrow> werror + wctx" where
  "wiki_pre e x =
     (if we_wiki_disabled e \<and> \<not> admin x then Inl (Abort 403 ''WIKI_DOWN'')
      else
        (case (case wx_user x of None \<Rightarrow> Inr False
               | Some u \<Rightarrow> if admin x then Inr True else mod_with_perms x u [''wiki'']) of
           Inl err \<Rightarrow> Inl (Raised err)
         | Inr md \<Rightarrow>
             if ws_wikimode (wx_site x) \<in> {'''', ''disabled''} \<and> \<not> md then Inl (Abort 403 ''WIKI_DISABLED'')
             else Inr (x\<lparr>wx_is_wiki_mod := md\<rparr>)))"

text \<open>
  The decorator \<open>validate\<close> with \<open>VModhash\<close>, which asks for a user and a valid \<open>modhash\<close>: an error with a status
  ends the request.
\<close>

definition abort_on :: "verror list \<Rightarrow> werror option" where
  "abort_on errs = (case find (\<lambda>v. snd v \<noteq> None) errs of
       Some (name, Some code) \<Rightarrow> Some (Abort code name) | _ \<Rightarrow> None)"

definition validated :: "wenv \<Rightarrow> wctx \<Rightarrow> (('a \<times> verror list) result) \<Rightarrow> ('a \<Rightarrow> verror list \<Rightarrow> 'b reply) \<Rightarrow> wsys \<Rightarrow> 'b reply" where
  "validated e x v body st =
     (if wx_user x = None then (Inl (Raised (PyException ''UserRequiredException'')), st)
      else if \<not> we_modhash e then (Inl (Abort 403 ''''), st)
      else (case v of
          Inl err \<Rightarrow> (Inl (Raised err), st)
        | Inr (val, errs) \<Rightarrow> (case abort_on errs of Some a \<Rightarrow> (Inl a, st) | None \<Rightarrow> body val errs)))"

definition in_timeout :: "wctx \<Rightarrow> bool" where
  "in_timeout x = (case wx_user x of None \<Rightarrow> False | Some u \<Rightarrow> wu_in_timeout u)"

definition author_id :: "wctx \<Rightarrow> string option" where
  "author_id x = map_option wu_id36 (wx_user x)"

subsection \<open>Style sheets\<close>

definition css_images :: "wenv \<Rightarrow> wctx \<Rightarrow> wstore \<Rightarrow> (string, string) dict" where
  "css_images e x w =
     map (\<lambda>(name, url). (name, we_relative_url e (if sr_quarantine (ws_sr (wx_site x)) then we_blank_url e else url)))
       (get_images (ws_id36 (wx_site x)) ''config/stylesheet'' w)"

definition parse_css :: "wenv \<Rightarrow> wctx \<Rightarrow> string option \<Rightarrow> bool \<Rightarrow> wstore \<Rightarrow> (string list option \<times> string option) result" where
  "parse_css e x content verify w =
     (if we_css_killswitch e then Inr (None, None)
      else bindr (if verify then (case wx_user x of None \<Rightarrow> Inr False | Some u \<Rightarrow>
         can_change_stylesheet (wx_rq x) (ws_sr (wx_site x)) (wu_user u) (wx_rels x)) else Inr True) (\<lambda>ok.
       if \<not> ok then Inr (None, None)
       else (case content of
           None \<Rightarrow> Inr (Some [], Some [])
         | Some text \<Rightarrow>
             if text = [] then Inr (Some [], Some [])
             else (case we_validate_css e text (css_images e x w) of (errs, parsed) \<Rightarrow> Inr (Some errs, Some parsed)))))"

definition change_css ::
    "wiki_cfg \<Rightarrow> wenv \<Rightarrow> wctx \<Rightarrow> string option \<Rightarrow> string option \<Rightarrow> previous \<Rightarrow> string option \<Rightarrow> bool \<Rightarrow> wsys \<Rightarrow> unit reply" where
  "change_css cfg e x content parsed prev reason force st =
     (let site = ws_id36 (wx_site x);
          found = (case page_get site ''config/stylesheet'' (sy_store st) of
              Inr p \<Rightarrow> Inr (p, sy_store st)
            | Inl _ \<Rightarrow> page_create site ''config/stylesheet'' (sy_store st)) in
      case found of
        Inl err \<Rightarrow> (Inl err, st)
      | Inr (p, w1) \<Rightarrow>
          (case revise cfg p content prev (author_id x) force reason (we_rid e) (we_now e) w1 of
             Inl err \<Rightarrow> (Inl err, st\<lparr>sy_store := w1\<rparr>)
           | Inr (wr, w2) \<Rightarrow>
               (Inr (), st\<lparr>sy_store := w2,
                  sy_css_url := (case parsed of None \<Rightarrow> [] | Some css \<Rightarrow> if css = [] then [] else we_upload e css),
                  sy_log := sy_log st @ (if wr \<noteq> None then [(''wikirevise'', Some ''Updated subreddit stylesheet'', None)] else [])\<rparr>)))"

subsection \<open>Editing a page\<close>

definition edit_error :: "werror \<Rightarrow> werror" where
  "edit_error err = (case err of
       ContentLengthError n \<Rightarrow> Abort 403 ''CONTENT_LENGTH_ERROR''
     | ConflictException _ _ _ _ \<Rightarrow> Abort 409 ''EDIT_CONFLICT''
     | _ \<Rightarrow> err)"

text \<open>Only the conflict of an edit of the style sheet is caught, not its length.\<close>

definition css_edit_error :: "werror \<Rightarrow> werror" where
  "css_edit_error err = (case err of ConflictException _ _ _ _ \<Rightarrow> Abort 409 ''EDIT_CONFLICT'' | _ \<Rightarrow> err)"

definition renderer :: "string \<Rightarrow> string" where
  "renderer name = (case map_of RENDERERS_BY_PAGE name of None \<Rightarrow> ''wiki'' | Some r \<Rightarrow> r)"

definition checked_markdown :: "wenv \<Rightarrow> string \<Rightarrow> string option \<Rightarrow> werror + string option" where
  "checked_markdown e name content =
     (if renderer name \<in> {''wiki'', ''reddit''} then
        (let text = (case content of None \<Rightarrow> '''' | Some t \<Rightarrow> t) in
         case we_markdown e (renderer name) text of None \<Rightarrow> Inr (Some text) | Some err \<Rightarrow> Inl err)
      else Inr content)"

definition save_attr :: "string \<Rightarrow> string option \<Rightarrow> wsys \<Rightarrow> wsys" where
  "save_attr name content st = (case map_of ATTRIBUTE_BY_PAGE name of
       None \<Rightarrow> st | Some attr \<Rightarrow> st\<lparr>sy_attrs := AList.update attr content (sy_attrs st)\<rparr>)"

definition edit_log :: "wpage \<Rightarrow> string option \<Rightarrow> string \<times> string option \<times> string option" where
  "edit_log p reason = (''wikirevise'', Some (case map_of modactions (wp_name p) of
       None \<Rightarrow> ''Page '' @ wp_name p @ '' edited'' | Some d \<Rightarrow> d), reason)"

definition save_edit ::
    "wiki_cfg \<Rightarrow> wenv \<Rightarrow> wctx \<Rightarrow> wpage \<Rightarrow> string option \<Rightarrow> previous \<Rightarrow> string option \<Rightarrow> wsys \<Rightarrow> unit reply" where
  "save_edit cfg e x p content previous reason st =
     (case checked_markdown e (wp_name p) content of
        Inl err \<Rightarrow> (Inl err, st)
      | Inr content \<Rightarrow>
          if wp_name p = ''config/stylesheet'' then
            (case parse_css e x content False (sy_store st) of
               Inl err \<Rightarrow> (Inl (Raised err), st)
             | Inr (css_errors, parsed) \<Rightarrow>
                 if we_css_killswitch e then (Inl (Abort 403 ''STYLESHEET_EDIT_DENIED''), st)
                 else if css_errors \<noteq> None \<and> css_errors \<noteq> Some [] then (Inl (Abort 415 ''SPECIAL_ERRORS''), st)
                 else (case change_css cfg e x content parsed previous reason False st of
                     (Inl err, st') \<Rightarrow> (Inl (css_edit_error err), st')
                   | (Inr u, st') \<Rightarrow> (Inr u, st')))
          else if wp_name p = ''config/automoderator'' \<and> we_ruleset e content \<noteq> None
          then (Inl (Abort 415 ''SPECIAL_ERRORS''), st)
          else (case revise cfg p content previous (author_id x) False reason (we_rid e) (we_now e) (sy_store st) of
              Inl err \<Rightarrow> (Inl (edit_error err), st)
            | Inr (_, w') \<Rightarrow>
                let st1 = st\<lparr>sy_store := w'\<rparr>;
                    st2 = (if special p then save_attr (wp_name p) content st1 else st1)
                in (Inr (), if special p \<or> wx_is_wiki_mod x then st2\<lparr>sy_log := sy_log st2 @ [edit_log p reason]\<rparr> else st2)))"

definition edit_previous :: "wrev option \<Rightarrow> string option \<Rightarrow> previous" where
  "edit_previous prev raw = (case prev of
       Some r \<Rightarrow> PrevUuid (wr_id r) | None \<Rightarrow> (case raw of None \<Rightarrow> NoPrevious | Some s \<Rightarrow> PrevStr s))"

definition edit_validators ::
    "wiki_cfg \<Rightarrow> wctx \<Rightarrow> string option \<Rightarrow> string option \<Rightarrow> wstore \<Rightarrow>
     (((wpage option \<times> wrev option) option \<times> string option \<times> string option) \<times> verror list) result" where
  "edit_validators cfg x page previous w =
     bindr (VWikiPageRevise cfg x False True page previous w) (\<lambda>(val, errs, create_error).
       case VWikiPageName False page of (name, errs') \<Rightarrow> Inr ((val, create_error, name), errs @ errs'))"

text \<open>The body of \<open>POST_wiki_edit\<close> for a page that does not exist yet, and for one that does.\<close>

definition create_and_edit ::
    "wiki_cfg \<Rightarrow> wenv \<Rightarrow> wctx \<Rightarrow> string option \<Rightarrow> string option \<Rightarrow> string option \<Rightarrow> previous \<Rightarrow> string option \<Rightarrow> wsys \<Rightarrow> unit reply" where
  "create_and_edit cfg e x create_error name content previous reason st =
     (case create_error of
        Some why \<Rightarrow> (Inl (Abort 403 why), st)
      | None \<Rightarrow>
          if in_timeout x then (Inl (Abort 403 ''IN_TIMEOUT''), st)
          else (case page_create (ws_id36 (wx_site x)) (case name of None \<Rightarrow> [] | Some n \<Rightarrow> n) (sy_store st) of
              Inl err \<Rightarrow> (Inl (if err = WikiPageExists then Abort 400 ''WIKI_CREATE_ERROR'' else err), st)
            | Inr (p, w') \<Rightarrow> save_edit cfg e x p content previous reason (st\<lparr>sy_store := w'\<rparr>)))"

definition edit_existing ::
    "wiki_cfg \<Rightarrow> wenv \<Rightarrow> wctx \<Rightarrow> wpage \<Rightarrow> verror list \<Rightarrow> string option \<Rightarrow> previous \<Rightarrow> string option \<Rightarrow> wsys \<Rightarrow> unit reply" where
  "edit_existing cfg e x p errs content previous reason st =
     (if in_timeout x then (Inl (Abort 403 ''IN_TIMEOUT''), st)
      else if ''MAY_NOT_REVISE'' \<in> fst ` set errs then (Inl (Abort 403 ''MAY_NOT_REVISE''), st)
      else save_edit cfg e x p content previous reason st)"

definition POST_wiki_edit ::
    "wiki_cfg \<Rightarrow> wenv \<Rightarrow> wctx \<Rightarrow> string option \<Rightarrow> string option \<Rightarrow> string option \<Rightarrow> string option \<Rightarrow> wsys \<Rightarrow> unit reply" where
  "POST_wiki_edit cfg e x page previous content reason st =
     validated e x (edit_validators cfg x page previous (sy_store st))
       (\<lambda>(val, create_error, name) errs.
          case val of
            None \<Rightarrow> (Inl (Raised (TypeError ''unpack'')), st)
          | Some (page, prev) \<Rightarrow>
              if (case wx_user x of None \<Rightarrow> False | Some u \<Rightarrow> wu_spam u) then (Inl (Abort 415 ''SPECIAL_ERRORS''), st)
              else (case page of
                  None \<Rightarrow> create_and_edit cfg e x create_error name content (edit_previous prev previous) reason st
                | Some p \<Rightarrow> edit_existing cfg e x p errs content (edit_previous prev previous) reason st))
       st"

subsection \<open>Editors, revisions and settings\<close>

definition both :: "verror list result \<Rightarrow> (('a \<times> verror list) result) \<Rightarrow> ('a \<times> verror list) result" where
  "both a b = bindr a (\<lambda>errs. bindr b (\<lambda>(val, errs'). Inr (val, errs @ errs')))"

text \<open>\<open>user\<close> is the id of the account that the name in the request belongs to.\<close>

definition POST_wiki_allow_editor ::
    "wenv \<Rightarrow> wctx \<Rightarrow> string option \<Rightarrow> string option \<Rightarrow> string option \<Rightarrow> wsys \<Rightarrow> unit reply" where
  "POST_wiki_allow_editor e x page act user st =
     validated e x (both (VWikiModerator x page) (VWikiPage x True True False page (sy_store st)))
       (\<lambda>wp errs.
          case (user, wp) of
            (None, _) \<Rightarrow> (Inl (Abort 404 ''UNKNOWN_USER''), st)
          | (_, None) \<Rightarrow> (Inl (Raised (AttributeError ''page'')), st)
          | (Some u, Some p) \<Rightarrow>
              if act = Some ''del'' then
                (if in_timeout x then (Inl (Abort 403 ''IN_TIMEOUT''), st)
                 else (Inr (), st\<lparr>sy_store := remove_editor p u (sy_store st)\<rparr>))
              else if act = Some ''add'' then
                (if in_timeout x then (Inl (Abort 403 ''IN_TIMEOUT''), st)
                 else (Inr (), st\<lparr>sy_store := add_editor p u (sy_store st)\<rparr>))
              else (Inl (Abort 400 ''INVALID_ACTION''), st))
       st"

definition with_revision ::
    "wenv \<Rightarrow> wctx \<Rightarrow> verror list result \<Rightarrow> string option \<Rightarrow> string option \<Rightarrow> (wpage \<Rightarrow> wrev \<Rightarrow> 'b reply) \<Rightarrow> wsys \<Rightarrow> 'b reply" where
  "with_revision e x guard page revision body st =
     validated e x (both guard (VWikiPageAndVersion x True True True page [revision] (sy_store st)))
       (\<lambda>pv errs.
          case pv of
            Some (Some p, [Some r]) \<Rightarrow> body p r
          | Some (_, [None]) \<Rightarrow> (Inl (Abort 400 ''INVALID_REVISION''), st)
          | _ \<Rightarrow> (Inl (Raised (TypeError ''unpack'')), st))
       st"

definition POST_wiki_revision_delete :: "wenv \<Rightarrow> wctx \<Rightarrow> string option \<Rightarrow> string option \<Rightarrow> bool \<Rightarrow> wsys \<Rightarrow> bool reply" where
  "POST_wiki_revision_delete e x page revision deleted st =
     with_revision e x (Inr (if admin x then [] else [(''page not found'', Some 404)])) page revision
       (\<lambda>p r.
          if deleted \<and> wp_revision p = Some (wr_id r) then (Inl (Abort 400 ''REVISION_IS_CURRENT''), st)
          else (Inr deleted, st\<lparr>sy_store := rev_commit (r\<lparr>wr_admin_deleted := deleted\<rparr>) (sy_store st)\<rparr>))
       st"

definition POST_wiki_revision_hide :: "wenv \<Rightarrow> wctx \<Rightarrow> string option \<Rightarrow> string option \<Rightarrow> wsys \<Rightarrow> bool reply" where
  "POST_wiki_revision_hide e x page revision st =
     with_revision e x (VWikiModerator x page) page revision
       (\<lambda>p r.
          if in_timeout x then (Inl (Abort 403 ''IN_TIMEOUT''), st)
          else (case toggle_hide r (sy_store st) of (hidden, w') \<Rightarrow> (Inr hidden, st\<lparr>sy_store := w'\<rparr>)))
       st"

definition POST_wiki_revision_revert ::
    "wiki_cfg \<Rightarrow> wenv \<Rightarrow> wctx \<Rightarrow> string option \<Rightarrow> string option \<Rightarrow> wsys \<Rightarrow> unit reply" where
  "POST_wiki_revision_revert cfg e x page revision st =
     with_revision e x (VWikiModerator x page) page revision
       (\<lambda>p r.
          if in_timeout x then (Inl (Abort 403 ''IN_TIMEOUT''), st)
          else
            let content = Some (wr_content r); reason = Some (''reverted back '' @ we_since e (wr_date r)) in
            if wp_name p = ''config/stylesheet'' then
              (case parse_css e x content True (sy_store st) of
                 Inl err \<Rightarrow> (Inl (Raised err), st)
               | Inr (css_errors, parsed) \<Rightarrow>
                   if css_errors \<noteq> None \<and> css_errors \<noteq> Some [] then (Inl (Abort 403 ''INVALID_CSS''), st)
                   else change_css cfg e x content parsed NoPrevious reason True st)
            else (case revise cfg p content NoPrevious (author_id x) True reason (we_rid e) (we_now e) (sy_store st) of
                Inl (ContentLengthError _) \<Rightarrow> (Inl (Abort 403 ''CONTENT_LENGTH_ERROR''), st)
              | Inl err \<Rightarrow> (Inl err, st)
              | Inr (_, w') \<Rightarrow> (Inr (), save_attr (wp_name p) content (st\<lparr>sy_store := w'\<rparr>))))
       st"

text \<open>The permission level is a number or missing; a missing one is no number.\<close>

definition settings_log :: "wpage \<Rightarrow> int \<Rightarrow> bool \<Rightarrow> (string \<times> string option \<times> string option) list" where
  "settings_log p permlevel listed =
     (if wp_listed p \<noteq> listed
      then [(''wikipagelisted'', None, Some ((if listed then ''Relisted'' else ''Delisted'') @ '' page '' @ wp_name p))] else []) @
     (if wp_permlevel p \<noteq> permlevel
      then [(''wikipermlevel'', None, Some (''Page: '' @ wp_name p @ '', Changed from '' @ py_str_int (wp_permlevel p) @
               '' to '' @ py_str_int permlevel))] else [])"

definition POST_wiki_settings :: "wenv \<Rightarrow> wctx \<Rightarrow> string option \<Rightarrow> int option \<Rightarrow> bool \<Rightarrow> wsys \<Rightarrow> unit reply" where
  "POST_wiki_settings e x page permlevel listed st =
     validated e x (VWikiPage x True True True page (sy_store st))
       (\<lambda>wp errs.
          case wp of
            None \<Rightarrow> (Inl (Raised (AttributeError ''permlevel'')), st)
          | Some p \<Rightarrow>
              if (permlevel \<noteq> Some (wp_permlevel p) \<or> wp_listed p \<noteq> listed) \<and> in_timeout x
              then (Inl (Abort 403 ''IN_TIMEOUT''), st)
              else (case permlevel of
                  None \<Rightarrow> (Inl (Raised (TypeError ''int'')), st)
                | Some l \<Rightarrow>
                    (case change_permlevel p l False (sy_store st) of
                       Inl _ \<Rightarrow> (Inl (Abort 403 ''INVALID_PERMLEVEL''), st)
                     | Inr w1 \<Rightarrow>
                         let p1 = p\<lparr>wp_permlevel := l\<rparr>;
                             w2 = (if wp_listed p \<noteq> listed then page_commit (p1\<lparr>wp_listed := listed\<rparr>) w1 else w1)
                         in (Inr (), st\<lparr>sy_store := w2, sy_log := sy_log st @ settings_log p l listed\<rparr>))))
       st"

subsection \<open>Requests keep the store in order\<close>

text \<open>
  A system that serves requests: if every request that may be served keeps an invariant and is related to
  what was before, so is every run. This is proved once and used with the wiki below.
\<close>

locale request_system =
  fixes serve :: "'r \<Rightarrow> 's \<Rightarrow> 's" and possible :: "'r \<Rightarrow> 's \<Rightarrow> bool" and ok :: "'s \<Rightarrow> bool" and kept :: "'s \<Rightarrow> 's \<Rightarrow> bool"
  assumes serve_ok: "ok s \<Longrightarrow> possible r s \<Longrightarrow> ok (serve r s) \<and> kept s (serve r s)"
    and kept_refl: "kept s s"
    and kept_trans: "kept s s' \<Longrightarrow> kept s' s'' \<Longrightarrow> kept s s''"
begin

fun possible_run :: "'r list \<Rightarrow> 's \<Rightarrow> bool" where
  "possible_run [] s = True"
| "possible_run (r # rs) s = (possible r s \<and> possible_run rs (serve r s))"

lemma run_ok: "ok s \<Longrightarrow> possible_run rs s \<Longrightarrow> ok (fold serve rs s) \<and> kept s (fold serve rs s)"
proof (induction rs arbitrary: s)
  case (Cons r rs)
  then have "ok (serve r s) \<and> kept s (serve r s)" using serve_ok by simp
  then show ?case using Cons kept_trans by fastforce
qed (simp add: kept_refl)

end

definition sys_kept :: "wsys \<Rightarrow> wsys \<Rightarrow> bool" where
  "sys_kept st st' \<longleftrightarrow> revs_kept (sy_store st) (sy_store st')"

definition served_well :: "wsys \<Rightarrow> wsys \<Rightarrow> bool" where
  "served_well st st' \<longleftrightarrow> wiki_ok (sy_store st') \<and> sys_kept st st'"

lemma served_same [simp]: "sy_store st' = sy_store st \<Longrightarrow> served_well st st' = wiki_ok (sy_store st)"
  by (auto simp: served_well_def sys_kept_def revs_kept_same)

text \<open>What holds of the state before holds after a request if it holds after the body, for what the validators let pass.\<close>

lemma validated_rule:
  assumes "P st" "\<And>val errs. v = Inr (val, errs) \<Longrightarrow> abort_on errs = None \<Longrightarrow> wx_user x \<noteq> None \<Longrightarrow> P (snd (body val errs))"
  shows "P (snd (validated e x v body st))"
proof (cases v)
  case (Inr r)
  then show ?thesis using assms by (cases r; cases "abort_on (snd r)") (auto simp: validated_def)
qed (use assms(1) in \<open>simp add: validated_def\<close>)

lemma page_getD: "wiki_ok w \<Longrightarrow> wk_pages w pid = Some p \<Longrightarrow> wk_pages w (page_id p) = Some p \<and> page_id p = pid"
  using wiki_okD(1) [of w pid p] by (auto simp: page_ok_def)

lemma change_css_well:
  assumes ok: "wiki_ok (sy_store st)" and fresh: "wk_revs (sy_store st) (we_rid e) = None"
  shows "served_well st (snd (change_css cfg e x content parsed prev reason force st))"
proof -
  let ?site = "ws_id36 (wx_site x)" and ?w = "sy_store st"
  define found where "found = (case page_get ?site ''config/stylesheet'' ?w of
      Inr p \<Rightarrow> Inr (p, ?w) | Inl _ \<Rightarrow> page_create ?site ''config/stylesheet'' ?w)"
  show ?thesis
  proof (cases found)
    case (Inl err)
    then show ?thesis using ok by (simp add: change_css_def Let_def found_def)
  next
    case (Inr pw)
    obtain p w1 where pw: "pw = (p, w1)" by (cases pw)
    have w1: "wiki_ok w1 \<and> wk_pages w1 (page_id p) = Some p \<and> revs_kept ?w w1 \<and> wk_revs w1 = wk_revs ?w"
    proof (cases "page_get ?site ''config/stylesheet'' ?w")
      case (Inl e)
      then show ?thesis using Inr pw page_create_ok [OF ok, of ?site "''config/stylesheet''" p w1] by (auto simp: found_def)
    next
      case (Inr q)
      then have "w1 = ?w" "q = p" using \<open>found = Inr pw\<close> pw by (auto simp: found_def)
      then show ?thesis using ok Inr page_getD [OF ok, of "wiki_id ?site ''config/stylesheet''" p] by (simp add: page_get_Inr revs_kept_same)
    qed
    show ?thesis
    proof (cases "revise cfg p content prev (author_id x) force reason (we_rid e) (we_now e) w1")
      case (Inl err)
      then show ?thesis using Inr pw w1 by (simp add: change_css_def Let_def found_def served_well_def sys_kept_def)
    next
      case (Inr res)
      obtain wr w2 where res: "res = (wr, w2)" by (cases res)
      have "wiki_ok w2 \<and> revs_kept w1 w2"
        using revise_ok [of w1 p "we_rid e"] Inr res w1 fresh by metis
      then show ?thesis using \<open>found = Inr pw\<close> pw Inr res w1 revs_kept_trans [of ?w w1 w2]
        by (simp add: change_css_def Let_def found_def served_well_def sys_kept_def)
    qed
  qed
qed

lemma save_attr_store [simp]: "sy_store (save_attr name content st) = sy_store st"
  by (simp add: save_attr_def split: option.splits)

lemma save_edit_well:
  assumes ok: "wiki_ok (sy_store st)" and fresh: "wk_revs (sy_store st) (we_rid e) = None"
    and p: "wk_pages (sy_store st) (page_id p) = Some p"
  shows "served_well st (snd (save_edit cfg e x p content previous reason st))"
proof (cases "checked_markdown e (wp_name p) content")
  case (Inl err)
  then show ?thesis using ok by (simp add: save_edit_def)
next
  case (Inr content')
  show ?thesis
  proof (cases "wp_name p = ''config/stylesheet''")
    case True
    then show ?thesis
      using Inr ok change_css_well [OF ok fresh, of cfg x content' _ previous reason False]
      by (auto simp: save_edit_def split: sum.splits prod.splits if_splits) (metis snd_conv)+
  next
    case False
    show ?thesis
    proof (cases "revise cfg p content' previous (author_id x) False reason (we_rid e) (we_now e) (sy_store st)")
      case (Inl err)
      then show ?thesis using Inr False ok by (simp add: save_edit_def split: sum.splits)
    next
      case (Inr res)
      obtain wr w' where res: "res = (wr, w')" by (cases res)
      have "wiki_ok w' \<and> revs_kept (sy_store st) w'" using revise_ok [OF ok p fresh] Inr res by metis
      then show ?thesis
        using Inr res False ok \<open>checked_markdown e (wp_name p) content = Inr content'\<close>
        by (auto simp: save_edit_def Let_def served_well_def sys_kept_def revs_kept_same)
    qed
  qed
qed

text \<open>What the validators of a request found is stored.\<close>

lemma VWikiPage_stored:
  assumes "wiki_ok w" "VWikiPage x required restr modonly page w = Inr (Some p, errs)"
  shows "wk_pages w (page_id p) = Some p"
  using VWikiPage_Some [OF assms(2)] page_getD [OF assms(1)] by blast

lemma rev_get_stored: "wiki_ok w \<Longrightarrow> rev_get v pageid w = Inr r \<Longrightarrow> wk_revs w (wr_id r) = Some r \<and> wr_pageid r = pageid"
  using wiki_okD(4) [of w v r] by (auto simp: rev_get_def split: option.splits if_splits)

lemma both_Inr: "both a b = Inr (val, errs) \<Longrightarrow> \<exists>errs'. b = Inr (val, errs')"
  by (auto simp: both_def bindr_eq_Inr_iff)

lemma VWikiPageAndVersion_stored:
  assumes ok: "wiki_ok w" and v: "VWikiPageAndVersion x required restr hidden page [revision] w = Inr (Some (Some p, [Some r]), errs)"
  shows "wk_pages w (page_id p) = Some p \<and> wk_revs w (wr_id r) = Some r \<and> wr_pageid r = page_id p"
proof -
  obtain errs' where p: "VWikiPage x required restr False page w = Inr (Some p, errs')"
      "fst (validversion x hidden revision (page_id p) w) = Some r"
    using v by (auto simp: VWikiPageAndVersion_def bindr_eq_Inr_iff split: prod.splits if_splits option.splits list.splits)
  obtain u where u: "rev_get u (page_id p) w = Inr r"
    using p(2) by (auto simp: validversion_def split: option.splits sum.splits if_splits)
  show ?thesis using VWikiPage_stored [OF ok p(1)] rev_get_stored [OF ok u] by simp
qed

lemma with_revision_rule:
  assumes ok: "wiki_ok (sy_store st)" and "P st"
    and body: "\<And>p r. wk_pages (sy_store st) (page_id p) = Some p \<Longrightarrow> wk_revs (sy_store st) (wr_id r) = Some r \<Longrightarrow>
      wr_pageid r = page_id p \<Longrightarrow> P (snd (body p r))"
  shows "P (snd (with_revision e x guard page revision body st))"
  unfolding with_revision_def
proof (rule validated_rule [where P = P, OF assms(2)])
  fix pv errs
  assume v: "both guard (VWikiPageAndVersion x True True True page [revision] (sy_store st)) = Inr (pv, errs)"
  have "P (snd (body p r))" if "pv = Some (Some p, [Some r])" for p r
    using both_Inr [OF v] that VWikiPageAndVersion_stored [OF ok, of x True True True page revision p r] body by blast
  then show "P (snd (case pv of Some (Some p, [Some r]) \<Rightarrow> body p r
      | Some (_, [None]) \<Rightarrow> (Inl (Abort 400 ''INVALID_REVISION''), st) | _ \<Rightarrow> (Inl (Raised (TypeError ''unpack'')), st)))"
    using assms(2) by (auto split: option.splits list.splits prod.splits)
qed

lemma flag_commit_well:
  assumes ok: "wiki_ok w" and r: "wk_revs w (wr_id r) = Some r"
    and r': "r' = r\<lparr>wr_hidden := h, wr_admin_deleted := d\<rparr>"
  shows "wiki_ok (rev_commit r' w) \<and> revs_kept w (rev_commit r' w)"
proof -
  have "wiki_ok (rev_commit r' w)" by (rule rev_commit_ok [OF ok]) (use r r' in auto)
  moreover have "revs_kept w (rev_commit r' w)"
    unfolding revs_kept_def
  proof (intro allI impI)
    fix k wr assume k: "wk_revs w k = Some wr"
    show "\<exists>h d. wk_revs (rev_commit r' w) k = Some (wr\<lparr>wr_hidden := h, wr_admin_deleted := d\<rparr>)"
      using k r r' revs_kept_same [of w w] by (cases "k = wr_id r") (auto simp: revs_kept_def)
  qed
  ultimately show ?thesis by simp
qed

lemma edit_validators_Inr:
  assumes "edit_validators cfg x page previous w = Inr ((val, create_error, name), errs)"
  obtains errs1 errs2 where "VWikiPageRevise cfg x False True page previous w = Inr (val, errs1, create_error)"
    "VWikiPageName False page = (name, errs2)" "errs = errs1 @ errs2"
  using assms by (cases "VWikiPageName False page") (auto simp: edit_validators_def bindr_eq_Inr_iff split: prod.splits)

lemma edit_validators_page:
  assumes "edit_validators cfg x page previous w = Inr ((Some (Some p, prev), create_error, name), errs)"
  shows "this_may_revise x (Some p) w = Inr True \<and>
    (\<exists>n. VWikiPageName False page = (Some n, []) \<and> wk_pages w (wiki_id (ws_id36 (wx_site x)) n) = Some p)"
  using edit_validators_Inr [OF assms] VWikiPageRevise_Some by metis

lemma create_and_edit_well:
  assumes ok: "wiki_ok (sy_store st)" and fresh: "wk_revs (sy_store st) (we_rid e) = None"
  shows "served_well st (snd (create_and_edit cfg e x create_error name content previous reason st))"
proof (cases "create_error = None \<and> \<not> in_timeout x")
  case True
  show ?thesis
  proof (cases "page_create (ws_id36 (wx_site x)) (case name of None \<Rightarrow> [] | Some n \<Rightarrow> n) (sy_store st)")
    case (Inl err)
    then show ?thesis using ok True by (simp add: create_and_edit_def)
  next
    case (Inr pw)
    then obtain p w' where c: "page_create (ws_id36 (wx_site x)) (case name of None \<Rightarrow> [] | Some n \<Rightarrow> n) (sy_store st) = Inr (p, w')"
      by (cases pw) auto
    note new = page_create_ok [OF ok c]
    have "served_well (st\<lparr>sy_store := w'\<rparr>) (snd (save_edit cfg e x p content previous reason (st\<lparr>sy_store := w'\<rparr>)))"
      using fresh new by (intro save_edit_well) simp_all
    then have "served_well st (snd (save_edit cfg e x p content previous reason (st\<lparr>sy_store := w'\<rparr>)))"
      using new revs_kept_trans unfolding served_well_def sys_kept_def by force
    then show ?thesis using True c by (simp add: create_and_edit_def)
  qed
qed (use ok in \<open>auto simp: create_and_edit_def split: option.split\<close>)

lemma POST_wiki_edit_rule:
  assumes "P st"
    and "\<And>create_error name errs prev. edit_validators cfg x page previous (sy_store st) = Inr ((Some (None, prev), create_error, name), errs) \<Longrightarrow>
      abort_on errs = None \<Longrightarrow>
      P (snd (create_and_edit cfg e x create_error name content (edit_previous prev previous) reason st))"
    and "\<And>p create_error name errs prev. edit_validators cfg x page previous (sy_store st) = Inr ((Some (Some p, prev), create_error, name), errs) \<Longrightarrow>
      P (snd (edit_existing cfg e x p errs content (edit_previous prev previous) reason st))"
  shows "P (snd (POST_wiki_edit cfg e x page previous content reason st))"
  unfolding POST_wiki_edit_def
proof (rule validated_rule [where P = P, OF assms(1)], goal_cases)
  case (1 val errs)
  obtain pp create_error name where val: "val = (pp, create_error, name)" by (cases val)
  show ?case using 1(1,2) val assms by (cases pp) (auto split: option.splits)
qed

lemma POST_wiki_edit_well:
  assumes ok: "wiki_ok (sy_store st)" and fresh: "wk_revs (sy_store st) (we_rid e) = None"
  shows "served_well st (snd (POST_wiki_edit cfg e x page previous content reason st))"
proof (rule POST_wiki_edit_rule [where P = "served_well st"], goal_cases)
  case (3 p create_error name errs prev)
  then have "wk_pages (sy_store st) (page_id p) = Some p" using edit_validators_page page_getD [OF ok] by blast
  then show ?case using save_edit_well [OF ok fresh] ok by (simp add: edit_existing_def)
qed (use ok create_and_edit_well [OF ok fresh] in simp_all)

lemma POST_wiki_allow_editor_well:
  assumes ok: "wiki_ok (sy_store st)"
  shows "served_well st (snd (POST_wiki_allow_editor e x page act user st))"
  unfolding POST_wiki_allow_editor_def
proof (rule validated_rule [where P = "served_well st"], goal_cases)
  case (2 wp errs)
  have "served_well st (st\<lparr>sy_store := add_editor p u (sy_store st)\<rparr>)" "served_well st (st\<lparr>sy_store := remove_editor p u (sy_store st)\<rparr>)" for p u
    using ok wiki_ok_cong [of "add_editor p u (sy_store st)" "sy_store st"] wiki_ok_cong [of "remove_editor p u (sy_store st)" "sy_store st"]
    by (simp_all add: add_editor_def remove_editor_def revs_kept_same served_well_def sys_kept_def)
  then show ?case using ok by (auto split: option.splits)
qed (use ok in simp)

lemma POST_wiki_revision_delete_well:
  assumes ok: "wiki_ok (sy_store st)"
  shows "served_well st (snd (POST_wiki_revision_delete e x page revision deleted st))"
  unfolding POST_wiki_revision_delete_def
proof (rule with_revision_rule [OF ok, where P = "served_well st"], goal_cases)
  case (2 p r)
  then show ?case
    using flag_commit_well [OF ok 2(2), of "r\<lparr>wr_admin_deleted := deleted\<rparr>" deleted "wr_hidden r"] ok
    by (simp add: served_well_def sys_kept_def revs_kept_same)
qed (use ok in simp)

lemma POST_wiki_revision_hide_well:
  assumes ok: "wiki_ok (sy_store st)"
  shows "served_well st (snd (POST_wiki_revision_hide e x page revision st))"
  unfolding POST_wiki_revision_hide_def
proof (rule with_revision_rule [OF ok, where P = "served_well st"], goal_cases)
  case (2 p r)
  then show ?case
    using flag_commit_well [OF ok 2(2), of "r\<lparr>wr_hidden := \<not> wr_hidden r\<rparr>" "wr_admin_deleted r" "\<not> wr_hidden r"] ok
    by (simp add: served_well_def sys_kept_def revs_kept_same toggle_hide_def Let_def)
qed (use ok in simp)

lemma POST_wiki_revision_revert_well:
  assumes ok: "wiki_ok (sy_store st)" and fresh: "wk_revs (sy_store st) (we_rid e) = None"
  shows "served_well st (snd (POST_wiki_revision_revert cfg e x page revision st))"
  unfolding POST_wiki_revision_revert_def
proof (rule with_revision_rule [OF ok, where P = "served_well st"], goal_cases)
  case (2 p r)
  have "served_well st (save_attr name c (st\<lparr>sy_store := w'\<rparr>))"
    if "revise cfg p content NoPrevious (author_id x) True reason (we_rid e) (we_now e) (sy_store st) = Inr (wr, w')" for content reason wr w' name c
    using revise_ok [OF ok 2(1) fresh that] by (simp add: served_well_def sys_kept_def)
  moreover have "served_well st (snd (change_css cfg e x content parsed NoPrevious reason True st))" for content parsed reason
    by (rule change_css_well [OF ok fresh])
  ultimately show ?case
    using ok by (auto simp: Let_def split: sum.splits prod.splits werror.splits)
qed (use ok in simp)

lemma POST_wiki_settings_well:
  assumes ok: "wiki_ok (sy_store st)"
  shows "served_well st (snd (POST_wiki_settings e x page permlevel listed st))"
  unfolding POST_wiki_settings_def
proof (rule validated_rule [where P = "served_well st"], goal_cases)
  case (2 wp errs)
  have "served_well st (st\<lparr>sy_store := w1, sy_log := log\<rparr>) \<and>
      served_well st (st\<lparr>sy_store := page_commit (p\<lparr>wp_permlevel := l, wp_listed := listed\<rparr>) w1, sy_log := log\<rparr>)"
    if t: "wp = Some p" "change_permlevel p l False (sy_store st) = Inr w1" for p l w1 log
  proof -
    let ?p1 = "p\<lparr>wp_permlevel := l\<rparr>"
    have p: "wk_pages (sy_store st) (page_id p) = Some p" using VWikiPage_stored [OF ok] 2(1) t(1) by blast
    have w1: "wiki_ok w1 \<and> revs_kept (sy_store st) w1" by (rule change_permlevel_ok [OF ok p t(2)])
    have "wk_pages w1 (page_id ?p1) = Some ?p1"
      using t(2) p by (auto simp: change_permlevel_def page_id_def split: if_splits)
    then have "wiki_ok (page_commit (?p1\<lparr>wp_listed := listed\<rparr>) w1)"
      by (intro page_settings_ok [of w1 ?p1]) (use w1 in simp_all)
    then show ?thesis using w1 revs_kept_trans revs_kept_same [of "page_commit (?p1\<lparr>wp_listed := listed\<rparr>) w1" w1]
      by (auto simp: served_well_def sys_kept_def)
  qed
  then show ?case using ok by (auto simp: Let_def split: option.splits sum.splits)
qed (use ok in simp)

text \<open>Requests, each with its own context and environment.\<close>

datatype wiki_request =
    Edit "string option" "string option" "string option" "string option"
  | AllowEditor "string option" "string option" "string option"
  | RevisionDelete "string option" "string option" bool
  | RevisionHide "string option" "string option"
  | RevisionRevert "string option" "string option"
  | Settings "string option" "int option" bool

definition wiki_serve :: "wiki_cfg \<Rightarrow> wenv \<times> wctx \<times> wiki_request \<Rightarrow> wsys \<Rightarrow> wsys" where
  "wiki_serve cfg req st =
     (case req of (e, x, r) \<Rightarrow>
        (case wiki_pre e x of
           Inl _ \<Rightarrow> st
         | Inr x \<Rightarrow> (case r of
               Edit page previous content reason \<Rightarrow> snd (POST_wiki_edit cfg e x page previous content reason st)
             | AllowEditor page act user \<Rightarrow> snd (POST_wiki_allow_editor e x page act user st)
             | RevisionDelete page revision deleted \<Rightarrow> snd (POST_wiki_revision_delete e x page revision deleted st)
             | RevisionHide page revision \<Rightarrow> snd (POST_wiki_revision_hide e x page revision st)
             | RevisionRevert page revision \<Rightarrow> snd (POST_wiki_revision_revert cfg e x page revision st)
             | Settings page permlevel listed \<Rightarrow> snd (POST_wiki_settings e x page permlevel listed st))))"

text \<open>The id of a new revision is a new UUID.\<close>

definition new_uuid :: "wenv \<times> wctx \<times> wiki_request \<Rightarrow> wsys \<Rightarrow> bool" where
  "new_uuid req st \<longleftrightarrow> wk_revs (sy_store st) (we_rid (fst req)) = None"

interpretation wiki: request_system "wiki_serve cfg" new_uuid "\<lambda>st. wiki_ok (sy_store st)" sys_kept for cfg
proof
  fix st req assume "wiki_ok (sy_store st)" "new_uuid req st"
  then have "served_well st (wiki_serve cfg req st)"
    by (cases req)
      (auto simp: wiki_serve_def new_uuid_def intro: POST_wiki_edit_well POST_wiki_allow_editor_well POST_wiki_revision_delete_well
        POST_wiki_revision_hide_well POST_wiki_revision_revert_well POST_wiki_settings_well split: sum.splits wiki_request.splits)
  then show "wiki_ok (sy_store (wiki_serve cfg req st)) \<and> sys_kept st (wiki_serve cfg req st)"
    by (simp add: served_well_def)
qed (auto simp: sys_kept_def revs_kept_same intro: revs_kept_trans)

end
