(* ===== verification/WikiSafety.thy ===== *)
theory WikiSafety
  imports WikiApi
begin

section \<open>What the wiki guarantees\<close>

text \<open>
  Properties of the requests of \<open>WikiApi\<close> over the store of \<open>Wiki\<close> and the access rules of \<open>WikiAccess\<close>: the
  store stays in order, edits need permission and store what they should, and the list of pages is complete.
\<close>

subsection \<open>Every page is its last revision\<close>

text \<open>
  (C21) Whatever requests are served, with whatever rights: the content of every page is the content of the
  revision it names, the list of pages has an exact copy of it, every revision is in the history of its
  page, and no revision is ever lost or rewritten; only its flags (hidden, deleted by an administrator) change.
\<close>

theorem wiki_history_kept:
  assumes "wiki_ok (sy_store st)" "wiki.possible_run cfg rs st"
  shows "wiki_ok (sy_store (fold (wiki_serve cfg) rs st)) \<and> revs_kept (sy_store st) (sy_store (fold (wiki_serve cfg) rs st))"
  using wiki.run_ok [OF assms] by (simp add: sys_kept_def)

subsection \<open>Edits need permission\<close>

lemma lower_char_sep: "lower_char c = PAGE_ID_SEP \<longleftrightarrow> c = PAGE_ID_SEP"
proof -
  have "(of_char (lower_char c) :: nat) = (if 65 \<le> (of_char c :: nat) \<and> of_char c \<le> (90 :: nat) then of_char c + 32 else of_char c)"
    by (simp add: lower_char_def Let_def)
  moreover have "(of_char PAGE_ID_SEP :: nat) = 9" by (simp add: PAGE_ID_SEP_def)
  ultimately have "(of_char (lower_char c) :: nat) = of_char PAGE_ID_SEP \<longleftrightarrow> (of_char c :: nat) = of_char PAGE_ID_SEP"
    by auto
  then show ?thesis by (simp only: of_char_eq_iff)
qed

lemma split_at_sep:
  assumes "a @ s # b = a' @ s # b'" "s \<notin> set a" "s \<notin> set a'"
  shows "a = a' \<and> b = b'"
proof -
  have t: "takeWhile (\<lambda>c. c \<noteq> s) (x @ s # y) = x" if "s \<notin> set x" for x y
    using that by (induction x) auto
  have "a = a'" using t [OF assms(2), of b] t [OF assms(3), of b'] assms(1) by simp
  then show ?thesis using assms(1) by simp
qed

lemma wiki_id_eq:
  assumes "PAGE_ID_SEP \<notin> set sr" "PAGE_ID_SEP \<notin> set sr'" "wiki_id sr name = wiki_id sr' name'"
  shows "py_lower sr = py_lower sr' \<and> py_lower name = py_lower name'"
proof -
  have "lower_char c \<noteq> PAGE_ID_SEP" if "c \<in> set sr \<union> set sr'" for c using that assms(1,2) lower_char_sep by auto
  then have no: "PAGE_ID_SEP \<notin> set (py_lower sr)" "PAGE_ID_SEP \<notin> set (py_lower sr')"
    unfolding py_lower_def set_map by (metis Un_iff imageE)+
  have "py_lower sr @ PAGE_ID_SEP # py_lower name = py_lower sr' @ PAGE_ID_SEP # py_lower name'"
    using assms(3) lower_char_sep [of PAGE_ID_SEP] by (simp add: wiki_id_def py_lower_def)
  then show ?thesis by (rule split_at_sep [OF _ no])
qed

lemma wiki_id_lower: "wiki_id sr (py_lower name) = wiki_id sr name"
  by (simp add: wiki_id_def py_lower_def)

text \<open>A request changes no other page than the one it is about.\<close>

lemma revise_pages:
  assumes "revise cfg p content previous author force reason rid now w = Inr (wr, w')" "q \<noteq> page_id p"
  shows "wk_pages w' q = wk_pages w q"
  using assms
  by (auto simp: revise_def Let_def rev_create_def page_commit_def rev_commit_def page_id_def
      split: if_splits sum.splits)

lemma page_create_pages:
  "page_create sr name w = Inr (p, w') \<Longrightarrow> q \<noteq> page_id p \<Longrightarrow> wk_pages w' q = wk_pages w q"
  by (auto simp: page_create_def Let_def page_commit_def split: if_splits)

lemma page_id_create: "page_create sr name w = Inr (p, w') \<Longrightarrow> page_id p = wiki_id sr name"
  by (auto simp: page_create_def Let_def page_id_def wiki_id_lower split: if_splits)

lemma change_css_pages:
  assumes ok: "wiki_ok (sy_store st)" and q: "q \<noteq> wiki_id (ws_id36 (wx_site x)) ''config/stylesheet''"
  shows "wk_pages (sy_store (snd (change_css cfg e x content parsed prev reason force st))) q = wk_pages (sy_store st) q"
proof (cases "page_get (ws_id36 (wx_site x)) ''config/stylesheet'' (sy_store st)")
  case (Inr p)
  then have "page_id p = wiki_id (ws_id36 (wx_site x)) ''config/stylesheet''"
    using page_getD [OF ok] by (auto simp: page_get_Inr)
  then show ?thesis using Inr q revise_pages [of cfg p content prev "author_id x" force reason "we_rid e" "we_now e" "sy_store st"]
    by (auto simp: change_css_def Let_def split: sum.splits prod.splits)
next
  case (Inl err)
  show ?thesis
  proof (cases "page_create (ws_id36 (wx_site x)) ''config/stylesheet'' (sy_store st)")
    case (Inr pw)
    obtain p w1 where pw: "pw = (p, w1)" by (cases pw)
    have "page_id p = wiki_id (ws_id36 (wx_site x)) ''config/stylesheet''" using page_id_create Inr pw by blast
    then show ?thesis
      using Inl Inr pw q page_create_pages [of _ _ "sy_store st" p w1 q]
        revise_pages [of cfg p content prev "author_id x" force reason "we_rid e" "we_now e" w1 _ _ q]
      by (auto simp: change_css_def Let_def split: sum.splits prod.splits)
  qed (use Inl in \<open>simp add: change_css_def Let_def\<close>)
qed

lemma save_edit_pages:
  assumes ok: "wiki_ok (sy_store st)" and q: "q \<noteq> page_id p"
    and css: "wp_name p = ''config/stylesheet'' \<Longrightarrow> page_id p = wiki_id (ws_id36 (wx_site x)) ''config/stylesheet''"
  shows "wk_pages (sy_store (snd (save_edit cfg e x p content previous reason st))) q = wk_pages (sy_store st) q"
proof (cases "checked_markdown e (wp_name p) content")
  case (Inr content')
  show ?thesis
  proof (cases "wp_name p = ''config/stylesheet''")
    case True
    have "wk_pages (sy_store (snd (change_css cfg e x content' parsed previous reason False st))) q = wk_pages (sy_store st) q" for parsed
      using change_css_pages [OF ok] css True q by simp
    moreover have "snd (save_edit cfg e x p content previous reason st) = st \<or>
        (\<exists>parsed. snd (save_edit cfg e x p content previous reason st) = snd (change_css cfg e x content' parsed previous reason False st))"
    proof (cases "parse_css e x content' False (sy_store st)")
      case (Inr css)
      obtain errs parsed where css: "css = (errs, parsed)" by (cases css)
      obtain res st' where c: "change_css cfg e x content' parsed previous reason False st = (res, st')"
        by (cases "change_css cfg e x content' parsed previous reason False st")
      have "snd (save_edit cfg e x p content previous reason st) = st \<or> snd (save_edit cfg e x p content previous reason st) = st'"
        using \<open>checked_markdown e (wp_name p) content = Inr content'\<close> Inr css True c by (cases res) (simp_all add: save_edit_def)
      then show ?thesis using c by (metis snd_conv)
    qed (use True Inr in \<open>simp add: save_edit_def\<close>)
    ultimately show ?thesis by auto
  next
    case False
    then show ?thesis
      using Inr revise_pages [of cfg p content' previous "author_id x" False reason "we_rid e" "we_now e" "sy_store st" _ _ q] q
      by (auto simp: save_edit_def Let_def split: sum.splits prod.splits)
  qed
qed (simp add: save_edit_def)

text \<open>
  (C22) An edit changes an existing page only with permission. If the request to edit a page changes any page
  that exists, it is the page that the request names, and the user may revise it; if it is a special page
  (the configuration of the subreddit) and the user no site administrator, then the user is an editor of the
  page or a moderator with the permission \<open>config\<close>, may view it and is not banned. Ids of subreddits contain no tab.
\<close>

theorem wiki_edit_authorised:
  assumes "wiki_ok (sy_store st)" "wk_pages (sy_store st) q = Some p"
    and "wk_pages (sy_store (snd (POST_wiki_edit cfg e x page previous content reason st))) q \<noteq> Some p"
    and "PAGE_ID_SEP \<notin> set (ws_id36 (wx_site x))" "\<forall>pid r. wk_pages (sy_store st) pid = Some r \<longrightarrow> PAGE_ID_SEP \<notin> set (wp_sr r)"
  shows "this_may_revise x (Some p) (sy_store st) = Inr True \<and>
    (\<exists>name. VWikiPageName False page = (Some name, []) \<and> q = wiki_id (ws_id36 (wx_site x)) name) \<and>
    (special p \<and> \<not> admin x \<longrightarrow> (\<exists>u. wx_user x = Some u \<and> trusted_with x u p (sy_store st)))"
    (is ?thesis)
proof (rule ccontr)
  assume no: "\<not> ?thesis"
  let ?w = "sy_store st"
  have "wk_pages (sy_store (snd (POST_wiki_edit cfg e x page previous content reason st))) q = Some p"
  proof (rule POST_wiki_edit_rule [where P = "\<lambda>st'. wk_pages (sy_store st') q = Some p"], goal_cases)
    case (2 create_error name errs prev)
    have "wk_pages (sy_store (snd (save_edit cfg e x p' content pr reason (st\<lparr>sy_store := w'\<rparr>)))) q = Some p"
      if c: "page_create (ws_id36 (wx_site x)) n ?w = Inr (p', w')" for n p' w' pr
    proof -
      have q: "q \<noteq> page_id p'" using page_create_ok [OF assms(1) c] assms(2) by auto
      have "wk_pages (sy_store (snd (save_edit cfg e x p' content pr reason (st\<lparr>sy_store := w'\<rparr>)))) q = wk_pages w' q"
        using save_edit_pages [of "st\<lparr>sy_store := w'\<rparr>" q p' x] page_create_ok [OF assms(1) c] q
        by (simp add: page_id_def)
      then show ?thesis using page_create_pages [OF c q] assms(2) by simp
    qed
    then show ?case using assms(2) by (auto simp: create_and_edit_def split: option.splits sum.splits)
  next
    case (3 p' create_error name errs prev)
    obtain n where n: "this_may_revise x (Some p') ?w = Inr True" "VWikiPageName False page = (Some n, [])"
        "wk_pages ?w (wiki_id (ws_id36 (wx_site x)) n) = Some p'"
      using edit_validators_page [OF 3] by blast
    have id: "page_id p' = wiki_id (ws_id36 (wx_site x)) n" "page_id p = q"
      using page_getD [OF assms(1)] n(3) assms(2) by auto
    show ?case
    proof (cases "q = page_id p'")
      case True
      then have "p' = p" using n(3) id assms(2) by simp
      then show ?thesis using no n id special_pages_protected [of p x ?w] by auto
    next
      case False
      have css: "page_id p' = wiki_id (ws_id36 (wx_site x)) ''config/stylesheet''" if "wp_name p' = ''config/stylesheet''"
      proof -
        have "py_lower (wp_name p') = py_lower n"
          using wiki_id_eq [of "wp_sr p'" "ws_id36 (wx_site x)" "wp_name p'" n] assms(4,5) n(3) id(1) by (simp add: page_id_def)
        then show ?thesis using id(1) that wiki_id_lower by metis
      qed
      have "wk_pages (sy_store (snd (save_edit cfg e x p' content pr reason st))) q = Some p" for pr
        using save_edit_pages [OF assms(1) False, of x cfg e] css assms(2) by simp
      then show ?thesis using assms(2) by (simp add: edit_existing_def)
    qed
  qed (use assms(2) in simp)
  then show False using assms(3) by simp
qed

subsection \<open>What an edit stores\<close>

text \<open>A request to edit that passes all checks, with the revision it starts from.\<close>

definition edit_passes ::
    "wiki_cfg \<Rightarrow> wenv \<Rightarrow> wctx \<Rightarrow> wsys \<Rightarrow> string option \<Rightarrow> string option \<Rightarrow> string \<Rightarrow> wpage \<Rightarrow> wrev \<Rightarrow> bool" where
  "edit_passes cfg e x st page previous c p r \<longleftrightarrow>
     we_modhash e \<and> wx_user x \<noteq> None \<and> \<not> in_timeout x \<and> \<not> (case wx_user x of None \<Rightarrow> False | Some u \<Rightarrow> wu_spam u) \<and>
     (\<exists>name. edit_validators cfg x page previous (sy_store st) = Inr ((Some (Some p, Some r), None, name), [])) \<and>
     checked_markdown e (wp_name p) (Some c) = Inr (Some c) \<and> int (length c) \<le> max_length cfg (wp_name p) \<and>
     wp_name p \<noteq> ''config/stylesheet'' \<and> we_ruleset e (Some c) = None"

lemma edit_validators_revision:
  assumes ok: "wiki_ok w" and v: "edit_validators cfg x page previous w = Inr ((Some (Some p, Some r), create_error, name), errs)"
  shows "wk_pages w (page_id p) = Some p \<and> wk_revs w (wr_id r) = Some r \<and> wr_pageid r = page_id p"
proof -
  have p: "wk_pages w (page_id p) = Some p" using edit_validators_page [OF v] page_getD [OF ok] by blast
  obtain errs1 where "VWikiPageRevise cfg x False True page previous w = Inr (Some (Some p, Some r), errs1, create_error)"
    using edit_validators_Inr [OF v] by metis
  then have "fst (validversion x True previous (page_id p) w) = Some r"
    by (auto simp: VWikiPageRevise_def bindr_eq_Inr_iff split: prod.splits if_splits option.splits list.splits)
  then obtain v where "rev_get v (page_id p) w = Inr r"
    by (auto simp: validversion_def split: option.splits sum.splits if_splits)
  then show ?thesis using p rev_get_stored [OF ok] by blast
qed

lemma revise_stores:
  assumes "c \<noteq> wp_content p" "int (length c) \<le> max_length cfg (wp_name p)"
    and "merged_content cfg p c previous (previous = NoPrevious \<or> force) w = Inr m"
  shows "\<exists>wr w' p'. revise cfg p (Some c) previous author force reason rid now w = Inr (Some wr, w') \<and>
    wk_pages w' (page_id p) = Some p' \<and> wp_content p' = m \<and> wp_revision p' = Some rid \<and> wk_revs w' rid = Some wr \<and> wr_content wr = m"
proof -
  define wr where "wr = fst (rev_create (page_id p) m author reason rid now w)"
  define p' where "p' = p\<lparr>wp_content := m, wp_last_edit_by := author, wp_last_edit_date := Some now, wp_revision := Some rid\<rparr>"
  define w2 where "w2 = page_commit p' (rev_commit wr w)"
  have wr: "rev_create (page_id p) m author reason rid now w = (wr, rev_commit wr w)" "wr_id wr = rid" "wr_content wr = m" "wr_date wr = now"
    by (simp_all add: wr_def rev_create_def Let_def)
  have "page_id p' = page_id p" by (simp add: p'_def page_id_def)
  then have w2: "wk_pages w2 (page_id p) = Some p'" "wk_revs w2 rid = Some wr" by (simp_all add: w2_def wr(2))
  have "revise cfg p (Some c) previous author force reason rid now w =
      Inr (Some wr, w2\<lparr>wk_modified := touch now (''WikiPage_'' @ page_id p) [''Edit''] (wk_modified w2)\<rparr>)"
    unfolding revise_def option.case Let_def using assms wr(2,4) by (simp add: wr(1) p'_def [symmetric] w2_def [symmetric] not_less)
  then show ?thesis using w2 wr(3) by (simp add: p'_def)
qed

lemma merged_forced: "merged_content cfg p c previous True w = Inr c"
  by (simp add: merged_content_def split: option.splits)

lemma edit_result:
  assumes ok: "wiki_ok (sy_store st)" and passes: "edit_passes cfg e x st page previous c p r"
    and new: "c \<noteq> wp_content p" and rev: "wp_revision p = Some rv" "rv \<noteq> []"
    and merge: "wc_merge cfg (wr_content r) c (wp_content p) = Some m"
  shows "\<exists>st' p' wr. POST_wiki_edit cfg e x page previous (Some c) reason st = (Inr (), st') \<and>
    wk_pages (sy_store st') (page_id p) = Some p' \<and> wp_content p' = m \<and> wp_revision p' = Some (we_rid e) \<and>
    wk_revs (sy_store st') (we_rid e) = Some wr \<and> wr_content wr = m \<and>
    (\<forall>a. special p \<and> map_of ATTRIBUTE_BY_PAGE (wp_name p) = Some a \<longrightarrow> map_of (sy_attrs st') a = Some (Some c))"
proof -
  obtain name where v: "edit_validators cfg x page previous (sy_store st) = Inr ((Some (Some p, Some r), None, name), [])"
    using passes by (auto simp: edit_passes_def)
  note stored = edit_validators_revision [OF ok v]
  have "origcontent (PrevUuid (wr_id r)) (page_id p) (sy_store st) = Inr (wr_content r)"
    using stored by (simp add: origcontent_def rev_get_def)
  then have mc: "merged_content cfg p c (PrevUuid (wr_id r)) False (sy_store st) = Inr m"
    using rev merge by (simp add: merged_content_def prev_matches_def)
  obtain wr w' p' where w': "revise cfg p (Some c) (PrevUuid (wr_id r)) (author_id x) False reason (we_rid e) (we_now e) (sy_store st) = Inr (Some wr, w')"
      "wk_pages w' (page_id p) = Some p'" "wp_content p' = m" "wp_revision p' = Some (we_rid e)" "wk_revs w' (we_rid e) = Some wr" "wr_content wr = m"
    using revise_stores [of c p cfg "PrevUuid (wr_id r)" False "sy_store st" m "author_id x" reason "we_rid e" "we_now e"] passes new mc
    by (auto simp: edit_passes_def)
  have "POST_wiki_edit cfg e x page previous (Some c) reason st = save_edit cfg e x p (Some c) (PrevUuid (wr_id r)) reason st"
    using passes v by (auto simp: POST_wiki_edit_def validated_def edit_passes_def abort_on_def edit_existing_def edit_previous_def)
  moreover obtain st' where st': "save_edit cfg e x p (Some c) (PrevUuid (wr_id r)) reason st = (Inr (), st')" "sy_store st' = w'"
      "sy_attrs st' = sy_attrs (if special p then save_attr (wp_name p) (Some c) st else st)"
    using passes w'(1) by (auto simp: save_edit_def edit_passes_def Let_def save_attr_def split: option.splits)
  moreover have "\<forall>a. special p \<and> map_of ATTRIBUTE_BY_PAGE (wp_name p) = Some a \<longrightarrow> map_of (sy_attrs st') a = Some (Some c)"
    using st'(3) by (auto simp: save_attr_def)
  ultimately show ?thesis using w'(2-6) by auto
qed

text \<open>
  (C23) An edit that starts from the current revision is stored as it was sent: the page and a new revision
  have exactly the new content, and for the pages that are also settings of the subreddit (side bar, submission
  text, description) the setting has it, too. Of \<open>diff3\<close> it is used that merging with an unchanged file changes nothing.
\<close>

theorem wiki_edit_stored:
  assumes "wiki_ok (sy_store st)" "edit_passes cfg e x st page previous c p r" "c \<noteq> wp_content p"
    and "wp_revision p = Some (wr_id r)" "wr_id r \<noteq> []" "\<forall>orig a. wc_merge cfg orig a orig = Some a"
  shows "\<exists>st' p' wr. POST_wiki_edit cfg e x page previous (Some c) reason st = (Inr (), st') \<and>
    wk_pages (sy_store st') (page_id p) = Some p' \<and> wp_content p' = c \<and> wp_revision p' = Some (we_rid e) \<and>
    wk_revs (sy_store st') (we_rid e) = Some wr \<and> wr_content wr = c \<and>
    (\<forall>a. special p \<and> map_of ATTRIBUTE_BY_PAGE (wp_name p) = Some a \<longrightarrow> map_of (sy_attrs st') a = Some (Some (wp_content p')))"
proof -
  obtain name where "edit_validators cfg x page previous (sy_store st) = Inr ((Some (Some p, Some r), None, name), [])"
    using assms(2) by (auto simp: edit_passes_def)
  note stored = edit_validators_revision [OF assms(1) this]
  have "page_ok (sy_store st) (page_id p) p" using stored wiki_okD(1) [OF assms(1)] by blast
  then have "wr_content r = wp_content p" using assms(4) stored by (simp add: page_ok_def)
  then have "wc_merge cfg (wr_content r) c (wp_content p) = Some c" using assms(6) by simp
  from edit_result [OF assms(1-5) this, of reason] show ?thesis by auto
qed

text \<open>
  After a merge the settings of a subreddit differ from its wiki. When the side bar was changed by
  somebody else since the revision an edit starts from, the page gets the merge of both edits, but the
  setting \<open>description\<close> gets the content of the request alone: the other edit is gone from the side bar that
  visitors see, although the page shows it.
\<close>

lemma sidebar_drifts_from_wiki:
  assumes "wiki_ok (sy_store st)" "edit_passes cfg e x st page previous c p r" "c \<noteq> wp_content p"
    and "wp_revision p = Some rv" "rv \<noteq> []" "wp_name p = ''config/sidebar''"
    and "wc_merge cfg (wr_content r) c (wp_content p) = Some m" "m \<noteq> c"
  shows "\<exists>st' p'. POST_wiki_edit cfg e x page previous (Some c) reason st = (Inr (), st') \<and>
    wk_pages (sy_store st') (page_id p) = Some p' \<and> wp_content p' = m \<and>
    map_of (sy_attrs st') ''description'' = Some (Some c) \<and> c \<noteq> wp_content p'"
proof -
  have "special p" using assms(6) by (simp add: special_def is_special_page_def special_pages_def)
  moreover have "map_of ATTRIBUTE_BY_PAGE (wp_name p) = Some ''description''" using assms(6) by (simp add: ATTRIBUTE_BY_PAGE_def)
  ultimately show ?thesis using edit_result [OF assms(1-5,7), of reason] assms(8) by blast
qed

subsection \<open>The guard of reverts\<close>

lemma all_permissions_append:
  "all_permissions r (ps @ qs) = bindr (all_permissions r ps) (\<lambda>b. if b then all_permissions r qs else Inr False)"
proof (induction ps)
  case (Cons p ps)
  then show ?case by (cases "has_permission r p") (auto simp: bindr_def)
qed simp

lemma mod_perms_both:
  assumes "mod_with_perms x u [a] = Inr True" "mod_with_perms x u [b] = Inr False"
  shows "mod_with_perms x u [a, b] = Inr False"
  using assms all_permissions_append [of _ "[a]" "[b]"]
  by (auto simp: mod_with_perms_def is_moderator_with_perms_def split: if_splits option.splits)

lemma sidebar_names:
  "VWikiPageName False (Some ''config/sidebar'') = (Some ''config/sidebar'', [])"
  "VWikiPageName False (Some ''config/Sidebar'') = (Some ''config/sidebar'', [])"
  "is_special_page ''config/sidebar''" "\<not> is_special_page ''config/Sidebar''"
  by code_simp+

text \<open>
  The permission \<open>config\<close> that reverting a special page asks for can be avoided. A moderator with the
  permission \<open>wiki\<close> but not \<open>config\<close>, who may not edit the side bar, is refused to revert it under its name;
  but the guard looks at the name as it was sent and the page is looked up by the normalised name, so a
  request for \<open>config/Sidebar\<close> reverts the same page and changes the description of the subreddit.
\<close>

lemma revert_guard_bypassed:
  assumes ok: "wiki_ok (sy_store st)" and "\<not> admin x" "wx_user x = Some u" "we_modhash e" "\<not> in_timeout x"
    and perms: "mod_with_perms x u [''wiki''] = Inr True" "mod_with_perms x u [''config''] = Inr False"
    and p: "wk_pages (sy_store st) (wiki_id (ws_id36 (wx_site x)) ''config/sidebar'') = Some p" "wp_name p = ''config/sidebar''"
    and "\<not> has_editor p (wu_id36 u) (sy_store st)"
    and r: "wk_revs (sy_store st) rid = Some r" "rid \<noteq> []" "wr_pageid r = page_id p" "\<not> wr_admin_deleted r"
    and "wr_content r \<noteq> wp_content p" "int (length (wr_content r)) \<le> 5120"
  shows "this_may_revise x (Some p) (sy_store st) = Inr False \<and>
    POST_wiki_revision_revert cfg e x (Some ''config/sidebar'') (Some rid) st = (Inl (Abort 403 ''MOD_REQUIRED''), st) \<and>
    (\<exists>st' p'. POST_wiki_revision_revert cfg e x (Some ''config/Sidebar'') (Some rid) st = (Inr (), st') \<and>
       wk_pages (sy_store st') (page_id p) = Some p' \<and> wp_content p' = wr_content r \<and>
       map_of (sy_attrs st') ''description'' = Some (Some (wr_content r)))"
proof -
  let ?w = "sy_store st"
  have special: "special p" using p(2) by (simp add: special_def is_special_page_def special_pages_def)
  have view: "this_may_view x p = Inr True" using assms(2,3) perms by (simp add: this_may_view_def may_view_def)
  have no: "this_may_revise x (Some p) ?w = Inr False"
    using assms(2,3,10) perms special view by (simp add: this_may_revise_def may_revise_def this_may_view_def)
  have guard: "VWikiModerator x (Some ''config/sidebar'') = Inr [(''MOD_REQUIRED'', Some 403)]"
      "VWikiModerator x (Some ''config/Sidebar'') = Inr []"
    using assms(2,3) perms mod_perms_both [OF perms] sidebar_names(3,4) by (simp_all add: VWikiModerator_def Let_def)
  have "VWikiPage x True True False (Some n) ?w = Inr (Some p, [])" if "n \<in> {''config/sidebar'', ''config/Sidebar''}" for n
    using that sidebar_names(1,2) p(1) special view by (auto simp: VWikiPage_def validpage_def page_get_def)
  moreover have "validversions x True (Some p) [Some rid] ?w = (Some [Some r], [])"
    using r by (simp add: validversion_def rev_get_def)
  ultimately have pv: "VWikiPageAndVersion x True True True (Some n) [Some rid] ?w = Inr (Some (Some p, [Some r]), [])"
    if "n \<in> {''config/sidebar'', ''config/Sidebar''}" for n
    using that by (simp add: VWikiPageAndVersion_def)
  have refused: "POST_wiki_revision_revert cfg e x (Some ''config/sidebar'') (Some rid) st = (Inl (Abort 403 ''MOD_REQUIRED''), st)"
    using pv [of "''config/sidebar''"] guard(1) assms(3,4)
    by (simp add: POST_wiki_revision_revert_def with_revision_def validated_def both_def abort_on_def)
  let ?reason = "Some (''reverted back '' @ we_since e (wr_date r))"
  have len: "max_length cfg (wp_name p) = 5120" using p(2) by (simp add: max_length_def special_length_restrictions_def)
  obtain wr w' p' where w': "revise cfg p (Some (wr_content r)) NoPrevious (author_id x) True ?reason (we_rid e) (we_now e) ?w = Inr (wr, w')"
      "wk_pages w' (page_id p) = Some p'" "wp_content p' = wr_content r"
    using revise_stores [of "wr_content r" p cfg NoPrevious True ?w "wr_content r" "author_id x" ?reason "we_rid e" "we_now e"]
      assms(15,16) len merged_forced by auto
  have "POST_wiki_revision_revert cfg e x (Some ''config/Sidebar'') (Some rid) st =
      (Inr (), save_attr (wp_name p) (Some (wr_content r)) (st\<lparr>sy_store := w'\<rparr>))"
    using pv [of "''config/Sidebar''"] guard(2) assms(3-5) w'(1) p(2)
    by (simp add: POST_wiki_revision_revert_def with_revision_def validated_def both_def abort_on_def Let_def)
  then show ?thesis using no refused w'(2,3) p(2) by (simp add: save_attr_def ATTRIBUTE_BY_PAGE_def)
qed

subsection \<open>The list of pages\<close>

text \<open>
  (C24) The list of the pages of a wiki ends, is complete and shows nothing it should not: the pages are
  those of the subreddit that pass the check, each once and sorted by name, although they are fetched in
  portions; and following a path in the tree leads to the page of that name, for every name with a page and for no other.
\<close>

theorem wiki_listing_complete:
  assumes "wiki_ok w"
  shows "\<exists>tree pages. get_listing (row_slicer (wk_listing w sr)) check = Some (Inr (tree, pages)) \<and>
    set pages = {p. wp_sr p = sr \<and> wk_pages w (page_id p) = Some p \<and> check p} \<and> distinct pages \<and>
    sorted (map wp_name pages) \<and>
    (\<forall>name p. tree_find (split_on CHR ''/'' name) tree = Some p \<longleftrightarrow> p \<in> set pages \<and> wp_name p = name)"
proof -
  let ?row = "wk_listing w sr" and ?all = "map snd (rev (sort_key fst (wk_listing w sr)))"
  define pages where "pages = sort_key wp_name (filter check ?all)"
  have ok: "dict_ok ?row" by (rule wiki_okD(3) [OF assms])
  have entry: "(k, p) \<in> set ?row \<longleftrightarrow> wp_sr p = sr \<and> wk_pages w k = Some p \<and> page_id p = k" for k p
  proof
    assume "(k, p) \<in> set ?row"
    then have "map_of ?row k = Some p" using ok by (simp add: dict_ok_def)
    then have "wk_pages w k = Some p \<and> wp_sr p = sr" by (rule wiki_okD(2) [OF assms])
    then show "wp_sr p = sr \<and> wk_pages w k = Some p \<and> page_id p = k" using page_getD [OF assms] by blast
  next
    assume "wp_sr p = sr \<and> wk_pages w k = Some p \<and> page_id p = k"
    then have "map_of ?row k = Some p" using wiki_okD(1) [OF assms] by (auto simp: page_ok_def)
    then show "(k, p) \<in> set ?row" by (rule map_of_SomeD)
  qed
  have listing: "get_listing (row_slicer ?row) check = Some (Inr (page_tree pages, pages))"
    using get_pages_exact [OF row_slicer_slices [OF ok], of check] by (simp add: get_listing_def pages_def Let_def)
  have "p \<in> set pages \<longleftrightarrow> (\<exists>k. (k, p) \<in> set ?row) \<and> check p" for p by (force simp: pages_def)
  then have "p \<in> set pages \<longleftrightarrow> wp_sr p = sr \<and> wk_pages w (page_id p) = Some p \<and> check p" for p unfolding entry by blast
  then have set: "set pages = {p. wp_sr p = sr \<and> wk_pages w (page_id p) = Some p \<and> check p}" by blast
  have names: "inj_on wp_name (set pages)"
  proof (rule inj_onI)
    fix a b assume ab: "a \<in> set pages" "b \<in> set pages" "wp_name a = wp_name b"
    then have "page_id a = page_id b" using set by (simp add: page_id_def)
    then show "a = b" using ab(1,2) set by (metis (mono_tags, lifting) mem_Collect_eq option.inject)
  qed
  have inj: "inj_on snd (set ?row)"
  proof (rule inj_onI)
    fix a b assume "a \<in> set ?row" "b \<in> set ?row" "snd a = snd b"
    then show "a = b" using entry [of "fst a" "snd a"] entry [of "fst b" "snd b"] by (metis prod.collapse)
  qed
  have "distinct ?row" using ok by (simp add: dict_ok_def distinct_map)
  then have dist: "distinct pages" using inj by (simp add: pages_def distinct_map distinct_sort)
  have "distinct (map wp_name pages)" using names dist by (simp add: distinct_map)
  moreover have "sorted (map wp_name pages)" by (simp add: pages_def)
  ultimately show ?thesis using listing set dist page_tree_find [of pages] by blast
qed

subsection \<open>A sample wiki\<close>

text \<open>The wiki of one subreddit with its side bar in two revisions; user 7 is a moderator with the permission \<open>wiki\<close> only.\<close>

definition sample_cfg :: wiki_cfg where
  "sample_cfg = \<lparr>wc_max_page = 1000, wc_max_css = 1000, wc_max_separators = 2, wc_max_name = 100,
     wc_merge = (\<lambda>orig a b. if b = orig then Some a else if a = orig then Some b else if a = b then Some a else Some (a @ b))\<rparr>"

definition sample_wenv :: wenv where
  "sample_wenv = \<lparr>we_modhash = True, we_markdown = (\<lambda>_ _. None), we_validate_css = (\<lambda>css _. ([], css)), we_blank_url = [],
     we_relative_url = id, we_css_killswitch = False, we_upload = id, we_ruleset = (\<lambda>_. None), we_wiki_disabled = False,
     we_since = (\<lambda>_. ''1 hour''), we_rid = ''r3'', we_now = 30\<rparr>"

definition sample_wuser :: wuser where
  "sample_wuser = \<lparr>wu_user = sample_suser, wu_account = \<lparr>acc_id = 7, acc_spam = False, disable_karma = False, acc_t = []\<rparr>,
     wu_id36 = ''7'', wu_override = None, wu_age = 100, wu_spam = False, wu_in_timeout = False\<rparr>"

definition sample_rels :: rel_state where
  "sample_rels = rel_step (Add moderator 1 7 (Some [(''wiki'', True)]) [] 4 False) empty_rels"

definition sample_wctx :: "bool \<Rightarrow> wctx" where
  "sample_wctx adm = \<lparr>wx_rq = sample_request\<lparr>rq_admin := adm\<rparr>, wx_user = Some sample_wuser,
     wx_site = \<lparr>ws_sr = sample_subreddit ''public'', ws_id36 = ''1'', ws_name = ''test'', ws_wikimode = ''anyone'',
       ws_edit_karma = None, ws_edit_age = None, ws_use_subreddit_karma = True\<rparr>,
     wx_rels = sample_rels, wx_min_up = 0, wx_is_wiki_mod = True\<rparr>"

definition sample_wpage :: wpage where
  "sample_wpage = \<lparr>wp_sr = ''1'', wp_name = ''config/sidebar'', wp_permlevel = 0, wp_content = ''two'', wp_revision = Some ''r2'',
     wp_listed = True, wp_last_edit_by = Some ''7'', wp_last_edit_date = Some 20\<rparr>"

definition sample_wrev :: "string \<Rightarrow> string \<Rightarrow> int \<Rightarrow> wrev" where
  "sample_wrev rid content date = \<lparr>wr_id = rid, wr_pageid = page_id sample_wpage, wr_content = content, wr_author = Some ''7'',
     wr_reason = None, wr_date = date, wr_hidden = False, wr_admin_deleted = False\<rparr>"

definition sample_wstore :: wstore where
  "sample_wstore = \<lparr>wk_pages = [page_id sample_wpage \<mapsto> sample_wpage],
     wk_revs = [''r1'' \<mapsto> sample_wrev ''r1'' ''one'' 10, ''r2'' \<mapsto> sample_wrev ''r2'' ''two'' 20],
     wk_history = (\<lambda>_. [])(page_id sample_wpage := [(''r1'', []), (''r2'', [])]), wk_recent = (\<lambda>_. []),
     wk_listing = (\<lambda>_. [])(''1'' := [(page_id sample_wpage, sample_wpage)]), wk_editors = (\<lambda>_. []), wk_images = (\<lambda>_. []),
     wk_modified = (\<lambda>_. [])\<rparr>"

definition sample_wsys :: wsys where
  "sample_wsys = \<lparr>sy_store = sample_wstore, sy_attrs = [(''description'', Some ''two'')], sy_css_url = [], sy_log = []\<rparr>"

lemma sample_wsys_ok: "wiki_ok (sy_store sample_wsys)"
proof -
  have "wp_sr sample_wpage = ''1''" "wp_revision sample_wpage = Some ''r2''" "wp_content sample_wpage = ''two''" by (simp_all add: sample_wpage_def)
  then show ?thesis
    by (intro wiki_okI)
      (auto simp: sample_wsys_def sample_wstore_def page_ok_def sample_wrev_def dict_ok_def split: if_splits)
qed

theorem wiki_history_kept_witness:
  "wiki_ok (sy_store (fold (wiki_serve sample_cfg)
     [(sample_wenv, sample_wctx True, Edit (Some ''config/sidebar'') (Some ''r2'') (Some ''three'') None),
      (sample_wenv\<lparr>we_rid := ''r4''\<rparr>, sample_wctx True, RevisionDelete (Some ''config/sidebar'') (Some ''r1'') True)] sample_wsys))"
proof -
  let ?a = "(sample_wenv, sample_wctx True, Edit (Some ''config/sidebar'') (Some ''r2'') (Some ''three'') None)"
  let ?b = "(sample_wenv\<lparr>we_rid := ''r4''\<rparr>, sample_wctx True, RevisionDelete (Some ''config/sidebar'') (Some ''r1'') True)"
  have "new_uuid ?a sample_wsys" by code_simp
  moreover have "new_uuid ?b (wiki_serve sample_cfg ?a sample_wsys)" by code_simp
  ultimately have "wiki.possible_run sample_cfg [?a, ?b] sample_wsys" by simp
  from wiki_history_kept [OF sample_wsys_ok this] show ?thesis by simp
qed

theorem wiki_edit_authorised_witness:
  "this_may_revise (sample_wctx True) (Some sample_wpage) sample_wstore = Inr True"
proof -
  let ?st' = "snd (POST_wiki_edit sample_cfg sample_wenv (sample_wctx True) (Some ''config/sidebar'') (Some ''r2'') (Some ''three'') None sample_wsys)"
  have "wk_pages (sy_store sample_wsys) (page_id sample_wpage) = Some sample_wpage" by (simp add: sample_wsys_def sample_wstore_def)
  moreover have "map_option wp_content (wk_pages (sy_store ?st') (page_id sample_wpage)) = Some ''three''" by code_simp
  then have "wk_pages (sy_store ?st') (page_id sample_wpage) \<noteq> Some sample_wpage" by (auto simp: sample_wpage_def)
  moreover have "PAGE_ID_SEP \<notin> set (ws_id36 (wx_site (sample_wctx True)))" by code_simp
  moreover have "\<forall>pid r. wk_pages (sy_store sample_wsys) pid = Some r \<longrightarrow> PAGE_ID_SEP \<notin> set (wp_sr r)"
    by (simp add: sample_wsys_def sample_wstore_def sample_wpage_def PAGE_ID_SEP_def)
  ultimately have "this_may_revise (sample_wctx True) (Some sample_wpage) (sy_store sample_wsys) = Inr True"
    using wiki_edit_authorised [OF sample_wsys_ok, of "page_id sample_wpage" sample_wpage sample_cfg sample_wenv "sample_wctx True"
        "Some ''config/sidebar''" "Some ''r2''" "Some ''three''" None] by blast
  then show ?thesis by (simp add: sample_wsys_def)
qed

lemma sample_passes:
  assumes "rid = ''r1'' \<and> r = sample_wrev ''r1'' ''one'' 10 \<or> rid = ''r2'' \<and> r = sample_wrev ''r2'' ''two'' 20"
  shows "edit_passes sample_cfg sample_wenv (sample_wctx True) sample_wsys (Some ''config/sidebar'') (Some rid) ''three'' sample_wpage r"
proof -
  have "edit_validators sample_cfg (sample_wctx True) (Some ''config/sidebar'') (Some ''r1'') (sy_store sample_wsys) =
      Inr ((Some (Some sample_wpage, Some (sample_wrev ''r1'' ''one'' 10)), None, Some ''config/sidebar''), [])"
    "edit_validators sample_cfg (sample_wctx True) (Some ''config/sidebar'') (Some ''r2'') (sy_store sample_wsys) =
      Inr ((Some (Some sample_wpage, Some (sample_wrev ''r2'' ''two'' 20)), None, Some ''config/sidebar''), [])"
    by code_simp+
  moreover have "checked_markdown sample_wenv (wp_name sample_wpage) (Some ''three'') = Inr (Some ''three'')"
    "int (length ''three'') \<le> max_length sample_cfg (wp_name sample_wpage)" "\<not> in_timeout (sample_wctx True)"
    "we_modhash sample_wenv" "wp_name sample_wpage \<noteq> ''config/stylesheet''"
    by code_simp+
  ultimately show ?thesis using assms by (auto simp: edit_passes_def sample_wctx_def sample_wuser_def sample_wenv_def)
qed

theorem wiki_edit_stored_witness:
  "\<exists>st' p'. POST_wiki_edit sample_cfg sample_wenv (sample_wctx True) (Some ''config/sidebar'') (Some ''r2'') (Some ''three'') None sample_wsys = (Inr (), st') \<and>
     wk_pages (sy_store st') (page_id sample_wpage) = Some p' \<and> wp_content p' = ''three''"
proof -
  have "\<forall>orig a. wc_merge sample_cfg orig a orig = Some a" by (simp add: sample_cfg_def)
  moreover have "wp_revision sample_wpage = Some (wr_id (sample_wrev ''r2'' ''two'' 20))" "''three'' \<noteq> wp_content sample_wpage"
    "wr_id (sample_wrev ''r2'' ''two'' 20) \<noteq> []"
    by (simp_all add: sample_wpage_def sample_wrev_def)
  ultimately show ?thesis
    using wiki_edit_stored [OF sample_wsys_ok sample_passes [of "''r2''" "sample_wrev ''r2'' ''two'' 20"], of None] by blast
qed

theorem wiki_listing_complete_witness:
  "\<exists>tree pages. get_listing (row_slicer (wk_listing sample_wstore ''1'')) (\<lambda>_. True) = Some (Inr (tree, pages)) \<and>
     tree_find [''config'', ''sidebar''] tree = Some sample_wpage"
proof -
  have ok: "wiki_ok sample_wstore" using sample_wsys_ok by (simp add: sample_wsys_def)
  have split: "split_on CHR ''/'' ''config/sidebar'' = [''config'', ''sidebar'']" by code_simp
  have "wp_sr sample_wpage = ''1''" "wk_pages sample_wstore (page_id sample_wpage) = Some sample_wpage" "wp_name sample_wpage = ''config/sidebar''"
    by (simp_all add: sample_wstore_def sample_wpage_def)
  moreover obtain tree pages where t: "get_listing (row_slicer (wk_listing sample_wstore ''1'')) (\<lambda>_. True) = Some (Inr (tree, pages))"
      "set pages = {p. wp_sr p = ''1'' \<and> wk_pages sample_wstore (page_id p) = Some p \<and> True}"
      "\<And>name p. tree_find (split_on CHR ''/'' name) tree = Some p \<longleftrightarrow> p \<in> set pages \<and> wp_name p = name"
    using wiki_listing_complete [OF ok, of "''1''" "\<lambda>_. True"] by blast
  ultimately have "tree_find (split_on CHR ''/'' ''config/sidebar'') tree = Some sample_wpage" unfolding t(3) t(2) by blast
  then show ?thesis using t(1) unfolding split by blast
qed

end
