(* ===== verification/AdminTools.thy ===== *)
theory AdminTools
  imports Prelude
begin

section \<open>Removing, approving and reporting\<close>

text \<open>
  Models \<open>AdminTools.spam\<close>, \<open>unspam\<close>, \<open>author_spammer\<close> and \<open>set_last_sr_ban\<close> of
  \<open>r2/models/admintools.py\<close> and \<open>Report.new\<close> and \<open>Report.accept\<close> of \<open>r2/models/report.py\<close>. The state holds
  the things by fullname, the counter \<open>spammer\<close> of every account, the counter \<open>reported\<close> of every author,
  the moderation counters of every subreddit and the rows of the report relations; calls to the listings and
  to the message queues are logged. A thing carries further data of any type, which these operations never
  read. An exception ends the operation.
\<close>

datatype mclass = ALink | AComment | AMessage | ASubreddit

record ban_info =
  bi_banner :: "string option"
  bi_auto :: "bool option"
  bi_moderator_banned :: bool
  bi_banned_at :: "int option"
  bi_note :: "string option"
  bi_unbanned_at :: "int option"
  bi_unbanner :: "string option"
  bi_reset_used :: "bool option"

record 'd mthing =
  mt_name :: string
  mt_class :: mclass
  mt_author :: "int option"
  mt_sr :: "int option"
  mt_spam :: bool
  mt_verdict :: "string option"
  mt_ban :: ban_info
  mt_reported :: int
  mt_promoted :: bool
  mt_ignore_reports :: bool
  mt_data :: 'd

record report_row =
  rr_user :: int
  rr_thing :: string
  rr_name :: string
  rr_reason :: "string option"

datatype mcall =
    BanListings "string list" bool
  | UnbanListings "string list" bool
  | ClearReports "string list"
  | NewReport string
  | MQueue string string

record 'd mworld =
  mw_things :: "string \<Rightarrow> 'd mthing option"
  mw_spammer :: "int \<Rightarrow> int option"
  mw_author_reports :: "int \<Rightarrow> int option"
  mw_sr_actions :: "int \<Rightarrow> (int option \<times> int) option"
  mw_reports :: "report_row list"
  mw_calls :: "mcall list"

text \<open>No \<open>ban_info\<close>: the attribute is missing and reads as the empty dictionary.\<close>

definition no_ban_info :: ban_info where
  "no_ban_info = \<lparr>bi_banner = None, bi_auto = None, bi_moderator_banned = False, bi_banned_at = None, bi_note = None,
     bi_unbanned_at = None, bi_unbanner = None, bi_reset_used = None\<rparr>"

definition get_thing :: "string \<Rightarrow> ('d, 'z) mworld_scheme \<Rightarrow> 'd mthing result" where
  "get_thing name w = (case mw_things w name of None \<Rightarrow> Inl NotFound | Some t \<Rightarrow> Inr t)"

definition put_thing :: "'d mthing \<Rightarrow> ('d, 'z) mworld_scheme \<Rightarrow> ('d, 'z) mworld_scheme" where
  "put_thing t w = w\<lparr>mw_things := (mw_things w)(mt_name t \<mapsto> t)\<rparr>"

definition log_call :: "mcall \<Rightarrow> ('d, 'z) mworld_scheme \<Rightarrow> ('d, 'z) mworld_scheme" where
  "log_call x w = w\<lparr>mw_calls := mw_calls w @ [x]\<rparr>"

subsection \<open>Reports\<close>

text \<open>\<open>Report.accept\<close>: the things are treated class by class, in the order the classes first occur.\<close>

definition settle_rows :: "string list \<Rightarrow> bool \<Rightarrow> report_row list \<Rightarrow> report_row list" where
  "settle_rows names correct rows = map (\<lambda>r.
     if rr_thing r \<in> set names \<and> rr_name r = ''0'' then r\<lparr>rr_name := if correct then ''1'' else ''-1''\<rparr> else r) rows"

definition clear_reported :: "string \<Rightarrow> ('d, 'z) mworld_scheme \<Rightarrow> ('d, 'z) mworld_scheme" where
  "clear_reported name w = (case mw_things w name of
     None \<Rightarrow> w
   | Some t \<Rightarrow> if mt_reported t > 0 then w\<lparr>mw_things := (mw_things w)(name \<mapsto> t\<lparr>mt_reported := 0\<rparr>)\<rparr> else w)"

definition accept_class :: "bool \<Rightarrow> 'd mthing list \<Rightarrow> mclass \<Rightarrow> ('d, 'z) mworld_scheme \<Rightarrow> ('d, 'z) mworld_scheme" where
  "accept_class correct ts k w =
     (let cls_things = filter (\<lambda>t. mt_class t = k) ts;
          names = map mt_name cls_things;
          to_clear = map mt_name (filter (\<lambda>t. mt_reported t > 0) cls_things);
          w1 = w\<lparr>mw_reports := settle_rows names correct (mw_reports w)\<rparr>;
          w2 = fold clear_reported names w1
      in log_call (ClearReports to_clear) w2)"

definition report_accept :: "string list \<Rightarrow> bool \<Rightarrow> ('d, 'z) mworld_scheme \<Rightarrow> ('d, 'z) mworld_scheme result" where
  "report_accept names correct w =
     bindr (mapr (\<lambda>n. get_thing n w) names) (\<lambda>ts.
       Inr (fold (accept_class correct ts) (remdups (map mt_class ts)) w))"

text \<open>
  \<open>Report.new\<close>. \<open>_incr\<close> on the author's account raises when there is no such account; the row is committed
  before.
\<close>

definition report_exists :: "int \<Rightarrow> string \<Rightarrow> report_row list \<Rightarrow> bool" where
  "report_exists user name rows \<longleftrightarrow>
     (\<exists>r \<in> set rows. rr_user r = user \<and> rr_thing r = name \<and> rr_name r \<in> {''-1'', ''0'', ''1''})"

definition incr_author_reports :: "int option \<Rightarrow> ('d, 'z) mworld_scheme \<Rightarrow> ('d, 'z) mworld_scheme result" where
  "incr_author_reports author w = (case author of
     None \<Rightarrow> Inr w
   | Some a \<Rightarrow> (case mw_author_reports w a of
       None \<Rightarrow> Inl NotFound
     | Some n \<Rightarrow> Inr (w\<lparr>mw_author_reports := (mw_author_reports w)(a \<mapsto> n + 1)\<rparr>)))"

definition report_new :: "int \<Rightarrow> string \<Rightarrow> string option \<Rightarrow> ('d, 'z) mworld_scheme \<Rightarrow> ('d, 'z) mworld_scheme result" where
  "report_new user name reason w =
     bindr (get_thing name w) (\<lambda>t.
       if report_exists user name (mw_reports w) then Inr w
       else (let row = \<lparr>rr_user = user, rr_thing = name, rr_name = ''0'',
                        rr_reason = (case reason of Some [] \<Rightarrow> None | _ \<Rightarrow> reason)\<rparr>;
                 w1 = put_thing (t\<lparr>mt_reported := mt_reported t + 1\<rparr>) w;
                 w2 = w1\<lparr>mw_reports := mw_reports w1 @ [row]\<rparr>
             in bindr (incr_author_reports (mt_author t) w2) (\<lambda>w3.
                  if mt_ignore_reports t then Inr w3
                  else (let w4 = log_call (NewReport name) w3
                        in if mt_spam t then report_accept [name] True w4 else Inr w4))))"

subsection \<open>Counters of authors and subreddits\<close>

text \<open>\<open>author_spammer\<close>: only things whose last removal was not automatic count.\<close>

definition counted_author :: "'d mthing \<Rightarrow> int option" where
  "counted_author t = (case bi_auto (mt_ban t) of Some False \<Rightarrow> mt_author t | _ \<Rightarrow> None)"

definition incr_spammer :: "int \<Rightarrow> int \<Rightarrow> ('d, 'z) mworld_scheme \<Rightarrow> ('d, 'z) mworld_scheme result" where
  "incr_spammer a d w = (case mw_spammer w a of
     None \<Rightarrow> Inl NotFound
   | Some n \<Rightarrow> Inr (w\<lparr>mw_spammer := (mw_spammer w)(a \<mapsto> n + d)\<rparr>))"

definition author_spammer :: "string list \<Rightarrow> bool \<Rightarrow> ('d, 'z) mworld_scheme \<Rightarrow> ('d, 'z) mworld_scheme result" where
  "author_spammer names spam w =
     bindr (mapr (\<lambda>n. get_thing n w) names) (\<lambda>ts.
       let aids = List.map_filter counted_author ts
       in foldm (\<lambda>a. incr_spammer a (int (count_list aids a) * (if spam then 1 else -1))) (remdups aids) w)"

definition touch_sr :: "int \<Rightarrow> int \<Rightarrow> int \<Rightarrow> ('d, 'z) mworld_scheme \<Rightarrow> ('d, 'z) mworld_scheme result" where
  "touch_sr now sr n w = (case mw_sr_actions w sr of
     None \<Rightarrow> Inl NotFound
   | Some (_, k) \<Rightarrow> Inr (w\<lparr>mw_sr_actions := (mw_sr_actions w)(sr \<mapsto> (Some now, k + n))\<rparr>))"

definition set_last_sr_ban :: "int \<Rightarrow> string list \<Rightarrow> ('d, 'z) mworld_scheme \<Rightarrow> ('d, 'z) mworld_scheme result" where
  "set_last_sr_ban now names w =
     bindr (mapr (\<lambda>n. get_thing n w) names) (\<lambda>ts.
       let srs = List.map_filter mt_sr ts
       in foldm (\<lambda>sr. touch_sr now sr (int (count_list srs sr))) (remdups srs) w)"

subsection \<open>\<open>spam\<close>\<close>

datatype banner = Banner "string option" | BannerBy "(string, string) dict"

definition banner_of :: "banner \<Rightarrow> string \<Rightarrow> string option result" where
  "banner_of b name = (case b of
     Banner x \<Rightarrow> Inr x
   | BannerBy d \<Rightarrow> (case map_of d name of None \<Rightarrow> Inl (KeyError name) | Some x \<Rightarrow> Inr (Some x)))"

definition spam_note :: "bool \<Rightarrow> bool \<Rightarrow> string" where
  "spam_note was_spam train_spam =
     (if \<not> was_spam \<and> train_spam then ''spam''
      else if \<not> was_spam \<and> \<not> train_spam then ''remove not spam''
      else if was_spam \<and> \<not> train_spam then ''confirm spam''
      else ''reinforce spam'')"

definition spam_verdict :: "bool \<Rightarrow> bool \<Rightarrow> string option \<Rightarrow> string option" where
  "spam_verdict auto moderator_banned v =
     (if moderator_banned then Some ''mod-removed'' else if \<not> auto then Some ''admin-removed'' else v)"

definition spam_thing :: "bool \<Rightarrow> bool \<Rightarrow> string option \<Rightarrow> int \<Rightarrow> bool \<Rightarrow> 'd mthing \<Rightarrow> 'd mthing" where
  "spam_thing auto moderator_banned b date train_spam t =
     t\<lparr>mt_spam := True, mt_verdict := spam_verdict auto moderator_banned (mt_verdict t),
       mt_ban := (mt_ban t)\<lparr>bi_banner := b, bi_auto := Some auto, bi_moderator_banned := moderator_banned,
         bi_banned_at := Some date, bi_note := Some (spam_note (mt_spam t) train_spam)\<rparr>\<rparr>"

definition mark_spam ::
    "bool \<Rightarrow> bool \<Rightarrow> banner \<Rightarrow> int \<Rightarrow> bool \<Rightarrow> string \<Rightarrow> ('d, 'z) mworld_scheme \<Rightarrow> ('d, 'z) mworld_scheme result" where
  "mark_spam auto moderator_banned bnr date train_spam name w =
     bindr (get_thing name w) (\<lambda>t.
       if mt_promoted t then Inr w
       else bindr (banner_of bnr name) (\<lambda>b.
         let w1 = put_thing (spam_thing auto moderator_banned b date train_spam t) w
         in Inr (if auto then log_call (MQueue ''auto_removed'' name) w1 else w1)))"

definition removed_queue :: "bool \<Rightarrow> 'd mthing \<Rightarrow> ('d, 'z) mworld_scheme \<Rightarrow> ('d, 'z) mworld_scheme" where
  "removed_queue auto t w =
     (let w1 = (if auto then log_call (MQueue ''auto_removed'' (mt_name t)) w else w)
      in case mt_class t of
           AComment \<Rightarrow> log_call (MQueue ''removed_comment'' (mt_name t)) w1
         | ALink \<Rightarrow> log_call (MQueue ''removed_link'' (mt_name t)) w1
         | _ \<Rightarrow> w1)"

definition spam ::
    "int \<Rightarrow> string list \<Rightarrow> bool \<Rightarrow> bool \<Rightarrow> banner \<Rightarrow> int option \<Rightarrow> bool \<Rightarrow> ('d, 'z) mworld_scheme \<Rightarrow> ('d, 'z) mworld_scheme result" where
  "spam now names auto moderator_banned bnr date train_spam w =
     bindr (mapr (\<lambda>n. get_thing n w) names) (\<lambda>ts.
     let new_things = map mt_name (filter (\<lambda>t. \<not> mt_spam t) ts);
         at = (case date of None \<Rightarrow> now | Some d \<Rightarrow> d)
     in bindr (report_accept names True w) (\<lambda>w1.
        bindr (foldm (mark_spam auto moderator_banned bnr at train_spam) names w1) (\<lambda>w2.
        bindr (if auto then Inr w2
               else bindr (author_spammer new_things True w2) (set_last_sr_ban now new_things)) (\<lambda>w3.
        Inr (fold (removed_queue auto) ts (log_call (BanListings names auto) w3))))))"

subsection \<open>\<open>unspam\<close>\<close>

definition unspam_thing :: "int \<Rightarrow> bool \<Rightarrow> string option \<Rightarrow> 'd mthing \<Rightarrow> 'd mthing" where
  "unspam_thing now moderator_unbanned unbanner t =
     t\<lparr>mt_ban := (mt_ban t)\<lparr>bi_unbanned_at := Some now,
         bi_unbanner := (case unbanner of None \<Rightarrow> bi_unbanner (mt_ban t) | Some [] \<Rightarrow> bi_unbanner (mt_ban t) | Some u \<Rightarrow> Some u),
         bi_reset_used := Some (bi_reset_used (mt_ban t) \<noteq> None)\<rparr>,
       mt_spam := False, mt_verdict := Some (if moderator_unbanned then ''mod-approved'' else ''admin-approved'')\<rparr>"

definition mark_unspam ::
    "int \<Rightarrow> bool \<Rightarrow> string option \<Rightarrow> string \<Rightarrow> ('d, 'z) mworld_scheme \<Rightarrow> ('d, 'z) mworld_scheme result" where
  "mark_unspam now moderator_unbanned unbanner name w =
     bindr (get_thing name w) (\<lambda>t.
       let w1 = put_thing (unspam_thing now moderator_unbanned unbanner t) w
       in Inr (case mt_class t of
            AComment \<Rightarrow> log_call (MQueue ''approved_comment'' name) w1
          | ALink \<Rightarrow> log_call (MQueue ''approved_link'' name) w1
          | _ \<Rightarrow> w1))"

definition to_unspam :: "'d mthing list \<Rightarrow> string list" where
  "to_unspam ts = map mt_name (if length ts > 1 then filter mt_spam ts else ts)"

definition unspam ::
    "int \<Rightarrow> string list \<Rightarrow> bool \<Rightarrow> string option \<Rightarrow> bool \<Rightarrow> ('d, 'z) mworld_scheme \<Rightarrow> ('d, 'z) mworld_scheme result" where
  "unspam now names moderator_unbanned unbanner ins w =
     bindr (mapr (\<lambda>n. get_thing n w) names) (\<lambda>ts.
     let things = to_unspam ts
     in bindr (report_accept things False w) (\<lambda>w1.
        bindr (foldm (mark_unspam now moderator_unbanned unbanner) things w1) (\<lambda>w2.
        bindr (author_spammer things False w2) (\<lambda>w3.
        bindr (set_last_sr_ban now things w3) (\<lambda>w4.
        Inr (log_call (UnbanListings things ins) w4))))))"

subsection \<open>Sequences of operations\<close>

datatype mod_op =
    DoReport int string "string option"
  | DoSpam int "string list" bool bool banner "int option" bool
  | DoUnspam int "string list" bool "string option" bool

definition mod_do :: "mod_op \<Rightarrow> ('d, 'z) mworld_scheme \<Rightarrow> ('d, 'z) mworld_scheme result" where
  "mod_do x w = (case x of
     DoReport user name reason \<Rightarrow> report_new user name reason w
   | DoSpam now names auto mb bnr date train \<Rightarrow> spam now names auto mb bnr date train w
   | DoUnspam now names mu unb ins \<Rightarrow> unspam now names mu unb ins w)"

definition pending :: "string \<Rightarrow> report_row list \<Rightarrow> nat" where
  "pending name rows = length (filter (\<lambda>r. rr_thing r = name \<and> rr_name r = ''0'') rows)"

text \<open>
  The invariant of the reports: a thing stands under its own name, its counter is the number of its pending
  reports, and a user reported a thing at most once.
\<close>

definition thing_counted :: "report_row list \<Rightarrow> string \<Rightarrow> 'd mthing \<Rightarrow> bool" where
  "thing_counted rows name t \<longleftrightarrow> mt_name t = name \<and> mt_reported t = int (pending name rows)"

definition reports_ok :: "('d, 'z) mworld_scheme \<Rightarrow> bool" where
  "reports_ok w \<longleftrightarrow>
     (\<forall>name t. mw_things w name = Some t \<longrightarrow> thing_counted (mw_reports w) name t) \<and>
     distinct (map (\<lambda>r. (rr_user r, rr_thing r)) (mw_reports w)) \<and>
     (\<forall>r \<in> set (mw_reports w). rr_name r \<in> {''-1'', ''0'', ''1''})"

subsection \<open>Lemmas\<close>

lemma put_thing_sel [simp]:
  "mw_things (put_thing t w) = (mw_things w)(mt_name t \<mapsto> t)" "mw_reports (put_thing t w) = mw_reports w"
  "mw_spammer (put_thing t w) = mw_spammer w" "mw_sr_actions (put_thing t w) = mw_sr_actions w"
  "mw_author_reports (put_thing t w) = mw_author_reports w"
  by (simp_all add: put_thing_def)

lemma log_call_sel [simp]:
  "mw_things (log_call c w) = mw_things w" "mw_reports (log_call c w) = mw_reports w"
  "mw_spammer (log_call c w) = mw_spammer w" "mw_sr_actions (log_call c w) = mw_sr_actions w"
  "mw_author_reports (log_call c w) = mw_author_reports w"
  by (simp_all add: log_call_def)

lemma spam_thing_sel [simp]:
  "mt_name (spam_thing auto mb b d train t) = mt_name t" "mt_reported (spam_thing auto mb b d train t) = mt_reported t"
  "mt_author (spam_thing auto mb b d train t) = mt_author t" "mt_sr (spam_thing auto mb b d train t) = mt_sr t"
  "mt_spam (spam_thing auto mb b d train t)" "bi_auto (mt_ban (spam_thing auto mb b d train t)) = Some auto"
  "mt_promoted (spam_thing auto mb b d train t) = mt_promoted t" "mt_class (spam_thing auto mb b d train t) = mt_class t"
  "mt_data (spam_thing auto mb b d train t) = mt_data t" "bi_moderator_banned (mt_ban (spam_thing auto mb b d train t)) = mb"
  by (simp_all add: spam_thing_def)

lemma unspam_thing_sel [simp]:
  "mt_name (unspam_thing now mu unb t) = mt_name t" "mt_reported (unspam_thing now mu unb t) = mt_reported t"
  "mt_author (unspam_thing now mu unb t) = mt_author t" "mt_sr (unspam_thing now mu unb t) = mt_sr t"
  "\<not> mt_spam (unspam_thing now mu unb t)" "bi_auto (mt_ban (unspam_thing now mu unb t)) = bi_auto (mt_ban t)"
  "mt_promoted (unspam_thing now mu unb t) = mt_promoted t" "mt_class (unspam_thing now mu unb t) = mt_class t"
  "mt_data (unspam_thing now mu unb t) = mt_data t"
  "mt_verdict (unspam_thing now mu unb t) = Some (if mu then ''mod-approved'' else ''admin-approved'')"
  by (simp_all add: unspam_thing_def)

lemma get_thing_eq: "get_thing n w = Inr t \<longleftrightarrow> mw_things w n = Some t"
  by (simp add: get_thing_def split: option.splits)

lemma reports_okD: "reports_ok w \<Longrightarrow> mw_things w n = Some t \<Longrightarrow> mt_name t = n \<and> mt_reported t = int (pending n (mw_reports w))"
  by (simp add: reports_ok_def thing_counted_def)

text \<open>Steps that neither touch the rows nor the name and the counter of a thing keep the invariant.\<close>

lemma reports_ok_frame:
  assumes "reports_ok w" "mw_reports w' = mw_reports w"
    and "\<And>n t'. mw_things w' n = Some t' \<Longrightarrow>
      \<exists>t. mw_things w n = Some t \<and> mt_name t' = mt_name t \<and> mt_reported t' = mt_reported t"
  shows "reports_ok w'"
proof -
  have "thing_counted (mw_reports w') n t'" if "mw_things w' n = Some t'" for n t'
    using assms(3) [OF that] reports_okD [OF assms(1)] assms(2) by (auto simp: thing_counted_def)
  then show ?thesis using assms(1,2) by (simp add: reports_ok_def)
qed

lemma reports_ok_same:
  "reports_ok w \<Longrightarrow> mw_reports w' = mw_reports w \<Longrightarrow> mw_things w' = mw_things w \<Longrightarrow> reports_ok w'"
  by (simp add: reports_ok_def)

lemma reports_ok_log [simp]: "reports_ok (log_call c w) = reports_ok w"
  by (simp add: reports_ok_def)

lemma reports_ok_put:
  assumes "reports_ok w" "mw_things w n = Some t" "mt_name t' = mt_name t" "mt_reported t' = mt_reported t"
  shows "reports_ok (put_thing t' w)"
proof (rule reports_ok_frame [OF assms(1)])
  fix m u assume "mw_things (put_thing t' w) m = Some u"
  then show "\<exists>t. mw_things w m = Some t \<and> mt_name u = mt_name t \<and> mt_reported u = mt_reported t"
    using assms reports_okD [OF assms(1,2)] by (cases "m = n") auto
qed simp

lemma pending_settle:
  "pending n (settle_rows names correct rows) = (if n \<in> set names then 0 else pending n rows)"
proof -
  have "pending n (settle_rows names correct rows) =
      length (filter (\<lambda>r. n \<notin> set names \<and> rr_thing r = n \<and> rr_name r = ''0'') rows)"
    unfolding pending_def settle_rows_def filter_map length_map
    by (intro arg_cong [where f = length] filter_cong) auto
  then show ?thesis by (simp add: pending_def)
qed

lemma settle_keys:
  "map (\<lambda>r. (rr_user r, rr_thing r)) (settle_rows names correct rows) = map (\<lambda>r. (rr_user r, rr_thing r)) rows"
  by (simp add: settle_rows_def)

lemma settle_names:
  "\<forall>r \<in> set rows. rr_name r \<in> {''-1'', ''0'', ''1''} \<Longrightarrow>
   \<forall>r \<in> set (settle_rows names correct rows). rr_name r \<in> {''-1'', ''0'', ''1''}"
  by (auto simp: settle_rows_def)

lemma clear_reported_sel [simp]:
  "mw_reports (clear_reported n w) = mw_reports w" "mw_spammer (clear_reported n w) = mw_spammer w"
  "mw_sr_actions (clear_reported n w) = mw_sr_actions w" "mw_author_reports (clear_reported n w) = mw_author_reports w"
  by (simp_all add: clear_reported_def split: option.splits)

lemma clear_reported_things:
  "mw_things (clear_reported n w) m =
     (if m = n then map_option (\<lambda>t. if mt_reported t > 0 then t\<lparr>mt_reported := 0\<rparr> else t) (mw_things w m) else mw_things w m)"
  by (auto simp: clear_reported_def split: option.splits)

lemma fold_clear_reported_sel [simp]:
  "mw_reports (fold clear_reported ns w) = mw_reports w" "mw_spammer (fold clear_reported ns w) = mw_spammer w"
  "mw_sr_actions (fold clear_reported ns w) = mw_sr_actions w" "mw_author_reports (fold clear_reported ns w) = mw_author_reports w"
  by (induction ns arbitrary: w) simp_all

lemma fold_clear_reported_things:
  "mw_things (fold clear_reported ns w) m =
     (if m \<in> set ns then map_option (\<lambda>t. if mt_reported t > 0 then t\<lparr>mt_reported := 0\<rparr> else t) (mw_things w m) else mw_things w m)"
  by (induction ns arbitrary: w) (auto simp: clear_reported_things option.map_comp comp_def intro!: map_option_cong)

lemma accept_class_sel [simp]:
  "mw_spammer (accept_class c ts k w) = mw_spammer w" "mw_sr_actions (accept_class c ts k w) = mw_sr_actions w"
  "mw_author_reports (accept_class c ts k w) = mw_author_reports w"
  by (simp_all add: accept_class_def Let_def)

lemma accept_class_reports_ok:
  assumes "reports_ok w"
  shows "reports_ok (accept_class c ts k w)"
proof -
  let ?names = "map mt_name (filter (\<lambda>t. mt_class t = k) ts)"
  have "thing_counted (settle_rows ?names c (mw_reports w)) n t'"
    if t': "mw_things (accept_class c ts k w) n = Some t'" for n t'
  proof -
    have things: "mw_things (accept_class c ts k w) n = (if n \<in> set ?names
        then map_option (\<lambda>t. if mt_reported t > 0 then t\<lparr>mt_reported := 0\<rparr> else t) (mw_things w n) else mw_things w n)"
      unfolding accept_class_def Let_def log_call_sel fold_clear_reported_things by simp
    obtain t where t: "mw_things w n = Some t"
      using t' unfolding things by (cases "mw_things w n") (simp_all split: if_splits)
    have t'_eq: "t' = (if n \<in> set ?names \<and> mt_reported t > 0 then t\<lparr>mt_reported := 0\<rparr> else t)"
      using t' unfolding things t by (cases "n \<in> set ?names") (simp_all del: set_map)
    show ?thesis using reports_okD [OF assms t] unfolding thing_counted_def t'_eq pending_settle by auto
  qed
  moreover have "mw_reports (accept_class c ts k w) = settle_rows ?names c (mw_reports w)"
    by (simp add: accept_class_def Let_def)
  ultimately show ?thesis
    using assms settle_names [of "mw_reports w" ?names c] unfolding reports_ok_def settle_keys by (simp add: settle_keys)
qed

lemma fold_accept_reports_ok: "reports_ok w \<Longrightarrow> reports_ok (fold (accept_class c ts) ks w)"
  by (induction ks arbitrary: w) (simp_all add: accept_class_reports_ok)

lemma report_accept_reports_ok: "reports_ok w \<Longrightarrow> report_accept names c w = Inr w' \<Longrightarrow> reports_ok w'"
  by (auto simp: report_accept_def bindr_eq_Inr_iff intro: fold_accept_reports_ok)

lemma report_newE:
  assumes "report_new u n x w = Inr w'" "mw_things w n = Some t" "\<not> report_exists u n (mw_reports w)"
  obtains w3 row where "row = \<lparr>rr_user = u, rr_thing = n, rr_name = ''0'', rr_reason = (case x of Some [] \<Rightarrow> None | _ \<Rightarrow> x)\<rparr>"
    "mw_things w3 = mw_things (put_thing (t\<lparr>mt_reported := mt_reported t + 1\<rparr>) w)" "mw_reports w3 = mw_reports w @ [row]"
    "mworld.more w3 = mworld.more w"
    "(if mt_ignore_reports t then Inr w3 else if mt_spam t then report_accept [n] True (log_call (NewReport n) w3)
      else Inr (log_call (NewReport n) w3)) = Inr w'"
proof -
  let ?row = "\<lparr>rr_user = u, rr_thing = n, rr_name = ''0'', rr_reason = (case x of Some [] \<Rightarrow> None | _ \<Rightarrow> x)\<rparr>"
  let ?w2 = "put_thing (t\<lparr>mt_reported := mt_reported t + 1\<rparr>) w\<lparr>mw_reports := mw_reports w @ [?row]\<rparr>"
  obtain w3 where w3: "incr_author_reports (mt_author t) ?w2 = Inr w3"
    using assms by (cases "incr_author_reports (mt_author t) ?w2") (simp_all add: report_new_def get_thing_def Let_def)
  have w': "(if mt_ignore_reports t then Inr w3 else if mt_spam t then report_accept [n] True (log_call (NewReport n) w3)
      else Inr (log_call (NewReport n) w3)) = Inr w'"
    using assms w3 unfolding Let_def report_new_def by (simp add: get_thing_def)
  have same: "mw_things w3 = mw_things ?w2" "mw_reports w3 = mw_reports ?w2" "mworld.more w3 = mworld.more ?w2"
    using w3 by (auto simp: incr_author_reports_def split: option.splits)
  show ?thesis using that [OF refl, of w3] same w' by (simp add: put_thing_def)
qed

lemma spamE:
  assumes "spam now names auto mb bnr date train w = Inr w'"
  obtains ts w1 w2 w3 where "report_accept names True w = Inr w1"
    "foldm (mark_spam auto mb bnr (case date of None \<Rightarrow> now | Some d \<Rightarrow> d) train) names w1 = Inr w2"
    "(if auto then Inr w2 else bindr (author_spammer (map mt_name (filter (\<lambda>t. \<not> mt_spam t) ts)) True w2)
       (set_last_sr_ban now (map mt_name (filter (\<lambda>t. \<not> mt_spam t) ts)))) = Inr w3"
    "w' = fold (removed_queue auto) ts (log_call (BanListings names auto) w3)"
  using assms by (auto simp: spam_def bindr_eq_Inr_iff Let_def)

lemma unspamE:
  assumes "unspam now names mu unb ins w = Inr w'"
  obtains ts w1 w2 w3 w4 where "mapr (\<lambda>n. get_thing n w) names = Inr ts" "report_accept (to_unspam ts) False w = Inr w1"
    "foldm (mark_unspam now mu unb) (to_unspam ts) w1 = Inr w2"
    "author_spammer (to_unspam ts) False w2 = Inr w3" "set_last_sr_ban now (to_unspam ts) w3 = Inr w4"
    "w' = log_call (UnbanListings (to_unspam ts) ins) w4"
  using assms unfolding unspam_def bindr_eq_Inr_iff Let_def sum.inject by (elim exE conjE) (rule that, assumption+, rule sym)

lemma mark_spam_reports_ok:
  assumes "reports_ok w" "mark_spam auto mb bnr d train n w = Inr w'"
  shows "reports_ok w'"
proof -
  obtain t where t: "mw_things w n = Some t"
    using assms(2) by (auto simp: mark_spam_def bindr_eq_Inr_iff get_thing_eq)
  show ?thesis
    using assms(2) reports_ok_put [OF assms(1) t] assms(1)
    by (auto simp: mark_spam_def bindr_eq_Inr_iff get_thing_eq t Let_def split: if_splits)
qed

lemma mark_unspam_reports_ok:
  assumes "reports_ok w" "mark_unspam now mu unb n w = Inr w'"
  shows "reports_ok w'"
proof -
  obtain t where t: "mw_things w n = Some t"
    using assms(2) by (auto simp: mark_unspam_def bindr_eq_Inr_iff get_thing_eq)
  show ?thesis
    using assms(2) reports_ok_put [OF assms(1) t]
    by (auto simp: mark_unspam_def bindr_eq_Inr_iff get_thing_eq t Let_def split: mclass.splits)
qed

text \<open>The counters of authors and subreddits touch neither things nor rows.\<close>

definition same_things :: "('d, 'z) mworld_scheme \<Rightarrow> ('d, 'z) mworld_scheme \<Rightarrow> bool" where
  "same_things w w' \<longleftrightarrow> mw_things w' = mw_things w \<and> mw_reports w' = mw_reports w"

lemma author_spammer_same: "author_spammer names b w = Inr w' \<Longrightarrow> same_things w w'"
  by (auto simp: author_spammer_def bindr_eq_Inr_iff Let_def incr_spammer_def same_things_def split: option.splits
      elim!: foldm_preserves [where P = "same_things w", unfolded same_things_def, rotated 2])

lemma set_last_sr_ban_same: "set_last_sr_ban now names w = Inr w' \<Longrightarrow> same_things w w'"
  by (auto simp: set_last_sr_ban_def bindr_eq_Inr_iff Let_def touch_sr_def same_things_def split: option.splits
      elim!: foldm_preserves [where P = "same_things w", unfolded same_things_def, rotated 2])

lemma same_things_ok: "reports_ok w \<Longrightarrow> same_things w w' \<Longrightarrow> reports_ok w'"
  by (auto simp: same_things_def intro: reports_ok_same)

lemma removed_queue_same: "same_things w (fold (removed_queue auto) ts w)"
proof (induction ts arbitrary: w)
  case (Cons t ts)
  have "same_things w (removed_queue auto t w)"
    by (auto simp: same_things_def removed_queue_def Let_def split: mclass.splits)
  then show ?case using Cons [of "removed_queue auto t w"] by (simp add: same_things_def)
qed (simp add: same_things_def)

lemma spam_reports_ok:
  assumes "reports_ok w" "spam now names auto mb bnr date train w = Inr w'"
  shows "reports_ok w'"
  using assms(2)
proof (rule spamE)
  fix ts w1 w2 w3
  assume w1: "report_accept names True w = Inr w1"
    and w2: "foldm (mark_spam auto mb bnr (case date of None \<Rightarrow> now | Some d \<Rightarrow> d) train) names w1 = Inr w2"
    and w3: "(if auto then Inr w2 else bindr (author_spammer (map mt_name (filter (\<lambda>t. \<not> mt_spam t) ts)) True w2)
       (set_last_sr_ban now (map mt_name (filter (\<lambda>t. \<not> mt_spam t) ts)))) = Inr w3"
    and w': "w' = fold (removed_queue auto) ts (log_call (BanListings names auto) w3)"
  have "reports_ok w2"
    using foldm_preserves [of names reports_ok, OF _ report_accept_reports_ok [OF assms(1) w1] w2] mark_spam_reports_ok by blast
  moreover have "same_things w2 w3"
  proof (cases auto)
    case False
    with w3 obtain w4 where "author_spammer (map mt_name (filter (\<lambda>t. \<not> mt_spam t) ts)) True w2 = Inr w4"
      "set_last_sr_ban now (map mt_name (filter (\<lambda>t. \<not> mt_spam t) ts)) w4 = Inr w3" by (auto simp: bindr_eq_Inr_iff)
    then show ?thesis using author_spammer_same set_last_sr_ban_same by (fastforce simp: same_things_def)
  qed (use w3 in \<open>simp add: same_things_def\<close>)
  ultimately have "reports_ok (log_call (BanListings names auto) w3)"
    using same_things_ok [of w2 "log_call (BanListings names auto) w3"] by (simp add: same_things_def)
  then show ?thesis unfolding w' using removed_queue_same same_things_ok by blast
qed

lemma unspam_reports_ok:
  assumes "reports_ok w" "unspam now names mu unb ins w = Inr w'"
  shows "reports_ok w'"
  using assms(2)
proof (rule unspamE)
  fix ts w1 w2 w3 w4
  assume w1: "report_accept (to_unspam ts) False w = Inr w1" and w2: "foldm (mark_unspam now mu unb) (to_unspam ts) w1 = Inr w2"
    and w3: "author_spammer (to_unspam ts) False w2 = Inr w3" and w4: "set_last_sr_ban now (to_unspam ts) w3 = Inr w4"
    and w': "w' = log_call (UnbanListings (to_unspam ts) ins) w4"
  have "reports_ok w2"
    using foldm_preserves [of "to_unspam ts" reports_ok, OF _ report_accept_reports_ok [OF assms(1) w1] w2] mark_unspam_reports_ok by blast
  then have "reports_ok w4" using author_spammer_same [OF w3] set_last_sr_ban_same [OF w4] same_things_ok by blast
  then show ?thesis unfolding w' by simp
qed

lemma report_new_row_ok:
  assumes "reports_ok w" "mw_things w n = Some t" "\<not> report_exists u n (mw_reports w)"
    and "mw_things w' = mw_things (put_thing (t\<lparr>mt_reported := mt_reported t + 1\<rparr>) w)"
    and "mw_reports w' = mw_reports w @ [\<lparr>rr_user = u, rr_thing = n, rr_name = ''0'', rr_reason = x\<rparr>]"
  shows "reports_ok w'"
proof -
  have new: "(u, n) \<notin> set (map (\<lambda>r. (rr_user r, rr_thing r)) (mw_reports w))"
    using assms(1,3) by (auto simp: report_exists_def reports_ok_def)
  show ?thesis
    using assms(1) new reports_okD [OF assms(1,2)] unfolding reports_ok_def assms(4,5)
    by (auto simp: thing_counted_def pending_def)
qed

lemma report_new_reports_ok:
  assumes "reports_ok w" "report_new u n x w = Inr w'"
  shows "reports_ok w'"
proof (cases "report_exists u n (mw_reports w)")
  case True
  then show ?thesis using assms by (auto simp: report_new_def bindr_eq_Inr_iff)
next
  case False
  obtain t where t: "mw_things w n = Some t" using assms(2) by (auto simp: report_new_def bindr_eq_Inr_iff get_thing_eq)
  obtain w3 row where w3: "row = \<lparr>rr_user = u, rr_thing = n, rr_name = ''0'', rr_reason = (case x of Some [] \<Rightarrow> None | _ \<Rightarrow> x)\<rparr>"
    "mw_things w3 = mw_things (put_thing (t\<lparr>mt_reported := mt_reported t + 1\<rparr>) w)" "mw_reports w3 = mw_reports w @ [row]"
    "(if mt_ignore_reports t then Inr w3 else if mt_spam t then report_accept [n] True (log_call (NewReport n) w3)
      else Inr (log_call (NewReport n) w3)) = Inr w'"
    using report_newE [OF assms(2) t False] by metis
  have ok: "reports_ok w3" by (rule report_new_row_ok [OF assms(1) t False w3(2) w3(3) [unfolded w3(1)]])
  show ?thesis using w3(4) ok report_accept_reports_ok [of "log_call (NewReport n) w3"] by (auto split: if_splits)
qed

lemma mod_do_reports_ok: "reports_ok w \<Longrightarrow> mod_do x w = Inr w' \<Longrightarrow> reports_ok w'"
  by (cases x) (auto simp: mod_do_def intro: report_new_reports_ok spam_reports_ok unspam_reports_ok)

lemma mod_run_reports_ok: "reports_ok w \<Longrightarrow> foldm mod_do xs w = Inr w' \<Longrightarrow> reports_ok w'"
  by (rule foldm_preserves [of xs reports_ok mod_do]) (auto intro: mod_do_reports_ok)

text \<open>Accepting the reports of one thing.\<close>

lemma report_accept_single:
  assumes "mw_things w n = Some t" "mt_name t = n"
  obtains w' where "report_accept [n] c w = Inr w'"
    "mw_things w' = (mw_things w)(n \<mapsto> if mt_reported t > 0 then t\<lparr>mt_reported := 0\<rparr> else t)"
    "mw_spammer w' = mw_spammer w" "mw_sr_actions w' = mw_sr_actions w"
    "mw_reports w' = settle_rows [n] c (mw_reports w)"
proof
  show "report_accept [n] c w = Inr (accept_class c [t] (mt_class t) w)"
    by (simp add: report_accept_def get_thing_def assms)
  show "mw_things (accept_class c [t] (mt_class t) w) = (mw_things w)(n \<mapsto> if mt_reported t > 0 then t\<lparr>mt_reported := 0\<rparr> else t)"
    using assms by (auto simp: accept_class_def Let_def clear_reported_def fun_eq_iff)
qed (use assms in \<open>simp_all add: accept_class_def Let_def\<close>)

lemma author_spammer_single:
  assumes "mw_things w n = Some t" "mt_author t = Some a" "bi_auto (mt_ban t) = Some False" "mw_spammer w a = Some k"
  shows "author_spammer [n] b w = Inr (w\<lparr>mw_spammer := (mw_spammer w)(a \<mapsto> k + (if b then 1 else -1))\<rparr>)"
  using assms by (simp add: author_spammer_def get_thing_def counted_author_def map_filter_simps incr_spammer_def)

lemma set_last_sr_ban_single:
  assumes "mw_things w n = Some t" "mt_sr t = Some sr" "mw_sr_actions w sr = Some (d, k)"
  shows "set_last_sr_ban now [n] w = Inr (w\<lparr>mw_sr_actions := (mw_sr_actions w)(sr \<mapsto> (Some now, k + 1))\<rparr>)"
  using assms by (simp add: set_last_sr_ban_def get_thing_def map_filter_simps touch_sr_def)

text \<open>A thing that a moderator removed by hand: what the operations on it need to find.\<close>

definition counted_thing :: "string \<Rightarrow> int \<Rightarrow> int \<Rightarrow> ('d, 'z) mworld_scheme \<Rightarrow> bool" where
  "counted_thing n a k w \<longleftrightarrow>
     (\<exists>t sr d j. mw_things w n = Some t \<and> mt_name t = n \<and> mt_author t = Some a \<and> bi_auto (mt_ban t) = Some False \<and>
       mt_sr t = Some sr \<and> mw_sr_actions w sr = Some (d, j) \<and> mw_spammer w a = Some k)"

lemma mark_unspam_single:
  assumes "mw_things w n = Some t" "mt_name t = n"
  obtains w' where "mark_unspam now mu unb n w = Inr w'" "mw_things w' n = Some (unspam_thing now mu unb t)"
    "mw_spammer w' = mw_spammer w" "mw_sr_actions w' = mw_sr_actions w"
  using that assms by (cases "mt_class t") (simp_all add: mark_unspam_def get_thing_def Let_def)

lemma unspam_single:
  assumes "counted_thing n a k w"
  obtains w' t' where "unspam now [n] mu unb ins w = Inr w'" "counted_thing n a (k - 1) w'" "mw_things w' n = Some t'"
    "\<not> mt_spam t'" "mt_verdict t' = Some (if mu then ''mod-approved'' else ''admin-approved'')"
proof -
  obtain t sr d j where t: "mw_things w n = Some t" "mt_name t = n" "mt_author t = Some a" "bi_auto (mt_ban t) = Some False"
    "mt_sr t = Some sr" "mw_sr_actions w sr = Some (d, j)" "mw_spammer w a = Some k"
    using assms by (auto simp: counted_thing_def)
  obtain w1 where w1: "report_accept [n] False w = Inr w1"
    "mw_things w1 = (mw_things w)(n \<mapsto> if mt_reported t > 0 then t\<lparr>mt_reported := 0\<rparr> else t)"
    "mw_spammer w1 = mw_spammer w" "mw_sr_actions w1 = mw_sr_actions w"
    using report_accept_single [OF t(1,2)] by metis
  define t1 where "t1 = (if mt_reported t > 0 then t\<lparr>mt_reported := 0\<rparr> else t)"
  have t1: "mw_things w1 n = Some t1" "mt_name t1 = n" "mt_author t1 = Some a" "bi_auto (mt_ban t1) = Some False" "mt_sr t1 = Some sr"
    using t w1(2) by (simp_all add: t1_def)
  define t2 where "t2 = unspam_thing now mu unb t1"
  obtain w2 where w2: "mark_unspam now mu unb n w1 = Inr w2" "mw_spammer w2 = mw_spammer w" "mw_sr_actions w2 = mw_sr_actions w"
    "mw_things w2 n = Some t2"
    using mark_unspam_single [OF t1(1,2), of now mu unb] w1(3,4) t2_def by metis
  have t2: "mt_name t2 = n" "mt_author t2 = Some a" "bi_auto (mt_ban t2) = Some False" "mt_sr t2 = Some sr"
    "\<not> mt_spam t2" "mt_verdict t2 = Some (if mu then ''mod-approved'' else ''admin-approved'')"
    using t1 by (simp_all add: t2_def)
  let ?w3 = "w2\<lparr>mw_spammer := (mw_spammer w2)(a \<mapsto> k - 1)\<rparr>"
  let ?w4 = "?w3\<lparr>mw_sr_actions := (mw_sr_actions ?w3)(sr \<mapsto> (Some now, j + 1))\<rparr>"
  have w3: "author_spammer [n] False w2 = Inr ?w3"
    using author_spammer_single [OF w2(4) t2(2,3), of k False] t(7) w2(2) by simp
  have w4: "set_last_sr_ban now [n] ?w3 = Inr ?w4"
    using set_last_sr_ban_single [of ?w3 n t2 sr d j] w2(3,4) t2(4) t(6) by simp
  have "unspam now [n] mu unb ins w = Inr (log_call (UnbanListings [n] ins) ?w4)"
    using t(1,2) w1(1) w2(1) w3 w4 by (simp add: unspam_def get_thing_def to_unspam_def)
  moreover have "counted_thing n a (k - 1) (log_call (UnbanListings [n] ins) ?w4)"
    using w2(4) t2(1-4) by (simp add: counted_thing_def)
  ultimately show ?thesis using that [of "log_call (UnbanListings [n] ins) ?w4" t2] w2(4) t2(5,6) by simp
qed

lemma mark_spam_single:
  assumes "mw_things w n = Some t" "mt_name t = n" "\<not> mt_promoted t"
  obtains w' where "mark_spam auto mb (Banner b) d train n w = Inr w'" "mw_things w' n = Some (spam_thing auto mb b d train t)"
    "mw_spammer w' = mw_spammer w" "mw_sr_actions w' = mw_sr_actions w"
  using that assms by (cases auto) (simp_all add: mark_spam_def get_thing_def Let_def banner_of_def)

lemma removed_queue_sel [simp]:
  "mw_things (removed_queue auto t w) = mw_things w" "mw_spammer (removed_queue auto t w) = mw_spammer w"
  "mw_sr_actions (removed_queue auto t w) = mw_sr_actions w"
  by (simp_all add: removed_queue_def Let_def split: mclass.splits)

text \<open>Removing one thing by hand counts it once, however often it is removed.\<close>

lemma spam_single:
  assumes t: "mw_things w n = Some t" "mt_name t = n" "\<not> mt_promoted t" "mt_author t = Some a"
    and sr: "mt_sr t = Some sr" "mw_sr_actions w sr = Some (d, j)" and k: "mw_spammer w a = Some k"
  obtains w' t' where "spam now [n] False mb (Banner b) None train w = Inr w'"
    "counted_thing n a (if mt_spam t then k else k + 1) w'" "mw_things w' n = Some t'"
    "mt_spam t'" "\<not> mt_promoted t'"
proof -
  obtain w1 where w1: "report_accept [n] True w = Inr w1"
    "mw_things w1 = (mw_things w)(n \<mapsto> if mt_reported t > 0 then t\<lparr>mt_reported := 0\<rparr> else t)"
    "mw_spammer w1 = mw_spammer w" "mw_sr_actions w1 = mw_sr_actions w"
    using report_accept_single [OF t(1,2)] by metis
  define t1 where "t1 = (if mt_reported t > 0 then t\<lparr>mt_reported := 0\<rparr> else t)"
  have t1: "mw_things w1 n = Some t1" "mt_name t1 = n" "\<not> mt_promoted t1" "mt_author t1 = Some a" "mt_sr t1 = Some sr"
    using t sr w1(2) by (simp_all add: t1_def)
  define t2 where "t2 = spam_thing False mb b now train t1"
  obtain w2 where w2: "mark_spam False mb (Banner b) now train n w1 = Inr w2" "mw_spammer w2 = mw_spammer w"
    "mw_sr_actions w2 = mw_sr_actions w" "mw_things w2 n = Some t2"
    using mark_spam_single [OF t1(1-3), of False mb b now train] w1(3,4) t2_def by metis
  have t2: "mt_name t2 = n" "mt_author t2 = Some a" "bi_auto (mt_ban t2) = Some False" "mt_sr t2 = Some sr"
    "mt_spam t2" "\<not> mt_promoted t2"
    using t1 by (simp_all add: t2_def)
  let ?w3 = "w2\<lparr>mw_spammer := (mw_spammer w2)(a \<mapsto> k + 1)\<rparr>"
  let ?w4 = "if mt_spam t then w2 else ?w3\<lparr>mw_sr_actions := (mw_sr_actions ?w3)(sr \<mapsto> (Some now, j + 1))\<rparr>"
  have "set_last_sr_ban now [n] ?w3 = Inr (?w3\<lparr>mw_sr_actions := (mw_sr_actions ?w3)(sr \<mapsto> (Some now, j + 1))\<rparr>)"
    using set_last_sr_ban_single [of ?w3 n t2 sr d j] w2(3,4) t2(4) sr(2) by simp
  moreover have "author_spammer [n] True w2 = Inr ?w3"
    using author_spammer_single [OF w2(4) t2(2,3), of k True] k w2(2) by simp
  ultimately have "spam now [n] False mb (Banner b) None train w = Inr (removed_queue False t (log_call (BanListings [n] False) ?w4))"
    using t(1,2) w1(1) w2(1)
    by (cases "mt_spam t") (simp_all add: spam_def get_thing_def author_spammer_def set_last_sr_ban_def map_filter_simps)
  moreover have "counted_thing n a (if mt_spam t then k else k + 1) (removed_queue False t (log_call (BanListings [n] False) ?w4))"
    using w2 t2(1-4) sr(2) k by (simp add: counted_thing_def)
  ultimately show ?thesis
    using that [of "removed_queue False t (log_call (BanListings [n] False) ?w4)" t2] w2(4) t2(5,6) by simp
qed

subsection \<open>Properties\<close>

text \<open>
  (C25) Reports are counted. Over every sequence of reports, removals and approvals the counter
  \<open>reported\<close> of a thing is the number of its reports that are still pending, and no user has two reports on
  the same thing.
\<close>

theorem reports_counted:
  assumes "reports_ok w" "foldm mod_do xs w = Inr w'"
  shows "reports_ok w'"
  using assms by (rule mod_run_reports_ok)

definition sample_mthing :: "'d \<Rightarrow> 'd mthing" where
  "sample_mthing x = \<lparr>mt_name = ''t3_1'', mt_class = ALink, mt_author = Some 7, mt_sr = Some 1, mt_spam = False, mt_verdict = None,
     mt_ban = no_ban_info, mt_reported = 0, mt_promoted = False, mt_ignore_reports = False, mt_data = x\<rparr>"

definition sample_mworld :: "'d \<Rightarrow> 'd mworld" where
  "sample_mworld x = \<lparr>mw_things = [''t3_1'' \<mapsto> sample_mthing x], mw_spammer = [7 \<mapsto> 0], mw_author_reports = [7 \<mapsto> 0],
     mw_sr_actions = [1 \<mapsto> (None, 0)], mw_reports = [], mw_calls = []\<rparr>"

lemma sample_mworld_ok: "reports_ok (sample_mworld x)"
  by (simp add: sample_mworld_def reports_ok_def thing_counted_def pending_def sample_mthing_def)

theorem reports_counted_witness:
  "\<exists>w'. foldm mod_do [DoReport 5 ''t3_1'' None, DoReport 5 ''t3_1'' None, DoReport 6 ''t3_1'' (Some ''spam'')] (sample_mworld ()) = Inr w' \<and>
     reports_ok w' \<and> map_option mt_reported (mw_things w' ''t3_1'') = Some 2"
proof -
  let ?xs = "[DoReport 5 ''t3_1'' None, DoReport 5 ''t3_1'' None, DoReport 6 ''t3_1'' (Some ''spam'')]"
  obtain w' where w': "foldm mod_do ?xs (sample_mworld ()) = Inr w'" "map_option mt_reported (mw_things w' ''t3_1'') = Some 2"
    by (simp add: mod_do_def report_new_def sample_mworld_def get_thing_def report_exists_def sample_mthing_def
        incr_author_reports_def put_thing_def log_call_def Let_def)
  then show ?thesis using reports_counted [OF sample_mworld_ok w'(1)] by blast
qed



text \<open>
  Approvals are not counted once. Every further approval of a thing that was once removed by hand takes
  one more from the author's counter, although the thing is not removed any more: after \<open>m\<close> approvals the
  counter has dropped by \<open>m\<close>, below zero.
\<close>

lemma approvals_drift_spammer:
  assumes "counted_thing n a k w"
  shows "\<exists>w'. foldm (\<lambda>_. unspam now [n] mu unb ins) [0..<m] w = Inr w' \<and> mw_spammer w' a = Some (k - int m)"
proof -
  have "\<exists>w'. foldm (\<lambda>_. unspam now [n] mu unb ins) xs w = Inr w' \<and> counted_thing n a (k - int (length xs)) w'" for xs :: "nat list"
    using assms
  proof (induction xs arbitrary: k w)
    case (Cons x xs)
    obtain w1 where "unspam now [n] mu unb ins w = Inr w1" "counted_thing n a (k - 1) w1"
      using unspam_single [OF Cons.prems] by metis
    then show ?case using Cons.IH [of "k - 1" w1] by (simp add: algebra_simps)
  qed auto
  then obtain w' where "foldm (\<lambda>_. unspam now [n] mu unb ins) [0..<m] w = Inr w'" "counted_thing n a (k - int m) w'"
    by (metis length_upt minus_nat.diff_0)
  then show ?thesis by (auto simp: counted_thing_def)
qed

end
