(* ===== verification/AutomodRules.thy ===== *)
theory AutomodRules
  imports AdminTools Subreddit
begin

section \<open>The rules of the automoderator\<close>

text \<open>
  Models how \<open>r2/lib/automoderator.py\<close> turns a wiki page into rules: \<open>RuleComponent\<close>, \<open>RuleTarget\<close>,
  \<open>Rule\<close> and \<open>Ruleset.__init__\<close>. YAML values are \<open>json\<close> values (so without floats and dates, and with keys
  that are strings); YAML itself, MD5, the compilation of regular expressions and the printing of nested
  values are parameters. The two fixed regular expressions that check values are written with the small
  combinators below. Dictionaries are iterated in the order in which the source lists their keys.
\<close>

subsection \<open>Regular expressions that check values\<close>

text \<open>A matcher gives what is left of a string, the preferred way first, as Python's engine tries them.\<close>

type_synonym matcher = "string \<Rightarrow> string list"

definition rx_char :: "(char \<Rightarrow> bool) \<Rightarrow> matcher" where
  "rx_char P s = (case s of [] \<Rightarrow> [] | c # cs \<Rightarrow> if P c then [cs] else [])"

definition rx_seq :: "matcher \<Rightarrow> matcher \<Rightarrow> matcher" where
  "rx_seq m n s = concat (map n (m s))"

definition rx_alt :: "matcher \<Rightarrow> matcher \<Rightarrow> matcher" where
  "rx_alt m n s = m s @ n s"

definition rx_opt :: "matcher \<Rightarrow> matcher" where
  "rx_opt m s = m s @ [s]"

fun rx_star :: "(char \<Rightarrow> bool) \<Rightarrow> matcher" where
  "rx_star P [] = [[]]"
| "rx_star P (c # cs) = (if P c then rx_star P cs else []) @ [c # cs]"

fun rx_lit :: "string \<Rightarrow> matcher" where
  "rx_lit [] s = [s]"
| "rx_lit (c # cs) s = (case s of [] \<Rightarrow> [] | d # ds \<Rightarrow> if c = d then rx_lit cs ds else [])"

text \<open>\<open>$\<close>: at the end, or before a newline that ends the string.\<close>

definition rx_end :: matcher where
  "rx_end s = (if s = [] \<or> s = [CHR 0x0A] then [s] else [])"

fun rx_search :: "matcher \<Rightarrow> string \<Rightarrow> bool" where
  "rx_search m [] = (m [] \<noteq> [])"
| "rx_search m (c # cs) = (m (c # cs) \<noteq> [] \<or> rx_search m cs)"

definition is_digit :: "char \<Rightarrow> bool" where
  "is_digit c \<longleftrightarrow> char_digit c \<noteq> None"

definition rx_digits :: matcher where
  "rx_digits = rx_seq (rx_char is_digit) (rx_star is_digit)"

definition operator_regex :: matcher where
  "operator_regex = rx_alt (rx_seq (rx_lit ''='') (rx_opt (rx_lit ''=''))) (rx_alt (rx_lit ''<'') (rx_lit ''>''))"

definition oper_int_regex :: "string \<Rightarrow> bool" where
  "oper_int_regex s \<longleftrightarrow>
     rx_seq (rx_opt operator_regex) (rx_seq (rx_star space_char) (rx_seq (rx_opt (rx_lit ''-'')) (rx_seq rx_digits rx_end))) s \<noteq> []"

definition rx_period :: matcher where
  "rx_period = rx_alt (rx_lit ''minute'') (rx_alt (rx_lit ''hour'') (rx_alt (rx_lit ''day'')
     (rx_alt (rx_lit ''week'') (rx_alt (rx_lit ''month'') (rx_lit ''year'')))))"

text \<open>The pattern of a period of time is not anchored at the start: \<open>search\<close> tries every position.\<close>

definition oper_period_regex :: "string \<Rightarrow> bool" where
  "oper_period_regex = rx_search (rx_seq (rx_opt operator_regex) (rx_seq (rx_star space_char) (rx_seq rx_digits
     (rx_seq (rx_star space_char) (rx_seq (rx_opt (rx_seq rx_period (rx_opt (rx_lit ''s'')))) rx_end)))))"

subsection \<open>Errors\<close>

datatype am_message =
    InvalidValue string json
  | CantUse string
  | InvalidSearch string
  | UnknownField string
  | CantSearch string
  | UnknownModifier string string
  | InvalidRegex string
  | InvalidStandard json
  | NoParentSubmission

datatype am_error =
    AutoModeratorSyntaxError am_message
  | AutoModeratorRuleTypeError am_message
  | YamlError nat
  | AmPyError py_error

definition binda :: "am_error + 'a \<Rightarrow> ('a \<Rightarrow> am_error + 'b) \<Rightarrow> am_error + 'b" where
  "binda m f = (case m of Inl e \<Rightarrow> Inl e | Inr x \<Rightarrow> f x)"

lemma binda_simps [simp]: "binda (Inr x) f = f x" "binda (Inl e) f = Inl e"
  by (simp_all add: binda_def)

lemma binda_eq_Inr_iff: "binda m f = Inr y \<longleftrightarrow> (\<exists>x. m = Inr x \<and> f x = Inr y)"
  by (cases m) simp_all

fun folda :: "('a \<Rightarrow> 's \<Rightarrow> am_error + 's) \<Rightarrow> 'a list \<Rightarrow> 's \<Rightarrow> am_error + 's" where
  "folda f [] s = Inr s"
| "folda f (x # xs) s = binda (f x s) (folda f xs)"

fun mapa :: "('a \<Rightarrow> am_error + 'b) \<Rightarrow> 'a list \<Rightarrow> am_error + 'b list" where
  "mapa f [] = Inr []"
| "mapa f (x # xs) = binda (f x) (\<lambda>y. binda (mapa f xs) (\<lambda>ys. Inr (y # ys)))"

subsection \<open>Components\<close>

datatype pytype = TyInt | TyBool | TyStr | TyList

datatype value_regex = OperInt | OperPeriod

datatype target = TgtLink | TgtComment | TgtAccount

datatype component_type = Check | Action | Plain

text \<open>\<open>valid_values\<close>: a set hashes the value it looks for, a tuple only compares.\<close>

datatype values_spec = AnyValue | InSet "json list" | InTuple "json list"

record component =
  c_key :: string
  c_types :: "pytype list"
  c_values :: values_spec
  c_regex :: "value_regex option"
  c_targets :: "target list"
  c_default :: json
  c_type :: component_type
  c_aliases :: "string list"

definition component0 :: "string \<Rightarrow> target list \<Rightarrow> component" where
  "component0 key targets = \<lparr>c_key = key, c_types = [], c_values = AnyValue, c_regex = None, c_targets = targets,
     c_default = JNull, c_type = Plain, c_aliases = []\<rparr>"

text \<open>A \<open>bool\<close> is an \<open>int\<close> in Python, and \<open>True == 1\<close>.\<close>

fun isinstance :: "json \<Rightarrow> pytype \<Rightarrow> bool" where
  "isinstance (JNum _) TyInt = True"
| "isinstance (JBool _) TyInt = True"
| "isinstance (JBool _) TyBool = True"
| "isinstance (JStr _) TyStr = True"
| "isinstance (JList _) TyList = True"
| "isinstance _ _ = False"

fun as_number :: "json \<Rightarrow> json" where
  "as_number (JBool b) = JNum (if b then 1 else 0)"
| "as_number j = j"

definition py_eq :: "json \<Rightarrow> json \<Rightarrow> bool" where
  "py_eq x y \<longleftrightarrow> as_number x = as_number y"

definition hashable :: "json \<Rightarrow> bool" where
  "hashable j = (case j of JObj _ \<Rightarrow> False | JList _ \<Rightarrow> False | _ \<Rightarrow> True)"

definition in_values :: "json \<Rightarrow> values_spec \<Rightarrow> bool result" where
  "in_values v spec = (case spec of
     AnyValue \<Rightarrow> Inr True
   | InSet vs \<Rightarrow> if hashable v then Inr (\<exists>x \<in> set vs. py_eq v x) else Inl (TypeError ''unhashable'')
   | InTuple vs \<Rightarrow> Inr (\<exists>x \<in> set vs. py_eq v x))"

text \<open>\<open>str(value)\<close>: the printed form of a list or dictionary ends in a bracket and never matches.\<close>

definition py_str_scalar :: "json \<Rightarrow> string" where
  "py_str_scalar j = (case j of
     JStr s \<Rightarrow> s | JNum n \<Rightarrow> py_str_int n | JBool b \<Rightarrow> if b then ''True'' else ''False''
   | JNull \<Rightarrow> ''None'' | JObj _ \<Rightarrow> ''{}'' | JList _ \<Rightarrow> ''[]'')"

definition regex_ok :: "value_regex option \<Rightarrow> json \<Rightarrow> bool" where
  "regex_ok r v = (case r of
     None \<Rightarrow> True
   | Some OperInt \<Rightarrow> oper_int_regex (py_str_scalar v)
   | Some OperPeriod \<Rightarrow> oper_period_regex (py_str_scalar v))"

definition component_validate :: "component \<Rightarrow> json \<Rightarrow> bool result" where
  "component_validate c v =
     (if c_types c \<noteq> [] \<and> \<not> (\<exists>ty \<in> set (c_types c). isinstance v ty) then Inr False
      else bindr (in_values v (c_values c)) (\<lambda>b. Inr (b \<and> regex_ok (c_regex c) v)))"

subsection \<open>The environment\<close>

text \<open>
  Configuration and libraries: the names of two comment sorts, MD5, whether a pattern compiles and what it
  finds (the groups of a match, the whole match first), the printed form of a nested value and YAML.
\<close>

record am_env =
  ae_upvote_path :: string
  ae_controversial_path :: string
  ae_md5 :: "string \<Rightarrow> string"
  ae_compiles :: "string \<Rightarrow> bool \<Rightarrow> bool"
  ae_search :: "string \<Rightarrow> bool \<Rightarrow> string \<Rightarrow> string option list option"
  ae_repr :: "json \<Rightarrow> string"
  ae_yaml :: "string \<Rightarrow> json option"
  ae_yaml_all :: "string \<Rightarrow> json list option"
  ae_standards_page :: "string option"

definition suggested_sort_options :: "am_env \<Rightarrow> string list" where
  "suggested_sort_options e = [''confidence'', ''top'', ''new'', ae_upvote_path e, ae_controversial_path e, ''old'', ''random'', ''qa'', ''blank'']"

definition potential_components :: "am_env \<Rightarrow> component list" where
  "potential_components e =
    [(component0 ''reports'' [TgtLink, TgtComment])\<lparr>c_types := [TyInt], c_type := Check\<rparr>,
     (component0 ''body_longer_than'' [TgtLink, TgtComment])\<lparr>c_types := [TyInt], c_type := Check\<rparr>,
     (component0 ''body_shorter_than'' [TgtLink, TgtComment])\<lparr>c_types := [TyInt], c_type := Check\<rparr>,
     (component0 ''ignore_blockquotes'' [TgtLink, TgtComment])\<lparr>c_types := [TyBool]\<rparr>,
     (component0 ''action'' [TgtLink, TgtComment])\<lparr>
        c_values := InSet (map JStr [''approve'', ''remove'', ''spam'', ''filter'', ''report'']), c_type := Action\<rparr>,
     (component0 ''action_reason'' [TgtLink, TgtComment])\<lparr>c_types := [TyStr], c_aliases := [''report_reason'']\<rparr>,
     (component0 ''set_flair'' [TgtLink, TgtAccount])\<lparr>c_types := [TyStr, TyList], c_type := Action\<rparr>,
     (component0 ''overwrite_flair'' [TgtLink, TgtAccount])\<lparr>c_types := [TyBool], c_default := JBool False\<rparr>,
     (component0 ''is_top_level'' [TgtComment])\<lparr>c_types := [TyBool], c_type := Check\<rparr>,
     (component0 ''is_edited'' [TgtLink, TgtComment])\<lparr>c_types := [TyBool], c_type := Check\<rparr>,
     (component0 ''set_locked'' [TgtLink])\<lparr>c_types := [TyBool], c_type := Action\<rparr>,
     (component0 ''set_sticky'' [TgtLink])\<lparr>c_types := [TyBool, TyInt],
        c_values := InSet (JBool True # JBool False # map JNum [1..int MAX_STICKIES]), c_type := Action\<rparr>,
     (component0 ''set_nsfw'' [TgtLink])\<lparr>c_types := [TyBool], c_type := Action\<rparr>,
     (component0 ''set_contest_mode'' [TgtLink])\<lparr>c_types := [TyBool], c_type := Action\<rparr>,
     (component0 ''set_suggested_sort'' [TgtLink])\<lparr>
        c_values := InTuple (map JStr (suggested_sort_options e @ [''best''])), c_type := Action\<rparr>,
     (component0 ''comment_karma'' [TgtAccount])\<lparr>c_regex := Some OperInt, c_type := Check\<rparr>,
     (component0 ''post_karma'' [TgtAccount])\<lparr>c_regex := Some OperInt, c_type := Check, c_aliases := [''link_karma'']\<rparr>,
     (component0 ''combined_karma'' [TgtAccount])\<lparr>c_regex := Some OperInt, c_type := Check\<rparr>,
     (component0 ''account_age'' [TgtAccount])\<lparr>c_regex := Some OperPeriod, c_type := Check\<rparr>,
     (component0 ''satisfy_any_threshold'' [TgtAccount])\<lparr>c_types := [TyBool], c_default := JBool False\<rparr>,
     (component0 ''is_gold'' [TgtAccount])\<lparr>c_types := [TyBool], c_type := Check\<rparr>,
     (component0 ''is_submitter'' [TgtAccount])\<lparr>c_types := [TyBool], c_type := Check\<rparr>,
     (component0 ''is_contributor'' [TgtAccount])\<lparr>c_types := [TyBool], c_type := Check\<rparr>,
     (component0 ''is_moderator'' [TgtAccount])\<lparr>c_types := [TyBool], c_type := Check\<rparr>]"

subsection \<open>\<open>RuleTarget\<close>\<close>

text \<open>
  The attributes that \<open>setattr\<close> sets are kept in the dictionary \<open>rt_attrs\<close>. A pattern is its source text with
  the flag \<open>IGNORECASE\<close>.
\<close>

record rule_target =
  rt_type :: target
  rt_attrs :: "(string, json) dict"
  rt_checks :: "string list"
  rt_actions :: "string list"
  rt_match_fields :: "string list"
  rt_patterns :: "(string, string \<times> bool) dict"
  rt_approve_banned :: bool

definition attr :: "rule_target \<Rightarrow> string \<Rightarrow> json" where
  "attr rt key = json_get key (rt_attrs rt)"

record target_build =
  tb_attrs :: "(string, json) dict"
  tb_checks :: "string list"
  tb_actions :: "string list"
  tb_values :: "(string, json) dict"

text \<open>Pop the key and all its aliases; the first value that is not \<open>None\<close> counts.\<close>

definition pop_source :: "string \<Rightarrow> json \<times> (string, json) dict \<Rightarrow> json \<times> (string, json) dict" where
  "pop_source k p = (let (x, values') = dict_pop_default k JNull (snd p) in (if fst p = JNull then x else fst p, values'))"

definition pop_sources :: "component \<Rightarrow> (string, json) dict \<Rightarrow> json \<times> (string, json) dict" where
  "pop_sources c values = fold pop_source (c_key c # c_aliases c) (JNull, values)"

definition validated_component :: "component \<Rightarrow> json \<Rightarrow> am_error + unit" where
  "validated_component c v = (case component_validate c v of
     Inl e \<Rightarrow> Inl (AmPyError e)
   | Inr b \<Rightarrow> if b then Inr () else Inl (AutoModeratorSyntaxError (InvalidValue (c_key c) v)))"

definition set_component :: "target \<Rightarrow> component \<Rightarrow> target_build \<Rightarrow> am_error + target_build" where
  "set_component ty c b =
     (if ty \<in> set (c_targets c)
      then (let (v, values) = pop_sources c (tb_values b); b1 = b\<lparr>tb_values := values\<rparr>
            in if v \<noteq> JNull
               then binda (validated_component c v) (\<lambda>_.
                 Inr (b1\<lparr>tb_attrs := AList.update (c_key c) v (tb_attrs b1),
                        tb_checks := (if c_type c = Check then c_key c # tb_checks b1 else tb_checks b1),
                        tb_actions := (if c_type c = Action then c_key c # tb_actions b1 else tb_actions b1)\<rparr>))
               else Inr (b1\<lparr>tb_attrs := AList.update (c_key c) (c_default c) (tb_attrs b1)\<rparr>))
      else if map_of (tb_values b) (c_key c) \<noteq> None
           then Inl (AutoModeratorRuleTypeError (CantUse (c_key c)))
           else Inr (b\<lparr>tb_attrs := AList.update (c_key c) JNull (tb_attrs b)\<rparr>))"

text \<open>\<open>set_flair\<close> becomes a dictionary; \<open>best\<close> is another name of the sort \<open>confidence\<close>.\<close>

definition flair_value :: "json \<Rightarrow> json" where
  "flair_value v = (let xs = (case v of JStr s \<Rightarrow> [JStr s, JStr []] | JList ys \<Rightarrow> ys @ replicate (2 - length ys) (JStr []) | _ \<Rightarrow> [])
     in case xs of x # y # _ \<Rightarrow> JObj [(''text'', x), (''class'', y)] | _ \<Rightarrow> v)"

definition special_attrs :: "(string, json) dict \<Rightarrow> (string, json) dict" where
  "special_attrs d =
     (let d1 = (case json_get ''set_flair'' d of JNull \<Rightarrow> d | v \<Rightarrow> AList.update ''set_flair'' (flair_value v) d)
      in if json_get ''set_suggested_sort'' d1 = JStr ''best'' then AList.update ''set_suggested_sort'' (JStr ''confidence'') d1 else d1)"

definition set_values :: "am_env \<Rightarrow> target \<Rightarrow> (string, json) dict \<Rightarrow> am_error + target_build" where
  "set_values e ty values =
     binda (folda (set_component ty) (potential_components e)
        \<lparr>tb_attrs = [], tb_checks = [], tb_actions = [], tb_values = values\<rparr>) (\<lambda>b.
     Inr (b\<lparr>tb_attrs := special_attrs (tb_attrs b)\<rparr>))"

subsection \<open>Patterns on fields\<close>

definition match_regexes :: "(string, string \<times> string) dict" where
  "match_regexes = [(''full-exact'', (''^'', ''$'')), (''full-text'', (''^'' @ [CHR 0x5C] @ ''W*'', [CHR 0x5C] @ ''W*$'')),
     (''includes'', ('''', '''')),
     (''includes-word'', (''(?:^|'' @ [CHR 0x5C] @ ''W|'' @ [CHR 0x5C] @ ''b)'', ''(?:$|'' @ [CHR 0x5C] @ ''W|'' @ [CHR 0x5C] @ ''b)'')),
     (''starts-with'', (''^'', '''')), (''ends-with'', ('''', ''$''))]"

definition match_modifiers :: "string list" where
  "match_modifiers = map fst match_regexes @ [''case-sensitive'', ''regex'']"

definition match_fields_by_type :: "target \<Rightarrow> string list" where
  "match_fields_by_type ty = (case ty of
     TgtLink \<Rightarrow> [''id'', ''title'', ''domain'', ''url'', ''body'', ''media_author'', ''media_author_url'', ''media_title'',
               ''media_description'', ''flair_text'', ''flair_css_class'']
   | TgtComment \<Rightarrow> [''id'', ''body'']
   | TgtAccount \<Rightarrow> [''id'', ''name'', ''flair_text'', ''flair_css_class''])"

definition all_valid_fields :: "string list" where
  "all_valid_fields = match_fields_by_type TgtLink @ match_fields_by_type TgtComment @ match_fields_by_type TgtAccount"

definition match_field_defaults :: "(string, string) dict" where
  "match_field_defaults = [(''id'', ''full-exact''), (''url'', ''includes''), (''media_author'', ''full-exact''),
     (''media_author_url'', ''includes''), (''flair_text'', ''full-exact''), (''flair_css_class'', ''full-exact'')]"

text \<open>
  \<open>^(~?[^\s(]+)\s*(?:\((.+)\))?$\<close>: the name is the longest prefix without white space and opening
  parenthesis (a shorter one leaves a character that no part of the rest accepts); then white space, and
  modifiers in parentheses up to the last closing one, which ends the key or stands before a final newline.
\<close>

definition strip_newline :: "string \<Rightarrow> string" where
  "strip_newline s = (if s \<noteq> [] \<and> last s = CHR 0x0A then butlast s else s)"

definition match_field_key :: "string \<Rightarrow> (string \<times> string option) option" where
  "match_field_key key =
     (let stop = (\<lambda>c. space_char c \<or> c = CHR ''(''); name = takeWhile (\<lambda>c. \<not> stop c) key;
          rest = dropWhile space_char (drop (length name) key); mods = strip_newline rest
      in if name = [] then None
         else if rest = [] then Some (name, None)
         else if hd rest = CHR ''('' \<and> length mods > 2 \<and> last mods = CHR '')'' \<and> CHR 0x0A \<notin> set mods
              then Some (name, Some (butlast (tl mods)))
              else None)"

record match_key =
  mk_name :: string
  mk_fields :: "string list"
  mk_modifiers :: "string list"
  mk_match_success :: bool

definition key_fields :: "string \<Rightarrow> string list" where
  "key_fields name = map py_strip (split_on CHR ''+'' (takeWhile (\<lambda>c. c \<noteq> CHR ''#'') (dropWhile (\<lambda>c. c = CHR ''~'') name)))"

definition parse_match_fields_key :: "target \<Rightarrow> string \<Rightarrow> am_error + match_key" where
  "parse_match_fields_key ty key = (case match_field_key key of
     None \<Rightarrow> Inl (AutoModeratorSyntaxError (InvalidSearch key))
   | Some (name, mods) \<Rightarrow>
       (let all_fields = key_fields name; fields = remdups (filter (\<lambda>f. f \<in> set (match_fields_by_type ty)) all_fields);
            modifiers = (case mods of None \<Rightarrow> [] | Some m \<Rightarrow> map py_strip (split_on CHR '','' m))
        in case find (\<lambda>f. f \<notin> set all_valid_fields) all_fields of
             Some f \<Rightarrow> Inl (AutoModeratorSyntaxError (UnknownField f))
           | None \<Rightarrow>
               if fields = [] then Inl (AutoModeratorRuleTypeError (CantSearch key))
               else (case find (\<lambda>m. m \<notin> set match_modifiers) modifiers of
                   Some m \<Rightarrow> Inl (AutoModeratorSyntaxError (UnknownModifier m key))
                 | None \<Rightarrow> Inr \<lparr>mk_name = name, mk_fields = fields, mk_modifiers = modifiers,
                               mk_match_success = \<not> startswith name ''~''\<rparr>)))"

definition alnum_char :: "char \<Rightarrow> bool" where
  "alnum_char c = (let n = of_char c :: nat in (48 \<le> n \<and> n \<le> 57) \<or> (65 \<le> n \<and> n \<le> 90) \<or> (97 \<le> n \<and> n \<le> 122))"

definition re_escape :: "string \<Rightarrow> string" where
  "re_escape s = concat (map (\<lambda>c. if alnum_char c then [c] else if c = CHR 0x00 then CHR 0x5C # ''000'' else [CHR 0x5C, c]) s)"

definition py_unicode :: "am_env \<Rightarrow> json \<Rightarrow> string" where
  "py_unicode e j = (case j of JObj _ \<Rightarrow> ae_repr e j | JList _ \<Rightarrow> ae_repr e j | _ \<Rightarrow> py_str_scalar j)"

definition match_values :: "am_env \<Rightarrow> bool \<Rightarrow> json \<Rightarrow> string" where
  "match_values e regex v =
     (let vals = map (py_unicode e) (case v of JList xs \<Rightarrow> xs | _ \<Rightarrow> [v]);
          escaped = (if regex then vals else map re_escape vals)
      in ''('' @ join_with ''|'' escaped @ '')'')"

definition match_mod :: "match_key \<Rightarrow> string" where
  "match_mod pk = (case find (\<lambda>m. m \<in> set (map fst match_regexes)) (mk_modifiers pk) of
     Some m \<Rightarrow> m
   | None \<Rightarrow> (case mk_fields pk of
       [field] \<Rightarrow> (case map_of match_field_defaults field of None \<Rightarrow> ''includes-word'' | Some m \<Rightarrow> m)
     | _ \<Rightarrow> ''includes-word''))"

text \<open>A check of the domain alone, without a modifier that says how to match, also accepts subdomains.\<close>

definition subdomains :: "match_key \<Rightarrow> string" where
  "subdomains pk = (if find (\<lambda>m. m \<in> set (map fst match_regexes)) (mk_modifiers pk) = None \<and> mk_fields pk = [''domain'']
     then ''(?:.*?'' @ [CHR 0x5C] @ ''.)?'' else [])"

definition make_pattern :: "am_env \<Rightarrow> match_key \<Rightarrow> json \<Rightarrow> string" where
  "make_pattern e pk v =
     (let value_str = subdomains pk @ match_values e (''regex'' \<in> set (mk_modifiers pk)) v
      in case map_of match_regexes (match_mod pk) of None \<Rightarrow> value_str | Some (pre, post) \<Rightarrow> pre @ value_str @ post)"

definition add_pattern ::
    "am_env \<Rightarrow> target \<Rightarrow> string \<times> json \<Rightarrow> string list \<times> (string, string \<times> bool) dict \<Rightarrow> am_error + (string list \<times> (string, string \<times> bool) dict)" where
  "add_pattern e ty kv st =
     (let (key, v) = kv; (fields, patterns) = st in
      binda (parse_match_fields_key ty key) (\<lambda>pk.
        let fields' = List.union (mk_fields pk) fields;
            pattern = make_pattern e pk v; ignorecase = (''case-sensitive'' \<notin> set (mk_modifiers pk))
        in if \<not> json_true v then Inr (fields', patterns)
           else if ae_compiles e pattern ignorecase then Inr (fields', AList.update key (pattern, ignorecase) patterns)
           else Inl (AutoModeratorSyntaxError (InvalidRegex key))))"

definition get_match_patterns ::
    "am_env \<Rightarrow> target \<Rightarrow> (string, json) dict \<Rightarrow> am_error + (string list \<times> (string, string \<times> bool) dict)" where
  "get_match_patterns e ty values = folda (add_pattern e ty) values ([], [])"

text \<open>\<open>RuleTarget.__init__\<close>: a value that is neither empty nor a dictionary has no method \<open>copy\<close>.\<close>

definition rule_target_init :: "am_env \<Rightarrow> target \<Rightarrow> json \<Rightarrow> bool \<Rightarrow> am_error + rule_target" where
  "rule_target_init e ty values approve_banned =
     binda (if \<not> json_true values then Inr [] else (case values of JObj d \<Rightarrow> Inr d | _ \<Rightarrow> Inl (AmPyError (AttributeError ''copy''))))
     (\<lambda>d. binda (set_values e ty d) (\<lambda>b.
          binda (get_match_patterns e ty (tb_values b)) (\<lambda>(fields, patterns).
          Inr \<lparr>rt_type = ty, rt_attrs = tb_attrs b, rt_checks = tb_checks b, rt_actions = tb_actions b,
               rt_match_fields = fields, rt_patterns = patterns, rt_approve_banned = approve_banned\<rparr>)))"

subsection \<open>\<open>Rule\<close>\<close>

record am_rule =
  ru_yaml :: string
  ru_unique_id :: string
  ru_attrs :: "(string, json) dict"
  ru_checks :: "string list"
  ru_actions :: "string list"
  ru_base_type :: target
  ru_author :: "rule_target option"
  ru_parent_submission :: "rule_target option"
  ru_base :: rule_target

definition rattr :: "am_rule \<Rightarrow> string \<Rightarrow> json" where
  "rattr r key = json_get key (ru_attrs r)"

fun lowercase_keys_recursively :: "json \<Rightarrow> json" where
  "lowercase_keys_recursively (JObj d) = JObj (dict_update [] (map (\<lambda>kv. (py_lower (fst kv), lowercase_keys_recursively (snd kv))) d))"
| "lowercase_keys_recursively j = j"

definition valid_type_map :: "(string, target) dict" where
  "valid_type_map = [(''comment'', TgtComment), (''submission'', TgtLink), (''link submission'', TgtLink), (''text submission'', TgtLink)]"

definition rule_components :: "component list" where
  "rule_components =
    [(component0 ''type'' [])\<lparr>c_values := InSet (map JStr (map fst valid_type_map @ [''any''])), c_default := JStr ''any'', c_type := Check\<rparr>,
     (component0 ''priority'' [])\<lparr>c_types := [TyInt], c_default := JNum 0\<rparr>,
     (component0 ''moderators_exempt'' [])\<lparr>c_types := [TyBool]\<rparr>,
     (component0 ''comment'' [])\<lparr>c_types := [TyStr], c_type := Action\<rparr>,
     (component0 ''comment_stickied'' [])\<lparr>c_types := [TyBool], c_default := JBool False\<rparr>,
     (component0 ''modmail'' [])\<lparr>c_types := [TyStr], c_type := Action\<rparr>,
     (component0 ''modmail_subject'' [])\<lparr>c_types := [TyStr], c_default := JStr ''AutoModerator notification''\<rparr>,
     (component0 ''message'' [])\<lparr>c_types := [TyStr], c_type := Action\<rparr>,
     (component0 ''message_subject'' [])\<lparr>c_types := [TyStr], c_default := JStr ''AutoModerator notification''\<rparr>]"

text \<open>The components of the rule itself: unlike those of a target, a key with the value \<open>None\<close> is validated.\<close>

definition set_rule_component :: "component \<Rightarrow> target_build \<Rightarrow> am_error + target_build" where
  "set_rule_component c b = (case map_of (tb_values b) (c_key c) of
     Some v \<Rightarrow> binda (validated_component c v) (\<lambda>_.
       Inr \<lparr>tb_attrs = AList.update (c_key c) v (tb_attrs b),
            tb_checks = (if c_type c = Check then c_key c # tb_checks b else tb_checks b),
            tb_actions = (if c_type c = Action then c_key c # tb_actions b else tb_actions b),
            tb_values = AList.delete (c_key c) (tb_values b)\<rparr>)
   | None \<Rightarrow> Inr (b\<lparr>tb_attrs := AList.update (c_key c) (c_default c) (tb_attrs b)\<rparr>))"

definition author_values :: "json \<Rightarrow> json \<Rightarrow> (string, json) dict" where
  "author_values author not_author =
     (let a = (case author of JObj d \<Rightarrow> d | JList _ \<Rightarrow> [(''name'', author)] | JStr _ \<Rightarrow> [(''name'', author)] | _ \<Rightarrow> [])
      in case not_author of
           JList _ \<Rightarrow> AList.update ''~name'' not_author a
         | JStr _ \<Rightarrow> AList.update ''~name'' not_author a
         | _ \<Rightarrow> a)"

definition author_target :: "am_env \<Rightarrow> (string, json) dict \<Rightarrow> am_error + rule_target option" where
  "author_target e a = (if a = [] then Inr None else binda (rule_target_init e TgtAccount (JObj a) True) (\<lambda>rt. Inr (Some rt)))"

definition parent_target :: "am_env \<Rightarrow> target \<Rightarrow> json \<Rightarrow> am_error + rule_target option" where
  "parent_target e base v =
     (if \<not> json_true v then Inr None
      else if base = TgtComment then binda (rule_target_init e TgtLink v True) (\<lambda>rt. Inr (Some rt))
      else Inl (AutoModeratorRuleTypeError NoParentSubmission))"

definition base_type_of :: "json \<Rightarrow> am_error + target" where
  "base_type_of v = (case v of
     JStr s \<Rightarrow> (case map_of valid_type_map s of None \<Rightarrow> Inl (AmPyError (KeyError s)) | Some ty \<Rightarrow> Inr ty)
   | _ \<Rightarrow> Inl (AmPyError (KeyError [])))"

definition rule_init :: "am_env \<Rightarrow> (string, json) dict \<Rightarrow> string \<Rightarrow> am_error + am_rule" where
  "rule_init e raw yaml =
     (let values = (case lowercase_keys_recursively (JObj raw) of JObj d \<Rightarrow> d | _ \<Rightarrow> []) in
      binda (folda set_rule_component rule_components
        \<lparr>tb_attrs = [], tb_checks = [], tb_actions = [], tb_values = values\<rparr>) (\<lambda>b.
      binda (base_type_of (json_get ''type'' (tb_attrs b))) (\<lambda>base.
      let (author, values1) = dict_pop_default ''author'' JNull (tb_values b);
          (not_author, values2) = dict_pop_default ''~author'' JNull values1
      in binda (author_target e (author_values author not_author)) (\<lambda>at.
      let (parent_submission, values3) = dict_pop_default ''parent_submission'' JNull values2 in
      binda (parent_target e base parent_submission) (\<lambda>pt.
      binda (rule_target_init e base (JObj values3)
          (case at of None \<Rightarrow> False | Some rt \<Rightarrow> ''name'' \<in> set (rt_match_fields rt))) (\<lambda>bt.
      Inr \<lparr>ru_yaml = yaml, ru_unique_id = ae_md5 e yaml, ru_attrs = tb_attrs b, ru_checks = tb_checks b,
           ru_actions = tb_actions b, ru_base_type = base, ru_author = at, ru_parent_submission = pt, ru_base = bt\<rparr>))))))"

text \<open>The targets in the order of the keys \<open>author\<close>, \<open>parent_submission\<close>, \<open>base\<close>.\<close>

definition rule_targets :: "am_rule \<Rightarrow> rule_target list" where
  "rule_targets r = (case ru_author r of None \<Rightarrow> [] | Some rt \<Rightarrow> [rt]) @
     (case ru_parent_submission r of None \<Rightarrow> [] | Some rt \<Rightarrow> [rt]) @ [ru_base r]"

definition has_any_checks :: "am_rule \<Rightarrow> bool \<Rightarrow> bool" where
  "has_any_checks r targets_only \<longleftrightarrow>
     (\<exists>rt \<in> set (rule_targets r). rt_checks rt \<noteq> [] \<or> rt_match_fields rt \<noteq> []) \<or> (\<not> targets_only \<and> ru_checks r \<noteq> [])"

definition has_any_actions :: "am_rule \<Rightarrow> bool \<Rightarrow> bool" where
  "has_any_actions r targets_only \<longleftrightarrow>
     (\<exists>rt \<in> set (rule_targets r). rt_actions rt \<noteq> []) \<or> (\<not> targets_only \<and> ru_actions r \<noteq> [])"

definition is_removal_rule :: "am_rule \<Rightarrow> bool" where
  "is_removal_rule r \<longleftrightarrow> attr (ru_base r) ''action'' \<in> {JStr ''spam'', JStr ''remove'', JStr ''filter''}"

definition is_inapplicable_to_mods :: "am_rule \<Rightarrow> bool" where
  "is_inapplicable_to_mods r \<longleftrightarrow>
     (if rattr r ''moderators_exempt'' \<noteq> JNull then json_true (rattr r ''moderators_exempt'')
      else is_removal_rule r \<or> attr (ru_base r) ''action'' = JStr ''report'')"

definition is_unrepeatable :: "am_rule \<Rightarrow> bool" where
  "is_unrepeatable r \<longleftrightarrow> json_true (rattr r ''comment'') \<or> json_true (rattr r ''modmail'') \<or> json_true (rattr r ''message'') \<or>
     attr (ru_base r) ''action'' = JStr ''report''"

subsection \<open>\<open>Ruleset\<close>\<close>

text \<open>\<open>re.split("^---", text, flags=MULTILINE)\<close>: the flag says whether a line starts here.\<close>

fun split_sections :: "bool \<Rightarrow> string \<Rightarrow> string \<Rightarrow> string list" where
  "split_sections bol acc [] = [rev acc]"
| "split_sections bol acc (c # cs) =
     (if bol \<and> take 3 (c # cs) = ''---'' then rev acc # split_sections False [] (drop 2 cs)
      else split_sections (c = CHR 0x0A) (c # acc) cs)"

definition strip_newlines :: "string \<Rightarrow> string" where
  "strip_newlines s = (let nl = (\<lambda>c. c = CHR 0x0A \<or> c = CHR 0x0D) in rev (dropWhile nl (rev (dropWhile nl s))))"

definition yaml_sections :: "string \<Rightarrow> string list" where
  "yaml_sections text = map strip_newlines (split_sections True [] text)"

type_synonym rule_def = "string \<times> (string, json) dict"

fun parse_sections :: "am_env \<Rightarrow> nat \<Rightarrow> string list \<Rightarrow> am_error + rule_def list" where
  "parse_sections e n [] = Inr []"
| "parse_sections e n (section # sections) = (case ae_yaml e section of
     None \<Rightarrow> Inl (YamlError n)
   | Some v \<Rightarrow> binda (parse_sections e (Suc n) sections) (\<lambda>defs.
       Inr (case v of JObj d \<Rightarrow> (section, d) # defs | _ \<Rightarrow> defs)))"

text \<open>The standard rules; any exception while loading them leaves none.\<close>

fun standards_of :: "json list \<Rightarrow> (json \<times> (string, json) dict) list \<Rightarrow> (json \<times> (string, json) dict) list option" where
  "standards_of [] acc = Some acc"
| "standards_of (JObj d # docs) acc = (case dict_pop ''standard'' d of
     Inl _ \<Rightarrow> None
   | Inr (name, d') \<Rightarrow> if hashable name then standards_of docs (AList.update (as_number name) d' acc) else None)"
| "standards_of (_ # docs) acc = None"

definition load_standards :: "am_env \<Rightarrow> (json \<times> (string, json) dict) list option" where
  "load_standards e = (case ae_standards_page e of
     None \<Rightarrow> None
   | Some content \<Rightarrow> (case ae_yaml_all e content of None \<Rightarrow> None | Some docs \<Rightarrow> standards_of docs []))"

datatype standard_result = SkipRule | UseValues "(string, json) dict"

definition apply_standard ::
    "(json \<times> (string, json) dict) list option \<Rightarrow> (string, json) dict \<Rightarrow> am_error + standard_result" where
  "apply_standard standards d =
     (let (name, values) = dict_pop_default ''standard'' JNull d in
      if \<not> json_true name then Inr (UseValues values)
      else (case standards of
          None \<Rightarrow> Inr SkipRule
        | Some rules \<Rightarrow> (case (case name of JStr _ \<Rightarrow> map_of rules name | _ \<Rightarrow> None) of
              None \<Rightarrow> Inl (AutoModeratorSyntaxError (InvalidStandard name))
            | Some sv \<Rightarrow> if sv = [] then Inl (AutoModeratorSyntaxError (InvalidStandard name))
                         else Inr (UseValues (dict_update sv values)))))"

definition kept_rule :: "am_rule \<Rightarrow> am_rule list" where
  "kept_rule r = (if has_any_checks r True then [r] else [])"

text \<open>A rule of type \<open>any\<close> is tried for comments and for submissions; it fails when both fail.\<close>

definition typed_rule :: "am_env \<Rightarrow> (string, json) dict \<Rightarrow> string \<Rightarrow> string \<Rightarrow> am_error + am_rule" where
  "typed_rule e values yaml ty = rule_init e (AList.update ''type'' (JStr ty) values) yaml"

definition any_rules :: "am_env \<Rightarrow> (string, json) dict \<Rightarrow> string \<Rightarrow> am_error + am_rule list" where
  "any_rules e values yaml = (case typed_rule e values yaml ''comment'' of
     Inr r \<Rightarrow> (case typed_rule e values yaml ''submission'' of
         Inr r' \<Rightarrow> Inr (kept_rule r @ kept_rule r')
       | Inl (AutoModeratorRuleTypeError _) \<Rightarrow> Inr (kept_rule r)
       | Inl err \<Rightarrow> Inl err)
   | Inl (AutoModeratorRuleTypeError _) \<Rightarrow> binda (typed_rule e values yaml ''submission'') (\<lambda>r'. Inr (kept_rule r'))
   | Inl err \<Rightarrow> Inl err)"

definition rules_of_def ::
    "am_env \<Rightarrow> (json \<times> (string, json) dict) list option \<Rightarrow> rule_def \<Rightarrow> am_error + am_rule list" where
  "rules_of_def e standards rd =
     binda (apply_standard standards (snd rd)) (\<lambda>res. case res of
       SkipRule \<Rightarrow> Inr []
     | UseValues values \<Rightarrow>
         if (case map_of values ''type'' of None \<Rightarrow> True | Some v \<Rightarrow> v = JStr ''any'') then any_rules e values (fst rd)
         else binda (rule_init e values (fst rd)) (\<lambda>r. Inr [r]))"

definition priority_of :: "am_rule \<Rightarrow> int" where
  "priority_of r = (case as_number (rattr r ''priority'') of JNum n \<Rightarrow> n | _ \<Rightarrow> 0)"

definition ruleset_init :: "am_env \<Rightarrow> string \<Rightarrow> am_error + am_rule list" where
  "ruleset_init e text =
     (if text = [] then Inr []
      else binda (parse_sections e 1 (yaml_sections text)) (\<lambda>defs.
           binda (mapa (rules_of_def e (load_standards e)) defs) (\<lambda>rss.
           Inr (sort_reverse priority_of (filter (\<lambda>r. has_any_checks r False \<and> has_any_actions r False) (concat rss))))))"

definition removal_rules :: "am_rule list \<Rightarrow> am_rule list" where
  "removal_rules rules = filter is_removal_rule rules"

definition nonremoval_rules :: "am_rule list \<Rightarrow> am_rule list" where
  "nonremoval_rules rules = filter (\<lambda>r. \<not> is_removal_rule r) rules"

subsection \<open>Well-formed rules\<close>

text \<open>
  A component of a target is set only where its type allows it and to a valid value or its default, and it
  counts as a check or as an action exactly when it is set.
\<close>

definition component_ok :: "target \<Rightarrow> (string, json) dict \<Rightarrow> string list \<Rightarrow> string list \<Rightarrow> component \<Rightarrow> bool" where
  "component_ok ty attrs checks actions c \<longleftrightarrow>
     (let v = json_get (c_key c) attrs in
      (v \<noteq> JNull \<longrightarrow> ty \<in> set (c_targets c) \<and> (v = c_default c \<or> component_validate c v = Inr True)) \<and>
      (c_key c \<in> set checks \<longleftrightarrow> c_type c = Check \<and> v \<noteq> JNull) \<and>
      (c_key c \<in> set actions \<longleftrightarrow> c_type c = Action \<and> v \<noteq> JNull))"

definition flair_ok :: "json \<Rightarrow> bool" where
  "flair_ok v \<longleftrightarrow> v = JNull \<or> (\<exists>x y. v = JObj [(''text'', x), (''class'', y)])"

definition pattern_ok :: "am_env \<Rightarrow> rule_target \<Rightarrow> string \<times> string \<times> bool \<Rightarrow> bool" where
  "pattern_ok e rt kp \<longleftrightarrow> ae_compiles e (fst (snd kp)) (snd (snd kp)) \<and>
     (\<exists>pk. parse_match_fields_key (rt_type rt) (fst kp) = Inr pk \<and> set (mk_fields pk) \<subseteq> set (rt_match_fields rt))"

definition target_ok :: "am_env \<Rightarrow> rule_target \<Rightarrow> bool" where
  "target_ok e rt \<longleftrightarrow>
     (\<forall>c \<in> set (potential_components e). c_key c \<noteq> ''set_flair'' \<longrightarrow>
        component_ok (rt_type rt) (rt_attrs rt) (rt_checks rt) (rt_actions rt) c) \<and>
     flair_ok (attr rt ''set_flair'') \<and>
     set (rt_match_fields rt) \<subseteq> set (match_fields_by_type (rt_type rt)) \<and>
     (\<forall>kp \<in> set (rt_patterns rt). pattern_ok e rt kp)"

definition rule_ok :: "am_env \<Rightarrow> am_rule \<Rightarrow> bool" where
  "rule_ok e r \<longleftrightarrow>
     (\<forall>rt \<in> set (rule_targets r). target_ok e rt) \<and> rt_type (ru_base r) = ru_base_type r \<and> ru_base_type r \<noteq> TgtAccount \<and>
     (\<forall>rt. ru_author r = Some rt \<longrightarrow> rt_type rt = TgtAccount) \<and>
     (\<forall>rt. ru_parent_submission r = Some rt \<longrightarrow> rt_type rt = TgtLink \<and> ru_base_type r = TgtComment) \<and>
     (rt_approve_banned (ru_base r) \<longrightarrow> (\<exists>rt. ru_author r = Some rt \<and> ''name'' \<in> set (rt_match_fields rt)))"

lemma folda_invariant:
  assumes "\<And>x s s'. x \<in> set xs \<Longrightarrow> P s \<Longrightarrow> f x s = Inr s' \<Longrightarrow> P s'" "P s" "folda f xs s = Inr s'"
  shows "P s'"
  using assms
proof (induction xs arbitrary: s)
  case (Cons x xs)
  then obtain s1 where "f x s = Inr s1" "folda f xs s1 = Inr s'" by (auto simp: binda_eq_Inr_iff)
  moreover from this have "P s1" using Cons.prems(1) [of x s s1] Cons.prems(2) by simp
  moreover have "\<And>y u u'. y \<in> set xs \<Longrightarrow> P u \<Longrightarrow> f y u = Inr u' \<Longrightarrow> P u'" using Cons.prems(1) by (meson list.set_intros(2))
  ultimately show ?case using Cons.IH [of s1] by blast
qed simp

lemma mapa_all:
  assumes "mapa f xs = Inr ys" "\<forall>x \<in> set xs. \<forall>y. f x = Inr y \<longrightarrow> P y"
  shows "\<forall>y \<in> set ys. P y"
  using assms by (induction xs arbitrary: ys) (auto simp: binda_eq_Inr_iff)

definition build_ok :: "target \<Rightarrow> target_build \<Rightarrow> component \<Rightarrow> bool" where
  "build_ok ty b c \<longleftrightarrow> component_ok ty (tb_attrs b) (tb_checks b) (tb_actions b) c"

definition fresh_key :: "target_build \<Rightarrow> string \<Rightarrow> bool" where
  "fresh_key b k \<longleftrightarrow> k \<notin> set (tb_checks b) \<and> k \<notin> set (tb_actions b)"

lemma json_get_update [simp]: "json_get k (AList.update k' v d) = (if k = k' then v else json_get k d)"
  by (simp add: json_get_def)

lemma validated_componentD: "validated_component c v = Inr u \<Longrightarrow> component_validate c v = Inr True"
  by (auto simp: validated_component_def split: sum.splits if_splits)

lemma set_component_frame:
  assumes "set_component ty c b = Inr b'" "k \<noteq> c_key c"
  shows "json_get k (tb_attrs b') = json_get k (tb_attrs b)" "k \<in> set (tb_checks b') \<longleftrightarrow> k \<in> set (tb_checks b)"
    "k \<in> set (tb_actions b') \<longleftrightarrow> k \<in> set (tb_actions b)"
  using assms by (auto simp: set_component_def Let_def binda_eq_Inr_iff split: if_splits prod.splits)

lemma set_component_ok:
  assumes "set_component ty c b = Inr b'" "fresh_key b (c_key c)" "c_type c \<noteq> Plain \<Longrightarrow> c_default c = JNull"
  shows "build_ok ty b' c"
  using assms validated_componentD
  by (auto simp: set_component_def Let_def binda_eq_Inr_iff build_ok_def component_ok_def fresh_key_def
      split: if_splits prod.splits)

lemma set_component_keeps:
  assumes "set_component ty c b = Inr b'" "c_key c' \<noteq> c_key c"
  shows "build_ok ty b' c' \<longleftrightarrow> build_ok ty b c'" "fresh_key b' (c_key c') \<longleftrightarrow> fresh_key b (c_key c')"
  using set_component_frame [OF assms] by (simp_all add: build_ok_def component_ok_def fresh_key_def)

lemma set_components_keep:
  assumes "folda (set_component ty) cs b = Inr b'" "c_key c \<notin> c_key ` set cs" "build_ok ty b c"
  shows "build_ok ty b' c"
  by (rule folda_invariant [of cs "\<lambda>b. build_ok ty b c", OF _ assms(3,1)]) (use assms(2) set_component_keeps(1) in blast)

lemma set_components_ok:
  assumes "folda (set_component ty) cs b = Inr b'" "distinct (map c_key cs)" "\<forall>c \<in> set cs. fresh_key b (c_key c)"
    "\<forall>c \<in> set cs. c_type c \<noteq> Plain \<longrightarrow> c_default c = JNull"
  shows "\<forall>c \<in> set cs. build_ok ty b' c"
  using assms
proof (induction cs arbitrary: b)
  case (Cons c cs)
  then obtain b1 where b1: "set_component ty c b = Inr b1" "folda (set_component ty) cs b1 = Inr b'"
    by (auto simp: binda_eq_Inr_iff)
  have ne: "c_key c' \<noteq> c_key c" if "c' \<in> set cs" for c' using Cons.prems(2) imageI [OF that, of c_key] by auto
  have "build_ok ty b1 c" using set_component_ok [OF b1(1)] Cons.prems(3,4) by simp
  then have "build_ok ty b' c" using set_components_keep [OF b1(2)] Cons.prems(2) by simp
  moreover have "\<forall>c' \<in> set cs. fresh_key b1 (c_key c')"
    using set_component_keeps(2) [OF b1(1)] ne Cons.prems(3) by simp
  ultimately show ?case using Cons.IH [OF b1(2)] Cons.prems(2,4) by simp
qed simp

lemma potential_components_keys: "distinct (map c_key (potential_components e))"
  by (simp add: potential_components_def component0_def)

lemma potential_components_defaults: "\<forall>c \<in> set (potential_components e). c_type c \<noteq> Plain \<longrightarrow> c_default c = JNull"
  by (simp add: potential_components_def component0_def)

lemma flair_value_ok: "isinstance v TyStr \<or> isinstance v TyList \<Longrightarrow> flair_ok (flair_value v) \<and> flair_value v \<noteq> JNull"
proof (cases v)
  case (JList ys)
  then show ?thesis
    by (cases ys; cases "tl ys") (auto simp: flair_value_def flair_ok_def numeral_2_eq_2)
qed (auto simp: flair_value_def flair_ok_def)

lemma special_attrs_other:
  assumes "k \<noteq> ''set_flair''"
  shows "json_get k (special_attrs d) =
    (if k = ''set_suggested_sort'' \<and> json_get k d = JStr ''best'' then JStr ''confidence'' else json_get k d)"
  using assms by (simp add: special_attrs_def Let_def split: json.split)

lemma special_attrs_flair:
  "json_get ''set_flair'' (special_attrs d) =
     (if json_get ''set_flair'' d = JNull then JNull else flair_value (json_get ''set_flair'' d))"
  by (simp add: special_attrs_def Let_def split: json.split)

lemma confidence_valid:
  assumes "c \<in> set (potential_components e)" "c_key c = ''set_suggested_sort''"
  shows "component_validate c (JStr ''confidence'') = Inr True" "TgtLink \<in> set (c_targets c)" "c_type c = Action"
  using assms by (auto simp: potential_components_def component0_def component_validate_def in_values_def py_eq_def
      suggested_sort_options_def regex_ok_def)

lemma flair_component:
  assumes "c \<in> set (potential_components e)" "c_key c = ''set_flair''" "component_validate c v = Inr True"
  shows "isinstance v TyStr \<or> isinstance v TyList"
  using assms by (auto simp: potential_components_def component0_def component_validate_def split: if_splits)

text \<open>The two attributes that are rewritten at the end stay well-formed.\<close>

lemma special_component_ok:
  assumes "c \<in> set (potential_components e)" "c_key c \<noteq> ''set_flair''" "component_ok ty d checks actions c"
  shows "component_ok ty (special_attrs d) checks actions c"
  using assms(3) confidence_valid [OF assms(1)]
  unfolding component_ok_def Let_def special_attrs_other [OF assms(2)] by auto

lemma flair_in_components: "\<exists>c \<in> set (potential_components e). c_key c = ''set_flair'' \<and> c_default c = JNull"
  by (simp add: potential_components_def component0_def)

lemma set_values_ok:
  assumes "set_values e ty values = Inr b"
  shows "\<forall>c \<in> set (potential_components e). c_key c \<noteq> ''set_flair'' \<longrightarrow>
      component_ok ty (tb_attrs b) (tb_checks b) (tb_actions b) c"
    "flair_ok (json_get ''set_flair'' (tb_attrs b))"
proof -
  obtain b0 where b0: "folda (set_component ty) (potential_components e)
      \<lparr>tb_attrs = [], tb_checks = [], tb_actions = [], tb_values = values\<rparr> = Inr b0"
    and b: "b = b0\<lparr>tb_attrs := special_attrs (tb_attrs b0)\<rparr>"
    using assms by (auto simp: set_values_def binda_eq_Inr_iff)
  have ok: "\<forall>c \<in> set (potential_components e). build_ok ty b0 c"
    by (rule set_components_ok [OF b0 potential_components_keys _ potential_components_defaults]) (simp add: fresh_key_def)
  then show "\<forall>c \<in> set (potential_components e). c_key c \<noteq> ''set_flair'' \<longrightarrow>
      component_ok ty (tb_attrs b) (tb_checks b) (tb_actions b) c"
    using special_component_ok unfolding b build_ok_def by auto
  obtain c where c: "c \<in> set (potential_components e)" "c_key c = ''set_flair''" "c_default c = JNull"
    using flair_in_components by blast
  have "flair_ok (flair_value v)" if "v = json_get ''set_flair'' (tb_attrs b0)" "v \<noteq> JNull" for v
    using bspec [OF ok c(1)] flair_component [OF c(1,2), of v] flair_value_ok [of v] c(2,3) that
    by (auto simp: build_ok_def component_ok_def Let_def)
  then show "flair_ok (json_get ''set_flair'' (tb_attrs b))"
    unfolding b by (simp add: special_attrs_flair flair_ok_def)
qed

text \<open>Patterns: only fields of the type, only compiled ones, and every pattern's fields are among those of the target.\<close>

definition patterns_ok :: "am_env \<Rightarrow> target \<Rightarrow> string list \<times> (string, string \<times> bool) dict \<Rightarrow> bool" where
  "patterns_ok e ty st \<longleftrightarrow> set (fst st) \<subseteq> set (match_fields_by_type ty) \<and>
     (\<forall>kp \<in> set (snd st). ae_compiles e (fst (snd kp)) (snd (snd kp)) \<and>
       (\<exists>pk. parse_match_fields_key ty (fst kp) = Inr pk \<and> set (mk_fields pk) \<subseteq> set (fst st)))"

lemma parse_match_fields_key_fields:
  "parse_match_fields_key ty key = Inr pk \<Longrightarrow> set (mk_fields pk) \<subseteq> set (match_fields_by_type ty) \<and> mk_fields pk \<noteq> []"
  by (auto simp: parse_match_fields_key_def Let_def split: option.splits if_splits prod.splits)

lemma set_alist_update: "kp \<in> set (AList.update k v d) \<Longrightarrow> kp = (k, v) \<or> kp \<in> set d"
  by (induction d) (auto split: if_splits)

lemma add_pattern_ok:
  assumes "patterns_ok e ty st" "add_pattern e ty kv st = Inr st'"
  shows "patterns_ok e ty st'"
proof -
  obtain key v fields patterns where kv: "kv = (key, v)" and st: "st = (fields, patterns)" by (cases kv, cases st)
  obtain pk where pk: "parse_match_fields_key ty key = Inr pk"
    using assms(2) by (auto simp: add_pattern_def kv st binda_eq_Inr_iff)
  have sub: "set (mk_fields pk) \<subseteq> set (match_fields_by_type ty)" using parse_match_fields_key_fields [OF pk] by simp
  let ?fields = "List.union (mk_fields pk) fields"
  let ?p = "(make_pattern e pk v, ''case-sensitive'' \<notin> set (mk_modifiers pk))"
  have keep: "\<forall>kp \<in> set patterns. ae_compiles e (fst (snd kp)) (snd (snd kp)) \<and>
       (\<exists>pk. parse_match_fields_key ty (fst kp) = Inr pk \<and> set (mk_fields pk) \<subseteq> set ?fields)"
    using assms(1) by (fastforce simp: patterns_ok_def st)
  have fields: "set ?fields \<subseteq> set (match_fields_by_type ty)" using assms(1) sub by (auto simp: patterns_ok_def st)
  consider "st' = (?fields, patterns)" |
    "ae_compiles e (fst ?p) (snd ?p)" "st' = (?fields, AList.update key ?p patterns)"
    using assms(2) by (auto simp: add_pattern_def kv st pk Let_def split: if_splits)
  then show ?thesis
  proof cases
    case 1
    then show ?thesis using keep fields by (simp add: patterns_ok_def)
  next
    case 2
    then show ?thesis using keep fields pk unfolding patterns_ok_def by (auto dest!: set_alist_update)
  qed
qed

lemma get_match_patterns_ok: "get_match_patterns e ty values = Inr st \<Longrightarrow> patterns_ok e ty st"
  unfolding get_match_patterns_def
  by (rule folda_invariant [of "values" "patterns_ok e ty" "add_pattern e ty" "([], [])"])
    (blast intro: add_pattern_ok, simp add: patterns_ok_def)

lemma rule_target_init_ok:
  assumes "rule_target_init e ty values ab = Inr rt"
  shows "target_ok e rt" "rt_type rt = ty" "rt_approve_banned rt = ab"
proof -
  obtain d b fields patterns where b: "set_values e ty d = Inr b" and p: "get_match_patterns e ty (tb_values b) = Inr (fields, patterns)"
    and rt: "rt = \<lparr>rt_type = ty, rt_attrs = tb_attrs b, rt_checks = tb_checks b, rt_actions = tb_actions b,
       rt_match_fields = fields, rt_patterns = patterns, rt_approve_banned = ab\<rparr>"
    using assms by (auto simp: rule_target_init_def binda_eq_Inr_iff)
  show "target_ok e rt"
    using set_values_ok [OF b] get_match_patterns_ok [OF p]
    unfolding target_ok_def rt patterns_ok_def pattern_ok_def attr_def by simp
qed (use assms in \<open>auto simp: rule_target_init_def binda_eq_Inr_iff\<close>)

lemma base_type_of_account: "base_type_of v = Inr ty \<Longrightarrow> ty \<noteq> TgtAccount"
  by (auto simp: base_type_of_def valid_type_map_def split: json.splits option.splits if_splits)

lemma author_target_ok:
  "author_target e a = Inr (Some rt) \<Longrightarrow> target_ok e rt \<and> rt_type rt = TgtAccount"
  by (auto simp: author_target_def binda_eq_Inr_iff dest: rule_target_init_ok split: if_splits)

lemma parent_target_ok:
  "parent_target e base v = Inr (Some rt) \<Longrightarrow> target_ok e rt \<and> rt_type rt = TgtLink \<and> base = TgtComment"
  by (auto simp: parent_target_def binda_eq_Inr_iff dest: rule_target_init_ok split: if_splits)

lemma rule_init_ok:
  assumes "rule_init e raw yaml = Inr r"
  shows "rule_ok e r" "ru_unique_id r = ae_md5 e yaml"
proof -
  obtain a v d ab where base: "ru_base_type r \<noteq> TgtAccount"
    and at: "author_target e a = Inr (ru_author r)" and pt: "parent_target e (ru_base_type r) v = Inr (ru_parent_submission r)"
    and bt: "rule_target_init e (ru_base_type r) d ab = Inr (ru_base r)"
    and ab: "ab = (case ru_author r of None \<Rightarrow> False | Some rt \<Rightarrow> ''name'' \<in> set (rt_match_fields rt))"
    and id: "ru_unique_id r = ae_md5 e yaml"
    using assms base_type_of_account unfolding rule_init_def Let_def case_prod_beta binda_eq_Inr_iff by auto
  have "target_ok e rt" if "rt \<in> set (rule_targets r)" for rt
    using that author_target_ok parent_target_ok rule_target_init_ok(1) [OF bt] at pt
    unfolding rule_targets_def by (auto split: option.splits)
  moreover have "rt_approve_banned (ru_base r) \<longrightarrow> (\<exists>rt. ru_author r = Some rt \<and> ''name'' \<in> set (rt_match_fields rt))"
    using rule_target_init_ok(3) [OF bt] ab by (auto split: option.splits)
  ultimately show "rule_ok e r"
    unfolding rule_ok_def using base rule_target_init_ok(2) [OF bt] author_target_ok parent_target_ok at pt by auto
  show "ru_unique_id r = ae_md5 e yaml" by (rule id)
qed

lemma typed_rule_ok: "typed_rule e values yaml ty = Inr r \<Longrightarrow> rule_ok e r"
  by (auto simp: typed_rule_def dest: rule_init_ok)

lemma any_rules_ok: "any_rules e values yaml = Inr rs \<Longrightarrow> length rs \<le> 2 \<and> (\<forall>r \<in> set rs. rule_ok e r)"
  by (auto simp: any_rules_def binda_eq_Inr_iff kept_rule_def dest: typed_rule_ok split: sum.splits am_error.splits if_splits)

lemma rules_of_def_ok:
  assumes "rules_of_def e st rd = Inr rs"
  shows "length rs \<le> 2 \<and> (\<forall>r \<in> set rs. rule_ok e r)"
proof -
  obtain res where res: "apply_standard st (snd rd) = Inr res"
    using assms by (auto simp: rules_of_def_def binda_eq_Inr_iff)
  show ?thesis
  proof (cases res)
    case SkipRule
    then show ?thesis using assms res by (simp add: rules_of_def_def)
  next
    case (UseValues d)
    then consider "any_rules e d (fst rd) = Inr rs" | r where "rule_init e d (fst rd) = Inr r" "rs = [r]"
      using assms res by (auto simp: rules_of_def_def binda_eq_Inr_iff simp del: option.case_eq_if split: if_splits)
    then show ?thesis by cases (use any_rules_ok rule_init_ok(1) in auto)
  qed
qed

lemma parse_sections_length: "parse_sections e n xs = Inr defs \<Longrightarrow> length defs \<le> length xs"
proof (induction xs arbitrary: n defs)
  case (Cons x xs)
  then obtain v ds where "parse_sections e (Suc n) xs = Inr ds" "defs = (case v of JObj d \<Rightarrow> (x, d) # ds | _ \<Rightarrow> ds)"
    by (auto simp: binda_eq_Inr_iff split: option.splits)
  then show ?case using Cons.IH [of "Suc n" ds] by (auto split: json.splits)
qed simp

lemma mapa_length: "mapa f xs = Inr ys \<Longrightarrow> length ys = length xs"
  by (induction xs arbitrary: ys) (auto simp: binda_eq_Inr_iff)

lemma concat_length_le: "\<forall>xs \<in> set xss. length xs \<le> n \<Longrightarrow> length (concat xss) \<le> n * length xss"
  by (induction xss) auto

text \<open>
  (C27) Well-formed rulesets. Whenever a wiki page is accepted as a ruleset, its rules are sorted by
  descending priority, there are at most two per section of the page, every rule has a check and an action,
  and every rule is well-formed: components are set only on the types they belong to and to values that
  validate, checks and actions are exactly the components that are set, patterns compile and search only
  fields of the type, a parent submission is only attached to rules on comments, and posts of banned users
  are only approved by rules that check the author's name.
\<close>

theorem ruleset_wellformed:
  assumes "ruleset_init e text = Inr rules"
  shows "sorted_wrt (\<lambda>r r'. priority_of r' \<le> priority_of r) rules \<and> length rules \<le> 2 * length (yaml_sections text) \<and>
    (\<forall>r \<in> set rules. has_any_checks r False \<and> has_any_actions r False \<and> rule_ok e r)"
proof (cases "text = []")
  case False
  then obtain defs rss where defs: "parse_sections e 1 (yaml_sections text) = Inr defs"
    and rss: "mapa (rules_of_def e (load_standards e)) defs = Inr rss"
    and rules: "rules = sort_reverse priority_of (filter (\<lambda>r. has_any_checks r False \<and> has_any_actions r False) (concat rss))"
    using assms by (auto simp: ruleset_init_def binda_eq_Inr_iff)
  have rs: "\<forall>rs \<in> set rss. length rs \<le> 2 \<and> (\<forall>r \<in> set rs. rule_ok e r)"
    using rules_of_def_ok by (intro mapa_all [OF rss]) blast
  then have "length (concat rss) \<le> 2 * length (yaml_sections text)"
    using concat_length_le [of rss 2] mapa_length [OF rss] parse_sections_length [OF defs] by simp
  then have "length rules \<le> 2 * length (yaml_sections text)"
    unfolding rules length_sort_reverse using length_filter_le [of _ "concat rss"] le_trans by blast
  then show ?thesis using rs unfolding rules by (auto simp: sorted_sort_reverse)
qed (use assms in \<open>simp add: ruleset_init_def\<close>)

text \<open>An environment for examples: two pages of YAML, patterns that always compile and find nothing.\<close>

definition sample_removal :: "(string, json) dict" where
  "sample_removal = [(''title'', JList [JStr ''buy'', JStr ''sell'']), (''action'', JStr ''remove''), (''priority'', JNum 1)]"

definition sample_greeting :: "(string, json) dict" where
  "sample_greeting = [(''type'', JStr ''submission''), (''comment'', JStr ''hello'')]"

definition sample_am_env :: am_env where
  "sample_am_env = \<lparr>ae_upvote_path = ''upvotes'', ae_controversial_path = ''controversial'', ae_md5 = (\<lambda>s. s),
     ae_compiles = (\<lambda>_ _. True), ae_search = (\<lambda>_ _ _. None), ae_repr = (\<lambda>_. []),
     ae_yaml = (\<lambda>s. if s = ''A'' then Some (JObj sample_removal) else if s = ''B'' then Some (JObj sample_greeting) else None),
     ae_yaml_all = (\<lambda>_. None), ae_standards_page = None\<rparr>"

definition sample_page :: string where
  "sample_page = ''B'' @ [CHR 0x0A] @ ''---'' @ [CHR 0x0A] @ ''A''"

lemma sample_ruleset:
  "case ruleset_init sample_am_env sample_page of Inl _ \<Rightarrow> False | Inr rs \<Rightarrow> map ru_unique_id rs = [''A'', ''B''] \<and> map priority_of rs = [1, 0]"
  by code_simp

theorem ruleset_wellformed_witness:
  "\<exists>rules. ruleset_init sample_am_env sample_page = Inr rules \<and> map ru_unique_id rules = [''A'', ''B''] \<and>
     sorted_wrt (\<lambda>r r'. priority_of r' \<le> priority_of r) rules \<and> (\<forall>r \<in> set rules. rule_ok sample_am_env r)"
proof -
  obtain rules where rules: "ruleset_init sample_am_env sample_page = Inr rules" "map ru_unique_id rules = [''A'', ''B'']"
    using sample_ruleset by (auto split: sum.splits)
  then show ?thesis using ruleset_wellformed [OF rules(1)] by (intro exI [of _ rules]) simp
qed

end
