(* ===== verification/AutomodChecks.thy ===== *)
theory AutomodChecks
  imports AutomodRules ColumnQuery
begin

section \<open>The conditions of the automoderator\<close>

text \<open>
  Models the conditions of \<open>r2/lib/automoderator.py\<close>: \<open>RuleTarget.check_item\<close> with its three groups of
  checks, \<open>get_field_value_from_item\<close>, \<open>Rule.should_check_item\<close> and \<open>Rule.check_item\<close>, with
  \<open>timeinterval_fromstr\<close> of \<open>r2/lib/utils/_utils.pyx\<close>. A post is a thing of the theory \<open>AdminTools\<close> with the data
  below. Ages are in microseconds. An author whose account is deleted is replaced by the object
  \<open>DeletedUser()\<close>, which is a parameter.
\<close>

record post =
  po_id36 :: string
  po_parent :: "int option"
  po_link :: string
  po_is_self :: bool
  po_title :: string
  po_url :: string
  po_domain :: string
  po_text :: string
  po_editted :: bool
  po_media :: json
  po_over_18 :: bool
  po_contest_mode :: bool
  po_locked :: bool
  po_suggested_sort :: "string option"
  po_flair_text :: "string option"
  po_flair_css_class :: "string option"
  po_permalink :: string

record acct =
  ac_user :: suser
  ac_id36 :: string
  ac_name :: string
  ac_deleted :: bool
  ac_spam :: bool
  ac_link_karma :: int
  ac_comment_karma :: int
  ac_age :: int
  ac_flair_text :: "int \<Rightarrow> string option"
  ac_flair_css_class :: "int \<Rightarrow> string option"
  ac_flair_enabled :: "int \<Rightarrow> bool"
  ac_is_flair :: "int \<Rightarrow> bool"

record asub =
  as_sub :: subreddit
  as_id36 :: string
  as_name :: string
  as_stickies :: "string list option"

type_synonym item = "post mthing"

text \<open>The dictionary \<open>data\<close> that \<open>apply_to_item\<close> collects; \<open>is_submitter\<close> is only there for comments.\<close>

record am_data =
  da_sub :: asub
  da_author :: acct
  da_link :: "item option"
  da_is_submitter :: "bool option"
  da_rels :: rel_state

record run_env =
  rn_env :: am_env
  rn_account :: int
  rn_account_name :: string
  rn_link_karma_floor :: int
  rn_comment_karma_floor :: int
  rn_deleted_user :: acct
  rn_markdown :: "string \<Rightarrow> string option"
  rn_disclaimer :: string

definition author_flair_text :: "acct \<Rightarrow> int \<Rightarrow> string option" where
  "author_flair_text a sr = (if ac_flair_enabled a sr then ac_flair_text a sr else None)"

definition author_flair_css_class :: "acct \<Rightarrow> int \<Rightarrow> string option" where
  "author_flair_css_class a sr = (if ac_flair_enabled a sr then ac_flair_css_class a sr else None)"

definition data_is_moderator :: "am_data \<Rightarrow> acct \<Rightarrow> bool" where
  "data_is_moderator d a \<longleftrightarrow> \<not> ac_deleted a \<and> is_member moderator (as_sub (da_sub d)) (ac_user a) (da_rels d)"

definition data_is_contributor :: "am_data \<Rightarrow> acct \<Rightarrow> bool" where
  "data_is_contributor d a \<longleftrightarrow> \<not> ac_deleted a \<and> is_contributor (as_sub (da_sub d)) (ac_user a) (da_rels d)"

subsection \<open>Values of fields\<close>

text \<open>\<open>str.splitlines\<close>: a line ends with a carriage return, a newline or both; an empty last line is dropped.\<close>

fun splitlines_from :: "string \<Rightarrow> string \<Rightarrow> string list" where
  "splitlines_from acc [] = (if acc = [] then [] else [rev acc])"
| "splitlines_from acc [c] = (if c = CHR 0x0A \<or> c = CHR 0x0D then [rev acc] else [rev (c # acc)])"
| "splitlines_from acc (c # d # cs) =
     (if c = CHR 0x0D \<and> d = CHR 0x0A then rev acc # splitlines_from [] cs
      else if c = CHR 0x0A \<or> c = CHR 0x0D then rev acc # splitlines_from [] (d # cs)
      else splitlines_from (c # acc) (d # cs))"

definition remove_blockquotes :: "string \<Rightarrow> string" where
  "remove_blockquotes body =
     join_with [CHR 0x0A] (filter (\<lambda>line. \<not> startswith line ''>'' \<and> line \<noteq> []) (splitlines_from [] body))"

definition item_body :: "rule_target \<Rightarrow> item \<Rightarrow> string" where
  "item_body rt t = (if json_true (attr rt ''ignore_blockquotes'') then remove_blockquotes (po_text (mt_data t)) else po_text (mt_data t))"

definition media_field :: "string \<Rightarrow> json \<Rightarrow> string" where
  "media_field key media = (case media of
     JObj d \<Rightarrow> (case json_get ''oembed'' d of JObj o' \<Rightarrow> (case json_get key o' of JStr s \<Rightarrow> s | _ \<Rightarrow> []) | _ \<Rightarrow> [])
   | _ \<Rightarrow> [])"

text \<open>\<open>None\<close> is Python's \<open>None\<close>: the flair of a post or user that has none.\<close>

definition post_field :: "rule_target \<Rightarrow> am_data \<Rightarrow> item \<Rightarrow> string \<Rightarrow> string option" where
  "post_field rt d t field =
     (let p = mt_data t in
      if field = ''id'' then Some (po_id36 p)
      else if field = ''body'' then Some (item_body rt t)
      else if field = ''domain'' then Some (if po_is_self p then ''self.'' @ as_name (da_sub d) else po_domain p)
      else if field = ''media_author'' then Some (media_field ''author_name'' (po_media p))
      else if field = ''media_author_url'' then Some (media_field ''author_url'' (po_media p))
      else if field = ''media_description'' then Some (media_field ''description'' (po_media p))
      else if field = ''media_title'' then Some (media_field ''title'' (po_media p))
      else if field = ''title'' then Some (po_title p)
      else if field = ''url'' then Some (po_url p)
      else if field = ''flair_text'' then po_flair_text p
      else if field = ''flair_css_class'' then po_flair_css_class p
      else Some [])"

definition account_field :: "am_data \<Rightarrow> acct \<Rightarrow> string \<Rightarrow> string option" where
  "account_field d a field =
     (if field = ''id'' then Some (ac_id36 a)
      else if field = ''flair_text'' then author_flair_text a (sr_id (as_sub (da_sub d)))
      else if field = ''flair_css_class'' then author_flair_css_class a (sr_id (as_sub (da_sub d)))
      else if field = ''name'' then Some (ac_name a)
      else Some [])"

definition account_number :: "run_env \<Rightarrow> acct \<Rightarrow> string \<Rightarrow> int" where
  "account_number e a field =
     (let posts = max (ac_link_karma a) (rn_link_karma_floor e); comments = max (ac_comment_karma a) (rn_comment_karma_floor e) in
      if field = ''account_age'' then ac_age a
      else if field = ''post_karma'' then posts
      else if field = ''comment_karma'' then comments
      else posts + comments)"

subsection \<open>Conditions without patterns\<close>

datatype subject = PostSubject item | AccountSubject acct

definition word_char :: "char \<Rightarrow> bool" where
  "word_char c \<longleftrightarrow> alnum_char c \<or> c = CHR ''_''"

definition strip_nonword :: "string \<Rightarrow> string" where
  "strip_nonword s = rev (dropWhile (\<lambda>c. \<not> word_char c) (rev (dropWhile (\<lambda>c. \<not> word_char c) s)))"

definition json_num :: "json \<Rightarrow> int" where
  "json_num j = (case as_number j of JNum n \<Rightarrow> n | _ \<Rightarrow> 0)"

definition has_body :: "item \<Rightarrow> bool" where
  "has_body t \<longleftrightarrow> mt_class t = AComment \<or> (mt_class t = ALink \<and> po_is_self (mt_data t))"

definition body_length_ok :: "rule_target \<Rightarrow> item \<Rightarrow> bool" where
  "body_length_ok rt t \<longleftrightarrow>
     (let n = int (length (strip_nonword (item_body rt t))); longer = attr rt ''body_longer_than''; shorter = attr rt ''body_shorter_than'' in
      \<not> (longer \<noteq> JNull \<and> n \<le> json_num longer) \<and> \<not> (shorter \<noteq> JNull \<and> n \<ge> json_num shorter))"

definition flag_ok :: "rule_target \<Rightarrow> string \<Rightarrow> bool \<Rightarrow> bool" where
  "flag_ok rt key actual \<longleftrightarrow> attr rt key = JNull \<or> attr rt key = JBool actual"

fun check_nonpattern_conditions :: "rule_target \<Rightarrow> am_data \<Rightarrow> subject \<Rightarrow> bool" where
  "check_nonpattern_conditions rt d (PostSubject t) \<longleftrightarrow>
     (if json_true (attr rt ''reports'') \<and> mt_reported t < json_num (attr rt ''reports'') then False
      else if has_body t \<and> \<not> body_length_ok rt t then False
      else if \<not> flag_ok rt ''is_top_level'' (po_parent (mt_data t) = None) then False
      else flag_ok rt ''is_edited'' (po_editted (mt_data t)))"
| "check_nonpattern_conditions rt d (AccountSubject a) \<longleftrightarrow>
     (if \<not> flag_ok rt ''is_submitter'' (case da_is_submitter d of None \<Rightarrow> True | Some b \<Rightarrow> b) then False
      else if \<not> flag_ok rt ''is_moderator'' (data_is_moderator d a) then False
      else if \<not> flag_ok rt ''is_contributor'' (data_is_contributor d a) then False
      else flag_ok rt ''is_gold'' (u_gold (ac_user a)))"

subsection \<open>Thresholds of accounts\<close>

definition rstrips :: "string \<Rightarrow> string \<Rightarrow> string" where
  "rstrips text remove = (if length remove \<le> length text \<and> drop (length text - length remove) text = remove
     then (if remove = [] then [] else take (length text - length remove) text) else text)"

definition timeintervald :: "(string, int) dict" where
  "timeintervald = [(''second'', 1), (''minute'', 60), (''hour'', 60 * 60), (''day'', 60 * 60 * 24),
     (''week'', 60 * 60 * 24 * 7), (''month'', 60 * 60 * 24 * 30), (''year'', 60 * 60 * 24 * 365)]"

definition interval_of :: "int \<Rightarrow> string \<Rightarrow> int result" where
  "interval_of num period = (case map_of timeintervald (rstrips period ''s'') of
     None \<Rightarrow> Inl (KeyError (rstrips period ''s'')) | Some d \<Rightarrow> Inr (num * d))"

text \<open>In seconds.\<close>

definition timeinterval_fromstr :: "string \<Rightarrow> int result" where
  "timeinterval_fromstr interval = (case split_on CHR '' '' (py_strip interval) of
     [period] \<Rightarrow> interval_of 1 period
   | [num, period] \<Rightarrow> bindr (py_int_stripped num) (\<lambda>n. interval_of n period)
   | _ \<Rightarrow> Inl (ValueError ''format should be ([num] second|minute|etc)''))"

datatype comparison = Less | Greater | Equal

definition split_operator :: "string \<Rightarrow> comparison \<times> string" where
  "split_operator s = (case operator_regex s of
     [] \<Rightarrow> (Equal, s)
   | rest # _ \<Rightarrow> (let op = take (length s - length rest) s
       in (if op = ''<'' then Less else if op = ''>'' then Greater else Equal, py_strip rest)))"

definition threshold_value :: "string \<Rightarrow> string \<Rightarrow> int result" where
  "threshold_value check s =
     (if check = ''account_age''
      then bindr (timeinterval_fromstr (case py_int_stripped s of Inr n \<Rightarrow> py_str_int n @ '' days'' | Inl _ \<Rightarrow> s))
             (\<lambda>n. Inr (n * 1000000))
      else py_int_stripped s)"

definition compare :: "comparison \<Rightarrow> int \<Rightarrow> int \<Rightarrow> bool" where
  "compare op x y = (case op of Less \<Rightarrow> x < y | Greater \<Rightarrow> x > y | Equal \<Rightarrow> x = y)"

definition check_threshold :: "run_env \<Rightarrow> acct \<Rightarrow> string \<Rightarrow> string \<Rightarrow> bool result" where
  "check_threshold e a check compare_value =
     (let (op, s) = split_operator compare_value in
      bindr (threshold_value check s) (\<lambda>n. Inr (compare op (account_number e a check) n)))"

definition thresholds :: "string list" where
  "thresholds = [''comment_karma'', ''post_karma'', ''combined_karma'', ''account_age'']"

definition threshold_checks :: "rule_target \<Rightarrow> (string \<times> string) list" where
  "threshold_checks rt = List.map_filter (\<lambda>k. if attr rt k = JNull then None else Some (k, py_str_scalar (attr rt k))) thresholds"

fun thresholds_loop :: "run_env \<Rightarrow> acct \<Rightarrow> bool \<Rightarrow> (string \<times> string) list \<Rightarrow> bool result" where
  "thresholds_loop e a any_ok [] = Inr (\<not> any_ok)"
| "thresholds_loop e a any_ok ((check, v) # cs) =
     bindr (check_threshold e a check v) (\<lambda>res. if res = any_ok then Inr res else thresholds_loop e a any_ok cs)"

definition check_account_thresholds :: "run_env \<Rightarrow> rule_target \<Rightarrow> acct \<Rightarrow> bool result" where
  "check_account_thresholds e rt a =
     (let checks = threshold_checks rt in
      if checks = [] then Inr True
      else if ac_spam a \<or> u_global_banned (ac_user a) then Inr False
      else thresholds_loop e a (attr rt ''satisfy_any_threshold'' = JBool True) checks)"

subsection \<open>Patterns\<close>

type_synonym matches = "(string, string option list) dict"

definition subject_field :: "rule_target \<Rightarrow> am_data \<Rightarrow> subject \<Rightarrow> string \<Rightarrow> string option" where
  "subject_field rt d s field = (case s of PostSubject t \<Rightarrow> post_field rt d t field | AccountSubject a \<Rightarrow> account_field d a field)"

text \<open>The body of a link and the URL of a text post are not searched.\<close>

definition searched_fields :: "subject \<Rightarrow> string list \<Rightarrow> string list" where
  "searched_fields s fs = (case s of
     PostSubject t \<Rightarrow>
       if mt_class t = ALink \<and> \<not> po_is_self (mt_data t) then filter (\<lambda>f. f \<noteq> ''body'') fs
       else if mt_class t = ALink then filter (\<lambda>f. f \<noteq> ''url'') fs
       else fs
   | AccountSubject a \<Rightarrow> fs)"

text \<open>Search the fields one after the other; searching \<open>None\<close> raises.\<close>

fun search_fields :: "(string \<Rightarrow> string option list option) \<Rightarrow> (string \<Rightarrow> string option) \<Rightarrow> string list \<Rightarrow> string option list option result" where
  "search_fields search value [] = Inr None"
| "search_fields search value (f # fs) = (case value f of
     None \<Rightarrow> Inl (TypeError ''expected string or buffer'')
   | Some s \<Rightarrow> (case search s of Some m \<Rightarrow> Inr (Some m) | None \<Rightarrow> search_fields search value fs))"

fun match_loop ::
    "run_env \<Rightarrow> rule_target \<Rightarrow> am_data \<Rightarrow> subject \<Rightarrow> (string, string \<times> bool) dict \<Rightarrow> bool \<Rightarrow> matches \<Rightarrow> (bool \<times> matches) result" where
  "match_loop e rt d s [] checked ms = Inr (checked, ms)"
| "match_loop e rt d s ((key, pattern, ignorecase) # ps) checked ms =
     (case parse_match_fields_key (rt_type rt) key of
        Inl _ \<Rightarrow> Inl (ValueError key)
      | Inr pk \<Rightarrow>
          (let fs = searched_fields s (mk_fields pk) in
           bindr (search_fields (ae_search (rn_env e) pattern ignorecase) (subject_field rt d s) fs) (\<lambda>m.
             let ms' = (case m of None \<Rightarrow> ms | Some g \<Rightarrow> AList.update (mk_name pk) g ms)
             in if (m \<noteq> None) \<noteq> mk_match_success pk then Inr (False, ms')
                else match_loop e rt d s ps (checked \<or> fs \<noteq> []) ms')))"

definition check_match_patterns :: "run_env \<Rightarrow> rule_target \<Rightarrow> am_data \<Rightarrow> subject \<Rightarrow> (bool \<times> matches) result" where
  "check_match_patterns e rt d s = (if rt_patterns rt = [] then Inr (True, []) else match_loop e rt d s (rt_patterns rt) False [])"

definition target_check_item :: "run_env \<Rightarrow> rule_target \<Rightarrow> am_data \<Rightarrow> subject \<Rightarrow> (bool \<times> matches) result" where
  "target_check_item e rt d s =
     (if \<not> check_nonpattern_conditions rt d s then Inr (False, [])
      else bindr (case s of AccountSubject a \<Rightarrow> check_account_thresholds e rt a | PostSubject _ \<Rightarrow> Inr True) (\<lambda>ok.
        if \<not> ok then Inr (False, []) else check_match_patterns e rt d s))"

subsection \<open>Rules\<close>

text \<open>Whether a string occurs in another.\<close>

fun contains :: "string \<Rightarrow> string \<Rightarrow> bool" where
  "contains pat [] = (pat = [])"
| "contains pat (c # cs) = (startswith (c # cs) pat \<or> contains pat cs)"

definition mentions_media :: "json \<Rightarrow> bool" where
  "mentions_media j = (case j of JStr s \<Rightarrow> s \<noteq> [] \<and> contains ''{{media_'' s | _ \<Rightarrow> False)"

definition target_needs_media :: "rule_target \<Rightarrow> bool" where
  "target_needs_media rt \<longleftrightarrow>
     (\<exists>kp \<in> set (rt_patterns rt). case parse_match_fields_key (rt_type rt) (fst kp) of
        Inr pk \<Rightarrow> (\<forall>f \<in> set (mk_fields pk). startswith f ''media_'') | Inl _ \<Rightarrow> False) \<or>
     (\<exists>j \<in> set (attr rt ''action_reason'' # (case attr rt ''set_flair'' of JObj kvs \<Rightarrow> map snd kvs | _ \<Rightarrow> [])). mentions_media j)"

definition rule_needs_media :: "am_rule \<Rightarrow> bool" where
  "rule_needs_media r \<longleftrightarrow>
     (\<exists>key \<in> {''comment'', ''modmail'', ''message''}. mentions_media (rattr r key)) \<or>
     (\<exists>rt \<in> set (rule_targets r). target_needs_media rt)"

definition class_target :: "mclass \<Rightarrow> target option" where
  "class_target k = (case k of ALink \<Rightarrow> Some TgtLink | AComment \<Rightarrow> Some TgtComment | _ \<Rightarrow> None)"

definition item_is_correct_type :: "am_rule \<Rightarrow> item \<Rightarrow> bool" where
  "item_is_correct_type r t \<longleftrightarrow>
     (if class_target (mt_class t) \<noteq> Some (ru_base_type r) then False
      else if rattr r ''type'' = JStr ''link submission'' then \<not> po_is_self (mt_data t)
      else if rattr r ''type'' = JStr ''text submission'' then po_is_self (mt_data t)
      else True)"

definition removed_by_moderator :: "item \<Rightarrow> bool" where
  "removed_by_moderator t \<longleftrightarrow> mt_spam t \<and> bi_moderator_banned (mt_ban t)"

definition endswith_str :: "string \<Rightarrow> string \<Rightarrow> bool" where
  "endswith_str s suffix \<longleftrightarrow> length suffix \<le> length s \<and> drop (length s - length suffix) s = suffix"

definition approved_by_other :: "run_env \<Rightarrow> item \<Rightarrow> bool" where
  "approved_by_other e t \<longleftrightarrow>
     (case mt_verdict t of None \<Rightarrow> False | Some v \<Rightarrow> endswith_str v ''-approved'') \<and>
     bi_unbanner (mt_ban t) \<noteq> Some (rn_account_name e)"

definition own_comment :: "run_env \<Rightarrow> am_data \<Rightarrow> item \<Rightarrow> bool" where
  "own_comment e d t \<longleftrightarrow> mt_class t = AComment \<and> \<not> ac_deleted (da_author d) \<and> u_id (ac_user (da_author d)) = rn_account e"

text \<open>The media object of the post, for a comment of its link.\<close>

definition media_of :: "am_data \<Rightarrow> item \<Rightarrow> json" where
  "media_of d t = (if mt_class t = ALink then po_media (mt_data t)
     else (case da_link d of None \<Rightarrow> JNull | Some l \<Rightarrow> po_media (mt_data l)))"

definition should_check_item :: "run_env \<Rightarrow> am_rule \<Rightarrow> am_data \<Rightarrow> item \<Rightarrow> bool" where
  "should_check_item e r d t \<longleftrightarrow>
     (if \<not> item_is_correct_type r t then False
      else if own_comment e d t then False
      else if is_inapplicable_to_mods r \<and> data_is_moderator d (da_author d) then False
      else if removed_by_moderator t then False
      else if is_removal_rule r \<and> approved_by_other e t then False
      else \<not> (rule_needs_media r \<and> \<not> json_true (media_of d t)))"

definition get_target_item :: "am_data \<Rightarrow> item \<Rightarrow> string \<Rightarrow> subject option" where
  "get_target_item d t key =
     (if key = ''base'' then Some (PostSubject t)
      else if key = ''author'' then Some (AccountSubject (da_author d))
      else if key = ''parent_submission'' then map_option PostSubject (da_link d)
      else None)"

text \<open>The targets of a rule with what they apply to, in the order \<open>author\<close>, \<open>parent_submission\<close>, \<open>base\<close>.\<close>

definition rule_subjects :: "am_rule \<Rightarrow> am_data \<Rightarrow> item \<Rightarrow> (rule_target \<times> subject) list" where
  "rule_subjects r d t = List.map_filter
     (\<lambda>(key, rt). case (rt, get_target_item d t key) of (Some rt', Some s) \<Rightarrow> Some (rt', s) | _ \<Rightarrow> None)
     [(''author'', ru_author r), (''parent_submission'', ru_parent_submission r), (''base'', Some (ru_base r))]"

fun check_targets :: "run_env \<Rightarrow> am_data \<Rightarrow> (rule_target \<times> subject) list \<Rightarrow> matches \<Rightarrow> (bool \<times> matches) result" where
  "check_targets e d [] ms = Inr (True, ms)"
| "check_targets e d ((rt, s) # ts) ms =
     bindr (target_check_item e rt d s) (\<lambda>(ok, ms'). if ok then check_targets e d ts ms' else Inr (False, []))"

text \<open>\<open>Rule.check_item\<close>, with the matches of the base target, which is checked last.\<close>

definition rule_check_item :: "run_env \<Rightarrow> am_rule \<Rightarrow> am_data \<Rightarrow> item \<Rightarrow> (bool \<times> matches) result" where
  "rule_check_item e r d t =
     (if \<not> should_check_item e r d t then Inr (False, []) else check_targets e d (rule_subjects r d t) [])"

subsection \<open>What the fixed regular expressions accept\<close>

named_theorems rx_iff \<open>the strings that matchers accept\<close>

lemma rx_star_iff [rx_iff]: "r \<in> set (rx_star P s) \<longleftrightarrow> (\<exists>u. s = u @ r \<and> (\<forall>c \<in> set u. P c))"
proof (induction s)
  case (Cons c s)
  show ?case
  proof
    assume "r \<in> set (rx_star P (c # s))"
    then consider "P c" "r \<in> set (rx_star P s)" | "r = c # s" by (auto split: if_splits)
    then show "\<exists>u. c # s = u @ r \<and> (\<forall>c \<in> set u. P c)"
    proof cases
      case 1
      then obtain u where "s = u @ r" "\<forall>c \<in> set u. P c" using Cons.IH by blast
      then show ?thesis using 1(1) by (intro exI [of _ "c # u"]) simp
    qed simp
  next
    assume "\<exists>u. c # s = u @ r \<and> (\<forall>c \<in> set u. P c)"
    then obtain u where u: "c # s = u @ r" "\<forall>c \<in> set u. P c" by blast
    show "r \<in> set (rx_star P (c # s))" using u Cons.IH by (cases u) auto
  qed
qed simp

lemma rx_char_iff [rx_iff]: "r \<in> set (rx_char P s) \<longleftrightarrow> (\<exists>c. s = c # r \<and> P c)"
  by (auto simp: rx_char_def split: list.splits)

lemma rx_lit_iff [rx_iff]: "r \<in> set (rx_lit l s) \<longleftrightarrow> s = l @ r"
  by (induction l s rule: rx_lit.induct) (auto split: list.splits)

lemma rx_seq_iff [rx_iff]: "r \<in> set (rx_seq m n s) \<longleftrightarrow> (\<exists>t \<in> set (m s). r \<in> set (n t))"
  by (simp add: rx_seq_def)

lemma rx_alt_iff [rx_iff]: "r \<in> set (rx_alt m n s) \<longleftrightarrow> r \<in> set (m s) \<or> r \<in> set (n s)"
  by (simp add: rx_alt_def)

lemma rx_opt_iff [rx_iff]: "r \<in> set (rx_opt m s) \<longleftrightarrow> r \<in> set (m s) \<or> r = s"
  by (auto simp: rx_opt_def)

lemma rx_end_iff [rx_iff]: "r \<in> set (rx_end s) \<longleftrightarrow> r = s \<and> (s = [] \<or> s = [CHR 0x0A])"
  by (auto simp: rx_end_def)

lemma rx_digits_iff [rx_iff]: "r \<in> set (rx_digits s) \<longleftrightarrow> (\<exists>u. u \<noteq> [] \<and> s = u @ r \<and> (\<forall>c \<in> set u. is_digit c))"
proof
  assume "\<exists>u. u \<noteq> [] \<and> s = u @ r \<and> (\<forall>c \<in> set u. is_digit c)"
  then obtain c u where "s = c # u @ r" "is_digit c" "\<forall>c \<in> set u. is_digit c" by (metis append_Cons list.exhaust list.set_intros)
  then show "r \<in> set (rx_digits s)"
    unfolding rx_digits_def rx_seq_iff by (intro bexI [of _ "u @ r"]) (auto simp: rx_iff)
next
  assume "r \<in> set (rx_digits s)"
  then obtain c u where "s = c # u @ r" "is_digit c" "\<forall>c \<in> set u. is_digit c" by (auto simp: rx_digits_def rx_iff)
  then show "\<exists>u. u \<noteq> [] \<and> s = u @ r \<and> (\<forall>c \<in> set u. is_digit c)" by (intro exI [of _ "c # u"]) auto
qed

lemma rx_seq_nonempty: "rx_seq m n s \<noteq> [] \<longleftrightarrow> (\<exists>t \<in> set (m s). n t \<noteq> [])"
  by (auto simp: rx_seq_def)

lemma oper_int_regex_iff:
  "oper_int_regex s \<longleftrightarrow> (\<exists>op sp sg ds nl. s = op @ sp @ sg @ ds @ nl \<and> op \<in> {[], ''='', ''=='', ''<'', ''>''} \<and>
     (\<forall>c \<in> set sp. space_char c) \<and> sg \<in> {[], ''-''} \<and> ds \<noteq> [] \<and> (\<forall>c \<in> set ds. is_digit c) \<and> nl \<in> {[], [CHR 0x0A]})"
    (is "_ \<longleftrightarrow> (\<exists>op sp sg ds nl. ?parts op sp sg ds nl)")
proof
  assume "oper_int_regex s"
  then obtain t1 t2 t3 t4 where t: "t1 \<in> set (rx_opt operator_regex s)" "t2 \<in> set (rx_star space_char t1)"
    "t3 \<in> set (rx_opt (rx_lit ''-'') t2)" "t4 \<in> set (rx_digits t3)" "t4 \<in> {[], [CHR 0x0A]}"
    unfolding oper_int_regex_def rx_seq_nonempty rx_end_def by (auto split: if_splits)
  obtain op where op: "s = op @ t1" "op \<in> {[], ''='', ''=='', ''<'', ''>''}"
    using t(1) by (auto simp: operator_regex_def rx_iff)
  obtain sg where sg: "t2 = sg @ t3" "sg \<in> {[], ''-''}" using t(3) by (auto simp: rx_iff)
  obtain sp where sp: "t1 = sp @ t2" "\<forall>c \<in> set sp. space_char c" using t(2) unfolding rx_star_iff by blast
  obtain ds where ds: "ds \<noteq> []" "t3 = ds @ t4" "\<forall>c \<in> set ds. is_digit c" using t(4) unfolding rx_digits_iff by blast
  have "?parts op sp sg ds t4" using op sg sp ds t(5) by simp
  then show "\<exists>op sp sg ds nl. ?parts op sp sg ds nl" by blast
next
  assume "\<exists>op sp sg ds nl. ?parts op sp sg ds nl"
  then obtain op sp sg ds nl where p: "?parts op sp sg ds nl" by blast
  have "sp @ sg @ ds @ nl \<in> set (rx_opt operator_regex s)" using p by (auto simp: operator_regex_def rx_iff)
  moreover have "sg @ ds @ nl \<in> set (rx_star space_char (sp @ sg @ ds @ nl))" using p by (auto simp: rx_iff)
  moreover have "ds @ nl \<in> set (rx_opt (rx_lit ''-'') (sg @ ds @ nl))" using p by (auto simp: rx_iff)
  moreover have "nl \<in> set (rx_digits (ds @ nl))" "rx_end nl \<noteq> []" using p by (auto simp: rx_iff rx_end_def)
  ultimately show "oper_int_regex s"
    unfolding oper_int_regex_def rx_seq_nonempty by blast
qed

lemma digit_not_space: "is_digit c \<Longrightarrow> \<not> space_char c \<and> c \<notin> {CHR ''='', CHR ''<'', CHR ''>'', CHR ''-'', CHR ''+''}"
  by (auto simp: is_digit_def space_char_def char_digit_def split: if_splits)

lemma dropWhile_all: "\<forall>c \<in> set u. P c \<Longrightarrow> v \<noteq> [] \<Longrightarrow> \<not> P (hd v) \<Longrightarrow> dropWhile P (u @ v) = v"
  by (induction u) (auto simp: neq_Nil_conv)

lemma py_strip_core:
  assumes "\<forall>c \<in> set u. space_char c" "\<forall>c \<in> set v. space_char c" "t \<noteq> []" "\<not> space_char (hd t)" "\<not> space_char (last t)"
  shows "py_strip (u @ t @ v) = t"
proof -
  have "dropWhile space_char (u @ t @ v) = t @ v" using dropWhile_all [of u space_char "t @ v"] assms by simp
  moreover have "dropWhile space_char (rev v @ rev t) = rev t" using dropWhile_all [of "rev v" space_char "rev t"] assms by (simp add: hd_rev)
  ultimately show ?thesis by (simp add: py_strip_def)
qed

lemma parse_digits_total: "\<forall>c \<in> set ds. is_digit c \<Longrightarrow> \<exists>n. parse_digits k ds = Some n"
  by (induction ds arbitrary: k) (auto simp: is_digit_def split: option.splits)

lemma py_int_signed:
  assumes "sg \<in> {[], ''-''}" "ds \<noteq> []" "\<forall>c \<in> set ds. is_digit c"
  shows "\<exists>n. py_int_str (sg @ ds) = Inr n"
proof -
  obtain n where n: "parse_digits 0 ds = Some n" using parse_digits_total [OF assms(3)] by blast
  obtain c cs where ds: "ds = c # cs" using assms(2) by (cases ds) auto
  have "c \<noteq> CHR ''-''" "c \<noteq> CHR ''+''" using digit_not_space [of c] assms(3) ds by auto
  then show ?thesis using assms(1) n ds by (auto simp: py_int_str_def Let_def simp del: parse_digits.simps)
qed

text \<open>Whatever the regular expression for numbers accepts is a number for the comparison.\<close>

lemma split_operator_parts:
  assumes "op \<in> {[], ''='', ''=='', ''<'', ''>''}" "rest \<noteq> []" "hd rest \<notin> {CHR ''='', CHR ''<'', CHR ''>''}"
  shows "snd (split_operator (op @ rest)) = (if op = [] then rest else py_strip rest)"
proof -
  obtain c cs where rest: "rest = c # cs" using assms(2) by (cases rest) auto
  then show ?thesis using assms(1,3)
    by (auto simp: split_operator_def operator_regex_def rx_alt_def rx_seq_def rx_opt_def Let_def)
qed

lemma oper_int_parses:
  assumes "oper_int_regex s"
  shows "\<exists>n. py_int_stripped (snd (split_operator s)) = Inr n"
proof -
  obtain op sp sg ds nl where s: "s = op @ sp @ sg @ ds @ nl" "op \<in> {[], ''='', ''=='', ''<'', ''>''}"
    "\<forall>c \<in> set sp. space_char c" "sg \<in> {[], ''-''}" "ds \<noteq> []" "\<forall>c \<in> set ds. is_digit c" "nl \<in> {[], [CHR 0x0A]}"
    using assms unfolding oper_int_regex_iff by blast
  have hd: "\<not> space_char (hd (sg @ ds))" "hd (sg @ ds) \<notin> {CHR ''='', CHR ''<'', CHR ''>''}" "\<not> space_char (last (sg @ ds))"
    using s(4-6) digit_not_space [of "hd ds"] digit_not_space [of "last ds"] by (auto simp: space_char_def)
  have nl: "\<forall>c \<in> set nl. space_char c" using s(7) by (auto simp: space_char_def)
  have strip: "py_strip (sp @ (sg @ ds) @ nl) = sg @ ds" "py_strip (sg @ ds) = sg @ ds"
    using py_strip_core [of sp nl "sg @ ds"] py_strip_core [of "[]" "[]" "sg @ ds"] s(3,5) nl hd by simp_all
  have "hd (sp @ sg @ ds @ nl) \<notin> {CHR ''='', CHR ''<'', CHR ''>''}"
    using hd(2) s(3,5) by (cases sp) (auto simp: space_char_def hd_append)
  then have "py_strip (snd (split_operator s)) = sg @ ds"
    using split_operator_parts [OF s(2), of "sp @ sg @ ds @ nl"] s(5) strip unfolding s(1) by simp
  then show ?thesis using py_int_signed [OF s(4-6)] by (simp add: py_int_stripped_def)
qed

subsection \<open>Properties of the thresholds\<close>

definition threshold_met :: "run_env \<Rightarrow> acct \<Rightarrow> string \<times> string \<Rightarrow> bool" where
  "threshold_met e a kv \<longleftrightarrow> check_threshold e a (fst kv) (snd kv) = Inr True"

lemma thresholds_loop_spec:
  assumes "\<forall>kv \<in> set cs. \<exists>b. check_threshold e a (fst kv) (snd kv) = Inr b"
  shows "thresholds_loop e a any_ok cs =
    Inr (if any_ok then \<exists>kv \<in> set cs. threshold_met e a kv else \<forall>kv \<in> set cs. threshold_met e a kv)"
  using assms
proof (induction cs)
  case (Cons kv cs)
  obtain k v b where kv: "kv = (k, v)" and b: "check_threshold e a k v = Inr b" using Cons.prems by (cases kv) auto
  have "threshold_met e a kv = b" by (simp add: threshold_met_def kv b)
  then show ?case using Cons by (simp add: kv b)
qed simp

definition karma_keys :: "string list" where
  "karma_keys = [''comment_karma'', ''post_karma'', ''combined_karma'']"

lemma karma_component:
  "\<forall>k \<in> set karma_keys. \<exists>c \<in> set (potential_components e).
     c_key c = k \<and> c_regex c = Some OperInt \<and> c_default c = JNull \<and> c_values c = AnyValue"
  by (simp add: karma_keys_def potential_components_def component0_def)

lemma karma_validated:
  assumes "target_ok e rt" "k \<in> set karma_keys" "attr rt k \<noteq> JNull"
  shows "oper_int_regex (py_str_scalar (attr rt k))"
proof -
  obtain c where c: "c \<in> set (potential_components e)" "c_key c = k" "c_regex c = Some OperInt" "c_default c = JNull" "c_values c = AnyValue"
    using karma_component assms(2) by blast
  have "k \<noteq> ''set_flair''" using assms(2) by (auto simp: karma_keys_def)
  then have "component_ok (rt_type rt) (rt_attrs rt) (rt_checks rt) (rt_actions rt) c"
    using assms(1) c(1,2) by (simp add: target_ok_def)
  then have "component_validate c (attr rt k) = Inr True"
    using assms(3) c(2,4) by (simp add: component_ok_def Let_def attr_def)
  then show ?thesis
    using c(3,5) by (auto simp: component_validate_def in_values_def regex_ok_def split: if_splits)
qed

lemma threshold_checks_set:
  "kv \<in> set (threshold_checks rt) \<longleftrightarrow> fst kv \<in> set thresholds \<and> attr rt (fst kv) \<noteq> JNull \<and> snd kv = py_str_scalar (attr rt (fst kv))"
  by (cases kv) (auto simp: threshold_checks_def map_filter_def)


definition sample_acct :: acct where
  "sample_acct = \<lparr>ac_user = sample_suser, ac_id36 = ''7'', ac_name = ''bob'', ac_deleted = False, ac_spam = False,
     ac_link_karma = 3, ac_comment_karma = 20, ac_age = 1000000, ac_flair_text = (\<lambda>_. None), ac_flair_css_class = (\<lambda>_. None),
     ac_flair_enabled = (\<lambda>_. True), ac_is_flair = (\<lambda>_. False)\<rparr>"

definition sample_run_env :: run_env where
  "sample_run_env = \<lparr>rn_env = sample_am_env, rn_account = 99, rn_account_name = ''AutoModerator'', rn_link_karma_floor = 1,
     rn_comment_karma_floor = -100, rn_deleted_user = sample_acct\<lparr>ac_deleted := True\<rparr>, rn_markdown = Some, rn_disclaimer = ''bot''\<rparr>"

definition sample_thresholds :: json where
  "sample_thresholds = JObj [(''comment_karma'', JStr ''> 10''), (''account_age'', JStr ''> 3 days''), (''satisfy_any_threshold'', JBool True)]"

lemma sample_threshold_target:
  "case rule_target_init sample_am_env TgtAccount sample_thresholds True of Inl _ \<Rightarrow> False
   | Inr rt \<Rightarrow> threshold_checks rt = [(''comment_karma'', ''> 10''), (''account_age'', ''> 3 days'')] \<and>
       attr rt ''satisfy_any_threshold'' = JBool True \<and> attr rt ''account_age'' = JStr ''> 3 days''"
  by code_simp

lemma sample_threshold_age:
  "threshold_value ''account_age'' (snd (split_operator (py_str_scalar (JStr ''> 3 days'')))) = Inr 259200000000"
  "threshold_met sample_run_env sample_acct (''comment_karma'', ''> 10'')"
  by code_simp+


text \<open>
  Periods that are accepted and then fail. The pattern for an age accepts \<open>3days\<close> without a space (and
  any text before the number); such a rule is taken into the ruleset, but checking an account that is not
  banned against it raises.
\<close>

lemma accepted_age_raises:
  "\<exists>rt. rule_target_init e TgtAccount (JObj [(''account_age'', JStr ''3days'')]) True = Inr rt \<and>
     check_account_thresholds re rt a =
       (if ac_spam a \<or> u_global_banned (ac_user a) then Inr False else Inl (KeyError ''3day''))"
proof -
  have ok: "oper_period_regex ''3days''" by code_simp
  have raises: "check_threshold re a ''account_age'' ''3days'' = Inl (KeyError ''3day'')"
  proof -
    have "split_operator ''3days'' = (Equal, ''3days'')" by code_simp
    moreover have "threshold_value ''account_age'' ''3days'' = Inl (KeyError ''3day'')" by code_simp
    ultimately show ?thesis by (simp add: check_threshold_def)
  qed
  obtain rt where rt: "rule_target_init e TgtAccount (JObj [(''account_age'', JStr ''3days'')]) True = Inr rt"
    "threshold_checks rt = [(''account_age'', ''3days'')]"
    by (simp add: rule_target_init_def set_values_def potential_components_def component0_def set_component_def pop_sources_def
        pop_source_def dict_pop_default_def validated_component_def component_validate_def in_values_def regex_ok_def py_str_scalar_def
        ok special_attrs_def json_get_def get_match_patterns_def threshold_checks_def thresholds_def attr_def map_filter_simps)
  then show ?thesis using raises by (simp add: check_account_thresholds_def)
qed

end
