(* ===== verification/Automod.thy ===== *)
theory Automod
  imports AutomodChecks Wiki
begin

section \<open>The actions of the automoderator\<close>

text \<open>
  Models the actions of \<open>r2/lib/automoderator.py\<close>: \<open>replace_placeholders\<close>, \<open>RuleTarget.perform_actions\<close>,
  \<open>Rule.perform_actions\<close>, \<open>Ruleset.apply_to_item\<close> and the consumer \<open>process_message\<close>, with
  \<open>PerformedRulesByThing\<close> of \<open>r2/models/automoderator.py\<close> and \<open>set_flair\<close> of links and accounts. The state
  extends the one of the theory \<open>AdminTools\<close>. The Python objects in \<open>data\<close> are live, so \<open>data\<close> is read again
  from the state before each use. New comments and messages and the calls of \<open>mark_performed\<close> are logged in
  \<open>aw_effects\<close>; what they do to inboxes and to the sticky comment of a link is not followed. The rows of \<open>PerformedRulesByThing\<close> expire after three days; the model has no expiry.
\<close>

datatype am_effect =
    PostedComment string "string option" string bool
  | SentModmail int string string
  | SentMessage int string string
  | Unnotified string
  | MarkedPerformed string string

record am_world = "post mworld" +
  aw_accounts :: "int \<Rightarrow> acct option"
  aw_subs :: "int \<Rightarrow> asub option"
  aw_rels :: rel_state
  aw_modlog :: "(int \<times> mod_action) list"
  aw_performed :: "(string, string) view"
  aw_effects :: "am_effect list"

subsection \<open>Reading and writing\<close>

definition author_of :: "run_env \<Rightarrow> item \<Rightarrow> am_world \<Rightarrow> acct result" where
  "author_of e t w = (case mt_author t of
     None \<Rightarrow> Inl (AttributeError ''author_id'')
   | Some a \<Rightarrow> (case aw_accounts w a of
       None \<Rightarrow> Inl NotFound
     | Some ac \<Rightarrow> Inr (if ac_deleted ac then rn_deleted_user e else ac)))"

definition sub_of :: "item \<Rightarrow> am_world \<Rightarrow> asub result" where
  "sub_of t w = (case mt_sr t of
     None \<Rightarrow> Inl (AttributeError ''sr_id'')
   | Some sr \<Rightarrow> (case aw_subs w sr of None \<Rightarrow> Inl NotFound | Some s \<Rightarrow> Inr s))"

definition item_data :: "run_env \<Rightarrow> string \<Rightarrow> am_world \<Rightarrow> (item \<times> am_data) result" where
  "item_data e name w =
     bindr (get_thing name w) (\<lambda>t. bindr (sub_of t w) (\<lambda>sub. bindr (author_of e t w) (\<lambda>author.
     if mt_class t = AComment
     then bindr (get_thing (po_link (mt_data t)) w) (\<lambda>l.
       Inr (t, \<lparr>da_sub = sub, da_author = author, da_link = Some l, da_is_submitter = Some (mt_author t = mt_author l),
              da_rels = aw_rels w\<rparr>))
     else Inr (t, \<lparr>da_sub = sub, da_author = author, da_link = None, da_is_submitter = None, da_rels = aw_rels w\<rparr>))))"

definition modaction_create :: "int \<Rightarrow> string \<Rightarrow> string \<Rightarrow> string option \<Rightarrow> am_world \<Rightarrow> am_world" where
  "modaction_create sr action target details w = w\<lparr>aw_modlog := aw_modlog w @ [(sr, (action, target, details))]\<rparr>"

definition effect :: "am_effect \<Rightarrow> am_world \<Rightarrow> am_world" where
  "effect x w = w\<lparr>aw_effects := aw_effects w @ [x]\<rparr>"

definition set_post :: "string \<Rightarrow> (post \<Rightarrow> post) \<Rightarrow> am_world \<Rightarrow> am_world" where
  "set_post name f w = (case mw_things w name of None \<Rightarrow> w | Some t \<Rightarrow> put_thing (t\<lparr>mt_data := f (mt_data t)\<rparr>) w)"

text \<open>\<open>PerformedRulesByThing\<close>.\<close>

definition mark_performed :: "string \<Rightarrow> am_rule \<Rightarrow> am_world \<Rightarrow> am_world" where
  "mark_performed name r w = effect (MarkedPerformed name (ru_unique_id r))
     (w\<lparr>aw_performed := view_set_values name [(ru_unique_id r, [])] (aw_performed w)\<rparr>)"

definition get_already_performed :: "string \<Rightarrow> am_world \<Rightarrow> string list" where
  "get_already_performed name w = (case view_values name (aw_performed w) of Inl _ \<Rightarrow> [] | Inr cols \<Rightarrow> map fst cols)"

subsection \<open>Placeholders\<close>

text \<open>\<open>str.replace\<close>, from left to right without overlaps; the fuel is the length of the string.\<close>

fun replace_loop :: "nat \<Rightarrow> string \<Rightarrow> string \<Rightarrow> string \<Rightarrow> string" where
  "replace_loop 0 old new s = s"
| "replace_loop (Suc n) old new [] = []"
| "replace_loop (Suc n) old new (c # cs) =
     (if startswith (c # cs) old then new @ replace_loop n old new (drop (length old) (c # cs))
      else c # replace_loop n old new cs)"

definition py_replace :: "string \<Rightarrow> string \<Rightarrow> string \<Rightarrow> string" where
  "py_replace old new s = replace_loop (length s) old new s"

definition force_unicode :: "string option \<Rightarrow> string" where
  "force_unicode x = (case x of None \<Rightarrow> [] | Some s \<Rightarrow> s)"

definition media_replacements :: "json \<Rightarrow> (string \<times> string) list" where
  "media_replacements media = (case media of
     JObj d \<Rightarrow> if json_true (json_get ''oembed'' d)
       then [(''{{media_author}}'', media_field ''author_name'' media), (''{{media_title}}'', media_field ''title'' media),
             (''{{media_description}}'', media_field ''description'' media), (''{{media_author_url}}'', media_field ''author_url'' media)]
       else []
   | _ \<Rightarrow> [])"

definition replacements :: "am_data \<Rightarrow> item \<Rightarrow> (string \<times> string) list" where
  "replacements d t =
     (let p = mt_data t; sr = sr_id (as_sub (da_sub d)); title = (case da_link d of None \<Rightarrow> [] | Some l \<Rightarrow> po_title (mt_data l)) in
      [(''{{author}}'', ac_name (da_author d)), (''{{body}}'', if has_body t then po_text p else []),
       (''{{subreddit}}'', as_name (da_sub d)),
       (''{{author_flair_text}}'', force_unicode (author_flair_text (da_author d) sr)),
       (''{{author_flair_css_class}}'', force_unicode (author_flair_css_class (da_author d) sr))] @
      (if mt_class t = AComment
       then [(''{{kind}}'', ''comment''), (''{{permalink}}'', po_permalink p), (''{{title}}'', title)]
       else [(''{{kind}}'', ''submission''), (''{{domain}}'', if po_is_self p then ''self'' else po_domain p),
             (''{{permalink}}'', po_permalink p), (''{{title}}'', po_title p), (''{{url}}'', po_url p)]) @
      media_replacements (media_of d t))"

text \<open>
  \<open>{{match}}\<close> and \<open>{{match-field}}\<close>: after the prefix either the end of the placeholder or a dash and the
  shortest name without digits and dashes before it.
\<close>

fun lazy_name :: "string \<Rightarrow> string \<Rightarrow> (string \<times> string) option" where
  "lazy_name acc [] = None"
| "lazy_name acc (c # cs) =
     (if acc \<noteq> [] \<and> startswith (c # cs) ''}}'' then Some (rev acc, drop 1 cs)
      else if is_digit c \<or> c = CHR ''-'' then None
      else lazy_name (c # acc) cs)"

definition unnumbered_at :: "string \<Rightarrow> (string \<times> string) option" where
  "unnumbered_at s =
     (if \<not> startswith s ''{{match'' then None
      else (let rest = drop 7 s in
        if startswith rest ''}}'' then Some (''match'', drop 2 rest)
        else (case rest of
            c # cs \<Rightarrow> if c = CHR ''-'' then map_option (\<lambda>(n, r). (''match-'' @ n, r)) (lazy_name [] cs) else None
          | [] \<Rightarrow> None)))"

fun sub_unnumbered :: "nat \<Rightarrow> string \<Rightarrow> string" where
  "sub_unnumbered 0 s = s"
| "sub_unnumbered (Suc n) [] = []"
| "sub_unnumbered (Suc n) (c # cs) = (case unnumbered_at (c # cs) of
     Some (name, rest) \<Rightarrow> ''{{'' @ name @ ''-1}}'' @ sub_unnumbered n rest
   | None \<Rightarrow> c # sub_unnumbered n cs)"

text \<open>\<open>{{match-12}}\<close> and \<open>{{match-field-12}}\<close>: the name is the shortest one that leaves a number.\<close>

definition number_at :: "string \<Rightarrow> (string \<times> string) option" where
  "number_at s = (let ds = takeWhile is_digit s; rest = drop (length ds) s
     in if ds \<noteq> [] \<and> startswith rest ''}}'' then Some (ds, drop 2 rest) else None)"

fun named_number_at :: "string \<Rightarrow> string \<Rightarrow> (string \<times> string \<times> string) option" where
  "named_number_at acc [] = None"
| "named_number_at acc (c # cs) =
     (case (if acc \<noteq> [] \<and> c = CHR ''-'' then number_at cs else None) of
        Some (ds, rest) \<Rightarrow> Some (rev acc, ds, rest)
      | None \<Rightarrow> if c = CHR ''}'' then None else named_number_at (c # acc) cs)"

definition numbered_at :: "string \<Rightarrow> (string option \<times> string \<times> string) option" where
  "numbered_at s =
     (if \<not> startswith s ''{{match-'' then None
      else (case named_number_at [] (drop 8 s) of
          Some (name, ds, rest) \<Rightarrow> Some (Some name, ds, rest)
        | None \<Rightarrow> map_option (\<lambda>(ds, rest). (None, ds, rest)) (number_at (drop 8 s))))"

fun find_numbered :: "nat \<Rightarrow> string \<Rightarrow> (string \<times> string option \<times> string) list" where
  "find_numbered 0 s = []"
| "find_numbered (Suc n) [] = []"
| "find_numbered (Suc n) (c # cs) = (case numbered_at (c # cs) of
     Some (name, ds, rest) \<Rightarrow> (take (length (c # cs) - length rest) (c # cs), name, ds) # find_numbered n rest
   | None \<Rightarrow> find_numbered n cs)"

definition source_match :: "matches \<Rightarrow> string option \<Rightarrow> string option list option" where
  "source_match ms name = (case name of None \<Rightarrow> Some (snd (hd ms)) | Some n \<Rightarrow> map_of ms n)"

definition field_replacement :: "matches \<Rightarrow> string \<times> string option \<times> string \<Rightarrow> (string \<times> string) option" where
  "field_replacement ms p = (case p of (placeholder, name, ds) \<Rightarrow> (case (source_match ms name, parse_digits 0 ds) of
     (Some groups, Some i) \<Rightarrow> if i < length groups then Some (placeholder, force_unicode (groups ! i)) else None
   | _ \<Rightarrow> None))"

definition replace_all :: "(string \<times> string) list \<Rightarrow> string \<Rightarrow> string" where
  "replace_all rs s = fold (\<lambda>(old, new). py_replace old new) rs s"

definition replace_placeholders :: "string \<Rightarrow> am_data \<Rightarrow> item \<Rightarrow> matches \<Rightarrow> string" where
  "replace_placeholders s d t ms =
     (let s1 = replace_all (replacements d t) s in
      if ms = [] then s1
      else (let s2 = sub_unnumbered (length s1) s1;
                found = List.map_filter (field_replacement ms) (find_numbered (length s2) s2)
            in replace_all (remdups found) s2))"

subsection \<open>Actions of a target on a post\<close>

text \<open>
  The steps of \<open>RuleTarget.perform_actions\<close>, in their order. \<open>name\<close> is the post the target applies to, \<open>item\<close>
  the post the rule was checked for, whose data the placeholders show.
\<close>

definition with_item ::
    "run_env \<Rightarrow> string \<Rightarrow> string \<Rightarrow> (item \<Rightarrow> item \<Rightarrow> am_data \<Rightarrow> am_world result) \<Rightarrow> am_world \<Rightarrow> am_world result" where
  "with_item e item name f w = bindr (item_data e item w) (\<lambda>(it, d). bindr (get_thing name w) (\<lambda>t. f it t d))"

definition action_reason :: "rule_target \<Rightarrow> am_data \<Rightarrow> item \<Rightarrow> matches \<Rightarrow> string option" where
  "action_reason rt d it ms = (case attr rt ''action_reason'' of
     JStr s \<Rightarrow> if s = [] then None else Some (replace_placeholders s d it ms) | _ \<Rightarrow> None)"

definition log_suffix :: "mclass \<Rightarrow> string" where
  "log_suffix k = (case k of ALink \<Rightarrow> ''link'' | AComment \<Rightarrow> ''comment'' | _ \<Rightarrow> [])"

definition should_approve :: "rule_target \<Rightarrow> am_data \<Rightarrow> item \<Rightarrow> bool" where
  "should_approve rt d t \<longleftrightarrow> attr rt ''action'' = JStr ''approve'' \<and>
     (mt_spam t \<and> \<not> bi_moderator_banned (mt_ban t) \<or> json_true (attr rt ''reports'') \<and> mt_reported t \<noteq> 0) \<and>
     (\<not> ac_spam (da_author d) \<or> rt_approve_banned rt)"

definition approve_step :: "run_env \<Rightarrow> int \<Rightarrow> rule_target \<Rightarrow> matches \<Rightarrow> string \<Rightarrow> string \<Rightarrow> am_world \<Rightarrow> am_world result" where
  "approve_step e now rt ms item name w = with_item e item name (\<lambda>it t d.
     if should_approve rt d t
     then bindr (unspam now [name] True (Some (rn_account_name e)) (mt_spam t) w) (\<lambda>w1.
       Inr (modaction_create (sr_id (as_sub (da_sub d))) (''approve'' @ log_suffix (mt_class t)) name
         (Some (case action_reason rt d it ms of Some r \<Rightarrow> r | None \<Rightarrow> if mt_spam t then ''unspam'' else ''approved'')) w1))
     else Inr w) w"

definition removes :: "rule_target \<Rightarrow> bool" where
  "removes rt \<longleftrightarrow> attr rt ''action'' \<in> {JStr ''remove'', JStr ''spam'', JStr ''filter''}"

definition remove_step :: "run_env \<Rightarrow> int \<Rightarrow> rule_target \<Rightarrow> matches \<Rightarrow> string \<Rightarrow> string \<Rightarrow> am_world \<Rightarrow> am_world result" where
  "remove_step e now rt ms item name w =
     (if removes rt
      then with_item e item name (\<lambda>it t d.
        let train = (attr rt ''action'' = JStr ''spam''); keep_in_modqueue = (attr rt ''action'' = JStr ''filter'') in
        bindr (spam now [name] keep_in_modqueue True (Banner (Some (rn_account_name e))) None train w) (\<lambda>w1.
          Inr (modaction_create (sr_id (as_sub (da_sub d))) (''remove'' @ log_suffix (mt_class t)) name
            (Some (case action_reason rt d it ms of Some r \<Rightarrow> r | None \<Rightarrow> if train then ''spam'' else ''remove''))
            (if mt_class t = AComment then effect (Unnotified name) w1 else w1)))) w
      else Inr w)"

definition report_step :: "run_env \<Rightarrow> int \<Rightarrow> rule_target \<Rightarrow> matches \<Rightarrow> string \<Rightarrow> string \<Rightarrow> am_world \<Rightarrow> am_world result" where
  "report_step e now rt ms item name w =
     (if attr rt ''action'' = JStr ''report''
      then with_item e item name (\<lambda>it t d. report_new (rn_account e) name (action_reason rt d it ms) w) w
      else Inr w)"

definition nsfw_step :: "run_env \<Rightarrow> int \<Rightarrow> rule_target \<Rightarrow> matches \<Rightarrow> string \<Rightarrow> string \<Rightarrow> am_world \<Rightarrow> am_world result" where
  "nsfw_step e now rt ms item name w = (case attr rt ''set_nsfw'' of
     JBool b \<Rightarrow> with_item e item name (\<lambda>it t d.
       if po_over_18 (mt_data t) \<noteq> b
       then Inr (modaction_create (sr_id (as_sub (da_sub d))) ''marknsfw'' name (if b then None else Some ''remove'')
                  (set_post name (\<lambda>p. p\<lparr>po_over_18 := b\<rparr>) w))
       else Inr w) w
   | _ \<Rightarrow> Inr w)"

definition contest_step :: "run_env \<Rightarrow> int \<Rightarrow> rule_target \<Rightarrow> matches \<Rightarrow> string \<Rightarrow> string \<Rightarrow> am_world \<Rightarrow> am_world result" where
  "contest_step e now rt ms item name w = (case attr rt ''set_contest_mode'' of
     JBool b \<Rightarrow> Inr (set_post name (\<lambda>p. p\<lparr>po_contest_mode := b\<rparr>) w)
   | _ \<Rightarrow> Inr w)"

definition lock_step :: "run_env \<Rightarrow> int \<Rightarrow> rule_target \<Rightarrow> matches \<Rightarrow> string \<Rightarrow> string \<Rightarrow> am_world \<Rightarrow> am_world result" where
  "lock_step e now rt ms item name w = (case attr rt ''set_locked'' of
     JBool b \<Rightarrow> with_item e item name (\<lambda>it t d.
       if po_locked (mt_data t) \<noteq> b
       then Inr (modaction_create (sr_id (as_sub (da_sub d))) (if b then ''lock'' else ''unlock'') name None
                  (set_post name (\<lambda>p. p\<lparr>po_locked := b\<rparr>) w))
       else Inr w) w
   | _ \<Rightarrow> Inr w)"

definition is_stickied :: "string \<Rightarrow> asub \<Rightarrow> bool" where
  "is_stickied name sub \<longleftrightarrow> (case as_stickies sub of None \<Rightarrow> False | Some xs \<Rightarrow> name \<in> set xs)"

definition sticky_slot :: "json \<Rightarrow> nat option" where
  "sticky_slot v = (case v of JNum n \<Rightarrow> Some (nat n) | _ \<Rightarrow> None)"

definition put_sub :: "asub \<Rightarrow> mod_action list \<Rightarrow> am_world \<Rightarrow> am_world" where
  "put_sub sub acts w = w\<lparr>aw_subs := (aw_subs w)(sr_id (as_sub sub) \<mapsto> sub),
     aw_modlog := aw_modlog w @ map (\<lambda>a. (sr_id (as_sub sub), a)) acts\<rparr>"

definition sticky_step :: "run_env \<Rightarrow> int \<Rightarrow> rule_target \<Rightarrow> matches \<Rightarrow> string \<Rightarrow> string \<Rightarrow> am_world \<Rightarrow> am_world result" where
  "sticky_step e now rt ms item name w =
     (let v = attr rt ''set_sticky'' in
      if v = JNull then Inr w
      else with_item e item name (\<lambda>it t d.
        let sub = da_sub d in
        if is_stickied name sub = json_true v then Inr w
        else (let (stickies, acts) = (if json_true v then set_sticky name True (sticky_slot v) (as_stickies sub)
                                      else remove_sticky name True (as_stickies sub))
              in Inr (put_sub (sub\<lparr>as_stickies := stickies\<rparr>) acts w))) w)"

definition sort_step :: "run_env \<Rightarrow> int \<Rightarrow> rule_target \<Rightarrow> matches \<Rightarrow> string \<Rightarrow> string \<Rightarrow> am_world \<Rightarrow> am_world result" where
  "sort_step e now rt ms item name w = (case attr rt ''set_suggested_sort'' of
     JStr s \<Rightarrow> with_item e item name (\<lambda>it t d.
       if po_suggested_sort (mt_data t) \<in> {None, Some []}
       then Inr (modaction_create (sr_id (as_sub (da_sub d))) ''setsuggestedsort'' name None
                  (set_post name (\<lambda>p. p\<lparr>po_suggested_sort := Some s\<rparr>) w))
       else Inr w) w
   | _ \<Rightarrow> Inr w)"

text \<open>The limits of the API on the text and the classes of a flair.\<close>

fun py_split :: "string \<Rightarrow> string \<Rightarrow> string list" where
  "py_split acc [] = (if acc = [] then [] else [rev acc])"
| "py_split acc (c # cs) = (if space_char c then (if acc = [] then [] else [rev acc]) @ py_split [] cs else py_split (c # acc) cs)"

definition limit_classes :: "string \<Rightarrow> string" where
  "limit_classes cls = join_with '' '' (map (take 100) (take 10 (py_split []
     (filter (\<lambda>c. word_char c \<or> c = CHR '' '' \<or> c = CHR ''-'') cls))))"

definition flair_part :: "string \<Rightarrow> json \<Rightarrow> string result" where
  "flair_part key v = (case v of
     JObj d \<Rightarrow> (case json_get key d of JStr s \<Rightarrow> Inr s | _ \<Rightarrow> Inl (AttributeError ''replace''))
   | _ \<Rightarrow> Inl (AttributeError ''replace''))"

definition flair_texts :: "rule_target \<Rightarrow> am_data \<Rightarrow> item \<Rightarrow> matches \<Rightarrow> (string \<times> string) result" where
  "flair_texts rt d it ms =
     bindr (flair_part ''text'' (attr rt ''set_flair'')) (\<lambda>text.
     bindr (flair_part ''class'' (attr rt ''set_flair'')) (\<lambda>cls.
     Inr (take 64 (replace_placeholders text d it ms), limit_classes (replace_placeholders cls d it ms))))"

definition overwrites :: "rule_target \<Rightarrow> bool" where
  "overwrites rt \<longleftrightarrow> json_true (attr rt ''overwrite_flair'')"

definition flair_step :: "run_env \<Rightarrow> int \<Rightarrow> rule_target \<Rightarrow> matches \<Rightarrow> string \<Rightarrow> string \<Rightarrow> am_world \<Rightarrow> am_world result" where
  "flair_step e now rt ms item name w =
     (if \<not> json_true (attr rt ''set_flair'') then Inr w
      else with_item e item name (\<lambda>it t d.
        let has_flair = (po_flair_text (mt_data t) \<notin> {None, Some []} \<or> po_flair_css_class (mt_data t) \<notin> {None, Some []}) in
        if mt_class t \<noteq> ALink \<or> has_flair \<and> \<not> overwrites rt then Inr w
        else bindr (flair_texts rt d it ms) (\<lambda>(text, cls).
          Inr (set_post name (\<lambda>p. p\<lparr>po_flair_text := Some text, po_flair_css_class := Some cls\<rparr>) w))) w)"

definition post_steps :: "(run_env \<Rightarrow> int \<Rightarrow> rule_target \<Rightarrow> matches \<Rightarrow> string \<Rightarrow> string \<Rightarrow> am_world \<Rightarrow> am_world result) list" where
  "post_steps = [approve_step, remove_step, report_step, nsfw_step, contest_step, lock_step, sticky_step, sort_step, flair_step]"

definition perform_on_post :: "run_env \<Rightarrow> int \<Rightarrow> rule_target \<Rightarrow> matches \<Rightarrow> string \<Rightarrow> string \<Rightarrow> am_world \<Rightarrow> am_world result" where
  "perform_on_post e now rt ms item name w = foldm (\<lambda>step. step e now rt ms item name) post_steps w"

subsection \<open>Actions on the author\<close>

definition account_set_flair :: "int \<Rightarrow> int \<Rightarrow> string \<Rightarrow> string \<Rightarrow> am_world \<Rightarrow> am_world" where
  "account_set_flair a sr text cls w = (case aw_accounts w a of
     None \<Rightarrow> w
   | Some ac \<Rightarrow>
       (let given = (text \<noteq> [] \<or> cls \<noteq> []) in
        w\<lparr>aw_accounts := (aw_accounts w)(a \<mapsto> ac\<lparr>
          ac_flair_text := (ac_flair_text ac)(sr := if given then Some text else None),
          ac_flair_css_class := (ac_flair_css_class ac)(sr := if given then Some cls else None),
          ac_is_flair := (ac_is_flair ac)(sr := given)\<rparr>)\<rparr>))"

definition perform_on_author :: "run_env \<Rightarrow> rule_target \<Rightarrow> matches \<Rightarrow> string \<Rightarrow> am_world \<Rightarrow> am_world result" where
  "perform_on_author e rt ms item w =
     (if \<not> json_true (attr rt ''set_flair'') then Inr w
      else bindr (item_data e item w) (\<lambda>(it, d).
        let ac = da_author d; sr = sr_id (as_sub (da_sub d)) in
        if ac_is_flair ac sr \<and> \<not> overwrites rt then Inr w
        else bindr (flair_texts rt d it ms) (\<lambda>(text, cls). Inr (account_set_flair (u_id (ac_user ac)) sr text cls w))))"

subsection \<open>Actions of a rule\<close>

definition build_message :: "run_env \<Rightarrow> string \<Rightarrow> am_data \<Rightarrow> item \<Rightarrow> matches \<Rightarrow> bool \<Rightarrow> bool \<Rightarrow> string result" where
  "build_message e text d it ms disclaimer permalink =
     (let nl = [CHR 0x0A, CHR 0x0A];
          m1 = (if disclaimer then text @ nl @ rn_disclaimer e else text);
          m2 = (if permalink \<and> \<not> contains ''{{permalink}}'' m1 then ''{{permalink}}'' @ nl @ m1 else m1)
      in case rn_markdown e (replace_placeholders m2 d it ms) of
           None \<Rightarrow> Inl (TypeError ''NoneType'')
         | Some m \<Rightarrow> Inr (take 10000 m))"

definition rule_text :: "am_rule \<Rightarrow> string \<Rightarrow> string" where
  "rule_text r key = (case rattr r key of JStr s \<Rightarrow> s | _ \<Rightarrow> [])"

definition comment_action :: "run_env \<Rightarrow> am_rule \<Rightarrow> matches \<Rightarrow> string \<Rightarrow> am_world \<Rightarrow> am_world result" where
  "comment_action e r ms item w =
     (if rule_text r ''comment'' = [] then Inr w
      else bindr (item_data e item w) (\<lambda>(it, d).
        bindr (build_message e (rule_text r ''comment'') d it ms True False) (\<lambda>msg.
          let is_comment = (mt_class it = AComment) in
          Inr (effect (PostedComment (if is_comment then po_link (mt_data it) else item) (if is_comment then Some item else None) msg
                 (json_true (rattr r ''comment_stickied'') \<and> \<not> is_comment)) w))))"

definition modmail_action :: "run_env \<Rightarrow> am_rule \<Rightarrow> matches \<Rightarrow> string \<Rightarrow> am_world \<Rightarrow> am_world result" where
  "modmail_action e r ms item w =
     (if rule_text r ''modmail'' = [] then Inr w
      else bindr (item_data e item w) (\<lambda>(it, d).
        bindr (build_message e (rule_text r ''modmail'') d it ms False True) (\<lambda>msg.
          Inr (effect (SentModmail (sr_id (as_sub (da_sub d)))
            (take 100 (replace_placeholders (rule_text r ''modmail_subject'') d it ms)) msg) w))))"

definition message_action :: "run_env \<Rightarrow> am_rule \<Rightarrow> matches \<Rightarrow> string \<Rightarrow> am_world \<Rightarrow> am_world result" where
  "message_action e r ms item w =
     (if rule_text r ''message'' = [] then Inr w
      else bindr (item_data e item w) (\<lambda>(it, d).
        if ac_deleted (da_author d) then Inr w
        else bindr (build_message e (rule_text r ''message'') d it ms True True) (\<lambda>msg.
          Inr (effect (SentMessage (u_id (ac_user (da_author d)))
            (take 100 (replace_placeholders (rule_text r ''message_subject'') d it ms)) msg) w))))"

definition author_action :: "run_env \<Rightarrow> am_rule \<Rightarrow> matches \<Rightarrow> string \<Rightarrow> am_world \<Rightarrow> am_world result" where
  "author_action e r ms item w = (case ru_author r of None \<Rightarrow> Inr w | Some rt \<Rightarrow> perform_on_author e rt ms item w)"

definition parent_action :: "run_env \<Rightarrow> int \<Rightarrow> am_rule \<Rightarrow> matches \<Rightarrow> string \<Rightarrow> am_world \<Rightarrow> am_world result" where
  "parent_action e now r ms item w = (case ru_parent_submission r of
     None \<Rightarrow> Inr w
   | Some rt \<Rightarrow> bindr (get_thing item w) (\<lambda>it. perform_on_post e now rt ms item (po_link (mt_data it)) w))"

text \<open>\<open>Rule.perform_actions\<close>.\<close>

definition rule_perform_actions :: "run_env \<Rightarrow> int \<Rightarrow> am_rule \<Rightarrow> matches \<Rightarrow> string \<Rightarrow> am_world \<Rightarrow> am_world result" where
  "rule_perform_actions e now r ms item w =
     bindr (author_action e r ms item w) (\<lambda>w1.
     bindr (parent_action e now r ms item w1) (\<lambda>w2.
     bindr (perform_on_post e now (ru_base r) ms item item w2) (\<lambda>w3.
     bindr (comment_action e r ms item w3) (\<lambda>w4.
     bindr (modmail_action e r ms item w4) (\<lambda>w5.
     bindr (message_action e r ms item w5) (\<lambda>w6.
     Inr (mark_performed item r w6)))))))"

subsection \<open>\<open>apply_to_item\<close>\<close>

definition skip_rule :: "string list \<Rightarrow> am_rule \<Rightarrow> bool" where
  "skip_rule already r \<longleftrightarrow> is_unrepeatable r \<and> ru_unique_id r \<in> set already"

text \<open>Check one rule and perform it when it applies; the first component says whether it did.\<close>

definition try_rule :: "run_env \<Rightarrow> int \<Rightarrow> string list \<Rightarrow> string \<Rightarrow> am_rule \<Rightarrow> am_world \<Rightarrow> (bool \<times> am_world) result" where
  "try_rule e now already item r w =
     (if skip_rule already r then Inr (False, w)
      else bindr (item_data e item w) (\<lambda>(it, d).
        bindr (rule_check_item e r d it) (\<lambda>(ok, ms).
          if ok then bindr (rule_perform_actions e now r ms item w) (\<lambda>w'. Inr (True, w')) else Inr (False, w))))"

fun removal_loop :: "run_env \<Rightarrow> int \<Rightarrow> string list \<Rightarrow> string \<Rightarrow> am_rule list \<Rightarrow> am_world \<Rightarrow> am_world result" where
  "removal_loop e now already item [] w = Inr w"
| "removal_loop e now already item (r # rs) w =
     bindr (try_rule e now already item r w) (\<lambda>(acted, w'). if acted then Inr w' else removal_loop e now already item rs w')"

fun nonremoval_loop :: "run_env \<Rightarrow> int \<Rightarrow> string list \<Rightarrow> string \<Rightarrow> am_rule list \<Rightarrow> am_world \<Rightarrow> am_world result" where
  "nonremoval_loop e now already item [] w = Inr w"
| "nonremoval_loop e now already item (r # rs) w =
     bindr (try_rule e now already item r w) (\<lambda>p. nonremoval_loop e now already item rs (snd p))"

definition apply_to_item :: "run_env \<Rightarrow> int \<Rightarrow> am_rule list \<Rightarrow> string \<Rightarrow> am_world \<Rightarrow> am_world result" where
  "apply_to_item e now rules item w =
     bindr (item_data e item w) (\<lambda>_.
       let already = get_already_performed item w in
       bindr (removal_loop e now already item (removal_rules rules) w)
             (nonremoval_loop e now already item (nonremoval_rules rules)))"

subsection \<open>The consumer of the queue\<close>

text \<open>
  \<open>process_message\<close>, with the rules of each subreddit and when they were read. Errors of the syntax of a page
  are caught, any other exception of \<open>Ruleset\<close> leaves the consumer; an exception (or the time limit) while
  the rules are applied is printed, and what was done until then stays.
\<close>

record am_proc =
  pr_world :: am_world
  pr_wiki :: wstore
  pr_rules :: "int \<Rightarrow> (int \<times> am_rule list) option"

datatype am_outcome =
    Ignored
  | InvalidConfig
  | Checked
  | ErrorPrinted py_error
  | Escaped am_error

definition config_page :: string where
  "config_page = ''config/automoderator''"

definition last_edited :: "int \<Rightarrow> asub \<Rightarrow> wstore \<Rightarrow> int option" where
  "last_edited now sub wk = fst (last_modified now (''WikiPage_'' @ wiki_id (as_id36 sub) config_page) ''Edit'' False (wk_modified wk))"

datatype rules_result = Rules "am_rule list" | BadConfig | RulesError am_error

definition current_rules :: "run_env \<Rightarrow> int \<Rightarrow> int \<Rightarrow> asub \<Rightarrow> am_proc \<Rightarrow> rules_result \<times> am_proc" where
  "current_rules e now edited sub p =
     (let key = sr_id (as_sub sub) in
      case (case pr_rules p key of None \<Rightarrow> None | Some (init_time, rules) \<Rightarrow> if edited > init_time then None else Some rules) of
        Some rules \<Rightarrow> (Rules rules, p)
      | None \<Rightarrow> (case page_get (as_id36 sub) config_page (pr_wiki p) of
          Inl _ \<Rightarrow> (RulesError (AmPyError NotFound), p)
        | Inr page \<Rightarrow> (case ruleset_init (rn_env e) (wp_content page) of
            Inl (AutoModeratorSyntaxError _) \<Rightarrow> (BadConfig, p)
          | Inl (AutoModeratorRuleTypeError _) \<Rightarrow> (BadConfig, p)
          | Inl err \<Rightarrow> (RulesError err, p)
          | Inr rules \<Rightarrow> (Rules rules, p\<lparr>pr_rules := (pr_rules p)(key \<mapsto> (now, rules))\<rparr>))))"

definition process_item :: "run_env \<Rightarrow> int \<Rightarrow> am_rule list \<Rightarrow> string \<Rightarrow> am_proc \<Rightarrow> am_outcome \<times> am_proc" where
  "process_item e now rules fullname p =
     (if rules = [] then (Ignored, p)
      else (case apply_to_item e now rules fullname (pr_world p) of
          Inl err \<Rightarrow> (ErrorPrinted err, p)
        | Inr w \<Rightarrow> (Checked, p\<lparr>pr_world := w\<rparr>)))"

definition process_message :: "run_env \<Rightarrow> bool \<Rightarrow> int \<Rightarrow> string \<Rightarrow> am_proc \<Rightarrow> am_outcome \<times> am_proc" where
  "process_message e has_account now fullname p =
     (if \<not> has_account then (Ignored, p)
      else (case get_thing fullname (pr_world p) of
          Inl err \<Rightarrow> (Escaped (AmPyError err), p)
        | Inr t \<Rightarrow>
            if mt_class t \<notin> {ALink, AComment} then (Ignored, p)
            else (case sub_of t (pr_world p) of
                Inl err \<Rightarrow> (Escaped (AmPyError err), p)
              | Inr sub \<Rightarrow> (case last_edited now sub (pr_wiki p) of
                  None \<Rightarrow> (Ignored, p)
                | Some edited \<Rightarrow> (case current_rules e now edited sub p of
                    (Rules rules, p') \<Rightarrow> process_item e now rules fullname p'
                  | (BadConfig, p') \<Rightarrow> (InvalidConfig, p')
                  | (RulesError err, p') \<Rightarrow> (Escaped err, p'))))))"

end
