(* ===== verification/AutomodFrame.thy ===== *)
theory AutomodFrame
  imports Automod
begin

section \<open>What the actions of the automoderator leave alone\<close>

text \<open>
  Frame conditions for the operations of the theories \<open>AdminTools\<close> and \<open>Automod\<close>: which things an operation
  may change, which parts of a thing never change, and that only \<open>mark_performed\<close> records a rule as performed.
\<close>

subsection \<open>Removing, approving and reporting\<close>

definition thing_id :: "'d mthing \<Rightarrow> string \<times> mclass \<times> int option \<times> int option \<times> bool \<times> 'd" where
  "thing_id t = (mt_name t, mt_class t, mt_author t, mt_sr t, mt_promoted t, mt_data t)"

definition named_things :: "('d, 'z) mworld_scheme \<Rightarrow> bool" where
  "named_things w \<longleftrightarrow> (\<forall>n t. mw_things w n = Some t \<longrightarrow> mt_name t = n)"

text \<open>Only the things named in \<open>S\<close> change, and of them only the fields of moderation.\<close>

definition changes_only :: "string set \<Rightarrow> ('d, 'z) mworld_scheme \<Rightarrow> ('d, 'z) mworld_scheme \<Rightarrow> bool" where
  "changes_only S w w' \<longleftrightarrow> mworld.more w' = mworld.more w \<and>
     (\<forall>n. map_option thing_id (mw_things w' n) = map_option thing_id (mw_things w n)) \<and>
     (\<forall>n. n \<notin> S \<longrightarrow> mw_things w' n = mw_things w n)"

lemma changes_only_refl [simp]: "changes_only S w w"
  by (simp add: changes_only_def)

lemma changes_only_trans: "changes_only S w w' \<Longrightarrow> changes_only S w' w'' \<Longrightarrow> changes_only S w w''"
  by (simp add: changes_only_def)

lemma changes_only_mono: "changes_only S w w' \<Longrightarrow> S \<subseteq> S' \<Longrightarrow> changes_only S' w w'"
  by (auto simp: changes_only_def)

lemma changes_only_same:
  "mworld.more w' = mworld.more w \<Longrightarrow> mw_things w' = mw_things w \<Longrightarrow> changes_only S w w'"
  by (simp add: changes_only_def)

lemma changes_only_named: "named_things w \<Longrightarrow> changes_only S w w' \<Longrightarrow> named_things w'"
  unfolding named_things_def changes_only_def
proof (intro allI impI)
  fix n t
  assume w: "\<forall>n t. mw_things w n = Some t \<longrightarrow> mt_name t = n" and t: "mw_things w' n = Some t"
    and "mworld.more w' = mworld.more w \<and> (\<forall>n. map_option thing_id (mw_things w' n) = map_option thing_id (mw_things w n)) \<and>
      (\<forall>n. n \<notin> S \<longrightarrow> mw_things w' n = mw_things w n)"
  then have "map_option thing_id (mw_things w n) = Some (thing_id t)" by (metis option.simps(9))
  then show "mt_name t = n" using w by (auto simp: thing_id_def)
qed

lemma changes_only_put:
  assumes "mw_things w n = Some t" "thing_id t' = thing_id t" "mt_name t = n"
  shows "changes_only {n} w (put_thing t' w)"
  using assms by (simp add: changes_only_def put_thing_def thing_id_def)

lemma log_call_frame [simp]: "changes_only S w (log_call c w') \<longleftrightarrow> changes_only S w w'"
  by (simp add: changes_only_def log_call_def)

lemma changes_only_update [simp]:
  "changes_only S w (w'\<lparr>mw_spammer := x\<rparr>) \<longleftrightarrow> changes_only S w w'"
  "changes_only S w (w'\<lparr>mw_sr_actions := y\<rparr>) \<longleftrightarrow> changes_only S w w'"
  "changes_only S w (w'\<lparr>mw_reports := z\<rparr>) \<longleftrightarrow> changes_only S w w'"
  "changes_only S w (w'\<lparr>mw_author_reports := x'\<rparr>) \<longleftrightarrow> changes_only S w w'"
  by (simp_all add: changes_only_def)

interpretation mod_frame: frame_relation named_things "changes_only S" for S
  by unfold_locales (auto intro: changes_only_trans changes_only_named)

lemma clear_reported_frame: "changes_only {n} w (clear_reported n w)"
  by (auto simp: changes_only_def clear_reported_def thing_id_def split: option.splits)

lemma fold_clear_frame: "set ns \<subseteq> S \<Longrightarrow> changes_only S w (fold clear_reported ns w)"
proof (induction ns arbitrary: w)
  case (Cons n ns)
  have "changes_only S w (clear_reported n w)" using changes_only_mono [OF clear_reported_frame, of n S w] Cons.prems by simp
  then show ?case using Cons.IH [of "clear_reported n w"] Cons.prems by (simp add: changes_only_trans)
qed simp

lemma accept_class_frame:
  assumes "mt_name ` set ts \<subseteq> S"
  shows "changes_only S w (accept_class c ts k w)"
proof -
  let ?names = "map mt_name (filter (\<lambda>t. mt_class t = k) ts)" and ?w1 = "w\<lparr>mw_reports := settle_rows (map mt_name (filter (\<lambda>t. mt_class t = k) ts)) c (mw_reports w)\<rparr>"
  have "changes_only S ?w1 (fold clear_reported ?names ?w1)" using assms by (intro fold_clear_frame) auto
  moreover have "changes_only S w ?w1" by (rule changes_only_same) simp_all
  ultimately have "changes_only S w (fold clear_reported ?names ?w1)" using changes_only_trans by blast
  then show ?thesis by (simp add: accept_class_def Let_def)
qed

lemma fold_accept_frame: "mt_name ` set ts \<subseteq> S \<Longrightarrow> changes_only S w (fold (accept_class c ts) ks w)"
proof (induction ks arbitrary: w)
  case (Cons k ks)
  then show ?case using accept_class_frame [OF Cons.prems, of w c k] changes_only_trans by fastforce
qed simp

lemma mapr_get_thing: "mapr (\<lambda>n. get_thing n w) names = Inr ts \<Longrightarrow> named_things w \<Longrightarrow> map mt_name ts = names"
  by (induction names arbitrary: ts) (auto simp: bindr_eq_Inr_iff get_thing_eq named_things_def)

lemma report_accept_frame:
  assumes "named_things w" "report_accept names c w = Inr w'"
  shows "changes_only (set names) w w'"
proof -
  obtain ts where ts: "mapr (\<lambda>n. get_thing n w) names = Inr ts" and w': "w' = fold (accept_class c ts) (remdups (map mt_class ts)) w"
    using assms(2) by (auto simp: report_accept_def bindr_eq_Inr_iff)
  have "mt_name ` set ts = set names" using mapr_get_thing [OF ts assms(1)] by (metis list.set_map)
  then show ?thesis unfolding w' by (intro fold_accept_frame) simp
qed

lemma mark_spam_frame:
  assumes "named_things w" "mark_spam auto mb bnr d train n w = Inr w'"
  shows "changes_only {n} w w'"
proof -
  obtain t where t: "mw_things w n = Some t" "mt_name t = n"
    using assms by (auto simp: mark_spam_def bindr_eq_Inr_iff get_thing_eq named_things_def)
  show ?thesis
    using assms(2) changes_only_put [OF t(1) _ t(2)] t(1)
    by (auto simp: mark_spam_def bindr_eq_Inr_iff get_thing_def Let_def thing_id_def split: if_splits)
qed

lemma mark_unspam_frame:
  assumes "named_things w" "mark_unspam now mu unb n w = Inr w'"
  shows "changes_only {n} w w'"
proof -
  obtain t where t: "mw_things w n = Some t" "mt_name t = n"
    using assms by (auto simp: mark_unspam_def bindr_eq_Inr_iff get_thing_eq named_things_def)
  show ?thesis
    using assms(2) changes_only_put [OF t(1) _ t(2)] t(1)
    by (auto simp: mark_unspam_def bindr_eq_Inr_iff get_thing_def Let_def thing_id_def split: mclass.splits)
qed

lemma author_spammer_frame: "author_spammer names b w = Inr w' \<Longrightarrow> changes_only S w w'"
  by (auto simp: author_spammer_def bindr_eq_Inr_iff Let_def incr_spammer_def split: option.splits
      elim!: foldm_preserves [where P = "changes_only S w", rotated 2])

lemma set_last_sr_ban_frame: "set_last_sr_ban now names w = Inr w' \<Longrightarrow> changes_only S w w'"
  by (auto simp: set_last_sr_ban_def bindr_eq_Inr_iff Let_def touch_sr_def split: option.splits
      elim!: foldm_preserves [where P = "changes_only S w", rotated 2])

lemma removed_queue_frame: "changes_only S w (fold (removed_queue auto) ts w)"
proof (induction ts arbitrary: w)
  case (Cons t ts)
  have "changes_only S w (removed_queue auto t w)" by (auto simp: removed_queue_def Let_def split: mclass.splits)
  then show ?case using Cons [of "removed_queue auto t w"] changes_only_trans by auto
qed simp

lemma spam_frame:
  assumes "named_things w" "spam now names auto mb bnr date train w = Inr w'"
  shows "changes_only (set names) w w'"
  using assms(2)
proof (rule spamE)
  fix ts w1 w2 w3
  assume w1: "report_accept names True w = Inr w1"
    and w2: "foldm (mark_spam auto mb bnr (case date of None \<Rightarrow> now | Some d \<Rightarrow> d) train) names w1 = Inr w2"
    and w3: "(if auto then Inr w2 else bindr (author_spammer (map mt_name (filter (\<lambda>t. \<not> mt_spam t) ts)) True w2)
       (set_last_sr_ban now (map mt_name (filter (\<lambda>t. \<not> mt_spam t) ts)))) = Inr w3"
    and w': "w' = fold (removed_queue auto) ts (log_call (BanListings names auto) w3)"
  have f1: "changes_only (set names) w w1" by (rule report_accept_frame [OF assms(1) w1])
  have f2: "changes_only (set names) w1 w2"
    by (rule mod_frame.foldm_frame [OF _ changes_only_named [OF assms(1) f1] w2])
      (use mark_spam_frame changes_only_mono in fastforce)
  have "changes_only (set names) w2 w3"
  proof (cases auto)
    case False
    then obtain w4 where "author_spammer (map mt_name (filter (\<lambda>t. \<not> mt_spam t) ts)) True w2 = Inr w4"
      "set_last_sr_ban now (map mt_name (filter (\<lambda>t. \<not> mt_spam t) ts)) w4 = Inr w3" using w3 by (auto simp: bindr_eq_Inr_iff)
    then show ?thesis using author_spammer_frame set_last_sr_ban_frame changes_only_trans by blast
  qed (use w3 in simp)
  then have "changes_only (set names) w (log_call (BanListings names auto) w3)" using f1 f2 changes_only_trans by (simp, blast)
  then show ?thesis unfolding w' using removed_queue_frame changes_only_trans by blast
qed

lemma unspam_single_steps:
  fixes w :: "('d, 'z) mworld_scheme"
  assumes "named_things w" "unspam now [n] mu unb ins w = Inr w'"
  obtains w1 w2 w3 w4 where "report_accept [n] False w = Inr w1" "mark_unspam now mu unb n w1 = Inr w2"
    "author_spammer [n] False w2 = Inr w3" "set_last_sr_ban now [n] w3 = Inr w4" "w' = log_call (UnbanListings [n] ins) w4"
  using assms(2)
proof (rule unspamE)
  fix ts :: "'d mthing list" and w1 w2 w3 w4
  assume ts: "mapr (\<lambda>n. get_thing n w) [n] = Inr ts" and steps: "report_accept (to_unspam ts) False w = Inr w1"
    "foldm (mark_unspam now mu unb) (to_unspam ts) w1 = Inr w2" "author_spammer (to_unspam ts) False w2 = Inr w3"
    "set_last_sr_ban now (to_unspam ts) w3 = Inr w4" "w' = log_call (UnbanListings (to_unspam ts) ins) w4"
  obtain t where "ts = [t]" "mw_things w n = Some t" using ts by (auto simp: bindr_eq_Inr_iff get_thing_eq)
  then have "to_unspam ts = [n]" using assms(1) by (auto simp: to_unspam_def named_things_def)
  then show thesis using that steps by (auto simp: bindr_eq_Inr_iff)
qed

lemma unspam_frame:
  assumes "named_things w" "unspam now [n] mu unb ins w = Inr w'"
  shows "changes_only {n} w w'"
proof -
  obtain w1 w2 w3 w4 where w1: "report_accept [n] False w = Inr w1" and w2: "mark_unspam now mu unb n w1 = Inr w2"
    and w3: "author_spammer [n] False w2 = Inr w3" and w4: "set_last_sr_ban now [n] w3 = Inr w4"
    and w': "w' = log_call (UnbanListings [n] ins) w4"
    using unspam_single_steps [OF assms] by metis
  have f1: "changes_only {n} w w1" using report_accept_frame [OF assms(1) w1] by simp
  have f2: "changes_only {n} w1 w2" by (rule mark_unspam_frame [OF changes_only_named [OF assms(1) f1] w2])
  have "changes_only {n} w2 w4" using author_spammer_frame [OF w3] set_last_sr_ban_frame [OF w4] changes_only_trans by blast
  then show ?thesis unfolding w' using f1 f2 changes_only_trans by (simp, blast)
qed

lemma report_new_frame:
  assumes "named_things w" "report_new u n x w = Inr w'"
  shows "changes_only {n} w w'"
proof (cases "report_exists u n (mw_reports w)")
  case True
  then show ?thesis using assms(2) by (auto simp: report_new_def bindr_eq_Inr_iff)
next
  case False
  obtain t where t: "mw_things w n = Some t" "mt_name t = n"
    using assms by (auto simp: report_new_def bindr_eq_Inr_iff get_thing_eq named_things_def)
  obtain w3 where w3: "mw_things w3 = mw_things (put_thing (t\<lparr>mt_reported := mt_reported t + 1\<rparr>) w)" "mworld.more w3 = mworld.more w"
    "(if mt_ignore_reports t then Inr w3 else if mt_spam t then report_accept [n] True (log_call (NewReport n) w3)
      else Inr (log_call (NewReport n) w3)) = Inr w'"
    using report_newE [OF assms(2) t(1) False] by metis
  have f3: "changes_only {n} w w3" using w3(1,2) t by (simp add: changes_only_def thing_id_def)
  then have f4: "changes_only {n} w (log_call (NewReport n) w3)" by simp
  have "changes_only {n} (log_call (NewReport n) w3) w''" if "report_accept [n] True (log_call (NewReport n) w3) = Inr w''" for w''
    using report_accept_frame [OF changes_only_named [OF assms(1) f4] that] by simp
  then show ?thesis using w3(3) f3 f4 changes_only_trans [OF f4] by (auto split: if_splits)
qed

subsection \<open>Actions on posts\<close>

definition is_marked :: "am_effect \<Rightarrow> bool" where
  "is_marked x \<longleftrightarrow> (case x of MarkedPerformed _ _ \<Rightarrow> True | _ \<Rightarrow> False)"

definition marked :: "am_world \<Rightarrow> am_effect list" where
  "marked w = filter is_marked (aw_effects w)"

text \<open>What no action changes in a post: among other things its class, its author and the link it belongs to.\<close>

definition post_id :: "item \<Rightarrow> string \<times> mclass \<times> int option \<times> int option \<times> bool \<times> string \<times> bool" where
  "post_id t = (mt_name t, mt_class t, mt_author t, mt_sr t, mt_promoted t, po_link (mt_data t), po_is_self (mt_data t))"

definition acts_on :: "string set \<Rightarrow> am_world \<Rightarrow> am_world \<Rightarrow> bool" where
  "acts_on S w w' \<longleftrightarrow>
     marked w' = marked w \<and> aw_performed w' = aw_performed w \<and>
     dom (aw_accounts w) \<subseteq> dom (aw_accounts w') \<and> dom (aw_subs w) \<subseteq> dom (aw_subs w') \<and>
     (\<forall>n. map_option post_id (mw_things w' n) = map_option post_id (mw_things w n)) \<and>
     (\<forall>n. n \<notin> S \<longrightarrow> mw_things w' n = mw_things w n)"

lemma acts_on_refl [simp]: "acts_on S w w"
  by (simp add: acts_on_def)

lemma acts_on_trans:
  assumes "acts_on S w w'" "acts_on S w' w''"
  shows "acts_on S w w''"
proof -
  have "dom (aw_accounts w) \<subseteq> dom (aw_accounts w'')" "dom (aw_subs w) \<subseteq> dom (aw_subs w'')"
    using assms unfolding acts_on_def by blast+
  then show ?thesis using assms unfolding acts_on_def by simp
qed

lemma acts_on_mono: "acts_on S w w' \<Longrightarrow> S \<subseteq> S' \<Longrightarrow> acts_on S' w w'"
  by (auto simp: acts_on_def)

lemma acts_on_thing: "acts_on S w w' \<Longrightarrow> mw_things w n = Some t \<Longrightarrow> \<exists>t'. mw_things w' n = Some t' \<and> post_id t' = post_id t"
  unfolding acts_on_def by (metis map_option_eq_Some)

lemma acts_on_named:
  assumes "named_things w" "acts_on S w w'"
  shows "named_things w'"
  unfolding named_things_def
proof (intro allI impI)
  fix n t assume t: "mw_things w' n = Some t"
  then have "map_option post_id (mw_things w n) = Some (post_id t)" using assms(2) by (metis acts_on_def option.simps(9))
  then show "mt_name t = n" using assms(1) by (auto simp: post_id_def named_things_def)
qed

lemma more_eq:
  fixes w w' :: am_world
  assumes "mworld.more w' = mworld.more w"
  shows "aw_effects w' = aw_effects w" "aw_performed w' = aw_performed w" "aw_accounts w' = aw_accounts w"
    "aw_subs w' = aw_subs w" "aw_rels w' = aw_rels w" "aw_modlog w' = aw_modlog w"
  using assms by (cases w; cases w'; simp)+

lemma acts_on_changes_only:
  assumes "changes_only S w w'"
  shows "acts_on S w w'"
proof -
  have "map_option post_id (mw_things w' n) = map_option post_id (mw_things w n)" for n
  proof -
    have "map_option thing_id (mw_things w' n) = map_option thing_id (mw_things w n)" using assms by (simp add: changes_only_def)
    then show ?thesis
      by (cases "mw_things w' n"; cases "mw_things w n") (auto simp: thing_id_def post_id_def)
  qed
  then show ?thesis using assms more_eq [of w' w] by (simp add: acts_on_def changes_only_def marked_def)
qed

lemma acts_on_update [simp]:
  "acts_on S w (modaction_create sr a n d w') \<longleftrightarrow> acts_on S w w'"
  "acts_on S w w' \<Longrightarrow> acts_on S w (put_sub sub acts w')"
  by (auto simp: acts_on_def modaction_create_def put_sub_def marked_def)

lemma acts_on_effect: "\<not> is_marked x \<Longrightarrow> acts_on S w (effect x w') \<longleftrightarrow> acts_on S w w'"
  by (simp add: acts_on_def effect_def marked_def)

lemma acts_on_set_post:
  assumes "named_things w" "\<And>p. po_link (f p) = po_link p \<and> po_is_self (f p) = po_is_self p"
  shows "acts_on {n} w (set_post n f w)"
  using assms by (auto simp: set_post_def acts_on_def marked_def put_thing_def named_things_def post_id_def split: option.splits)

lemma with_itemE:
  assumes "with_item e item name f w = Inr w'"
  obtains it d t where "item_data e item w = Inr (it, d)" "mw_things w name = Some t" "f it t d = Inr w'"
  using assms by (auto simp: with_item_def bindr_eq_Inr_iff get_thing_eq)

definition frame_step :: "(run_env \<Rightarrow> int \<Rightarrow> rule_target \<Rightarrow> matches \<Rightarrow> string \<Rightarrow> string \<Rightarrow> am_world \<Rightarrow> am_world result) \<Rightarrow> bool" where
  "frame_step f \<longleftrightarrow> (\<forall>e now rt ms item n w w'. named_things w \<longrightarrow> f e now rt ms item n w = Inr w' \<longrightarrow> acts_on {n} w w')"

lemma approve_frame: "frame_step approve_step"
  unfolding frame_step_def approve_step_def
  by (auto elim!: with_itemE simp: bindr_eq_Inr_iff acts_on_changes_only dest!: unspam_frame [rotated] split: if_splits)

lemma remove_stepE:
  assumes "remove_step e now rt ms item n w = Inr w'" "removes rt"
  obtains auto train b w1 sr k r where "spam now [n] auto True (Banner b) None train w = Inr w1"
    "w' = modaction_create sr (''remove'' @ log_suffix k) n r (if k = AComment then effect (Unnotified n) w1 else w1)"
proof -
  obtain it d t where "(let train = (attr rt ''action'' = JStr ''spam''); keep_in_modqueue = (attr rt ''action'' = JStr ''filter'') in
        bindr (spam now [n] keep_in_modqueue True (Banner (Some (rn_account_name e))) None train w) (\<lambda>w1.
          Inr (modaction_create (sr_id (as_sub (da_sub d))) (''remove'' @ log_suffix (mt_class (t :: item))) n
            (Some (case action_reason rt d it ms of Some r \<Rightarrow> r | None \<Rightarrow> if train then ''spam'' else ''remove''))
            (if mt_class t = AComment then effect (Unnotified n) w1 else w1)))) = Inr w'"
    using assms by (simp add: remove_step_def) (erule with_itemE)
  then show ?thesis using that unfolding Let_def bindr_eq_Inr_iff sum.inject by metis
qed

lemma remove_frame: "frame_step remove_step"
  unfolding frame_step_def
proof (intro allI impI)
  fix e now rt ms item n w w' assume w: "named_things w" "remove_step e now rt ms item n w = Inr w'"
  show "acts_on {n} w w'"
  proof (cases "removes rt")
    case True
    obtain auto train b w1 sr k r where w1: "spam now [n] auto True (Banner b) None train w = Inr w1"
      and w': "w' = modaction_create sr (''remove'' @ log_suffix k) n r (if k = AComment then effect (Unnotified n) w1 else w1)"
      using remove_stepE [OF w(2) True] by metis
    have "acts_on {n} w w1" using acts_on_changes_only [OF spam_frame [OF w(1) w1]] by simp
    then show ?thesis unfolding w' by (simp add: acts_on_effect is_marked_def)
  qed (use w(2) in \<open>simp add: remove_step_def\<close>)
qed

lemma report_frame: "frame_step report_step"
  unfolding frame_step_def report_step_def
  by (auto elim!: with_itemE simp: acts_on_changes_only dest!: report_new_frame [rotated] split: if_splits)

lemma quiet_frames:
  "frame_step nsfw_step" "frame_step contest_step" "frame_step lock_step" "frame_step sticky_step" "frame_step sort_step"
  "frame_step flair_step"
  unfolding frame_step_def nsfw_step_def contest_step_def lock_step_def sticky_step_def sort_step_def flair_step_def
  by (auto elim!: with_itemE simp: bindr_eq_Inr_iff Let_def case_prod_beta split: json.splits if_splits intro!: acts_on_set_post)

lemma post_steps_frame: "step \<in> set post_steps \<Longrightarrow> frame_step step"
  using approve_frame remove_frame report_frame quiet_frames by (auto simp: post_steps_def)

interpretation act_frame: frame_relation named_things "acts_on S" for S
  by unfold_locales (auto intro: acts_on_trans acts_on_named)

lemma perform_on_post_frame:
  assumes "named_things w" "perform_on_post e now rt ms item n w = Inr w'"
  shows "acts_on {n} w w'"
  by (rule act_frame.foldm_frame [OF _ assms(1) assms(2) [unfolded perform_on_post_def]])
    (use post_steps_frame in \<open>unfold frame_step_def, blast\<close>)

lemma author_action_frame: "author_action e r ms item w = Inr w' \<Longrightarrow> acts_on S w w'"
  by (auto simp: author_action_def perform_on_author_def bindr_eq_Inr_iff Let_def case_prod_beta account_set_flair_def acts_on_def
      marked_def split: option.splits if_splits)

lemma parent_action_frame:
  assumes "named_things w" "parent_action e now r ms item w = Inr w'" "mw_things w item = Some t"
  shows "acts_on {po_link (mt_data t)} w w'"
  using assms(2,3) perform_on_post_frame [OF assms(1)]
  by (auto simp: parent_action_def bindr_eq_Inr_iff get_thing_def split: option.splits)

lemma message_actions_frame:
  "comment_action e r ms item w = Inr w' \<Longrightarrow> acts_on S w w'"
  "modmail_action e r ms item w = Inr w' \<Longrightarrow> acts_on S w w'"
  "message_action e r ms item w = Inr w' \<Longrightarrow> acts_on S w w'"
  by (auto simp: comment_action_def modmail_action_def message_action_def bindr_eq_Inr_iff Let_def acts_on_effect is_marked_def
      split: if_splits)

text \<open>The actions of a rule, up to the base target and after it.\<close>

lemma rule_perform_actionsE:
  assumes "rule_perform_actions e now r ms item w = Inr w'" "named_things w" "mw_things w item = Some t"
  obtains w2 w3 w6 where "acts_on {po_link (mt_data t)} w w2" "named_things w2"
    "perform_on_post e now (ru_base r) ms item item w2 = Inr w3" "acts_on {} w3 w6" "w' = mark_performed item r w6"
proof -
  obtain w1 w2 w3 w4 w5 w6 where w1: "author_action e r ms item w = Inr w1" and w2: "parent_action e now r ms item w1 = Inr w2"
    and w3: "perform_on_post e now (ru_base r) ms item item w2 = Inr w3" and w4: "comment_action e r ms item w3 = Inr w4"
    and w5: "modmail_action e r ms item w4 = Inr w5" and w6: "message_action e r ms item w5 = Inr w6"
    and w': "w' = mark_performed item r w6"
    using assms(1) unfolding rule_perform_actions_def bindr_eq_Inr_iff by auto
  have f1: "acts_on {} w w1" by (rule author_action_frame [OF w1])
  have n1: "named_things w1" by (rule acts_on_named [OF assms(2) f1])
  have "mw_things w1 item = Some t" using f1 assms(3) by (simp add: acts_on_def)
  then have f2: "acts_on {po_link (mt_data t)} w w2"
    using parent_action_frame [OF n1 w2] acts_on_mono [OF f1] acts_on_trans by blast
  have "acts_on {} w3 w6"
    using message_actions_frame(1) [OF w4] message_actions_frame(2) [OF w5] message_actions_frame(3) [OF w6] acts_on_trans by blast
  then show ?thesis using that f2 acts_on_named [OF assms(2) f2] w3 w' by blast
qed

lemma rule_perform_frame:
  assumes "rule_perform_actions e now r ms item w = Inr w'" "named_things w" "mw_things w item = Some t"
  obtains w6 where "acts_on {item, po_link (mt_data t)} w w6" "w' = mark_performed item r w6"
proof -
  let ?S = "{item, po_link (mt_data t)}"
  obtain w2 w3 w6 where w: "acts_on {po_link (mt_data t)} w w2" "named_things w2"
    "perform_on_post e now (ru_base r) ms item item w2 = Inr w3" "acts_on {} w3 w6" "w' = mark_performed item r w6"
    using rule_perform_actionsE [OF assms] by metis
  have "acts_on ?S w w2" "acts_on ?S w2 w3" "acts_on ?S w3 w6"
    using acts_on_mono [OF w(1), of ?S] acts_on_mono [OF perform_on_post_frame [OF w(2,3)], of ?S] acts_on_mono [OF w(4), of ?S] by simp_all
  then show ?thesis using that w(5) acts_on_trans by blast
qed

subsection \<open>The moderation state of posts\<close>

definition mod_state :: "item \<Rightarrow> bool \<times> ban_info" where
  "mod_state t = (mt_spam t, mt_ban t)"

definition keeps_mod :: "am_world \<Rightarrow> am_world \<Rightarrow> bool" where
  "keeps_mod w w' \<longleftrightarrow> (\<forall>n. map_option mod_state (mw_things w' n) = map_option mod_state (mw_things w n))"

lemma keeps_mod_trans: "keeps_mod w w' \<Longrightarrow> keeps_mod w' w'' \<Longrightarrow> keeps_mod w w''"
  by (simp add: keeps_mod_def)

lemma keeps_mod_update [simp]:
  "keeps_mod w (modaction_create sr a n d w') \<longleftrightarrow> keeps_mod w w'" "keeps_mod w (put_sub sub acts w') \<longleftrightarrow> keeps_mod w w'"
  "keeps_mod w (effect x w') \<longleftrightarrow> keeps_mod w w'" "keeps_mod w w"
  by (simp_all add: keeps_mod_def modaction_create_def put_sub_def effect_def)

lemma keeps_mod_set_post: "named_things w \<Longrightarrow> keeps_mod w (set_post n f w)"
  by (auto simp: set_post_def keeps_mod_def put_thing_def named_things_def mod_state_def split: option.splits)

definition quiet_steps :: "(run_env \<Rightarrow> int \<Rightarrow> rule_target \<Rightarrow> matches \<Rightarrow> string \<Rightarrow> string \<Rightarrow> am_world \<Rightarrow> am_world result) list" where
  "quiet_steps = [nsfw_step, contest_step, lock_step, sticky_step, sort_step, flair_step]"

lemma quiet_step_keeps:
  assumes "step \<in> set quiet_steps" "named_things w" "step e now rt ms item n w = Inr w'"
  shows "keeps_mod w w'"
  using assms unfolding quiet_steps_def
  by (auto elim!: with_itemE simp: nsfw_step_def contest_step_def lock_step_def sticky_step_def sort_step_def flair_step_def
      bindr_eq_Inr_iff Let_def case_prod_beta split: json.splits if_splits intro!: keeps_mod_set_post)

interpretation quiet_frame: frame_relation named_things "\<lambda>w w'. acts_on S w w' \<and> keeps_mod w w'" for S
  by unfold_locales (auto intro: acts_on_trans acts_on_named keeps_mod_trans)

lemma quiet_steps_keep:
  assumes "named_things w" "foldm (\<lambda>step. step e now rt ms item n) quiet_steps w = Inr w'"
  shows "keeps_mod w w'"
proof -
  have "acts_on {n} w w' \<and> keeps_mod w w'"
  proof (rule quiet_frame.foldm_frame [OF _ assms])
    fix step u u' assume step: "step \<in> set quiet_steps" "named_things u" "step e now rt ms item n u = Inr u'"
    have "step \<in> set post_steps" using step(1) by (auto simp: quiet_steps_def post_steps_def)
    then show "acts_on {n} u u' \<and> keeps_mod u u'"
      using post_steps_frame quiet_step_keeps [OF step] step(2,3) unfolding frame_step_def by blast
  qed
  then show ?thesis by simp
qed

text \<open>The steps of a target: approve, remove, report, then the steps that leave the moderation state alone.\<close>

lemma perform_on_postE:
  assumes "perform_on_post e now rt ms item n w = Inr w'" "named_things w"
  obtains w1 w2 w3 where "approve_step e now rt ms item n w = Inr w1" "remove_step e now rt ms item n w1 = Inr w2"
    "report_step e now rt ms item n w2 = Inr w3" "keeps_mod w3 w'" "named_things w1" "named_things w2" "named_things w3"
    "acts_on {n} w w1"
proof -
  have steps: "post_steps = approve_step # remove_step # report_step # quiet_steps" by (simp add: post_steps_def quiet_steps_def)
  obtain w1 w2 w3 where w: "approve_step e now rt ms item n w = Inr w1" "remove_step e now rt ms item n w1 = Inr w2"
    "report_step e now rt ms item n w2 = Inr w3" "foldm (\<lambda>step. step e now rt ms item n) quiet_steps w3 = Inr w'"
    using assms(1) unfolding perform_on_post_def steps by (auto simp: bindr_eq_Inr_iff)
  have n1: "acts_on {n} w w1" using approve_frame w(1) assms(2) unfolding frame_step_def by blast
  have n2: "acts_on {n} w1 w2" using remove_frame w(2) acts_on_named [OF assms(2) n1] unfolding frame_step_def by blast
  have nw2: "named_things w2" using acts_on_named [OF acts_on_named [OF assms(2) n1] n2] .
  have n3: "acts_on {n} w2 w3" using report_frame w(3) nw2 unfolding frame_step_def by blast
  have nw3: "named_things w3" by (rule acts_on_named [OF nw2 n3])
  show ?thesis using that [OF w(1-3) quiet_steps_keep [OF nw3 w(4)]] n1 nw2 nw3 acts_on_named [OF assms(2) n1] by blast
qed

end
