(* ===== verification/AutomodSafety.thy ===== *)
theory AutomodSafety
  imports AutomodFrame
begin

section \<open>Properties of the automoderator\<close>

text \<open>
  Which rules act on a post: posts that a moderator removed are left alone, posts that another moderator
  approved are not removed, a removal ends the processing, and a rule that posts or messages acts at most once
  on a post.
\<close>

subsection \<open>An example\<close>

text \<open>A subreddit with one post, one rule that removes posts and one that comments; every search finds something.\<close>

definition sample_post :: post where
  "sample_post = \<lparr>po_id36 = ''1'', po_parent = None, po_link = [], po_is_self = True, po_title = ''buy this'', po_url = [], po_domain = [],
     po_text = ''text'', po_editted = False, po_media = JNull, po_over_18 = False, po_contest_mode = False, po_locked = False,
     po_suggested_sort = None, po_flair_text = None, po_flair_css_class = None, po_permalink = ''/1''\<rparr>"

definition sample_asub :: asub where
  "sample_asub = \<lparr>as_sub = sample_subreddit ''public'', as_id36 = ''1'', as_name = ''pics'', as_stickies = None\<rparr>"

definition sample_am_world :: "item \<Rightarrow> am_world" where
  "sample_am_world t = \<lparr>mw_things = [''t3_1'' \<mapsto> t], mw_spammer = [7 \<mapsto> 0], mw_author_reports = [7 \<mapsto> 0],
     mw_sr_actions = [1 \<mapsto> (None, 0)], mw_reports = [], mw_calls = [],
     aw_accounts = [7 \<mapsto> sample_acct], aw_subs = [1 \<mapsto> sample_asub], aw_rels = empty_rels, aw_modlog = [], aw_performed = (\<lambda>_. []),
     aw_effects = []\<rparr>"

definition hit_env :: run_env where
  "hit_env = sample_run_env\<lparr>rn_env := sample_am_env\<lparr>ae_search := (\<lambda>_ _ _. Some [Some ''buy''])\<rparr>\<rparr>"

definition sample_rules :: "run_env \<Rightarrow> am_rule list" where
  "sample_rules e = (case ruleset_init (rn_env e) sample_page of Inr rs \<Rightarrow> rs | Inl _ \<Rightarrow> [])"

lemma sample_named: "mt_name t = ''t3_1'' \<Longrightarrow> named_things (sample_am_world t)"
  by (simp add: named_things_def sample_am_world_def)

lemma sample_item_data:
  assumes "mt_class t = ALink" "mt_author t = Some 7" "mt_sr t = Some 1"
  shows "item_data e ''t3_1'' (sample_am_world t) = Inr (t, \<lparr>da_sub = sample_asub, da_author = sample_acct, da_link = None,
    da_is_submitter = None, da_rels = empty_rels\<rparr>)"
  using assms by (simp add: item_data_def get_thing_def sub_of_def author_of_def sample_am_world_def sample_acct_def)

subsection \<open>Removals\<close>

lemma spam_removes:
  assumes "named_things w" "mw_things w n = Some t" "\<not> mt_promoted t" "spam now [n] auto True (Banner b) None train w = Inr w'"
  shows "\<exists>t'. mw_things w' n = Some t' \<and> mt_spam t' \<and> bi_moderator_banned (mt_ban t')"
  using assms(4)
proof (rule spamE)
  fix ts w1 w2 w3
  assume w1: "report_accept [n] True w = Inr w1"
    and "foldm (mark_spam auto True (Banner b) (case None of None \<Rightarrow> now | Some d \<Rightarrow> d) train) [n] w1 = Inr w2"
    and w3: "(if auto then Inr w2 else bindr (author_spammer (map mt_name (filter (\<lambda>t. \<not> mt_spam t) ts)) True w2)
       (set_last_sr_ban now (map mt_name (filter (\<lambda>t. \<not> mt_spam t) ts)))) = Inr w3"
    and w': "w' = fold (removed_queue auto) ts (log_call (BanListings [n] auto) w3)"
  then have w2: "mark_spam auto True (Banner b) now train n w1 = Inr w2" by (auto simp: bindr_eq_Inr_iff)
  have "map_option thing_id (mw_things w1 n) = Some (thing_id t)"
    using report_accept_frame [OF assms(1) w1] assms(2) by (simp add: changes_only_def)
  then obtain t1 where t1: "mw_things w1 n = Some t1" "mt_name t1 = n" "\<not> mt_promoted t1"
    using assms(1-3) by (auto simp: thing_id_def named_things_def)
  have "mw_things w2 n = Some (spam_thing auto True b now train t1)"
    using mark_spam_single [OF t1, of auto True b now train] w2 by (metis Inr_inject)
  moreover have "mw_things w3 = mw_things w2"
    using w3 author_spammer_frame [where S = "{}"] set_last_sr_ban_frame [where S = "{}"]
    by (cases auto) (fastforce simp: bindr_eq_Inr_iff changes_only_def fun_eq_iff)+
  moreover have "mw_things w' = mw_things w3"
    using removed_queue_frame [of "{}" "log_call (BanListings [n] auto) w3" auto ts] by (simp add: w' changes_only_def fun_eq_iff)
  ultimately show ?thesis by simp
qed

lemma acts_on_promoted: "acts_on S w w' \<Longrightarrow> mw_things w n = Some t \<Longrightarrow> \<exists>t'. mw_things w' n = Some t' \<and> mt_promoted t' = mt_promoted t"
  using acts_on_thing by (fastforce simp: post_id_def)

lemma keeps_mod_thing: "keeps_mod w w' \<Longrightarrow> mw_things w n = Some t \<Longrightarrow> \<exists>t'. mw_things w' n = Some t' \<and> mod_state t' = mod_state t"
  unfolding keeps_mod_def by (metis map_option_eq_Some)

lemma remove_step_removes:
  assumes "named_things w" "mw_things w n = Some t" "\<not> mt_promoted t" "removes rt" "remove_step e now rt ms item n w = Inr w'"
  shows "\<exists>t'. mw_things w' n = Some t' \<and> removed_by_moderator t'"
proof -
  obtain auto train b w1 sr k r where w1: "spam now [n] auto True (Banner b) None train w = Inr w1"
    and w': "w' = modaction_create sr (''remove'' @ log_suffix k) n r (if k = AComment then effect (Unnotified n) w1 else w1)"
    using remove_stepE [OF assms(5,4)] by metis
  have "mw_things w' = mw_things w1" by (simp add: w' modaction_create_def effect_def)
  then show ?thesis using spam_removes [OF assms(1-3) w1] by (simp add: removed_by_moderator_def)
qed

lemma approve_step_other: "approve_step e now rt ms item n w = Inr w' \<Longrightarrow> attr rt ''action'' \<noteq> JStr ''approve'' \<Longrightarrow> w' = w"
  by (auto simp: approve_step_def should_approve_def elim!: with_itemE split: if_splits)

lemma base_removal:
  assumes "perform_on_post e now rt ms item n w = Inr w'" "named_things w" "removes rt" "mw_things w n = Some t" "\<not> mt_promoted t"
  shows "\<exists>t'. mw_things w' n = Some t' \<and> removed_by_moderator t'"
proof -
  obtain w1 w2 w3 where w: "approve_step e now rt ms item n w = Inr w1" "remove_step e now rt ms item n w1 = Inr w2"
    "report_step e now rt ms item n w2 = Inr w3" "keeps_mod w3 w'"
    using perform_on_postE [OF assms(1,2)] by metis
  have act: "attr rt ''action'' \<noteq> JStr ''approve''" "attr rt ''action'' \<noteq> JStr ''report''" using assms(3) by (auto simp: removes_def)
  have "w1 = w" by (rule approve_step_other [OF w(1) act(1)])
  then have "\<exists>t'. mw_things w2 n = Some t' \<and> removed_by_moderator t'"
    using remove_step_removes [OF assms(2,4,5,3)] w(2) by simp
  moreover have "w3 = w2" using w(3) act(2) by (simp add: report_step_def)
  ultimately show ?thesis using keeps_mod_thing [OF w(4)] by (fastforce simp: removed_by_moderator_def mod_state_def)
qed

lemma removes_base: "is_removal_rule r \<longleftrightarrow> removes (ru_base r)"
  by (auto simp: is_removal_rule_def removes_def)

lemma mark_performed_things [simp]: "mw_things (mark_performed n r w) = mw_things w" "aw_accounts (mark_performed n r w) = aw_accounts w"
  "aw_subs (mark_performed n r w) = aw_subs w" "aw_rels (mark_performed n r w) = aw_rels w"
  by (simp_all add: mark_performed_def effect_def)

lemma removal_rule_removes:
  assumes "rule_perform_actions e now r ms item w = Inr w'" "named_things w" "is_removal_rule r"
    and "mw_things w item = Some t" "\<not> mt_promoted t"
  shows "\<exists>t'. mw_things w' item = Some t' \<and> removed_by_moderator t'"
proof -
  obtain w2 w3 w6 where w: "acts_on {po_link (mt_data t)} w w2" "named_things w2"
    "perform_on_post e now (ru_base r) ms item item w2 = Inr w3" "acts_on {} w3 w6" "w' = mark_performed item r w6"
    using rule_perform_actionsE [OF assms(1,2,4)] by metis
  obtain t2 where "mw_things w2 item = Some t2" "\<not> mt_promoted t2" using acts_on_promoted [OF w(1) assms(4)] assms(5) by blast
  then have "\<exists>t'. mw_things w3 item = Some t' \<and> removed_by_moderator t'"
    using base_removal [OF w(3,2)] assms(3) by (simp add: removes_base)
  then show ?thesis using w(4,5) by (simp add: acts_on_def)
qed

subsection \<open>Trying a rule\<close>

lemma item_data_thing: "item_data e n w = Inr (it, d) \<Longrightarrow> mw_things w n = Some it"
  by (auto simp: item_data_def bindr_eq_Inr_iff get_thing_eq split: if_splits)

lemma author_of_defined: "author_of e t w = Inr a \<Longrightarrow> mt_author t' = mt_author t \<Longrightarrow> dom (aw_accounts w) \<subseteq> dom (aw_accounts w') \<Longrightarrow>
    \<exists>a'. author_of e t' w' = Inr a'"
  by (fastforce simp: author_of_def split: option.splits)

lemma sub_of_defined: "sub_of t w = Inr s \<Longrightarrow> mt_sr t' = mt_sr t \<Longrightarrow> dom (aw_subs w) \<subseteq> dom (aw_subs w') \<Longrightarrow> \<exists>s'. sub_of t' w' = Inr s'"
  by (fastforce simp: sub_of_def split: option.splits)

text \<open>What \<open>apply_to_item\<close> collects can still be read after the actions.\<close>

lemma item_data_defined:
  assumes "item_data e n w = Inr (it, d)" "acts_on S w w'"
  shows "\<exists>it' d'. item_data e n w' = Inr (it', d')"
proof -
  have it: "mw_things w n = Some it" by (rule item_data_thing [OF assms(1)])
  obtain it' where it': "mw_things w' n = Some it'" "post_id it' = post_id it" using acts_on_thing [OF assms(2) it] by blast
  obtain a s where "author_of e it w = Inr a" "sub_of it w = Inr s"
    using assms(1) it by (auto simp: item_data_def bindr_eq_Inr_iff get_thing_def split: if_splits)
  then obtain a' s' where as: "author_of e it' w' = Inr a'" "sub_of it' w' = Inr s'"
    using author_of_defined [of e it w a it' w'] sub_of_defined [of it w s it' w'] it'(2) assms(2)
    by (auto simp: post_id_def acts_on_def)
  show ?thesis
  proof (cases "mt_class it = AComment")
    case True
    then obtain l where "mw_things w (po_link (mt_data it)) = Some l"
      using assms(1) it by (auto simp: item_data_def bindr_eq_Inr_iff get_thing_def split: if_splits option.splits)
    then obtain l' where "mw_things w' (po_link (mt_data it')) = Some l'"
      using acts_on_thing [OF assms(2)] it'(2) by (fastforce simp: post_id_def)
    then show ?thesis using it' as True by (simp add: item_data_def get_thing_def post_id_def)
  next
    case False
    then show ?thesis using it' as by (simp add: item_data_def get_thing_def post_id_def)
  qed
qed

lemma try_ruleE:
  assumes "try_rule e now already item r w = Inr (True, w')"
  obtains it d ms where "\<not> skip_rule already r" "item_data e item w = Inr (it, d)" "rule_check_item e r d it = Inr (True, ms)"
    "rule_perform_actions e now r ms item w = Inr w'"
  using assms by (auto simp: try_rule_def bindr_eq_Inr_iff split: if_splits)

lemma try_rule_not_acted: "try_rule e now already item r w = Inr (False, w') \<Longrightarrow> w' = w"
  by (auto simp: try_rule_def bindr_eq_Inr_iff split: if_splits)

lemma check_item_should: "rule_check_item e r d it = Inr (True, ms) \<Longrightarrow> should_check_item e r d it"
  by (auto simp: rule_check_item_def split: if_splits)

lemma try_rule_refused:
  assumes "item_data e item w = Inr (it, d)" "\<not> should_check_item e r d it"
  shows "try_rule e now already item r w = Inr (False, w)"
  using assms by (simp add: try_rule_def rule_check_item_def)

lemma removed_refused: "removed_by_moderator it \<Longrightarrow> \<not> should_check_item e r d it"
  by (simp add: should_check_item_def)

lemma loops_refused:
  assumes "item_data e item w = Inr (it, d)" "\<forall>r \<in> set rs. \<not> should_check_item e r d it"
  shows "removal_loop e now already item rs w = Inr w" "nonremoval_loop e now already item rs w = Inr w"
  using assms(2) by (induction rs) (simp_all add: try_rule_refused [OF assms(1)])

lemma item_data_marked: "item_data e n (mark_performed m r w) = item_data e n w"
  unfolding item_data_def get_thing_def author_of_def sub_of_def mark_performed_things ..

lemma removal_loop_first:
  assumes "\<forall>r' \<in> set pre. try_rule e now already item r' w = Inr (False, w)" "try_rule e now already item r w = Inr (True, w')"
  shows "removal_loop e now already item (pre @ r # rs) w = Inr w'"
  using assms by (induction pre) simp_all

text \<open>
  Removed posts are left alone. When a moderator (or the automoderator) has removed a post, applying any
  rules to it changes nothing.
\<close>

lemma removed_post_left_alone:
  assumes "item_data e item w = Inr (it, d)" "removed_by_moderator it"
  shows "apply_to_item e now rules item w = Inr w"
  using assms loops_refused [OF assms(1)] removed_refused [OF assms(2)] by (simp add: apply_to_item_def Let_def)

text \<open>
  A removal ends the processing. The first removal rule that applies is performed and no other one; the
  post is then removed by a moderator, so that none of the other rules is performed either, whatever they
  say. (The comment in the code announces that all other rules are checked regardless.) Promoted posts, which
  are never marked as removed, are left out.
\<close>

lemma removal_ends_processing:
  assumes "named_things w" "removal_rules rules = pre @ r # rs"
    and "\<forall>r' \<in> set pre. try_rule e now (get_already_performed item w) item r' w = Inr (False, w)"
    and "try_rule e now (get_already_performed item w) item r w = Inr (True, w')"
    and "mw_things w item = Some t" "\<not> mt_promoted t"
  shows "apply_to_item e now rules item w = Inr w' \<and> (\<exists>t'. mw_things w' item = Some t' \<and> removed_by_moderator t')"
proof -
  obtain it d ms where acted: "item_data e item w = Inr (it, d)" "rule_perform_actions e now r ms item w = Inr w'"
    using try_ruleE [OF assms(4)] by metis
  have "is_removal_rule r" using arg_cong [OF assms(2), of set] by (auto simp: removal_rules_def)
  then obtain t' where t': "mw_things w' item = Some t'" "removed_by_moderator t'"
    using removal_rule_removes [OF acted(2) assms(1) _ assms(5,6)] by blast
  obtain w6 where w6: "acts_on {item, po_link (mt_data t)} w w6" "w' = mark_performed item r w6"
    using rule_perform_frame [OF acted(2) assms(1,5)] by metis
  obtain d' where d': "item_data e item w' = Inr (t', d')"
    using item_data_defined [OF acted(1) w6(1)] item_data_thing t'(1) unfolding w6(2) item_data_marked by fastforce
  have "nonremoval_loop e now (get_already_performed item w) item (nonremoval_rules rules) w' = Inr w'"
    using loops_refused(2) [OF d'] removed_refused [OF t'(2)] by blast
  then show ?thesis
    using removal_loop_first [OF assms(3,4), of rs] assms(2) acted(1) t' by (simp add: apply_to_item_def Let_def)
qed

lemma sample_first_rule:
  "case removal_rules (sample_rules hit_env) of [] \<Rightarrow> False
   | r # rs \<Rightarrow> rs = [] \<and> (case try_rule hit_env 5 [] ''t3_1'' r (sample_am_world (sample_mthing sample_post)) of Inl _ \<Rightarrow> False | Inr p \<Rightarrow> fst p)"
  by code_simp

subsection \<open>Posts that are not removed\<close>

lemma accept_class_keeps: "keeps_mod w (accept_class c ts k w)"
  unfolding accept_class_def Let_def keeps_mod_def log_call_sel fold_clear_reported_things
  by (auto simp: option.map_comp comp_def mod_state_def intro!: map_option_cong)

lemma report_accept_keeps: "report_accept names c w = Inr w' \<Longrightarrow> keeps_mod w w'"
proof -
  have "keeps_mod w (fold (accept_class c ts) ks w)" for ts ks
  proof (induction ks arbitrary: w)
    case (Cons k ks)
    then show ?case using accept_class_keeps keeps_mod_trans by fastforce
  qed simp
  then show "report_accept names c w = Inr w' \<Longrightarrow> keeps_mod w w'" by (auto simp: report_accept_def bindr_eq_Inr_iff)
qed

lemma report_new_keeps:
  assumes "named_things w" "report_new u n x w = Inr w'"
  shows "keeps_mod w w'"
proof (cases "report_exists u n (mw_reports w)")
  case True
  then show ?thesis using assms(2) by (auto simp: report_new_def bindr_eq_Inr_iff)
next
  case False
  obtain t where t: "mw_things w n = Some t" "mt_name t = n"
    using assms by (auto simp: report_new_def bindr_eq_Inr_iff get_thing_eq named_things_def)
  obtain w3 where w3: "mw_things w3 = mw_things (put_thing (t\<lparr>mt_reported := mt_reported t + 1\<rparr>) w)"
    "(if mt_ignore_reports t then Inr w3 else if mt_spam t then report_accept [n] True (log_call (NewReport n) w3)
      else Inr (log_call (NewReport n) w3)) = Inr w'"
    using report_newE [OF assms(2) t(1) False] by metis
  have keep: "keeps_mod w w3" "keeps_mod w (log_call (NewReport n) w3)"
    using w3(1) t by (simp_all add: keeps_mod_def mod_state_def)
  show ?thesis using w3(2) keep keeps_mod_trans [OF keep(2) report_accept_keeps] by (auto split: if_splits)
qed

text \<open>A target that does not remove leaves a post that is not removed so.\<close>

definition not_removed :: "string \<Rightarrow> am_world \<Rightarrow> bool" where
  "not_removed n w \<longleftrightarrow> (\<exists>t. mw_things w n = Some t \<and> \<not> mt_spam t)"

lemma not_removed_keeps: "keeps_mod w w' \<Longrightarrow> not_removed n w \<Longrightarrow> not_removed n w'"
  unfolding not_removed_def using keeps_mod_thing by (fastforce simp: mod_state_def)

lemma not_removed_acts: "acts_on S w w' \<Longrightarrow> n \<notin> S \<Longrightarrow> not_removed n w \<Longrightarrow> not_removed n w'"
  by (simp add: not_removed_def acts_on_def)

lemma unspam_not_removed:
  assumes "named_things w" "unspam now [n] mu unb ins w = Inr w'"
  shows "\<exists>t. mw_things w' n = Some t \<and> \<not> mt_spam t"
proof -
  obtain w1 w2 w3 w4 where w1: "report_accept [n] False w = Inr w1" and w2: "mark_unspam now mu unb n w1 = Inr w2"
    and w3: "author_spammer [n] False w2 = Inr w3" and w4: "set_last_sr_ban now [n] w3 = Inr w4"
    and w': "w' = log_call (UnbanListings [n] ins) w4"
    using unspam_single_steps [OF assms] by metis
  have n1: "named_things w1" by (rule changes_only_named [OF assms(1) report_accept_frame [OF assms(1) w1]])
  obtain t1 where t1: "mw_things w1 n = Some t1" using w2 by (auto simp: mark_unspam_def bindr_eq_Inr_iff get_thing_eq)
  then have "mt_name t1 = n" using n1 by (simp add: named_things_def)
  then have "mw_things w2 n = Some (unspam_thing now mu unb t1)" using mark_unspam_single [OF t1, of now mu unb] w2 by (metis Inr_inject)
  moreover have "mw_things w4 = mw_things w2"
    using author_spammer_frame [OF w3, of "{}"] set_last_sr_ban_frame [OF w4, of "{}"] by (simp add: changes_only_def fun_eq_iff)
  ultimately show ?thesis by (simp add: w')
qed

lemma approve_step_not_removed:
  assumes "approve_step e now rt ms item n w = Inr w'" "named_things w" "not_removed n w"
  shows "not_removed n w'"
  using assms unspam_not_removed [OF assms(2)]
  by (auto simp: approve_step_def bindr_eq_Inr_iff not_removed_def modaction_create_def elim!: with_itemE split: if_splits)

lemma perform_not_removed:
  assumes "perform_on_post e now rt ms item n w = Inr w'" "named_things w" "\<not> removes rt" "not_removed n w"
  shows "not_removed n w'"
proof -
  obtain w1 w2 w3 where w: "approve_step e now rt ms item n w = Inr w1" "remove_step e now rt ms item n w1 = Inr w2"
    "report_step e now rt ms item n w2 = Inr w3" "keeps_mod w3 w'" "named_things w2"
    using perform_on_postE [OF assms(1,2)] by metis
  have "not_removed n w1" by (rule approve_step_not_removed [OF w(1) assms(2,4)])
  then have "not_removed n w2" using w(2) assms(3) by (simp add: remove_step_def)
  moreover have "keeps_mod w2 w3"
    using w(3) report_new_keeps [OF w(5)] by (auto simp: report_step_def elim!: with_itemE split: if_splits)
  ultimately show ?thesis using w(4) not_removed_keeps by blast
qed

definition own_post :: "string \<Rightarrow> am_world \<Rightarrow> bool" where
  "own_post n w \<longleftrightarrow> named_things w \<and> (\<exists>t. mw_things w n = Some t \<and> po_link (mt_data t) \<noteq> n)"

lemma own_post_acts: "own_post n w \<Longrightarrow> acts_on S w w' \<Longrightarrow> own_post n w'"
  unfolding own_post_def using acts_on_named acts_on_thing by (fastforce simp: post_id_def)

lemma own_post_marked [simp]: "own_post n (mark_performed m r w) = own_post n w" "not_removed n (mark_performed m r w) = not_removed n w"
  by (simp_all add: own_post_def named_things_def not_removed_def)

lemma rule_not_removing:
  assumes "rule_perform_actions e now r ms item w = Inr w'" "\<not> is_removal_rule r" "own_post item w" "not_removed item w"
  shows "own_post item w' \<and> not_removed item w'"
proof -
  obtain t where t: "named_things w" "mw_things w item = Some t" "po_link (mt_data t) \<noteq> item" using assms(3) by (auto simp: own_post_def)
  obtain w2 w3 w6 where w: "acts_on {po_link (mt_data t)} w w2" "named_things w2"
    "perform_on_post e now (ru_base r) ms item item w2 = Inr w3" "acts_on {} w3 w6" "w' = mark_performed item r w6"
    using rule_perform_actionsE [OF assms(1) t(1,2)] by metis
  have "not_removed item w2" using not_removed_acts [OF w(1) _ assms(4)] t(3) by simp
  then have "not_removed item w3" using perform_not_removed [OF w(3,2)] assms(2) by (simp add: removes_base)
  moreover have "own_post item w6"
    using own_post_acts [OF own_post_acts [OF own_post_acts [OF assms(3) w(1)] perform_on_post_frame [OF w(2,3)]] w(4)] .
  ultimately show ?thesis using not_removed_acts [OF w(4)] w(5) by simp
qed

lemma nonremoval_loop_not_removing:
  assumes "nonremoval_loop e now already item rs w = Inr w'" "\<forall>r \<in> set rs. \<not> is_removal_rule r" "own_post item w" "not_removed item w"
  shows "not_removed item w'"
  using assms
proof (induction rs arbitrary: w)
  case (Cons r rs)
  then obtain acted w1 where w1: "try_rule e now already item r w = Inr (acted, w1)" "nonremoval_loop e now already item rs w1 = Inr w'"
    by (auto simp: bindr_eq_Inr_iff)
  have "own_post item w1 \<and> not_removed item w1"
  proof (cases acted)
    case True
    then obtain ms where "rule_perform_actions e now r ms item w = Inr w1" using w1(1) try_ruleE by metis
    then show ?thesis using rule_not_removing Cons.prems by simp
  next
    case False
    then have "w1 = w" using try_rule_not_acted w1(1) by simp
    then show ?thesis using Cons.prems by simp
  qed
  then show ?case using Cons.IH [OF w1(2)] Cons.prems(2) by simp
qed simp

lemma protected_refused:
  assumes "approved_by_other e it \<or> data_is_moderator d (da_author d) \<and> is_inapplicable_to_mods r" "is_removal_rule r"
  shows "\<not> should_check_item e r d it"
  using assms by (auto simp: should_check_item_def)


lemma sample_approved_runs:
  "case apply_to_item hit_env 5 (sample_rules hit_env) ''t3_1''
     (sample_am_world (unspam_thing 4 True (Some ''carol'') (sample_mthing sample_post))) of Inl _ \<Rightarrow> False | Inr w \<Rightarrow> length (aw_effects w) = 2"
  by code_simp


subsection \<open>Rules that act once\<close>

definition marks :: "am_world \<Rightarrow> string \<Rightarrow> string \<Rightarrow> nat" where
  "marks w item u = count_list (marked w) (MarkedPerformed item u)"

definition performed_ok :: "am_world \<Rightarrow> bool" where
  "performed_ok w \<longleftrightarrow> (\<forall>item u. marks w item u > 0 \<longrightarrow> u \<in> set (get_already_performed item w))"

lemma marks_acts: "acts_on S w w' \<Longrightarrow> marks w' = marks w \<and> get_already_performed i w' = get_already_performed i w"
  unfolding acts_on_def marks_def get_already_performed_def by presburger

lemma marks_marked: "marks (mark_performed n r w) item u = marks w item u + (if item = n \<and> u = ru_unique_id r then 1 else 0)"
  by (auto simp: marks_def marked_def mark_performed_def effect_def is_marked_def)

lemma performed_marked:
  "set (get_already_performed item (mark_performed n r w)) =
     set (get_already_performed item w) \<union> (if item = n then {ru_unique_id r} else {})"
proof -
  have "v row = [] \<Longrightarrow> (case view_values row v of Inl _ \<Rightarrow> [] | Inr cols \<Rightarrow> map fst cols) = []" for v :: "(string, string) view" and row
    by (simp add: view_values_def)
  then have already: "set (get_already_performed item u) = fst ` set (aw_performed u item)" for u
    by (cases "aw_performed u item = []") (simp_all add: get_already_performed_def view_values_def)
  show ?thesis
    unfolding already by (simp add: mark_performed_def effect_def view_set_values_def dict_update_def dom_map_of_conv_image_fst [symmetric])
qed

lemma performed_ok_marked: "performed_ok w \<Longrightarrow> performed_ok (mark_performed n r w)"
  unfolding performed_ok_def marks_marked performed_marked by auto

lemma performed_ok_acts: "acts_on S w w' \<Longrightarrow> performed_ok w \<Longrightarrow> performed_ok w'"
  unfolding performed_ok_def using marks_acts by metis

text \<open>The rules of a list that can act on a post of a type and have a given id.\<close>

definition candidate :: "string list \<Rightarrow> string \<Rightarrow> target \<Rightarrow> am_rule \<Rightarrow> bool" where
  "candidate already u ty r \<longleftrightarrow> ru_unique_id r = u \<and> ru_base_type r = ty \<and> \<not> skip_rule already r"

definition post_class :: "string \<Rightarrow> am_world \<Rightarrow> target \<Rightarrow> bool" where
  "post_class n w ty \<longleftrightarrow> named_things w \<and> performed_ok w \<and> (\<exists>t. mw_things w n = Some t \<and> class_target (mt_class t) = Some ty)"

lemma post_class_acts: "post_class n w ty \<Longrightarrow> acts_on S w w' \<Longrightarrow> post_class n w' ty"
  unfolding post_class_def using acts_on_named performed_ok_acts acts_on_thing by (fastforce simp: post_id_def)

lemma post_class_marked: "post_class n w ty \<Longrightarrow> post_class n (mark_performed m r w) ty"
  using performed_ok_marked by (simp add: post_class_def named_things_def)

lemma try_rule_marks:
  assumes "try_rule e now already item r w = Inr (acted, w')" "named_things w"
    "post_class n w ty" "post_class item w ty'"
  shows "post_class n w' ty \<and> post_class item w' ty' \<and>
    marks w' n u \<le> marks w n u + (if n = item \<and> candidate already u ty' r then 1 else 0)"
proof (cases acted)
  case False
  then have "w' = w" using try_rule_not_acted assms(1) by simp
  then show ?thesis using assms by simp
next
  case True
  obtain it d ms where acted: "\<not> skip_rule already r" "item_data e item w = Inr (it, d)" "rule_check_item e r d it = Inr (True, ms)"
    "rule_perform_actions e now r ms item w = Inr w'"
    using assms(1) True try_ruleE by metis
  have it: "mw_things w item = Some it" by (rule item_data_thing [OF acted(2)])
  obtain w6 where w6: "acts_on {item, po_link (mt_data it)} w w6" "w' = mark_performed item r w6"
    using rule_perform_frame [OF acted(4) assms(2) it] by metis
  have "ru_base_type r = ty'"
    using check_item_should [OF acted(3)] assms(4) it
    by (auto simp: should_check_item_def item_is_correct_type_def post_class_def split: if_splits)
  then have "marks w' n u \<le> marks w n u + (if n = item \<and> candidate already u ty' r then 1 else 0)"
    using marks_acts [OF w6(1)] acted(1) unfolding w6(2) marks_marked by (simp add: candidate_def)
  then show ?thesis using post_class_marked post_class_acts [OF _ w6(1)] assms(3,4) unfolding w6(2) by simp
qed

lemma loop_marks:
  assumes "named_things w" "post_class n w ty" "post_class item w ty'"
  shows "removal_loop e now already item rs w = Inr w' \<Longrightarrow> post_class n w' ty \<and> post_class item w' ty' \<and>
      marks w' n u \<le> marks w n u + (if n = item then length (filter (candidate already u ty') rs) else 0)"
    and "nonremoval_loop e now already item rs w = Inr w' \<Longrightarrow> post_class n w' ty \<and> post_class item w' ty' \<and>
      marks w' n u \<le> marks w n u + (if n = item then length (filter (candidate already u ty') rs) else 0)"
  using assms
proof (induction rs arbitrary: w)
  case (Cons r rs)
  {
    case 1
    then obtain acted w1 where w1: "try_rule e now already item r w = Inr (acted, w1)"
      "(if acted then Inr w1 else removal_loop e now already item rs w1) = Inr w'"
      by (auto simp: bindr_eq_Inr_iff)
    have step: "post_class n w1 ty \<and> post_class item w1 ty' \<and>
        marks w1 n u \<le> marks w n u + (if n = item \<and> candidate already u ty' r then 1 else 0)"
      by (rule try_rule_marks [OF w1(1) 1(2-4)])
    then have "named_things w1" by (simp add: post_class_def)
    then show ?case using w1(2) step Cons.IH(1) [of w1] by (cases acted) (auto split: if_splits)
  next
    case 2
    then obtain acted w1 where w1: "try_rule e now already item r w = Inr (acted, w1)" "nonremoval_loop e now already item rs w1 = Inr w'"
      by (auto simp: bindr_eq_Inr_iff)
    have step: "post_class n w1 ty \<and> post_class item w1 ty' \<and>
        marks w1 n u \<le> marks w n u + (if n = item \<and> candidate already u ty' r then 1 else 0)"
      by (rule try_rule_marks [OF w1(1) 2(2-4)])
    then have "named_things w1" by (simp add: post_class_def)
    then show ?case using w1(2) step Cons.IH(2) [of w1] by (auto split: if_splits)
  }
qed auto

lemma candidates_split:
  "length (filter P (removal_rules rules)) + length (filter P (nonremoval_rules rules)) = length (filter P rules)"
  unfolding removal_rules_def nonremoval_rules_def by (induction rules) auto

lemma apply_marks:
  assumes "apply_to_item e now rules item w = Inr w'" "post_class n w ty" "post_class item w ty'"
  shows "post_class n w' ty \<and> marks w' n u \<le> marks w n u +
    (if n = item then length (filter (candidate (get_already_performed item w) u ty') rules) else 0)"
proof -
  let ?already = "get_already_performed item w"
  obtain w1 where w1: "removal_loop e now ?already item (removal_rules rules) w = Inr w1"
    "nonremoval_loop e now ?already item (nonremoval_rules rules) w1 = Inr w'"
    using assms(1) by (auto simp: apply_to_item_def bindr_eq_Inr_iff Let_def)
  have n: "named_things w" using assms(2) by (simp add: post_class_def)
  have step1: "post_class n w1 ty" "post_class item w1 ty'"
    "marks w1 n u \<le> marks w n u + (if n = item then length (filter (candidate ?already u ty') (removal_rules rules)) else 0)"
    using loop_marks(1) [OF n assms(2,3) w1(1), of u] by simp_all
  have n1: "named_things w1" using step1(1) by (simp add: post_class_def)
  show ?thesis
    using loop_marks(2) [OF n1 step1(1,2) w1(2), of u] step1(3)
      candidates_split [of "candidate ?already u ty'" rules] by (auto split: if_splits)
qed

lemma distinct_map_filter_one: "distinct (map f xs) \<Longrightarrow> length (filter (\<lambda>x. f x = u) xs) \<le> 1"
proof (induction xs)
  case (Cons x xs)
  then show ?case
  proof (cases "f x = u")
    case True
    then have "filter (\<lambda>x. f x = u) xs = []" using Cons.prems by (simp add: filter_empty_conv) (metis image_eqI)
    then show ?thesis using True by simp
  qed simp
qed simp

text \<open>No two rules for posts of the same type come from the same text.\<close>

definition distinct_rules :: "am_rule list \<Rightarrow> bool" where
  "distinct_rules rules \<longleftrightarrow>
     (\<forall>ty \<in> {TgtLink, TgtComment, TgtAccount}. distinct (map ru_unique_id (filter (\<lambda>r. ru_base_type r = ty) rules)))"

lemma distinct_rulesD: "distinct_rules rules \<Longrightarrow> distinct (map ru_unique_id (filter (\<lambda>r. ru_base_type r = ty) rules))"
  by (cases ty) (simp_all add: distinct_rules_def)

lemma candidates_bound:
  assumes "distinct_rules rules"
  shows "length (filter (candidate already u ty) rules) \<le> 1"
proof -
  have "length (filter (candidate already u ty) rules) \<le> length (filter (\<lambda>r. ru_unique_id r = u) (filter (\<lambda>r. ru_base_type r = ty) rules))"
    unfolding filter_filter by (induction rules) (auto simp: candidate_def)
  then show ?thesis using distinct_map_filter_one [OF distinct_rulesD [OF assms], of u ty] by simp
qed

lemma candidates_skipped:
  assumes "distinct_rules rules" "r \<in> set rules" "is_unrepeatable r" "ru_unique_id r \<in> set already"
  shows "filter (candidate already (ru_unique_id r) (ru_base_type r)) rules = []"
proof -
  have "r' = r" if "r' \<in> set rules" "ru_unique_id r' = ru_unique_id r" "ru_base_type r' = ru_base_type r" for r'
    using distinct_rulesD [OF assms(1), of "ru_base_type r"] that assms(2) by (auto simp: distinct_map inj_on_def)
  then show ?thesis using assms(3,4) by (auto simp: filter_empty_conv candidate_def skip_rule_def)
qed

lemma apply_marks_once:
  assumes "distinct_rules rules" "r \<in> set rules" "is_unrepeatable r"
    and "apply_to_item e now rules item w = Inr w'" "post_class n w (ru_base_type r)" "post_class item w ty'"
    and "marks w n (ru_unique_id r) \<le> 1"
  shows "marks w' n (ru_unique_id r) \<le> 1"
proof -
  let ?u = "ru_unique_id r" and ?already = "get_already_performed item w"
  have le: "marks w' n ?u \<le> marks w n ?u + (if n = item then length (filter (candidate ?already ?u ty') rules) else 0)"
    using apply_marks [OF assms(4-6), of ?u] by simp
  show ?thesis
  proof (cases "n = item \<and> marks w n ?u = 1")
    case True
    then have "?u \<in> set ?already" using assms(5) unfolding post_class_def performed_ok_def by (metis zero_less_one)
    moreover have "ty' = ru_base_type r" using True assms(5,6) by (auto simp: post_class_def)
    ultimately show ?thesis using le True candidates_skipped [OF assms(1-3)] by auto
  next
    case False
    then show ?thesis using le assms(7) candidates_bound [OF assms(1), of ?already ?u ty'] by (auto split: if_splits)
  qed
qed


lemma sample_twice:
  "case foldm (\<lambda>x. apply_to_item sample_run_env (fst x) (sample_rules sample_run_env) (snd x)) [(5, ''t3_1''), (6, ''t3_1'')]
     (sample_am_world (sample_mthing sample_post)) of Inl _ \<Rightarrow> False | Inr w \<Rightarrow> marks w ''t3_1'' ''B'' = 1"
  "case sample_rules sample_run_env of [a, b] \<Rightarrow> is_unrepeatable b \<and> ru_unique_id b = ''B'' \<and> ru_unique_id a = ''A'' \<and>
     ru_base_type b = TgtLink | _ \<Rightarrow> False"
  by code_simp+


subsection \<open>The consumer\<close>

lemma revise_config:
  assumes "revise cfg p content previous author force reason rid now wk = Inr (Some wr, wk')"
  shows "\<exists>p'. wk_pages wk' (page_id p) = Some p' \<and> wp_content p' = wr_content wr"
    "map_of (wk_modified wk' (''WikiPage_'' @ page_id p)) ''Edit'' = Some now"
proof -
  obtain c where c: "wk' = (let (wr, w1) = rev_create (page_id p) c author reason rid now wk;
      p' = p\<lparr>wp_content := c, wp_last_edit_by := author, wp_last_edit_date := Some (wr_date wr), wp_revision := Some (wr_id wr)\<rparr>;
      w2 = page_commit p' w1
    in w2\<lparr>wk_modified := touch now (''WikiPage_'' @ page_id p) [''Edit''] (wk_modified w2)\<rparr>)"
    "wr = fst (rev_create (page_id p) c author reason rid now wk)"
    using assms by (auto simp: revise_def Let_def case_prod_beta split: if_splits sum.splits)
  have "page_id (p\<lparr>wp_content := c', wp_last_edit_by := a, wp_last_edit_date := d, wp_revision := r\<rparr>) = page_id p" for c' a d r
    by (simp add: page_id_def)
  then show "\<exists>p'. wk_pages wk' (page_id p) = Some p' \<and> wp_content p' = wr_content wr"
    "map_of (wk_modified wk' (''WikiPage_'' @ page_id p)) ''Edit'' = Some now"
    unfolding c by (simp_all add: rev_create_def page_commit_def Let_def touch_def view_set_values_def dict_update_def)
qed

text \<open>
  Edits of the rules take effect. When the page with the rules is revised after the consumer last read
  it, the next message about a post of the subreddit is processed with the rules of the new revision, and
  these are the rules kept from then on.
\<close>

lemma edited_rules_used:
  assumes "wp_sr p = as_id36 sub" "wp_name p = config_page"
    and "revise cfg p content previous author force reason rid edited wk = Inr (Some wr, wk')"
    and "pr_rules proc (sr_id (as_sub sub)) = None \<or>
      (\<exists>init_time old. pr_rules proc (sr_id (as_sub sub)) = Some (init_time, old) \<and> init_time < edited)"
    and "mw_things (pr_world proc) n = Some t" "mt_class t = ALink \<or> mt_class t = AComment" "sub_of t (pr_world proc) = Inr sub"
    and "ruleset_init (rn_env e) (wr_content wr) = Inr rules"
  shows "process_message e True now n (proc\<lparr>pr_wiki := wk'\<rparr>) =
    process_item e now rules n (proc\<lparr>pr_wiki := wk', pr_rules := (pr_rules proc)(sr_id (as_sub sub) \<mapsto> (now, rules))\<rparr>)"
proof -
  have id: "page_id p = wiki_id (as_id36 sub) config_page" using assms(1,2) by (simp add: page_id_def)
  obtain p' where p': "wk_pages wk' (wiki_id (as_id36 sub) config_page) = Some p'" "wp_content p' = wr_content wr"
    using revise_config(1) [OF assms(3)] id by auto
  have "last_edited now sub wk' = Some edited"
    using revise_config(2) [OF assms(3)] id by (auto simp: last_edited_def last_modified_def view_values_def)
  moreover have "current_rules e now edited sub (proc\<lparr>pr_wiki := wk'\<rparr>) =
      (Rules rules, proc\<lparr>pr_wiki := wk', pr_rules := (pr_rules proc)(sr_id (as_sub sub) \<mapsto> (now, rules))\<rparr>)"
    using assms(4,8) p' by (auto simp: current_rules_def page_get_def Let_def)
  ultimately show ?thesis
    using assms(5-7) by (auto simp: process_message_def get_thing_def)
qed

definition rules_cfg :: wiki_cfg where
  "rules_cfg = \<lparr>wc_max_page = 1000, wc_max_css = 1000, wc_max_separators = 2, wc_max_name = 100, wc_merge = (\<lambda>_ a _. Some a)\<rparr>"

definition rules_page :: wpage where
  "rules_page = \<lparr>wp_sr = ''1'', wp_name = config_page, wp_permlevel = 2, wp_content = [], wp_revision = None, wp_listed = True,
     wp_last_edit_by = None, wp_last_edit_date = None\<rparr>"

definition rules_store :: wstore where
  "rules_store = \<lparr>wk_pages = [page_id rules_page \<mapsto> rules_page], wk_revs = (\<lambda>_. None), wk_history = (\<lambda>_. []), wk_recent = (\<lambda>_. []),
     wk_listing = (\<lambda>_. []), wk_editors = (\<lambda>_. []), wk_images = (\<lambda>_. []), wk_modified = (\<lambda>_. [])\<rparr>"

definition rules_proc :: am_proc where
  "rules_proc = \<lparr>pr_world = sample_am_world (sample_mthing sample_post), pr_wiki = rules_store, pr_rules = [1 \<mapsto> (10, [])]\<rparr>"

text \<open>
  Checks of flair fail on users without flair. A rule that checks the flair of the author is accepted,
  but when the author has no flair in the subreddit the check raises instead of not matching.
\<close>

lemma flair_check_raises:
  assumes "ae_compiles e ''^(vip)$'' True" "author_flair_text a (sr_id (as_sub (da_sub d))) = None"
  shows "\<exists>rt. rule_target_init e TgtAccount (JObj [(''flair_text'', JStr ''vip'')]) True = Inr rt \<and>
     target_check_item re rt d (AccountSubject a) = Inl (TypeError ''expected string or buffer'')"
proof -
  have parse: "parse_match_fields_key TgtAccount ''flair_text'' =
      Inr \<lparr>mk_name = ''flair_text'', mk_fields = [''flair_text''], mk_modifiers = [], mk_match_success = True\<rparr>"
    by code_simp
  have pattern: "make_pattern e \<lparr>mk_name = ''flair_text'', mk_fields = [''flair_text''], mk_modifiers = [], mk_match_success = True\<rparr>
      (JStr ''vip'') = ''^(vip)$''"
    by (simp add: make_pattern_def subdomains_def match_values_def match_mod_def match_regexes_def match_field_defaults_def
        py_unicode_def py_str_scalar_def re_escape_def alnum_char_def Let_def)
  obtain rt where rt: "rule_target_init e TgtAccount (JObj [(''flair_text'', JStr ''vip'')]) True = Inr rt"
    "rt_patterns rt = [(''flair_text'', ''^(vip)$'', True)]" "rt_type rt = TgtAccount"
    "\<forall>k \<in> {''is_submitter'', ''is_moderator'', ''is_contributor'', ''is_gold''}. attr rt k = JNull" "threshold_checks rt = []"
    using assms(1)
    by (simp add: rule_target_init_def set_values_def potential_components_def component0_def set_component_def pop_sources_def
        pop_source_def dict_pop_default_def special_attrs_def json_get_def get_match_patterns_def add_pattern_def parse pattern
        threshold_checks_def thresholds_def attr_def map_filter_simps)
  have "account_field d a ''flair_text'' = None" using assms(2) by (simp add: account_field_def)
  then have "check_match_patterns re rt d (AccountSubject a) = Inl (TypeError ''expected string or buffer'')"
    by (simp add: check_match_patterns_def rt(2,3) parse searched_fields_def subject_field_def)
  then show ?thesis
    using rt by (simp add: target_check_item_def flag_ok_def check_account_thresholds_def)
qed

definition sample_data :: am_data where
  "sample_data = \<lparr>da_sub = sample_asub, da_author = sample_acct, da_link = None, da_is_submitter = None, da_rels = empty_rels\<rparr>"

end
