(* ===== verification/Signing.thy ===== *)
theory Signing
  imports Prelude "HOL-Library.Word" "HOL-Library.Sublist"
begin

unbundle bit_operations_syntax

section \<open>Signed requests\<close>

text \<open>
  Models \<open>r2/lib/signing.py\<close>, \<open>constant_time_compare\<close> of \<open>r2/lib/utils/utils.py\<close>, the validator \<open>VSigned\<close> of
  \<open>r2/lib/validator/validator.py\<close> and the login of the signed API (\<open>handle_login\<close> of \<open>r2/controllers/login.py\<close>).
  HMAC-SHA256, the server's secret and the clock are parameters. Headers and bodies are byte strings. The
  statistics events are left out.
\<close>

subsection \<open>Comparison in constant time\<close>

definition constant_time_compare :: "string \<Rightarrow> string \<Rightarrow> bool" where
  "constant_time_compare actual expected =
     (let actual_len = length actual; expected_len = length expected; result = actual_len XOR expected_len in
      (if expected_len > 0
       then fold (\<lambda>i r. r OR (of_char (actual ! i) XOR of_char (expected ! (i mod expected_len)))) [0..<actual_len] result
       else result) = 0)"

subsection \<open>Headers\<close>

text \<open>\<open>(.*)$\<close>: up to the end of the line, which only a last newline may follow.\<close>

definition rest_of_line :: "string \<Rightarrow> string option" where
  "rest_of_line s = (let l = takeWhile (\<lambda>c. c \<noteq> CHR 0x0A) s in
     if drop (length l) s = [] \<or> drop (length l) s = [CHR 0x0A] then Some l else None)"

text \<open>\<open>(\d+?):\<close> \<close>

definition number_field :: "string \<Rightarrow> (string \<times> string) option" where
  "number_field s = (let d = takeWhile (\<lambda>c. char_digit c \<noteq> None) s in
     case drop (length d) s of c # r \<Rightarrow> if d \<noteq> [] \<and> c = CHR '':'' then Some (d, r) else None | [] \<Rightarrow> None)"

definition SIG_HEADER_RE :: "string \<Rightarrow> (string \<times> string) option" where
  "SIG_HEADER_RE s = (case number_field s of
     None \<Rightarrow> None | Some (d, r) \<Rightarrow> map_option (\<lambda>p. (d, p)) (rest_of_line r))"

definition version_epoch_mac :: "string \<Rightarrow> (string \<times> string \<times> string) option" where
  "version_epoch_mac s = (case s of [] \<Rightarrow> None | c # t \<Rightarrow>
     if c \<noteq> CHR '':'' then None
     else case number_field t of None \<Rightarrow> None | Some (v, t1) \<Rightarrow>
       (case number_field t1 of None \<Rightarrow> None | Some (e, t2) \<Rightarrow> map_option (\<lambda>m. (v, e, m)) (rest_of_line t2)))"

text \<open>The lazy \<open>(.+?)\<close> of the platform: the shortest one after which the rest matches.\<close>

fun platform_from :: "string \<Rightarrow> string \<Rightarrow> (string \<times> string \<times> string \<times> string) option" where
  "platform_from p [] = None"
| "platform_from p (c # cs) =
     (case (if p = [] then None else version_epoch_mac (c # cs)) of
        Some vem \<Rightarrow> Some (p, vem)
      | None \<Rightarrow> if c = CHR 0x0A then None else platform_from (p @ [c]) cs)"

definition SIG_CONTENT_V1_RE :: "string \<Rightarrow> (string \<times> string \<times> string \<times> string) option" where
  "SIG_CONTENT_V1_RE s = platform_from [] s"

subsection \<open>Results\<close>

datatype sig_error =
    UNKNOWN | INVALID_FORMAT | UNKOWN_GLOBAL_VERSION | UNPARSEABLE | INVALIDATED_TOKEN | EXPIRED_TOKEN
  | SIGNATURE_MISMATCH | MULTISIG_MISMATCH

datatype sig_details = NoDetails | EpochDetails int | AttrDetails string

record signing_result =
  sg_global_version :: int
  sg_platform :: "string option"
  sg_version :: int
  sg_mac :: "string option"
  sg_valid_hmac :: bool
  sg_epoch :: "int option"
  sg_ignored_errors :: "sig_error list"
  sg_errors :: "(sig_error \<times> string option, sig_details) dict"

definition signing_result0 :: signing_result where
  "signing_result0 = \<lparr>sg_global_version = - 1, sg_platform = None, sg_version = - 1, sg_mac = None, sg_valid_hmac = False,
     sg_epoch = None, sg_ignored_errors = [], sg_errors = []\<rparr>"

definition add_error :: "sig_error \<Rightarrow> string option \<Rightarrow> sig_details \<Rightarrow> signing_result \<Rightarrow> signing_result" where
  "add_error err field details r = r\<lparr>sg_errors := AList.update (err, field) details (sg_errors r)\<rparr>"

definition add_ignore :: "sig_error \<Rightarrow> signing_result \<Rightarrow> signing_result" where
  "add_ignore err r = r\<lparr>sg_ignored_errors := sg_ignored_errors r @ [err]\<rparr>"

definition has_errors :: "signing_result \<Rightarrow> bool" where
  "has_errors r = (if sg_ignored_errors r \<noteq> []
     then \<not> set (map (fst \<circ> fst) (sg_errors r)) \<subseteq> set (sg_ignored_errors r)
     else sg_errors r \<noteq> [])"

definition sig_is_valid :: "signing_result \<Rightarrow> bool" where
  "sig_is_valid r \<longleftrightarrow> sg_valid_hmac r \<and> \<not> has_errors r"

definition mismatch :: "signing_result \<Rightarrow> signing_result \<Rightarrow> string option" where
  "mismatch r other =
     (if sg_global_version r \<noteq> sg_global_version other then Some ''global_version''
      else if sg_platform r \<noteq> sg_platform other then Some ''platform''
      else if sg_version r \<noteq> sg_version other then Some ''version'' else None)"

definition sig_update :: "signing_result \<Rightarrow> signing_result \<Rightarrow> signing_result" where
  "sig_update r other =
     (let r1 = r\<lparr>sg_errors := dict_update (sg_errors r) (sg_errors other)\<rparr>;
          r2 = (case mismatch r1 other of None \<Rightarrow> r1 | Some a \<Rightarrow> add_error MULTISIG_MISMATCH None (AttrDetails a) r1)
      in r2\<lparr>sg_valid_hmac := sg_valid_hmac r2 \<and> sg_valid_hmac other\<rparr>)"

subsection \<open>Signatures\<close>

record sign_env =
  se_hmac :: "string \<Rightarrow> string \<Rightarrow> string"
  se_secret :: string
  se_now :: int

definition GLOBAL_TOKEN_VERSION :: int where
  "GLOBAL_TOKEN_VERSION = 1"

definition SIGNATURE_UA_HEADER :: string where
  "SIGNATURE_UA_HEADER = ''X-hmac-signed-result''"

definition SIGNATURE_BODY_HEADER :: string where
  "SIGNATURE_BODY_HEADER = ''X-hmac-signed-body''"

definition valid_epoch :: "sign_env \<Rightarrow> int \<Rightarrow> bool" where
  "valid_epoch e epoch \<longleftrightarrow> \<bar>se_now e - epoch\<bar> < 5 * 60"

definition epoch_wrap :: "int \<Rightarrow> string \<Rightarrow> string" where
  "epoch_wrap epoch payload = ''Epoch:'' @ py_str_int epoch @ ''|'' @ payload"

definition versioned_hmac :: "sign_env \<Rightarrow> string \<Rightarrow> string \<Rightarrow> int \<Rightarrow> string result" where
  "versioned_hmac e secret body global_version =
     (if global_version \<le> GLOBAL_TOKEN_VERSION then Inr (se_hmac e secret body) else Inl AssertionError)"

definition token_identifier :: "int \<Rightarrow> string \<Rightarrow> int \<Rightarrow> string" where
  "token_identifier global_version platform version =
     py_str_int global_version @ '':'' @ platform @ '':'' @ py_str_int version"

definition get_secret_token :: "sign_env \<Rightarrow> string \<Rightarrow> int \<Rightarrow> int \<Rightarrow> string result" where
  "get_secret_token e platform version global_version =
     versioned_hmac e (se_secret e) (token_identifier global_version platform version) global_version"

definition is_invalid_token :: "string \<Rightarrow> int \<Rightarrow> bool" where
  "is_invalid_token platform version = False"

definition check_mac ::
    "sign_env \<Rightarrow> string \<Rightarrow> string option \<Rightarrow> int \<Rightarrow> string \<Rightarrow> int \<Rightarrow> int \<Rightarrow> string \<Rightarrow> signing_result \<Rightarrow> signing_result result" where
  "check_mac e payload field gv platform version epoch mac r =
     bindr (get_secret_token e platform version gv) (\<lambda>secret_token.
     bindr (versioned_hmac e secret_token (epoch_wrap epoch payload) gv) (\<lambda>expected.
     let r' = r\<lparr>sg_valid_hmac := constant_time_compare mac expected\<rparr>
     in Inr (if sg_valid_hmac r' then r' else add_error SIGNATURE_MISMATCH field NoDetails r')))"

definition check_content :: "sign_env \<Rightarrow> string \<Rightarrow> string option \<Rightarrow> int \<Rightarrow> string \<Rightarrow> signing_result \<Rightarrow> signing_result result" where
  "check_content e payload field gv content r =
     (case SIG_CONTENT_V1_RE content of
        None \<Rightarrow> Inr (add_error UNPARSEABLE field NoDetails r)
      | Some (platform, v, ep, mac) \<Rightarrow>
          bindr (py_int_str v) (\<lambda>version. bindr (py_int_str ep) (\<lambda>epoch.
          let r1 = r\<lparr>sg_platform := Some platform, sg_version := version, sg_epoch := Some epoch, sg_mac := Some mac\<rparr> in
          if is_invalid_token platform version then Inr (add_error INVALIDATED_TOKEN field NoDetails r1)
          else check_mac e payload field gv platform version epoch mac
            (if valid_epoch e epoch then r1 else add_error EXPIRED_TOKEN field (EpochDetails epoch) r1))))"

definition valid_signature :: "sign_env \<Rightarrow> string \<Rightarrow> string option \<Rightarrow> string option \<Rightarrow> signing_result result" where
  "valid_signature e payload signature field =
     (case SIG_HEADER_RE (case signature of None \<Rightarrow> [] | Some s \<Rightarrow> s) of
        None \<Rightarrow> Inr (add_error INVALID_FORMAT field NoDetails signing_result0)
      | Some (g, content) \<Rightarrow> bindr (py_int_str g) (\<lambda>gv.
          let r = signing_result0\<lparr>sg_global_version := gv\<rparr> in
          if gv > GLOBAL_TOKEN_VERSION then Inr (add_error UNKOWN_GLOBAL_VERSION field NoDetails r)
          else check_content e payload field gv content r))"

definition sign_v1_message :: "sign_env \<Rightarrow> string \<Rightarrow> string \<Rightarrow> int \<Rightarrow> int option \<Rightarrow> string result" where
  "sign_v1_message e body platform version epoch =
     bindr (get_secret_token e platform version 1) (\<lambda>token.
     let ep = (case epoch of None \<Rightarrow> se_now e | Some t \<Rightarrow> if t = 0 then se_now e else t) in
     bindr (versioned_hmac e token (epoch_wrap ep body) 1) (\<lambda>signature.
     Inr (''1:'' @ platform @ '':'' @ py_str_int version @ '':'' @ py_str_int ep @ '':'' @ signature)))"

subsection \<open>Requests\<close>

record signed_request =
  rq_method :: string
  rq_headers :: "string \<Rightarrow> string option"
  rq_body :: string

definition valid_post_signature :: "sign_env \<Rightarrow> signed_request \<Rightarrow> signing_result result" where
  "valid_post_signature e rq =
     valid_signature e (''Body:'' @ rq_body rq) (rq_headers rq SIGNATURE_BODY_HEADER) (Some ''body'')"

definition ua_payload :: "signed_request \<Rightarrow> string" where
  "ua_payload rq = join_with ''|'' (map (\<lambda>h. h @ '':'' @ (case rq_headers rq h of None \<Rightarrow> [] | Some v \<Rightarrow> v))
     [''User-Agent'', ''Client-Vendor-ID''])"

definition valid_ua_signature :: "sign_env \<Rightarrow> signed_request \<Rightarrow> signing_result result" where
  "valid_ua_signature e rq = valid_signature e (ua_payload rq) (rq_headers rq SIGNATURE_UA_HEADER) (Some ''ua'')"

definition upper_char :: "char \<Rightarrow> char" where
  "upper_char c = (let n = of_char c :: nat in if 97 \<le> n \<and> n \<le> 122 then char_of (n - 32) else c)"

definition has_body_to_sign :: "signed_request \<Rightarrow> bool" where
  "has_body_to_sign rq \<longleftrightarrow> map upper_char (rq_method rq) \<in> {''POST'', ''PUT''}"

definition ignore_skew :: "signing_result \<Rightarrow> signing_result" where
  "ignore_skew r = (if sg_platform r = Some ''android'' \<and> sg_version r = 1 then add_ignore EXPIRED_TOKEN r else r)"

definition VSigned :: "sign_env \<Rightarrow> signed_request \<Rightarrow> signing_result result" where
  "VSigned e rq = bindr (valid_ua_signature e rq) (\<lambda>signature.
     bindr (if has_body_to_sign rq then bindr (valid_post_signature e rq) (\<lambda>other. Inr (sig_update signature other))
            else Inr signature) (\<lambda>signature'. Inr (ignore_skew signature')))"

subsection \<open>Logging in\<close>

text \<open>
  What \<open>handle_login\<close> reads: the feature flag, the answer of the plugin hooks if it is true, the errors the validators have
  set, whether the user is the current one and the user agents that may log in again.
\<close>

record login_ctx =
  lg_disabled :: bool
  lg_hook_error :: "string option"
  lg_errors :: "(string \<times> string option) list"
  lg_current_user :: bool
  lg_exempt :: "string list"

datatype login_outcome = Aborted int string | Refused string | LoggedIn

definition exempt_ua :: "signed_request \<Rightarrow> login_ctx \<Rightarrow> bool" where
  "exempt_ua rq ctx = (case rq_headers rq ''User-Agent'' of None \<Rightarrow> False
     | Some agent \<Rightarrow> agent \<noteq> [] \<and> (\<exists>ua \<in> set (lg_exempt ctx). sublist ua agent))"

definition handle_login :: "signed_request \<Rightarrow> signing_result option \<Rightarrow> login_ctx \<Rightarrow> login_outcome" where
  "handle_login rq signature ctx =
     (if signature \<noteq> None \<and> \<not> sig_is_valid (the signature) then Aborted 403 ''SIGNATURE''
      else if lg_disabled ctx then Aborted 403 ''DISABLED''
      else case lg_hook_error ctx of Some err \<Rightarrow> Refused err
      | None \<Rightarrow>
        if (''LOGGED_IN'', None) \<in> set (lg_errors ctx) \<and> \<not> (lg_current_user ctx \<or> exempt_ua rq ctx) then Aborted 409 ''LOGGED_IN''
        else if (''RATELIMIT'', Some ''ratelimit'') \<in> set (lg_errors ctx) then Refused ''RATELIMIT''
        else if (''WRONG_PASSWORD'', Some ''passwd'') \<in> set (lg_errors ctx) then Refused ''WRONG_PASSWORD''
        else if (''INCORRECT_USERNAME_OR_PASSWORD'', Some ''passwd'') \<in> set (lg_errors ctx)
          then Refused ''INCORRECT_USERNAME_OR_PASSWORD''
        else LoggedIn)"

definition POST_login :: "sign_env \<Rightarrow> signed_request \<Rightarrow> login_ctx \<Rightarrow> login_outcome result" where
  "POST_login e rq ctx = bindr (VSigned e rq) (\<lambda>signature. Inr (handle_login rq (Some signature) ctx))"

subsection \<open>Lemmas\<close>

lemma nat_xor_eq_0: "(a :: nat) XOR b = 0 \<longleftrightarrow> a = b"
  by (auto simp: bit_eq_iff bit_xor_iff)

lemma fold_or_eq_0: "fold (\<lambda>i r. r OR f i) xs (r :: nat) = 0 \<longleftrightarrow> r = 0 \<and> (\<forall>i \<in> set xs. f i = 0)"
  by (induction xs arbitrary: r) (auto simp: or_eq_0_iff)

lemma constant_time_compare_eq [simp]: "constant_time_compare actual expected \<longleftrightarrow> actual = expected"
proof (cases "length expected = 0")
  case False
  then have "constant_time_compare actual expected \<longleftrightarrow> length actual = length expected \<and>
      (\<forall>i < length actual. actual ! i = expected ! (i mod length expected))"
    by (simp add: constant_time_compare_def fold_or_eq_0 nat_xor_eq_0 atLeast0LessThan Ball_def Let_def)
  then show ?thesis by (auto simp: list_eq_iff_nth_eq)
qed (simp add: constant_time_compare_def nat_xor_eq_0)

lemma epoch_digits_total: "(\<forall>c \<in> set d. char_digit c \<noteq> None) \<Longrightarrow> \<exists>n. parse_digits a d = Some n"
  by (induction d arbitrary: a) auto

lemma py_int_digits:
  assumes "\<forall>c \<in> set d. char_digit c \<noteq> None" "d \<noteq> []"
  obtains n where "py_int_str d = Inr n" "0 \<le> n"
proof -
  obtain n where n: "parse_digits 0 d = Some n" using epoch_digits_total [OF assms(1)] by blast
  obtain c cs where c: "d = c # cs" using assms(2) by (cases d) auto
  then have "c \<noteq> CHR ''-''" "c \<noteq> CHR ''+''" using assms(1) char_digit_sign by auto
  then have "py_int_str d = Inr (int n)" using n c by (simp add: py_int_str_def)
  then show thesis using that by simp
qed

lemma number_fieldE:
  assumes "number_field s = Some (d, r)"
  obtains n where "py_int_str d = Inr n" "0 \<le> n"
proof -
  have "d = takeWhile (\<lambda>c. char_digit c \<noteq> None) s" "d \<noteq> []"
    using assms by (auto simp: number_field_def Let_def split: list.splits if_splits)
  then show thesis using that py_int_digits [of d] by (metis (mono_tags, lifting) set_takeWhileD)
qed

lemma version_epoch_macE:
  assumes "version_epoch_mac s = Some (v, ep, mac)"
  obtains version epoch where "py_int_str v = Inr version" "py_int_str ep = Inr epoch" "0 \<le> version" "0 \<le> epoch"
  using assms by (auto simp: version_epoch_mac_def split: list.splits option.splits if_splits elim!: number_fieldE)

lemma platform_fromE:
  "platform_from p s = Some (platform, v, ep, mac) \<Longrightarrow> \<exists>t. version_epoch_mac t = Some (v, ep, mac)"
  by (induction p s rule: platform_from.induct) (auto split: option.splits if_splits)

lemma char_digit_colon [simp]: "char_digit CHR '':'' = None" "char_digit CHR ''|'' = None"
  by (simp_all add: char_digit_def)

lemma digits_py_str_int: "0 \<le> n \<Longrightarrow> c \<in> set (py_str_int n) \<Longrightarrow> char_digit c \<noteq> None"
  using char_digit_set_digits_of by (simp add: py_str_int_def)

lemma py_str_int_not_Nil [simp]: "py_str_int n \<noteq> []"
  by (simp add: py_str_int_def)

lemma takeWhile_digits:
  assumes "0 \<le> n" "char_digit c = None"
  shows "takeWhile (\<lambda>c. char_digit c \<noteq> None) (py_str_int n @ c # r) = py_str_int n"
  using assms digits_py_str_int [OF assms(1)] by (simp add: takeWhile_append)

lemma number_field_py_str_int: "0 \<le> n \<Longrightarrow> number_field (py_str_int n @ CHR '':'' # r) = Some (py_str_int n, r)"
  unfolding number_field_def Let_def by (subst takeWhile_digits | simp)+

lemma rest_of_line_id: "CHR 0x0A \<notin> set s \<Longrightarrow> rest_of_line s = Some s"
proof -
  assume "CHR 0x0A \<notin> set s"
  then have all: "takeWhile (\<lambda>c. c \<noteq> CHR 0x0A) s = s" by (auto simp: takeWhile_eq_all_conv)
  show "rest_of_line s = Some s" unfolding rest_of_line_def Let_def all by simp
qed

lemma platform_from_plain:
  assumes "CHR '':'' \<notin> set p" "CHR 0x0A \<notin> set p" "q @ p \<noteq> []" "version_epoch_mac (CHR '':'' # t) = Some vem"
  shows "platform_from q (p @ CHR '':'' # t) = Some (q @ p, vem)"
  using assms
proof (induction p arbitrary: q)
  case (Cons c p)
  then have "version_epoch_mac (c # p @ CHR '':'' # t) = None" by (auto simp: version_epoch_mac_def)
  then show ?case using Cons by auto
qed simp

text \<open>What a header says: the two regular expressions together, with the numbers converted.\<close>

definition parse_signature :: "string option \<Rightarrow> (int \<times> string \<times> int \<times> int \<times> string) option" where
  "parse_signature h = (case SIG_HEADER_RE (case h of None \<Rightarrow> [] | Some s \<Rightarrow> s) of
     None \<Rightarrow> None
   | Some (g, content) \<Rightarrow> (case SIG_CONTENT_V1_RE content of
       None \<Rightarrow> None
     | Some (platform, v, ep, mac) \<Rightarrow> (case (py_int_str g, py_int_str v, py_int_str ep) of
         (Inr gv, Inr version, Inr epoch) \<Rightarrow> Some (gv, platform, version, epoch, mac) | _ \<Rightarrow> None)))"

lemma parse_signature_nonneg:
  assumes "parse_signature h = Some (gv, platform, version, epoch, mac)"
  shows "0 \<le> gv" "0 \<le> version" "0 \<le> epoch"
proof -
  obtain g content v ep where g: "SIG_HEADER_RE (case h of None \<Rightarrow> [] | Some s \<Rightarrow> s) = Some (g, content)"
    and c: "SIG_CONTENT_V1_RE content = Some (platform, v, ep, mac)"
    and n: "py_int_str g = Inr gv" "py_int_str v = Inr version" "py_int_str ep = Inr epoch"
    using assms by (auto simp: parse_signature_def split: option.splits prod.splits sum.splits)
  obtain r where "number_field (case h of None \<Rightarrow> [] | Some s \<Rightarrow> s) = Some (g, r)"
    using g by (auto simp: SIG_HEADER_RE_def split: option.splits)
  then show "0 \<le> gv" using n(1) by (metis number_fieldE sum.inject(2))
  obtain t where "version_epoch_mac t = Some (v, ep, mac)" using platform_fromE c by (force simp: SIG_CONTENT_V1_RE_def)
  then show "0 \<le> version" "0 \<le> epoch" using n(2,3) by (metis version_epoch_macE sum.inject(2))+
qed

text \<open>The key of a client and the MAC it computes.\<close>

definition client_key :: "sign_env \<Rightarrow> int \<Rightarrow> string \<Rightarrow> int \<Rightarrow> string" where
  "client_key e gv platform version = se_hmac e (se_secret e) (token_identifier gv platform version)"

definition client_mac :: "sign_env \<Rightarrow> int \<Rightarrow> string \<Rightarrow> int \<Rightarrow> int \<Rightarrow> string \<Rightarrow> string" where
  "client_mac e gv platform version epoch payload = se_hmac e (client_key e gv platform version) (epoch_wrap epoch payload)"

text \<open>What \<open>valid_signature\<close> returns, without its intermediate steps.\<close>

definition signature_accepted :: "sign_env \<Rightarrow> string \<Rightarrow> string option \<Rightarrow> (int \<times> string \<times> int \<times> int) option" where
  "signature_accepted e payload h = (case parse_signature h of
     None \<Rightarrow> None
   | Some (gv, platform, version, epoch, mac) \<Rightarrow>
       if gv \<le> 1 \<and> mac = client_mac e gv platform version epoch payload then Some (gv, platform, version, epoch) else None)"

definition rejected :: "signing_result \<Rightarrow> bool" where
  "rejected r \<longleftrightarrow> \<not> sg_valid_hmac r \<and> (\<exists>err field. map_of (sg_errors r) (err, field) \<noteq> None \<and> err \<noteq> EXPIRED_TOKEN)"

definition accepted :: "sign_env \<Rightarrow> string option \<Rightarrow> int \<times> string \<times> int \<times> int \<Rightarrow> signing_result \<Rightarrow> bool" where
  "accepted e field = (\<lambda>(gv, platform, version, epoch) r.
     sg_valid_hmac r \<and> sg_global_version r = gv \<and> sg_platform r = Some platform \<and> sg_version r = version \<and>
     sg_errors r = (if valid_epoch e epoch then [] else [((EXPIRED_TOKEN, field), EpochDetails epoch)]))"

lemma check_mac_accepted:
  assumes "gv \<le> 1" "sg_errors r = (if valid_epoch e epoch then [] else [((EXPIRED_TOKEN, field), EpochDetails epoch)])"
    and "sg_global_version r = gv" "sg_platform r = Some platform" "sg_version r = version"
  shows "\<exists>r'. check_mac e payload field gv platform version epoch mac r = Inr r' \<and> sg_ignored_errors r' = sg_ignored_errors r \<and>
    (if mac = client_mac e gv platform version epoch payload then accepted e field (gv, platform, version, epoch) r' else rejected r')"
  using assms
  by (auto simp: check_mac_def get_secret_token_def versioned_hmac_def GLOBAL_TOKEN_VERSION_def client_mac_def client_key_def
      Let_def accepted_def rejected_def add_error_def)

lemma valid_signature_decided:
  "\<exists>r. valid_signature e payload h field = Inr r \<and> sg_ignored_errors r = [] \<and>
     (case signature_accepted e payload h of None \<Rightarrow> rejected r | Some x \<Rightarrow> accepted e field x r)"
proof (cases "SIG_HEADER_RE (case h of None \<Rightarrow> [] | Some s \<Rightarrow> s)")
  case None
  then show ?thesis
    by (auto simp: valid_signature_def signature_accepted_def parse_signature_def rejected_def add_error_def signing_result0_def)
next
  case (Some gc)
  obtain g content where gc: "gc = (g, content)" by (cases gc)
  obtain r where "number_field (case h of None \<Rightarrow> [] | Some s \<Rightarrow> s) = Some (g, r)"
    using Some gc by (auto simp: SIG_HEADER_RE_def split: option.splits)
  then obtain gv where gv: "py_int_str g = Inr gv" by (rule number_fieldE)
  show ?thesis
  proof (cases "SIG_CONTENT_V1_RE content")
    case None
    then show ?thesis using Some gc gv
      by (auto simp: valid_signature_def signature_accepted_def parse_signature_def check_content_def rejected_def add_error_def
          signing_result0_def Let_def split: option.splits)
  next
    case (Some pvem)
    obtain platform v ep mac where p: "pvem = (platform, v, ep, mac)" by (cases pvem)
    obtain t where "version_epoch_mac t = Some (v, ep, mac)" using platform_fromE Some p by (force simp: SIG_CONTENT_V1_RE_def)
    then obtain version epoch where n: "py_int_str v = Inr version" "py_int_str ep = Inr epoch" by (rule version_epoch_macE)
    have parsed: "parse_signature h = Some (gv, platform, version, epoch, mac)"
      using \<open>SIG_HEADER_RE _ = Some gc\<close> gc gv Some p n by (simp add: parse_signature_def)
    show ?thesis
    proof (cases "gv \<le> 1")
      case False
      then show ?thesis using \<open>SIG_HEADER_RE _ = Some gc\<close> gc gv parsed
        by (auto simp: valid_signature_def signature_accepted_def GLOBAL_TOKEN_VERSION_def rejected_def add_error_def
            signing_result0_def Let_def)
    next
      case True
      define r1 where "r1 = signing_result0\<lparr>sg_global_version := gv, sg_platform := Some platform, sg_version := version,
        sg_epoch := Some epoch, sg_mac := Some mac\<rparr>"
      define r2 where "r2 = (if valid_epoch e epoch then r1 else add_error EXPIRED_TOKEN field (EpochDetails epoch) r1)"
      have eq: "valid_signature e payload h field = check_mac e payload field gv platform version epoch mac r2"
        using \<open>SIG_HEADER_RE _ = Some gc\<close> gc gv Some p n True
        by (simp add: valid_signature_def check_content_def GLOBAL_TOKEN_VERSION_def is_invalid_token_def Let_def r1_def r2_def)
      show ?thesis unfolding eq signature_accepted_def parsed using True
        check_mac_accepted [OF True, of r2 e epoch field platform version payload mac]
        by (auto simp: r2_def r1_def add_error_def signing_result0_def)
    qed
  qed
qed

subsection \<open>Whole requests\<close>

definition error_codes :: "signing_result \<Rightarrow> sig_error set" where
  "error_codes r = (fst \<circ> fst) ` set (sg_errors r)"

definition skew_ignored :: "signing_result \<Rightarrow> bool" where
  "skew_ignored r \<longleftrightarrow> sg_platform r = Some ''android'' \<and> sg_version r = 1"

lemma keys_dict_update: "fst ` set (dict_update d d') = fst ` set d \<union> fst ` set d'"
proof (induction d' arbitrary: d)
  case (Cons kv d')
  have "fst ` set (AList.update (fst kv) (snd kv) d) = insert (fst kv) (fst ` set d)"
    using update_keys [of "fst kv" "snd kv" d] by (metis insert_absorb list.set_map set_append list.simps(15) empty_set Un_insert_right sup_bot_right)
  then show ?case using Cons [of "AList.update (fst kv) (snd kv) d"] by (simp add: dict_update_def case_prod_beta')
qed (simp add: dict_update_def)

lemma error_codes_add [simp]: "error_codes (add_error err field details r) = insert err (error_codes r)"
  using arg_cong [OF keys_dict_update [of "sg_errors r" "[((err, field), details)]"], of "image fst"]
  by (simp add: error_codes_def add_error_def dict_update_def image_comp image_Un)

lemma error_codes_update [simp]:
  "error_codes (sig_update r other) = error_codes r \<union> error_codes other \<union> (if mismatch r other = None then {} else {MULTISIG_MISMATCH})"
proof -
  have codes: "error_codes (r\<lparr>sg_errors := dict_update (sg_errors r) (sg_errors other)\<rparr>) = error_codes r \<union> error_codes other"
    using arg_cong [OF keys_dict_update [of "sg_errors r" "sg_errors other"], of "image fst"]
    by (simp add: error_codes_def image_comp image_Un)
  have kept: "error_codes (r'\<lparr>sg_valid_hmac := b\<rparr>) = error_codes r'" for r' b by (simp add: error_codes_def)
  have same: "mismatch (r\<lparr>sg_errors := d\<rparr>) other = mismatch r other" for d by (simp add: mismatch_def)
  show ?thesis by (cases "mismatch r other") (auto simp: sig_update_def Let_def kept same codes)
qed

lemma sig_update_fields [simp]:
  "sg_platform (sig_update r other) = sg_platform r" "sg_version (sig_update r other) = sg_version r"
  "sg_ignored_errors (sig_update r other) = sg_ignored_errors r"
  "sg_valid_hmac (sig_update r other) = (sg_valid_hmac r \<and> sg_valid_hmac other)"
  by (simp_all add: sig_update_def Let_def add_error_def split: option.splits)

text \<open>After \<open>VSigned\<close>, old timestamps of the first Android client are the only errors that do not count.\<close>

lemma valid_ignoring_skew:
  assumes "sg_ignored_errors r = []"
  shows "sig_is_valid (ignore_skew r) \<longleftrightarrow> sg_valid_hmac r \<and> error_codes r \<subseteq> (if skew_ignored r then {EXPIRED_TOKEN} else {})"
  using assms
  by (auto simp: sig_is_valid_def ignore_skew_def has_errors_def add_ignore_def error_codes_def skew_ignored_def)

lemma accepted_codes:
  "accepted e field (gv, platform, version, epoch) r \<Longrightarrow>
     error_codes r = (if valid_epoch e epoch then {} else {EXPIRED_TOKEN}) \<and> sg_valid_hmac r \<and>
     sg_global_version r = gv \<and> sg_platform r = Some platform \<and> sg_version r = version"
  by (auto simp: accepted_def error_codes_def)

lemma rejected_hmac: "rejected r \<Longrightarrow> \<not> sg_valid_hmac r"
  by (simp add: rejected_def)

text \<open>When a request counts as properly signed.\<close>

definition properly_signed :: "sign_env \<Rightarrow> signed_request \<Rightarrow> bool" where
  "properly_signed e rq =
     (case signature_accepted e (ua_payload rq) (rq_headers rq SIGNATURE_UA_HEADER) of
        None \<Rightarrow> False
      | Some (gv, platform, version, epoch) \<Rightarrow>
          (valid_epoch e epoch \<or> platform = ''android'' \<and> version = 1) \<and>
          (has_body_to_sign rq \<longrightarrow>
            (case signature_accepted e (''Body:'' @ rq_body rq) (rq_headers rq SIGNATURE_BODY_HEADER) of
               None \<Rightarrow> False
             | Some (gv', platform', version', epoch') \<Rightarrow>
                 gv' = gv \<and> platform' = platform \<and> version' = version \<and>
                 (valid_epoch e epoch' \<or> platform = ''android'' \<and> version = 1))))"

lemma VSigned_decided: "\<exists>r. VSigned e rq = Inr r \<and> (sig_is_valid r \<longleftrightarrow> properly_signed e rq)"
proof -
  obtain ua where ua: "valid_ua_signature e rq = Inr ua" "sg_ignored_errors ua = []"
    "case signature_accepted e (ua_payload rq) (rq_headers rq SIGNATURE_UA_HEADER) of
       None \<Rightarrow> rejected ua | Some x \<Rightarrow> accepted e (Some ''ua'') x ua"
    using valid_signature_decided unfolding valid_ua_signature_def by blast
  obtain bd where bd: "valid_post_signature e rq = Inr bd"
    "case signature_accepted e (''Body:'' @ rq_body rq) (rq_headers rq SIGNATURE_BODY_HEADER) of
       None \<Rightarrow> rejected bd | Some x \<Rightarrow> accepted e (Some ''body'') x bd"
    using valid_signature_decided unfolding valid_post_signature_def by blast
  show ?thesis
  proof (cases "has_body_to_sign rq")
    case False
    have "VSigned e rq = Inr (ignore_skew ua)" using ua(1) False by (simp add: VSigned_def)
    moreover have "sig_is_valid (ignore_skew ua) \<longleftrightarrow> properly_signed e rq"
      unfolding valid_ignoring_skew [OF ua(2)] properly_signed_def using ua(3) False
      by (auto simp: skew_ignored_def dest!: accepted_codes rejected_hmac split: option.splits if_splits)
    ultimately show ?thesis by blast
  next
    case True
    have "VSigned e rq = Inr (ignore_skew (sig_update ua bd))" using ua(1) bd(1) True by (simp add: VSigned_def)
    moreover have "sig_is_valid (ignore_skew (sig_update ua bd)) \<longleftrightarrow> properly_signed e rq"
    proof (cases "signature_accepted e (ua_payload rq) (rq_headers rq SIGNATURE_UA_HEADER) = None \<or>
        signature_accepted e (''Body:'' @ rq_body rq) (rq_headers rq SIGNATURE_BODY_HEADER) = None")
      case True
      then show ?thesis using ua bd \<open>has_body_to_sign rq\<close> valid_ignoring_skew [of "sig_update ua bd"]
        by (auto simp: properly_signed_def dest!: rejected_hmac split: option.splits)
    next
      case False
      then obtain gv platform version epoch gv' platform' version' epoch' where
        x: "signature_accepted e (ua_payload rq) (rq_headers rq SIGNATURE_UA_HEADER) = Some (gv, platform, version, epoch)"
        and y: "signature_accepted e (''Body:'' @ rq_body rq) (rq_headers rq SIGNATURE_BODY_HEADER) = Some (gv', platform', version', epoch')"
        by auto
      note codes = accepted_codes [of e _ gv platform version epoch ua] accepted_codes [of e _ gv' platform' version' epoch' bd]
      have same: "mismatch ua bd = None \<longleftrightarrow> gv' = gv \<and> platform' = platform \<and> version' = version"
        using ua(3) bd(2) x y codes by (auto simp: mismatch_def)
      show ?thesis
        using ua(2,3) bd(2) x y codes \<open>has_body_to_sign rq\<close> valid_ignoring_skew [of "sig_update ua bd"] same
        by (auto simp: properly_signed_def skew_ignored_def)
    qed
    ultimately show ?thesis by blast
  qed
qed

subsection \<open>What a signature binds\<close>

lemma str_of_int_inj: "py_str_int n = py_str_int n' \<Longrightarrow> n = n'"
  by (metis py_int_str_py_str_int sum.inject(2))

lemma digits_prefix_unique:
  assumes "0 \<le> n" "0 \<le> n'" "char_digit c = None" "py_str_int n @ c # r = py_str_int n' @ c # r'"
  shows "n = n' \<and> r = r'"
proof -
  have "py_str_int n = py_str_int n'"
    using takeWhile_digits [OF assms(1,3), of r] takeWhile_digits [OF assms(2,3), of r'] assms(4) by metis
  then have "n = n'" by (rule str_of_int_inj)
  then show ?thesis using assms(4) by simp
qed

lemma epoch_wrap_inj: "0 \<le> t \<Longrightarrow> 0 \<le> t' \<Longrightarrow> epoch_wrap t payload = epoch_wrap t' payload' \<Longrightarrow> t = t' \<and> payload = payload'"
  using digits_prefix_unique [of t t' "CHR ''|''" payload payload'] by (simp add: epoch_wrap_def)

lemma digits_suffix_unique:
  assumes "0 \<le> n" "0 \<le> n'" "p @ CHR '':'' # py_str_int n = p' @ CHR '':'' # py_str_int n'"
  shows "p = p' \<and> n = n'"
proof -
  have colon: "CHR '':'' \<notin> set (py_str_int k)" if "0 \<le> k" for k using digits_py_str_int [OF that, of "CHR '':''"] by auto
  have rev_split: "takeWhile (\<lambda>c. c \<noteq> CHR '':'') (rev (q @ CHR '':'' # py_str_int k)) = rev (py_str_int k)" if "0 \<le> k" for q k
    using colon [OF that] by (auto simp: takeWhile_append takeWhile_eq_all_conv)
  have "rev (py_str_int n) = rev (py_str_int n')" using rev_split [OF assms(1), of p] rev_split [OF assms(2), of p'] assms(3) by metis
  then have "n = n'" using str_of_int_inj by simp
  then show ?thesis using assms(3) by simp
qed

lemma token_identifier_inj:
  assumes "0 \<le> g" "0 \<le> g'" "0 \<le> v" "0 \<le> v'" "token_identifier g p v = token_identifier g' p' v'"
  shows "g = g' \<and> p = p' \<and> v = v'"
proof -
  have "g = g' \<and> p @ CHR '':'' # py_str_int v = p' @ CHR '':'' # py_str_int v'"
    using digits_prefix_unique [OF assms(1,2), of "CHR '':''"] assms(5) by (simp add: token_identifier_def)
  then show ?thesis using digits_suffix_unique [OF assms(3,4)] by blast
qed

lemma signature_acceptedE:
  assumes "signature_accepted e payload h = Some (gv, platform, version, epoch)"
  obtains mac where "parse_signature h = Some (gv, platform, version, epoch, mac)"
    "mac = client_mac e gv platform version epoch payload" "0 \<le> gv" "0 \<le> version" "0 \<le> epoch"
  using assms parse_signature_nonneg [of h] unfolding signature_accepted_def
  by (auto split: option.splits if_splits)

text \<open>The inputs on which the two signatures are computed.\<close>

definition mac_inputs :: "sign_env \<Rightarrow> int \<times> string \<times> int \<times> int \<Rightarrow> string \<Rightarrow> (string \<times> string) set" where
  "mac_inputs e = (\<lambda>(gv, platform, version, epoch) payload.
     {(se_secret e, token_identifier gv platform version), (client_key e gv platform version, epoch_wrap epoch payload)})"

lemma client_mac_inj:
  assumes "inj_on (\<lambda>(k, m). se_hmac e k m) (mac_inputs e (gv, p, v, t) payload \<union> mac_inputs e (gv', p', v', t') payload')"
    and "client_mac e gv p v t payload = client_mac e gv' p' v' t' payload'"
    and "0 \<le> gv" "0 \<le> gv'" "0 \<le> v" "0 \<le> v'" "0 \<le> t" "0 \<le> t'"
  shows "(gv, p, v, t) = (gv', p', v', t') \<and> payload = payload'"
proof -
  have eq: "k = k' \<and> m = m'" if "se_hmac e k m = se_hmac e k' m'"
    "(k, m) \<in> mac_inputs e (gv, p, v, t) payload \<union> mac_inputs e (gv', p', v', t') payload'"
    "(k', m') \<in> mac_inputs e (gv, p, v, t) payload \<union> mac_inputs e (gv', p', v', t') payload'" for k m k' m'
    using inj_onD [OF assms(1), of "(k, m)" "(k', m')"] that by simp
  have outer: "client_key e gv p v = client_key e gv' p' v' \<and> epoch_wrap t payload = epoch_wrap t' payload'"
    using assms(2) by (intro eq) (auto simp: client_mac_def mac_inputs_def)
  then have "token_identifier gv p v = token_identifier gv' p' v'"
    using eq [of "se_secret e" "token_identifier gv p v" "se_secret e" "token_identifier gv' p' v'"]
    by (auto simp: client_key_def mac_inputs_def)
  then show ?thesis using token_identifier_inj [OF assms(3-6)] epoch_wrap_inj [OF assms(7,8)] outer by blast
qed

subsection \<open>Signing and verifying\<close>

lemma sign_v1_parsed:
  assumes "sign_v1_message e payload platform version None = Inr h"
    and "platform \<noteq> []" "CHR '':'' \<notin> set platform" "CHR 0x0A \<notin> set platform" "0 \<le> version" "0 \<le> se_now e"
    and "CHR 0x0A \<notin> set (client_mac e 1 platform version (se_now e) payload)"
  shows "parse_signature (Some h) = Some (1, platform, version, se_now e, client_mac e 1 platform version (se_now e) payload)"
proof -
  define mac where "mac = client_mac e 1 platform version (se_now e) payload"
  define t where "t = py_str_int version @ CHR '':'' # py_str_int (se_now e) @ CHR '':'' # mac"
  have h: "h = ''1:'' @ platform @ CHR '':'' # t"
    using assms(1) by (simp add: sign_v1_message_def get_secret_token_def versioned_hmac_def GLOBAL_TOKEN_VERSION_def Let_def
        t_def mac_def client_mac_def client_key_def)
  have vem: "version_epoch_mac (CHR '':'' # t) = Some (py_str_int version, py_str_int (se_now e), mac)"
    using assms(5-7) by (simp add: version_epoch_mac_def t_def number_field_py_str_int rest_of_line_id mac_def)
  have nl: "CHR 0x0A \<notin> set (platform @ CHR '':'' # t)"
    using assms(4-7) digits_py_str_int [of version "CHR 0x0A"] digits_py_str_int [of "se_now e" "CHR 0x0A"]
    by (auto simp: t_def mac_def char_digit_def)
  have "py_str_int 1 = ''1''" by code_simp
  then have one: "''1:'' @ s = py_str_int 1 @ CHR '':'' # s" for s by simp
  have "SIG_HEADER_RE h = Some (py_str_int 1, platform @ CHR '':'' # t)"
    unfolding h one SIG_HEADER_RE_def using number_field_py_str_int [of 1] rest_of_line_id [OF nl] by simp
  moreover have "SIG_CONTENT_V1_RE (platform @ CHR '':'' # t) = Some (platform, py_str_int version, py_str_int (se_now e), mac)"
    using platform_from_plain [OF assms(3,4) _ vem, of "[]"] assms(2) by (simp add: SIG_CONTENT_V1_RE_def)
  ultimately show ?thesis by (simp add: parse_signature_def mac_def)
qed

lemma signature_accepted_now [simp]: "signature_accepted (e\<lparr>se_now := t\<rparr>) payload h = signature_accepted e payload h"
  by (simp add: signature_accepted_def client_mac_def client_key_def split: option.splits)

lemma properly_signed_body:
  assumes "properly_signed e rq" "has_body_to_sign rq"
  obtains gv platform version epoch where
    "signature_accepted e (''Body:'' @ rq_body rq) (rq_headers rq SIGNATURE_BODY_HEADER) = Some (gv, platform, version, epoch)"
    "valid_epoch e epoch \<or> platform = ''android'' \<and> version = 1"
  using assms by (auto simp: properly_signed_def split: option.splits)

subsection \<open>A sample client\<close>

definition sample_sign_env :: sign_env where
  "sample_sign_env = \<lparr>se_hmac = (\<lambda>k m. filter (\<lambda>c. c \<noteq> CHR 0x0A) (k @ ''/'' @ m)), se_secret = ''s'', se_now = 1000\<rparr>"

definition sample_signature :: "string \<Rightarrow> string" where
  "sample_signature payload = (case sign_v1_message sample_sign_env payload ''ios'' 2 None of Inr h \<Rightarrow> h | Inl _ \<Rightarrow> [])"

definition sample_signed :: signed_request where
  "sample_signed = \<lparr>rq_method = ''post'',
     rq_headers = (\<lambda>h. if h = ''User-Agent'' then Some ''app''
       else if h = SIGNATURE_UA_HEADER then Some (sample_signature ''User-Agent:app|Client-Vendor-ID:'')
       else if h = SIGNATURE_BODY_HEADER then Some (sample_signature ''Body:hi'') else None),
     rq_body = ''hi''\<rparr>"

lemma sample_inputs:
  "mac_inputs sample_sign_env (1, ''ios'', 2, 1000) (''Body:'' @ rq_body sample_signed) =
     {(''s'', ''1:ios:2''), (''s/1:ios:2'', ''Epoch:1000|Body:hi'')}"
proof -
  have "py_str_int 1 = ''1''" "py_str_int 2 = ''2''" "py_str_int 1000 = ''1000''" by code_simp+
  then show ?thesis
    by (simp add: mac_inputs_def client_key_def sample_sign_env_def token_identifier_def epoch_wrap_def sample_signed_def)
qed

lemma sample_properly_signed:
  "properly_signed sample_sign_env sample_signed" "properly_signed (sample_sign_env\<lparr>se_now := 1100\<rparr>) sample_signed"
  by code_simp+

lemma sample_login_post: "has_body_to_sign sample_signed"
  by code_simp

lemma sample_parsed:
  "parse_signature (rq_headers sample_signed SIGNATURE_BODY_HEADER) = Some (1, ''ios'', 2, 1000, ''s/1:ios:2/Epoch:1000|Body:hi'')"
  by code_simp

text \<open>
  (C31) Logging in through the signed API. The login never fails with an exception. A request that is not
  properly signed is answered with the status 403 and logs nobody in, and a properly signed one is treated as one that
  needs no signature. Properly signed means: the header over the user agent, and for \<open>POST\<close> and \<open>PUT\<close> the one
  over the body, name the same client, carry the MAC of this client over their text and their time stamp, and
  are at most five minutes off the server's clock, except that the clock of version 1 of the Android client does not matter.
\<close>

theorem login_needs_signature:
  "POST_login e rq ctx = Inr (if properly_signed e rq then handle_login rq None ctx else Aborted 403 ''SIGNATURE'')"
proof -
  obtain r where "VSigned e rq = Inr r" "sig_is_valid r \<longleftrightarrow> properly_signed e rq" using VSigned_decided by blast
  then show ?thesis by (simp add: POST_login_def handle_login_def)
qed

text \<open>
  (C32) A signature binds the request. When two requests with bodies are accepted, at any two times, and their
  signatures carry the same MAC, then they have the same body, time stamp and client, unless HMAC collides on
  the inputs concerned; so a captured MAC proves nothing about another body, and five minutes after its time
  stamp it is of no use (but for the exempted client).
\<close>

theorem signature_binds_request:
  assumes "VSigned e rq = Inr r" "sig_is_valid r" "has_body_to_sign rq"
    and "VSigned (e\<lparr>se_now := later\<rparr>) rq' = Inr r'" "sig_is_valid r'" "has_body_to_sign rq'"
    and "parse_signature (rq_headers rq SIGNATURE_BODY_HEADER) = Some (gv, platform, version, epoch, mac)"
    and "parse_signature (rq_headers rq' SIGNATURE_BODY_HEADER) = Some (gv', platform', version', epoch', mac)"
    and "inj_on (\<lambda>(k, m). se_hmac e k m)
      (mac_inputs e (gv, platform, version, epoch) (''Body:'' @ rq_body rq) \<union>
       mac_inputs e (gv', platform', version', epoch') (''Body:'' @ rq_body rq'))"
  shows "rq_body rq' = rq_body rq \<and> (gv', platform', version', epoch') = (gv, platform, version, epoch) \<and>
    (\<bar>later - epoch\<bar> < 300 \<or> platform = ''android'' \<and> version = 1)"
proof -
  have "properly_signed e rq" "properly_signed (e\<lparr>se_now := later\<rparr>) rq'"
    using VSigned_decided [of e rq] VSigned_decided [of "e\<lparr>se_now := later\<rparr>" rq'] assms(1,2,4,5) by auto
  then obtain x y where x: "signature_accepted e (''Body:'' @ rq_body rq) (rq_headers rq SIGNATURE_BODY_HEADER) = Some x"
    and y: "signature_accepted e (''Body:'' @ rq_body rq') (rq_headers rq' SIGNATURE_BODY_HEADER) = Some y"
    "valid_epoch (e\<lparr>se_now := later\<rparr>) (snd (snd (snd y))) \<or> fst (snd y) = ''android'' \<and> fst (snd (snd y)) = 1"
    by (elim properly_signed_body) (use assms(3,6) in auto)
  have mac: "client_mac e gv platform version epoch (''Body:'' @ rq_body rq) = client_mac e gv' platform' version' epoch' (''Body:'' @ rq_body rq')"
    using x y(1) assms(7,8) by (auto simp: signature_accepted_def split: if_splits)
  have "y = (gv', platform', version', epoch')" using y(1) assms(8) by (auto simp: signature_accepted_def split: if_splits)
  then show ?thesis
    using client_mac_inj [OF assms(9) mac] parse_signature_nonneg [OF assms(7)] parse_signature_nonneg [OF assms(8)] y(2)
    by (auto simp: valid_epoch_def)
qed

theorem signature_binds_request_witness:
  "rq_body sample_signed = rq_body sample_signed \<and> ((1 :: int), ''ios'', (2 :: int), (1000 :: int)) = (1, ''ios'', 2, 1000) \<and>
    (\<bar>1100 - 1000\<bar> < (300 :: int) \<or> ''ios'' = ''android'' \<and> (2 :: int) = 1)"
proof -
  obtain r where r: "VSigned sample_sign_env sample_signed = Inr r" "sig_is_valid r"
    using VSigned_decided [of sample_sign_env sample_signed] by (metis sample_properly_signed(1))
  obtain r' where r': "VSigned (sample_sign_env\<lparr>se_now := 1100\<rparr>) sample_signed = Inr r'" "sig_is_valid r'"
    using VSigned_decided [of "sample_sign_env\<lparr>se_now := 1100\<rparr>" sample_signed] by (metis sample_properly_signed(2))
  show ?thesis
  proof (rule signature_binds_request [OF r sample_login_post r' sample_login_post sample_parsed sample_parsed])
    show "inj_on (\<lambda>(k, m). se_hmac sample_sign_env k m) (mac_inputs sample_sign_env (1, ''ios'', 2, 1000) (''Body:'' @ rq_body sample_signed) \<union>
        mac_inputs sample_sign_env (1, ''ios'', 2, 1000) (''Body:'' @ rq_body sample_signed))"
      unfolding sample_inputs by (simp add: sample_sign_env_def)
  qed
qed

text \<open>
  (C33) Signed requests are accepted. A request whose headers were made by \<open>sign_v1_message\<close> over its user agent and
  its body, by a client whose clock is less than five minutes off, is valid.
\<close>

theorem signed_request_accepted:
  assumes "sign_v1_message (e\<lparr>se_now := t\<rparr>) (ua_payload rq) platform version None = Inr h"
    and "sign_v1_message (e\<lparr>se_now := t'\<rparr>) (''Body:'' @ rq_body rq) platform version None = Inr h'"
    and "rq_headers rq SIGNATURE_UA_HEADER = Some h" "rq_headers rq SIGNATURE_BODY_HEADER = Some h'"
    and "platform \<noteq> []" "CHR '':'' \<notin> set platform" "CHR 0x0A \<notin> set platform" "0 \<le> version"
    and "0 \<le> t" "\<bar>se_now e - t\<bar> < 300" "0 \<le> t'" "\<bar>se_now e - t'\<bar> < 300"
    and "\<forall>k m. CHR 0x0A \<notin> set (se_hmac e k m)"
  shows "\<exists>r. VSigned e rq = Inr r \<and> sig_is_valid r"
proof -
  have mac: "client_mac (e\<lparr>se_now := u\<rparr>) = client_mac e" for u by (simp add: fun_eq_iff client_mac_def client_key_def)
  note parsed = sign_v1_parsed [OF assms(1,5-8)] sign_v1_parsed [OF assms(2,5-8)]
  have "signature_accepted e (ua_payload rq) (Some h) = Some (1, platform, version, t)"
    using parsed(1) assms(9,13) by (simp add: signature_accepted_def mac) (simp add: client_mac_def)
  moreover have "signature_accepted e (''Body:'' @ rq_body rq) (Some h') = Some (1, platform, version, t')"
    using parsed(2) assms(11,13) by (simp add: signature_accepted_def mac) (simp add: client_mac_def)
  ultimately have "properly_signed e rq"
    using assms(3,4,10,12) by (simp add: properly_signed_def valid_epoch_def)
  then show ?thesis using VSigned_decided [of e rq] by auto
qed

theorem signed_request_accepted_witness: "\<exists>r. VSigned sample_sign_env sample_signed = Inr r \<and> sig_is_valid r"
proof (rule signed_request_accepted [where t = 1000 and t' = 1000 and platform = "''ios''" and version = 2
      and h = "sample_signature ''User-Agent:app|Client-Vendor-ID:''" and h' = "sample_signature ''Body:hi''"])
  show "sign_v1_message (sample_sign_env\<lparr>se_now := 1000\<rparr>) (ua_payload sample_signed) ''ios'' 2 None =
      Inr (sample_signature ''User-Agent:app|Client-Vendor-ID:'')" by code_simp
  show "sign_v1_message (sample_sign_env\<lparr>se_now := 1000\<rparr>) (''Body:'' @ rq_body sample_signed) ''ios'' 2 None =
      Inr (sample_signature ''Body:hi'')" by code_simp
qed (simp_all add: sample_sign_env_def sample_signed_def SIGNATURE_UA_HEADER_def SIGNATURE_BODY_HEADER_def)

text \<open>
  The text that is signed for the user agent does not separate the two headers: the same signature is valid
  for different values of them.
\<close>

lemma ua_payload_ambiguous:
  assumes "rq_headers rq ''User-Agent'' = Some (a @ ''|Client-Vendor-ID:'' @ b)" "rq_headers rq ''Client-Vendor-ID'' = Some c"
    and "rq_headers rq' ''User-Agent'' = Some a" "rq_headers rq' ''Client-Vendor-ID'' = Some (b @ ''|Client-Vendor-ID:'' @ c)"
  shows "ua_payload rq = ua_payload rq'"
  using assms by (simp add: ua_payload_def)

end
