(* ===== verification/OneTimePassword.thy ===== *)
theory OneTimePassword
  imports RateLimit Lock Signing
begin

section \<open>One-time passwords\<close>

text \<open>
  Models \<open>r2/lib/totp.py\<close> and the validator \<open>VOneTimePassword\<close> of \<open>r2/lib/validator/validator.py\<close>, with the base-32
  codec of Python's \<open>base64\<close>. HMAC-SHA1 is a parameter. Bytes are \<open>8 word\<close>s, the truncated digest is a
  \<open>32 word\<close> and the counter a \<open>64 word\<close> as \<open>struct.pack\<close> writes it. The cache that marks passwords as used is a
  parameter; the locale \<open>mark_store\<close> states what memcached promises about \<open>add\<close> with a life time. Tries are
  counted by the theory \<open>RateLimit\<close>.
\<close>

type_synonym byte = "8 word"

subsection \<open>Base 32\<close>

definition b32alphabet :: string where
  "b32alphabet = ''ABCDEFGHIJKLMNOPQRSTUVWXYZ234567''"

definition b32rev :: "char \<Rightarrow> nat option" where
  "b32rev c = (let i = length (takeWhile (\<lambda>d. d \<noteq> c) b32alphabet) in if i < 32 then Some i else None)"

fun bytes_be :: "nat \<Rightarrow> int \<Rightarrow> byte list" where
  "bytes_be 0 x = []"
| "bytes_be (Suc k) x = word_of_int (x div 256 ^ k) # bytes_be k x"

definition number_be :: "byte list \<Rightarrow> int" where
  "number_be bs = foldl (\<lambda>a b. a * 256 + uint b) 0 bs"

fun digits32 :: "nat \<Rightarrow> int \<Rightarrow> string" where
  "digits32 0 x = []"
| "digits32 (Suc k) x = b32alphabet ! nat (x div 32 ^ k mod 32) # digits32 k x"

definition number32 :: "nat list \<Rightarrow> int" where
  "number32 vs = foldl (\<lambda>a v. a * 32 + int v) 0 vs"

function encode_quanta :: "byte list \<Rightarrow> string" where
  "encode_quanta bs = (if length bs < 5 then [] else digits32 8 (number_be (take 5 bs)) @ encode_quanta (drop 5 bs))"
  by pat_completeness auto
termination by (relation "measure length") auto

definition b32encode :: "byte list \<Rightarrow> string" where
  "b32encode s =
     (let leftover = length s mod 5;
          encoded = encode_quanta (if leftover = 0 then s else s @ replicate (5 - leftover) 0);
          pad = (if leftover = 1 then 6 else if leftover = 2 then 4 else if leftover = 3 then 3 else if leftover = 4 then 1 else 0)
      in take (length encoded - pad) encoded @ replicate pad CHR ''='')"

function decode_quanta :: "nat list \<Rightarrow> byte list" where
  "decode_quanta vs = (if length vs < 8 then [] else bytes_be 5 (number32 (take 8 vs)) @ decode_quanta (drop 8 vs))"
  by pat_completeness auto
termination by (relation "measure length") auto

declare encode_quanta.simps [simp del] decode_quanta.simps [simp del]

fun b32values :: "string \<Rightarrow> nat list result" where
  "b32values [] = Inr []"
| "b32values (c # cs) = (case b32rev c of None \<Rightarrow> Inl (TypeError ''Non-base32 digit found'')
     | Some v \<Rightarrow> bindr (b32values cs) (\<lambda>vs. Inr (v # vs)))"

definition b32decode :: "string \<Rightarrow> byte list result" where
  "b32decode s =
     (if length s mod 8 \<noteq> 0 then Inl (TypeError ''Incorrect padding'')
      else let padchars = length (takeWhile (\<lambda>c. c = CHR ''='') (rev s)) in
        bindr (b32values (take (length s - padchars) s)) (\<lambda>vs.
        let rest = drop (length vs div 8 * 8) vs;
            last = bytes_be 5 (number32 (rest @ replicate (8 - length rest) 0)) in
        if padchars = 0 then Inr (decode_quanta vs)
        else if padchars = 1 then Inr (decode_quanta vs @ take 4 last)
        else if padchars = 3 then Inr (decode_quanta vs @ take 3 last)
        else if padchars = 4 then Inr (decode_quanta vs @ take 2 last)
        else if padchars = 6 then Inr (decode_quanta vs @ take 1 last)
        else Inl (TypeError ''Incorrect padding'')))"

subsection \<open>Passwords\<close>

type_synonym hmac_sha1 = "byte list \<Rightarrow> byte list \<Rightarrow> byte list"

definition struct_error :: py_error where
  "struct_error = PyException ''struct.error''"

text \<open>\<open>struct.pack('>q', n)\<close> and \<open>struct.unpack('>L', bs)\<close>.\<close>

definition pack_q :: "int \<Rightarrow> byte list result" where
  "pack_q n = (if - (2 ^ 63) \<le> n \<and> n < 2 ^ 63
     then Inr (map (\<lambda>i. ucast (drop_bit (8 * i) (word_of_int n :: 64 word))) (rev [0..<8])) else Inl struct_error)"

definition unpack_L :: "byte list \<Rightarrow> 32 word result" where
  "unpack_L bs = (if length bs = 4 then Inr (fold (\<lambda>b w. push_bit 8 w OR ucast b) bs 0) else Inl struct_error)"

definition zero_pad :: "nat \<Rightarrow> string" where
  "zero_pad n = (let d = digits_of n in replicate (6 - length d) CHR ''0'' @ d)"

definition make_hotp :: "hmac_sha1 \<Rightarrow> string \<Rightarrow> int \<Rightarrow> string result" where
  "make_hotp hmac secret counter =
     bindr (b32decode secret) (\<lambda>key. bindr (pack_q counter) (\<lambda>counter_encoded.
     let hmac_result = hmac key counter_encoded in
     if hmac_result = [] then Inl IndexError
     else let offset = unat (last hmac_result AND 0x0f) in
       bindr (unpack_L (take 4 (drop offset hmac_result))) (\<lambda>code_bits.
       Inr (zero_pad (nat (uint (code_bits AND 0x7fffffff) mod 1000000))))))"

definition PERIOD :: int where
  "PERIOD = 30"

definition make_totp :: "hmac_sha1 \<Rightarrow> string \<Rightarrow> int \<Rightarrow> int option \<Rightarrow> int \<Rightarrow> string result" where
  "make_totp hmac secret skew timestamp now =
     (let ts = (case timestamp of None \<Rightarrow> now | Some t \<Rightarrow> if t = 0 then now else t)
      in make_hotp hmac secret (ts div PERIOD - skew))"

definition generate_secret :: "byte list \<Rightarrow> string" where
  "generate_secret random_bytes = b32encode random_bytes"

subsection \<open>The validator\<close>

definition allowed_skew :: "int list" where
  "allowed_skew = [- 1, 0, 1]"

definition used_key :: "string \<Rightarrow> int \<Rightarrow> string" where
  "used_key id36 n = ''otp:used_'' @ id36 @ ''_'' @ py_str_int n"

text \<open>The clock is read once for every skew.\<close>

fun check_skews :: "hmac_sha1 \<Rightarrow> string \<Rightarrow> string \<Rightarrow> (int \<times> int) list \<Rightarrow> bool result" where
  "check_skews hmac secret password [] = Inr False"
| "check_skews hmac secret password ((skew, t) # xs) =
     bindr (make_totp hmac secret skew None t) (\<lambda>expected_otp.
     if constant_time_compare password expected_otp then Inr True else check_skews hmac secret password xs)"

record otp_times =
  ot_password :: int
  ot_limit :: "int \<times> int \<times> int \<times> int"
  ot_add :: int
  ot_checks :: "int list"

text \<open>The mark stays when an exception is raised, so the state comes with the result.\<close>

definition validate_otp ::
    "(string \<Rightarrow> int \<Rightarrow> int \<Rightarrow> 's \<Rightarrow> 's \<times> bool) \<Rightarrow> hmac_sha1 \<Rightarrow> string \<Rightarrow> string \<Rightarrow> string option \<Rightarrow> otp_times \<Rightarrow> 's
     \<Rightarrow> 's \<times> bool result" where
  "validate_otp add hmac id36 secret password clk s =
     (case password of
        None \<Rightarrow> (s, Inr False)
      | Some p \<Rightarrow> (case py_int_stripped p of
          Inl _ \<Rightarrow> (s, Inr False)
        | Inr n \<Rightarrow>
            let (s', valid_and_unused) = add (used_key id36 n) (PERIOD * (int (length allowed_skew) + 1)) (ot_add clk) s in
            (s', if valid_and_unused then check_skews hmac secret p (zip allowed_skew (ot_checks clk)) else Inr False)))"

definition otp_limit :: "string \<Rightarrow> string \<Rightarrow> rate_limit" where
  "otp_limit id36 current_password = simple_rate_limit (''otp_tries_'' @ id36 @ ''_'' @ current_password) 600 3"

definition check_limit ::
    "'m mc_client \<Rightarrow> (int \<Rightarrow> string) \<Rightarrow> hmac_sha1 \<Rightarrow> bool \<Rightarrow> string \<Rightarrow> string \<Rightarrow> otp_times \<Rightarrow> 'm link list \<Rightarrow> (bool \<times> 'm link list) result" where
  "check_limit mc ep hmac disable_ratelimit id36 secret clk cs =
     (if disable_ratelimit then Inr (True, cs)
      else bindr (make_totp hmac secret 0 None (ot_password clk)) (\<lambda>current_password.
        case ot_limit clk of (t, t1, t2, t3) \<Rightarrow> record_and_check mc ep (otp_limit id36 current_password) t t1 t2 t3 cs))"

text \<open>The error that is set, if any.\<close>

definition VOneTimePassword ::
    "'m mc_client \<Rightarrow> (int \<Rightarrow> string) \<Rightarrow> (string \<Rightarrow> int \<Rightarrow> int \<Rightarrow> 's \<Rightarrow> 's \<times> bool) \<Rightarrow> hmac_sha1 \<Rightarrow> bool \<Rightarrow> bool \<Rightarrow> bool \<Rightarrow> string \<Rightarrow> string
     \<Rightarrow> string option \<Rightarrow> otp_times \<Rightarrow> 'm link list \<Rightarrow> 's \<Rightarrow> (string option \<times> 'm link list \<times> 's) result" where
  "VOneTimePassword mc ep add hmac disable_ratelimit required otp_cached id36 secret password clk cs s =
     (if secret = [] then Inr (if required then Some ''NO_OTP_SECRET'' else None, cs, s)
      else if otp_cached then Inr (None, cs, s)
      else bindr (check_limit mc ep hmac disable_ratelimit id36 secret clk cs) (\<lambda>(below, cs').
        if \<not> below then Inr (Some ''RATELIMIT'', cs', s)
        else case validate_otp add hmac id36 secret password clk s of (s', r) \<Rightarrow>
          bindr r (\<lambda>ok. Inr (if ok then None else Some ''WRONG_PASSWORD'', cs', s'))))"

subsection \<open>Positional numbers\<close>

lemma foldl_base:
  fixes f :: "'a \<Rightarrow> int"
  shows "foldl (\<lambda>a v. a * B + f v) a vs = a * B ^ length vs + foldl (\<lambda>a v. a * B + f v) 0 vs"
proof (induction vs arbitrary: a)
  case (Cons v vs)
  show ?case using Cons [of "a * B + f v"] Cons [of "f v"] by (simp add: algebra_simps)
qed simp

lemma number_be_Cons: "number_be (b # bs) = uint b * 256 ^ length bs + number_be bs"
  using foldl_base [of 256 uint "uint b" bs] by (simp add: number_be_def)

lemma number32_Cons: "number32 (v # vs) = int v * 32 ^ length vs + number32 vs"
  using foldl_base [of 32 int "int v" vs] by (simp add: number32_def)

lemma number_be_bounds: "0 \<le> number_be bs \<and> number_be bs < 256 ^ length bs"
proof (induction bs)
  case (Cons b bs)
  have b: "0 \<le> uint b" "uint b \<le> 255" using uint_lt2p [of b] by auto
  then have "uint b * 256 ^ length bs \<le> 255 * 256 ^ length bs" by (intro mult_right_mono) auto
  then have "uint b * 256 ^ length bs + number_be bs < 255 * 256 ^ length bs + 256 ^ length bs" using Cons by linarith
  then show ?case using Cons b by (simp add: number_be_Cons)
qed (simp add: number_be_def)

lemma bytes_be_add: "bytes_be k (x + c * 256 ^ k) = bytes_be k x"
proof (induction k arbitrary: c)
  case (Suc k)
  have "(x + c * 256 ^ Suc k) div 256 ^ k = x div 256 ^ k + c * 256"
    using div_mult_self1 [of "256 ^ k" x "c * 256"] by (simp add: algebra_simps)
  moreover have "word_of_int (x div 256 ^ k + c * 256) = (word_of_int (x div 256 ^ k) :: byte)"
  proof -
    have "(256 :: byte) = 0" by code_simp
    then show ?thesis by (simp only: of_int_add of_int_mult of_int_numeral mult_zero_right add_0_right)
  qed
  moreover have "bytes_be k (x + c * 256 ^ Suc k) = bytes_be k x"
    using Suc [of "c * 256"] by (simp add: algebra_simps)
  ultimately show ?case by simp
qed simp

lemma bytes_be_number_be: "bytes_be (length bs) (number_be bs) = bs"
proof (induction bs)
  case (Cons b bs)
  have "number_be (b # bs) div 256 ^ length bs = uint b"
    using number_be_bounds [of bs] by (simp add: number_be_Cons)
  moreover have "bytes_be (length bs) (number_be (b # bs)) = bytes_be (length bs) (number_be bs)"
    using bytes_be_add [of "length bs" "number_be bs" "uint b"] by (simp add: number_be_Cons algebra_simps)
  ultimately show ?case using Cons by simp
qed simp

text \<open>The digits that \<open>digits32\<close> writes.\<close>

fun values32 :: "nat \<Rightarrow> int \<Rightarrow> nat list" where
  "values32 0 x = []"
| "values32 (Suc k) x = nat (x div 32 ^ k mod 32) # values32 k x"

lemma length_values32 [simp]: "length (values32 k x) = k"
  by (induction k) simp_all

lemma number32_values32: "number32 (values32 k x) = x mod 32 ^ k"
proof (induction k)
  case (Suc k)
  then show ?case
    using mod_mult2_eq' [of x "32 ^ k" 32] zmod_zmult2_eq [of 32 x "32 ^ k"]
    by (simp add: number32_Cons algebra_simps)
qed (simp add: number32_def)

lemma b32rev_alphabet: "i < 32 \<Longrightarrow> b32rev (b32alphabet ! i) = Some i"
proof -
  have "list_all (\<lambda>i. b32rev (b32alphabet ! i) = Some i) [0..<32]" by code_simp
  then show "i < 32 \<Longrightarrow> b32rev (b32alphabet ! i) = Some i" by (simp add: list_all_iff)
qed

lemma b32values_append: "b32values (s @ t) = bindr (b32values s) (\<lambda>vs. bindr (b32values t) (\<lambda>ws. Inr (vs @ ws)))"
proof (induction s)
  case Nil
  then show ?case by (cases "b32values t") simp_all
next
  case (Cons c s)
  then show ?case by (cases "b32values s"; cases "b32values t") (auto split: option.splits)
qed

lemma b32values_digits32: "b32values (digits32 k x) = Inr (values32 k x)"
proof (induction k)
  case (Suc k)
  have "nat (x div 32 ^ k mod 32) < 32" by (simp add: nat_less_iff)
  then show ?case using Suc by (simp add: b32rev_alphabet)
qed simp

lemma b32values_chars: "b32values s = Inr vs \<Longrightarrow> c \<in> set s \<Longrightarrow> b32rev c \<noteq> None"
  by (induction s arbitrary: vs) (auto simp: bindr_eq_Inr_iff split: option.splits)

lemma b32values_length: "b32values s = Inr vs \<Longrightarrow> length vs = length s"
  by (induction s arbitrary: vs) (auto simp: bindr_eq_Inr_iff split: option.splits)

subsection \<open>Secrets\<close>

lemma decode_encode_quanta:
  "5 dvd length bs \<Longrightarrow> \<exists>vs. b32values (encode_quanta bs) = Inr vs \<and> decode_quanta vs = bs \<and> 8 dvd length vs"
proof (induction bs rule: encode_quanta.induct)
  case (1 bs)
  show ?case
  proof (cases "length bs < 5")
    case True
    then have "bs = []" using 1(2) dvd_imp_le [of 5 "length bs"] by fastforce
    moreover have "encode_quanta [] = []" "decode_quanta [] = []" by (simp_all add: encode_quanta.simps [of "[]"] decode_quanta.simps [of "[]"])
    ultimately show ?thesis by simp
  next
    case False
    obtain vs where vs: "b32values (encode_quanta (drop 5 bs)) = Inr vs" "decode_quanta vs = drop 5 bs" "8 dvd length vs"
      using 1 False by (auto simp: dvd_diff_nat)
    define x where "x = number_be (take 5 bs)"
    have len: "length (take 5 bs) = 5" using False by simp
    have "x mod 32 ^ 8 = x" using number_be_bounds [of "take 5 bs"] len by (simp add: x_def)
    then have "bytes_be 5 (number32 (values32 8 x)) = take 5 bs"
      using bytes_be_number_be [of "take 5 bs"] len by (simp only: number32_values32 x_def)
    then have "decode_quanta (values32 8 x @ vs) = bs"
      using vs(2) by (subst decode_quanta.simps) simp
    moreover have "b32values (encode_quanta bs) = Inr (values32 8 x @ vs)"
      using False vs(1) by (subst encode_quanta.simps) (simp add: b32values_append b32values_digits32 x_def del: digits32.simps values32.simps)
    ultimately show ?thesis using vs(3) by (intro exI [of _ "values32 8 x @ vs"]) simp
  qed
qed

lemma b32_roundtrip:
  assumes "5 dvd length bs"
  shows "b32decode (b32encode bs) = Inr bs"
proof -
  obtain vs where vs: "b32values (encode_quanta bs) = Inr vs" "decode_quanta vs = bs" "8 dvd length vs"
    using decode_encode_quanta [OF assms] by blast
  have "length bs mod 5 = 0" using assms by (simp add: dvd_eq_mod_eq_0)
  then have enc: "b32encode bs = encode_quanta bs" by (simp add: b32encode_def)
  have "b32rev CHR ''='' = None" by code_simp
  then have "CHR ''='' \<notin> set (rev (encode_quanta bs))" using b32values_chars [OF vs(1), of "CHR ''=''"] by auto
  then have pad: "takeWhile (\<lambda>c. c = CHR ''='') (rev (encode_quanta bs)) = []"
    unfolding takeWhile_eq_Nil_iff by (metis list.set_sel(1))
  have "length (encode_quanta bs) mod 8 = 0" using vs(3) b32values_length [OF vs(1)] by simp
  then show ?thesis unfolding b32decode_def enc pad using vs(1,2) by simp
qed

subsection \<open>The format of passwords\<close>

lemma length_digits_of: "n < 10 ^ Suc k \<Longrightarrow> length (digits_of n) \<le> Suc k"
proof (induction k arbitrary: n)
  case (Suc k)
  then have "n div 10 < 10 ^ Suc k" by (simp add: div_less_iff_less_mult)
  then show ?case using Suc(1) by (subst digits_of.simps) auto
qed (simp add: digits_of.simps)

lemma zero_pad_format: "n < 1000000 \<Longrightarrow> length (zero_pad n) = 6 \<and> (\<forall>c \<in> set (zero_pad n). char_digit c \<noteq> None)"
proof -
  have "char_digit CHR ''0'' = Some 0" by code_simp
  then show "n < 1000000 \<Longrightarrow> length (zero_pad n) = 6 \<and> (\<forall>c \<in> set (zero_pad n). char_digit c \<noteq> None)"
    using length_digits_of [of n 5] char_digit_set_digits_of [of _ n] by (auto simp: zero_pad_def Let_def)
qed

lemma make_hotp_format:
  assumes "b32decode secret = Inr key" "\<forall>k m. length (hmac k m) = 20" "- (2 ^ 63) \<le> counter" "counter < 2 ^ 63"
  shows "\<exists>code. make_hotp hmac secret counter = Inr code \<and> length code = 6 \<and> (\<forall>c \<in> set code. char_digit c \<noteq> None)"
proof -
  obtain msg where msg: "pack_q counter = Inr msg" using assms(3,4) by (simp add: pack_q_def)
  define digest where "digest = hmac key msg"
  have len: "length digest = 20" using assms(2) by (simp add: digest_def)
  define offset where "offset = unat (last digest AND 0x0f)"
  have "last digest AND 0x0f \<le> (0x0f :: byte)" by (rule word_and_le1)
  then have "offset \<le> 15" unfolding offset_def word_le_nat_alt by simp
  then have "length (take 4 (drop offset digest)) = 4" using len by simp
  then obtain code_bits where bits: "unpack_L (take 4 (drop offset digest)) = Inr code_bits" by (simp add: unpack_L_def)
  have "make_hotp hmac secret counter = Inr (zero_pad (nat (uint (code_bits AND 0x7fffffff) mod 1000000)))"
    using assms(1) msg len bits by (auto simp: make_hotp_def Let_def digest_def offset_def)
  moreover have "nat (uint (code_bits AND 0x7fffffff) mod 1000000) < 1000000" by (simp add: nat_less_iff)
  ultimately show ?thesis using zero_pad_format by blast
qed

subsection \<open>Marks in the cache\<close>

locale mark_store =
  fixes add :: "string \<Rightarrow> int \<Rightarrow> int \<Rightarrow> 's \<Rightarrow> 's \<times> bool" and until :: "'s \<Rightarrow> string \<Rightarrow> int option"
  assumes add_free: "(case until s k of None \<Rightarrow> True | Some t \<Rightarrow> t \<le> now) \<Longrightarrow>
      \<exists>s'. add k ttl now s = (s', True) \<and> until s' = (until s)(k \<mapsto> now + ttl)"
    and add_marked: "until s k = Some t \<Longrightarrow> now < t \<Longrightarrow> add k ttl now s = (s, False)"
begin

definition later :: "'s \<Rightarrow> 's \<Rightarrow> bool" where
  "later s s' \<longleftrightarrow> (\<forall>k t. until s k = Some t \<longrightarrow> (\<exists>t'. until s' k = Some t' \<and> t \<le> t'))"

lemma later_refl: "later s s"
  by (auto simp: later_def)

lemma later_trans: "later s s' \<Longrightarrow> later s' s'' \<Longrightarrow> later s s''"
  unfolding later_def by (meson order_trans)

lemma add_cases:
  obtains s' where "add k ttl now s = (s', True)" "until s' = (until s)(k \<mapsto> now + ttl)" "\<forall>t. until s k = Some t \<longrightarrow> t \<le> now"
  | t where "add k ttl now s = (s, False)" "until s k = Some t" "now < t"
proof (cases "until s k")
  case None
  then show thesis using add_free [of now s k ttl] that(1) by auto
next
  case (Some t)
  then show thesis using add_free [of now s k ttl] add_marked [of s k t now ttl] that by (cases "t \<le> now") auto
qed

lemma add_later: "0 \<le> ttl \<Longrightarrow> add k ttl now s = (s', r) \<Longrightarrow> later s s'"
  by (rule add_cases [of k ttl now s]) (auto simp: later_def later_refl split: if_splits)

lemma validate_later: "later s (fst (validate_otp add hmac id36 secret password clk s))"
proof (cases "\<exists>p n. password = Some p \<and> py_int_stripped p = Inr n")
  case True
  then obtain p n where pn: "password = Some p" "py_int_stripped p = Inr n" by blast
  obtain s' r where a: "add (used_key id36 n) (PERIOD * (int (length allowed_skew) + 1)) (ot_add clk) s = (s', r)" by fastforce
  have "later s s'" by (rule add_later [OF _ a]) (simp add: PERIOD_def)
  then show ?thesis using pn a by (simp add: validate_otp_def)
next
  case False
  then show ?thesis by (auto simp: validate_otp_def later_refl split: option.splits sum.splits)
qed

lemma validate_accepts:
  assumes "validate_otp add hmac id36 secret (Some p) clk s = (s', Inr True)"
  obtains n where "py_int_stripped p = Inr n" "until s' (used_key id36 n) = Some (ot_add clk + 120)"
    "\<forall>t. until s (used_key id36 n) = Some t \<longrightarrow> t \<le> ot_add clk"
    "check_skews hmac secret p (zip allowed_skew (ot_checks clk)) = Inr True"
proof -
  obtain n where n: "py_int_stripped p = Inr n" using assms by (auto simp: validate_otp_def split: sum.splits)
  have ttl: "PERIOD * (int (length allowed_skew) + 1) = 120" by (simp add: PERIOD_def allowed_skew_def)
  show thesis
    by (rule add_cases [of "used_key id36 n" 120 "ot_add clk" s])
      (use assms n that in \<open>auto simp: validate_otp_def ttl Let_def\<close>)
qed

lemma fold_later: "(\<And>x st. later st (f x st)) \<Longrightarrow> later s (fold f xs s)"
  by (induction xs arbitrary: s) (auto intro: later_refl later_trans)

end

lemma check_skews_True:
  "check_skews hmac secret p xs = Inr True \<Longrightarrow>
     \<exists>(skew, t) \<in> set xs. make_hotp hmac secret (t div 30 - skew) = Inr p"
  by (induction hmac secret p xs rule: check_skews.induct)
    (auto simp: bindr_eq_Inr_iff make_totp_def PERIOD_def split: if_splits)

text \<open>Memcached, as the locks use it, also keeps marks.\<close>

definition lease_mark :: "'s lc_ops \<Rightarrow> string \<Rightarrow> int \<Rightarrow> int \<Rightarrow> 's \<Rightarrow> 's \<times> bool" where
  "lease_mark ops k ttl now s = (case lc_add ops k ([], 0, []) ttl now s of (s', r) \<Rightarrow> (s', r = Inr True))"

sublocale lease_cache \<subseteq> marks: mark_store "lease_mark ops" "\<lambda>s k. map_option snd (lease s k)"
proof
  fix s k now ttl
  assume "case map_option snd (lease s k) of None \<Rightarrow> True | Some t \<Rightarrow> t \<le> now"
  then have "lc_get ops k now s = None" by (auto simp: get_lease split: option.splits)
  from add_free [OF this, of "([], 0, [])" ttl]
  show "\<exists>s'. lease_mark ops k ttl now s = (s', True) \<and>
      (\<lambda>k. map_option snd (lease s' k)) = (\<lambda>k. map_option snd (lease s k))(k \<mapsto> now + ttl)"
    by (auto simp: lease_mark_def fun_eq_iff)
next
  fix s k t now ttl
  assume "map_option snd (lease s k) = Some t" "now < t"
  then have "lc_get ops k now s \<noteq> None" by (auto simp: get_lease)
  then show "lease_mark ops k ttl now s = (s, False)" using add_taken by (simp add: lease_mark_def)
qed

subsection \<open>Properties\<close>

text \<open>A try: user, secret, password and the readings of the clock.\<close>

type_synonym otp_try = "string \<times> string \<times> string option \<times> otp_times"

definition otp_tries ::
    "(string \<Rightarrow> int \<Rightarrow> int \<Rightarrow> 's \<Rightarrow> 's \<times> bool) \<Rightarrow> hmac_sha1 \<Rightarrow> otp_try list \<Rightarrow> 's \<Rightarrow> 's" where
  "otp_tries add hmac = fold (\<lambda>(id36, secret, password, clk) s. fst (validate_otp add hmac id36 secret password clk s))"

lemma period_gap:
  fixes t1 t2 a1 a2 skew1 skew2 :: int
  assumes "t1 < a1 + 30" "a2 \<le> t2" "a1 + 120 \<le> a2" "skew1 \<in> {- 1, 0, 1}" "skew2 \<in> {- 1, 0, 1}"
  shows "t1 div 30 - skew1 < t2 div 30 - skew2"
proof -
  have "t1 div 30 < t2 div 30 - 2" using assms(1-3) by linarith
  then show ?thesis using assms(4,5) by auto
qed

text \<open>
  (C34) A one-time password is accepted once. When the same user sends the same password again, whatever other tries of
  anybody are made in between, it is refused for two minutes; accepted again it can only be as the password of a later
  period of thirty seconds, one that happens to have the same digits. (The checks of a try take less than
  half a minute, and memcached keeps its marks as long as it says.)
\<close>

theorem otp_accepted_once:
  assumes "mark_store add until"
    and "validate_otp add hmac id36 secret (Some p) clk s = (s1, Inr True)" "\<forall>t \<in> set (ot_checks clk). t < ot_add clk + 30"
    and "validate_otp add hmac id36 secret' (Some p) clk' (otp_tries add hmac xs s1) = (s3, Inr True)"
    and "\<forall>t \<in> set (ot_checks clk'). ot_add clk' \<le> t"
  shows "ot_add clk + 120 \<le> ot_add clk' \<and>
    (\<exists>k k'. k < k' \<and> make_hotp hmac secret k = Inr p \<and> make_hotp hmac secret' k' = Inr p)"
proof -
  have later: "mark_store.later until s1 (otp_tries add hmac xs s1)"
    unfolding otp_tries_def
    by (rule mark_store.fold_later [OF assms(1)]) (auto simp: mark_store.validate_later [OF assms(1)] split: prod.splits)
  obtain n where n: "py_int_stripped p = Inr n" "until s1 (used_key id36 n) = Some (ot_add clk + 120)"
    "check_skews hmac secret p (zip allowed_skew (ot_checks clk)) = Inr True"
    by (rule mark_store.validate_accepts [OF assms(1,2)])
  obtain n' where n': "py_int_stripped p = Inr n'"
    "\<forall>t. until (otp_tries add hmac xs s1) (used_key id36 n') = Some t \<longrightarrow> t \<le> ot_add clk'"
    "check_skews hmac secret' p (zip allowed_skew (ot_checks clk')) = Inr True"
    by (rule mark_store.validate_accepts [OF assms(1,4)])
  have gap: "ot_add clk + 120 \<le> ot_add clk'"
    using later n(1,2) n'(1,2) unfolding mark_store.later_def [OF assms(1)] by fastforce
  obtain skew t where k: "(skew, t) \<in> set (zip allowed_skew (ot_checks clk))" "make_hotp hmac secret (t div 30 - skew) = Inr p"
    using check_skews_True [OF n(3)] by blast
  obtain skew' t' where k': "(skew', t') \<in> set (zip allowed_skew (ot_checks clk'))" "make_hotp hmac secret' (t' div 30 - skew') = Inr p"
    using check_skews_True [OF n'(3)] by blast
  have "t div 30 - skew < t' div 30 - skew'"
    using set_zip_leftD [OF k(1)] set_zip_rightD [OF k(1)] set_zip_leftD [OF k'(1)] set_zip_rightD [OF k'(1)] gap assms(3,5)
    by (intro period_gap [of t "ot_add clk" "ot_add clk'" t']) (auto simp: allowed_skew_def)
  then show ?thesis using gap k(2) k'(2) by blast
qed

definition sample_secret :: string where
  "sample_secret = ''GEZDGNBVGY3TQOJQGEZDGNBVGY3TQOJQ''"

definition sample_digest :: hmac_sha1 where
  "sample_digest k m = [0, 0, 0, 42] @ replicate 16 0"

definition sample_clock :: "int \<Rightarrow> otp_times" where
  "sample_clock t = \<lparr>ot_password = t, ot_limit = (t, t, t, t), ot_add = t, ot_checks = [t, t, t]\<rparr>"

lemma sample_otp:
  "validate_otp (lease_mark lease_ops) sample_digest ''u'' sample_secret (Some ''000042'') (sample_clock 1000) [] =
     ([(''otp:used_u_42'', ([], 0, []), 1120)], Inr True)"
  "validate_otp (lease_mark lease_ops) sample_digest ''u'' sample_secret (Some ''000042'') (sample_clock 1120)
     (otp_tries (lease_mark lease_ops) sample_digest [(''u'', sample_secret, Some ''000042'', sample_clock 1050)]
       [(''otp:used_u_42'', ([], 0, []), 1120)]) = ([(''otp:used_u_42'', ([], 0, []), 1240)], Inr True)"
  by code_simp+

theorem otp_accepted_once_witness:
  "ot_add (sample_clock 1000) + 120 \<le> ot_add (sample_clock 1120) \<and>
    (\<exists>k k'. k < k' \<and> make_hotp sample_digest sample_secret k = Inr ''000042'' \<and> make_hotp sample_digest sample_secret k' = Inr ''000042'')"
  by (rule otp_accepted_once [OF ls.marks.mark_store_axioms sample_otp(1) _ sample_otp(2)]) (simp_all add: sample_clock_def)

text \<open>
  Secrets and passwords. A generated secret decodes to the random bytes it was made from, and computing a
  password with it at any time and skew gives exactly six decimal digits.
\<close>

lemma totp_six_digits:
  assumes "length random_bytes = 20" "\<forall>k m. length (hmac k m) = 20"
    and "- (2 ^ 63) \<le> now div 30 - skew" "now div 30 - skew < 2 ^ 63"
  shows "b32decode (generate_secret random_bytes) = Inr random_bytes \<and>
    (\<exists>code. make_totp hmac (generate_secret random_bytes) skew None now = Inr code \<and> length code = 6 \<and>
      (\<forall>c \<in> set code. char_digit c \<noteq> None))"
proof -
  have key: "b32decode (generate_secret random_bytes) = Inr random_bytes"
    using b32_roundtrip [of random_bytes] assms(1) by (simp add: generate_secret_def)
  then show ?thesis using make_hotp_format [OF key assms(2-4)] by (simp add: make_totp_def PERIOD_def)
qed

text \<open>
  The number of tries is not limited: with a local cache that has not seen the key yet, as at the beginning of a request,
  \<open>record_and_check\<close> lets every try pass, however many memcached has counted.
\<close>

lemma otp_tries_unlimited:
  assumes "memcached mc stored" "secret \<noteq> []" "make_totp hmac secret 0 None (ot_password clk) = Inr code"
    and "ot_limit clk = (t, t1, t2, t3)" "get_timeslice t 600 = Inr ts" "0 \<le> remaining t1 ts" "beginning ts \<le> t3" "t3 < ending ts"
    and "key = make_ratelimit_cache_key ep (rl_key (otp_limit id36 code)) ts" "holds_count (stored m key) n" "map_of d key = None"
    and "validate_otp add hmac id36 secret password clk s = (s', Inr ok)"
  shows "\<exists>d2 m2. VOneTimePassword mc ep add hmac False required False id36 secret password clk [LocalLink d, McLink m] s =
    Inr (if ok then None else Some ''WRONG_PASSWORD'', [LocalLink d2, McLink m2], s') \<and> stored m2 key = CInt (n + 1)"
proof -
  have rl: "rl_seconds (otp_limit id36 code) = 600" "rl_limit (otp_limit id36 code) = 3"
    by (simp_all add: otp_limit_def simple_rate_limit_def)
  obtain d2 m2 where "record_and_check mc ep (otp_limit id36 code) t t1 t2 t3 [LocalLink d, McLink m] =
      Inr (True, [LocalLink d2, McLink m2])" "stored m2 key = CInt (n + 1)"
    using record_and_check_ignores_count [OF assms(1), of "otp_limit id36 code" t ts key ep m n t1 d t3 t2] assms(5-11) rl by auto
  then show ?thesis using assms(2-4,12) by (auto simp: VOneTimePassword_def check_limit_def)
qed

end
