(* ===== verification/TryLater.thy ===== *)
theory TryLater
  imports UserRel "HOL-Library.Multiset"
begin

section \<open>Work that is done later\<close>

text \<open>
  Models \<open>r2/models/trylater.py\<close> and its use for temporary bans (\<open>SubredditTempBan\<close> and \<open>on_subreddit_unban\<close> of
  \<open>r2/models/subreddit.py\<close>, the parts of \<open>POST_friend\<close> and \<open>POST_unfriend\<close> of \<open>r2/controllers/api.py\<close> that schedule
  them). A row of \<open>TryLater\<close> is the list of its columns in the order of their time UUIDs; a time UUID is its
  time in microseconds with the rest of its bits, which are a parameter, as is the time stamp of every write.
  Deletions take effect at once: a row deletion with a time stamp removes what was written up to it. JSON texts are identified with
  their values. A function that may raise returns its state with the outcome, since the exceptions of
  handlers are swallowed and their effects stay.
\<close>

subsection \<open>Column families\<close>

type_synonym time_uuid = "int \<times> int"

record 'd tl_column =
  tc_uuid :: time_uuid
  tc_data :: 'd
  tc_written :: int

record 'd tl_state =
  tl_rows :: "string \<Rightarrow> 'd tl_column list"
  tl_subjects :: "string \<Rightarrow> (string, time_uuid \<times> int) dict"

definition tc_time :: "'d tl_column \<Rightarrow> int" where
  "tc_time c = fst (tc_uuid c)"

definition minutes :: "int \<Rightarrow> int" where
  "minutes n = n * 60 * 1000000"

definition tl_insert :: "string \<Rightarrow> 'd tl_column \<Rightarrow> ('d, 'z) tl_state_scheme \<Rightarrow> ('d, 'z) tl_state_scheme" where
  "tl_insert row c st = st\<lparr>tl_rows := (tl_rows st)(row := insort_key tc_time c (tl_rows st row))\<rparr>"

definition tl_filter :: "string \<Rightarrow> ('d tl_column \<Rightarrow> bool) \<Rightarrow> ('d, 'z) tl_state_scheme \<Rightarrow> ('d, 'z) tl_state_scheme" where
  "tl_filter row P st = st\<lparr>tl_rows := (tl_rows st)(row := filter P (tl_rows st row))\<rparr>"

subsection \<open>\<open>TryLater\<close>\<close>

type_synonym 'd ready = "(time_uuid \<times> 'd) list"

definition ripe :: "int \<Rightarrow> 'd tl_column \<Rightarrow> bool" where
  "ripe now c \<longleftrightarrow> tc_time c \<le> now"

definition item_of :: "'d tl_column \<Rightarrow> time_uuid \<times> 'd" where
  "item_of c = (tc_uuid c, tc_data c)"

definition cleanup :: "string \<Rightarrow> 'd ready \<Rightarrow> int list \<Rightarrow> int list \<Rightarrow> ('d, 'z) tl_state_scheme \<Rightarrow> ('d, 'z) tl_state_scheme" where
  "cleanup rowkey ready_items ready_timestamps unripe_timestamps st =
     (if unripe_timestamps = [] \<or> Min (set unripe_timestamps) > Max (set ready_timestamps)
      then tl_filter rowkey (\<lambda>c. tc_written c > Max (set ready_timestamps)) st
      else tl_filter rowkey (\<lambda>c. tc_uuid c \<notin> set (map fst ready_items)) st)"

definition process_ready_items ::
    "string \<Rightarrow> ('d ready \<Rightarrow> ('d, 'z) tl_state_scheme \<Rightarrow> ('d, 'z) tl_state_scheme \<times> unit result) \<Rightarrow> int
     \<Rightarrow> ('d, 'z) tl_state_scheme \<Rightarrow> ('d, 'z) tl_state_scheme" where
  "process_ready_items rowkey ready_fn cutoff st =
     (let ready = filter (ripe cutoff) (tl_rows st rowkey);
          unripe = filter (\<lambda>c. \<not> ripe cutoff c) (tl_rows st rowkey);
          ready_items = map item_of ready
      in if ready_items = [] then st
         else cleanup rowkey ready_items (map tc_written ready) (map tc_written unripe) (fst (ready_fn ready_items st)))"

text \<open>\<open>hook.call(data=ready_items)\<close>: the handlers up to the first that raises.\<close>

fun hook_call :: "('i \<Rightarrow> 's \<Rightarrow> 's \<times> unit result) list \<Rightarrow> 'i \<Rightarrow> 's \<Rightarrow> 's \<times> unit result" where
  "hook_call [] items st = (st, Inr ())"
| "hook_call (h # hs) items st = (case h items st of (st', Inl err) \<Rightarrow> (st', Inl err) | (st', Inr _) \<Rightarrow> hook_call hs items st')"

text \<open>\<open>run\<close>, with the time at which each hook has its turn.\<close>

definition tl_run ::
    "(string \<times> int \<times> ('d ready \<Rightarrow> ('d, 'z) tl_state_scheme \<Rightarrow> ('d, 'z) tl_state_scheme \<times> unit result) list) list
     \<Rightarrow> ('d, 'z) tl_state_scheme \<Rightarrow> ('d, 'z) tl_state_scheme" where
  "tl_run all_hooks = fold (\<lambda>(hook_name, now, handlers) st.
     if startswith hook_name ''trylater.''
     then process_ready_items (drop (length ''trylater.'') hook_name) (hook_call handlers) now st else st) all_hooks"

definition tl_search :: "string \<Rightarrow> time_uuid \<Rightarrow> ('d, 'z) tl_state_scheme \<Rightarrow> time_uuid list" where
  "tl_search rowkey uu st = map tc_uuid (filter (\<lambda>c. tc_time c = fst uu) (tl_rows st rowkey))"

text \<open>The bits of the UUID and the time stamp of the write are \<open>bits\<close> and \<open>written\<close>.\<close>

definition tl_schedule :: "string \<Rightarrow> 'd \<Rightarrow> int option \<Rightarrow> int \<Rightarrow> int \<Rightarrow> int \<Rightarrow> ('d, 'z) tl_state_scheme \<Rightarrow> int \<times> ('d, 'z) tl_state_scheme" where
  "tl_schedule system data delay now bits written st =
     (let key = now + (case delay of None \<Rightarrow> minutes 60 | Some d \<Rightarrow> d)
      in (key, tl_insert system \<lparr>tc_uuid = (key, bits), tc_data = data, tc_written = written\<rparr> st))"

definition tl_unschedule :: "string \<Rightarrow> time_uuid list \<Rightarrow> ('d, 'z) tl_state_scheme \<Rightarrow> ('d, 'z) tl_state_scheme" where
  "tl_unschedule rowkey column_keys = tl_filter rowkey (\<lambda>c. tc_uuid c \<notin> set column_keys)"

subsection \<open>\<open>TryLaterBySubject\<close>\<close>

definition by_subject_schedule ::
    "string \<Rightarrow> string \<Rightarrow> 'd \<Rightarrow> int \<Rightarrow> string option \<Rightarrow> int \<Rightarrow> int \<times> int \<Rightarrow> int \<Rightarrow> ('d, 'z) tl_state_scheme
     \<Rightarrow> int \<times> ('d, 'z) tl_state_scheme" where
  "by_subject_schedule system subject data delay trylater_rowkey now bits written st =
     (let (key, st') = tl_schedule (case trylater_rowkey of None \<Rightarrow> system | Some r \<Rightarrow> r) data (Some delay) now (fst bits) written st;
          ttl = delay + minutes 10
      in (key, st'\<lparr>tl_subjects := (tl_subjects st')(system :=
            AList.update subject ((key, snd bits), now + ttl) (tl_subjects st' system))\<rparr>))"

definition by_subject_search :: "string \<Rightarrow> string list \<Rightarrow> int \<Rightarrow> ('d, 'z) tl_state_scheme \<Rightarrow> (string, time_uuid) dict" where
  "by_subject_search rowkey subjects now st =
     map (\<lambda>(k, uu, _). (k, uu))
       (filter (\<lambda>(k, _, expires). now < expires \<and> (subjects = [] \<or> k \<in> set subjects)) (tl_subjects st rowkey))"

definition by_subject_unschedule :: "string \<Rightarrow> string list \<Rightarrow> string \<Rightarrow> int \<Rightarrow> ('d, 'z) tl_state_scheme \<Rightarrow> ('d, 'z) tl_state_scheme" where
  "by_subject_unschedule rowkey colkey schedule_rowkey now st =
     (let victims = by_subject_search rowkey colkey now st;
          st' = fold (\<lambda>(_, uu) s. tl_unschedule schedule_rowkey (tl_search schedule_rowkey uu s) s) victims st
      in st'\<lparr>tl_subjects := (tl_subjects st')(rowkey := filter (\<lambda>(k, _). k \<notin> set colkey) (tl_subjects st' rowkey))\<rparr>)"

subsection \<open>Temporary bans\<close>

record tb_sr =
  ts_id :: int
  ts_id36 :: string
  ts_name :: string

record tb_user =
  tu_id :: int
  tu_id36 :: string
  tu_name :: string

record tb_env =
  te_sr :: "string \<Rightarrow> tb_sr option"
  te_user :: "string \<Rightarrow> tb_user option"

record tb_state = "json tl_state" +
  tb_rels :: rel_state
  tb_modlog :: "(string \<times> string \<times> string \<times> string \<times> string) list"

definition tempban_cancel_rowkey :: "string \<Rightarrow> string \<Rightarrow> string" where
  "tempban_cancel_rowkey name type = ''srunban:'' @ name @ '':'' @ type"

definition tempban_schedule_rowkey :: string where
  "tempban_schedule_rowkey = ''srunban''"

definition ban_blob :: "tb_sr \<Rightarrow> string \<Rightarrow> tb_user \<Rightarrow> tb_user \<Rightarrow> json" where
  "ban_blob sr kind victim banner =
     JObj [(''sr'', JStr (ts_id36 sr)), (''who'', JStr (tu_id36 victim)), (''type'', JStr kind), (''banner'', JStr (tu_id36 banner))]"

definition tempban_schedule ::
    "tb_sr \<Rightarrow> string \<Rightarrow> tb_user \<Rightarrow> tb_user \<Rightarrow> int \<Rightarrow> int \<Rightarrow> int \<times> int \<Rightarrow> int \<Rightarrow> tb_state \<Rightarrow> int \<times> tb_state" where
  "tempban_schedule sr kind victim banner duration now bits written =
     by_subject_schedule (tempban_cancel_rowkey (ts_name sr) kind) (tu_name victim) (ban_blob sr kind victim banner) duration
       (Some tempban_schedule_rowkey) now bits written"

definition tempban_search :: "string \<Rightarrow> string \<Rightarrow> string list \<Rightarrow> int \<Rightarrow> tb_state \<Rightarrow> (string, int) dict" where
  "tempban_search srname bantype subjects now st =
     map (\<lambda>(name, uu). (name, fst uu)) (by_subject_search (tempban_cancel_rowkey srname bantype) subjects now st)"

definition tempban_unschedule :: "string \<Rightarrow> string \<Rightarrow> string \<Rightarrow> int \<Rightarrow> tb_state \<Rightarrow> tb_state" where
  "tempban_unschedule srname victim_name bantype =
     by_subject_unschedule (tempban_cancel_rowkey srname bantype) [victim_name] tempban_schedule_rowkey"

definition mod_create :: "string \<Rightarrow> string \<Rightarrow> string \<Rightarrow> string \<Rightarrow> string \<Rightarrow> tb_state \<Rightarrow> tb_state" where
  "mod_create sr actor action target details st = st\<lparr>tb_modlog := tb_modlog st @ [(sr, actor, action, target, details)]\<rparr>"

text \<open>\<open>getattr(container, 'remove_' + kind)\<close>.\<close>

definition manager_named :: "string \<Rightarrow> manager result" where
  "manager_named kind = (case find (\<lambda>m. m_name m = kind) sr_managers of
     None \<Rightarrow> Inl (AttributeError (''remove_'' @ kind)) | Some m \<Rightarrow> Inr m)"

definition blob_field :: "json \<Rightarrow> string \<Rightarrow> string result" where
  "blob_field blob k = (case blob of
     JObj d \<Rightarrow> (case map_of d k of Some (JStr s) \<Rightarrow> Inr s | Some _ \<Rightarrow> Inl (TypeError k) | None \<Rightarrow> Inl (KeyError k))
   | _ \<Rightarrow> Inl (TypeError k))"

definition by_id36 :: "(string \<Rightarrow> 'a option) \<Rightarrow> string \<Rightarrow> 'a result" where
  "by_id36 f s = (case f s of None \<Rightarrow> Inl NotFound | Some x \<Rightarrow> Inr x)"

definition read_ban :: "tb_env \<Rightarrow> json \<Rightarrow> (tb_sr \<times> tb_user \<times> tb_user \<times> manager) result" where
  "read_ban e blob =
     bindr (blob_field blob ''sr'') (\<lambda>s. bindr (by_id36 (te_sr e) s) (\<lambda>sr.
     bindr (blob_field blob ''who'') (\<lambda>w. bindr (by_id36 (te_user e) w) (\<lambda>victim.
     bindr (blob_field blob ''banner'') (\<lambda>b. bindr (by_id36 (te_user e) b) (\<lambda>banner.
     bindr (blob_field blob ''type'') (\<lambda>kind. bindr (manager_named kind) (\<lambda>m. Inr (sr, victim, banner, m)))))))))"

definition unban_action :: "manager \<Rightarrow> string" where
  "unban_action m = (if m_name m = ''banned'' then ''unbanuser'' else if m_name m = ''wikibanned'' then ''wikiunbanned'' else ''None'')"

definition unban_one :: "tb_sr \<Rightarrow> tb_user \<Rightarrow> tb_user \<Rightarrow> manager \<Rightarrow> tb_state \<Rightarrow> tb_state" where
  "unban_one sr victim banner m st =
     (let (new, rels') = rel_remove m (ts_id sr) (tu_id victim) (tb_rels st); st' = st\<lparr>tb_rels := rels'\<rparr>
      in if new then mod_create (ts_id36 sr) (tu_id36 banner) (unban_action m) (tu_id36 victim) ''was temporary'' st' else st')"

fun on_subreddit_unban :: "tb_env \<Rightarrow> json ready \<Rightarrow> tb_state \<Rightarrow> tb_state \<times> unit result" where
  "on_subreddit_unban e [] st = (st, Inr ())"
| "on_subreddit_unban e ((_, blob) # blobs) st =
     (case read_ban e blob of
        Inl err \<Rightarrow> (st, Inl err)
      | Inr (sr, victim, banner, m) \<Rightarrow> on_subreddit_unban e blobs (unban_one sr victim banner m st))"

subsection \<open>Banning and unbanning\<close>

definition days :: "int \<Rightarrow> int" where
  "days n = minutes (n * 24 * 60)"

text \<open>
  What \<open>POST_friend\<close> does about the end of a ban once the relation is there: \<open>new\<close> says whether it was added
  just now. The result has the details for the moderation log.
\<close>

definition update_tempban ::
    "tb_sr \<Rightarrow> string \<Rightarrow> tb_user \<Rightarrow> tb_user \<Rightarrow> int option \<Rightarrow> bool \<Rightarrow> int \<Rightarrow> int \<times> int \<Rightarrow> int \<Rightarrow> tb_state \<Rightarrow> string option \<times> tb_state" where
  "update_tempban sr kind friend banner duration new now bits written st =
     (let existing_ban = (if new then [] else tempban_search (ts_name sr) kind [tu_name friend] now st) in
      case duration of
        Some n \<Rightarrow>
          if n \<noteq> 0 then
            (if existing_ban = [] \<or>
                (case map_of existing_ban (tu_name friend) of None \<Rightarrow> False | Some t \<Rightarrow> \<bar>days n - (t - now)\<bar> \<ge> minutes (6 * 60))
             then (Some ((if new then [] else ''changed to '') @ py_str_int n @ '' days''),
               snd (tempban_schedule sr kind friend banner (days n) now bits written
                 (tempban_unschedule (ts_name sr) (tu_name friend) kind now st)))
             else (None, st))
          else if \<not> new \<and> existing_ban \<noteq> []
          then (Some ''changed to permanent'', tempban_unschedule (ts_name sr) (tu_name friend) kind now st)
          else (if new then Some ''permanent'' else None, st)
      | None \<Rightarrow>
          if \<not> new \<and> existing_ban \<noteq> []
          then (Some ''changed to permanent'', tempban_unschedule (ts_name sr) (tu_name friend) kind now st)
          else (if new then Some ''permanent'' else None, st))"

definition ban_action :: "string \<Rightarrow> string" where
  "ban_action kind = (if kind = ''banned'' then ''banuser'' else kind)"

text \<open>The relation, the end of the ban and the log, for \<open>m\<close> one of \<open>banned\<close> and \<open>wikibanned\<close>.\<close>

definition ban_user ::
    "manager \<Rightarrow> tb_sr \<Rightarrow> tb_user \<Rightarrow> tb_user \<Rightarrow> int option \<Rightarrow> int \<Rightarrow> int \<times> int \<Rightarrow> int \<Rightarrow> tb_state \<Rightarrow> tb_state" where
  "ban_user m sr friend actor duration now bits written st =
     (let (row, rels') = rel_add m (ts_id sr) (tu_id friend) None [] now False (tb_rels st);
          (details, st') = update_tempban sr (m_name m) friend actor duration (row \<noteq> None) now bits written (st\<lparr>tb_rels := rels'\<rparr>)
      in if row \<noteq> None \<or> details \<noteq> None
         then mod_create (ts_id36 sr) (tu_id36 actor) (ban_action (m_name m)) (tu_id36 friend) (case details of None \<Rightarrow> [] | Some d \<Rightarrow> d) st'
         else st')"

definition unban_user :: "manager \<Rightarrow> tb_sr \<Rightarrow> tb_user \<Rightarrow> tb_user \<Rightarrow> int \<Rightarrow> tb_state \<Rightarrow> tb_state" where
  "unban_user m sr victim actor now st =
     (let (new, rels') = rel_remove m (ts_id sr) (tu_id victim) (tb_rels st); st1 = st\<lparr>tb_rels := rels'\<rparr>;
          st2 = (if new then mod_create (ts_id36 sr) (tu_id36 actor) (unban_action m) (tu_id36 victim) [] st1 else st1)
      in tempban_unschedule (ts_name sr) (tu_name victim) (m_name m) now st2)"

subsection \<open>What is removed\<close>

lemma tl_filter_rows [simp]: "tl_rows (tl_filter row P st) = (tl_rows st)(row := filter P (tl_rows st row))"
  by (simp add: tl_filter_def)

lemma tl_insert_rows [simp]: "tl_rows (tl_insert row c st) = (tl_rows st)(row := insort_key tc_time c (tl_rows st row))"
  by (simp add: tl_insert_def)

lemma cleanup_exact:
  assumes "ready \<noteq> []" "set ready \<union> set unripe = set cols" "set ready \<inter> set unripe = {}"
    and "\<forall>c \<in> set (tl_rows st row). c \<in> set cols \<or> (\<forall>r \<in> set ready. tc_written r < tc_written c)"
    and "\<forall>c \<in> set (tl_rows st row). \<forall>r \<in> set ready. tc_uuid c = tc_uuid r \<longrightarrow> c = r"
  shows "tl_rows (cleanup row (map item_of ready) (map tc_written ready) (map tc_written unripe) st) =
    (tl_rows st)(row := filter (\<lambda>c. c \<notin> set ready) (tl_rows st row))"
proof -
  have ids: "set (map fst (map item_of ready)) = tc_uuid ` set ready" by (force simp: item_of_def)
  have cols: "tc_uuid c \<notin> tc_uuid ` set ready \<longleftrightarrow> c \<notin> set ready" if "c \<in> set (tl_rows st row)" for c
    using that assms(5) by auto
  have "tc_written c > Max (set (map tc_written ready)) \<longleftrightarrow> c \<notin> set ready"
    if c: "c \<in> set (tl_rows st row)" and gap: "unripe = [] \<or> Min (set (map tc_written unripe)) > Max (set (map tc_written ready))" for c
  proof
    assume "c \<notin> set ready"
    show "tc_written c > Max (set (map tc_written ready))"
    proof (cases "c \<in> set cols")
      case True
      then have "c \<in> set unripe" using \<open>c \<notin> set ready\<close> assms(2) by auto
      then have "Min (set (map tc_written unripe)) \<le> tc_written c" "unripe \<noteq> []" by auto
      then show ?thesis using gap by linarith
    next
      case False
      then show ?thesis using assms(1,4) c by (subst Max_less_iff) auto
    qed
  next
    assume "tc_written c > Max (set (map tc_written ready))"
    moreover have "tc_written c \<le> Max (set (map tc_written ready))" if "c \<in> set ready" using that by (intro Max_ge) auto
    ultimately show "c \<notin> set ready" by linarith
  qed
  then show ?thesis unfolding cleanup_def ids using cols by (auto simp: fun_eq_iff intro!: filter_cong)
qed

lemma process_alt:
  "process_ready_items row ready_fn now st =
     (let ready = filter (ripe now) (tl_rows st row) in
      if ready = [] then st
      else cleanup row (map item_of ready) (map tc_written ready) (map tc_written (filter (\<lambda>c. \<not> ripe now c) (tl_rows st row)))
        (fst (ready_fn (map item_of ready) st)))"
  by (simp add: process_ready_items_def Let_def)

lemma process_rows:
  fixes ready_fn :: "'d ready \<Rightarrow> ('d, 'z) tl_state_scheme \<Rightarrow> ('d, 'z) tl_state_scheme \<times> unit result"
  defines "ready st now row \<equiv> filter (ripe now) (tl_rows st row)"
  assumes "ready st now row \<noteq> []" "st' = fst (ready_fn (map item_of (ready st now row)) st)"
    and "\<forall>c \<in> set (tl_rows st' row). c \<in> set (tl_rows st row) \<or> (\<forall>r \<in> set (ready st now row). tc_written r < tc_written c)"
    and "\<forall>c \<in> set (tl_rows st' row). \<forall>r \<in> set (ready st now row). tc_uuid c = tc_uuid r \<longrightarrow> c = r"
  shows "tl_rows (process_ready_items row ready_fn now st) = (tl_rows st')(row := filter (\<lambda>c. c \<notin> set (ready st now row)) (tl_rows st' row))"
proof -
  have "tl_rows (cleanup row (map item_of (ready st now row)) (map tc_written (ready st now row))
      (map tc_written (filter (\<lambda>c. \<not> ripe now c) (tl_rows st row))) st') =
      (tl_rows st')(row := filter (\<lambda>c. c \<notin> set (ready st now row)) (tl_rows st' row))"
    by (rule cleanup_exact [OF assms(2) _ _ assms(4,5)]) (auto simp: ready_def)
  then show ?thesis using assms(2,3) by (simp add: process_alt ready_def Let_def)
qed

definition fresh_row :: "'d tl_column list \<Rightarrow> bool" where
  "fresh_row cols \<longleftrightarrow> distinct (map tc_uuid cols)"

lemma fresh_row_inj: "fresh_row cols \<Longrightarrow> c \<in> set cols \<Longrightarrow> r \<in> set cols \<Longrightarrow> tc_uuid c = tc_uuid r \<Longrightarrow> c = r"
  unfolding fresh_row_def by (metis eq_key_imp_eq_value distinct_map inj_onD)

lemma fresh_row_filter: "fresh_row cols \<Longrightarrow> fresh_row (filter P cols)"
  by (simp add: fresh_row_def distinct_map_filter)

text \<open>When the handlers leave the row alone, exactly the ripe columns are gone.\<close>

lemma process_quiet:
  assumes "tl_rows (fst (ready_fn (map item_of (filter (ripe now) (tl_rows st row))) st)) = tl_rows st" "fresh_row (tl_rows st row)"
  shows "tl_rows (process_ready_items row ready_fn now st) = (tl_rows st)(row := filter (\<lambda>c. \<not> ripe now c) (tl_rows st row))"
proof (cases "filter (ripe now) (tl_rows st row) = []")
  case True
  then have "filter (\<lambda>c. \<not> ripe now c) (tl_rows st row) = tl_rows st row" by (simp add: filter_empty_conv)
  then show ?thesis using True by (simp add: process_alt)
next
  case False
  have "tl_rows (process_ready_items row ready_fn now st) =
      (tl_rows st)(row := filter (\<lambda>c. c \<notin> set (filter (ripe now) (tl_rows st row))) (tl_rows st row))"
    using process_rows [where st = st and now = now and row = row and ready_fn = ready_fn, OF False refl] assms fresh_row_inj [OF assms(2)]
    by simp
  then show ?thesis by (auto intro!: arg_cong [where f = "fun_upd (tl_rows st) row"] filter_cong)
qed

subsection \<open>Once and in time\<close>

text \<open>One system with handlers that record what they are given, and then return or raise.\<close>

record 'd tl_log = "'d tl_state" +
  tl_delivered :: "(int \<times> time_uuid \<times> 'd) list"

datatype 'd tl_op = Later 'd "int option" int int int | Deliver int "unit result"

definition recording :: "int \<Rightarrow> unit result \<Rightarrow> 'd ready \<Rightarrow> 'd tl_log \<Rightarrow> 'd tl_log \<times> unit result" where
  "recording now outcome items st = (st\<lparr>tl_delivered := tl_delivered st @ map (Pair now) items\<rparr>, outcome)"

definition tl_step :: "string \<Rightarrow> 'd tl_op \<Rightarrow> 'd tl_log \<Rightarrow> 'd tl_log" where
  "tl_step row x st =
     (case x of
        Later data delay now bits written \<Rightarrow> snd (tl_schedule row data delay now bits written st)
      | Deliver now outcome \<Rightarrow> process_ready_items row (hook_call [recording now outcome]) now st)"

definition op_item :: "'d tl_op \<Rightarrow> (time_uuid \<times> 'd) list" where
  "op_item x = (case x of
     Later data delay now bits written \<Rightarrow> [((now + (case delay of None \<Rightarrow> minutes 60 | Some d \<Rightarrow> d), bits), data)]
   | Deliver _ _ \<Rightarrow> [])"

definition tl_items :: "'d tl_op list \<Rightarrow> (time_uuid \<times> 'd) list" where
  "tl_items xs = concat (map op_item xs)"

definition exactly_once :: "string \<Rightarrow> 'd tl_op list \<Rightarrow> 'd tl_log \<Rightarrow> bool" where
  "exactly_once row xs st \<longleftrightarrow>
     mset (map snd (tl_delivered st)) + mset (map item_of (tl_rows st row)) = mset (tl_items xs) \<and>
     (\<forall>(t, uu, _) \<in> set (tl_delivered st). fst uu \<le> t)"

lemma tl_delivered_cleanup [simp]: "tl_delivered (cleanup row items ts us st) = tl_delivered st"
  by (simp add: cleanup_def tl_filter_def)

lemma mset_insort_key: "mset (insort_key f x xs) = add_mset x (mset xs)"
  by (induction xs) auto

lemma exactly_once_fresh:
  assumes "exactly_once row xs st" "distinct (map fst (tl_items xs))"
  shows "fresh_row (tl_rows st row)"
proof -
  have "mset (map fst (map snd (tl_delivered st) @ map item_of (tl_rows st row))) = mset (map fst (tl_items xs))"
    using assms(1) arg_cong [of _ _ "image_mset fst"] unfolding exactly_once_def by (metis mset_append mset_map)
  then have "distinct (map fst (map snd (tl_delivered st) @ map item_of (tl_rows st row)))"
    using assms(2) mset_eq_imp_distinct_iff by blast
  then show ?thesis by (simp add: fresh_row_def item_of_def comp_def)
qed

lemma delivered_state:
  assumes "fresh_row (tl_rows st row)" "st' = tl_step row (Deliver now outcome) st"
  shows "tl_rows st' row = filter (\<lambda>c. \<not> ripe now c) (tl_rows st row)"
    and "tl_delivered st' = tl_delivered st @ map (Pair now) (map item_of (filter (ripe now) (tl_rows st row)))"
proof -
  have hook: "fst (hook_call [recording now outcome] items st) = st\<lparr>tl_delivered := tl_delivered st @ map (Pair now) items\<rparr>" for items
    by (cases outcome) (simp_all add: recording_def)
  show "tl_rows st' row = filter (\<lambda>c. \<not> ripe now c) (tl_rows st row)"
    using process_quiet [of "hook_call [recording now outcome]" now st row] assms hook by (simp add: tl_step_def)
  show "tl_delivered st' = tl_delivered st @ map (Pair now) (map item_of (filter (ripe now) (tl_rows st row)))"
    using assms(2) hook by (simp add: tl_step_def process_alt Let_def)
qed

lemma scheduled_state:
  "mset (map item_of (tl_rows (tl_step row (Later data delay now bits written) st) row)) =
     mset (op_item (Later data delay now bits written)) + mset (map item_of (tl_rows st row))"
  "tl_delivered (tl_step row (Later data delay now bits written) st) = tl_delivered st"
  by (simp_all add: tl_step_def tl_schedule_def Let_def op_item_def mset_insort_key item_of_def tl_insert_def)

lemma exactly_once_run:
  assumes "distinct (map fst (tl_items xs))" "tl_rows st row = []" "tl_delivered st = []"
  shows "exactly_once row xs (fold (tl_step row) xs st)"
  using assms(1)
proof (induction xs rule: rev_induct)
  case Nil
  then show ?case using assms(2,3) by (simp add: exactly_once_def tl_items_def)
next
  case (snoc x xs)
  define s where "s = fold (tl_step row) xs st"
  have once: "exactly_once row xs s" using snoc by (simp add: s_def tl_items_def)
  have step: "fold (tl_step row) (xs @ [x]) st = tl_step row x s" by (simp add: s_def)
  show ?case
  proof (cases x)
    case (Later data delay now bits written)
    then have "mset (map item_of (tl_rows (tl_step row x s) row)) = mset (op_item x) + mset (map item_of (tl_rows s row))"
      "tl_delivered (tl_step row x s) = tl_delivered s" using scheduled_state by metis+
    then show ?thesis unfolding step using once by (simp add: exactly_once_def tl_items_def)
  next
    case (Deliver now outcome)
    have "fresh_row (tl_rows s row)" using exactly_once_fresh [OF once] snoc(2) by (simp add: tl_items_def)
    note d = delivered_state [OF this refl, of now outcome]
    have "mset (tl_rows s row) = mset (filter (ripe now) (tl_rows s row)) + mset (filter (\<lambda>c. \<not> ripe now c) (tl_rows s row))"
      by (simp add: multiset_partition [symmetric])
    then have "mset (map item_of (tl_rows s row)) =
        mset (map item_of (filter (ripe now) (tl_rows s row))) + mset (map item_of (filter (\<lambda>c. \<not> ripe now c) (tl_rows s row)))"
      by (metis image_mset_union mset_map)
    moreover have "image_mset snd (image_mset (Pair now) M) = M" for M :: "(time_uuid \<times> 'a) multiset"
      by (simp add: multiset.map_comp comp_def)
    moreover have "\<forall>(t, uu, _) \<in> set (map (Pair now) (map item_of (filter (ripe now) (tl_rows s row)))). fst uu \<le> t"
      by (auto simp: ripe_def tc_time_def item_of_def)
    moreover have "tl_items (xs @ [x]) = tl_items xs" using Deliver by (simp add: tl_items_def op_item_def)
    ultimately show ?thesis unfolding Deliver step [unfolded Deliver] using once d
      by (simp add: exactly_once_def ball_Un ac_simps del: map_map)
  qed
qed

text \<open>
  (C35) Scheduled work is done once and in time. Whatever is scheduled and however often the runner comes by: every
  item is either still waiting or was handed to its hook exactly once, never before its time; after a run nothing that was due is
  waiting, whether or not the hook has failed.
\<close>

theorem later_exactly_once:
  assumes "distinct (map fst (tl_items xs))" "tl_rows st row = []" "tl_delivered st = []"
  shows "mset (map snd (tl_delivered (fold (tl_step row) xs st))) + mset (map item_of (tl_rows (fold (tl_step row) xs st) row)) =
      mset (tl_items xs) \<and>
    (\<forall>(t, uu, _) \<in> set (tl_delivered (fold (tl_step row) xs st)). fst uu \<le> t) \<and>
    (\<forall>c \<in> set (tl_rows (fold (tl_step row) (xs @ [Deliver now outcome]) st) row). now < tc_time c)"
proof -
  have once: "exactly_once row xs (fold (tl_step row) xs st)" by (rule exactly_once_run [OF assms])
  have "fresh_row (tl_rows (fold (tl_step row) xs st) row)" by (rule exactly_once_fresh [OF once assms(1)])
  from delivered_state(1) [OF this refl, of now outcome]
  have "\<forall>c \<in> set (tl_rows (fold (tl_step row) (xs @ [Deliver now outcome]) st) row). now < tc_time c"
    by (auto simp: ripe_def)
  then show ?thesis using once by (simp add: exactly_once_def)
qed

definition sample_tl :: "string tl_log" where
  "sample_tl = \<lparr>tl_rows = (\<lambda>_. []), tl_subjects = (\<lambda>_. []), tl_delivered = []\<rparr>"

definition sample_ops :: "string tl_op list" where
  "sample_ops = [Later ''a'' (Some 30) 0 1 1, Later ''b'' (Some 10) 5 2 2, Deliver 20 (Inr ()), Later ''c'' None 21 3 3]"

theorem later_exactly_once_witness:
  "mset (map snd (tl_delivered (fold (tl_step ''r'') sample_ops sample_tl))) +
      mset (map item_of (tl_rows (fold (tl_step ''r'') sample_ops sample_tl) ''r'')) = mset (tl_items sample_ops) \<and>
    list_all (\<lambda>(t, uu, _). fst uu \<le> t) (tl_delivered (fold (tl_step ''r'') sample_ops sample_tl)) \<and>
    list_all (\<lambda>c. 30 < tc_time c) (tl_rows (fold (tl_step ''r'') (sample_ops @ [Deliver 30 (Inl CacheError)]) sample_tl) ''r'')"
  unfolding list_all_iff by (rule later_exactly_once) (code_simp | simp add: sample_tl_def)+

subsection \<open>Temporary bans end\<close>

text \<open>One round of the runner for the bans.\<close>

definition unban_round :: "tb_env \<Rightarrow> int \<Rightarrow> tb_state \<Rightarrow> tb_state" where
  "unban_round e now = process_ready_items tempban_schedule_rowkey (hook_call [on_subreddit_unban e]) now"

text \<open>A column that lifts the ban of a user from a subreddit.\<close>

definition lifts :: "tb_env \<Rightarrow> manager \<Rightarrow> int \<times> int \<Rightarrow> json \<Rightarrow> bool" where
  "lifts e m k blob = (case read_ban e blob of Inl _ \<Rightarrow> False
     | Inr (sr, victim, _, m') \<Rightarrow> m_name m' = m_name m \<and> (ts_id sr, tu_id victim) = k)"

definition bans_readable :: "tb_env \<Rightarrow> tb_state \<Rightarrow> bool" where
  "bans_readable e st \<longleftrightarrow> fresh_row (tl_rows st tempban_schedule_rowkey) \<and>
     (\<forall>c \<in> set (tl_rows st tempban_schedule_rowkey). \<exists>x. read_ban e (tc_data c) = Inr x)"

definition ban_pending :: "tb_env \<Rightarrow> manager \<Rightarrow> int \<times> int \<Rightarrow> int \<Rightarrow> tb_state \<Rightarrow> bool" where
  "ban_pending e m k until st \<longleftrightarrow> bans_readable e st \<and> member m k (tb_rels st) \<and>
     (\<exists>c \<in> set (tl_rows st tempban_schedule_rowkey). lifts e m k (tc_data c)) \<and>
     (\<forall>c \<in> set (tl_rows st tempban_schedule_rowkey). lifts e m k (tc_data c) \<longrightarrow> tc_time c = until)"

lemma unban_one_state:
  "tl_rows (unban_one sr victim banner m' st) = tl_rows st"
  "member m k (tb_rels (unban_one sr victim banner m' st)) \<longleftrightarrow>
     member m k (tb_rels st) \<and> \<not> (m_name m' = m_name m \<and> (ts_id sr, tu_id victim) = k)"
  using member_remove [of m k m' "ts_id sr" "tu_id victim" "tb_rels st"]
  by (auto simp: unban_one_def mod_create_def Let_def split: prod.splits)

lemma on_subreddit_unban_state:
  "\<forall>x \<in> set items. \<exists>y. read_ban e (snd x) = Inr y \<Longrightarrow>
     \<exists>st'. on_subreddit_unban e items st = (st', Inr ()) \<and> tl_rows st' = tl_rows st \<and>
       (\<forall>k. member m k (tb_rels st') \<longleftrightarrow> member m k (tb_rels st) \<and> \<not> (\<exists>x \<in> set items. lifts e m k (snd x)))"
proof (induction e items st rule: on_subreddit_unban.induct)
  case (2 e uu blob blobs st)
  obtain sr victim banner m' where b: "read_ban e blob = Inr (sr, victim, banner, m')" using 2(2) by fastforce
  obtain st' where "on_subreddit_unban e blobs (unban_one sr victim banner m' st) = (st', Inr ())"
    "tl_rows st' = tl_rows (unban_one sr victim banner m' st)"
    "\<forall>k. member m k (tb_rels st') \<longleftrightarrow> member m k (tb_rels (unban_one sr victim banner m' st)) \<and> \<not> (\<exists>x \<in> set blobs. lifts e m k (snd x))"
    using 2(1) [OF b refl refl refl] 2(2) by auto
  then show ?case using b by (auto simp: unban_one_state lifts_def)
qed simp

lemma tb_rels_cleanup [simp]: "tb_rels (cleanup row items ts us st) = tb_rels st"
  by (simp add: cleanup_def tl_filter_def)

lemma unban_round_state:
  assumes "bans_readable e st"
  shows "tl_rows (unban_round e now st) = (tl_rows st)(tempban_schedule_rowkey :=
      filter (\<lambda>c. \<not> ripe now c) (tl_rows st tempban_schedule_rowkey))"
    and "member m k (tb_rels (unban_round e now st)) \<longleftrightarrow> member m k (tb_rels st) \<and>
      \<not> (\<exists>c \<in> set (tl_rows st tempban_schedule_rowkey). ripe now c \<and> lifts e m k (tc_data c))"
proof -
  define row where "row = tl_rows st tempban_schedule_rowkey"
  define items where "items = map item_of (filter (ripe now) row)"
  have "\<forall>x \<in> set items. \<exists>y. read_ban e (snd x) = Inr y"
    using assms by (auto simp: bans_readable_def items_def row_def item_of_def)
  then obtain st' where st': "on_subreddit_unban e items st = (st', Inr ())" "tl_rows st' = tl_rows st"
    "\<forall>k. member m k (tb_rels st') \<longleftrightarrow> member m k (tb_rels st) \<and> \<not> (\<exists>x \<in> set items. lifts e m k (snd x))"
    using on_subreddit_unban_state [of items e st m] by blast
  have hook: "hook_call [on_subreddit_unban e] items st = (st', Inr ())" using st'(1) by simp
  show "tl_rows (unban_round e now st) = (tl_rows st)(tempban_schedule_rowkey :=
      filter (\<lambda>c. \<not> ripe now c) (tl_rows st tempban_schedule_rowkey))"
    unfolding unban_round_def using assms hook st'(2)
    by (intro process_quiet) (simp_all add: items_def row_def bans_readable_def)
  have "tb_rels (unban_round e now st) = (if filter (ripe now) row = [] then tb_rels st else tb_rels st')"
    using hook by (simp add: unban_round_def process_alt Let_def items_def row_def)
  moreover have "(\<exists>x \<in> set items. lifts e m k (snd x)) \<longleftrightarrow> (\<exists>c \<in> set row. ripe now c \<and> lifts e m k (tc_data c))"
    by (auto simp: items_def item_of_def)
  ultimately show "member m k (tb_rels (unban_round e now st)) \<longleftrightarrow> member m k (tb_rels st) \<and>
      \<not> (\<exists>c \<in> set (tl_rows st tempban_schedule_rowkey). ripe now c \<and> lifts e m k (tc_data c))"
    using spec [OF st'(3), of k] by (auto simp: row_def filter_empty_conv)
qed

lemma round_before:
  assumes "ban_pending e m k until st" "now < until"
  shows "ban_pending e m k until (unban_round e now st)"
proof -
  have ok: "bans_readable e st" using assms(1) by (simp add: ban_pending_def)
  have rows: "tl_rows (unban_round e now st) tempban_schedule_rowkey = filter (\<lambda>c. \<not> ripe now c) (tl_rows st tempban_schedule_rowkey)"
    using unban_round_state(1) [OF ok] by simp
  have "bans_readable e (unban_round e now st)" using ok unfolding bans_readable_def rows by (auto simp: fresh_row_filter)
  moreover have "\<not> ripe now c" if "c \<in> set (tl_rows st tempban_schedule_rowkey)" "lifts e m k (tc_data c)" for c
    using assms that by (auto simp: ban_pending_def ripe_def)
  ultimately show ?thesis
    using assms(1) unban_round_state(2) [OF ok] unfolding ban_pending_def rows by auto
qed

lemma rounds_before: "ban_pending e m k until st \<Longrightarrow> \<forall>t \<in> set ts. t < until \<Longrightarrow> ban_pending e m k until (fold (unban_round e) ts st)"
  by (induction ts arbitrary: st) (simp_all add: round_before)

lemma round_after:
  assumes "ban_pending e m k until st" "until \<le> now"
  shows "\<not> member m k (tb_rels (unban_round e now st))"
proof -
  obtain c where "c \<in> set (tl_rows st tempban_schedule_rowkey)" "lifts e m k (tc_data c)" "tc_time c = until"
    using assms(1) by (auto simp: ban_pending_def)
  then show ?thesis using unban_round_state(2) [of e st m k now] assms by (auto simp: ban_pending_def ripe_def)
qed

lemma unschedule_filters:
  "\<exists>P. tl_rows (by_subject_unschedule rowkey colkey row now st) row = filter P (tl_rows st row)"
  "tb_rels (tempban_unschedule srname name kind now st') = tb_rels st'"
proof -
  have "\<exists>P. tl_rows (fold (\<lambda>(_, uu) s. tl_unschedule row (tl_search row uu s) s) victims s) row = filter P (tl_rows s row)" for victims s
  proof (induction victims arbitrary: s)
    case Nil
    show ?case by (intro exI [of _ "\<lambda>_. True"]) simp
  next
    case (Cons v victims)
    obtain P where "tl_rows (fold (\<lambda>(_, uu) s. tl_unschedule row (tl_search row uu s) s) victims
        (tl_unschedule row (tl_search row (snd v) s) s)) row = filter P (tl_rows (tl_unschedule row (tl_search row (snd v) s) s) row)"
      using Cons by blast
    then show ?case by (auto simp: tl_unschedule_def case_prod_beta' intro!: exI)
  qed
  then show "\<exists>P. tl_rows (by_subject_unschedule rowkey colkey row now st) row = filter P (tl_rows st row)"
    by (simp add: by_subject_unschedule_def Let_def)
  have "tb_rels (fold (\<lambda>(_, uu) s. tl_unschedule r (tl_search r uu s) s) victims s) = tb_rels s" for victims r and s :: tb_state
    by (induction victims arbitrary: s) (simp_all add: tl_unschedule_def tl_filter_def case_prod_beta')
  then show "tb_rels (tempban_unschedule srname name kind now st') = tb_rels st'"
    by (simp add: tempban_unschedule_def by_subject_unschedule_def Let_def)
qed

lemma fresh_insort:
  "fresh_row row \<Longrightarrow> tc_uuid c \<notin> tc_uuid ` set row \<Longrightarrow> fresh_row (insort_key tc_time c row)"
  using mset_insort_key [of tc_time c row] mset_eq_imp_distinct_iff [of "map tc_uuid (insort_key tc_time c row)" "map tc_uuid (c # row)"]
  by (simp add: fresh_row_def)

lemma read_ban_blob:
  assumes "m \<in> {banned, wikibanned}" "te_sr e (ts_id36 sr) = Some sr" "te_user e (tu_id36 victim) = Some victim"
    and "te_user e (tu_id36 banner) = Some banner"
  shows "read_ban e (ban_blob sr (m_name m) victim banner) = Inr (sr, victim, banner, m)"
proof -
  have "manager_named (m_name banned) = Inr banned" "manager_named (m_name wikibanned) = Inr wikibanned" by code_simp+
  then have "manager_named (m_name m) = Inr m" using assms(1) by auto
  then show ?thesis using assms(2-4) by (simp add: read_ban_def ban_blob_def blob_field_def by_id36_def)
qed

lemma ban_user_pending:
  assumes "m \<in> {banned, wikibanned}" "te_sr e (ts_id36 sr) = Some sr" "te_user e (tu_id36 friend) = Some friend"
    and "te_user e (tu_id36 actor) = Some actor" "bans_readable e st" "\<not> member m (ts_id sr, tu_id friend) (tb_rels st)"
    and "\<forall>c \<in> set (tl_rows st tempban_schedule_rowkey). \<not> lifts e m (ts_id sr, tu_id friend) (tc_data c)"
    and "(now + days n, fst bits) \<notin> tc_uuid ` set (tl_rows st tempban_schedule_rowkey)" "n \<noteq> 0"
  shows "ban_pending e m (ts_id sr, tu_id friend) (now + days n) (ban_user m sr friend actor (Some n) now bits written st)"
proof -
  define row where "row = tl_rows st tempban_schedule_rowkey"
  obtain r rels' where add: "rel_add m (ts_id sr) (tu_id friend) None [] now False (tb_rels st) = (r, rels')" by fastforce
  have r: "r \<noteq> None" using assms(6) add by (auto simp: rel_add_def member_def Let_def split: if_splits)
  have in': "member m (ts_id sr, tu_id friend) rels'"
    using member_add [of m "(ts_id sr, tu_id friend)" m "ts_id sr" "tu_id friend" None "[]" now False "tb_rels st"] add by simp
  define u where "u = tempban_unschedule (ts_name sr) (tu_name friend) (m_name m) now (st\<lparr>tb_rels := rels'\<rparr>)"
  obtain P where u: "tl_rows u tempban_schedule_rowkey = filter P row" "tb_rels u = rels'"
    using unschedule_filters(1) [of "tempban_cancel_rowkey (ts_name sr) (m_name m)" "[tu_name friend]" tempban_schedule_rowkey now
        "st\<lparr>tb_rels := rels'\<rparr>"] unschedule_filters(2) [of "ts_name sr" "tu_name friend" "m_name m" now "st\<lparr>tb_rels := rels'\<rparr>"]
    by (auto simp: u_def row_def tempban_unschedule_def)
  define c where "c = \<lparr>tc_uuid = (now + days n, fst bits), tc_data = ban_blob sr (m_name m) friend actor, tc_written = written\<rparr>"
  have blob: "read_ban e (tc_data c) = Inr (sr, friend, actor, m)" using read_ban_blob [OF assms(1-4)] by (simp add: c_def)
  define st' where "st' = ban_user m sr friend actor (Some n) now bits written st"
  have rows: "tl_rows st' tempban_schedule_rowkey = insort_key tc_time c (filter P row)"
    using u(1) r assms(9) add
    by (auto simp: st'_def ban_user_def update_tempban_def Let_def u_def [symmetric] tempban_schedule_def by_subject_schedule_def
        tl_schedule_def mod_create_def c_def)
  have rels: "tb_rels st' = rels'"
    using u(2) r assms(9) add
    by (auto simp: st'_def ban_user_def update_tempban_def Let_def u_def [symmetric] tempban_schedule_def by_subject_schedule_def
        tl_schedule_def mod_create_def tl_insert_def)
  have set_row: "set (tl_rows st' tempban_schedule_rowkey) = insert c (set (filter P row))" unfolding rows by (simp add: set_insort_key)
  have "fresh_row (filter P row)" using assms(5) by (simp add: bans_readable_def row_def fresh_row_filter)
  then have "fresh_row (tl_rows st' tempban_schedule_rowkey)" unfolding rows using assms(8) by (intro fresh_insort) (auto simp: c_def row_def)
  then have "bans_readable e st'" using assms(5) blob unfolding bans_readable_def set_row by (auto simp: row_def)
  moreover have "lifts e m (ts_id sr, tu_id friend) (tc_data c)" "tc_time c = now + days n"
    using blob by (simp_all add: lifts_def) (simp add: c_def tc_time_def)
  ultimately show ?thesis
    unfolding ban_pending_def st'_def [symmetric] set_row rels using assms(7) in' by (auto simp: row_def)
qed


definition tempban_user :: "int \<Rightarrow> string \<Rightarrow> tb_user" where
  "tempban_user i name = \<lparr>tu_id = i, tu_id36 = name, tu_name = name\<rparr>"

definition sample_sr :: tb_sr where
  "sample_sr = \<lparr>ts_id = 5, ts_id36 = ''5'', ts_name = ''pics''\<rparr>"

definition sample_tb_env :: tb_env where
  "sample_tb_env = \<lparr>te_sr = (\<lambda>s. if s = ''5'' then Some sample_sr else None),
     te_user = (\<lambda>s. if s = ''1'' then Some (tempban_user 1 ''1'') else if s = ''2'' then Some (tempban_user 2 ''2'') else None)\<rparr>"

definition sample_tb :: tb_state where
  "sample_tb = \<lparr>tl_rows = (\<lambda>_. []), tl_subjects = (\<lambda>_. []), tb_rels = \<lparr>rs_rows = [], rs_memo = (\<lambda>_. None)\<rparr>, tb_modlog = []\<rparr>"


text \<open>
  One text that cannot be read, such as one about an account that is gone, ends the loop of the handler; the runner swallows the
  exception and removes all ripe items, so the bans that follow are never lifted.
\<close>

lemma failed_unban_loses_rest:
  assumes "tl_rows st tempban_schedule_rowkey = [c, c']" "ripe now c" "ripe now c'" "tc_uuid c \<noteq> tc_uuid c'"
    and "read_ban e (tc_data c) = Inl err" "lifts e m k (tc_data c')"
  shows "tl_rows (unban_round e now st) tempban_schedule_rowkey = [] \<and> tb_rels (unban_round e now st) = tb_rels st"
proof -
  have hook: "hook_call [on_subreddit_unban e] (map item_of [c, c']) st = (st, Inl err)" using assms(5) by (simp add: item_of_def)
  have "tl_rows (unban_round e now st) = (tl_rows st)(tempban_schedule_rowkey := filter (\<lambda>c. \<not> ripe now c) (tl_rows st tempban_schedule_rowkey))"
    unfolding unban_round_def using assms(1-4) hook by (intro process_quiet) (simp_all add: fresh_row_def)
  then show ?thesis using assms(1-3) hook by (simp add: unban_round_def process_alt Let_def)
qed

text \<open>Cancelling by time also cancels what others have scheduled for the same time.\<close>

lemma unschedule_hits_others:
  assumes "map_of (tl_subjects st rowkey) subject = Some (uu, expires)" "tl_subjects st rowkey = [(subject, uu, expires)]" "now < expires"
    and "c \<in> set (tl_rows st row)" "tc_time c = fst uu"
  shows "c \<notin> set (tl_rows (by_subject_unschedule rowkey [subject] row now st) row)"
  using assms by (auto simp: by_subject_unschedule_def by_subject_search_def tl_unschedule_def tl_search_def)

end
