(* ===== verification/SubredditRules.thy ===== *)
theory SubredditRules
  imports ColumnQuery "HOL-Library.Sublist" "HOL-Library.Multiset"
begin

section \<open>The rules of a subreddit\<close>

text \<open>
  Models \<open>r2/models/rules.py\<close>, the validators \<open>VAvailableSubredditRuleName\<close> and \<open>VSubredditRule\<close> of
  \<open>r2/lib/validator/validator.py\<close> and the three requests of \<open>r2/controllers/api.py\<close> that change rules. A row of
  the view maps the names of rules to their texts; a JSON text is identified with its value. The parser of
  the old attribute \<open>when\<close> and the clock are parameters. Whether the request comes from a moderator with the permission
  \<open>config\<close> and whether the feature is enabled are arguments.
\<close>

record rule_blob =
  rb_description :: string
  rb_priority :: int
  rb_created :: "int option"
  rb_when :: "string option"
  rb_kind :: "string option"

type_synonym rules_view = "(string, rule_blob) view"

definition MAX_RULES_PER_SUBREDDIT :: nat where
  "MAX_RULES_PER_SUBREDDIT = 10"

subsection \<open>The view\<close>

definition py_none_or_zero :: "int option \<Rightarrow> bool" where
  "py_none_or_zero t \<longleftrightarrow> t = None \<or> t = Some 0"

definition get_rule_blob :: "string \<Rightarrow> string \<Rightarrow> int \<Rightarrow> string option \<Rightarrow> int option \<Rightarrow> int \<Rightarrow> (string, rule_blob) dict" where
  "get_rule_blob short_name description priority kind created_utc now =
     [(short_name, \<lparr>rb_description = description, rb_priority = priority,
       rb_created = (if py_none_or_zero created_utc then Some now else created_utc), rb_when = None,
       rb_kind = (if kind = None \<or> kind = Some [] \<or> kind = Some ''all'' then None else kind)\<rparr>)]"

definition rule_create :: "string \<Rightarrow> string \<Rightarrow> string \<Rightarrow> string option \<Rightarrow> int option \<Rightarrow> int \<Rightarrow> rules_view \<Rightarrow> rules_view" where
  "rule_create id36 short_name description kind created_utc now v =
     (let priority = length (v id36) in
      if priority \<ge> MAX_RULES_PER_SUBREDDIT then v
      else view_set_values id36 (get_rule_blob short_name description (int priority) kind created_utc now) v)"

text \<open>Rules without a creation time get it from \<open>when\<close>.\<close>

definition with_created :: "(string \<Rightarrow> int result) \<Rightarrow> rule_blob \<Rightarrow> rule_blob result" where
  "with_created strptime b =
     (if py_none_or_zero (rb_created b)
      then case rb_when b of
          None \<Rightarrow> Inl (KeyError ''when'')
        | Some w \<Rightarrow> bindr (strptime w) (\<lambda>t. Inr (b\<lparr>rb_created := Some t, rb_when := None\<rparr>))
      else Inr b)"

definition kind_applies :: "string option \<Rightarrow> rule_blob \<Rightarrow> bool" where
  "kind_applies kind b = (case kind of None \<Rightarrow> True | Some k \<Rightarrow> k = [] \<or>
     (case rb_kind b of None \<Rightarrow> True | Some k' \<Rightarrow> sublist k k'))"

definition get_rules :: "(string \<Rightarrow> int result) \<Rightarrow> string \<Rightarrow> string option \<Rightarrow> rules_view \<Rightarrow> (string, rule_blob) dict result" where
  "get_rules strptime id36 kind v =
     bindr (mapr (\<lambda>(name, b). bindr (with_created strptime b) (\<lambda>b'. Inr (name, b'))) (v id36)) (\<lambda>rules.
     Inr (sort_key (\<lambda>r. rb_priority (snd r)) (filter (\<lambda>r. kind_applies kind (snd r)) rules)))"

definition get_rule :: "string \<Rightarrow> string \<Rightarrow> rules_view \<Rightarrow> rule_blob option" where
  "get_rule id36 short_name v = map_of (v id36) short_name"

text \<open>The texts of the rules whose priority is not their place, counted from \<open>index\<close>; place \<open>skip\<close> is left free.\<close>

fun renumber :: "int \<Rightarrow> int option \<Rightarrow> int \<Rightarrow> (string, rule_blob) dict \<Rightarrow> (string, rule_blob) dict" where
  "renumber now skip index [] = []"
| "renumber now skip index ((name, b) # rules) =
     (let i = (if skip = Some index then index + 1 else index) in
      dict_update (if rb_priority b \<noteq> i then get_rule_blob name (rb_description b) i (rb_kind b) (rb_created b) now else [])
        (renumber now skip (i + 1) rules))"

definition rule_remove :: "(string \<Rightarrow> int result) \<Rightarrow> string \<Rightarrow> string \<Rightarrow> int \<Rightarrow> rules_view \<Rightarrow> rules_view result" where
  "rule_remove strptime id36 short_name now v =
     (let v1 = view_remove id36 [short_name] v in
      bindr (get_rules strptime id36 None v1) (\<lambda>rules. Inr (view_set_values id36 (renumber now None 0 rules) v1)))"

text \<open>\<open>update\<close>: False when there is no such rule; a row that does not exist raises.\<close>

definition rule_update ::
    "(string \<Rightarrow> int result) \<Rightarrow> string \<Rightarrow> string \<Rightarrow> string \<Rightarrow> string \<Rightarrow> string option \<Rightarrow> int \<Rightarrow> rules_view \<Rightarrow> (bool \<times> rules_view) result" where
  "rule_update strptime id36 old_short_name short_name description kind now v =
     bindr (view_values id36 v) (\<lambda>rules.
     let (old_rule, v1) = (if old_short_name \<noteq> short_name
         then (map_of rules old_short_name, view_remove id36 [old_short_name] v) else (map_of rules short_name, v)) in
     case old_rule of
       None \<Rightarrow> Inr (False, v1)
     | Some b \<Rightarrow> bindr (with_created strptime b) (\<lambda>b.
         Inr (True, view_set_values id36 (get_rule_blob short_name description (rb_priority b) kind (rb_created b) now) v1)))"

definition rule_reorder :: "(string \<Rightarrow> int result) \<Rightarrow> string \<Rightarrow> string \<Rightarrow> int \<Rightarrow> int \<Rightarrow> rules_view \<Rightarrow> (bool \<times> rules_view) result" where
  "rule_reorder strptime id36 short_name priority now v =
     (case get_rule id36 short_name v of
        None \<Rightarrow> Inr (False, v)
      | Some b \<Rightarrow>
          let v1 = view_remove id36 [short_name] v in
          bindr (get_rules strptime id36 None v1) (\<lambda>rules.
          let priority' = min priority (int (length rules)) in
          case rb_created b of
            None \<Rightarrow> Inl (KeyError ''created_utc'')
          | Some _ \<Rightarrow> Inr (True, view_set_values id36
              (dict_update (get_rule_blob short_name (rb_description b) priority' (rb_kind b) (rb_created b) now)
                (renumber now (Some priority') 0 rules)) v1)))"

subsection \<open>Validators and requests\<close>

definition rule_name_error :: "string \<Rightarrow> string option" where
  "rule_name_error name = (if name = [] then Some ''NO_TEXT'' else if length name > 50 then Some ''TOO_LONG'' else None)"

text \<open>The name, if it is usable, and the errors that are set.\<close>

definition VAvailableSubredditRuleName ::
    "(string \<Rightarrow> int result) \<Rightarrow> bool \<Rightarrow> string \<Rightarrow> string \<Rightarrow> rules_view \<Rightarrow> (string option \<times> string list) result" where
  "VAvailableSubredditRuleName strptime updating id36 short_name v =
     (let name = py_strip short_name in
      case rule_name_error name of
        Some err \<Rightarrow> Inr (None, [err])
      | None \<Rightarrow>
          if get_rule id36 name v \<noteq> None then Inr (Some name, [''SR_RULE_EXISTS''])
          else if \<not> updating
          then bindr (get_rules strptime id36 None v) (\<lambda>rules.
            if length rules \<ge> MAX_RULES_PER_SUBREDDIT then Inr (None, [''SR_RULE_TOO_MANY'']) else Inr (Some name, []))
          else Inr (Some name, []))"

definition VSubredditRule :: "string \<Rightarrow> string \<Rightarrow> rules_view \<Rightarrow> string option \<times> string list" where
  "VSubredditRule id36 short_name v =
     (let name = py_strip short_name in
      case rule_name_error name of
        Some err \<Rightarrow> (None, [err, ''SR_RULE_DOESNT_EXIST''])
      | None \<Rightarrow> if get_rule id36 name v = None then (None, [''SR_RULE_DOESNT_EXIST'']) else (Some name, []))"

datatype rule_answer = RuleSaved | RuleRefused string | RuleFailed py_error

record rules_state =
  ru_view :: rules_view
  ru_modlog :: "(string \<times> string \<times> string) list"

record rule_request =
  rq_config :: bool
  rq_enabled :: bool
  rq_id36 :: string
  rq_now :: int

definition refused :: "rule_request \<Rightarrow> string option" where
  "refused rq = (if \<not> rq_config rq then Some ''403'' else if \<not> rq_enabled rq then Some ''404'' else None)"

definition text_error :: "string \<Rightarrow> string \<Rightarrow> string option" where
  "text_error description kind =
     (if length description > 500 then Some ''TOO_LONG''
      else if kind \<notin> {''link'', ''comment'', ''all''} then Some ''INVALID_OPTION'' else None)"

definition log_rule :: "rule_request \<Rightarrow> string \<Rightarrow> string \<Rightarrow> rules_state \<Rightarrow> rules_state" where
  "log_rule rq action details st = st\<lparr>ru_modlog := ru_modlog st @ [(rq_id36 rq, action, details)]\<rparr>"

definition POST_add_subreddit_rule ::
    "(string \<Rightarrow> int result) \<Rightarrow> rule_request \<Rightarrow> string \<Rightarrow> string \<Rightarrow> string \<Rightarrow> rules_state \<Rightarrow> rule_answer \<times> rules_state" where
  "POST_add_subreddit_rule strptime rq short_name description kind st =
     (case VAvailableSubredditRuleName strptime False (rq_id36 rq) short_name (ru_view st) of
        Inl err \<Rightarrow> (RuleFailed err, st)
      | Inr (name, errs) \<Rightarrow>
          case refused rq of Some err \<Rightarrow> (RuleRefused err, st) | None \<Rightarrow>
          case (errs, text_error description kind, name) of
            (err # _, _, _) \<Rightarrow> (RuleRefused err, st)
          | (_, Some err, _) \<Rightarrow> (RuleRefused err, st)
          | (_, _, Some n) \<Rightarrow> (RuleSaved, log_rule rq ''createrule'' n
              (st\<lparr>ru_view := rule_create (rq_id36 rq) n description (Some kind) None (rq_now rq) (ru_view st)\<rparr>))
          | (_, _, None) \<Rightarrow> (RuleFailed (TypeError ''short_name''), st))"

definition POST_update_subreddit_rule ::
    "(string \<Rightarrow> int result) \<Rightarrow> rule_request \<Rightarrow> string \<Rightarrow> string \<Rightarrow> string \<Rightarrow> string \<Rightarrow> rules_state \<Rightarrow> rule_answer \<times> rules_state" where
  "POST_update_subreddit_rule strptime rq old_short_name short_name description kind st =
     (case VAvailableSubredditRuleName strptime True (rq_id36 rq) short_name (ru_view st) of
        Inl err \<Rightarrow> (RuleFailed err, st)
      | Inr (name, errs) \<Rightarrow>
          case refused rq of Some err \<Rightarrow> (RuleRefused err, st) | None \<Rightarrow>
          case VSubredditRule (rq_id36 rq) old_short_name (ru_view st) of
            (None, _) \<Rightarrow> (RuleRefused ''SR_RULE_DOESNT_EXIST'', st)
          | (Some old, _) \<Rightarrow>
              (case name of
                 None \<Rightarrow> (RuleRefused (hd errs), st)
               | Some n \<Rightarrow>
                   if old \<noteq> n \<and> ''SR_RULE_EXISTS'' \<in> set errs then (RuleRefused ''SR_RULE_EXISTS'', st)
                   else case text_error description kind of Some err \<Rightarrow> (RuleRefused err, st)
                   | None \<Rightarrow> (case rule_update strptime (rq_id36 rq) old n description (Some kind) (rq_now rq) (ru_view st) of
                       Inl err \<Rightarrow> (RuleFailed err, st)
                     | Inr (_, v) \<Rightarrow> (RuleSaved, log_rule rq ''editrule'' n (st\<lparr>ru_view := v\<rparr>)))))"

text \<open>
  The handler asks for errors of a field \<open>rule\<close>, but the validator reports them for \<open>short_name\<close>, so an
  unknown name is not refused and \<open>rule["short_name"]\<close> fails.
\<close>

definition POST_remove_subreddit_rule :: "(string \<Rightarrow> int result) \<Rightarrow> rule_request \<Rightarrow> string \<Rightarrow> rules_state \<Rightarrow> rule_answer \<times> rules_state" where
  "POST_remove_subreddit_rule strptime rq short_name st =
     (case refused rq of Some err \<Rightarrow> (RuleRefused err, st) | None \<Rightarrow>
      case VSubredditRule (rq_id36 rq) short_name (ru_view st) of
        (None, _) \<Rightarrow> (RuleFailed (TypeError ''NoneType''), st)
      | (Some n, _) \<Rightarrow> (case rule_remove strptime (rq_id36 rq) n (rq_now rq) (ru_view st) of
          Inl err \<Rightarrow> (RuleFailed err, st)
        | Inr v \<Rightarrow> (RuleSaved, log_rule rq ''deleterule'' n (st\<lparr>ru_view := v\<rparr>))))"

subsection \<open>Rules in order\<close>

text \<open>The rules \<open>ns\<close>, with the priorities \<open>0, 1, \<dots>\<close> and times of creation.\<close>

definition dated :: "rule_blob \<Rightarrow> bool" where
  "dated b \<longleftrightarrow> \<not> py_none_or_zero (rb_created b)"

definition in_sequence :: "(string, rule_blob) dict \<Rightarrow> string list \<Rightarrow> bool" where
  "in_sequence row ns \<longleftrightarrow> dict_ok row \<and> distinct ns \<and> set ns = fst ` set row \<and>
     (\<forall>i < length ns. \<exists>b. map_of row (ns ! i) = Some b \<and> rb_priority b = int i \<and> dated b)"

abbreviation prio :: "string \<times> rule_blob \<Rightarrow> int" where
  "prio r \<equiv> rb_priority (snd r)"

lemma sort_key_strict:
  assumes "sorted_wrt (\<lambda>x y. prio x < prio y) ps" "mset ps = mset row"
  shows "sort_key prio row = ps"
proof (rule properties_for_sort_key [OF assms(2)])
  fix k assume k: "k \<in> set ps"
  have inj: "inj_on prio (set ps)"
    using assms(1) by (induction ps) (auto simp: inj_on_def)
  have "distinct ps" using assms(1) by (induction ps) auto
  then have d: "distinct row" using assms(2) mset_eq_imp_distinct_iff by blast
  have set: "set row = set ps" using assms(2) by (metis set_mset_mset)
  have "filter (\<lambda>x. prio k = prio x) xs = filter (\<lambda>x. x = k) xs" if "set xs = set ps" for xs
    using that inj k by (intro filter_cong) (auto simp: inj_on_def)
  moreover have "filter (\<lambda>x. x = k) xs = [k]" if "distinct xs" "k \<in> set xs" for xs
    using that by (induction xs) (auto simp: filter_empty_conv)
  ultimately show "filter (\<lambda>x. prio k = prio x) ps = filter (\<lambda>x. prio k = prio x) row"
    using \<open>distinct ps\<close> d set k by simp
next
  show "sorted (map prio ps)"
    using assms(1) by (induction ps) (auto simp: less_imp_le)
qed

definition at_names :: "(string, rule_blob) dict \<Rightarrow> string list \<Rightarrow> (string, rule_blob) dict" where
  "at_names row ns = map (\<lambda>n. (n, the (map_of row n))) ns"

lemma mset_at_names:
  assumes "dict_ok row" "distinct ns" "set ns = fst ` set row"
  shows "mset (at_names row ns) = mset row"
proof -
  have d: "distinct row" using assms(1) by (simp add: dict_ok_def distinct_map)
  have "distinct (at_names row ns)" using assms(2) by (simp add: at_names_def distinct_map inj_on_def)
  moreover have "set (at_names row ns) = set row"
  proof -
    have look: "(n, b) \<in> set row \<longleftrightarrow> map_of row n = Some b" for n b
      using assms(1) map_of_eq_Some_iff [of row n b] by (auto simp: dict_ok_def)
    have "r \<in> set (at_names row ns) \<longleftrightarrow> r \<in> set row" for r
    proof (cases r)
      case (Pair n b)
      have "n \<in> set ns \<longleftrightarrow> map_of row n \<noteq> None" using assms(3) by (simp add: map_of_eq_None_iff)
      then show ?thesis using Pair look by (auto simp: at_names_def)
    qed
    then show ?thesis by blast
  qed
  ultimately show ?thesis using d set_eq_iff_mset_eq_distinct by blast
qed

lemma mapr_dated:
  assumes "\<forall>r \<in> set row. dated (snd r)"
  shows "mapr (\<lambda>(name, b). bindr (with_created strptime b) (\<lambda>b'. Inr (name, b'))) row = Inr row"
  using assms by (induction row) (auto simp: with_created_def dated_def)

text \<open>Rows whose priorities may have gaps, as after the removal of a rule.\<close>

definition ordered :: "(string, rule_blob) dict \<Rightarrow> string list \<Rightarrow> bool" where
  "ordered row ns \<longleftrightarrow> dict_ok row \<and> distinct ns \<and> set ns = fst ` set row \<and> (\<forall>r \<in> set row. dated (snd r)) \<and>
     sorted_wrt (\<lambda>x y. prio x < prio y) (at_names row ns)"

lemma get_rules_ordered:
  assumes "ordered (v id36) ns"
  shows "get_rules strptime id36 None v = Inr (at_names (v id36) ns)"
proof -
  have all: "filter (\<lambda>r. kind_applies None (snd r)) (v id36) = v id36" by (simp add: kind_applies_def)
  have "sort_key prio (v id36) = at_names (v id36) ns"
    using assms mset_at_names [of "v id36" ns] by (intro sort_key_strict) (auto simp: ordered_def)
  then show ?thesis using assms mapr_dated [of "v id36" strptime] all by (simp add: get_rules_def ordered_def)
qed

lemma in_sequence_ordered:
  assumes "in_sequence row ns"
  shows "ordered row ns"
proof -
  have at: "at_names row ns ! i = (ns ! i, the (map_of row (ns ! i)))" if "i < length ns" for i using that by (simp add: at_names_def)
  have num: "\<exists>b. map_of row (ns ! i) = Some b \<and> rb_priority b = int i \<and> dated b" if "i < length ns" for i
    using assms that by (simp add: in_sequence_def)
  have "sorted_wrt (\<lambda>x y. prio x < prio y) (at_names row ns)"
    unfolding sorted_wrt_iff_nth_less
  proof (intro allI impI)
    fix i j assume ij: "i < j" "j < length (at_names row ns)"
    then have len: "i < length ns" "j < length ns" by (simp_all add: at_names_def)
    obtain b where "map_of row (ns ! i) = Some b" "rb_priority b = int i" using num [OF len(1)] by blast
    moreover obtain b' where "map_of row (ns ! j) = Some b'" "rb_priority b' = int j" using num [OF len(2)] by blast
    ultimately show "prio (at_names row ns ! i) < prio (at_names row ns ! j)" using at [OF len(1)] at [OF len(2)] ij(1) by simp
  qed
  moreover have "dated (snd r)" if r: "r \<in> set row" for r
  proof -
    have "fst r \<in> set ns" using assms r by (simp add: in_sequence_def)
    then obtain i where i: "i < length ns" "ns ! i = fst r" unfolding in_set_conv_nth by blast
    have "map_of row (fst r) = Some (snd r)" using assms r by (simp add: in_sequence_def dict_ok_def)
    moreover obtain b where "map_of row (ns ! i) = Some b" "dated b" using num [OF i(1)] by blast
    ultimately show ?thesis using i(2) by simp
  qed
  ultimately show ?thesis using assms by (auto simp: ordered_def in_sequence_def)
qed

lemma ordered_filter:
  assumes "ordered row ns"
  shows "ordered (filter (\<lambda>r. fst r \<noteq> n) row) (filter (\<lambda>m. m \<noteq> n) ns)"
proof -
  have look: "map_of (filter (\<lambda>r. fst r \<noteq> n) row) m = map_of row m" if "m \<noteq> n" for m
    using that by (induction row) auto
  have "at_names (filter (\<lambda>r. fst r \<noteq> n) row) (filter (\<lambda>m. m \<noteq> n) ns) = filter (\<lambda>r. fst r \<noteq> n) (at_names row ns)"
    using look by (induction ns) (simp_all add: at_names_def)
  then show ?thesis
    using assms by (auto simp: ordered_def dict_ok_def distinct_map_filter sorted_wrt_filter)
qed

text \<open>Where \<open>renumber\<close> puts the rule at place \<open>j\<close>.\<close>

definition place :: "int option \<Rightarrow> int \<Rightarrow> nat \<Rightarrow> int" where
  "place skip index j = index + int j + (case skip of None \<Rightarrow> 0 | Some p \<Rightarrow> if index \<le> p \<and> p \<le> index + int j then 1 else 0)"

lemma place_simps:
  "place skip index 0 = (if skip = Some index then index + 1 else index)"
  "place skip index (Suc j) = place skip ((if skip = Some index then index + 1 else index) + 1) j"
  by (auto simp: place_def split: option.splits)

lemma dict_ok_blob [simp]: "dict_ok (get_rule_blob name d i k c now)"
  by (simp add: get_rule_blob_def dict_ok_def)

lemma dict_ok_renumber [simp]: "dict_ok (renumber now skip index rules)"
  by (induction now skip index rules rule: renumber.induct) (auto simp: Let_def intro: dict_ok_dict_update)

lemma map_of_renumber:
  "map_of (renumber now skip index ((name, b) # rules)) =
     map_of (if rb_priority b \<noteq> place skip index 0
       then get_rule_blob name (rb_description b) (place skip index 0) (rb_kind b) (rb_created b) now else []) ++
     map_of (renumber now skip (place skip index 0 + 1) rules)"
  by (simp add: Let_def place_simps map_of_dict_update)

lemma dom_renumber: "dom (map_of (renumber now skip index rules)) \<subseteq> fst ` set rules"
proof (induction rules arbitrary: index)
  case (Cons r rules)
  obtain name b where r: "r = (name, b)" by (cases r)
  show ?case unfolding r map_of_renumber using Cons by (auto simp: get_rule_blob_def split: if_splits)
qed simp

lemma renumber_at:
  assumes "distinct (map fst rules)" "j < length rules" "rules ! j = (name, b)" "dated b"
  shows "case map_of (renumber now skip index rules) name of
      None \<Rightarrow> rb_priority b = place skip index j
    | Some b' \<Rightarrow> rb_priority b' = place skip index j \<and> dated b'"
  using assms
proof (induction rules arbitrary: index j)
  case (Cons r rules)
  obtain n c where r: "r = (n, c)" by (cases r)
  have rest: "map_of (renumber now skip i rules) n = None" for i
    using dom_renumber [of now skip i rules] Cons.prems(1) r by auto
  show ?case
  proof (cases j)
    case 0
    then show ?thesis using Cons.prems r rest unfolding r map_of_renumber
      by (auto simp: map_add_def get_rule_blob_def dated_def)
  next
    case (Suc k)
    then have k: "k < length rules" "rules ! k = (name, b)" using Cons.prems by auto
    have "name \<noteq> n" using Cons.prems(1) k r nth_mem [OF k(1)] by (auto simp: image_iff)
    then have "map_of (renumber now skip index (r # rules)) name = map_of (renumber now skip (place skip index 0 + 1) rules) name"
      unfolding r map_of_renumber by (auto simp: map_add_def get_rule_blob_def split: option.splits)
    moreover have "place skip index j = place skip (place skip index 0 + 1) k" unfolding Suc by (simp add: place_simps)
    moreover have "distinct (map fst rules)" using Cons.prems(1) by simp
    ultimately show ?thesis using Cons.IH [OF _ k Cons.prems(4), of "place skip index 0 + 1"] by (simp only:)
  qed
qed simp

lemma keys_map_of: "fst ` set d = dom (map_of d)"
  by (simp add: dom_map_of_conv_image_fst)

lemma at_names_fst [simp]: "map fst (at_names row ns) = ns"
  by (simp add: at_names_def comp_def)

lemma lookup_renumbered:
  assumes "ordered row ns" "j < length ns"
  shows "\<exists>b. (map_of row ++ map_of (renumber now skip 0 (at_names row ns))) (ns ! j) = Some b \<and>
    rb_priority b = place skip 0 j \<and> dated b"
proof -
  have "ns ! j \<in> fst ` set row" using assms by (auto simp: ordered_def)
  then obtain b where b: "map_of row (ns ! j) = Some b" unfolding keys_map_of by blast
  then have d: "dated b" using assms(1) map_of_SomeD [OF b] by (auto simp: ordered_def)
  have at: "j < length (at_names row ns)" "at_names row ns ! j = (ns ! j, b)" using assms(2) b by (simp_all add: at_names_def)
  have "distinct (map fst (at_names row ns))" using assms(1) by (simp add: ordered_def)
  from renumber_at [OF this at d, where now = now and skip = skip and index = 0] show ?thesis using b d by (auto simp: map_add_def split: option.splits)
qed

lemma keys_renumbered:
  assumes "ordered row ns"
  shows "dom (map_of row ++ map_of (renumber now skip 0 (at_names row ns))) = set ns"
proof -
  have "fst ` set (at_names row ns) = set ns" by (metis at_names_fst list.set_map)
  then have "dom (map_of (renumber now skip 0 (at_names row ns))) \<subseteq> set ns"
    using dom_renumber [of now skip 0 "at_names row ns"] by simp
  moreover have "dom (map_of row) = set ns" using assms by (simp add: ordered_def keys_map_of)
  ultimately show ?thesis by auto
qed

subsection \<open>The operations keep the rules in_sequence\<close>

lemma in_sequence_iff:
  "in_sequence row ns \<longleftrightarrow> dict_ok row \<and> distinct ns \<and> dom (map_of row) = set ns \<and>
     (\<forall>i < length ns. \<exists>b. map_of row (ns ! i) = Some b \<and> rb_priority b = int i \<and> dated b)"
  by (auto simp: in_sequence_def keys_map_of)

lemma view_set_row [simp]: "view_set_values k d v k = dict_update (v k) d"
  by (simp add: view_set_values_def)

lemma view_set_other [simp]: "k' \<noteq> k \<Longrightarrow> view_set_values k d v k' = v k'"
  by (simp add: view_set_values_def)

lemma view_remove_row: "view_remove k [n] v k = filter (\<lambda>r. fst r \<noteq> n) (v k)"
  by (auto simp: view_remove_def intro!: filter_cong)

lemma view_remove_other [simp]: "k' \<noteq> k \<Longrightarrow> view_remove k ns v k' = v k'"
  by (simp add: view_remove_def)

lemma in_sequence_length: "in_sequence row ns \<Longrightarrow> length row = length ns"
  unfolding in_sequence_def dict_ok_def by (metis distinct_card length_map list.set_map)

lemma create_numbered:
  assumes "in_sequence (v id36) ns" "n \<notin> set ns" "length ns < 10" "now \<noteq> 0"
  shows "in_sequence (rule_create id36 n description kind None now v id36) (ns @ [n])"
proof -
  have len: "length (v id36) = length ns" by (rule in_sequence_length [OF assms(1)])
  have row: "rule_create id36 n description kind None now v id36 =
      dict_update (v id36) (get_rule_blob n description (int (length ns)) kind None now)"
    using assms(3) len by (simp add: rule_create_def MAX_RULES_PER_SUBREDDIT_def Let_def)
  obtain b where b: "get_rule_blob n description (int (length ns)) kind None now = [(n, b)]" "rb_priority b = int (length ns)" "dated b"
    using assms(4) by (simp add: get_rule_blob_def dated_def py_none_or_zero_def)
  have look: "map_of (rule_create id36 n description kind None now v id36) = (map_of (v id36))(n \<mapsto> b)"
    unfolding row b(1) by (simp add: dict_update_def)
  have "dict_ok (rule_create id36 n description kind None now v id36)"
    unfolding row using assms(1) by (intro dict_ok_dict_update) (simp add: in_sequence_def)
  moreover have "ns ! i \<noteq> n" if "i < length ns" for i using assms(2) nth_mem [OF that] by metis
  ultimately show ?thesis unfolding in_sequence_iff look using assms(1,2) b(2,3)
    by (auto simp: in_sequence_iff nth_append less_Suc_eq)
qed

lemma remove_numbered:
  assumes "in_sequence (v id36) ns"
  shows "\<exists>v'. rule_remove strptime id36 n now v = Inr v' \<and> in_sequence (v' id36) (filter (\<lambda>m. m \<noteq> n) ns) \<and> (\<forall>k. k \<noteq> id36 \<longrightarrow> v' k = v k)"
proof -
  define v1 where "v1 = view_remove id36 [n] v"
  define ms where "ms = filter (\<lambda>m. m \<noteq> n) ns"
  have o: "ordered (v1 id36) ms"
    unfolding v1_def view_remove_row ms_def by (rule ordered_filter [OF in_sequence_ordered [OF assms]])
  define v' where "v' = view_set_values id36 (renumber now None 0 (at_names (v1 id36) ms)) v1"
  have "rule_remove strptime id36 n now v = Inr v'"
    using get_rules_ordered [of v1 id36 ms strptime, OF o] by (simp add: rule_remove_def v'_def v1_def [symmetric] Let_def)
  moreover have look: "map_of (v' id36) = map_of (v1 id36) ++ map_of (renumber now None 0 (at_names (v1 id36) ms))"
    by (simp add: v'_def map_of_dict_update)
  moreover have "dict_ok (v' id36)" using o by (simp add: v'_def dict_ok_dict_update ordered_def)
  ultimately have "rule_remove strptime id36 n now v = Inr v' \<and> in_sequence (v' id36) ms"
    unfolding in_sequence_iff look using keys_renumbered [OF o] lookup_renumbered [OF o, of _ now None] o
    by (auto simp: ordered_def place_def)
  then show ?thesis by (auto simp: ms_def v'_def v1_def)
qed

lemma update_numbered:
  assumes "in_sequence (v id36) ns" "old \<in> set ns" "new = old \<or> new \<notin> set ns"
  shows "\<exists>v'. rule_update strptime id36 old new description kind now v = Inr (True, v') \<and>
    in_sequence (v' id36) (map (\<lambda>m. if m = old then new else m) ns) \<and> (\<forall>k. k \<noteq> id36 \<longrightarrow> v' k = v k)"
proof -
  define row where "row = v id36"
  have num: "dict_ok row" "distinct ns" "dom (map_of row) = set ns"
    "\<And>i. i < length ns \<Longrightarrow> \<exists>b. map_of row (ns ! i) = Some b \<and> rb_priority b = int i \<and> dated b"
    using assms(1) by (simp_all add: in_sequence_iff row_def)
  obtain j where j: "j < length ns" "ns ! j = old" using assms(2) by (auto simp: in_set_conv_nth)
  obtain b where b: "map_of row old = Some b" "rb_priority b = int j" "dated b" using num(4) [OF j(1)] j(2) by auto
  obtain b' where b': "get_rule_blob new description (rb_priority b) kind (rb_created b) now = [(new, b')]" "rb_priority b' = int j" "dated b'"
    using b(2,3) by (simp add: get_rule_blob_def dated_def)
  define v1 where "v1 = (if old \<noteq> new then view_remove id36 [old] v else v)"
  define v' where "v' = view_set_values id36 [(new, b')] v1"
  have "v id36 \<noteq> []" using b(1) by (auto simp: row_def)
  then have "rule_update strptime id36 old new description kind now v = Inr (True, v')"
    using b b'(1) by (auto simp: rule_update_def view_values_def row_def v'_def v1_def with_created_def dated_def Let_def)
  moreover have "in_sequence (v' id36) (map (\<lambda>m. if m = old then new else m) ns)"
  proof -
    have look: "map_of (v' id36) = (if old \<noteq> new then (map_of row)(old := None) else map_of row)(new \<mapsto> b')"
    proof -
      have "map_of (filter (\<lambda>r. fst r \<noteq> old) xs) = (map_of xs)(old := None)" for xs :: "(string, rule_blob) dict"
        by (induction xs) auto
      then show ?thesis by (auto simp: v'_def v1_def dict_update_def row_def view_remove_row)
    qed
    have ok: "dict_ok (v' id36)"
      using num(1) by (auto simp: v'_def v1_def row_def view_remove_row dict_ok_def distinct_map_filter intro!: dict_ok_dict_update [unfolded dict_ok_def])
    have inj: "i = j" if "i < length ns" "ns ! i = old" for i using that j num(2) by (metis nth_eq_iff_index_eq)
    have dist: "distinct (map (\<lambda>m. if m = old then new else m) ns)"
      using num(2) assms(3) by (auto simp: distinct_map inj_on_def)
    have dom: "dom (map_of (v' id36)) = set (map (\<lambda>m. if m = old then new else m) ns)"
      unfolding look using num(3) assms(2,3) by auto
    have "\<exists>c. map_of (v' id36) ((if ns ! i = old then new else ns ! i)) = Some c \<and> rb_priority c = int i \<and> dated c" if i: "i < length ns" for i
    proof (cases "ns ! i = old")
      case True
      then show ?thesis unfolding look using inj [OF i True] b'(2,3) by simp
    next
      case False
      then have "ns ! i \<noteq> new" using assms(3) nth_mem [OF i] by auto
      then show ?thesis unfolding look using num(4) [OF i] False by simp
    qed
    then show ?thesis unfolding in_sequence_iff using ok dist dom by simp
  qed
  ultimately show ?thesis by (auto simp: v'_def v1_def)
qed

lemma reorder_numbered:
  assumes "in_sequence (v id36) ns" "n \<in> set ns" "0 \<le> p"
  defines "ms \<equiv> filter (\<lambda>m. m \<noteq> n) ns"
  shows "\<exists>v'. rule_reorder strptime id36 n p now v = Inr (True, v') \<and>
    in_sequence (v' id36) (take (nat p) ms @ n # drop (nat p) ms)"
proof -
  define v1 where "v1 = view_remove id36 [n] v"
  have o: "ordered (v1 id36) ms"
    unfolding v1_def view_remove_row ms_def by (rule ordered_filter [OF in_sequence_ordered [OF assms(1)]])
  obtain b where b: "map_of (v id36) n = Some b" "dated b"
    using assms(1,2) unfolding in_sequence_iff in_set_conv_nth by blast
  define p' where "p' = min p (int (length ms))"
  define q where "q = nat p'"
  have q: "q \<le> length ms" "p' = int q" "take (nat p) ms = take q ms" "drop (nat p) ms = drop q ms"
    using assms(3) by (auto simp: q_def p'_def min_def)
  obtain b' where b': "get_rule_blob n (rb_description b) p' (rb_kind b) (rb_created b) now = [(n, b')]" "rb_priority b' = p'" "dated b'"
    using b(2) by (simp add: get_rule_blob_def dated_def)
  define ren where "ren = renumber now (Some p') 0 (at_names (v1 id36) ms)"
  define v' where "v' = view_set_values id36 (dict_update [(n, b')] ren) v1"
  have "rb_created b \<noteq> None" using b(2) by (auto simp: dated_def py_none_or_zero_def)
  then have step: "rule_reorder strptime id36 n p now v = Inr (True, v')"
    using get_rules_ordered [of v1 id36 ms strptime, OF o] b(1) b'(1)
    by (auto simp: rule_reorder_def get_rule_def v1_def [symmetric] v'_def ren_def p'_def at_names_def Let_def)
  have nms: "n \<notin> set ms" by (simp add: ms_def)
  have "dom (map_of ren) \<subseteq> set ms"
    using dom_renumber [of now "Some p'" 0 "at_names (v1 id36) ms"] unfolding ren_def by (metis at_names_fst list.set_map)
  then have rn: "map_of ren n = None" using nms by auto
  have dren: "dict_ok (dict_update [(n, b')] ren)" by (intro dict_ok_dict_update) (simp add: dict_ok_def)
  have look: "map_of (v' id36) = (map_of (v1 id36) ++ map_of ren)(n \<mapsto> b')"
  proof
    fix x
    have "map_of (dict_update [(n, b')] ren) = map_of [(n, b')] ++ map_of ren" by (rule map_of_dict_update) (simp add: ren_def)
    then show "map_of (v' id36) x = ((map_of (v1 id36) ++ map_of ren)(n \<mapsto> b')) x"
      using rn by (simp add: v'_def map_of_dict_update [OF dren] map_add_def split: option.splits)
  qed
  have ok: "dict_ok (v' id36)" using o by (simp add: v'_def dict_ok_dict_update ordered_def)
  have "distinct ms" using o by (simp add: ordered_def)
  then have dist: "distinct (take q ms @ n # drop q ms)" using nms set_take_disj_set_drop_if_distinct [of ms q q]
    by (auto dest: in_set_takeD in_set_dropD)
  have sets: "set (take q ms @ n # drop q ms) = insert n (set ms)" by (metis append_take_drop_id list.simps(15) set_append Un_insert_right)
  have dom: "dom (map_of (v' id36)) = set (take q ms @ n # drop q ms)"
    unfolding look sets using keys_renumbered [OF o, of now "Some p'"] by (auto simp: ren_def)
  have old: "\<exists>c. map_of (v' id36) (ms ! j) = Some c \<and> rb_priority c = int (if q \<le> j then Suc j else j) \<and> dated c" if j: "j < length ms" for j
  proof -
    have "ms ! j \<noteq> n" using nms nth_mem [OF j] by metis
    moreover obtain c where "(map_of (v1 id36) ++ map_of ren) (ms ! j) = Some c" "rb_priority c = place (Some p') 0 j" "dated c"
      using lookup_renumbered [OF o j, of now "Some p'"] unfolding ren_def [symmetric] by (elim exE conjE) (rule that)
    ultimately have "map_of (v' id36) (ms ! j) = Some c \<and> rb_priority c = int (if q \<le> j then Suc j else j) \<and> dated c"
      unfolding look using q(2) by (simp add: place_def)
    then show ?thesis by blast
  qed
  have "\<exists>c. map_of (v' id36) ((take q ms @ n # drop q ms) ! i) = Some c \<and> rb_priority c = int i \<and> dated c"
    if i: "i < length (take q ms @ n # drop q ms)" for i
  proof (cases "i < q")
    case True
    then show ?thesis using old [of i] q(1) by (simp add: nth_append min_def)
  next
    case False
    show ?thesis
    proof (cases "i = q")
      case True
      then show ?thesis using q(1,2) b'(2,3) look by (simp add: nth_append)
    next
      case False
      then have "q < i" using \<open>\<not> i < q\<close> by simp
      have "i < Suc (length ms)" using i q(1) by simp
      then have "i - 1 < length ms" "q \<le> i - 1" using \<open>q < i\<close> by simp_all
      moreover have "(take q ms @ n # drop q ms) ! i = ms ! (i - 1)"
        using calculation \<open>q < i\<close> q(1) by (simp add: nth_append nth_Cons')
      ultimately show ?thesis using old [of "i - 1"] \<open>q < i\<close> by simp
    qed
  qed
  then have "in_sequence (v' id36) (take q ms @ n # drop q ms)" unfolding in_sequence_iff using ok dist dom by blast
  then show ?thesis using step q(3,4) by auto
qed

subsection \<open>The requests and the list of names they keep\<close>

datatype rule_call =
    AddRule rule_request string string string
  | UpdateRule rule_request string string string string
  | RemoveRule rule_request string

fun call_request :: "rule_call \<Rightarrow> rule_request" where
  "call_request (AddRule rq s d k) = rq"
| "call_request (UpdateRule rq old s d k) = rq"
| "call_request (RemoveRule rq s) = rq"

fun rules_step :: "(string \<Rightarrow> int result) \<Rightarrow> rule_call \<Rightarrow> rules_state \<Rightarrow> rule_answer \<times> rules_state" where
  "rules_step strptime (AddRule rq s d k) st = POST_add_subreddit_rule strptime rq s d k st"
| "rules_step strptime (UpdateRule rq old s d k) st = POST_update_subreddit_rule strptime rq old s d k st"
| "rules_step strptime (RemoveRule rq s) st = POST_remove_subreddit_rule strptime rq s st"

fun rules_run :: "(string \<Rightarrow> int result) \<Rightarrow> rule_call list \<Rightarrow> rules_state \<Rightarrow> rule_answer list \<times> rules_state" where
  "rules_run strptime [] st = ([], st)"
| "rules_run strptime (c # cs) st =
     (let (a, st) = rules_step strptime c st; (as, st) = rules_run strptime cs st in (a # as, st))"

text \<open>The specification: the names of a subreddit's rules, in order.\<close>

definition new_name_error :: "string \<Rightarrow> string list \<Rightarrow> string option" where
  "new_name_error n ns =
     (case rule_name_error n of Some err \<Rightarrow> Some err
      | None \<Rightarrow> if n \<in> set ns then Some ''SR_RULE_EXISTS''
                else if length ns \<ge> 10 then Some ''SR_RULE_TOO_MANY'' else None)"

fun names_step :: "rule_call \<Rightarrow> string list \<Rightarrow> rule_answer \<times> string list" where
  "names_step (AddRule rq s d k) ns =
     (let n = py_strip s in
      case (refused rq, new_name_error n ns, text_error d k) of
        (Some err, _, _) \<Rightarrow> (RuleRefused err, ns)
      | (None, Some err, _) \<Rightarrow> (RuleRefused err, ns)
      | (None, None, Some err) \<Rightarrow> (RuleRefused err, ns)
      | (None, None, None) \<Rightarrow> (RuleSaved, ns @ [n]))"
| "names_step (UpdateRule rq old s d k) ns =
     (let m = py_strip old; n = py_strip s in
      case refused rq of Some err \<Rightarrow> (RuleRefused err, ns) | None \<Rightarrow>
      if rule_name_error m \<noteq> None \<or> m \<notin> set ns then (RuleRefused ''SR_RULE_DOESNT_EXIST'', ns)
      else case rule_name_error n of Some err \<Rightarrow> (RuleRefused err, ns) | None \<Rightarrow>
      if n \<noteq> m \<and> n \<in> set ns then (RuleRefused ''SR_RULE_EXISTS'', ns)
      else case text_error d k of Some err \<Rightarrow> (RuleRefused err, ns)
      | None \<Rightarrow> (RuleSaved, map (\<lambda>x. if x = m then n else x) ns))"
| "names_step (RemoveRule rq s) ns =
     (let n = py_strip s in
      case refused rq of Some err \<Rightarrow> (RuleRefused err, ns) | None \<Rightarrow>
      if rule_name_error n \<noteq> None \<or> n \<notin> set ns then (RuleFailed (TypeError ''NoneType''), ns)
      else (RuleSaved, filter (\<lambda>x. x \<noteq> n) ns))"

fun names_run :: "rule_call list \<Rightarrow> (string \<Rightarrow> string list) \<Rightarrow> rule_answer list \<times> (string \<Rightarrow> string list)" where
  "names_run [] names = ([], names)"
| "names_run (c # cs) names =
     (let id36 = rq_id36 (call_request c); (a, ns) = names_step c (names id36);
          (as, names) = names_run cs (names(id36 := ns)) in (a # as, names))"

definition names_of :: "rules_view \<Rightarrow> (string \<Rightarrow> string list) \<Rightarrow> bool" where
  "names_of v names \<longleftrightarrow> (\<forall>k. in_sequence (v k) (names k) \<and> length (names k) \<le> 10)"

lemma get_rule_numbered: "in_sequence (v k) ns \<Longrightarrow> get_rule k n v = None \<longleftrightarrow> n \<notin> set ns"
  by (auto simp: get_rule_def in_sequence_iff)

lemma get_rules_numbered: "in_sequence (v k) ns \<Longrightarrow> get_rules strptime k None v = Inr (at_names (v k) ns)"
  by (simp add: get_rules_ordered in_sequence_ordered)

lemma length_at_names [simp]: "length (at_names row ns) = length ns"
  by (simp add: at_names_def)

lemma VAvailable_numbered:
  assumes "in_sequence (v k) ns"
  shows "VAvailableSubredditRuleName strptime False k s v =
      (case new_name_error (py_strip s) ns of
         Some err \<Rightarrow> Inr (if err = ''SR_RULE_EXISTS'' then Some (py_strip s) else None, [err])
       | None \<Rightarrow> Inr (Some (py_strip s), []))"
    "VAvailableSubredditRuleName strptime True k s v =
      (case rule_name_error (py_strip s) of
         Some err \<Rightarrow> Inr (None, [err])
       | None \<Rightarrow> Inr (Some (py_strip s), if py_strip s \<in> set ns then [''SR_RULE_EXISTS''] else []))"
  using get_rule_numbered [of v k ns, OF assms] get_rules_numbered [of v k ns, OF assms]
  by (auto simp: VAvailableSubredditRuleName_def new_name_error_def rule_name_error_def MAX_RULES_PER_SUBREDDIT_def Let_def split: option.splits)

lemma VSubredditRule_numbered:
  "in_sequence (v k) ns \<Longrightarrow>
    fst (VSubredditRule k s v) = (if rule_name_error (py_strip s) \<noteq> None \<or> py_strip s \<notin> set ns then None else Some (py_strip s))"
  by (auto simp: VSubredditRule_def get_rule_numbered Let_def split: option.splits)

lemma names_of_update:
  assumes "names_of v names" "in_sequence (v' k) ns" "length ns \<le> 10" "\<forall>j. j \<noteq> k \<longrightarrow> v' j = v j"
  shows "names_of v' (names(k := ns))"
  using assms by (auto simp: names_of_def)

lemma create_other: "j \<noteq> k \<Longrightarrow> rule_create k n d kind t now v j = v j"
  by (simp add: rule_create_def Let_def)

lemma view_of_log: "ru_view (log_rule rq action details (st\<lparr>ru_view := v\<rparr>)) = v"
  by (simp add: log_rule_def)

lemma POST_add_names:
  assumes "names_of (ru_view st) names" "rq_now rq \<noteq> 0"
  shows "fst (POST_add_subreddit_rule strptime rq s d k st) = fst (names_step (AddRule rq s d k) (names (rq_id36 rq))) \<and>
    names_of (ru_view (snd (POST_add_subreddit_rule strptime rq s d k st)))
      (names(rq_id36 rq := snd (names_step (AddRule rq s d k) (names (rq_id36 rq)))))"
proof -
  let ?k = "rq_id36 rq" and ?n = "py_strip s"
  have num: "in_sequence (ru_view st ?k) (names ?k)" using assms(1) by (simp add: names_of_def)
  show ?thesis
  proof (cases "refused rq = None \<and> new_name_error ?n (names ?k) = None \<and> text_error d k = None")
    case True
    then have n: "?n \<notin> set (names ?k)" "length (names ?k) < 10" by (auto simp: new_name_error_def split: option.splits if_splits)
    have "names_of (rule_create ?k ?n d (Some k) None (rq_now rq) (ru_view st)) (names(?k := names ?k @ [?n]))"
      using n by (intro names_of_update [OF assms(1)] create_numbered [of "ru_view st" ?k "names ?k", OF num] assms(2)) (auto simp: create_other)
    then show ?thesis using True by (simp add: POST_add_subreddit_rule_def VAvailable_numbered [of "ru_view st" ?k "names ?k", OF num] view_of_log)
  next
    case False
    then show ?thesis using assms(1)
      by (auto simp: POST_add_subreddit_rule_def VAvailable_numbered [of "ru_view st" ?k "names ?k", OF num] Let_def split: option.splits)
  qed
qed

lemma POST_update_names:
  assumes "names_of (ru_view st) names"
  shows "fst (POST_update_subreddit_rule strptime rq old s d k st) = fst (names_step (UpdateRule rq old s d k) (names (rq_id36 rq))) \<and>
    names_of (ru_view (snd (POST_update_subreddit_rule strptime rq old s d k st)))
      (names(rq_id36 rq := snd (names_step (UpdateRule rq old s d k) (names (rq_id36 rq)))))"
proof -
  let ?k = "rq_id36 rq" and ?n = "py_strip s" and ?m = "py_strip old"
  have num: "in_sequence (ru_view st ?k) (names ?k)" and len: "length (names ?k) \<le> 10" using assms(1) by (auto simp: names_of_def)
  obtain es where es: "VSubredditRule ?k old (ru_view st) =
      (if rule_name_error ?m \<noteq> None \<or> ?m \<notin> set (names ?k) then None else Some ?m, es)"
    using VSubredditRule_numbered [of "ru_view st" ?k "names ?k" old, OF num] by (cases "VSubredditRule ?k old (ru_view st)") simp
  show ?thesis
  proof (cases "refused rq = None \<and> rule_name_error ?m = None \<and> ?m \<in> set (names ?k) \<and> rule_name_error ?n = None \<and>
      (?n = ?m \<or> ?n \<notin> set (names ?k)) \<and> text_error d k = None")
    case True
    then obtain v' where v': "rule_update strptime ?k ?m ?n d (Some k) (rq_now rq) (ru_view st) = Inr (True, v')"
        "in_sequence (v' ?k) (map (\<lambda>x. if x = ?m then ?n else x) (names ?k))" "\<forall>j. j \<noteq> ?k \<longrightarrow> v' j = ru_view st j"
      using update_numbered [of "ru_view st" ?k "names ?k" ?m ?n strptime d "Some k" "rq_now rq", OF num] by blast
    have "names_of v' (names(?k := map (\<lambda>x. if x = ?m then ?n else x) (names ?k)))"
      using names_of_update [OF assms(1) v'(2) _ v'(3)] len by simp
    moreover have "POST_update_subreddit_rule strptime rq old s d k st = (RuleSaved, log_rule rq ''editrule'' ?n (st\<lparr>ru_view := v'\<rparr>))"
      using True v'(1) by (elim conjE disjE) (simp_all add: POST_update_subreddit_rule_def VAvailable_numbered [of "ru_view st" ?k "names ?k", OF num] es)
    moreover have "names_step (UpdateRule rq old s d k) (names ?k) = (RuleSaved, map (\<lambda>x. if x = ?m then ?n else x) (names ?k))"
      using True by (elim conjE disjE) (simp_all add: Let_def, rule map_idI [symmetric], simp)
    ultimately show ?thesis by (simp only: fst_conv snd_conv view_of_log simp_thms)
  next
    case False
    then show ?thesis using assms(1)
      by (cases "refused rq"; cases "rule_name_error ?m"; cases "?m \<in> set (names ?k)"; cases "rule_name_error ?n"; cases "?n \<in> set (names ?k)";
          cases "?n = ?m"; cases "text_error d k";
          simp add: POST_update_subreddit_rule_def VAvailable_numbered [of "ru_view st" ?k "names ?k", OF num] es)
  qed
qed

lemma POST_remove_names:
  assumes "names_of (ru_view st) names"
  shows "fst (POST_remove_subreddit_rule strptime rq s st) = fst (names_step (RemoveRule rq s) (names (rq_id36 rq))) \<and>
    names_of (ru_view (snd (POST_remove_subreddit_rule strptime rq s st)))
      (names(rq_id36 rq := snd (names_step (RemoveRule rq s) (names (rq_id36 rq)))))"
proof -
  let ?k = "rq_id36 rq" and ?n = "py_strip s"
  have num: "in_sequence (ru_view st ?k) (names ?k)" and len: "length (names ?k) \<le> 10" using assms(1) by (auto simp: names_of_def)
  obtain es where es: "VSubredditRule ?k s (ru_view st) =
      (if rule_name_error ?n \<noteq> None \<or> ?n \<notin> set (names ?k) then None else Some ?n, es)"
    using VSubredditRule_numbered [of "ru_view st" ?k "names ?k" s, OF num] by (cases "VSubredditRule ?k s (ru_view st)") simp
  obtain v' where v': "rule_remove strptime ?k ?n (rq_now rq) (ru_view st) = Inr v'"
      "in_sequence (v' ?k) (filter (\<lambda>m. m \<noteq> ?n) (names ?k))" "\<forall>j. j \<noteq> ?k \<longrightarrow> v' j = ru_view st j"
    using remove_numbered [of "ru_view st" ?k "names ?k" strptime ?n "rq_now rq", OF num] by blast
  have "names_of v' (names(?k := filter (\<lambda>m. m \<noteq> ?n) (names ?k)))"
    using names_of_update [OF assms(1) v'(2) _ v'(3)] len length_filter_le [of "\<lambda>m. m \<noteq> ?n" "names ?k"] by simp
  then show ?thesis using v'(1) assms(1)
    by (cases "refused rq"; cases "rule_name_error ?n"; cases "?n \<in> set (names ?k)"; simp add: POST_remove_subreddit_rule_def es view_of_log del: fun_upd_apply)
qed

lemma rules_step_names:
  assumes "names_of (ru_view st) names" "rq_now (call_request c) \<noteq> 0"
  shows "fst (rules_step strptime c st) = fst (names_step c (names (rq_id36 (call_request c)))) \<and>
    names_of (ru_view (snd (rules_step strptime c st)))
      (names(rq_id36 (call_request c) := snd (names_step c (names (rq_id36 (call_request c))))))"
proof (cases c)
  case (AddRule rq s d k)
  then show ?thesis using POST_add_names [OF assms(1), of rq strptime] assms(2) by (simp only: rules_step.simps call_request.simps simp_thms)
next
  case (UpdateRule rq old s d k)
  then show ?thesis using POST_update_names [OF assms(1), of strptime rq] by (simp only: rules_step.simps call_request.simps)
next
  case (RemoveRule rq s)
  then show ?thesis using POST_remove_names [OF assms(1), of strptime rq] by (simp only: rules_step.simps call_request.simps)
qed

lemma rules_run_names:
  assumes "names_of (ru_view st) names" "\<forall>c \<in> set cs. rq_now (call_request c) \<noteq> 0"
  shows "fst (rules_run strptime cs st) = fst (names_run cs names) \<and>
    names_of (ru_view (snd (rules_run strptime cs st))) (snd (names_run cs names))"
  using assms
proof (induction cs arbitrary: st names)
  case (Cons c cs)
  obtain a st' where st': "rules_step strptime c st = (a, st')" by fastforce
  obtain b ns where ns: "names_step c (names (rq_id36 (call_request c))) = (b, ns)" by fastforce
  define names' where "names' = names(rq_id36 (call_request c) := ns)"
  have "a = b" and *: "names_of (ru_view st') names'"
    using rules_step_names [OF Cons.prems(1), of c strptime] Cons.prems(2) st' ns by (auto simp: names'_def)
  moreover have "rules_run strptime (c # cs) st = (a # fst (rules_run strptime cs st'), snd (rules_run strptime cs st'))"
    by (simp add: st' split_def Let_def)
  moreover have "names_run (c # cs) names = (b # fst (names_run cs names'), snd (names_run cs names'))"
    by (simp add: ns split_def Let_def names'_def)
  ultimately show ?case using Cons.IH [OF *] Cons.prems(2) by simp
qed simp

definition no_rules :: rules_state where
  "no_rules = \<lparr>ru_view = (\<lambda>_. []), ru_modlog = []\<rparr>"

text \<open>
  (C37) The three requests that change the rules of subreddits, whoever sends them and in whatever order, answer and act as the
  specification \<open>names_run\<close> on lists of names does: a rule that is added goes last, a rule that is edited keeps its place
  whether or not it is renamed, and a rule that is removed leaves the order of the others. At every moment the
  page of a subreddit shows its rules in that order, their priorities are 0, 1, 2, \dots, no two
  have the same name and there are at most ten.
\<close>

theorem rules_are_lists:
  assumes "\<forall>c \<in> set cs. rq_now (call_request c) \<noteq> 0"
  shows "fst (rules_run strptime cs no_rules) = fst (names_run cs (\<lambda>_. [])) \<and>
    (let ns = snd (names_run cs (\<lambda>_. [])) id36; rules = get_rules strptime id36 None (ru_view (snd (rules_run strptime cs no_rules))) in
      distinct ns \<and> length ns \<le> 10 \<and>
      (\<exists>rs. rules = Inr rs \<and> map fst rs = ns \<and> map prio rs = map int [0..<length ns]))"
proof -
  have "names_of (ru_view no_rules) (\<lambda>_. [])" by (simp add: no_rules_def names_of_def in_sequence_def dict_ok_def)
  from rules_run_names [OF this assms, of strptime]
  have run: "fst (rules_run strptime cs no_rules) = fst (names_run cs (\<lambda>_. []))"
    and num: "in_sequence (ru_view (snd (rules_run strptime cs no_rules)) id36) (snd (names_run cs (\<lambda>_. [])) id36)"
    and len: "length (snd (names_run cs (\<lambda>_. [])) id36) \<le> 10"
    by (auto simp: names_of_def)
  have "map prio (at_names row ns) = map int [0..<length ns]" if "in_sequence row ns" for row ns
    using that by (intro nth_equalityI) (auto simp: at_names_def in_sequence_iff)
  then show ?thesis using run len get_rules_numbered [of "ru_view (snd (rules_run strptime cs no_rules))" id36, OF num] num by (simp add: in_sequence_iff Let_def)
qed

definition sample_rule_calls :: "rule_call list" where
  "sample_rule_calls =
     (let rq = (\<lambda>t. \<lparr>rq_config = True, rq_enabled = True, rq_id36 = ''2'', rq_now = t\<rparr>) in
      [AddRule (rq 5) ''a'' ''be kind'' ''all'', AddRule (rq 6) ''b'' ''no spam'' ''link'', AddRule (rq 7) '' a '' [] ''all'',
       AddRule (rq 8) ''c'' [] ''comment'', RemoveRule (rq 9) ''a'', UpdateRule (rq 10) ''b'' ''d'' ''no ads'' ''all'',
       RemoveRule (rq 11) ''a''])"

theorem rules_are_lists_witness:
  "fst (rules_run (\<lambda>_. Inl AssertionError) sample_rule_calls no_rules) =
     [RuleSaved, RuleSaved, RuleRefused ''SR_RULE_EXISTS'', RuleSaved, RuleSaved, RuleSaved, RuleFailed (TypeError ''NoneType'')] \<and>
   (\<exists>rs. get_rules (\<lambda>_. Inl AssertionError) ''2'' None (ru_view (snd (rules_run (\<lambda>_. Inl AssertionError) sample_rule_calls no_rules))) = Inr rs \<and>
      map fst rs = [''d'', ''c''])"
proof -
  have "\<forall>c \<in> set sample_rule_calls. rq_now (call_request c) \<noteq> 0" by (simp add: sample_rule_calls_def)
  from rules_are_lists [OF this, of "\<lambda>_. Inl AssertionError" "''2''"]
  have "fst (rules_run (\<lambda>_. Inl AssertionError) sample_rule_calls no_rules) = fst (names_run sample_rule_calls (\<lambda>_. []))"
    "\<exists>rs. get_rules (\<lambda>_. Inl AssertionError) ''2'' None (ru_view (snd (rules_run (\<lambda>_. Inl AssertionError) sample_rule_calls no_rules))) = Inr rs \<and>
      map fst rs = snd (names_run sample_rule_calls (\<lambda>_. [])) ''2''"
    by (auto simp: Let_def)
  moreover have "fst (names_run sample_rule_calls (\<lambda>_. [])) =
      [RuleSaved, RuleSaved, RuleRefused ''SR_RULE_EXISTS'', RuleSaved, RuleSaved, RuleSaved, RuleFailed (TypeError ''NoneType'')]"
    "snd (names_run sample_rule_calls (\<lambda>_. [])) ''2'' = [''d'', ''c'']"
    by code_simp+
  ultimately show ?thesis by simp
qed

end
