(* ===== verification/OAuthScope.thy ===== *)
theory OAuthScope
  imports Prelude
begin

section \<open>Scopes of access tokens\<close>

text \<open>
  Models the class \<open>OAuth2Scope\<close> of \<open>r2/models/token.py\<close>: which scopes there are, how the text of a scope is read
  and printed, what a scope allows, and the summary \<open>merge_scopes\<close> that is shown to users. Python's sets of
  strings are sets; \<open>merge_scopes\<close> shares sets between objects, so there the sets are kept in a store.
\<close>

record oauth_scope =
  sc_subreddit_only :: bool
  sc_subreddits :: "string set"
  sc_scopes :: "string set"

text \<open>The keys of \<open>scope_info\<close> that are strings.\<close>

definition scope_info :: "string list" where
  "scope_info = [''account'', ''creddits'', ''edit'', ''flair'', ''history'', ''identity'', ''modcontributors'', ''modflair'',
     ''modposts'', ''modconfig'', ''modlog'', ''modothers'', ''modself'', ''modtraffic'', ''modwiki'', ''mysubreddits'',
     ''privatemessages'', ''read'', ''report'', ''save'', ''submit'', ''subscribe'', ''vote'', ''wikiedit'', ''wikiread'']"

definition FULL_ACCESS :: string where
  "FULL_ACCESS = ''*''"

subsection \<open>Reading and printing\<close>

definition rpartition :: "char \<Rightarrow> string \<Rightarrow> string \<times> bool \<times> string" where
  "rpartition c s = (let parts = split_on c s in
     if length parts = 1 then ([], False, s) else (join_with [c] (butlast parts), True, last parts))"

definition parse_scope_str :: "string \<Rightarrow> oauth_scope" where
  "parse_scope_str scope_str =
     (case rpartition CHR '':'' scope_str of (srs, sep, scopes) \<Rightarrow>
        \<lparr>sc_subreddit_only = sep, sc_subreddits = (if sep then set (split_on CHR ''+'' srs) else {}),
         sc_scopes = set (split_on CHR '' '' (map (\<lambda>c. if c = CHR '','' then CHR '' '' else c) scopes))\<rparr>)"

text \<open>\<open>OAuth2Scope(scope_str)\<close>.\<close>

definition oauth_scope_of :: "string \<Rightarrow> oauth_scope" where
  "oauth_scope_of scope_str =
     (if scope_str = [] then \<lparr>sc_subreddit_only = False, sc_subreddits = {}, sc_scopes = {}\<rparr> else parse_scope_str scope_str)"

definition scope_str :: "oauth_scope \<Rightarrow> string" where
  "scope_str s =
     (if sc_subreddit_only s then join_with ''+'' (sorted_list_of_set (sc_subreddits s)) @ '':'' else []) @
     join_with '' '' (sorted_list_of_set (sc_scopes s))"

subsection \<open>Access\<close>

definition has_access :: "oauth_scope \<Rightarrow> string \<Rightarrow> string set \<Rightarrow> bool" where
  "has_access s subreddit required_scopes =
     (if FULL_ACCESS \<in> sc_scopes s then True
      else if sc_subreddit_only s \<and> subreddit \<notin> sc_subreddits s then False
      else required_scopes \<subseteq> sc_scopes s)"

definition has_any_scope :: "oauth_scope \<Rightarrow> string set \<Rightarrow> bool" where
  "has_any_scope s required_scopes = (if FULL_ACCESS \<in> sc_scopes s then True else sc_scopes s \<inter> required_scopes \<noteq> {})"

definition scope_is_valid :: "oauth_scope \<Rightarrow> bool" where
  "scope_is_valid s \<longleftrightarrow> (\<forall>scope \<in> sc_scopes s. scope \<in> set scope_info)"

text \<open>The names that \<open>details\<close> lists; \<open>None\<close> is the key of the entry for any scope. An unknown scope raises.\<close>

definition scope_details :: "oauth_scope \<Rightarrow> string option list result" where
  "scope_details s =
     (if FULL_ACCESS \<in> sc_scopes s then Inr (None # map Some scope_info)
      else let scopes = sorted_list_of_set (sc_scopes s) in
        case find (\<lambda>x. x \<notin> set scope_info) scopes of Some x \<Rightarrow> Inl (KeyError x) | None \<Rightarrow> Inr (map Some scopes))"

text \<open>\<open>extra_oauth2_scope\<close> around a function, for the scope of the request, if it is one with a token.\<close>

definition extra_oauth2_scope :: "string list \<Rightarrow> oauth_scope option \<Rightarrow> string \<Rightarrow> 'a result \<Rightarrow> 'a result" where
  "extra_oauth2_scope scopes oauth site fn =
     (case oauth of
        None \<Rightarrow> fn
      | Some s \<Rightarrow> if has_access s site (set scopes) then fn else Inl (PyException ''InsufficientScopeError''))"

subsection \<open>Merging\<close>

text \<open>
  \<open>new_scope.scopes = scope.scopes\<close> makes two objects share one set, which \<open>update\<close> then changes in place. The sets of the
  scopes that are merged are at the places \<open>0, 1, \<dots>\<close> of the store; the result maps subreddits to places.
\<close>

type_synonym scope_store = "string set list"
type_synonym merged_scopes = "(string option, nat) dict"

definition scope_srs :: "oauth_scope \<Rightarrow> string option list" where
  "scope_srs s = (if sc_subreddit_only s then map Some (sorted_list_of_set (sc_subreddits s)) else [None])"

definition merge_one :: "nat \<Rightarrow> string option \<Rightarrow> scope_store \<times> merged_scopes \<Rightarrow> scope_store \<times> merged_scopes" where
  "merge_one i sr = (\<lambda>(store, merged).
     case map_of merged sr of
       Some j \<Rightarrow> (store[j := store ! j \<union> store ! i], merged)
     | None \<Rightarrow> (store, AList.update sr i merged))"

definition merge_scopes :: "oauth_scope list \<Rightarrow> scope_store \<times> merged_scopes" where
  "merge_scopes scopes =
     fold (\<lambda>(i, s). fold (merge_one i) (scope_srs s)) (enumerate 0 scopes) (map sc_scopes scopes, [])"

definition merged_for :: "oauth_scope list \<Rightarrow> string option \<Rightarrow> string set option" where
  "merged_for scopes sr = (case merge_scopes scopes of (store, merged) \<Rightarrow> map_option (\<lambda>i. store ! i) (map_of merged sr))"

subsection \<open>What is granted is what is stored\<close>

lemma rpartition_no_sep: "c \<notin> set s \<Longrightarrow> rpartition c s = ([], False, s)"
  by (simp add: rpartition_def split_on_no_sep)

lemma split_on_snoc: "c \<notin> set t \<Longrightarrow> split_on c (s @ c # t) = split_on c s @ [t]"
proof (induction s)
  case (Cons x s)
  obtain y ys where "split_on c s = y # ys" by (cases "split_on c s") auto
  then show ?case using Cons by simp
qed (simp add: split_on_no_sep)

lemma rpartition_snoc: "c \<notin> set t \<Longrightarrow> rpartition c (s @ c # t) = (s, True, t)"
  by (simp add: rpartition_def split_on_snoc join_split)

text \<open>A name that survives printing and reading.\<close>

definition plain_scope :: "string \<Rightarrow> bool" where
  "plain_scope s \<longleftrightarrow> s \<noteq> [] \<and> CHR '':'' \<notin> set s \<and> CHR '','' \<notin> set s \<and> CHR '' '' \<notin> set s"

lemma plain_scope_info: "s \<in> set scope_info \<Longrightarrow> plain_scope s"
  by (simp add: scope_info_def) (elim disjE; simp add: plain_scope_def)

lemma set_join_with: "set (join_with sep xs) \<subseteq> set sep \<union> (\<Union>x \<in> set xs. set x)"
  by (induction sep xs rule: join_with.induct) auto

lemma parse_scope_names:
  assumes "\<forall>x \<in> set xs. plain_scope x" "xs \<noteq> []"
  shows "set (split_on CHR '' '' (map (\<lambda>c. if c = CHR '','' then CHR '' '' else c) (join_with '' '' xs))) = set xs"
proof -
  have "CHR '','' \<notin> set (join_with '' '' xs)"
    using set_join_with [of "'' ''" xs] assms(1) by (auto simp: plain_scope_def)
  then have "map (\<lambda>c. if c = CHR '','' then CHR '' '' else c) (join_with '' '' xs) = join_with '' '' xs"
    by (intro map_idI) auto
  then show ?thesis using split_join [OF assms(2), of "CHR '' ''"] assms(1) by (simp add: plain_scope_def)
qed

lemma finite_parsed [simp]: "finite (sc_subreddits (parse_scope_str s))" "finite (sc_scopes (parse_scope_str s))"
  by (auto simp: parse_scope_str_def split: prod.splits)

lemma parse_scope_str_nonempty: "sc_scopes (parse_scope_str s) \<noteq> {}"
  by (auto simp: parse_scope_str_def split: prod.splits)

lemma parsed_subreddits:
  "sc_subreddit_only (parse_scope_str s) \<Longrightarrow> sc_subreddits (parse_scope_str s) \<noteq> {}"
  "\<not> sc_subreddit_only (parse_scope_str s) \<Longrightarrow> sc_subreddits (parse_scope_str s) = {}"
  "x \<in> sc_subreddits (parse_scope_str s) \<Longrightarrow> CHR ''+'' \<notin> set x"
  by (auto simp: parse_scope_str_def split_on_parts split: prod.splits if_splits)

lemma scope_str_parses:
  assumes "s = parse_scope_str t" "\<forall>x \<in> sc_scopes s. plain_scope x"
  shows "parse_scope_str (scope_str s) = s"
proof -
  define names where "names = join_with '' '' (sorted_list_of_set (sc_scopes s))"
  have fin: "finite (sc_scopes s)" "finite (sc_subreddits s)" using assms(1) by simp_all
  have ne: "sorted_list_of_set (sc_scopes s) \<noteq> []" using fin parse_scope_str_nonempty [of t] assms(1) by simp
  have plain: "\<forall>x \<in> set (sorted_list_of_set (sc_scopes s)). plain_scope x" using assms(2) fin by simp
  have colon: "CHR '':'' \<notin> set names"
    using set_join_with [of "'' ''" "sorted_list_of_set (sc_scopes s)"] plain by (auto simp: names_def plain_scope_def)
  have read: "set (split_on CHR '' '' (map (\<lambda>c. if c = CHR '','' then CHR '' '' else c) names)) = sc_scopes s"
    unfolding names_def using parse_scope_names [OF plain ne] fin by simp
  show ?thesis
  proof (cases "sc_subreddit_only s")
    case True
    define srs where "srs = join_with ''+'' (sorted_list_of_set (sc_subreddits s))"
    have "scope_str s = srs @ CHR '':'' # names" using True by (simp add: scope_str_def srs_def names_def)
    then have "rpartition CHR '':'' (scope_str s) = (srs, True, names)" using rpartition_snoc [OF colon] by simp
    moreover have "set (split_on CHR ''+'' srs) = sc_subreddits s"
    proof -
      have "sc_subreddits s \<noteq> {}" using parsed_subreddits(1) [of t] True assms(1) by simp
      moreover have "CHR ''+'' \<notin> set x" if "x \<in> sc_subreddits s" for x using parsed_subreddits(3) that assms(1) by blast
      ultimately show ?thesis
        unfolding srs_def using split_join [of "sorted_list_of_set (sc_subreddits s)" "CHR ''+''"] fin(2) by simp
    qed
    ultimately show ?thesis using read True by (simp add: parse_scope_str_def)
  next
    case False
    then have "scope_str s = names" "sc_subreddits s = {}" using parsed_subreddits(2) [of t] assms(1) by (simp_all add: scope_str_def names_def)
    then show ?thesis using read False rpartition_no_sep [OF colon] by (simp add: parse_scope_str_def)
  qed
qed

lemma scope_str_not_Nil:
  assumes "s = parse_scope_str t" "\<forall>x \<in> sc_scopes s. plain_scope x"
  shows "scope_str s \<noteq> []"
proof
  assume nil: "scope_str s = []"
  have "parse_scope_str [] = s" using scope_str_parses [OF assms] nil by simp
  then have "[] \<in> sc_scopes s" by (auto simp: parse_scope_str_def rpartition_def)
  then show False using assms(2) by (auto simp: plain_scope_def)
qed

text \<open>The text that is stored with a token reads as the scope that was approved.\<close>

lemma scope_roundtrip:
  assumes "t \<noteq> []" "scope_is_valid (oauth_scope_of t)"
  shows "oauth_scope_of (scope_str (oauth_scope_of t)) = oauth_scope_of t"
proof -
  have t: "oauth_scope_of t = parse_scope_str t" using assms(1) by (simp add: oauth_scope_of_def)
  have plain: "\<forall>x \<in> sc_scopes (oauth_scope_of t). plain_scope x" using assms(2) plain_scope_info by (auto simp: scope_is_valid_def)
  show ?thesis using scope_str_parses [OF t plain] scope_str_not_Nil [OF t plain] t by (simp add: oauth_scope_of_def)
qed

text \<open>A scope that a user can be asked for never is the full one.\<close>

lemma full_access_not_valid: "scope_is_valid s \<Longrightarrow> FULL_ACCESS \<notin> sc_scopes s"
proof -
  have "FULL_ACCESS \<notin> set scope_info" by (simp add: scope_info_def FULL_ACCESS_def)
  then show "scope_is_valid s \<Longrightarrow> FULL_ACCESS \<notin> sc_scopes s" by (auto simp: scope_is_valid_def)
qed

text \<open>
  The summary for one subreddit can show scopes that were never granted for it: the app with this access may read in
  \<open>a\<close> and \<open>b\<close> and submit in \<open>a\<close>, but is shown to submit in \<open>b\<close>, because both entries share one set.
\<close>

lemma merged_scopes_leak:
  "merged_for [parse_scope_str ''a+b:read'', parse_scope_str ''a:submit''] (Some ''b'') = Some {''read'', ''submit''}"
proof -
  have parsed: "parse_scope_str ''a+b:read'' = \<lparr>sc_subreddit_only = True, sc_subreddits = set [''a'', ''b''], sc_scopes = {''read''}\<rparr>"
    "parse_scope_str ''a:submit'' = \<lparr>sc_subreddit_only = True, sc_subreddits = set [''a''], sc_scopes = {''submit''}\<rparr>"
    by (simp_all add: parse_scope_str_def rpartition_def)
  have "sorted_list_of_set (set [''a'', ''b'']) = [''a'', ''b'']" "sorted_list_of_set (set [''a'']) = [''a'']"
    by (rule sorted_list_of_set.idem_if_sorted_distinct; simp add: less_eq_char_def)+
  then show ?thesis
    by (simp add: merged_for_def merge_scopes_def merge_one_def scope_srs_def parsed insert_commute del: set_simps)
qed

end
