(* ===== verification/OAuth.thy ===== *)
theory OAuth
  imports OAuthScope Base36 Signing
begin

section \<open>OAuth 2: clients, codes and tokens\<close>

text \<open>
  Models the tokens of \<open>r2/models/token.py\<close>, the endpoints of \<open>r2/controllers/oauth2.py\<close>, the authentication of a
  request with a token (\<open>r2/controllers/reddit_base.py\<close>), the validators they use and the requests of
  \<open>r2/controllers/api.py\<close> that manage apps. Times are seconds. Cassandra lets every column expire on its own: the columns
  of a token that are written when it is created expire together, and the column that is written when it is consumed or
  revoked expires later. Random tokens, the decoder of base 64 and the outcome of checking a password are
  arguments. Gifts of gold on the first login, plugin hooks and rate limits are left out. An operation
  that raises returns \<open>Inl\<close>.
\<close>

subsection \<open>Rows\<close>

record oauth_client =
  cl_secret :: string
  cl_redirect_uri :: string
  cl_app_type :: string
  cl_deleted :: bool
  cl_name :: string
  cl_description :: string
  cl_about_url :: string
  cl_developers :: "string list"

record auth_code =
  co_client :: string
  co_redirect_uri :: string
  co_user :: string
  co_scope :: string
  co_refreshable :: bool
  co_expires :: int
  co_used :: "int option"

record oauth_token =
  tk_client :: string
  tk_user :: string
  tk_scope :: string
  tk_refresh :: string
  tk_device :: string
  tk_expires :: "int option"
  tk_revoked :: "int option option"

text \<open>\<open>OAuth2AccessToken\<close> and \<open>OAuth2RefreshToken\<close>.\<close>

datatype token_kind = Access | Refresh

record oauth_account =
  oa_id :: int
  oa_deleted :: bool

record oauth_state =
  os_clients :: "string \<Rightarrow> oauth_client option"
  os_by_developer :: "string \<Rightarrow> string list"
  os_codes :: "string \<Rightarrow> auth_code option"
  os_tokens :: "token_kind \<Rightarrow> string \<Rightarrow> oauth_token option"
  os_view :: "token_kind \<Rightarrow> string \<Rightarrow> (string, int option) dict"
  os_accounts :: "string \<Rightarrow> oauth_account option"

record oauth_env =
  oe_b64decode :: "string \<Rightarrow> string option"
  oe_system_user :: string

definition code_ttl :: int where
  "code_ttl = 10 * 60"

definition token_ttl :: "token_kind \<Rightarrow> int option" where
  "token_ttl k = (case k of Access \<Rightarrow> Some (60 * 60) | Refresh \<Rightarrow> None)"

definition expiry :: "int \<Rightarrow> int option \<Rightarrow> int option" where
  "expiry now ttl = map_option (\<lambda>d. now + d) ttl"

definition live :: "int \<Rightarrow> int option \<Rightarrow> bool" where
  "live now e = (case e of None \<Rightarrow> True | Some t \<Rightarrow> now < t)"

text \<open>\<open>unicode(None)\<close> is what is stored for a value that is missing.\<close>

definition stored_str :: "string option \<Rightarrow> string" where
  "stored_str v = (case v of None \<Rightarrow> ''None'' | Some s \<Rightarrow> s)"

subsection \<open>\<open>Token\<close> and \<open>ConsumableToken\<close>\<close>

fun unique_token :: "(string \<Rightarrow> bool) \<Rightarrow> string list \<Rightarrow> string result" where
  "unique_token exists [] = Inl (ValueError [])"
| "unique_token exists (token # rnd) = (if exists token then unique_token exists rnd else Inr token)"

definition code_found :: "int \<Rightarrow> string \<Rightarrow> oauth_state \<Rightarrow> auth_code option" where
  "code_found now i st = (case os_codes st i of None \<Rightarrow> None
     | Some co \<Rightarrow> if now < co_expires co \<or> (case co_used co of None \<Rightarrow> False | Some t \<Rightarrow> now < t) then Some co else None)"

definition code_used :: "int \<Rightarrow> auth_code \<Rightarrow> bool" where
  "code_used now co = (case co_used co of None \<Rightarrow> False | Some t \<Rightarrow> now < t)"

definition revoked :: "int \<Rightarrow> oauth_token \<Rightarrow> bool" where
  "revoked now tk = (case tk_revoked tk of None \<Rightarrow> False | Some e \<Rightarrow> live now e)"

definition token_found :: "token_kind \<Rightarrow> int \<Rightarrow> string \<Rightarrow> oauth_state \<Rightarrow> oauth_token option" where
  "token_found k now i st = (case os_tokens st k i of None \<Rightarrow> None
     | Some tk \<Rightarrow> if live now (tk_expires tk) \<or> revoked now tk then Some tk else None)"

text \<open>Attributes of a row of which only the column \<open>revoked\<close> is left: some have defaults.\<close>

definition token_client :: "int \<Rightarrow> oauth_token \<Rightarrow> string result" where
  "token_client now tk = (if live now (tk_expires tk) then Inr (tk_client tk) else Inl (AttributeError ''client_id''))"

definition token_user :: "int \<Rightarrow> oauth_token \<Rightarrow> string" where
  "token_user now tk = (if live now (tk_expires tk) then tk_user tk else [])"

definition get_code :: "int \<Rightarrow> string option \<Rightarrow> oauth_state \<Rightarrow> auth_code option" where
  "get_code now i st = (case i of None \<Rightarrow> None | Some i \<Rightarrow>
     (case code_found now i st of None \<Rightarrow> None | Some co \<Rightarrow> if code_used now co then None else Some co))"

subsection \<open>Clients\<close>

definition PUBLIC_APP_TYPES :: "string list" where
  "PUBLIC_APP_TYPES = [''installed'']"

definition max_developers :: nat where
  "max_developers = 20"

definition has_developer :: "oauth_state \<Rightarrow> oauth_client \<Rightarrow> string \<Rightarrow> bool" where
  "has_developer st cl id36 = (case os_accounts st id36 of None \<Rightarrow> False
     | Some a \<Rightarrow> \<not> oa_deleted a \<and> id36 \<in> set (cl_developers cl))"

definition is_confidential :: "oauth_client \<Rightarrow> bool" where
  "is_confidential cl \<longleftrightarrow> cl_app_type cl \<notin> set PUBLIC_APP_TYPES"

definition is_first_party :: "oauth_env \<Rightarrow> oauth_state \<Rightarrow> oauth_client \<Rightarrow> bool" where
  "is_first_party e st cl = has_developer st cl (oe_system_user e)"

definition developer_ids :: "oauth_client \<Rightarrow> int list" where
  "developer_ids cl = concat (map (\<lambda>d. case from36 d of Inl _ \<Rightarrow> [] | Inr n \<Rightarrow> [n]) (cl_developers cl))"

definition set_client :: "string \<Rightarrow> oauth_client \<Rightarrow> oauth_state \<Rightarrow> oauth_state" where
  "set_client i cl st = st\<lparr>os_clients := (os_clients st)(i \<mapsto> cl)\<rparr>"

definition add_developer :: "string \<Rightarrow> oauth_client \<Rightarrow> string \<Rightarrow> oauth_account \<Rightarrow> bool \<Rightarrow> oauth_state \<Rightarrow> oauth_state result" where
  "add_developer i cl id36 a force st =
     (let index = (\<lambda>s. s\<lparr>os_by_developer := (os_by_developer s)(id36 := List.insert i (os_by_developer s id36))\<rparr>) in
      if oa_id a \<in> set (developer_ids cl) then Inr (index st)
      else if \<not> force \<and> card (set (developer_ids cl)) \<ge> max_developers then Inl (PyException ''OverflowError'')
      else Inr (index (set_client i (cl\<lparr>cl_developers := cl_developers cl @ [id36]\<rparr>) st)))"

definition live_developers :: "oauth_state \<Rightarrow> oauth_client \<Rightarrow> oauth_account list result" where
  "live_developers st cl =
     bindr (mapr (\<lambda>d. case os_accounts st d of None \<Rightarrow> Inl NotFound | Some a \<Rightarrow> Inr a) (cl_developers cl))
       (\<lambda>devs. Inr (filter (\<lambda>a. \<not> oa_deleted a) devs))"

definition remove_developer :: "string \<Rightarrow> oauth_client \<Rightarrow> string \<Rightarrow> oauth_state \<Rightarrow> oauth_state result" where
  "remove_developer i cl id36 st =
     bindr (if id36 \<in> set (cl_developers cl)
            then let cl' = cl\<lparr>cl_developers := filter (\<lambda>d. d \<noteq> id36) (cl_developers cl)\<rparr> in
              bindr (live_developers st cl') (\<lambda>devs. Inr (set_client i (if devs = [] then cl'\<lparr>cl_deleted := True\<rparr> else cl') st))
            else Inr st)
       (\<lambda>st'. Inr (st'\<lparr>os_by_developer := (os_by_developer st')(id36 := filter (\<lambda>j. j \<noteq> i) (os_by_developer st' id36))\<rparr>))"

definition by_developer :: "string \<Rightarrow> oauth_state \<Rightarrow> string list" where
  "by_developer id36 st =
     (case os_accounts st id36 of None \<Rightarrow> [] | Some a \<Rightarrow>
        if oa_deleted a then []
        else filter (\<lambda>i. case os_clients st i of None \<Rightarrow> False | Some cl \<Rightarrow> \<not> cl_deleted cl \<and> has_developer st cl id36)
          (os_by_developer st id36))"

subsection \<open>Validity and revocation\<close>

definition check_valid :: "int \<Rightarrow> oauth_state \<Rightarrow> oauth_token \<Rightarrow> bool result" where
  "check_valid now st tk =
     (if revoked now tk then Inr False
      else bindr (token_client now tk) (\<lambda>c.
        case os_clients st c of None \<Rightarrow> Inr False | Some cl \<Rightarrow>
        if cl_deleted cl then Inr False
        else if token_user now tk \<noteq> []
        then (case os_accounts st (token_user now tk) of None \<Rightarrow> Inr False | Some a \<Rightarrow> Inr (\<not> oa_deleted a))
        else Inr True))"

text \<open>The valid tokens among those that the view of an account lists.\<close>

definition tokens_listed :: "token_kind \<Rightarrow> int \<Rightarrow> string \<Rightarrow> oauth_state \<Rightarrow> (string \<times> oauth_token) list" where
  "tokens_listed k now id36 st =
     concat (map (\<lambda>(i, e). if live now e then (case token_found k now i st of None \<Rightarrow> [] | Some tk \<Rightarrow> [(i, tk)]) else [])
       (os_view st k id36))"

fun filter_valid :: "int \<Rightarrow> oauth_state \<Rightarrow> (string \<times> oauth_token) list \<Rightarrow> (string \<times> oauth_token) list result" where
  "filter_valid now st [] = Inr []"
| "filter_valid now st ((i, tk) # ts) =
     bindr (check_valid now st tk) (\<lambda>ok. bindr (filter_valid now st ts) (\<lambda>rest. Inr (if ok then (i, tk) # rest else rest)))"

definition tokens_by_user :: "token_kind \<Rightarrow> int \<Rightarrow> string \<Rightarrow> oauth_state \<Rightarrow> (string \<times> oauth_token) list result" where
  "tokens_by_user k now id36 st = filter_valid now st (tokens_listed k now id36 st)"

text \<open>\<open>OAuth2AccessToken.revoke\<close> for a token that was looked up before.\<close>

definition mark_revoked :: "token_kind \<Rightarrow> int \<Rightarrow> string \<Rightarrow> oauth_token \<Rightarrow> oauth_state \<Rightarrow> oauth_state" where
  "mark_revoked k now i tk st =
     (let tk' = tk\<lparr>tk_revoked := Some (expiry now (token_ttl k))\<rparr>;
          st1 = st\<lparr>os_tokens := (os_tokens st)(k := (os_tokens st k)(i \<mapsto> tk'))\<rparr>;
          u = token_user now tk
      in if u \<noteq> [] then st1\<lparr>os_view := (os_view st1)(k := (os_view st1 k)(u := AList.delete i (os_view st1 k u)))\<rparr> else st1)"

definition revoke_token :: "token_kind \<Rightarrow> int \<Rightarrow> string \<Rightarrow> oauth_token \<Rightarrow> oauth_state \<Rightarrow> oauth_state result" where
  "revoke_token k now i tk st =
     (let st1 = mark_revoked k now i tk st in
      case k of
        Access \<Rightarrow> Inr st1
      | Refresh \<Rightarrow>
          if token_user now tk = [] then Inl (ValueError [])
          else if os_accounts st1 (token_user now tk) = None then Inl NotFound
          else bindr (tokens_by_user Access now (token_user now tk) st1) (\<lambda>ts.
            Inr (fold (\<lambda>(j, t) s. mark_revoked Access now j t s) (filter (\<lambda>(j, t). tk_refresh t = i) ts) st1)))"

text \<open>\<open>revoke_all_by_user\<close> and \<open>OAuth2Client.revoke\<close>.\<close>

definition revoke_if :: "(oauth_token \<Rightarrow> bool result) \<Rightarrow> token_kind \<Rightarrow> int \<Rightarrow> string \<times> oauth_token \<Rightarrow> oauth_state \<Rightarrow> oauth_state result" where
  "revoke_if P k now = (\<lambda>(i, tk) st. bindr (P tk) (\<lambda>b. if b then revoke_token k now i tk st else Inr st))"

definition revoke_all_by_user :: "token_kind \<Rightarrow> int \<Rightarrow> string \<Rightarrow> oauth_state \<Rightarrow> oauth_state result" where
  "revoke_all_by_user k now id36 st =
     bindr (tokens_by_user k now id36 st) (\<lambda>ts. foldm (revoke_if (\<lambda>_. Inr True) k now) ts st)"

definition revoke_client_of :: "token_kind \<Rightarrow> string \<Rightarrow> int \<Rightarrow> string \<Rightarrow> oauth_state \<Rightarrow> oauth_state result" where
  "revoke_client_of k client now id36 st =
     bindr (tokens_by_user k now id36 st) (\<lambda>ts.
       foldm (revoke_if (\<lambda>tk. bindr (token_client now tk) (\<lambda>c. Inr (c = client))) k now) ts st)"

definition client_revoke :: "string \<Rightarrow> int \<Rightarrow> string \<Rightarrow> oauth_state \<Rightarrow> oauth_state result" where
  "client_revoke client now id36 st =
     bindr (revoke_client_of Refresh client now id36 st) (revoke_client_of Access client now id36)"

subsection \<open>New codes and tokens\<close>

definition new_code ::
    "string \<Rightarrow> string \<Rightarrow> string \<Rightarrow> string \<Rightarrow> bool \<Rightarrow> string list \<Rightarrow> int \<Rightarrow> oauth_state \<Rightarrow> (string \<times> oauth_state) result" where
  "new_code client redirect_uri user scope refreshable rnd now st =
     bindr (unique_token (\<lambda>i. code_found now i st \<noteq> None) rnd) (\<lambda>i.
     Inr (i, st\<lparr>os_codes := (os_codes st)(i \<mapsto> \<lparr>co_client = client, co_redirect_uri = redirect_uri, co_user = user,
       co_scope = scope, co_refreshable = refreshable, co_expires = now + code_ttl, co_used = None\<rparr>)\<rparr>))"

definition use_code :: "int \<Rightarrow> string \<Rightarrow> string \<Rightarrow> string \<Rightarrow> oauth_state \<Rightarrow> auth_code option \<times> oauth_state" where
  "use_code now i client redirect_uri st =
     (case get_code now (Some i) st of
        None \<Rightarrow> (None, st)
      | Some co \<Rightarrow>
          if co_client co = client \<and> co_redirect_uri co = redirect_uri
          then (Some co, st\<lparr>os_codes := (os_codes st)(i \<mapsto> co\<lparr>co_used := Some (now + code_ttl)\<rparr>)\<rparr>)
          else (None, st))"

definition user_id_prefix :: "string \<Rightarrow> string" where
  "user_id_prefix user = (case from36 user of Inl _ \<Rightarrow> [] | Inr n \<Rightarrow> py_str_int n)"

definition new_token ::
    "token_kind \<Rightarrow> string \<Rightarrow> string \<Rightarrow> string \<Rightarrow> string option \<Rightarrow> string option \<Rightarrow> string list \<Rightarrow> int \<Rightarrow> oauth_state
     \<Rightarrow> (string \<times> oauth_state) result" where
  "new_token k client user scope refresh device rnd now st =
     bindr (unique_token (\<lambda>i. token_found k now i st \<noteq> None) rnd) (\<lambda>t.
     let i = user_id_prefix user @ ''-'' @ t;
         tk = \<lparr>tk_client = client, tk_user = user, tk_scope = scope, tk_refresh = stored_str refresh,
           tk_device = stored_str device, tk_expires = expiry now (token_ttl k), tk_revoked = None\<rparr>;
         st1 = st\<lparr>os_tokens := (os_tokens st)(k := (os_tokens st k)(i \<mapsto> tk))\<rparr>
     in Inr (i, if user \<noteq> []
       then st1\<lparr>os_view := (os_view st1)(k := (os_view st1 k)(user := AList.update i (tk_expires tk) (os_view st1 k user)))\<rparr>
       else st1))"

subsection \<open>\<open>/api/v1/authorize\<close>\<close>

text \<open>The parameters as they are sent; the user is logged in, and \<open>az_modhash\<close> says whether the modhash is right.\<close>

record authorize_form =
  az_user :: string
  az_modhash :: bool
  az_client_id :: "string option"
  az_redirect_uri :: "string option"
  az_scope :: "string option"
  az_state :: "string option"
  az_duration :: "string option"
  az_authorize :: "string option"
  az_response_type :: "string option"
  az_device :: "string option"
  az_random :: "string list"

type_synonym form_errors = "(string \<times> string option) list"

definition given :: "string option \<Rightarrow> string option" where
  "given v = (case v of None \<Rightarrow> None | Some s \<Rightarrow> if s = [] then None else Some s)"

text \<open>\<open>VOneOf\<close> with a default: the value, and an error when it is not one of the options.\<close>

definition one_of :: "string list \<Rightarrow> string \<Rightarrow> string option \<Rightarrow> string \<times> bool" where
  "one_of options dflt v = (case v of None \<Rightarrow> (dflt, False)
     | Some s \<Rightarrow> if s \<in> set options then (s, False) else (dflt, True))"

definition VOAuth2ClientID :: "oauth_state \<Rightarrow> string option \<Rightarrow> (string \<times> oauth_client) option" where
  "VOAuth2ClientID st client_id = (case given client_id of None \<Rightarrow> None | Some i \<Rightarrow>
     (case os_clients st i of None \<Rightarrow> None | Some cl \<Rightarrow> if cl_deleted cl then None else Some (i, cl)))"

definition VOAuth2Scope :: "string option \<Rightarrow> oauth_scope option" where
  "VOAuth2Scope scope = (case given scope of None \<Rightarrow> None | Some s \<Rightarrow>
     if scope_is_valid (oauth_scope_of s) then Some (oauth_scope_of s) else None)"

datatype authorize_answer =
    AuthAborted string
  | AuthErrorRedirect string bool
  | AuthCode string
  | AuthToken string

definition authorize_errors :: "oauth_state \<Rightarrow> authorize_form \<Rightarrow> form_errors" where
  "authorize_errors st f =
     (if az_modhash f then [] else [(''INVALID_MODHASH'', None)]) @
     (if VOAuth2ClientID st (az_client_id f) = None then [(''OAUTH2_INVALID_CLIENT'', Some ''client_id'')] else []) @
     (if given (az_redirect_uri f) = None then [(''OAUTH2_INVALID_REDIRECT_URI'', Some ''redirect_uri'')] else []) @
     (if VOAuth2Scope (az_scope f) = None then [(''OAUTH2_INVALID_SCOPE'', Some ''scope'')] else []) @
     (if given (az_state f) = None then [(''NO_TEXT'', Some ''state'')] else []) @
     (if snd (one_of [''temporary'', ''permanent''] ''temporary'' (az_duration f)) then [(''INVALID_OPTION'', Some ''duration'')] else []) @
     (if given (az_authorize f) = None then [(''OAUTH2_ACCESS_DENIED'', Some ''authorize'')] else []) @
     (if snd (one_of [''code'', ''token''] ''code'' (az_response_type f)) then [(''INVALID_OPTION'', Some ''response_type'')] else [])"

definition check_redirect_uri :: "form_errors \<Rightarrow> (string \<times> oauth_client) option \<Rightarrow> string option \<Rightarrow> string option" where
  "check_redirect_uri errs client redirect_uri =
     (if (''OAUTH2_INVALID_CLIENT'', Some ''client_id'') \<in> set errs then Some ''OAUTH2_INVALID_CLIENT''
      else case (client, given redirect_uri) of
          (Some (i, cl), Some uri) \<Rightarrow> if uri \<noteq> cl_redirect_uri cl then Some ''OAUTH2_INVALID_REDIRECT_URI'' else None
        | _ \<Rightarrow> Some ''OAUTH2_INVALID_REDIRECT_URI'')"

definition check_response_type_and_scope :: "form_errors \<Rightarrow> string option" where
  "check_response_type_and_scope errs =
     (if (''INVALID_OPTION'', Some ''response_type'') \<in> set errs then Some ''OAUTH2_INVALID_RESPONSE_TYPE''
      else if (''OAUTH2_INVALID_SCOPE'', Some ''scope'') \<in> set errs then Some ''OAUTH2_INVALID_SCOPE'' else None)"

definition check_client_type_and_duration :: "string \<Rightarrow> oauth_client \<Rightarrow> string \<Rightarrow> string option" where
  "check_client_type_and_duration response_type cl duration =
     (if response_type = ''token'' \<and> is_confidential cl then Some ''OAUTH2_CONFIDENTIAL_TOKEN''
      else if response_type = ''token'' \<and> duration \<noteq> ''temporary'' then Some ''OAUTH2_NO_REFRESH_TOKENS_ALLOWED'' else None)"

definition error_response :: "form_errors \<Rightarrow> string" where
  "error_response errs =
     (if (''OAUTH2_ACCESS_DENIED'', Some ''authorize'') \<in> set errs then ''access_denied''
      else if (''INVALID_MODHASH'', None) \<in> set errs then ''access_denied'' else ''invalid_request'')"

definition get_device_id :: "oauth_env \<Rightarrow> oauth_state \<Rightarrow> oauth_client \<Rightarrow> string option \<Rightarrow> string option" where
  "get_device_id e st cl device = (if is_first_party e st cl then device else None)"

definition POST_authorize :: "oauth_env \<Rightarrow> int \<Rightarrow> authorize_form \<Rightarrow> oauth_state \<Rightarrow> (authorize_answer \<times> oauth_state) result" where
  "POST_authorize e now f st =
     (let errs = authorize_errors st f;
          client = VOAuth2ClientID st (az_client_id f);
          duration = fst (one_of [''temporary'', ''permanent''] ''temporary'' (az_duration f));
          response_type = fst (one_of [''code'', ''token''] ''code'' (az_response_type f))
      in case check_redirect_uri errs client (az_redirect_uri f) of Some err \<Rightarrow> Inr (AuthAborted err, st) | None \<Rightarrow>
         case check_response_type_and_scope errs of Some err \<Rightarrow> Inr (AuthAborted err, st) | None \<Rightarrow>
         case (client, VOAuth2Scope (az_scope f), given (az_redirect_uri f)) of
           (Some (i, cl), Some scope, Some redirect_uri) \<Rightarrow>
             (case check_client_type_and_duration response_type cl duration of Some err \<Rightarrow> Inr (AuthAborted err, st) | None \<Rightarrow>
              if errs \<noteq> [] then Inr (AuthErrorRedirect (error_response errs) (response_type = ''token''), st)
              else if response_type = ''code''
              then bindr (new_code i redirect_uri (az_user f) (scope_str scope) (duration = ''permanent'') (az_random f) now st)
                (\<lambda>(c, st'). Inr (AuthCode c, st'))
              else bindr (new_token Access i (az_user f) (scope_str scope) None (get_device_id e st cl (az_device f)) (az_random f) now st)
                (\<lambda>(t, st'). Inr (AuthToken t, st')))
         | _ \<Rightarrow> Inl (AttributeError ''redirect_uri''))"

subsection \<open>\<open>/api/v1/access_token\<close>\<close>

definition requirement :: py_error where
  "requirement = PyException ''RequirementException''"

definition split_white :: "string \<Rightarrow> string list" where
  "split_white s = filter (\<lambda>w. w \<noteq> []) (split_on CHR '' '' (map (\<lambda>c. if space_char c then CHR '' '' else c) s))"

definition require_split :: "string option \<Rightarrow> nat \<Rightarrow> char option \<Rightarrow> string list result" where
  "require_split s n sep =
     (case given s of None \<Rightarrow> Inl requirement
      | Some s \<Rightarrow> let res = (case sep of None \<Rightarrow> split_white s | Some c \<Rightarrow> split_on c s) in
          if length res = n then Inr res else Inl requirement)"

definition parse_http_basic :: "(string \<Rightarrow> string option) \<Rightarrow> string option \<Rightarrow> (string \<times> string) result" where
  "parse_http_basic b64decode header =
     bindr (require_split header 2 None) (\<lambda>w.
     if py_lower (w ! 0) \<noteq> ''basic'' then Inl requirement
     else case b64decode (w ! 1) of None \<Rightarrow> Inl requirement
     | Some auth_data \<Rightarrow> bindr (require_split (Some auth_data) 2 (Some CHR '':'')) (\<lambda>p. Inr (p ! 0, p ! 1)))"

text \<open>The client that a request proves to be; \<open>None\<close> stands for the status 401.\<close>

definition get_client_auth :: "oauth_env \<Rightarrow> string option \<Rightarrow> oauth_state \<Rightarrow> (string \<times> oauth_client) option" where
  "get_client_auth e header st =
     (case parse_http_basic (oe_b64decode e) header of Inl _ \<Rightarrow> None
      | Inr (client_id, client_secret) \<Rightarrow>
          if client_id = [] then None
          else case os_clients st client_id of None \<Rightarrow> None
          | Some cl \<Rightarrow>
              if is_confidential cl \<and> (client_secret = [] \<or> \<not> constant_time_compare (cl_secret cl) client_secret)
              then None else Some (client_id, cl))"

datatype token_answer =
    Unauthorized
  | TokenError string
  | TokenGranted string "string option"

text \<open>
  The five grants: a code; a refresh token; a password, with the account it belongs to if it is right and whether validation
  found errors; the client's own credentials; and those of an installed client, with whether the device is well formed.
\<close>

datatype grant =
    GrantCode "string option" "string option" "string option"
  | GrantRefresh "string option"
  | GrantPassword "string option" bool "string option" "string option"
  | GrantClient "string option" "string option"
  | GrantInstalled "string option" bool "string option"
  | GrantUnsupported

definition access_token_code ::
    "oauth_env \<Rightarrow> int \<Rightarrow> string \<Rightarrow> oauth_client \<Rightarrow> string option \<Rightarrow> string option \<Rightarrow> string option \<Rightarrow> string list \<Rightarrow> string list \<Rightarrow> oauth_state
     \<Rightarrow> (token_answer \<times> oauth_state) result" where
  "access_token_code e now i cl code redirect_uri device rnd1 rnd2 st =
     (case (given code, given redirect_uri) of
        (Some c, Some uri) \<Rightarrow>
          (case use_code now c i uri st of
             (None, st1) \<Rightarrow> Inr (TokenError ''invalid_grant'', st1)
           | (Some co, st1) \<Rightarrow>
               bindr (if co_refreshable co
                      then bindr (new_token Refresh (co_client co) (co_user co) (co_scope co) None None rnd1 now st1)
                        (\<lambda>(r, st2). Inr (Some r, st2))
                      else Inr (None, st1)) (\<lambda>(r, st2).
               bindr (new_token Access (co_client co) (co_user co) (co_scope co) (Some (case r of None \<Rightarrow> [] | Some r \<Rightarrow> r))
                   (get_device_id e st2 cl device) rnd2 now st2) (\<lambda>(a, st3).
               Inr (TokenGranted a r, st3))))
      | _ \<Rightarrow> Inr (TokenError ''invalid_request'', st))"

definition VOAuth2RefreshToken :: "int \<Rightarrow> string option \<Rightarrow> oauth_state \<Rightarrow> (string \<times> oauth_token) option result" where
  "VOAuth2RefreshToken now i st =
     (case given i of None \<Rightarrow> Inr None
      | Some i \<Rightarrow> (case token_found Refresh now i st of None \<Rightarrow> Inr None
          | Some tk \<Rightarrow> bindr (check_valid now st tk) (\<lambda>ok. Inr (if ok then Some (i, tk) else None))))"

definition access_token_refresh ::
    "int \<Rightarrow> string \<Rightarrow> string option \<Rightarrow> string list \<Rightarrow> oauth_state \<Rightarrow> (token_answer \<times> oauth_state) result" where
  "access_token_refresh now i refresh_token rnd st =
     bindr (VOAuth2RefreshToken now refresh_token st) (\<lambda>r.
     case r of
       None \<Rightarrow> Inr (TokenError ''invalid_request'', st)
     | Some (ri, tk) \<Rightarrow>
         if tk_client tk \<noteq> i then Inr (TokenError ''invalid_request'', st)
         else bindr (new_token Access (tk_client tk) (tk_user tk) (tk_scope tk) (Some ri) None rnd now st)
           (\<lambda>(a, st'). Inr (TokenGranted a None, st')))"

text \<open>The scope of a grant without a user's approval: the full one unless another is asked for.\<close>

definition asked_scope :: "string option \<Rightarrow> oauth_scope option" where
  "asked_scope scope = (case given scope of
     None \<Rightarrow> Some (oauth_scope_of FULL_ACCESS)
   | Some s \<Rightarrow> if scope_is_valid (oauth_scope_of s) then Some (oauth_scope_of s) else None)"

definition access_token_password ::
    "oauth_env \<Rightarrow> int \<Rightarrow> string \<Rightarrow> oauth_client \<Rightarrow> string option \<Rightarrow> bool \<Rightarrow> string option \<Rightarrow> string option \<Rightarrow> string list \<Rightarrow> oauth_state
     \<Rightarrow> (token_answer \<times> oauth_state) result" where
  "access_token_password e now i cl user errs scope device rnd st =
     (if cl_app_type cl \<noteq> ''script'' then Inr (TokenError ''unauthorized_client'', st)
      else case (case user of None \<Rightarrow> None | Some u \<Rightarrow> map_option (\<lambda>a. (u, a)) (os_accounts st u)) of
        None \<Rightarrow> Inr (TokenError ''invalid_grant'', st)
      | Some (u, a) \<Rightarrow>
          if oa_id a \<notin> set (developer_ids cl) then Inr (TokenError ''invalid_grant'', st)
          else if errs then Inr (TokenError ''invalid_request'', st)
          else case asked_scope scope of None \<Rightarrow> Inr (TokenError ''invalid_scope'', st)
          | Some s \<Rightarrow> bindr (new_token Access i u (scope_str s) None (get_device_id e st cl device) rnd now st)
              (\<lambda>(t, st'). Inr (TokenGranted t None, st')))"

definition access_token_client_credentials ::
    "oauth_env \<Rightarrow> int \<Rightarrow> string \<Rightarrow> oauth_client \<Rightarrow> string option \<Rightarrow> string option \<Rightarrow> string list \<Rightarrow> oauth_state
     \<Rightarrow> (token_answer \<times> oauth_state) result" where
  "access_token_client_credentials e now i cl scope device rnd st =
     (if \<not> is_confidential cl then Inr (TokenError ''unauthorized_client'', st)
      else case asked_scope scope of None \<Rightarrow> Inr (TokenError ''invalid_scope'', st)
      | Some s \<Rightarrow> bindr (new_token Access i [] (scope_str s) None (get_device_id e st cl device) rnd now st)
          (\<lambda>(t, st'). Inr (TokenGranted t None, st')))"

definition access_token_installed ::
    "int \<Rightarrow> string \<Rightarrow> string option \<Rightarrow> bool \<Rightarrow> string option \<Rightarrow> string list \<Rightarrow> oauth_state \<Rightarrow> (token_answer \<times> oauth_state) result" where
  "access_token_installed now i scope bad_device device rnd st =
     (if bad_device then Inr (TokenError ''invalid_request'', st)
      else case asked_scope scope of None \<Rightarrow> Inr (TokenError ''invalid_scope'', st)
      | Some s \<Rightarrow> bindr (new_token Access i [] (scope_str s) None device rnd now st)
          (\<lambda>(t, st'). Inr (TokenGranted t None, st')))"

definition POST_access_token ::
    "oauth_env \<Rightarrow> int \<Rightarrow> string option \<Rightarrow> grant \<Rightarrow> string list \<Rightarrow> string list \<Rightarrow> oauth_state \<Rightarrow> (token_answer \<times> oauth_state) result" where
  "POST_access_token e now header g rnd1 rnd2 st =
     (case get_client_auth e header st of
        None \<Rightarrow> Inr (Unauthorized, st)
      | Some (i, cl) \<Rightarrow>
          (case g of
             GrantCode code uri device \<Rightarrow> access_token_code e now i cl code uri device rnd1 rnd2 st
           | GrantRefresh r \<Rightarrow> access_token_refresh now i r rnd1 st
           | GrantPassword user errs scope device \<Rightarrow> access_token_password e now i cl user errs scope device rnd1 st
           | GrantClient scope device \<Rightarrow> access_token_client_credentials e now i cl scope device rnd1 st
           | GrantInstalled scope bad device \<Rightarrow> access_token_installed now i scope bad device rnd1 st
           | GrantUnsupported \<Rightarrow> Inr (TokenError ''unsupported_grant_type'', st)))"

subsection \<open>\<open>/api/v1/revoke_token\<close>\<close>

datatype revoke_answer = RevokeDone | RevokeUnauthorized | RevokeWrongClient

definition POST_revoke_token ::
    "oauth_env \<Rightarrow> int \<Rightarrow> string option \<Rightarrow> string option \<Rightarrow> string option \<Rightarrow> oauth_state \<Rightarrow> (revoke_answer \<times> oauth_state) result" where
  "POST_revoke_token e now header token_id token_hint st =
     (case get_client_auth e header st of
        None \<Rightarrow> Inr (RevokeUnauthorized, st)
      | Some (i, cl) \<Rightarrow>
          (case given token_id of None \<Rightarrow> Inr (RevokeDone, st)
           | Some t \<Rightarrow>
               let types = (if token_hint = Some ''refresh_token'' then [Refresh, Access] else [Access, Refresh]) in
               case find (\<lambda>k. token_found k now t st \<noteq> None) types of
                 None \<Rightarrow> Inr (RevokeDone, st)
               | Some k \<Rightarrow>
                   let tk = the (token_found k now t st) in
                   bindr (token_client now tk) (\<lambda>c.
                   if constant_time_compare c i then bindr (revoke_token k now t tk st) (\<lambda>st'. Inr (RevokeDone, st'))
                   else Inr (RevokeWrongClient, st))))"

subsection \<open>Requests with a token\<close>

datatype bearer_answer =
    BearerRefused int string
  | BearerOk "string option" string oauth_scope

definition get_bearer_token :: "string option \<Rightarrow> string option" where
  "get_bearer_token header = (case require_split header 2 None of
     Inl _ \<Rightarrow> None | Inr w \<Rightarrow> if py_lower (w ! 0) = ''bearer'' then Some (w ! 1) else None)"

text \<open>
  \<open>authenticate_with_token\<close> for a handler that allows access with tokens and needs the scopes \<open>required\<close>, in the subreddit
  \<open>site\<close>. A header that cannot be read is refused with 400, no header with 401.
\<close>

definition authenticate_with_token ::
    "int \<Rightarrow> string option \<Rightarrow> string \<Rightarrow> string set \<Rightarrow> oauth_state \<Rightarrow> bearer_answer result" where
  "authenticate_with_token now header site required st =
     (case given header of None \<Rightarrow> Inr (BearerRefused 401 ''invalid_token'') | Some h \<Rightarrow>
      case get_bearer_token (Some h) of None \<Rightarrow> Inr (BearerRefused 400 ''invalid_request'') | Some i \<Rightarrow>
      case token_found Access now i st of None \<Rightarrow> Inr (BearerRefused 401 ''invalid_token'') | Some tk \<Rightarrow>
      bindr (check_valid now st tk) (\<lambda>ok.
      if \<not> ok then Inr (BearerRefused 401 ''invalid_token'')
      else if has_access (oauth_scope_of (tk_scope tk)) site required
      then Inr (BearerOk (given (Some (tk_user tk))) (tk_client tk) (oauth_scope_of (tk_scope tk)))
      else Inr (BearerRefused 403 ''insufficient_scope'')))"

subsection \<open>Managing apps\<close>

definition POST_revokeapp :: "int \<Rightarrow> string \<Rightarrow> string option \<Rightarrow> oauth_state \<Rightarrow> oauth_state result" where
  "POST_revokeapp now user client_id st =
     (case VOAuth2ClientID st client_id of None \<Rightarrow> Inr st | Some (i, cl) \<Rightarrow> client_revoke i now user st)"

definition POST_clear_sessions :: "int \<Rightarrow> string \<Rightarrow> bool \<Rightarrow> oauth_state \<Rightarrow> oauth_state result" where
  "POST_clear_sessions now user password_ok st =
     (if \<not> password_ok then Inr st
      else bindr (revoke_all_by_user Access now user st) (revoke_all_by_user Refresh now user))"

record app_form =
  af_name :: string
  af_about_url :: "string option"
  af_redirect_uri :: string
  af_app_type :: string
  af_description :: string
  af_scheme :: string

text \<open>
  A form without errors; \<open>af_scheme\<close> is the scheme of its address. The new client's id and secret are random.
\<close>

definition create_app ::
    "string \<Rightarrow> app_form \<Rightarrow> string list \<Rightarrow> string \<Rightarrow> oauth_state \<Rightarrow> oauth_state result" where
  "create_app user f rnd secret st =
     bindr (unique_token (\<lambda>i. os_clients st i \<noteq> None) rnd) (\<lambda>i.
     let cl = \<lparr>cl_secret = secret, cl_redirect_uri = af_redirect_uri f, cl_app_type = af_app_type f, cl_deleted = False,
         cl_name = af_name f, cl_description = af_description f,
         cl_about_url = (case af_about_url f of None \<Rightarrow> [] | Some u \<Rightarrow> u), cl_developers = []\<rparr>
     in case os_accounts st user of None \<Rightarrow> Inl NotFound
        | Some a \<Rightarrow> add_developer i cl user a False (set_client i cl st))"

definition update_app ::
    "oauth_env \<Rightarrow> string \<Rightarrow> bool \<Rightarrow> string \<Rightarrow> app_form \<Rightarrow> oauth_state \<Rightarrow> oauth_state result" where
  "update_app e user admin client_id f st =
     (case os_clients st client_id of
        None \<Rightarrow> Inl (AttributeError ''is_first_party'')
      | Some cl \<Rightarrow>
          if is_first_party e st cl \<and> \<not> admin then Inr st
          else if af_app_type f \<noteq> cl_app_type cl then Inr st
          else if cl_deleted cl then Inr st
          else if \<not> has_developer st cl user then Inr st
          else Inr (set_client client_id (cl\<lparr>cl_name := af_name f, cl_description := af_description f,
            cl_about_url := (case af_about_url f of None \<Rightarrow> [] | Some u \<Rightarrow> u), cl_redirect_uri := af_redirect_uri f\<rparr>) st))"

definition POST_updateapp ::
    "oauth_env \<Rightarrow> string \<Rightarrow> bool \<Rightarrow> string option \<Rightarrow> app_form \<Rightarrow> string list \<Rightarrow> string \<Rightarrow> oauth_state \<Rightarrow> oauth_state result" where
  "POST_updateapp e user admin client_id f rnd secret st =
     (if af_app_type f = ''web'' \<and> af_scheme f \<notin> {''http'', ''https''} then Inr st
      else case given client_id of
        Some i \<Rightarrow> update_app e user admin i f st
      | None \<Rightarrow> create_app user f rnd secret st)"

text \<open>\<open>VOAuth2ClientDeveloper\<close>: a client that the user develops.\<close>

definition VOAuth2ClientDeveloper :: "oauth_state \<Rightarrow> string \<Rightarrow> string option \<Rightarrow> (string \<times> oauth_client) option" where
  "VOAuth2ClientDeveloper st user client_id = (case VOAuth2ClientID st client_id of
     None \<Rightarrow> None | Some (i, cl) \<Rightarrow> if has_developer st cl user then Some (i, cl) else None)"

definition POST_adddeveloper ::
    "oauth_env \<Rightarrow> string \<Rightarrow> bool \<Rightarrow> string option \<Rightarrow> string option \<Rightarrow> bool \<Rightarrow> oauth_state \<Rightarrow> oauth_state" where
  "POST_adddeveloper e user admin client_id name employee st =
     (case VOAuth2ClientDeveloper st user client_id of None \<Rightarrow> st | Some (i, cl) \<Rightarrow>
      case (case name of None \<Rightarrow> None | Some n \<Rightarrow> map_option (\<lambda>a. (n, a)) (os_accounts st n)) of None \<Rightarrow> st | Some (n, a) \<Rightarrow>
      if is_first_party e st cl \<and> \<not> admin then st
      else if (employee \<or> n = oe_system_user e) \<and> \<not> admin then st
      else if has_developer st cl n then st
      else case add_developer i cl n a False st of Inl _ \<Rightarrow> st | Inr st' \<Rightarrow> st')"

definition POST_removedeveloper ::
    "oauth_env \<Rightarrow> string \<Rightarrow> bool \<Rightarrow> string option \<Rightarrow> string option \<Rightarrow> oauth_state \<Rightarrow> oauth_state result" where
  "POST_removedeveloper e user admin client_id name st =
     (case VOAuth2ClientDeveloper st user client_id of
        None \<Rightarrow> Inl (AttributeError ''is_first_party'')
      | Some (i, cl) \<Rightarrow>
          if is_first_party e st cl \<and> \<not> admin then Inr st
          else case name of None \<Rightarrow> Inr st | Some n \<Rightarrow> remove_developer i cl n st)"

definition POST_deleteapp :: "string \<Rightarrow> string option \<Rightarrow> oauth_state \<Rightarrow> oauth_state" where
  "POST_deleteapp user client_id st =
     (case VOAuth2ClientDeveloper st user client_id of None \<Rightarrow> st | Some (i, cl) \<Rightarrow> set_client i (cl\<lparr>cl_deleted := True\<rparr>) st)"

end
