(* ===== verification/OAuthRevoke.thy ===== *)
theory OAuthRevoke
  imports OAuth
begin

section \<open>Revoking tokens\<close>

text \<open>
  What revoking does to the tokens of an account: the rows keep everything but the mark of revocation, the
  views list every token that may still be valid, and whatever is revoked stays so until it expires.
\<close>

subsection \<open>Rows that agree up to revocation\<close>

definition same_token :: "oauth_token \<Rightarrow> oauth_token \<Rightarrow> bool" where
  "same_token tk tk' \<longleftrightarrow> tk\<lparr>tk_revoked := None\<rparr> = tk'\<lparr>tk_revoked := None\<rparr>"

lemma same_token_refl [simp]: "same_token tk tk"
  by (simp add: same_token_def)

lemma same_token_sym: "same_token tk tk' \<Longrightarrow> same_token tk' tk"
  by (simp add: same_token_def)

lemma same_token_trans: "same_token tk tk' \<Longrightarrow> same_token tk' tk'' \<Longrightarrow> same_token tk tk''"
  by (simp add: same_token_def)

lemma same_token_revoke [simp]: "same_token tk (tk'\<lparr>tk_revoked := r\<rparr>) \<longleftrightarrow> same_token tk tk'"
  "same_token (tk'\<lparr>tk_revoked := r\<rparr>) tk \<longleftrightarrow> same_token tk' tk"
  by (simp_all add: same_token_def)

lemma same_token_fields:
  assumes "same_token tk tk'"
  shows "tk_client tk = tk_client tk'" "tk_user tk = tk_user tk'" "tk_scope tk = tk_scope tk'"
    "tk_refresh tk = tk_refresh tk'" "tk_expires tk = tk_expires tk'"
  using arg_cong [OF assms [unfolded same_token_def], of tk_client] arg_cong [OF assms [unfolded same_token_def], of tk_user]
    arg_cong [OF assms [unfolded same_token_def], of tk_scope] arg_cong [OF assms [unfolded same_token_def], of tk_refresh]
    arg_cong [OF assms [unfolded same_token_def], of tk_expires]
  by simp_all

text \<open>
  The invariant of the tokens at a time: access tokens live for an hour, refresh tokens for ever; the mark of revocation
  outlives the token; the view of an account has every token that is not revoked.
\<close>

definition token_ok :: "int \<Rightarrow> token_kind \<Rightarrow> oauth_token \<Rightarrow> bool" where
  "token_ok now k tk \<longleftrightarrow>
     (case k of Access \<Rightarrow> (\<exists>t. tk_expires tk = Some t \<and> t \<le> now + 3600 \<and> (\<forall>r. tk_revoked tk = Some r \<longrightarrow> (\<exists>w. r = Some w \<and> t \<le> w)))
      | Refresh \<Rightarrow> tk_expires tk = None \<and> (\<forall>r. tk_revoked tk = Some r \<longrightarrow> r = None))"

definition tokens_ok :: "int \<Rightarrow> oauth_state \<Rightarrow> bool" where
  "tokens_ok now st \<longleftrightarrow>
     (\<forall>k i tk. os_tokens st k i = Some tk \<longrightarrow>
        token_ok now k tk \<and>
        (tk_user tk \<noteq> [] \<longrightarrow> tk_revoked tk = None \<longrightarrow> map_of (os_view st k (tk_user tk)) i = Some (tk_expires tk)))"

lemma token_ok_later: "token_ok now k tk \<Longrightarrow> now \<le> now' \<Longrightarrow> token_ok now' k tk"
  by (cases k) (auto simp: token_ok_def)

lemma tokens_ok_later: "tokens_ok now st \<Longrightarrow> now \<le> now' \<Longrightarrow> tokens_ok now' st"
  using token_ok_later unfolding tokens_ok_def by blast

lemma token_ok_revoke:
  assumes "token_ok now k tk"
  shows "token_ok now k (tk\<lparr>tk_revoked := Some (expiry now (token_ttl k))\<rparr>)"
  using assms by (cases k) (auto simp: token_ok_def expiry_def token_ttl_def)

text \<open>A token that can still be used is not marked at all.\<close>

lemma revoked_while_live:
  assumes "token_ok now0 k tk" "live now (tk_expires tk)" "\<not> revoked now tk"
  shows "tk_revoked tk = None"
  using assms by (cases k; cases "tk_revoked tk") (auto simp: token_ok_def live_def revoked_def)

lemma check_valid_live:
  assumes "check_valid now st tk = Inr True" "token_ok now0 k tk"
  shows "live now (tk_expires tk) \<and> tk_revoked tk = None"
  using assms revoked_while_live [OF assms(2)]
  by (auto simp: check_valid_def token_client_def bindr_eq_Inr_iff split: if_splits)

subsection \<open>Revoking only adds marks\<close>

definition rev_frame :: "int \<Rightarrow> oauth_state \<Rightarrow> oauth_state \<Rightarrow> bool" where
  "rev_frame now st st' \<longleftrightarrow>
     os_codes st' = os_codes st \<and> os_clients st' = os_clients st \<and> os_accounts st' = os_accounts st \<and>
     (\<forall>k u. set (os_view st' k u) \<subseteq> set (os_view st k u)) \<and>
     (\<forall>k i. os_tokens st' k i = os_tokens st k i \<or>
       (\<exists>tk. os_tokens st k i = Some tk \<and> os_tokens st' k i = Some (tk\<lparr>tk_revoked := Some (expiry now (token_ttl k))\<rparr>)))"

lemma rev_frame_refl: "rev_frame now st st"
  by (simp add: rev_frame_def)

lemma rev_frame_trans:
  assumes "rev_frame now st st'" "rev_frame now st' st''"
  shows "rev_frame now st st''"
proof -
  have "os_tokens st'' k i = os_tokens st k i \<or>
      (\<exists>tk. os_tokens st k i = Some tk \<and> os_tokens st'' k i = Some (tk\<lparr>tk_revoked := Some (expiry now (token_ttl k))\<rparr>))" for k i
    using assms unfolding rev_frame_def by (elim conjE allE [of _ k] allE [of _ i]) auto
  moreover have "set (os_view st'' k u) \<subseteq> set (os_view st k u)" for k u
    using assms unfolding rev_frame_def by (elim conjE allE [of _ k] allE [of _ u]) blast
  ultimately show ?thesis using assms by (simp add: rev_frame_def)
qed

lemma rev_frameD:
  assumes "rev_frame now st st'" "os_tokens st' k i = Some tk"
  shows "\<exists>tk0. os_tokens st k i = Some tk0 \<and> same_token tk0 tk \<and> (tk_revoked tk = None \<longrightarrow> tk0 = tk)"
proof -
  consider "os_tokens st' k i = os_tokens st k i"
    | tk0 where "os_tokens st k i = Some tk0" "os_tokens st' k i = Some (tk0\<lparr>tk_revoked := Some (expiry now (token_ttl k))\<rparr>)"
    using assms(1) unfolding rev_frame_def by blast
  then show ?thesis using assms(2) by cases auto
qed

definition row_agrees :: "token_kind \<Rightarrow> string \<times> oauth_token \<Rightarrow> oauth_state \<Rightarrow> bool" where
  "row_agrees k = (\<lambda>(i, tk) st. \<exists>tk0. os_tokens st k i = Some tk0 \<and> same_token tk0 tk)"

lemma row_agrees_frame: "row_agrees k x st \<Longrightarrow> rev_frame now st st' \<Longrightarrow> row_agrees k x st'"
  unfolding row_agrees_def rev_frame_def by (cases x) (simp, metis option.inject same_token_revoke(2))

definition is_revoked :: "token_kind \<Rightarrow> string \<Rightarrow> oauth_state \<Rightarrow> bool" where
  "is_revoked k i st \<longleftrightarrow> (\<exists>tk. os_tokens st k i = Some tk \<and> tk_revoked tk \<noteq> None)"

lemma is_revoked_frame: "is_revoked k i st \<Longrightarrow> rev_frame now st st' \<Longrightarrow> is_revoked k i st'"
  unfolding is_revoked_def rev_frame_def by (elim conjE exE allE [of _ k] allE [of _ i]) auto

interpretation revoking: frame_relation "\<lambda>_ :: oauth_state. True" "rev_frame now" for now
  by unfold_locales (auto simp: rev_frame_refl intro: rev_frame_trans)

lemma same_token_user: "same_token tk0 tk \<Longrightarrow> token_user now tk0 = token_user now tk"
  by (simp add: token_user_def same_token_fields [of tk0 tk])

lemma mark_revoked_tokens:
  assumes "row_agrees k (i, tk) st"
  shows "\<exists>tk0. os_tokens st k i = Some tk0 \<and> same_token tk0 tk \<and>
    os_tokens (mark_revoked k now i tk st) =
      (os_tokens st)(k := (os_tokens st k)(i \<mapsto> tk0\<lparr>tk_revoked := Some (expiry now (token_ttl k))\<rparr>))"
proof -
  obtain tk0 where tk0: "os_tokens st k i = Some tk0" "same_token tk0 tk" using assms by (auto simp: row_agrees_def)
  have "tk\<lparr>tk_revoked := r\<rparr> = tk0\<lparr>tk_revoked := r\<rparr>" for r
    using tk0(2) by (cases tk0; cases tk) (simp add: same_token_def)
  then show ?thesis using tk0 by (auto simp: mark_revoked_def Let_def)
qed

lemma mark_revoked_ok:
  assumes "tokens_ok now st" "row_agrees k (i, tk) st"
  shows "tokens_ok now (mark_revoked k now i tk st) \<and> rev_frame now st (mark_revoked k now i tk st) \<and>
    is_revoked k i (mark_revoked k now i tk st)"
proof -
  let ?st = "mark_revoked k now i tk st"
  obtain tk0 where tk0: "os_tokens st k i = Some tk0" "same_token tk0 tk"
    "os_tokens ?st = (os_tokens st)(k := (os_tokens st k)(i \<mapsto> tk0\<lparr>tk_revoked := Some (expiry now (token_ttl k))\<rparr>))"
    using mark_revoked_tokens [OF assms(2)] by blast
  have others: "os_codes ?st = os_codes st" "os_clients ?st = os_clients st" "os_accounts ?st = os_accounts st"
    by (simp_all add: mark_revoked_def Let_def)
  have view: "map_of (os_view ?st k' u) j = map_of (os_view st k' u) j" if "(k', j) \<noteq> (k, i)" for k' u j
    using that by (auto simp: mark_revoked_def Let_def)
  have "tokens_ok now ?st"
    unfolding tokens_ok_def
  proof (intro allI impI)
    fix k' j tk' assume tk': "os_tokens ?st k' j = Some tk'"
    show "token_ok now k' tk' \<and>
      (tk_user tk' \<noteq> [] \<longrightarrow> tk_revoked tk' = None \<longrightarrow> map_of (os_view ?st k' (tk_user tk')) j = Some (tk_expires tk'))"
    proof (cases "(k', j) = (k, i)")
      case True
      have "token_ok now k tk0" using assms(1) tk0(1) by (auto simp: tokens_ok_def)
      then show ?thesis using True tk' token_ok_revoke by (auto simp: tk0(3))
    next
      case False
      then have "os_tokens st k' j = Some tk'" using tk' by (auto simp: tk0(3) split: if_splits)
      then show ?thesis using assms(1) view [OF False] by (auto simp: tokens_ok_def)
    qed
  qed
  moreover have "rev_frame now st ?st"
  proof -
    have "set (os_view ?st k' u) \<subseteq> set (os_view st k' u)" for k' u by (auto simp: mark_revoked_def Let_def AList.delete_eq)
    then show ?thesis unfolding rev_frame_def using others tk0(1) by (auto simp: tk0(3))
  qed
  moreover have "is_revoked k i ?st" by (auto simp: is_revoked_def tk0(3))
  ultimately show ?thesis by blast
qed

lemma fold_marks_ok:
  assumes "tokens_ok now st" "\<forall>x \<in> set ts. row_agrees k x st"
  shows "tokens_ok now (fold (\<lambda>(j, t) s. mark_revoked k now j t s) ts st) \<and>
    rev_frame now st (fold (\<lambda>(j, t) s. mark_revoked k now j t s) ts st)"
  using assms
proof (induction ts arbitrary: st)
  case Nil
  then show ?case by (simp add: rev_frame_def)
next
  case (Cons x ts)
  obtain j t where x: "x = (j, t)" by (cases x)
  have m: "tokens_ok now (mark_revoked k now j t st)" "rev_frame now st (mark_revoked k now j t st)"
    using mark_revoked_ok [OF Cons.prems(1), of k j t] Cons.prems(2) x by auto
  then have "\<forall>y \<in> set ts. row_agrees k y (mark_revoked k now j t st)" using row_agrees_frame Cons.prems(2) by auto
  from Cons.IH [OF m(1) this] show ?case using m(2) rev_frame_trans x by auto
qed

subsection \<open>The tokens of an account\<close>

lemma check_valid_total:
  assumes "token_found k now i st = Some tk"
  shows "\<exists>b. check_valid now st' tk = Inr b"
  using assms by (auto simp: check_valid_def token_found_def token_client_def split: option.splits if_splits)

lemma in_tokens_listed:
  "(i, tk) \<in> set (tokens_listed k now u st) \<longleftrightarrow> (\<exists>e. (i, e) \<in> set (os_view st k u) \<and> live now e \<and> token_found k now i st = Some tk)"
proof -
  define f where "f = (\<lambda>(i, e). if live now e then (case token_found k now i st of None \<Rightarrow> [] | Some tk \<Rightarrow> [(i, tk)]) else [])"
  have f: "(i, tk) \<in> set (f (j, e)) \<longleftrightarrow> i = j \<and> live now e \<and> token_found k now i st = Some tk" for j e
    by (cases "i = j"; cases "live now e"; cases "token_found k now j st"; simp add: f_def eq_commute [of tk])
  have "(i, tk) \<in> set (concat (map f row)) \<longleftrightarrow> (\<exists>e. (i, e) \<in> set row \<and> live now e \<and> token_found k now i st = Some tk)" for row
  proof (induction row)
    case (Cons x row)
    obtain j e where "x = (j, e)" by (cases x)
    then show ?case using Cons f [of j e] by (simp only: list.map concat.simps set_append Un_iff list.set insert_iff prod.inject) blast
  qed simp
  then show ?thesis unfolding tokens_listed_def f_def .
qed

lemma tokens_listed_found: "(i, tk) \<in> set (tokens_listed k now u st) \<Longrightarrow> token_found k now i st = Some tk"
  unfolding in_tokens_listed by blast

lemma filter_valid_spec:
  assumes "\<forall>(i, tk) \<in> set ts. \<exists>b. check_valid now st tk = Inr b"
  shows "filter_valid now st ts = Inr (filter (\<lambda>(i, tk). check_valid now st tk = Inr True) ts)"
  using assms by (induction now st ts rule: filter_valid.induct) auto

lemma tokens_by_user_spec:
  "tokens_by_user k now u st = Inr (filter (\<lambda>(i, tk). check_valid now st tk = Inr True) (tokens_listed k now u st))"
  unfolding tokens_by_user_def using check_valid_total tokens_listed_found by (intro filter_valid_spec) blast

lemma found_row: "token_found k now i st = Some tk \<Longrightarrow> os_tokens st k i = Some tk"
  by (auto simp: token_found_def split: option.splits if_splits)

lemma tokens_by_user_agree:
  assumes "tokens_by_user k now u st = Inr ts"
  shows "\<forall>x \<in> set ts. row_agrees k x st \<and> check_valid now st (snd x) = Inr True"
  using assms unfolding tokens_by_user_spec by (auto simp: row_agrees_def dest!: tokens_listed_found found_row)

lemma valid_token_listed:
  assumes "tokens_ok now st" "os_tokens st k i = Some tk" "check_valid now st tk = Inr True" "tk_user tk \<noteq> []"
  shows "\<exists>ts. tokens_by_user k now (tk_user tk) st = Inr ts \<and> (i, tk) \<in> set ts"
proof -
  have ok: "token_ok now k tk" using assms(1,2) by (auto simp: tokens_ok_def)
  then have live: "live now (tk_expires tk)" "tk_revoked tk = None" using check_valid_live [OF assms(3)] by auto
  have "map_of (os_view st k (tk_user tk)) i = Some (tk_expires tk)" using assms(1,2,4) live(2) by (auto simp: tokens_ok_def)
  then have "(i, tk_expires tk) \<in> set (os_view st k (tk_user tk))" by (rule map_of_SomeD)
  moreover have "token_found k now i st = Some tk" using assms(2) live(1) by (simp add: token_found_def)
  ultimately have "(i, tk) \<in> set (tokens_listed k now (tk_user tk) st)" using live(1) in_tokens_listed by blast
  then show ?thesis using assms(3) by (auto simp: tokens_by_user_spec)
qed

subsection \<open>Revoking never fails\<close>

lemma revoke_token_ok:
  assumes "tokens_ok now st" "row_agrees k (i, tk) st"
    and "k = Refresh \<Longrightarrow> token_user now tk \<noteq> [] \<and> os_accounts st (token_user now tk) \<noteq> None"
  shows "\<exists>st'. revoke_token k now i tk st = Inr st' \<and> tokens_ok now st' \<and> rev_frame now st st' \<and> is_revoked k i st'"
proof -
  let ?st = "mark_revoked k now i tk st"
  have m: "tokens_ok now ?st" "rev_frame now st ?st" "is_revoked k i ?st" using mark_revoked_ok [OF assms(1,2)] by auto
  show ?thesis
  proof (cases k)
    case Access
    then show ?thesis using m by (simp add: revoke_token_def)
  next
    case Refresh
    obtain ts where ts: "tokens_by_user Access now (token_user now tk) ?st = Inr ts" by (simp add: tokens_by_user_spec)
    define st2 where "st2 = fold (\<lambda>(j, t) s. mark_revoked Access now j t s) (filter (\<lambda>(j, t). tk_refresh t = i) ts) ?st"
    have "\<forall>x \<in> set (filter (\<lambda>(j, t). tk_refresh t = i) ts). row_agrees Access x ?st" using tokens_by_user_agree [OF ts] by auto
    from fold_marks_ok [OF m(1) this] have st2: "tokens_ok now st2" "rev_frame now ?st st2" by (auto simp: st2_def)
    have "os_accounts ?st = os_accounts st" using m(2) by (simp add: rev_frame_def)
    then have "revoke_token k now i tk st = Inr st2"
      using assms(3) Refresh ts by (auto simp: revoke_token_def Let_def st2_def)
    then show ?thesis using st2 rev_frame_trans [OF m(2) st2(2)] is_revoked_frame [OF m(3) st2(2)] by blast
  qed
qed

lemma revoke_loop:
  assumes "tokens_ok now st" "\<forall>x \<in> set ts. row_agrees k x st" "\<forall>x \<in> set ts. \<exists>b. P (snd x) = Inr b"
    and "k = Refresh \<Longrightarrow> \<forall>x \<in> set ts. token_user now (snd x) \<noteq> [] \<and> os_accounts st (token_user now (snd x)) \<noteq> None"
  shows "\<exists>st'. foldm (revoke_if P k now) ts st = Inr st' \<and> tokens_ok now st' \<and> rev_frame now st st' \<and>
    (\<forall>x \<in> set ts. P (snd x) = Inr True \<longrightarrow> is_revoked k (fst x) st')"
  using assms
proof (induction ts arbitrary: st)
  case Nil
  then show ?case by (simp add: rev_frame_def)
next
  case (Cons x ts)
  obtain i tk where x: "x = (i, tk)" by (cases x)
  obtain b where b: "P tk = Inr b" using Cons.prems(3) x by auto
  obtain st1 where st1: "revoke_if P k now x st = Inr st1" "tokens_ok now st1" "rev_frame now st st1" "b \<longrightarrow> is_revoked k i st1"
  proof (cases b)
    case True
    then show ?thesis using that revoke_token_ok [of now st k i tk] Cons.prems x b by (fastforce simp: revoke_if_def)
  next
    case False
    then show ?thesis using that [of st] Cons.prems(1) x b by (simp add: revoke_if_def rev_frame_def)
  qed
  have "\<forall>y \<in> set ts. row_agrees k y st1" using row_agrees_frame [OF _ st1(3)] Cons.prems(2) by simp
  moreover have "os_accounts st1 = os_accounts st" using st1(3) by (simp add: rev_frame_def)
  ultimately obtain st' where st': "foldm (revoke_if P k now) ts st1 = Inr st'" "tokens_ok now st'" "rev_frame now st1 st'"
    "\<forall>y \<in> set ts. P (snd y) = Inr True \<longrightarrow> is_revoked k (fst y) st'"
    using Cons.IH [OF st1(2)] Cons.prems(3,4) by auto
  moreover have "b \<longrightarrow> is_revoked k i st'" using st1(4) is_revoked_frame [OF _ st'(3)] by blast
  ultimately show ?case using st1(1) rev_frame_trans [OF st1(3) st'(3)] x b by auto
qed

text \<open>
  The tokens listed for an account are its own: \<open>views_own\<close>. Then revoking an app for an account that exists succeeds and
  leaves it no valid token of that app.
\<close>

definition views_own :: "oauth_state \<Rightarrow> bool" where
  "views_own st \<longleftrightarrow> (\<forall>k u i e tk. (i, e) \<in> set (os_view st k u) \<longrightarrow> os_tokens st k i = Some tk \<longrightarrow> tk_user tk = u \<and> u \<noteq> [])"

lemma views_own_listed:
  assumes "views_own st" "tokens_by_user k now u st = Inr ts" "tokens_ok now st" "x \<in> set ts"
  shows "token_user now (snd x) = u \<and> u \<noteq> [] \<and> token_client now (snd x) = Inr (tk_client (snd x))"
proof -
  obtain i tk where x: "x = (i, tk)" by (cases x)
  have "(i, tk) \<in> set (tokens_listed k now u st)" "check_valid now st tk = Inr True"
    using assms(2,4) x by (auto simp: tokens_by_user_spec)
  then obtain e where e: "(i, e) \<in> set (os_view st k u)" "os_tokens st k i = Some tk" using in_tokens_listed found_row by blast
  then have "tk_user tk = u" "u \<noteq> []" using assms(1) unfolding views_own_def by blast+
  moreover have "token_ok now k tk" using assms(3) e(2) by (auto simp: tokens_ok_def)
  then have "live now (tk_expires tk)" using check_valid_live \<open>check_valid now st tk = Inr True\<close> by blast
  ultimately show ?thesis using x by (simp add: token_user_def token_client_def)
qed

lemma rev_frame_valid:
  assumes "rev_frame now st st'" "os_tokens st' k i = Some tk" "tk_revoked tk = None"
  shows "os_tokens st k i = Some tk \<and> check_valid now st' tk = check_valid now st tk"
proof -
  have "os_tokens st k i = Some tk" using rev_frameD [OF assms(1,2)] assms(3) by blast
  moreover have same: "os_clients st' = os_clients st" "os_accounts st' = os_accounts st" using assms(1) by (simp_all add: rev_frame_def)
  have "check_valid now st' tk = check_valid now st tk" unfolding check_valid_def same ..
  ultimately show ?thesis by blast
qed

lemma views_own_frame:
  assumes "views_own st" "rev_frame now st st'"
  shows "views_own st'"
  unfolding views_own_def
proof (intro allI impI)
  fix k u i e tk assume *: "(i, e) \<in> set (os_view st' k u)" "os_tokens st' k i = Some tk"
  then have "(i, e) \<in> set (os_view st k u)" using assms(2) unfolding rev_frame_def by blast
  moreover obtain tk0 where "os_tokens st k i = Some tk0" "tk_user tk0 = tk_user tk"
    using rev_frameD [OF assms(2) *(2)] same_token_fields(2) by blast
  ultimately show "tk_user tk = u \<and> u \<noteq> []" using assms(1) unfolding views_own_def by metis
qed

lemma revoke_client_of_ok:
  assumes "tokens_ok now st" "views_own st" "os_accounts st u = Some a"
  shows "\<exists>st'. revoke_client_of k c now u st = Inr st' \<and> tokens_ok now st' \<and> rev_frame now st st' \<and>
    (\<forall>i tk. os_tokens st' k i = Some tk \<longrightarrow> tk_client tk = c \<longrightarrow> tk_user tk = u \<longrightarrow> u \<noteq> [] \<longrightarrow> check_valid now st' tk \<noteq> Inr True)"
proof -
  obtain ts where ts: "tokens_by_user k now u st = Inr ts" by (simp add: tokens_by_user_spec)
  define P where "P = (\<lambda>tk. bindr (token_client now tk) (\<lambda>d. Inr (d = c)))"
  have own: "\<forall>x \<in> set ts. token_user now (snd x) = u \<and> u \<noteq> [] \<and> token_client now (snd x) = Inr (tk_client (snd x))"
    using views_own_listed [OF assms(2) ts assms(1)] by blast
  have "\<forall>x \<in> set ts. \<exists>b. P (snd x) = Inr b" using own by (simp add: P_def)
  moreover have "k = Refresh \<Longrightarrow> \<forall>x \<in> set ts. token_user now (snd x) \<noteq> [] \<and> os_accounts st (token_user now (snd x)) \<noteq> None"
    using own assms(3) by auto
  moreover have "\<forall>x \<in> set ts. row_agrees k x st" using tokens_by_user_agree [OF ts] by blast
  ultimately obtain st' where st': "foldm (revoke_if P k now) ts st = Inr st'" "tokens_ok now st'" "rev_frame now st st'"
    "\<forall>x \<in> set ts. P (snd x) = Inr True \<longrightarrow> is_revoked k (fst x) st'"
    using revoke_loop [OF assms(1), of ts k P] by blast
  have "check_valid now st' tk \<noteq> Inr True"
    if tk: "os_tokens st' k i = Some tk" "tk_client tk = c" "tk_user tk = u" "u \<noteq> []" for i tk
  proof
    assume valid: "check_valid now st' tk = Inr True"
    have "token_ok now k tk" using st'(2) tk(1) by (auto simp: tokens_ok_def)
    then have new: "tk_revoked tk = None" using check_valid_live [OF valid] by blast
    then have old: "os_tokens st k i = Some tk" "check_valid now st tk = Inr True" using rev_frame_valid [OF st'(3) tk(1)] valid by auto
    then have "(i, tk) \<in> set ts" using valid_token_listed [OF assms(1) old] tk(3,4) ts by auto
    then have "is_revoked k i st'" using st'(4) own tk(2) by (force simp: P_def)
    then show False using tk(1) new by (auto simp: is_revoked_def)
  qed
  then show ?thesis using st'(1-3) ts by (auto simp: revoke_client_of_def P_def)
qed

lemma client_revoke_ok:
  assumes "tokens_ok now st" "views_own st" "os_accounts st u = Some a" "u \<noteq> []"
  shows "\<exists>st'. client_revoke c now u st = Inr st' \<and> tokens_ok now st' \<and> rev_frame now st st' \<and>
    (\<forall>k i tk. os_tokens st' k i = Some tk \<longrightarrow> tk_client tk = c \<longrightarrow> tk_user tk = u \<longrightarrow> check_valid now st' tk \<noteq> Inr True)"
proof -
  obtain st1 where st1: "revoke_client_of Refresh c now u st = Inr st1" "tokens_ok now st1" "rev_frame now st st1"
    "\<And>i tk. os_tokens st1 Refresh i = Some tk \<Longrightarrow> tk_client tk = c \<Longrightarrow> tk_user tk = u \<Longrightarrow> check_valid now st1 tk \<noteq> Inr True"
    using revoke_client_of_ok [OF assms(1-3), of Refresh c] assms(4) by blast
  have "os_accounts st1 u = Some a" using st1(3) assms(3) by (simp add: rev_frame_def)
  then obtain st2 where st2: "revoke_client_of Access c now u st1 = Inr st2" "tokens_ok now st2" "rev_frame now st1 st2"
    "\<And>i tk. os_tokens st2 Access i = Some tk \<Longrightarrow> tk_client tk = c \<Longrightarrow> tk_user tk = u \<Longrightarrow> check_valid now st2 tk \<noteq> Inr True"
    using revoke_client_of_ok [OF st1(2) views_own_frame [OF assms(2) st1(3)], of u a Access c] assms(4) by blast
  have "check_valid now st2 tk \<noteq> Inr True" if tk: "os_tokens st2 k i = Some tk" "tk_client tk = c" "tk_user tk = u" for k i tk
  proof (cases k)
    case Access
    then show ?thesis using st2(4) tk by blast
  next
    case Refresh
    show ?thesis
    proof
      assume valid: "check_valid now st2 tk = Inr True"
      have "token_ok now k tk" using st2(2) tk(1) by (auto simp: tokens_ok_def)
      then have "tk_revoked tk = None" using check_valid_live [OF valid] by blast
      then show False using rev_frame_valid [OF st2(3) tk(1)] st1(4) tk valid Refresh by auto
    qed
  qed
  then show ?thesis using st1(1) st2(1-3) rev_frame_trans [OF st1(3) st2(3)] by (auto simp: client_revoke_def)
qed

end
