(* ===== verification/OAuthRun.thy ===== *)
theory OAuthRun
  imports OAuthRevoke
begin

section \<open>Runs of the requests of OAuth 2\<close>

text \<open>
  The requests of OAuth 2 as calls with answers, their runs from a given state, the approvals of users among the events
  of a run, and the invariant that every run keeps: each code and each token that still works goes back to an approval.
\<close>

subsection \<open>Runs\<close>

datatype oauth_call =
    Authorize authorize_form
  | AccessToken "string option" grant "string list" "string list"
  | RevokeToken "string option" "string option" "string option"
  | RevokeApp string "string option"
  | ClearSessions string bool
  | UpdateApp string bool "string option" app_form "string list" string
  | AddDeveloper string bool "string option" "string option" bool
  | RemoveDeveloper string bool "string option" "string option"
  | DeleteApp string "string option"
  | SetAccount string oauth_account

datatype oauth_answer =
    AuthorizeAnswer authorize_answer
  | TokenAnswer token_answer
  | RevokeAnswer revoke_answer
  | Done
  | Failed py_error

type_synonym oauth_event = "int \<times> oauth_call \<times> oauth_answer"

definition answered :: "('a \<Rightarrow> oauth_answer) \<Rightarrow> ('a \<times> oauth_state) result \<Rightarrow> oauth_state \<Rightarrow> oauth_answer \<times> oauth_state" where
  "answered f r st = (case r of Inl err \<Rightarrow> (Failed err, st) | Inr (a, st') \<Rightarrow> (f a, st'))"

definition finished :: "oauth_state result \<Rightarrow> oauth_state \<Rightarrow> oauth_answer \<times> oauth_state" where
  "finished r st = (case r of Inl err \<Rightarrow> (Failed err, st) | Inr st' \<Rightarrow> (Done, st'))"

text \<open>
  The last call stands for the creation, deletion and restoration of accounts. A call that raises leaves the state as it was:
  in a run the requests raise before they write, except for a supply of random tokens that is too short, which the code does not
  have.
\<close>

fun oauth_step :: "oauth_env \<Rightarrow> int \<Rightarrow> oauth_call \<Rightarrow> oauth_state \<Rightarrow> oauth_answer \<times> oauth_state" where
  "oauth_step e now (Authorize f) st = answered AuthorizeAnswer (POST_authorize e now f st) st"
| "oauth_step e now (AccessToken h g r1 r2) st = answered TokenAnswer (POST_access_token e now h g r1 r2 st) st"
| "oauth_step e now (RevokeToken h t hint) st = answered RevokeAnswer (POST_revoke_token e now h t hint st) st"
| "oauth_step e now (RevokeApp u c) st = finished (POST_revokeapp now u c st) st"
| "oauth_step e now (ClearSessions u ok) st = finished (POST_clear_sessions now u ok st) st"
| "oauth_step e now (UpdateApp u adm c f r s) st = finished (POST_updateapp e u adm c f r s st) st"
| "oauth_step e now (AddDeveloper u adm c n emp) st = (Done, POST_adddeveloper e u adm c n emp st)"
| "oauth_step e now (RemoveDeveloper u adm c n) st = finished (POST_removedeveloper e u adm c n st) st"
| "oauth_step e now (DeleteApp u c) st = (Done, POST_deleteapp u c st)"
| "oauth_step e now (SetAccount u a) st = (Done, st\<lparr>os_accounts := (os_accounts st)(u \<mapsto> a)\<rparr>)"

definition logged_in :: "string \<Rightarrow> oauth_state \<Rightarrow> bool" where
  "logged_in u st = (case os_accounts st u of None \<Rightarrow> False | Some a \<Rightarrow> \<not> oa_deleted a)"

text \<open>Who may call: the users of these requests are logged in, and accounts are known by the id in base 36.\<close>

fun may_call :: "oauth_call \<Rightarrow> oauth_state \<Rightarrow> bool" where
  "may_call (Authorize f) st = logged_in (az_user f) st"
| "may_call (RevokeApp u c) st = logged_in u st"
| "may_call (ClearSessions u ok) st = logged_in u st"
| "may_call (UpdateApp u adm c f r s) st = logged_in u st"
| "may_call (AddDeveloper u adm c n emp) st = logged_in u st"
| "may_call (RemoveDeveloper u adm c n) st = logged_in u st"
| "may_call (DeleteApp u c) st = logged_in u st"
| "may_call (SetAccount u a) st = (to36 (oa_id a) = Inr u)"
| "may_call _ st = True"

inductive oauth_run :: "oauth_env \<Rightarrow> int \<Rightarrow> oauth_state \<Rightarrow> oauth_event list \<Rightarrow> int \<Rightarrow> oauth_state \<Rightarrow> bool" for e t0 st0 where
  start: "oauth_run e t0 st0 [] t0 st0"
| step: "oauth_run e t0 st0 hist t st \<Longrightarrow> t \<le> now \<Longrightarrow> may_call call st \<Longrightarrow> oauth_step e now call st = (answer, st') \<Longrightarrow>
    oauth_run e t0 st0 (hist @ [(now, call, answer)]) now st'"

subsection \<open>Approvals\<close>

definition header_client :: "oauth_env \<Rightarrow> string option \<Rightarrow> string option" where
  "header_client e h = (case parse_http_basic (oe_b64decode e) h of Inl _ \<Rightarrow> None | Inr (c, _) \<Rightarrow> Some c)"

text \<open>
  The event by which the user \<open>u\<close> lets the client \<open>c\<close> act with the scope \<open>g\<close>: the form of the authorization page,
  sent with the right modhash and the button that allows the app, or his password, sent by a script.
\<close>

definition approves :: "oauth_env \<Rightarrow> string \<Rightarrow> string \<Rightarrow> oauth_scope \<Rightarrow> oauth_event \<Rightarrow> bool" where
  "approves e u c g = (\<lambda>(t, call, answer). case call of
     Authorize f \<Rightarrow>
       (\<exists>i. answer = AuthorizeAnswer (AuthCode i) \<or> answer = AuthorizeAnswer (AuthToken i)) \<and> az_user f = u \<and>
       az_modhash f \<and> given (az_authorize f) \<noteq> None \<and> az_client_id f = Some c \<and> VOAuth2Scope (az_scope f) = Some g
   | AccessToken h (GrantPassword user errs scope device) r1 r2 \<Rightarrow>
       (\<exists>i r. answer = TokenAnswer (TokenGranted i r)) \<and> user = Some u \<and> header_client e h = Some c \<and> asked_scope scope = Some g
   | _ \<Rightarrow> False)"

text \<open>The event hands out the access token \<open>i\<close>.\<close>

definition hands_out :: "string \<Rightarrow> oauth_event \<Rightarrow> bool" where
  "hands_out i = (\<lambda>(t, call, answer). answer = AuthorizeAnswer (AuthToken i) \<or> (\<exists>r. answer = TokenAnswer (TokenGranted i r)))"

subsection \<open>The invariant\<close>

definition known :: "string \<Rightarrow> oauth_state \<Rightarrow> bool" where
  "known u st \<longleftrightarrow> os_accounts st u \<noteq> None"

definition named_for :: "string \<Rightarrow> string \<Rightarrow> bool" where
  "named_for u i \<longleftrightarrow> (\<exists>t. i = user_id_prefix u @ CHR ''-'' # t)"

text \<open>A token that is of no use any more, and a code that is not.\<close>

definition dead_token :: "int \<Rightarrow> oauth_token \<Rightarrow> bool" where
  "dead_token now tk \<longleftrightarrow> tk_revoked tk \<noteq> None \<or> \<not> live now (tk_expires tk)"

definition dead_code :: "int \<Rightarrow> auth_code \<Rightarrow> bool" where
  "dead_code now co \<longleftrightarrow> co_used co \<noteq> None \<or> co_expires co \<le> now"

text \<open>
  \<open>A u c g\<close> says that \<open>u\<close> has let \<open>c\<close> act with the scope \<open>g\<close>, and \<open>H i t\<close> that the access token \<open>i\<close> was handed
  out at time \<open>t\<close>.
\<close>

definition accounts_ok :: "oauth_state \<Rightarrow> bool" where
  "accounts_ok st \<longleftrightarrow> (\<forall>u a. os_accounts st u = Some a \<longrightarrow> to36 (oa_id a) = Inr u)"

definition codes_ok :: "(string \<Rightarrow> string \<Rightarrow> oauth_scope \<Rightarrow> bool) \<Rightarrow> int \<Rightarrow> oauth_state \<Rightarrow> bool" where
  "codes_ok A now st \<longleftrightarrow> (\<forall>i co. os_codes st i = Some co \<longrightarrow>
     known (co_user co) st \<and> co_expires co \<le> now + code_ttl \<and> (\<forall>w. co_used co = Some w \<longrightarrow> co_expires co \<le> w) \<and>
     (dead_code now co \<or> A (co_user co) (co_client co) (oauth_scope_of (co_scope co))))"

definition token_fine ::
    "(string \<Rightarrow> string \<Rightarrow> oauth_scope \<Rightarrow> bool) \<Rightarrow> (string \<Rightarrow> int \<Rightarrow> bool) \<Rightarrow> int \<Rightarrow> oauth_state \<Rightarrow> token_kind \<Rightarrow> string \<Rightarrow> oauth_token \<Rightarrow> bool" where
  "token_fine A H now st k i tk \<longleftrightarrow>
     named_for (tk_user tk) i \<and> (tk_user tk \<noteq> [] \<longrightarrow> known (tk_user tk) st) \<and>
     (tk_user tk \<noteq> [] \<longrightarrow> dead_token now tk \<or> A (tk_user tk) (tk_client tk) (oauth_scope_of (tk_scope tk))) \<and>
     (k = Access \<longrightarrow> dead_token now tk \<or> (\<exists>t. tk_expires tk = Some (t + 3600) \<and> H i t))"

definition tokens_approved :: "(string \<Rightarrow> string \<Rightarrow> oauth_scope \<Rightarrow> bool) \<Rightarrow> (string \<Rightarrow> int \<Rightarrow> bool) \<Rightarrow> int \<Rightarrow> oauth_state \<Rightarrow> bool" where
  "tokens_approved A H now st \<longleftrightarrow> (\<forall>k i tk. os_tokens st k i = Some tk \<longrightarrow> token_fine A H now st k i tk)"

definition views_named :: "oauth_state \<Rightarrow> bool" where
  "views_named st \<longleftrightarrow> (\<forall>k u i e. (i, e) \<in> set (os_view st k u) \<longrightarrow> known u st \<and> named_for u i)"

definition oauth_inv :: "(string \<Rightarrow> string \<Rightarrow> oauth_scope \<Rightarrow> bool) \<Rightarrow> (string \<Rightarrow> int \<Rightarrow> bool) \<Rightarrow> int \<Rightarrow> oauth_state \<Rightarrow> bool" where
  "oauth_inv A H now st \<longleftrightarrow>
     tokens_ok now st \<and> accounts_ok st \<and> codes_ok A now st \<and> tokens_approved A H now st \<and> views_named st"

lemma dead_token_later: "dead_token now tk \<Longrightarrow> now \<le> now' \<Longrightarrow> dead_token now' tk"
  by (auto simp: dead_token_def live_def split: option.splits)

lemma token_fine_later: "token_fine A H now st k i tk \<Longrightarrow> now \<le> now' \<Longrightarrow> token_fine A H now' st k i tk"
  using dead_token_later [of now tk now'] unfolding token_fine_def by blast

lemma token_fine_mono:
  "token_fine A H now st k i tk \<Longrightarrow> (\<And>u c g. A u c g \<Longrightarrow> A' u c g) \<Longrightarrow> (\<And>i t. H i t \<Longrightarrow> H' i t) \<Longrightarrow> token_fine A' H' now st k i tk"
  unfolding token_fine_def by blast

lemma oauth_inv_later:
  assumes "oauth_inv A H now st" "now \<le> now'"
  shows "oauth_inv A H now' st"
proof -
  have "codes_ok A now' st"
    unfolding codes_ok_def
  proof (intro allI impI)
    fix i co assume "os_codes st i = Some co"
    then have "known (co_user co) st \<and> co_expires co \<le> now + code_ttl \<and> (\<forall>w. co_used co = Some w \<longrightarrow> co_expires co \<le> w) \<and>
        (dead_code now co \<or> A (co_user co) (co_client co) (oauth_scope_of (co_scope co)))"
      using assms(1) by (simp add: oauth_inv_def codes_ok_def)
    then show "known (co_user co) st \<and> co_expires co \<le> now' + code_ttl \<and> (\<forall>w. co_used co = Some w \<longrightarrow> co_expires co \<le> w) \<and>
        (dead_code now' co \<or> A (co_user co) (co_client co) (oauth_scope_of (co_scope co)))"
      using assms(2) by (auto simp: dead_code_def)
  qed
  moreover have "tokens_approved A H now' st"
    using assms token_fine_later unfolding oauth_inv_def tokens_approved_def by blast
  ultimately show ?thesis using assms tokens_ok_later by (auto simp: oauth_inv_def)
qed

lemma oauth_inv_mono:
  assumes "oauth_inv A H now st" "\<And>u c g. A u c g \<Longrightarrow> A' u c g" "\<And>i t. H i t \<Longrightarrow> H' i t"
  shows "oauth_inv A' H' now st"
proof -
  have "codes_ok A' now st" using assms(1,2) unfolding oauth_inv_def codes_ok_def by meson
  moreover have "tokens_approved A' H' now st"
    using assms token_fine_mono [of A H now st _ _ _ A' H'] unfolding oauth_inv_def tokens_approved_def by blast
  ultimately show ?thesis using assms(1) by (simp add: oauth_inv_def)
qed

text \<open>Only codes, tokens, views and accounts matter.\<close>

lemma oauth_inv_cong:
  assumes "oauth_inv A H now st" "os_codes st' = os_codes st" "os_tokens st' = os_tokens st" "os_view st' = os_view st"
    "os_accounts st' = os_accounts st"
  shows "oauth_inv A H now st'"
  using assms unfolding oauth_inv_def tokens_ok_def accounts_ok_def codes_ok_def tokens_approved_def token_fine_def views_named_def known_def by simp

subsection \<open>Names of tokens\<close>

lemma user_id_prefix_known:
  assumes "accounts_ok st" "known u st"
  shows "\<exists>n. 0 \<le> n \<and> to36 n = Inr u \<and> user_id_prefix u = py_str_int n \<and> u \<noteq> []"
proof -
  obtain a :: oauth_account where "to36 (oa_id a) = Inr u" using assms unfolding accounts_ok_def known_def by blast
  moreover from this have "0 \<le> oa_id a" by (auto simp: to36_def to_base_def split: if_splits)
  moreover have "from36 u = Inr (oa_id a)" "u \<noteq> []" using to36_nonneg [of "oa_id a"] calculation by auto
  ultimately show ?thesis by (auto simp: user_id_prefix_def)
qed

lemma dash_append_eq:
  fixes c :: char
  assumes "c \<notin> set a" "c \<notin> set b" "a @ c # s = b @ c # t"
  shows "a = b"
  using split_on_append [OF assms(1), of s] split_on_append [OF assms(2), of t] assms(3) by simp

lemma named_for_same:
  assumes "accounts_ok st" "known u st" "named_for u i" "named_for v i" "v \<noteq> [] \<longrightarrow> known v st"
  shows "u = v"
proof -
  obtain n where n: "0 \<le> n" "to36 n = Inr u" "user_id_prefix u = py_str_int n" using user_id_prefix_known [OF assms(1,2)] by blast
  have digits: "CHR ''-'' \<notin> set (py_str_int m)" if "0 \<le> m" for m
    using that char_digit_set_digits_of [of "CHR ''-''" "nat m"] by (auto simp: py_str_int_def char_digit_sign)
  obtain s t where st: "i = user_id_prefix u @ CHR ''-'' # s" "i = user_id_prefix v @ CHR ''-'' # t"
    using assms(3,4) unfolding named_for_def by blast
  show ?thesis
  proof (cases "v = []")
    case True
    then have "user_id_prefix v = []" by (simp add: user_id_prefix_def from36_def)
    then have "py_str_int n = []" using dash_append_eq [of "CHR ''-''" "py_str_int n" "[]" s t] st n digits by simp
    then show ?thesis using n(1) by (simp add: py_str_int_def)
  next
    case False
    then obtain m where m: "0 \<le> m" "to36 m = Inr v" "user_id_prefix v = py_str_int m"
      using user_id_prefix_known [OF assms(1)] assms(5) by blast
    then have "py_str_int n = py_str_int m" using dash_append_eq st n digits by metis
    then have "n = m" by (rule str_of_int_inj)
    then show ?thesis using n(2) m(2) by simp
  qed
qed

lemma oauth_inv_views:
  assumes "oauth_inv A H now st"
  shows "views_own st"
  unfolding views_own_def
proof (intro allI impI)
  fix k u i e tk assume *: "(i, e) \<in> set (os_view st k u)" "os_tokens st k i = Some tk"
  have u: "known u st" "named_for u i" using assms *(1) by (auto simp: oauth_inv_def views_named_def)
  have tk: "named_for (tk_user tk) i" "tk_user tk \<noteq> [] \<longrightarrow> known (tk_user tk) st"
    using assms *(2) by (auto simp: oauth_inv_def tokens_approved_def token_fine_def)
  have "accounts_ok st" using assms by (simp add: oauth_inv_def)
  from named_for_same [OF this u tk(1,2)] user_id_prefix_known [OF this u(1)] show "tk_user tk = u \<and> u \<noteq> []" by auto
qed

subsection \<open>The invariant is kept by revoking and issuing\<close>

lemma oauth_inv_rev:
  assumes "oauth_inv A H now st" "tokens_ok now st'" "rev_frame now st st'"
  shows "oauth_inv A H now st'"
proof -
  have same: "os_codes st' = os_codes st" "os_accounts st' = os_accounts st" using assms(3) by (simp_all add: rev_frame_def)
  have "token_fine A H now st' k i tk" if "os_tokens st' k i = Some tk" for k i tk
  proof -
    obtain tk0 where tk0: "os_tokens st k i = Some tk0" "same_token tk0 tk" "tk_revoked tk = None \<longrightarrow> tk0 = tk"
      using rev_frameD [OF assms(3) \<open>os_tokens st' k i = Some tk\<close>] by (elim exE conjE) (rule that)
    have "token_fine A H now st k i tk0" using assms(1) tk0(1) by (simp add: oauth_inv_def tokens_approved_def)
    moreover have "dead_token now tk0 \<longrightarrow> dead_token now tk"
      using tk0(3) by (cases "tk_revoked tk = None") (auto simp: dead_token_def)
    ultimately show ?thesis
      unfolding token_fine_def known_def same_token_fields [OF tk0(2)] same(2) by blast
  qed
  moreover have "views_named st'"
    unfolding views_named_def
  proof (intro allI impI)
    fix k u i x assume "(i, x) \<in> set (os_view st' k u)"
    then have "(i, x) \<in> set (os_view st k u)" using assms(3) unfolding rev_frame_def by blast
    then have "known u st \<and> named_for u i" using assms(1) unfolding oauth_inv_def views_named_def by blast
    then show "known u st' \<and> named_for u i" using same(2) by (simp add: known_def)
  qed
  ultimately show ?thesis
    using assms(1,2) same by (simp add: oauth_inv_def accounts_ok_def codes_ok_def tokens_approved_def known_def)
qed

lemma live_code:
  assumes "oauth_inv A H now st" "get_code now (Some i) st = Some co"
  shows "os_codes st i = Some co \<and> co_used co = None \<and> now < co_expires co \<and> co_expires co \<le> now + code_ttl \<and>
    known (co_user co) st \<and> A (co_user co) (co_client co) (oauth_scope_of (co_scope co))"
proof -
  have co: "os_codes st i = Some co" "now < co_expires co" "\<not> code_used now co"
    using assms(2) by (auto simp: get_code_def code_found_def code_used_def split: option.splits if_splits)
  have ok: "known (co_user co) st" "co_expires co \<le> now + code_ttl" "\<forall>w. co_used co = Some w \<longrightarrow> co_expires co \<le> w"
    "dead_code now co \<or> A (co_user co) (co_client co) (oauth_scope_of (co_scope co))"
    using assms(1) co(1) by (auto simp: oauth_inv_def codes_ok_def)
  have "co_used co = None"
  proof (cases "co_used co")
    case (Some w)
    then have "now < w" using ok(3) co(2) by force
    then show ?thesis using co(3) Some by (simp add: code_used_def)
  qed
  then show ?thesis using co ok by (auto simp: dead_code_def)
qed

lemma oauth_inv_new_code:
  assumes "oauth_inv A H now st" "new_code c uri u s refreshable rnd now st = Inr (i, st')" "known u st" "A u c (oauth_scope_of s)"
  shows "oauth_inv A H now st' \<and> os_tokens st' = os_tokens st"
proof -
  define co where "co = \<lparr>co_client = c, co_redirect_uri = uri, co_user = u, co_scope = s, co_refreshable = refreshable,
    co_expires = now + code_ttl, co_used = None\<rparr>"
  have st': "st' = st\<lparr>os_codes := (os_codes st)(i \<mapsto> co)\<rparr>"
    using assms(2) by (auto simp: new_code_def bindr_eq_Inr_iff co_def)
  have "codes_ok A now st'"
    unfolding codes_ok_def
  proof (intro allI impI)
    fix j co' assume j: "os_codes st' j = Some co'"
    show "known (co_user co') st' \<and> co_expires co' \<le> now + code_ttl \<and> (\<forall>w. co_used co' = Some w \<longrightarrow> co_expires co' \<le> w) \<and>
     (dead_code now co' \<or> A (co_user co') (co_client co') (oauth_scope_of (co_scope co')))"
    proof (cases "j = i")
      case True
      then have "co' = co" using j st' by simp
      then show ?thesis using assms(3,4) st' by (simp add: co_def known_def)
    next
      case False
      then have "os_codes st j = Some co'" using j st' by simp
      then show ?thesis using assms(1) st' by (simp add: oauth_inv_def codes_ok_def known_def)
    qed
  qed
  then show ?thesis using assms(1) st'
    by (simp add: oauth_inv_def tokens_ok_def accounts_ok_def tokens_approved_def token_fine_def views_named_def known_def)
qed

lemma oauth_inv_use_code:
  assumes "oauth_inv A H now st" "use_code now i c uri st = (r, st')"
  shows "oauth_inv A H now st' \<and> os_accounts st' = os_accounts st \<and> os_tokens st' = os_tokens st \<and>
    (case r of None \<Rightarrow> st' = st
     | Some co \<Rightarrow> get_code now (Some i) st = Some co \<and> co_client co = c \<and> co_redirect_uri co = uri \<and>
        os_codes st' = (os_codes st)(i \<mapsto> co\<lparr>co_used := Some (now + code_ttl)\<rparr>))"
proof (cases "get_code now (Some i) st")
  case (Some co)
  show ?thesis
  proof (cases "co_client co = c \<and> co_redirect_uri co = uri")
    case True
    then have r: "r = Some co" "st' = st\<lparr>os_codes := (os_codes st)(i \<mapsto> co\<lparr>co_used := Some (now + code_ttl)\<rparr>)\<rparr>"
      using assms(2) Some by (auto simp: use_code_def)
    note live = live_code [OF assms(1) Some]
    have "codes_ok A now st'"
      unfolding codes_ok_def
    proof (intro allI impI)
      fix j co' assume j: "os_codes st' j = Some co'"
      show "known (co_user co') st' \<and> co_expires co' \<le> now + code_ttl \<and> (\<forall>w. co_used co' = Some w \<longrightarrow> co_expires co' \<le> w) \<and>
       (dead_code now co' \<or> A (co_user co') (co_client co') (oauth_scope_of (co_scope co')))"
      proof (cases "j = i")
        case True
        then have "co' = co\<lparr>co_used := Some (now + code_ttl)\<rparr>" using j r(2) by simp
        then show ?thesis using live r(2) by (simp add: dead_code_def known_def)
      next
        case False
        then have "os_codes st j = Some co'" using j r(2) by simp
        then show ?thesis using assms(1) r(2) by (simp add: oauth_inv_def codes_ok_def known_def)
      qed
    qed
    then have "oauth_inv A H now st'" using assms(1) r(2)
      by (simp add: oauth_inv_def tokens_ok_def accounts_ok_def tokens_approved_def token_fine_def views_named_def known_def)
    then show ?thesis using r True Some by simp
  next
    case False
    then have "r = None \<and> st' = st" using assms(2) Some by (auto simp: use_code_def)
    then show ?thesis using assms(1) by simp
  qed
next
  case None
  then have "r = None \<and> st' = st" using assms(2) by (simp add: use_code_def)
  then show ?thesis using assms(1) by simp
qed

lemma set_update: "set (AList.update x y d) \<subseteq> insert (x, y) (set d)"
  by (induction d) auto

lemma oauth_inv_new_token:
  assumes "oauth_inv A H now st" "new_token k c u s refresh device rnd now st = Inr (i, st')"
    and "u \<noteq> [] \<Longrightarrow> known u st \<and> A u c (oauth_scope_of s)" "k = Access \<Longrightarrow> H i now"
  shows "oauth_inv A H now st' \<and> os_accounts st' = os_accounts st \<and> os_codes st' = os_codes st"
proof -
  define tk where "tk = \<lparr>tk_client = c, tk_user = u, tk_scope = s, tk_refresh = stored_str refresh,
    tk_device = stored_str device, tk_expires = expiry now (token_ttl k), tk_revoked = None\<rparr>"
  obtain t where t: "i = user_id_prefix u @ CHR ''-'' # t" using assms(2) by (auto simp: new_token_def bindr_eq_Inr_iff Let_def)
  have tok: "os_tokens st' = (os_tokens st)(k := (os_tokens st k)(i \<mapsto> tk))"
    and view: "os_view st' = (if u \<noteq> [] then (os_view st)(k := (os_view st k)(u := AList.update i (tk_expires tk) (os_view st k u))) else os_view st)"
    and same: "os_codes st' = os_codes st" "os_accounts st' = os_accounts st"
    using assms(2) by (auto simp: new_token_def bindr_eq_Inr_iff Let_def tk_def)
  have fresh: "token_ok now k tk" by (cases k) (auto simp: token_ok_def tk_def expiry_def token_ttl_def)
  have "tokens_ok now st'"
    unfolding tokens_ok_def
  proof (intro allI impI)
    fix k' j tk' assume j: "os_tokens st' k' j = Some tk'"
    show "token_ok now k' tk' \<and>
        (tk_user tk' \<noteq> [] \<longrightarrow> tk_revoked tk' = None \<longrightarrow> map_of (os_view st' k' (tk_user tk')) j = Some (tk_expires tk'))"
    proof (cases "(k', j) = (k, i)")
      case True
      then have "tk' = tk" using j tok by simp
      then show ?thesis using fresh True view by (simp add: tk_def)
    next
      case False
      then have "os_tokens st k' j = Some tk'" using j tok by (auto split: if_splits)
      then show ?thesis using assms(1) view False by (auto simp: oauth_inv_def tokens_ok_def)
    qed
  qed
  moreover have "token_fine A H now st' k' j tk'" if j: "os_tokens st' k' j = Some tk'" for k' j tk'
  proof (cases "(k', j) = (k, i)")
    case True
    then have "tk' = tk" using j tok by simp
    moreover have "tk_expires tk = Some (now + 3600)" if "k = Access" using that by (simp add: tk_def expiry_def token_ttl_def)
    ultimately show ?thesis using True assms(3,4) same(2) t by (auto simp: token_fine_def named_for_def known_def tk_def)
  next
    case False
    then have "os_tokens st k' j = Some tk'" using j tok by (auto split: if_splits)
    then have "token_fine A H now st k' j tk'" using assms(1) by (simp add: oauth_inv_def tokens_approved_def)
    then show ?thesis using same(2) by (simp add: token_fine_def known_def)
  qed
  moreover have "views_named st'"
    unfolding views_named_def
  proof (intro allI impI)
    fix k' u' j x assume j: "(j, x) \<in> set (os_view st' k' u')"
    show "known u' st' \<and> named_for u' j"
    proof (cases "(j, x) \<in> set (os_view st k' u')")
      case True
      then have "known u' st \<and> named_for u' j" using assms(1) unfolding oauth_inv_def views_named_def by blast
      then show ?thesis using same(2) by (simp add: known_def)
    next
      case False
      then have "u' = u" "u \<noteq> []" "j = i"
        using j view set_update [of i "tk_expires tk" "os_view st k u"] by (auto split: if_splits)
      then show ?thesis using assms(3) same(2) t by (auto simp: named_for_def known_def)
    qed
  qed
  ultimately show ?thesis using assms(1) same by (simp add: oauth_inv_def accounts_ok_def codes_ok_def tokens_approved_def known_def)
qed

subsection \<open>Every request keeps the invariant\<close>

lemma authorize_errors_Nil:
  "authorize_errors st f = [] \<Longrightarrow> az_modhash f \<and> given (az_authorize f) \<noteq> None"
  by (auto simp: authorize_errors_def split: if_splits)

lemma VOAuth2ClientID_Some:
  "VOAuth2ClientID st c = Some (i, cl) \<longleftrightarrow> c = Some i \<and> i \<noteq> [] \<and> os_clients st i = Some cl \<and> \<not> cl_deleted cl"
  by (auto simp: VOAuth2ClientID_def given_def split: option.splits if_splits)

lemma stored_scope:
  "VOAuth2Scope v = Some g \<Longrightarrow> oauth_scope_of (scope_str g) = g"
  "asked_scope v = Some g \<Longrightarrow> oauth_scope_of (scope_str g) = g"
proof -
  have valid: "oauth_scope_of (scope_str g) = g" if "given v = Some s" "scope_is_valid (oauth_scope_of s)" "g = oauth_scope_of s" for s
    using scope_roundtrip [of s] that by (auto simp: given_def split: option.splits if_splits)
  then show "VOAuth2Scope v = Some g \<Longrightarrow> oauth_scope_of (scope_str g) = g"
    by (auto simp: VOAuth2Scope_def split: option.splits if_splits)
  have full: "oauth_scope_of FULL_ACCESS = parse_scope_str ''*''" by (simp add: oauth_scope_of_def FULL_ACCESS_def)
  have plain: "\<forall>x \<in> sc_scopes (parse_scope_str ''*''). plain_scope x"
    by (simp add: parse_scope_str_def rpartition_def plain_scope_def)
  have "oauth_scope_of (scope_str (oauth_scope_of FULL_ACCESS)) = oauth_scope_of FULL_ACCESS"
    unfolding full using scope_str_parses [OF refl plain] scope_str_not_Nil [OF refl plain] by (simp add: oauth_scope_of_def)
  then show "asked_scope v = Some g \<Longrightarrow> oauth_scope_of (scope_str g) = g"
    using valid by (auto simp: asked_scope_def split: option.splits if_splits)
qed

lemma authorize_cases:
  assumes "POST_authorize e now f st = Inr (a, st')"
  obtains (refused) "st' = st" "\<forall>i. a \<noteq> AuthCode i \<and> a \<noteq> AuthToken i"
  | (code) c cl g i r where "az_client_id f = Some c" "os_clients st c = Some cl" "VOAuth2Scope (az_scope f) = Some g" "a = AuthCode i"
      "az_modhash f" "given (az_authorize f) \<noteq> None" "given (az_redirect_uri f) = Some (cl_redirect_uri cl)"
      "new_code c (cl_redirect_uri cl) (az_user f) (scope_str g) r (az_random f) now st = Inr (i, st')"
  | (token) c cl g i d where "az_client_id f = Some c" "os_clients st c = Some cl" "VOAuth2Scope (az_scope f) = Some g" "a = AuthToken i"
      "az_modhash f" "given (az_authorize f) \<noteq> None" "\<not> is_confidential cl"
      "new_token Access c (az_user f) (scope_str g) None d (az_random f) now st = Inr (i, st')"
proof -
  let ?errs = "authorize_errors st f" and ?client = "VOAuth2ClientID st (az_client_id f)"
  let ?rt = "fst (one_of [''code'', ''token''] ''code'' (az_response_type f))"
  let ?d = "fst (one_of [''temporary'', ''permanent''] ''temporary'' (az_duration f))"
  show thesis
  proof (cases "check_redirect_uri ?errs ?client (az_redirect_uri f)")
    case (Some err)
    then have "st' = st \<and> (\<forall>i. a \<noteq> AuthCode i \<and> a \<noteq> AuthToken i)" using assms by (auto simp: POST_authorize_def Let_def)
    then show thesis using refused by blast
  next
    case None
    note uri = this
    obtain c cl where cl: "?client = Some (c, cl)" "given (az_redirect_uri f) = Some (cl_redirect_uri cl)"
      using uri by (auto simp: check_redirect_uri_def split: if_splits option.splits prod.splits)
    show thesis
    proof (cases "check_response_type_and_scope ?errs")
      case (Some err)
      then have "st' = st \<and> (\<forall>i. a \<noteq> AuthCode i \<and> a \<noteq> AuthToken i)" using assms uri by (auto simp: POST_authorize_def Let_def)
      then show thesis using refused by blast
    next
      case None
      note rts = this
      have "VOAuth2Scope (az_scope f) \<noteq> None"
        using rts by (auto simp: check_response_type_and_scope_def authorize_errors_def split: if_splits)
      then obtain g where g: "VOAuth2Scope (az_scope f) = Some g" by blast
      show thesis
      proof (cases "check_client_type_and_duration ?rt cl ?d = None \<and> ?errs = []")
        case False
        then have "st' = st \<and> (\<forall>i. a \<noteq> AuthCode i \<and> a \<noteq> AuthToken i)"
          using assms uri rts cl g by (auto simp: POST_authorize_def Let_def split: option.splits)
        then show thesis using refused by blast
      next
        case True
        note ok = authorize_errors_Nil [of st f]
        have c: "az_client_id f = Some c" "os_clients st c = Some cl" using cl(1) by (simp_all add: VOAuth2ClientID_Some)
        show thesis
        proof (cases "?rt = ''code''")
          case True
          then have "bindr (new_code c (cl_redirect_uri cl) (az_user f) (scope_str g) (?d = ''permanent'') (az_random f) now st)
              (\<lambda>(c, st'). Inr (AuthCode c, st')) = Inr (a, st')"
            using assms uri rts cl g \<open>check_client_type_and_duration ?rt cl ?d = None \<and> ?errs = []\<close> by (simp add: POST_authorize_def Let_def)
          then obtain i where "new_code c (cl_redirect_uri cl) (az_user f) (scope_str g) (?d = ''permanent'') (az_random f) now st = Inr (i, st')"
            "a = AuthCode i" by (auto simp: bindr_eq_Inr_iff)
          then show thesis using code c g cl(2) ok \<open>check_client_type_and_duration ?rt cl ?d = None \<and> ?errs = []\<close> by blast
        next
          case False
          then have "bindr (new_token Access c (az_user f) (scope_str g) None (get_device_id e st cl (az_device f)) (az_random f) now st)
              (\<lambda>(t, st'). Inr (AuthToken t, st')) = Inr (a, st')"
            using assms uri rts cl g \<open>check_client_type_and_duration ?rt cl ?d = None \<and> ?errs = []\<close> by (simp add: POST_authorize_def Let_def)
          then obtain i where "new_token Access c (az_user f) (scope_str g) None (get_device_id e st cl (az_device f)) (az_random f) now st = Inr (i, st')"
            "a = AuthToken i" by (auto simp: bindr_eq_Inr_iff)
          moreover have "?rt = ''token''" using False by (auto simp: one_of_def split: option.splits if_splits)
          then have "\<not> is_confidential cl"
            using \<open>check_client_type_and_duration ?rt cl ?d = None \<and> ?errs = []\<close> by (auto simp: check_client_type_and_duration_def split: if_splits)
          ultimately show thesis using token c g ok \<open>check_client_type_and_duration ?rt cl ?d = None \<and> ?errs = []\<close> by blast
        qed
      qed
    qed
  qed
qed

lemma authorize_inv:
  assumes "POST_authorize e now f st = Inr (a, st')" "oauth_inv A H now st" "known (az_user f) st"
    and "\<And>u c g. approves e u c g (now, Authorize f, AuthorizeAnswer a) \<Longrightarrow> A u c g" "\<And>i. a = AuthToken i \<Longrightarrow> H i now"
  shows "oauth_inv A H now st'"
  using assms(1)
proof (cases rule: authorize_cases)
  case refused
  then show ?thesis using assms(2) by simp
next
  case (code c cl g i r)
  have "A (az_user f) c g" by (rule assms(4)) (use code in \<open>simp add: approves_def\<close>)
  then show ?thesis using oauth_inv_new_code [OF assms(2) code(8) assms(3)] stored_scope(1) [OF code(3)] by simp
next
  case (token c cl g i d)
  have "A (az_user f) c g" by (rule assms(4)) (use token in \<open>simp add: approves_def\<close>)
  then show ?thesis
    using oauth_inv_new_token [OF assms(2) token(8)] stored_scope(1) [OF token(3)] assms(3) assms(5) [OF token(4)] by simp
qed

lemma get_client_auth_header: "get_client_auth e h st = Some (c, cl) \<Longrightarrow> header_client e h = Some c"
  by (auto simp: get_client_auth_def header_client_def split: sum.splits option.splits if_splits)

text \<open>A token without a user: only the time at which it was handed out matters.\<close>

lemma userless_token_inv:
  assumes "new_token Access c [] s refresh d rnd now st = Inr (i, st')" "oauth_inv A H now st" "H i now"
  shows "oauth_inv A H now st'"
  using oauth_inv_new_token [OF assms(2,1)] assms(3) by simp

lemma access_token_code_inv:
  assumes "access_token_code e now c cl code uri device rnd1 rnd2 st = Inr (a, st')" "oauth_inv A H now st"
    and "\<And>i r. a = TokenGranted i r \<Longrightarrow> H i now"
  shows "oauth_inv A H now st'"
proof (cases "given code")
  case (Some x)
  note code = this
  show ?thesis
  proof (cases "given uri")
    case (Some y)
    obtain r st1 where use: "use_code now x c y st = (r, st1)" by fastforce
    note used = oauth_inv_use_code [OF assms(2) use]
    show ?thesis
    proof (cases r)
      case None
      then show ?thesis using assms(1) used code Some use by (auto simp: access_token_code_def)
    next
      case (Some co)
      have live: "known (co_user co) st" "A (co_user co) (co_client co) (oauth_scope_of (co_scope co))"
        using used Some live_code [OF assms(2), of x co] by auto
      have known1: "known (co_user co) st1" using live(1) used by (simp add: known_def)
      have "bindr (if co_refreshable co
                      then bindr (new_token Refresh (co_client co) (co_user co) (co_scope co) None None rnd1 now st1)
                        (\<lambda>(r, st2). Inr (Some r, st2))
                      else Inr (None, st1)) (\<lambda>(r, st2).
               bindr (new_token Access (co_client co) (co_user co) (co_scope co) (Some (case r of None \<Rightarrow> [] | Some r \<Rightarrow> r))
                   (get_device_id e st2 cl device) rnd2 now st2) (\<lambda>(a, st3).
               Inr (TokenGranted a r, st3))) = Inr (a, st')"
        using assms(1) code \<open>given uri = Some y\<close> use Some by (simp add: access_token_code_def)
      then obtain r2 st2 i where st2: "(if co_refreshable co
                      then bindr (new_token Refresh (co_client co) (co_user co) (co_scope co) None None rnd1 now st1)
                        (\<lambda>(r, st2). Inr (Some r, st2))
                      else Inr (None, st1)) = Inr (r2, st2)"
        and new: "new_token Access (co_client co) (co_user co) (co_scope co) (Some (case r2 of None \<Rightarrow> [] | Some r \<Rightarrow> r))
                   (get_device_id e st2 cl device) rnd2 now st2 = Inr (i, st')" "a = TokenGranted i r2"
        by (auto simp: bindr_eq_Inr_iff)
      have inv2: "oauth_inv A H now st2 \<and> os_accounts st2 = os_accounts st1"
      proof (cases "co_refreshable co")
        case True
        then obtain j where "new_token Refresh (co_client co) (co_user co) (co_scope co) None None rnd1 now st1 = Inr (j, st2)"
          using st2 by (auto simp: bindr_eq_Inr_iff)
        from oauth_inv_new_token [OF _ this] show ?thesis using used known1 live(2) by blast
      next
        case False
        then show ?thesis using st2 used by simp
      qed
      then have "known (co_user co) st2" using known1 by (simp add: known_def)
      then show ?thesis using oauth_inv_new_token [OF _ new(1)] inv2 live(2) assms(3) [OF new(2)] by blast
    qed
  next
    case None
    then show ?thesis using assms(1,2) code by (simp add: access_token_code_def)
  qed
next
  case None
  then show ?thesis using assms(1,2) by (simp add: access_token_code_def)
qed

lemma valid_refresh_token:
  assumes "VOAuth2RefreshToken now r st = Inr (Some (i, tk))" "oauth_inv A H now st"
  shows "tk_user tk \<noteq> [] \<longrightarrow> known (tk_user tk) st \<and> A (tk_user tk) (tk_client tk) (oauth_scope_of (tk_scope tk))"
proof -
  have tk: "os_tokens st Refresh i = Some tk" "check_valid now st tk = Inr True"
    using assms(1) found_row by (auto simp: VOAuth2RefreshToken_def bindr_eq_Inr_iff split: option.splits if_splits)
  have "token_ok now Refresh tk" "token_fine A H now st Refresh i tk"
    using assms(2) tk(1) by (simp_all add: oauth_inv_def tokens_ok_def tokens_approved_def)
  moreover from this(1) have "live now (tk_expires tk) \<and> tk_revoked tk = None" using check_valid_live [OF tk(2)] by blast
  ultimately show ?thesis by (simp add: token_fine_def dead_token_def)
qed

lemma access_token_inv:
  assumes "POST_access_token e now h g rnd1 rnd2 st = Inr (a, st')" "oauth_inv A H now st"
    and "\<And>u c sc. approves e u c sc (now, AccessToken h g rnd1 rnd2, TokenAnswer a) \<Longrightarrow> A u c sc"
    and "\<And>i r. a = TokenGranted i r \<Longrightarrow> H i now"
  shows "oauth_inv A H now st'"
proof (cases "get_client_auth e h st")
  case None
  then show ?thesis using assms(1,2) by (simp add: POST_access_token_def)
next
  case (Some x)
  obtain c cl where x: "x = (c, cl)" by (cases x)
  note auth = Some [unfolded x]
  show ?thesis
  proof (cases g)
    case (GrantCode code uri device)
    then show ?thesis using assms(1,2,4) auth access_token_code_inv by (simp add: POST_access_token_def)
  next
    case (GrantRefresh r)
    have "bindr (VOAuth2RefreshToken now r st) (\<lambda>r. case r of None \<Rightarrow> Inr (TokenError ''invalid_request'', st)
        | Some (ri, tk) \<Rightarrow> if tk_client tk \<noteq> c then Inr (TokenError ''invalid_request'', st)
           else bindr (new_token Access (tk_client tk) (tk_user tk) (tk_scope tk) (Some ri) None rnd1 now st)
             (\<lambda>(a, st'). Inr (TokenGranted a None, st'))) = Inr (a, st')"
      using assms(1) auth GrantRefresh by (simp add: POST_access_token_def access_token_refresh_def)
    then obtain v where v: "VOAuth2RefreshToken now r st = Inr v" "(case v of None \<Rightarrow> Inr (TokenError ''invalid_request'', st)
        | Some (ri, tk) \<Rightarrow> if tk_client tk \<noteq> c then Inr (TokenError ''invalid_request'', st)
           else bindr (new_token Access (tk_client tk) (tk_user tk) (tk_scope tk) (Some ri) None rnd1 now st)
             (\<lambda>(a, st'). Inr (TokenGranted a None, st'))) = Inr (a, st')"
      by (auto simp: bindr_eq_Inr_iff)
    show ?thesis
    proof (cases v)
      case None
      then show ?thesis using v(2) assms(2) by simp
    next
      case (Some y)
      obtain ri tk where y: "y = (ri, tk)" by (cases y)
      show ?thesis
      proof (cases "tk_client tk = c")
        case False
        then show ?thesis using v(2) Some y assms(2) by simp
      next
        case True
        then obtain i where i: "new_token Access (tk_client tk) (tk_user tk) (tk_scope tk) (Some ri) None rnd1 now st = Inr (i, st')"
          "a = TokenGranted i None" using v(2) Some y by (auto simp: bindr_eq_Inr_iff)
        have "VOAuth2RefreshToken now r st = Inr (Some (ri, tk))" using v(1) Some y by simp
        from valid_refresh_token [OF this assms(2)] show ?thesis
          using oauth_inv_new_token [OF assms(2) i(1)] assms(4) [OF i(2)] by blast
      qed
    qed
  next
    case (GrantPassword user errs scope device)
    have res: "access_token_password e now c cl user errs scope device rnd1 st = Inr (a, st')"
      using assms(1) auth GrantPassword by (simp add: POST_access_token_def)
    show ?thesis
    proof (cases "st' = st")
      case False
      then obtain u acc s i where u: "user = Some u" "os_accounts st u = Some acc" "asked_scope scope = Some s" "a = TokenGranted i None"
        and new: "new_token Access c u (scope_str s) None (get_device_id e st cl device) rnd1 now st = Inr (i, st')"
        using res by (auto simp: access_token_password_def bindr_eq_Inr_iff split: if_splits option.splits)
      have "A u c s"
        by (rule assms(3)) (use GrantPassword u get_client_auth_header [OF auth] in \<open>simp add: approves_def\<close>)
      moreover have "known u st" using u(2) by (simp add: known_def)
      ultimately show ?thesis
        using oauth_inv_new_token [OF assms(2) new] stored_scope(2) [OF u(3)] assms(4) [OF u(4)] by simp
    qed (use assms(2) in simp)
  next
    case (GrantClient scope device)
    then have "access_token_client_credentials e now c cl scope device rnd1 st = Inr (a, st')"
      using assms(1) auth by (simp add: POST_access_token_def)
    then consider "st' = st" | s i where "new_token Access c [] s None (get_device_id e st cl device) rnd1 now st = Inr (i, st')" "a = TokenGranted i None"
      by (auto simp: access_token_client_credentials_def bindr_eq_Inr_iff split: if_splits option.splits)
    then show ?thesis using assms(2,4) userless_token_inv by cases auto
  next
    case (GrantInstalled scope bad device)
    then have "access_token_installed now c scope bad device rnd1 st = Inr (a, st')"
      using assms(1) auth by (simp add: POST_access_token_def)
    then consider "st' = st" | s i where "new_token Access c [] s None device rnd1 now st = Inr (i, st')" "a = TokenGranted i None"
      by (auto simp: access_token_installed_def bindr_eq_Inr_iff split: if_splits option.splits)
    then show ?thesis using assms(2,4) userless_token_inv by cases auto
  next
    case GrantUnsupported
    then show ?thesis using assms(1,2) auth by (simp add: POST_access_token_def)
  qed
qed


lemma invD:
  assumes "oauth_inv A H now st"
  shows "tokens_ok now st" "accounts_ok st" "views_own st"
  using assms oauth_inv_views by (auto simp: oauth_inv_def)

lemma revoke_token_inv:
  assumes "POST_revoke_token e now h t hint st = Inr (a, st')" "oauth_inv A H now st"
  shows "oauth_inv A H now st' \<and> os_codes st' = os_codes st"
proof (cases "st' = st")
  case False
  then obtain k tk i where k: "token_found k now i st = Some tk" "revoke_token k now i tk st = Inr st'"
    using assms(1) by (auto simp: POST_revoke_token_def Let_def bindr_eq_Inr_iff find_Some_iff split: option.splits if_splits)
  have "row_agrees k (i, tk) st" using found_row [OF k(1)] by (auto simp: row_agrees_def)
  moreover have "k = Refresh \<Longrightarrow> token_user now tk \<noteq> [] \<and> os_accounts st (token_user now tk) \<noteq> None"
    using k(2) by (auto simp: revoke_token_def Let_def mark_revoked_def split: if_splits)
  ultimately obtain st1 where "revoke_token k now i tk st = Inr st1" "tokens_ok now st1" "rev_frame now st st1"
    using revoke_token_ok [OF invD(1) [OF assms(2)]] by blast
  then show ?thesis using k(2) oauth_inv_rev [OF assms(2)] by (simp add: rev_frame_def)
qed (use assms in simp)

lemma revoke_all_inv:
  assumes "oauth_inv A H now st" "known u st"
  shows "\<exists>st'. revoke_all_by_user k now u st = Inr st' \<and> oauth_inv A H now st' \<and> known u st' \<and> os_codes st' = os_codes st"
proof -
  obtain ts where ts: "tokens_by_user k now u st = Inr ts" by (simp add: tokens_by_user_spec)
  have own: "token_user now (snd x) = u \<and> u \<noteq> []" if "x \<in> set ts" for x
    using views_own_listed [OF invD(3) [OF assms(1)] ts invD(1) [OF assms(1)] that] by blast
  obtain st' where st': "foldm (revoke_if (\<lambda>_. Inr True) k now) ts st = Inr st'" "tokens_ok now st'" "rev_frame now st st'"
    using revoke_loop [OF invD(1) [OF assms(1)], of ts k "\<lambda>_. Inr True"] tokens_by_user_agree [OF ts] own assms(2)
    by (auto simp: known_def)
  have "known u st'" using st'(3) assms(2) by (simp add: known_def rev_frame_def)
  moreover have "os_codes st' = os_codes st" using st'(3) by (simp add: rev_frame_def)
  ultimately show ?thesis using ts st'(1) oauth_inv_rev [OF assms(1) st'(2,3)] by (simp add: revoke_all_by_user_def)
qed

lemma clear_sessions_inv:
  assumes "POST_clear_sessions now u ok st = Inr st'" "oauth_inv A H now st" "known u st"
  shows "oauth_inv A H now st' \<and> os_codes st' = os_codes st"
proof (cases ok)
  case True
  obtain st1 where st1: "revoke_all_by_user Access now u st = Inr st1" "oauth_inv A H now st1" "known u st1" "os_codes st1 = os_codes st"
    using revoke_all_inv [OF assms(2,3)] by blast
  then obtain st2 where "revoke_all_by_user Refresh now u st1 = Inr st2" "oauth_inv A H now st2" "os_codes st2 = os_codes st1"
    using revoke_all_inv by blast
  then show ?thesis using assms(1) st1(1,4) True by (simp add: POST_clear_sessions_def)
qed (use assms in \<open>simp add: POST_clear_sessions_def\<close>)

lemma revokeapp_inv:
  assumes "oauth_inv A H now st" "known u st"
  shows "\<exists>st'. POST_revokeapp now u c st = Inr st' \<and> oauth_inv A H now st' \<and> os_codes st' = os_codes st"
proof (cases "VOAuth2ClientID st c")
  case (Some x)
  obtain i cl where x: "x = (i, cl)" by (cases x)
  obtain a where "os_accounts st u = Some a" using assms(2) by (auto simp: known_def)
  moreover have "u \<noteq> []" using user_id_prefix_known [OF invD(2) [OF assms(1)] assms(2)] by blast
  ultimately obtain st' where "client_revoke i now u st = Inr st'" "tokens_ok now st'" "rev_frame now st st'"
    using client_revoke_ok [OF invD(1,3) [OF assms(1)]] by blast
  then show ?thesis using Some x oauth_inv_rev [OF assms(1)] by (simp add: POST_revokeapp_def rev_frame_def)
qed (use assms in \<open>simp add: POST_revokeapp_def\<close>)

subsection \<open>Managing apps\<close>

definition same_grants :: "oauth_state \<Rightarrow> oauth_state \<Rightarrow> bool" where
  "same_grants st st' \<longleftrightarrow> os_codes st' = os_codes st \<and> os_tokens st' = os_tokens st \<and> os_view st' = os_view st \<and>
     os_accounts st' = os_accounts st"

lemma set_client_grants [simp]: "same_grants st (set_client i cl st') \<longleftrightarrow> same_grants st st'"
  by (simp add: same_grants_def set_client_def)

lemma by_developer_grants [simp]: "same_grants st (st'\<lparr>os_by_developer := d\<rparr>) \<longleftrightarrow> same_grants st st'"
  by (simp add: same_grants_def)

lemma same_grants_refl [simp]: "same_grants st st"
  by (simp add: same_grants_def)

lemma add_developer_grants: "add_developer i cl u a force st0 = Inr st' \<Longrightarrow> same_grants st st0 \<Longrightarrow> same_grants st st'"
  by (auto simp: add_developer_def Let_def split: if_splits)

lemma add_new_developer_grants: "add_developer i cl u a force (set_client j cl' st) = Inr st' \<Longrightarrow> same_grants st st'"
  using add_developer_grants [of i "cl" u a force "set_client j cl' st" st' st] set_client_grants [of st j "cl'" st] by simp

lemma remove_developer_grants: "remove_developer i cl u st = Inr st' \<Longrightarrow> same_grants st st'"
  by (auto simp: remove_developer_def Let_def bindr_eq_Inr_iff split: if_splits)

lemma update_app_grants: "POST_updateapp e u adm c f rnd s st = Inr st' \<Longrightarrow> same_grants st st'"
  by (auto simp: POST_updateapp_def update_app_def create_app_def Let_def bindr_eq_Inr_iff
      split: if_splits option.splits intro: add_new_developer_grants)

lemma add_developer_request_grants: "same_grants st (POST_adddeveloper e u adm c n emp st)"
  by (auto simp: POST_adddeveloper_def split: option.splits sum.splits prod.splits intro: add_developer_grants)

lemma remove_developer_request_grants: "POST_removedeveloper e u adm c n st = Inr st' \<Longrightarrow> same_grants st st'"
  by (auto simp: POST_removedeveloper_def split: option.splits if_splits intro: remove_developer_grants)

lemma delete_app_grants: "same_grants st (POST_deleteapp u c st)"
  by (auto simp: POST_deleteapp_def split: option.splits)

lemma oauth_inv_grants: "oauth_inv A H now st \<Longrightarrow> same_grants st st' \<Longrightarrow> oauth_inv A H now st'"
  using oauth_inv_cong by (auto simp: same_grants_def)

lemma set_account_inv:
  assumes "oauth_inv A H now st" "to36 (oa_id a) = Inr u"
  shows "oauth_inv A H now (st\<lparr>os_accounts := (os_accounts st)(u \<mapsto> a)\<rparr>)"
proof -
  have "known v st \<Longrightarrow> known v (st\<lparr>os_accounts := (os_accounts st)(u \<mapsto> a)\<rparr>)" for v by (auto simp: known_def)
  then show ?thesis
    using assms unfolding oauth_inv_def accounts_ok_def codes_ok_def tokens_approved_def token_fine_def views_named_def tokens_ok_def
    by simp
qed


subsection \<open>Runs keep the invariant\<close>

lemma may_call_known: "logged_in u st \<Longrightarrow> known u st"
  by (auto simp: logged_in_def known_def split: option.splits)

lemma answered_cases:
  assumes "answered f r st = (answer, st')"
  obtains (failed) err where "st' = st" "answer = Failed err" | (returned) a where "r = Inr (a, st')" "answer = f a"
  using assms by (auto simp: answered_def split: sum.splits)

lemma finished_cases:
  assumes "finished r st = (answer, st')"
  obtains (failed) "st' = st" | (returned) "r = Inr st'"
  using assms by (auto simp: finished_def split: sum.splits)

lemma oauth_step_inv:
  assumes "oauth_inv A H now st" "may_call call st" "oauth_step e now call st = (answer, st')"
    and A: "\<And>u c g. approves e u c g (now, call, answer) \<Longrightarrow> A u c g"
    and H: "\<And>i. hands_out i (now, call, answer) \<Longrightarrow> H i now"
  shows "oauth_inv A H now st'"
proof (cases call)
  case (Authorize f)
  then have "answered AuthorizeAnswer (POST_authorize e now f st) st = (answer, st')" using assms(3) by simp
  then show ?thesis
  proof (cases rule: answered_cases)
    case (returned a)
    show ?thesis
      by (rule authorize_inv [OF returned(1) assms(1)])
        (use A H assms(2) may_call_known Authorize returned in \<open>auto simp: hands_out_def\<close>)
  qed (use assms(1) in simp)
next
  case (AccessToken h g r1 r2)
  then have "answered TokenAnswer (POST_access_token e now h g r1 r2 st) st = (answer, st')" using assms(3) by simp
  then show ?thesis
  proof (cases rule: answered_cases)
    case (returned a)
    show ?thesis
      by (rule access_token_inv [OF returned(1) assms(1)]) (use A H AccessToken returned in \<open>auto simp: hands_out_def\<close>)
  qed (use assms(1) in simp)
next
  case (RevokeToken h t hint)
  then have "answered RevokeAnswer (POST_revoke_token e now h t hint st) st = (answer, st')" using assms(3) by simp
  then show ?thesis
  proof (cases rule: answered_cases)
    case (returned a)
    then show ?thesis using revoke_token_inv assms(1) by blast
  qed (use assms(1) in simp)
next
  case (RevokeApp u c)
  then have "finished (POST_revokeapp now u c st) st = (answer, st')" "known u st"
    using assms(2,3) may_call_known by auto
  then show ?thesis using revokeapp_inv [OF assms(1), of u c] by (auto simp: finished_def)
next
  case (ClearSessions u ok)
  then have "finished (POST_clear_sessions now u ok st) st = (answer, st')" "known u st"
    using assms(2,3) may_call_known by auto
  from this(1) show ?thesis
  proof (cases rule: finished_cases)
    case returned
    then show ?thesis using clear_sessions_inv [OF _ assms(1) \<open>known u st\<close>] by blast
  qed (use assms(1) in simp)
next
  case (UpdateApp u adm c f r s)
  then have "finished (POST_updateapp e u adm c f r s st) st = (answer, st')" using assms(3) by simp
  then show ?thesis
  proof (cases rule: finished_cases)
    case returned
    then show ?thesis using oauth_inv_grants [OF assms(1)] update_app_grants by blast
  qed (use assms(1) in simp)
next
  case (AddDeveloper u adm c n emp)
  then have "st' = POST_adddeveloper e u adm c n emp st" using assms(3) by simp
  then show ?thesis using oauth_inv_grants [OF assms(1)] add_developer_request_grants by simp
next
  case (RemoveDeveloper u adm c n)
  then have "finished (POST_removedeveloper e u adm c n st) st = (answer, st')" using assms(3) by simp
  then show ?thesis
  proof (cases rule: finished_cases)
    case returned
    then show ?thesis using oauth_inv_grants [OF assms(1)] remove_developer_request_grants by blast
  qed (use assms(1) in simp)
next
  case (DeleteApp u c)
  then have "st' = POST_deleteapp u c st" using assms(3) by simp
  then show ?thesis using oauth_inv_grants [OF assms(1)] delete_app_grants by simp
next
  case (SetAccount u a)
  then have "st' = st\<lparr>os_accounts := (os_accounts st)(u \<mapsto> a)\<rparr>" "to36 (oa_id a) = Inr u" using assms(2,3) by simp_all
  then show ?thesis using set_account_inv [OF assms(1)] by simp
qed

text \<open>What a history adds to the approvals and to the tokens handed out.\<close>

definition approved_in :: "oauth_env \<Rightarrow> (string \<Rightarrow> string \<Rightarrow> oauth_scope \<Rightarrow> bool) \<Rightarrow> oauth_event list \<Rightarrow> string \<Rightarrow> string \<Rightarrow> oauth_scope \<Rightarrow> bool" where
  "approved_in e A hist u c g \<longleftrightarrow> A u c g \<or> list_ex (approves e u c g) hist"

definition handed_in :: "(string \<Rightarrow> int \<Rightarrow> bool) \<Rightarrow> oauth_event list \<Rightarrow> string \<Rightarrow> int \<Rightarrow> bool" where
  "handed_in H hist i t \<longleftrightarrow> H i t \<or> list_ex (\<lambda>ev. fst ev = t \<and> hands_out i ev) hist"

lemma oauth_run_inv:
  assumes "oauth_run e t0 st0 hist t st" "oauth_inv A H t0 st0"
  shows "oauth_inv (approved_in e A hist) (handed_in H hist) t st"
  using assms
proof (induction rule: oauth_run.induct)
  case start
  then show ?case by (rule oauth_inv_mono) (auto simp: approved_in_def handed_in_def)
next
  case (step hist t st now call answer st')
  let ?hist = "hist @ [(now, call, answer)]"
  have "oauth_inv (approved_in e A hist) (handed_in H hist) now st"
    using oauth_inv_later [OF step.IH [OF step.prems] step.hyps(2)] .
  then have "oauth_inv (approved_in e A ?hist) (handed_in H ?hist) now st"
    by (rule oauth_inv_mono) (auto simp: approved_in_def handed_in_def)
  then show ?case
    by (rule oauth_step_inv [OF _ step.hyps(3,4)]) (auto simp: approved_in_def handed_in_def)
qed

lemma oauth_run_later: "oauth_run e t0 st0 hist t st \<Longrightarrow> t0 \<le> t"
  by (induction rule: oauth_run.induct) auto

lemma oauth_run_append:
  assumes "oauth_run e t1 st1 hist' t2 st2" "oauth_run e t0 st0 hist t1 st1"
  shows "oauth_run e t0 st0 (hist @ hist') t2 st2"
  using assms
proof (induction rule: oauth_run.induct)
  case (step hist' t st now call answer st')
  from oauth_run.step [OF step.IH [OF step.prems] step.hyps(2-4)] show ?case by simp
qed simp

end
