(* ===== verification/OAuthSafety.thy ===== *)
theory OAuthSafety
  imports OAuthRun
begin

section \<open>What access tokens stand for\<close>

text \<open>
  What the runs of the requests guarantee: a token acts for a user only because that user approved the app (or gave a script
  of his own his password), works for an hour and no longer, a code is exchanged once, and an app that is revoked is locked
  out until it is approved again.
\<close>

subsection \<open>What happens to codes\<close>

text \<open>The event issues the code \<open>i\<close>; it issues it to a client for a redirect address.\<close>

fun issues :: "string \<Rightarrow> oauth_event \<Rightarrow> bool" where
  "issues i (t, Authorize f, answer) \<longleftrightarrow> answer = AuthorizeAnswer (AuthCode i)"
| "issues i _ \<longleftrightarrow> False"

fun issues_to :: "string \<Rightarrow> string option \<Rightarrow> string option \<Rightarrow> oauth_event \<Rightarrow> bool" where
  "issues_to i c uri (t, Authorize f, answer) \<longleftrightarrow>
     answer = AuthorizeAnswer (AuthCode i) \<and> az_client_id f = c \<and> given (az_redirect_uri f) = uri"
| "issues_to i c uri _ \<longleftrightarrow> False"

text \<open>The event exchanges the code \<open>i\<close> for a token.\<close>

fun exchanges :: "string \<Rightarrow> oauth_event \<Rightarrow> bool" where
  "exchanges i (t, AccessToken h (GrantCode (Some j) uri device) r1 r2, TokenAnswer (TokenGranted a r)) \<longleftrightarrow> j = i"
| "exchanges i _ \<longleftrightarrow> False"

definition how_often :: "('a \<Rightarrow> bool) \<Rightarrow> 'a list \<Rightarrow> nat" where
  "how_often P xs = length (filter P xs)"

lemma how_often_snoc [simp]: "how_often P (xs @ [x]) = how_often P xs + (if P x then 1 else 0)"
  by (simp add: how_often_def)

lemma how_often_Nil [simp]: "how_often P [] = 0"
  by (simp add: how_often_def)

definition unused :: "string \<Rightarrow> oauth_state \<Rightarrow> bool" where
  "unused i st = (case os_codes st i of None \<Rightarrow> False | Some co \<Rightarrow> co_used co = None)"

definition code_traced :: "oauth_event list \<Rightarrow> string \<Rightarrow> auth_code \<Rightarrow> bool" where
  "code_traced hist i co \<longleftrightarrow>
     list_ex (\<lambda>ev. issues_to i (Some (co_client co)) (Some (co_redirect_uri co)) ev \<and> co_expires co = fst ev + code_ttl) hist"

definition codes_inv :: "oauth_event list \<Rightarrow> oauth_state \<Rightarrow> bool" where
  "codes_inv hist st \<longleftrightarrow>
     (\<forall>i. how_often (exchanges i) hist + (if unused i st then 1 else 0) \<le> how_often (issues i) hist) \<and>
     (\<forall>i co. os_codes st i = Some co \<longrightarrow> co_used co = None \<longrightarrow> code_traced hist i co)"

lemma new_token_codes: "new_token k c u s refresh device rnd now st = Inr (i, st') \<Longrightarrow> os_codes st' = os_codes st"
  by (auto simp: new_token_def bindr_eq_Inr_iff Let_def)

lemma access_token_code_codes:
  assumes "access_token_code e now c cl code uri device r1 r2 st = Inr (a, st')"
  shows "(os_codes st' = os_codes st \<and> (\<forall>i r. a \<noteq> TokenGranted i r)) \<or>
    (\<exists>x y co. given code = Some x \<and> given uri = Some y \<and> get_code now (Some x) st = Some co \<and> co_client co = c \<and>
       co_redirect_uri co = y \<and> os_codes st' = (os_codes st)(x \<mapsto> co\<lparr>co_used := Some (now + code_ttl)\<rparr>) \<and> (\<exists>i r. a = TokenGranted i r))"
proof (cases "given code")
  case (Some x)
  note code = this
  show ?thesis
  proof (cases "given uri")
    case (Some y)
    note uri = this
    show ?thesis
    proof (cases "get_code now (Some x) st")
      case (Some co)
      show ?thesis
      proof (cases "co_client co = c \<and> co_redirect_uri co = y")
        case True
        then have "os_codes st' = (os_codes st)(x \<mapsto> co\<lparr>co_used := Some (now + code_ttl)\<rparr>) \<and> (\<exists>i r. a = TokenGranted i r)"
          using assms code uri Some
          by (auto simp: access_token_code_def use_code_def bindr_eq_Inr_iff split: if_splits dest!: new_token_codes)
        then show ?thesis using code uri Some True by blast
      next
        case False
        then show ?thesis using assms code uri Some by (auto simp: access_token_code_def use_code_def)
      qed
    next
      case None
      then show ?thesis using assms code uri by (auto simp: access_token_code_def use_code_def)
    qed
  next
    case None
    then show ?thesis using assms code by (auto simp: access_token_code_def)
  qed
next
  case None
  then show ?thesis using assms by (auto simp: access_token_code_def)
qed

lemma other_grant_codes:
  assumes "POST_access_token e now h g r1 r2 st = Inr (a, st')" "\<forall>code uri device. g \<noteq> GrantCode code uri device"
  shows "os_codes st' = os_codes st"
proof (cases "get_client_auth e h st")
  case None
  then show ?thesis using assms(1) by (simp add: POST_access_token_def)
next
  case (Some x)
  obtain c cl where "x = (c, cl)" by (cases x)
  note auth = Some [unfolded this]
  show ?thesis
  proof (cases g)
    case (GrantRefresh r)
    then have "access_token_refresh now c r r1 st = Inr (a, st')" using assms(1) auth by (simp add: POST_access_token_def)
    then obtain v :: "(string \<times> oauth_token) option" where v: "(case v of None \<Rightarrow> Inr (TokenError ''invalid_request'', st)
        | Some (ri, tk) \<Rightarrow> if tk_client tk \<noteq> c then Inr (TokenError ''invalid_request'', st)
           else bindr (new_token Access (tk_client tk) (tk_user tk) (tk_scope tk) (Some ri) None r1 now st)
             (\<lambda>(a, st'). Inr (TokenGranted a None, st'))) = Inr (a, st')"
      unfolding access_token_refresh_def bindr_eq_Inr_iff by (elim exE conjE) (rule that)
    then show ?thesis by (cases v) (auto simp: bindr_eq_Inr_iff split: if_splits dest!: new_token_codes)
  qed (use assms auth in \<open>auto simp: POST_access_token_def access_token_password_def access_token_client_credentials_def
      access_token_installed_def bindr_eq_Inr_iff split: option.splits if_splits dest!: new_token_codes\<close>)
qed

text \<open>Every step leaves the codes alone, issues one, or exchanges one.\<close>

lemma codes_step:
  assumes "oauth_inv A H now st" "may_call call st" "oauth_step e now call st = (answer, st')"
  obtains (same) "os_codes st' = os_codes st" "\<And>i. \<not> exchanges i (now, call, answer)"
  | (issue) f i co where "call = Authorize f" "answer = AuthorizeAnswer (AuthCode i)" "os_codes st' = (os_codes st)(i \<mapsto> co)"
      "az_client_id f = Some (co_client co)" "given (az_redirect_uri f) = Some (co_redirect_uri co)" "co_expires co = now + code_ttl"
  | (exchange) h code uri device r1 r2 i co a r where "call = AccessToken h (GrantCode code uri device) r1 r2" "code = Some i"
      "answer = TokenAnswer (TokenGranted a r)" "os_codes st' = (os_codes st)(i \<mapsto> co\<lparr>co_used := Some (now + code_ttl)\<rparr>)"
      "get_code now (Some i) st = Some co" "header_client e h = Some (co_client co)" "uri = Some (co_redirect_uri co)"
proof (cases call)
  case (Authorize f)
  then have "answered AuthorizeAnswer (POST_authorize e now f st) st = (answer, st')" using assms(3) by simp
  then show thesis
  proof (cases rule: answered_cases)
    case (returned a)
    from returned(1) show thesis
    proof (cases rule: authorize_cases)
      case (code c cl g i r)
      then have "\<exists>co. os_codes st' = (os_codes st)(i \<mapsto> co) \<and> co_client co = c \<and> co_redirect_uri co = cl_redirect_uri cl \<and>
          co_expires co = now + code_ttl"
        by (auto simp: new_code_def bindr_eq_Inr_iff)
      then show thesis using issue code returned(2) Authorize by metis
    qed (use same Authorize new_token_codes in auto)
  qed (use same Authorize in simp)
next
  case (AccessToken h g r1 r2)
  then have "answered TokenAnswer (POST_access_token e now h g r1 r2 st) st = (answer, st')" using assms(3) by simp
  then show thesis
  proof (cases rule: answered_cases)
    case (returned a)
    show thesis
    proof (cases g)
      case (GrantCode code uri device)
      show thesis
      proof (cases "get_client_auth e h st")
        case None
        then show thesis using same returned AccessToken by (auto simp: POST_access_token_def)
      next
        case (Some x)
        obtain c cl where "x = (c, cl)" by (cases x)
        note auth = Some [unfolded this]
        have "access_token_code e now c cl code uri device r1 r2 st = Inr (a, st')"
          using returned(1) auth GrantCode by (simp add: POST_access_token_def)
        from access_token_code_codes [OF this] show thesis
        proof (elim disjE exE conjE)
          assume *: "os_codes st' = os_codes st" "\<forall>i r. a \<noteq> TokenGranted i r"
          have "\<not> exchanges i (now, call, answer)" for i
            using *(2) AccessToken GrantCode returned(2) by (cases a; cases code) auto
          then show thesis using same *(1) by blast
        next
          fix x y co i r
          assume *: "given code = Some x" "given uri = Some y" "get_code now (Some x) st = Some co" "co_client co = c"
            "co_redirect_uri co = y" "os_codes st' = (os_codes st)(x \<mapsto> co\<lparr>co_used := Some (now + code_ttl)\<rparr>)" "a = TokenGranted i r"
          have "code = Some x" "uri = Some y" using *(1,2) by (auto simp: given_def split: option.splits if_splits)
          then show thesis using exchange [of h code uri device r1 r2 x i r co] AccessToken GrantCode returned(2) * get_client_auth_header [OF auth] by simp
        qed
      qed
    qed (use same AccessToken other_grant_codes [OF returned(1)] in auto)
  qed (use same AccessToken in auto)
next
  case (RevokeToken h t hint)
  then have "answered RevokeAnswer (POST_revoke_token e now h t hint st) st = (answer, st')" using assms(3) by simp
  then show thesis
  proof (cases rule: answered_cases)
    case (returned a)
    then show thesis using same RevokeToken revoke_token_inv assms(1) by auto
  qed (use same RevokeToken in simp)
next
  case (RevokeApp u c)
  then have "finished (POST_revokeapp now u c st) st = (answer, st')" "known u st"
    using assms(2,3) may_call_known by auto
  then show thesis using same RevokeApp revokeapp_inv [OF assms(1), of u c] by (auto simp: finished_def)
next
  case (ClearSessions u ok)
  then have "finished (POST_clear_sessions now u ok st) st = (answer, st')" "known u st"
    using assms(2,3) may_call_known by auto
  from this(1) show thesis
  proof (cases rule: finished_cases)
    case returned
    then show thesis using same ClearSessions clear_sessions_inv [OF _ assms(1) \<open>known u st\<close>] by auto
  qed (use same ClearSessions in simp)
next
  case (UpdateApp u adm c f r s)
  then have "finished (POST_updateapp e u adm c f r s st) st = (answer, st')" using assms(3) by simp
  then show thesis
  proof (cases rule: finished_cases)
    case returned
    then show thesis using same UpdateApp update_app_grants by (auto simp: same_grants_def)
  qed (use same UpdateApp in simp)
next
  case (AddDeveloper u adm c n emp)
  then show thesis using same assms(3) add_developer_request_grants by (auto simp: same_grants_def)
next
  case (RemoveDeveloper u adm c n)
  then have "finished (POST_removedeveloper e u adm c n st) st = (answer, st')" using assms(3) by simp
  then show thesis
  proof (cases rule: finished_cases)
    case returned
    then show thesis using same RemoveDeveloper remove_developer_request_grants by (auto simp: same_grants_def)
  qed (use same RemoveDeveloper in simp)
next
  case (DeleteApp u c)
  then show thesis using same assms(3) delete_app_grants by (auto simp: same_grants_def)
next
  case (SetAccount u a)
  then show thesis using same assms(3) by auto
qed


lemma code_traced_more: "code_traced hist i co \<Longrightarrow> code_traced (hist @ hist') i co"
  by (simp add: code_traced_def)

lemma codes_inv_step:
  assumes "codes_inv hist st" "oauth_inv A H now st" "may_call call st" "oauth_step e now call st = (answer, st')"
  shows "codes_inv (hist @ [(now, call, answer)]) st'"
  using assms(2-4)
proof (cases rule: codes_step)
  case same
  have "how_often (issues i) hist \<le> how_often (issues i) (hist @ [(now, call, answer)])" for i by simp
  moreover have "unused i st' = unused i st" for i by (simp add: unused_def same(1))
  ultimately show ?thesis
    using assms(1) same code_traced_more unfolding codes_inv_def by (simp add: trans_le_add1)
next
  case (issue f j co)
  let ?hist = "hist @ [(now, call, answer)]"
  have "how_often (exchanges i) ?hist + (if unused i st' then 1 else 0) \<le> how_often (issues i) ?hist" for i
  proof -
    have "how_often (exchanges i) hist + (if unused i st then 1 else 0) \<le> how_often (issues i) hist" using assms(1) by (simp add: codes_inv_def)
    moreover have "unused i st' = unused i st" if "i \<noteq> j" using that issue(3) by (simp add: unused_def)
    ultimately show ?thesis using issue(1,2) by (cases "i = j") auto
  qed
  moreover have "code_traced ?hist i co'" if "os_codes st' i = Some co'" "co_used co' = None" for i co'
  proof (cases "i = j")
    case True
    then show ?thesis using that issue by (simp add: code_traced_def)
  next
    case False
    then show ?thesis using that issue(3) assms(1) code_traced_more by (simp add: codes_inv_def)
  qed
  ultimately show ?thesis unfolding codes_inv_def by blast
next
  case (exchange h code uri device r1 r2 j co a r)
  have j: "unused j st" using live_code [OF assms(2) exchange(5)] by (simp add: unused_def)
  let ?hist = "hist @ [(now, call, answer)]"
  have "how_often (exchanges i) ?hist + (if unused i st' then 1 else 0) \<le> how_often (issues i) ?hist" for i
  proof -
    have "how_often (exchanges i) hist + (if unused i st then 1 else 0) \<le> how_often (issues i) hist" using assms(1) by (simp add: codes_inv_def)
    moreover have "unused i st' = (i \<noteq> j \<and> unused i st)" using exchange(4) by (simp add: unused_def)
    ultimately show ?thesis using j exchange(1-3) by (cases "i = j") auto
  qed
  moreover have "code_traced ?hist i co'" if "os_codes st' i = Some co'" "co_used co' = None" for i co'
  proof (cases "i = j")
    case True
    then show ?thesis using that exchange(4) by auto
  next
    case False
    then show ?thesis using that exchange(4) assms(1) code_traced_more by (simp add: codes_inv_def)
  qed
  ultimately show ?thesis unfolding codes_inv_def by blast
qed

text \<open>A site on which nothing has been granted yet.\<close>

definition no_grants :: "oauth_state \<Rightarrow> bool" where
  "no_grants st \<longleftrightarrow> (\<forall>i. os_codes st i = None) \<and> (\<forall>k i. os_tokens st k i = None) \<and> (\<forall>k u. os_view st k u = []) \<and> accounts_ok st"

lemma no_grants_inv: "no_grants st \<Longrightarrow> oauth_inv (\<lambda>_ _ _. False) (\<lambda>_ _. False) t st"
  by (simp add: no_grants_def oauth_inv_def tokens_ok_def codes_ok_def tokens_approved_def views_named_def)

lemma no_grants_run:
  assumes "oauth_run e t0 st0 hist t st" "no_grants st0"
  shows "oauth_inv (\<lambda>u c g. list_ex (approves e u c g) hist) (\<lambda>i t. list_ex (\<lambda>ev. fst ev = t \<and> hands_out i ev) hist) t st"
  using oauth_run_inv [OF assms(1) no_grants_inv [OF assms(2)]] by (rule oauth_inv_mono) (auto simp: approved_in_def handed_in_def)

lemma no_grants_codes:
  assumes "oauth_run e t0 st0 hist t st" "no_grants st0"
  shows "codes_inv hist st"
  using assms
proof (induction rule: oauth_run.induct)
  case start
  then show ?case by (simp add: codes_inv_def no_grants_def unused_def)
next
  case (step hist t st now call answer st')
  from codes_inv_step [OF step.IH [OF step.prems] oauth_inv_later [OF no_grants_run [OF step.hyps(1) step.prems] step.hyps(2)] step.hyps(3,4)]
  show ?case .
qed

subsection \<open>What a token shows\<close>

lemma authenticated_token:
  assumes "authenticate_with_token now header site required st = Inr (BearerOk v c g)"
  obtains i tk where "get_bearer_token header = Some i" "os_tokens st Access i = Some tk" "check_valid now st tk = Inr True"
    "v = given (Some (tk_user tk))" "c = tk_client tk" "g = oauth_scope_of (tk_scope tk)" "has_access g site required"
proof -
  obtain h i tk where *: "given header = Some h" "get_bearer_token (Some h) = Some i" "token_found Access now i st = Some tk"
    using assms by (auto simp: authenticate_with_token_def split: option.splits)
  then have "check_valid now st tk = Inr True" "v = given (Some (tk_user tk))" "c = tk_client tk" "g = oauth_scope_of (tk_scope tk)"
    "has_access g site required"
    using assms by (auto simp: authenticate_with_token_def bindr_eq_Inr_iff split: if_splits)
  moreover have "header = Some h" using *(1) by (auto simp: given_def split: option.splits if_splits)
  ultimately show thesis using that *(2) found_row [OF *(3)] by blast
qed

lemma valid_account:
  assumes "check_valid now st tk = Inr True" "live now (tk_expires tk)"
  shows "(\<exists>cl. os_clients st (tk_client tk) = Some cl \<and> \<not> cl_deleted cl) \<and> (tk_user tk \<noteq> [] \<longrightarrow> logged_in (tk_user tk) st)"
  using assms by (auto simp: check_valid_def token_client_def token_user_def logged_in_def split: if_splits option.splits)

text \<open>A token that acts for a user, in any state in which the invariant holds.\<close>

lemma authenticated_fine:
  assumes "oauth_inv A H now st" "authenticate_with_token now header site required st = Inr (BearerOk (Some u) c g)"
  shows "A u c g \<and> logged_in u st \<and> has_access g site required \<and> (\<exists>i t. get_bearer_token header = Some i \<and> H i t \<and> now < t + 3600)"
  using assms(2)
proof (cases rule: authenticated_token)
  case (1 i tk)
  have u: "tk_user tk = u" "u \<noteq> []" using 1(4) by (auto simp: given_def split: if_splits)
  have ok: "token_ok now Access tk" "token_fine A H now st Access i tk"
    using assms(1) 1(2) by (simp_all add: oauth_inv_def tokens_ok_def tokens_approved_def)
  then have live: "live now (tk_expires tk)" "tk_revoked tk = None" using check_valid_live [OF 1(3)] by auto
  then obtain t where "A u c g" "tk_expires tk = Some (t + 3600)" "H i t"
    using ok(2) u 1(5,6) by (auto simp: token_fine_def dead_token_def)
  moreover have "now < t + 3600" using live(1) calculation(2) by (simp add: live_def)
  ultimately show ?thesis using valid_account [OF 1(3) live(1)] u 1(1,7) by auto
qed


subsection \<open>The guarantees\<close>

text \<open>
  (C38) No token without approval. A request that is let in with a token acts for a user only if that user sent the form of the
  authorization page with its button and his modhash (or, for a script, his password) for that app and exactly the scope
  that the token now has, the scope covers what the handler requires, his account is not deleted, and the token was handed
  out less than an hour before.
\<close>

theorem token_needs_approval:
  assumes "oauth_run e t0 st0 hist t st" "no_grants st0" "t \<le> now"
    and "authenticate_with_token now header site required st = Inr (BearerOk (Some u) c g)"
  shows "list_ex (approves e u c g) hist \<and> has_access g site required \<and> logged_in u st \<and>
    (\<exists>i. get_bearer_token header = Some i \<and> list_ex (\<lambda>ev. hands_out i ev \<and> now < fst ev + 3600) hist)"
  using authenticated_fine [OF oauth_inv_later [OF no_grants_run [OF assms(1,2)] assms(3)] assms(4)]
  by (auto simp: list_ex_iff)

definition demo_env :: oauth_env where
  "demo_env = \<lparr>oe_b64decode = (\<lambda>_. Some ''app:''), oe_system_user = ''z''\<rparr>"

definition demo_site :: oauth_state where
  "demo_site = \<lparr>os_clients = [''app'' \<mapsto> \<lparr>cl_secret = ''s'', cl_redirect_uri = ''app://x'', cl_app_type = ''installed'',
       cl_deleted = False, cl_name = ''app'', cl_description = [], cl_about_url = [], cl_developers = []\<rparr>],
     os_by_developer = (\<lambda>_. []), os_codes = (\<lambda>_. None), os_tokens = (\<lambda>_ _. None), os_view = (\<lambda>_ _. []),
     os_accounts = [''1'' \<mapsto> \<lparr>oa_id = 1, oa_deleted = False\<rparr>]\<rparr>"

definition demo_form :: "string \<Rightarrow> authorize_form" where
  "demo_form rt = \<lparr>az_user = ''1'', az_modhash = True, az_client_id = Some ''app'', az_redirect_uri = Some ''app://x'',
     az_scope = Some ''read'', az_state = Some ''x'', az_duration = None, az_authorize = Some ''Allow'',
     az_response_type = Some rt, az_device = None, az_random = [''r'']\<rparr>"

lemma demo_no_grants: "no_grants demo_site"
proof -
  have "to36 1 = Inr ''1''" by code_simp
  then show ?thesis by (simp add: no_grants_def demo_site_def accounts_ok_def)
qed

definition demo_token :: "oauth_answer \<times> oauth_state" where
  "demo_token = oauth_step demo_env 5 (Authorize (demo_form ''token'')) demo_site"

lemma demo_token_answer: "fst demo_token = AuthorizeAnswer (AuthToken ''1-r'')"
  by code_simp

lemma demo_token_works:
  "authenticate_with_token 3604 (Some ''bearer 1-r'') ''pics'' {''read''} (snd demo_token) =
     Inr (BearerOk (Some ''1'') ''app'' (oauth_scope_of ''read''))"
  by code_simp


lemma demo_token_run: "oauth_run demo_env 5 demo_site [(5, Authorize (demo_form ''token''), AuthorizeAnswer (AuthToken ''1-r''))] 5 (snd demo_token)"
proof -
  have "may_call (Authorize (demo_form ''token'')) demo_site" by code_simp
  moreover have "oauth_step demo_env 5 (Authorize (demo_form ''token'')) demo_site = (AuthorizeAnswer (AuthToken ''1-r''), snd demo_token)"
    using demo_token_answer by (simp add: demo_token_def prod_eq_iff)
  ultimately show ?thesis using oauth_run.step [OF oauth_run.start order_refl] by fastforce
qed

theorem token_needs_approval_witness:
  "list_ex (approves demo_env ''1'' ''app'' (oauth_scope_of ''read'')) [(5, Authorize (demo_form ''token''), AuthorizeAnswer (AuthToken ''1-r''))]"
  using token_needs_approval [OF demo_token_run demo_no_grants _ demo_token_works] by simp

text \<open>
  (C39) A code is good for one token. Whenever a code is exchanged for tokens, the authorization page issued it less than ten
  minutes before, to the client that presents it and for the redirect address that is given, and it was issued more often than it has
  been exchanged so far.
\<close>

theorem code_exchange_ok:
  assumes "oauth_run e t0 st0 hist t st" "no_grants st0" "t \<le> now"
    and "oauth_step e now (AccessToken h (GrantCode code uri device) r1 r2) st = (TokenAnswer (TokenGranted a r), st')"
  shows "\<exists>i. code = Some i \<and> how_often (exchanges i) hist < how_often (issues i) hist \<and>
    list_ex (\<lambda>ev. issues_to i (header_client e h) uri ev \<and> now < fst ev + code_ttl) hist"
proof -
  note inv = oauth_inv_later [OF no_grants_run [OF assms(1,2)] assms(3)]
  have codes: "codes_inv hist st" by (rule no_grants_codes [OF assms(1,2)])
  have "may_call (AccessToken h (GrantCode code uri device) r1 r2) st" by simp
  from inv this assms(4) show ?thesis
  proof (cases rule: codes_step)
    case same
    have "code \<noteq> None"
      using assms(4) by (auto simp: answered_def POST_access_token_def access_token_code_def given_def split: sum.splits option.splits prod.splits)
    then show ?thesis using same(2) assms(4) by fastforce
  next
    case (exchange h' code' uri' device' r1' r2' i co a' r')
    note live = live_code [OF inv exchange(5)]
    have "unused i st" using live by (simp add: unused_def)
    then have "how_often (exchanges i) hist < how_often (issues i) hist" using codes [unfolded codes_inv_def, THEN conjunct1, rule_format, of i] by simp
    moreover have "code_traced hist i co" using codes live by (simp add: codes_inv_def)
    then have "list_ex (\<lambda>ev. issues_to i (header_client e h) uri ev \<and> now < fst ev + code_ttl) hist"
      using live exchange by (auto simp: code_traced_def list_ex_iff)
    ultimately show ?thesis using exchange(1,2) by blast
  qed simp
qed

text \<open>
  (C40) Revoking an app. When a user who is logged in revokes an app that exists, while no code of his for that app is pending, the
  request succeeds, and from then on no request is let in for him with a token of that app until he approves it again. Revocation
  leaves the codes as they are, so a pending one could still be exchanged.
\<close>

theorem revoked_app_locked_out:
  assumes "oauth_run e t0 st0 hist t st" "no_grants st0" "t \<le> now" "logged_in u st" "VOAuth2ClientID st (Some c) \<noteq> None"
    and "\<forall>i co. get_code now (Some i) st = Some co \<longrightarrow> \<not> (co_user co = u \<and> co_client co = c)"
    and "oauth_step e now (RevokeApp u (Some c)) st = (answer, st1)"
    and "oauth_run e now st1 hist' t' st'" "t' \<le> now'" "\<not> list_ex (\<lambda>ev. \<exists>g. approves e u c g ev) hist'"
  shows "answer = Done \<and> os_codes st1 = os_codes st \<and>
    authenticate_with_token now' header site required st' \<noteq> Inr (BearerOk (Some u) c g)"
proof -
  let ?A = "\<lambda>v d g. \<not> (v = u \<and> d = c)" and ?H = "\<lambda>_ _. True"
  obtain cl where cl: "os_clients st c = Some cl" "\<not> cl_deleted cl"
    using assms(5) by (auto simp: VOAuth2ClientID_Some)
  have inv: "oauth_inv (\<lambda>_ _ _. True) ?H now st"
    using oauth_inv_later [OF no_grants_run [OF assms(1,2)] assms(3)] by (rule oauth_inv_mono) simp_all
  have u: "known u st" using may_call_known [OF assms(4)] .
  obtain a where "os_accounts st u = Some a" "u \<noteq> []" using u user_id_prefix_known [OF invD(2) [OF inv] u] by (auto simp: known_def)
  then obtain st2 where st2: "client_revoke c now u st = Inr st2" "tokens_ok now st2" "rev_frame now st st2"
    and gone: "\<And>k i tk. os_tokens st2 k i = Some tk \<Longrightarrow> tk_client tk = c \<Longrightarrow> tk_user tk = u \<Longrightarrow> check_valid now st2 tk \<noteq> Inr True"
    using client_revoke_ok [OF invD(1,3) [OF inv]] by blast
  have "VOAuth2ClientID st (Some c) = Some (c, cl)" using assms(5) cl by (auto simp: VOAuth2ClientID_Some)
  then have step: "answer = Done" "st1 = st2" using assms(7) st2(1) by (simp_all add: POST_revokeapp_def finished_def)
  have inv2: "oauth_inv (\<lambda>_ _ _. True) ?H now st2" by (rule oauth_inv_rev [OF inv st2(2,3)])
  have same: "os_clients st2 = os_clients st" "os_accounts st2 = os_accounts st" "os_codes st2 = os_codes st"
    using st2(3) by (simp_all add: rev_frame_def)
  have "dead_token now tk" if tk: "os_tokens st2 k i = Some tk" "tk_client tk = c" "tk_user tk = u" for k i tk
  proof (rule ccontr)
    assume "\<not> dead_token now tk"
    then have "tk_revoked tk = None" "live now (tk_expires tk)" by (auto simp: dead_token_def)
    then have "check_valid now st2 tk = Inr True"
      using tk(2,3) cl same assms(4)
      by (auto simp: check_valid_def revoked_def token_client_def token_user_def logged_in_def split: option.splits)
    then show False using gone tk by blast
  qed
  then have "tokens_approved ?A ?H now st2"
    using inv2 unfolding oauth_inv_def tokens_approved_def token_fine_def by blast
  moreover have "codes_ok ?A now st2"
    unfolding codes_ok_def
  proof (intro allI impI)
    fix i co assume co: "os_codes st2 i = Some co"
    have ok: "known (co_user co) st2 \<and> co_expires co \<le> now + code_ttl \<and> (\<forall>w. co_used co = Some w \<longrightarrow> co_expires co \<le> w)"
      using inv2 co by (simp add: oauth_inv_def codes_ok_def)
    have "dead_code now co" if "co_user co = u" "co_client co = c"
    proof (rule ccontr)
      assume "\<not> dead_code now co"
      then have "get_code now (Some i) st = Some co"
        using co same(3) by (auto simp: dead_code_def get_code_def code_found_def code_used_def)
      then show False using assms(6) that by blast
    qed
    then show "known (co_user co) st2 \<and> co_expires co \<le> now + code_ttl \<and> (\<forall>w. co_used co = Some w \<longrightarrow> co_expires co \<le> w) \<and>
        (dead_code now co \<or> \<not> (co_user co = u \<and> co_client co = c))"
      using ok by blast
  qed
  ultimately have "oauth_inv ?A ?H now st1" using inv2 step(2) by (simp add: oauth_inv_def)
  from oauth_inv_later [OF oauth_run_inv [OF assms(8) this] assms(9)]
  have "authenticate_with_token now' header site required st' = Inr (BearerOk (Some u) c g) \<Longrightarrow> approved_in e ?A hist' u c g"
    using authenticated_fine by blast
  then have "authenticate_with_token now' header site required st' \<noteq> Inr (BearerOk (Some u) c g)"
    using assms(10) by (auto simp: approved_in_def list_ex_iff)
  then show ?thesis using step same(3) by simp
qed

lemma demo_token_codes: "os_codes (snd demo_token) = (\<lambda>_. None)"
proof -
  have "answered AuthorizeAnswer (POST_authorize demo_env 5 (demo_form ''token'') demo_site) demo_site =
      (AuthorizeAnswer (AuthToken ''1-r''), snd demo_token)"
    using demo_token_answer by (simp add: demo_token_def prod_eq_iff)
  then have "POST_authorize demo_env 5 (demo_form ''token'') demo_site = Inr (AuthToken ''1-r'', snd demo_token)"
    by (cases rule: answered_cases) auto
  then have "os_codes (snd demo_token) = os_codes demo_site"
    by (cases rule: authorize_cases) (auto dest: new_token_codes)
  then show ?thesis by (simp add: demo_site_def)
qed

theorem revoked_app_locked_out_witness:
  "authenticate_with_token 7 (Some ''bearer 1-r'') ''pics'' {''read''}
     (snd (oauth_step demo_env 6 (RevokeApp ''1'' (Some ''app'')) (snd demo_token))) \<noteq> Inr (BearerOk (Some ''1'') ''app'' (oauth_scope_of ''read''))"
proof -
  have "logged_in ''1'' (snd demo_token)" by code_simp
  moreover have "VOAuth2ClientID (snd demo_token) (Some ''app'') \<noteq> None" by code_simp
  moreover have "\<forall>i co. get_code 6 (Some i) (snd demo_token) = Some co \<longrightarrow> \<not> (co_user co = ''1'' \<and> co_client co = ''app'')"
    by (simp add: get_code_def code_found_def demo_token_codes)
  ultimately show ?thesis
    using revoked_app_locked_out [OF demo_token_run demo_no_grants _ _ _ _ prod.collapse [symmetric] oauth_run.start, of 6 "''1''" "''app''" 7]
    by simp
qed

definition demo_code :: "oauth_answer \<times> oauth_state" where
  "demo_code = oauth_step demo_env 5 (Authorize (demo_form ''code'')) demo_site"

lemma demo_code_run: "oauth_run demo_env 5 demo_site [(5, Authorize (demo_form ''code''), AuthorizeAnswer (AuthCode ''r''))] 5 (snd demo_code)"
proof -
  have "may_call (Authorize (demo_form ''code'')) demo_site" by code_simp
  moreover have "fst demo_code = AuthorizeAnswer (AuthCode ''r'')" by code_simp
  then have "oauth_step demo_env 5 (Authorize (demo_form ''code'')) demo_site = (AuthorizeAnswer (AuthCode ''r''), snd demo_code)"
    by (simp add: demo_code_def prod_eq_iff)
  ultimately show ?thesis using oauth_run.step [OF oauth_run.start order_refl] by fastforce
qed

theorem code_exchange_ok_witness:
  "how_often (exchanges ''r'') [(5, Authorize (demo_form ''code''), AuthorizeAnswer (AuthCode ''r''))] <
     how_often (issues ''r'') [(5, Authorize (demo_form ''code''), AuthorizeAnswer (AuthCode ''r''))]"
proof -
  let ?call = "AccessToken (Some ''basic x'') (GrantCode (Some ''r'') (Some ''app://x'') None) [''t''] [''t'']"
  have "fst (oauth_step demo_env 6 ?call (snd demo_code)) = TokenAnswer (TokenGranted ''1-t'' None)" by code_simp
  then have "oauth_step demo_env 6 ?call (snd demo_code) =
      (TokenAnswer (TokenGranted ''1-t'' None), snd (oauth_step demo_env 6 ?call (snd demo_code)))"
    by (simp only: prod_eq_iff fst_conv snd_conv)
  from code_exchange_ok [OF demo_code_run demo_no_grants _ this] show ?thesis by simp
qed

text \<open>A code that is pending when its app is revoked still gives a token that works.\<close>

lemma code_outlives_revocation:
  "let st1 = snd (oauth_step demo_env 6 (RevokeApp ''1'' (Some ''app'')) (snd demo_code));
       st2 = snd (oauth_step demo_env 7 (AccessToken (Some ''basic x'') (GrantCode (Some ''r'') (Some ''app://x'') None) [''t''] [''t'']) st1)
   in authenticate_with_token 8 (Some ''bearer 1-t'') ''pics'' {''read''} st2 = Inr (BearerOk (Some ''1'') ''app'' (oauth_scope_of ''read''))"
  by code_simp

end
