(* ===== verification/Spec2Isabelle.thy ===== *)
theory Spec2Isabelle
  imports Hooks Permissions Base36 Karma QueryCache VoteMachine Listings Cache RateLimit Lock Permacache
    Feature MessageTree CommentPage Pagination WikiSafety AutomodSafety
    OneTimePassword TryLater SubredditRules OAuthSafety
begin

text \<open>
  A verification library for the server of the site, a Python web application under \<open>r2/r2\<close>. Users
  vote on links and comments; votes travel through message queues to consumers that store them,
  change counters and karma and update precomputed listings. Listings, comment trees and message
  conversations live in a persistent cache over Cassandra with memcached and local caches in front,
  guarded by locks in memcached.

  \<^bold>\<open>How the parts are modelled.\<close>

  \<^item> \<^bold>\<open>Prelude\<close>: exceptions as values (\<open>py_error\<close>, \<open>result\<close>, \<open>bindr\<close>), dictionaries as association
    lists, JSON values, string operations, \<open>int\<close> and \<open>str\<close>, descending sorts. An operation that raises
    returns \<open>Inl\<close> and its partial effects are not followed further.
  \<^item> \<^bold>\<open>Hooks\<close> (\<open>lib/hooks.py\<close>): hooks, their handlers and deferred registration.
  \<^item> \<^bold>\<open>Permissions\<close> (\<open>lib/permissions.py\<close>): permission sets of moderators, parsing and printing.
  \<^item> \<^bold>\<open>Base36\<close> (\<open>lib/utils/_utils.pyx\<close>): ids in base 36.
  \<^item> \<^bold>\<open>Karma\<close> (\<open>models/account.py\<close>): \<open>karma\<close> and \<open>incr_karma\<close> over the attributes of an account.
  \<^item> \<^bold>\<open>QueryCache\<close> (\<open>models/query_cache.py\<close>): cached queries in Cassandra, their sort, pruning, the
    mutator and row keys. The locale \<open>py_comparator\<close> states what \<open>list.sort(cmp=...)\<close> needs and is
    interpreted on \<open>ThingTupleComparator\<close>.
  \<^item> \<^bold>\<open>Vote\<close> (\<open>models/vote.py\<close>): votes, their effects, and the column families they are written to and
    read from. \<^bold>\<open>Voting\<close> (\<open>lib/voting.py\<close>): \<open>cast_vote\<close>, the two vote consumers and the follow-up queues.
    \<^bold>\<open>VoteMachine\<close>: the step relation of users who click and consumers that process, with its invariant.
  \<^item> \<^bold>\<open>Listings\<close> (\<open>lib/db/queries.py\<close>, parts of \<open>lib/db/thing.py\<close>, \<open>lib/db/operators.py\<close> and \<open>lib/voting.py\<close>):
    \<open>CachedResults\<close>, the keys of listings, \<open>add_queries\<close> and the author, subreddit and domain consumers.
  \<^item> \<^bold>\<open>Cache\<close> (\<open>lib/cache.py\<close>): \<open>LocalCache\<close>, \<open>CMemcache\<close>, \<open>Mcrouter\<close>, the cache chains and
    \<open>TransitionalCache\<close>. The locale \<open>kv_cache\<close> states what a chain needs of each cache; \<open>memcached\<close> states
    the documented behaviour of the client library and gives \<open>kv_cache\<close> for the links of a chain.
    \<^bold>\<open>Permacache\<close>: \<open>Permacache\<close> over such a chain. \<^bold>\<open>RateLimit\<close> (\<open>lib/ratelimit.py\<close>) and
    \<^bold>\<open>Lock\<close> (\<open>lib/lock.py\<close>, locale \<open>lease_cache\<close>, a step relation of threads) use the caches.
  \<^item> \<^bold>\<open>Feature\<close> (\<open>config/feature/state.py\<close>, \<open>world.py\<close>, \<open>feature.py\<close>): feature flags and experiments.
  \<^item> \<^bold>\<open>CommentTree\<close> (\<open>models/comment_tree.py\<close>, \<open>lib/utils/comment_tree_utils.pyx\<close>): the tree of a link's
    comments. \<^bold>\<open>MessageTree\<close> (\<open>lib/comment_tree.py\<close>): conversations of private messages.
  \<^item> \<^bold>\<open>Sorts\<close> (\<open>lib/db/_sorts.pyx\<close>): the sort functions, with C integers at their width. \<^bold>\<open>CommentScores\<close>
    (\<open>lib/comment_tree.py\<close>, \<open>CommentScoresByLink\<close>): stored scores of comments. \<^bold>\<open>CommentOrder\<close>
    (\<open>models/builder.py\<close>): the orderers that choose the comments of a page from tree and scores, and the
    precomputed orders. \<^bold>\<open>CommentPage\<close>: the order for questions and answers, \<open>write_comment_orders\<close> and
    \<open>add_comments\<close>, which puts the parts of the comment system together.

  \<^item> \<^bold>\<open>Pagination\<close> (\<open>models/builder.py\<close>): the builders that cut a listing into pages and what they skip; the locale
    \<open>page_source\<close> states what the loop of a builder needs of the source of its items.
  \<^item> \<^bold>\<open>UserRel\<close> (\<open>lib/db/userrel.py\<close>, \<open>SRMember\<close> of \<open>models/subreddit.py\<close>, \<open>lib/memoize.py\<close>): moderators,
    contributors and banned users with their memoized lists; the locale \<open>membership\<close> states how members come
    and go. \<^bold>\<open>Subreddit\<close> (\<open>models/subreddit.py\<close>): who may view, write and moderate, and sticky links.
  \<^item> \<^bold>\<open>ColumnQuery\<close> (\<open>View\<close> and \<open>ColumnQuery\<close> of \<open>lib/db/tdb_cassandra.py\<close>, \<open>models/last_modified.py\<close>): rows of a
    column family and queries across a row. \<^bold>\<open>WikiNames\<close>, \<^bold>\<open>Wiki\<close> (\<open>models/wiki.py\<close>): names, pages and revisions.
    \<^bold>\<open>WikiAccess\<close> (\<open>lib/validator/wiki.py\<close>): who may view and revise a page. \<^bold>\<open>WikiApi\<close> (\<open>controllers/wiki.py\<close>,
    the style sheet of \<open>models/subreddit.py\<close>): the requests that change a wiki; the locale \<open>request_system\<close> carries an
    invariant from single requests to runs. \<^bold>\<open>WikiSafety\<close>: what the requests guarantee.
  \<^item> \<^bold>\<open>AdminTools\<close> (\<open>models/admintools.py\<close>, \<open>models/report.py\<close>): removing and approving things, reports and the
    counters they change. \<^bold>\<open>AutomodRules\<close>, \<^bold>\<open>AutomodChecks\<close>, \<^bold>\<open>Automod\<close> (\<open>lib/automoderator.py\<close>,
    \<open>models/automoderator.py\<close>): the rules that moderators write on a wiki page, how they are read and validated,
    their conditions, their actions over \<open>AdminTools\<close>, and the consumer that applies them to new posts.
    \<^bold>\<open>AutomodFrame\<close>: what the actions leave alone, by interpretations of the locale \<open>frame_relation\<close>.
    \<^bold>\<open>AutomodSafety\<close>: what the consumer guarantees.
  \<^item> \<^bold>\<open>Signing\<close> (\<open>lib/signing.py\<close>, \<open>controllers/login.py\<close>): signed requests and the login of the signed API.
    \<^bold>\<open>OneTimePassword\<close> (\<open>lib/totp.py\<close>, \<open>VOneTimePassword\<close> of \<open>lib/validator/validator.py\<close>): one-time passwords
    with bytes and machine words at their width; the locale \<open>mark_store\<close> states what the cache of used
    passwords promises and follows from \<open>lease_cache\<close>.
  \<^item> \<^bold>\<open>TryLater\<close> (\<open>models/trylater.py\<close>, temporary bans of \<open>models/subreddit.py\<close> and \<open>controllers/api.py\<close>): delayed
    work and the end of bans. \<^bold>\<open>SubredditRules\<close> (\<open>models/rules.py\<close> and the requests of \<open>controllers/api.py\<close>): the
    rules of a subreddit and the lists they implement.
  \<^item> \<^bold>\<open>OAuthScope\<close>, \<^bold>\<open>OAuth\<close> (\<open>models/token.py\<close>, \<open>controllers/oauth2.py\<close>, parts of \<open>controllers/reddit_base.py\<close> and
    \<open>controllers/api.py\<close>): scopes, clients, codes and tokens of OAuth 2 and the requests that use them, with
    columns that expire one by one. \<^bold>\<open>OAuthRevoke\<close>: revoking, over the locale \<open>frame_relation\<close>.
    \<^bold>\<open>OAuthRun\<close>, \<^bold>\<open>OAuthSafety\<close>: runs of all these requests and what they guarantee: tokens need an
    approval and expire, codes are exchanged once, and an app that is revoked is locked out.

  \<^bold>\<open>What is shown.\<close> In runs where a user's clicks on a thing do not overtake each other the counters of
  a thing follow its stored votes exactly, the table in \<open>cast_vote\<close> implements two independent
  switches and a redelivered message changes nothing; a race and votes of an old model break this,
  which is shown too. A stored listing keeps the top items when one item is inserted, and the queue
  consumers update exactly the right listings. Cached queries list the sorted rows and pruning never
  removes an item that would be shown. Cache chains and the permacache refine a map from keys to values,
  locks exclude each other while their leases run, usages are counted in the right time slice. Trees
  of comments are well formed, with right depths and numbers of descendants; adding messages one by
  one gives the conversations that a recomputation gives. Permission sets and base-36 ids survive
  printing and parsing. Experiments assign a bucket to at most one variant. A page of comments shows none
  twice and each after the one it replies to, loses no top-level comment, and is the same whether it is
  computed or cut from a precomputed order; a new comment reaches the precomputed pages. Following the
  links of a listing from page to page ends and shows every visible item once. The memoized members of a
  subreddit are those of the relation; private subreddits stay closed to outsiders and bans hold until
  they are lifted. A wiki page is always its last revision, no revision is lost, edits need permission and
  are stored as sent, and the list of pages is complete. Reports are counted exactly, removing and approving
  are inverse. Rules of the automoderator that are accepted are well formed; it leaves removed and protected
  posts alone, repeats no message and follows edits of its page. Only properly signed requests log in through the
  signed API, a signature stands for one body and time, and a one-time password is accepted once. Delayed work
  is done exactly once and not too early, so temporary bans end in time. The rules of a subreddit are a list of
  at most ten names, whatever requests change them. An access token acts for a user only with an approval of his,
  a code gives tokens once and in time, and a revoked app is locked out unless a code of it was pending.

  \<^bold>\<open>Parameters.\<close> The clock, Cassandra's and PostgreSQL's answers, the memcached client, SHA-1, HMAC, the JSON
  and YAML parsers, the engine of regular expressions, plugin hooks, request data and configuration are arguments of the definitions. What a theorem
  needs of them is a hypothesis: laws of the client library (locale \<open>memcached\<close>), leases of the lock
  cache (\<open>lease_cache\<close>), no collisions of SHA-1 among the queries concerned. Loops are structural
  recursions or have a termination proof; no definition uses fuel. The order in which Python iterates
  over sets and dictionaries is taken to be insertion order.

  \<^bold>\<open>What is not modelled.\<close> Request handling, validation, rendering, the object-relational mapping,
  payments and advertising, search, mail and media, because they mostly call external services. Numbers
  of type \<open>double\<close> are real numbers.

  \<^bold>\<open>Plan.\<close> Next: the hard cache backend, selection of flair and the inbox.
\<close>

section \<open>From a vote to the listings\<close>

lemma counted_vote_queues:
  assumes "process_link_vote e srid m w = Inr w'" "e_valid_msg e m"
    and "w_accounts w (m_user_id m) = Some user" "w_things w (m_thing m) = Some link" "tkey_of link = m_thing m"
    and "commit_message e user link m w = Inr (Some (v, w1))" "affects_score (v_effects v)"
    and "\<not> th_spam link" "\<not> th_deleted link" "\<not> e_shard e ''author''" "\<not> e_shard e ''subreddit''"
  shows "(''author_query_q'', ThingItem (m_thing m)) \<in> set (w_queue w') \<and>
    (''subreddit_query_q'', ThingItem (m_thing m)) \<in> set (w_queue w')"
  using assms
  by (auto simp: process_link_vote_def lookup_account_def lookup_thing_def bindr_eq_Inr_iff Let_def
      add_to_domain_query_q_def add_to_subreddit_query_q_def add_to_author_query_q_def queue_item_def
      split: option.splits)

text \<open>
  (C14) A counted vote on a link reaches the listings. The consumer that commits the vote queues the
  link for its author's and its subreddit's listings; when the consumers of these queues process
  that item, the link is inserted with its current sort values into each of the four listings of the
  author and of the subreddit.
\<close>

theorem vote_reaches_listings:
  fixes cfg :: "'v::linorder lconfig"
  assumes "process_link_vote e srid m w = Inr w'" "e_valid_msg e m"
    and "w_accounts w (m_user_id m) = Some user" "w_things w (m_thing m) = Some link" "tkey_of link = m_thing m"
    and "commit_message e user link m w = Inr (Some (v, w1))" "affects_score (v_effects v)"
    and "\<not> th_spam link" "\<not> th_deleted link" "\<not> e_shard e ''author''" "\<not> e_shard e ''subreddit''"
    and "fullname e (m_thing m) = Inr name" "by_fullname name = Inr l" "l_author l = th_author link" "l_sr l = srid"
    and "distinct (SORTS cfg)" "\<And>c. c \<in> set listing_cols \<Longrightarrow> l_attr l c \<noteq> None" "distinct (l_domains l)"
    and "account_exists (th_author link)" "sr_exists srid"
    and "no_collision cfg author_rules (\<lambda>l. [l_author l]) [l]" "no_collision cfg sr_rules (\<lambda>l. [l_sr l]) [l]"
    and "srt \<in> set (SORTS cfg)" "author_key = listing_key cfg author_rules (th_author link, srt)"
    and "sr_key = listing_key cfg sr_rules (srid, srt)"
  shows "(''author_query_q'', ThingItem (m_thing m)) \<in> set (w_queue w') \<and>
    (''subreddit_query_q'', ThingItem (m_thing m)) \<in> set (w_queue w') \<and>
    (\<exists>st'. process_author_queries cfg by_fullname account_exists [name] st = Inr st' \<and>
       ls_perma st' author_key = Some (insert_tuples (lc_limit cfg) (listing_tuples (col_of cfg srt) [l])
         (stored_listing (ls_perma st) author_key))) \<and>
    (\<exists>st'. process_subreddit_queries cfg by_fullname sr_exists [name] st = Inr st' \<and>
       ls_perma st' sr_key = Some (insert_tuples (lc_limit cfg) (listing_tuples (col_of cfg srt) [l])
         (stored_listing (ls_perma st) sr_key)))"
proof -
  have links: "mapr by_fullname (remdups [name]) = Inr [l]" using assms(13) by simp
  have at: "l' \<in> set [l] \<Longrightarrow> c \<in> set listing_cols \<Longrightarrow> l_attr l' c \<noteq> None" for l' c using assms(17) by simp
  obtain sta where a: "process_author_queries cfg by_fullname account_exists [name] st = Inr sta"
    "listings_updated cfg author_rules (\<lambda>l. [l_author l]) [l] st sta"
    using author_listings_updated [OF assms(16) links at _ assms(21)] assms(14,19) by auto
  obtain sts where s: "process_subreddit_queries cfg by_fullname sr_exists [name] st = Inr sts"
    "listings_updated cfg sr_rules (\<lambda>l. [l_sr l]) [l] st sts"
    using subreddit_listings_updated [OF assms(16) links at _ assms(22)] assms(15,20) by auto
  have "ls_perma sta author_key = Some (insert_tuples (lc_limit cfg) (listing_tuples (col_of cfg srt) [l])
      (stored_listing (ls_perma st) author_key))"
    using listings_updatedD [OF a(2), of "th_author link" srt] assms(14,23,24) by (simp add: listing_keys_def)
  moreover have "ls_perma sts sr_key = Some (insert_tuples (lc_limit cfg) (listing_tuples (col_of cfg srt) [l])
      (stored_listing (ls_perma st) sr_key))"
    using listings_updatedD [OF s(2), of srid srt] assms(15,23,25) by (simp add: listing_keys_def)
  ultimately show ?thesis using a(1) s(1) counted_vote_queues [OF assms(1-11)] by blast
qed

theorem vote_reaches_listings_witness:
  "\<exists>w' st'. process_link_vote site_env 7 site_msg site = Inr w' \<and>
     (''author_query_q'', ThingItem (Link, 10)) \<in> set (w_queue w') \<and>
     process_author_queries sample_lconfig (\<lambda>n. Inr (sample_link n 1 4)) (\<lambda>_. True) [''t3_a'']
       \<lparr>ls_perma = (\<lambda>_. None), ls_mutations = []\<rparr> = Inr st' \<and>
     ls_perma st' (listing_key sample_lconfig author_rules (1, ''hot'')) = Some [(''t3_a'', [4, 4])]"
proof -
  let ?l = "sample_link ''t3_a'' 1 4" and ?st = "\<lparr>ls_perma = (\<lambda>_. None), ls_mutations = []\<rparr>"
  let ?ak = "listing_key sample_lconfig author_rules (1, ''hot'')" and ?sk = "listing_key sample_lconfig sr_rules (7, ''hot'')"
  have c: "case commit_message site_env (site_account 2) site_link site_msg site of
      Inr (Some (v, w1)) \<Rightarrow> affects_score (v_effects v) | _ \<Rightarrow> False"
    by code_simp
  then obtain v w1 where v: "commit_message site_env (site_account 2) site_link site_msg site = Inr (Some (v, w1))"
    "affects_score (v_effects v)"
    by (auto split: sum.splits option.splits)
  have p: "case process_link_vote site_env 7 site_msg site of Inr _ \<Rightarrow> True | _ \<Rightarrow> False"
    by code_simp
  then obtain w' where w': "process_link_vote site_env 7 site_msg site = Inr w'"
    by (auto split: sum.splits)
  have nc: "no_collision sample_lconfig rules keys [sample_link ''t3_a'' 1 4]" for rules :: "'k \<Rightarrow> op_rule list" and keys
    by (simp add: no_collision_def sample_lconfig_def inj_on_def)
  have n: "fullname site_env (m_thing site_msg) = Inr ''t3_a''" by code_simp
  have i: "insert_tuples (lc_limit sample_lconfig) (listing_tuples (col_of sample_lconfig ''hot'') [sample_link ''t3_a'' 1 4]) []
      = [(''t3_a'', [4, 4])]" by code_simp
  have site: "e_valid_msg site_env m" "\<not> e_shard site_env q" "m_thing site_msg = (Link, 10)" "m_user_id site_msg = 2"
    "w_accounts site 2 = Some (site_account 2)" "w_things site (Link, 10) = Some site_link"
    "\<not> th_spam site_link" "\<not> th_deleted site_link" "th_author site_link = 1" "tkey_of site_link = (Link, 10)" for m q
    by (simp_all add: site_env_def site_msg_def site_def site_link_def tkey_of_def)
  have link: "l_author (sample_link n 1 4) = 1" "l_sr (sample_link n 1 4) = 7" "distinct (l_domains (sample_link n 1 4))"
    "l_attr (sample_link n 1 4) c \<noteq> None" for n c
    by (simp_all add: sample_link_def)
  have sorts: "distinct (SORTS sample_lconfig)" "''hot'' \<in> set (SORTS sample_lconfig)"
    by (simp_all add: SORTS_def sample_lconfig_def)
  have "(''author_query_q'', ThingItem (m_thing site_msg)) \<in> set (w_queue w') \<and>
    (''subreddit_query_q'', ThingItem (m_thing site_msg)) \<in> set (w_queue w') \<and>
    (\<exists>st'. process_author_queries sample_lconfig (\<lambda>n. Inr (sample_link n 1 4)) (\<lambda>_. True) [''t3_a''] ?st = Inr st' \<and>
       ls_perma st' ?ak = Some (insert_tuples (lc_limit sample_lconfig)
         (listing_tuples (col_of sample_lconfig ''hot'') [?l]) (stored_listing (ls_perma ?st) ?ak))) \<and>
    (\<exists>st'. process_subreddit_queries sample_lconfig (\<lambda>n. Inr (sample_link n 1 4)) (\<lambda>_. True) [''t3_a''] ?st = Inr st' \<and>
       ls_perma st' ?sk = Some (insert_tuples (lc_limit sample_lconfig)
         (listing_tuples (col_of sample_lconfig ''hot'') [?l]) (stored_listing (ls_perma ?st) ?sk)))"
    by (rule vote_reaches_listings [OF w' _ _ _ _ v _ _ _ _ n]) (simp_all add: site link sorts nc)
  then show ?thesis using w' i site(3) by (simp add: stored_listing_def)
qed

end
